(* ===== verification/Prelude.thy ===== *)
theory Prelude
  imports Main "HOL-Library.Word" "HOL-Library.Monad_Syntax"
begin

text \<open>
  Shared vocabulary of the libcplus development: the C integer types, pointers, the return
  codes and errno values of \<^verbatim>\<open>cplus/cplus_typedef.h\<close> and \<^verbatim>\<open>src/common.h\<close>, the ways a C
  call can fail to return, and the generic lemmas and lemma collections that the component
  theories share.
\<close>

unbundle bit_operations_syntax

section \<open>C integer types and pointers\<close>

type_synonym u8 = "8 word"
type_synonym u16 = "16 word"
type_synonym u32 = "32 word"
type_synonym u64 = "64 word"

text \<open>A pointer is a 64-bit address; \<open>CPLUS_NULL\<close> is address 0.\<close>

type_synonym ptr = "64 word"

abbreviation CPLUS_NULL :: ptr where "CPLUS_NULL \<equiv> 0"

section \<open>Return codes\<close>

text \<open>
  The library reports failures by a return value (\<open>CPLUS_FAIL\<close>, \<open>CPLUS_NULL\<close>, \<open>false\<close>)
  and, mostly, by writing \<open>errno\<close>. A failing call is \<open>Inl e\<close>, where \<open>e\<close> is the value
  written to \<open>errno\<close>, or \<open>ENONE\<close> where the code fails and leaves \<open>errno\<close> alone; a
  successful call is \<open>Inr r\<close> with \<open>r\<close> the value it returns.
\<close>

datatype errno =
    ENONE | EINVAL | ENOMEM | ENOENT | ENOBUFS | EAGAIN | EBUSY | ETIMEDOUT
  | ENOTSUP | EILSEQ | EDEADLK | EEXIST | EPERM | EBADF | EMFILE

type_synonym 'a cresult = "errno + 'a"

definition CPLUS_SUCCESS :: int where "CPLUS_SUCCESS = 0"

definition CPLUS_FAIL :: int where "CPLUS_FAIL = -1"

text \<open>\<open>CPLUS_INFINITE_TIMEOUT\<close> is \<open>(0U - 1)\<close>: all bits set.\<close>

definition CPLUS_INFINITE_TIMEOUT :: u32 where "CPLUS_INFINITE_TIMEOUT = 0 - 1"

section \<open>Calls that do not return\<close>

text \<open>
  A call may also never return a value: it dereferences a null or dangling pointer, touches
  memory outside the object, fails an \<open>assert\<close>, spins on a lock nobody will release, or
  performs a conversion whose result the C standard leaves undefined.
  \<open>'a exec\<close> is either such a fault or a result.
\<close>

datatype fault = Null_deref | Out_of_bounds | Assert_fail | Spin_forever | Undefined

type_synonym 'a exec = "fault + 'a"

definition exec_bind :: "'a exec \<Rightarrow> ('a \<Rightarrow> 'b exec) \<Rightarrow> 'b exec" where
  "exec_bind m k = (case m of Inl f \<Rightarrow> Inl f | Inr x \<Rightarrow> k x)"

lemma exec_bind_simps [simp]:
  "exec_bind (Inl f) k = Inl f"
  "exec_bind (Inr x) k = k x"
  by (simp_all add: exec_bind_def)

lemma exec_bind_eq_Inr:
  "exec_bind m k = Inr y \<longleftrightarrow> (\<exists>x. m = Inr x \<and> k x = Inr y)"
  by (cases m) auto

lemma exec_bind_assoc:
  "exec_bind (exec_bind m k) h = exec_bind m (\<lambda>x. exec_bind (k x) h)"
  by (cases m) auto

lemma exec_bindE:
  assumes "exec_bind m k = Inr y"
  obtains x where "m = Inr x" "k x = Inr y"
  using assms by (auto simp: exec_bind_eq_Inr)

section \<open>Constructors with an exit label\<close>

text \<open>
  The constructors of the system objects run through a list of steps, each of which may
  jump to the label \<^verbatim>\<open>exit\<close> with a value in \<open>errno\<close>; what follows the label is up to
  the caller.  \<open>until_exit\<close> runs the steps to the first jump.
\<close>

type_synonym 's step = "'s \<Rightarrow> (unit cresult \<times> 's) exec"

primrec until_exit :: "'s step list \<Rightarrow> 's step" where
  "until_exit [] s = Inr (Inr (), s)"
| "until_exit (f # fs) s = exec_bind (f s) (\<lambda>(r, s1). case r of
     Inl e \<Rightarrow> Inr (Inl e, s1) | Inr _ \<Rightarrow> until_exit fs s1)"

lemma exec_bind_jump:
  "exec_bind m (\<lambda>(r, s1). case r of Inl e \<Rightarrow> Inr (Inl e, s1) | Inr x \<Rightarrow> k x s1) = Inr (r', s') \<longleftrightarrow>
   (\<exists>e. m = Inr (Inl e, s') \<and> r' = Inl e) \<or> (\<exists>x s1. m = Inr (Inr x, s1) \<and> k x s1 = Inr (r', s'))"
proof (cases m)
  case (Inr p)
  obtain r s1 where "p = (r, s1)" by force
  then show ?thesis using Inr by (cases r) auto
qed simp

lemma until_exit_Cons:
  "until_exit (f # fs) s = Inr (r, s2) \<longleftrightarrow>
   (\<exists>e. f s = Inr (Inl e, s2) \<and> r = Inl e) \<or> (\<exists>s1. f s = Inr (Inr (), s1) \<and> until_exit fs s1 = Inr (r, s2))"
  by (simp add: exec_bind_jump)

lemma until_exit_single: "until_exit [f] s = Inr (r, s2) \<longleftrightarrow> f s = Inr (r, s2)"
  by (cases r) (auto simp: exec_bind_jump)

lemma until_exit_append:
  "until_exit (fs @ gs) s = exec_bind (until_exit fs s) (\<lambda>(r, s1). case r of
     Inl e \<Rightarrow> Inr (Inl e, s1) | Inr _ \<Rightarrow> until_exit gs s1)"
  by (induction fs arbitrary: s) (auto simp: exec_bind_def split: sum.splits prod.splits)

lemma until_exit_total:
  "(\<And>f s. f \<in> set fs \<Longrightarrow> \<exists>r s1. f s = Inr (r, s1)) \<Longrightarrow> \<exists>r s1. until_exit fs s = Inr (r, s1)"
proof (induction fs arbitrary: s)
  case (Cons f fs)
  obtain r s1 where f: "f s = Inr (r, s1)" using Cons.prems [of f s] by auto
  have "\<exists>r s2. until_exit fs s1 = Inr (r, s2)" by (rule Cons.IH) (use Cons.prems in simp)
  then show ?case using f by (cases r) auto
qed simp

section \<open>Descriptors\<close>

abbreviation INVALID_FD :: int where "INVALID_FD \<equiv> -1"

text \<open>A new descriptor has the lowest number that is not in use, as POSIX demands.\<close>

definition lowest_unused :: "int list \<Rightarrow> int" where
  "lowest_unused used = hd (filter (\<lambda>i. i \<notin> set used) (map int [0..<length used + 1]))"

lemma unused_exists: "filter (\<lambda>i. i \<notin> set used) (map int [0..<length used + 1]) \<noteq> []"
proof
  let ?n = "length used"
  assume "filter (\<lambda>i. i \<notin> set used) (map int [0..<?n + 1]) = []"
  then have "int ` {0..<?n + 1} \<subseteq> set used" by (auto simp: filter_empty_conv simp del: upt_Suc)
  then have "card (int ` {0..<?n + 1}) \<le> card (set used)" by (simp add: card_mono)
  also have "\<dots> \<le> ?n" by (rule card_length)
  finally show False by (simp add: card_image)
qed

lemma lowest_unused_free: "lowest_unused used \<notin> set used" "0 \<le> lowest_unused used"
  using hd_in_set [OF unused_exists [of used]] by (auto simp: lowest_unused_def simp del: upt_Suc)

lemma lowest_unused_close [simp]:
  "filter (\<lambda>e. fst e \<noteq> lowest_unused (map fst xs)) xs = xs"
proof (intro filter_True ballI)
  fix e
  assume "e \<in> set xs"
  then have "fst e \<in> set (map fst xs)" by simp
  then show "fst e \<noteq> lowest_unused (map fst xs)" using lowest_unused_free(1) by metis
qed

section \<open>Lemma collections\<close>

named_theorems wf_intros \<open>preservation of well-formedness by the operations of a component\<close>
named_theorems spec_simps \<open>functional behaviour of operations over the abstract state\<close>

section \<open>Generic lemmas\<close>

lemma bind_eq_SomeE:
  assumes "Option.bind m k = Some y"
  obtains x where "m = Some x" "k x = Some y"
  using assms by (auto simp: bind_eq_Some_conv)

lemma unat_of_nat_u32 [simp]: "n < 4294967296 \<Longrightarrow> unat (of_nat n :: u32) = n"
  by (simp add: unat_of_nat take_bit_nat_eq_self_iff take_bit_nat_eq_self)

lemma unat_of_nat_ptr: "n < 18446744073709551616 \<Longrightarrow> unat (of_nat n :: ptr) = n"
  by (simp add: unat_of_nat take_bit_nat_eq_self)

lemma unat_u32_bound: "unat (n :: u32) < 4294967296"
proof -
  have "unat n < 2 ^ LENGTH(32)" by (rule unsigned_less)
  then show ?thesis by simp
qed

lemma unat_Suc_u32: "(i :: u32) < n \<Longrightarrow> unat (i + 1) = Suc (unat i)"
  using unat_u32_bound [of n] by (simp add: word_less_nat_alt unat_word_ariths)

lemma u32_pos_iff: "0 < (i :: u32) \<longleftrightarrow> 0 < unat i"
  by (simp add: word_less_nat_alt)

lemma unat_pred_u32: "0 < (i :: u32) \<Longrightarrow> unat (i - 1) = unat i - 1"
  by (simp add: unat_minus_one word_gt_0)

lemma of_nat_u32_inject:
  "\<lbrakk>m < 4294967296; n < 4294967296\<rbrakk> \<Longrightarrow> ((of_nat m :: u32) = of_nat n) = (m = n)"
  by (metis unat_of_nat_u32)

lemma unat_uminus_u32: "(d :: u32) \<noteq> 0 \<Longrightarrow> unat (- d) = 4294967296 - unat d"
proof -
  assume "d \<noteq> 0"
  then have "0 < uint d" "uint d < 4294967296"
    using uint_bounded [of d] uint_nonnegative [of d] by (auto simp: less_le uint_0_iff)
  then have "uint (- d) = 4294967296 - uint d"
    by (simp add: uint_word_ariths zmod_zminus1_eq_if)
  moreover have "int (unat (- d)) = uint (- d)" "int (unat d) = uint d" by simp_all
  ultimately show ?thesis by linarith
qed

lemma take_Suc_nth: "i < length xs \<Longrightarrow> take (Suc i) xs = take i xs @ [xs ! i]"
  by (simp add: take_Suc_conv_app_nth)

lemma nth_split: "i < length xs \<Longrightarrow> xs = take i xs @ xs ! i # drop (Suc i) xs"
  by (simp add: id_take_nth_drop)

end
