(* ===== verification/Spinlock.thy ===== *)
theory Spinlock
  imports Prelude
begin

text \<open>
  The spin lock that \<^verbatim>\<open>src/mempool.c\<close> and \<^verbatim>\<open>src/data.c\<close> build, with the same macros, from
  \<^verbatim>\<open>cplus_atomic_read\<close>, \<^verbatim>\<open>cplus_atomic_compare_exchange\<close> and \<^verbatim>\<open>cplus_atomic_write\<close>.  Each
  object has its own lock byte; the two constants \<open>spin_up\<close> and \<open>spin_down\<close> are file-level
  variables that all objects share, and \<open>spin_down\<close> is passed by address as the expected value
  of the compare-and-exchange.  GCC's \<^verbatim>\<open>__atomic_compare_exchange\<close> writes the value it found
  back through that address when the exchange fails.
\<close>

section \<open>The atomic operations\<close>

definition spin_up :: u8 where "spin_up = 1"

text \<open>
  The atomic part of \<^verbatim>\<open>__atomic_compare_exchange(ptr, &expected, &desired)\<close>: the flag it
  returns and the new contents of \<^verbatim>\<open>*ptr\<close>; on failure the caller then stores the value that
  was found into \<open>expected\<close>.
\<close>

definition cplus_atomic_compare_exchange :: "u8 \<Rightarrow> u8 \<Rightarrow> u8 \<Rightarrow> bool \<times> u8" where
  "cplus_atomic_compare_exchange cur expected desired =
     (if cur = expected then (True, desired) else (False, cur))"

section \<open>Threads\<close>

text \<open>
  Where a thread is in \<open>SPIN_LOCK(); body; SPIN_UNLOCK();\<close> on object \<open>o\<close>: outside, about to
  read the lock byte, about to load \<open>spin_down\<close>, about to compare and exchange with the
  expected value it loaded, about to write the value it found back to \<open>spin_down\<close>, in the
  critical section, about to load \<open>spin_down\<close> for the unlocking store, about to store it.
\<close>

datatype pc =
    Idle
  | Test nat
  | Load nat
  | Cas nat u8
  | Write_back nat u8
  | Critical nat
  | Unlock nat
  | Store nat u8

record spin_sys =
  spin_down :: u8
  lock_byte :: "nat \<Rightarrow> u8"
  pcs :: "nat \<Rightarrow> pc"

definition spin_init :: spin_sys where
  "spin_init = \<lparr>spin_down = 0, lock_byte = (\<lambda>_. 0), pcs = (\<lambda>_. Idle)\<rparr>"

datatype spin_event = Ordinary | Failed_cas

text \<open>One step of thread \<open>t\<close>; the event tells the failed exchanges apart.\<close>

inductive spin_step :: "spin_sys \<Rightarrow> spin_event \<Rightarrow> spin_sys \<Rightarrow> bool" where
  begin_lock: "pcs s t = Idle \<Longrightarrow>
     spin_step s Ordinary (s\<lparr>pcs := (pcs s)(t := Test ob)\<rparr>)"
| test_busy: "pcs s t = Test ob \<Longrightarrow> lock_byte s ob = spin_up \<Longrightarrow>
     spin_step s Ordinary s"
| test_free: "pcs s t = Test ob \<Longrightarrow> lock_byte s ob \<noteq> spin_up \<Longrightarrow>
     spin_step s Ordinary (s\<lparr>pcs := (pcs s)(t := Load ob)\<rparr>)"
| load_expected: "pcs s t = Load ob \<Longrightarrow>
     spin_step s Ordinary (s\<lparr>pcs := (pcs s)(t := Cas ob (spin_down s))\<rparr>)"
| cas_success: "pcs s t = Cas ob e \<Longrightarrow>
     cplus_atomic_compare_exchange (lock_byte s ob) e spin_up = (True, v) \<Longrightarrow>
     spin_step s Ordinary
       (s\<lparr>lock_byte := (lock_byte s)(ob := v), pcs := (pcs s)(t := Critical ob)\<rparr>)"
| cas_failure: "pcs s t = Cas ob e \<Longrightarrow>
     cplus_atomic_compare_exchange (lock_byte s ob) e spin_up = (False, v) \<Longrightarrow>
     spin_step s Failed_cas (s\<lparr>pcs := (pcs s)(t := Write_back ob v)\<rparr>)"
| write_back: "pcs s t = Write_back ob v \<Longrightarrow>
     spin_step s Ordinary (s\<lparr>spin_down := v, pcs := (pcs s)(t := Test ob)\<rparr>)"
| leave: "pcs s t = Critical ob \<Longrightarrow>
     spin_step s Ordinary (s\<lparr>pcs := (pcs s)(t := Unlock ob)\<rparr>)"
| load_down: "pcs s t = Unlock ob \<Longrightarrow>
     spin_step s Ordinary (s\<lparr>pcs := (pcs s)(t := Store ob (spin_down s))\<rparr>)"
| store_down: "pcs s t = Store ob v \<Longrightarrow>
     spin_step s Ordinary
       (s\<lparr>lock_byte := (lock_byte s)(ob := v), pcs := (pcs s)(t := Idle)\<rparr>)"

inductive_cases spin_step_failedE: "spin_step s Failed_cas s'"

text \<open>Runs: of any steps, and of steps in which no exchange fails.\<close>

inductive spin_reach :: "spin_sys \<Rightarrow> spin_sys \<Rightarrow> bool" where
  reach_refl: "spin_reach s s"
| reach_step: "spin_reach s s' \<Longrightarrow> spin_step s' e s'' \<Longrightarrow> spin_reach s s''"

inductive quiet_reach :: "spin_sys \<Rightarrow> spin_sys \<Rightarrow> bool" where
  quiet_refl: "quiet_reach s s"
| quiet_step: "quiet_reach s s' \<Longrightarrow> spin_step s' Ordinary s'' \<Longrightarrow> quiet_reach s s''"

lemma spin_reach_trans: "spin_reach s' s'' \<Longrightarrow> spin_reach s s' \<Longrightarrow> spin_reach s s''"
  by (induction rule: spin_reach.induct) (auto intro: spin_reach.intros)

section \<open>Mutual exclusion while no exchange fails\<close>

text \<open>The thread owns object \<open>ob\<close>: it is between its exchange and its unlocking store.\<close>

primrec owns :: "nat \<Rightarrow> pc \<Rightarrow> bool" where
  "owns ob Idle = False"
| "owns ob (Test x) = False"
| "owns ob (Load x) = False"
| "owns ob (Cas x e) = False"
| "owns ob (Write_back x v) = False"
| "owns ob (Critical x) = (x = ob)"
| "owns ob (Unlock x) = (x = ob)"
| "owns ob (Store x v) = (x = ob)"

primrec pc_clean :: "pc \<Rightarrow> bool" where
  "pc_clean Idle = True"
| "pc_clean (Test x) = True"
| "pc_clean (Load x) = True"
| "pc_clean (Cas x e) = (e = 0)"
| "pc_clean (Write_back x v) = False"
| "pc_clean (Critical x) = True"
| "pc_clean (Unlock x) = True"
| "pc_clean (Store x v) = (v = 0)"

definition spin_inv :: "spin_sys \<Rightarrow> bool" where
  "spin_inv s \<longleftrightarrow> spin_down s = 0 \<and> (\<forall>t. pc_clean (pcs s t)) \<and>
     (\<forall>ob. lock_byte s ob = 0 \<and> (\<forall>t. \<not> owns ob (pcs s t)) \<or>
           lock_byte s ob = 1 \<and> (\<exists>!t. owns ob (pcs s t)))"

lemma spin_inv_init: "spin_inv spin_init"
  by (simp add: spin_inv_def spin_init_def)

lemma spin_inv_down: "spin_inv s \<Longrightarrow> spin_down s = 0"
  by (simp add: spin_inv_def)

text \<open>A step that leaves ownership, lock bytes and \<open>spin_down\<close> alone keeps the invariant.\<close>

lemma spin_inv_move:
  assumes "spin_inv s" "pc_clean p" "\<And>ob. owns ob p = owns ob (pcs s t)"
  shows "spin_inv (s\<lparr>pcs := (pcs s)(t := p)\<rparr>)"
proof -
  have "owns ob (((pcs s)(t := p)) t') = owns ob (pcs s t')" for ob t'
    using assms(3) by simp
  with assms(1,2) show ?thesis by (simp add: spin_inv_def)
qed

lemma spin_inv_acquire:
  assumes "spin_inv s" "pcs s t = Cas ob e" "lock_byte s ob = e"
  shows "spin_inv (s\<lparr>lock_byte := (lock_byte s)(ob := spin_up), pcs := (pcs s)(t := Critical ob)\<rparr>)"
proof -
  from assms(1) have "pc_clean (pcs s t)" by (simp add: spin_inv_def)
  with assms(2,3) have free: "lock_byte s ob = 0" by simp
  with assms(1) have none: "\<not> owns ob (pcs s t')" for t'
    by (auto simp: spin_inv_def dest: spec [of _ ob])
  have "\<exists>!t'. owns ob (((pcs s)(t := Critical ob)) t')"
    using none by (auto split: if_splits)
  moreover have "owns ob' (((pcs s)(t := Critical ob)) t') = owns ob' (pcs s t')"
    if "ob' \<noteq> ob" for ob' t'
    using that assms(2) by simp
  ultimately show ?thesis
    using assms(1) by (simp add: spin_inv_def spin_up_def)
qed

lemma spin_inv_release:
  assumes "spin_inv s" "pcs s t = Store ob v"
  shows "spin_inv (s\<lparr>lock_byte := (lock_byte s)(ob := v), pcs := (pcs s)(t := Idle)\<rparr>)"
proof -
  from assms(1) have "pc_clean (pcs s t)" by (simp add: spin_inv_def)
  with assms(2) have v: "v = 0" by simp
  have "owns ob (pcs s t)" using assms(2) by simp
  with assms(1) have "\<exists>!t'. owns ob (pcs s t')"
    unfolding spin_inv_def by blast
  with \<open>owns ob (pcs s t)\<close> have "\<not> owns ob (((pcs s)(t := Idle)) t')" for t'
    by auto
  moreover have "owns ob' (((pcs s)(t := Idle)) t') = owns ob' (pcs s t')"
    if "ob' \<noteq> ob" for ob' t'
    using that assms(2) by simp
  ultimately show ?thesis
    using assms(1) v by (simp add: spin_inv_def)
qed

lemma spin_inv_step: "spin_step s e s' \<Longrightarrow> e = Ordinary \<Longrightarrow> spin_inv s \<Longrightarrow> spin_inv s'"
proof (induction rule: spin_step.induct)
  case (cas_success s t ob e v)
  then show ?case
    by (auto simp: cplus_atomic_compare_exchange_def split: if_splits intro: spin_inv_acquire)
next
  case (write_back s t ob v)
  then have "pc_clean (Write_back ob v)" by (metis spin_inv_def)
  then show ?case by simp
next
  case (store_down s t ob v)
  then show ?case by (auto intro: spin_inv_release)
qed (auto intro!: spin_inv_move simp: spin_inv_down)

lemma quiet_reach_inv: "quiet_reach s s' \<Longrightarrow> spin_inv s \<Longrightarrow> spin_inv s'"
  by (induction rule: quiet_reach.induct) (auto intro: spin_inv_step)

section \<open>A lock byte that is left raised stays raised\<close>

text \<open>Threads that have not got past the first test of \<open>ob\<close>, or are not at \<open>ob\<close> at all.\<close>

primrec outside :: "nat \<Rightarrow> pc \<Rightarrow> bool" where
  "outside ob Idle = True"
| "outside ob (Test x) = True"
| "outside ob (Load x) = (x \<noteq> ob)"
| "outside ob (Cas x e) = (x \<noteq> ob)"
| "outside ob (Write_back x v) = (x \<noteq> ob)"
| "outside ob (Critical x) = (x \<noteq> ob)"
| "outside ob (Unlock x) = (x \<noteq> ob)"
| "outside ob (Store x v) = (x \<noteq> ob)"

definition stuck :: "nat \<Rightarrow> spin_sys \<Rightarrow> bool" where
  "stuck ob s \<longleftrightarrow> lock_byte s ob = spin_up \<and> (\<forall>t. outside ob (pcs s t))"

lemma stuck_outside: "stuck ob s \<Longrightarrow> outside ob (pcs s t)"
  by (simp add: stuck_def)

lemma stuck_move:
  "\<lbrakk>stuck ob s; outside ob (pcs s t) \<Longrightarrow> outside ob p\<rbrakk> \<Longrightarrow> stuck ob (s\<lparr>pcs := (pcs s)(t := p)\<rparr>)"
  by (simp add: stuck_def)

lemma stuck_step: "spin_step s e s' \<Longrightarrow> stuck ob s \<Longrightarrow> stuck ob s'"
proof (induction rule: spin_step.induct)
  case (test_free s t x)
  then have "x \<noteq> ob" by (auto simp: stuck_def)
  with test_free show ?case by (auto intro!: stuck_move)
next
  case (cas_success s t x e v)
  then have "x \<noteq> ob" using stuck_outside [of ob s t] by auto
  with cas_success show ?case by (auto simp: stuck_def)
next
  case (store_down s t x v)
  then have "x \<noteq> ob" using stuck_outside [of ob s t] by auto
  with store_down show ?case by (auto simp: stuck_def)
next
  case (write_back s t x v)
  then show ?case by (auto simp: stuck_def)
qed (auto intro!: stuck_move)

lemma stuck_reach: "spin_reach s s' \<Longrightarrow> stuck ob s \<Longrightarrow> stuck ob s'"
  by (induction rule: spin_reach.induct) (auto intro: stuck_step)

section \<open>Schedules\<close>

text \<open>The step that thread \<open>t\<close> takes next, starting on object \<open>ob\<close> when it is idle.\<close>

definition spin_move :: "spin_sys \<Rightarrow> nat \<times> nat \<Rightarrow> spin_sys" where
  "spin_move s = (\<lambda>(t, ob0).
     (case pcs s t of
        Idle \<Rightarrow> s\<lparr>pcs := (pcs s)(t := Test ob0)\<rparr>
      | Test ob \<Rightarrow>
          if lock_byte s ob = spin_up then s else s\<lparr>pcs := (pcs s)(t := Load ob)\<rparr>
      | Load ob \<Rightarrow> s\<lparr>pcs := (pcs s)(t := Cas ob (spin_down s))\<rparr>
      | Cas ob e \<Rightarrow>
          (case cplus_atomic_compare_exchange (lock_byte s ob) e spin_up of
             (ok, v) \<Rightarrow>
               if ok then s\<lparr>lock_byte := (lock_byte s)(ob := v), pcs := (pcs s)(t := Critical ob)\<rparr>
               else s\<lparr>pcs := (pcs s)(t := Write_back ob v)\<rparr>)
      | Write_back ob v \<Rightarrow> s\<lparr>spin_down := v, pcs := (pcs s)(t := Test ob)\<rparr>
      | Critical ob \<Rightarrow> s\<lparr>pcs := (pcs s)(t := Unlock ob)\<rparr>
      | Unlock ob \<Rightarrow> s\<lparr>pcs := (pcs s)(t := Store ob (spin_down s))\<rparr>
      | Store ob v \<Rightarrow> s\<lparr>lock_byte := (lock_byte s)(ob := v), pcs := (pcs s)(t := Idle)\<rparr>))"

lemma spin_move_step: "\<exists>e. spin_step s e (spin_move s m)"
proof (cases m)
  case (Pair t ob)
  then show ?thesis
    by (cases "pcs s t")
       (auto simp: spin_move_def split: prod.split intro: spin_step.intros)
qed

lemma spin_reach_schedule: "spin_reach s (foldl spin_move s ms)"
proof (induction ms rule: rev_induct)
  case Nil
  show ?case by (simp add: reach_refl)
next
  case (snoc m ms)
  then show ?case using spin_move_step [of "foldl spin_move s ms" m]
    by (auto intro: reach_step)
qed

lemma quiet_moveI:
  "\<lbrakk>quiet_reach s s'; spin_step s' Ordinary (spin_move s' m)\<rbrakk> \<Longrightarrow> quiet_reach s (spin_move s' m)"
  by (rule quiet_step)

lemmas spin_eval = spin_move_def spin_init_def cplus_atomic_compare_exchange_def spin_up_def

definition contended_release :: "(nat \<times> nat) list" where
  "contended_release =
     [(0, 0), (0, 0), (0, 0), (1, 0), (1, 0), (1, 0), (0, 0), (1, 0), (1, 0), (0, 0), (0, 0), (0, 0)]"

definition double_entry :: "(nat \<times> nat) list" where
  "double_entry =
     [(0, 0), (0, 0), (0, 0), (1, 0), (1, 0), (1, 0), (0, 0), (1, 0), (0, 0), (0, 0), (0, 0),
      (0, 0), (0, 0), (0, 0), (1, 0), (1, 0), (1, 0), (0, 0), (1, 0)]"

section \<open>Properties\<close>

text \<open>
  As long as no compare-and-exchange of the spin lock fails (no two threads race for the
  exchange), at most one thread at a time is between the lock and the unlock of an object.
\<close>

theorem spin_mutual_exclusion:
  assumes "quiet_reach spin_init s" "owns ob (pcs s t)" "owns ob (pcs s t')"
  shows "t = t'"
proof -
  from assms(1) have "spin_inv s" by (rule quiet_reach_inv) (rule spin_inv_init)
  with assms(2,3) show ?thesis unfolding spin_inv_def by blast
qed

lemma quiet_entered:
  "quiet_reach spin_init (foldl spin_move spin_init [(3, 7), (3, 7), (3, 7), (3, 7)])"
proof -
  let ?s = "\<lambda>n. foldl spin_move spin_init (replicate n (3, 7))"
  have "quiet_reach spin_init (?s 0)" by (simp add: quiet_refl)
  moreover have "spin_step (?s 0) Ordinary (?s 1)"
    using begin_lock [of "?s 0" 3 7] by (simp add: spin_eval)
  moreover have "spin_step (?s 1) Ordinary (?s 2)"
    using test_free [of "?s 1" 3 7] by (simp add: spin_eval numeral_2_eq_2)
  moreover have "spin_step (?s 2) Ordinary (?s 3)"
    using load_expected [of "?s 2" 3 7] by (simp add: spin_eval numeral_2_eq_2 numeral_3_eq_3)
  moreover have "spin_step (?s 3) Ordinary (?s 4)"
    using cas_success [of "?s 3" 3 7 0 1]
    by (simp add: spin_eval numeral_3_eq_3 eval_nat_numeral)
  ultimately have "quiet_reach spin_init (?s 4)" by (blast intro: quiet_step)
  then show ?thesis by (simp add: eval_nat_numeral)
qed

theorem spin_mutual_exclusion_witness:
  "owns 7 (pcs (foldl spin_move spin_init [(3, 7), (3, 7), (3, 7), (3, 7)]) 3) \<and>
   (3 :: nat) = 3"
proof
  show own: "owns 7 (pcs (foldl spin_move spin_init [(3, 7), (3, 7), (3, 7), (3, 7)]) 3)"
    by (simp add: spin_eval)
  show "(3 :: nat) = 3"
    by (rule spin_mutual_exclusion [OF quiet_entered own own])
qed

text \<open>
  One failed exchange is enough to break mutual exclusion: the value written back to the
  shared \<open>spin_down\<close> becomes the expected value of the next exchange, and two threads reach
  the critical section of the same object together.
\<close>

theorem spin_mutual_exclusion_broken:
  "\<exists>s. spin_reach spin_init s \<and> pcs s 0 = Critical 0 \<and> pcs s 1 = Critical 0"
proof -
  let ?s = "foldl spin_move spin_init double_entry"
  have "pcs ?s 0 = Critical 0" "pcs ?s 1 = Critical 0"
    by (simp_all add: double_entry_def spin_eval)
  with spin_reach_schedule show ?thesis by blast
qed

text \<open>
  Two threads that contend once can leave a lock byte raised with nobody inside: the
  unlocking store writes the corrupted \<open>spin_down\<close>, and the waiting thread is left in front
  of a lock that no thread holds.
\<close>

theorem spin_contention_sticks:
  "\<exists>s. spin_reach spin_init s \<and> stuck 0 s \<and> pcs s 1 = Test 0"
proof -
  let ?s = "foldl spin_move spin_init contended_release"
  have "lock_byte ?s 0 = spin_up" "pcs ?s = (\<lambda>_. Idle)(0 := Idle, Suc 0 := Test 0)"
    by (simp_all add: contended_release_def spin_eval fun_eq_iff)
  then have "stuck 0 ?s \<and> pcs ?s 1 = Test 0" by (simp add: stuck_def)
  with spin_reach_schedule show ?thesis by blast
qed

text \<open>
  Once a lock byte is raised with no thread past its first test, no thread ever enters
  the critical section of that object again, whatever the threads do.
\<close>

theorem spin_stuck_forever:
  assumes "stuck ob s" "spin_reach s s'"
  shows "\<not> owns ob (pcs s' t)"
proof -
  from assms have "outside ob (pcs s' t)" by (blast intro: stuck_reach stuck_outside)
  then show ?thesis by (cases "pcs s' t") auto
qed

theorem spin_stuck_forever_witness:
  "stuck 0 (spin_init\<lparr>lock_byte := (\<lambda>_. 1)\<rparr>) \<and>
   \<not> owns 0 (pcs (spin_move (spin_init\<lparr>lock_byte := (\<lambda>_. 1)\<rparr>) (4, 0)) 4)"
proof
  let ?s = "spin_init\<lparr>lock_byte := (\<lambda>_. 1)\<rparr>"
  show st: "stuck 0 ?s" by (simp add: stuck_def spin_init_def spin_up_def)
  show "\<not> owns 0 (pcs (spin_move ?s (4, 0)) 4)"
    using spin_stuck_forever [OF st spin_reach_schedule [of ?s "[(4, 0)]"]] by simp
qed

end
