(* ===== verification/Systime.thy ===== *)
theory Systime
  imports Prelude
begin

text \<open>
  \<^verbatim>\<open>src/systime.c\<close>: 32-bit millisecond ticks, their wrap-around difference and order,
  absolute deadlines, the interruptible sleep and the broken-down local time.  The clocks
  of the operating system are arguments: \<open>clock_gettime\<close> and \<open>gettimeofday\<close> give a
  reading, \<open>nanosleep\<close> gives the outcomes of its successive calls.
\<close>

section \<open>Ticks\<close>

definition UINT32_MAX :: u32 where "UINT32_MAX = - 1"

definition cplus_systime_diff_tick :: "u32 \<Rightarrow> u32 \<Rightarrow> u32" where
  "cplus_systime_diff_tick early_msec late_msec =
     (if early_msec \<noteq> 0 then
        (if late_msec < early_msec then UINT32_MAX - early_msec + late_msec + 1
         else late_msec - early_msec)
      else late_msec)"

definition cplus_systime_compare_tick :: "u32 \<Rightarrow> u32 \<Rightarrow> int" where
  "cplus_systime_compare_tick msec1 msec2 =
     (if msec1 = msec2 then 0
      else if msec2 < msec1 then
        (if msec1 - msec2 < UINT32_MAX div 2 then 1 else - 1)
      else
        (if msec2 - msec1 < UINT32_MAX div 2 then - 1 else 1))"

text \<open>A \<open>struct timespec\<close>; on the targets of the library both fields are 64-bit.\<close>

record timespec =
  tv_sec :: int
  tv_nsec :: int

definition tick_of :: "timespec \<Rightarrow> u32" where
  "tick_of tp = word_of_int (tv_sec tp * 1000) + word_of_int (tv_nsec tp div (1000 * 1000))"

text \<open>
  \<open>cplus_systime_get_tick\<close> reads the monotonic clock until the tick is not 0; \<open>clock n\<close> is
  its \<open>n\<close>-th reading.  The result is the tick and the number of readings consumed.
\<close>

partial_function (option) cplus_systime_get_tick ::
    "(nat \<Rightarrow> timespec) \<Rightarrow> nat \<Rightarrow> (u32 \<times> nat) option" where
  "cplus_systime_get_tick clock n =
     (let ms = tick_of (clock n)
      in if ms = 0 then cplus_systime_get_tick clock (Suc n) else Some (ms, Suc n))"

definition cplus_systime_elapsed_tick ::
    "(nat \<Rightarrow> timespec) \<Rightarrow> nat \<Rightarrow> u32 \<Rightarrow> (u32 \<times> nat) option" where
  "cplus_systime_elapsed_tick clock n msec =
     map_option (\<lambda>(now, n'). (cplus_systime_diff_tick msec now, n'))
       (cplus_systime_get_tick clock n)"

section \<open>Deadlines\<close>

record timeval =
  tvl_sec :: int
  tvl_usec :: int

text \<open>
  \<open>gettimeofday\<close> and \<open>clock_gettime\<close> give \<open>None\<close> when they fail, in which case the
  functions return \<open>CPLUS_FAIL\<close> without writing \<open>*abstime\<close>; a successful call writes the
  result to \<open>*abstime\<close>.  The clock fields are not negative, so that C's division agrees
  with \<open>div\<close>.
\<close>

definition cplus_systime_get_abstime_after_msec ::
    "ptr \<Rightarrow> timeval option \<Rightarrow> u32 \<Rightarrow> timespec cresult" where
  "cplus_systime_get_abstime_after_msec abstime now msec =
     (if abstime = CPLUS_NULL then Inl EINVAL
      else case now of
        None \<Rightarrow> Inl ENONE
      | Some tv \<Rightarrow>
          (let sec1 = tvl_sec tv + uint (msec div 1000);
               usec1 = tvl_usec tv + uint (msec mod 1000 * 1000);
               sec2 = sec1 + usec1 div (1000 * 1000);
               usec2 = usec1 mod (1000 * 1000)
           in Inr \<lparr>tv_sec = sec2, tv_nsec = usec2 * 1000\<rparr>))"

definition cplus_systime_get_abstick_after_msec ::
    "ptr \<Rightarrow> timespec option \<Rightarrow> u32 \<Rightarrow> timespec cresult" where
  "cplus_systime_get_abstick_after_msec abstick now msec =
     (if abstick = CPLUS_NULL then Inl EINVAL
      else case now of
        None \<Rightarrow> Inl ENONE
      | Some tp \<Rightarrow>
          (let sec1 = tv_sec tp + uint (msec div 1000);
               nsec1 = tv_nsec tp + uint (msec mod 1000 * (1000 * 1000));
               sec2 = sec1 + nsec1 div (1000 * 1000 * 1000);
               nsec2 = nsec1 mod (1000 * 1000 * 1000)
           in Inr \<lparr>tv_sec = sec2, tv_nsec = nsec2\<rparr>))"

section \<open>Sleeping\<close>

text \<open>
  A call of \<open>nanosleep\<close> sleeps for the whole request, is interrupted by a signal and leaves
  the remaining time in \<open>rem\<close>, or fails otherwise.
\<close>

datatype nanosleep_result = Slept | Interrupted timespec | Sleep_error

datatype sleep_call = Usleep u32 | Nanosleep timespec

text \<open>
  The calls that \<open>cplus_systime_sleep_msec\<close> makes, given the outcomes of its \<open>nanosleep\<close>
  calls; \<open>[]\<close> is a thread that is still asleep in the last call.
\<close>

fun nanosleep_loop :: "timespec \<Rightarrow> nanosleep_result list \<Rightarrow> sleep_call list" where
  "nanosleep_loop req [] = [Nanosleep req]"
| "nanosleep_loop req (Slept # rs) = [Nanosleep req]"
| "nanosleep_loop req (Interrupted rem # rs) = Nanosleep req # nanosleep_loop rem rs"
| "nanosleep_loop req (Sleep_error # rs) = [Nanosleep req]"

definition cplus_systime_sleep_msec :: "u32 \<Rightarrow> nanosleep_result list \<Rightarrow> sleep_call list" where
  "cplus_systime_sleep_msec msec rs =
     (let ms = (if msec = 0 then 1 else msec)
      in if ms < 1000 then [Usleep (ms * 1000)]
         else nanosleep_loop
           \<lparr>tv_sec = uint (ms div 1000), tv_nsec = uint (ms mod 1000) * (1000 * 1000)\<rparr> rs)"

section \<open>Broken-down local time\<close>

text \<open>The fields of \<open>struct tm\<close> the code reads, in the ranges the C standard gives them.\<close>

record tm =
  tm_sec :: int
  tm_min :: int
  tm_hour :: int
  tm_mday :: int
  tm_mon :: int
  tm_year :: int
  tm_wday :: int
  tm_yday :: int

record systime =
  day_of_year :: u32
  day_of_week :: u32
  year :: u32
  month :: u32
  day_of_month :: u32
  hours :: u32
  minutes :: u32
  second :: u32
  millisecond :: u32
  microsecond :: u32

text \<open>\<open>day_of_week\<close> is assigned twice; the later assignment, \<open>tm_wday\<close>, is what stays.\<close>

definition convert_to_systime :: "systime \<Rightarrow> tm \<Rightarrow> systime" where
  "convert_to_systime stime tm = stime\<lparr>
     day_of_year := word_of_int (tm_yday tm + 1),
     day_of_week := word_of_int (tm_wday tm + 1),
     year := word_of_int (tm_year tm + 1900),
     month := word_of_int (tm_mon tm + 1),
     day_of_week := word_of_int (tm_wday tm),
     day_of_month := word_of_int (tm_mday tm),
     hours := word_of_int (tm_hour tm),
     minutes := word_of_int (tm_min tm),
     second := word_of_int (tm_sec tm)\<rparr>"

text \<open>\<open>localtime_r\<close> is the time-zone database of the C library: an argument.\<close>

definition cplus_systime_get_local_time ::
    "timeval option \<Rightarrow> (int \<Rightarrow> tm option) \<Rightarrow> systime \<Rightarrow> systime cresult" where
  "cplus_systime_get_local_time now localtime_r stime =
     (case now of
        None \<Rightarrow> Inl ENONE
      | Some tv \<Rightarrow>
          (case localtime_r (tvl_sec tv) of
             None \<Rightarrow> Inl ENONE
           | Some tm \<Rightarrow>
               Inr (convert_to_systime
                 (stime\<lparr>millisecond := word_of_int (tvl_usec tv div 1000),
                        microsecond := word_of_int (tvl_usec tv mod 1000)\<rparr>) tm)))"

section \<open>Lemmas\<close>

lemma half_UINT32_MAX [simp]: "UINT32_MAX div 2 = 2147483647"
  by (simp add: UINT32_MAX_def)

lemma diff_tick_is_subtraction:
  "cplus_systime_diff_tick early late = late - early"
  by (simp add: cplus_systime_diff_tick_def UINT32_MAX_def)

lemma compare_tick_antisym:
  "cplus_systime_compare_tick a b = - cplus_systime_compare_tick b a"
  by (auto simp: cplus_systime_compare_tick_def)

text \<open>The order is a serial-number order: a tick less than half the range ahead is later.\<close>

lemma compare_tick_ahead:
  fixes a d :: u32
  assumes "0 < d" "d < 2147483647"
  shows "cplus_systime_compare_tick (a + d) a = 1"
proof (cases "a < a + d")
  case True
  with assms show ?thesis by (auto simp: cplus_systime_compare_tick_def)
next
  case False
  with assms have "a + d \<noteq> a" by auto
  moreover have "\<not> a - (a + d) < 2147483647"
    using assms by (simp add: word_less_nat_alt unat_uminus_u32 flip: unat_gt_0)
  ultimately show ?thesis
    using False by (simp add: cplus_systime_compare_tick_def)
qed

text \<open>Milliseconds since the clock's origin.\<close>

definition msec_of :: "timespec \<Rightarrow> int" where
  "msec_of tp = tv_sec tp * 1000 + tv_nsec tp div (1000 * 1000)"

lemma tick_of_msec: "tick_of tp = word_of_int (msec_of tp)"
  by (simp add: tick_of_def msec_of_def)

lemma get_tick_waits:
  "\<lbrakk>\<And>j. j < k \<Longrightarrow> tick_of (clock (n + j)) = 0; tick_of (clock (n + k)) \<noteq> 0\<rbrakk> \<Longrightarrow>
     cplus_systime_get_tick clock n = Some (tick_of (clock (n + k)), Suc (n + k))"
proof (induction k arbitrary: n)
  case 0
  then show ?case by (subst cplus_systime_get_tick.simps) (simp add: Let_def)
next
  case (Suc k)
  have "cplus_systime_get_tick clock (Suc n) = Some (tick_of (clock (Suc n + k)), Suc (Suc n + k))"
    using Suc.prems(1) [of "Suc j" for j] Suc.prems(2) by (intro Suc.IH) auto
  moreover have "tick_of (clock n) = 0" using Suc.prems(1) [of 0] by simp
  ultimately show ?case by (subst cplus_systime_get_tick.simps) (simp add: Let_def)
qed

lemma nanosleep_loop_resumes:
  "nanosleep_loop req (map Interrupted rems @ Slept # rs) = map Nanosleep (req # rems)"
  by (induction rems arbitrary: req) auto

section \<open>Properties\<close>

text \<open>
  C40. The elapsed time since an earlier tick is exact modulo \<open>2^32\<close> milliseconds, across any
  number of wrap-arounds of the 32-bit tick, and the loop that skips the reserved tick 0 ends
  with the first reading that is not 0.
\<close>

theorem systime_elapsed_exact:
  assumes "\<And>j. j < k \<Longrightarrow> tick_of (clock (n + j)) = 0" and "tick_of (clock (n + k)) \<noteq> 0"
  shows "cplus_systime_elapsed_tick clock n (tick_of t0) =
    Some (word_of_int (msec_of (clock (n + k)) - msec_of t0), Suc (n + k))"
  using get_tick_waits [of k clock n, OF assms]
  by (simp add: cplus_systime_elapsed_tick_def diff_tick_is_subtraction tick_of_msec)

lemma systime_elapsed_exact_witness:
  "cplus_systime_elapsed_tick
     (\<lambda>n. if n = 0 then \<lparr>tv_sec = 0, tv_nsec = 999\<rparr> else \<lparr>tv_sec = 4294967, tv_nsec = 500 * 1000000\<rparr>)
     0 (tick_of \<lparr>tv_sec = 4294967, tv_nsec = 200 * 1000000\<rparr>) = Some (300, 2)"
  using systime_elapsed_exact [of 1 "\<lambda>n. if n = 0 then \<lparr>tv_sec = 0, tv_nsec = 999\<rparr>
    else \<lparr>tv_sec = 4294967, tv_nsec = 500 * 1000000\<rparr>" 0 "\<lparr>tv_sec = 4294967, tv_nsec = 200 * 1000000\<rparr>"]
  by (simp add: tick_of_def msec_of_def)

text \<open>
  Ticks are ordered as serial numbers: a tick that is between 1 and \<open>2^31 - 2\<close> ahead of
  another compares as later, also across the wrap-around, and the other one as earlier.
\<close>

theorem systime_compare_tick_serial_order:
  assumes "0 < d" "d < 2 ^ 31 - 1"
  shows "cplus_systime_compare_tick (a + d) a = 1 \<and> cplus_systime_compare_tick a (a + d) = - 1"
proof
  show ahead: "cplus_systime_compare_tick (a + d) a = 1"
    using assms by (intro compare_tick_ahead) simp_all
  then show "cplus_systime_compare_tick a (a + d) = - 1"
    by (subst compare_tick_antisym) (simp only:)
qed

lemma systime_compare_tick_serial_order_witness:
  "cplus_systime_compare_tick 5 0xFFFFFFF0 = 1 \<and> cplus_systime_compare_tick 0xFFFFFFF0 5 = - 1"
proof -
  have sum: "(0xFFFFFFF0 :: u32) + 21 = 5" by simp
  show ?thesis
    using systime_compare_tick_serial_order [of "21" "0xFFFFFFF0", unfolded sum] by simp
qed

text \<open>
  Both deadlines are normalised and lie exactly \<open>msec\<close> milliseconds after the reading of
  their clock.
\<close>

theorem systime_deadlines_exact:
  assumes "0 \<le> tvl_usec tv" "tvl_usec tv < 1000000" "0 \<le> tv_nsec tp" "tv_nsec tp < 1000000000"
    and "obj \<noteq> CPLUS_NULL"
  shows "\<exists>t1 t2. cplus_systime_get_abstime_after_msec obj (Some tv) msec = Inr t1 \<and>
    cplus_systime_get_abstick_after_msec obj (Some tp) msec = Inr t2 \<and>
    0 \<le> tv_nsec t1 \<and> tv_nsec t1 < 1000000000 \<and> 0 \<le> tv_nsec t2 \<and> tv_nsec t2 < 1000000000 \<and>
    tv_sec t1 * 1000000000 + tv_nsec t1 =
      tvl_sec tv * 1000000000 + tvl_usec tv * 1000 + uint msec * 1000000 \<and>
    tv_sec t2 * 1000000000 + tv_nsec t2 =
      tv_sec tp * 1000000000 + tv_nsec tp + uint msec * 1000000"
proof -
  have m: "0 \<le> uint msec" "uint msec < 4294967296"
    using uint_bounded [of msec] by simp_all
  have small: "uint msec mod 1000 < 1000" "0 \<le> uint msec mod 1000" by simp_all
  have q: "uint (msec div 1000) = uint msec div 1000" "uint (msec mod 1000) = uint msec mod 1000"
    by (simp_all add: uint_div uint_mod)
  have r: "uint (msec mod 1000 * 1000) = uint msec mod 1000 * 1000"
    "uint (msec mod 1000 * 1000000) = uint msec mod 1000 * 1000000"
    using small by (simp_all add: uint_word_ariths q)
  have split: "1000000 * (a div 1000000) + a mod 1000000 = a"
    "1000 * (uint msec div 1000) + uint msec mod 1000 = uint msec" for a :: int
    by simp_all
  show ?thesis
    using assms m small
    by (simp add: cplus_systime_get_abstime_after_msec_def cplus_systime_get_abstick_after_msec_def
        Let_def q r)
      (insert split(1) [of "tvl_usec tv + uint msec mod 1000 * 1000"] split(2),
        intro conjI; linarith)
qed

lemma systime_deadlines_exact_witness:
  "\<exists>t1. cplus_systime_get_abstime_after_msec 64 (Some \<lparr>tvl_sec = 10, tvl_usec = 999999\<rparr>) 1501 = Inr t1 \<and>
     tv_sec t1 * 1000000000 + tv_nsec t1 = 12500999000 \<and> tv_nsec t1 < 1000000000"
  using systime_deadlines_exact [of "\<lparr>tvl_sec = 10, tvl_usec = 999999\<rparr>" "\<lparr>tv_sec = 0, tv_nsec = 0\<rparr>" 64 1501]
  by auto

text \<open>
  A sleep of a second or more is not shortened by signals: after each interruption the
  code sleeps again for exactly the time that \<open>nanosleep\<close> reported as remaining, and it asks
  for \<open>msec\<close> milliseconds at first.  A shorter sleep is a single \<open>usleep\<close>, 0 being taken as
  1 millisecond.
\<close>

theorem systime_sleep_resumes:
  "if msec < 1000
   then cplus_systime_sleep_msec msec rs = [Usleep (if msec = 0 then 1000 else msec * 1000)]
   else \<exists>req. cplus_systime_sleep_msec msec (map Interrupted rems @ Slept # rs) =
       map Nanosleep (req # rems) \<and> 0 \<le> tv_nsec req \<and> tv_nsec req < 1000000000 \<and>
     tv_sec req * 1000 + tv_nsec req div 1000000 = uint msec"
proof (cases "msec < 1000")
  case True
  then show ?thesis by (auto simp: cplus_systime_sleep_msec_def Let_def)
next
  case False
  then have "msec \<noteq> 0" by auto
  moreover have "uint (msec div 1000) * 1000 + uint (msec mod 1000) = uint msec"
    by (simp add: uint_div uint_mod)
  moreover have "0 \<le> uint (msec mod 1000)" "uint (msec mod 1000) < 1000"
    by (simp_all add: uint_mod)
  ultimately show ?thesis
    using False by (simp add: cplus_systime_sleep_msec_def Let_def nanosleep_loop_resumes)
qed

text \<open>On the last day of a leap year the day of the year is 366.\<close>

lemma local_time_leap_day:
  "day_of_year (convert_to_systime stime
     \<lparr>tm_sec = 0, tm_min = 0, tm_hour = 0, tm_mday = 31, tm_mon = 11, tm_year = 124, tm_wday = 2,
      tm_yday = 365\<rparr>) = 366"
  by (simp add: convert_to_systime_def)

end
