(* ===== verification/Bytes.thy ===== *)
theory Bytes
  imports Prelude
begin

text \<open>
  Byte-addressed memory: a total function from 64-bit addresses to bytes, with the
  little-endian 32-bit load and store that the C code performs when it writes a
  \<^verbatim>\<open>uint32_t\<close> through a pointer, and the block copy of \<^verbatim>\<open>memcpy\<close>/\<^verbatim>\<open>memset\<close>.
\<close>

type_synonym mem = "ptr \<Rightarrow> u8"

section \<open>Little-endian words\<close>

definition load32 :: "mem \<Rightarrow> ptr \<Rightarrow> u32" where
  "load32 m a = ucast (m a) OR push_bit 8 (ucast (m (a + 1)))
     OR push_bit 16 (ucast (m (a + 2))) OR push_bit 24 (ucast (m (a + 3)))"

definition store32 :: "mem \<Rightarrow> ptr \<Rightarrow> u32 \<Rightarrow> mem" where
  "store32 m a v = m(a := ucast v, a + 1 := ucast (drop_bit 8 v),
     a + 2 := ucast (drop_bit 16 v), a + 3 := ucast (drop_bit 24 v))"

lemma bytes_of_u32:
  fixes v :: u32
  shows "ucast (ucast v :: u8) OR push_bit 8 (ucast (ucast (drop_bit 8 v) :: u8))
     OR push_bit 16 (ucast (ucast (drop_bit 16 v) :: u8))
     OR push_bit 24 (ucast (ucast (drop_bit 24 v) :: u8)) = v"
proof (rule bit_word_eqI)
  fix n
  assume "n < LENGTH(32)"
  then consider "n < 8" | "8 \<le> n \<and> n < 16" | "16 \<le> n \<and> n < 24" | "24 \<le> n \<and> n < 32"
    by fastforce
  then show "bit (ucast (ucast v :: u8) OR push_bit 8 (ucast (ucast (drop_bit 8 v) :: u8))
     OR push_bit 16 (ucast (ucast (drop_bit 16 v) :: u8))
     OR push_bit 24 (ucast (ucast (drop_bit 24 v) :: u8)) :: u32) n = bit v n"
    by cases (auto simp: bit_simps)
qed

lemma load32_store32 [simp]: "load32 (store32 m a v) a = v"
proof -
  have "a + 1 \<noteq> a" "a + 2 \<noteq> a" "a + 3 \<noteq> a" "a + 1 \<noteq> a + 2" "a + 1 \<noteq> a + 3" "a + 2 \<noteq> a + 3"
    by simp_all
  then show ?thesis
    unfolding load32_def store32_def using bytes_of_u32 [of v] by simp
qed

section \<open>Regions\<close>

text \<open>The \<open>n\<close> bytes from address \<open>a\<close>.\<close>

definition region :: "ptr \<Rightarrow> nat \<Rightarrow> ptr set" where
  "region a n = (\<lambda>i. a + of_nat i) ` {..<n}"

lemma in_region_iff: "n \<le> 2 ^ 64 \<Longrightarrow> x \<in> region a n \<longleftrightarrow> unat (x - a) < n"
proof
  assume n: "n \<le> 2 ^ 64" and "x \<in> region a n"
  then obtain i where i: "i < n" "x = a + of_nat i"
    by (auto simp: region_def)
  with n have "unat (of_nat i :: ptr) = i"
    by (simp add: unat_of_nat take_bit_nat_eq_self)
  with i show "unat (x - a) < n" by simp
next
  assume "unat (x - a) < n"
  moreover have "x = a + of_nat (unat (x - a))" by simp
  ultimately show "x \<in> region a n" unfolding region_def by blast
qed

lemma region_4: "region a 4 = {a, a + 1, a + 2, a + 3}"
proof -
  have "{..<4::nat} = {0, 1, 2, 3}" by auto
  then show ?thesis by (simp add: region_def)
qed

lemma load32_store32_disjoint:
  assumes "region a 4 \<inter> region b 4 = {}"
  shows "load32 (store32 m a v) b = load32 m b"
proof -
  from assms have
    "b \<notin> {a, a + 1, a + 2, a + 3}" "b + 1 \<notin> {a, a + 1, a + 2, a + 3}"
    "b + 2 \<notin> {a, a + 1, a + 2, a + 3}" "b + 3 \<notin> {a, a + 1, a + 2, a + 3}"
    unfolding region_4 by blast+
  then show ?thesis
    unfolding load32_def store32_def by (simp del: add_right_cancel)
qed

lemma load32_cong: "(\<And>x. x \<in> region a 4 \<Longrightarrow> m x = m' x) \<Longrightarrow> load32 m a = load32 m' a"
  by (simp add: region_4 load32_def)

lemma store32_outside: "x \<notin> region a 4 \<Longrightarrow> store32 m a v x = m x"
  by (simp add: region_4 store32_def)

section \<open>Blocks of bytes\<close>

definition read_bytes :: "mem \<Rightarrow> ptr \<Rightarrow> nat \<Rightarrow> u8 list" where
  "read_bytes m a n = map (\<lambda>i. m (a + of_nat i)) [0..<n]"

primrec write_bytes :: "mem \<Rightarrow> ptr \<Rightarrow> u8 list \<Rightarrow> mem" where
  "write_bytes m a [] = m"
| "write_bytes m a (b # bs) = write_bytes (m(a := b)) (a + 1) bs"

lemma length_read_bytes [simp]: "length (read_bytes m a n) = n"
  by (simp add: read_bytes_def)

lemma read_bytes_nth: "i < n \<Longrightarrow> read_bytes m a n ! i = m (a + of_nat i)"
  by (simp add: read_bytes_def)

lemma write_bytes_apply:
  assumes "length bs \<le> 2 ^ 64"
  shows "write_bytes m a bs x = (if unat (x - a) < length bs then bs ! unat (x - a) else m x)"
  using assms
proof (induction bs arbitrary: m a)
  case Nil
  then show ?case by simp
next
  case (Cons b bs)
  have IH: "write_bytes (m(a := b)) (a + 1) bs x =
    (if unat (x - (a + 1)) < length bs then bs ! unat (x - (a + 1)) else (m(a := b)) x)"
    using Cons by simp
  show ?case
  proof (cases "x = a")
    case True
    then have "x - (a + 1) = - 1" by simp
    then have "\<not> unat (x - (a + 1)) < length bs" using Cons.prems
      by (simp add: unsigned_minus_1_eq_mask mask_eq_exp_minus_1)
    with True IH show ?thesis by simp
  next
    case False
    then have "x - a \<noteq> 0" by simp
    then have "unat (x - (a + 1)) = unat (x - a) - 1"
      using unat_minus_one [of "x - a"] by (simp add: algebra_simps)
    moreover have "0 < unat (x - a)" using \<open>x - a \<noteq> 0\<close> by (simp add: unat_gt_0)
    ultimately show ?thesis using IH False by (auto simp: nth_Cons')
  qed
qed

lemma write_bytes_outside:
  "\<lbrakk>length bs \<le> 2 ^ 64; x \<notin> region a (length bs)\<rbrakk> \<Longrightarrow> write_bytes m a bs x = m x"
  by (simp add: write_bytes_apply in_region_iff)

lemma read_write_bytes:
  assumes "length bs \<le> 2 ^ 64"
  shows "read_bytes (write_bytes m a bs) a (length bs) = bs"
proof (rule nth_equalityI)
  fix i
  assume "i < length (read_bytes (write_bytes m a bs) a (length bs))"
  then have i: "i < length bs" by simp
  with assms have "unat (of_nat i :: ptr) = i"
    by (simp add: unat_of_nat take_bit_nat_eq_self)
  with i assms show "read_bytes (write_bytes m a bs) a (length bs) ! i = bs ! i"
    by (simp add: read_bytes_nth write_bytes_apply)
qed simp

end
