(* ===== verification/Allocator.thy ===== *)
theory Allocator
  imports Prelude
begin

text \<open>
  The contract between an allocator and its clients: what \<^verbatim>\<open>cplus_mempool_alloc\<close> and
  \<^verbatim>\<open>cplus_mempool_free\<close>, or \<^verbatim>\<open>malloc\<close> and \<^verbatim>\<open>free\<close>, promise to code that only stores
  objects in the blocks it is given, and what follows from it for sequences of calls.
\<close>

locale block_allocator =
  fixes alc :: "'s \<Rightarrow> ptr cresult \<times> 's"
    and fre :: "'s \<Rightarrow> ptr \<Rightarrow> 's"
    and live :: "'s \<Rightarrow> ptr set"
    and inv :: "'s \<Rightarrow> bool"
  assumes alc_inv: "inv s \<Longrightarrow> alc s = (r, s') \<Longrightarrow> inv s'"
    and alc_ok: "inv s \<Longrightarrow> alc s = (Inr a, s') \<Longrightarrow>
      a \<noteq> CPLUS_NULL \<and> a \<notin> live s \<and> live s' = insert a (live s)"
    and alc_fail: "inv s \<Longrightarrow> alc s = (Inl e, s') \<Longrightarrow> live s' = live s"
    and fre_inv: "inv s \<Longrightarrow> a \<in> live s \<Longrightarrow> inv (fre s a)"
    and fre_live: "inv s \<Longrightarrow> a \<in> live s \<Longrightarrow> live (fre s a) = live s - {a}"
begin

text \<open>Successive allocations until \<open>n\<close> blocks are handed out or one fails.\<close>

primrec alc_many :: "nat \<Rightarrow> 's \<Rightarrow> ptr list \<times> 's" where
  "alc_many 0 s = ([], s)"
| "alc_many (Suc n) s =
     (case alc s of
        (Inl e, s') \<Rightarrow> ([], s')
      | (Inr a, s') \<Rightarrow> (case alc_many n s' of (as, s'') \<Rightarrow> (a # as, s'')))"

lemma alc_many_inv: "inv s \<Longrightarrow> inv (snd (alc_many n s))"
proof (induction n arbitrary: s)
  case (Suc n)
  obtain r s' where "alc s = (r, s')" by force
  moreover from Suc.prems this have "inv (snd (alc_many n s'))" by (blast intro: alc_inv Suc.IH)
  moreover from Suc.prems calculation(1) have "inv s'" by (rule alc_inv)
  ultimately show ?case by (auto split: prod.split sum.split)
qed simp

text \<open>Blocks handed out together are distinct, non-null and new.\<close>

lemma alc_many_fresh:
  assumes "inv s" "alc_many n s = (as, s')"
  shows "distinct as \<and> CPLUS_NULL \<notin> set as \<and> set as \<inter> live s = {} \<and> live s' = set as \<union> live s"
  using assms
proof (induction n arbitrary: s as)
  case 0
  then show ?case by simp
next
  case (Suc n)
  obtain r s1 where alc: "alc s = (r, s1)" by force
  show ?case
  proof (cases r)
    case (Inl e)
    with alc Suc.prems show ?thesis by (auto dest: alc_fail)
  next
    case (Inr a)
    with alc Suc.prems obtain as1 where
      as1: "as = a # as1" "alc_many n s1 = (as1, s')"
      by (auto split: prod.splits)
    have "inv s1" using Suc.prems(1) alc by (rule alc_inv)
    from Suc.IH [OF this as1(2)]
    have "distinct as1" "CPLUS_NULL \<notin> set as1" "set as1 \<inter> live s1 = {}"
      "live s' = set as1 \<union> live s1"
      by auto
    moreover have "a \<noteq> CPLUS_NULL" "a \<notin> live s" "live s1 = insert a (live s)"
      using alc_ok [OF Suc.prems(1)] alc Inr by auto
    ultimately show ?thesis using as1(1) by auto
  qed
qed

text \<open>Giving a block back right after taking it restores the set of blocks in use.\<close>

lemma alc_fre_live:
  assumes "inv s" "alc s = (Inr a, s')"
  shows "live (fre s' a) = live s"
proof -
  have "a \<notin> live s" "live s' = insert a (live s)" using alc_ok [OF assms] by auto
  moreover have "inv s'" using assms by (rule alc_inv)
  ultimately show ?thesis using fre_live [of s' a] by auto
qed

text \<open>Giving back a list of distinct blocks in use.\<close>

lemma fre_many:
  "\<lbrakk>inv s; distinct as; set as \<subseteq> live s\<rbrakk> \<Longrightarrow>
     inv (foldl fre s as) \<and> live (foldl fre s as) = live s - set as"
proof (induction as arbitrary: s)
  case Nil
  then show ?case by simp
next
  case (Cons a as)
  then have "inv (fre s a)" "live (fre s a) = live s - {a}"
    by (auto intro: fre_inv simp: fre_live)
  with Cons show ?case by auto
qed

end

section \<open>The C library's heap\<close>

text \<open>
  \<^verbatim>\<open>malloc\<close> returns a null pointer or a block that is not in use; which one is up to the C
  library, so the choice is a function of the blocks in use.  \<^verbatim>\<open>cplus_malloc\<close> and
  \<^verbatim>\<open>cplus_free\<close> are \<^verbatim>\<open>malloc\<close> and \<^verbatim>\<open>free\<close> in builds without the memory tracker
  (\<^verbatim>\<open>src/memmgr.c\<close>).
\<close>

record mheap =
  mh_live :: "ptr list"
  mh_pick :: "ptr list \<Rightarrow> ptr"

text \<open>The documented behaviour of \<^verbatim>\<open>malloc\<close>.\<close>

definition malloc_law :: "(ptr list \<Rightarrow> ptr) \<Rightarrow> bool" where
  "malloc_law pick \<longleftrightarrow> (\<forall>used. pick used = CPLUS_NULL \<or> pick used \<notin> set used)"

definition cplus_mgr_malloc :: "mheap \<Rightarrow> ptr cresult \<times> mheap" where
  "cplus_mgr_malloc h =
     (let a = mh_pick h (mh_live h)
      in if a = CPLUS_NULL then (Inl ENOMEM, h)
         else (Inr a, h\<lparr>mh_live := a # mh_live h\<rparr>))"

definition cplus_mgr_free :: "mheap \<Rightarrow> ptr \<Rightarrow> mheap" where
  "cplus_mgr_free h a =
     (if a = CPLUS_NULL then h else h\<lparr>mh_live := removeAll a (mh_live h)\<rparr>)"

definition mheap_inv :: "mheap \<Rightarrow> bool" where
  "mheap_inv h \<longleftrightarrow> malloc_law (mh_pick h) \<and> CPLUS_NULL \<notin> set (mh_live h)"

interpretation heap: block_allocator cplus_mgr_malloc cplus_mgr_free
    "\<lambda>h. set (mh_live h)" mheap_inv
proof
  fix s r s'
  assume "mheap_inv s" "cplus_mgr_malloc s = (r, s')"
  then show "mheap_inv s'"
    by (auto simp: mheap_inv_def cplus_mgr_malloc_def Let_def split: if_splits)
next
  fix s a s'
  assume "mheap_inv s" "cplus_mgr_malloc s = (Inr a, s')"
  then show "a \<noteq> CPLUS_NULL \<and> a \<notin> set (mh_live s) \<and> set (mh_live s') = insert a (set (mh_live s))"
    by (auto simp: mheap_inv_def malloc_law_def cplus_mgr_malloc_def Let_def split: if_splits)
next
  fix s e s'
  assume "mheap_inv s" "cplus_mgr_malloc s = (Inl e, s')"
  then show "set (mh_live s') = set (mh_live s)"
    by (auto simp: cplus_mgr_malloc_def Let_def split: if_splits)
qed (auto simp: mheap_inv_def cplus_mgr_free_def)

end
