(* ===== verification/Mempool.thy ===== *)
theory Mempool
  imports Bytes Allocator
begin

text \<open>
  \<^verbatim>\<open>src/mempool.c\<close>: a pool of equal blocks in one \<^verbatim>\<open>malloc\<close>ed area.  Free blocks form a
  stack linked through their first four bytes; blocks that were never handed out are linked
  lazily, one per allocation.  The pool's area is byte memory, so that what a client writes
  into its own blocks and what the pool writes into free blocks are the same kind of write.
  The spin lock around each operation is modelled in theory Spinlock.
\<close>

section \<open>The pool and its operations\<close>

record mempool =
  mp_block_count :: u32
  mp_block_size :: u32
  mp_free_blocks_count :: u32
  mp_initialized_blocks_count :: u32
  mp_mem_start :: ptr
  mp_next_block :: ptr
  mp_thread_safe :: bool
  mp_mem :: mem

definition index_to_addr :: "mempool \<Rightarrow> u32 \<Rightarrow> ptr" where
  "index_to_addr mp index = mp_mem_start mp + ucast (mp_block_size mp * index)"

definition addr_to_index :: "mempool \<Rightarrow> ptr \<Rightarrow> u32" where
  "addr_to_index mp addr = ucast (addr - mp_mem_start mp) div mp_block_size mp"

definition cplus_mempool_get_free_blocks_count :: "mempool \<Rightarrow> u32" where
  "cplus_mempool_get_free_blocks_count mp = mp_free_blocks_count mp"

definition cplus_mempool_free :: "mempool \<Rightarrow> ptr \<Rightarrow> unit cresult \<times> mempool" where
  "cplus_mempool_free mp addr =
     (if addr = CPLUS_NULL then (Inl EINVAL, mp)
      else
        (let mp1 = mp\<lparr>mp_mem := store32 (mp_mem mp) addr
               (if mp_next_block mp \<noteq> CPLUS_NULL then addr_to_index mp (mp_next_block mp)
                else mp_block_count mp)\<rparr>
         in (Inr (), mp1\<lparr>mp_next_block := addr,
               mp_free_blocks_count := mp_free_blocks_count mp1 + 1\<rparr>)))"

definition lazy_init :: "mempool \<Rightarrow> mempool" where
  "lazy_init mp =
     (if mp_initialized_blocks_count mp < mp_block_count mp then
        (let p = index_to_addr mp (mp_initialized_blocks_count mp)
         in mp\<lparr>mp_mem := store32 (mp_mem mp) p (mp_initialized_blocks_count mp + 1),
               mp_initialized_blocks_count := mp_initialized_blocks_count mp + 1\<rparr>)
      else mp)"

definition cplus_mempool_alloc :: "mempool \<Rightarrow> ptr cresult \<times> mempool" where
  "cplus_mempool_alloc mp =
     (let mp1 = lazy_init mp
      in if 0 < mp_free_blocks_count mp1 then
           (let addr = mp_next_block mp1;
                mp2 = mp1\<lparr>mp_free_blocks_count := mp_free_blocks_count mp1 - 1\<rparr>;
                nxt = (if 0 < mp_free_blocks_count mp2
                       then index_to_addr mp2 (load32 (mp_mem mp2) (mp_next_block mp2))
                       else CPLUS_NULL)
            in (Inr addr, mp2\<lparr>mp_next_block := nxt\<rparr>))
         else (Inl ENOMEM, mp1))"

definition cplus_mempool_get_index :: "mempool \<Rightarrow> ptr \<Rightarrow> u32 cresult" where
  "cplus_mempool_get_index mp addr =
     (if addr = CPLUS_NULL then Inl EINVAL else Inr (addr_to_index mp addr))"

definition cplus_mempool_get_addr_by_index :: "mempool \<Rightarrow> u32 \<Rightarrow> ptr" where
  "cplus_mempool_get_addr_by_index mp index = index_to_addr mp index"

text \<open>An exhausted pool makes \<open>cplus_mempool_alloc_as_index\<close> return its initial value 0.\<close>

definition cplus_mempool_alloc_as_index :: "mempool \<Rightarrow> u32 \<times> mempool" where
  "cplus_mempool_alloc_as_index mp =
     (case cplus_mempool_alloc mp of
        (Inl e, mp') \<Rightarrow> (0, mp')
      | (Inr addr, mp') \<Rightarrow>
          (if addr \<noteq> CPLUS_NULL then
             (case cplus_mempool_get_index mp' addr of Inl e \<Rightarrow> - 1 | Inr i \<Rightarrow> i)
           else 0, mp'))"

definition cplus_mempool_free_by_index :: "mempool \<Rightarrow> u32 \<Rightarrow> unit cresult \<times> mempool" where
  "cplus_mempool_free_by_index mp index =
     (let addr = cplus_mempool_get_addr_by_index mp index
      in if addr \<noteq> CPLUS_NULL then cplus_mempool_free mp addr else (Inl ENONE, mp))"

text \<open>
  \<open>obj\<close> is what \<^verbatim>\<open>cplus_malloc\<close> returned for the \<^verbatim>\<open>struct mempool\<close>, \<open>mal n\<close> what it
  returns for an area of \<open>n\<close> bytes, \<open>mem0\<close> the contents of memory at that time.  The size of
  the area is a 32-bit product.
\<close>

definition mempool_initialize_object ::
    "ptr \<Rightarrow> (u32 \<Rightarrow> ptr) \<Rightarrow> mem \<Rightarrow> u32 \<Rightarrow> u32 \<Rightarrow> bool \<Rightarrow> mempool cresult" where
  "mempool_initialize_object obj mal mem0 block_count block_size thread_safe =
     (if obj \<noteq> CPLUS_NULL then
        (let start = mal (block_count * block_size)
         in if start = CPLUS_NULL then Inl ENOMEM
            else Inr \<lparr>mp_block_count = block_count, mp_block_size = block_size,
                  mp_free_blocks_count = block_count, mp_initialized_blocks_count = 0,
                  mp_mem_start = start, mp_next_block = start,
                  mp_thread_safe = thread_safe, mp_mem = mem0\<rparr>)
      else Inl ENOMEM)"

definition cplus_mempool_new ::
    "ptr \<Rightarrow> (u32 \<Rightarrow> ptr) \<Rightarrow> mem \<Rightarrow> u32 \<Rightarrow> u32 \<Rightarrow> mempool cresult" where
  "cplus_mempool_new obj mal mem0 block_count block_size =
     (if block_count = 0 then Inl EINVAL
      else if 4 > block_size then Inl EINVAL
      else mempool_initialize_object obj mal mem0 block_count block_size False)"

definition cplus_mempool_new_s ::
    "ptr \<Rightarrow> (u32 \<Rightarrow> ptr) \<Rightarrow> mem \<Rightarrow> u32 \<Rightarrow> u32 \<Rightarrow> mempool cresult" where
  "cplus_mempool_new_s obj mal mem0 block_count block_size =
     (if block_count = 0 then Inl EINVAL
      else if 4 > block_size then Inl EINVAL
      else mempool_initialize_object obj mal mem0 block_count block_size True)"

text \<open>The blocks that \<^verbatim>\<open>cplus_mempool_delete\<close> gives back to the C library, in order.\<close>

definition cplus_mempool_delete :: "mempool \<Rightarrow> ptr \<Rightarrow> ptr list" where
  "cplus_mempool_delete mp obj =
     (if mp_mem_start mp \<noteq> CPLUS_NULL then [mp_mem_start mp] else []) @ [obj]"

section \<open>The free list as a list of indices\<close>

text \<open>
  \<open>free_blocks\<close> walks the chain of free blocks, reading the link of an initialised block from
  memory and taking the successor for a block that was never initialised.
\<close>

definition block_link :: "mempool \<Rightarrow> u32 \<Rightarrow> u32" where
  "block_link mp i =
     (if i < mp_initialized_blocks_count mp then load32 (mp_mem mp) (index_to_addr mp i)
      else i + 1)"

primrec free_walk :: "mempool \<Rightarrow> nat \<Rightarrow> u32 \<Rightarrow> u32 list" where
  "free_walk mp 0 i = []"
| "free_walk mp (Suc n) i = i # free_walk mp n (block_link mp i)"

definition free_blocks :: "mempool \<Rightarrow> u32 list" where
  "free_blocks mp =
     free_walk mp (unat (mp_free_blocks_count mp)) (addr_to_index mp (mp_next_block mp))"

text \<open>The blocks in use.\<close>

definition live_blocks :: "mempool \<Rightarrow> ptr set" where
  "live_blocks mp =
     {index_to_addr mp i | i. i < mp_block_count mp \<and> i \<notin> set (free_blocks mp)}"

definition block_bytes :: "mempool \<Rightarrow> ptr \<Rightarrow> ptr set" where
  "block_bytes mp a = region a (unat (mp_block_size mp))"

section \<open>Geometry: blocks do not overlap\<close>

text \<open>The area fits into the 32-bit size arithmetic and does not wrap around the address space.\<close>

definition pool_area :: "mempool \<Rightarrow> bool" where
  "pool_area mp \<longleftrightarrow> 4 \<le> unat (mp_block_size mp) \<and>
     unat (mp_block_count mp) * unat (mp_block_size mp) < 2 ^ 32 \<and>
     mp_mem_start mp \<noteq> CPLUS_NULL \<and>
     unat (mp_mem_start mp) + unat (mp_block_count mp) * unat (mp_block_size mp) \<le> 2 ^ 64"

definition block_addr :: "mempool \<Rightarrow> nat \<Rightarrow> ptr" where
  "block_addr mp i = mp_mem_start mp + of_nat (i * unat (mp_block_size mp))"

lemma block_offset_bound:
  assumes "i < n" "k < (s :: nat)"
  shows "i * s + k < n * s"
proof -
  have "i * s + k < Suc i * s" using assms(2) by simp
  also have "\<dots> \<le> n * s" using assms(1) by (intro mult_le_mono1) simp
  finally show ?thesis .
qed

lemma unat_block_offset:
  assumes "pool_area mp" "i < mp_block_count mp"
  shows "unat (mp_block_size mp * i) = unat i * unat (mp_block_size mp)"
proof -
  have pos: "0 < unat (mp_block_size mp)"
    and lt: "unat i < unat (mp_block_count mp)"
    using assms unfolding pool_area_def word_less_nat_alt by auto
  have "unat i * unat (mp_block_size mp) < 2 ^ 32"
    using block_offset_bound [OF lt pos] assms(1) unfolding pool_area_def by linarith
  then have "unat (i * mp_block_size mp) = unat i * unat (mp_block_size mp)"
    by (simp add: unat_word_ariths)
  moreover have "mp_block_size mp * i = i * mp_block_size mp" by (rule mult.commute)
  ultimately show ?thesis by (simp only:)
qed

lemma index_to_addr_block:
  assumes "pool_area mp" "i < mp_block_count mp"
  shows "index_to_addr mp i = block_addr mp (unat i)"
proof -
  have "ucast (mp_block_size mp * i) = (of_nat (unat (mp_block_size mp * i)) :: ptr)"
    by simp
  also have "\<dots> = of_nat (unat i * unat (mp_block_size mp))"
    by (simp only: unat_block_offset [OF assms])
  finally show ?thesis by (simp add: index_to_addr_def block_addr_def)
qed

lemma unat_block_diff:
  assumes "pool_area mp" "i < unat (mp_block_count mp)" "k < unat (mp_block_size mp)"
  shows "unat (block_addr mp i + of_nat k - mp_mem_start mp) = i * unat (mp_block_size mp) + k"
proof -
  have "i * unat (mp_block_size mp) + k < 2 ^ 64"
    using block_offset_bound [OF assms(2,3)] assms(1) unfolding pool_area_def by linarith
  then have "unat (of_nat (i * unat (mp_block_size mp) + k) :: ptr) = i * unat (mp_block_size mp) + k"
    by (intro unat_of_nat_ptr) simp
  moreover have "block_addr mp i + of_nat k - mp_mem_start mp =
      of_nat (i * unat (mp_block_size mp) + k)"
    by (simp add: block_addr_def)
  ultimately show ?thesis by (simp only:)
qed

lemma pool_size_pos: "pool_area mp \<Longrightarrow> 0 < unat (mp_block_size mp)"
  by (simp add: pool_area_def)

lemma block_count_bound: "pool_area mp \<Longrightarrow> unat (mp_block_count mp) < 2 ^ 30"
proof -
  assume a: "pool_area mp"
  then have "unat (mp_block_count mp) * 4 \<le> unat (mp_block_count mp) * unat (mp_block_size mp)"
    by (simp add: pool_area_def)
  also have "\<dots> < 2 ^ 32" using a by (simp add: pool_area_def)
  finally show ?thesis by simp
qed

lemma addr_to_index_block:
  assumes "pool_area mp" "i < unat (mp_block_count mp)"
  shows "addr_to_index mp (block_addr mp i) = of_nat i"
proof -
  let ?s = "unat (mp_block_size mp)"
  have d: "unat (block_addr mp i - mp_mem_start mp) = i * ?s"
    using unat_block_diff [OF assms pool_size_pos] assms(1) by simp
  have "i * ?s < 2 ^ 32"
    using block_offset_bound [OF assms(2) pool_size_pos [OF assms(1)]] assms(1)
    unfolding pool_area_def by linarith
  then have "unat (ucast (block_addr mp i - mp_mem_start mp) :: u32) = i * ?s"
    by (simp add: unsigned_ucast_eq d take_bit_nat_eq_self)
  then have "unat (addr_to_index mp (block_addr mp i)) = i"
    using pool_size_pos [OF assms(1)] by (simp add: addr_to_index_def unat_div)
  moreover have "addr_to_index mp (block_addr mp i) =
      of_nat (unat (addr_to_index mp (block_addr mp i)))"
    by simp
  ultimately show ?thesis by (simp only:)
qed

lemma block_addr_inject:
  assumes "pool_area mp" "i < unat (mp_block_count mp)" "j < unat (mp_block_count mp)"
  shows "block_addr mp i = block_addr mp j \<longleftrightarrow> i = j"
proof
  assume "block_addr mp i = block_addr mp j"
  then have "(of_nat i :: u32) = of_nat j"
    using addr_to_index_block [OF assms(1,2)] addr_to_index_block [OF assms(1,3)] by simp
  moreover have "i < 4294967296" "j < 4294967296"
    using assms block_count_bound [OF assms(1)] by simp_all
  ultimately show "i = j" by (simp add: of_nat_u32_inject)
qed simp

lemma block_addr_not_null:
  assumes "pool_area mp" "i < unat (mp_block_count mp)"
  shows "block_addr mp i \<noteq> CPLUS_NULL"
proof -
  let ?s = "unat (mp_block_size mp)"
  have "i * ?s < unat (mp_block_count mp) * ?s"
    using block_offset_bound [OF assms(2) pool_size_pos] assms(1) by fastforce
  then have lt: "unat (mp_mem_start mp) + i * ?s < 2 ^ 64"
    using assms(1) unfolding pool_area_def by linarith
  have "block_addr mp i = of_nat (unat (mp_mem_start mp) + i * ?s)"
    by (simp add: block_addr_def)
  with lt have "unat (block_addr mp i) = unat (mp_mem_start mp) + i * ?s"
    by (simp only:) (intro unat_of_nat_ptr, simp)
  moreover have "0 < unat (mp_mem_start mp)"
    using assms(1) by (simp add: pool_area_def unat_gt_0)
  ultimately show ?thesis by (metis add_gr_0 less_numeral_extra(3) unat_0)
qed

lemma block_regions_disjoint:
  assumes "pool_area mp" "i < unat (mp_block_count mp)" "j < unat (mp_block_count mp)" "i \<noteq> j"
    and "p \<le> unat (mp_block_size mp)" "q \<le> unat (mp_block_size mp)"
  shows "region (block_addr mp i) p \<inter> region (block_addr mp j) q = {}"
proof (rule ccontr)
  let ?s = "unat (mp_block_size mp)"
  assume "region (block_addr mp i) p \<inter> region (block_addr mp j) q \<noteq> {}"
  then obtain k l where kl: "k < ?s" "l < ?s" "block_addr mp i + of_nat k = block_addr mp j + of_nat l"
    using assms(5,6) unfolding region_def by fastforce
  have "i * ?s + k = j * ?s + l"
    using unat_block_diff [OF assms(1,2) kl(1)] unat_block_diff [OF assms(1,3) kl(2)] kl(3) by simp
  then have "(i * ?s + k) div ?s = (j * ?s + l) div ?s" by simp
  with kl have "i = j" by simp
  with assms(4) show False ..
qed

section \<open>What the state of a pool represents\<close>

text \<open>
  A pool with free stack \<open>xs\<close> and first untouched block \<open>F\<close>: the links of the blocks of the
  stack lead from each to the next and from the last to \<open>F\<close>; the blocks from \<open>F\<close> on are free
  in index order, those already initialised being linked that way in memory.
\<close>

definition link_of :: "mempool \<Rightarrow> nat \<Rightarrow> nat" where
  "link_of mp i = unat (load32 (mp_mem mp) (block_addr mp i))"

definition first_block :: "mempool \<Rightarrow> nat list \<Rightarrow> ptr" where
  "first_block mp is = (case is of [] \<Rightarrow> CPLUS_NULL | i # _ \<Rightarrow> block_addr mp i)"

fun stack_links :: "mempool \<Rightarrow> nat list \<Rightarrow> nat \<Rightarrow> bool" where
  "stack_links mp [] F = True"
| "stack_links mp [i] F = (link_of mp i = F)"
| "stack_links mp (i # j # is) F = (link_of mp i = j \<and> stack_links mp (j # is) F)"

definition mp_rep :: "mempool \<Rightarrow> nat list \<Rightarrow> nat \<Rightarrow> bool" where
  "mp_rep mp xs F \<longleftrightarrow> pool_area mp \<and>
     F \<le> unat (mp_initialized_blocks_count mp) \<and>
     unat (mp_initialized_blocks_count mp) \<le> unat (mp_block_count mp) \<and>
     distinct xs \<and> set xs \<subseteq> {..<F} \<and>
     unat (mp_free_blocks_count mp) = length xs + (unat (mp_block_count mp) - F) \<and>
     mp_next_block mp = first_block mp (xs @ [F..<unat (mp_block_count mp)]) \<and>
     stack_links mp xs F \<and>
     (\<forall>i. F \<le> i \<longrightarrow> i < unat (mp_initialized_blocks_count mp) \<longrightarrow> link_of mp i = Suc i)"

definition mp_ok :: "mempool \<Rightarrow> bool" where
  "mp_ok mp \<longleftrightarrow> (\<exists>xs F. mp_rep mp xs F)"

section \<open>Each operation on the representation\<close>

lemma geometry_update [simp]:
  "block_addr (mp\<lparr>mp_mem := m\<rparr>) = block_addr mp"
  "block_addr (mp\<lparr>mp_next_block := p\<rparr>) = block_addr mp"
  "block_addr (mp\<lparr>mp_free_blocks_count := c\<rparr>) = block_addr mp"
  "block_addr (mp\<lparr>mp_initialized_blocks_count := c\<rparr>) = block_addr mp"
  "pool_area (mp\<lparr>mp_mem := m\<rparr>) = pool_area mp"
  "pool_area (mp\<lparr>mp_next_block := p\<rparr>) = pool_area mp"
  "pool_area (mp\<lparr>mp_free_blocks_count := c\<rparr>) = pool_area mp"
  "pool_area (mp\<lparr>mp_initialized_blocks_count := c\<rparr>) = pool_area mp"
  by (auto simp: fun_eq_iff block_addr_def pool_area_def)

lemma index_geometry_update [simp]:
  "index_to_addr (mp\<lparr>mp_mem := m\<rparr>) = index_to_addr mp"
  "index_to_addr (mp\<lparr>mp_next_block := p\<rparr>) = index_to_addr mp"
  "index_to_addr (mp\<lparr>mp_free_blocks_count := c\<rparr>) = index_to_addr mp"
  "index_to_addr (mp\<lparr>mp_initialized_blocks_count := c\<rparr>) = index_to_addr mp"
  "addr_to_index (mp\<lparr>mp_mem := m\<rparr>) = addr_to_index mp"
  "addr_to_index (mp\<lparr>mp_next_block := p\<rparr>) = addr_to_index mp"
  "addr_to_index (mp\<lparr>mp_free_blocks_count := c\<rparr>) = addr_to_index mp"
  "addr_to_index (mp\<lparr>mp_initialized_blocks_count := c\<rparr>) = addr_to_index mp"
  by (auto simp: fun_eq_iff index_to_addr_def addr_to_index_def)

lemma link_of_update [simp]:
  "link_of (mp\<lparr>mp_next_block := p\<rparr>) = link_of mp"
  "link_of (mp\<lparr>mp_free_blocks_count := c\<rparr>) = link_of mp"
  "link_of (mp\<lparr>mp_initialized_blocks_count := c\<rparr>) = link_of mp"
  by (auto simp: fun_eq_iff link_of_def)

lemma link_of_store:
  assumes "pool_area mp" "i < unat (mp_block_count mp)" "j < unat (mp_block_count mp)"
  shows "link_of (mp\<lparr>mp_mem := store32 (mp_mem mp) (block_addr mp j) v\<rparr>) i =
    (if i = j then unat v else link_of mp i)"
proof (cases "i = j")
  case True
  then show ?thesis by (simp add: link_of_def)
next
  case False
  have "4 \<le> unat (mp_block_size mp)" using assms(1) by (simp add: pool_area_def)
  then have "region (block_addr mp j) 4 \<inter> region (block_addr mp i) 4 = {}"
    using block_regions_disjoint [OF assms(1,3,2)] False by simp
  then show ?thesis using False by (simp add: link_of_def load32_store32_disjoint)
qed

lemma stack_links_cong:
  "(\<And>i. i \<in> set xs \<Longrightarrow> link_of mp' i = link_of mp i) \<Longrightarrow>
     stack_links mp' xs F = stack_links mp xs F"
  by (induction mp xs F rule: stack_links.induct) auto

lemma stack_links_update [simp]:
  "stack_links (mp\<lparr>mp_next_block := p\<rparr>) = stack_links mp"
  "stack_links (mp\<lparr>mp_free_blocks_count := c\<rparr>) = stack_links mp"
  "stack_links (mp\<lparr>mp_initialized_blocks_count := c\<rparr>) = stack_links mp"
  by (intro ext stack_links_cong; simp)+

lemma stack_links_Cons:
  "stack_links mp (i # xs) F \<longleftrightarrow>
     link_of mp i = (case xs of [] \<Rightarrow> F | j # _ \<Rightarrow> j) \<and> stack_links mp xs F"
  by (cases xs) auto

lemma first_block_update [simp]:
  "first_block (mp\<lparr>mp_mem := m\<rparr>) = first_block mp"
  "first_block (mp\<lparr>mp_next_block := p\<rparr>) = first_block mp"
  "first_block (mp\<lparr>mp_free_blocks_count := c\<rparr>) = first_block mp"
  "first_block (mp\<lparr>mp_initialized_blocks_count := c\<rparr>) = first_block mp"
  by (auto simp: fun_eq_iff first_block_def split: list.split)

lemma mp_repD:
  assumes "mp_rep mp xs F"
  shows "pool_area mp" "F \<le> unat (mp_block_count mp)"
    "F \<le> unat (mp_initialized_blocks_count mp)"
    "unat (mp_initialized_blocks_count mp) \<le> unat (mp_block_count mp)"
    "distinct xs" "\<And>i. i \<in> set xs \<Longrightarrow> i < F"
    "unat (mp_free_blocks_count mp) = length xs + (unat (mp_block_count mp) - F)"
    "mp_next_block mp = first_block mp (xs @ [F..<unat (mp_block_count mp)])"
    "stack_links mp xs F"
    "\<And>i. F \<le> i \<Longrightarrow> i < unat (mp_initialized_blocks_count mp) \<Longrightarrow> link_of mp i = Suc i"
  using assms unfolding mp_rep_def by auto


lemma lazy_init_rep:
  assumes rep: "mp_rep mp xs F"
  shows "mp_rep (lazy_init mp) xs F \<and>
    (F < unat (mp_block_count mp) \<longrightarrow> F < unat (mp_initialized_blocks_count (lazy_init mp)))"
proof (cases "mp_initialized_blocks_count mp < mp_block_count mp")
  case True
  let ?I = "mp_initialized_blocks_count mp"
  let ?mp1 = "mp\<lparr>mp_mem := store32 (mp_mem mp) (block_addr mp (unat ?I)) (?I + 1)\<rparr>"
  have lt: "unat ?I < unat (mp_block_count mp)" using True by (simp add: word_less_nat_alt)
  have Suc: "unat (?I + 1) = Suc (unat ?I)" using True by (rule unat_Suc_u32)
  have lazy: "lazy_init mp = ?mp1\<lparr>mp_initialized_blocks_count := ?I + 1\<rparr>"
    using True by (simp add: lazy_init_def Let_def index_to_addr_block [OF mp_repD(1) [OF rep] True])
  have link: "link_of ?mp1 i = (if i = unat ?I then Suc (unat ?I) else link_of mp i)"
    if "i < unat (mp_block_count mp)" for i
    using link_of_store [OF mp_repD(1) [OF rep] that lt] Suc by simp
  have "stack_links ?mp1 xs F = stack_links mp xs F"
    using mp_repD(2,3,6) [OF rep] lt by (intro stack_links_cong) (fastforce simp: link)
  then show ?thesis
    using rep lt unfolding lazy mp_rep_def by (auto simp: Suc link less_Suc_eq)
next
  case False
  then have "unat (mp_initialized_blocks_count mp) = unat (mp_block_count mp)"
    using mp_repD(4) [OF rep] by (simp add: word_less_nat_alt)
  with False rep show ?thesis by (simp add: lazy_init_def)
qed

lemma free_count_zero_iff:
  "mp_rep mp xs F \<Longrightarrow>
     0 < mp_free_blocks_count mp \<longleftrightarrow> xs @ [F..<unat (mp_block_count mp)] \<noteq> []"
  using mp_repD(2,7) [of mp xs F] by (cases xs) (auto simp: u32_pos_iff)

lemma first_block_Cons [simp]: "first_block mp (i # is) = block_addr mp i"
  by (simp add: first_block_def)

lemma first_block_Nil [simp]: "first_block mp [] = CPLUS_NULL"
  by (simp add: first_block_def)

text \<open>
  Allocation takes the head of the stack, or the first untouched block when the stack is
  empty.  The step after lazy initialisation:
\<close>

definition take_block :: "mempool \<Rightarrow> mempool" where
  "take_block mp = mp\<lparr>mp_free_blocks_count := mp_free_blocks_count mp - 1,
     mp_next_block := (if 0 < mp_free_blocks_count mp - 1
        then index_to_addr mp (load32 (mp_mem mp) (mp_next_block mp)) else CPLUS_NULL)\<rparr>"

lemma alloc_take_block:
  "cplus_mempool_alloc mp =
     (if 0 < mp_free_blocks_count (lazy_init mp)
      then (Inr (mp_next_block (lazy_init mp)), take_block (lazy_init mp))
      else (Inl ENOMEM, lazy_init mp))"
  by (simp add: cplus_mempool_alloc_def take_block_def Let_def)

lemma take_block_next:
  assumes rep: "mp_rep mp xs F" and free: "xs @ [F..<unat (mp_block_count mp)] = i # is"
    and init: "F < unat (mp_block_count mp) \<longrightarrow> F < unat (mp_initialized_blocks_count mp)"
  shows "mp_next_block (take_block mp) = first_block mp is"
    and "unat (mp_free_blocks_count (take_block mp)) = length is"
proof -
  let ?n = "unat (mp_block_count mp)"
  have i_lt: "i < ?n" and is_lt: "\<And>j. j \<in> set is \<Longrightarrow> j < ?n"
    using mp_repD(2,6) [OF rep] arg_cong [OF free, of set] by fastforce+
  have len: "unat (mp_free_blocks_count mp) = length (i # is)"
    using mp_repD(7) [OF rep] arg_cong [OF free, of length] by simp
  then have pos: "0 < mp_free_blocks_count mp" by (simp add: u32_pos_iff)
  show cnt: "unat (mp_free_blocks_count (take_block mp)) = length is"
    using len pos by (simp add: take_block_def unat_pred_u32)
  have link: "link_of mp i = hd is" if "is \<noteq> []"
  proof (cases xs)
    case Nil
    then have "i = F" "is = [Suc F..<?n]" "F < ?n"
      using free by (auto simp: upt_eq_Cons_conv)
    with that init mp_repD(10) [OF rep, of F] show ?thesis by simp
  next
    case (Cons x ys)
    then have "x = i" "is = ys @ [F..<?n]" using free by auto
    with Cons mp_repD(9) [OF rep] that show ?thesis
      by (cases ys) (auto simp: stack_links_Cons upt_rec)
  qed
  have "0 < mp_free_blocks_count mp - 1 \<longleftrightarrow> is \<noteq> []"
    unfolding u32_pos_iff using cnt by (simp add: take_block_def)
  moreover have "index_to_addr mp (load32 (mp_mem mp) (block_addr mp i)) = block_addr mp (hd is)"
    if "is \<noteq> []"
  proof -
    have "unat (load32 (mp_mem mp) (block_addr mp i)) = hd is"
      using link [OF that] by (simp add: link_of_def)
    moreover have "hd is < ?n" using that is_lt by simp
    ultimately show ?thesis
      using index_to_addr_block [OF mp_repD(1) [OF rep]] by (simp add: word_less_nat_alt)
  qed
  ultimately show "mp_next_block (take_block mp) = first_block mp is"
    using mp_repD(8) [OF rep] free by (cases "is") (auto simp: take_block_def)
qed

text \<open>The stack and the first untouched block after one block was taken.\<close>

fun after_take :: "nat list \<Rightarrow> nat \<Rightarrow> nat list \<times> nat" where
  "after_take [] F = ([], Suc F)"
| "after_take (x # xs) F = (xs, F)"

lemma after_take_free:
  assumes "after_take xs F = (ys, G)" "xs @ [F..<n] = i # is"
  shows "ys @ [G..<n] = is"
  using assms by (cases xs) (auto simp: upt_eq_Cons_conv)

lemma take_block_rep:
  assumes rep: "mp_rep mp xs F" and free: "xs @ [F..<unat (mp_block_count mp)] = i # is"
    and init: "F < unat (mp_block_count mp) \<longrightarrow> F < unat (mp_initialized_blocks_count mp)"
    and after: "after_take xs F = (ys, G)"
  shows "mp_rep (take_block mp) ys G"
proof -
  let ?n = "unat (mp_block_count mp)"
  have "ys @ [G..<?n] = is" using after_take_free [OF after free] .
  then have next_block: "mp_next_block (take_block mp) = first_block mp (ys @ [G..<?n])"
    and count: "unat (mp_free_blocks_count (take_block mp)) = length ys + (?n - G)"
    using take_block_next [OF rep free init] by auto
  have "G \<le> unat (mp_initialized_blocks_count mp) \<and> distinct ys \<and> set ys \<subseteq> {..<G} \<and>
      stack_links mp ys G \<and>
      (\<forall>i. G \<le> i \<longrightarrow> i < unat (mp_initialized_blocks_count mp) \<longrightarrow> link_of mp i = Suc i)"
  proof (cases xs)
    case Nil
    then have "F < ?n" using free by (auto simp: upt_eq_Cons_conv)
    with Nil init after mp_repD [OF rep] show ?thesis by auto
  next
    case (Cons x zs)
    with after mp_repD [OF rep] show ?thesis by (auto simp: stack_links_Cons)
  qed
  then show ?thesis
    using next_block count mp_repD(1,4) [OF rep] unfolding mp_rep_def by (simp add: take_block_def)
qed

lemma alloc_rep:
  assumes rep: "mp_rep mp xs F"
  shows "xs @ [F..<unat (mp_block_count mp)] = [] \<Longrightarrow>
      \<exists>mp'. cplus_mempool_alloc mp = (Inl ENOMEM, mp') \<and> mp_rep mp' xs F"
    and "\<lbrakk>xs @ [F..<unat (mp_block_count mp)] = i # is; after_take xs F = (ys, G)\<rbrakk> \<Longrightarrow>
      \<exists>mp'. cplus_mempool_alloc mp = (Inr (block_addr mp i), mp') \<and> mp_rep mp' ys G"
proof -
  let ?mp1 = "lazy_init mp"
  have rep1: "mp_rep ?mp1 xs F"
    and init: "F < unat (mp_block_count ?mp1) \<longrightarrow> F < unat (mp_initialized_blocks_count ?mp1)"
    using lazy_init_rep [OF rep] by (auto simp: lazy_init_def Let_def)
  have same: "mp_block_count ?mp1 = mp_block_count mp" "block_addr ?mp1 = block_addr mp"
    by (auto simp: lazy_init_def Let_def)
  have count: "0 < mp_free_blocks_count ?mp1 \<longleftrightarrow> xs @ [F..<unat (mp_block_count mp)] \<noteq> []"
    using free_count_zero_iff [OF rep1] unfolding same .
  show "\<exists>mp'. cplus_mempool_alloc mp = (Inl ENOMEM, mp') \<and> mp_rep mp' xs F"
    if "xs @ [F..<unat (mp_block_count mp)] = []"
    using that count rep1 unfolding alloc_take_block by auto
  show "\<exists>mp'. cplus_mempool_alloc mp = (Inr (block_addr mp i), mp') \<and> mp_rep mp' ys G"
    if "xs @ [F..<unat (mp_block_count mp)] = i # is" "after_take xs F = (ys, G)"
    using take_block_rep [OF rep1 _ init that(2)] mp_repD(8) [OF rep1] that(1) count
    unfolding alloc_take_block by (auto simp: same)
qed

lemma free_rep:
  assumes rep: "mp_rep mp xs F" and i: "i < F" "i \<notin> set xs"
  shows "fst (cplus_mempool_free mp (block_addr mp i)) = Inr ()"
    and "mp_rep (snd (cplus_mempool_free mp (block_addr mp i))) (i # xs) F"
proof -
  let ?n = "unat (mp_block_count mp)"
  let ?v = "if mp_next_block mp \<noteq> CPLUS_NULL then addr_to_index mp (mp_next_block mp)
            else mp_block_count mp"
  let ?mp1 = "mp\<lparr>mp_mem := store32 (mp_mem mp) (block_addr mp i) ?v\<rparr>"
  note D = mp_repD [OF rep]
  have i_n: "i < ?n" using i D(2) by simp
  have not_null: "block_addr mp i \<noteq> CPLUS_NULL" using D(1) i_n by (rule block_addr_not_null)
  have n_small: "?n < 4294967296" using block_count_bound [OF D(1)] by simp
  have v: "unat ?v = (case xs of [] \<Rightarrow> F | j # _ \<Rightarrow> j)"
  proof (cases "xs @ [F..<?n]")
    case Nil
    with D(2,8) show ?thesis by auto
  next
    case (Cons j js)
    have "j \<in> set (xs @ [F..<?n])" unfolding Cons by simp
    then have "j < ?n" using D(2,6) by fastforce
    moreover have "j = (case xs of [] \<Rightarrow> F | j # _ \<Rightarrow> j)"
      using Cons by (cases xs) (auto simp: upt_eq_Cons_conv)
    ultimately have j: "j < ?n" "j = (case xs of [] \<Rightarrow> F | j # _ \<Rightarrow> j)" .
    then show ?thesis
      using Cons D(8) addr_to_index_block [OF D(1) j(1)] block_addr_not_null [OF D(1) j(1)] n_small
      by simp
  qed
  have link: "link_of ?mp1 j = (if j = i then unat ?v else link_of mp j)" if "j < ?n" for j
    using link_of_store [OF D(1) that i_n] by auto
  have links: "stack_links ?mp1 xs F = stack_links mp xs F"
    using D(2,6) i by (intro stack_links_cong) (fastforce simp: link)
  have "mp_free_blocks_count mp < mp_free_blocks_count mp + 1 \<and>
      unat (mp_free_blocks_count mp + 1) = Suc (unat (mp_free_blocks_count mp))"
  proof -
    have "card (set (i # xs)) \<le> F" using D(6) i card_mono [of "{..<F}" "set (i # xs)"] by fastforce
    then have "Suc (length xs) \<le> F" using D(5) i by (simp add: distinct_card)
    then have "unat (mp_free_blocks_count mp) < ?n" using D(2,7) by simp
    then show ?thesis
      using n_small by (simp add: word_less_nat_alt unat_word_ariths)
  qed
  then show "mp_rep (snd (cplus_mempool_free mp (block_addr mp i))) (i # xs) F"
    using not_null rep links i i_n link v
    unfolding mp_rep_def by (auto simp: cplus_mempool_free_def Let_def stack_links_Cons)
  show "fst (cplus_mempool_free mp (block_addr mp i)) = Inr ()"
    using not_null by (simp add: cplus_mempool_free_def Let_def)
qed

section \<open>The free list and the blocks in use, abstractly\<close>

lemma block_link_nat:
  assumes "mp_rep mp xs F" "i < unat (mp_block_count mp)"
  shows "block_link mp (of_nat i) =
    (if i < unat (mp_initialized_blocks_count mp) then of_nat (link_of mp i) else of_nat (Suc i))"
proof -
  note D = mp_repD [OF assms(1)]
  have "i < 4294967296" using assms(2) block_count_bound [OF D(1)] by simp
  then have "unat (of_nat i :: u32) = i" by simp
  then show ?thesis using assms(2) index_to_addr_block [OF D(1), of "of_nat i"]
    by (simp add: block_link_def link_of_def word_less_nat_alt)
qed

lemma free_walk_untouched:
  assumes rep: "mp_rep mp xs F" and "F \<le> k" "k \<le> unat (mp_block_count mp)"
  shows "free_walk mp (unat (mp_block_count mp) - k) (of_nat k) =
    map of_nat [k..<unat (mp_block_count mp)]"
  using assms(2,3)
proof (induction "unat (mp_block_count mp) - k" arbitrary: k)
  case 0
  then show ?case by simp
next
  case (Suc m)
  then have k: "k < unat (mp_block_count mp)" "m = unat (mp_block_count mp) - Suc k" by auto
  have "block_link mp (of_nat k) = of_nat (Suc k)"
    using block_link_nat [OF rep k(1)] mp_repD(10) [OF rep Suc.prems(1)] by simp
  then show ?case
    using Suc.hyps(1) [OF k(2)] Suc.prems k by (simp add: Suc_diff_Suc [symmetric] upt_conv_Cons)
qed

lemma free_walk_rep:
  assumes rep: "mp_rep mp xs F"
  shows "\<lbrakk>stack_links mp ys F; set ys \<subseteq> {..<F}\<rbrakk> \<Longrightarrow>
    free_walk mp (length ys + (unat (mp_block_count mp) - F))
      (of_nat (case ys of [] \<Rightarrow> F | j # _ \<Rightarrow> j)) =
    map of_nat (ys @ [F..<unat (mp_block_count mp)])"
proof (induction ys)
  case Nil
  then show ?case using free_walk_untouched [OF rep, of F] mp_repD(2) [OF rep] by simp
next
  case (Cons i ys)
  then have "i < unat (mp_initialized_blocks_count mp)" "i < unat (mp_block_count mp)"
    using mp_repD(2,3) [OF rep] by auto
  then have "block_link mp (of_nat i) = of_nat (case ys of [] \<Rightarrow> F | j # _ \<Rightarrow> j)"
    using block_link_nat [OF rep] Cons.prems(1) by (simp add: stack_links_Cons)
  with Cons show ?case by (simp add: stack_links_Cons)
qed

lemma free_blocks_rep:
  assumes rep: "mp_rep mp xs F"
  shows "free_blocks mp = map of_nat (xs @ [F..<unat (mp_block_count mp)])"
proof (cases "xs @ [F..<unat (mp_block_count mp)]")
  case Nil
  then have "unat (mp_free_blocks_count mp) = 0"
    using arg_cong [OF Nil, of length] mp_repD(7) [OF rep] by simp
  then show ?thesis using Nil unfolding free_blocks_def by (simp only: free_walk.simps list.map)
next
  case (Cons j js)
  have "j \<in> set (xs @ [F..<unat (mp_block_count mp)])" unfolding Cons by simp
  then have "j < unat (mp_block_count mp)" using mp_repD(2,6) [OF rep] by fastforce
  then have "addr_to_index mp (mp_next_block mp) = of_nat j"
    using mp_repD(1,8) [OF rep] Cons by (simp add: addr_to_index_block)
  moreover have "j = (case xs of [] \<Rightarrow> F | j # _ \<Rightarrow> j)"
    using Cons by (cases xs) (auto simp: upt_eq_Cons_conv)
  ultimately show ?thesis
    using free_walk_rep [OF rep, of xs] mp_repD(6,7,9) [OF rep] by (auto simp: free_blocks_def)
qed

lemma live_blocks_rep:
  assumes rep: "mp_rep mp xs F"
  shows "live_blocks mp = block_addr mp ` ({..<F} - set xs)"
proof -
  note D = mp_repD [OF rep]
  let ?n = "unat (mp_block_count mp)"
  have small: "?n < 4294967296" using block_count_bound [OF D(1)] by simp
  have mem: "of_nat j \<in> set (free_blocks mp) \<longleftrightarrow> j \<in> set xs \<or> F \<le> j" if "j < ?n" for j
  proof -
    have "of_nat j \<in> set (free_blocks mp) \<longleftrightarrow>
        (\<exists>k \<in> set xs \<union> {F..<?n}. (of_nat k :: u32) = of_nat j)"
      unfolding free_blocks_rep [OF rep] by (auto simp: image_iff intro: sym)
    also have "\<dots> \<longleftrightarrow> (\<exists>k \<in> set xs \<union> {F..<?n}. k = j)"
      using that small D(2,6) by (intro bex_cong refl of_nat_u32_inject) fastforce+
    also have "\<dots> \<longleftrightarrow> j \<in> set xs \<or> F \<le> j" using that by auto
    finally show ?thesis .
  qed
  have "live_blocks mp = {index_to_addr mp (of_nat j) | j. j < ?n \<and> of_nat j \<notin> set (free_blocks mp)}"
  proof -
    have "i < mp_block_count mp \<longleftrightarrow> (\<exists>j < ?n. i = of_nat j)" for i
      using small by (auto simp: word_less_nat_alt intro!: exI [of _ "unat i"])
    then show ?thesis unfolding live_blocks_def by auto
  qed
  also have "\<dots> = {block_addr mp j | j. j < ?n \<and> of_nat j \<notin> set (free_blocks mp)}"
  proof -
    have "index_to_addr mp (of_nat j) = block_addr mp j" if "j < ?n" for j
      using that small index_to_addr_block [OF D(1), of "of_nat j"] by (simp add: word_less_nat_alt)
    then show ?thesis by (intro Collect_cong ex_cong1) auto
  qed
  also have "\<dots> = block_addr mp ` ({..<F} - set xs)"
    using mem D(2) by (fastforce simp: image_iff)
  finally show ?thesis .
qed

section \<open>The pool as an allocator\<close>

definition mp_free :: "mempool \<Rightarrow> ptr \<Rightarrow> mempool" where
  "mp_free mp a = snd (cplus_mempool_free mp a)"

lemma mp_okE:
  assumes "mp_ok mp"
  obtains xs F where "mp_rep mp xs F"
  using assms unfolding mp_ok_def by blast

lemma alloc_geometry:
  assumes "cplus_mempool_alloc mp = (r, mp')"
  shows "mp_block_count mp' = mp_block_count mp \<and> mp_block_size mp' = mp_block_size mp \<and>
    mp_mem_start mp' = mp_mem_start mp"
  using assms by (auto simp: cplus_mempool_alloc_def lazy_init_def Let_def split: if_splits)

lemma block_addr_geometry:
  "\<lbrakk>mp_block_size mp' = mp_block_size mp; mp_mem_start mp' = mp_mem_start mp\<rbrakk> \<Longrightarrow>
     block_addr mp' = block_addr mp"
  by (simp add: fun_eq_iff block_addr_def)

text \<open>One allocation, on the representation: who comes out and what is left.\<close>

lemma alloc_cases:
  assumes rep: "mp_rep mp xs F" and alloc: "cplus_mempool_alloc mp = (r, mp')"
  obtains (Empty) "xs @ [F..<unat (mp_block_count mp)] = []" "r = Inl ENOMEM" "mp_rep mp' xs F"
  | (Block) i "is" ys G where "xs @ [F..<unat (mp_block_count mp)] = i # is"
      "after_take xs F = (ys, G)" "r = Inr (block_addr mp i)" "mp_rep mp' ys G"
proof (cases "xs @ [F..<unat (mp_block_count mp)]")
  case Nil
  with alloc_rep(1) [OF rep] alloc Empty show ?thesis by auto
next
  case (Cons i "is")
  obtain ys G where "after_take xs F = (ys, G)" by force
  with alloc_rep(2) [OF rep Cons] alloc Cons Block show ?thesis by auto
qed

interpretation mp: block_allocator cplus_mempool_alloc mp_free live_blocks mp_ok
proof
  fix s r s'
  assume "mp_ok s" and alloc: "cplus_mempool_alloc s = (r, s')"
  then obtain xs F where "mp_rep s xs F" by (blast elim: mp_okE)
  from this alloc show "mp_ok s'" by (cases rule: alloc_cases) (auto simp: mp_ok_def)
next
  fix s a s'
  assume "mp_ok s" and alloc: "cplus_mempool_alloc s = (Inr a, s')"
  then obtain xs F where rep: "mp_rep s xs F" by (blast elim: mp_okE)
  have geo: "block_addr s' = block_addr s"
    using alloc_geometry [OF alloc] by (intro block_addr_geometry) simp_all
  note D = mp_repD [OF rep]
  from rep alloc show "a \<noteq> CPLUS_NULL \<and> a \<notin> live_blocks s \<and> live_blocks s' = insert a (live_blocks s)"
  proof (cases rule: alloc_cases)
    case (Block i "is" ys G)
    have "i \<in> set (xs @ [F..<unat (mp_block_count s)])" unfolding Block(1) by simp
    then have i: "i < unat (mp_block_count s)" "i \<in> set xs \<or> F \<le> i" using D(2,6) by fastforce+
    have a: "a = block_addr s i" using Block(3) by simp
    have "a \<notin> live_blocks s"
      using i D(2) unfolding a live_blocks_rep [OF rep]
      by (auto simp: block_addr_inject [OF D(1)])
    moreover have "{..<G} - set ys = insert i ({..<F} - set xs)"
      using Block(1,2) D(2,5,6) by (cases xs) (auto simp: upt_eq_Cons_conv)
    then have "live_blocks s' = insert a (live_blocks s)"
      unfolding a live_blocks_rep [OF rep] live_blocks_rep [OF Block(4)] geo by simp
    ultimately show ?thesis using block_addr_not_null [OF D(1) i(1)] a by simp
  qed simp
next
  fix s e s'
  assume "mp_ok s" and alloc: "cplus_mempool_alloc s = (Inl e, s')"
  then obtain xs F where rep: "mp_rep s xs F" by (blast elim: mp_okE)
  have geo: "block_addr s' = block_addr s"
    using alloc_geometry [OF alloc] by (intro block_addr_geometry) simp_all
  from rep alloc show "live_blocks s' = live_blocks s"
  proof (cases rule: alloc_cases)
    case Empty
    then show ?thesis unfolding live_blocks_rep [OF rep] live_blocks_rep [OF Empty(3)] geo by simp
  qed simp
next
  fix s a
  assume "mp_ok s" and live: "a \<in> live_blocks s"
  then obtain xs F where rep: "mp_rep s xs F" by (blast elim: mp_okE)
  from live obtain i where i: "a = block_addr s i" "i < F" "i \<notin> set xs"
    by (auto simp: live_blocks_rep [OF rep])
  show "mp_ok (mp_free s a)"
    using free_rep(2) [OF rep i(2,3)] by (auto simp: mp_ok_def mp_free_def i(1))
next
  fix s a
  assume "mp_ok s" and live: "a \<in> live_blocks s"
  then obtain xs F where rep: "mp_rep s xs F" by (blast elim: mp_okE)
  from live obtain i where i: "a = block_addr s i" "i < F" "i \<notin> set xs"
    by (auto simp: live_blocks_rep [OF rep])
  have rep': "mp_rep (mp_free s a) (i # xs) F"
    using free_rep(2) [OF rep i(2,3)] by (simp add: mp_free_def i(1))
  have geo: "block_addr (mp_free s a) = block_addr s"
    by (simp add: mp_free_def cplus_mempool_free_def Let_def)
  have "j = i" if "block_addr s j = block_addr s i" "j < F" for j
    using that i(2) mp_repD(1,2) [OF rep] by (simp add: block_addr_inject)
  moreover have "live_blocks (mp_free s a) = block_addr s ` ({..<F} - set (i # xs))"
    unfolding live_blocks_rep [OF rep'] geo ..
  ultimately show "live_blocks (mp_free s a) = live_blocks s - {a}"
    unfolding live_blocks_rep [OF rep] i(1) by auto
qed

section \<open>Whose bytes an operation writes\<close>

text \<open>
  The operations write the link field of blocks that are free afterwards, never a byte of a
  block that a client holds; and a client that stays inside its blocks disturbs nothing.
\<close>

lemma alloc_mem_outside:
  assumes rep: "mp_rep mp xs F" and i: "i < F" and x: "x \<in> block_bytes mp (block_addr mp i)"
  shows "mp_mem (snd (cplus_mempool_alloc mp)) x = mp_mem mp x"
proof -
  note D = mp_repD [OF rep]
  have "mp_mem (lazy_init mp) x = mp_mem mp x"
  proof (cases "mp_initialized_blocks_count mp < mp_block_count mp")
    case True
    then have lt: "unat (mp_initialized_blocks_count mp) < unat (mp_block_count mp)"
      by (simp add: word_less_nat_alt)
    have "region (block_addr mp i) (unat (mp_block_size mp)) \<inter>
        region (block_addr mp (unat (mp_initialized_blocks_count mp))) 4 = {}"
      using D(1) i D(2,3) lt by (intro block_regions_disjoint) (auto simp: pool_area_def)
    then have "x \<notin> region (index_to_addr mp (mp_initialized_blocks_count mp)) 4"
      using x index_to_addr_block [OF D(1) True] by (auto simp: block_bytes_def)
    then show ?thesis using True by (simp add: lazy_init_def Let_def store32_outside)
  qed (simp add: lazy_init_def)
  then show ?thesis by (simp add: alloc_take_block take_block_def)
qed

lemma free_mem_outside:
  assumes "x \<notin> region a 4"
  shows "mp_mem (snd (cplus_mempool_free mp a)) x = mp_mem mp x"
  using assms by (simp add: cplus_mempool_free_def Let_def store32_outside)

lemma mp_rep_write_live:
  assumes rep: "mp_rep mp xs F" and i: "i < F" "i \<notin> set xs"
    and x: "x \<in> block_bytes mp (block_addr mp i)"
  shows "mp_rep (mp\<lparr>mp_mem := (mp_mem mp)(x := b)\<rparr>) xs F"
proof -
  note D = mp_repD [OF rep]
  let ?mp' = "mp\<lparr>mp_mem := (mp_mem mp)(x := b)\<rparr>"
  have link: "link_of ?mp' j = link_of mp j" if "j \<noteq> i" "j < unat (mp_block_count mp)" for j
  proof -
    have "region (block_addr mp i) (unat (mp_block_size mp)) \<inter> region (block_addr mp j) 4 = {}"
      using D(1,2) i that by (intro block_regions_disjoint) (auto simp: pool_area_def)
    then have "y \<noteq> x" if "y \<in> region (block_addr mp j) 4" for y
      using that x by (auto simp: block_bytes_def)
    then have "load32 ((mp_mem mp)(x := b)) (block_addr mp j) = load32 (mp_mem mp) (block_addr mp j)"
      by (intro load32_cong) simp
    then show ?thesis by (simp add: link_of_def)
  qed
  have "stack_links ?mp' xs F = stack_links mp xs F"
    using D(2,6) i by (intro stack_links_cong link) fastforce+
  then show ?thesis using rep i link unfolding mp_rep_def by auto
qed

section \<open>Properties\<close>

lemma initial_rep:
  assumes "pool_area mp" "mp_free_blocks_count mp = mp_block_count mp"
    and "mp_initialized_blocks_count mp = 0" "mp_next_block mp = mp_mem_start mp"
    and "0 < mp_block_count mp"
  shows "mp_rep mp [] 0"
  using assms by (auto simp: mp_rep_def first_block_def block_addr_def u32_pos_iff upt_rec)

lemma live_blocks_initial: "mp_rep mp [] 0 \<Longrightarrow> live_blocks mp = {}"
  by (simp add: live_blocks_rep)

definition example_pool :: mempool where
  "example_pool = \<lparr>mp_block_count = 3, mp_block_size = 8, mp_free_blocks_count = 3,
     mp_initialized_blocks_count = 0, mp_mem_start = 4096, mp_next_block = 4096,
     mp_thread_safe = False, mp_mem = (\<lambda>a. 0)\<rparr>"

lemma example_pool_rep: "mp_rep example_pool [] 0"
  by (intro initial_rep) (simp_all add: example_pool_def pool_area_def)

lemma example_pool_ok: "mp_ok example_pool"
  using example_pool_rep by (auto simp: mp_ok_def)

lemma mempool_new_ok:
  assumes "cplus_mempool_new obj mal mem0 bc bs = Inr mp"
    and "unat bc * unat bs < 2 ^ 32"
    and "\<And>n. mal n = CPLUS_NULL \<or> unat (mal n) + unat n \<le> 2 ^ 64"
  shows "mp_ok mp \<and> free_blocks mp = map of_nat [0..<unat bc] \<and> live_blocks mp = {}"
proof -
  from assms(1) have mp: "mp_block_count mp = bc" "mp_block_size mp = bs"
    "mp_free_blocks_count mp = bc" "mp_initialized_blocks_count mp = 0"
    "mp_mem_start mp = mal (bc * bs)" "mp_next_block mp = mal (bc * bs)"
    "mal (bc * bs) \<noteq> CPLUS_NULL" "bc \<noteq> 0" "4 \<le> bs"
    by (auto simp: cplus_mempool_new_def mempool_initialize_object_def Let_def split: if_splits)
  have "unat (bc * bs) = unat bc * unat bs"
    using assms(2) by (simp add: unat_word_ariths)
  then have "pool_area mp"
    using mp assms(2) assms(3) [of "bc * bs"] by (simp add: pool_area_def word_le_nat_alt)
  then have rep: "mp_rep mp [] 0"
    using mp by (intro initial_rep) (auto simp: word_gt_0)
  then show ?thesis
    using free_blocks_rep [OF rep] mp by (auto simp: mp_ok_def live_blocks_initial)
qed

text \<open>
  A new pool whose size does not overflow is well formed, has every block free in index
  order and no block in use.
\<close>

theorem mempool_new_all_free:
  assumes "cplus_mempool_new obj mal mem0 bc bs = Inr mp"
    and "unat bc * unat bs < 2 ^ 32"
    and "\<And>n. mal n = CPLUS_NULL \<or> unat (mal n) + unat n \<le> 2 ^ 64"
  shows "mp_ok mp \<and> free_blocks mp = map of_nat [0..<unat bc] \<and> live_blocks mp = {}"
  using assms by (rule mempool_new_ok)

lemma mempool_new_all_free_witness:
  "\<exists>mp. cplus_mempool_new 64 (\<lambda>n. 4096) (\<lambda>a. 0) 3 8 = Inr mp \<and> mp_ok mp \<and>
     free_blocks mp = [0, 1, 2] \<and> live_blocks mp = {}"
proof -
  let ?mp = "example_pool"
  have new: "cplus_mempool_new 64 (\<lambda>n. 4096) (\<lambda>a. 0) 3 8 = Inr ?mp"
    by (simp add: cplus_mempool_new_def mempool_initialize_object_def example_pool_def)
  have law: "(4096 :: ptr) = CPLUS_NULL \<or> unat (4096 :: ptr) + unat n \<le> 2 ^ 64" for n :: u32
    using unat_u32_bound [of n] by simp
  show ?thesis
    using new mempool_new_all_free [OF new _ law] by (auto simp: upt_rec)
qed

lemma mempool_alloc_step:
  assumes "mp_ok mp"
  shows "case cplus_mempool_alloc mp of (r, mp') \<Rightarrow> mp_ok mp' \<and>
    (case free_blocks mp of
       [] \<Rightarrow> r = Inl ENOMEM \<and> free_blocks mp' = [] \<and> live_blocks mp' = live_blocks mp
     | i # is \<Rightarrow> r = Inr (index_to_addr mp i) \<and> free_blocks mp' = is \<and>
         index_to_addr mp i \<notin> live_blocks mp \<and>
         live_blocks mp' = insert (index_to_addr mp i) (live_blocks mp))"
proof -
  obtain xs F where rep: "mp_rep mp xs F" using assms by (rule mp_okE)
  obtain r mp' where alloc: "cplus_mempool_alloc mp = (r, mp')" by force
  note D = mp_repD [OF rep]
  have count: "mp_block_count mp' = mp_block_count mp"
    using alloc_geometry [OF alloc] by simp
  have ok: "mp_ok mp'" using mp.alc_inv [OF assms alloc] .
  from rep alloc show ?thesis
  proof (cases rule: alloc_cases)
    case Empty
    then show ?thesis
      using alloc ok mp.alc_fail [OF assms] free_blocks_rep [OF rep] free_blocks_rep [OF Empty(3)] count
      by auto
  next
    case (Block i "is" ys G)
    have free: "free_blocks mp = of_nat i # map of_nat is"
      using Block(1) free_blocks_rep [OF rep] by simp
    have free': "free_blocks mp' = map of_nat is"
      using free_blocks_rep [OF Block(4)] after_take_free [OF Block(2,1)] count by simp
    have "i \<in> set (xs @ [F..<unat (mp_block_count mp)])" unfolding Block(1) by simp
    then have i: "i < unat (mp_block_count mp)" using D(2,6) by fastforce
    then have "index_to_addr mp (of_nat i) = block_addr mp i"
      using index_to_addr_block [OF D(1), of "of_nat i"] block_count_bound [OF D(1)]
      by (simp add: word_less_nat_alt)
    then show ?thesis
      using alloc ok free free' Block(3) mp.alc_ok [OF assms, of "block_addr mp i" mp'] by auto
  qed
qed

text \<open>
  Allocation takes the first block of the free list, marks it as in use and leaves the
  rest of the list; it fails, with ENOMEM, exactly when the list is empty.
\<close>

theorem mempool_alloc_pops_free_list:
  assumes "mp_ok mp"
  shows "case cplus_mempool_alloc mp of (r, mp') \<Rightarrow> mp_ok mp' \<and>
    (case free_blocks mp of
       [] \<Rightarrow> r = Inl ENOMEM \<and> free_blocks mp' = [] \<and> live_blocks mp' = live_blocks mp
     | i # is \<Rightarrow> r = Inr (index_to_addr mp i) \<and> free_blocks mp' = is \<and>
         index_to_addr mp i \<notin> live_blocks mp \<and>
         live_blocks mp' = insert (index_to_addr mp i) (live_blocks mp))"
  using assms by (rule mempool_alloc_step)

lemma mempool_alloc_pops_free_list_witness:
  "mp_ok example_pool \<and> fst (cplus_mempool_alloc example_pool) = Inr 4096 \<and>
     free_blocks (snd (cplus_mempool_alloc example_pool)) = [1, 2]"
proof -
  have "free_blocks example_pool = [0, 1, 2]"
    using free_blocks_rep [OF example_pool_rep] by (simp add: example_pool_def upt_rec)
  moreover have "index_to_addr example_pool 0 = 4096"
    by (simp add: index_to_addr_def example_pool_def)
  ultimately show ?thesis
    using mempool_alloc_pops_free_list [OF example_pool_ok] example_pool_ok by (auto split: prod.splits)
qed

lemma mempool_free_step:
  assumes "mp_ok mp" "a \<in> live_blocks mp"
  shows "case cplus_mempool_free mp a of (r, mp') \<Rightarrow> r = Inr () \<and> mp_ok mp' \<and>
    free_blocks mp' = addr_to_index mp a # free_blocks mp \<and>
    live_blocks mp' = live_blocks mp - {a} \<and> fst (cplus_mempool_alloc mp') = Inr a"
proof -
  obtain xs F where rep: "mp_rep mp xs F" using assms(1) by (rule mp_okE)
  obtain i where i: "a = block_addr mp i" "i < F" "i \<notin> set xs"
    using assms(2) by (auto simp: live_blocks_rep [OF rep])
  obtain mp' where free: "cplus_mempool_free mp a = (Inr (), mp')"
    using free_rep(1) [OF rep i(2,3)] i(1) by (metis prod.collapse)
  have rep': "mp_rep mp' (i # xs) F"
    using free_rep(2) [OF rep i(2,3)] free i(1) by simp
  have snd: "mp_free mp a = mp'" using free by (simp add: mp_free_def)
  have same: "mp_block_count mp' = mp_block_count mp" "block_addr mp' = block_addr mp"
    using snd by (auto simp: mp_free_def cplus_mempool_free_def Let_def)
  have "addr_to_index mp a = of_nat i"
    using i mp_repD(1,2) [OF rep] by (simp add: addr_to_index_block)
  then have "free_blocks mp' = addr_to_index mp a # free_blocks mp"
    using free_blocks_rep [OF rep] free_blocks_rep [OF rep'] same by simp
  moreover have "fst (cplus_mempool_alloc mp') = Inr a"
    using alloc_rep(2) [OF rep', of i _ xs F] same i(1) by auto
  ultimately show ?thesis
    using free snd mp.fre_inv [OF assms] mp.fre_live [OF assms] by simp
qed

text \<open>
  Freeing a block in use puts it at the front of the free list, so the next allocation
  returns the block that was freed last.
\<close>

theorem mempool_free_is_lifo:
  assumes "mp_ok mp" "a \<in> live_blocks mp"
  shows "case cplus_mempool_free mp a of (r, mp') \<Rightarrow> r = Inr () \<and> mp_ok mp' \<and>
    free_blocks mp' = addr_to_index mp a # free_blocks mp \<and>
    live_blocks mp' = live_blocks mp - {a} \<and> fst (cplus_mempool_alloc mp') = Inr a"
  using assms by (rule mempool_free_step)

lemma mempool_free_is_lifo_witness:
  "4096 \<in> live_blocks (snd (cplus_mempool_alloc example_pool)) \<and>
     free_blocks (snd (cplus_mempool_free (snd (cplus_mempool_alloc example_pool)) 4096)) = [0, 1, 2]"
proof -
  obtain mp1 where mp1: "cplus_mempool_alloc example_pool = (Inr (block_addr example_pool 0), mp1)"
      "mp_rep mp1 [] 1"
    using alloc_rep(2) [OF example_pool_rep, of 0 "[1, 2]" "[]" 1]
    by (auto simp: example_pool_def upt_rec)
  have a: "block_addr example_pool 0 = 4096" by (simp add: block_addr_def example_pool_def)
  have ok: "mp_ok mp1" using mp1(2) by (auto simp: mp_ok_def)
  have live: "4096 \<in> live_blocks mp1"
    using mp.alc_ok [OF example_pool_ok mp1(1)] a by simp
  have same: "mp_mem_start mp1 = 4096" "mp_block_count mp1 = 3" "mp_block_size mp1 = 8"
    using alloc_geometry [OF mp1(1)] by (auto simp: example_pool_def)
  have "free_blocks mp1 = [1, 2]"
    using free_blocks_rep [OF mp1(2)] same by (simp add: upt_rec)
  moreover have "addr_to_index mp1 4096 = 0" by (simp add: addr_to_index_def same)
  ultimately show ?thesis
    using mempool_free_is_lifo [OF ok live] live mp1(1) a by (auto split: prod.splits)
qed

text \<open>
  C34. The bytes of a block in use change neither when another block is allocated nor when
  another one is freed, and a client writing inside its own block leaves the pool well formed
  with the same free list.
\<close>

theorem mempool_blocks_isolated:
  assumes "mp_ok mp" "a \<in> live_blocks mp" "x \<in> block_bytes mp a"
  shows "mp_mem (snd (cplus_mempool_alloc mp)) x = mp_mem mp x \<and>
    (\<forall>b \<in> live_blocks mp - {a}. mp_mem (snd (cplus_mempool_free mp b)) x = mp_mem mp x) \<and>
    mp_ok (mp\<lparr>mp_mem := (mp_mem mp)(x := v)\<rparr>) \<and>
    free_blocks (mp\<lparr>mp_mem := (mp_mem mp)(x := v)\<rparr>) = free_blocks mp"
proof -
  obtain xs F where rep: "mp_rep mp xs F" using assms(1) by (rule mp_okE)
  note D = mp_repD [OF rep]
  obtain i where i: "a = block_addr mp i" "i < F" "i \<notin> set xs"
    using assms(2) by (auto simp: live_blocks_rep [OF rep])
  have x: "x \<in> block_bytes mp (block_addr mp i)" using assms(3) i(1) by simp
  have "mp_mem (snd (cplus_mempool_free mp b)) x = mp_mem mp x" if b: "b \<in> live_blocks mp - {a}" for b
  proof -
    obtain j where j: "b = block_addr mp j" "j < F" "j \<noteq> i"
      using b i(1) by (auto simp: live_blocks_rep [OF rep])
    have "region (block_addr mp j) 4 \<inter> region (block_addr mp i) (unat (mp_block_size mp)) = {}"
      using D(1,2) i(2) j by (intro block_regions_disjoint) (auto simp: pool_area_def)
    then have "x \<notin> region b 4" using x j(1) by (auto simp: block_bytes_def)
    then show ?thesis by (rule free_mem_outside)
  qed
  moreover have rep': "mp_rep (mp\<lparr>mp_mem := (mp_mem mp)(x := v)\<rparr>) xs F"
    using rep i(2,3) x by (rule mp_rep_write_live)
  ultimately show ?thesis
    using alloc_mem_outside [OF rep i(2) x] free_blocks_rep [OF rep] free_blocks_rep [OF rep']
    by (auto simp: mp_ok_def)
qed

definition example_pool1 :: mempool where
  "example_pool1 = snd (cplus_mempool_alloc example_pool)"

lemma example_pool1_rep: "mp_rep example_pool1 [] 1"
  using alloc_rep(2) [OF example_pool_rep, of 0 "[1, 2]" "[]" 1]
  by (auto simp: example_pool1_def example_pool_def upt_rec)

lemma example_pool1_geometry:
  "mp_block_count example_pool1 = 3 \<and> mp_block_size example_pool1 = 8 \<and>
   mp_mem_start example_pool1 = 4096"
  using alloc_geometry [OF surjective_pairing [of "cplus_mempool_alloc example_pool"]]
  unfolding example_pool1_def by (simp add: example_pool_def)

lemma example_pool1_live: "mp_ok example_pool1 \<and> 4096 \<in> live_blocks example_pool1"
proof -
  have "block_addr example_pool1 0 = 4096"
    using example_pool1_geometry by (simp add: block_addr_def)
  then have "4096 \<in> live_blocks example_pool1"
    unfolding live_blocks_rep [OF example_pool1_rep] by (auto intro!: image_eqI [of _ _ 0])
  then show ?thesis using example_pool1_rep by (auto simp: mp_ok_def)
qed

lemma mempool_blocks_isolated_witness:
  "mp_ok (example_pool1\<lparr>mp_mem := (mp_mem example_pool1)(4100 := 255)\<rparr>) \<and>
   mp_mem (snd (cplus_mempool_alloc example_pool1)) 4100 = mp_mem example_pool1 4100"
proof -
  have "mp_block_size example_pool1 = 8"
    using example_pool1_geometry by simp
  then have "(4100 :: ptr) \<in> block_bytes example_pool1 4096"
    by (simp add: block_bytes_def in_region_iff)
  then show ?thesis
    using mempool_blocks_isolated [of example_pool1 4096 4100 255] example_pool1_live by blast
qed

text \<open>A client taking \<open>k\<close> blocks, one after another, until an allocation fails.\<close>

primrec alloc_many :: "nat \<Rightarrow> mempool \<Rightarrow> ptr list \<times> mempool" where
  "alloc_many 0 mp = ([], mp)"
| "alloc_many (Suc k) mp =
     (case cplus_mempool_alloc mp of
        (Inl e, mp') \<Rightarrow> ([], mp')
      | (Inr a, mp') \<Rightarrow> (case alloc_many k mp' of (as, mp'') \<Rightarrow> (a # as, mp'')))"

lemma alloc_many_eq: "alloc_many k mp = mp.alc_many k mp"
  by (induction k arbitrary: mp) (auto split: prod.split sum.split)

lemma index_to_addr_geometry:
  "cplus_mempool_alloc mp = (r, mp') \<Longrightarrow> index_to_addr mp' = index_to_addr mp"
  by (drule alloc_geometry) (simp add: fun_eq_iff index_to_addr_def)

lemma alloc_many_addresses:
  "mp_ok mp \<Longrightarrow> fst (alloc_many k mp) = map (index_to_addr mp) (take k (free_blocks mp))"
proof (induction k arbitrary: mp)
  case (Suc k)
  obtain r mp' where alloc: "cplus_mempool_alloc mp = (r, mp')" by force
  have same: "index_to_addr mp' = index_to_addr mp" using alloc by (rule index_to_addr_geometry)
  have ok: "mp_ok mp'" using mp.alc_inv [OF Suc.prems alloc] .
  show ?case
    using mempool_alloc_step [OF Suc.prems] Suc.IH [OF ok] alloc same
    by (auto split: list.splits prod.splits)
qed simp

text \<open>
  C33. Taking \<open>k\<close> blocks one after another yields the first \<open>k\<close> blocks of the free list, or
  all of them when there are fewer: no block twice, none that was in use, never a null
  pointer.
\<close>

theorem mempool_hands_out_each_block_once:
  assumes "mp_ok mp"
  shows "fst (alloc_many k mp) = map (index_to_addr mp) (take k (free_blocks mp)) \<and>
    distinct (fst (alloc_many k mp)) \<and> CPLUS_NULL \<notin> set (fst (alloc_many k mp)) \<and>
    set (fst (alloc_many k mp)) \<inter> live_blocks mp = {}"
proof -
  obtain as mp' where many: "mp.alc_many k mp = (as, mp')" by force
  then have "alloc_many k mp = (as, mp')" by (simp add: alloc_many_eq)
  then show ?thesis
    using alloc_many_addresses [OF assms, of k] mp.alc_many_fresh [OF assms many] by simp
qed

lemma mempool_hands_out_each_block_once_witness:
  "fst (alloc_many 5 example_pool) = [4096, 4104, 4112]"
proof -
  have "free_blocks example_pool = [0, 1, 2]"
    using free_blocks_rep [OF example_pool_rep] by (simp add: example_pool_def upt_rec)
  then show ?thesis
    using mempool_hands_out_each_block_once [OF example_pool_ok, of 5]
    by (simp add: index_to_addr_def example_pool_def)
qed

lemma index_of_addr:
  assumes "pool_area mp" "i < mp_block_count mp"
  shows "index_to_addr mp i \<noteq> CPLUS_NULL \<and> addr_to_index mp (index_to_addr mp i) = i"
  using assms addr_to_index_block [OF assms(1), of "unat i"] block_addr_not_null [OF assms(1), of "unat i"]
  by (simp add: index_to_addr_block word_less_nat_alt)

text \<open>
  Addresses and indices of blocks translate into each other.  The index-based calls work
  on the same free list: \<open>cplus_mempool_alloc_as_index\<close> returns its head, which
  \<open>cplus_mempool_free_by_index\<close> puts back; but the exhausted pool answers with 0, the index of
  the first block.
\<close>

theorem mempool_index_interface:
  assumes "mp_ok mp"
  shows "(\<forall>i < mp_block_count mp. cplus_mempool_get_index mp (cplus_mempool_get_addr_by_index mp i) = Inr i) \<and>
    (case cplus_mempool_alloc_as_index mp of (j, mp') \<Rightarrow>
       (case free_blocks mp of
          [] \<Rightarrow> j = 0 \<and> live_blocks mp' = live_blocks mp
        | i # is \<Rightarrow> j = i \<and> free_blocks mp' = is \<and>
            fst (cplus_mempool_free_by_index mp' i) = Inr () \<and>
            free_blocks (snd (cplus_mempool_free_by_index mp' i)) = i # is))"
proof -
  obtain xs F where rep: "mp_rep mp xs F" using assms by (rule mp_okE)
  note D = mp_repD [OF rep]
  obtain r mp' where alloc: "cplus_mempool_alloc mp = (r, mp')" by force
  have same: "index_to_addr mp' = index_to_addr mp" "addr_to_index mp' = addr_to_index mp"
    using alloc_geometry [OF alloc] by (auto simp: fun_eq_iff index_to_addr_def addr_to_index_def)
  have "cplus_mempool_get_index mp (cplus_mempool_get_addr_by_index mp i) = Inr i"
    if "i < mp_block_count mp" for i
    using index_of_addr [OF D(1) that]
    by (simp add: cplus_mempool_get_index_def cplus_mempool_get_addr_by_index_def)
  moreover have "case cplus_mempool_alloc_as_index mp of (j, mp') \<Rightarrow>
       (case free_blocks mp of
          [] \<Rightarrow> j = 0 \<and> live_blocks mp' = live_blocks mp
        | i # is \<Rightarrow> j = i \<and> free_blocks mp' = is \<and>
            fst (cplus_mempool_free_by_index mp' i) = Inr () \<and>
            free_blocks (snd (cplus_mempool_free_by_index mp' i)) = i # is)"
  proof (cases "free_blocks mp")
    case Nil
    then show ?thesis
      using mempool_alloc_step [OF assms] alloc by (simp add: cplus_mempool_alloc_as_index_def)
  next
    case (Cons i "is")
    have i: "i < mp_block_count mp"
    proof -
      have "i \<in> set (map of_nat (xs @ [F..<unat (mp_block_count mp)]))"
        using Cons free_blocks_rep [OF rep] by (metis list.set_intros(1))
      then obtain k where "i = of_nat k" "k < unat (mp_block_count mp)"
        using D(2,6) by fastforce
      then show ?thesis
        using block_count_bound [OF D(1)] by (simp add: word_less_nat_alt)
    qed
    let ?a = "index_to_addr mp i"
    have step: "r = Inr ?a" "mp_ok mp'" "free_blocks mp' = is" "?a \<in> live_blocks mp'"
      using mempool_alloc_step [OF assms] alloc Cons by auto
    have a: "?a \<noteq> CPLUS_NULL" "addr_to_index mp ?a = i" using index_of_addr [OF D(1) i] by auto
    have "cplus_mempool_alloc_as_index mp = (i, mp')"
      using alloc step(1) a same by (simp add: cplus_mempool_alloc_as_index_def cplus_mempool_get_index_def)
    moreover have "cplus_mempool_free_by_index mp' i = cplus_mempool_free mp' ?a"
      using a same by (simp add: cplus_mempool_free_by_index_def cplus_mempool_get_addr_by_index_def)
    ultimately show ?thesis
      using Cons mempool_free_step [OF step(2,4)] step(3) a same by (auto split: prod.splits)
  qed
  ultimately show ?thesis by blast
qed

lemma mempool_index_interface_witness:
  "fst (cplus_mempool_alloc_as_index example_pool) = 0 \<and>
   cplus_mempool_get_index example_pool (cplus_mempool_get_addr_by_index example_pool 2) = Inr 2"
proof -
  have "free_blocks example_pool = [0, 1, 2]" "(2 :: u32) < mp_block_count example_pool"
    using free_blocks_rep [OF example_pool_rep] by (simp_all add: example_pool_def upt_rec)
  then show ?thesis
    using mempool_index_interface [OF example_pool_ok] by (auto split: prod.splits)
qed

text \<open>
  The pool does not detect a block freed twice: its link then leads to itself, and the
  next two allocations return the same block.
\<close>

theorem mempool_double_free_hands_out_twice:
  assumes "mp_ok mp" "a \<in> live_blocks mp"
  shows "case cplus_mempool_alloc (mp_free (mp_free mp a) a) of (r1, mp1) \<Rightarrow>
    r1 = Inr a \<and> fst (cplus_mempool_alloc mp1) = Inr a"
proof -
  obtain xs F where rep: "mp_rep mp xs F" using assms(1) by (rule mp_okE)
  note D = mp_repD [OF rep]
  obtain i where i: "a = block_addr mp i" "i < F" "i \<notin> set xs"
    using assms(2) by (auto simp: live_blocks_rep [OF rep])
  let ?mp2 = "mp_free (mp_free mp a) a" and ?I = "mp_initialized_blocks_count mp"
  have i_n: "i < unat (mp_block_count mp)" using i(2) D(2) by simp
  have a: "a \<noteq> CPLUS_NULL" "addr_to_index mp a = of_nat i"
    using i i_n D(1) by (auto simp: block_addr_not_null addr_to_index_block)
  have mp2: "mp_next_block ?mp2 = a" "mp_initialized_blocks_count ?mp2 = ?I"
    "mp_free_blocks_count ?mp2 = mp_free_blocks_count mp + 2"
    "mp_block_count ?mp2 = mp_block_count mp" "index_to_addr ?mp2 = index_to_addr mp"
    "load32 (mp_mem ?mp2) a = of_nat i"
    using a by (auto simp: mp_free_def cplus_mempool_free_def Let_def)
  have load: "load32 (mp_mem (lazy_init ?mp2)) a = of_nat i"
  proof (cases "?I < mp_block_count mp")
    case True
    then have lt: "unat ?I < unat (mp_block_count mp)" by (simp add: word_less_nat_alt)
    have "region (block_addr mp (unat ?I)) 4 \<inter> region a 4 = {}"
      unfolding i(1) using D(1,3) i(2) i_n lt by (intro block_regions_disjoint) (auto simp: pool_area_def)
    then show ?thesis using True mp2 index_to_addr_block [OF D(1) True]
      by (simp add: lazy_init_def Let_def load32_store32_disjoint)
  qed (use mp2 in \<open>simp add: lazy_init_def\<close>)
  have addr_i: "index_to_addr mp (of_nat i) = a"
    using index_to_addr_block [OF D(1), of "of_nat i"] i_n block_count_bound [OF D(1)] i(1)
    by (simp add: word_less_nat_alt)
  have "unat (mp_free_blocks_count mp) < 2 ^ 30 + 2 ^ 30"
    using D(2,6,7) block_count_bound [OF D(1)] card_mono [of "{..<F}" "set xs"] distinct_card [OF D(5)]
    by fastforce
  then have count: "0 < mp_free_blocks_count mp + 2" "0 < mp_free_blocks_count mp + 1"
    by (simp_all add: u32_pos_iff unat_word_ariths)
  have lazy: "mp_next_block (lazy_init mq) = mp_next_block mq"
    "mp_free_blocks_count (lazy_init mq) = mp_free_blocks_count mq"
    "index_to_addr (lazy_init mq) = index_to_addr mq" for mq
    by (auto simp: lazy_init_def Let_def)
  show ?thesis
    using count addr_i load mp2 by (simp add: alloc_take_block take_block_def lazy add.commute)
qed

lemma mempool_double_free_hands_out_twice_witness:
  "4096 \<in> live_blocks example_pool1 \<and>
   fst (cplus_mempool_alloc (mp_free (mp_free example_pool1 4096) 4096)) = Inr 4096"
  using mempool_double_free_hands_out_twice [of example_pool1 4096] example_pool1_live
  by (auto split: prod.splits)

text \<open>The size of the area is computed with 32 bits: 65536 blocks of 65536 bytes need none.\<close>

lemma mempool_size_wraps:
  "cplus_mempool_new 64 (\<lambda>n. if n = 0 then 4096 else CPLUS_NULL) mem0 0x10000 0x10000 =
     Inr \<lparr>mp_block_count = 0x10000, mp_block_size = 0x10000, mp_free_blocks_count = 0x10000,
       mp_initialized_blocks_count = 0, mp_mem_start = 4096, mp_next_block = 4096,
       mp_thread_safe = False, mp_mem = mem0\<rparr>"
  by (simp add: cplus_mempool_new_def mempool_initialize_object_def)

end
