(* ===== verification/Llist.thy ===== *)
theory Llist
  imports Mempool
begin

text \<open>
  \<^verbatim>\<open>src/llist.c\<close>: a doubly linked list of non-null data pointers whose nodes come from a
  pre-allocated memory pool (\<open>cplus_llist_prev_new\<close>) or from \<^verbatim>\<open>malloc\<close>
  (\<open>cplus_llist_new\<close>), with a cursor that is the address of a pointer cell: \<open>&list->head\<close>,
  \<open>&node->next\<close> or \<open>&node->prev\<close>.  This theory holds the data and the operations; the proofs
  are in Llist_Rep and the theories after it.

  Nodes live in a partial map from addresses.  A call gives \<open>None\<close> when it reads or writes
  through a pointer to no node (null or freed), or when a loop over the nodes never ends.
  A freed node leaves the map, so a later use of its address shows as \<open>None\<close>.  Comparators are
  functions of the data pointer (and the argument they are called with).  The reader/writer
  lock around each operation is not part of the sequential behaviour.
\<close>

section \<open>State\<close>

record llist_node =
  nd_data :: ptr
  nd_prev :: ptr
  nd_next :: ptr

text \<open>What \<open>struct llist_node ** current\<close> points at.\<close>

datatype cell = Cell_head | Cell_next ptr | Cell_prev ptr

text \<open>
  \<open>struct linked_list\<close> at address \<open>ls_obj\<close> (its pool object at \<open>ls_pool_obj\<close>), together with
  the memory it works on: the nodes of all lists and the heap of the C library.
\<close>

record linked_list =
  ls_obj :: ptr
  ls_count :: u32
  ls_sort_count :: u32
  ls_cur_index :: int
  ls_pool :: "mempool option"
  ls_pool_obj :: ptr
  ls_lock :: ptr
  ls_head :: ptr
  ls_tail :: ptr
  ls_current :: cell
  ls_nodes :: "ptr \<rightharpoonup> llist_node"
  ls_heap :: mheap

definition MAX_NODE_COUNT :: u32 where "MAX_NODE_COUNT = 1024 * 1024"

section \<open>Where nodes come from\<close>

type_synonym node_store = "mempool option \<times> mheap"

definition store_alloc :: "node_store \<Rightarrow> ptr cresult \<times> node_store" where
  "store_alloc = (\<lambda>(pool, heap).
     (case pool of
        Some mp \<Rightarrow> (case cplus_mempool_alloc mp of (r, mp') \<Rightarrow> (r, (Some mp', heap)))
      | None \<Rightarrow> (case cplus_mgr_malloc heap of (r, heap') \<Rightarrow> (r, (None, heap')))))"

definition store_free :: "node_store \<Rightarrow> ptr \<Rightarrow> node_store" where
  "store_free = (\<lambda>(pool, heap) a.
     (case pool of
        Some mp \<Rightarrow> (Some (snd (cplus_mempool_free mp a)), heap)
      | None \<Rightarrow> (None, cplus_mgr_free heap a)))"

definition free_node :: "linked_list \<Rightarrow> ptr \<Rightarrow> linked_list" where
  "free_node L node =
     (if node \<noteq> CPLUS_NULL then
        (case store_free (ls_pool L, ls_heap L) node of
           (pool, heap) \<Rightarrow> L\<lparr>ls_pool := pool, ls_heap := heap,
             ls_nodes := (ls_nodes L)(node := None)\<rparr>)
      else L)"

definition new_node :: "linked_list \<Rightarrow> ptr \<Rightarrow> ptr cresult \<times> linked_list" where
  "new_node L d =
     (case store_alloc (ls_pool L, ls_heap L) of
        (r, (pool, heap)) \<Rightarrow>
          (let L1 = L\<lparr>ls_pool := pool, ls_heap := heap\<rparr>
           in case r of
                Inl e \<Rightarrow> (Inl ENOMEM, L1)
              | Inr node \<Rightarrow> (Inr node, L1\<lparr>ls_nodes := (ls_nodes L1)(node \<mapsto>
                  \<lparr>nd_data = d, nd_prev = CPLUS_NULL, nd_next = CPLUS_NULL\<rparr>)\<rparr>)))"

section \<open>Node access\<close>

definition get_data :: "linked_list \<Rightarrow> ptr \<Rightarrow> ptr option" where
  "get_data L node = map_option nd_data (ls_nodes L node)"

definition get_node_next :: "linked_list \<Rightarrow> ptr \<Rightarrow> ptr option" where
  "get_node_next L node = map_option nd_next (ls_nodes L node)"

definition get_node_prev :: "linked_list \<Rightarrow> ptr \<Rightarrow> ptr option" where
  "get_node_prev L node = map_option nd_prev (ls_nodes L node)"

definition put_data :: "ptr \<Rightarrow> ptr \<Rightarrow> linked_list \<Rightarrow> linked_list option" where
  "put_data node v L = map_option
     (\<lambda>n. L\<lparr>ls_nodes := (ls_nodes L)(node \<mapsto> n\<lparr>nd_data := v\<rparr>)\<rparr>) (ls_nodes L node)"

definition put_next :: "ptr \<Rightarrow> ptr \<Rightarrow> linked_list \<Rightarrow> linked_list option" where
  "put_next node v L = map_option
     (\<lambda>n. L\<lparr>ls_nodes := (ls_nodes L)(node \<mapsto> n\<lparr>nd_next := v\<rparr>)\<rparr>) (ls_nodes L node)"

definition put_prev :: "ptr \<Rightarrow> ptr \<Rightarrow> linked_list \<Rightarrow> linked_list option" where
  "put_prev node v L = map_option
     (\<lambda>n. L\<lparr>ls_nodes := (ls_nodes L)(node \<mapsto> n\<lparr>nd_prev := v\<rparr>)\<rparr>) (ls_nodes L node)"

text \<open>\<open>*(list->current)\<close>.\<close>

definition get_current :: "linked_list \<Rightarrow> ptr option" where
  "get_current L =
     (case ls_current L of
        Cell_head \<Rightarrow> Some (ls_head L)
      | Cell_next p \<Rightarrow> get_node_next L p
      | Cell_prev p \<Rightarrow> get_node_prev L p)"

text \<open>\<open>list->current = &((*(list->current))->next); list->cur_index ++\<close>, and backwards.\<close>

definition step_next :: "linked_list \<Rightarrow> linked_list option" where
  "step_next L = do {
     c \<leftarrow> get_current L;
     _ \<leftarrow> ls_nodes L c;
     Some (L\<lparr>ls_current := Cell_next c, ls_cur_index := ls_cur_index L + 1\<rparr>) }"

definition step_prev :: "linked_list \<Rightarrow> linked_list option" where
  "step_prev L = do {
     c \<leftarrow> get_current L;
     _ \<leftarrow> ls_nodes L c;
     Some (L\<lparr>ls_current := Cell_prev c, ls_cur_index := ls_cur_index L - 1\<rparr>) }"

definition is_empty :: "linked_list \<Rightarrow> bool" where "is_empty L \<longleftrightarrow> ls_count L = 0"

definition get_size :: "linked_list \<Rightarrow> u32" where "get_size L = ls_count L"

definition is_sort :: "linked_list \<Rightarrow> bool" where
  "is_sort L \<longleftrightarrow> get_size L = ls_sort_count L"

definition reset_cur_node :: "linked_list \<Rightarrow> linked_list" where
  "reset_cur_node L = L\<lparr>ls_cur_index := 0, ls_current := Cell_head\<rparr>"

definition get_head :: "linked_list \<Rightarrow> ptr" where "get_head L = ls_head L"

definition get_tail :: "linked_list \<Rightarrow> ptr" where "get_tail L = ls_tail L"

section \<open>Internal operations\<close>

definition remove_node :: "linked_list \<Rightarrow> ptr \<Rightarrow> linked_list option" where
  "remove_node L node = do {
     L3 \<leftarrow>
       (if ls_head L = node then do {
          nx \<leftarrow> get_node_next L node;
          let L1 = L\<lparr>ls_head := nx\<rparr>;
          L2 \<leftarrow> (if nx \<noteq> CPLUS_NULL then put_prev nx CPLUS_NULL L1 else Some L1);
          put_next node CPLUS_NULL L2 }
        else if ls_tail L = node then do {
          pv \<leftarrow> get_node_prev L node;
          let L1 = L\<lparr>ls_tail := pv\<rparr>;
          L2 \<leftarrow> (if pv \<noteq> CPLUS_NULL then put_next pv CPLUS_NULL L1 else Some L1);
          put_prev node CPLUS_NULL L2 }
        else do {
          pv \<leftarrow> get_node_prev L node;
          nx \<leftarrow> get_node_next L node;
          L1 \<leftarrow> put_next pv nx L;
          L2 \<leftarrow> put_prev nx pv L1;
          L2' \<leftarrow> put_next node CPLUS_NULL L2;
          put_prev node CPLUS_NULL L2' });
     let L4 = L3\<lparr>ls_count := ls_count L3 - 1\<rparr>;
     let L5 = (if is_empty L4 then L4\<lparr>ls_head := CPLUS_NULL, ls_tail := CPLUS_NULL\<rparr> else L4);
     Some (reset_cur_node L5) }"

definition swap_data :: "ptr \<Rightarrow> ptr \<Rightarrow> linked_list \<Rightarrow> linked_list option" where
  "swap_data front back_node L =
     (if front = CPLUS_NULL \<or> back_node = CPLUS_NULL then Some L
      else do {
        temp \<leftarrow> get_data L front;
        d \<leftarrow> get_data L back_node;
        L1 \<leftarrow> put_data front d L;
        put_data back_node temp L1 })"

definition get_next :: "linked_list \<Rightarrow> (ptr \<times> linked_list) option" where
  "get_next L = do {
     c \<leftarrow> get_current L;
     if c = CPLUS_NULL then Some (CPLUS_NULL, L)
     else do {
       nx \<leftarrow> get_node_next L c;
       if nx = CPLUS_NULL then Some (CPLUS_NULL, L)
       else do {
         L1 \<leftarrow> step_next L;
         c1 \<leftarrow> get_current L1;
         Some (c1, L1) } } }"

definition get_prev :: "linked_list \<Rightarrow> (ptr \<times> linked_list) option" where
  "get_prev L = do {
     c \<leftarrow> get_current L;
     if c = CPLUS_NULL then Some (CPLUS_NULL, L)
     else do {
       pv \<leftarrow> get_node_prev L c;
       if pv = CPLUS_NULL then Some (CPLUS_NULL, L)
       else do {
         L1 \<leftarrow> step_prev L;
         c1 \<leftarrow> get_current L1;
         Some (c1, L1) } } }"

text \<open>
  The loops of \<open>get_node_of\<close> run until \<open>cur_index\<close> has reached \<open>index\<close>: exactly as many
  steps as the two differ.  A step from a null \<open>*current\<close> forms an address inside the null
  page, which the next access through \<open>current\<close> faults on; here the step itself gives \<open>None\<close>.
\<close>

primrec walk_next :: "nat \<Rightarrow> linked_list \<Rightarrow> linked_list option" where
  "walk_next 0 L = Some L"
| "walk_next (Suc n) L = Option.bind (step_next L) (walk_next n)"

primrec walk_prev :: "nat \<Rightarrow> linked_list \<Rightarrow> linked_list option" where
  "walk_prev 0 L = Some L"
| "walk_prev (Suc n) L = Option.bind (step_prev L) (walk_prev n)"

definition get_node_of :: "linked_list \<Rightarrow> int \<Rightarrow> (ptr \<times> linked_list) option" where
  "get_node_of L index = do {
     L1 \<leftarrow> (if index = ls_cur_index L then Some L
            else if index > ls_cur_index L then walk_next (nat (index - ls_cur_index L)) L
            else walk_prev (nat (ls_cur_index L - index)) L);
     c \<leftarrow> get_current L1;
     Some (c, L1) }"

text \<open>The comparator with its argument: \<open>0\<close> is a match.\<close>

type_synonym matcher = "ptr \<Rightarrow> int"

partial_function (option) get_node_if_loop ::
    "matcher \<Rightarrow> linked_list \<Rightarrow> (ptr cresult \<times> linked_list) option" where
  "get_node_if_loop cmp L = do {
     c \<leftarrow> get_current L;
     if c = CPLUS_NULL then Some (Inl ENOENT, L)
     else do {
       d \<leftarrow> get_data L c;
       if d \<noteq> CPLUS_NULL \<and> cmp d = 0 then Some (Inr c, L)
       else do {
         nx \<leftarrow> get_node_next L c;
         if nx = CPLUS_NULL then Some (Inl ENOENT, L)
         else do { L1 \<leftarrow> step_next L; get_node_if_loop cmp L1 } } } }"

definition get_node_if :: "linked_list \<Rightarrow> matcher \<Rightarrow> (ptr cresult \<times> linked_list) option" where
  "get_node_if L cmp = get_node_if_loop cmp (reset_cur_node L)"

partial_function (option) get_index_if_loop ::
    "matcher \<Rightarrow> linked_list \<Rightarrow> (int cresult \<times> linked_list) option" where
  "get_index_if_loop cmp L = do {
     c \<leftarrow> get_current L;
     if c = CPLUS_NULL then Some (Inl ENOENT, L)
     else do {
       d \<leftarrow> get_data L c;
       if d \<noteq> CPLUS_NULL \<and> cmp d = 0 then Some (Inr (ls_cur_index L), L)
       else do {
         nx \<leftarrow> get_node_next L c;
         if nx = CPLUS_NULL then Some (Inl ENOENT, L)
         else do { L1 \<leftarrow> step_next L; get_index_if_loop cmp L1 } } } }"

definition get_index_if :: "linked_list \<Rightarrow> matcher \<Rightarrow> (int cresult \<times> linked_list) option" where
  "get_index_if L cmp = get_index_if_loop cmp (reset_cur_node L)"

text \<open>
  Removing and inserting by index.  Only \<open>index = 0\<close> and \<open>index = size\<close> are treated as the
  ends; any other index goes through \<open>get_node_of\<close> and dereferences both neighbours.
\<close>

definition pop_of :: "linked_list \<Rightarrow> int \<Rightarrow> (ptr cresult \<times> linked_list) option" where
  "pop_of L index =
     (if is_empty L then Some (Inl ENOENT, L)
      else do {
        (node, L3) \<leftarrow>
          (if index = 0 then do {
             let node = ls_head L;
             nx \<leftarrow> get_node_next L node;
             let L1 = L\<lparr>ls_head := nx\<rparr>;
             L2 \<leftarrow> (if nx \<noteq> CPLUS_NULL then put_prev nx CPLUS_NULL L1 else Some L1);
             L3 \<leftarrow> put_next node CPLUS_NULL L2;
             Some (node, reset_cur_node L3) }
           else if get_size L = word_of_int index then do {
             let node = ls_tail L;
             pv \<leftarrow> get_node_prev L node;
             let L1 = L\<lparr>ls_tail := pv\<rparr>;
             L2 \<leftarrow> (if pv \<noteq> CPLUS_NULL then put_next pv CPLUS_NULL L1 else Some L1);
             L3 \<leftarrow> put_prev node CPLUS_NULL L2;
             Some (node, reset_cur_node L3) }
           else do {
             (node, L0) \<leftarrow> get_node_of L index;
             if node \<noteq> CPLUS_NULL then do {
               pv \<leftarrow> get_node_prev L0 node;
               nx \<leftarrow> get_node_next L0 node;
               L1 \<leftarrow> put_next pv nx L0;
               L2 \<leftarrow> put_prev nx pv L1;
               L2' \<leftarrow> put_next node CPLUS_NULL L2;
               L3 \<leftarrow> put_prev node CPLUS_NULL L2';
               Some (node, L3) }
             else Some (node, L0) });
        let L4 = L3\<lparr>ls_count := ls_count L3 - 1\<rparr>;
        let L5 = (if is_empty L4
                  then reset_cur_node (L4\<lparr>ls_head := CPLUS_NULL, ls_tail := CPLUS_NULL\<rparr>)
                  else L4);
        Some (if node = CPLUS_NULL then Inl ENONE else Inr node, L5) })"

definition push_at :: "linked_list \<Rightarrow> int \<Rightarrow> ptr \<Rightarrow> (unit cresult \<times> linked_list) option" where
  "push_at L index node = do {
     (res, L3) \<leftarrow>
       (if is_empty L then
          Some (Inr (), reset_cur_node (L\<lparr>ls_head := node, ls_tail := node\<rparr>))
        else if index = 0 then do {
          L1 \<leftarrow> put_prev (ls_head L) node L;
          L2 \<leftarrow> put_next node (ls_head L1) L1;
          Some (Inr (), reset_cur_node (L2\<lparr>ls_head := node\<rparr>)) }
        else if get_size L = word_of_int index then do {
          L1 \<leftarrow> put_next (ls_tail L) node L;
          L2 \<leftarrow> put_prev node (ls_tail L1) L1;
          Some (Inr (), reset_cur_node (L2\<lparr>ls_tail := node\<rparr>)) }
        else do {
          (target, L0) \<leftarrow> get_node_of L index;
          if target = CPLUS_NULL then Some (Inl ENONE, L0)
          else do {
            L1 \<leftarrow> put_next node target L0;
            pv \<leftarrow> get_node_prev L1 target;
            L2 \<leftarrow> put_prev node pv L1;
            pv' \<leftarrow> get_node_prev L2 target;
            L3 \<leftarrow> put_next pv' node L2;
            L4 \<leftarrow> put_prev target node L3;
            Some (Inr (), L4) } });
     Some (res, case res of Inl e \<Rightarrow> L3 | Inr _ \<Rightarrow> L3\<lparr>ls_count := ls_count L3 + 1\<rparr>) }"

partial_function (option) pop_if_loop ::
    "matcher \<Rightarrow> linked_list \<Rightarrow> (ptr cresult \<times> linked_list) option" where
  "pop_if_loop cmp L =
     (if is_empty L then Some (Inl ENOENT, L)
      else do {
        c \<leftarrow> get_current L;
        if c = CPLUS_NULL then Some (Inl ENOENT, L)
        else do {
          d \<leftarrow> get_data L c;
          if d \<noteq> CPLUS_NULL \<and> cmp d = 0 then do {
            L1 \<leftarrow> remove_node L c;
            Some (Inr c, L1) }
          else do {
            nx \<leftarrow> get_node_next L c;
            if nx = CPLUS_NULL then Some (Inl ENOENT, L)
            else do { L1 \<leftarrow> step_next L; pop_if_loop cmp L1 } } } })"

definition pop_if :: "linked_list \<Rightarrow> matcher \<Rightarrow> (ptr cresult \<times> linked_list) option" where
  "pop_if L cmp = pop_if_loop cmp (reset_cur_node L)"

partial_function (option) remove_data_loop ::
    "ptr \<Rightarrow> linked_list \<Rightarrow> (unit cresult \<times> linked_list) option" where
  "remove_data_loop dt L = do {
     c \<leftarrow> get_current L;
     if c = CPLUS_NULL then Some (Inl ENONE, L)
     else do {
       d \<leftarrow> get_data L c;
       if dt = d then do {
         L1 \<leftarrow> remove_node L c;
         Some (Inr (), free_node L1 c) }
       else do {
         nx \<leftarrow> get_node_next L c;
         if nx = CPLUS_NULL then Some (Inl ENONE, L)
         else do { L1 \<leftarrow> step_next L; remove_data_loop dt L1 } } } }"

definition remove_data :: "linked_list \<Rightarrow> ptr \<Rightarrow> (unit cresult \<times> linked_list) option" where
  "remove_data L dt = remove_data_loop dt (reset_cur_node L)"

section \<open>Construction\<close>

text \<open>
  \<open>pobj\<close> and \<open>mal\<close> are what \<^verbatim>\<open>cplus_malloc\<close> returns for the pool object and for an area of
  some size, \<open>mem0\<close> the contents of memory, \<open>lock\<close> what \<open>cplus_rwlock_new\<close> returns.  A node
  has \<open>sizeof(struct llist_node) = 24\<close> bytes.  The second component of the result is the heap
  that a failing call leaves.
\<close>

definition llist_initialize_object ::
    "mheap \<Rightarrow> (ptr \<rightharpoonup> llist_node) \<Rightarrow> ptr \<Rightarrow> (u32 \<Rightarrow> ptr) \<Rightarrow> mem \<Rightarrow> ptr \<Rightarrow> u32 \<Rightarrow> bool \<Rightarrow>
      linked_list cresult \<times> mheap" where
  "llist_initialize_object heap nodes pobj mal mem0 lock max_count thread_safe =
     (case cplus_mgr_malloc heap of
        (Inl e, heap1) \<Rightarrow> (Inl ENOMEM, heap1)
      | (Inr obj, heap1) \<Rightarrow>
          (let pool = (case cplus_mempool_new pobj mal mem0 max_count 24 of
                         Inl e \<Rightarrow> None | Inr mp \<Rightarrow> Some mp)
           in if pool = None \<and> 0 \<noteq> max_count then (Inl ENOMEM, cplus_mgr_free heap1 obj)
              else (Inr \<lparr>ls_obj = obj, ls_count = 0, ls_sort_count = 0, ls_cur_index = 0,
                      ls_pool = pool, ls_pool_obj = pobj,
                      ls_lock = (if thread_safe then lock else CPLUS_NULL),
                      ls_head = CPLUS_NULL, ls_tail = CPLUS_NULL, ls_current = Cell_head,
                      ls_nodes = nodes, ls_heap = heap1\<rparr>, heap1)))"

definition cplus_llist_new ::
    "mheap \<Rightarrow> (ptr \<rightharpoonup> llist_node) \<Rightarrow> linked_list cresult \<times> mheap" where
  "cplus_llist_new heap nodes =
     llist_initialize_object heap nodes CPLUS_NULL (\<lambda>_. CPLUS_NULL) (\<lambda>_. 0) CPLUS_NULL 0 False"

definition cplus_llist_new_s ::
    "mheap \<Rightarrow> (ptr \<rightharpoonup> llist_node) \<Rightarrow> ptr \<Rightarrow> linked_list cresult \<times> mheap" where
  "cplus_llist_new_s heap nodes lock =
     llist_initialize_object heap nodes CPLUS_NULL (\<lambda>_. CPLUS_NULL) (\<lambda>_. 0) lock 0 True"

definition cplus_llist_prev_new ::
    "mheap \<Rightarrow> (ptr \<rightharpoonup> llist_node) \<Rightarrow> ptr \<Rightarrow> (u32 \<Rightarrow> ptr) \<Rightarrow> mem \<Rightarrow> u32 \<Rightarrow>
      linked_list cresult \<times> mheap" where
  "cplus_llist_prev_new heap nodes pobj mal mem0 max_count =
     (if MAX_NODE_COUNT < max_count then (Inl EINVAL, heap)
      else llist_initialize_object heap nodes pobj mal mem0 CPLUS_NULL max_count False)"

definition cplus_llist_prev_new_s ::
    "mheap \<Rightarrow> (ptr \<rightharpoonup> llist_node) \<Rightarrow> ptr \<Rightarrow> (u32 \<Rightarrow> ptr) \<Rightarrow> mem \<Rightarrow> ptr \<Rightarrow> u32 \<Rightarrow>
      linked_list cresult \<times> mheap" where
  "cplus_llist_prev_new_s heap nodes pobj mal mem0 lock max_count =
     (if MAX_NODE_COUNT < max_count then (Inl EINVAL, heap)
      else llist_initialize_object heap nodes pobj mal mem0 lock max_count True)"

section \<open>Selecting into a new list\<close>

text \<open>
  \<open>get_set_if\<close> walks the list and appends each match to a second list, which it creates (with
  heap nodes) at the first match; both lists share the memory, so what the second one does to
  it is carried over.  When the second list cannot be created the code dereferences the null
  pointer; when one of its nodes cannot be allocated the match is left out.
\<close>

definition share_memory :: "linked_list \<Rightarrow> linked_list \<Rightarrow> linked_list" where
  "share_memory src L = L\<lparr>ls_nodes := ls_nodes src, ls_heap := ls_heap src\<rparr>"

definition get_set_add ::
    "ptr \<Rightarrow> linked_list option \<times> linked_list \<Rightarrow> (linked_list option \<times> linked_list) option" where
  "get_set_add d = (\<lambda>(tgt, L). do {
     T \<leftarrow> (case tgt of
             Some T \<Rightarrow> Some (share_memory L T)
           | None \<Rightarrow> (case cplus_llist_new (ls_heap L) (ls_nodes L) of
                       (Inl e, h) \<Rightarrow> None | (Inr T, h) \<Rightarrow> Some T));
     let (r, T1) = new_node T d;
     T2 \<leftarrow> (case r of
              Inl e \<Rightarrow> Some T1
            | Inr node \<Rightarrow> map_option snd (push_at T1 (sint (get_size T1)) node));
     Some (Some T2, share_memory T2 L) })"

partial_function (option) get_set_if_loop ::
    "matcher \<Rightarrow> linked_list option \<Rightarrow> linked_list \<Rightarrow> (linked_list option \<times> linked_list) option" where
  "get_set_if_loop cmp tgt L = do {
     c \<leftarrow> get_current L;
     if c = CPLUS_NULL then Some (tgt, L)
     else do {
       d \<leftarrow> get_data L c;
       (tgt1, L1) \<leftarrow>
         (if d \<noteq> CPLUS_NULL \<and> cmp d = 0 then get_set_add d (tgt, L) else Some (tgt, L));
       nx \<leftarrow> get_node_next L1 c;
       if nx = CPLUS_NULL then Some (tgt1, L1)
       else do { L2 \<leftarrow> step_next L1; get_set_if_loop cmp tgt1 L2 } } }"

definition get_set_if ::
    "linked_list \<Rightarrow> matcher \<Rightarrow> (linked_list cresult \<times> linked_list) option" where
  "get_set_if L cmp = map_option
     (\<lambda>(tgt, L'). (case tgt of None \<Rightarrow> Inl ENOENT | Some T \<Rightarrow> Inr T, L'))
     (get_set_if_loop cmp None (reset_cur_node L))"

section \<open>Sorting\<close>

text \<open>
  The inner loop of \<open>llist_sort\<close> with \<open>n = size - j\<close> rounds left at \<open>node1\<close>; it gives the
  \<open>node1\<close> it stops at, which the outer loop tests.  In the outer loop \<open>size\<close> and the number
  of rounds left are the same number.
\<close>

type_synonym comparator = "ptr \<Rightarrow> ptr \<Rightarrow> int"

primrec sort_pass ::
    "comparator \<Rightarrow> nat \<Rightarrow> ptr \<Rightarrow> linked_list \<Rightarrow> (ptr \<times> linked_list) option" where
  "sort_pass cmp 0 node1 L = Some (node1, L)"
| "sort_pass cmp (Suc n) node1 L =
     (if node1 = CPLUS_NULL then Some (node1, L)
      else do {
        node2 \<leftarrow> get_node_next L node1;
        if node2 = CPLUS_NULL then Some (node1, L)
        else do {
          data1 \<leftarrow> get_data L node1;
          data2 \<leftarrow> get_data L node2;
          L1 \<leftarrow> (if 0 < cmp data1 data2 then swap_data node1 node2 L else Some L);
          nx \<leftarrow> get_node_next L1 node1;
          sort_pass cmp n nx L1 } })"

primrec sort_loop :: "comparator \<Rightarrow> nat \<Rightarrow> ptr \<Rightarrow> linked_list \<Rightarrow> linked_list option" where
  "sort_loop cmp 0 node1 L = Some L"
| "sort_loop cmp (Suc r) node1 L =
     (if node1 = CPLUS_NULL then Some L
      else do {
        (node1', L1) \<leftarrow> sort_pass cmp (Suc r) (ls_head L) L;
        sort_loop cmp r node1' (L1\<lparr>ls_sort_count := ls_sort_count L1 + 1\<rparr>) })"

definition llist_sort :: "linked_list \<Rightarrow> comparator \<Rightarrow> linked_list option" where
  "llist_sort L cmp = sort_loop cmp (unat (get_size L)) (ls_head L) L"

section \<open>The interface\<close>

definition cplus_llist_get_size :: "linked_list \<Rightarrow> u32" where
  "cplus_llist_get_size L = get_size L"

definition cplus_llist_get_of :: "linked_list \<Rightarrow> int \<Rightarrow> (ptr cresult \<times> linked_list) option" where
  "cplus_llist_get_of L index =
     (if 0 > index \<or> index > sint (cplus_llist_get_size L - 1) then Some (Inl EINVAL, L)
      else do {
        (node, L1) \<leftarrow> get_node_of L index;
        if node \<noteq> CPLUS_NULL then do { d \<leftarrow> get_data L1 node; Some (Inr d, L1) }
        else Some (Inl ENONE, L1) })"

definition cplus_llist_get_index_if ::
    "linked_list \<Rightarrow> matcher \<Rightarrow> (int cresult \<times> linked_list) option" where
  "cplus_llist_get_index_if L cmp = get_index_if L cmp"

text \<open>The data of the node that was taken out; then the node is given back.\<close>

definition take_data :: "ptr cresult \<times> linked_list \<Rightarrow> (ptr cresult \<times> linked_list) option" where
  "take_data = (\<lambda>(r, L).
     (case r of
        Inl e \<Rightarrow> Some (Inl e, L)
      | Inr node \<Rightarrow> do { d \<leftarrow> get_data L node; Some (Inr d, free_node L node) }))"

definition cplus_llist_pop_of :: "linked_list \<Rightarrow> int \<Rightarrow> (ptr cresult \<times> linked_list) option" where
  "cplus_llist_pop_of L index =
     (if 0 > index \<or> index > sint (cplus_llist_get_size L) then Some (Inl EINVAL, L)
      else Option.bind (pop_of L index) take_data)"

definition cplus_llist_push_at ::
    "linked_list \<Rightarrow> int \<Rightarrow> ptr \<Rightarrow> (unit cresult \<times> linked_list) option" where
  "cplus_llist_push_at L index d =
     (if d = CPLUS_NULL then Some (Inl EINVAL, L)
      else if 0 > index \<or> index > sint (cplus_llist_get_size L) then Some (Inl EINVAL, L)
      else
        (case new_node L d of
           (Inl e, L1) \<Rightarrow> Some (Inl e, L1)
         | (Inr node, L1) \<Rightarrow> push_at L1 index node))"

definition cplus_llist_pop_front :: "linked_list \<Rightarrow> (ptr cresult \<times> linked_list) option" where
  "cplus_llist_pop_front L = cplus_llist_pop_of L 0"

definition cplus_llist_pop_back :: "linked_list \<Rightarrow> (ptr cresult \<times> linked_list) option" where
  "cplus_llist_pop_back L = cplus_llist_pop_of L (sint (cplus_llist_get_size L))"

definition cplus_llist_push_front ::
    "linked_list \<Rightarrow> ptr \<Rightarrow> (unit cresult \<times> linked_list) option" where
  "cplus_llist_push_front L d = cplus_llist_push_at L 0 d"

definition cplus_llist_push_back ::
    "linked_list \<Rightarrow> ptr \<Rightarrow> (unit cresult \<times> linked_list) option" where
  "cplus_llist_push_back L d = cplus_llist_push_at L (sint (cplus_llist_get_size L)) d"

partial_function (option) clear_loop :: "linked_list \<Rightarrow> ptr \<Rightarrow> linked_list option" where
  "clear_loop L node =
     (if node = CPLUS_NULL then Some L
      else do {
        nx \<leftarrow> get_node_next L node;
        clear_loop (free_node L node) nx })"

definition cplus_llist_clear :: "linked_list \<Rightarrow> linked_list option" where
  "cplus_llist_clear L = map_option
     (\<lambda>L1. reset_cur_node (L1\<lparr>ls_count := 0, ls_sort_count := 0,
        ls_head := CPLUS_NULL, ls_tail := CPLUS_NULL\<rparr>))
     (clear_loop L (ls_head L))"

text \<open>What is left of the heap after the list, its pool and its nodes were given back.\<close>

definition cplus_llist_delete :: "linked_list \<Rightarrow> mheap option" where
  "cplus_llist_delete L = map_option
     (\<lambda>L1. cplus_mgr_free
        (case ls_pool L1 of
           None \<Rightarrow> ls_heap L1
         | Some mp \<Rightarrow> foldl cplus_mgr_free (ls_heap L1) (cplus_mempool_delete mp (ls_pool_obj L1)))
        (ls_obj L1))
     (cplus_llist_clear L)"

definition cplus_llist_get_set_if ::
    "linked_list \<Rightarrow> matcher \<Rightarrow> (linked_list cresult \<times> linked_list) option" where
  "cplus_llist_get_set_if L cmp = get_set_if L cmp"

definition cplus_llist_pop_if :: "linked_list \<Rightarrow> matcher \<Rightarrow> (ptr cresult \<times> linked_list) option" where
  "cplus_llist_pop_if L cmp = Option.bind (pop_if L cmp) take_data"

text \<open>The data of a node that stays in the list; a null node gives the null pointer.\<close>

definition node_data :: "ptr cresult \<times> linked_list \<Rightarrow> (ptr cresult \<times> linked_list) option" where
  "node_data = (\<lambda>(r, L).
     (case r of
        Inl e \<Rightarrow> Some (Inl e, L)
      | Inr node \<Rightarrow>
          (if node \<noteq> CPLUS_NULL then do { d \<leftarrow> get_data L node; Some (Inr d, L) }
           else Some (Inl ENONE, L))))"

definition cplus_llist_get_if :: "linked_list \<Rightarrow> matcher \<Rightarrow> (ptr cresult \<times> linked_list) option" where
  "cplus_llist_get_if L cmp = Option.bind (get_node_if L cmp) node_data"

text \<open>
  \<open>cplus_llist_is_consist\<close> compares two lists element by element through
  \<open>cplus_llist_get_of\<close>; \<open>n\<close> is the number of rounds left.
\<close>

definition data_or_null :: "ptr cresult \<Rightarrow> ptr" where
  "data_or_null r = (case r of Inl e \<Rightarrow> CPLUS_NULL | Inr d \<Rightarrow> d)"

primrec consist_loop :: "comparator \<Rightarrow> nat \<Rightarrow> u32 \<Rightarrow> linked_list \<Rightarrow> linked_list \<Rightarrow>
    (bool \<times> linked_list \<times> linked_list) option" where
  "consist_loop cmp 0 idx L1 L2 = Some (True, L1, L2)"
| "consist_loop cmp (Suc n) idx L1 L2 = do {
     (r1, L1') \<leftarrow> cplus_llist_get_of L1 (sint idx);
     (r2, L2') \<leftarrow> cplus_llist_get_of L2 (sint idx);
     if cmp (data_or_null r1) (data_or_null r2) \<noteq> 0 then Some (False, L1', L2')
     else consist_loop cmp n (idx + 1) L1' L2' }"

definition cplus_llist_is_consist ::
    "linked_list \<Rightarrow> linked_list \<Rightarrow> comparator \<Rightarrow> (bool \<times> linked_list \<times> linked_list) option" where
  "cplus_llist_is_consist L1 L2 cmp =
     (if cplus_llist_get_size L1 \<noteq> cplus_llist_get_size L2 then Some (False, L1, L2)
      else consist_loop cmp (unat (cplus_llist_get_size L1)) 0 L1 L2)"

definition cplus_llist_delete_data ::
    "linked_list \<Rightarrow> ptr \<Rightarrow> (unit cresult \<times> linked_list) option" where
  "cplus_llist_delete_data L d =
     (if d = CPLUS_NULL then Some (Inl EINVAL, L) else remove_data L d)"

definition cplus_llist_sort ::
    "linked_list \<Rightarrow> comparator \<Rightarrow> (unit cresult \<times> linked_list) option" where
  "cplus_llist_sort L cmp = do {
     L1 \<leftarrow> (if is_sort L = False then llist_sort L cmp else Some L);
     Some (if is_sort L1 = True then Inr () else Inl ENONE, L1) }"

definition cplus_llist_is_sort :: "linked_list \<Rightarrow> bool" where
  "cplus_llist_is_sort L = is_sort L"

definition cplus_llist_get_head :: "linked_list \<Rightarrow> (ptr cresult \<times> linked_list) option" where
  "cplus_llist_get_head L = node_data (Inr (get_head L), L)"

definition cplus_llist_get_tail :: "linked_list \<Rightarrow> (ptr cresult \<times> linked_list) option" where
  "cplus_llist_get_tail L = node_data (Inr (get_tail L), L)"

definition cplus_llist_get_current :: "linked_list \<Rightarrow> (ptr cresult \<times> linked_list) option" where
  "cplus_llist_get_current L = do {
     node \<leftarrow> get_current L;
     node_data (Inr node, L) }"

definition cplus_llist_get_next :: "linked_list \<Rightarrow> (ptr cresult \<times> linked_list) option" where
  "cplus_llist_get_next L = do {
     (node, L1) \<leftarrow> get_next L;
     node_data (Inr node, L1) }"

definition cplus_llist_get_prev :: "linked_list \<Rightarrow> (ptr cresult \<times> linked_list) option" where
  "cplus_llist_get_prev L = do {
     (node, L1) \<leftarrow> get_prev L;
     node_data (Inr node, L1) }"

definition cplus_llist_get_cycling_next ::
    "linked_list \<Rightarrow> (ptr cresult \<times> linked_list) option" where
  "cplus_llist_get_cycling_next L = do {
     node \<leftarrow> get_current L;
     if node \<noteq> CPLUS_NULL then do {
       d \<leftarrow> get_data L node;
       (nx, L1) \<leftarrow> get_next L;
       Some (Inr d, if nx = CPLUS_NULL then reset_cur_node L1 else L1) }
     else Some (Inl ENONE, L) }"

end
