(* ===== verification/Llist_Rep.thy ===== *)
theory Llist_Rep
  imports Llist
begin

text \<open>
  What a linked list represents: the sequence of its nodes' addresses and data.  The
  representation predicate follows the links both ways; the cursor is described apart from it,
  since not every operation keeps the cursor in step with the list.
\<close>

section \<open>The node store as an allocator\<close>

definition store_live :: "node_store \<Rightarrow> ptr set" where
  "store_live = (\<lambda>(pool, heap). case pool of Some mp \<Rightarrow> live_blocks mp | None \<Rightarrow> set (mh_live heap))"

definition store_ok :: "node_store \<Rightarrow> bool" where
  "store_ok = (\<lambda>(pool, heap). case pool of Some mp \<Rightarrow> mp_ok mp | None \<Rightarrow> mheap_inv heap)"

interpretation store: block_allocator store_alloc store_free store_live store_ok
proof
  fix s r s'
  assume "store_ok s" "store_alloc s = (r, s')"
  then show "store_ok s'"
    by (auto simp: store_ok_def store_alloc_def split: option.splits prod.splits
        dest: mp.alc_inv heap.alc_inv)
next
  fix s a s'
  assume "store_ok s" "store_alloc s = (Inr a, s')"
  then show "a \<noteq> CPLUS_NULL \<and> a \<notin> store_live s \<and> store_live s' = insert a (store_live s)"
    by (auto simp: store_ok_def store_alloc_def store_live_def split: option.splits prod.splits
        dest: mp.alc_ok heap.alc_ok)
next
  fix s e s'
  assume "store_ok s" "store_alloc s = (Inl e, s')"
  then show "store_live s' = store_live s"
    by (auto simp: store_ok_def store_alloc_def store_live_def split: option.splits prod.splits
        dest: mp.alc_fail heap.alc_fail)
next
  fix s a
  assume "store_ok s" "a \<in> store_live s"
  then show "store_ok (store_free s a)"
    using mp.fre_inv heap.fre_inv
    by (auto simp: store_ok_def store_free_def store_live_def mp_free_def
        split: option.splits prod.splits)
next
  fix s a
  assume "store_ok s" "a \<in> store_live s"
  then show "store_live (store_free s a) = store_live s - {a}"
    using mp.fre_live heap.fre_live
    by (auto simp: store_ok_def store_free_def store_live_def mp_free_def
        split: option.splits prod.splits)
qed

section \<open>Doubly linked segments\<close>

text \<open>Entries are pairs of a node's address and its data.\<close>

type_synonym entry = "ptr \<times> ptr"

definition first_addr :: "entry list \<Rightarrow> ptr \<Rightarrow> ptr" where
  "first_addr es nx = (case es of [] \<Rightarrow> nx | e # _ \<Rightarrow> fst e)"

definition last_addr :: "ptr \<Rightarrow> entry list \<Rightarrow> ptr" where
  "last_addr pv es = (if es = [] then pv else fst (last es))"

lemma first_addr_simps [simp]:
  "first_addr [] nx = nx"
  "first_addr (e # es) nx = fst e"
  "first_addr (es @ fs) nx = first_addr es (first_addr fs nx)"
  by (auto simp: first_addr_def split: list.splits)

lemma last_addr_simps [simp]:
  "last_addr pv [] = pv"
  "last_addr pv (e # es) = last_addr (fst e) es"
  "last_addr pv (es @ fs) = last_addr (last_addr pv es) fs"
  by (auto simp: last_addr_def)

text \<open>
  The entries are linked in both directions; the segment hangs between \<open>pv\<close> and \<open>nx\<close>.
\<close>

primrec dls :: "(ptr \<rightharpoonup> llist_node) \<Rightarrow> ptr \<Rightarrow> entry list \<Rightarrow> ptr \<Rightarrow> bool" where
  "dls h pv [] nx = True"
| "dls h pv (e # es) nx =
     (h (fst e) = Some \<lparr>nd_data = snd e, nd_prev = pv, nd_next = first_addr es nx\<rparr> \<and>
      dls h (fst e) es nx)"

lemma dls_append [simp]:
  "dls h pv (es @ fs) nx \<longleftrightarrow> dls h pv es (first_addr fs nx) \<and> dls h (last_addr pv es) fs nx"
  by (induction es arbitrary: pv) auto

lemma dls_frame:
  "(\<And>p. p \<in> fst ` set es \<Longrightarrow> h' p = h p) \<Longrightarrow> dls h' pv es nx = dls h pv es nx"
  by (induction es arbitrary: pv) auto

lemma dls_update [simp]: "p \<notin> fst ` set es \<Longrightarrow> dls (h(p := v)) pv es nx = dls h pv es nx"
  by (rule dls_frame) auto

lemma dls_nth:
  assumes "dls h CPLUS_NULL es CPLUS_NULL" "i < length es"
  shows "h (fst (es ! i)) = Some \<lparr>nd_data = snd (es ! i),
    nd_prev = (if i = 0 then CPLUS_NULL else fst (es ! (i - 1))),
    nd_next = (if Suc i < length es then fst (es ! Suc i) else CPLUS_NULL)\<rparr>"
proof -
  have "dls h CPLUS_NULL (take i es @ es ! i # drop (Suc i) es) CPLUS_NULL"
    using assms by (simp add: id_take_nth_drop [symmetric] del: dls_append)
  moreover have "last_addr CPLUS_NULL (take i es) = (if i = 0 then CPLUS_NULL else fst (es ! (i - 1)))"
    using assms(2) by (cases i) (auto simp: last_addr_def take_Suc_nth)
  moreover have "first_addr (drop (Suc i) es) CPLUS_NULL =
      (if Suc i < length es then fst (es ! Suc i) else CPLUS_NULL)"
    using assms(2) by (auto simp: first_addr_def Cons_nth_drop_Suc [symmetric] split: list.split)
  ultimately show ?thesis by simp
qed

section \<open>The representation predicate\<close>

definition store_of :: "linked_list \<Rightarrow> node_store" where
  "store_of L = (ls_pool L, ls_heap L)"

definition lrep :: "linked_list \<Rightarrow> entry list \<Rightarrow> bool" where
  "lrep L es \<longleftrightarrow> dls (ls_nodes L) CPLUS_NULL es CPLUS_NULL \<and> distinct (map fst es) \<and>
     CPLUS_NULL \<notin> fst ` set es \<and> CPLUS_NULL \<notin> snd ` set es \<and>
     ls_head L = first_addr es CPLUS_NULL \<and> ls_tail L = last_addr CPLUS_NULL es \<and>
     length es < 2 ^ 31 \<and> ls_count L = of_nat (length es) \<and>
     store_ok (store_of L) \<and> fst ` set es \<subseteq> store_live (store_of L) \<and>
     ls_nodes L CPLUS_NULL = None"

text \<open>The data in order.\<close>

definition contents :: "linked_list \<Rightarrow> ptr list \<Rightarrow> bool" where
  "contents L xs \<longleftrightarrow> (\<exists>es. lrep L es \<and> xs = map snd es)"

lemma contentsI: "lrep L es \<Longrightarrow> contents L (map snd es)"
  by (auto simp: contents_def)

lemma contents_eqI: "\<lbrakk>lrep L es; xs = map snd es\<rbrakk> \<Longrightarrow> contents L xs"
  by (auto simp: contents_def)

lemma lrepD:
  assumes "lrep L es"
  shows "dls (ls_nodes L) CPLUS_NULL es CPLUS_NULL" "distinct (map fst es)"
    "CPLUS_NULL \<notin> fst ` set es" "CPLUS_NULL \<notin> snd ` set es"
    "ls_head L = first_addr es CPLUS_NULL" "ls_tail L = last_addr CPLUS_NULL es"
    "length es < 2147483648" "ls_count L = of_nat (length es)"
    "store_ok (store_of L)" "fst ` set es \<subseteq> store_live (store_of L)"
    "ls_nodes L CPLUS_NULL = None"
  using assms by (simp_all add: lrep_def)

lemma count_simps:
  assumes "lrep L es"
  shows "unat (ls_count L) = length es" "is_empty L \<longleftrightarrow> es = []"
    "sint (cplus_llist_get_size L) = int (length es)"
    "0 \<le> i \<Longrightarrow> i \<le> int (length es) \<Longrightarrow> get_size L = word_of_int i \<longleftrightarrow> i = int (length es)"
    "es \<noteq> [] \<Longrightarrow> sint (cplus_llist_get_size L - 1) = int (length es) - 1"
proof -
  note D = lrepD [OF assms]
  show cnt: "unat (ls_count L) = length es" using D(7,8) by simp
  then show "is_empty L \<longleftrightarrow> es = []"
    by (metis is_empty_def length_0_conv unat_eq_0)
  show "sint (cplus_llist_get_size L) = int (length es)"
    using D(7,8) by (simp add: cplus_llist_get_size_def get_size_def signed_of_nat signed_take_bit_int_eq_self)
  show "get_size L = word_of_int i \<longleftrightarrow> i = int (length es)" if "0 \<le> i" "i \<le> int (length es)"
  proof -
    have "i = int (nat i)" "nat i < 4294967296" "length es < 4294967296" using that D(7) by auto
    then show ?thesis using D(8)
      by (metis get_size_def of_nat_u32_inject of_int_of_nat_eq)
  qed
  show "sint (cplus_llist_get_size L - 1) = int (length es) - 1" if "es \<noteq> []"
  proof -
    obtain k where "length es = Suc k" using \<open>es \<noteq> []\<close> by (cases es) auto
    then have "cplus_llist_get_size L - 1 = of_nat k" "k < 2147483648"
      using D(7,8) by (simp_all add: cplus_llist_get_size_def get_size_def)
    then show ?thesis using \<open>length es = Suc k\<close>
      by (simp add: signed_of_nat signed_take_bit_int_eq_self)
  qed
qed

section \<open>The cursor\<close>

text \<open>
  \<open>cell_at es i c\<close>: the cell \<open>c\<close> holds the address of entry \<open>i\<close>.  \<open>cur_ok\<close>: the cursor is in
  step with \<open>cur_index\<close>.  \<open>forward\<close>: the cursor is not the \<open>prev\<close> field of a node, which is
  what keeps it in step when nodes are inserted or removed at the cursor.
\<close>

fun cell_at :: "entry list \<Rightarrow> nat \<Rightarrow> cell \<Rightarrow> bool" where
  "cell_at es i Cell_head = (i = 0)"
| "cell_at es i (Cell_next p) = (0 < i \<and> i \<le> length es \<and> p = fst (es ! (i - 1)))"
| "cell_at es i (Cell_prev p) = (Suc i < length es \<and> p = fst (es ! Suc i))"

definition cur_at :: "linked_list \<Rightarrow> entry list \<Rightarrow> nat \<Rightarrow> bool" where
  "cur_at L es i \<longleftrightarrow> ls_cur_index L = int i \<and> (i < length es \<or> i = 0) \<and> cell_at es i (ls_current L)"

definition cur_ok :: "linked_list \<Rightarrow> entry list \<Rightarrow> bool" where
  "cur_ok L es \<longleftrightarrow> (\<exists>i. cur_at L es i)"

fun forward :: "cell \<Rightarrow> bool" where
  "forward Cell_head = True"
| "forward (Cell_next p) = True"
| "forward (Cell_prev p) = False"

lemma reset_simps [simp]:
  "ls_cur_index (reset_cur_node L) = 0" "ls_current (reset_cur_node L) = Cell_head"
  "ls_nodes (reset_cur_node L) = ls_nodes L" "ls_head (reset_cur_node L) = ls_head L"
  "ls_tail (reset_cur_node L) = ls_tail L" "ls_count (reset_cur_node L) = ls_count L"
  "ls_sort_count (reset_cur_node L) = ls_sort_count L" "ls_heap (reset_cur_node L) = ls_heap L"
  "ls_pool (reset_cur_node L) = ls_pool L" "store_of (reset_cur_node L) = store_of L"
  by (simp_all add: reset_cur_node_def store_of_def)

lemma lrep_reset [simp]: "lrep (reset_cur_node L) es = lrep L es"
  by (simp add: lrep_def)

lemma lrep_cursor [simp]: "lrep (L\<lparr>ls_current := c, ls_cur_index := i\<rparr>) es = lrep L es"
  by (simp add: lrep_def store_of_def)

lemma cur_at_reset [simp]: "cur_at (reset_cur_node L) es 0"
  by (simp add: cur_at_def)

lemma cur_ok_reset [simp]: "cur_ok (reset_cur_node L) es"
  by (auto simp: cur_ok_def intro: cur_at_reset)

text \<open>\<open>synced\<close>: in step and reached without moving backwards.\<close>

definition synced :: "linked_list \<Rightarrow> entry list \<Rightarrow> bool" where
  "synced L es \<longleftrightarrow> cur_ok L es \<and> forward (ls_current L)"

definition at_head :: "linked_list \<Rightarrow> bool" where
  "at_head L \<longleftrightarrow> ls_cur_index L = 0 \<and> ls_current L = Cell_head"

lemma at_head_reset [simp]: "at_head (reset_cur_node L)"
  by (simp add: at_head_def)

lemma at_head_synced: "at_head L \<Longrightarrow> synced L es"
  by (auto simp: at_head_def synced_def cur_ok_def cur_at_def)

lemma get_current_at:
  assumes "lrep L es" "cell_at es i (ls_current L)" "i < length es"
  shows "get_current L = Some (fst (es ! i))"
proof (cases "ls_current L")
  case Cell_head
  then show ?thesis using assms lrepD(5) [OF assms(1)]
    by (cases es) (auto simp: get_current_def)
next
  case (Cell_next p)
  then show ?thesis using assms dls_nth [OF lrepD(1) [OF assms(1)], of "i - 1"]
    by (auto simp: get_current_def get_node_next_def)
next
  case (Cell_prev p)
  then show ?thesis using assms dls_nth [OF lrepD(1) [OF assms(1)], of "Suc i"]
    by (auto simp: get_current_def get_node_prev_def)
qed

lemma get_current_empty:
  assumes "lrep L []" "cur_ok L []"
  shows "get_current L = Some CPLUS_NULL"
proof -
  have "ls_current L = Cell_head"
    using assms(2) by (cases "ls_current L") (auto simp: cur_ok_def cur_at_def)
  then show ?thesis using lrepD(5) [OF assms(1)] by (simp add: get_current_def)
qed

lemma entry_not_null: "\<lbrakk>lrep L es; i < length es\<rbrakk> \<Longrightarrow> fst (es ! i) \<noteq> CPLUS_NULL"
  using lrepD(3) [of L es] nth_mem [of i es] by (metis image_eqI)

lemma data_not_null: "\<lbrakk>lrep L es; i < length es\<rbrakk> \<Longrightarrow> snd (es ! i) \<noteq> CPLUS_NULL"
  using lrepD(4) [of L es] nth_mem [of i es] by (metis image_eqI)

lemma node_at:
  assumes "lrep L es" "i < length es"
  shows "get_data L (fst (es ! i)) = Some (snd (es ! i))"
    "get_node_next L (fst (es ! i)) = Some (if Suc i < length es then fst (es ! Suc i) else CPLUS_NULL)"
    "get_node_prev L (fst (es ! i)) = Some (if i = 0 then CPLUS_NULL else fst (es ! (i - 1)))"
    "ls_nodes L (fst (es ! i)) \<noteq> None"
  using dls_nth [OF lrepD(1) [OF assms(1)] assms(2)]
  by (auto simp: get_data_def get_node_next_def get_node_prev_def)

definition move_to :: "linked_list \<Rightarrow> cell \<Rightarrow> int \<Rightarrow> linked_list" where
  "move_to L c i = L\<lparr>ls_current := c, ls_cur_index := i\<rparr>"

lemma move_to_simps [simp]:
  "ls_current (move_to L c i) = c" "ls_cur_index (move_to L c i) = i"
  "lrep (move_to L c i) es = lrep L es" "ls_nodes (move_to L c i) = ls_nodes L"
  "move_to (move_to L c i) c' i' = move_to L c' i'" "ls_sort_count (move_to L c i) = ls_sort_count L"
  "ls_count (move_to L c i) = ls_count L" "ls_heap (move_to L c i) = ls_heap L"
  "ls_head (move_to L c i) = ls_head L" "ls_tail (move_to L c i) = ls_tail L"
  "ls_pool (move_to L c i) = ls_pool L" "is_empty (move_to L c i) = is_empty L"
  "get_size (move_to L c i) = get_size L" "store_of (move_to L c i) = store_of L"
  by (simp_all add: move_to_def is_empty_def get_size_def store_of_def)

lemma step_next_at:
  assumes "lrep L es" "cell_at es i (ls_current L)" "i < length es"
  shows "step_next L = Some (move_to L (Cell_next (fst (es ! i))) (ls_cur_index L + 1))"
  using get_current_at [OF assms] node_at(4) [OF assms(1,3)]
  by (auto simp: step_next_def move_to_def)

lemma step_prev_at:
  assumes "lrep L es" "cell_at es i (ls_current L)" "i < length es"
  shows "step_prev L = Some (move_to L (Cell_prev (fst (es ! i))) (ls_cur_index L - 1))"
  using get_current_at [OF assms] node_at(4) [OF assms(1,3)]
  by (auto simp: step_prev_def move_to_def)

lemma walk_next_at:
  "\<lbrakk>lrep L es; cell_at es i (ls_current L); ls_cur_index L = int i; i + Suc n < length es\<rbrakk> \<Longrightarrow>
     walk_next (Suc n) L = Some (move_to L (Cell_next (fst (es ! (i + n)))) (int (i + Suc n)))"
proof (induction n arbitrary: L i)
  case 0
  then show ?case using step_next_at [of L es i] by (simp add: add.commute)
next
  case (Suc n)
  let ?L1 = "move_to L (Cell_next (fst (es ! i))) (int (Suc i))"
  have "walk_next (Suc n) ?L1 =
      Some (move_to ?L1 (Cell_next (fst (es ! (Suc i + n)))) (int (Suc i + Suc n)))"
    using Suc.prems by (intro Suc.IH) auto
  then show ?case using step_next_at [of L es i] Suc.prems by (simp add: add.commute)
qed

lemma walk_prev_at:
  "\<lbrakk>lrep L es; cell_at es i (ls_current L); ls_cur_index L = int i; i < length es; Suc n \<le> i\<rbrakk> \<Longrightarrow>
     walk_prev (Suc n) L = Some (move_to L (Cell_prev (fst (es ! (i - n)))) (int (i - Suc n)))"
proof (induction n arbitrary: L i)
  case 0
  then show ?case using step_prev_at [of L es i] by (simp add: of_nat_diff)
next
  case (Suc n)
  let ?L1 = "move_to L (Cell_prev (fst (es ! i))) (int (i - 1))"
  have "walk_prev (Suc n) ?L1 =
      Some (move_to ?L1 (Cell_prev (fst (es ! (i - 1 - n)))) (int (i - 1 - Suc n)))"
    using Suc.prems by (intro Suc.IH) auto
  then show ?case using step_prev_at [of L es i] Suc.prems
    by (simp add: of_nat_diff algebra_simps)
qed

text \<open>Where \<open>get_node_of\<close> leaves the cursor.\<close>

definition cell_after :: "linked_list \<Rightarrow> entry list \<Rightarrow> nat \<Rightarrow> cell" where
  "cell_after L es k =
     (if int k = ls_cur_index L then ls_current L
      else if int k > ls_cur_index L then Cell_next (fst (es ! (k - 1)))
      else Cell_prev (fst (es ! Suc k)))"

lemma get_node_of_at:
  assumes rep: "lrep L es" and cur: "cur_at L es i" and k: "k < length es"
  shows "get_node_of L (int k) = Some (fst (es ! k), move_to L (cell_after L es k) (int k))"
    and "cell_at es k (cell_after L es k)"
    and "forward (cell_after L es k) \<longleftrightarrow>
      int k > ls_cur_index L \<or> int k = ls_cur_index L \<and> forward (ls_current L)"
proof -
  have i: "ls_cur_index L = int i" "cell_at es i (ls_current L)" "i < length es"
    using cur k by (auto simp: cur_at_def)
  show at: "cell_at es k (cell_after L es k)"
    using i k by (auto simp: cell_after_def)
  show "forward (cell_after L es k) \<longleftrightarrow>
      int k > ls_cur_index L \<or> int k = ls_cur_index L \<and> forward (ls_current L)"
    by (auto simp: cell_after_def)
  let ?L1 = "move_to L (cell_after L es k) (int k)"
  have get: "get_current ?L1 = Some (fst (es ! k))"
    using rep at k by (intro get_current_at) auto
  consider "k = i" | n where "k = i + Suc n" | n where "i = k + Suc n"
    by (metis less_imp_Suc_add linorder_neqE_nat add_Suc_right)
  then show "get_node_of L (int k) = Some (fst (es ! k), ?L1)"
  proof cases
    case 1
    have "?L1 = L" using 1 i(1) by (simp add: cell_after_def move_to_def)
    with 1 i(1) get show ?thesis by (simp add: get_node_of_def)
  next
    case (2 n)
    have "nat (int k - ls_cur_index L) = Suc n" using 2 i(1) by simp
    moreover have "walk_next (Suc n) L = Some ?L1"
      using walk_next_at [OF rep i(2,1), of n] 2 k i(1) by (simp add: cell_after_def)
    ultimately show ?thesis using 2 i(1) get by (simp add: get_node_of_def)
  next
    case (3 n)
    have "nat (ls_cur_index L - int k) = Suc n" using 3 i(1) by simp
    moreover have "walk_prev (Suc n) L = Some ?L1"
      using walk_prev_at [OF rep i(2,1,3), of n] 3 i(1) by (simp add: cell_after_def)
    ultimately show ?thesis using 3 i(1) get by (simp add: get_node_of_def)
  qed
qed

section \<open>Memory updates on the representation\<close>

lemma put_simps:
  "ls_nodes L p = Some n \<Longrightarrow>
     put_next p v L = Some (L\<lparr>ls_nodes := (ls_nodes L)(p \<mapsto> n\<lparr>nd_next := v\<rparr>)\<rparr>)"
  "ls_nodes L p = Some n \<Longrightarrow>
     put_prev p v L = Some (L\<lparr>ls_nodes := (ls_nodes L)(p \<mapsto> n\<lparr>nd_prev := v\<rparr>)\<rparr>)"
  "ls_nodes L p = Some n \<Longrightarrow>
     put_data p v L = Some (L\<lparr>ls_nodes := (ls_nodes L)(p \<mapsto> n\<lparr>nd_data := v\<rparr>)\<rparr>)"
  by (simp_all add: put_next_def put_prev_def put_data_def)

lemma store_of_nodes [simp]:
  "store_of (L\<lparr>ls_nodes := h\<rparr>) = store_of L" "store_of (L\<lparr>ls_head := a\<rparr>) = store_of L"
  "store_of (L\<lparr>ls_tail := a\<rparr>) = store_of L" "store_of (L\<lparr>ls_count := c\<rparr>) = store_of L"
  "store_of (L\<lparr>ls_sort_count := c\<rparr>) = store_of L"
  by (simp_all add: store_of_def)

lemma lrep_sort_count [simp]: "lrep (L\<lparr>ls_sort_count := c\<rparr>) es = lrep L es"
  by (simp add: lrep_def)

text \<open>A node that was just allocated is not in the list; the list is untouched.\<close>

lemma new_node_ok:
  assumes rep: "lrep L es" and new: "new_node L d = (Inr a, L1)"
  shows "lrep L1 es" "a \<notin> fst ` set es" "a \<noteq> CPLUS_NULL"
    "ls_nodes L1 a = Some \<lparr>nd_data = d, nd_prev = CPLUS_NULL, nd_next = CPLUS_NULL\<rparr>"
    "a \<in> store_live (store_of L1)" "ls_current L1 = ls_current L" "ls_cur_index L1 = ls_cur_index L"
    "ls_sort_count L1 = ls_sort_count L"
proof -
  note D = lrepD [OF rep]
  obtain s' where alloc: "store_alloc (store_of L) = (Inr a, s')"
    and L1: "L1 = L\<lparr>ls_pool := fst s', ls_heap := snd s',
      ls_nodes := (ls_nodes L)(a \<mapsto> \<lparr>nd_data = d, nd_prev = CPLUS_NULL, nd_next = CPLUS_NULL\<rparr>)\<rparr>"
    using new by (auto simp: new_node_def store_of_def Let_def split: prod.splits sum.splits)
  have fresh: "a \<noteq> CPLUS_NULL" "a \<notin> store_live (store_of L)"
    "store_live s' = insert a (store_live (store_of L))" "store_ok s'"
    using store.alc_ok [OF D(9) alloc] store.alc_inv [OF D(9) alloc] by auto
  have "store_of L1 = s'" by (simp add: L1 store_of_def)
  moreover show "a \<notin> fst ` set es" using fresh(2) D(10) by auto
  moreover from this have "dls (ls_nodes L1) CPLUS_NULL es CPLUS_NULL" using D(1) by (simp add: L1)
  ultimately show "lrep L1 es" "a \<in> store_live (store_of L1)"
    using rep fresh unfolding lrep_def by (auto simp: L1)
  show "a \<noteq> CPLUS_NULL" by (rule fresh(1))
qed (use new in \<open>auto simp: new_node_def Let_def split: prod.splits sum.splits\<close>)

lemma new_node_fail:
  assumes rep: "lrep L es" and new: "new_node L d = (Inl e, L1)"
  shows "lrep L1 es" "e = ENOMEM" "ls_current L1 = ls_current L" "ls_cur_index L1 = ls_cur_index L"
proof -
  note D = lrepD [OF rep]
  obtain e' s' where alloc: "store_alloc (store_of L) = (Inl e', s')"
    and L1: "L1 = L\<lparr>ls_pool := fst s', ls_heap := snd s'\<rparr>" "e = ENOMEM"
    using new by (auto simp: new_node_def store_of_def Let_def split: prod.splits sum.splits)
  have "store_live s' = store_live (store_of L)" "store_ok s'"
    using store.alc_fail [OF D(9) alloc] store.alc_inv [OF D(9) alloc] by auto
  moreover have "store_of L1 = s'" by (simp add: L1 store_of_def)
  ultimately show "lrep L1 es" using rep unfolding lrep_def by (simp add: L1)
  show "e = ENOMEM" "ls_current L1 = ls_current L" "ls_cur_index L1 = ls_cur_index L"
    using L1 by simp_all
qed

end
