(* ===== verification/Llist_Ops.thy ===== *)
theory Llist_Ops
  imports Llist_Rep
begin

text \<open>
  Insertion, removal and lookup of \<^verbatim>\<open>src/llist.c\<close> on the representation: each operation at an
  index is the list operation at that index.
\<close>

section \<open>Freeing a detached node\<close>

text \<open>\<open>detached L es a d\<close>: node \<open>a\<close> with data \<open>d\<close> is allocated and not linked into the list.\<close>

definition detached :: "linked_list \<Rightarrow> entry list \<Rightarrow> ptr \<Rightarrow> ptr \<Rightarrow> bool" where
  "detached L es a d \<longleftrightarrow> a \<noteq> CPLUS_NULL \<and> a \<notin> fst ` set es \<and> a \<in> store_live (store_of L) \<and>
     get_data L a = Some d"

lemma free_node_ok:
  assumes rep: "lrep L es" and det: "detached L es a d"
  shows "lrep (free_node L a) es"
    "store_live (store_of (free_node L a)) = store_live (store_of L) - {a}"
    "ls_current (free_node L a) = ls_current L" "ls_cur_index (free_node L a) = ls_cur_index L"
    "ls_sort_count (free_node L a) = ls_sort_count L"
proof -
  note D = lrepD [OF rep]
  obtain pool heap where free: "store_free (store_of L) a = (pool, heap)" by force
  have L1: "free_node L a = L\<lparr>ls_pool := pool, ls_heap := heap, ls_nodes := (ls_nodes L)(a := None)\<rparr>"
    using det free by (simp add: free_node_def detached_def store_of_def)
  have a: "a \<in> store_live (store_of L)" "a \<notin> fst ` set es" using det by (auto simp: detached_def)
  have ok: "store_ok (pool, heap)" "store_live (pool, heap) = store_live (store_of L) - {a}"
    using store.fre_inv [OF D(9) a(1)] store.fre_live [OF D(9) a(1)] free by simp_all
  have s: "store_of (free_node L a) = (pool, heap)" by (simp add: L1 store_of_def)
  show "store_live (store_of (free_node L a)) = store_live (store_of L) - {a}"
    using ok(2) s by simp
  have "dls (ls_nodes (free_node L a)) CPLUS_NULL es CPLUS_NULL" using D(1) a(2) by (simp add: L1)
  then show "lrep (free_node L a) es"
    using rep ok a(2) s unfolding lrep_def by (auto simp: L1)
qed (auto simp: free_node_def split: prod.split)

section \<open>Taking a node out\<close>

text \<open>What all three ways of unlinking leave: the list without the entry, the node detached.\<close>

definition popped :: "linked_list \<Rightarrow> entry list \<Rightarrow> entry \<Rightarrow> linked_list \<Rightarrow> bool" where
  "popped L es e L' \<longleftrightarrow> lrep L' es \<and> detached L' es (fst e) (snd e) \<and>
     store_of L' = store_of L \<and> ls_sort_count L' = ls_sort_count L"

lemma count_minus:
  assumes "lrep L es" "length es = Suc n"
  shows "ls_count L - 1 = of_nat n" "(of_nat n :: u32) = 0 \<longleftrightarrow> n = 0"
proof -
  note D = lrepD [OF assms(1)]
  show "ls_count L - 1 = of_nat n" using D(8) assms(2) by simp
  have "n < 4294967296" using D(7) assms(2) by simp
  then show "(of_nat n :: u32) = 0 \<longleftrightarrow> n = 0" using of_nat_u32_inject [of n 0] by simp
qed

lemma pop_front_at:
  assumes rep: "lrep L (e # es)"
  shows "\<exists>L'. pop_of L 0 = Some (Inr (fst e), L') \<and> popped L es e L' \<and> at_head L'"
proof (cases es)
  case Nil
  note D = lrepD [OF rep] and C = count_minus [OF rep, of "length es"]
  show ?thesis
    using D C count_simps(2) [OF rep] Nil
    by (auto simp: pop_of_def get_node_next_def put_simps Let_def popped_def lrep_def detached_def
        get_data_def is_empty_def at_head_def)
next
  case (Cons b bs)
  note D = lrepD [OF rep] and C = count_minus [OF rep, of "length es"]
  show ?thesis
    using D C count_simps(2) [OF rep] Cons
    by (auto simp: pop_of_def get_node_next_def put_simps Let_def popped_def lrep_def detached_def
        get_data_def is_empty_def at_head_def)
qed

lemma pop_back_at:
  assumes rep: "lrep L (es @ [e])"
  shows "\<exists>L'. pop_of L (int (Suc (length es))) = Some (Inr (fst e), L') \<and> popped L es e L' \<and>
    at_head L'"
proof -
  note D = lrepD [OF rep] and C = count_minus [OF rep, of "length es"]
  have size: "get_size L = word_of_int (int (Suc (length es)))"
    using count_simps(4) [OF rep, of "int (Suc (length es))"] by simp
  show ?thesis
  proof (cases es rule: rev_cases)
    case Nil
    then show ?thesis
      using D C count_simps(2) [OF rep] size
      by (auto simp: pop_of_def get_node_prev_def put_simps Let_def popped_def lrep_def detached_def
          get_data_def is_empty_def at_head_def)
  next
    case (snoc as a)
    then show ?thesis
      using D C count_simps(2) [OF rep] size
      by (auto simp: pop_of_def get_node_prev_def put_simps Let_def popped_def lrep_def detached_def
          get_data_def is_empty_def at_head_def)
  qed
qed

text \<open>
  Unlinking between two neighbours: in memory, on the four fields the code assigns.
\<close>

definition unlink_mid :: "linked_list \<Rightarrow> ptr \<Rightarrow> linked_list option" where
  "unlink_mid L node = do {
     pv \<leftarrow> get_node_prev L node;
     nx \<leftarrow> get_node_next L node;
     L1 \<leftarrow> put_next pv nx L;
     L2 \<leftarrow> put_prev nx pv L1;
     L2' \<leftarrow> put_next node CPLUS_NULL L2;
     put_prev node CPLUS_NULL L2' }"

lemma unlink_mid_at:
  assumes rep: "lrep L (as @ [a, e, b] @ bs)"
  shows "\<exists>h. unlink_mid L (fst e) = Some (L\<lparr>ls_nodes := h\<rparr>) \<and>
    dls h CPLUS_NULL (as @ [a, b] @ bs) CPLUS_NULL \<and>
    h (fst e) = Some \<lparr>nd_data = snd e, nd_prev = CPLUS_NULL, nd_next = CPLUS_NULL\<rparr> \<and>
    h CPLUS_NULL = None"
  using lrepD [OF rep]
  by (auto simp: unlink_mid_def get_node_prev_def get_node_next_def put_simps)

text \<open>In the middle the list shrinks as it should; the cursor moves to the index first.\<close>

lemma pop_mid_at:
  assumes rep: "lrep L (as @ [a, e, b] @ bs)" and cur: "cur_at L (as @ [a, e, b] @ bs) i"
  defines "es \<equiv> as @ [a, b] @ bs" and "k \<equiv> Suc (length as)"
  shows "\<exists>L'. pop_of L (int k) = Some (Inr (fst e), L') \<and> popped L es e L' \<and>
    ls_cur_index L' = int k \<and> ls_current L' = cell_after L (as @ [a, e, b] @ bs) k"
proof -
  let ?all = "as @ [a, e, b] @ bs"
  have k: "k < length ?all" "?all ! k = e" "k \<noteq> 0" "int k \<noteq> int (length ?all)"
    by (simp_all add: k_def nth_append)
  let ?L0 = "move_to L (cell_after L ?all k) (int k)"
  have node: "get_node_of L (int k) = Some (fst e, ?L0)"
    using get_node_of_at(1) [OF rep cur k(1)] k(2) by simp
  have rep0: "lrep ?L0 ?all" using rep by simp
  from unlink_mid_at [OF rep0] obtain h where
    unl: "unlink_mid ?L0 (fst e) = Some (?L0\<lparr>ls_nodes := h\<rparr>)"
    and h: "dls h CPLUS_NULL es CPLUS_NULL"
      "h (fst e) = Some \<lparr>nd_data = snd e, nd_prev = CPLUS_NULL, nd_next = CPLUS_NULL\<rparr>"
      "h CPLUS_NULL = None"
    unfolding es_def by blast
  note D = lrepD [OF rep]
  have C: "ls_count L - 1 = of_nat (length es)" "(of_nat (length es) :: u32) \<noteq> 0"
    using count_minus [OF rep, of "length es"] by (auto simp: es_def)
  have one: "ls_count L \<noteq> 1" using C by auto
  have e: "fst e \<noteq> CPLUS_NULL" using entry_not_null [OF rep k(1)] k(2) by simp
  have notsize: "get_size L \<noteq> word_of_int (int k)"
    using count_simps(4) [OF rep, of "int k"] k by auto
  have mid: "do { (node, L0) \<leftarrow> get_node_of L (int k);
       if node \<noteq> CPLUS_NULL then do {
         pv \<leftarrow> get_node_prev L0 node; nx \<leftarrow> get_node_next L0 node;
         L1 \<leftarrow> put_next pv nx L0; L2 \<leftarrow> put_prev nx pv L1; L2' \<leftarrow> put_next node CPLUS_NULL L2;
         L3 \<leftarrow> put_prev node CPLUS_NULL L2'; Some (node, L3) }
       else Some (node, L0) } = Some (fst e, ?L0\<lparr>ls_nodes := h\<rparr>)"
    using unl e node by (auto simp: unlink_mid_def bind_eq_Some_conv)
  let ?L' = "?L0\<lparr>ls_nodes := h, ls_count := of_nat (length es)\<rparr>"
  have pop: "pop_of L (int k) = Some (Inr (fst e), ?L')"
    using mid k(3) notsize e C one count_simps(2) [OF rep]
    by (simp add: pop_of_def Let_def is_empty_def)
  have "lrep ?L' es"
    using D h(1,3) unfolding lrep_def es_def by (simp add: store_of_def)
  moreover have "detached ?L' es (fst e) (snd e)"
    using D(2,10) e h(2) unfolding detached_def es_def
    by (auto simp: get_data_def store_of_def)
  ultimately have "popped L es e ?L'" by (simp add: popped_def store_of_def)
  with pop show ?thesis by auto
qed

text \<open>
  At index \<open>size - 1\<close> of a list with two or more elements, the code treats the last element
  as one in the middle and writes through its null \<open>next\<close>.
\<close>

lemma pop_last_crashes:
  assumes rep: "lrep L es" and cur: "cur_ok L es" and len: "length es = Suc (Suc k)"
  shows "pop_of L (int (Suc k)) = None"
proof -
  obtain i where i: "cur_at L es i" using cur by (auto simp: cur_ok_def)
  have k: "Suc k < length es" "k < length es" "int (Suc k) \<noteq> 0" using len by auto
  obtain L0 where L0: "get_node_of L (int (Suc k)) = Some (fst (es ! Suc k), L0)" "lrep L0 es"
    using get_node_of_at(1) [OF rep i k(1)] rep by simp
  let ?p = "fst (es ! k)"
  have pv: "get_node_prev L0 (fst (es ! Suc k)) = Some ?p"
    and nx: "get_node_next L0 (fst (es ! Suc k)) = Some CPLUS_NULL"
    using node_at(2,3) [OF L0(2) k(1)] len by auto
  have p: "?p \<noteq> CPLUS_NULL" by (rule entry_not_null [OF rep k(2)])
  have unl: "put_next ?p CPLUS_NULL L0 \<bind> (\<lambda>L1. put_prev CPLUS_NULL ?p L1 \<bind> K) = None" for K
    using lrepD(11) [OF L0(2)] p
    by (cases "ls_nodes L0 ?p") (auto simp: put_next_def put_prev_def)
  have ne: "\<not> is_empty L" using count_simps(2) [OF rep] len by auto
  have size: "get_size L \<noteq> word_of_int (int (Suc k))"
    using count_simps(4) [OF rep, of "int (Suc k)"] len by simp
  have nn: "fst (es ! Suc k) \<noteq> CPLUS_NULL" by (rule entry_not_null [OF rep k(1)])
  show ?thesis
    unfolding pop_of_def using k(3) ne size nn
    by (simp only: if_False L0 pv nx unl if_True Let_def Option.bind.bind_lunit
        Option.bind.bind_lzero prod.case not_False_eq_True)
qed

section \<open>Linking a node in\<close>

text \<open>A new node: detached, with null links, and a data pointer that is not null.\<close>

definition fresh_node :: "linked_list \<Rightarrow> entry list \<Rightarrow> entry \<Rightarrow> bool" where
  "fresh_node L es e \<longleftrightarrow> fst e \<noteq> CPLUS_NULL \<and> fst e \<notin> fst ` set es \<and>
     fst e \<in> store_live (store_of L) \<and> snd e \<noteq> CPLUS_NULL \<and>
     ls_nodes L (fst e) = Some \<lparr>nd_data = snd e, nd_prev = CPLUS_NULL, nd_next = CPLUS_NULL\<rparr>"

definition pushed :: "linked_list \<Rightarrow> entry list \<Rightarrow> linked_list \<Rightarrow> bool" where
  "pushed L es L' \<longleftrightarrow> lrep L' es \<and> store_of L' = store_of L \<and> ls_sort_count L' = ls_sort_count L"

lemma push_front_at:
  assumes rep: "lrep L es" and new: "fresh_node L es e" and len: "length es < 2 ^ 31 - 1"
  shows "\<exists>L'. push_at L 0 (fst e) = Some (Inr (), L') \<and> pushed L (e # es) L' \<and>
    at_head L'"
proof (cases es)
  case Nil
  then show ?thesis
    using lrepD [OF rep] new count_simps(2) [OF rep]
    by (auto simp: push_at_def pushed_def lrep_def fresh_node_def at_head_def)
next
  case (Cons b bs)
  then show ?thesis
    using lrepD [OF rep] new count_simps(2) [OF rep] len
    by (auto simp: push_at_def put_simps pushed_def lrep_def fresh_node_def at_head_def)
qed

lemma push_back_at:
  assumes rep: "lrep L es" and new: "fresh_node L es e" and len: "length es < 2 ^ 31 - 1"
  shows "\<exists>L'. push_at L (int (length es)) (fst e) = Some (Inr (), L') \<and>
    pushed L (es @ [e]) L' \<and> at_head L'"
proof (cases es rule: rev_cases)
  case Nil
  then show ?thesis
    using lrepD [OF rep] new count_simps(2) [OF rep]
    by (auto simp: push_at_def pushed_def lrep_def fresh_node_def at_head_def)
next
  case (snoc as a)
  have size: "get_size L = word_of_int (int (length es))"
    using count_simps(4) [OF rep, of "int (length es)"] by simp
  then show ?thesis
    using lrepD [OF rep] new count_simps(2) [OF rep] len snoc
    by (auto simp: push_at_def put_simps pushed_def lrep_def fresh_node_def at_head_def)
qed

definition link_mid :: "linked_list \<Rightarrow> ptr \<Rightarrow> ptr \<Rightarrow> linked_list option" where
  "link_mid L0 node target = do {
     L1 \<leftarrow> put_next node target L0;
     pv \<leftarrow> get_node_prev L1 target;
     L2 \<leftarrow> put_prev node pv L1;
     pv' \<leftarrow> get_node_prev L2 target;
     L3 \<leftarrow> put_next pv' node L2;
     put_prev target node L3 }"

lemma link_mid_at:
  assumes rep: "lrep L (as @ [a, b] @ bs)" and new: "fresh_node L (as @ [a, b] @ bs) e"
  shows "\<exists>h. link_mid L (fst e) (fst b) = Some (L\<lparr>ls_nodes := h\<rparr>) \<and>
    dls h CPLUS_NULL (as @ [a, e, b] @ bs) CPLUS_NULL \<and> h CPLUS_NULL = None"
proof -
  have b: "ls_nodes L (fst b) = Some \<lparr>nd_data = snd b, nd_prev = fst a, nd_next = first_addr bs CPLUS_NULL\<rparr>"
    and a: "ls_nodes L (fst a) = Some \<lparr>nd_data = snd a, nd_prev = last_addr CPLUS_NULL as, nd_next = fst b\<rparr>"
    and ends: "dls (ls_nodes L) CPLUS_NULL as (fst a)" "dls (ls_nodes L) (fst b) bs CPLUS_NULL"
    using lrepD(1) [OF rep] by auto
  have ne: "fst a \<noteq> fst b" "fst e \<noteq> fst a" "fst e \<noteq> fst b"
    "fst a \<notin> fst ` set as" "fst b \<notin> fst ` set as" "fst e \<notin> fst ` set as"
    "fst a \<notin> fst ` set bs" "fst b \<notin> fst ` set bs" "fst e \<notin> fst ` set bs"
    "fst a \<noteq> CPLUS_NULL" "fst b \<noteq> CPLUS_NULL" "fst e \<noteq> CPLUS_NULL"
    using lrepD(2,3) [OF rep] new by (auto simp: fresh_node_def)
  show ?thesis
    using a b ne ends lrepD(11) [OF rep] new
    by (simp add: link_mid_def get_node_prev_def put_simps fresh_node_def)
      (intro exI conjI, rule refl, simp_all)
qed

lemma push_mid_at:
  assumes rep: "lrep L (as @ [a, b] @ bs)" and cur: "cur_at L (as @ [a, b] @ bs) i"
    and new: "fresh_node L (as @ [a, b] @ bs) e" and len: "length (as @ [a, b] @ bs) < 2 ^ 31 - 1"
  defines "es \<equiv> as @ [a, e, b] @ bs" and "k \<equiv> Suc (length as)"
  shows "\<exists>L'. push_at L (int k) (fst e) = Some (Inr (), L') \<and> pushed L es L' \<and>
    ls_cur_index L' = int k \<and> ls_current L' = cell_after L (as @ [a, b] @ bs) k"
proof -
  let ?all = "as @ [a, b] @ bs"
  have k: "k < length ?all" "?all ! k = b" "int k \<noteq> 0" "int k \<noteq> int (length ?all)"
    by (simp_all add: k_def nth_append)
  let ?L0 = "move_to L (cell_after L ?all k) (int k)"
  have node: "get_node_of L (int k) = Some (fst b, ?L0)"
    using get_node_of_at(1) [OF rep cur k(1)] k(2) by simp
  have rep0: "lrep ?L0 ?all" using rep by simp
  have new0: "fresh_node ?L0 ?all e" using new by (simp add: fresh_node_def)
  from link_mid_at [OF rep0 new0] obtain h where
    lnk: "link_mid ?L0 (fst e) (fst b) = Some (?L0\<lparr>ls_nodes := h\<rparr>)"
    and h: "dls h CPLUS_NULL es CPLUS_NULL" "h CPLUS_NULL = None"
    unfolding es_def by blast
  note D = lrepD [OF rep]
  have b: "fst b \<noteq> CPLUS_NULL" using entry_not_null [OF rep k(1)] k(2) by simp
  have ne: "\<not> is_empty L" using count_simps(2) [OF rep] by simp
  have size: "get_size L \<noteq> word_of_int (int k)"
    using count_simps(4) [OF rep, of "int k"] k by auto
  have cnt: "ls_count L + 1 = of_nat (length es)" using D(8) by (simp add: es_def)
  have mid: "do {
       L1 \<leftarrow> put_next (fst e) (fst b) ?L0; pv \<leftarrow> get_node_prev L1 (fst b);
       L2 \<leftarrow> put_prev (fst e) pv L1; pv' \<leftarrow> get_node_prev L2 (fst b);
       L3 \<leftarrow> put_next pv' (fst e) L2; L4 \<leftarrow> put_prev (fst b) (fst e) L3;
       Some (Inr () :: unit cresult, L4) } = Some (Inr (), ?L0\<lparr>ls_nodes := h\<rparr>)"
    using lnk by (auto simp: link_mid_def bind_eq_Some_conv)
  let ?L' = "?L0\<lparr>ls_nodes := h, ls_count := of_nat (length es)\<rparr>"
  have "push_at L (int k) (fst e) = Some (Inr (), ?L')"
    unfolding push_at_def using k(3) ne size b mid cnt
    by (simp only: if_False node Option.bind.bind_lunit prod.case) (simp add: cnt)
  moreover have "lrep ?L' es"
  proof -
    have a: "fst e \<notin> fst ` set ?all" "snd e \<noteq> CPLUS_NULL" "fst e \<noteq> CPLUS_NULL"
      "fst e \<in> store_live (store_of L)"
      using new by (auto simp: fresh_node_def)
    have "distinct (map fst es)" using D(2) a(1) by (auto simp: es_def)
    moreover have "fst ` set es = insert (fst e) (fst ` set ?all)"
      "snd ` set es = insert (snd e) (snd ` set ?all)" by (auto simp: es_def)
    moreover have "first_addr es CPLUS_NULL = first_addr ?all CPLUS_NULL"
      "last_addr CPLUS_NULL es = last_addr CPLUS_NULL ?all" "length es < 2 ^ 31"
      using len by (simp_all add: es_def)
    ultimately show ?thesis
      using D(3-6,9,10) h a(2-4) unfolding lrep_def by (simp add: store_of_def)
  qed
  ultimately show ?thesis by (auto simp: pushed_def store_of_def)
qed

section \<open>Inserting and removing at an index\<close>

text \<open>
  The index is an end of the list, or the cursor reaches it without ever having moved
  backwards: then the cursor is still in step after an insertion or removal there.
\<close>

definition cursor_safe :: "linked_list \<Rightarrow> nat \<Rightarrow> nat \<Rightarrow> bool" where
  "cursor_safe L n k \<longleftrightarrow> k = 0 \<or> k = n \<or> forward (ls_current L) \<and> ls_cur_index L \<le> int k"

lemma split_pair:
  assumes "Suc j < length es"
  obtains as a b bs where "es = as @ [a, b] @ bs" "length as = j"
proof
  show "es = take j es @ [es ! j, es ! Suc j] @ drop (Suc (Suc j)) es" "length (take j es) = j"
    using assms by (simp_all add: Cons_nth_drop_Suc)
qed

lemma cell_stays:
  assumes "cell_at es k c" "forward c" "0 < k" "take k es' = take k es" "k \<le> length es'"
  shows "cell_at es' k c"
proof (cases c)
  case (Cell_next p)
  then have "p = fst (es ! (k - 1))" using assms(1) by simp
  moreover have "es' ! (k - 1) = es ! (k - 1)"
    using arg_cong [OF assms(4), of "\<lambda>xs. xs ! (k - 1)"] assms(3) by simp
  ultimately show ?thesis using Cell_next assms(3,5) by simp
qed (use assms in auto)

lemma mid_synced:
  assumes rep: "lrep L es" and cur: "cur_at L es i" and k: "0 < k" "k < length es"
    and safe: "cursor_safe L (length es) k"
    and after: "ls_cur_index L' = int k" "ls_current L' = cell_after L es k"
    and same: "take k es' = take k es" "k < length es'"
  shows "synced L' es'"
proof -
  have at: "cell_at es k (cell_after L es k)" by (rule get_node_of_at(2) [OF rep cur k(2)])
  have "int k > ls_cur_index L \<or> int k = ls_cur_index L \<and> forward (ls_current L)"
    using safe k by (auto simp: cursor_safe_def)
  then have fw: "forward (cell_after L es k)" using get_node_of_at(3) [OF rep cur k(2)] by blast
  have "cell_at es' k (cell_after L es k)"
    using same(2) by (intro cell_stays [OF at fw k(1) same(1)]) simp
  then have "cur_at L' es' k" using after same(2) by (simp add: cur_at_def)
  then show ?thesis using fw after(2) by (auto simp only: synced_def cur_ok_def)
qed

lemma push_at_index:
  assumes rep: "lrep L es" and cur: "cur_ok L es" and k: "k \<le> length es"
    and new: "fresh_node L es e" and len: "length es < 2 ^ 31 - 1"
  shows "\<exists>L'. push_at L (int k) (fst e) = Some (Inr (), L') \<and>
    pushed L (take k es @ e # drop k es) L' \<and>
    (cursor_safe L (length es) k \<longrightarrow> synced L' (take k es @ e # drop k es))"
proof -
  consider "k = 0" | "k = length es" "k \<noteq> 0" | j where "k = Suc j" "Suc j < length es"
    using k by (metis le_less not0_implies_Suc)
  then show ?thesis
  proof cases
    case 1
    with push_front_at [OF rep new len] show ?thesis by (auto intro: at_head_synced)
  next
    case 2
    with push_back_at [OF rep new len] show ?thesis by (auto intro: at_head_synced)
  next
    case (3 j)
    obtain i where i: "cur_at L es i" using cur by (auto simp: cur_ok_def)
    obtain as a b bs where es: "es = as @ [a, b] @ bs" "length as = j"
      using 3(2) by (rule split_pair)
    have ins: "take k es @ e # drop k es = as @ [a, e, b] @ bs" and k': "k = Suc (length as)"
      using es 3(1) by simp_all
    obtain L' where L': "push_at L (int k) (fst e) = Some (Inr (), L')"
      "pushed L (take k es @ e # drop k es) L'" "ls_cur_index L' = int k"
      "ls_current L' = cell_after L es k"
      using push_mid_at [OF rep [unfolded es(1)] i [unfolded es(1)] new [unfolded es(1)]
          len [unfolded es(1)]]
      unfolding ins es(1) [symmetric] k' [symmetric] by blast
    have "synced L' (take k es @ e # drop k es)" if "cursor_safe L (length es) k"
      using 3 k that by (intro mid_synced [OF rep i _ _ _ L'(3,4)]) auto
    with L' show ?thesis by blast
  qed
qed

text \<open>
  The element that \<open>cplus_llist_pop_of\<close> takes out for an index: \<open>index = size\<close> means the last
  one.  The index \<open>size - 1\<close> of a list of two or more is not \<open>poppable\<close>.
\<close>

definition poppable :: "nat \<Rightarrow> nat \<Rightarrow> nat \<Rightarrow> bool" where
  "poppable n idx j \<longleftrightarrow> j < n \<and> (idx = j \<and> (j = 0 \<or> Suc j < n) \<or> idx = n \<and> Suc j = n)"

definition remove_at :: "nat \<Rightarrow> 'a list \<Rightarrow> 'a list" where
  "remove_at j xs = take j xs @ drop (Suc j) xs"

definition insert_at :: "nat \<Rightarrow> 'a \<Rightarrow> 'a list \<Rightarrow> 'a list" where
  "insert_at k x xs = take k xs @ x # drop k xs"

lemma map_remove_at: "map f (remove_at j xs) = remove_at j (map f xs)"
  by (simp add: remove_at_def take_map drop_map)

lemma map_insert_at: "map f (insert_at k x xs) = insert_at k (f x) (map f xs)"
  by (simp add: insert_at_def take_map drop_map)

lemma split_triple:
  assumes "0 < j" "Suc j < length es"
  obtains as a e b bs where "es = as @ [a, e, b] @ bs" "Suc (length as) = j" "e = es ! j"
proof
  obtain i where j: "j = Suc i" using assms(1) by (cases j) auto
  then show "es = take (j - 1) es @ [es ! (j - 1), es ! j, es ! Suc j] @ drop (Suc (Suc j)) es"
    "Suc (length (take (j - 1) es)) = j" "es ! j = es ! j"
    using assms by (simp_all add: Cons_nth_drop_Suc)
qed

lemma pop_at_index:
  assumes rep: "lrep L es" and cur: "cur_ok L es" and p: "poppable (length es) idx j"
  shows "\<exists>L'. pop_of L (int idx) = Some (Inr (fst (es ! j)), L') \<and>
    popped L (remove_at j es) (es ! j) L' \<and>
    (cursor_safe L (length es) idx \<longrightarrow> synced L' (remove_at j es))"
proof -
  consider "idx = 0" "j = 0" "es \<noteq> []" | "idx = Suc j" "Suc j = length es"
    | "idx = j" "0 < j" "Suc j < length es"
    using p by (cases "es = []") (auto simp: poppable_def)
  then show ?thesis
  proof cases
    case 1
    then obtain e es' where es: "es = e # es'" by (cases es) auto
    with pop_front_at [of L e es'] rep 1 show ?thesis
      by (auto simp: remove_at_def intro: at_head_synced)
  next
    case 2
    then obtain e es' where es: "es = es' @ [e]" by (cases es rule: rev_cases) auto
    with pop_back_at [of L es' e] rep 2 show ?thesis
      by (auto simp: remove_at_def intro: at_head_synced)
  next
    case 3
    obtain i where i: "cur_at L es i" using cur by (auto simp: cur_ok_def)
    obtain as a e b bs where es: "es = as @ [a, e, b] @ bs" "Suc (length as) = j" "e = es ! j"
      using 3(2,3) by (rule split_triple)
    have rem: "remove_at j es = as @ [a, b] @ bs"
      using es(1) by (simp add: remove_at_def flip: es(2))
    obtain L' where L': "pop_of L (int j) = Some (Inr (fst e), L')"
      "popped L (remove_at j es) e L'" "ls_cur_index L' = int j"
      "ls_current L' = cell_after L es j"
      using pop_mid_at [OF rep [unfolded es(1)] i [unfolded es(1)]]
      unfolding rem es(1) [symmetric] es(2) by blast
    have "take j (remove_at j es) = take j es" "j < length (remove_at j es)"
      using 3 by (auto simp: remove_at_def)
    then have "synced L' (remove_at j es)" if "cursor_safe L (length es) idx"
      using 3 that by (intro mid_synced [OF rep i _ _ _ L'(3,4)]) auto
    with L' 3 es(3) show ?thesis by blast
  qed
qed

section \<open>The interface\<close>

lemma cur_ok_new_node:
  "\<lbrakk>ls_current L1 = ls_current L; ls_cur_index L1 = ls_cur_index L\<rbrakk> \<Longrightarrow> cur_ok L1 es = cur_ok L es"
  by (simp add: cur_ok_def cur_at_def)

lemma synced_free_node:
  "\<lbrakk>lrep L es; detached L es a d; synced L es\<rbrakk> \<Longrightarrow> synced (free_node L a) es"
  by (simp add: synced_def cur_ok_def cur_at_def free_node_ok)

text \<open>Pushing: the allocation decides between the two outcomes.\<close>

lemma llist_push_at_step:
  assumes rep: "lrep L es" and cur: "cur_ok L es" and d: "d \<noteq> CPLUS_NULL"
    and k: "k \<le> length es" and len: "length es < 2 ^ 31 - 1"
  shows "case store_alloc (store_of L) of
      (Inl e, s) \<Rightarrow> \<exists>L'. cplus_llist_push_at L (int k) d = Some (Inl ENOMEM, L') \<and> lrep L' es \<and>
        store_of L' = s \<and> cur_ok L' es \<and> (synced L es \<longrightarrow> synced L' es) \<and>
        ls_sort_count L' = ls_sort_count L
    | (Inr a, s) \<Rightarrow> \<exists>L'. cplus_llist_push_at L (int k) d = Some (Inr (), L') \<and>
        lrep L' (insert_at k (a, d) es) \<and> store_of L' = s \<and>
        (cursor_safe L (length es) k \<longrightarrow> synced L' (insert_at k (a, d) es)) \<and>
        ls_sort_count L' = ls_sort_count L"
proof -
  obtain r s where alloc: "store_alloc (store_of L) = (r, s)" by (rule prod.exhaust)
  have idx: "\<not> (0 > int k \<or> int k > sint (cplus_llist_get_size L))"
    using k count_simps(3) [OF rep] by simp
  show ?thesis
  proof (cases r)
    case (Inl e)
    let ?L1 = "L\<lparr>ls_pool := fst s, ls_heap := snd s\<rparr>"
    have new: "new_node L d = (Inl ENOMEM, ?L1)"
      using alloc Inl by (auto simp: new_node_def store_of_def Let_def split: prod.split)
    have "cplus_llist_push_at L (int k) d = Some (Inl ENOMEM, ?L1)"
      using d idx new by (simp add: cplus_llist_push_at_def)
    moreover have "synced ?L1 es" if "synced L es"
      using that by (simp add: synced_def cur_ok_def cur_at_def)
    ultimately show ?thesis
      using new_node_fail(1) [OF rep new] cur alloc Inl
      by (simp add: store_of_def cur_ok_def cur_at_def)
  next
    case (Inr a)
    obtain L1 where new: "new_node L d = (Inr a, L1)" and s: "store_of L1 = s"
      using alloc Inr by (cases s) (auto simp: new_node_def store_of_def Let_def)
    note N = new_node_ok [OF rep new]
    have fresh: "fresh_node L1 es (a, d)" using N d by (simp add: fresh_node_def)
    have cur1: "cur_ok L1 es" using cur cur_ok_new_node [OF N(6,7)] by blast
    from push_at_index [OF N(1) cur1 k fresh len] obtain L' where
      L': "push_at L1 (int k) a = Some (Inr (), L')" "pushed L1 (insert_at k (a, d) es) L'"
        "cursor_safe L1 (length es) k \<longrightarrow> synced L' (insert_at k (a, d) es)"
      unfolding insert_at_def by auto
    have "cplus_llist_push_at L (int k) d = Some (Inr (), L')"
      using d idx new L'(1) by (simp add: cplus_llist_push_at_def)
    moreover have "cursor_safe L1 (length es) k = cursor_safe L (length es) k"
      using N(6,7) by (simp add: cursor_safe_def)
    ultimately show ?thesis
      using alloc Inr L' s N(8) by (simp add: pushed_def)
  qed
qed

lemma llist_pop_of_step:
  assumes rep: "lrep L es" and cur: "cur_ok L es" and p: "poppable (length es) idx j"
  shows "\<exists>L'. cplus_llist_pop_of L (int idx) = Some (Inr (snd (es ! j)), L') \<and>
    lrep L' (remove_at j es) \<and> store_of L' = store_free (store_of L) (fst (es ! j)) \<and>
    (cursor_safe L (length es) idx \<longrightarrow> synced L' (remove_at j es)) \<and>
    ls_sort_count L' = ls_sort_count L"
proof -
  from pop_at_index [OF assms] obtain L1 where
    L1: "pop_of L (int idx) = Some (Inr (fst (es ! j)), L1)" "popped L (remove_at j es) (es ! j) L1"
      "cursor_safe L (length es) idx \<longrightarrow> synced L1 (remove_at j es)"
    by blast
  let ?a = "fst (es ! j)" and ?L' = "free_node L1 (fst (es ! j))"
  have rep1: "lrep L1 (remove_at j es)" and det: "detached L1 (remove_at j es) ?a (snd (es ! j))"
    and same: "store_of L1 = store_of L" "ls_sort_count L1 = ls_sort_count L"
    using L1(2) by (auto simp: popped_def)
  have idx: "\<not> (0 > int idx \<or> int idx > sint (cplus_llist_get_size L))"
    using p count_simps(3) [OF rep] by (auto simp: poppable_def)
  have "cplus_llist_pop_of L (int idx) = Some (Inr (snd (es ! j)), ?L')"
    using idx L1(1) det by (simp add: cplus_llist_pop_of_def take_data_def detached_def)
  moreover have "store_of ?L' = store_free (store_of L) ?a"
    using det same by (auto simp: free_node_def detached_def store_of_def split: prod.split)
  ultimately show ?thesis
    using free_node_ok(1,5) [OF rep1 det] synced_free_node [OF rep1 det] L1(3) same(2) by auto
qed

lemma llist_pop_empty:
  assumes "lrep L []"
  shows "cplus_llist_pop_of L 0 = Some (Inl ENOENT, L)"
  using count_simps(2,3) [OF assms]
  by (simp add: cplus_llist_pop_of_def pop_of_def take_data_def)

lemma llist_get_of_step:
  assumes rep: "lrep L es" and cur: "cur_ok L es" and k: "k < length es"
  shows "\<exists>L'. cplus_llist_get_of L (int k) = Some (Inr (snd (es ! k)), L') \<and> lrep L' es \<and>
    cur_at L' es k \<and> store_of L' = store_of L \<and>
    (forward (ls_current L) \<and> ls_cur_index L \<le> int k \<longrightarrow> synced L' es) \<and>
    (ls_cur_index L < int k \<longrightarrow> synced L' es)"
proof -
  obtain i where i: "cur_at L es i" using cur by (auto simp: cur_ok_def)
  let ?L1 = "move_to L (cell_after L es k) (int k)"
  note G = get_node_of_at [OF rep i k]
  have rep1: "lrep ?L1 es" using rep by simp
  have at: "cur_at ?L1 es k" using G(2) k by (simp add: cur_at_def)
  have "es \<noteq> []" using k by auto
  then have "\<not> (0 > int k \<or> int k > sint (cplus_llist_get_size L - 1))"
    using k count_simps(5) [OF rep] by simp
  then have "cplus_llist_get_of L (int k) = Some (Inr (snd (es ! k)), ?L1)"
    using G(1) entry_not_null [OF rep k] node_at(1) [OF rep1 k] by (simp add: cplus_llist_get_of_def)
  moreover have "(forward (ls_current L) \<and> ls_cur_index L \<le> int k \<longrightarrow> synced ?L1 es) \<and>
      (ls_cur_index L < int k \<longrightarrow> synced ?L1 es)"
    using G(3) at by (auto simp: synced_def cur_ok_def)
  ultimately show ?thesis using rep1 at by auto
qed

section \<open>A concrete list\<close>

text \<open>Three heap nodes at the addresses 16, 32 and 48 with the data 9, 7 and 8.\<close>

definition example_llist :: linked_list where
  "example_llist = \<lparr>ls_obj = 8, ls_count = 3, ls_sort_count = 0, ls_cur_index = 0, ls_pool = None,
     ls_pool_obj = CPLUS_NULL, ls_lock = CPLUS_NULL, ls_head = 16, ls_tail = 48,
     ls_current = Cell_head,
     ls_nodes = [16 \<mapsto> \<lparr>nd_data = 9, nd_prev = 0, nd_next = 32\<rparr>,
       32 \<mapsto> \<lparr>nd_data = 7, nd_prev = 16, nd_next = 48\<rparr>,
       48 \<mapsto> \<lparr>nd_data = 8, nd_prev = 32, nd_next = 0\<rparr>],
     ls_heap = \<lparr>mh_live = [8, 16, 32, 48], mh_pick = (\<lambda>used. if 64 \<in> set used then 0 else 64)\<rparr>\<rparr>"

abbreviation example_entries :: "entry list" where
  "example_entries \<equiv> [(16, 9), (32, 7), (48, 8)]"

lemma example_llist_rep: "lrep example_llist example_entries"
  by (simp add: lrep_def example_llist_def store_of_def store_ok_def store_live_def mheap_inv_def
      malloc_law_def)

lemma example_llist_synced: "synced example_llist example_entries"
  by (rule at_head_synced) (simp add: at_head_def example_llist_def)

lemma example_llist_cur_ok: "cur_ok example_llist example_entries"
  using example_llist_synced by (simp add: synced_def)

lemma example_llist_alloc:
  "\<exists>s. store_alloc (store_of example_llist) = (Inr 64, s)"
  by (simp add: store_alloc_def store_of_def example_llist_def cplus_mgr_malloc_def)

end
