(* ===== verification/Llist_Deque.thy ===== *)
theory Llist_Deque
  imports Llist_Ops
begin

text \<open>
  A list created by \<open>cplus_llist_prev_new(n)\<close> and used from its two ends is a double-ended
  queue of capacity \<open>n\<close>.  The abstract queue is a HOL list; the simulation joins the free list
  of the pool (theory Mempool) to the links of the nodes (theory Llist_Rep).
\<close>

section \<open>Specification\<close>

datatype deque_op = Push_front ptr | Push_back ptr | Pop_front | Pop_back

text \<open>A push gives \<open>Inr None\<close>, a pop \<open>Inr (Some d)\<close>, a failing call its errno.\<close>

type_synonym deque_result = "ptr option cresult"

fun spec_op :: "nat \<Rightarrow> deque_op \<Rightarrow> ptr list \<Rightarrow> deque_result \<times> ptr list" where
  "spec_op cap (Push_front d) xs =
     (if d = CPLUS_NULL then (Inl EINVAL, xs)
      else if length xs < cap then (Inr None, d # xs) else (Inl ENOMEM, xs))"
| "spec_op cap (Push_back d) xs =
     (if d = CPLUS_NULL then (Inl EINVAL, xs)
      else if length xs < cap then (Inr None, xs @ [d]) else (Inl ENOMEM, xs))"
| "spec_op cap Pop_front [] = (Inl ENOENT, [])"
| "spec_op cap Pop_front (x # xs) = (Inr (Some x), xs)"
| "spec_op cap Pop_back [] = (Inl ENOENT, [])"
| "spec_op cap Pop_back (x # xs) = (Inr (Some (last (x # xs))), butlast (x # xs))"

primrec spec_run :: "nat \<Rightarrow> deque_op list \<Rightarrow> ptr list \<Rightarrow> deque_result list \<times> ptr list" where
  "spec_run cap [] xs = ([], xs)"
| "spec_run cap (op # ops) xs =
     (case spec_op cap op xs of (r, xs') \<Rightarrow>
        (case spec_run cap ops xs' of (rs, xs'') \<Rightarrow> (r # rs, xs'')))"

section \<open>The same operations on the linked list\<close>

fun llist_op :: "deque_op \<Rightarrow> linked_list \<Rightarrow> (deque_result \<times> linked_list) option" where
  "llist_op (Push_front d) L =
     map_option (map_prod (map_sum id (\<lambda>_. None)) id) (cplus_llist_push_front L d)"
| "llist_op (Push_back d) L =
     map_option (map_prod (map_sum id (\<lambda>_. None)) id) (cplus_llist_push_back L d)"
| "llist_op Pop_front L = map_option (map_prod (map_sum id Some) id) (cplus_llist_pop_front L)"
| "llist_op Pop_back L = map_option (map_prod (map_sum id Some) id) (cplus_llist_pop_back L)"

primrec llist_run :: "deque_op list \<Rightarrow> linked_list \<Rightarrow> (deque_result list \<times> linked_list) option" where
  "llist_run [] L = Some ([], L)"
| "llist_run (op # ops) L = do {
     (r, L1) \<leftarrow> llist_op op L;
     (rs, L2) \<leftarrow> llist_run ops L1;
     Some (r # rs, L2) }"

section \<open>Simulation\<close>

text \<open>The list holds \<open>es\<close>, and pool blocks and elements add up to the capacity.\<close>

definition deque_rep :: "nat \<Rightarrow> linked_list \<Rightarrow> entry list \<Rightarrow> bool" where
  "deque_rep cap L es \<longleftrightarrow> lrep L es \<and> synced L es \<and> cap < 2 ^ 30 \<and>
     (\<exists>mp. ls_pool L = Some mp \<and> length (free_blocks mp) + length es = cap)"

lemma deque_repD:
  assumes "deque_rep cap L es"
  obtains mp where "lrep L es" "synced L es" "cur_ok L es" "cap < 2 ^ 30" "ls_pool L = Some mp"
    "mp_ok mp" "length (free_blocks mp) + length es = cap" "length es \<le> cap" "length es < 2 ^ 31 - 1"
  using assms lrepD(9) [of L es]
  by (auto simp: deque_rep_def synced_def store_of_def store_ok_def)

lemma store_alloc_pool:
  assumes "mp_ok mp" "ls_pool L = Some mp"
  shows "case free_blocks mp of
      [] \<Rightarrow> \<exists>mp'. store_alloc (store_of L) = (Inl ENOMEM, (Some mp', ls_heap L)) \<and> free_blocks mp' = []
    | i # is \<Rightarrow> \<exists>a mp'. store_alloc (store_of L) = (Inr a, (Some mp', ls_heap L)) \<and>
        free_blocks mp' = is"
  using mempool_alloc_step [OF assms(1)] assms(2)
  by (auto simp: store_alloc_def store_of_def split: list.splits prod.splits)

lemma store_free_pool:
  assumes "mp_ok mp" "ls_pool L = Some mp" "a \<in> store_live (store_of L)"
  shows "\<exists>mp'. store_free (store_of L) a = (Some mp', ls_heap L) \<and>
    length (free_blocks mp') = Suc (length (free_blocks mp))"
  using mempool_free_step [OF assms(1), of a] assms(2,3)
  by (auto simp: store_free_def store_of_def store_live_def split: prod.splits)

lemma deque_push:
  assumes rep: "deque_rep cap L es" and d: "d \<noteq> CPLUS_NULL" and k: "k = 0 \<or> k = length es"
  shows "\<exists>L'. if length es < cap
    then \<exists>a. cplus_llist_push_at L (int k) d = Some (Inr (), L') \<and> deque_rep cap L' (insert_at k (a, d) es)
    else cplus_llist_push_at L (int k) d = Some (Inl ENOMEM, L') \<and> deque_rep cap L' es"
proof -
  from rep obtain mp where R: "lrep L es" "synced L es" "cur_ok L es" "cap < 2 ^ 30"
    "ls_pool L = Some mp" "mp_ok mp" "length (free_blocks mp) + length es = cap"
    "length es < 2 ^ 31 - 1"
    by (rule deque_repD)
  have k': "k \<le> length es" "cursor_safe L (length es) k" using k by (auto simp: cursor_safe_def)
  note step = llist_push_at_step [OF R(1,3) d k'(1) R(8)]
  show ?thesis
  proof (cases "free_blocks mp")
    case Nil
    then show ?thesis using store_alloc_pool [OF R(6,5)] step R
      by (auto simp: deque_rep_def store_of_def)
  next
    case (Cons i "is")
    then obtain a mp' where "store_alloc (store_of L) = (Inr a, (Some mp', ls_heap L))" "free_blocks mp' = is"
      using store_alloc_pool [OF R(6,5)] by auto
    moreover have "length (insert_at k (a, d) es) = Suc (length es)"
      using k' by (simp add: insert_at_def)
    ultimately show ?thesis using step R Cons k'
      by (auto simp: deque_rep_def store_of_def)
  qed
qed

lemma deque_pop:
  assumes rep: "deque_rep cap L es" and p: "poppable (length es) idx j"
    and safe: "cursor_safe L (length es) idx"
  shows "\<exists>L'. cplus_llist_pop_of L (int idx) = Some (Inr (snd (es ! j)), L') \<and>
    deque_rep cap L' (remove_at j es)"
proof -
  from rep obtain mp where R: "lrep L es" "synced L es" "cur_ok L es" "cap < 2 ^ 30"
    "ls_pool L = Some mp" "mp_ok mp" "length (free_blocks mp) + length es = cap"
    by (rule deque_repD)
  have j: "j < length es" using p by (simp add: poppable_def)
  then have "fst (es ! j) \<in> store_live (store_of L)" using lrepD(10) [OF R(1)] by auto
  then obtain mp' where "store_free (store_of L) (fst (es ! j)) = (Some mp', ls_heap L)"
    "length (free_blocks mp') = Suc (length (free_blocks mp))"
    using store_free_pool [OF R(6,5)] by blast
  moreover have "Suc (length (remove_at j es)) = length es" using j by (simp add: remove_at_def)
  ultimately show ?thesis
    using llist_pop_of_step [OF R(1,3) p] R safe by (auto simp: deque_rep_def store_of_def)
qed

lemma insert_at_ends [simp]:
  "insert_at 0 x xs = x # xs" "insert_at (length xs) x xs = xs @ [x]"
  by (simp_all add: insert_at_def)

lemma remove_at_ends [simp]:
  "remove_at 0 xs = tl xs" "remove_at (length xs - Suc 0) xs = butlast xs"
  by (cases xs; simp add: remove_at_def butlast_conv_take)+

lemma deque_step:
  assumes rep: "deque_rep cap L es"
  shows "\<exists>L' es'. llist_op op L = Some (fst (spec_op cap op (map snd es)), L') \<and>
    deque_rep cap L' es' \<and> map snd es' = snd (spec_op cap op (map snd es))"
proof -
  obtain mp where R: "lrep L es" "length es \<le> cap" using rep by (rule deque_repD)
  have size: "sint (cplus_llist_get_size L) = int (length es)" by (rule count_simps(3) [OF R(1)])
  have push: "\<exists>L' es'. map_option (map_prod (map_sum id (\<lambda>_. None)) id) (cplus_llist_push_at L (int k) d) =
        Some (fst r, L') \<and> deque_rep cap L' es' \<and> map snd es' = snd r"
    if k: "k = 0 \<or> k = length es"
      and r: "r = (if d = CPLUS_NULL then (Inl EINVAL, map snd es)
        else if length es < cap then (Inr None :: deque_result, insert_at k d (map snd es))
        else (Inl ENOMEM, map snd es))" for k d r
  proof (cases "d = CPLUS_NULL")
    case True
    then show ?thesis using rep r by (auto simp: cplus_llist_push_at_def)
  next
    case False
    show ?thesis
    proof (cases "length es < cap")
      case True
      obtain L' a where "cplus_llist_push_at L (int k) d = Some (Inr (), L')"
        "deque_rep cap L' (insert_at k (a, d) es)"
        using deque_push [OF rep False k] True by auto
      then show ?thesis using False True r
        by (intro exI [of _ L'] exI [of _ "insert_at k (a, d) es"]) (simp add: map_insert_at)
    next
      case full: False
      then show ?thesis using deque_push [OF rep False k] False r by auto
    qed
  qed
  have pop: "\<exists>L' es'. map_option (map_prod (map_sum id Some) id) (cplus_llist_pop_of L (int idx)) =
        Some (fst r, L') \<and> deque_rep cap L' es' \<and> map snd es' = snd r"
    if ends: "idx = 0 \<and> j = 0 \<or> idx = length es \<and> j = length es - 1"
      and r: "r = (if es = [] then (Inl ENOENT :: deque_result, [])
        else (Inr (Some (map snd es ! j)), remove_at j (map snd es)))" for idx j r
  proof (cases "es = []")
    case True
    then show ?thesis using ends r rep llist_pop_empty [of L] R(1) by auto
  next
    case False
    then have p: "poppable (length es) idx j" "cursor_safe L (length es) idx" "j < length es"
      using ends by (auto simp: poppable_def cursor_safe_def)
    obtain L' where "cplus_llist_pop_of L (int idx) = Some (Inr (snd (es ! j)), L')"
      "deque_rep cap L' (remove_at j es)"
      using deque_pop [OF rep p(1,2)] by blast
    then show ?thesis using False p(3) r
      by (intro exI [of _ L'] exI [of _ "remove_at j es"]) (simp add: map_remove_at)
  qed
  show ?thesis
  proof (cases op)
    case (Push_front d)
    have "spec_op cap op (map snd es) = (if d = CPLUS_NULL then (Inl EINVAL, map snd es)
        else if length es < cap then (Inr None, insert_at 0 d (map snd es))
        else (Inl ENOMEM, map snd es))"
      by (simp add: Push_front)
    from push [OF _ this] show ?thesis by (simp add: Push_front cplus_llist_push_front_def)
  next
    case (Push_back d)
    have "spec_op cap op (map snd es) = (if d = CPLUS_NULL then (Inl EINVAL, map snd es)
        else if length es < cap then (Inr None, insert_at (length es) d (map snd es))
        else (Inl ENOMEM, map snd es))"
      using insert_at_ends(2) [of "map snd es"] by (simp add: Push_back)
    from push [OF _ this] show ?thesis by (simp add: Push_back cplus_llist_push_back_def size)
  next
    case Pop_front
    have "spec_op cap op (map snd es) = (if es = [] then (Inl ENOENT, [])
        else (Inr (Some (map snd es ! 0)), remove_at 0 (map snd es)))"
      by (cases es) (simp_all add: Pop_front)
    from pop [OF _ this, of 0] show ?thesis by (simp add: Pop_front cplus_llist_pop_front_def)
  next
    case Pop_back
    have "spec_op cap op (map snd es) = (if es = [] then (Inl ENOENT, [])
        else (Inr (Some (map snd es ! (length es - 1))), remove_at (length es - 1) (map snd es)))"
      using remove_at_ends(2) [of "map snd es"]
      by (cases es) (simp_all add: Pop_back last_conv_nth)
    from pop [OF _ this, of "length es"] show ?thesis
      by (simp add: Pop_back cplus_llist_pop_back_def size)
  qed
qed

lemma deque_run:
  "deque_rep cap L es \<Longrightarrow>
     \<exists>L' es'. llist_run ops L = Some (fst (spec_run cap ops (map snd es)), L') \<and>
       deque_rep cap L' es' \<and> map snd es' = snd (spec_run cap ops (map snd es))"
proof (induction ops arbitrary: L es)
  case Nil
  then show ?case by auto
next
  case (Cons op ops)
  obtain L1 es1 where step: "llist_op op L = Some (fst (spec_op cap op (map snd es)), L1)"
    "deque_rep cap L1 es1" "map snd es1 = snd (spec_op cap op (map snd es))"
    using deque_step [OF Cons.prems] by blast
  from Cons.IH [OF step(2)] show ?case using step(1,3) by (auto split: prod.splits)
qed

text \<open>What a successful creation with a pool gives.\<close>

lemma prev_new_deque_rep:
  assumes new: "cplus_llist_prev_new heap nodes pobj mal mem0 n = (Inr L, h)" and n: "0 < n"
    and mal: "\<And>m. mal m = CPLUS_NULL \<or> unat (mal m) + unat m \<le> 2 ^ 64"
    and nodes: "nodes CPLUS_NULL = None"
  shows "deque_rep (unat n) L []"
proof -
  have small: "n \<le> 1048576" using new
    by (auto simp: cplus_llist_prev_new_def MAX_NODE_COUNT_def not_less split: if_splits)
  then have size: "unat n * unat (24 :: u32) < 2 ^ 32" "unat n < 2 ^ 30"
    by (simp_all add: word_le_nat_alt)
  obtain mp where mp: "cplus_mempool_new pobj mal mem0 n 24 = Inr mp" and L: "ls_pool L = Some mp"
    "ls_current L = Cell_head" "ls_cur_index L = 0" "ls_head L = CPLUS_NULL" "ls_tail L = CPLUS_NULL"
    "ls_nodes L = nodes" "ls_count L = 0"
    using new n by (auto simp: cplus_llist_prev_new_def llist_initialize_object_def Let_def
        split: if_splits prod.splits sum.splits)
  have pool: "mp_ok mp" "free_blocks mp = map of_nat [0..<unat n]"
    using mempool_new_ok [OF mp size(1) mal] by auto
  have "lrep L []" using L pool(1) nodes by (simp add: lrep_def store_of_def store_ok_def)
  moreover have "synced L []" using L by (intro at_head_synced) (simp add: at_head_def)
  ultimately show ?thesis using L pool(2) size(2) by (simp add: deque_rep_def)
qed

text \<open>
  C1. A list pre-allocated for \<open>n\<close> nodes and used through \<open>push_front\<close>, \<open>push_back\<close>,
  \<open>pop_front\<close> and \<open>pop_back\<close> behaves, for every sequence of calls, as a double-ended queue of
  capacity \<open>n\<close>: every call returns (no null or dangling pointer is followed), with the
  result of the abstract queue; a push fails with ENOMEM exactly when the queue is full, a pop
  with ENOENT exactly when it is empty, so that no node is ever lost.
\<close>

theorem llist_prev_new_is_bounded_deque:
  assumes "cplus_llist_prev_new heap nodes pobj mal mem0 n = (Inr L, h)" and "0 < n"
    and "\<And>m. mal m = CPLUS_NULL \<or> unat (mal m) + unat m \<le> 2 ^ 64"
    and "nodes CPLUS_NULL = None"
  shows "\<exists>L'. llist_run ops L = Some (fst (spec_run (unat n) ops []), L') \<and>
    contents L' (snd (spec_run (unat n) ops []))"
proof -
  have "deque_rep (unat n) L []" using assms by (rule prev_new_deque_rep)
  from deque_run [OF this, of ops] show ?thesis
    by (auto simp: contents_def deque_rep_def) metis
qed

definition example_heap :: mheap where
  "example_heap = \<lparr>mh_live = [], mh_pick = (\<lambda>used. if 64 \<in> set used then CPLUS_NULL else 64)\<rparr>"

lemma example_heap_inv: "mheap_inv example_heap"
  by (simp add: mheap_inv_def malloc_law_def example_heap_def)

lemma llist_prev_new_is_bounded_deque_witness:
  "\<exists>L h L'. cplus_llist_prev_new example_heap (\<lambda>_. None) 128 (\<lambda>_. 4096) (\<lambda>_. 0) 2 = (Inr L, h) \<and>
     llist_run [Push_back 7, Push_front 5, Push_back 9, Pop_back, Pop_back, Pop_front] L =
       Some ([Inr None, Inr None, Inl ENOMEM, Inr (Some 7), Inr (Some 5), Inl ENOENT], L')"
proof -
  obtain L h where new:
    "cplus_llist_prev_new example_heap (\<lambda>_. None) 128 (\<lambda>_. 4096) (\<lambda>_. 0) 2 = (Inr L, h)"
    by (simp add: cplus_llist_prev_new_def MAX_NODE_COUNT_def llist_initialize_object_def
        cplus_mgr_malloc_def example_heap_def cplus_mempool_new_def mempool_initialize_object_def)
  have "(4096 :: ptr) = CPLUS_NULL \<or> unat (4096 :: ptr) + unat m \<le> 2 ^ 64" for m :: u32
    using unat_u32_bound [of m] by simp
  from llist_prev_new_is_bounded_deque [OF new _ this,
      of "[Push_back 7, Push_front 5, Push_back 9, Pop_back, Pop_back, Pop_front]"]
  show ?thesis using new by auto
qed

end
