(* ===== verification/Llist_Search.thy ===== *)
theory Llist_Search
  imports Llist_Deque
begin

text \<open>
  The operations of \<^verbatim>\<open>src/llist.c\<close> that scan the list from its head: the loops share one shape,
  stated as a locale and interpreted for each of them.
\<close>

section \<open>The first match in a list\<close>

fun first_match :: "('a \<Rightarrow> bool) \<Rightarrow> 'a list \<Rightarrow> nat option" where
  "first_match P [] = None"
| "first_match P (x # xs) = (if P x then Some 0 else map_option Suc (first_match P xs))"

lemma first_match_Some:
  "first_match P xs = Some m \<longleftrightarrow> m < length xs \<and> P (xs ! m) \<and> (\<forall>k < m. \<not> P (xs ! k))"
proof (induction xs arbitrary: m)
  case (Cons x xs)
  show ?case
  proof (cases m)
    case 0
    then show ?thesis by (cases "first_match P xs") auto
  next
    case (Suc k)
    then show ?thesis using Cons.IH [of k] by (auto simp: All_less_Suc2)
  qed
qed simp

lemma first_match_None: "first_match P xs = None \<longleftrightarrow> (\<forall>x \<in> set xs. \<not> P x)"
  by (induction xs) auto

section \<open>Scanning\<close>

text \<open>The list with the cursor moved forward from the head to entry \<open>m\<close>.\<close>

definition pos :: "linked_list \<Rightarrow> entry list \<Rightarrow> nat \<Rightarrow> linked_list" where
  "pos L es m = (if m = 0 then L else move_to L (Cell_next (fst (es ! (m - 1)))) (int m))"

lemma pos_0 [simp]: "pos L es 0 = L"
  by (simp add: pos_def)

lemma pos_simps [simp]:
  "lrep (pos L es m) fs = lrep L fs" "store_of (pos L es m) = store_of L"
  "ls_nodes (pos L es m) = ls_nodes L" "is_empty (pos L es m) = is_empty L"
  "ls_sort_count (pos L es m) = ls_sort_count L"
  by (simp_all add: pos_def)

lemma pos_cur:
  assumes "at_head L" "m < length es"
  shows "cur_at (pos L es m) es m" "synced (pos L es m) es"
proof -
  show "cur_at (pos L es m) es m"
    using assms by (simp add: pos_def cur_at_def at_head_def)
  moreover have "forward (ls_current (pos L es m))" using assms(1) by (simp add: pos_def at_head_def)
  ultimately show "synced (pos L es m) es" by (auto simp: synced_def cur_ok_def)
qed

lemma pos_Suc:
  "move_to (pos L es m) (Cell_next (fst (es ! m))) (int (Suc m)) = pos L es (Suc m)"
  by (simp add: pos_def)

text \<open>
  \<open>loop\<close> is a loop that looks at the current entry, stops with \<open>found\<close> at a hit and with
  \<open>missing\<close> at the end of the list.
\<close>

locale forward_scan =
  fixes loop :: "linked_list \<Rightarrow> 'r option"
    and hit :: "ptr \<Rightarrow> bool"
    and found :: "linked_list \<Rightarrow> ptr \<Rightarrow> 'r option"
    and missing :: "linked_list \<Rightarrow> 'r"
  assumes loop_empty: "\<lbrakk>lrep L []; cur_ok L []\<rbrakk> \<Longrightarrow> loop L = Some (missing L)"
    and loop_step: "\<lbrakk>lrep L es; cur_at L es i; i < length es\<rbrakk> \<Longrightarrow>
      loop L = (if hit (snd (es ! i)) then found L (fst (es ! i))
        else if Suc i < length es then loop (move_to L (Cell_next (fst (es ! i))) (int (Suc i)))
        else Some (missing L))"
begin

text \<open>The loop ends, at the first hit if there is one and at the last entry otherwise.\<close>

lemma scan_from:
  assumes "lrep L es" "at_head L" "i < length es"
  shows "loop (pos L es i) =
    (case first_match (hit \<circ> snd) (drop i es) of
       None \<Rightarrow> Some (missing (pos L es (length es - 1)))
     | Some m \<Rightarrow> found (pos L es (i + m)) (fst (es ! (i + m))))"
  using assms(3)
proof (induction "length es - i" arbitrary: i)
  case (Suc n)
  note i = \<open>i < length es\<close>
  have drop: "drop i es = es ! i # drop (Suc i) es" using i by (simp add: Cons_nth_drop_Suc)
  note step = loop_step [of "pos L es i" es i, OF _ pos_cur(1) [OF assms(2) i] i, simplified, OF assms(1)]
  show ?case
  proof (cases "hit (snd (es ! i))")
    case True
    then show ?thesis using step drop by simp
  next
    case miss: False
    show ?thesis
    proof (cases "Suc i < length es")
      case True
      have "loop (pos L es i) = loop (pos L es (Suc i))" using step miss True pos_Suc [of L es i] by simp
      then show ?thesis using Suc.hyps(1) [of "Suc i"] Suc.hyps(2) True miss drop
        by (auto split: option.splits)
    next
      case False
      then have "length es - 1 = i" "drop (Suc i) es = []" using i by auto
      then show ?thesis using step miss False drop by simp
    qed
  qed
qed simp

lemma scan:
  assumes "lrep L es" "at_head L"
  shows "loop L = (case first_match hit (map snd es) of
      None \<Rightarrow> Some (missing (pos L es (length es - 1)))
    | Some m \<Rightarrow> found (pos L es m) (fst (es ! m)))"
proof (cases "es = []")
  case True
  have "cur_ok L es" using at_head_synced [OF assms(2)] by (simp add: synced_def)
  then show ?thesis using True loop_empty assms(1) by simp
next
  case False
  have "first_match hit (map snd xs) = first_match (hit \<circ> snd) xs" for xs :: "entry list"
    by (induction xs) auto
  then show ?thesis using scan_from [OF assms, of 0] False by (simp split: option.split)
qed

end

lemma current_entry:
  assumes "lrep L es" "cur_at L es i" "i < length es"
  shows "get_current L = Some (fst (es ! i))" "fst (es ! i) \<noteq> CPLUS_NULL"
    "get_data L (fst (es ! i)) = Some (snd (es ! i))" "snd (es ! i) \<noteq> CPLUS_NULL"
    "get_node_next L (fst (es ! i)) = Some (if Suc i < length es then fst (es ! Suc i) else CPLUS_NULL)"
    "step_next L = Some (move_to L (Cell_next (fst (es ! i))) (int (Suc i)))"
    "ls_cur_index L = int i" "\<not> is_empty L"
  using assms get_current_at [of L es i] entry_not_null [of L es i] node_at [of L es i]
    data_not_null [of L es i] step_next_at [of L es i] count_simps(2) [of L es]
  by (auto simp: cur_at_def add.commute)

lemma next_not_null: "\<lbrakk>lrep L es; Suc i < length es\<rbrakk> \<Longrightarrow> fst (es ! Suc i) \<noteq> CPLUS_NULL"
  by (rule entry_not_null)

interpretation get_node: forward_scan "get_node_if_loop cmp" "\<lambda>d. cmp d = 0"
    "\<lambda>L c. Some (Inr c, L)" "\<lambda>L. (Inl ENOENT, L)"
proof
  fix L
  assume "lrep L []" "cur_ok L []"
  then show "get_node_if_loop cmp L = Some (Inl ENOENT, L)"
    by (subst get_node_if_loop.simps) (simp add: get_current_empty)
next
  fix L es i
  assume a: "lrep L es" "cur_at L es i" "i < length es"
  then show "get_node_if_loop cmp L = (if cmp (snd (es ! i)) = 0 then Some (Inr (fst (es ! i)), L)
      else if Suc i < length es
      then get_node_if_loop cmp (move_to L (Cell_next (fst (es ! i))) (int (Suc i)))
      else Some (Inl ENOENT, L))"
    using current_entry [OF a] next_not_null [OF a(1), of i]
    by (subst get_node_if_loop.simps) simp
qed

interpretation get_index: forward_scan "get_index_if_loop cmp" "\<lambda>d. cmp d = 0"
    "\<lambda>L c. Some (Inr (ls_cur_index L), L)" "\<lambda>L. (Inl ENOENT, L)"
proof
  fix L
  assume "lrep L []" "cur_ok L []"
  then show "get_index_if_loop cmp L = Some (Inl ENOENT, L)"
    by (subst get_index_if_loop.simps) (simp add: get_current_empty)
next
  fix L es i
  assume a: "lrep L es" "cur_at L es i" "i < length es"
  then show "get_index_if_loop cmp L = (if cmp (snd (es ! i)) = 0 then Some (Inr (ls_cur_index L), L)
      else if Suc i < length es
      then get_index_if_loop cmp (move_to L (Cell_next (fst (es ! i))) (int (Suc i)))
      else Some (Inl ENOENT, L))"
    using current_entry [OF a] next_not_null [OF a(1), of i]
    by (subst get_index_if_loop.simps) simp
qed

text \<open>Matching and taking the node out; deleting the entry with a given data pointer.\<close>

definition pop_found :: "linked_list \<Rightarrow> ptr \<Rightarrow> (ptr cresult \<times> linked_list) option" where
  "pop_found L c = map_option (\<lambda>L1. (Inr c, L1)) (remove_node L c)"

definition remove_found :: "linked_list \<Rightarrow> ptr \<Rightarrow> (unit cresult \<times> linked_list) option" where
  "remove_found L c = map_option (\<lambda>L1. (Inr (), free_node L1 c)) (remove_node L c)"

lemma bind_map_option: "Option.bind m (\<lambda>x. Some (f x)) = map_option f m"
  by (cases m) auto

interpretation popping: forward_scan "pop_if_loop cmp" "\<lambda>d. cmp d = 0" pop_found
    "\<lambda>L. (Inl ENOENT, L)"
proof
  fix L
  assume "lrep L []" "cur_ok L []"
  then show "pop_if_loop cmp L = Some (Inl ENOENT, L)"
    by (subst pop_if_loop.simps) (simp add: get_current_empty)
next
  fix L es i
  assume a: "lrep L es" "cur_at L es i" "i < length es"
  then show "pop_if_loop cmp L = (if cmp (snd (es ! i)) = 0 then pop_found L (fst (es ! i))
      else if Suc i < length es
      then pop_if_loop cmp (move_to L (Cell_next (fst (es ! i))) (int (Suc i)))
      else Some (Inl ENOENT, L))"
    using current_entry [OF a] next_not_null [OF a(1), of i]
    by (subst pop_if_loop.simps) (simp add: pop_found_def bind_map_option)
qed

interpretation removing: forward_scan "remove_data_loop dt" "\<lambda>d. dt = d" remove_found
    "\<lambda>L. (Inl ENONE, L)"
proof
  fix L
  assume "lrep L []" "cur_ok L []"
  then show "remove_data_loop dt L = Some (Inl ENONE, L)"
    by (subst remove_data_loop.simps) (simp add: get_current_empty)
next
  fix L es i
  assume a: "lrep L es" "cur_at L es i" "i < length es"
  then show "remove_data_loop dt L = (if dt = snd (es ! i) then remove_found L (fst (es ! i))
      else if Suc i < length es
      then remove_data_loop dt (move_to L (Cell_next (fst (es ! i))) (int (Suc i)))
      else Some (Inl ENONE, L))"
    using current_entry [OF a] next_not_null [OF a(1), of i]
    by (subst remove_data_loop.simps) (simp add: remove_found_def bind_map_option)
qed

section \<open>Removing a node wherever it is\<close>

text \<open>Unlike \<open>pop_of\<close>, \<open>remove_node\<close> compares the node with the head and the tail.\<close>

lemma remove_first: 
  assumes rep: "lrep L (e # es)"
  shows "\<exists>L'. remove_node L (fst e) = Some L' \<and> popped L es e L' \<and> at_head L'"
proof (cases es)
  case Nil
  note D = lrepD [OF rep] and C = count_minus [OF rep, of "length es"]
  show ?thesis
    using D C count_simps(2) [OF rep] Nil
    by (auto simp: remove_node_def get_node_next_def put_simps Let_def popped_def lrep_def
        detached_def get_data_def is_empty_def)
next
  case (Cons b bs)
  note D = lrepD [OF rep] and C = count_minus [OF rep, of "length es"]
  show ?thesis
    using D C count_simps(2) [OF rep] Cons
    by (auto simp: remove_node_def get_node_next_def put_simps Let_def popped_def lrep_def
        detached_def get_data_def is_empty_def)
qed

lemma remove_last:
  assumes rep: "lrep L (as @ [a, e])"
  shows "\<exists>L'. remove_node L (fst e) = Some L' \<and> popped L (as @ [a]) e L' \<and> at_head L'"
proof -
  note D = lrepD [OF rep] and C = count_minus [OF rep, of "Suc (length as)"]
  have head: "ls_head L \<noteq> fst e" using D(2,5) by (cases as) auto
  show ?thesis
    using D C head count_simps(2) [OF rep]
    by (auto simp: remove_node_def get_node_prev_def put_simps Let_def popped_def lrep_def
        detached_def get_data_def is_empty_def)
qed

lemma remove_mid:
  assumes rep: "lrep L (as @ [a, e, b] @ bs)"
  shows "\<exists>L'. remove_node L (fst e) = Some L' \<and> popped L (as @ [a, b] @ bs) e L' \<and> at_head L'"
proof -
  let ?es = "as @ [a, b] @ bs"
  note D = lrepD [OF rep] and C = count_minus [OF rep, of "length ?es"]
  have cnt: "ls_count L - 1 = of_nat (length ?es)" "(of_nat (length ?es) :: u32) \<noteq> 0"
    using C by auto
  then have one: "ls_count L \<noteq> 1" by auto
  have head: "ls_head L \<noteq> fst e" using D(2,5) by (cases as) auto
  have tail: "ls_tail L \<noteq> fst e" using D(2,6) by (cases bs rule: rev_cases) auto
  from unlink_mid_at [OF rep] obtain h where
    unl: "unlink_mid L (fst e) = Some (L\<lparr>ls_nodes := h\<rparr>)"
    and h: "dls h CPLUS_NULL ?es CPLUS_NULL"
      "h (fst e) = Some \<lparr>nd_data = snd e, nd_prev = CPLUS_NULL, nd_next = CPLUS_NULL\<rparr>"
      "h CPLUS_NULL = None"
    by blast
  let ?L' = "reset_cur_node (L\<lparr>ls_nodes := h, ls_count := of_nat (length ?es)\<rparr>)"
  have "remove_node L (fst e) = Some ?L'"
    using head tail cnt one unl unfolding remove_node_def unlink_mid_def
    by (simp only: if_False) (simp add: is_empty_def Let_def cnt del: length_append)
  moreover have "lrep ?L' ?es" using D h(1,3) unfolding lrep_reset by (simp add: lrep_def)
  moreover have "detached ?L' ?es (fst e) (snd e)"
    using D(2,3,10) h(2) by (auto simp: detached_def get_data_def)
  ultimately show ?thesis by (simp add: popped_def)
qed

lemma remove_node_at:
  assumes rep: "lrep L es" and m: "m < length es"
  shows "\<exists>L'. remove_node L (fst (es ! m)) = Some L' \<and> popped L (remove_at m es) (es ! m) L' \<and> at_head L'"
proof -
  consider "m = 0" | "m \<noteq> 0" "Suc m = length es" | "0 < m" "Suc m < length es" using m by linarith
  then show ?thesis
  proof cases
    case 1
    then obtain e es' where "es = e # es'" using m by (cases es) auto
    with remove_first [of L e es'] rep 1 show ?thesis by (simp add: remove_at_def)
  next
    case 2
    then obtain k where k: "m = Suc k" by (cases m) auto
    with 2 obtain as a b bs where es: "es = as @ [a, b] @ bs" "length as = k"
      by (metis lessI split_pair)
    with 2 k have es': "es = as @ [a, b]" by simp
    have "remove_at m es = as @ [a]" "es ! m = b"
      using k es(2) by (simp_all add: es' remove_at_def nth_append)
    then show ?thesis using remove_last [OF rep [unfolded es']] by simp
  next
    case 3
    obtain as a e b bs where es: "es = as @ [a, e, b] @ bs" "Suc (length as) = m" "e = es ! m"
      using 3 by (rule split_triple)
    have "remove_at m es = as @ [a, b] @ bs" using es(1) by (simp add: remove_at_def flip: es(2))
    then show ?thesis using remove_mid [OF rep [unfolded es(1)]] unfolding es(3) by simp
  qed
qed

section \<open>Lookup and removal by content\<close>

lemma pos_end_synced: "at_head L \<Longrightarrow> synced (pos L es (length es - 1)) es"
  by (cases "es = []") (auto intro: at_head_synced pos_cur)

lemma found_bounds: "first_match P (map snd es) = Some m \<Longrightarrow> m < length es"
  by (simp add: first_match_Some)

lemma get_if_at:
  assumes rep: "lrep L es"
  shows "\<exists>L'. cplus_llist_get_if L cmp =
      Some (case first_match (\<lambda>d. cmp d = 0) (map snd es) of
              None \<Rightarrow> Inl ENOENT | Some m \<Rightarrow> Inr (map snd es ! m), L') \<and>
    lrep L' es \<and> synced L' es \<and> store_of L' = store_of L"
proof -
  let ?L0 = "reset_cur_node L"
  have rep0: "lrep ?L0 es" "at_head ?L0" using rep by simp_all
  note S = get_node.scan [OF rep0, of cmp]
  show ?thesis
  proof (cases "first_match (\<lambda>d. cmp d = 0) (map snd es)")
    case None
    then show ?thesis using S rep pos_end_synced [OF rep0(2)]
      by (simp add: cplus_llist_get_if_def get_node_if_def node_data_def)
  next
    case (Some m)
    have m: "m < length es" using found_bounds [OF Some] .
    have "get_data (pos ?L0 es m) (fst (es ! m)) = Some (snd (es ! m))"
      using node_at(1) [of "pos ?L0 es m" es m] rep m by simp
    then show ?thesis using S Some rep m pos_cur(2) [OF rep0(2) m] entry_not_null [OF rep m]
      by (simp add: cplus_llist_get_if_def get_node_if_def node_data_def)
  qed
qed

lemma get_index_if_at:
  assumes rep: "lrep L es"
  shows "\<exists>L'. cplus_llist_get_index_if L cmp =
      Some (case first_match (\<lambda>d. cmp d = 0) (map snd es) of
              None \<Rightarrow> Inl ENOENT | Some m \<Rightarrow> Inr (int m), L') \<and>
    lrep L' es \<and> synced L' es \<and> store_of L' = store_of L"
proof -
  let ?L0 = "reset_cur_node L"
  have rep0: "lrep ?L0 es" "at_head ?L0" using rep by simp_all
  note S = get_index.scan [OF rep0, of cmp]
  show ?thesis
  proof (cases "first_match (\<lambda>d. cmp d = 0) (map snd es)")
    case None
    then show ?thesis using S rep pos_end_synced [OF rep0(2)]
      by (simp add: cplus_llist_get_index_if_def get_index_if_def)
  next
    case (Some m)
    have m: "m < length es" using found_bounds [OF Some] .
    then have "ls_cur_index (pos ?L0 es m) = int m"
      using pos_cur(1) [OF rep0(2) m] by (simp add: cur_at_def)
    then show ?thesis using S Some rep pos_cur(2) [OF rep0(2) m]
      by (simp add: cplus_llist_get_index_if_def get_index_if_def)
  qed
qed

text \<open>Freeing what was taken out, as both removing operations do.\<close>

lemma popped_free:
  assumes "popped L es e L1" "at_head L1"
  shows "lrep (free_node L1 (fst e)) es" "at_head (free_node L1 (fst e))"
    "store_of (free_node L1 (fst e)) = store_free (store_of L) (fst e)"
    "get_data L1 (fst e) = Some (snd e)"
proof -
  have rep: "lrep L1 es" and det: "detached L1 es (fst e) (snd e)" and same: "store_of L1 = store_of L"
    using assms(1) by (auto simp: popped_def)
  show "lrep (free_node L1 (fst e)) es" by (rule free_node_ok(1) [OF rep det])
  show "at_head (free_node L1 (fst e))"
    using assms(2) free_node_ok(3,4) [OF rep det] by (simp add: at_head_def)
  show "store_of (free_node L1 (fst e)) = store_free (store_of L) (fst e)"
    using det same by (auto simp: free_node_def detached_def store_of_def split: prod.split)
  show "get_data L1 (fst e) = Some (snd e)" using det by (simp add: detached_def)
qed

lemma pop_if_at:
  assumes rep: "lrep L es"
  shows "\<exists>L'. case first_match (\<lambda>d. cmp d = 0) (map snd es) of
      None \<Rightarrow> cplus_llist_pop_if L cmp = Some (Inl ENOENT, L') \<and> lrep L' es \<and>
        store_of L' = store_of L \<and> synced L' es
    | Some m \<Rightarrow> cplus_llist_pop_if L cmp = Some (Inr (map snd es ! m), L') \<and>
        lrep L' (remove_at m es) \<and> store_of L' = store_free (store_of L) (fst (es ! m)) \<and>
        synced L' (remove_at m es)"
proof -
  let ?L0 = "reset_cur_node L"
  have rep0: "lrep ?L0 es" "at_head ?L0" using rep by simp_all
  note S = popping.scan [OF rep0, of cmp]
  show ?thesis
  proof (cases "first_match (\<lambda>d. cmp d = 0) (map snd es)")
    case None
    then show ?thesis using S rep pos_end_synced [OF rep0(2)]
      by (simp add: cplus_llist_pop_if_def pop_if_def take_data_def)
  next
    case (Some m)
    have m: "m < length es" using found_bounds [OF Some] .
    have "lrep (pos ?L0 es m) es" using rep by simp
    from remove_node_at [OF this m] obtain L1 where
      L1: "remove_node (pos ?L0 es m) (fst (es ! m)) = Some L1"
        "popped (pos ?L0 es m) (remove_at m es) (es ! m) L1" "at_head L1"
      by blast
    show ?thesis using S Some L1(1) popped_free [OF L1(2,3)] m
      by (simp add: cplus_llist_pop_if_def pop_if_def pop_found_def take_data_def at_head_synced)
  qed
qed

lemma delete_data_at:
  assumes rep: "lrep L es" and d: "d \<noteq> CPLUS_NULL"
  shows "\<exists>L'. case first_match (\<lambda>x. d = x) (map snd es) of
      None \<Rightarrow> cplus_llist_delete_data L d = Some (Inl ENONE, L') \<and> lrep L' es \<and>
        store_of L' = store_of L \<and> synced L' es
    | Some m \<Rightarrow> cplus_llist_delete_data L d = Some (Inr (), L') \<and>
        lrep L' (remove_at m es) \<and> store_of L' = store_free (store_of L) (fst (es ! m)) \<and>
        synced L' (remove_at m es)"
proof -
  let ?L0 = "reset_cur_node L"
  have rep0: "lrep ?L0 es" "at_head ?L0" using rep by simp_all
  note S = removing.scan [OF rep0, of d]
  show ?thesis
  proof (cases "first_match (\<lambda>x. d = x) (map snd es)")
    case None
    then show ?thesis using S rep d pos_end_synced [OF rep0(2)]
      by (simp add: cplus_llist_delete_data_def remove_data_def)
  next
    case (Some m)
    have m: "m < length es" using found_bounds [OF Some] .
    have "lrep (pos ?L0 es m) es" using rep by simp
    from remove_node_at [OF this m] obtain L1 where
      L1: "remove_node (pos ?L0 es m) (fst (es ! m)) = Some L1"
        "popped (pos ?L0 es m) (remove_at m es) (es ! m) L1" "at_head L1"
      by blast
    show ?thesis using S Some L1(1) popped_free [OF L1(2,3)] m d
      by (simp add: cplus_llist_delete_data_def remove_data_def remove_found_def at_head_synced)
  qed
qed

end
