(* ===== verification/Llist_Sort.thy ===== *)
theory Llist_Sort
  imports Llist_Search "HOL-Library.Multiset"
begin

text \<open>
  \<open>llist_sort\<close>: an exchange sort that swaps the data pointers of neighbouring nodes, and the
  counter by which \<open>cplus_llist_sort\<close> remembers that a list is sorted.
\<close>

section \<open>Exchange sort on lists\<close>

text \<open>One inner loop of \<open>n\<close> rounds, and the outer loop with \<open>r\<close> rounds left.\<close>

fun bubble :: "comparator \<Rightarrow> nat \<Rightarrow> ptr list \<Rightarrow> ptr list" where
  "bubble cmp (Suc n) (x # y # zs) =
     (if 0 < cmp x y then y # bubble cmp n (x # zs) else x # bubble cmp n (y # zs))"
| "bubble cmp n xs = xs"

primrec bubble_sort :: "comparator \<Rightarrow> nat \<Rightarrow> ptr list \<Rightarrow> ptr list" where
  "bubble_sort cmp 0 xs = xs"
| "bubble_sort cmp (Suc r) xs = bubble_sort cmp r (bubble cmp (Suc r) xs)"

text \<open>The comparator orders the elements of \<open>S\<close>: total and transitive.\<close>

definition orders :: "comparator \<Rightarrow> ptr set \<Rightarrow> bool" where
  "orders cmp S \<longleftrightarrow> (\<forall>x \<in> S. \<forall>y \<in> S. cmp x y \<le> 0 \<or> cmp y x \<le> 0) \<and>
     (\<forall>x \<in> S. \<forall>y \<in> S. \<forall>z \<in> S. cmp x y \<le> 0 \<longrightarrow> cmp y z \<le> 0 \<longrightarrow> cmp x z \<le> 0)"

lemma orders_total:
  assumes "orders cmp S" "x \<in> S" "y \<in> S" "0 < cmp x y"
  shows "cmp y x \<le> 0"
proof -
  have "\<forall>x \<in> S. \<forall>y \<in> S. cmp x y \<le> 0 \<or> cmp y x \<le> 0"
    using assms(1) unfolding orders_def by (rule conjunct1)
  then have "cmp x y \<le> 0 \<or> cmp y x \<le> 0" using assms(2,3) by blast
  with assms(4) show ?thesis by linarith
qed

lemma orders_trans:
  assumes "orders cmp S" "x \<in> S" "y \<in> S" "z \<in> S" "cmp x y \<le> 0" "cmp y z \<le> 0"
  shows "cmp x z \<le> 0"
proof -
  have "\<forall>x \<in> S. \<forall>y \<in> S. \<forall>z \<in> S. cmp x y \<le> 0 \<longrightarrow> cmp y z \<le> 0 \<longrightarrow> cmp x z \<le> 0"
    using assms(1) unfolding orders_def by (rule conjunct2)
  then show ?thesis using assms(2-6) by blast
qed

lemma mset_bubble [simp]: "mset (bubble cmp n xs) = mset xs"
  by (induction cmp n xs rule: bubble.induct) auto

lemma mset_bubble_sort [simp]: "mset (bubble_sort cmp r xs) = mset xs"
  by (induction r arbitrary: xs) auto

lemma set_bubble [simp]: "set (bubble cmp n xs) = set xs"
  using mset_eq_setD [OF mset_bubble] .

lemma length_bubble [simp]: "length (bubble cmp n xs) = length xs"
  using mset_eq_length [OF mset_bubble] .

text \<open>An inner loop brings the largest element of the unsorted part to its end.\<close>

lemma bubble_max:
  assumes ord: "orders cmp S"
  shows "\<lbrakk>set (x # ys @ zs) \<subseteq> S; \<forall>a \<in> set (x # ys). \<forall>z \<in> set zs. cmp a z \<le> 0\<rbrakk> \<Longrightarrow>
    \<exists>ys' m. bubble cmp (Suc (length ys)) (x # ys @ zs) = ys' @ m # zs \<and>
      mset (ys' @ [m]) = mset (x # ys) \<and> (\<forall>a \<in> set (x # ys). cmp a m \<le> 0)"
proof (induction ys arbitrary: x)
  case Nil
  have "cmp x x \<le> 0" using orders_total [OF ord, of x x] Nil.prems(1) by (cases "0 < cmp x x") auto
  then show ?case using Nil.prems by (cases zs) auto
next
  case (Cons y ys)
  show ?case
  proof (cases "0 < cmp x y")
    case True
    have yx: "cmp y x \<le> 0" using orders_total [OF ord _ _ True] Cons.prems(1) by simp
    obtain ys' m where IH: "bubble cmp (Suc (length ys)) (x # ys @ zs) = ys' @ m # zs"
      "mset (ys' @ [m]) = mset (x # ys)" "\<forall>a \<in> set (x # ys). cmp a m \<le> 0"
      using Cons.IH [of x] Cons.prems by auto
    have "m \<in> S" using mset_eq_setD [OF IH(2)] Cons.prems(1) by auto
    then have "cmp y m \<le> 0" using orders_trans [OF ord _ _ _ yx] IH(3) Cons.prems(1) by auto
    then show ?thesis using True IH by (intro exI [of _ "y # ys'"] exI [of _ m]) auto
  next
    case False
    then have xy: "cmp x y \<le> 0" by simp
    obtain ys' m where IH: "bubble cmp (Suc (length ys)) (y # ys @ zs) = ys' @ m # zs"
      "mset (ys' @ [m]) = mset (y # ys)" "\<forall>a \<in> set (y # ys). cmp a m \<le> 0"
      using Cons.IH [of y] Cons.prems by auto
    have "m \<in> S" using mset_eq_setD [OF IH(2)] Cons.prems(1) by auto
    then have "cmp x m \<le> 0" using orders_trans [OF ord _ _ _ xy] IH(3) Cons.prems(1) by auto
    then show ?thesis using False IH by (intro exI [of _ "x # ys'"] exI [of _ m]) auto
  qed
qed

lemma bubble_sort_sorted:
  assumes ord: "orders cmp S"
  shows "\<lbrakk>length ys = r; set (ys @ zs) \<subseteq> S; sorted_wrt (\<lambda>a b. cmp a b \<le> 0) zs;
      \<forall>y \<in> set ys. \<forall>z \<in> set zs. cmp y z \<le> 0\<rbrakk> \<Longrightarrow>
    sorted_wrt (\<lambda>a b. cmp a b \<le> 0) (bubble_sort cmp r (ys @ zs))"
proof (induction r arbitrary: ys zs)
  case 0
  then show ?case by simp
next
  case (Suc r)
  then obtain x xs where ys: "ys = x # xs" "length xs = r" by (cases ys) auto
  obtain ys' m where B: "bubble cmp (Suc r) (ys @ zs) = ys' @ m # zs"
    "mset (ys' @ [m]) = mset ys" "\<forall>a \<in> set ys. cmp a m \<le> 0"
    using bubble_max [OF ord, of x xs zs] Suc.prems ys by auto
  have len: "length ys' = r" using mset_eq_length [OF B(2)] ys by simp
  have sets: "set ys = insert m (set ys')" using mset_eq_setD [OF B(2)] by auto
  have "sorted_wrt (\<lambda>a b. cmp a b \<le> 0) (bubble_sort cmp r (ys' @ m # zs))"
    using Suc.prems B(3) sets len by (intro Suc.IH) auto
  then show ?case using B(1) by simp
qed

section \<open>The list of nodes\<close>

lemma swap_data_at:
  assumes rep: "lrep L (as @ [a, b] @ bs)"
  shows "\<exists>h. swap_data (fst a) (fst b) L = Some (L\<lparr>ls_nodes := h\<rparr>) \<and>
    lrep (L\<lparr>ls_nodes := h\<rparr>) (as @ [(fst a, snd b), (fst b, snd a)] @ bs)"
proof -
  note D = lrepD [OF rep]
  have na: "ls_nodes L (fst a) = Some \<lparr>nd_data = snd a, nd_prev = last_addr CPLUS_NULL as, nd_next = fst b\<rparr>"
    and nb: "ls_nodes L (fst b) = Some \<lparr>nd_data = snd b, nd_prev = fst a, nd_next = first_addr bs CPLUS_NULL\<rparr>"
    and ends: "dls (ls_nodes L) CPLUS_NULL as (fst a)" "dls (ls_nodes L) (fst b) bs CPLUS_NULL"
    using D(1) by auto
  have ne: "fst a \<noteq> fst b" "fst a \<notin> fst ` set as" "fst b \<notin> fst ` set as"
    "fst a \<notin> fst ` set bs" "fst b \<notin> fst ` set bs" "fst a \<noteq> CPLUS_NULL" "fst b \<noteq> CPLUS_NULL"
    using D(2,3) by auto
  let ?h = "(ls_nodes L)(fst a \<mapsto> \<lparr>nd_data = snd b, nd_prev = last_addr CPLUS_NULL as, nd_next = fst b\<rparr>,
    fst b \<mapsto> \<lparr>nd_data = snd a, nd_prev = fst a, nd_next = first_addr bs CPLUS_NULL\<rparr>)"
  have swap: "swap_data (fst a) (fst b) L = Some (L\<lparr>ls_nodes := ?h\<rparr>)"
    using na nb ne by (simp add: swap_data_def get_data_def put_simps)
  have "dls ?h CPLUS_NULL (as @ [(fst a, snd b), (fst b, snd a)] @ bs) CPLUS_NULL"
    using ne ends by simp
  moreover have "?h CPLUS_NULL = None" using ne D(11) by simp
  ultimately have "lrep (L\<lparr>ls_nodes := ?h\<rparr>) (as @ [(fst a, snd b), (fst b, snd a)] @ bs)"
    using D(2-10) unfolding lrep_def by simp
  with swap show ?thesis by blast
qed

lemma segment_node:
  assumes "lrep L (as @ b # bs)"
  shows "get_node_next L (fst b) = Some (first_addr bs CPLUS_NULL)" "get_data L (fst b) = Some (snd b)"
    "fst b \<noteq> CPLUS_NULL"
  using lrepD(1,3) [OF assms] by (auto simp: get_node_next_def get_data_def)

text \<open>The inner loop sorts the data of the segment that starts at its node.\<close>

lemma sort_pass_at:
  "\<lbrakk>lrep L (as @ bs); bs \<noteq> []\<rbrakk> \<Longrightarrow>
     \<exists>h node es. sort_pass cmp n (first_addr bs CPLUS_NULL) L = Some (node, L\<lparr>ls_nodes := h\<rparr>) \<and>
       lrep (L\<lparr>ls_nodes := h\<rparr>) es \<and> node \<noteq> CPLUS_NULL \<and> map fst es = map fst (as @ bs) \<and>
       map snd es = map snd as @ bubble cmp n (map snd bs)"
proof (induction n arbitrary: L as bs)
  case 0
  then obtain b ds where bs: "bs = b # ds" by (cases bs) auto
  have "L\<lparr>ls_nodes := ls_nodes L\<rparr> = L" by simp
  then show ?case using 0 segment_node(3) [of L as b ds] bs
    by (intro exI [of _ "ls_nodes L"] exI [of _ "fst b"] exI [of _ "as @ bs"]) simp
next
  case (Suc n)
  then obtain b ds where bs: "bs = b # ds" by (cases bs) auto
  note rep = Suc.prems(1) [unfolded bs]
  note B = segment_node [OF rep]
  show ?case
  proof (cases ds)
    case Nil
    have "L\<lparr>ls_nodes := ls_nodes L\<rparr> = L" by simp
    then show ?thesis using rep B bs Nil
      by (intro exI [of _ "ls_nodes L"] exI [of _ "fst b"] exI [of _ "as @ bs"]) simp
  next
    case (Cons c cs)
    have rep': "lrep L ((as @ [b]) @ c # cs)" using rep Cons by simp
    note C = segment_node [OF rep']
    show ?thesis
    proof (cases "0 < cmp (snd b) (snd c)")
      case True
      have "lrep L (as @ [b, c] @ cs)" using rep Cons by simp
      from swap_data_at [OF this] obtain h where
        h: "swap_data (fst b) (fst c) L = Some (L\<lparr>ls_nodes := h\<rparr>)"
          "lrep (L\<lparr>ls_nodes := h\<rparr>) ((as @ [(fst b, snd c)]) @ (fst c, snd b) # cs)"
        by auto
      have nx: "get_node_next (L\<lparr>ls_nodes := h\<rparr>) (fst b) = Some (fst c)"
        using segment_node(1) [of "L\<lparr>ls_nodes := h\<rparr>" as "(fst b, snd c)" "(fst c, snd b) # cs"] h(2)
        by simp
      from Suc.IH [OF h(2)] obtain h' node es where
        IH: "sort_pass cmp n (fst c) (L\<lparr>ls_nodes := h\<rparr>) = Some (node, L\<lparr>ls_nodes := h'\<rparr>)"
          "lrep (L\<lparr>ls_nodes := h'\<rparr>) es" "node \<noteq> CPLUS_NULL"
          "map fst es = map fst as @ fst b # fst c # map fst cs"
          "map snd es = map snd as @ snd c # bubble cmp n (snd b # map snd cs)"
        by auto
      have "sort_pass cmp (Suc n) (first_addr bs CPLUS_NULL) L = Some (node, L\<lparr>ls_nodes := h'\<rparr>)"
        using B C h(1) nx IH(1) True bs Cons by simp
      with IH show ?thesis using True bs Cons by auto
    next
      case False
      from Suc.IH [OF rep'] obtain h' node es where
        IH: "sort_pass cmp n (fst c) L = Some (node, L\<lparr>ls_nodes := h'\<rparr>)"
          "lrep (L\<lparr>ls_nodes := h'\<rparr>) es" "node \<noteq> CPLUS_NULL"
          "map fst es = map fst as @ fst b # fst c # map fst cs"
          "map snd es = map snd as @ snd b # bubble cmp n (snd c # map snd cs)"
        by auto
      have "sort_pass cmp (Suc n) (first_addr bs CPLUS_NULL) L = Some (node, L\<lparr>ls_nodes := h'\<rparr>)"
        using B C IH(1) False bs Cons by simp
      with IH show ?thesis using False bs Cons by auto
    qed
  qed
qed

lemma sort_loop_at:
  "\<lbrakk>lrep L es; es \<noteq> []; node \<noteq> CPLUS_NULL\<rbrakk> \<Longrightarrow>
     \<exists>h es'. sort_loop cmp r node L =
         Some (L\<lparr>ls_nodes := h, ls_sort_count := ls_sort_count L + of_nat r\<rparr>) \<and>
       lrep (L\<lparr>ls_nodes := h\<rparr>) es' \<and> map fst es' = map fst es \<and>
       map snd es' = bubble_sort cmp r (map snd es)"
proof (induction r arbitrary: L es node)
  case 0
  have "L\<lparr>ls_nodes := ls_nodes L, ls_sort_count := ls_sort_count L\<rparr> = L" "L\<lparr>ls_nodes := ls_nodes L\<rparr> = L"
    by simp_all
  then show ?case using 0 by (intro exI [of _ "ls_nodes L"] exI [of _ es]) simp
next
  case (Suc r)
  from sort_pass_at [of L "[]" es cmp "Suc r"] Suc.prems obtain h node' es1 where
    P: "sort_pass cmp (Suc r) (ls_head L) L = Some (node', L\<lparr>ls_nodes := h\<rparr>)"
      "lrep (L\<lparr>ls_nodes := h\<rparr>) es1" "node' \<noteq> CPLUS_NULL" "map fst es1 = map fst es"
      "map snd es1 = bubble cmp (Suc r) (map snd es)"
    using lrepD(5) [OF Suc.prems(1)] by auto
  let ?L1 = "L\<lparr>ls_nodes := h, ls_sort_count := ls_sort_count L + 1\<rparr>"
  have "lrep ?L1 es1" "es1 \<noteq> []" using P(2,4) Suc.prems(2) lrep_sort_count [of _ "L\<lparr>ls_nodes := h\<rparr>" es1] by auto
  from Suc.IH [OF this P(3)] obtain h' es' where
    IH: "sort_loop cmp r node' ?L1 =
        Some (?L1\<lparr>ls_nodes := h', ls_sort_count := ls_sort_count ?L1 + of_nat r\<rparr>)"
      "lrep (?L1\<lparr>ls_nodes := h'\<rparr>) es'" "map fst es' = map fst es1"
      "map snd es' = bubble_sort cmp r (map snd es1)"
    by blast
  have "?L1\<lparr>ls_nodes := h', ls_sort_count := ls_sort_count ?L1 + of_nat r\<rparr> =
      L\<lparr>ls_nodes := h', ls_sort_count := ls_sort_count L + of_nat (Suc r)\<rparr>"
    by (simp add: add.assoc)
  moreover have "?L1\<lparr>ls_nodes := h'\<rparr> = L\<lparr>ls_nodes := h', ls_sort_count := ls_sort_count L + 1\<rparr>"
    by simp
  then have "lrep (L\<lparr>ls_nodes := h'\<rparr>) es'"
    using IH(2) lrep_sort_count [of "ls_sort_count L + 1" "L\<lparr>ls_nodes := h'\<rparr>" es'] by (simp only:)
  moreover have "sort_loop cmp (Suc r) node L = sort_loop cmp r node' ?L1"
    using P(1) Suc.prems(3) by (simp del: sort_pass.simps)
  ultimately show ?case
    using P(4,5) IH(1,3,4) by (intro exI [of _ h'] exI [of _ es']) (simp del: bubble.simps)
qed

lemma cell_at_addresses:
  assumes "map fst es' = map fst es"
  shows "cell_at es' i c = cell_at es i c"
proof -
  have len: "length es' = length es" using arg_cong [OF assms, of length] by simp
  have "fst (es' ! k) = fst (es ! k)" if "k < length es" for k
    using arg_cong [OF assms, of "\<lambda>xs. xs ! k"] that len by simp
  then show ?thesis using len by (cases c) auto
qed

lemma synced_addresses:
  assumes "map fst es' = map fst es" "ls_current L' = ls_current L" "ls_cur_index L' = ls_cur_index L"
  shows "synced L' es' = synced L es"
proof -
  have "length es' = length es" using arg_cong [OF assms(1), of length] by simp
  then show ?thesis
    using assms(2,3) by (simp add: synced_def cur_ok_def cur_at_def cell_at_addresses [OF assms(1)])
qed

text \<open>All branches of \<open>cplus_llist_sort\<close>.\<close>

lemma llist_sort_step:
  assumes rep: "lrep L es" and ord: "orders cmp (set (map snd es))"
  shows "if is_sort L then cplus_llist_sort L cmp = Some (Inr (), L)
    else \<exists>L' es'. cplus_llist_sort L cmp =
        Some (if ls_sort_count L = 0 then Inr () else Inl ENONE, L') \<and>
      lrep L' es' \<and> map fst es' = map fst es \<and> mset (map snd es') = mset (map snd es) \<and>
      sorted_wrt (\<lambda>a b. cmp a b \<le> 0) (map snd es') \<and> store_of L' = store_of L \<and>
      synced L' es' = synced L es \<and> ls_sort_count L' = ls_sort_count L + ls_count L"
proof (cases "is_sort L")
  case True
  then show ?thesis by (simp add: cplus_llist_sort_def)
next
  case unsorted: False
  have cnt: "unat (get_size L) = length es" using count_simps(1) [OF rep] by (simp add: get_size_def)
  show ?thesis
  proof (cases "es = []")
    case True
    have "get_size L = 0" using cnt True by (metis length_0_conv unat_eq_0)
    then show ?thesis using True unsorted rep
      by (auto simp: cplus_llist_sort_def llist_sort_def is_sort_def get_size_def)
  next
    case False
    then have head: "ls_head L \<noteq> CPLUS_NULL"
      using lrepD(5) [OF rep] entry_not_null [OF rep, of 0] by (cases es) auto
    from sort_loop_at [OF rep False head, of cmp "length es"] obtain h es' where
      S: "sort_loop cmp (length es) (ls_head L) L =
          Some (L\<lparr>ls_nodes := h, ls_sort_count := ls_sort_count L + of_nat (length es)\<rparr>)"
        "lrep (L\<lparr>ls_nodes := h\<rparr>) es'" "map fst es' = map fst es"
        "map snd es' = bubble_sort cmp (length es) (map snd es)"
      by blast
    let ?L' = "L\<lparr>ls_nodes := h, ls_sort_count := ls_sort_count L + of_nat (length es)\<rparr>"
    have rep': "lrep ?L' es'"
      using S(2) lrep_sort_count [of "ls_sort_count L + of_nat (length es)" "L\<lparr>ls_nodes := h\<rparr>" es'] by simp
    have count: "ls_count L = of_nat (length es)" using lrepD(8) [OF rep] .
    have "is_sort ?L' \<longleftrightarrow> ls_sort_count L = 0" by (simp add: is_sort_def get_size_def count)
    then have "cplus_llist_sort L cmp = Some (if ls_sort_count L = 0 then Inr () else Inl ENONE, ?L')"
      using unsorted S(1) cnt by (simp add: cplus_llist_sort_def llist_sort_def)
    moreover have "sorted_wrt (\<lambda>a b. cmp a b \<le> 0) (map snd es')"
      using bubble_sort_sorted [OF ord, of "map snd es" "length es" "[]"] S(4) by simp
    moreover have "mset (map snd es') = mset (map snd es)" unfolding S(4) by (rule mset_bubble_sort)
    moreover have "synced ?L' es' = synced L es" using S(3) by (intro synced_addresses) simp_all
    ultimately show ?thesis using unsorted rep' S(3) count by (auto simp: store_of_def)
  qed
qed

text \<open>
  C20. \<open>cplus_llist_sort\<close> terminates; on a list that is not marked as sorted it puts the same
  data into ascending order, in the same nodes, and it reports success exactly when nothing was
  counted as sorted before (a list sorted once and then extended is sorted again but reported
  as a failure).  A list that is marked as sorted is left as it is.
\<close>

theorem llist_sort_sorts:
  assumes "lrep L es" "orders cmp (set (map snd es))"
  shows "if is_sort L then cplus_llist_sort L cmp = Some (Inr (), L)
    else \<exists>L' es'. cplus_llist_sort L cmp =
        Some (if ls_sort_count L = 0 then Inr () else Inl ENONE, L') \<and>
      lrep L' es' \<and> map fst es' = map fst es \<and> mset (map snd es') = mset (map snd es) \<and>
      sorted_wrt (\<lambda>a b. cmp a b \<le> 0) (map snd es') \<and> store_of L' = store_of L \<and>
      synced L' es' = synced L es \<and> ls_sort_count L' = ls_sort_count L + ls_count L"
  using assms by (rule llist_sort_step)

lemma llist_sort_sorts_witness:
  "\<exists>L' es'. cplus_llist_sort example_llist (\<lambda>x y. int (unat x) - int (unat y)) = Some (Inr (), L') \<and>
     lrep L' es' \<and> mset (map snd es') = {#7, 8, 9#} \<and>
     sorted_wrt (\<lambda>a b. int (unat a) - int (unat b) \<le> 0) (map snd es')"
proof -
  let ?cmp = "\<lambda>x y :: ptr. int (unat x) - int (unat y)"
  have "orders ?cmp (set (map snd example_entries))" by (simp add: orders_def)
  from llist_sort_sorts [OF example_llist_rep this] show ?thesis
    by (simp add: is_sort_def get_size_def example_llist_def add_mset_commute) blast
qed

end
