(* ===== verification/Llist_Props.thy ===== *)
theory Llist_Props
  imports Llist_Sort
begin

text \<open>
  The properties of the linked list by index and by content, clearing, and what the code does
  not keep: the cursor after a backward move and the sorted mark after a removal.
\<close>

section \<open>By index\<close>

text \<open>
  While the cursor is in step, \<open>cplus_llist_get_of\<close> returns the element at the index, from
  wherever the cursor is and in whichever direction it has to walk; it changes nothing but the
  cursor, which stays in step.
\<close>

theorem llist_get_of_is_nth:
  assumes "lrep L es" "cur_ok L es" "k < length es"
  shows "\<exists>L'. cplus_llist_get_of L (int k) = Some (Inr (map snd es ! k), L') \<and> lrep L' es \<and>
    cur_ok L' es \<and> store_of L' = store_of L"
  using llist_get_of_step [OF assms] assms(3) by (auto simp: cur_ok_def)

lemma llist_get_of_is_nth_witness:
  "\<exists>L'. cplus_llist_get_of example_llist 2 = Some (Inr 8, L') \<and> cur_ok L' example_entries"
  using llist_get_of_is_nth [OF example_llist_rep example_llist_cur_ok, of 2] by auto

text \<open>
  C18. \<open>cplus_llist_push_at\<close> on a list whose cursor is in step: without data, or with an index
  that is negative or greater than the size, it fails with EINVAL and changes nothing; when no
  node can be allocated it fails with ENOMEM and the list has its elements as before; otherwise it
  inserts the data at the index and nowhere else, in a node that was not in use.  Afterwards the cursor is in step
  when it did not have to move backwards (\<open>cursor_safe\<close>); otherwise it need not be, as
  \<open>llist_insert_behind_cursor_desyncs\<close> below shows.  The list has room for one more in its
  32-bit signed size.
\<close>

theorem llist_push_at_inserts:
  assumes "lrep L es" "cur_ok L es" "length es < 2 ^ 31 - 1"
  shows "if d = CPLUS_NULL \<or> idx < 0 \<or> int (length es) < idx
    then cplus_llist_push_at L idx d = Some (Inl EINVAL, L)
    else case store_alloc (store_of L) of
      (Inl e, s) \<Rightarrow> \<exists>L'. cplus_llist_push_at L idx d = Some (Inl ENOMEM, L') \<and> lrep L' es
    | (Inr a, s) \<Rightarrow> a \<notin> fst ` set es \<and>
        (\<exists>L'. cplus_llist_push_at L idx d = Some (Inr (), L') \<and>
           lrep L' (insert_at (nat idx) (a, d) es) \<and>
           (cursor_safe L (length es) (nat idx) \<longrightarrow> synced L' (insert_at (nat idx) (a, d) es)))"
proof (cases "d = CPLUS_NULL \<or> idx < 0 \<or> int (length es) < idx")
  case True
  then show ?thesis using count_simps(3) [OF assms(1)] by (auto simp: cplus_llist_push_at_def)
next
  case False
  then have d: "d \<noteq> CPLUS_NULL" and k: "nat idx \<le> length es" and idx: "int (nat idx) = idx" by auto
  from llist_push_at_step [OF assms(1,2) d k assms(3)] store.alc_ok [OF lrepD(9) [OF assms(1)]]
    lrepD(10) [OF assms(1)] False
  show ?thesis unfolding idx by (auto split: prod.splits sum.splits)
qed

lemma llist_push_at_inserts_witness:
  "(\<exists>L'. cplus_llist_push_at example_llist 1 5 = Some (Inr (), L') \<and> contents L' [9, 5, 7, 8]) \<and>
   cplus_llist_push_at example_llist 4 5 = Some (Inl EINVAL, example_llist)"
proof
  have len: "length example_entries < 2 ^ 31 - 1" by simp
  note T = llist_push_at_inserts [OF example_llist_rep example_llist_cur_ok len]
  show "\<exists>L'. cplus_llist_push_at example_llist 1 5 = Some (Inr (), L') \<and> contents L' [9, 5, 7, 8]"
    using T [of 5 1] example_llist_alloc
    by (auto simp: insert_at_def dest: contentsI split: prod.splits sum.splits)
  show "cplus_llist_push_at example_llist 4 5 = Some (Inl EINVAL, example_llist)"
    using T [of 5 4] by simp
qed

text \<open>
  C19. \<open>cplus_llist_pop_of\<close> on a list whose cursor is in step, for every index.  An index that is negative or
  greater than the size fails with EINVAL, and any other index of an empty list with ENOENT, and nothing changes;
  the index \<open>size - 1\<close> of a list of two or more elements faults, since the code writes through
  the null \<open>next\<close> pointer of the last node; index 0, an index before the last element, and the size
  itself, which stands for the last element, return the element's data, remove exactly its
  entry and give its node back.  Afterwards the cursor is in step when it did not have to move backwards.
\<close>

theorem llist_pop_of_removes:
  assumes "lrep L es" "cur_ok L es"
  shows "if idx < 0 \<or> int (length es) < idx then cplus_llist_pop_of L idx = Some (Inl EINVAL, L)
    else if es = [] then cplus_llist_pop_of L idx = Some (Inl ENOENT, L)
    else if 0 < idx \<and> idx = int (length es) - 1 then cplus_llist_pop_of L idx = None
    else let j = (if idx = int (length es) then length es - 1 else nat idx) in
      \<exists>L'. cplus_llist_pop_of L idx = Some (Inr (map snd es ! j), L') \<and> lrep L' (remove_at j es) \<and>
        store_live (store_of L') = store_live (store_of L) - {fst (es ! j)} \<and>
        (cursor_safe L (length es) (nat idx) \<longrightarrow> synced L' (remove_at j es))"
proof -
  consider (range) "idx < 0 \<or> int (length es) < idx" | (empty) "0 \<le> idx" "idx \<le> int (length es)" "es = []"
    | (last) "0 < idx" "idx = int (length es) - 1"
    | (one) j where "0 \<le> idx" "idx \<le> int (length es)" "\<not> (0 < idx \<and> idx = int (length es) - 1)" "es \<noteq> []"
        "j = (if idx = int (length es) then length es - 1 else nat idx)" by fastforce
  then show ?thesis
  proof cases
    case range
    then show ?thesis using count_simps(3) [OF assms(1)] by (auto simp: cplus_llist_pop_of_def)
  next
    case empty
    then show ?thesis using count_simps(2,3) [OF assms(1)]
      by (simp add: cplus_llist_pop_of_def pop_of_def take_data_def)
  next
    case last
    then have len: "length es = Suc (Suc (length es - 2))" by linarith
    have "es \<noteq> []" using last by auto
    then have "cplus_llist_pop_of L (int (Suc (length es - 2))) = None"
      using pop_last_crashes [OF assms len] len count_simps(3) [OF assms(1)]
      by (simp add: cplus_llist_pop_of_def)
    moreover have "int (Suc (length es - 2)) = idx" using last len by linarith
    ultimately show ?thesis using last by auto
  next
    case one
    then have p: "poppable (length es) (nat idx) j" and idx: "int (nat idx) = idx"
      by (auto simp: poppable_def)
    then have j: "j < length es" by (simp add: poppable_def)
    then have "fst (es ! j) \<in> store_live (store_of L)" using lrepD(10) [OF assms(1)] by auto
    from llist_pop_of_step [OF assms p] store.fre_live [OF lrepD(9) [OF assms(1)] this] j
    have "\<exists>L'. cplus_llist_pop_of L idx = Some (Inr (map snd es ! j), L') \<and> lrep L' (remove_at j es) \<and>
        store_live (store_of L') = store_live (store_of L) - {fst (es ! j)} \<and>
        (cursor_safe L (length es) (nat idx) \<longrightarrow> synced L' (remove_at j es))"
      unfolding idx by auto
    then show ?thesis using one by (simp only: Let_def) auto
  qed
qed

lemma llist_pop_of_removes_witness:
  "(\<exists>L'. cplus_llist_pop_of example_llist 1 = Some (Inr 7, L') \<and> contents L' [9, 8]) \<and>
   cplus_llist_pop_of example_llist 2 = None"
  using llist_pop_of_removes [OF example_llist_rep example_llist_cur_ok, of 1]
    llist_pop_of_removes [OF example_llist_rep example_llist_cur_ok, of 2]
  by (auto simp: remove_at_def dest: contentsI)

text \<open>
  The last element cannot be removed by its index: for \<open>size - 1\<close> of a list of two or more
  elements, \<open>cplus_llist_pop_of\<close> writes through the null \<open>next\<close> pointer of the last node.
\<close>

theorem llist_pop_of_last_index_faults:
  assumes "lrep L es" "cur_ok L es" "length es = Suc (Suc k)"
  shows "cplus_llist_pop_of L (int (Suc k)) = None"
proof -
  have "\<not> (0 > int (Suc k) \<or> int (Suc k) > sint (cplus_llist_get_size L))"
    using count_simps(3) [OF assms(1)] assms(3) by simp
  then show ?thesis using pop_last_crashes [OF assms] by (simp add: cplus_llist_pop_of_def)
qed

lemma llist_pop_of_last_index_faults_witness: "cplus_llist_pop_of example_llist 2 = None"
  using llist_pop_of_last_index_faults [OF example_llist_rep example_llist_cur_ok, of 1] by simp

section \<open>The cursor after a backward move\<close>

lemma push_at_backward:
  assumes rep: "lrep L es" and cur: "cur_at L es i" and d: "d \<noteq> CPLUS_NULL"
    and k: "0 < k" "k < i" and len: "length es < 2 ^ 31 - 1"
    and alloc: "store_alloc (store_of L) = (Inr a, s)"
  shows "\<exists>L'. cplus_llist_push_at L (int k) d = Some (Inr (), L') \<and>
    lrep L' (insert_at k (a, d) es) \<and> ls_cur_index L' = int k \<and>
    ls_current L' = Cell_prev (fst (es ! Suc k))"
proof -
  have k_len: "Suc k < length es" "k < length es" using cur k by (auto simp: cur_at_def)
  obtain L1 where new: "new_node L d = (Inr a, L1)"
    using alloc by (cases s) (auto simp: new_node_def store_of_def Let_def)
  note N = new_node_ok [OF rep new]
  have cur1: "cur_at L1 es i" using cur N(6,7) by (simp add: cur_at_def)
  have fresh: "fresh_node L1 es (a, d)" using N d by (simp add: fresh_node_def)
  obtain j where j: "k = Suc j" using k(1) by (cases k) auto
  obtain as x y bs where es: "es = as @ [x, y] @ bs" "length as = j"
    using k_len(2) unfolding j by (rule split_pair)
  have ins: "insert_at k (a, d) es = as @ [x, (a, d), y] @ bs" and k': "k = Suc (length as)"
    using es j by (simp_all add: insert_at_def)
  obtain L' where L': "push_at L1 (int k) a = Some (Inr (), L')"
    "pushed L1 (insert_at k (a, d) es) L'" "ls_cur_index L' = int k"
    "ls_current L' = cell_after L1 es k"
    using push_mid_at [OF N(1) [unfolded es(1)] cur1 [unfolded es(1)] fresh [unfolded es(1)]
        len [unfolded es(1)]]
    unfolding ins es(1) [symmetric] k' [symmetric] by auto
  have "cell_after L1 es k = Cell_prev (fst (es ! Suc k))"
    using cur1 k by (simp add: cell_after_def cur_at_def)
  moreover have "\<not> (0 > int k \<or> int k > sint (cplus_llist_get_size L))"
    using k_len count_simps(3) [OF rep] by simp
  then have "cplus_llist_push_at L (int k) d = Some (Inr (), L')"
    using d new L'(1) by (simp add: cplus_llist_push_at_def)
  ultimately show ?thesis using L' by (simp add: pushed_def)
qed

text \<open>
  When the cursor has to move backwards to the place of an insertion, it is afterwards one
  entry ahead of \<open>cur_index\<close>: asking for the element at the index just inserted returns the
  element after it.
\<close>

theorem llist_insert_behind_cursor_desyncs:
  assumes "lrep L es" "cur_at L es i" "d \<noteq> CPLUS_NULL" "0 < k" "k < i" "length es < 2 ^ 31 - 1"
    and "store_alloc (store_of L) = (Inr a, s)"
  shows "\<exists>L' L''. cplus_llist_push_at L (int k) d = Some (Inr (), L') \<and>
    lrep L' (insert_at k (a, d) es) \<and> map snd (insert_at k (a, d) es) ! k = d \<and>
    cplus_llist_get_of L' (int k) = Some (Inr (map snd es ! k), L'') \<and> \<not> cur_ok L' (insert_at k (a, d) es)"
proof -
  let ?es = "insert_at k (a, d) es"
  have k_len: "Suc k < length es" "k < length es" using assms by (auto simp: cur_at_def)
  obtain L' where L': "cplus_llist_push_at L (int k) d = Some (Inr (), L')" "lrep L' ?es"
    "ls_cur_index L' = int k" "ls_current L' = Cell_prev (fst (es ! Suc k))"
    using push_at_backward [OF assms] by blast
  have nth: "?es ! k = (a, d)" "?es ! Suc k = es ! k" "?es ! Suc (Suc k) = es ! Suc k"
    "length ?es = Suc (length es)"
    using k_len by (auto simp: insert_at_def nth_append)
  have "cell_at ?es (Suc k) (ls_current L')" using L'(4) nth k_len by simp
  then have cur: "get_current L' = Some (fst (es ! k))"
    using get_current_at [OF L'(2), of "Suc k"] nth k_len by simp
  have "?es \<noteq> []" using nth(4) by auto
  then have idx: "\<not> (0 > int k \<or> int k > sint (cplus_llist_get_size L' - 1))"
    using count_simps(5) [OF L'(2)] nth k_len by simp
  have "get_node_of L' (int k) = Some (fst (es ! k), L')"
    using cur L'(3) by (simp add: get_node_of_def)
  then have "cplus_llist_get_of L' (int k) = Some (Inr (map snd es ! k), L')"
    using idx node_at(1) [OF L'(2), of "Suc k"] entry_not_null [OF L'(2), of "Suc k"] nth k_len
    by (simp add: cplus_llist_get_of_def)
  moreover have "\<not> cur_ok L' ?es"
  proof
    assume "cur_ok L' ?es"
    then have "cell_at ?es k (ls_current L')" using L'(3) by (auto simp: cur_ok_def cur_at_def)
    then have "map fst ?es ! Suc (Suc k) = map fst ?es ! Suc k" using L'(4) nth k_len by simp
    moreover have "map fst ?es ! Suc (Suc k) \<noteq> map fst ?es ! Suc k"
      using nth_eq_iff_index_eq [OF lrepD(2) [OF L'(2)], of "Suc (Suc k)" "Suc k"] nth(4) k_len
      by (simp only: length_map)
    ultimately show False by contradiction
  qed
  ultimately show ?thesis using L'(1,2) nth k_len by (auto simp: map_insert_at insert_at_def nth_append)
qed

lemma llist_insert_behind_cursor_desyncs_witness:
  "\<exists>L' L''. cplus_llist_push_at (example_llist\<lparr>ls_current := Cell_next 32, ls_cur_index := 2\<rparr>) 1 5 =
       Some (Inr (), L') \<and> contents L' [9, 5, 7, 8] \<and> cplus_llist_get_of L' 1 = Some (Inr 7, L'')"
proof -
  let ?L = "example_llist\<lparr>ls_current := Cell_next 32, ls_cur_index := 2\<rparr>"
  have rep: "lrep ?L example_entries" using example_llist_rep by simp
  have cur: "cur_at ?L example_entries 2" by (simp add: cur_at_def)
  obtain s where alloc: "store_alloc (store_of ?L) = (Inr 64, s)"
    using example_llist_alloc by (auto simp: store_of_def)
  have "length example_entries < 2 ^ 31 - 1" "(5 :: ptr) \<noteq> CPLUS_NULL" by simp_all
  from llist_insert_behind_cursor_desyncs [OF rep cur this(2) _ _ this(1) alloc, of 1]
  show ?thesis by (auto simp: insert_at_def dest: contentsI)
qed

section \<open>By content\<close>

text \<open>
  C21. \<open>cplus_llist_get_if\<close> and \<open>cplus_llist_get_index_if\<close> terminate and find the first element
  that the comparator accepts, or fail with ENOENT when there is none; the scan starts at the
  head, so they need no cursor in step and leave one that is.
\<close>

theorem llist_search_finds_first_match:
  assumes "lrep L es"
  shows "\<exists>L1 L2. cplus_llist_get_if L cmp =
      Some (case first_match (\<lambda>d. cmp d = 0) (map snd es) of
              None \<Rightarrow> Inl ENOENT | Some m \<Rightarrow> Inr (map snd es ! m), L1) \<and>
    cplus_llist_get_index_if L cmp =
      Some (case first_match (\<lambda>d. cmp d = 0) (map snd es) of
              None \<Rightarrow> Inl ENOENT | Some m \<Rightarrow> Inr (int m), L2) \<and>
    lrep L1 es \<and> synced L1 es \<and> lrep L2 es \<and> synced L2 es"
  using get_if_at [OF assms, of cmp] get_index_if_at [OF assms, of cmp] by blast

lemma llist_search_finds_first_match_witness:
  "\<exists>L1. cplus_llist_get_index_if example_llist (\<lambda>d. if d < 9 then 0 else 1) = Some (Inr 1, L1)"
  using llist_search_finds_first_match [OF example_llist_rep, of "\<lambda>d. if d < 9 then 0 else 1"]
  by auto

text \<open>
  \<open>cplus_llist_pop_if\<close> and \<open>cplus_llist_delete_data\<close> terminate, remove exactly the first
  match, wherever it is in the list, and give its node back; without a match the list stays as
  it is.
\<close>

theorem llist_removal_by_content:
  assumes "lrep L es" "d \<noteq> CPLUS_NULL"
  shows "\<exists>L1 L2. (case first_match (\<lambda>x. cmp x = 0) (map snd es) of
      None \<Rightarrow> cplus_llist_pop_if L cmp = Some (Inl ENOENT, L1) \<and> lrep L1 es \<and>
        store_of L1 = store_of L
    | Some m \<Rightarrow> cplus_llist_pop_if L cmp = Some (Inr (map snd es ! m), L1) \<and>
        lrep L1 (remove_at m es) \<and> store_of L1 = store_free (store_of L) (fst (es ! m))) \<and>
    (case first_match (\<lambda>x. d = x) (map snd es) of
      None \<Rightarrow> cplus_llist_delete_data L d = Some (Inl ENONE, L2) \<and> lrep L2 es \<and>
        store_of L2 = store_of L
    | Some m \<Rightarrow> cplus_llist_delete_data L d = Some (Inr (), L2) \<and>
        lrep L2 (remove_at m es) \<and> store_of L2 = store_free (store_of L) (fst (es ! m)))"
  using pop_if_at [OF assms(1), of cmp] delete_data_at [OF assms] by (auto split: option.splits)

lemma llist_removal_by_content_witness:
  "\<exists>L1 L2. cplus_llist_pop_if example_llist (\<lambda>d. if d = 7 then 0 else 1) = Some (Inr 7, L1) \<and>
     contents L1 [9, 8] \<and> cplus_llist_delete_data example_llist 8 = Some (Inr (), L2) \<and>
     contents L2 [9, 7]"
proof -
  have "(8 :: ptr) \<noteq> CPLUS_NULL" by simp
  note T = llist_removal_by_content [OF example_llist_rep this, of "\<lambda>d. if d = 7 then 0 else 1"]
  have "first_match (\<lambda>x :: ptr. (if x = 7 then 0 else 1) = (0 :: int)) (map snd example_entries) = Some 1"
    "first_match (\<lambda>x :: ptr. 8 = x) (map snd example_entries) = Some 2" by simp_all
  with T show ?thesis by (fastforce simp: remove_at_def intro: contents_eqI)
qed

section \<open>Clearing\<close>

lemma clear_loop_at:
  "\<lbrakk>dls (ls_nodes L) pv es CPLUS_NULL; distinct (map fst es); CPLUS_NULL \<notin> fst ` set es\<rbrakk> \<Longrightarrow>
     \<exists>L'. clear_loop L (first_addr es CPLUS_NULL) = Some L' \<and>
       store_of L' = foldl store_free (store_of L) (map fst es) \<and>
       (\<forall>p. p \<notin> fst ` set es \<longrightarrow> ls_nodes L' p = ls_nodes L p) \<and> ls_obj L' = ls_obj L"
proof (induction es arbitrary: L pv)
  case Nil
  then show ?case by (subst clear_loop.simps) (auto simp: store_of_def)
next
  case (Cons e es)
  let ?L1 = "free_node L (fst e)"
  have e: "fst e \<noteq> CPLUS_NULL" "fst e \<notin> fst ` set es" using Cons.prems(2,3) by auto
  have L1: "ls_nodes ?L1 = (ls_nodes L)(fst e := None)" "store_of ?L1 = store_free (store_of L) (fst e)"
      "ls_obj ?L1 = ls_obj L"
    using e(1) by (auto simp: free_node_def store_of_def split: prod.split)
  have "dls (ls_nodes ?L1) (fst e) es CPLUS_NULL" using Cons.prems(1) e(2) L1(1) by simp
  from Cons.IH [OF this] Cons.prems(2,3) obtain L' where
    L': "clear_loop ?L1 (first_addr es CPLUS_NULL) = Some L'"
      "store_of L' = foldl store_free (store_of ?L1) (map fst es)"
      "\<forall>p. p \<notin> fst ` set es \<longrightarrow> ls_nodes L' p = ls_nodes ?L1 p" "ls_obj L' = ls_obj ?L1"
    by auto
  have "get_node_next L (fst e) = Some (first_addr es CPLUS_NULL)"
    using Cons.prems(1) by (simp add: get_node_next_def)
  then have "clear_loop L (first_addr (e # es) CPLUS_NULL) = Some L'"
    using e(1) L'(1) by (subst clear_loop.simps) simp
  then show ?case using L' L1 by auto
qed

text \<open>
  \<open>cplus_llist_clear\<close> terminates with an empty list, no longer marked as sorted, whose nodes
  have all been given back, each once and none other.
\<close>

theorem llist_clear_empties:
  assumes "lrep L es"
  shows "\<exists>L'. cplus_llist_clear L = Some L' \<and> lrep L' [] \<and> synced L' [] \<and> ls_sort_count L' = 0 \<and> ls_obj L' = ls_obj L \<and>
    store_of L' = foldl store_free (store_of L) (map fst es) \<and> store_live (store_of L') = store_live (store_of L) - fst ` set es"
proof -
  note D = lrepD [OF assms]
  from clear_loop_at [OF D(1,2,3)] obtain L1 where
    L1: "clear_loop L (ls_head L) = Some L1"
      "store_of L1 = foldl store_free (store_of L) (map fst es)"
      "ls_nodes L1 CPLUS_NULL = ls_nodes L CPLUS_NULL" "ls_obj L1 = ls_obj L"
    using D(3,5) by auto
  let ?L' = "reset_cur_node (L1\<lparr>ls_count := 0, ls_sort_count := 0,
    ls_head := CPLUS_NULL, ls_tail := CPLUS_NULL\<rparr>)"
  have "store_ok (store_of L1)" "store_live (store_of L1) = store_live (store_of L) - fst ` set es"
    using store.fre_many [OF D(9,2)] D(10) L1(2) by auto
  then have "lrep ?L' []" "store_live (store_of ?L') = store_live (store_of L) - fst ` set es"
    using L1(3) D(11) by (simp_all add: lrep_def store_of_def)
  moreover have "synced ?L' []" by (intro at_head_synced) simp
  moreover have "cplus_llist_clear L = Some ?L'" using L1(1) by (simp add: cplus_llist_clear_def)
  moreover have "ls_obj ?L' = ls_obj L" "store_of ?L' = foldl store_free (store_of L) (map fst es)"
    using L1(2,4) by (simp_all add: store_of_def reset_cur_node_def)
  ultimately show ?thesis by simp
qed

text \<open>Deleting a list whose nodes come from the heap gives back its nodes and itself.\<close>

lemma heap_list_delete:
  assumes L: "lrep L es" and pool: "ls_pool L = None" and obj: "ls_obj L \<noteq> CPLUS_NULL"
    "ls_obj L \<in> set (mh_live (ls_heap L))" "ls_obj L \<notin> fst ` set es"
  shows "\<exists>h. cplus_llist_delete L = Some h \<and> mheap_inv h \<and>
    set (mh_live h) = set (mh_live (ls_heap L)) - fst ` set es - {ls_obj L}"
proof -
  obtain L' where L': "cplus_llist_clear L = Some L'" "lrep L' []" "ls_obj L' = ls_obj L"
      "store_of L' = foldl store_free (store_of L) (map fst es)"
      "store_live (store_of L') = store_live (store_of L) - fst ` set es"
    using llist_clear_empties [OF L] by blast
  have "fst (foldl store_free (None, h) as) = None" for h as
    by (induction as arbitrary: h) (simp_all add: store_free_def)
  then have pool': "ls_pool L' = None"
    using L'(4) pool by (metis store_of_def fst_conv)
  have live: "set (mh_live (ls_heap L')) = set (mh_live (ls_heap L)) - fst ` set es" and inv: "mheap_inv (ls_heap L')"
    using L'(5) lrepD(9) [OF L'(2)] pool pool' by (simp_all add: store_of_def store_live_def store_ok_def)
  have in_use: "ls_obj L \<in> set (mh_live (ls_heap L'))" using live obj by auto
  have "cplus_llist_delete L = Some (cplus_mgr_free (ls_heap L') (ls_obj L))"
    using L'(1,3) pool' by (simp add: cplus_llist_delete_def)
  then show ?thesis using heap.fre_inv [OF inv in_use] heap.fre_live [OF inv in_use] live by simp
qed

lemma llist_clear_empties_witness:
  "\<exists>L'. cplus_llist_clear example_llist = Some L' \<and> contents L' [] \<and>
     store_live (store_of L') = {8}"
  using llist_clear_empties [OF example_llist_rep]
  by (auto simp: contents_def store_live_def store_of_def example_llist_def)

section \<open>The mark of a sorted list\<close>

text \<open>
  Pops do not take back the number of sorted elements: after a push and a pop on a sorted
  list the mark is still there, and \<open>cplus_llist_sort\<close> reports success without sorting a list
  that starts with an arbitrary new element.
\<close>

theorem llist_sorted_mark_goes_stale:
  assumes "lrep L es" "synced L es" "es \<noteq> []" "is_sort L" "d \<noteq> CPLUS_NULL" "length es < 2 ^ 31 - 1"
    and "store_alloc (store_of L) = (Inr a, s)"
  shows "\<exists>L1 L2. cplus_llist_push_front L d = Some (Inr (), L1) \<and>
    cplus_llist_pop_back L1 = Some (Inr (last (map snd es)), L2) \<and>
    contents L2 (d # butlast (map snd es)) \<and> cplus_llist_sort L2 cmp = Some (Inr (), L2)"
proof -
  have cur: "cur_ok L es" using assms(2) by (simp add: synced_def)
  obtain L1 where L1: "cplus_llist_push_at L 0 d = Some (Inr (), L1)" "lrep L1 ((a, d) # es)"
    "synced L1 ((a, d) # es)" "ls_sort_count L1 = ls_sort_count L"
    using llist_push_at_step [OF assms(1) cur assms(5), of 0] assms(6,7)
    by (auto simp: cursor_safe_def)
  have p: "poppable (length ((a, d) # es)) (Suc (length es)) (length es)"
    by (simp add: poppable_def)
  have cur1: "cur_ok L1 ((a, d) # es)" using L1(3) by (simp add: synced_def)
  obtain L2 where L2: "cplus_llist_pop_of L1 (int (Suc (length es))) =
      Some (Inr (snd (((a, d) # es) ! length es)), L2)" "lrep L2 (remove_at (length es) ((a, d) # es))"
    "ls_sort_count L2 = ls_sort_count L1"
    using llist_pop_of_step [OF L1(2) cur1 p] by blast
  have rem: "remove_at (length es) ((a, d) # es) = (a, d) # butlast es"
    using remove_at_ends(2) [of "(a, d) # es"] assms(3) by simp
  have data: "snd (((a, d) # es) ! length es) = last (map snd es)"
    using assms(3) by (cases es rule: rev_cases) auto
  have "cplus_llist_pop_back L1 = Some (Inr (last (map snd es)), L2)"
    using L2(1) data count_simps(3) [OF L1(2)] by (simp add: cplus_llist_pop_back_def)
  moreover have "contents L2 (d # butlast (map snd es))"
    using L2(2) unfolding rem by (intro contents_eqI) (auto simp: map_butlast)
  moreover have "is_sort L2"
  proof -
    have "ls_count L2 = of_nat (length es)"
      using lrepD(8) [OF L2(2)] assms(3) unfolding rem by (cases es) simp_all
    then show ?thesis
      using assms(4) lrepD(8) [OF assms(1)] L1(4) L2(3) by (simp add: is_sort_def get_size_def)
  qed
  then have "cplus_llist_sort L2 cmp = Some (Inr (), L2)" by (simp add: cplus_llist_sort_def)
  ultimately show ?thesis using L1(1) by (auto simp: cplus_llist_push_front_def)
qed

lemma llist_sorted_mark_goes_stale_witness:
  "\<exists>L1 L2. cplus_llist_push_front (example_llist\<lparr>ls_sort_count := 3\<rparr>) 100 = Some (Inr (), L1) \<and>
     cplus_llist_pop_back L1 = Some (Inr 8, L2) \<and> contents L2 [100, 9, 7] \<and>
     cplus_llist_sort L2 (\<lambda>x y. int (unat x) - int (unat y)) = Some (Inr (), L2)"
proof -
  let ?L = "example_llist\<lparr>ls_sort_count := 3\<rparr>"
  have L: "lrep ?L example_entries" "synced ?L example_entries"
    using example_llist_rep example_llist_synced
    by (simp_all add: synced_def cur_ok_def cur_at_def)
  have mark: "is_sort ?L" by (simp add: is_sort_def get_size_def example_llist_def)
  obtain s where alloc: "store_alloc (store_of ?L) = (Inr 64, s)"
    using example_llist_alloc by (auto simp: store_of_def)
  have "example_entries \<noteq> []" "(100 :: ptr) \<noteq> CPLUS_NULL" "length example_entries < 2 ^ 31 - 1"
    by simp_all
  from llist_sorted_mark_goes_stale [OF L this(1) mark this(2,3) alloc]
  show ?thesis by simp
qed

end
