(* ===== verification/Clib.thy ===== *)
theory Clib
  imports Prelude
begin

text \<open>
  Buffers as byte lists, and what the value components take from the memory manager
  (\<^verbatim>\<open>src/memmgr.c\<close>) and from the C library: the checked copies \<^verbatim>\<open>cplus_mem_cpy\<close>,
  \<^verbatim>\<open>cplus_mem_cpy_ex\<close>, \<^verbatim>\<open>cplus_mem_set\<close>, \<^verbatim>\<open>cplus_str_printf\<close>, allocation, the object
  representation of little-endian words, C strings, and integer printing and scanning as
  glibc does them.  A pointer to a buffer is \<open>u8 list option\<close>, \<open>None\<close> for
  \<^verbatim>\<open>CPLUS_NULL\<close>; the list is the whole object pointed to, so an access beyond it is the fault
  \<open>Out_of_bounds\<close>.  The lengths of texts stay below \<open>2 ^ 31\<close>, the range of the result of
  \<^verbatim>\<open>vsnprintf\<close>.
\<close>

type_synonym buf = "u8 list option"

section \<open>Little-endian object representation\<close>

primrec le_bytes :: "nat \<Rightarrow> 'a::len word \<Rightarrow> u8 list" where
  "le_bytes 0 w = []"
| "le_bytes (Suc n) w = ucast w # le_bytes n (drop_bit 8 w)"

primrec word_of_le :: "u8 list \<Rightarrow> 'a::len word" where
  "word_of_le [] = 0"
| "word_of_le (b # bs) = ucast b OR push_bit 8 (word_of_le bs)"

lemma length_le_bytes [simp]: "length (le_bytes n w) = n"
  by (induction n arbitrary: w) simp_all

lemma bit_word_of_le:
  "bit (word_of_le bs :: 'a::len word) i \<longleftrightarrow>
     i < LENGTH('a) \<and> i div 8 < length bs \<and> bit (bs ! (i div 8)) (i mod 8)"
proof (induction bs arbitrary: i)
  case Nil
  then show ?case by simp
next
  case (Cons b bs)
  show ?case
  proof (cases "i < 8")
    case True
    then show ?thesis by (auto simp: bit_simps)
  next
    case False
    then have "\<not> bit b i" using bit_imp_le_length [of b i] by auto
    moreover have "(i - 8) div 8 = i div 8 - 1" "(i - 8) mod 8 = i mod 8" "0 < i div 8"
      using False by (simp_all add: div_if [of i] le_mod_geq not_less)
    ultimately show ?thesis
      using False Cons.IH [of "i - 8"] by (auto simp: bit_simps nth_Cons' less_diff_conv2)
  qed
qed

lemma bit_le_bytes:
  "\<lbrakk>j < n; k < 8\<rbrakk> \<Longrightarrow> bit (le_bytes n w ! j) k \<longleftrightarrow> bit w (8 * j + k)" for w :: "'a::len word"
proof (induction n arbitrary: w j)
  case (Suc n)
  then show ?case
  proof (cases j)
    case (Suc j')
    then show ?thesis
      using Suc.prems Suc.IH [of j' "drop_bit 8 w"] by (simp add: bit_simps add.assoc [symmetric])
  qed (simp add: bit_simps)
qed simp

lemma word_of_le_le_bytes [simp]:
  fixes w :: "'a::len word"
  assumes "LENGTH('a) = 8 * n"
  shows "word_of_le (le_bytes n w) = w"
proof (rule bit_word_eqI)
  fix i
  assume i: "i < LENGTH('a)"
  then have "i div 8 < n" using assms by (simp add: less_mult_imp_div_less mult.commute)
  moreover have "8 * (i div 8) + i mod 8 = i" by simp
  ultimately show "bit (word_of_le (le_bytes n w) :: 'a word) i = bit w i"
    using i by (simp add: bit_word_of_le bit_le_bytes)
qed

lemma le_bytes_word_of_le:
  assumes "length bs = n" "LENGTH('a) = 8 * n"
  shows "le_bytes n (word_of_le bs :: 'a::len word) = bs"
proof (rule nth_equalityI)
  fix j
  assume "j < length (le_bytes n (word_of_le bs :: 'a word))"
  then have j: "j < n" by simp
  show "le_bytes n (word_of_le bs :: 'a word) ! j = bs ! j"
  proof (rule bit_word_eqI)
    fix k
    assume "k < LENGTH(8)"
    then have k: "k < 8" by simp
    then have "8 * j + k < LENGTH('a)" using j assms by simp
    with j k assms show "bit (le_bytes n (word_of_le bs :: 'a word) ! j) k = bit (bs ! j) k"
      by (simp add: bit_le_bytes bit_word_of_le)
  qed
qed (simp add: assms)

section \<open>Objects in memory\<close>

text \<open>Reading and writing the first bytes of the object a pointer designates.\<close>

definition read_obj :: "nat \<Rightarrow> u8 list \<Rightarrow> u8 list exec" where
  "read_obj n obj = (if length obj < n then Inl Out_of_bounds else Inr (take n obj))"

definition write_obj :: "u8 list \<Rightarrow> u8 list \<Rightarrow> u8 list exec" where
  "write_obj bs obj =
     (if length obj < length bs then Inl Out_of_bounds else Inr (bs @ drop (length bs) obj))"

definition RSIZE_MAX_MEM :: u32 where "RSIZE_MAX_MEM = 268435456"

text \<open>The copies return the new contents of the destination, or the \<open>errno\<close> of a refusal.\<close>

definition cplus_mem_cpy :: "buf \<Rightarrow> buf \<Rightarrow> u32 \<Rightarrow> u8 list cresult exec" where
  "cplus_mem_cpy dest src count = (case dest of None \<Rightarrow> Inr (Inl EINVAL) | Some d \<Rightarrow>
     (case src of None \<Rightarrow> Inr (Inl EINVAL) | Some s \<Rightarrow>
       if count = 0 then Inr (Inl EINVAL)
       else exec_bind (read_obj (unat count) s) (\<lambda>bs.
            exec_bind (write_obj bs d) (\<lambda>d'. Inr (Inr d')))))"

definition cplus_mem_cpy_ex :: "buf \<Rightarrow> u32 \<Rightarrow> buf \<Rightarrow> u32 \<Rightarrow> u8 list cresult exec" where
  "cplus_mem_cpy_ex dest destsz src count = (case dest of None \<Rightarrow> Inr (Inl EINVAL) | Some d \<Rightarrow>
     (case src of None \<Rightarrow> Inr (Inl EINVAL) | Some s \<Rightarrow>
       if destsz = 0 then Inr (Inl EINVAL)
       else if RSIZE_MAX_MEM < destsz then Inr (Inl EINVAL)
       else if count = 0 then Inr (Inl EINVAL)
       else if destsz < count then Inr (Inl EINVAL)
       else exec_bind (read_obj (unat count) s) (\<lambda>bs.
            exec_bind (write_obj bs d) (\<lambda>d'. Inr (Inr d')))))"

definition cplus_mem_set :: "buf \<Rightarrow> u8 \<Rightarrow> u32 \<Rightarrow> u8 list cresult exec" where
  "cplus_mem_set dest v count = (case dest of None \<Rightarrow> Inr (Inl EINVAL) | Some d \<Rightarrow>
     if RSIZE_MAX_MEM < count then Inr (Inl EINVAL)
     else if count = 0 then Inr (Inl EINVAL)
     else exec_bind (write_obj (replicate (unat count) v) d) (\<lambda>d'. Inr (Inr d')))"

text \<open>What a caller that ignores the result of a copy finds in the destination.\<close>

definition or_unchanged :: "u8 list cresult \<Rightarrow> u8 list \<Rightarrow> u8 list" where
  "or_unchanged r d = (case r of Inl e \<Rightarrow> d | Inr d' \<Rightarrow> d')"

lemma or_unchanged_simps [simp]:
  "or_unchanged (Inl e) d = d" "or_unchanged (Inr d') d = d'"
  by (simp_all add: or_unchanged_def)

text \<open>
  \<^verbatim>\<open>cplus_str_printf(dest, sz, format, ...)\<close> for an already formatted text: at most
  \<open>sz - 1\<close> bytes and a terminator are written, the full length is returned.
\<close>

definition cplus_str_printf :: "buf \<Rightarrow> u32 \<Rightarrow> u8 list \<Rightarrow> (int \<times> buf) exec" where
  "cplus_str_printf dest sz text =
     (if sz = 0 then Inr (int (length text), dest)
      else (case dest of None \<Rightarrow> Inl Null_deref | Some d \<Rightarrow>
        exec_bind (write_obj (take (unat sz - 1) text @ [0]) d)
          (\<lambda>d'. Inr (int (length text), Some d'))))"

section \<open>Allocation\<close>

text \<open>
  The outcome of the allocations of one call is an argument: for a size, \<open>None\<close> when the
  allocation fails, or the indeterminate contents of the new bytes by position.
\<close>

type_synonym alloc = "u32 \<Rightarrow> (nat \<Rightarrow> u8) option"

definition malloc_buf :: "alloc \<Rightarrow> u32 \<Rightarrow> buf" where
  "malloc_buf al n = map_option (\<lambda>junk. map junk [0..<unat n]) (al n)"

text \<open>
  \<^verbatim>\<open>cplus_mgr_realloc\<close> refuses a null pointer; when \<^verbatim>\<open>realloc\<close> fails it frees the old block
  and returns null.
\<close>

definition realloc_buf :: "alloc \<Rightarrow> buf \<Rightarrow> u32 \<Rightarrow> buf cresult" where
  "realloc_buf al p n = (case p of None \<Rightarrow> Inl EINVAL | Some old \<Rightarrow>
     (case al n of None \<Rightarrow> Inl ENOMEM
      | Some junk \<Rightarrow> Inr (Some (take (unat n) old @ map junk [length old..<unat n]))))"

definition or_null :: "buf cresult \<Rightarrow> buf" where
  "or_null r = (case r of Inl e \<Rightarrow> None | Inr b \<Rightarrow> b)"

lemma length_malloc_buf: "malloc_buf al n = Some b \<Longrightarrow> length b = unat n"
  by (auto simp: malloc_buf_def)

lemma length_realloc_buf:
  "or_null (realloc_buf al (Some old) n) = Some b \<Longrightarrow> length b = unat n"
  by (auto simp: realloc_buf_def or_null_def split: option.splits)

text \<open>No allocation fails.\<close>

definition allocates :: "alloc \<Rightarrow> bool" where
  "allocates al \<longleftrightarrow> (\<forall>n. al n \<noteq> None)"

lemma allocates_bufs:
  assumes "allocates al"
  obtains room where "malloc_buf al n = Some room" "length room = unat n"
proof -
  obtain j where "al n = Some j" using assms by (auto simp: allocates_def)
  then have "malloc_buf al n = Some (map j [0..<unat n])" by (simp add: malloc_buf_def)
  then show ?thesis by (rule that) simp
qed

lemma allocates_realloc:
  assumes "allocates al"
  obtains room where "or_null (realloc_buf al (Some old) n) = Some room" "length room = unat n"
proof -
  obtain j where "al n = Some j" using assms by (auto simp: allocates_def)
  then have "or_null (realloc_buf al (Some old) n) =
      Some (take (unat n) old @ map j [length old..<unat n])"
    by (simp add: realloc_buf_def or_null_def)
  then show ?thesis by (rule that) simp
qed

section \<open>C strings\<close>

definition c_str :: "buf \<Rightarrow> u8 list exec" where
  "c_str p = (case p of None \<Rightarrow> Inl Null_deref
     | Some b \<Rightarrow> if 0 \<in> set b then Inr (takeWhile (\<lambda>x. x \<noteq> 0) b) else Inl Out_of_bounds)"

text \<open>\<^verbatim>\<open>"%s"\<close>, for which glibc prints a null pointer as \<open>(null)\<close>.\<close>

definition fmt_s :: "buf \<Rightarrow> u8 list exec" where
  "fmt_s p = (case p of None \<Rightarrow> Inr [40, 110, 117, 108, 108, 41] | Some b \<Rightarrow> c_str (Some b))"

lemma c_str_terminated: "0 \<notin> set s \<Longrightarrow> c_str (Some (s @ 0 # t)) = Inr s"
proof -
  assume "0 \<notin> set s"
  then have "takeWhile (\<lambda>x. x \<noteq> 0) (s @ 0 # t) = s"
    by (subst takeWhile_append2) auto
  then show ?thesis by (simp add: c_str_def)
qed

lemma fmt_s_terminated: "0 \<notin> set s \<Longrightarrow> fmt_s (Some (s @ 0 # t)) = Inr s"
  by (simp add: fmt_s_def c_str_terminated)

definition text_true :: "u8 list" where "text_true = [116, 114, 117, 101]"

definition text_false :: "u8 list" where "text_false = [102, 97, 108, 115, 101]"

definition to_lower :: "u8 \<Rightarrow> u8" where
  "to_lower b = (if 65 \<le> b \<and> b \<le> 90 then b + 32 else b)"

text \<open>\<^verbatim>\<open>0 == strcasecmp(s, t)\<close>.\<close>

definition strcaseeq :: "u8 list \<Rightarrow> u8 list \<Rightarrow> bool" where
  "strcaseeq s t \<longleftrightarrow> map to_lower s = map to_lower t"

section \<open>Printing and scanning integers\<close>

fun dec_digits :: "nat \<Rightarrow> u8 list" where
  "dec_digits n = (if n < 10 then [of_nat (48 + n)]
     else dec_digits (n div 10) @ [of_nat (48 + n mod 10)])"

declare dec_digits.simps [simp del]

text \<open>\<^verbatim>\<open>"%d"\<close>, \<^verbatim>\<open>"%ld"\<close>, \<^verbatim>\<open>"%u"\<close>, \<^verbatim>\<open>"%lu"\<close> of a value of the corresponding type.\<close>

definition fmt_dec :: "int \<Rightarrow> u8 list" where
  "fmt_dec i = (if i < 0 then 45 # dec_digits (nat (- i)) else dec_digits (nat i))"

definition is_space :: "u8 \<Rightarrow> bool" where
  "is_space b \<longleftrightarrow> b = 32 \<or> 9 \<le> b \<and> b \<le> 13"

definition is_digit :: "u8 \<Rightarrow> bool" where
  "is_digit b \<longleftrightarrow> 48 \<le> b \<and> b \<le> 57"

definition dec_value :: "u8 list \<Rightarrow> nat" where
  "dec_value ds = foldl (\<lambda>n d. 10 * n + (unat d - 48)) 0 ds"

text \<open>White space, an optional sign, at least one digit.\<close>

definition scan_number :: "u8 list \<Rightarrow> (bool \<times> nat) option" where
  "scan_number s =
     (let s1 = dropWhile is_space s;
          neg = (s1 \<noteq> [] \<and> hd s1 = 45);
          s2 = (if s1 \<noteq> [] \<and> (hd s1 = 45 \<or> hd s1 = 43) then tl s1 else s1);
          ds = takeWhile is_digit s2
      in if ds = [] then None else Some (neg, dec_value ds))"

text \<open>\<^verbatim>\<open>strtol\<close> and \<^verbatim>\<open>strtoul\<close> for the 64-bit \<^verbatim>\<open>long\<close>, saturating.\<close>

definition strtol :: "bool \<times> nat \<Rightarrow> int" where
  "strtol nm = (if fst nm then - min (int (snd nm)) (2 ^ 63) else min (int (snd nm)) (2 ^ 63 - 1))"

definition strtoul :: "bool \<times> nat \<Rightarrow> int" where
  "strtoul nm = (if 2 ^ 64 \<le> snd nm then 2 ^ 64 - 1
     else if fst nm then (- int (snd nm)) mod 2 ^ 64 else int (snd nm))"

text \<open>
  \<^verbatim>\<open>sscanf\<close> with \<^verbatim>\<open>"%d"\<close>, \<^verbatim>\<open>"%u"\<close>, \<^verbatim>\<open>"%ld"\<close> and \<^verbatim>\<open>"%lu"\<close>: \<open>None\<close> unless one item was
  converted; the 32-bit conversions store the low half of the 64-bit result.
\<close>

definition scan_ld :: "u8 list \<Rightarrow> int option" where
  "scan_ld s = map_option strtol (scan_number s)"

definition scan_lu :: "u8 list \<Rightarrow> int option" where
  "scan_lu s = map_option strtoul (scan_number s)"

definition scan_d :: "u8 list \<Rightarrow> int option" where
  "scan_d s = map_option (\<lambda>i. sint (word_of_int i :: u32)) (scan_ld s)"

definition scan_u :: "u8 list \<Rightarrow> int option" where
  "scan_u s = map_option (\<lambda>i. uint (word_of_int i :: u32)) (scan_lu s)"

lemma unat_digit: "n < 10 \<Longrightarrow> unat (of_nat (48 + n) :: u8) = 48 + n"
  by (simp add: unat_of_nat take_bit_nat_eq_self del: of_nat_add)

lemma is_digit_of_nat: "n < 10 \<Longrightarrow> is_digit (of_nat (48 + n))"
  using unat_digit [of n] by (simp add: is_digit_def word_le_nat_alt del: of_nat_add)

lemma dec_digits_digit: "d \<in> set (dec_digits n) \<Longrightarrow> is_digit d"
proof (induction n rule: dec_digits.induct)
  case (1 n)
  then show ?case
    using is_digit_of_nat [of n] is_digit_of_nat [of "n mod 10"]
    by (subst (asm) (2) dec_digits.simps) (auto split: if_splits)
qed

lemma dec_digits_not_Nil: "dec_digits n \<noteq> []"
  by (subst dec_digits.simps) simp

lemma dec_value_snoc: "dec_value (ds @ [d]) = 10 * dec_value ds + (unat d - 48)"
  by (simp add: dec_value_def)

lemma dec_value_dec_digits: "dec_value (dec_digits n) = n"
proof (induction n rule: dec_digits.induct)
  case (1 n)
  show ?case
  proof (cases "n < 10")
    case True
    then show ?thesis by (subst dec_digits.simps) (simp add: dec_value_def unat_digit del: of_nat_add)
  next
    case False
    have "unat (of_nat (48 + n mod 10) :: u8) = 48 + n mod 10" by (rule unat_digit) simp
    with False 1 show ?thesis
      by (subst dec_digits.simps) (simp add: dec_value_snoc del: of_nat_add)
  qed
qed

lemma digit_not_space: "is_digit d \<Longrightarrow> \<not> is_space d \<and> d \<noteq> 45 \<and> d \<noteq> 43 \<and> d \<noteq> 0"
  by (auto simp: is_digit_def is_space_def word_le_nat_alt)

lemma scan_number_digits:
  assumes "ds \<noteq> []" "\<And>d. d \<in> set ds \<Longrightarrow> is_digit d"
  shows "scan_number ds = Some (False, dec_value ds)"
    and "scan_number (45 # ds) = Some (True, dec_value ds)"
proof -
  have hd: "is_digit (hd ds)" using assms by simp
  have "dropWhile is_space ds = ds"
    using assms hd digit_not_space by (cases ds) auto
  moreover have tw: "takeWhile is_digit ds = ds" using assms(2) by simp
  ultimately show "scan_number ds = Some (False, dec_value ds)"
    using assms(1) digit_not_space [OF hd] by (simp add: scan_number_def tw Let_def)
  have "\<not> is_space 45" by (simp add: is_space_def)
  then show "scan_number (45 # ds) = Some (True, dec_value ds)"
    using assms(1) by (simp add: scan_number_def Let_def tw)
qed

lemma scan_number_fmt_dec: "scan_number (fmt_dec i) = Some (i < 0, nat \<bar>i\<bar>)"
  by (auto simp: fmt_dec_def scan_number_digits dec_digits_digit dec_digits_not_Nil
      dec_value_dec_digits)

lemma fmt_dec_no_nul: "0 \<notin> set (fmt_dec i)"
proof -
  have "0 \<notin> set (dec_digits n)" for n
    using dec_digits_digit [of 0 n] digit_not_space [of 0] by blast
  then show ?thesis by (simp add: fmt_dec_def)
qed

lemma scan_ld_fmt_dec: "\<lbrakk>- (2 ^ 63) \<le> i; i < 2 ^ 63\<rbrakk> \<Longrightarrow> scan_ld (fmt_dec i) = Some i"
  by (simp add: scan_ld_def scan_number_fmt_dec strtol_def)

lemma scan_lu_fmt_dec: "\<lbrakk>0 \<le> i; i < 2 ^ 64\<rbrakk> \<Longrightarrow> scan_lu (fmt_dec i) = Some i"
  by (simp add: scan_lu_def scan_number_fmt_dec strtoul_def nat_less_iff not_le [symmetric] le_nat_iff)

end
