(* ===== verification/Data.thy ===== *)
theory Data
  imports Clib
begin

text \<open>
  The tagged value object of \<^verbatim>\<open>src/data.c\<close>: its state, construction, keys, the untyped
  and typed accessors, cloning and byte swapping.

  \<^verbatim>\<open>struct data\<close> is the record \<open>data\<close>; the type tag \<^verbatim>\<open>data_type\<close>, fixed when the object is
  made, and the union \<^verbatim>\<open>CPLUS_DATA_VALUE\<close>, of which the code only ever touches the member the
  tag selects, are together the datatype \<open>data_value\<close>.  A \<^verbatim>\<open>bool\<close> is its object
  representation, one byte; \<^verbatim>\<open>float\<close> and \<^verbatim>\<open>double\<close> are their bit patterns; buffers are byte
  lists owned by the object.  The object's spin lock is the flag \<open>dt_locked\<close>: an operation that
  has to take a lock that is already held never returns (\<open>Spin_forever\<close>).  \<^verbatim>\<open>void *\<close> arguments
  are the bytes of the object they point to, so that an access through a pointer of the wrong
  type is an access out of bounds.  Callers pass a live object of this type
  (\<^verbatim>\<open>CHECK_OBJECT_TYPE\<close> holds).
\<close>

section \<open>State\<close>

datatype data_type =
    TYPE_NULL | TYPE_BOOL | TYPE_INT8 | TYPE_INT16 | TYPE_INT32 | TYPE_INT64
  | TYPE_UINT8 | TYPE_UINT16 | TYPE_UINT32 | TYPE_UINT64 | TYPE_FLOAT | TYPE_DOUBLE
  | TYPE_POINTER | TYPE_STRING | TYPE_BYTE_ARRAY | TYPE_UNKNOWN

primrec type_code :: "data_type \<Rightarrow> int" where
  "type_code TYPE_NULL = 0"
| "type_code TYPE_BOOL = 1"
| "type_code TYPE_INT8 = 2"
| "type_code TYPE_INT16 = 3"
| "type_code TYPE_INT32 = 4"
| "type_code TYPE_INT64 = 5"
| "type_code TYPE_UINT8 = 6"
| "type_code TYPE_UINT16 = 7"
| "type_code TYPE_UINT32 = 8"
| "type_code TYPE_UINT64 = 9"
| "type_code TYPE_FLOAT = 10"
| "type_code TYPE_DOUBLE = 11"
| "type_code TYPE_POINTER = 12"
| "type_code TYPE_STRING = 13"
| "type_code TYPE_BYTE_ARRAY = 14"
| "type_code TYPE_UNKNOWN = 15"

datatype data_value =
    Val_null
  | Val_bool u8
  | Val_i8 u8
  | Val_i16 u16
  | Val_i32 u32
  | Val_i64 u64
  | Val_u8 u8
  | Val_u16 u16
  | Val_u32 u32
  | Val_u64 u64
  | Val_float u32
  | Val_double u64
  | Val_pointer ptr
  | Val_string u32 buf
  | Val_byte_array u32 buf
  | Val_unknown

primrec type_of :: "data_value \<Rightarrow> data_type" where
  "type_of Val_null = TYPE_NULL"
| "type_of (Val_bool b) = TYPE_BOOL"
| "type_of (Val_i8 x) = TYPE_INT8"
| "type_of (Val_i16 x) = TYPE_INT16"
| "type_of (Val_i32 x) = TYPE_INT32"
| "type_of (Val_i64 x) = TYPE_INT64"
| "type_of (Val_u8 x) = TYPE_UINT8"
| "type_of (Val_u16 x) = TYPE_UINT16"
| "type_of (Val_u32 x) = TYPE_UINT32"
| "type_of (Val_u64 x) = TYPE_UINT64"
| "type_of (Val_float x) = TYPE_FLOAT"
| "type_of (Val_double x) = TYPE_DOUBLE"
| "type_of (Val_pointer x) = TYPE_POINTER"
| "type_of (Val_string len b) = TYPE_STRING"
| "type_of (Val_byte_array len b) = TYPE_BYTE_ARRAY"
| "type_of Val_unknown = TYPE_UNKNOWN"

text \<open>The union after the structure has been cleared.\<close>

primrec zero_value :: "data_type \<Rightarrow> data_value" where
  "zero_value TYPE_NULL = Val_null"
| "zero_value TYPE_BOOL = Val_bool 0"
| "zero_value TYPE_INT8 = Val_i8 0"
| "zero_value TYPE_INT16 = Val_i16 0"
| "zero_value TYPE_INT32 = Val_i32 0"
| "zero_value TYPE_INT64 = Val_i64 0"
| "zero_value TYPE_UINT8 = Val_u8 0"
| "zero_value TYPE_UINT16 = Val_u16 0"
| "zero_value TYPE_UINT32 = Val_u32 0"
| "zero_value TYPE_UINT64 = Val_u64 0"
| "zero_value TYPE_FLOAT = Val_float 0"
| "zero_value TYPE_DOUBLE = Val_double 0"
| "zero_value TYPE_POINTER = Val_pointer 0"
| "zero_value TYPE_STRING = Val_string 0 None"
| "zero_value TYPE_BYTE_ARRAY = Val_byte_array 0 None"
| "zero_value TYPE_UNKNOWN = Val_unknown"

record data =
  dt_is_valid :: bool
  dt_action_mode :: u32
  dt_key_len :: u32
  dt_key :: buf
  dt_locked :: bool
  dt_str_code :: u32
  dt_bufs_size :: u32
  dt_value :: data_value

section \<open>The object's lock\<close>

definition data_spin_lock :: "data \<Rightarrow> data exec" where
  "data_spin_lock dt =
     (if dt_locked dt then Inl Spin_forever else Inr (dt\<lparr>dt_locked := True\<rparr>))"

definition data_spin_unlock :: "data \<Rightarrow> data" where
  "data_spin_unlock dt = dt\<lparr>dt_locked := False\<rparr>"

text \<open>A body between \<^verbatim>\<open>DATA_SPIN_LOCK()\<close> and \<^verbatim>\<open>DATA_SPIN_UNLOCK()\<close>, on every way out of it.\<close>

definition locked :: "data \<Rightarrow> (data \<Rightarrow> ('r \<times> data) exec) \<Rightarrow> ('r \<times> data) exec" where
  "locked dt body = exec_bind (data_spin_lock dt) (\<lambda>d.
     exec_bind (body d) (\<lambda>(r, d'). Inr (r, data_spin_unlock d')))"

section \<open>Keys\<close>

definition cplus_data_set_key :: "alloc \<Rightarrow> data \<Rightarrow> u32 \<Rightarrow> buf \<Rightarrow> (unit cresult \<times> data) exec" where
  "cplus_data_set_key al dt key_len key =
     (if key = None then Inr (Inl EINVAL, dt)
      else if key_len = 0 then Inr (Inl EINVAL, dt)
      else locked dt (\<lambda>d.
        let n = key_len + 1 in
        if n \<le> dt_key_len d then
          exec_bind (cplus_mem_cpy_ex (dt_key d) (dt_key_len d) key n) (\<lambda>r.
            Inr (Inr (), d\<lparr>dt_key := map_option (or_unchanged r) (dt_key d)\<rparr>))
        else
          (let fresh = (case dt_key d of None \<Rightarrow> malloc_buf al n
                        | Some old \<Rightarrow> or_null (realloc_buf al (Some old) n));
               d1 = d\<lparr>dt_key_len := n, dt_key := fresh\<rparr>
           in case fresh of
                None \<Rightarrow> Inr (Inl (if dt_key d = None then ENOMEM else ENOBUFS), d1)
              | Some b \<Rightarrow> exec_bind (cplus_mem_cpy_ex (Some b) n key n) (\<lambda>r.
                  Inr (Inr (), d1\<lparr>dt_key := Some (or_unchanged r b)\<rparr>)))))"

definition cplus_data_get_key :: "data \<Rightarrow> buf" where
  "cplus_data_get_key dt = dt_key dt"

definition cplus_data_set_action_mode :: "data \<Rightarrow> u32 \<Rightarrow> data" where
  "cplus_data_set_action_mode dt mode = dt\<lparr>dt_action_mode := mode\<rparr>"

definition cplus_data_get_action_mode :: "data \<Rightarrow> u32" where
  "cplus_data_get_action_mode dt = dt_action_mode dt"

section \<open>Type and size\<close>

definition cplus_data_get_type :: "data \<Rightarrow> int" where
  "cplus_data_get_type dt = type_code (type_of (dt_value dt))"

definition cplus_type_string :: "string list" where
  "cplus_type_string = [''NULL'', ''BOOL'', ''INT8'', ''INT16'', ''INT32'', ''INT64'', ''UINT8'',
     ''UINT16'', ''UINT32'', ''UINT64'', ''FLOAT'', ''DOUBLE'', ''POINTER'', ''STRING'',
     ''BYTE_ARRAY'', ''UNKNOWN'']"

definition cplus_data_get_type_str :: "data_type \<Rightarrow> string cresult" where
  "cplus_data_get_type_str ty =
     (if type_code TYPE_NULL > type_code ty \<or> type_code ty > type_code TYPE_UNKNOWN
      then Inl EINVAL else Inr (cplus_type_string ! nat (type_code ty)))"

definition cplus_data_is_valid :: "data option \<Rightarrow> bool" where
  "cplus_data_is_valid obj = (case obj of None \<Rightarrow> False | Some dt \<Rightarrow>
     \<not> (type_code (type_of (dt_value dt)) \<ge> type_code TYPE_UNKNOWN \<or>
        type_code (type_of (dt_value dt)) \<le> type_code TYPE_NULL \<or> \<not> dt_is_valid dt))"

text \<open>The size, and the \<open>errno\<close> of the unknown type (whose size is 0).\<close>

definition cplus_data_get_data_size :: "data \<Rightarrow> (u32 cresult \<times> data) exec" where
  "cplus_data_get_data_size dt = (case dt_value dt of
     Val_null \<Rightarrow> Inr (Inr 0, dt)
   | Val_bool b \<Rightarrow> Inr (Inr 1, dt)
   | Val_i8 x \<Rightarrow> Inr (Inr 1, dt)
   | Val_i16 x \<Rightarrow> Inr (Inr 2, dt)
   | Val_i32 x \<Rightarrow> Inr (Inr 4, dt)
   | Val_i64 x \<Rightarrow> Inr (Inr 8, dt)
   | Val_u8 x \<Rightarrow> Inr (Inr 1, dt)
   | Val_u16 x \<Rightarrow> Inr (Inr 2, dt)
   | Val_u32 x \<Rightarrow> Inr (Inr 4, dt)
   | Val_u64 x \<Rightarrow> Inr (Inr 8, dt)
   | Val_float x \<Rightarrow> Inr (Inr 4, dt)
   | Val_double x \<Rightarrow> Inr (Inr 8, dt)
   | Val_pointer p \<Rightarrow> Inr (Inr 8, dt)
   | Val_string len b \<Rightarrow> locked dt (\<lambda>d.
       exec_bind (c_str b) (\<lambda>s. Inr (Inr (of_nat (length s)), d)))
   | Val_byte_array len b \<Rightarrow> locked dt (\<lambda>d. Inr (Inr len, d))
   | Val_unknown \<Rightarrow> Inr (Inl EINVAL, dt))"

section \<open>Reading the value\<close>

text \<open>
  The scalar reads: \<open>GET_VALUE_FROM_DATA_BUFS_S\<close> stores atomically through \<^verbatim>\<open>value1\<close>,
  \<open>GET_VALUE_FROM_DATA_BUFS_SPIN\<close> copies under the lock.  The results are the returned size and
  the new contents of the two objects the arguments point to.
\<close>

type_synonym get_result = "int cresult \<times> buf \<times> buf"

definition GET_VALUE_FROM_DATA_BUFS_S ::
    "u8 list \<Rightarrow> buf \<Rightarrow> data \<Rightarrow> u8 list \<Rightarrow> (get_result \<times> data) exec" where
  "GET_VALUE_FROM_DATA_BUFS_S obj value2 dt bs = exec_bind (write_obj bs obj) (\<lambda>o1.
     Inr ((Inr (int (length bs)), Some o1, value2), dt))"

definition GET_VALUE_FROM_DATA_BUFS_SPIN ::
    "u8 list \<Rightarrow> buf \<Rightarrow> data \<Rightarrow> u8 list \<Rightarrow> (get_result \<times> data) exec" where
  "GET_VALUE_FROM_DATA_BUFS_SPIN obj value2 dt bs = locked dt (\<lambda>d.
     exec_bind (cplus_mem_cpy (Some obj) (Some bs) (of_nat (length bs))) (\<lambda>r.
       Inr ((Inr (int (length bs)), Some (or_unchanged r obj), value2), d)))"

definition get_string_value ::
    "u8 list \<Rightarrow> buf \<Rightarrow> u8 list \<Rightarrow> data \<Rightarrow> (get_result \<times> data) exec" where
  "get_string_value obj b out d =
     exec_bind (read_obj 4 obj) (\<lambda>n. exec_bind (c_str b) (\<lambda>s.
       if unat (word_of_le n :: u32) < length s + 1
       then Inr ((Inl ENOBUFS, Some obj, Some out), d)
       else exec_bind (cplus_str_printf (Some out) (word_of_le n) s) (\<lambda>(res, out').
         Inr ((Inr res, Some obj, out'), d))))"

definition cplus_data_get_value :: "data \<Rightarrow> buf \<Rightarrow> buf \<Rightarrow> (get_result \<times> data) exec" where
  "cplus_data_get_value dt value1 value2 =
     (case value1 of None \<Rightarrow> Inr ((Inl EINVAL, value1, value2), dt) | Some obj \<Rightarrow>
       (case dt_value dt of
          Val_null \<Rightarrow> Inr ((Inl EINVAL, value1, value2), dt)
        | Val_bool b \<Rightarrow> GET_VALUE_FROM_DATA_BUFS_S obj value2 dt [b]
        | Val_i8 x \<Rightarrow> GET_VALUE_FROM_DATA_BUFS_S obj value2 dt (le_bytes 1 x)
        | Val_i16 x \<Rightarrow> GET_VALUE_FROM_DATA_BUFS_S obj value2 dt (le_bytes 2 x)
        | Val_i32 x \<Rightarrow> GET_VALUE_FROM_DATA_BUFS_S obj value2 dt (le_bytes 4 x)
        | Val_i64 x \<Rightarrow> GET_VALUE_FROM_DATA_BUFS_SPIN obj value2 dt (le_bytes 8 x)
        | Val_u8 x \<Rightarrow> GET_VALUE_FROM_DATA_BUFS_S obj value2 dt (le_bytes 1 x)
        | Val_u16 x \<Rightarrow> GET_VALUE_FROM_DATA_BUFS_S obj value2 dt (le_bytes 2 x)
        | Val_u32 x \<Rightarrow> GET_VALUE_FROM_DATA_BUFS_S obj value2 dt (le_bytes 4 x)
        | Val_u64 x \<Rightarrow> GET_VALUE_FROM_DATA_BUFS_SPIN obj value2 dt (le_bytes 8 x)
        | Val_float x \<Rightarrow> GET_VALUE_FROM_DATA_BUFS_SPIN obj value2 dt (le_bytes 4 x)
        | Val_double x \<Rightarrow> GET_VALUE_FROM_DATA_BUFS_SPIN obj value2 dt (le_bytes 8 x)
        | Val_pointer p \<Rightarrow> GET_VALUE_FROM_DATA_BUFS_S obj value2 dt (le_bytes 8 p)
        | Val_string len b \<Rightarrow> (case value2 of
            None \<Rightarrow> Inr ((Inl EINVAL, value1, value2), dt)
          | Some out \<Rightarrow> locked dt (get_string_value obj b out))
        | Val_byte_array len b \<Rightarrow> (case value2 of
            None \<Rightarrow> Inr ((Inl EINVAL, value1, value2), dt)
          | Some out \<Rightarrow> exec_bind (data_spin_lock dt) (\<lambda>d.
              exec_bind (read_obj 4 obj) (\<lambda>n.
                if (word_of_le n :: u32) < len
                then Inr ((Inl ENOBUFS, value1, value2), data_spin_unlock d)
                else exec_bind (cplus_mem_cpy_ex (Some out) (word_of_le n) b len) (\<lambda>r.
                  case r of
                    Inl e \<Rightarrow> Inr ((Inl e, value1, value2), d)
                  | Inr out' \<Rightarrow>
                      Inr ((Inr (sint len), value1, Some out'), data_spin_unlock d)))))
        | Val_unknown \<Rightarrow> Inr ((Inl EINVAL, value1, value2), dt)))"

section \<open>Setting the value\<close>

text \<open>The atomic store, and the copy under the lock, of the object \<^verbatim>\<open>value1\<close> points to.\<close>

definition SET_POINTER_VALUE_TO_DATA_BUFS_S ::
    "u8 list \<Rightarrow> data \<Rightarrow> nat \<Rightarrow> (u8 list \<Rightarrow> data_value) \<Rightarrow> (unit cresult \<times> data) exec" where
  "SET_POINTER_VALUE_TO_DATA_BUFS_S obj dt n mk = exec_bind (read_obj n obj) (\<lambda>bs.
     Inr (Inr (), dt\<lparr>dt_value := mk bs\<rparr>))"

definition SET_VALUE_TO_DATA_BUFS_SPIN ::
    "u8 list \<Rightarrow> data \<Rightarrow> nat \<Rightarrow> (u8 list \<Rightarrow> data_value) \<Rightarrow> (unit cresult \<times> data) exec" where
  "SET_VALUE_TO_DATA_BUFS_SPIN obj dt n mk = locked dt (\<lambda>d.
     exec_bind (read_obj n obj) (\<lambda>bs. Inr (Inr (), d\<lparr>dt_value := mk bs\<rparr>)))"

text \<open>A string buffer with room for \<open>need\<close> bytes: the recorded length and the buffer.\<close>

definition grow_string :: "alloc \<Rightarrow> u32 \<Rightarrow> buf \<Rightarrow> u32 \<Rightarrow> u32 \<times> buf" where
  "grow_string al len b need = (case b of
     None \<Rightarrow> (need, malloc_buf al need)
   | Some old \<Rightarrow> if len < need then (need, or_null (realloc_buf al (Some old) need)) else (len, b))"

definition set_string_value ::
    "alloc \<Rightarrow> u32 \<Rightarrow> buf \<Rightarrow> u32 \<Rightarrow> buf \<Rightarrow> data \<Rightarrow> (unit cresult \<times> data) exec" where
  "set_string_value al n value2 len b d =
     (let (len', b') = grow_string al len b (n + 1) in
      case b' of
        None \<Rightarrow> Inr (Inl ENOMEM, d\<lparr>dt_value := Val_string len' None\<rparr>)
      | Some room \<Rightarrow> (case value2 of
          Some text \<Rightarrow> exec_bind (c_str (Some text)) (\<lambda>s.
            exec_bind (cplus_str_printf (Some room) len' s) (\<lambda>(res, out).
              Inr (Inr (), d\<lparr>dt_value := Val_string len' out\<rparr>)))
        | None \<Rightarrow> exec_bind (cplus_mem_set (Some room) 0 len') (\<lambda>r.
            Inr (Inr (), d\<lparr>dt_value := Val_string len' (Some (or_unchanged r room))\<rparr>))))"

definition set_byte_array_value ::
    "alloc \<Rightarrow> u32 \<Rightarrow> buf \<Rightarrow> u32 \<Rightarrow> buf \<Rightarrow> data \<Rightarrow> (unit cresult \<times> data) exec" where
  "set_byte_array_value al n value2 len b d =
     (let (size', b') = (case b of
            None \<Rightarrow> (n, malloc_buf al n)
          | Some old \<Rightarrow> if len < n then (n, or_null (realloc_buf al (Some old) n)) else (len, b));
          d1 = d\<lparr>dt_bufs_size := size', dt_value := Val_byte_array n b'\<rparr>
      in case b' of
        None \<Rightarrow> Inr (Inl ENOMEM, d1)
      | Some room \<Rightarrow> (case value2 of
          Some src \<Rightarrow> exec_bind (cplus_mem_cpy_ex (Some room) size' (Some src) n) (\<lambda>r.
            Inr (Inr (), d1\<lparr>dt_value := Val_byte_array n (Some (or_unchanged r room))\<rparr>))
        | None \<Rightarrow> exec_bind (cplus_mem_set (Some room) 0 size') (\<lambda>r.
            Inr (Inr (), d1\<lparr>dt_value := Val_byte_array n (Some (or_unchanged r room))\<rparr>))))"

text \<open>A successful setter ends by marking the value as set.\<close>

definition then_valid :: "(unit cresult \<times> data) exec \<Rightarrow> (unit cresult \<times> data) exec" where
  "then_valid m = exec_bind m (\<lambda>(r, d).
     case r of Inl e \<Rightarrow> Inr (Inl e, d) | Inr u \<Rightarrow> Inr (Inr u, d\<lparr>dt_is_valid := True\<rparr>))"

definition cplus_data_set_value ::
    "alloc \<Rightarrow> data \<Rightarrow> buf \<Rightarrow> buf \<Rightarrow> (unit cresult \<times> data) exec" where
  "cplus_data_set_value al dt value1 value2 =
     (case value1 of None \<Rightarrow> Inr (Inl EINVAL, dt) | Some obj \<Rightarrow> then_valid
       (case dt_value dt of
          Val_null \<Rightarrow> Inr (Inl EINVAL, dt)
        | Val_bool b \<Rightarrow> SET_POINTER_VALUE_TO_DATA_BUFS_S obj dt 1 (\<lambda>bs. Val_bool (hd bs))
        | Val_i8 x \<Rightarrow> SET_POINTER_VALUE_TO_DATA_BUFS_S obj dt 1 (\<lambda>bs. Val_i8 (word_of_le bs))
        | Val_i16 x \<Rightarrow> SET_POINTER_VALUE_TO_DATA_BUFS_S obj dt 2 (\<lambda>bs. Val_i16 (word_of_le bs))
        | Val_i32 x \<Rightarrow> SET_POINTER_VALUE_TO_DATA_BUFS_S obj dt 4 (\<lambda>bs. Val_i32 (word_of_le bs))
        | Val_i64 x \<Rightarrow> SET_VALUE_TO_DATA_BUFS_SPIN obj dt 8 (\<lambda>bs. Val_i64 (word_of_le bs))
        | Val_u8 x \<Rightarrow> SET_POINTER_VALUE_TO_DATA_BUFS_S obj dt 1 (\<lambda>bs. Val_u8 (word_of_le bs))
        | Val_u16 x \<Rightarrow> SET_POINTER_VALUE_TO_DATA_BUFS_S obj dt 2 (\<lambda>bs. Val_u16 (word_of_le bs))
        | Val_u32 x \<Rightarrow> SET_POINTER_VALUE_TO_DATA_BUFS_S obj dt 4 (\<lambda>bs. Val_u32 (word_of_le bs))
        | Val_u64 x \<Rightarrow> SET_VALUE_TO_DATA_BUFS_SPIN obj dt 8 (\<lambda>bs. Val_u64 (word_of_le bs))
        | Val_float x \<Rightarrow> SET_VALUE_TO_DATA_BUFS_SPIN obj dt 4 (\<lambda>bs. Val_float (word_of_le bs))
        | Val_double x \<Rightarrow> SET_VALUE_TO_DATA_BUFS_SPIN obj dt 8 (\<lambda>bs. Val_double (word_of_le bs))
        | Val_pointer p \<Rightarrow>
            SET_POINTER_VALUE_TO_DATA_BUFS_S obj dt 8 (\<lambda>bs. Val_pointer (word_of_le bs))
        | Val_string len b \<Rightarrow> locked dt (\<lambda>d. exec_bind (read_obj 4 obj) (\<lambda>n.
            set_string_value al (word_of_le n) value2 len b d))
        | Val_byte_array len b \<Rightarrow> locked dt (\<lambda>d. exec_bind (read_obj 4 obj) (\<lambda>n.
            set_byte_array_value al (word_of_le n) value2 len b d))
        | Val_unknown \<Rightarrow> Inr (Inl EINVAL, dt)))"

section \<open>Construction and deletion\<close>

text \<open>The blocks an object owns, and the order in which they are released.\<close>

datatype data_block = Key_block | Value_block | Object_block

definition cplus_data_delete :: "data \<Rightarrow> data_block list" where
  "cplus_data_delete dt =
     (if dt_key dt \<noteq> None then [Key_block] else []) @
     (case dt_value dt of
        Val_string len b \<Rightarrow> if b \<noteq> None then [Value_block] else []
      | Val_byte_array len b \<Rightarrow> if b \<noteq> None then [Value_block] else []
      | _ \<Rightarrow> []) @
     [Object_block]"

definition cleared_data :: "data_type \<Rightarrow> data" where
  "cleared_data ty = \<lparr>dt_is_valid = False, dt_action_mode = 0, dt_key_len = 0, dt_key = None,
     dt_locked = False, dt_str_code = 0, dt_bufs_size = 0, dt_value = zero_value ty\<rparr>"

text \<open>
  The three allocations of a construction: the object itself (\<open>ok\<close>: it succeeds), the value
  and the key.  The result is \<open>None\<close> for \<^verbatim>\<open>CPLUS_NULL\<close>, the blocks then being released.
\<close>

definition data_initialize_object ::
    "bool \<Rightarrow> alloc \<Rightarrow> alloc \<Rightarrow> data_type \<Rightarrow> buf \<Rightarrow> buf \<Rightarrow> u32 \<Rightarrow> buf \<Rightarrow> data option exec" where
  "data_initialize_object ok al_value al_key ty value1 value2 key_len key =
     (if \<not> ok then Inr None
      else exec_bind
        (if value1 = None then Inr (Inr (), cleared_data ty)
         else cplus_data_set_value al_value (cleared_data ty) value1 value2)
        (\<lambda>(r, dt). case r of Inl e \<Rightarrow> Inr None | Inr u \<Rightarrow>
          (if key \<noteq> None \<and> 0 < key_len then
             exec_bind (cplus_data_set_key al_key dt key_len key) (\<lambda>(r', dt').
               case r' of Inl e \<Rightarrow> Inr None | Inr u' \<Rightarrow> Inr (Some dt'))
           else Inr (Some dt))))"

text \<open>The typed constructors: the argument is passed by address.\<close>

definition cplus_data_new ::
    "bool \<Rightarrow> alloc \<Rightarrow> data_type \<Rightarrow> buf \<Rightarrow> buf \<Rightarrow> data option exec" where
  "cplus_data_new ok al ty value1 value2 = data_initialize_object ok al al ty value1 value2 0 None"

definition cplus_data_new_bool :: "bool \<Rightarrow> alloc \<Rightarrow> bool \<Rightarrow> data option exec" where
  "cplus_data_new_bool ok al v =
     data_initialize_object ok al al TYPE_BOOL (Some [of_bool v]) None 0 None"

definition cplus_data_new_int8 :: "bool \<Rightarrow> alloc \<Rightarrow> u8 \<Rightarrow> data option exec" where
  "cplus_data_new_int8 ok al v =
     data_initialize_object ok al al TYPE_INT8 (Some (le_bytes 1 v)) None 0 None"

definition cplus_data_new_int16 :: "bool \<Rightarrow> alloc \<Rightarrow> u16 \<Rightarrow> data option exec" where
  "cplus_data_new_int16 ok al v =
     data_initialize_object ok al al TYPE_INT16 (Some (le_bytes 2 v)) None 0 None"

definition cplus_data_new_int32 :: "bool \<Rightarrow> alloc \<Rightarrow> u32 \<Rightarrow> data option exec" where
  "cplus_data_new_int32 ok al v =
     data_initialize_object ok al al TYPE_INT32 (Some (le_bytes 4 v)) None 0 None"

definition cplus_data_new_int64 :: "bool \<Rightarrow> alloc \<Rightarrow> u64 \<Rightarrow> data option exec" where
  "cplus_data_new_int64 ok al v =
     data_initialize_object ok al al TYPE_INT64 (Some (le_bytes 8 v)) None 0 None"

definition cplus_data_new_uint8 :: "bool \<Rightarrow> alloc \<Rightarrow> u8 \<Rightarrow> data option exec" where
  "cplus_data_new_uint8 ok al v =
     data_initialize_object ok al al TYPE_UINT8 (Some (le_bytes 1 v)) None 0 None"

definition cplus_data_new_uint16 :: "bool \<Rightarrow> alloc \<Rightarrow> u16 \<Rightarrow> data option exec" where
  "cplus_data_new_uint16 ok al v =
     data_initialize_object ok al al TYPE_UINT16 (Some (le_bytes 2 v)) None 0 None"

definition cplus_data_new_uint32 :: "bool \<Rightarrow> alloc \<Rightarrow> u32 \<Rightarrow> data option exec" where
  "cplus_data_new_uint32 ok al v =
     data_initialize_object ok al al TYPE_UINT32 (Some (le_bytes 4 v)) None 0 None"

definition cplus_data_new_uint64 :: "bool \<Rightarrow> alloc \<Rightarrow> u64 \<Rightarrow> data option exec" where
  "cplus_data_new_uint64 ok al v =
     data_initialize_object ok al al TYPE_UINT64 (Some (le_bytes 8 v)) None 0 None"

definition cplus_data_new_float :: "bool \<Rightarrow> alloc \<Rightarrow> u32 \<Rightarrow> data option exec" where
  "cplus_data_new_float ok al v =
     data_initialize_object ok al al TYPE_FLOAT (Some (le_bytes 4 v)) None 0 None"

definition cplus_data_new_double :: "bool \<Rightarrow> alloc \<Rightarrow> u64 \<Rightarrow> data option exec" where
  "cplus_data_new_double ok al v =
     data_initialize_object ok al al TYPE_DOUBLE (Some (le_bytes 8 v)) None 0 None"

definition cplus_data_new_pointer :: "bool \<Rightarrow> alloc \<Rightarrow> ptr \<Rightarrow> data option exec" where
  "cplus_data_new_pointer ok al v =
     data_initialize_object ok al al TYPE_POINTER (Some (le_bytes 8 v)) None 0 None"

definition cplus_data_new_string :: "bool \<Rightarrow> alloc \<Rightarrow> u32 \<Rightarrow> buf \<Rightarrow> data option exec" where
  "cplus_data_new_string ok al str_len string =
     data_initialize_object ok al al TYPE_STRING (Some (le_bytes 4 str_len)) string 0 None"

definition cplus_data_new_byte_array :: "bool \<Rightarrow> alloc \<Rightarrow> u32 \<Rightarrow> buf \<Rightarrow> data option exec" where
  "cplus_data_new_byte_array ok al array_len array_bufs =
     data_initialize_object ok al al TYPE_BYTE_ARRAY (Some (le_bytes 4 array_len)) array_bufs 0 None"

text \<open>The same with a key.\<close>

definition cplus_data_new_ex ::
    "bool \<Rightarrow> alloc \<Rightarrow> alloc \<Rightarrow> data_type \<Rightarrow> buf \<Rightarrow> buf \<Rightarrow> u32 \<Rightarrow> buf \<Rightarrow> data option exec" where
  "cplus_data_new_ex ok al ak ty value1 value2 key_len key =
     data_initialize_object ok al ak ty value1 value2 key_len key"

definition cplus_data_new_bool_ex ::
    "bool \<Rightarrow> alloc \<Rightarrow> alloc \<Rightarrow> bool \<Rightarrow> u32 \<Rightarrow> buf \<Rightarrow> data option exec" where
  "cplus_data_new_bool_ex ok al ak v key_len key =
     data_initialize_object ok al ak TYPE_BOOL (Some [of_bool v]) None key_len key"

definition cplus_data_new_int8_ex ::
    "bool \<Rightarrow> alloc \<Rightarrow> alloc \<Rightarrow> u8 \<Rightarrow> u32 \<Rightarrow> buf \<Rightarrow> data option exec" where
  "cplus_data_new_int8_ex ok al ak v key_len key =
     data_initialize_object ok al ak TYPE_INT8 (Some (le_bytes 1 v)) None key_len key"

definition cplus_data_new_int16_ex ::
    "bool \<Rightarrow> alloc \<Rightarrow> alloc \<Rightarrow> u16 \<Rightarrow> u32 \<Rightarrow> buf \<Rightarrow> data option exec" where
  "cplus_data_new_int16_ex ok al ak v key_len key =
     data_initialize_object ok al ak TYPE_INT16 (Some (le_bytes 2 v)) None key_len key"

definition cplus_data_new_int32_ex ::
    "bool \<Rightarrow> alloc \<Rightarrow> alloc \<Rightarrow> u32 \<Rightarrow> u32 \<Rightarrow> buf \<Rightarrow> data option exec" where
  "cplus_data_new_int32_ex ok al ak v key_len key =
     data_initialize_object ok al ak TYPE_INT32 (Some (le_bytes 4 v)) None key_len key"

definition cplus_data_new_int64_ex ::
    "bool \<Rightarrow> alloc \<Rightarrow> alloc \<Rightarrow> u64 \<Rightarrow> u32 \<Rightarrow> buf \<Rightarrow> data option exec" where
  "cplus_data_new_int64_ex ok al ak v key_len key =
     data_initialize_object ok al ak TYPE_INT64 (Some (le_bytes 8 v)) None key_len key"

definition cplus_data_new_uint8_ex ::
    "bool \<Rightarrow> alloc \<Rightarrow> alloc \<Rightarrow> u8 \<Rightarrow> u32 \<Rightarrow> buf \<Rightarrow> data option exec" where
  "cplus_data_new_uint8_ex ok al ak v key_len key =
     data_initialize_object ok al ak TYPE_UINT8 (Some (le_bytes 1 v)) None key_len key"

definition cplus_data_new_uint16_ex ::
    "bool \<Rightarrow> alloc \<Rightarrow> alloc \<Rightarrow> u16 \<Rightarrow> u32 \<Rightarrow> buf \<Rightarrow> data option exec" where
  "cplus_data_new_uint16_ex ok al ak v key_len key =
     data_initialize_object ok al ak TYPE_UINT16 (Some (le_bytes 2 v)) None key_len key"

definition cplus_data_new_uint32_ex ::
    "bool \<Rightarrow> alloc \<Rightarrow> alloc \<Rightarrow> u32 \<Rightarrow> u32 \<Rightarrow> buf \<Rightarrow> data option exec" where
  "cplus_data_new_uint32_ex ok al ak v key_len key =
     data_initialize_object ok al ak TYPE_UINT32 (Some (le_bytes 4 v)) None key_len key"

definition cplus_data_new_uint64_ex ::
    "bool \<Rightarrow> alloc \<Rightarrow> alloc \<Rightarrow> u64 \<Rightarrow> u32 \<Rightarrow> buf \<Rightarrow> data option exec" where
  "cplus_data_new_uint64_ex ok al ak v key_len key =
     data_initialize_object ok al ak TYPE_UINT64 (Some (le_bytes 8 v)) None key_len key"

definition cplus_data_new_float_ex ::
    "bool \<Rightarrow> alloc \<Rightarrow> alloc \<Rightarrow> u32 \<Rightarrow> u32 \<Rightarrow> buf \<Rightarrow> data option exec" where
  "cplus_data_new_float_ex ok al ak v key_len key =
     data_initialize_object ok al ak TYPE_FLOAT (Some (le_bytes 4 v)) None key_len key"

definition cplus_data_new_double_ex ::
    "bool \<Rightarrow> alloc \<Rightarrow> alloc \<Rightarrow> u64 \<Rightarrow> u32 \<Rightarrow> buf \<Rightarrow> data option exec" where
  "cplus_data_new_double_ex ok al ak v key_len key =
     data_initialize_object ok al ak TYPE_DOUBLE (Some (le_bytes 8 v)) None key_len key"

definition cplus_data_new_pointer_ex ::
    "bool \<Rightarrow> alloc \<Rightarrow> alloc \<Rightarrow> ptr \<Rightarrow> u32 \<Rightarrow> buf \<Rightarrow> data option exec" where
  "cplus_data_new_pointer_ex ok al ak v key_len key =
     data_initialize_object ok al ak TYPE_POINTER (Some (le_bytes 8 v)) None key_len key"

definition cplus_data_new_string_ex ::
    "bool \<Rightarrow> alloc \<Rightarrow> alloc \<Rightarrow> u32 \<Rightarrow> buf \<Rightarrow> u32 \<Rightarrow> buf \<Rightarrow> data option exec" where
  "cplus_data_new_string_ex ok al ak str_len string key_len key =
     data_initialize_object ok al ak TYPE_STRING (Some (le_bytes 4 str_len)) string key_len key"

definition cplus_data_new_byte_array_ex ::
    "bool \<Rightarrow> alloc \<Rightarrow> alloc \<Rightarrow> u32 \<Rightarrow> buf \<Rightarrow> u32 \<Rightarrow> buf \<Rightarrow> data option exec" where
  "cplus_data_new_byte_array_ex ok al ak array_len array_bufs key_len key =
     data_initialize_object ok al ak TYPE_BYTE_ARRAY (Some (le_bytes 4 array_len)) array_bufs key_len key"

section \<open>Cloning\<close>

text \<open>
  A failed reallocation has already released the old buffer.  The copy length is the
  destination's, whatever the source's is.
\<close>

definition cplus_data_clone_value :: "alloc \<Rightarrow> data \<Rightarrow> data \<Rightarrow> (unit cresult \<times> data) exec" where
  "cplus_data_clone_value al dest src =
     (if type_of (dt_value dest) \<noteq> type_of (dt_value src) then Inr (Inl ENONE, dest)
      else (case (dt_value dest, dt_value src) of
        (Val_string dlen db, Val_string slen sb) \<Rightarrow>
          (let d1 = dest\<lparr>dt_str_code := dt_str_code src\<rparr>;
               grown = (if dlen < slen then realloc_buf al db slen else Inr db);
               len = (if dlen < slen then slen else dlen)
           in case grown of
             Inl e \<Rightarrow> Inr (Inl e, d1\<lparr>dt_value := Val_string dlen None\<rparr>)
           | Inr b \<Rightarrow> exec_bind (cplus_mem_cpy b sb len) (\<lambda>r.
               Inr (Inr (), d1\<lparr>dt_value := Val_string len (map_option (or_unchanged r) b)\<rparr>)))
      | (Val_byte_array dlen db, Val_byte_array slen sb) \<Rightarrow>
          (let bigger = dt_bufs_size dest < dt_bufs_size src;
               grown = (if bigger then realloc_buf al db (dt_bufs_size src) else Inr db);
               len = (if bigger then slen else dlen);
               d1 = (if bigger then dest\<lparr>dt_bufs_size := dt_bufs_size src\<rparr> else dest)
           in case grown of
             Inl e \<Rightarrow> Inr (Inl e, dest\<lparr>dt_value := Val_byte_array dlen None\<rparr>)
           | Inr b \<Rightarrow> exec_bind (cplus_mem_cpy b sb len) (\<lambda>r.
               Inr (Inr (), d1\<lparr>dt_value := Val_byte_array len (map_option (or_unchanged r) b)\<rparr>)))
      | _ \<Rightarrow> Inr (Inr (), dest\<lparr>dt_value := dt_value src\<rparr>)))"

section \<open>Typed setters\<close>

definition cplus_data_set_bool :: "alloc \<Rightarrow> data \<Rightarrow> bool \<Rightarrow> (unit cresult \<times> data) exec" where
  "cplus_data_set_bool al dt v = cplus_data_set_value al dt (Some [of_bool v]) None"

definition cplus_data_set_int8 :: "alloc \<Rightarrow> data \<Rightarrow> u8 \<Rightarrow> (unit cresult \<times> data) exec" where
  "cplus_data_set_int8 al dt v = cplus_data_set_value al dt (Some (le_bytes 1 v)) None"

definition cplus_data_set_int16 :: "alloc \<Rightarrow> data \<Rightarrow> u16 \<Rightarrow> (unit cresult \<times> data) exec" where
  "cplus_data_set_int16 al dt v = cplus_data_set_value al dt (Some (le_bytes 2 v)) None"

definition cplus_data_set_int32 :: "alloc \<Rightarrow> data \<Rightarrow> u32 \<Rightarrow> (unit cresult \<times> data) exec" where
  "cplus_data_set_int32 al dt v = cplus_data_set_value al dt (Some (le_bytes 4 v)) None"

definition cplus_data_set_int64 :: "alloc \<Rightarrow> data \<Rightarrow> u64 \<Rightarrow> (unit cresult \<times> data) exec" where
  "cplus_data_set_int64 al dt v = cplus_data_set_value al dt (Some (le_bytes 8 v)) None"

definition cplus_data_set_uint8 :: "alloc \<Rightarrow> data \<Rightarrow> u8 \<Rightarrow> (unit cresult \<times> data) exec" where
  "cplus_data_set_uint8 al dt v = cplus_data_set_value al dt (Some (le_bytes 1 v)) None"

definition cplus_data_set_uint16 :: "alloc \<Rightarrow> data \<Rightarrow> u16 \<Rightarrow> (unit cresult \<times> data) exec" where
  "cplus_data_set_uint16 al dt v = cplus_data_set_value al dt (Some (le_bytes 2 v)) None"

definition cplus_data_set_uint32 :: "alloc \<Rightarrow> data \<Rightarrow> u32 \<Rightarrow> (unit cresult \<times> data) exec" where
  "cplus_data_set_uint32 al dt v = cplus_data_set_value al dt (Some (le_bytes 4 v)) None"

definition cplus_data_set_uint64 :: "alloc \<Rightarrow> data \<Rightarrow> u64 \<Rightarrow> (unit cresult \<times> data) exec" where
  "cplus_data_set_uint64 al dt v = cplus_data_set_value al dt (Some (le_bytes 8 v)) None"

definition cplus_data_set_float :: "alloc \<Rightarrow> data \<Rightarrow> u32 \<Rightarrow> (unit cresult \<times> data) exec" where
  "cplus_data_set_float al dt v = cplus_data_set_value al dt (Some (le_bytes 4 v)) None"

definition cplus_data_set_double :: "alloc \<Rightarrow> data \<Rightarrow> u64 \<Rightarrow> (unit cresult \<times> data) exec" where
  "cplus_data_set_double al dt v = cplus_data_set_value al dt (Some (le_bytes 8 v)) None"

definition cplus_data_set_pointer :: "alloc \<Rightarrow> data \<Rightarrow> ptr \<Rightarrow> (unit cresult \<times> data) exec" where
  "cplus_data_set_pointer al dt v = cplus_data_set_value al dt (Some (le_bytes 8 v)) None"

definition cplus_data_set_string ::
    "alloc \<Rightarrow> data \<Rightarrow> u32 \<Rightarrow> buf \<Rightarrow> (unit cresult \<times> data) exec" where
  "cplus_data_set_string al dt str_len str_bufs =
     cplus_data_set_value al dt (Some (le_bytes 4 str_len)) str_bufs"

definition cplus_data_set_byte_array ::
    "alloc \<Rightarrow> data \<Rightarrow> u32 \<Rightarrow> buf \<Rightarrow> (unit cresult \<times> data) exec" where
  "cplus_data_set_byte_array al dt array_len array_bufs =
     cplus_data_set_value al dt (Some (le_bytes 4 array_len)) array_bufs"

definition cplus_data_set_string_code :: "data \<Rightarrow> u32 \<Rightarrow> unit cresult \<times> data" where
  "cplus_data_set_string_code dt code = (case dt_value dt of
     Val_string len b \<Rightarrow> (Inr (), dt\<lparr>dt_str_code := code\<rparr>)
   | _ \<Rightarrow> (Inl ENONE, dt))"

section \<open>Typed getters\<close>

text \<open>
  Each asserts the type; reading a \<^verbatim>\<open>bool\<close> whose byte is neither 0 nor 1 is undefined.  The
  64-bit and floating-point ones copy under the lock.
\<close>

definition read_bool :: "u8 \<Rightarrow> bool exec" where
  "read_bool b = (if b = 0 then Inr False else if b = 1 then Inr True else Inl Undefined)"

definition cplus_data_get_bool :: "data \<Rightarrow> bool exec" where
  "cplus_data_get_bool dt = (case dt_value dt of Val_bool b \<Rightarrow> read_bool b | _ \<Rightarrow> Inl Assert_fail)"

definition cplus_data_get_int8 :: "data \<Rightarrow> u8 exec" where
  "cplus_data_get_int8 dt = (case dt_value dt of Val_i8 x \<Rightarrow> Inr x | _ \<Rightarrow> Inl Assert_fail)"

definition cplus_data_get_int16 :: "data \<Rightarrow> u16 exec" where
  "cplus_data_get_int16 dt = (case dt_value dt of Val_i16 x \<Rightarrow> Inr x | _ \<Rightarrow> Inl Assert_fail)"

definition cplus_data_get_int32 :: "data \<Rightarrow> u32 exec" where
  "cplus_data_get_int32 dt = (case dt_value dt of Val_i32 x \<Rightarrow> Inr x | _ \<Rightarrow> Inl Assert_fail)"

definition cplus_data_get_uint8 :: "data \<Rightarrow> u8 exec" where
  "cplus_data_get_uint8 dt = (case dt_value dt of Val_u8 x \<Rightarrow> Inr x | _ \<Rightarrow> Inl Assert_fail)"

definition cplus_data_get_uint16 :: "data \<Rightarrow> u16 exec" where
  "cplus_data_get_uint16 dt = (case dt_value dt of Val_u16 x \<Rightarrow> Inr x | _ \<Rightarrow> Inl Assert_fail)"

definition cplus_data_get_uint32 :: "data \<Rightarrow> u32 exec" where
  "cplus_data_get_uint32 dt = (case dt_value dt of Val_u32 x \<Rightarrow> Inr x | _ \<Rightarrow> Inl Assert_fail)"

definition cplus_data_get_pointer :: "data \<Rightarrow> ptr exec" where
  "cplus_data_get_pointer dt = (case dt_value dt of Val_pointer x \<Rightarrow> Inr x | _ \<Rightarrow> Inl Assert_fail)"

definition cplus_data_get_int64 :: "data \<Rightarrow> (u64 \<times> data) exec" where
  "cplus_data_get_int64 dt = (case dt_value dt of
     Val_i64 x \<Rightarrow> locked dt (\<lambda>d. Inr (x, d)) | _ \<Rightarrow> Inl Assert_fail)"

definition cplus_data_get_uint64 :: "data \<Rightarrow> (u64 \<times> data) exec" where
  "cplus_data_get_uint64 dt = (case dt_value dt of
     Val_u64 x \<Rightarrow> locked dt (\<lambda>d. Inr (x, d)) | _ \<Rightarrow> Inl Assert_fail)"

definition cplus_data_get_float :: "data \<Rightarrow> (u32 \<times> data) exec" where
  "cplus_data_get_float dt = (case dt_value dt of
     Val_float x \<Rightarrow> locked dt (\<lambda>d. Inr (x, d)) | _ \<Rightarrow> Inl Assert_fail)"

definition cplus_data_get_double :: "data \<Rightarrow> (u64 \<times> data) exec" where
  "cplus_data_get_double dt = (case dt_value dt of
     Val_double x \<Rightarrow> locked dt (\<lambda>d. Inr (x, d)) | _ \<Rightarrow> Inl Assert_fail)"

definition cplus_data_get_string :: "data \<Rightarrow> buf exec" where
  "cplus_data_get_string dt = (case dt_value dt of Val_string len b \<Rightarrow> Inr b | _ \<Rightarrow> Inl Assert_fail)"

definition cplus_data_get_byte_array :: "data \<Rightarrow> buf exec" where
  "cplus_data_get_byte_array dt = (case dt_value dt of Val_byte_array len b \<Rightarrow> Inr b | _ \<Rightarrow> Inl Assert_fail)"

definition cplus_data_get_string_code :: "data \<Rightarrow> u32 exec" where
  "cplus_data_get_string_code dt = (case dt_value dt of
     Val_string len b \<Rightarrow> Inr (dt_str_code dt) | _ \<Rightarrow> Inl Assert_fail)"

section \<open>Byte order\<close>

definition cplus_data_swap16 :: "u16 \<Rightarrow> u16" where
  "cplus_data_swap16 v = push_bit 8 v OR drop_bit 8 v"

definition cplus_data_swap32 :: "u32 \<Rightarrow> u32" where
  "cplus_data_swap32 v = push_bit 24 v OR (push_bit 8 v AND 0x00FF0000)
     OR (drop_bit 8 v AND 0x0000FF00) OR drop_bit 24 v"

definition cplus_data_swap64 :: "u64 \<Rightarrow> u64" where
  "cplus_data_swap64 v = push_bit 56 v
     OR (push_bit 40 v AND 0x00FF000000000000)
     OR (push_bit 24 v AND 0x0000FF0000000000)
     OR (push_bit 8 v AND 0x000000FF00000000)
     OR (drop_bit 8 v AND 0x00000000FF000000)
     OR (drop_bit 24 v AND 0x0000000000FF0000)
     OR (drop_bit 40 v AND 0x000000000000FF00)
     OR drop_bit 56 v"

text \<open>The in-place versions return the new contents of the variable.\<close>

definition cplus_data_reverse16 :: "u16 \<Rightarrow> u16" where
  "cplus_data_reverse16 v = push_bit 8 v OR drop_bit 8 v"

definition cplus_data_reverse32 :: "u32 \<Rightarrow> u32" where
  "cplus_data_reverse32 v = push_bit 24 v OR (push_bit 8 v AND 0x00FF0000)
     OR (drop_bit 8 v AND 0x0000FF00) OR drop_bit 24 v"

definition cplus_data_reverse64 :: "u64 \<Rightarrow> u64" where
  "cplus_data_reverse64 v = push_bit 56 v
     OR (push_bit 40 v AND 0x00FF000000000000)
     OR (push_bit 24 v AND 0x0000FF0000000000)
     OR (push_bit 8 v AND 0x000000FF00000000)
     OR (drop_bit 8 v AND 0x00000000FF000000)
     OR (drop_bit 24 v AND 0x0000000000FF0000)
     OR (drop_bit 40 v AND 0x000000000000FF00)
     OR drop_bit 56 v"

end
