(* ===== verification/Data_Conv.thy ===== *)
theory Data_Conv
  imports Data
begin

text \<open>
  The converting accessors \<^verbatim>\<open>cplus_data_get_as_*\<close> and \<^verbatim>\<open>cplus_data_set_as_*\<close> of
  \<^verbatim>\<open>src/data.c\<close>.  The eight integer getters have one body up to the C type and the
  \<^verbatim>\<open>sscanf\<close> format, so have the eight integer setters: \<open>get_as_integer\<close> and
  \<open>set_as_integer\<close> are those bodies, at the width and signedness of the C type.  A getter
  takes the old contents of \<^verbatim>\<open>*value\<close>, which the byte-array case overwrites only in part.

  Floating-point arithmetic, the text formats of floating-point numbers and the
  implementation-defined \<^verbatim>\<open>"%p"\<close> are the fields of the argument \<open>clib\<close>, on bit patterns;
  a conversion to an integer type that cannot hold the truncated value is \<open>Undefined\<close>.
\<close>

record clib =
  float_of_int :: "int \<Rightarrow> u32"
  double_of_int :: "int \<Rightarrow> u64"
  float_of_double :: "u64 \<Rightarrow> u32"
  double_of_float :: "u32 \<Rightarrow> u64"
  trunc_float :: "u32 \<Rightarrow> int option"
  trunc_double :: "u64 \<Rightarrow> int option"
  fmt_f :: "u64 \<Rightarrow> u8 list"
  scan_f :: "u8 list \<Rightarrow> u32 option"
  scan_lf :: "u8 list \<Rightarrow> u64 option"
  fmt_p :: "ptr \<Rightarrow> u8 list"
  scan_p :: "u8 list \<Rightarrow> ptr option"

text \<open>\<^verbatim>\<open>0 != f\<close>: neither zero; a not-a-number differs from zero.\<close>

definition float_nonzero :: "u32 \<Rightarrow> bool" where
  "float_nonzero f \<longleftrightarrow> f AND 0x7FFFFFFF \<noteq> 0"

definition double_nonzero :: "u64 \<Rightarrow> bool" where
  "double_nonzero d \<longleftrightarrow> d AND 0x7FFFFFFFFFFFFFFF \<noteq> 0"

text \<open>The range of a \<open>w\<close>-bit C integer type, and the conversion of a floating-point value to it.\<close>

definition fits :: "bool \<Rightarrow> nat \<Rightarrow> int \<Rightarrow> bool" where
  "fits sg w i \<longleftrightarrow> (if sg then - (2 ^ (w - 1)) \<le> i \<and> i < 2 ^ (w - 1) else 0 \<le> i \<and> i < 2 ^ w)"

definition fp_to_int :: "bool \<Rightarrow> int option \<Rightarrow> 'a::len word exec" where
  "fp_to_int sg t = (case t of None \<Rightarrow> Inl Undefined
     | Some i \<Rightarrow> if fits sg LENGTH('a) i then Inr (word_of_int i) else Inl Undefined)"

text \<open>The value of a variable of a signed or unsigned integer type.\<close>

definition int_value :: "bool \<Rightarrow> 'a::len word \<Rightarrow> int" where
  "int_value sg x = (if sg then sint x else uint x)"

section \<open>Reading as an integer\<close>

definition get_as_integer ::
    "clib \<Rightarrow> bool \<Rightarrow> (u8 list \<Rightarrow> int option) \<Rightarrow> data \<Rightarrow> 'a::len word \<Rightarrow>
     ('a word cresult \<times> data) exec" where
  "get_as_integer L sg scan dt old = (case dt_value dt of
     Val_null \<Rightarrow> Inr (Inl EINVAL, dt)
   | Val_bool b \<Rightarrow> exec_bind (read_bool b) (\<lambda>v. Inr (Inr (of_bool v), dt))
   | Val_i8 x \<Rightarrow> Inr (Inr (word_of_int (sint x)), dt)
   | Val_i16 x \<Rightarrow> Inr (Inr (word_of_int (sint x)), dt)
   | Val_i32 x \<Rightarrow> Inr (Inr (word_of_int (sint x)), dt)
   | Val_i64 x \<Rightarrow> locked dt (\<lambda>d. Inr (Inr (word_of_int (sint x)), d))
   | Val_u8 x \<Rightarrow> Inr (Inr (word_of_int (uint x)), dt)
   | Val_u16 x \<Rightarrow> Inr (Inr (word_of_int (uint x)), dt)
   | Val_u32 x \<Rightarrow> Inr (Inr (word_of_int (uint x)), dt)
   | Val_u64 x \<Rightarrow> locked dt (\<lambda>d. Inr (Inr (word_of_int (uint x)), d))
   | Val_float f \<Rightarrow> locked dt (\<lambda>d.
       exec_bind (fp_to_int sg (trunc_float L f)) (\<lambda>v. Inr (Inr v, d)))
   | Val_double f \<Rightarrow> locked dt (\<lambda>d.
       exec_bind (fp_to_int sg (trunc_double L f)) (\<lambda>v. Inr (Inr v, d)))
   | Val_pointer p \<Rightarrow> Inr (Inr (word_of_int (sint p)), dt)
   | Val_string len b \<Rightarrow> locked dt (\<lambda>d. exec_bind (c_str b) (\<lambda>s.
       case scan s of None \<Rightarrow> Inr (Inl ENOENT, d) | Some i \<Rightarrow> Inr (Inr (word_of_int i), d)))
   | Val_byte_array len b \<Rightarrow> locked dt (\<lambda>d.
       exec_bind (cplus_mem_cpy (Some (le_bytes (LENGTH('a) div 8) old)) b
           (if of_nat (LENGTH('a) div 8) < len then of_nat (LENGTH('a) div 8) else len))
         (\<lambda>r. Inr (Inr (word_of_le (or_unchanged r (le_bytes (LENGTH('a) div 8) old))), d)))
   | Val_unknown \<Rightarrow> Inr (Inl EINVAL, dt))"

definition cplus_data_get_as_int8 :: "clib \<Rightarrow> data \<Rightarrow> u8 \<Rightarrow> (u8 cresult \<times> data) exec" where
  "cplus_data_get_as_int8 L dt old = get_as_integer L True scan_d dt old"

definition cplus_data_get_as_int16 :: "clib \<Rightarrow> data \<Rightarrow> u16 \<Rightarrow> (u16 cresult \<times> data) exec" where
  "cplus_data_get_as_int16 L dt old = get_as_integer L True scan_d dt old"

definition cplus_data_get_as_int32 :: "clib \<Rightarrow> data \<Rightarrow> u32 \<Rightarrow> (u32 cresult \<times> data) exec" where
  "cplus_data_get_as_int32 L dt old = get_as_integer L True scan_d dt old"

definition cplus_data_get_as_int64 :: "clib \<Rightarrow> data \<Rightarrow> u64 \<Rightarrow> (u64 cresult \<times> data) exec" where
  "cplus_data_get_as_int64 L dt old = get_as_integer L True scan_ld dt old"

definition cplus_data_get_as_uint8 :: "clib \<Rightarrow> data \<Rightarrow> u8 \<Rightarrow> (u8 cresult \<times> data) exec" where
  "cplus_data_get_as_uint8 L dt old = get_as_integer L False scan_u dt old"

definition cplus_data_get_as_uint16 :: "clib \<Rightarrow> data \<Rightarrow> u16 \<Rightarrow> (u16 cresult \<times> data) exec" where
  "cplus_data_get_as_uint16 L dt old = get_as_integer L False scan_u dt old"

definition cplus_data_get_as_uint32 :: "clib \<Rightarrow> data \<Rightarrow> u32 \<Rightarrow> (u32 cresult \<times> data) exec" where
  "cplus_data_get_as_uint32 L dt old = get_as_integer L False scan_u dt old"

definition cplus_data_get_as_uint64 :: "clib \<Rightarrow> data \<Rightarrow> u64 \<Rightarrow> (u64 cresult \<times> data) exec" where
  "cplus_data_get_as_uint64 L dt old = get_as_integer L False scan_lu dt old"

section \<open>Reading as bool, float and double\<close>

definition cplus_data_get_as_bool :: "data \<Rightarrow> (bool cresult \<times> data) exec" where
  "cplus_data_get_as_bool dt = (case dt_value dt of
     Val_null \<Rightarrow> Inr (Inl EINVAL, dt)
   | Val_bool b \<Rightarrow> exec_bind (read_bool b) (\<lambda>v. Inr (Inr v, dt))
   | Val_i8 x \<Rightarrow> Inr (Inr (x \<noteq> 0), dt)
   | Val_i16 x \<Rightarrow> Inr (Inr (x \<noteq> 0), dt)
   | Val_i32 x \<Rightarrow> Inr (Inr (x \<noteq> 0), dt)
   | Val_i64 x \<Rightarrow> locked dt (\<lambda>d. Inr (Inr (x \<noteq> 0), d))
   | Val_u8 x \<Rightarrow> Inr (Inr (x \<noteq> 0), dt)
   | Val_u16 x \<Rightarrow> Inr (Inr (x \<noteq> 0), dt)
   | Val_u32 x \<Rightarrow> Inr (Inr (x \<noteq> 0), dt)
   | Val_u64 x \<Rightarrow> locked dt (\<lambda>d. Inr (Inr (x \<noteq> 0), d))
   | Val_float f \<Rightarrow> locked dt (\<lambda>d. Inr (Inr (float_nonzero f), d))
   | Val_double f \<Rightarrow> locked dt (\<lambda>d. Inr (Inr (double_nonzero f), d))
   | Val_pointer p \<Rightarrow> Inr (Inr (p \<noteq> 0), dt)
   | Val_string len b \<Rightarrow> locked dt (\<lambda>d.
       if len = 0 \<or> b = None then Inr (Inl ENOMEM, d)
       else exec_bind (c_str b) (\<lambda>s.
         if strcaseeq text_true s then Inr (Inr True, d)
         else if strcaseeq text_false s then Inr (Inr False, d)
         else Inr (Inl ENOMEM, d)))
   | Val_byte_array len b \<Rightarrow> locked dt (\<lambda>d.
       if len = 0 then Inr (Inl ENOMEM, d)
       else (case b of None \<Rightarrow> Inr (Inl ENOMEM, d)
         | Some bs \<Rightarrow> exec_bind (read_obj 1 bs) (\<lambda>x. Inr (Inr (0 < hd x), d))))
   | Val_unknown \<Rightarrow> Inr (Inl EINVAL, dt))"

definition get_as_fp ::
    "(int \<Rightarrow> 'a::len word) \<Rightarrow> (u32 \<Rightarrow> 'a word) \<Rightarrow> (u64 \<Rightarrow> 'a word) \<Rightarrow> (u8 list \<Rightarrow> 'a word option) \<Rightarrow>
     data \<Rightarrow> 'a word \<Rightarrow> ('a word cresult \<times> data) exec" where
  "get_as_fp of_i of_f of_d scan dt old = (case dt_value dt of
     Val_null \<Rightarrow> Inr (Inl EINVAL, dt)
   | Val_bool b \<Rightarrow> locked dt (\<lambda>d. exec_bind (read_bool b) (\<lambda>v. Inr (Inr (of_i (of_bool v)), d)))
   | Val_i8 x \<Rightarrow> locked dt (\<lambda>d. Inr (Inr (of_i (sint x)), d))
   | Val_i16 x \<Rightarrow> locked dt (\<lambda>d. Inr (Inr (of_i (sint x)), d))
   | Val_i32 x \<Rightarrow> locked dt (\<lambda>d. Inr (Inr (of_i (sint x)), d))
   | Val_i64 x \<Rightarrow> locked dt (\<lambda>d. Inr (Inr (of_i (sint x)), d))
   | Val_u8 x \<Rightarrow> locked dt (\<lambda>d. Inr (Inr (of_i (uint x)), d))
   | Val_u16 x \<Rightarrow> locked dt (\<lambda>d. Inr (Inr (of_i (uint x)), d))
   | Val_u32 x \<Rightarrow> locked dt (\<lambda>d. Inr (Inr (of_i (uint x)), d))
   | Val_u64 x \<Rightarrow> locked dt (\<lambda>d. Inr (Inr (of_i (uint x)), d))
   | Val_float f \<Rightarrow> locked dt (\<lambda>d. Inr (Inr (of_f f), d))
   | Val_double f \<Rightarrow> locked dt (\<lambda>d. Inr (Inr (of_d f), d))
   | Val_pointer p \<Rightarrow> locked dt (\<lambda>d. Inr (Inr (of_i (sint p)), d))
   | Val_string len b \<Rightarrow> locked dt (\<lambda>d. exec_bind (c_str b) (\<lambda>s.
       case scan s of None \<Rightarrow> Inr (Inl ENOENT, d) | Some v \<Rightarrow> Inr (Inr v, d)))
   | Val_byte_array len b \<Rightarrow> locked dt (\<lambda>d.
       exec_bind (cplus_mem_cpy (Some (le_bytes (LENGTH('a) div 8) old)) b
           (if of_nat (LENGTH('a) div 8) < len then of_nat (LENGTH('a) div 8) else len))
         (\<lambda>r. Inr (Inr (word_of_le (or_unchanged r (le_bytes (LENGTH('a) div 8) old))), d)))
   | Val_unknown \<Rightarrow> Inr (Inl EINVAL, dt))"

definition cplus_data_get_as_float :: "clib \<Rightarrow> data \<Rightarrow> u32 \<Rightarrow> (u32 cresult \<times> data) exec" where
  "cplus_data_get_as_float L dt old =
     get_as_fp (float_of_int L) (\<lambda>f. f) (float_of_double L) (scan_f L) dt old"

definition cplus_data_get_as_double :: "clib \<Rightarrow> data \<Rightarrow> u64 \<Rightarrow> (u64 cresult \<times> data) exec" where
  "cplus_data_get_as_double L dt old =
     get_as_fp (double_of_int L) (double_of_float L) (\<lambda>d. d) (scan_lf L) dt old"

section \<open>Reading as text and as bytes\<close>

text \<open>
  The text goes through the 256-byte local buffer \<open>tmp_bufs\<close>; \<open>tmp_len\<close> is the length of the
  whole text.  The byte-array case returns from inside the switch.
\<close>

definition print_tmp :: "data \<Rightarrow> u8 list exec \<Rightarrow> ((u32 \<times> u8 list) \<times> data) exec" where
  "print_tmp dt text = locked dt (\<lambda>d. exec_bind text (\<lambda>s.
     exec_bind (cplus_str_printf (Some (replicate 256 0)) 256 s) (\<lambda>(res, tmp).
       Inr ((word_of_int res, the tmp), d))))"

definition finish_as_string ::
    "u32 \<Rightarrow> u8 list \<Rightarrow> ((u32 \<times> u8 list) \<times> data) exec \<Rightarrow> ((int cresult \<times> buf) \<times> data) exec" where
  "finish_as_string str_len str_bufs printed = exec_bind printed (\<lambda>((tmp_len, tmp), d).
     if str_len < tmp_len + 1 then Inr ((Inl ENOBUFS, Some str_bufs), d)
     else exec_bind (c_str (Some tmp)) (\<lambda>s.
          exec_bind (cplus_str_printf (Some str_bufs) str_len s) (\<lambda>(res, out).
            Inr ((Inr res, out), d))))"

definition byte_array_as_string ::
    "u32 \<Rightarrow> u8 list \<Rightarrow> u32 \<Rightarrow> buf \<Rightarrow> data \<Rightarrow> ((int cresult \<times> buf) \<times> data) exec" where
  "byte_array_as_string str_len str_bufs len b d =
     (if str_len < len + 1 then Inr ((Inl ENOBUFS, Some str_bufs), d)
      else exec_bind (cplus_mem_cpy_ex (Some str_bufs) str_len b len) (\<lambda>r.
        let out = or_unchanged r str_bufs in
        if unat (len - 1) < length out
        then Inr ((Inr (sint len), Some (out[unat (len - 1) := 0])), d)
        else Inl Out_of_bounds))"

definition cplus_data_get_as_string ::
    "clib \<Rightarrow> data \<Rightarrow> u32 \<Rightarrow> buf \<Rightarrow> ((int cresult \<times> buf) \<times> data) exec" where
  "cplus_data_get_as_string L dt str_len str_bufs =
     (if str_len = 0 then Inr ((Inl EINVAL, str_bufs), dt)
      else (case str_bufs of None \<Rightarrow> Inr ((Inl EINVAL, None), dt) | Some out \<Rightarrow>
       (case dt_value dt of
          Val_null \<Rightarrow> Inr ((Inl EINVAL, Some out), dt)
        | Val_bool b \<Rightarrow> finish_as_string str_len out (print_tmp dt
            (exec_bind (read_bool b) (\<lambda>v. Inr (if v then text_true else text_false))))
        | Val_i8 x \<Rightarrow> finish_as_string str_len out (print_tmp dt (Inr (fmt_dec (sint x))))
        | Val_i16 x \<Rightarrow> finish_as_string str_len out (print_tmp dt (Inr (fmt_dec (sint x))))
        | Val_i32 x \<Rightarrow> finish_as_string str_len out (print_tmp dt (Inr (fmt_dec (sint x))))
        | Val_i64 x \<Rightarrow> finish_as_string str_len out (print_tmp dt (Inr (fmt_dec (sint x))))
        | Val_u8 x \<Rightarrow> finish_as_string str_len out (print_tmp dt (Inr (fmt_dec (uint x))))
        | Val_u16 x \<Rightarrow> finish_as_string str_len out (print_tmp dt (Inr (fmt_dec (uint x))))
        | Val_u32 x \<Rightarrow> finish_as_string str_len out (print_tmp dt (Inr (fmt_dec (uint x))))
        | Val_u64 x \<Rightarrow> finish_as_string str_len out (print_tmp dt (Inr (fmt_dec (uint x))))
        | Val_float f \<Rightarrow>
            finish_as_string str_len out (print_tmp dt (Inr (fmt_f L (double_of_float L f))))
        | Val_double f \<Rightarrow> finish_as_string str_len out (print_tmp dt (Inr (fmt_f L f)))
        | Val_pointer p \<Rightarrow> finish_as_string str_len out (print_tmp dt (Inr (fmt_p L p)))
        | Val_string len b \<Rightarrow> finish_as_string str_len out (print_tmp dt (fmt_s b))
        | Val_byte_array len b \<Rightarrow> locked dt (byte_array_as_string str_len out len b)
        | Val_unknown \<Rightarrow> Inr ((Inl EINVAL, Some out), dt))))"

text \<open>At most \<open>array_len\<close> bytes of the representation; the result is the number of bytes.\<close>

definition copy_out :: "data \<Rightarrow> u32 \<Rightarrow> u8 list \<Rightarrow> buf \<Rightarrow> u32 \<Rightarrow> ((int cresult \<times> buf) \<times> data) exec" where
  "copy_out dt array_len out src sz = locked dt (\<lambda>d.
     let len = (if array_len < sz then array_len else sz) in
     exec_bind (cplus_mem_cpy (Some out) src len) (\<lambda>r.
       Inr ((Inr (sint len), Some (or_unchanged r out)), d)))"

definition cplus_data_get_as_byte_array ::
    "data \<Rightarrow> u32 \<Rightarrow> buf \<Rightarrow> ((int cresult \<times> buf) \<times> data) exec" where
  "cplus_data_get_as_byte_array dt array_len array_bufs =
     (if array_len = 0 then Inr ((Inl EINVAL, array_bufs), dt)
      else (case array_bufs of None \<Rightarrow> Inr ((Inl EINVAL, None), dt) | Some out \<Rightarrow>
       (case dt_value dt of
          Val_null \<Rightarrow> Inr ((Inl EINVAL, Some out), dt)
        | Val_bool b \<Rightarrow> copy_out dt array_len out (Some [b]) 1
        | Val_i8 x \<Rightarrow> copy_out dt array_len out (Some (le_bytes 1 x)) 1
        | Val_i16 x \<Rightarrow> copy_out dt array_len out (Some (le_bytes 2 x)) 2
        | Val_i32 x \<Rightarrow> copy_out dt array_len out (Some (le_bytes 4 x)) 4
        | Val_i64 x \<Rightarrow> copy_out dt array_len out (Some (le_bytes 8 x)) 8
        | Val_u8 x \<Rightarrow> copy_out dt array_len out (Some (le_bytes 1 x)) 1
        | Val_u16 x \<Rightarrow> copy_out dt array_len out (Some (le_bytes 2 x)) 2
        | Val_u32 x \<Rightarrow> copy_out dt array_len out (Some (le_bytes 4 x)) 4
        | Val_u64 x \<Rightarrow> copy_out dt array_len out (Some (le_bytes 8 x)) 8
        | Val_float f \<Rightarrow> copy_out dt array_len out (Some (le_bytes 4 f)) 4
        | Val_double f \<Rightarrow> copy_out dt array_len out (Some (le_bytes 8 f)) 8
        | Val_pointer p \<Rightarrow> copy_out dt array_len out (Some (le_bytes 8 p)) 8
        | Val_string len b \<Rightarrow> copy_out dt array_len out b len
        | Val_byte_array len b \<Rightarrow> copy_out dt array_len out b len
        | Val_unknown \<Rightarrow> Inr ((Inl EINVAL, Some out), dt))))"

section \<open>Setting from an integer\<close>

text \<open>
  Storing a formatted value in the string: the length is measured first, the buffer grown to
  hold it, and the text printed.
\<close>

definition print_into ::
    "alloc \<Rightarrow> u8 list \<Rightarrow> u32 \<Rightarrow> buf \<Rightarrow> data \<Rightarrow> (unit cresult \<times> data) exec" where
  "print_into al text len b d =
     exec_bind (cplus_str_printf None 0 text) (\<lambda>(written, ignored).
       let (len', b') = grow_string al len b (word_of_int written + 1) in
       case b' of
         None \<Rightarrow> Inr (Inl ENOMEM, d\<lparr>dt_value := Val_string len' None\<rparr>)
       | Some room \<Rightarrow> exec_bind (cplus_str_printf (Some room) len' text) (\<lambda>(res, out).
           Inr (Inr (), d\<lparr>dt_value := Val_string len' out\<rparr>)))"

text \<open>An inner call whose result is dropped.\<close>

definition ignore_result :: "(unit cresult \<times> data) exec \<Rightarrow> (unit cresult \<times> data) exec" where
  "ignore_result m = exec_bind m (\<lambda>(r, d). Inr (Inr (), d))"

text \<open>The plain atomic store, and the store under the lock.\<close>

definition put :: "data \<Rightarrow> data_value \<Rightarrow> (unit cresult \<times> data) exec" where
  "put dt v = Inr (Inr (), dt\<lparr>dt_value := v\<rparr>)"

definition put_spin :: "data \<Rightarrow> data_value \<Rightarrow> (unit cresult \<times> data) exec" where
  "put_spin dt v = locked dt (\<lambda>d. put d v)"

definition set_as_integer ::
    "clib \<Rightarrow> alloc \<Rightarrow> bool \<Rightarrow> data \<Rightarrow> 'a::len word \<Rightarrow> (unit cresult \<times> data) exec" where
  "set_as_integer L al sg dt x =
     (let v = int_value sg x in then_valid (case dt_value dt of
        Val_null \<Rightarrow> Inr (Inl EINVAL, dt)
      | Val_bool b \<Rightarrow> put_spin dt (Val_bool (of_bool (v \<noteq> 0)))
      | Val_i8 y \<Rightarrow> put dt (Val_i8 (word_of_int v))
      | Val_i16 y \<Rightarrow> put dt (Val_i16 (word_of_int v))
      | Val_i32 y \<Rightarrow> put dt (Val_i32 (word_of_int v))
      | Val_i64 y \<Rightarrow> put_spin dt (Val_i64 (word_of_int v))
      | Val_u8 y \<Rightarrow> put dt (Val_u8 (word_of_int v))
      | Val_u16 y \<Rightarrow> put dt (Val_u16 (word_of_int v))
      | Val_u32 y \<Rightarrow> put dt (Val_u32 (word_of_int v))
      | Val_u64 y \<Rightarrow> put_spin dt (Val_u64 (word_of_int v))
      | Val_float f \<Rightarrow> put_spin dt (Val_float (float_of_int L v))
      | Val_double f \<Rightarrow> put_spin dt (Val_double (double_of_int L v))
      | Val_pointer p \<Rightarrow> put dt (Val_pointer (word_of_int v))
      | Val_string len b \<Rightarrow> locked dt (print_into al (fmt_dec v) len b)
      | Val_byte_array len b \<Rightarrow> ignore_result (cplus_data_set_byte_array al dt
          (of_nat (LENGTH('a) div 8)) (Some (le_bytes (LENGTH('a) div 8) x)))
      | Val_unknown \<Rightarrow> Inr (Inl EINVAL, dt)))"

definition cplus_data_set_as_int8 ::
    "clib \<Rightarrow> alloc \<Rightarrow> data \<Rightarrow> u8 \<Rightarrow> (unit cresult \<times> data) exec" where
  "cplus_data_set_as_int8 L al dt x = set_as_integer L al True dt x"

definition cplus_data_set_as_int16 ::
    "clib \<Rightarrow> alloc \<Rightarrow> data \<Rightarrow> u16 \<Rightarrow> (unit cresult \<times> data) exec" where
  "cplus_data_set_as_int16 L al dt x = set_as_integer L al True dt x"

definition cplus_data_set_as_int32 ::
    "clib \<Rightarrow> alloc \<Rightarrow> data \<Rightarrow> u32 \<Rightarrow> (unit cresult \<times> data) exec" where
  "cplus_data_set_as_int32 L al dt x = set_as_integer L al True dt x"

definition cplus_data_set_as_int64 ::
    "clib \<Rightarrow> alloc \<Rightarrow> data \<Rightarrow> u64 \<Rightarrow> (unit cresult \<times> data) exec" where
  "cplus_data_set_as_int64 L al dt x = set_as_integer L al True dt x"

definition cplus_data_set_as_uint8 ::
    "clib \<Rightarrow> alloc \<Rightarrow> data \<Rightarrow> u8 \<Rightarrow> (unit cresult \<times> data) exec" where
  "cplus_data_set_as_uint8 L al dt x = set_as_integer L al False dt x"

definition cplus_data_set_as_uint16 ::
    "clib \<Rightarrow> alloc \<Rightarrow> data \<Rightarrow> u16 \<Rightarrow> (unit cresult \<times> data) exec" where
  "cplus_data_set_as_uint16 L al dt x = set_as_integer L al False dt x"

definition cplus_data_set_as_uint32 ::
    "clib \<Rightarrow> alloc \<Rightarrow> data \<Rightarrow> u32 \<Rightarrow> (unit cresult \<times> data) exec" where
  "cplus_data_set_as_uint32 L al dt x = set_as_integer L al False dt x"

definition cplus_data_set_as_uint64 ::
    "clib \<Rightarrow> alloc \<Rightarrow> data \<Rightarrow> u64 \<Rightarrow> (unit cresult \<times> data) exec" where
  "cplus_data_set_as_uint64 L al dt x = set_as_integer L al False dt x"

section \<open>Setting from bool, float, double and pointer\<close>

text \<open>Here even the string case drops the result of the inner call.\<close>

definition cplus_data_set_as_bool ::
    "clib \<Rightarrow> alloc \<Rightarrow> data \<Rightarrow> bool \<Rightarrow> (unit cresult \<times> data) exec" where
  "cplus_data_set_as_bool L al dt v = then_valid (case dt_value dt of
     Val_null \<Rightarrow> Inr (Inl EINVAL, dt)
   | Val_bool b \<Rightarrow> put dt (Val_bool (of_bool v))
   | Val_i8 y \<Rightarrow> put dt (Val_i8 (of_bool v))
   | Val_i16 y \<Rightarrow> put dt (Val_i16 (of_bool v))
   | Val_i32 y \<Rightarrow> put dt (Val_i32 (of_bool v))
   | Val_i64 y \<Rightarrow> put_spin dt (Val_i64 (of_bool v))
   | Val_u8 y \<Rightarrow> put dt (Val_u8 (of_bool v))
   | Val_u16 y \<Rightarrow> put dt (Val_u16 (of_bool v))
   | Val_u32 y \<Rightarrow> put dt (Val_u32 (of_bool v))
   | Val_u64 y \<Rightarrow> put_spin dt (Val_u64 (of_bool v))
   | Val_float f \<Rightarrow> put_spin dt (Val_float (float_of_int L (of_bool v)))
   | Val_double f \<Rightarrow> put_spin dt (Val_double (double_of_int L (of_bool v)))
   | Val_pointer p \<Rightarrow> put dt (Val_pointer (of_bool v))
   | Val_string len b \<Rightarrow> ignore_result (cplus_data_set_string al dt
       (of_nat (length (if v then text_true else text_false)))
       (Some ((if v then text_true else text_false) @ [0])))
   | Val_byte_array len b \<Rightarrow> ignore_result (cplus_data_set_byte_array al dt 1 (Some [of_bool v]))
   | Val_unknown \<Rightarrow> Inr (Inl EINVAL, dt))"

text \<open>The store of a converted value under the lock, when the conversion is defined.\<close>

definition put_conv :: "data \<Rightarrow> 'a exec \<Rightarrow> ('a \<Rightarrow> data_value) \<Rightarrow> (unit cresult \<times> data) exec" where
  "put_conv d c mk = exec_bind c (\<lambda>v. put d (mk v))"

definition cplus_data_set_as_float ::
    "clib \<Rightarrow> alloc \<Rightarrow> data \<Rightarrow> u32 \<Rightarrow> (unit cresult \<times> data) exec" where
  "cplus_data_set_as_float L al dt v = (let t = trunc_float L v in then_valid (case dt_value dt of
     Val_null \<Rightarrow> Inr (Inl EINVAL, dt)
   | Val_bool b \<Rightarrow> put_spin dt (Val_bool (of_bool (float_nonzero v)))
   | Val_i8 y \<Rightarrow> locked dt (\<lambda>d. put_conv d (fp_to_int True t) Val_i8)
   | Val_i16 y \<Rightarrow> locked dt (\<lambda>d. put_conv d (fp_to_int True t) Val_i16)
   | Val_i32 y \<Rightarrow> locked dt (\<lambda>d. put_conv d (fp_to_int True t) Val_i32)
   | Val_i64 y \<Rightarrow> locked dt (\<lambda>d. put_conv d (fp_to_int True t) Val_i64)
   | Val_u8 y \<Rightarrow> locked dt (\<lambda>d. put_conv d (fp_to_int False t) Val_u8)
   | Val_u16 y \<Rightarrow> locked dt (\<lambda>d. put_conv d (fp_to_int False t) Val_u16)
   | Val_u32 y \<Rightarrow> locked dt (\<lambda>d. put_conv d (fp_to_int False t) Val_u32)
   | Val_u64 y \<Rightarrow> locked dt (\<lambda>d. put_conv d (fp_to_int False t) Val_u64)
   | Val_float f \<Rightarrow> put_spin dt (Val_float v)
   | Val_double f \<Rightarrow> put_spin dt (Val_double (double_of_float L v))
   | Val_pointer p \<Rightarrow> locked dt (\<lambda>d. put_conv d (fp_to_int True t) Val_pointer)
   | Val_string len b \<Rightarrow> locked dt (print_into al (fmt_f L (double_of_float L v)) len b)
   | Val_byte_array len b \<Rightarrow>
       ignore_result (cplus_data_set_byte_array al dt 4 (Some (le_bytes 4 v)))
   | Val_unknown \<Rightarrow> Inr (Inl EINVAL, dt)))"

text \<open>
  The next two hold the lock over the whole switch, also around the inner call of
  \<^verbatim>\<open>cplus_data_set_byte_array\<close>, which takes it again.
\<close>

definition cplus_data_set_as_double ::
    "clib \<Rightarrow> alloc \<Rightarrow> data \<Rightarrow> u64 \<Rightarrow> (unit cresult \<times> data) exec" where
  "cplus_data_set_as_double L al dt v = (let t = trunc_double L v in then_valid (locked dt (\<lambda>d.
     case dt_value d of
     Val_null \<Rightarrow> Inr (Inl EINVAL, d)
   | Val_bool b \<Rightarrow> put d (Val_bool (of_bool (double_nonzero v)))
   | Val_i8 y \<Rightarrow> put_conv d (fp_to_int True t) Val_i8
   | Val_i16 y \<Rightarrow> put_conv d (fp_to_int True t) Val_i16
   | Val_i32 y \<Rightarrow> put_conv d (fp_to_int True t) Val_i32
   | Val_i64 y \<Rightarrow> put_conv d (fp_to_int True t) Val_i64
   | Val_u8 y \<Rightarrow> put_conv d (fp_to_int False t) Val_u8
   | Val_u16 y \<Rightarrow> put_conv d (fp_to_int False t) Val_u16
   | Val_u32 y \<Rightarrow> put_conv d (fp_to_int False t) Val_u32
   | Val_u64 y \<Rightarrow> put_conv d (fp_to_int False t) Val_u64
   | Val_float f \<Rightarrow> put d (Val_float (float_of_double L v))
   | Val_double f \<Rightarrow> put d (Val_double v)
   | Val_pointer p \<Rightarrow> put_conv d (fp_to_int True t) Val_pointer
   | Val_string len b \<Rightarrow> print_into al (fmt_f L v) len b d
   | Val_byte_array len b \<Rightarrow>
       ignore_result (cplus_data_set_byte_array al d 8 (Some (le_bytes 8 v)))
   | Val_unknown \<Rightarrow> Inr (Inl EINVAL, d))))"

definition cplus_data_set_as_pointer ::
    "clib \<Rightarrow> alloc \<Rightarrow> data \<Rightarrow> ptr \<Rightarrow> (unit cresult \<times> data) exec" where
  "cplus_data_set_as_pointer L al dt p = (let v = sint p in then_valid (locked dt (\<lambda>d.
     case dt_value d of
     Val_null \<Rightarrow> Inr (Inl EINVAL, d)
   | Val_bool b \<Rightarrow> put d (Val_bool (of_bool (v \<noteq> 0)))
   | Val_i8 y \<Rightarrow> put d (Val_i8 (word_of_int v))
   | Val_i16 y \<Rightarrow> put d (Val_i16 (word_of_int v))
   | Val_i32 y \<Rightarrow> put d (Val_i32 (word_of_int v))
   | Val_i64 y \<Rightarrow> put d (Val_i64 (word_of_int v))
   | Val_u8 y \<Rightarrow> put d (Val_u8 (word_of_int v))
   | Val_u16 y \<Rightarrow> put d (Val_u16 (word_of_int v))
   | Val_u32 y \<Rightarrow> put d (Val_u32 (word_of_int v))
   | Val_u64 y \<Rightarrow> put d (Val_u64 (word_of_int v))
   | Val_float f \<Rightarrow> put d (Val_float (float_of_int L v))
   | Val_double f \<Rightarrow> put d (Val_double (double_of_int L v))
   | Val_pointer q \<Rightarrow> put d (Val_pointer p)
   | Val_string len b \<Rightarrow> print_into al (fmt_p L p) len b d
   | Val_byte_array len b \<Rightarrow>
       ignore_result (cplus_data_set_byte_array al d 8 (Some (le_bytes 8 p)))
   | Val_unknown \<Rightarrow> Inr (Inl EINVAL, d))))"

section \<open>Setting from text and from bytes\<close>

text \<open>
  The result starts as \<open>CPLUS_FAIL\<close> and only the string case assigns another; a conversion
  that fails writes \<open>errno\<close>.  The object is marked valid in every case that reaches the end.
\<close>

definition mark_valid :: "(unit cresult \<times> data) exec \<Rightarrow> (unit cresult \<times> data) exec" where
  "mark_valid m = exec_bind m (\<lambda>(r, d). Inr (r, d\<lparr>dt_is_valid := True\<rparr>))"

definition put_scanned ::
    "data \<Rightarrow> u8 list exec \<Rightarrow> (u8 list \<Rightarrow> 'a option) \<Rightarrow> ('a \<Rightarrow> data_value) \<Rightarrow>
     (unit cresult \<times> data) exec" where
  "put_scanned dt text scan mk = locked dt (\<lambda>d. exec_bind text (\<lambda>s. case scan s of
       None \<Rightarrow> Inr (Inl EINVAL, d)
     | Some v \<Rightarrow> Inr (Inl ENONE, d\<lparr>dt_value := mk v\<rparr>)))"

definition scan_bool :: "u8 list \<Rightarrow> bool option" where
  "scan_bool s = (if strcaseeq text_true s then Some True
     else if strcaseeq text_false s then Some False else None)"

definition cplus_data_set_as_string ::
    "clib \<Rightarrow> alloc \<Rightarrow> data \<Rightarrow> u32 \<Rightarrow> buf \<Rightarrow> (unit cresult \<times> data) exec" where
  "cplus_data_set_as_string L al dt str_len str_bufs =
     (if str_bufs = None then Inr (Inl EINVAL, dt)
      else (case dt_value dt of
        Val_null \<Rightarrow> Inr (Inl EINVAL, dt)
      | Val_unknown \<Rightarrow> Inr (Inl EINVAL, dt)
      | _ \<Rightarrow> mark_valid (case dt_value dt of
          Val_bool b \<Rightarrow> put_scanned dt (c_str str_bufs) scan_bool (\<lambda>v. Val_bool (of_bool v))
        | Val_i8 x \<Rightarrow> put_scanned dt (c_str str_bufs) scan_d (\<lambda>i. Val_i8 (word_of_int i))
        | Val_i16 x \<Rightarrow> put_scanned dt (c_str str_bufs) scan_d (\<lambda>i. Val_i16 (word_of_int i))
        | Val_i32 x \<Rightarrow> put_scanned dt (c_str str_bufs) scan_d (\<lambda>i. Val_i32 (word_of_int i))
        | Val_i64 x \<Rightarrow> put_scanned dt (c_str str_bufs) scan_ld (\<lambda>i. Val_i64 (word_of_int i))
        | Val_u8 x \<Rightarrow> put_scanned dt (c_str str_bufs) scan_u (\<lambda>i. Val_u8 (word_of_int i))
        | Val_u16 x \<Rightarrow> put_scanned dt (c_str str_bufs) scan_u (\<lambda>i. Val_u16 (word_of_int i))
        | Val_u32 x \<Rightarrow> put_scanned dt (c_str str_bufs) scan_u (\<lambda>i. Val_u32 (word_of_int i))
        | Val_u64 x \<Rightarrow> put_scanned dt (c_str str_bufs) scan_lu (\<lambda>i. Val_u64 (word_of_int i))
        | Val_float f \<Rightarrow> put_scanned dt (c_str str_bufs) (scan_f L) Val_float
        | Val_double f \<Rightarrow> put_scanned dt (c_str str_bufs) (scan_lf L) Val_double
        | Val_pointer p \<Rightarrow> put_scanned dt (c_str str_bufs) (scan_p L) Val_pointer
        | Val_string len b \<Rightarrow> cplus_data_set_string al dt str_len str_bufs
        | Val_byte_array len b \<Rightarrow>
            exec_bind (cplus_data_set_byte_array al dt str_len str_bufs) (\<lambda>(r, d).
              Inr (Inl (case r of Inl e \<Rightarrow> e | Inr u \<Rightarrow> ENONE), d))
        | _ \<Rightarrow> Inr (Inl EINVAL, dt))))"

text \<open>
  A value copied from the caller's bytes under the lock, refused when there are too few.  The
  early return of the refusal does not mark the object valid; the other way out returns the
  initial \<open>CPLUS_FAIL\<close>.
\<close>

definition put_bytes ::
    "data \<Rightarrow> u32 \<Rightarrow> u8 list \<Rightarrow> u32 \<Rightarrow> buf \<Rightarrow> u32 \<Rightarrow> (u8 list option \<Rightarrow> data_value) \<Rightarrow>
     (unit cresult \<times> data) exec" where
  "put_bytes dt array_len src need dest count mk = locked dt (\<lambda>d.
     if array_len < need then Inr (Inl ENOMEM, d)
     else exec_bind (cplus_mem_cpy dest (Some src) count) (\<lambda>r.
       Inr (Inl (case r of Inl e \<Rightarrow> e | Inr d' \<Rightarrow> ENONE), d\<lparr>dt_is_valid := True,
         dt_value := mk (map_option (or_unchanged r) dest)\<rparr>)))"

definition cplus_data_set_as_byte_array ::
    "data \<Rightarrow> u32 \<Rightarrow> buf \<Rightarrow> (unit cresult \<times> data) exec" where
  "cplus_data_set_as_byte_array dt array_len array_bufs =
     (case array_bufs of None \<Rightarrow> Inr (Inl EINVAL, dt) | Some src \<Rightarrow>
       (case dt_value dt of
          Val_null \<Rightarrow> Inr (Inl EINVAL, dt)
        | Val_bool b \<Rightarrow> put_bytes dt array_len src 1 (Some [b]) 1 (\<lambda>m. Val_bool (hd (the m)))
        | Val_i8 x \<Rightarrow>
            put_bytes dt array_len src 1 (Some (le_bytes 1 x)) 1 (\<lambda>m. Val_i8 (word_of_le (the m)))
        | Val_i16 x \<Rightarrow>
            put_bytes dt array_len src 2 (Some (le_bytes 2 x)) 2 (\<lambda>m. Val_i16 (word_of_le (the m)))
        | Val_i32 x \<Rightarrow>
            put_bytes dt array_len src 4 (Some (le_bytes 4 x)) 4 (\<lambda>m. Val_i32 (word_of_le (the m)))
        | Val_i64 x \<Rightarrow>
            put_bytes dt array_len src 8 (Some (le_bytes 8 x)) 8 (\<lambda>m. Val_i64 (word_of_le (the m)))
        | Val_u8 x \<Rightarrow>
            put_bytes dt array_len src 1 (Some (le_bytes 1 x)) 1 (\<lambda>m. Val_u8 (word_of_le (the m)))
        | Val_u16 x \<Rightarrow>
            put_bytes dt array_len src 2 (Some (le_bytes 2 x)) 2 (\<lambda>m. Val_u16 (word_of_le (the m)))
        | Val_u32 x \<Rightarrow>
            put_bytes dt array_len src 4 (Some (le_bytes 4 x)) 4 (\<lambda>m. Val_u32 (word_of_le (the m)))
        | Val_u64 x \<Rightarrow>
            put_bytes dt array_len src 8 (Some (le_bytes 8 x)) 8 (\<lambda>m. Val_u64 (word_of_le (the m)))
        | Val_float f \<Rightarrow>
            put_bytes dt array_len src 4 (Some (le_bytes 4 f)) 4 (\<lambda>m. Val_float (word_of_le (the m)))
        | Val_double f \<Rightarrow>
            put_bytes dt array_len src 8 (Some (le_bytes 8 f)) 8 (\<lambda>m. Val_double (word_of_le (the m)))
        | Val_pointer p \<Rightarrow>
            put_bytes dt array_len src 8 (Some (le_bytes 8 p)) 8 (\<lambda>m. Val_pointer (word_of_le (the m)))
        | Val_string len b \<Rightarrow> put_bytes dt array_len src (len + 1) b len (Val_string len)
        | Val_byte_array len b \<Rightarrow> put_bytes dt array_len src len b len (Val_byte_array len)
        | Val_unknown \<Rightarrow> Inr (Inl EINVAL, dt)))"

end
