(* ===== verification/Data_Lemmas.thy ===== *)
theory Data_Lemmas
  imports Data_Conv
begin

text \<open>
  The lemmas behind the properties of the value objects of \<^verbatim>\<open>src/data.c\<close>: the lock, the
  untyped access to scalars through their object representation, the buffers of strings and
  byte arrays, and the integer conversions to and from integers, text and bytes.
\<close>

section \<open>The lock\<close>

lemma unlocked_id: "\<not> dt_locked dt \<Longrightarrow> dt\<lparr>dt_locked := False\<rparr> = dt"
  by (cases dt) simp

lemma locked_free:
  "\<not> dt_locked dt \<Longrightarrow> locked dt body = exec_bind (body (dt\<lparr>dt_locked := True\<rparr>))
     (\<lambda>(r, d). Inr (r, d\<lparr>dt_locked := False\<rparr>))"
  by (simp add: locked_def data_spin_lock_def data_spin_unlock_def)

lemma locked_held: "dt_locked dt \<Longrightarrow> locked dt body = Inl Spin_forever"
  by (simp add: locked_def data_spin_lock_def)

lemma locked_read:
  "\<not> dt_locked dt \<Longrightarrow> locked dt (\<lambda>d. Inr (r, d)) = Inr (r, dt)"
  by (simp add: locked_free unlocked_id)

lemma put_spin_free:
  "\<not> dt_locked dt \<Longrightarrow> put_spin dt v = Inr (Inr (), dt\<lparr>dt_value := v\<rparr>)"
  by (cases dt) (simp add: put_spin_def put_def locked_free)

text \<open>An unlocked object whose value is replaced and marked as set.\<close>

abbreviation stored :: "data \<Rightarrow> data_value \<Rightarrow> data" where
  "stored dt v \<equiv> dt\<lparr>dt_value := v, dt_is_valid := True\<rparr>"

lemma then_valid_put:
  "then_valid (put dt v) = Inr (Inr (), stored dt v)"
  "\<not> dt_locked dt \<Longrightarrow> then_valid (put_spin dt v) = Inr (Inr (), stored dt v)"
  by (simp_all add: then_valid_def put_spin_free put_def)

lemmas access_defs = GET_VALUE_FROM_DATA_BUFS_S_def GET_VALUE_FROM_DATA_BUFS_SPIN_def
  SET_POINTER_VALUE_TO_DATA_BUFS_S_def SET_VALUE_TO_DATA_BUFS_SPIN_def
  read_obj_def write_obj_def cplus_mem_cpy_def then_valid_def

section \<open>Untyped access to scalars\<close>

text \<open>The size of a scalar type, and the value and bytes of its representation.\<close>

primrec scalar_size :: "data_type \<Rightarrow> nat" where
  "scalar_size TYPE_NULL = 0"
| "scalar_size TYPE_BOOL = 1"
| "scalar_size TYPE_INT8 = 1"
| "scalar_size TYPE_INT16 = 2"
| "scalar_size TYPE_INT32 = 4"
| "scalar_size TYPE_INT64 = 8"
| "scalar_size TYPE_UINT8 = 1"
| "scalar_size TYPE_UINT16 = 2"
| "scalar_size TYPE_UINT32 = 4"
| "scalar_size TYPE_UINT64 = 8"
| "scalar_size TYPE_FLOAT = 4"
| "scalar_size TYPE_DOUBLE = 8"
| "scalar_size TYPE_POINTER = 8"
| "scalar_size TYPE_STRING = 0"
| "scalar_size TYPE_BYTE_ARRAY = 0"
| "scalar_size TYPE_UNKNOWN = 0"

lemma le_bytes_of_byte: "le_bytes (Suc 0) (word_of_le [b] :: u8) = [b]"
  using le_bytes_word_of_le [of "[b]" 1, where 'a = 8] by simp

text \<open>The value with given representation, and the representation of a value.\<close>

primrec scalar_of :: "data_type \<Rightarrow> u8 list \<Rightarrow> data_value" where
  "scalar_of TYPE_NULL bs = Val_null"
| "scalar_of TYPE_BOOL bs = Val_bool (hd bs)"
| "scalar_of TYPE_INT8 bs = Val_i8 (word_of_le bs)"
| "scalar_of TYPE_INT16 bs = Val_i16 (word_of_le bs)"
| "scalar_of TYPE_INT32 bs = Val_i32 (word_of_le bs)"
| "scalar_of TYPE_INT64 bs = Val_i64 (word_of_le bs)"
| "scalar_of TYPE_UINT8 bs = Val_u8 (word_of_le bs)"
| "scalar_of TYPE_UINT16 bs = Val_u16 (word_of_le bs)"
| "scalar_of TYPE_UINT32 bs = Val_u32 (word_of_le bs)"
| "scalar_of TYPE_UINT64 bs = Val_u64 (word_of_le bs)"
| "scalar_of TYPE_FLOAT bs = Val_float (word_of_le bs)"
| "scalar_of TYPE_DOUBLE bs = Val_double (word_of_le bs)"
| "scalar_of TYPE_POINTER bs = Val_pointer (word_of_le bs)"
| "scalar_of TYPE_STRING bs = Val_null"
| "scalar_of TYPE_BYTE_ARRAY bs = Val_null"
| "scalar_of TYPE_UNKNOWN bs = Val_unknown"

primrec bytes_of :: "data_value \<Rightarrow> u8 list" where
  "bytes_of Val_null = []"
| "bytes_of (Val_bool b) = [b]"
| "bytes_of (Val_i8 x) = le_bytes 1 x"
| "bytes_of (Val_i16 x) = le_bytes 2 x"
| "bytes_of (Val_i32 x) = le_bytes 4 x"
| "bytes_of (Val_i64 x) = le_bytes 8 x"
| "bytes_of (Val_u8 x) = le_bytes 1 x"
| "bytes_of (Val_u16 x) = le_bytes 2 x"
| "bytes_of (Val_u32 x) = le_bytes 4 x"
| "bytes_of (Val_u64 x) = le_bytes 8 x"
| "bytes_of (Val_float x) = le_bytes 4 x"
| "bytes_of (Val_double x) = le_bytes 8 x"
| "bytes_of (Val_pointer x) = le_bytes 8 x"
| "bytes_of (Val_string len b) = []"
| "bytes_of (Val_byte_array len b) = []"
| "bytes_of Val_unknown = []"

lemma length_bytes_of: "length (bytes_of v) = scalar_size (type_of v)"
  by (cases v) (simp_all del: le_bytes.simps)

lemma bytes_of_scalar_of:
  assumes "0 < scalar_size ty" "length bs = scalar_size ty"
  shows "bytes_of (scalar_of ty bs) = bs" "type_of (scalar_of ty bs) = ty"
proof -
  have "ty = TYPE_BOOL \<Longrightarrow> [hd bs] = bs" using assms by (cases bs) auto
  with assms show "bytes_of (scalar_of ty bs) = bs"
    by (cases ty) (simp_all del: le_bytes.simps add: le_bytes_word_of_le)
  from assms show "type_of (scalar_of ty bs) = ty"
    by (cases ty) simp_all
qed

lemma set_value_scalar:
  assumes "0 < scalar_size (type_of (dt_value dt))"
    and "length bs = scalar_size (type_of (dt_value dt))" "\<not> dt_locked dt"
  shows "cplus_data_set_value al dt (Some bs) v2 =
     Inr (Inr (), stored dt (scalar_of (type_of (dt_value dt)) bs))"
  using assms
  by (cases "dt_value dt")
    (simp_all add: cplus_data_set_value_def access_defs locked_free unlocked_id)

lemma get_value_scalar:
  assumes "0 < scalar_size (type_of (dt_value dt))"
    and "scalar_size (type_of (dt_value dt)) \<le> length obj" "\<not> dt_locked dt"
  shows "cplus_data_get_value dt (Some obj) v2 =
     Inr ((Inr (int (scalar_size (type_of (dt_value dt)))),
           Some (bytes_of (dt_value dt) @ drop (scalar_size (type_of (dt_value dt))) obj), v2), dt)"
  using assms
  by (cases "dt_value dt")
    (simp_all add: cplus_data_get_value_def access_defs locked_free unlocked_id Suc_le_eq
      del: le_bytes.simps)

section \<open>Buffers of strings and byte arrays\<close>

text \<open>
  What the operations keep of an owned buffer: a string buffer has the recorded length and
  contains a terminator; a byte-array buffer has at least the recorded bytes.
\<close>

definition string_ok :: "u32 \<Rightarrow> buf \<Rightarrow> bool" where
  "string_ok len b \<longleftrightarrow> (case b of None \<Rightarrow> True | Some bs \<Rightarrow> length bs = unat len)"

definition array_ok :: "u32 \<Rightarrow> buf \<Rightarrow> bool" where
  "array_ok len b \<longleftrightarrow> len \<le> RSIZE_MAX_MEM \<and>
     (case b of None \<Rightarrow> True | Some bs \<Rightarrow> unat len \<le> length bs)"

lemma grow_string_room:
  assumes "allocates al" "string_ok len b"
  obtains len' room where "grow_string al len b need = (len', Some room)" "need \<le> len'"
    "length room = unat len'"
proof (cases b)
  case None
  obtain room where "malloc_buf al need = Some room" "length room = unat need"
    by (rule allocates_bufs [OF assms(1)])
  with None that show ?thesis by (simp add: grow_string_def)
next
  case (Some old)
  show ?thesis
  proof (cases "len < need")
    case True
    obtain room where "or_null (realloc_buf al (Some old) need) = Some room"
      "length room = unat need" by (rule allocates_realloc [OF assms(1)])
    with Some True that show ?thesis by (simp add: grow_string_def)
  next
    case False
    with Some that assms(2) show ?thesis by (simp add: grow_string_def string_ok_def not_less)
  qed
qed

text \<open>Printing a text that fits into a buffer.\<close>

lemma str_printf_fits:
  assumes "length s < unat sz" "unat sz \<le> length room"
  shows "cplus_str_printf (Some room) sz s =
     Inr (int (length s), Some (s @ 0 # drop (Suc (length s)) room))"
proof -
  have "sz \<noteq> 0" using assms(1) by auto
  then show ?thesis using assms by (simp add: cplus_str_printf_def write_obj_def)
qed

lemma unat_word_of_nat_add_1:
  "n < 4294967295 \<Longrightarrow> unat (word_of_int (int n) + 1 :: u32) = Suc n"
  using unat_of_nat_u32 [of "Suc n"] by (simp add: add.commute)

lemma print_into_stores:
  assumes "allocates al" "string_ok len b" "length text < 4294967295" "0 \<notin> set text"
  obtains len' room where
    "print_into al text len b d = Inr (Inr (), d\<lparr>dt_value := Val_string len' (Some room)\<rparr>)"
    "string_ok len' (Some room)" "c_str (Some room) = Inr text"
proof -
  obtain len' room where g:
    "grow_string al len b (word_of_int (int (length text)) + 1) = (len', Some room)"
    "word_of_int (int (length text)) + 1 \<le> len'" "length room = unat len'"
    by (rule grow_string_room [OF assms(1,2)])
  then have "length text < unat len'"
    using assms(3) unat_word_of_nat_add_1 [of "length text"] by (simp add: word_le_nat_alt)
  then have p: "cplus_str_printf (Some room) len' text =
      Inr (int (length text), Some (text @ 0 # drop (Suc (length text)) room))"
    using g(3) by (intro str_printf_fits) simp_all
  show ?thesis
  proof (rule that)
    show "print_into al text len b d = Inr (Inr (), d\<lparr>dt_value :=
        Val_string len' (Some (text @ 0 # drop (Suc (length text)) room))\<rparr>)"
      unfolding print_into_def cplus_str_printf_def [of None]
      using g(1) p by (simp add: Let_def)
    show "string_ok len' (Some (text @ 0 # drop (Suc (length text)) room))"
      using g(3) \<open>length text < unat len'\<close> by (simp add: string_ok_def)
  qed (simp add: c_str_terminated assms(4))
qed

text \<open>Storing \<open>n > 0\<close> bytes in a byte array.\<close>

lemma set_byte_array_stores:
  assumes "allocates al" "array_ok len b" "0 < n" "n \<le> RSIZE_MAX_MEM" "unat n \<le> length src"
  obtains sz room where
    "set_byte_array_value al n (Some src) len b d = Inr (Inr (),
       d\<lparr>dt_bufs_size := sz, dt_value := Val_byte_array n (Some room)\<rparr>)"
    "array_ok n (Some room)" "take (unat n) room = take (unat n) src"
proof -
  define sz where "sz = (case b of None \<Rightarrow> n | Some old \<Rightarrow> if len < n then n else len)"
  obtain room where room:
    "(case b of None \<Rightarrow> (n, malloc_buf al n)
      | Some old \<Rightarrow> if len < n then (n, or_null (realloc_buf al (Some old) n)) else (len, b)) =
     (sz, Some room)" "unat sz \<le> length room" "n \<le> sz" "sz \<le> RSIZE_MAX_MEM"
  proof (cases b)
    case None
    obtain r where "malloc_buf al n = Some r" "length r = unat n"
      by (rule allocates_bufs [OF assms(1)])
    with None that [of r] assms(4) show ?thesis by (simp add: sz_def)
  next
    case (Some old)
    obtain r where "or_null (realloc_buf al (Some old) n) = Some r" "length r = unat n"
      by (rule allocates_realloc [OF assms(1)])
    with Some that [of r] that [of old] assms(2,4) show ?thesis
      by (cases "len < n") (simp_all add: sz_def array_ok_def not_less)
  qed
  have fits: "unat n \<le> length room"
    using room(2,3) by (simp add: word_le_nat_alt)
  have "sz \<noteq> 0" using room(3) assms(3) by auto
  then have c: "cplus_mem_cpy_ex (Some room) sz (Some src) n =
      Inr (Inr (take (unat n) src @ drop (unat n) room))"
    using room(3,4) assms(3,5) fits
    by (auto simp: cplus_mem_cpy_ex_def read_obj_def write_obj_def not_less min_def)
  show ?thesis
  proof (rule that)
    show "set_byte_array_value al n (Some src) len b d = Inr (Inr (), d\<lparr>dt_bufs_size := sz,
        dt_value := Val_byte_array n (Some (take (unat n) src @ drop (unat n) room))\<rparr>)"
      unfolding set_byte_array_value_def room(1) by (simp add: c)
    show "array_ok n (Some (take (unat n) src @ drop (unat n) room))"
      using assms(4,5) fits by (simp add: array_ok_def)
    show "take (unat n) (take (unat n) src @ drop (unat n) room) = take (unat n) src"
      using assms(5) by simp
  qed
qed

section \<open>Integer conversions\<close>

text \<open>Signedness and width of the integer types, and the mathematical value they hold.\<close>

primrec int_type :: "data_type \<Rightarrow> (bool \<times> nat) option" where
  "int_type TYPE_NULL = None"
| "int_type TYPE_BOOL = None"
| "int_type TYPE_INT8 = Some (True, 8)"
| "int_type TYPE_INT16 = Some (True, 16)"
| "int_type TYPE_INT32 = Some (True, 32)"
| "int_type TYPE_INT64 = Some (True, 64)"
| "int_type TYPE_UINT8 = Some (False, 8)"
| "int_type TYPE_UINT16 = Some (False, 16)"
| "int_type TYPE_UINT32 = Some (False, 32)"
| "int_type TYPE_UINT64 = Some (False, 64)"
| "int_type TYPE_FLOAT = None"
| "int_type TYPE_DOUBLE = None"
| "int_type TYPE_POINTER = Some (True, 64)"
| "int_type TYPE_STRING = None"
| "int_type TYPE_BYTE_ARRAY = None"
| "int_type TYPE_UNKNOWN = None"

text \<open>The C conversion of an integer to a type: unchanged modulo \<open>2 ^ w\<close>, in the type's range.\<close>

definition c_convert :: "bool \<Rightarrow> nat \<Rightarrow> int \<Rightarrow> int" where
  "c_convert sg w i = (if sg then signed_take_bit (w - 1) i else take_bit w i)"

primrec int_of_value :: "data_value \<Rightarrow> int" where
  "int_of_value Val_null = 0"
| "int_of_value (Val_bool b) = 0"
| "int_of_value (Val_i8 x) = sint x"
| "int_of_value (Val_i16 x) = sint x"
| "int_of_value (Val_i32 x) = sint x"
| "int_of_value (Val_i64 x) = sint x"
| "int_of_value (Val_u8 x) = uint x"
| "int_of_value (Val_u16 x) = uint x"
| "int_of_value (Val_u32 x) = uint x"
| "int_of_value (Val_u64 x) = uint x"
| "int_of_value (Val_float x) = 0"
| "int_of_value (Val_double x) = 0"
| "int_of_value (Val_pointer x) = sint x"
| "int_of_value (Val_string len b) = 0"
| "int_of_value (Val_byte_array len b) = 0"
| "int_of_value Val_unknown = 0"

lemma get_as_integer_int:
  assumes "\<not> dt_locked dt" "int_type (type_of (dt_value dt)) \<noteq> None"
  shows "get_as_integer L sg scan dt old = Inr (Inr (word_of_int (int_of_value (dt_value dt))), dt)"
  using assms by (cases "dt_value dt") (simp_all add: get_as_integer_def locked_read)

text \<open>The value of a given integer type.\<close>

primrec int_value_of :: "data_type \<Rightarrow> int \<Rightarrow> data_value" where
  "int_value_of TYPE_NULL i = Val_null"
| "int_value_of TYPE_BOOL i = Val_null"
| "int_value_of TYPE_INT8 i = Val_i8 (word_of_int i)"
| "int_value_of TYPE_INT16 i = Val_i16 (word_of_int i)"
| "int_value_of TYPE_INT32 i = Val_i32 (word_of_int i)"
| "int_value_of TYPE_INT64 i = Val_i64 (word_of_int i)"
| "int_value_of TYPE_UINT8 i = Val_u8 (word_of_int i)"
| "int_value_of TYPE_UINT16 i = Val_u16 (word_of_int i)"
| "int_value_of TYPE_UINT32 i = Val_u32 (word_of_int i)"
| "int_value_of TYPE_UINT64 i = Val_u64 (word_of_int i)"
| "int_value_of TYPE_FLOAT i = Val_null"
| "int_value_of TYPE_DOUBLE i = Val_null"
| "int_value_of TYPE_POINTER i = Val_pointer (word_of_int i)"
| "int_value_of TYPE_STRING i = Val_null"
| "int_value_of TYPE_BYTE_ARRAY i = Val_null"
| "int_value_of TYPE_UNKNOWN i = Val_null"

lemma type_of_int_value_of: "int_type ty \<noteq> None \<Longrightarrow> type_of (int_value_of ty i) = ty"
  by (cases ty) simp_all

lemma int_of_int_value_of:
  "int_type ty = Some (sg, w) \<Longrightarrow> int_of_value (int_value_of ty i) = c_convert sg w i"
  by (cases ty) (auto simp: c_convert_def unsigned_of_int signed_of_int)

lemma set_as_integer_int:
  assumes "\<not> dt_locked dt" "int_type (type_of (dt_value dt)) \<noteq> None"
  shows "set_as_integer L al sg dt x =
     Inr (Inr (), stored dt (int_value_of (type_of (dt_value dt)) (int_value sg x)))"
  using assms
  by (cases "dt_value dt") (simp_all add: set_as_integer_def then_valid_put Let_def)

text \<open>A value of a \<open>w'\<close>-bit type survives the conversion to a type at least as wide and back.\<close>

lemma word_of_int_int_value [simp]: "word_of_int (int_value sg x) = x"
  by (simp add: int_value_def)

lemma word_of_int_c_convert:
  fixes x :: "'a::len word"
  assumes "LENGTH('a) \<le> w"
  shows "(word_of_int (c_convert sg w i) :: 'a word) = word_of_int i"
proof -
  have "bit (c_convert sg w i) n = bit i n" if "n < LENGTH('a)" for n
  proof (cases "n < w - 1")
    case False
    with assms that have "n = w - 1" by simp
    with assms that show ?thesis by (cases sg) (simp_all add: c_convert_def bit_simps)
  qed (use assms that in \<open>cases sg; simp add: c_convert_def bit_simps\<close>)
  then have "take_bit LENGTH('a) (c_convert sg w i) = take_bit LENGTH('a) i"
    by (auto intro!: bit_eqI simp: bit_simps)
  then show ?thesis by (simp add: word_of_int_eq_iff)
qed

section \<open>Integers as text and as bytes\<close>

lemma length_dec_digits: "length (dec_digits n) \<le> Suc n"
proof (induction n rule: dec_digits.induct)
  case (1 n)
  then show ?case by (subst dec_digits.simps) auto
qed

lemma dec_digits_pow: "n < 10 ^ k \<Longrightarrow> length (dec_digits n) \<le> max 1 k"
proof (induction k arbitrary: n)
  case 0
  then show ?case by (subst dec_digits.simps) simp
next
  case (Suc k)
  show ?case
  proof (cases "n < 10")
    case True
    then show ?thesis by (subst dec_digits.simps) simp
  next
    case False
    with Suc.prems have "0 < k" by (cases k) auto
    from Suc have "length (dec_digits (n div 10)) \<le> max 1 k" by simp
    with False \<open>0 < k\<close> show ?thesis by (subst dec_digits.simps) simp
  qed
qed

text \<open>The decimal form of a 64-bit number has at most 21 characters.\<close>

lemma length_fmt_dec:
  assumes "- (2 ^ 64) < i" "i < 2 ^ 64"
  shows "length (fmt_dec i) \<le> 21"
proof -
  have "length (dec_digits (nat j)) \<le> 20" if "j < 2 ^ 64" for j
  proof -
    have "nat j < 10 ^ 20" using that by simp
    from dec_digits_pow [OF this] show ?thesis by simp
  qed
  from this [of i] this [of "- i"] assms show ?thesis by (simp add: fmt_dec_def)
qed

lemma sint_bounds:
  fixes x :: "'a::len word"
  assumes "LENGTH('a) \<le> Suc n"
  shows "- (2 ^ n) \<le> sint x" "sint x < 2 ^ n"
proof -
  have "(2::int) ^ (LENGTH('a) - 1) \<le> 2 ^ n"
    using assms by (intro power_increasing) simp_all
  moreover have "- (2 ^ (LENGTH('a) - 1)) \<le> sint x" "sint x < 2 ^ (LENGTH('a) - 1)"
    using sint_greater_eq [of x] sint_less [of x] by simp_all
  ultimately show "- (2 ^ n) \<le> sint x" "sint x < 2 ^ n" by linarith+
qed

lemma uint_bounds:
  fixes x :: "'a::len word"
  assumes "LENGTH('a) \<le> n"
  shows "0 \<le> uint x" "uint x < 2 ^ n"
proof -
  have "(2::int) ^ LENGTH('a) \<le> 2 ^ n"
    using assms by (intro power_increasing) simp_all
  moreover have "uint x < 2 ^ LENGTH('a)" by (rule uint_bounded)
  ultimately show "0 \<le> uint x" "uint x < 2 ^ n" by (simp, linarith)
qed

lemma int_value_bounds:
  fixes x :: "'a::len word"
  assumes "LENGTH('a) \<le> 64"
  shows "- (2 ^ 64) < int_value sg x" "int_value sg x < 2 ^ 64"
proof -
  have "- (2 ^ 64) < uint x" by (rule less_le_trans [of _ 0]) simp_all
  then show "- (2 ^ 64) < int_value sg x" "int_value sg x < 2 ^ 64"
    using sint_bounds [of 63 x] uint_bounds [of 64 x] assms by (auto simp: int_value_def)
qed

text \<open>A scan function that reads back every value of a type.\<close>

definition scans_back :: "(u8 list \<Rightarrow> int option) \<Rightarrow> bool \<Rightarrow> 'a::len itself \<Rightarrow> bool" where
  "scans_back scan sg t \<longleftrightarrow> (\<forall>x :: 'a word. scan (fmt_dec (int_value sg x)) = Some (int_value sg x))"

lemma scan_d_fmt_dec: "\<lbrakk>- (2 ^ 31) \<le> i; i < 2 ^ 31\<rbrakk> \<Longrightarrow> scan_d (fmt_dec i) = Some i"
  by (simp add: scan_d_def scan_ld_fmt_dec signed_of_int signed_take_bit_int_eq_self)

lemma scan_u_fmt_dec: "\<lbrakk>0 \<le> i; i < 2 ^ 32\<rbrakk> \<Longrightarrow> scan_u (fmt_dec i) = Some i"
  by (simp add: scan_u_def scan_lu_fmt_dec unsigned_of_int take_bit_int_eq_self)

lemma scans_back_intros:
  "LENGTH('a::len) \<le> 32 \<Longrightarrow> scans_back scan_d True TYPE('a)"
  "LENGTH('a) \<le> 64 \<Longrightarrow> scans_back scan_ld True TYPE('a)"
  "LENGTH('a) \<le> 32 \<Longrightarrow> scans_back scan_u False TYPE('a)"
  "LENGTH('a) \<le> 64 \<Longrightarrow> scans_back scan_lu False TYPE('a)"
  unfolding scans_back_def int_value_def
  using sint_bounds [where 'a = 'a and n = 31] sint_bounds [where 'a = 'a and n = 63]
    uint_bounds [where 'a = 'a and n = 32] uint_bounds [where 'a = 'a and n = 64]
  by (auto intro!: scan_d_fmt_dec scan_ld_fmt_dec scan_u_fmt_dec scan_lu_fmt_dec)

text \<open>The objects that can hold a \<open>w\<close>-bit integer.\<close>

definition holds_int :: "nat \<Rightarrow> data \<Rightarrow> bool" where
  "holds_int w dt \<longleftrightarrow> (case dt_value dt of
     Val_string len b \<Rightarrow> string_ok len b
   | Val_byte_array len b \<Rightarrow> array_ok len b
   | v \<Rightarrow> (case int_type (type_of v) of None \<Rightarrow> False | Some (sg, w') \<Rightarrow> w \<le> w'))"

lemma set_get_as_integer_string:
  fixes x old :: "'a::len word"
  assumes "\<not> dt_locked dt" "allocates al" "LENGTH('a) \<le> 64" "scans_back scan sg TYPE('a)"
    and "dt_value dt = Val_string len b" "string_ok len b"
  obtains dt' where "set_as_integer L al sg dt x = Inr (Inr (), dt')"
    "get_as_integer L sg scan dt' old = Inr (Inr x, dt')" "\<not> dt_locked dt'"
    "type_of (dt_value dt') = TYPE_STRING"
proof -
  have "length (fmt_dec (int_value sg x)) < 4294967295"
    using length_fmt_dec [OF int_value_bounds [OF assms(3)], of sg x] by simp
  then obtain len' room where p:
    "print_into al (fmt_dec (int_value sg x)) len b (dt\<lparr>dt_locked := True\<rparr>) =
       Inr (Inr (), dt\<lparr>dt_locked := True, dt_value := Val_string len' (Some room)\<rparr>)"
    "string_ok len' (Some room)" "c_str (Some room) = Inr (fmt_dec (int_value sg x))"
    by (rule print_into_stores [OF assms(2,6) _ fmt_dec_no_nul, where d = "dt\<lparr>dt_locked := True\<rparr>"])
      simp_all
  let ?dt = "stored dt (Val_string len' (Some room))"
  have unl: "\<not> dt_locked ?dt" using assms(1) by simp
  show ?thesis
  proof (rule that)
    show "set_as_integer L al sg dt x = Inr (Inr (), ?dt)"
      using assms(1,5) p(1)
      by (cases dt) (simp add: set_as_integer_def then_valid_def locked_free Let_def)
    have "scan (fmt_dec (int_value sg x)) = Some (int_value sg x)"
      using assms(4) by (simp add: scans_back_def)
    with p(3) unl show "get_as_integer L sg scan ?dt old = Inr (Inr x, ?dt)"
      by (simp add: get_as_integer_def locked_free unlocked_id)
  qed (use unl in simp_all)
qed

lemma set_get_as_integer_array:
  fixes x old :: "'a::len word"
  assumes "\<not> dt_locked dt" "allocates al" "LENGTH('a) = 8 * n" "n \<le> 8"
    and "dt_value dt = Val_byte_array len b" "array_ok len b"
  obtains dt' where "set_as_integer L al sg dt x = Inr (Inr (), dt')"
    "get_as_integer L sg scan dt' old = Inr (Inr x, dt')" "\<not> dt_locked dt'"
    "type_of (dt_value dt') = TYPE_BYTE_ARRAY"
proof -
  have n: "0 < n" "LENGTH('a) div 8 = n" "unat (of_nat n :: u32) = n"
    using assms(3,4) len_gt_0 [where 'a = 'a] by (auto simp del: len_gt_0)
  have cnt: "0 < (of_nat n :: u32)" "(of_nat n :: u32) \<le> RSIZE_MAX_MEM"
    using n assms(4) by (simp_all add: word_less_nat_alt word_le_nat_alt RSIZE_MAX_MEM_def)
  obtain sz room where p:
    "set_byte_array_value al (of_nat n) (Some (le_bytes n x)) len b (dt\<lparr>dt_locked := True\<rparr>) =
       Inr (Inr (), dt\<lparr>dt_locked := True, dt_bufs_size := sz,
         dt_value := Val_byte_array (of_nat n) (Some room)\<rparr>)"
    "array_ok (of_nat n) (Some room)" "take n room = le_bytes n x"
    by (rule set_byte_array_stores [OF assms(2,6) cnt, where src = "le_bytes n x" and
        d = "dt\<lparr>dt_locked := True\<rparr>"]) (simp_all add: n)
  let ?dt = "stored (dt\<lparr>dt_bufs_size := sz\<rparr>) (Val_byte_array (of_nat n) (Some room))"
  have len4: "word_of_le (le_bytes 4 (of_nat n :: u32)) = (of_nat n :: u32)" by simp
  have unl: "\<not> dt_locked ?dt" using assms(1) by simp
  show ?thesis
  proof (rule that)
    show "set_as_integer L al sg dt x = Inr (Inr (), ?dt)"
      using assms(1,5) p(1) len4 n(2)
      by (cases dt) (simp add: set_as_integer_def then_valid_def locked_free Let_def read_obj_def
        ignore_result_def cplus_data_set_byte_array_def cplus_data_set_value_def
        del: le_bytes.simps word_of_le.simps)
    have "n \<le> length room" using p(2) n(3) by (simp add: array_ok_def)
    then have "cplus_mem_cpy (Some (le_bytes n old)) (Some room) (of_nat n) =
        Inr (Inr (le_bytes n x))"
      using n p(3) cnt(1) by (simp add: cplus_mem_cpy_def read_obj_def write_obj_def)
    with unl n(2) assms(3) show "get_as_integer L sg scan ?dt old = Inr (Inr x, ?dt)"
      by (simp add: get_as_integer_def locked_free unlocked_id)
  qed (use unl in simp_all)
qed

lemma set_get_as_integer_holds:
  fixes x old :: "'a::len word"
  assumes "\<not> dt_locked dt" "allocates al" "LENGTH('a) = 8 * n" "n \<le> 8"
    and "scans_back scan sg TYPE('a)" "holds_int LENGTH('a) dt"
  shows "\<exists>dt'. set_as_integer L al sg dt x = Inr (Inr (), dt') \<and>
     type_of (dt_value dt') = type_of (dt_value dt) \<and>
     get_as_integer L sg scan dt' old = Inr (Inr x, dt')"
proof -
  consider (str) len b where "dt_value dt = Val_string len b" "string_ok len b"
    | (arr) len b where "dt_value dt = Val_byte_array len b" "array_ok len b"
    | (num) csg w where "int_type (type_of (dt_value dt)) = Some (csg, w)" "LENGTH('a) \<le> w"
    using assms(6) by (cases "dt_value dt") (auto simp: holds_int_def)
  then show ?thesis
  proof cases
    case (str len b)
    have "LENGTH('a) \<le> 64" using assms(3,4) by simp
    from set_get_as_integer_string [OF assms(1,2) this assms(5) str, of L x old]
    obtain dt' where "set_as_integer L al sg dt x = Inr (Inr (), dt')"
      "get_as_integer L sg scan dt' old = Inr (Inr x, dt')"
      "type_of (dt_value dt') = TYPE_STRING" by blast
    with str(1) show ?thesis by auto
  next
    case (arr len b)
    from set_get_as_integer_array [OF assms(1-4) arr, of L sg x scan old]
    obtain dt' where "set_as_integer L al sg dt x = Inr (Inr (), dt')"
      "get_as_integer L sg scan dt' old = Inr (Inr x, dt')"
      "type_of (dt_value dt') = TYPE_BYTE_ARRAY" by blast
    with arr(1) show ?thesis by auto
  next
    case (num csg w)
    let ?v = "int_value_of (type_of (dt_value dt)) (int_value sg x)"
    have ty: "type_of ?v = type_of (dt_value dt)" using num(1) by (intro type_of_int_value_of) simp
    have "set_as_integer L al sg dt x = Inr (Inr (), stored dt ?v)"
      using assms(1) num(1) by (intro set_as_integer_int) simp_all
    moreover have "get_as_integer L sg scan (stored dt ?v) old =
        Inr (Inr (word_of_int (int_of_value ?v)), stored dt ?v)"
      using get_as_integer_int [of "stored dt ?v" L sg scan old] assms(1) num(1) ty by simp
    moreover have "(word_of_int (int_of_value ?v) :: 'a word) = x"
      using int_of_int_value_of [OF num(1)] word_of_int_c_convert [OF num(2)] by simp
    ultimately show ?thesis using ty by simp
  qed
qed

section \<open>Byte order\<close>

lemma le_bytes_reverse:
  fixes v w :: "'a::len word"
  assumes "\<And>j k. \<lbrakk>j < n; k < 8\<rbrakk> \<Longrightarrow> bit w (8 * j + k) = bit v (8 * (n - Suc j) + k)"
  shows "le_bytes n w = rev (le_bytes n v)"
proof (rule nth_equalityI)
  fix j
  assume "j < length (le_bytes n w)"
  then have j: "j < n" by simp
  show "le_bytes n w ! j = rev (le_bytes n v) ! j"
    by (rule bit_word_eqI) (use j assms in \<open>simp add: bit_le_bytes rev_nth\<close>)
qed simp

lemma le_bytes_inject:
  fixes v w :: "'a::len word"
  assumes "LENGTH('a) = 8 * n" "le_bytes n v = le_bytes n w"
  shows "v = w"
  using arg_cong [OF assms(2), of word_of_le] word_of_le_le_bytes [OF assms(1)] by metis

lemma swap_masks:
  "(0x00FF0000 :: u32) = push_bit 16 (mask 8)"
  "(0x0000FF00 :: u32) = push_bit 8 (mask 8)"
  "(0x00FF000000000000 :: u64) = push_bit 48 (mask 8)"
  "(0x0000FF0000000000 :: u64) = push_bit 40 (mask 8)"
  "(0x000000FF00000000 :: u64) = push_bit 32 (mask 8)"
  "(0x00000000FF000000 :: u64) = push_bit 24 (mask 8)"
  "(0x0000000000FF0000 :: u64) = push_bit 16 (mask 8)"
  "(0x000000000000FF00 :: u64) = push_bit 8 (mask 8)"
  by (simp_all add: mask_eq_exp_minus_1 push_bit_eq_mult)

lemma bit_beyond: "LENGTH('a) \<le> m \<Longrightarrow> \<not> bit (v :: 'a::len word) m"
  using bit_imp_le_length [of v m] by auto

lemma swap16_bytes: "le_bytes 2 (cplus_data_swap16 v) = rev (le_bytes 2 v)"
proof (rule le_bytes_reverse)
  fix j k :: nat
  assume "j < 2" "k < 8"
  then consider "j = 0" | "j = 1" by linarith
  then show "bit (cplus_data_swap16 v) (8 * j + k) = bit v (8 * (2 - Suc j) + k)"
    unfolding cplus_data_swap16_def
    by cases (use \<open>k < 8\<close> in \<open>simp_all add: bit_simps bit_beyond\<close>)
qed

lemma swap32_bytes: "le_bytes 4 (cplus_data_swap32 v) = rev (le_bytes 4 v)"
proof (rule le_bytes_reverse)
  fix j k :: nat
  assume "j < 4" "k < 8"
  then consider "j = 0" | "j = 1" | "j = 2" | "j = 3" by linarith
  then show "bit (cplus_data_swap32 v) (8 * j + k) = bit v (8 * (4 - Suc j) + k)"
    unfolding cplus_data_swap32_def swap_masks
    by cases (use \<open>k < 8\<close> in \<open>simp_all add: bit_simps bit_beyond\<close>)
qed

lemma swap64_bytes: "le_bytes 8 (cplus_data_swap64 v) = rev (le_bytes 8 v)"
proof (rule le_bytes_reverse)
  fix j k :: nat
  assume "j < 8" "k < 8"
  then consider "j = 0" | "j = 1" | "j = 2" | "j = 3" | "j = 4" | "j = 5" | "j = 6" | "j = 7"
    by linarith
  then show "bit (cplus_data_swap64 v) (8 * j + k) = bit v (8 * (8 - Suc j) + k)"
    unfolding cplus_data_swap64_def swap_masks
    by cases (use \<open>k < 8\<close> in \<open>simp_all add: bit_simps bit_beyond\<close>)
qed

section \<open>Text of an integer value\<close>

lemma print_tmp_integer:
  assumes "\<not> dt_locked dt" "- (2 ^ 64) < i" "i < 2 ^ 64"
  shows "print_tmp dt (Inr (fmt_dec i)) = Inr ((of_nat (length (fmt_dec i)),
     fmt_dec i @ 0 # replicate (255 - length (fmt_dec i)) 0), dt)"
proof -
  have l: "length (fmt_dec i) < unat (256 :: u32)" using length_fmt_dec [OF assms(2,3)] by simp
  then have "cplus_str_printf (Some (replicate 256 0)) 256 (fmt_dec i) =
      Inr (int (length (fmt_dec i)), Some (fmt_dec i @ 0 #
        drop (Suc (length (fmt_dec i))) (replicate 256 0)))"
    by (intro str_printf_fits) simp_all
  with assms(1) show ?thesis by (simp add: print_tmp_def locked_free unlocked_id)
qed

lemma finish_integer:
  fixes cap :: u32
  assumes "\<not> dt_locked dt" "- (2 ^ 64) < i" "i < 2 ^ 64" "21 < unat cap" "unat cap \<le> length out"
  shows "finish_as_string cap out (print_tmp dt (Inr (fmt_dec i))) =
     Inr ((Inr (int (length (fmt_dec i))),
       Some (fmt_dec i @ 0 # drop (Suc (length (fmt_dec i))) out)), dt)"
proof -
  have l: "length (fmt_dec i) \<le> 21" by (rule length_fmt_dec [OF assms(2,3)])
  then have "unat (of_nat (length (fmt_dec i)) + 1 :: u32) = Suc (length (fmt_dec i))"
    using unat_of_nat_u32 [of "Suc (length (fmt_dec i))"] by (simp add: add.commute)
  then have "\<not> cap < of_nat (length (fmt_dec i)) + 1"
    using l assms(4) by (simp add: word_less_nat_alt)
  moreover have "cplus_str_printf (Some out) cap (fmt_dec i) = Inr (int (length (fmt_dec i)),
      Some (fmt_dec i @ 0 # drop (Suc (length (fmt_dec i))) out))"
    using l assms(4,5) by (intro str_printf_fits) simp_all
  ultimately show ?thesis
    using c_str_terminated [OF fmt_dec_no_nul, of i]
    by (simp add: finish_as_string_def print_tmp_integer [OF assms(1-3)])
qed

lemma get_as_string_integer:
  fixes cap :: u32
  assumes "\<not> dt_locked dt" "int_type (type_of (dt_value dt)) \<noteq> None"
    and "type_of (dt_value dt) \<noteq> TYPE_POINTER" "21 < unat cap" "unat cap \<le> length out"
  defines "i \<equiv> int_of_value (dt_value dt)"
  shows "cplus_data_get_as_string L dt cap (Some out) =
     Inr ((Inr (int (length (fmt_dec i))),
       Some (fmt_dec i @ 0 # drop (Suc (length (fmt_dec i))) out)), dt)"
proof -
  have "cap \<noteq> 0" using assms(4) by auto
  have s: "- (2 ^ 64) < sint x" "sint x < 2 ^ 64" if "LENGTH('a) \<le> 64" for x :: "'a::len word"
    using int_value_bounds [OF that, of True x] by (simp_all add: int_value_def)
  have u: "- (2 ^ 64) < uint x" "uint x < 2 ^ 64" if "LENGTH('a) \<le> 64" for x :: "'a::len word"
    using int_value_bounds [OF that, of False x] by (simp_all add: int_value_def)
  have f: "\<lbrakk>- (2 ^ 64) < j; j < 2 ^ 64\<rbrakk> \<Longrightarrow>
      finish_as_string cap out (print_tmp dt (Inr (fmt_dec j))) =
      Inr ((Inr (int (length (fmt_dec j))),
        Some (fmt_dec j @ 0 # drop (Suc (length (fmt_dec j))) out)), dt)" for j
    by (rule finish_integer [OF assms(1) _ _ assms(4,5)])
  note fs = f [OF s] f [OF u]
  show ?thesis
    using assms(2,3) \<open>cap \<noteq> 0\<close> unfolding i_def
    by (cases "dt_value dt") (simp_all add: cplus_data_get_as_string_def fs)
qed

end
