(* ===== verification/Data_Props.thy ===== *)
theory Data_Props
  imports Data_Lemmas
begin

text \<open>
  The properties of the value objects of \<^verbatim>\<open>src/data.c\<close>: round trips through the untyped
  accessors, integer, text and byte conversions, byte swapping, and the paths on which the
  lock or the result code go wrong.
\<close>

section \<open>Inputs for the witnesses\<close>

definition example_alloc :: alloc where "example_alloc n = Some (\<lambda>i. 0)"

definition example_clib :: clib where
  "example_clib = \<lparr>float_of_int = word_of_int, double_of_int = word_of_int,
     float_of_double = (\<lambda>d. ucast d), double_of_float = (\<lambda>f. ucast f),
     trunc_float = (\<lambda>f. Some (uint f)), trunc_double = (\<lambda>d. Some (uint d)),
     fmt_f = (\<lambda>d. fmt_dec (uint d)), scan_f = (\<lambda>s. None), scan_lf = (\<lambda>s. None),
     fmt_p = (\<lambda>p. fmt_dec (uint p)), scan_p = (\<lambda>s. None)\<rparr>"

lemma allocates_example: "allocates example_alloc"
  by (simp add: allocates_def example_alloc_def)

section \<open>Scalars\<close>

text \<open>
   For every scalar type, \<^verbatim>\<open>cplus_data_set_value\<close> on an object whose lock is free
  succeeds, marks the value as set, keeps the type and leaves the lock free, and
  \<^verbatim>\<open>cplus_data_get_value\<close> then writes back exactly the bytes that were set, touches no other
  byte of the caller's object and returns the size of the type.
\<close>

theorem data_scalar_value_roundtrip:
  assumes "\<not> dt_locked dt" "type_of (dt_value dt) = ty" "0 < scalar_size ty"
    and "length bs = scalar_size ty" "length bs \<le> length obj"
  shows "\<exists>dt'. cplus_data_set_value al dt (Some bs) v2 = Inr (Inr (), dt') \<and>
     dt_is_valid dt' \<and> \<not> dt_locked dt' \<and> type_of (dt_value dt') = ty \<and>
     cplus_data_get_value dt' (Some obj) v2' =
       Inr ((Inr (int (length bs)), Some (bs @ drop (length bs) obj), v2'), dt')"
proof -
  let ?dt = "stored dt (scalar_of ty bs)"
  note sc = bytes_of_scalar_of [OF assms(3,4)]
  have "cplus_data_set_value al dt (Some bs) v2 = Inr (Inr (), ?dt)"
    using set_value_scalar [of dt bs al v2] assms by simp
  moreover have "cplus_data_get_value ?dt (Some obj) v2' =
      Inr ((Inr (int (length bs)), Some (bs @ drop (length bs) obj), v2'), ?dt)"
    using get_value_scalar [of ?dt obj v2'] sc assms by simp
  ultimately show ?thesis using sc(2) assms(1) by simp
qed

theorem data_scalar_value_roundtrip_witness:
  "\<exists>dt'. cplus_data_set_value example_alloc (cleared_data TYPE_INT64)
      (Some [1, 2, 3, 4, 5, 6, 7, 8]) None = Inr (Inr (), dt') \<and>
     dt_is_valid dt' \<and> \<not> dt_locked dt' \<and> type_of (dt_value dt') = TYPE_INT64 \<and>
     cplus_data_get_value dt' (Some (replicate 10 9)) None =
       Inr ((Inr (int (length ([1, 2, 3, 4, 5, 6, 7, 8] :: u8 list))),
         Some ([1, 2, 3, 4, 5, 6, 7, 8] @
           drop (length ([1, 2, 3, 4, 5, 6, 7, 8] :: u8 list)) (replicate 10 9)), None), dt')"
  by (rule data_scalar_value_roundtrip) (simp_all add: cleared_data_def)

section \<open>Strings and byte arrays\<close>

lemma set_string_stores:
  assumes "\<not> dt_locked dt" "allocates al" "dt_value dt = Val_string len b" "string_ok len b"
    and "0 \<notin> set s" "length s \<le> unat n" "unat n < 4294967295"
  obtains len' room where
    "cplus_data_set_string al dt n (Some (s @ 0 # t)) =
       Inr (Inr (), stored dt (Val_string len' (Some room)))"
    "string_ok len' (Some room)" "c_str (Some room) = Inr s"
proof -
  obtain len' room where g: "grow_string al len b (n + 1) = (len', Some room)" "n + 1 \<le> len'"
    "length room = unat len'" by (rule grow_string_room [OF assms(2,4)])
  have "unat (n + 1) = Suc (unat n)"
    using unat_Suc_u32 [of n "- 1"] assms(7) by (simp add: word_less_nat_alt unsigned_minus_1_eq_mask mask_eq_exp_minus_1)
  then have fits: "length s < unat len'" using g(2) assms(6) by (simp add: word_le_nat_alt)
  let ?room = "s @ 0 # drop (Suc (length s)) room"
  have p: "cplus_str_printf (Some room) len' s = Inr (int (length s), Some ?room)"
    using fits g(3) by (intro str_printf_fits) simp_all
  have le4: "read_obj 4 (le_bytes 4 n) = Inr (le_bytes 4 n)" by (simp add: read_obj_def)
  show ?thesis
  proof (rule that)
    have "(word_of_le (le_bytes 4 n) :: u32) = n" by simp
    with assms(1,3) g(1) p le4 c_str_terminated [OF assms(5), of t]
    show "cplus_data_set_string al dt n (Some (s @ 0 # t)) =
        Inr (Inr (), stored dt (Val_string len' (Some ?room)))"
      by (cases dt) (simp add: cplus_data_set_string_def cplus_data_set_value_def locked_free
          then_valid_def set_string_value_def del: le_bytes.simps word_of_le.simps)
    show "string_ok len' (Some ?room)" using g(3) fits by (simp add: string_ok_def)
  qed (simp add: c_str_terminated assms(5))
qed

lemma get_string_value:
  fixes cap :: u32
  assumes "\<not> dt_locked dt" "dt_value dt = Val_string len b" "c_str b = Inr s"
    and "unat cap \<le> length out" "length s < 4294967295"
  shows "cplus_data_get_value dt (Some (le_bytes 4 cap)) (Some out) =
     (if length s < unat cap
      then Inr ((Inr (int (length s)), Some (le_bytes 4 cap),
        Some (s @ 0 # drop (Suc (length s)) out)), dt)
      else Inr ((Inl ENOBUFS, Some (le_bytes 4 cap), Some out), dt))"
proof -
  have le4: "read_obj 4 (le_bytes 4 cap) = Inr (le_bytes 4 cap)" by (simp add: read_obj_def)
  have w: "(word_of_le (le_bytes 4 cap) :: u32) = cap" by simp
  show ?thesis
    using assms str_printf_fits [of s cap out] le4 w
    by (auto simp: cplus_data_get_value_def locked_free unlocked_id get_string_value_def
        simp del: le_bytes.simps word_of_le.simps)
qed

text \<open>
  C30.  Storing a text of at most \<open>n\<close> characters with \<^verbatim>\<open>cplus_data_set_string(n, ...)\<close> succeeds
  whenever no allocation fails, whatever the object held before, and reading it back with
  \<^verbatim>\<open>cplus_data_get_value\<close> into a buffer of \<open>cap\<close> bytes yields the text with its terminator and
  its length when \<open>cap\<close> exceeds the length, and fails with \<open>ENOBUFS\<close>, writing nothing, otherwise.
\<close>

theorem data_string_roundtrip:
  fixes cap :: u32
  assumes "\<not> dt_locked dt" "allocates al" "dt_value dt = Val_string len b" "string_ok len b"
    and "0 \<notin> set s" "length s \<le> unat n" "unat n < 4294967295" "unat cap \<le> length out"
  shows "\<exists>dt'. cplus_data_set_string al dt n (Some (s @ 0 # t)) = Inr (Inr (), dt') \<and>
     dt_is_valid dt' \<and>
     cplus_data_get_value dt' (Some (le_bytes 4 cap)) (Some out) =
       (if length s < unat cap
        then Inr ((Inr (int (length s)), Some (le_bytes 4 cap),
          Some (s @ 0 # drop (Suc (length s)) out)), dt')
        else Inr ((Inl ENOBUFS, Some (le_bytes 4 cap), Some out), dt'))"
proof -
  obtain len' room where st: "cplus_data_set_string al dt n (Some (s @ 0 # t)) =
       Inr (Inr (), stored dt (Val_string len' (Some room)))"
    "c_str (Some room) = Inr s" by (rule set_string_stores [OF assms(1-7)])
  let ?dt = "stored dt (Val_string len' (Some room))"
  have g: "\<not> dt_locked ?dt" "dt_value ?dt = Val_string len' (Some room)"
    "length s < 4294967295" using assms(1,6,7) by simp_all
  show ?thesis
    by (intro exI [of _ ?dt] conjI st(1) get_string_value [OF g(1,2) st(2) assms(8) g(3)]) simp
qed

theorem data_string_roundtrip_witness:
  "\<exists>dt'. cplus_data_set_string example_alloc (cleared_data TYPE_STRING) 2
      (Some ([72, 105] @ 0 # [])) = Inr (Inr (), dt') \<and>
     dt_is_valid dt' \<and>
     cplus_data_get_value dt' (Some (le_bytes 4 (8 :: u32))) (Some (replicate 8 1)) =
       (if length ([72, 105] :: u8 list) < unat (8 :: u32)
        then Inr ((Inr (int (length ([72, 105] :: u8 list))), Some (le_bytes 4 (8 :: u32)),
          Some ([72, 105] @ 0 # drop (Suc (length ([72, 105] :: u8 list))) (replicate 8 1))), dt')
        else Inr ((Inl ENOBUFS, Some (le_bytes 4 (8 :: u32)), Some (replicate 8 1)), dt'))"
  by (rule data_string_roundtrip [where len = 0 and b = None])
    (simp_all add: cleared_data_def allocates_example string_ok_def)

lemma set_byte_array_step:
  assumes "\<not> dt_locked dt" "allocates al" "dt_value dt = Val_byte_array len b" "array_ok len b"
    and "0 < n" "n \<le> RSIZE_MAX_MEM" "unat n \<le> length src"
  obtains sz room where
    "cplus_data_set_byte_array al dt n (Some src) =
       Inr (Inr (), stored (dt\<lparr>dt_bufs_size := sz\<rparr>) (Val_byte_array n (Some room)))"
    "array_ok n (Some room)" "take (unat n) room = take (unat n) src"
proof -
  obtain sz room where p:
    "set_byte_array_value al n (Some src) len b (dt\<lparr>dt_locked := True\<rparr>) = Inr (Inr (),
       dt\<lparr>dt_locked := True, dt_bufs_size := sz, dt_value := Val_byte_array n (Some room)\<rparr>)"
    "array_ok n (Some room)" "take (unat n) room = take (unat n) src"
    by (rule set_byte_array_stores [OF assms(2,4-7), where d = "dt\<lparr>dt_locked := True\<rparr>"]) simp
  have le4: "read_obj 4 (le_bytes 4 n) = Inr (le_bytes 4 n)" by (simp add: read_obj_def)
  have w: "(word_of_le (le_bytes 4 n) :: u32) = n" by simp
  show ?thesis
  proof (rule that)
    show "cplus_data_set_byte_array al dt n (Some src) =
       Inr (Inr (), stored (dt\<lparr>dt_bufs_size := sz\<rparr>) (Val_byte_array n (Some room)))"
      using assms(1,3) p(1) le4 w
      by (cases dt) (simp add: cplus_data_set_byte_array_def cplus_data_set_value_def locked_free
          then_valid_def del: le_bytes.simps word_of_le.simps)
  qed (use p in simp_all)
qed

lemma sint_small:
  assumes "n \<le> RSIZE_MAX_MEM"
  shows "sint n = int (unat n)"
proof -
  have "unat n \<le> 268435456" using assms by (simp add: word_le_nat_alt RSIZE_MAX_MEM_def)
  moreover have "signed_take_bit 31 m = m" if "0 \<le> m" "m \<le> 268435456" for m :: int
    using that by (intro signed_take_bit_int_eq_self) simp_all
  ultimately have "signed_take_bit 31 (int (unat n)) = int (unat n)"
    by (metis of_nat_0_le_iff of_nat_le_iff of_nat_numeral)
  then show ?thesis by (simp add: sint_uint)
qed

text \<open>
  C31.  Storing \<open>n\<close> bytes, \<open>n\<close> between 1 and the 256 MB limit of the checked copies, in a byte
  array succeeds whenever no allocation fails.  \<^verbatim>\<open>cplus_data_get_value\<close> then returns \<open>n\<close> and
  writes exactly these bytes to a buffer of \<open>cap \<ge> n\<close> bytes, fails with \<open>ENOBUFS\<close> for a smaller
  one, and \<^verbatim>\<open>cplus_data_get_as_byte_array\<close> copies the first \<open>min n cap\<close> bytes; the lock is
  free after each call.
\<close>

theorem data_byte_array_roundtrip:
  fixes n cap :: u32
  assumes "\<not> dt_locked dt" "allocates al" "dt_value dt = Val_byte_array len b" "array_ok len b"
    and "0 < n" "n \<le> RSIZE_MAX_MEM" "unat n \<le> length src"
    and "0 < cap" "cap \<le> RSIZE_MAX_MEM" "unat cap \<le> length out"
  shows "\<exists>dt'. cplus_data_set_byte_array al dt n (Some src) = Inr (Inr (), dt') \<and>
     \<not> dt_locked dt' \<and>
     cplus_data_get_value dt' (Some (le_bytes 4 cap)) (Some out) =
       (if cap < n then Inr ((Inl ENOBUFS, Some (le_bytes 4 cap), Some out), dt')
        else Inr ((Inr (int (unat n)), Some (le_bytes 4 cap),
          Some (take (unat n) src @ drop (unat n) out)), dt')) \<and>
     cplus_data_get_as_byte_array dt' cap (Some out) =
       Inr ((Inr (int (unat (min cap n))),
         Some (take (unat (min cap n)) src @ drop (unat (min cap n)) out)), dt')"
proof -
  obtain sz room where st: "cplus_data_set_byte_array al dt n (Some src) =
       Inr (Inr (), stored (dt\<lparr>dt_bufs_size := sz\<rparr>) (Val_byte_array n (Some room)))"
    "array_ok n (Some room)" "take (unat n) room = take (unat n) src"
    by (rule set_byte_array_step [OF assms(1-7)])
  let ?dt = "stored (dt\<lparr>dt_bufs_size := sz\<rparr>) (Val_byte_array n (Some room))"
  have room: "unat n \<le> length room" using st(2) by (simp add: array_ok_def)
  have unl: "\<not> dt_locked ?dt" using assms(1) by simp
  have le4: "read_obj 4 (le_bytes 4 cap) = Inr (le_bytes 4 cap)" by (simp add: read_obj_def)
  have w: "(word_of_le (le_bytes 4 cap) :: u32) = cap" by simp
  have "cplus_mem_cpy_ex (Some out) cap (Some room) n =
      Inr (Inr (take (unat n) src @ drop (unat n) out))" if "n \<le> cap"
    using that assms(5,8,9,10) st(3) room
    by (auto simp: cplus_mem_cpy_ex_def read_obj_def write_obj_def not_less word_le_nat_alt min_def)
  then have get: "cplus_data_get_value ?dt (Some (le_bytes 4 cap)) (Some out) =
       (if cap < n then Inr ((Inl ENOBUFS, Some (le_bytes 4 cap), Some out), ?dt)
        else Inr ((Inr (int (unat n)), Some (le_bytes 4 cap),
          Some (take (unat n) src @ drop (unat n) out)), ?dt))"
    using unl le4 w sint_small [OF assms(6)]
    by (auto simp: cplus_data_get_value_def data_spin_lock_def data_spin_unlock_def not_less
        unlocked_id simp del: le_bytes.simps word_of_le.simps)
  define k where "k = min cap n"
  have k: "0 < k" "k \<le> RSIZE_MAX_MEM" "unat k \<le> unat n" "unat k \<le> length out"
    using assms(5,6,8,9,10) by (auto simp: k_def min_def word_le_nat_alt split: if_splits)
  have "take (unat k) room = take (unat k) src"
    using arg_cong [OF st(3), of "take (unat k)"] k(3) by (simp add: min_def)
  then have "cplus_mem_cpy (Some out) (Some room) k =
      Inr (Inr (take (unat k) src @ drop (unat k) out))"
    using k room assms(7)
    by (cases "k = 0") (simp_all add: cplus_mem_cpy_def read_obj_def write_obj_def)
  then have "copy_out ?dt cap out (Some room) n =
      Inr ((Inr (int (unat k)), Some (take (unat k) src @ drop (unat k) out)), ?dt)"
    using unl sint_small [OF k(2)]
    by (auto simp: copy_out_def locked_free unlocked_id Let_def k_def min_def)
  with assms(8) have bytes: "cplus_data_get_as_byte_array ?dt cap (Some out) =
       Inr ((Inr (int (unat k)), Some (take (unat k) src @ drop (unat k) out)), ?dt)"
    by (simp add: cplus_data_get_as_byte_array_def)
  show ?thesis
    by (intro exI [of _ ?dt] conjI st(1) unl get bytes [unfolded k_def])
qed

theorem data_byte_array_roundtrip_witness:
  "\<exists>dt'. cplus_data_set_byte_array example_alloc (cleared_data TYPE_BYTE_ARRAY) 3
      (Some [1, 2, 3, 4]) = Inr (Inr (), dt') \<and>
     \<not> dt_locked dt' \<and>
     cplus_data_get_value dt' (Some (le_bytes 4 (2 :: u32))) (Some [9, 9]) =
       (if (2 :: u32) < 3 then Inr ((Inl ENOBUFS, Some (le_bytes 4 (2 :: u32)), Some [9, 9]), dt')
        else Inr ((Inr (int (unat (3 :: u32))), Some (le_bytes 4 (2 :: u32)),
          Some (take (unat (3 :: u32)) [1, 2, 3, 4] @ drop (unat (3 :: u32)) [9, 9])), dt')) \<and>
     cplus_data_get_as_byte_array dt' 2 (Some [9, 9]) =
       Inr ((Inr (int (unat (min (2 :: u32) 3))),
         Some (take (unat (min (2 :: u32) 3)) [1, 2, 3, 4] @
           drop (unat (min (2 :: u32) 3)) [9, 9])), dt')"
  by (rule data_byte_array_roundtrip [where len = 0 and b = None])
    (simp_all add: cleared_data_def allocates_example array_ok_def RSIZE_MAX_MEM_def)

text \<open>
   An empty byte array can be stored, but reading it with \<^verbatim>\<open>cplus_data_get_value\<close> takes the
  branch in which \<^verbatim>\<open>cplus_mem_cpy_ex\<close> refuses to copy 0 bytes and the function returns
  without releasing the lock: the call fails with \<open>EINVAL\<close>, and every later read, write or size
  query of the object spins forever.
\<close>

theorem data_empty_byte_array_leaks_lock:
  fixes cap :: u32
  assumes "\<not> dt_locked dt" "dt_value dt = Val_byte_array len b" "b \<noteq> None"
  shows "\<exists>dt1 dt2. cplus_data_set_byte_array al dt 0 (Some src) = Inr (Inr (), dt1) \<and>
     \<not> dt_locked dt1 \<and> cplus_data_get_data_size dt1 = Inr (Inr 0, dt1) \<and>
     cplus_data_get_value dt1 (Some (le_bytes 4 cap)) (Some out) =
       Inr ((Inl EINVAL, Some (le_bytes 4 cap), Some out), dt2) \<and>
     cplus_data_get_value dt2 (Some (le_bytes 4 cap)) (Some out) = Inl Spin_forever \<and>
     cplus_data_set_byte_array al dt2 n src' = Inl Spin_forever \<and>
     cplus_data_get_as_byte_array dt2 1 (Some out) = Inl Spin_forever \<and>
     cplus_data_get_data_size dt2 = Inl Spin_forever"
proof -
  obtain room where b: "b = Some room" using assms(3) by blast
  let ?dt1 = "stored (dt\<lparr>dt_bufs_size := len\<rparr>) (Val_byte_array 0 (Some room))"
  have le4: "read_obj 4 (le_bytes 4 (k :: u32)) = Inr (le_bytes 4 k)" for k
    by (simp add: read_obj_def)
  have w: "(word_of_le (le_bytes 4 k) :: u32) = k" for k :: u32 by simp
  have unl: "\<not> dt_locked ?dt1" using assms(1) by simp
  have refuse: "cplus_mem_cpy_ex d sz s 0 = Inr (Inl EINVAL)" for d sz s
    by (simp add: cplus_mem_cpy_ex_def split: option.split)
  have "cplus_data_set_byte_array al dt 0 (Some src) = Inr (Inr (), ?dt1)"
    using assms(1,2) b le4 [of 0] w [of 0]
    by (cases dt) (simp add: cplus_data_set_byte_array_def cplus_data_set_value_def locked_free
        then_valid_def set_byte_array_value_def refuse del: le_bytes.simps word_of_le.simps)
  moreover have "cplus_data_get_value ?dt1 (Some (le_bytes 4 cap)) (Some out) =
      Inr ((Inl EINVAL, Some (le_bytes 4 cap), Some out), ?dt1\<lparr>dt_locked := True\<rparr>)"
    using unl le4 w by (simp add: cplus_data_get_value_def data_spin_lock_def refuse
        del: le_bytes.simps word_of_le.simps)
  moreover have "cplus_data_get_data_size ?dt1 = Inr (Inr 0, ?dt1)"
    using unl by (simp add: cplus_data_get_data_size_def locked_read)
  moreover have
    "cplus_data_get_value (?dt1\<lparr>dt_locked := True\<rparr>) (Some (le_bytes 4 cap)) (Some out) =
       Inl Spin_forever"
    by (simp add: cplus_data_get_value_def data_spin_lock_def)
  moreover have "cplus_data_set_byte_array al (?dt1\<lparr>dt_locked := True\<rparr>) n src' = Inl Spin_forever"
    by (simp add: cplus_data_set_byte_array_def cplus_data_set_value_def locked_held
        then_valid_def)
  moreover have "cplus_data_get_as_byte_array (?dt1\<lparr>dt_locked := True\<rparr>) 1 (Some out) =
      Inl Spin_forever"
    by (simp add: cplus_data_get_as_byte_array_def copy_out_def locked_held)
  moreover have "cplus_data_get_data_size (?dt1\<lparr>dt_locked := True\<rparr>) = Inl Spin_forever"
    by (simp add: cplus_data_get_data_size_def locked_held)
  ultimately show ?thesis using unl by blast
qed

definition example_array :: data where
  "example_array = (cleared_data TYPE_BYTE_ARRAY)\<lparr>dt_is_valid := True, dt_bufs_size := 2,
     dt_value := Val_byte_array 2 (Some [5, 6])\<rparr>"

theorem data_empty_byte_array_leaks_lock_witness:
  "\<exists>dt1 dt2. cplus_data_set_byte_array example_alloc example_array 0 (Some []) =
       Inr (Inr (), dt1) \<and>
     \<not> dt_locked dt1 \<and> cplus_data_get_data_size dt1 = Inr (Inr 0, dt1) \<and>
     cplus_data_get_value dt1 (Some (le_bytes 4 (4 :: u32))) (Some [0, 0, 0, 0]) =
       Inr ((Inl EINVAL, Some (le_bytes 4 (4 :: u32)), Some [0, 0, 0, 0]), dt2) \<and>
     cplus_data_get_value dt2 (Some (le_bytes 4 (4 :: u32))) (Some [0, 0, 0, 0]) =
       Inl Spin_forever \<and>
     cplus_data_set_byte_array example_alloc dt2 1 (Some [7]) = Inl Spin_forever \<and>
     cplus_data_get_as_byte_array dt2 1 (Some [0, 0, 0, 0]) = Inl Spin_forever \<and>
     cplus_data_get_data_size dt2 = Inl Spin_forever"
  by (rule data_empty_byte_array_leaks_lock [where len = 2 and b = "Some [5, 6]"])
    (simp_all add: example_array_def cleared_data_def)

section \<open>Integers\<close>

lemmas set_get_as_integer_widths =
  set_get_as_integer_holds [where 'a = 8 and n = 1] set_get_as_integer_holds [where 'a = 16 and n = 2]
  set_get_as_integer_holds [where 'a = 32 and n = 4] set_get_as_integer_holds [where 'a = 64 and n = 8]

text \<open>
  C27.  An integer of any of the eight C types, stored with its \<^verbatim>\<open>cplus_data_set_as_*\<close> in an
  object whose type can hold it (an integer or pointer type at least as wide, of either
  signedness, a string or a byte array) and read back with the \<^verbatim>\<open>cplus_data_get_as_*\<close> of the
  same C type, is the same integer: through sign extension and truncation, through decimal
  text, and through little-endian bytes.
\<close>

theorem data_integer_roundtrip:
  assumes "\<not> dt_locked d8" "\<not> dt_locked d16" "\<not> dt_locked d32" "\<not> dt_locked d64"
    and "holds_int 8 d8" "holds_int 16 d16" "holds_int 32 d32" "holds_int 64 d64"
    and "allocates al"
  shows
    "(\<exists>d. cplus_data_set_as_int8 L al d8 i8 = Inr (Inr (), d) \<and>
          type_of (dt_value d) = type_of (dt_value d8) \<and>
          cplus_data_get_as_int8 L d o8 = Inr (Inr i8, d)) \<and>
     (\<exists>d. cplus_data_set_as_int16 L al d16 i16 = Inr (Inr (), d) \<and>
          type_of (dt_value d) = type_of (dt_value d16) \<and>
          cplus_data_get_as_int16 L d o16 = Inr (Inr i16, d)) \<and>
     (\<exists>d. cplus_data_set_as_int32 L al d32 i32 = Inr (Inr (), d) \<and>
          type_of (dt_value d) = type_of (dt_value d32) \<and>
          cplus_data_get_as_int32 L d o32 = Inr (Inr i32, d)) \<and>
     (\<exists>d. cplus_data_set_as_int64 L al d64 i64 = Inr (Inr (), d) \<and>
          type_of (dt_value d) = type_of (dt_value d64) \<and>
          cplus_data_get_as_int64 L d o64 = Inr (Inr i64, d)) \<and>
     (\<exists>d. cplus_data_set_as_uint8 L al d8 i8 = Inr (Inr (), d) \<and>
          type_of (dt_value d) = type_of (dt_value d8) \<and>
          cplus_data_get_as_uint8 L d o8 = Inr (Inr i8, d)) \<and>
     (\<exists>d. cplus_data_set_as_uint16 L al d16 i16 = Inr (Inr (), d) \<and>
          type_of (dt_value d) = type_of (dt_value d16) \<and>
          cplus_data_get_as_uint16 L d o16 = Inr (Inr i16, d)) \<and>
     (\<exists>d. cplus_data_set_as_uint32 L al d32 i32 = Inr (Inr (), d) \<and>
          type_of (dt_value d) = type_of (dt_value d32) \<and>
          cplus_data_get_as_uint32 L d o32 = Inr (Inr i32, d)) \<and>
     (\<exists>d. cplus_data_set_as_uint64 L al d64 i64 = Inr (Inr (), d) \<and>
          type_of (dt_value d) = type_of (dt_value d64) \<and>
          cplus_data_get_as_uint64 L d o64 = Inr (Inr i64, d))"
  unfolding cplus_data_set_as_int8_def cplus_data_get_as_int8_def
    cplus_data_set_as_int16_def cplus_data_get_as_int16_def
    cplus_data_set_as_int32_def cplus_data_get_as_int32_def
    cplus_data_set_as_int64_def cplus_data_get_as_int64_def
    cplus_data_set_as_uint8_def cplus_data_get_as_uint8_def
    cplus_data_set_as_uint16_def cplus_data_get_as_uint16_def
    cplus_data_set_as_uint32_def cplus_data_get_as_uint32_def
    cplus_data_set_as_uint64_def cplus_data_get_as_uint64_def
  using assms
  by (intro conjI set_get_as_integer_widths) (simp_all add: scans_back_intros)

theorem data_integer_roundtrip_witness:
  defines "t \<equiv> cleared_data TYPE_STRING" and "a \<equiv> cleared_data TYPE_BYTE_ARRAY"
    and "w \<equiv> cleared_data TYPE_UINT32" and "v \<equiv> cleared_data TYPE_UINT64"
  shows
    "(\<exists>d. cplus_data_set_as_int8 example_clib example_alloc t (- 5) = Inr (Inr (), d) \<and>
          type_of (dt_value d) = type_of (dt_value t) \<and>
          cplus_data_get_as_int8 example_clib d 0 = Inr (Inr (- 5), d)) \<and>
     (\<exists>d. cplus_data_set_as_int16 example_clib example_alloc a (- 7) = Inr (Inr (), d) \<and>
          type_of (dt_value d) = type_of (dt_value a) \<and>
          cplus_data_get_as_int16 example_clib d 0 = Inr (Inr (- 7), d)) \<and>
     (\<exists>d. cplus_data_set_as_int32 example_clib example_alloc w (- 9) = Inr (Inr (), d) \<and>
          type_of (dt_value d) = type_of (dt_value w) \<and>
          cplus_data_get_as_int32 example_clib d 0 = Inr (Inr (- 9), d)) \<and>
     (\<exists>d. cplus_data_set_as_int64 example_clib example_alloc v (- 11) = Inr (Inr (), d) \<and>
          type_of (dt_value d) = type_of (dt_value v) \<and>
          cplus_data_get_as_int64 example_clib d 0 = Inr (Inr (- 11), d)) \<and>
     (\<exists>d. cplus_data_set_as_uint8 example_clib example_alloc t (- 5) = Inr (Inr (), d) \<and>
          type_of (dt_value d) = type_of (dt_value t) \<and>
          cplus_data_get_as_uint8 example_clib d 0 = Inr (Inr (- 5), d)) \<and>
     (\<exists>d. cplus_data_set_as_uint16 example_clib example_alloc a (- 7) = Inr (Inr (), d) \<and>
          type_of (dt_value d) = type_of (dt_value a) \<and>
          cplus_data_get_as_uint16 example_clib d 0 = Inr (Inr (- 7), d)) \<and>
     (\<exists>d. cplus_data_set_as_uint32 example_clib example_alloc w (- 9) = Inr (Inr (), d) \<and>
          type_of (dt_value d) = type_of (dt_value w) \<and>
          cplus_data_get_as_uint32 example_clib d 0 = Inr (Inr (- 9), d)) \<and>
     (\<exists>d. cplus_data_set_as_uint64 example_clib example_alloc v (- 11) = Inr (Inr (), d) \<and>
          type_of (dt_value d) = type_of (dt_value v) \<and>
          cplus_data_get_as_uint64 example_clib d 0 = Inr (Inr (- 11), d))"
  by (rule data_integer_roundtrip)
    (simp_all add: t_def a_def w_def v_def cleared_data_def allocates_example holds_int_def
      string_ok_def array_ok_def)

section \<open>Text and bytes\<close>

text \<open>
   \<^verbatim>\<open>cplus_data_get_as_string\<close> prints the integer an object holds, for each of the eight
  integer types, into any buffer of at least 22 bytes, with the exact length as result.
  \<^verbatim>\<open>cplus_data_set_as_string\<close> on a second object of the same type then stores that integer,
  but returns \<open>CPLUS_FAIL\<close>, with \<open>errno\<close> untouched: only its string case can report success.  A
  text without a number is refused with \<open>EINVAL\<close>, and yet marks the object as holding a valid
  value.
\<close>

theorem data_text_exchange:
  fixes cap :: u32
  assumes "\<not> dt_locked dt" "\<not> dt_locked dt2" "type_of (dt_value dt2) = type_of (dt_value dt)"
    and "int_type (type_of (dt_value dt)) \<noteq> None" "type_of (dt_value dt) \<noteq> TYPE_POINTER"
    and "21 < unat cap" "unat cap \<le> length out"
    and "c_str (Some bad) = Inr junk" "scan_number junk = None"
  shows "\<exists>tx out'. cplus_data_get_as_string L dt cap (Some out) =
       Inr ((Inr (int (length tx)), Some out'), dt) \<and>
     tx = fmt_dec (int_of_value (dt_value dt)) \<and> c_str (Some out') = Inr tx \<and>
     cplus_data_set_as_string L al dt2 n (Some out') =
       Inr (Inl ENONE, stored dt2 (dt_value dt)) \<and>
     cplus_data_set_as_string L al dt2 n (Some bad) =
       Inr (Inl EINVAL, dt2\<lparr>dt_is_valid := True\<rparr>)"
proof -
  define tx where "tx = fmt_dec (int_of_value (dt_value dt))"
  define out' where "out' = tx @ 0 # drop (Suc (length tx)) out"
  have g: "cplus_data_get_as_string L dt cap (Some out) =
      Inr ((Inr (int (length tx)), Some out'), dt)"
    unfolding out'_def tx_def by (rule get_as_string_integer [OF assms(1,4-7)])
  have t: "c_str (Some out') = Inr tx"
    unfolding out'_def tx_def by (rule c_str_terminated [OF fmt_dec_no_nul])
  have bad: "scan_ld junk = None" "scan_lu junk = None" "scan_d junk = None" "scan_u junk = None"
    using assms(9) by (simp_all add: scan_ld_def scan_lu_def scan_d_def scan_u_def)
  have sback: "scan_d (fmt_dec (sint x8)) = Some (sint x8)"
    "scan_d (fmt_dec (sint x16)) = Some (sint x16)" "scan_d (fmt_dec (sint x32)) = Some (sint x32)"
    "scan_ld (fmt_dec (sint x64)) = Some (sint x64)" "scan_u (fmt_dec (uint x8)) = Some (uint x8)"
    "scan_u (fmt_dec (uint x16)) = Some (uint x16)" "scan_u (fmt_dec (uint x32)) = Some (uint x32)"
    "scan_lu (fmt_dec (uint x64)) = Some (uint x64)"
    for x8 :: u8 and x16 :: u16 and x32 :: u32 and x64 :: u64
    using scans_back_intros [where 'a = 8] scans_back_intros [where 'a = 16]
      scans_back_intros [where 'a = 32] scans_back_intros [where 'a = 64]
    by (simp_all add: scans_back_def int_value_def)
  have put_s: "put_scanned dt2 (Inr s) scan mk = (case scan s of None \<Rightarrow> Inr (Inl EINVAL, dt2)
      | Some v \<Rightarrow> Inr (Inl ENONE, dt2\<lparr>dt_value := mk v\<rparr>))" for s scan mk
    using assms(2) by (cases dt2) (simp add: put_scanned_def locked_free split: option.split)
  have s: "cplus_data_set_as_string L al dt2 n (Some out') =
      Inr (Inl ENONE, stored dt2 (dt_value dt))"
    using assms(3-5) t sback unfolding tx_def
    by (cases "dt_value dt"; cases "dt_value dt2")
      (simp_all add: cplus_data_set_as_string_def put_s mark_valid_def)
  have e: "cplus_data_set_as_string L al dt2 n (Some bad) =
      Inr (Inl EINVAL, dt2\<lparr>dt_is_valid := True\<rparr>)"
    using assms(3-5,8) bad
    by (cases "dt_value dt"; cases "dt_value dt2")
      (simp_all add: cplus_data_set_as_string_def put_s mark_valid_def)
  from g t s e tx_def show ?thesis by blast
qed

definition example_int :: data where
  "example_int = (cleared_data TYPE_INT32)\<lparr>dt_is_valid := True, dt_value := Val_i32 (- 42)\<rparr>"

theorem data_text_exchange_witness:
  "\<exists>tx out'. cplus_data_get_as_string example_clib example_int 32 (Some (replicate 32 0)) =
       Inr ((Inr (int (length tx)), Some out'), example_int) \<and>
     tx = fmt_dec (int_of_value (dt_value example_int)) \<and> c_str (Some out') = Inr tx \<and>
     cplus_data_set_as_string example_clib example_alloc (cleared_data TYPE_INT32) 9 (Some out') =
       Inr (Inl ENONE, stored (cleared_data TYPE_INT32) (dt_value example_int)) \<and>
     cplus_data_set_as_string example_clib example_alloc (cleared_data TYPE_INT32) 9
         (Some [120, 0]) =
       Inr (Inl EINVAL, (cleared_data TYPE_INT32)\<lparr>dt_is_valid := True\<rparr>)"
  by (rule data_text_exchange [where junk = "[120]"])
    (simp_all add: example_int_def cleared_data_def c_str_def scan_number_def is_space_def
      is_digit_def)

text \<open>
  \<^verbatim>\<open>cplus_data_set_as_byte_array\<close> never reports success.  On a scalar it stores the first
  bytes of the array and returns \<open>CPLUS_FAIL\<close> with \<open>errno\<close> untouched, or, when the array is
  shorter than the type, stores nothing and fails with \<open>ENOMEM\<close>.  On a string whose buffer is
  full it copies over the terminator, so that the next size query or text conversion reads
  beyond the buffer.
\<close>

theorem data_set_as_byte_array_reports_failure:
  assumes "\<not> dt_locked dt" "type_of (dt_value dt) = ty" "0 < scalar_size ty"
    and "unat n \<le> length src"
    and "\<not> dt_locked st" "dt_value st = Val_string len (Some bs)" "string_ok len (Some bs)"
    and "0 < len" "len < m" "unat m \<le> length txt'" "0 \<notin> set txt'"
  shows "cplus_data_set_as_byte_array dt n (Some src) =
       (if unat n < scalar_size ty then Inr (Inl ENOMEM, dt)
        else Inr (Inl ENONE, stored dt (scalar_of ty (take (scalar_size ty) src)))) \<and>
     (\<exists>st'. cplus_data_set_as_byte_array st m (Some txt') = Inr (Inl ENONE, st') \<and>
       dt_value st' = Val_string len (Some (take (unat len) txt')) \<and>
       cplus_data_get_data_size st' = Inl Out_of_bounds \<and>
       cplus_data_get_as_int32 L st' old = Inl Out_of_bounds)"
proof
  have pb: "put_bytes dt n src k (Some d) k mk =
      (if unat n < unat k then Inr (Inl ENOMEM, dt)
       else Inr (Inl ENONE, stored dt (mk (Some (take (unat k) src)))))"
    if "0 < k" "length d = unat k" for k d mk
    using that assms(1,4)
    by (cases dt) (auto simp: put_bytes_def locked_free cplus_mem_cpy_def read_obj_def
        write_obj_def word_less_nat_alt)
  have hd1: "hd (take (Suc 0) src) = hd src" if "src \<noteq> []"
    using that by (cases src) simp_all
  show "cplus_data_set_as_byte_array dt n (Some src) =
       (if unat n < scalar_size ty then Inr (Inl ENOMEM, dt)
        else Inr (Inl ENONE, stored dt (scalar_of ty (take (scalar_size ty) src))))"
    using assms(2,3)
    by (cases "dt_value dt")
      (auto simp: cplus_data_set_as_byte_array_def pb simp del: le_bytes.simps)
next
  let ?b = "take (unat len) txt'"
  have l: "length bs = unat len" "unat len < unat m" "len + 1 \<le> m"
    using assms(7,9) by (simp_all add: string_ok_def word_less_nat_alt inc_le)
  have noz: "0 \<notin> set ?b" using assms(11) by (meson in_set_takeD)
  let ?st = "stored st (Val_string len (Some ?b))"
  have "cplus_data_set_as_byte_array st m (Some txt') = Inr (Inl ENONE, ?st)"
    using assms(5,6,8,10) l
    by (cases st) (auto simp: cplus_data_set_as_byte_array_def put_bytes_def locked_free
        cplus_mem_cpy_def read_obj_def write_obj_def)
  moreover have "cplus_data_get_data_size ?st = Inl Out_of_bounds"
    using assms(5) noz by (simp add: cplus_data_get_data_size_def locked_free c_str_def)
  moreover have "cplus_data_get_as_int32 L ?st old = Inl Out_of_bounds"
    using assms(5) noz
    by (simp add: cplus_data_get_as_int32_def get_as_integer_def locked_free c_str_def)
  ultimately show "\<exists>st'. cplus_data_set_as_byte_array st m (Some txt') = Inr (Inl ENONE, st') \<and>
       dt_value st' = Val_string len (Some ?b) \<and>
       cplus_data_get_data_size st' = Inl Out_of_bounds \<and>
       cplus_data_get_as_int32 L st' old = Inl Out_of_bounds" by auto
qed

definition example_string :: data where
  "example_string = (cleared_data TYPE_STRING)\<lparr>dt_is_valid := True,
     dt_value := Val_string 2 (Some [49, 0])\<rparr>"

theorem data_set_as_byte_array_reports_failure_witness:
  "cplus_data_set_as_byte_array example_int 4 (Some [1, 2, 3, 4]) =
       (if unat (4 :: u32) < scalar_size TYPE_INT32 then Inr (Inl ENOMEM, example_int)
        else Inr (Inl ENONE, stored example_int
          (scalar_of TYPE_INT32 (take (scalar_size TYPE_INT32) [1, 2, 3, 4])))) \<and>
     (\<exists>st'. cplus_data_set_as_byte_array example_string 3 (Some [49, 50, 51]) =
         Inr (Inl ENONE, st') \<and>
       dt_value st' = Val_string 2 (Some (take (unat (2 :: u32)) [49, 50, 51])) \<and>
       cplus_data_get_data_size st' = Inl Out_of_bounds \<and>
       cplus_data_get_as_int32 example_clib st' 0 = Inl Out_of_bounds)"
  by (rule data_set_as_byte_array_reports_failure [where bs = "[49, 0]"])
    (simp_all add: example_int_def example_string_def cleared_data_def string_ok_def)

text \<open>
   \<^verbatim>\<open>cplus_data_set_as_double\<close> and \<^verbatim>\<open>cplus_data_set_as_pointer\<close> on a byte array deadlock on
  themselves: they hold the object's lock while \<^verbatim>\<open>cplus_data_set_byte_array\<close> waits for it.
  \<^verbatim>\<open>cplus_data_set_as_float\<close>, which does not, stores the bit pattern and reads it back.
\<close>

theorem data_set_as_double_deadlocks:
  assumes "\<not> dt_locked dt" "dt_value dt = Val_byte_array len b"
    and "array_ok len b" "allocates al"
  shows "cplus_data_set_as_double L al dt v = Inl Spin_forever \<and>
     cplus_data_set_as_pointer L al dt p = Inl Spin_forever \<and>
     (\<exists>d. cplus_data_set_as_float L al dt f = Inr (Inr (), d) \<and>
          cplus_data_get_as_float L d old = Inr (Inr f, d))"
proof (intro conjI)
  have held: "cplus_data_set_byte_array al (dt\<lparr>dt_locked := True\<rparr>) n src = Inl Spin_forever" for n src
    using assms(2)
    by (simp add: cplus_data_set_byte_array_def cplus_data_set_value_def then_valid_def locked_held)
  show "cplus_data_set_as_double L al dt v = Inl Spin_forever"
    using assms(1,2) held
    by (simp add: cplus_data_set_as_double_def Let_def locked_free ignore_result_def then_valid_def)
  show "cplus_data_set_as_pointer L al dt p = Inl Spin_forever"
    using assms(1,2) held
    by (simp add: cplus_data_set_as_pointer_def Let_def locked_free ignore_result_def then_valid_def)
next
  obtain sz room where st: "cplus_data_set_byte_array al dt 4 (Some (le_bytes 4 f)) =
       Inr (Inr (), stored (dt\<lparr>dt_bufs_size := sz\<rparr>) (Val_byte_array 4 (Some room)))"
    "array_ok 4 (Some room)" "take 4 room = le_bytes 4 f"
    by (rule set_byte_array_step [OF assms(1,4,2,3), where n = 4 and src = "le_bytes 4 f"])
      (simp_all add: RSIZE_MAX_MEM_def)
  let ?dt = "stored (dt\<lparr>dt_bufs_size := sz\<rparr>) (Val_byte_array 4 (Some room))"
  have "4 \<le> length room" using st(2) by (simp add: array_ok_def)
  then have "cplus_mem_cpy (Some (le_bytes 4 old)) (Some room) 4 = Inr (Inr (le_bytes 4 f))"
    using st(3) by (simp add: cplus_mem_cpy_def read_obj_def write_obj_def del: le_bytes.simps)
  then have "cplus_data_get_as_float L ?dt old = Inr (Inr f, ?dt)"
    using assms(1) by (simp add: cplus_data_get_as_float_def get_as_fp_def locked_free unlocked_id
        del: le_bytes.simps)
  moreover have "cplus_data_set_as_float L al dt f = Inr (Inr (), ?dt)"
    using assms(2) st(1)
    by (simp add: cplus_data_set_as_float_def Let_def ignore_result_def then_valid_def
        del: le_bytes.simps)
  ultimately show "\<exists>d. cplus_data_set_as_float L al dt f = Inr (Inr (), d) \<and>
          cplus_data_get_as_float L d old = Inr (Inr f, d)" by blast
qed

theorem data_set_as_double_deadlocks_witness:
  "cplus_data_set_as_double example_clib example_alloc example_array 3 = Inl Spin_forever \<and>
     cplus_data_set_as_pointer example_clib example_alloc example_array 4 = Inl Spin_forever \<and>
     (\<exists>d. cplus_data_set_as_float example_clib example_alloc example_array 5 = Inr (Inr (), d) \<and>
          cplus_data_get_as_float example_clib d 0 = Inr (Inr 5, d))"
  by (rule data_set_as_double_deadlocks [where len = 2 and b = "Some [5, 6]"])
    (simp_all add: example_array_def cleared_data_def array_ok_def RSIZE_MAX_MEM_def
      allocates_example)

section \<open>Byte order\<close>

text \<open>
  C32.  The three byte swaps reverse the bytes of the representation, are their own inverses,
  and agree with the in-place reversals.
\<close>

theorem data_swap_reverses_bytes:
  "le_bytes 2 (cplus_data_swap16 a) = rev (le_bytes 2 a) \<and>
   le_bytes 4 (cplus_data_swap32 b) = rev (le_bytes 4 b) \<and>
   le_bytes 8 (cplus_data_swap64 c) = rev (le_bytes 8 c) \<and>
   cplus_data_swap16 (cplus_data_swap16 a) = a \<and>
   cplus_data_swap32 (cplus_data_swap32 b) = b \<and>
   cplus_data_swap64 (cplus_data_swap64 c) = c \<and>
   cplus_data_reverse16 a = cplus_data_swap16 a \<and>
   cplus_data_reverse32 b = cplus_data_swap32 b \<and>
   cplus_data_reverse64 c = cplus_data_swap64 c"
proof (intro conjI)
  show "cplus_data_swap16 (cplus_data_swap16 a) = a"
    by (rule le_bytes_inject [where n = 2]) (simp_all add: swap16_bytes del: le_bytes.simps)
  show "cplus_data_swap32 (cplus_data_swap32 b) = b"
    by (rule le_bytes_inject [where n = 4]) (simp_all add: swap32_bytes del: le_bytes.simps)
  show "cplus_data_swap64 (cplus_data_swap64 c) = c"
    by (rule le_bytes_inject [where n = 8]) (simp_all add: swap64_bytes del: le_bytes.simps)
qed (rule swap16_bytes swap32_bytes swap64_bytes | simp add: cplus_data_reverse16_def
  cplus_data_reverse32_def cplus_data_reverse64_def cplus_data_swap16_def cplus_data_swap32_def
  cplus_data_swap64_def)+

end
