(* ===== verification/Data_Type.thy ===== *)
theory Data_Type
  imports Data_Props
begin

text \<open>
  The type system of the value objects of \<^verbatim>\<open>src/data.c\<close>.  \<open>data_call\<close> is an operation that
  writes to an object, \<open>data_run\<close> a sequence of them by one client after another.  A value
  object is \<open>well_typed\<close> when the tag is the one it was made with and the recorded lengths are
  backed by the buffers; \<open>keeps\<close> is the partial correctness of one operation, whose rules
  follow the building blocks of the setters.
\<close>

section \<open>Well-typed objects\<close>

primrec value_ok :: "u32 \<Rightarrow> data_value \<Rightarrow> bool" where
  "value_ok cap Val_null \<longleftrightarrow> True"
| "value_ok cap (Val_bool b) \<longleftrightarrow> True"
| "value_ok cap (Val_i8 x) \<longleftrightarrow> True"
| "value_ok cap (Val_i16 x) \<longleftrightarrow> True"
| "value_ok cap (Val_i32 x) \<longleftrightarrow> True"
| "value_ok cap (Val_i64 x) \<longleftrightarrow> True"
| "value_ok cap (Val_u8 x) \<longleftrightarrow> True"
| "value_ok cap (Val_u16 x) \<longleftrightarrow> True"
| "value_ok cap (Val_u32 x) \<longleftrightarrow> True"
| "value_ok cap (Val_u64 x) \<longleftrightarrow> True"
| "value_ok cap (Val_float x) \<longleftrightarrow> True"
| "value_ok cap (Val_double x) \<longleftrightarrow> True"
| "value_ok cap (Val_pointer x) \<longleftrightarrow> True"
| "value_ok cap (Val_string len b) \<longleftrightarrow> pred_option (\<lambda>bs. length bs = unat len) b"
| "value_ok cap (Val_byte_array len b) \<longleftrightarrow>
     len \<le> cap \<and> pred_option (\<lambda>bs. unat cap \<le> length bs) b"
| "value_ok cap Val_unknown \<longleftrightarrow> True"

definition well_typed :: "data_type \<Rightarrow> data \<Rightarrow> bool" where
  "well_typed ty dt \<longleftrightarrow> type_of (dt_value dt) = ty \<and> value_ok (dt_bufs_size dt) (dt_value dt) \<and>
     pred_option (\<lambda>k. length k = unat (dt_key_len dt)) (dt_key dt)"

text \<open>The result of an operation, when there is one, satisfies \<open>P\<close>.\<close>

definition keeps :: "(data \<Rightarrow> bool) \<Rightarrow> ('r \<times> data) exec \<Rightarrow> bool" where
  "keeps P m \<longleftrightarrow> (case m of Inl f \<Rightarrow> True | Inr (r, d) \<Rightarrow> P d)"

named_theorems keeping

lemma keeps_Inr [simp]: "keeps P (Inr (r, d)) \<longleftrightarrow> P d"
  and keeps_Inl [simp]: "keeps P (Inl f)"
  by (simp_all add: keeps_def)

lemma keepsD: "\<lbrakk>keeps P m; m = Inr (r, d)\<rbrakk> \<Longrightarrow> P d"
  by (simp add: keeps_def)

lemma keeps_bind [keeping]:
  "(\<And>x. m = Inr x \<Longrightarrow> keeps P (k x)) \<Longrightarrow> keeps P (exec_bind m k)"
  by (cases m) (simp_all add: keeps_def)

lemma keeps_if [keeping]:
  "\<lbrakk>c \<Longrightarrow> keeps P m; \<not> c \<Longrightarrow> keeps P m'\<rbrakk> \<Longrightarrow> keeps P (if c then m else m')"
  by simp

lemma keeps_locked:
  assumes "well_typed ty dt" "\<And>d. \<lbrakk>well_typed ty d; dt_value d = dt_value dt;
      dt_bufs_size d = dt_bufs_size dt\<rbrakk> \<Longrightarrow> keeps (well_typed ty) (body d)"
  shows "keeps (well_typed ty) (locked dt body)"
proof -
  have "keeps (well_typed ty) (body (dt\<lparr>dt_locked := True\<rparr>))"
    by (rule assms(2)) (use assms(1) in \<open>simp_all add: well_typed_def\<close>)
  then show ?thesis
    by (auto simp: locked_def data_spin_lock_def data_spin_unlock_def keeps_def well_typed_def
        exec_bind_def split: sum.splits)
qed

lemma keeps_wrappers:
  "keeps (well_typed ty) m \<Longrightarrow> keeps (well_typed ty) (then_valid m)"
  "keeps (well_typed ty) m \<Longrightarrow> keeps (well_typed ty) (mark_valid m)"
  "keeps (well_typed ty) m \<Longrightarrow> keeps (well_typed ty) (ignore_result m)"
  by (auto simp: then_valid_def mark_valid_def ignore_result_def keeps_def well_typed_def
      exec_bind_def split: sum.splits)

lemma well_typed_put:
  assumes "well_typed ty d" "type_of v = ty" "value_ok (dt_bufs_size d) v"
  shows "well_typed ty (d\<lparr>dt_value := v\<rparr>)"
  using assms by (simp add: well_typed_def)

lemma well_typed_marks [simp]:
  "well_typed ty (d\<lparr>dt_is_valid := x\<rparr>) \<longleftrightarrow> well_typed ty d"
  "well_typed ty (d\<lparr>dt_action_mode := m\<rparr>) \<longleftrightarrow> well_typed ty d"
  "well_typed ty (d\<lparr>dt_str_code := m\<rparr>) \<longleftrightarrow> well_typed ty d"
  by (simp_all add: well_typed_def)

section \<open>Buffers keep their length\<close>

lemma length_write_obj: "write_obj bs d = Inr d' \<Longrightarrow> length d' = length d"
  by (auto simp: write_obj_def split: if_splits)

lemma length_mem_cpy:
  "cplus_mem_cpy (Some d) src n = Inr r \<Longrightarrow> length (or_unchanged r d) = length d"
  by (auto simp: cplus_mem_cpy_def exec_bind_eq_Inr dest: length_write_obj
      split: option.splits if_splits)

lemma length_mem_cpy_ex:
  "cplus_mem_cpy_ex (Some d) dn src n = Inr r \<Longrightarrow> length (or_unchanged r d) = length d"
  by (auto simp: cplus_mem_cpy_ex_def exec_bind_eq_Inr dest: length_write_obj
      split: option.splits if_splits)

lemma length_mem_set:
  "cplus_mem_set (Some d) v n = Inr r \<Longrightarrow> length (or_unchanged r d) = length d"
  by (auto simp: cplus_mem_set_def exec_bind_eq_Inr dest: length_write_obj split: if_splits)

lemma length_str_printf:
  "cplus_str_printf (Some d) n t = Inr (res, out) \<Longrightarrow> \<exists>d'. out = Some d' \<and> length d' = length d"
  by (auto simp: cplus_str_printf_def exec_bind_eq_Inr dest: length_write_obj split: if_splits)

lemma grow_string_ok:
  assumes "pred_option (\<lambda>bs. length bs = unat len) b" "grow_string al len b n = (len', b')"
  shows "pred_option (\<lambda>bs. length bs = unat len') b'"
  using assms
  by (auto simp: grow_string_def pred_option_def dest: length_malloc_buf length_realloc_buf
      split: option.splits if_splits)

section \<open>Every operation\<close>

lemma well_typed_string:
  "well_typed ty (d\<lparr>dt_value := Val_string len b\<rparr>) \<longleftrightarrow> ty = TYPE_STRING \<and>
     pred_option (\<lambda>bs. length bs = unat len) b \<and>
     pred_option (\<lambda>k. length k = unat (dt_key_len d)) (dt_key d)"
  "dt_value d = Val_string len b \<Longrightarrow> well_typed ty d \<longleftrightarrow> ty = TYPE_STRING \<and>
     pred_option (\<lambda>bs. length bs = unat len) b \<and>
     pred_option (\<lambda>k. length k = unat (dt_key_len d)) (dt_key d)"
  by (auto simp: well_typed_def)

lemma keeps_print_into:
  assumes "well_typed ty d" "dt_value d = Val_string len b"
  shows "keeps (well_typed ty) (print_into al t len b d)"
proof -
  have ok: "ty = TYPE_STRING" "pred_option (\<lambda>bs. length bs = unat len) b"
    and key: "pred_option (\<lambda>k. length k = unat (dt_key_len d)) (dt_key d)"
    using assms by (simp_all add: well_typed_string)
  have "keeps (well_typed ty) (let (len', b') = grow_string al len b n in case b' of
      None \<Rightarrow> Inr (Inl ENOMEM, d\<lparr>dt_value := Val_string len' None\<rparr>)
    | Some room \<Rightarrow> exec_bind (cplus_str_printf (Some room) len' t) (\<lambda>(res, out).
        Inr (Inr (), d\<lparr>dt_value := Val_string len' out\<rparr>)))" for n
  proof -
    obtain len' b' where g: "grow_string al len b n = (len', b')" by (rule prod.exhaust)
    from grow_string_ok [OF ok(2) g] show ?thesis
      by (cases b') (auto simp: g ok(1) key well_typed_string intro!: keeps_bind
          dest!: length_str_printf)
  qed
  then show ?thesis unfolding print_into_def by (intro keeping) (simp split: prod.split)
qed

lemma keeps_set_string_value:
  assumes "well_typed ty d" "dt_value d = Val_string len b"
  shows "keeps (well_typed ty) (set_string_value al n v2 len b d)"
proof -
  have ok: "ty = TYPE_STRING" "pred_option (\<lambda>bs. length bs = unat len) b"
    and key: "pred_option (\<lambda>k. length k = unat (dt_key_len d)) (dt_key d)"
    using assms by (simp_all add: well_typed_string)
  obtain len' b' where g: "grow_string al len b (n + 1) = (len', b')" by (rule prod.exhaust)
  from grow_string_ok [OF ok(2) g] show ?thesis
    by (cases b'; cases v2) (auto simp: set_string_value_def g ok(1) key well_typed_string
        intro!: keeps_bind dest!: length_str_printf dest: length_mem_set)
qed

lemma well_typed_bytes:
  "well_typed ty (d\<lparr>dt_value := Val_byte_array len b\<rparr>) \<longleftrightarrow> ty = TYPE_BYTE_ARRAY \<and>
     len \<le> dt_bufs_size d \<and> pred_option (\<lambda>bs. unat (dt_bufs_size d) \<le> length bs) b \<and>
     pred_option (\<lambda>k. length k = unat (dt_key_len d)) (dt_key d)"
  "dt_value d = Val_byte_array len b \<Longrightarrow> well_typed ty d \<longleftrightarrow> ty = TYPE_BYTE_ARRAY \<and>
     len \<le> dt_bufs_size d \<and> pred_option (\<lambda>bs. unat (dt_bufs_size d) \<le> length bs) b \<and>
     pred_option (\<lambda>k. length k = unat (dt_key_len d)) (dt_key d)"
  by (auto simp: well_typed_def)

lemma keeps_set_byte_array_value:
  assumes "well_typed ty d" "dt_value d = Val_byte_array len b"
  shows "keeps (well_typed ty) (set_byte_array_value al n v2 len b d)"
proof -
  have ok: "ty = TYPE_BYTE_ARRAY" "len \<le> dt_bufs_size d"
      "pred_option (\<lambda>bs. unat (dt_bufs_size d) \<le> length bs) b"
    and key: "pred_option (\<lambda>k. length k = unat (dt_key_len d)) (dt_key d)"
    using assms by (simp_all add: well_typed_bytes)
  define grown where "grown = (case b of None \<Rightarrow> (n, malloc_buf al n)
    | Some old \<Rightarrow> if len < n then (n, or_null (realloc_buf al (Some old) n)) else (len, b))"
  obtain cap' b' where g: "grown = (cap', b')" by (rule prod.exhaust)
  have room: "n \<le> cap' \<and> pred_option (\<lambda>bs. unat cap' \<le> length bs) b'"
    using g ok unfolding grown_def
    by (auto simp: pred_option_def word_le_nat_alt not_less dest!: length_malloc_buf length_realloc_buf
        split: option.splits if_splits)
  show ?thesis
    unfolding set_byte_array_value_def grown_def [symmetric] g Let_def prod.case
    using room by (cases b'; cases v2) (auto simp: ok(1) key well_typed_bytes
        intro!: keeps_bind dest!: length_mem_cpy_ex length_mem_set)
qed

lemma keeps_set_value:
  assumes "well_typed ty dt"
  shows "keeps (well_typed ty) (cplus_data_set_value al dt v1 v2)"
proof (cases v1)
  case None
  then show ?thesis using assms by (simp add: cplus_data_set_value_def)
next
  case (Some obj)
  show ?thesis
  proof (cases "dt_value dt")
    case (Val_string len b)
    then show ?thesis
      using assms by (auto simp: cplus_data_set_value_def Some
          intro!: keeps_wrappers keeps_locked keeps_bind keeps_set_string_value)
  next
    case (Val_byte_array len b)
    then show ?thesis
      using assms by (auto simp: cplus_data_set_value_def Some
          intro!: keeps_wrappers keeps_locked keeps_bind keeps_set_byte_array_value)
  qed (use assms in \<open>auto simp: cplus_data_set_value_def Some SET_POINTER_VALUE_TO_DATA_BUFS_S_def
      SET_VALUE_TO_DATA_BUFS_SPIN_def well_typed_def
      intro!: keeps_wrappers keeps_locked keeps_bind\<close>)
qed

lemma keeps_set_key:
  assumes "well_typed ty dt"
  shows "keeps (well_typed ty) (cplus_data_set_key al dt n key)"
proof -
  have "keeps (well_typed ty) (if n + 1 \<le> dt_key_len d then
          exec_bind (cplus_mem_cpy_ex (dt_key d) (dt_key_len d) key (n + 1)) (\<lambda>r.
            Inr (Inr (), d\<lparr>dt_key := map_option (or_unchanged r) (dt_key d)\<rparr>))
        else
          (let fresh = (case dt_key d of None \<Rightarrow> malloc_buf al (n + 1)
                        | Some old \<Rightarrow> or_null (realloc_buf al (Some old) (n + 1)));
               d1 = d\<lparr>dt_key_len := n + 1, dt_key := fresh\<rparr>
           in case fresh of
                None \<Rightarrow> Inr (Inl (if dt_key d = None then ENOMEM else ENOBUFS), d1)
              | Some b \<Rightarrow> exec_bind (cplus_mem_cpy_ex (Some b) (n + 1) key (n + 1)) (\<lambda>r.
                  Inr (Inr (), d1\<lparr>dt_key := Some (or_unchanged r b)\<rparr>))))"
    if d: "well_typed ty d" for d
  proof (rule keeps_if)
    show "keeps (well_typed ty) (exec_bind (cplus_mem_cpy_ex (dt_key d) (dt_key_len d) key (n + 1))
        (\<lambda>r. Inr (Inr (), d\<lparr>dt_key := map_option (or_unchanged r) (dt_key d)\<rparr>)))"
      using d by (cases "dt_key d") (auto simp: well_typed_def dest!: length_mem_cpy_ex
          intro!: keeps_bind)
    define fresh where "fresh = (case dt_key d of None \<Rightarrow> malloc_buf al (n + 1)
                        | Some old \<Rightarrow> or_null (realloc_buf al (Some old) (n + 1)))"
    have "pred_option (\<lambda>k. length k = unat (n + 1)) fresh"
      unfolding fresh_def by (auto simp: pred_option_def dest: length_malloc_buf length_realloc_buf
          split: option.splits)
    then show "keeps (well_typed ty) (let fresh = fresh; d1 = d\<lparr>dt_key_len := n + 1, dt_key := fresh\<rparr>
           in case fresh of
                None \<Rightarrow> Inr (Inl (if dt_key d = None then ENOMEM else ENOBUFS), d1)
              | Some b \<Rightarrow> exec_bind (cplus_mem_cpy_ex (Some b) (n + 1) key (n + 1)) (\<lambda>r.
                  Inr (Inr (), d1\<lparr>dt_key := Some (or_unchanged r b)\<rparr>)))"
      using d by (cases fresh) (auto simp: Let_def well_typed_def dest!: length_mem_cpy_ex
          intro!: keeps_bind)
  qed
  note body = this [unfolded Let_def]
  show ?thesis
    unfolding cplus_data_set_key_def Let_def
    by (rule keeps_if, simp add: assms, rule keeps_if, simp add: assms) (rule keeps_locked [OF assms], rule body)
qed

lemma keeps_clone_value:
  assumes "well_typed ty dt" "well_typed ty' src"
  shows "keeps (well_typed ty) (cplus_data_clone_value al dt src)"
proof (cases "type_of (dt_value dt) = type_of (dt_value src)")
  case False
  then show ?thesis using assms by (simp add: cplus_data_clone_value_def)
next
  case same: True
  show ?thesis
  proof (cases "dt_value dt"; cases "dt_value src"; (use same in \<open>simp; fail\<close>)?)
    fix dlen db slen sb
    assume v: "dt_value dt = Val_string dlen db" "dt_value src = Val_string slen sb"
    show ?thesis
      using assms by (auto simp: cplus_data_clone_value_def v well_typed_string Let_def
          realloc_buf_def intro!: keeps_bind split: option.splits dest!: length_mem_cpy)
  next
    fix dlen db slen sb
    assume v: "dt_value dt = Val_byte_array dlen db" "dt_value src = Val_byte_array slen sb"
    show ?thesis
      using assms by (cases db) (auto simp: cplus_data_clone_value_def v well_typed_bytes Let_def
          realloc_buf_def intro!: keeps_bind split: option.splits dest!: length_mem_cpy)
  qed (use assms same in \<open>auto simp: cplus_data_clone_value_def well_typed_def\<close>)
qed

section \<open>The converting setters\<close>

lemma keeps_put [keeping]:
  "\<lbrakk>well_typed ty d; type_of v = ty; value_ok (dt_bufs_size d) v\<rbrakk> \<Longrightarrow>
     keeps (well_typed ty) (put d v)"
  by (simp add: put_def well_typed_put)

lemma keeps_put_spin [keeping]:
  "\<lbrakk>well_typed ty d; type_of v = ty; value_ok (dt_bufs_size d) v\<rbrakk> \<Longrightarrow>
     keeps (well_typed ty) (put_spin d v)"
  unfolding put_spin_def by (intro keeps_locked keeps_put) simp_all

lemma keeps_put_conv [keeping]:
  "\<lbrakk>well_typed ty d; \<And>v. type_of (mk v) = ty; \<And>v. value_ok (dt_bufs_size d) (mk v)\<rbrakk> \<Longrightarrow>
     keeps (well_typed ty) (put_conv d c mk)"
  unfolding put_conv_def by (intro keeps_bind keeps_put) simp_all

lemma keeps_put_scanned [keeping]:
  "\<lbrakk>well_typed ty d; \<And>v. type_of (mk v) = ty; \<And>v. value_ok (dt_bufs_size d) (mk v)\<rbrakk> \<Longrightarrow>
     keeps (well_typed ty) (put_scanned d t scan mk)"
  unfolding put_scanned_def
  by (intro keeps_locked keeps_bind) (auto split: option.split intro: well_typed_put)

lemma keeps_put_bytes [keeping]:
  assumes "well_typed ty dt" "\<And>m. type_of (mk m) = ty"
    and ok: "\<And>m. pred_option (\<lambda>bs. \<exists>old. dest = Some old \<and> length bs = length old) m \<Longrightarrow>
      value_ok (dt_bufs_size dt) (mk m)"
  shows "keeps (well_typed ty) (put_bytes dt n src need dest count mk)"
  unfolding put_bytes_def
proof (intro keeps_locked [OF assms(1)] keeps_if)
  fix d assume d: "well_typed ty d" "dt_bufs_size d = dt_bufs_size dt"
  have "pred_option (\<lambda>bs. \<exists>old. dest = Some old \<and> length bs = length old)
      (map_option (or_unchanged r) dest)" if "cplus_mem_cpy dest (Some src) count = Inr r" for r
    using that by (cases dest) (auto dest: length_mem_cpy)
  with d show "keeps (well_typed ty) (exec_bind (cplus_mem_cpy dest (Some src) count) (\<lambda>r.
       Inr (Inl (case r of Inl e \<Rightarrow> e | Inr d' \<Rightarrow> ENONE), d\<lparr>dt_is_valid := True,
         dt_value := mk (map_option (or_unchanged r) dest)\<rparr>)))"
    by (intro keeps_bind) (auto intro!: well_typed_put assms(2) ok)
qed simp

lemmas setter_rules = keeps_wrappers keeps_locked keeps_put keeps_put_spin keeps_put_conv
  keeps_print_into keeps_set_value

lemma well_typed_type: "well_typed ty d \<Longrightarrow> type_of (dt_value d) = ty"
  by (simp add: well_typed_def)

lemma keeps_set_as_integer:
  assumes "well_typed ty dt"
  shows "keeps (well_typed ty) (set_as_integer L al sg dt x)"
  using assms well_typed_type [OF assms]
  by (cases "dt_value dt") (auto simp: set_as_integer_def Let_def cplus_data_set_byte_array_def
      intro!: setter_rules)

lemma keeps_set_as_bool:
  assumes "well_typed ty dt"
  shows "keeps (well_typed ty) (cplus_data_set_as_bool L al dt x)"
  using assms well_typed_type [OF assms]
  by (cases "dt_value dt") (auto simp: cplus_data_set_as_bool_def Let_def
      cplus_data_set_byte_array_def cplus_data_set_string_def intro!: setter_rules)

lemma keeps_set_as_float:
  assumes "well_typed ty dt"
  shows "keeps (well_typed ty) (cplus_data_set_as_float L al dt x)"
  using assms well_typed_type [OF assms]
  by (cases "dt_value dt") (auto simp: cplus_data_set_as_float_def Let_def
      cplus_data_set_byte_array_def intro!: setter_rules)

lemma keeps_set_as_double:
  assumes "well_typed ty dt"
  shows "keeps (well_typed ty) (cplus_data_set_as_double L al dt x)"
  unfolding cplus_data_set_as_double_def Let_def
proof (intro keeps_wrappers keeps_locked [OF assms], goal_cases)
  case (1 d)
  from 1(1) show ?case
    using well_typed_type [of ty d]
    by (cases "dt_value d") (auto simp: cplus_data_set_byte_array_def intro!: setter_rules)
qed

lemma keeps_set_as_pointer:
  assumes "well_typed ty dt"
  shows "keeps (well_typed ty) (cplus_data_set_as_pointer L al dt x)"
  unfolding cplus_data_set_as_pointer_def Let_def
proof (intro keeps_wrappers keeps_locked [OF assms], goal_cases)
  case (1 d)
  from 1(1) show ?case
    using well_typed_type [of ty d]
    by (cases "dt_value d") (auto simp: cplus_data_set_byte_array_def intro!: setter_rules)
qed

lemma keeps_set_as_string:
  assumes "well_typed ty dt"
  shows "keeps (well_typed ty) (cplus_data_set_as_string L al dt n t)"
  using assms well_typed_type [OF assms]
  by (cases "dt_value dt") (auto simp: cplus_data_set_as_string_def cplus_data_set_string_def
      cplus_data_set_byte_array_def dest: keepsD [OF keeps_set_value]
      intro!: keeps_bind setter_rules keeps_put_scanned)

lemma keeps_set_as_byte_array:
  assumes "well_typed ty dt"
  shows "keeps (well_typed ty) (cplus_data_set_as_byte_array dt n bs)"
proof (cases bs)
  case None
  then show ?thesis using assms by (simp add: cplus_data_set_as_byte_array_def)
next
  case (Some src)
  show ?thesis
  proof (cases "dt_value dt")
    case (Val_string len b)
    then show ?thesis
      using assms by (auto simp: cplus_data_set_as_byte_array_def Some well_typed_string
          pred_option_def intro!: keeps_put_bytes)
  next
    case (Val_byte_array len b)
    then show ?thesis
      using assms by (auto simp: cplus_data_set_as_byte_array_def Some well_typed_bytes
          pred_option_def intro!: keeps_put_bytes)
  qed (use assms well_typed_type [OF assms] in
      \<open>auto simp: cplus_data_set_as_byte_array_def Some intro!: keeps_put_bytes\<close>)
qed

section \<open>Sequences of calls\<close>

datatype data_call =
    Set_value buf buf
  | Set_key u32 buf
  | Set_action_mode u32
  | Set_string_code u32
  | Clone_value data
  | Set_as_bool bool
  | Set_as_int8 u8
  | Set_as_int16 u16
  | Set_as_int32 u32
  | Set_as_int64 u64
  | Set_as_uint8 u8
  | Set_as_uint16 u16
  | Set_as_uint32 u32
  | Set_as_uint64 u64
  | Set_as_float u32
  | Set_as_double u64
  | Set_as_pointer ptr
  | Set_as_string u32 buf
  | Set_as_byte_array u32 buf

primrec data_step :: "clib \<Rightarrow> alloc \<Rightarrow> data \<Rightarrow> data_call \<Rightarrow> (unit cresult \<times> data) exec" where
  "data_step L al dt (Set_value v1 v2) = cplus_data_set_value al dt v1 v2"
| "data_step L al dt (Set_key n key) = cplus_data_set_key al dt n key"
| "data_step L al dt (Set_action_mode m) = Inr (Inr (), cplus_data_set_action_mode dt m)"
| "data_step L al dt (Set_string_code c) = Inr (cplus_data_set_string_code dt c)"
| "data_step L al dt (Clone_value src) = cplus_data_clone_value al dt src"
| "data_step L al dt (Set_as_bool v) = cplus_data_set_as_bool L al dt v"
| "data_step L al dt (Set_as_int8 v) = cplus_data_set_as_int8 L al dt v"
| "data_step L al dt (Set_as_int16 v) = cplus_data_set_as_int16 L al dt v"
| "data_step L al dt (Set_as_int32 v) = cplus_data_set_as_int32 L al dt v"
| "data_step L al dt (Set_as_int64 v) = cplus_data_set_as_int64 L al dt v"
| "data_step L al dt (Set_as_uint8 v) = cplus_data_set_as_uint8 L al dt v"
| "data_step L al dt (Set_as_uint16 v) = cplus_data_set_as_uint16 L al dt v"
| "data_step L al dt (Set_as_uint32 v) = cplus_data_set_as_uint32 L al dt v"
| "data_step L al dt (Set_as_uint64 v) = cplus_data_set_as_uint64 L al dt v"
| "data_step L al dt (Set_as_float v) = cplus_data_set_as_float L al dt v"
| "data_step L al dt (Set_as_double v) = cplus_data_set_as_double L al dt v"
| "data_step L al dt (Set_as_pointer v) = cplus_data_set_as_pointer L al dt v"
| "data_step L al dt (Set_as_string n t) = cplus_data_set_as_string L al dt n t"
| "data_step L al dt (Set_as_byte_array n bs) = cplus_data_set_as_byte_array dt n bs"

text \<open>Each call comes with the outcome of its allocations; its own result is ignored.\<close>

primrec data_run :: "clib \<Rightarrow> data \<Rightarrow> (alloc \<times> data_call) list \<Rightarrow> data exec" where
  "data_run L dt [] = Inr dt"
| "data_run L dt (c # cs) =
     exec_bind (data_step L (fst c) dt (snd c)) (\<lambda>(r, dt'). data_run L dt' cs)"

text \<open>The objects a call copies from are well typed themselves.\<close>

primrec sources :: "data_call \<Rightarrow> data set" where
  "sources (Set_value v1 v2) = {}"
| "sources (Set_key n key) = {}"
| "sources (Set_action_mode m) = {}"
| "sources (Set_string_code c) = {}"
| "sources (Clone_value src) = {src}"
| "sources (Set_as_bool v) = {}"
| "sources (Set_as_int8 v) = {}"
| "sources (Set_as_int16 v) = {}"
| "sources (Set_as_int32 v) = {}"
| "sources (Set_as_int64 v) = {}"
| "sources (Set_as_uint8 v) = {}"
| "sources (Set_as_uint16 v) = {}"
| "sources (Set_as_uint32 v) = {}"
| "sources (Set_as_uint64 v) = {}"
| "sources (Set_as_float v) = {}"
| "sources (Set_as_double v) = {}"
| "sources (Set_as_pointer v) = {}"
| "sources (Set_as_string n t) = {}"
| "sources (Set_as_byte_array n bs) = {}"

lemma keeps_data_step:
  assumes "well_typed ty dt" "\<forall>src\<in>sources c. \<exists>ty'. well_typed ty' src"
  shows "keeps (well_typed ty) (data_step L al dt c)"
  using assms
  by (cases c) (auto simp: cplus_data_set_as_int8_def cplus_data_set_as_int16_def
      cplus_data_set_as_int32_def cplus_data_set_as_int64_def cplus_data_set_as_uint8_def
      cplus_data_set_as_uint16_def cplus_data_set_as_uint32_def cplus_data_set_as_uint64_def
      cplus_data_set_action_mode_def cplus_data_set_string_code_def
      intro: keeps_set_value keeps_set_key keeps_clone_value keeps_set_as_integer keeps_set_as_bool
      keeps_set_as_float keeps_set_as_double keeps_set_as_pointer keeps_set_as_string
      keeps_set_as_byte_array split: data_value.split)

lemma well_typed_new: "well_typed ty (cleared_data ty)"
  by (cases ty) (simp_all add: well_typed_def cleared_data_def)

lemma well_typed_initialize:
  assumes "data_initialize_object ok al ak ty v1 v2 n key = Inr (Some dt)"
  shows "well_typed ty dt"
proof -
  from assms obtain r d where first: "(if v1 = None then Inr (Inr (), cleared_data ty)
      else cplus_data_set_value al (cleared_data ty) v1 v2) = (Inr (r, d) :: (unit cresult \<times> data) exec)"
    and rest: "(case r of Inl e \<Rightarrow> Inr None | Inr u \<Rightarrow>
      (if key \<noteq> None \<and> 0 < n then exec_bind (cplus_data_set_key ak d n key)
         (\<lambda>(r', dt'). case r' of Inl e \<Rightarrow> Inr None | Inr u' \<Rightarrow> Inr (Some dt'))
       else Inr (Some d))) = (Inr (Some dt) :: data option exec)"
    by (auto simp: data_initialize_object_def elim!: exec_bindE split: if_split_asm)
  have d: "well_typed ty d"
    using first keepsD [OF keeps_set_value [OF well_typed_new]] well_typed_new
    by (auto split: if_split_asm)
  show ?thesis
    using rest d keepsD [OF keeps_set_key [OF d]]
    by (auto elim!: exec_bindE split: if_split_asm sum.splits)
qed

lemma well_typed_run:
  "\<lbrakk>well_typed ty dt; \<forall>c\<in>set cs. \<forall>src\<in>sources (snd c). \<exists>ty'. well_typed ty' src;
    data_run L dt cs = Inr dt'\<rbrakk> \<Longrightarrow> well_typed ty dt'"
proof (induction cs arbitrary: dt)
  case (Cons c cs)
  then obtain r d where "data_step L (fst c) dt (snd c) = Inr (r, d)" "data_run L d cs = Inr dt'"
    by (auto simp: exec_bind_eq_Inr)
  with Cons show ?case
    using keepsD [OF keeps_data_step [of ty dt "snd c" L "fst c"]] by simp
qed simp

section \<open>Properties\<close>

lemma not_isl_Inr: "\<not> isl x \<Longrightarrow> \<exists>y. x = Inr y"
  by (cases x) simp_all

text \<open>
  C28.  Type preservation: an object keeps the type it was made with under every sequence of
  calls that write to it - untyped, typed and converting setters, keys, codes and cloning from
  well-typed objects - whatever the allocations give, whether the calls succeed or not.  The
  recorded lengths stay backed by the buffers: a string's buffer has the recorded length, a
  byte array's recorded size is at most the capacity, which its buffer has, and the key's
  buffer has the recorded key length.
\<close>

theorem data_type_preserved:
  assumes "data_initialize_object ok al ak ty v1 v2 n key = Inr (Some dt)"
    and "\<forall>c\<in>set cs. \<forall>src\<in>sources (snd c). \<exists>ty'. well_typed ty' src"
    and "data_run L dt cs = Inr dt'"
  shows "cplus_data_get_type dt' = type_code ty \<and> well_typed ty dt'"
  using well_typed_run [OF well_typed_initialize [OF assms(1)] assms(2,3)]
  by (simp add: cplus_data_get_type_def well_typed_type)

theorem data_type_preserved_witness:
  "\<exists>dt dt'. data_run example_clib dt
       [(example_alloc, Set_key 2 (Some [107, 49, 0])), (example_alloc, Set_as_int32 7),
        (\<lambda>n. None, Clone_value (cleared_data TYPE_STRING)), (example_alloc, Set_as_bool True)] = Inr dt' \<and>
     cplus_data_get_type dt' = type_code TYPE_STRING \<and> well_typed TYPE_STRING dt'"
proof -
  let ?cs = "[(example_alloc, Set_key 2 (Some [107, 49, 0])), (example_alloc, Set_as_int32 7),
        (\<lambda>n. None, Clone_value (cleared_data TYPE_STRING)), (example_alloc, Set_as_bool True)]"
  have src: "\<forall>c\<in>set ?cs. \<forall>src\<in>sources (snd c). \<exists>ty'. well_typed ty' src"
    using well_typed_new by auto
  have new: "data_initialize_object True example_alloc example_alloc TYPE_STRING
      (Some (le_bytes 4 (3::u32))) (Some [97, 98, 99, 0]) 0 None =
      Inr (Some ((cleared_data TYPE_STRING)\<lparr>dt_is_valid := True,
        dt_value := Val_string 4 (Some [97, 98, 99, 0])\<rparr>))"
    by code_simp
  have "\<not> isl (data_run example_clib ((cleared_data TYPE_STRING)\<lparr>dt_is_valid := True,
        dt_value := Val_string 4 (Some [97, 98, 99, 0])\<rparr>) ?cs)"
    by code_simp
  then obtain dt' where run: "data_run example_clib ((cleared_data TYPE_STRING)\<lparr>dt_is_valid := True,
        dt_value := Val_string 4 (Some [97, 98, 99, 0])\<rparr>) ?cs = Inr dt'"
    using not_isl_Inr by blast
  show ?thesis using data_type_preserved [OF new src run] run by blast
qed

text \<open>
  A failed allocation of a key is remembered as its length: the next key that is not longer
  is accepted without being stored.
\<close>

theorem data_failed_key_is_accepted_later:
  assumes "\<not> dt_locked dt" "dt_key dt = None" "dt_key_len dt < n + 1" "n \<noteq> 0" "m \<noteq> 0" "m + 1 \<le> n + 1"
  shows "\<exists>dt'. cplus_data_set_key (\<lambda>n. None) dt n (Some k) = Inr (Inl ENOMEM, dt') \<and>
     cplus_data_set_key al dt' m (Some k') = Inr (Inr (), dt') \<and> cplus_data_get_key dt' = None"
proof -
  let ?dt = "dt\<lparr>dt_key_len := n + 1, dt_key := None\<rparr>"
  have "cplus_data_set_key (\<lambda>n. None) dt n (Some k) = Inr (Inl ENOMEM, ?dt)"
    using assms by (cases dt) (auto simp: cplus_data_set_key_def locked_free Let_def malloc_buf_def)
  moreover have "cplus_data_set_key al ?dt m (Some k') = Inr (Inr (), ?dt)"
    using assms by (cases dt) (auto simp: cplus_data_set_key_def locked_free Let_def cplus_mem_cpy_ex_def)
  ultimately show ?thesis by (auto simp: cplus_data_get_key_def)
qed

end
