(* ===== verification/Keyed.thy ===== *)
theory Keyed
  imports Llist_Search Data_Lemmas "HOL-Library.AList"
begin

text \<open>
  The keyed list functions of \<^verbatim>\<open>src/llist.c\<close>: a linked list whose elements are value objects
  with a key, and which is searched by key.  The list is that of \<open>Llist\<close>, the objects those of
  \<open>Data\<close>, kept in a map from their addresses; nodes and objects come from the same heap.  A
  call gives \<open>None\<close> when it does not return: a fault of the list or of an object operation.
\<close>

section \<open>State\<close>

record keyed =
  kl_list :: linked_list
  kl_objs :: "ptr \<rightharpoonup> data"

definition returned :: "'a exec \<Rightarrow> 'a option" where
  "returned r = (case r of Inl e \<Rightarrow> None | Inr x \<Rightarrow> Some x)"

lemma returned_simps [simp]: "returned (Inr x) = Some x" "returned (Inl e) = None"
  by (simp_all add: returned_def)

text \<open>\<^verbatim>\<open>strcmp\<close>; only whether the result is zero is used.\<close>

fun strcmp :: "u8 list \<Rightarrow> u8 list \<Rightarrow> int exec" where
  "strcmp (a # s) (b # t) =
     (if a \<noteq> b then Inr (uint a - uint b) else if a = 0 then Inr 0 else strcmp s t)"
| "strcmp s t = Inl Out_of_bounds"

definition find_node_by_key :: "(ptr \<rightharpoonup> data) \<Rightarrow> ptr \<Rightarrow> buf \<Rightarrow> int exec" where
  "find_node_by_key objs data1 key = (case objs data1 of None \<Rightarrow> Inl Assert_fail | Some dt \<Rightarrow>
     (case (cplus_data_get_key dt, key) of
        (Some data_key, Some k) \<Rightarrow> strcmp data_key k
      | _ \<Rightarrow> Inr 1))"

text \<open>
  The comparator handed to the list: a scan stops at an element for which it does not return,
  and then the call does not return either.
\<close>

definition key_matcher :: "(ptr \<rightharpoonup> data) \<Rightarrow> buf \<Rightarrow> matcher" where
  "key_matcher objs key = (\<lambda>d. case find_node_by_key objs d key of Inl e \<Rightarrow> 0 | Inr c \<Rightarrow> c)"

definition matched :: "keyed \<Rightarrow> buf \<Rightarrow> ptr cresult \<times> linked_list \<Rightarrow> (ptr \<times> keyed) option" where
  "matched K key = (\<lambda>(r, L). case r of
     Inl e \<Rightarrow> Some (CPLUS_NULL, K\<lparr>kl_list := L\<rparr>)
   | Inr d \<Rightarrow> (case find_node_by_key (kl_objs K) d key of
        Inl e \<Rightarrow> None | Inr c \<Rightarrow> Some (d, K\<lparr>kl_list := L\<rparr>)))"

definition get_by_key :: "keyed \<Rightarrow> buf \<Rightarrow> (ptr \<times> keyed) option" where
  "get_by_key K key =
     Option.bind (cplus_llist_get_if (kl_list K) (key_matcher (kl_objs K) key)) (matched K key)"

definition pop_by_key :: "keyed \<Rightarrow> buf \<Rightarrow> (ptr \<times> keyed) option" where
  "pop_by_key K key =
     Option.bind (cplus_llist_pop_if (kl_list K) (key_matcher (kl_objs K) key)) (matched K key)"

text \<open>\<open>cplus_data_check\<close>, and the allocation and release of an object.\<close>

definition cplus_data_check :: "keyed \<Rightarrow> ptr \<Rightarrow> bool" where
  "cplus_data_check K d \<longleftrightarrow> d \<noteq> CPLUS_NULL \<and> kl_objs K d \<noteq> None"

definition new_object ::
    "alloc \<Rightarrow> alloc \<Rightarrow> data_type \<Rightarrow> buf \<Rightarrow> buf \<Rightarrow> u32 \<Rightarrow> buf \<Rightarrow> keyed \<Rightarrow> (ptr \<times> keyed) option" where
  "new_object al ak ty value1 value2 key_len key K =
     (case cplus_mgr_malloc (ls_heap (kl_list K)) of (r, h) \<Rightarrow>
        (case r of
           Inl e \<Rightarrow> Some (CPLUS_NULL, K\<lparr>kl_list := (kl_list K)\<lparr>ls_heap := h\<rparr>\<rparr>)
         | Inr a \<Rightarrow> do {
             new \<leftarrow> returned (cplus_data_new_ex True al ak ty value1 value2 key_len key);
             Some (case new of
                 None \<Rightarrow> (CPLUS_NULL, K\<lparr>kl_list := (kl_list K)\<lparr>ls_heap := cplus_mgr_free h a\<rparr>\<rparr>)
               | Some dt \<Rightarrow> (a, K\<lparr>kl_list := (kl_list K)\<lparr>ls_heap := h\<rparr>,
                                  kl_objs := (kl_objs K)(a \<mapsto> dt)\<rparr>)) }))"

definition delete_object :: "ptr \<Rightarrow> keyed \<Rightarrow> keyed" where
  "delete_object d K = K\<lparr>kl_list := (kl_list K)\<lparr>ls_heap := cplus_mgr_free (ls_heap (kl_list K)) d\<rparr>,
     kl_objs := (kl_objs K)(d := None)\<rparr>"

section \<open>Operations\<close>

definition cplus_llist_add_data ::
    "alloc \<Rightarrow> alloc \<Rightarrow> keyed \<Rightarrow> data_type \<Rightarrow> buf \<Rightarrow> buf \<Rightarrow> buf \<Rightarrow> (ptr \<times> keyed) option" where
  "cplus_llist_add_data al ak K ty key value1 value2 =
     (if key = None then Some (CPLUS_NULL, K)
      else if value1 = None then Some (CPLUS_NULL, K)
      else do {
        (data1, K1) \<leftarrow> get_by_key K key;
        if \<not> cplus_data_check K1 data1 then do {
          s \<leftarrow> returned (c_str key);
          (data2, K2) \<leftarrow> new_object al ak ty value1 value2 (of_nat (length s)) key K1;
          if data2 \<noteq> CPLUS_NULL then do {
            (_, L) \<leftarrow> cplus_llist_push_back (kl_list K2) data2;
            Some (data2, K2\<lparr>kl_list := L\<rparr>) }
          else Some (CPLUS_NULL, K2) }
        else do {
          dt \<leftarrow> kl_objs K1 data1;
          (_, dt') \<leftarrow> returned (cplus_data_set_value al dt value1 value2);
          Some (data1, K1\<lparr>kl_objs := (kl_objs K1)(data1 \<mapsto> dt')\<rparr>) } })"

definition cplus_llist_find_data :: "keyed \<Rightarrow> buf \<Rightarrow> (ptr \<times> keyed) option" where
  "cplus_llist_find_data K key = (if key = None then Some (CPLUS_NULL, K) else get_by_key K key)"

definition cplus_llist_update_data :: "alloc \<Rightarrow> alloc \<Rightarrow> keyed \<Rightarrow> buf \<Rightarrow> ptr \<Rightarrow> (ptr \<times> keyed) option" where
  "cplus_llist_update_data al ak K key data1 =
     (if key = None then Some (CPLUS_NULL, K)
      else if \<not> cplus_data_check K data1 then Some (CPLUS_NULL, K)
      else do {
        (target, K1) \<leftarrow> get_by_key K key;
        (cloned, K2) \<leftarrow> (if target \<noteq> CPLUS_NULL then do {
            dest \<leftarrow> kl_objs K1 target;
            src \<leftarrow> kl_objs K1 data1;
            (r, dest') \<leftarrow> returned (cplus_data_clone_value al dest src);
            Some (r, K1\<lparr>kl_objs := (kl_objs K1)(target \<mapsto> dest')\<rparr>) }
          else Some (Inr (), K1));
        if cloned \<noteq> Inr () then Some (CPLUS_NULL, K2)
        else do {
          s \<leftarrow> returned (c_str key);
          dt \<leftarrow> kl_objs K2 data1;
          (r, dt') \<leftarrow> returned (cplus_data_set_key ak dt (of_nat (length s)) key);
          let K3 = K2\<lparr>kl_objs := (kl_objs K2)(data1 \<mapsto> dt')\<rparr>;
          if r = Inr () then do {
            (r2, L) \<leftarrow> cplus_llist_push_back (kl_list K3) data1;
            Some (if r2 = Inr () then data1 else target, K3\<lparr>kl_list := L\<rparr>) }
          else Some (target, K3) } })"

definition cplus_llist_remove_data :: "keyed \<Rightarrow> buf \<Rightarrow> (unit cresult \<times> keyed) option" where
  "cplus_llist_remove_data K key =
     (if key = None then Some (Inl EINVAL, K)
      else do {
        (data1, K1) \<leftarrow> pop_by_key K key;
        Some (Inr (), if data1 \<noteq> CPLUS_NULL then delete_object data1 K1 else K1) })"

text \<open>The typed additions pass the value by address.\<close>

definition cplus_llist_add_data_bool :: "alloc \<Rightarrow> alloc \<Rightarrow> keyed \<Rightarrow> buf \<Rightarrow> bool \<Rightarrow> (ptr \<times> keyed) option" where
  "cplus_llist_add_data_bool al ak K key v = cplus_llist_add_data al ak K TYPE_BOOL key (Some [of_bool v]) None"

definition cplus_llist_add_data_int8 :: "alloc \<Rightarrow> alloc \<Rightarrow> keyed \<Rightarrow> buf \<Rightarrow> u8 \<Rightarrow> (ptr \<times> keyed) option" where
  "cplus_llist_add_data_int8 al ak K key v = cplus_llist_add_data al ak K TYPE_INT8 key (Some (le_bytes 1 v)) None"

definition cplus_llist_add_data_int16 :: "alloc \<Rightarrow> alloc \<Rightarrow> keyed \<Rightarrow> buf \<Rightarrow> u16 \<Rightarrow> (ptr \<times> keyed) option" where
  "cplus_llist_add_data_int16 al ak K key v = cplus_llist_add_data al ak K TYPE_INT16 key (Some (le_bytes 2 v)) None"

definition cplus_llist_add_data_int32 :: "alloc \<Rightarrow> alloc \<Rightarrow> keyed \<Rightarrow> buf \<Rightarrow> u32 \<Rightarrow> (ptr \<times> keyed) option" where
  "cplus_llist_add_data_int32 al ak K key v = cplus_llist_add_data al ak K TYPE_INT32 key (Some (le_bytes 4 v)) None"

definition cplus_llist_add_data_int64 :: "alloc \<Rightarrow> alloc \<Rightarrow> keyed \<Rightarrow> buf \<Rightarrow> u64 \<Rightarrow> (ptr \<times> keyed) option" where
  "cplus_llist_add_data_int64 al ak K key v = cplus_llist_add_data al ak K TYPE_INT64 key (Some (le_bytes 8 v)) None"

definition cplus_llist_add_data_uint8 :: "alloc \<Rightarrow> alloc \<Rightarrow> keyed \<Rightarrow> buf \<Rightarrow> u8 \<Rightarrow> (ptr \<times> keyed) option" where
  "cplus_llist_add_data_uint8 al ak K key v = cplus_llist_add_data al ak K TYPE_UINT8 key (Some (le_bytes 1 v)) None"

definition cplus_llist_add_data_uint16 :: "alloc \<Rightarrow> alloc \<Rightarrow> keyed \<Rightarrow> buf \<Rightarrow> u16 \<Rightarrow> (ptr \<times> keyed) option" where
  "cplus_llist_add_data_uint16 al ak K key v = cplus_llist_add_data al ak K TYPE_UINT16 key (Some (le_bytes 2 v)) None"

definition cplus_llist_add_data_uint32 :: "alloc \<Rightarrow> alloc \<Rightarrow> keyed \<Rightarrow> buf \<Rightarrow> u32 \<Rightarrow> (ptr \<times> keyed) option" where
  "cplus_llist_add_data_uint32 al ak K key v = cplus_llist_add_data al ak K TYPE_UINT32 key (Some (le_bytes 4 v)) None"

definition cplus_llist_add_data_uint64 :: "alloc \<Rightarrow> alloc \<Rightarrow> keyed \<Rightarrow> buf \<Rightarrow> u64 \<Rightarrow> (ptr \<times> keyed) option" where
  "cplus_llist_add_data_uint64 al ak K key v = cplus_llist_add_data al ak K TYPE_UINT64 key (Some (le_bytes 8 v)) None"

definition cplus_llist_add_data_float :: "alloc \<Rightarrow> alloc \<Rightarrow> keyed \<Rightarrow> buf \<Rightarrow> u32 \<Rightarrow> (ptr \<times> keyed) option" where
  "cplus_llist_add_data_float al ak K key v = cplus_llist_add_data al ak K TYPE_FLOAT key (Some (le_bytes 4 v)) None"

definition ccplus_llist_add_data_double :: "alloc \<Rightarrow> alloc \<Rightarrow> keyed \<Rightarrow> buf \<Rightarrow> u64 \<Rightarrow> (ptr \<times> keyed) option" where
  "ccplus_llist_add_data_double al ak K key v = cplus_llist_add_data al ak K TYPE_DOUBLE key (Some (le_bytes 8 v)) None"

definition cplus_llist_add_data_pointer :: "alloc \<Rightarrow> alloc \<Rightarrow> keyed \<Rightarrow> buf \<Rightarrow> ptr \<Rightarrow> (ptr \<times> keyed) option" where
  "cplus_llist_add_data_pointer al ak K key v = cplus_llist_add_data al ak K TYPE_POINTER key (Some (le_bytes 8 v)) None"

definition cplus_llist_add_data_string ::
    "alloc \<Rightarrow> alloc \<Rightarrow> keyed \<Rightarrow> buf \<Rightarrow> buf \<Rightarrow> u32 \<Rightarrow> (ptr \<times> keyed) option" where
  "cplus_llist_add_data_string al ak K key str_bufs str_len =
     cplus_llist_add_data al ak K TYPE_STRING key (Some (le_bytes 4 str_len)) str_bufs"

section \<open>What a keyed list represents\<close>

text \<open>An object with the text key \<open>k\<close> and the scalar value \<open>v\<close>.\<close>

definition holds_entry :: "data option \<Rightarrow> u8 list \<times> data_value \<Rightarrow> bool" where
  "holds_entry obj e \<longleftrightarrow> (\<exists>dt t. obj = Some dt \<and> dt_key dt = Some (fst e @ 0 # t) \<and> 0 \<notin> set (fst e) \<and>
     \<not> dt_locked dt \<and> dt_value dt = snd e \<and> 0 < scalar_size (type_of (snd e)))"

text \<open>The keys and values in the order of the list; nodes and objects are apart.\<close>

definition krep_at :: "keyed \<Rightarrow> entry list \<Rightarrow> (u8 list \<times> data_value) list \<Rightarrow> bool" where
  "krep_at K es kvs \<longleftrightarrow> lrep (kl_list K) es \<and> synced (kl_list K) es \<and> ls_pool (kl_list K) = None \<and>
     distinct (map snd es) \<and> snd ` set es \<subseteq> set (mh_live (ls_heap (kl_list K))) \<and>
     fst ` set es \<inter> snd ` set es = {} \<and>
     list_all2 (\<lambda>d e. holds_entry (kl_objs K d) e) (map snd es) kvs"

definition krep :: "keyed \<Rightarrow> (u8 list \<times> data_value) list \<Rightarrow> bool" where
  "krep K kvs \<longleftrightarrow> distinct (map fst kvs) \<and> (\<exists>es. krep_at K es kvs)"

lemma strcmp_texts:
  "\<lbrakk>0 \<notin> set s; 0 \<notin> set t\<rbrakk> \<Longrightarrow> \<exists>c. strcmp (s @ 0 # u) (t @ 0 # v) = Inr c \<and> (c = 0 \<longleftrightarrow> s = t)"
proof (induction s arbitrary: t)
  case Nil
  then show ?case by (cases t) (auto simp: uint_0_iff)
next
  case (Cons a s)
  then show ?case by (cases t) (auto simp: uint_0_iff word_uint_eq_iff [symmetric])
qed

lemma find_entry:
  assumes "holds_entry (objs d) e" "0 \<notin> set q"
  shows "\<exists>c. find_node_by_key objs d (Some (q @ [0])) = Inr c \<and> (c = 0 \<longleftrightarrow> fst e = q)"
  using assms strcmp_texts [of "fst e" q] by (force simp: holds_entry_def find_node_by_key_def cplus_data_get_key_def)

lemma match_entry:
  assumes "holds_entry (objs d) e" "0 \<notin> set q"
  shows "key_matcher objs (Some (q @ [0])) d = 0 \<longleftrightarrow> fst e = q"
  using find_entry [of objs d e q, OF assms] by (auto simp: key_matcher_def)

lemma first_match_all2:
  "\<lbrakk>list_all2 R xs ys; \<And>x y. R x y \<Longrightarrow> P x = Q y\<rbrakk> \<Longrightarrow> first_match P xs = first_match Q ys"
  by (induction xs ys rule: list_all2_induct) auto

text \<open>Association lists by index.\<close>

lemma absent_key:
  "first_match (\<lambda>e. fst e = q) kvs = None \<longleftrightarrow> q \<notin> fst ` set kvs"
  by (auto simp: first_match_None)

lemma update_absent: "q \<notin> fst ` set kvs \<Longrightarrow> AList.update q v kvs = kvs @ [(q, v)]"
  by (induction kvs) auto

lemma delete_absent: "q \<notin> fst ` set kvs \<Longrightarrow> AList.delete q kvs = kvs"
  by (induction kvs) (auto simp: AList.delete_eq)

lemma update_found: "first_match (\<lambda>e. fst e = q) kvs = Some m \<Longrightarrow> AList.update q v kvs = kvs[m := (q, v)]"
  by (induction kvs arbitrary: m) (auto split: if_splits)

lemma delete_found:
  "\<lbrakk>first_match (\<lambda>e. fst e = q) kvs = Some m; distinct (map fst kvs)\<rbrakk> \<Longrightarrow>
     AList.delete q kvs = remove_at m kvs"
proof (induction kvs arbitrary: m)
  case (Cons e kvs)
  show ?case
  proof (cases "fst e = q")
    case True
    then have "q \<notin> fst ` set kvs" using Cons.prems(2) by auto
    then show ?thesis using True Cons.prems(1) delete_absent [of q kvs]
      by (cases e) (simp add: remove_at_def AList.delete_eq)
  next
    case False
    then obtain k where k: "m = Suc k" "first_match (\<lambda>e. fst e = q) kvs = Some k"
      using Cons.prems(1) by (auto split: if_splits)
    then show ?thesis using False Cons.IH [OF k(2)] Cons.prems(2)
      by (cases e) (simp add: remove_at_def AList.delete_eq)
  qed
qed simp

lemma map_of_found:
  "first_match (\<lambda>e. fst e = q) kvs = Some m \<Longrightarrow> map_of kvs q = Some (snd (kvs ! m))"
  by (induction kvs arbitrary: m) (auto split: if_splits)

section \<open>The steps\<close>

text \<open>The heap changes outside the nodes of the list.\<close>

lemma lrep_heap:
  assumes "lrep L es" "ls_pool L = None" "mheap_inv h" "fst ` set es \<subseteq> set (mh_live h)"
  shows "lrep (L\<lparr>ls_heap := h\<rparr>) es" "synced L es \<Longrightarrow> synced (L\<lparr>ls_heap := h\<rparr>) es"
  using assms
  by (simp_all add: lrep_def store_of_def store_ok_def store_live_def synced_def cur_ok_def cur_at_def)

lemma krep_atD:
  assumes "krep_at K es kvs"
  shows "lrep (kl_list K) es" "synced (kl_list K) es" "ls_pool (kl_list K) = None"
    "distinct (map snd es)" "snd ` set es \<subseteq> set (mh_live (ls_heap (kl_list K)))"
    "fst ` set es \<inter> snd ` set es = {}"
    "list_all2 (\<lambda>d e. holds_entry (kl_objs K d) e) (map snd es) kvs"
    "mheap_inv (ls_heap (kl_list K))" "fst ` set es \<subseteq> set (mh_live (ls_heap (kl_list K)))"
    "length kvs = length es"
  using assms lrepD(9,10) [of "kl_list K" es]
  by (auto simp: krep_at_def store_of_def store_ok_def store_live_def dest: list_all2_lengthD)

lemma entry_of:
  assumes "krep_at K es kvs" "i < length es"
  shows "holds_entry (kl_objs K (snd (es ! i))) (kvs ! i)"
  using list_all2_nthD [OF krep_atD(7) [OF assms(1)], of i] assms(2) by simp

lemma key_scan:
  assumes rep: "krep_at K es kvs" and q: "0 \<notin> set q"
  shows "first_match (\<lambda>d. key_matcher (kl_objs K) (Some (q @ [0])) d = 0) (map snd es) =
    first_match (\<lambda>e. fst e = q) kvs"
  by (rule first_match_all2 [OF krep_atD(7) [OF rep]]) (rule match_entry [OF _ q])

lemma found_returns:
  assumes rep: "krep_at K es kvs" and q: "0 \<notin> set q" and m: "m < length es"
  shows "matched K (Some (q @ [0])) (Inr (snd (es ! m)), L) = Some (snd (es ! m), K\<lparr>kl_list := L\<rparr>)"
  using find_entry [of "kl_objs K" "snd (es ! m)" "kvs ! m" q, OF entry_of [OF rep m] q]
  by (auto simp: matched_def)

lemma get_by_key_step:
  assumes rep: "krep_at K es kvs" and q: "0 \<notin> set q"
  obtains L where "get_by_key K (Some (q @ [0])) =
      Some (case first_match (\<lambda>e. fst e = q) kvs of None \<Rightarrow> CPLUS_NULL | Some m \<Rightarrow> snd (es ! m),
            K\<lparr>kl_list := L\<rparr>)"
    "krep_at (K\<lparr>kl_list := L\<rparr>) es kvs" "ls_heap L = ls_heap (kl_list K)"
proof -
  note D = krep_atD [OF rep]
  obtain L where L: "cplus_llist_get_if (kl_list K) (key_matcher (kl_objs K) (Some (q @ [0]))) =
      Some (case first_match (\<lambda>d. key_matcher (kl_objs K) (Some (q @ [0])) d = 0) (map snd es) of
              None \<Rightarrow> Inl ENOENT | Some m \<Rightarrow> Inr (map snd es ! m), L)"
      "lrep L es" "synced L es" "store_of L = store_of (kl_list K)"
    using get_if_at [OF D(1)] by blast
  have store: "ls_pool L = None" "ls_heap L = ls_heap (kl_list K)"
    using L(4) D(3) by (simp_all add: store_of_def)
  have "krep_at (K\<lparr>kl_list := L\<rparr>) es kvs" using rep L(2,3) store by (simp add: krep_at_def)
  moreover have "get_by_key K (Some (q @ [0])) =
      Some (case first_match (\<lambda>e. fst e = q) kvs of None \<Rightarrow> CPLUS_NULL | Some m \<Rightarrow> snd (es ! m),
            K\<lparr>kl_list := L\<rparr>)"
  proof (cases "first_match (\<lambda>e. fst e = q) kvs")
    case None
    then show ?thesis using L(1) unfolding get_by_key_def key_scan [OF rep q] by (simp add: matched_def)
  next
    case (Some m)
    then have m: "m < length es" using D(10) by (simp add: first_match_Some)
    then show ?thesis using L(1) Some found_returns [OF rep q m]
      unfolding get_by_key_def key_scan [OF rep q] by simp
  qed
  ultimately show ?thesis using store(2) by (intro that)
qed

text \<open>A key that the constructor and \<open>strlen\<close> accept.\<close>

definition key_ok :: "u8 list \<Rightarrow> bool" where
  "key_ok k \<longleftrightarrow> k \<noteq> [] \<and> 0 \<notin> set k \<and> length k < unat RSIZE_MAX_MEM"

lemma set_key_fresh:
  assumes k: "key_ok k" and al: "allocates ak" and dt: "dt_key dt = None" "dt_key_len dt = 0" "\<not> dt_locked dt"
  shows "\<exists>dt'. cplus_data_set_key ak dt (of_nat (length k)) (Some (k @ [0])) = Inr (Inr (), dt') \<and>
    dt_key dt' = Some (k @ [0]) \<and> \<not> dt_locked dt' \<and> dt_value dt' = dt_value dt"
proof -
  let ?n = "of_nat (length k) + 1 :: u32"
  have len: "length k < 268435456" "0 < length k" using k by (auto simp: key_ok_def RSIZE_MAX_MEM_def)
  then have n: "unat ?n = Suc (length k)" "unat (of_nat (length k) :: u32) = length k"
    by (simp_all add: unat_word_ariths)
  obtain room where room: "malloc_buf ak ?n = Some room" "length room = unat ?n"
    using allocates_bufs [OF al] by blast
  have ne: "(of_nat (length k) :: u32) \<noteq> 0" "?n \<noteq> 0" "\<not> RSIZE_MAX_MEM < ?n"
    using n len by (auto simp: word_unat_eq_iff word_less_nat_alt RSIZE_MAX_MEM_def simp del: of_nat_add)
  have fits: "\<not> ?n \<le> 0" using ne(2) by simp
  have copy: "cplus_mem_cpy_ex (Some room) ?n (Some (k @ [0])) ?n = Inr (Inr (k @ [0]))"
    using ne room n by (simp add: cplus_mem_cpy_ex_def read_obj_def write_obj_def)
  show ?thesis
    using ne(1) fits room(1) copy dt
    by (simp add: cplus_data_set_key_def locked_free Let_def)
qed

lemma new_ex_scalar:
  assumes k: "key_ok k" and al: "allocates ak" and ty: "0 < scalar_size ty" "length bs = scalar_size ty"
  shows "\<exists>dt. cplus_data_new_ex True al ak ty (Some bs) None (of_nat (length k)) (Some (k @ [0])) = Inr (Some dt) \<and>
    holds_entry (Some dt) (k, scalar_of ty bs)"
proof -
  have zero: "type_of (zero_value ty) = ty" by (cases ty) simp_all
  let ?dt = "stored (cleared_data ty) (scalar_of ty bs)"
  have set: "cplus_data_set_value al (cleared_data ty) (Some bs) None = Inr (Inr (), ?dt)"
    using set_value_scalar [of "cleared_data ty" bs al None] ty zero by (simp add: cleared_data_def)
  obtain dt where dt: "cplus_data_set_key ak ?dt (of_nat (length k)) (Some (k @ [0])) = Inr (Inr (), dt)"
      "dt_key dt = Some (k @ [0])" "\<not> dt_locked dt" "dt_value dt = scalar_of ty bs"
    using set_key_fresh [OF k al, of ?dt] by (auto simp: cleared_data_def)
  have pos: "0 < (of_nat (length k) :: u32)"
  proof -
    have "length k < 4294967296" "k \<noteq> []" using k by (auto simp: key_ok_def RSIZE_MAX_MEM_def)
    then show ?thesis by (simp add: u32_pos_iff)
  qed
  have "holds_entry (Some dt) (k, scalar_of ty bs)"
    using dt(2-4) k bytes_of_scalar_of(2) [OF ty] ty(1) by (simp add: holds_entry_def key_ok_def)
  then show ?thesis
    using set dt(1) pos by (simp add: cplus_data_new_ex_def data_initialize_object_def)
qed

end
