(* ===== verification/Data_Group.thy ===== *)
theory Data_Group
  imports Data_Props Keyed Llist_Props
begin

text \<open>
  The group nodes of \<^verbatim>\<open>src/data.c\<close>: a value object whose key is the name of the group and
  whose value is the address of a linked list.  Lists with their nodes, objects and the blocks
  the objects own come from one heap; \<open>None\<close> is a call that does not return.
\<close>

section \<open>State\<close>

text \<open>\<open>gr_blocks\<close> are the addresses of the blocks that an object owns.\<close>

record groups =
  gr_heap :: mheap
  gr_objs :: "ptr \<rightharpoonup> data"
  gr_blocks :: "ptr \<Rightarrow> data_block \<Rightarrow> ptr"
  gr_lists :: "ptr \<rightharpoonup> linked_list"

text \<open>\<^verbatim>\<open>cplus_data_check\<close> and \<^verbatim>\<open>cplus_llist_check\<close> read the type of whatever the pointer designates.\<close>

definition is_data_object :: "groups \<Rightarrow> ptr \<Rightarrow> bool option" where
  "is_data_object G a = (if a = CPLUS_NULL then Some False
     else if gr_objs G a \<noteq> None then Some True
     else if gr_lists G a \<noteq> None then Some False else None)"

definition is_list_object :: "groups \<Rightarrow> ptr \<Rightarrow> bool option" where
  "is_list_object G a = (if a = CPLUS_NULL then Some False
     else if gr_lists G a \<noteq> None then Some True
     else if gr_objs G a \<noteq> None then Some False else None)"

section \<open>Operations\<close>

text \<open>\<^verbatim>\<open>cplus_data_delete\<close>: the blocks of the object go back one by one, the object itself last.\<close>

definition block_at :: "groups \<Rightarrow> ptr \<Rightarrow> data_block \<Rightarrow> ptr" where
  "block_at G a b = (if b = Object_block then a else gr_blocks G a b)"

lemma block_at_cong: "gr_blocks G' = gr_blocks G \<Longrightarrow> block_at G' = block_at G"
  by (simp add: block_at_def fun_eq_iff)

definition delete_data_object :: "ptr \<Rightarrow> groups \<Rightarrow> groups option" where
  "delete_data_object a G = map_option (\<lambda>dt. G\<lparr>
       gr_heap := foldl cplus_mgr_free (gr_heap G) (map (block_at G a) (cplus_data_delete dt)),
       gr_objs := (gr_objs G)(a := None)\<rparr>) (gr_objs G a)"

text \<open>
  A pointer value takes no block of its own.  A key takes the second block, whose first contents
  are \<open>junk\<close>; when there is none, the object is given back.
\<close>

definition new_pointer_object ::
    "(nat \<Rightarrow> u8) \<Rightarrow> ptr \<Rightarrow> u32 \<Rightarrow> buf \<Rightarrow> groups \<Rightarrow> (ptr \<times> groups) option" where
  "new_pointer_object junk v key_len key G = (case cplus_mgr_malloc (gr_heap G) of
     (Inl e, h) \<Rightarrow> Some (CPLUS_NULL, G\<lparr>gr_heap := h\<rparr>)
   | (Inr a, h) \<Rightarrow> (case cplus_mgr_malloc h of (r, h1) \<Rightarrow>
       map_option (\<lambda>new. case new of
         None \<Rightarrow> (CPLUS_NULL, G\<lparr>gr_heap := cplus_mgr_free h a\<rparr>)
       | Some dt \<Rightarrow> (case (dt_key dt, r) of
             (Some key', Inr k) \<Rightarrow> (a, G\<lparr>gr_heap := h1, gr_objs := (gr_objs G)(a \<mapsto> dt),
               gr_blocks := (gr_blocks G)(a := (\<lambda>b. k))\<rparr>)
           | _ \<Rightarrow> (a, G\<lparr>gr_heap := h, gr_objs := (gr_objs G)(a \<mapsto> dt)\<rparr>)))
       (returned (cplus_data_new_pointer_ex True (\<lambda>n. None) (\<lambda>n. case r of Inl e \<Rightarrow> None | Inr k \<Rightarrow> Some junk)
          v key_len key))))"

definition cplus_data_create_group_node ::
    "(nat \<Rightarrow> u8) \<Rightarrow> buf \<Rightarrow> groups \<Rightarrow> (ptr \<times> groups) option" where
  "cplus_data_create_group_node junk name G = (case cplus_llist_new (gr_heap G) (\<lambda>a. None) of
     (Inl e, h) \<Rightarrow> Some (CPLUS_NULL, G\<lparr>gr_heap := h\<rparr>)
   | (Inr L, h) \<Rightarrow> Option.bind (returned (c_str name)) (\<lambda>s.
       new_pointer_object junk (ls_obj L) (of_nat (length s)) name
         (G\<lparr>gr_heap := h, gr_lists := (gr_lists G)(ls_obj L \<mapsto> L)\<rparr>)))"

definition cplus_data_get_group :: "groups \<Rightarrow> ptr \<Rightarrow> ptr option" where
  "cplus_data_get_group G node = Option.bind (is_data_object G node) (\<lambda>c.
     if c then
       Option.bind (gr_objs G node) (\<lambda>dt.
       Option.bind (returned (cplus_data_get_pointer dt)) (\<lambda>g.
       map_option (\<lambda>l. if l then g else CPLUS_NULL) (is_list_object G g)))
     else Some CPLUS_NULL)"

text \<open>Deleting a list whose fields are those in \<open>gr_lists\<close> and whose heap is the common one.\<close>

definition delete_list :: "ptr \<Rightarrow> groups \<Rightarrow> groups option" where
  "delete_list g G = Option.bind (gr_lists G g) (\<lambda>L.
     map_option (\<lambda>h. G\<lparr>gr_heap := h, gr_lists := (gr_lists G)(g := None)\<rparr>)
       (cplus_llist_delete (L\<lparr>ls_heap := gr_heap G\<rparr>)))"

definition cplus_data_delete_group_node :: "groups \<Rightarrow> ptr \<Rightarrow> (unit cresult \<times> groups) option" where
  "cplus_data_delete_group_node G node = Option.bind (is_data_object G node) (\<lambda>c.
     if c then
       Option.bind (cplus_data_get_group G node) (\<lambda>g.
       Option.bind (is_list_object G g) (\<lambda>l.
       Option.bind (if l then delete_list g G else Some G) (\<lambda>G1.
       map_option (\<lambda>G2. (Inr (), G2)) (delete_data_object node G1))))
     else Some (Inl ENONE, G))"

section \<open>Properties\<close>

definition groups_ok :: "groups \<Rightarrow> bool" where
  "groups_ok G \<longleftrightarrow> mheap_inv (gr_heap G) \<and>
     dom (gr_objs G) \<union> dom (gr_lists G) \<subseteq> set (mh_live (gr_heap G))"

text \<open>The list at \<open>g\<close> holds the entries \<open>es\<close>, with nodes from the common heap.\<close>

definition group_holds :: "groups \<Rightarrow> ptr \<Rightarrow> entry list \<Rightarrow> bool" where
  "group_holds G g es \<longleftrightarrow> (\<exists>L. gr_lists G g = Some L \<and> ls_obj L = g \<and> ls_pool L = None \<and>
     lrep (L\<lparr>ls_heap := gr_heap G\<rparr>) es)"

lemma new_list:
  assumes "mheap_inv h"
  shows "(\<exists>L. cplus_llist_new h (\<lambda>a. None) = (Inr L, h\<lparr>mh_live := ls_obj L # mh_live h\<rparr>) \<and>
       (\<forall>h'. mheap_inv h' \<longrightarrow> lrep (L\<lparr>ls_heap := h'\<rparr>) []) \<and>
       ls_pool L = None \<and> ls_obj L \<noteq> CPLUS_NULL \<and> ls_obj L \<notin> set (mh_live h)) \<or>
     (mh_pick h (mh_live h) = CPLUS_NULL \<and> cplus_llist_new h (\<lambda>a. None) = (Inl ENOMEM, h))"
  using assms
  by (auto simp: cplus_llist_new_def llist_initialize_object_def cplus_mgr_malloc_def Let_def
      cplus_mempool_new_def lrep_def store_of_def store_ok_def mheap_inv_def malloc_law_def)

lemma case_sum_unit: "(case r of Inl e \<Rightarrow> f e | Inr u \<Rightarrow> g) = (if r = Inr () then g else f (projl r))"
  by (cases r) auto

text \<open>A new object with a pointer value has a key only when the allocation of the key succeeded.\<close>

lemma pointer_object:
  assumes "cplus_data_new_pointer_ex ok al ak v n key = Inr (Some dt)"
  shows "dt_value dt = Val_pointer v" "dt_key dt \<noteq> None \<Longrightarrow> ak (n + 1) \<noteq> None"
proof -
  let ?d = "stored (cleared_data TYPE_POINTER) (Val_pointer v)"
  have set: "cplus_data_set_value al (cleared_data TYPE_POINTER) (Some (le_bytes 8 v)) None = Inr (Inr (), ?d)"
    by (simp add: cplus_data_set_value_def access_defs cleared_data_def)
  have d: "dt_value ?d = Val_pointer v" "dt_key ?d = None" by (simp_all add: access_defs cleared_data_def)
  have kept: "dt_value dt' = Val_pointer v \<and> (dt_key dt' \<noteq> None \<longrightarrow> ak (n + 1) \<noteq> None)"
    if "cplus_data_set_key ak ?d n key = Inr (r, dt')" for r dt'
    using that d by (auto simp: cplus_data_set_key_def locked_def data_spin_lock_def data_spin_unlock_def
        Let_def exec_bind_eq_Inr malloc_buf_def split: if_splits option.splits)
  have "dt = ?d \<or> (\<exists>r. cplus_data_set_key ak ?d n key = Inr (r, dt))"
    using assms set by (auto simp: cplus_data_new_pointer_ex_def data_initialize_object_def
        exec_bind_eq_Inr case_sum_unit split: if_splits sum.splits)
  then show "dt_value dt = Val_pointer v" "dt_key dt \<noteq> None \<Longrightarrow> ak (n + 1) \<noteq> None"
    using kept d by auto
qed

text \<open>
  Making a pointer object: its blocks are new, and when it cannot be made the heap has what it had.
\<close>

lemma new_pointer_blocks:
  assumes inv: "mheap_inv (gr_heap G)" and new: "new_pointer_object junk v n key G = Some (a, G1)"
  shows "if a = CPLUS_NULL then gr_objs G1 = gr_objs G \<and> gr_lists G1 = gr_lists G \<and> set (mh_live (gr_heap G1)) = set (mh_live (gr_heap G))
    else \<exists>dt bs. gr_objs G1 = (gr_objs G)(a \<mapsto> dt) \<and> gr_lists G1 = gr_lists G \<and> dt_value dt = Val_pointer v \<and>
      map (block_at G1 a) (cplus_data_delete dt) = bs \<and> a \<in> set bs \<and> distinct bs \<and> mheap_inv (gr_heap G1) \<and>
      set bs \<inter> set (mh_live (gr_heap G)) = {} \<and> set (mh_live (gr_heap G1)) = set bs \<union> set (mh_live (gr_heap G))"
proof -
  obtain r h where m: "cplus_mgr_malloc (gr_heap G) = (r, h)" by (rule prod.exhaust)
  show ?thesis
  proof (cases r)
    case (Inl e)
    then have "a = CPLUS_NULL" "G1 = G\<lparr>gr_heap := h\<rparr>" using new m by (auto simp: new_pointer_object_def)
    then show ?thesis using heap.alc_fail [OF inv] m Inl by simp
  next
    case (Inr b)
    note B = heap.alc_ok [OF inv m [unfolded Inr]] heap.alc_inv [OF inv m]
    obtain q h1 where m1: "cplus_mgr_malloc h = (q, h1)" by (rule prod.exhaust)
    let ?ak = "\<lambda>n :: u32. case q of Inl e \<Rightarrow> None | Inr k \<Rightarrow> Some junk"
    obtain obj where obj: "cplus_data_new_pointer_ex True (\<lambda>n. None) ?ak v n key = Inr obj"
      using new m Inr m1 by (auto simp: new_pointer_object_def returned_def split: sum.splits)
    show ?thesis
    proof (cases obj)
      case None
      then have "a = CPLUS_NULL" "G1 = G\<lparr>gr_heap := cplus_mgr_free h b\<rparr>"
        using new m Inr m1 obj by (auto simp: new_pointer_object_def returned_def)
      then show ?thesis using heap.alc_fre_live [OF inv m [unfolded Inr]] by simp
    next
      case (Some dt)
      note P = pointer_object [OF obj [unfolded Some]]
      show ?thesis
      proof (cases "dt_key dt")
        case None
        then have "a = b" "G1 = G\<lparr>gr_heap := h, gr_objs := (gr_objs G)(b \<mapsto> dt)\<rparr>"
          using new m Inr m1 obj Some by (auto simp: new_pointer_object_def returned_def)
        then show ?thesis
          using B P(1) None by (auto simp: cplus_data_delete_def block_at_def)
      next
        case (Some key')
        then obtain k where k: "q = Inr k" using P(2) by (cases q) auto
        note K = heap.alc_ok [OF B(2) m1 [unfolded k]] heap.alc_inv [OF B(2) m1]
        have "a = b" "G1 = G\<lparr>gr_heap := h1, gr_objs := (gr_objs G)(b \<mapsto> dt),
            gr_blocks := (gr_blocks G)(b := (\<lambda>x. k))\<rparr>"
          using new m Inr m1 obj \<open>obj = Some dt\<close> Some k by (auto simp: new_pointer_object_def returned_def)
        then show ?thesis
          using B K P(1) Some by (auto simp: cplus_data_delete_def block_at_def)
      qed
    qed
  qed
qed

text \<open>
  Deleting a node whose list holds \<open>es\<close> takes away the nodes of the list, the list, the key
  and the object.
\<close>

lemma delete_group:
  assumes node: "gr_objs G node = Some dt" "dt_value dt = Val_pointer g" "node \<noteq> CPLUS_NULL" "g \<noteq> CPLUS_NULL"
    and objs: "gr_objs G g = None" and holds: "group_holds G g es"
    and blocks: "map (block_at G node) (cplus_data_delete dt) = bs" "distinct bs" "set bs \<subseteq> set (mh_live (gr_heap G))"
    and apart: "g \<in> set (mh_live (gr_heap G))" "g \<notin> set bs" "g \<notin> fst ` set es" "set bs \<inter> fst ` set es = {}"
  shows "cplus_data_get_group G node = Some g \<and> (\<exists>G2. cplus_data_delete_group_node G node = Some (Inr (), G2) \<and>
    gr_objs G2 = (gr_objs G)(node := None) \<and> gr_lists G2 = (gr_lists G)(g := None) \<and>
    set (mh_live (gr_heap G2)) = set (mh_live (gr_heap G)) - fst ` set es - {g} - set bs)"
proof -
  obtain L where L: "gr_lists G g = Some L" "ls_obj L = g" "ls_pool L = None" "lrep (L\<lparr>ls_heap := gr_heap G\<rparr>) es"
    using holds by (auto simp: group_holds_def)
  obtain h where h: "cplus_llist_delete (L\<lparr>ls_heap := gr_heap G\<rparr>) = Some h" "mheap_inv h"
      "set (mh_live h) = set (mh_live (gr_heap G)) - fst ` set es - {g}"
    using heap_list_delete [OF L(4)] L(2,3) node(4) apart by auto
  let ?G1 = "G\<lparr>gr_heap := h, gr_lists := (gr_lists G)(g := None)\<rparr>"
  let ?G2 = "?G1\<lparr>gr_heap := foldl cplus_mgr_free h bs, gr_objs := (gr_objs G)(node := None)\<rparr>"
  have list: "delete_list g G = Some ?G1" using L(1) h(1) by (simp add: delete_list_def)
  have "map (block_at ?G1 node) (cplus_data_delete dt) = bs" using blocks(1) block_at_cong [of ?G1 G] by simp
  then have obj: "delete_data_object node ?G1 = Some ?G2" using node(1) by (simp add: delete_data_object_def)
  have get: "cplus_data_get_group G node = Some g"
    using node objs L(1) by (simp add: cplus_data_get_group_def is_data_object_def is_list_object_def
        cplus_data_get_pointer_def)
  have "cplus_data_delete_group_node G node = Some (Inr (), ?G2)"
    using get list obj node L(1) by (simp add: cplus_data_delete_group_node_def is_data_object_def is_list_object_def)
  moreover have "set bs \<subseteq> set (mh_live h)" using blocks(3) h(3) apart by auto
  then have "set (mh_live (foldl cplus_mgr_free h bs)) = set (mh_live h) - set bs"
    using heap.fre_many [OF h(2) blocks(2)] by simp
  ultimately show ?thesis using get h(3) by auto
qed

text \<open>
  C29.  A group node that was made gives access to its list, which is new and empty.  Whatever the client
  then puts into the list, with nodes that are new blocks of the heap, deleting the node ends both and gives the
  heap back what it had: the nodes of the list, the list, the key and the object are released.  (The
  elements themselves belong to the client.)  When no node could be made although there was room for the
  list, the list is left behind for good.
\<close>

theorem data_group_lifecycle:
  assumes G: "groups_ok G" and new: "cplus_data_create_group_node junk name G = Some (node, G1)"
  shows "if node \<noteq> CPLUS_NULL
     then \<exists>g. cplus_data_get_group G1 node = Some g \<and> group_holds G1 g [] \<and> gr_lists G g = None \<and>
       (\<forall>G1' es. group_holds G1' g es \<and> gr_objs G1' = gr_objs G1 \<and> gr_blocks G1' = gr_blocks G1 \<and>
          gr_lists G1' = (gr_lists G1)(g := gr_lists G1' g) \<and> fst ` set es \<inter> set (mh_live (gr_heap G1)) = {} \<and>
          set (mh_live (gr_heap G1')) = fst ` set es \<union> set (mh_live (gr_heap G1)) \<longrightarrow>
          (\<exists>G2. cplus_data_delete_group_node G1' node = Some (Inr (), G2) \<and>
             gr_objs G2 = gr_objs G \<and> gr_lists G2 = gr_lists G \<and>
             set (mh_live (gr_heap G2)) = set (mh_live (gr_heap G))))
     else gr_objs G1 = gr_objs G \<and>
       (mh_pick (gr_heap G) (mh_live (gr_heap G)) = CPLUS_NULL \<and> gr_lists G1 = gr_lists G \<or>
        (\<exists>g L. gr_lists G g = None \<and> gr_lists G1 = (gr_lists G)(g \<mapsto> L) \<and>
          set (mh_live (gr_heap G1)) = insert g (set (mh_live (gr_heap G)))))"
proof -
  let ?h = "gr_heap G"
  have inv: "mheap_inv ?h" and dom: "dom (gr_objs G) \<union> dom (gr_lists G) \<subseteq> set (mh_live ?h)"
    using G by (auto simp: groups_ok_def)
  from new_list [OF inv] show ?thesis
  proof (elim disjE exE conjE)
    assume "mh_pick ?h (mh_live ?h) = CPLUS_NULL" "cplus_llist_new ?h (\<lambda>a. None) = (Inl ENOMEM, ?h)"
    then show ?thesis using new by (auto simp: cplus_data_create_group_node_def)
  next
    fix L :: linked_list
    let ?g = "ls_obj L" and ?h1 = "?h\<lparr>mh_live := ls_obj L # mh_live ?h\<rparr>"
    assume L: "cplus_llist_new ?h (\<lambda>a. None) = (Inr L, ?h1)" "\<forall>h'. mheap_inv h' \<longrightarrow> lrep (L\<lparr>ls_heap := h'\<rparr>) []"
      "ls_pool L = None" "?g \<noteq> CPLUS_NULL" "?g \<notin> set (mh_live ?h)"
    have none: "gr_lists G ?g = None" "gr_objs G ?g = None" using dom L(5) by auto
    let ?G = "G\<lparr>gr_heap := ?h1, gr_lists := (gr_lists G)(?g \<mapsto> L)\<rparr>"
    have inv1: "mheap_inv (gr_heap ?G)" using inv L(4) by (simp add: mheap_inv_def)
    obtain s :: "u8 list" where s: "new_pointer_object junk ?g (of_nat (length s)) name ?G = Some (node, G1)"
      using new by (simp add: cplus_data_create_group_node_def L(1) bind_eq_Some_conv) blast
    note B = new_pointer_blocks [OF inv1 s]
    show ?thesis
    proof (cases "node = CPLUS_NULL")
      case True
      then show ?thesis using B none(1) by auto
    next
      case False
      then obtain dt bs where D: "gr_objs G1 = (gr_objs G)(node \<mapsto> dt)" "gr_lists G1 = (gr_lists G)(?g \<mapsto> L)"
          "dt_value dt = Val_pointer ?g" "map (block_at G1 node) (cplus_data_delete dt) = bs" "node \<in> set bs"
          "distinct bs" "mheap_inv (gr_heap G1)" "set bs \<inter> insert ?g (set (mh_live ?h)) = {}"
          "set (mh_live (gr_heap G1)) = set bs \<union> insert ?g (set (mh_live ?h))"
        using B by auto
      have node: "gr_objs G1 node = Some dt" "gr_objs G1 ?g = None" "gr_objs G node = None"
        using D(1,5,8) none dom by auto
      have holds: "group_holds G1 ?g []" using D(2,7) L(2,3) by (auto simp: group_holds_def)
      have deleted: "cplus_data_get_group G1' node = Some ?g \<and>
          (\<exists>G2. cplus_data_delete_group_node G1' node = Some (Inr (), G2) \<and>
             gr_objs G2 = gr_objs G \<and> gr_lists G2 = gr_lists G \<and> set (mh_live (gr_heap G2)) = set (mh_live ?h))"
        if h': "group_holds G1' ?g es" and same: "gr_objs G1' = gr_objs G1" "gr_blocks G1' = gr_blocks G1"
          "gr_lists G1' = (gr_lists G1)(?g := gr_lists G1' ?g)"
          and es: "fst ` set es \<inter> set (mh_live (gr_heap G1)) = {}"
          "set (mh_live (gr_heap G1')) = fst ` set es \<union> set (mh_live (gr_heap G1))" for G1' es
      proof -
        have bs: "map (block_at G1' node) (cplus_data_delete dt) = bs" using D(4) block_at_cong [OF same(2)] by simp
        have apart: "set bs \<subseteq> set (mh_live (gr_heap G1'))" "?g \<in> set (mh_live (gr_heap G1'))" "?g \<notin> set bs"
            "?g \<notin> fst ` set es" "set bs \<inter> fst ` set es = {}"
          using D(8,9) es by auto
        have lists: "(gr_lists G1')(?g := None) = gr_lists G"
          using same(3) D(2) none(1) by (metis fun_upd_upd fun_upd_triv)
        have objs: "(gr_objs G1')(node := None) = gr_objs G" using same(1) D(1) node(3) by (simp add: fun_upd_idem)
        have live: "set (mh_live (gr_heap G1')) - fst ` set es - {?g} - set bs = set (mh_live ?h)"
          using D(8,9) es L(5) by auto
        have "gr_objs G1' node = Some dt" "gr_objs G1' ?g = None" using node same(1) by simp_all
        from delete_group [OF this(1) D(3) False L(4) this(2) h' bs D(6) apart]
        show ?thesis unfolding lists objs live .
      qed
      have "cplus_data_get_group G1 node = Some ?g" using deleted [OF holds] by simp
      then show ?thesis using False holds none(1) deleted by auto
    qed
  qed
qed

theorem data_group_lifecycle_witness:
  "\<exists>node G1. cplus_data_create_group_node (\<lambda>i. 0) (Some [103, 0])
      \<lparr>gr_heap = \<lparr>mh_live = [], mh_pick = (\<lambda>used. if 64 \<notin> set used then 64 else
         if 128 \<notin> set used then 128 else if 192 \<notin> set used then 192 else 0)\<rparr>,
       gr_objs = (\<lambda>a. None), gr_blocks = (\<lambda>a b. 0), gr_lists = (\<lambda>a. None)\<rparr> = Some (node, G1) \<and>
    mh_live (gr_heap G1) = [192, 128, 64] \<and> (\<exists>g. cplus_data_get_group G1 node = Some g)"
proof -
  let ?G = "\<lparr>gr_heap = \<lparr>mh_live = [], mh_pick = (\<lambda>used. if 64 \<notin> set used then 64 else
         if 128 \<notin> set used then 128 else if 192 \<notin> set used then 192 else 0)\<rparr>,
       gr_objs = (\<lambda>a. None), gr_blocks = (\<lambda>a b. 0), gr_lists = (\<lambda>a. None)\<rparr>"
  have ok: "groups_ok ?G" by (auto simp: groups_ok_def mheap_inv_def malloc_law_def)
  have "\<exists>G1. cplus_data_create_group_node (\<lambda>i. 0) (Some [103, 0]) ?G = Some (128, G1) \<and>
      mh_live (gr_heap G1) = [192, 128, 64]"
    by (simp add: cplus_data_create_group_node_def cplus_llist_new_def llist_initialize_object_def
        cplus_mgr_malloc_def cplus_mempool_new_def c_str_def new_pointer_object_def
        cplus_data_new_pointer_ex_def data_initialize_object_def cplus_data_set_value_def access_defs
        cleared_data_def cplus_data_set_key_def locked_def data_spin_lock_def data_spin_unlock_def
        malloc_buf_def cplus_mem_cpy_ex_def RSIZE_MAX_MEM_def)
  then obtain G1 where new: "cplus_data_create_group_node (\<lambda>i. 0) (Some [103, 0]) ?G = Some (128, G1)"
      "mh_live (gr_heap G1) = [192, 128, 64]"
    by blast
  from data_group_lifecycle [OF ok new(1)] new show ?thesis by auto
qed

end
