(* ===== verification/Ipc_Packet.thy ===== *)
theory Ipc_Packet
  imports Clib
begin

text \<open>
  The packet layer of \<^verbatim>\<open>src/ipc_server.c\<close>: sending a packet, the stage machine that
  recognises packets in the receive buffer of a connection, the answer to a completed packet,
  and the receiving side of a connection.

  The fields of \<^verbatim>\<open>struct ipc_conn\<close> that the receiving side uses are the record \<open>conn\<close>; those
  with which it answers (\<^verbatim>\<open>response_data\<close>, its size and the socket) are the record
  \<open>responder\<close>.  \<^verbatim>\<open>packet.data\<close> points to \<^verbatim>\<open>packet_databufs\<close> and is modelled by its contents.
  The event \<^verbatim>\<open>evt_packet_received\<close> is its flag, \<open>None\<close> where there is none.
\<close>

section \<open>Packets\<close>

definition IPC_CONN_PACKET_TAG_SIZE :: u32 where "IPC_CONN_PACKET_TAG_SIZE = 3"

definition MAX_PACKET_DATA_SIZE :: u32 where "MAX_PACKET_DATA_SIZE = 16 * 512"

definition IPC_CONN_PACKET_BEGIN_TAG :: "u8 list" where
  "IPC_CONN_PACKET_BEGIN_TAG = [83, 84, 88, 0]"

definition IPC_CONN_PACKET_END_TAG :: "u8 list" where
  "IPC_CONN_PACKET_END_TAG = [69, 84, 88, 0]"

definition IPC_CMD_HEARTBEAT :: u8 where "IPC_CMD_HEARTBEAT = 0"
definition IPC_CMD_ONEWAY :: u8 where "IPC_CMD_ONEWAY = 1"
definition IPC_CMD_REQUEST :: u8 where "IPC_CMD_REQUEST = 2"
definition IPC_CMD_RESPONSE :: u8 where "IPC_CMD_RESPONSE = 3"
definition IPC_CMD_ACK :: u8 where "IPC_CMD_ACK = 4"
definition IPC_CMD_MAX :: u8 where "IPC_CMD_MAX = 5"

record packet =
  pk_seqn :: u8
  pk_cmd :: u8
  pk_data_len :: u32
  pk_data :: buf

text \<open>\<^verbatim>\<open>ACCUMULATE_SEQUENCE_NUMBER\<close> on the client's 32-bit counter.\<close>

definition ACCUMULATE_SEQUENCE_NUMBER :: "u32 \<Rightarrow> u32" where
  "ACCUMULATE_SEQUENCE_NUMBER seqn = (if 255 \<le> seqn then 0 else seqn + 1)"

section \<open>Sending\<close>

text \<open>
  The sending half of a socket: the bytes accepted so far and the results of the next calls of
  \<^verbatim>\<open>send\<close>, a failure to become ready counting as \<open>-1\<close>; when the list of results is empty,
  everything offered is accepted.  The length is an \<^verbatim>\<open>int32_t\<close>, which must be positive.
\<close>

record sock =
  sk_out :: "u8 list"
  sk_results :: "int list"

definition cplus_socket_send :: "sock \<Rightarrow> u8 list \<Rightarrow> int \<times> sock" where
  "cplus_socket_send skt bs = (if bs = [] \<or> 2147483648 \<le> length bs then (CPLUS_FAIL, skt)
     else case sk_results skt of
     [] \<Rightarrow> (int (length bs), skt\<lparr>sk_out := sk_out skt @ bs\<rparr>)
   | r # rs \<Rightarrow> (r, skt\<lparr>sk_out := sk_out skt @ take (nat r) bs, sk_results := rs\<rparr>))"

definition htonl :: "u32 \<Rightarrow> u32" where
  "htonl n = word_of_le (rev (le_bytes 4 n))"

text \<open>The steps of the \<^verbatim>\<open>do { ... } while (0)\<close>: each sends a piece and gives up on a short count.\<close>

definition ipc_send_packet :: "sock \<Rightarrow> packet \<Rightarrow> int cresult \<times> sock" where
  "ipc_send_packet skt packet =
     (if sint (ucast (pk_cmd packet) :: u32) < uint IPC_CMD_HEARTBEAT
         \<or> uint IPC_CMD_MAX - 1 < sint (ucast (pk_cmd packet) :: u32) then (Inl EINVAL, skt)
      else if 0 < pk_data_len packet \<and> pk_data packet = None then (Inl EINVAL, skt)
      else
        (let (n1, s1) = cplus_socket_send skt (take 3 IPC_CONN_PACKET_BEGIN_TAG) in
         if n1 \<noteq> 3 then (Inl ENONE, s1) else
         (let (n2, s2) = cplus_socket_send s1 [pk_seqn packet] in
          if n2 \<noteq> 1 then (Inl ENONE, s2) else
          (let (n3, s3) = cplus_socket_send s2 [pk_cmd packet] in
           if n3 \<noteq> 1 then (Inl ENONE, s3) else
           (let (n4, s4) = cplus_socket_send s3 (le_bytes 4 (htonl (pk_data_len packet))) in
            if n4 \<noteq> 4 then (Inl ENONE, s4) else
            (let (send_count, s5) =
               (case pk_data packet of
                  Some d \<Rightarrow> if 0 < pk_data_len packet
                    then cplus_socket_send s4 (take (unat (pk_data_len packet)) d) else (0, s4)
                | None \<Rightarrow> (0, s4)) in
             if 0 < pk_data_len packet \<and> pk_data packet \<noteq> None \<and>
                (send_count < 0 \<or> uint (pk_data_len packet) \<noteq> send_count) then (Inl ENONE, s5) else
             (let (n6, s6) = cplus_socket_send s5 (take 3 IPC_CONN_PACKET_END_TAG) in
              if n6 \<noteq> 3 then (Inl ENONE, s6) else (Inr send_count, s6))))))))"

section \<open>Receiving: the stage machine\<close>

datatype stage =
    RECV_HEAD | RECV_SEQN | RECV_CMD | RECV_DATA_LEN | RECV_DATA | RECV_TAIL | RECV_COMPLETED

datatype conn_status = NOT_CONNECTED | CONNECTED | TIMEOUT | FAULT

text \<open>The error codes of \<^verbatim>\<open>recv\<close> that the code distinguishes, and the callbacks it makes.\<close>

datatype recv_error = Err_timedout | Err_notconn | Err_intr | Err_other

datatype notification = On_disconnected | On_error recv_error

record conn =
  cn_is_async :: bool
  cn_status :: conn_status
  cn_sock :: bool
  cn_sock_error :: "recv_error option"
  cn_stage :: stage
  cn_event :: "bool option"
  cn_packet :: packet
  cn_recv_count :: int
  cn_recv_bufs :: "u8 list"
  cn_recv_bufs_size :: u32
  cn_recv_bufs_offset :: u32
  cn_sub_offset :: u32
  cn_databufs :: buf
  cn_databufs_size :: u32
  cn_databufs_offset :: u32
  cn_notified :: "notification list"

text \<open>The byte at an index of a buffer, and the byte the tag comparison looks at.\<close>

definition byte_at :: "u8 list \<Rightarrow> u32 \<Rightarrow> u8 exec" where
  "byte_at bs i = (if unat i < length bs then Inr (bs ! unat i) else Inl Out_of_bounds)"

definition at_byte :: "conn \<Rightarrow> (u8 \<Rightarrow> 'b exec) \<Rightarrow> 'b exec" where
  "at_byte c k = exec_bind (byte_at (cn_recv_bufs c) (cn_recv_bufs_offset c)) k"

definition advance :: "conn \<Rightarrow> conn" where
  "advance c = c\<lparr>cn_recv_bufs_offset := cn_recv_bufs_offset c + 1\<rparr>"

definition drop_packet :: "conn \<Rightarrow> conn" where
  "drop_packet c = c\<lparr>cn_stage := RECV_HEAD, cn_sub_offset := 0\<rparr>"

definition step_head :: "conn \<Rightarrow> conn exec" where
  "step_head c = at_byte c (\<lambda>b.
     exec_bind (byte_at IPC_CONN_PACKET_BEGIN_TAG (cn_sub_offset c)) (\<lambda>tag.
       Inr (advance
         (if tag = b then
            (let c1 = c\<lparr>cn_sub_offset := cn_sub_offset c + 1\<rparr> in
             if IPC_CONN_PACKET_TAG_SIZE \<le> cn_sub_offset c1
             then c1\<lparr>cn_event := map_option (\<lambda>e. False) (cn_event c1),
                     cn_stage := RECV_SEQN, cn_sub_offset := 0\<rparr>
             else c1)
          else drop_packet c))))"

definition step_seqn :: "conn \<Rightarrow> conn exec" where
  "step_seqn c = at_byte c (\<lambda>b.
     Inr (advance (c\<lparr>cn_packet := (cn_packet c)\<lparr>pk_seqn := b\<rparr>, cn_stage := RECV_CMD\<rparr>)))"

definition step_cmd :: "conn \<Rightarrow> conn exec" where
  "step_cmd c = at_byte c (\<lambda>b.
     Inr (advance (c\<lparr>cn_packet := (cn_packet c)\<lparr>pk_cmd := b\<rparr>, cn_stage := RECV_DATA_LEN\<rparr>)))"

definition step_data_len :: "conn \<Rightarrow> conn exec" where
  "step_data_len c =
     (let c0 = (if cn_sub_offset c = 0 then c\<lparr>cn_packet := (cn_packet c)\<lparr>pk_data_len := 0\<rparr>\<rparr> else c) in
      if cn_sub_offset c0 < 4 then
        at_byte c0 (\<lambda>b.
          let len = push_bit (if cn_sub_offset c0 \<noteq> 0 then 8 else 0) (pk_data_len (cn_packet c0))
                    + ucast b
          in Inr (advance (c0\<lparr>cn_packet := (cn_packet c0)\<lparr>pk_data_len := len\<rparr>,
               cn_sub_offset := cn_sub_offset c0 + 1\<rparr>)))
      else
        (let c1 = c0\<lparr>cn_sub_offset := 0\<rparr>;
             c2 = (if MAX_PACKET_DATA_SIZE < pk_data_len (cn_packet c1) then drop_packet c1 else c1)
         in Inr (c2\<lparr>cn_stage :=
              (if 0 < pk_data_len (cn_packet c2) then RECV_DATA else RECV_TAIL)\<rparr>)))"

text \<open>Room for the data: the buffer is replaced when it is too small, made when there is none.\<close>

definition clear_buf :: "buf \<Rightarrow> u32 \<Rightarrow> buf exec" where
  "clear_buf b n = (case b of None \<Rightarrow> Inr None
     | Some room \<Rightarrow> exec_bind (cplus_mem_set (Some room) 0 n) (\<lambda>r. Inr (Some (or_unchanged r room))))"

definition provide_databufs :: "alloc \<Rightarrow> conn \<Rightarrow> conn exec" where
  "provide_databufs al c =
     (let len = pk_data_len (cn_packet c) in
      if cn_databufs_size c < len then
        (let fresh = (case cn_databufs c of None \<Rightarrow> malloc_buf al len
                      | Some old \<Rightarrow> or_null (realloc_buf al (Some old) len)) in
         if fresh = None then Inr (c\<lparr>cn_databufs := None\<rparr>)
         else exec_bind (clear_buf fresh len) (\<lambda>b.
           Inr (c\<lparr>cn_databufs := b, cn_databufs_size := len\<rparr>)))
      else if cn_databufs c = None then
        exec_bind (clear_buf (malloc_buf al (cn_databufs_size c)) (cn_databufs_size c)) (\<lambda>b.
          Inr (c\<lparr>cn_databufs := b\<rparr>))
      else Inr c)"

definition step_data :: "alloc \<Rightarrow> conn \<Rightarrow> conn exec" where
  "step_data al c = exec_bind (provide_databufs al c) (\<lambda>c1.
     case cn_databufs c1 of
       None \<Rightarrow> Inr (drop_packet c1)
     | Some room \<Rightarrow>
        (let len = pk_data_len (cn_packet c1);
             off = cn_databufs_offset c1;
             a = len - off;
             b = cn_recv_bufs_size c1 - cn_recv_bufs_offset c1;
             diff = (if a < b then a else b) in
         exec_bind (cplus_mem_cpy_ex (Some (drop (unat off) room)) diff
             (Some (drop (unat (cn_recv_bufs_offset c1)) (cn_recv_bufs c1))) diff) (\<lambda>r.
           let room' = take (unat off) room @ or_unchanged r (drop (unat off) room);
               c2 = c1\<lparr>cn_databufs := Some room',
                       cn_packet := (cn_packet c1)\<lparr>pk_data := Some room'\<rparr>,
                       cn_databufs_offset := off + diff,
                       cn_recv_bufs_offset := cn_recv_bufs_offset c1 + diff\<rparr>
           in Inr (if len - cn_databufs_offset c2 = 0
                   then c2\<lparr>cn_stage := RECV_TAIL, cn_databufs_offset := 0\<rparr> else c2))))"

text \<open>
  The end tag.  \<open>on_completed\<close> is called on the packet with the stage already back at the head;
  an asynchronous connection with an event leaves the switch without consuming the byte.
\<close>

definition step_tail :: "(packet \<Rightarrow> 's \<Rightarrow> 's exec) option \<Rightarrow> conn \<Rightarrow> 's \<Rightarrow> (conn \<times> 's) exec" where
  "step_tail on_completed c s = at_byte c (\<lambda>b.
     exec_bind (byte_at IPC_CONN_PACKET_END_TAG (cn_sub_offset c)) (\<lambda>tag.
       if tag = b then
         (let c1 = c\<lparr>cn_sub_offset := cn_sub_offset c + 1\<rparr> in
          if IPC_CONN_PACKET_TAG_SIZE \<le> cn_sub_offset c1 then
            (let c2 = drop_packet c1 in
             exec_bind (case on_completed of None \<Rightarrow> Inr s | Some f \<Rightarrow> f (cn_packet c2) s) (\<lambda>s'.
               let c3 = c2\<lparr>cn_event := map_option (\<lambda>e. True) (cn_event c2)\<rparr> in
               Inr (if cn_event c2 \<noteq> None \<and> cn_is_async c2 then c3 else advance c3, s')))
          else Inr (advance c1, s))
       else Inr (advance (drop_packet c), s)))"

definition analyze_step ::
    "(packet \<Rightarrow> 's \<Rightarrow> 's exec) option \<Rightarrow> alloc \<Rightarrow> conn \<Rightarrow> 's \<Rightarrow> (conn \<times> 's) exec" where
  "analyze_step on_completed al c s = (case cn_stage c of
     RECV_HEAD \<Rightarrow> exec_bind (step_head c) (\<lambda>c'. Inr (c', s))
   | RECV_SEQN \<Rightarrow> exec_bind (step_seqn c) (\<lambda>c'. Inr (c', s))
   | RECV_CMD \<Rightarrow> exec_bind (step_cmd c) (\<lambda>c'. Inr (c', s))
   | RECV_DATA_LEN \<Rightarrow> exec_bind (step_data_len c) (\<lambda>c'. Inr (c', s))
   | RECV_DATA \<Rightarrow> exec_bind (step_data al c) (\<lambda>c'. Inr (c', s))
   | RECV_TAIL \<Rightarrow> step_tail on_completed c s
   | RECV_COMPLETED \<Rightarrow> exec_bind (step_head c) (\<lambda>c'. Inr (c', s)))"

text \<open>The \<^verbatim>\<open>while\<close> loop: \<open>None\<close> when it does not end.\<close>

partial_function (option) analyze_loop ::
    "(packet \<Rightarrow> 's \<Rightarrow> 's exec) option \<Rightarrow> alloc \<Rightarrow> u32 \<Rightarrow> conn \<Rightarrow> 's \<Rightarrow> (conn \<times> 's) exec option" where
  "analyze_loop on_completed al walker_count c s =
     (if cn_recv_bufs_offset c < walker_count then
        (case analyze_step on_completed al c s of
           Inl f \<Rightarrow> Some (Inl f)
         | Inr cs \<Rightarrow> analyze_loop on_completed al walker_count (fst cs) (snd cs))
      else Some (Inr (c, s)))"

definition ipc_packet_analyze ::
    "(packet \<Rightarrow> 's \<Rightarrow> 's exec) option \<Rightarrow> alloc \<Rightarrow> conn \<Rightarrow> 's \<Rightarrow> (conn \<times> 's) exec option" where
  "ipc_packet_analyze on_completed al c s =
     analyze_loop on_completed al (word_of_int (cn_recv_count c) + cn_recv_bufs_offset c) c s"

section \<open>Receiving: the connection\<close>

text \<open>What \<^verbatim>\<open>cplus_socket_recv\<close> delivers: bytes, the end of the stream, or an error.\<close>

datatype recv_outcome = Received "u8 list" | Closed | Failed recv_error

definition ipc_conn_proc ::
    "(packet \<Rightarrow> 's \<Rightarrow> 's exec) \<Rightarrow> alloc \<Rightarrow> conn \<Rightarrow> recv_outcome \<Rightarrow> 's \<Rightarrow>
     (conn \<times> 's) exec option" where
  "ipc_conn_proc completed al c outcome s =
     (if cn_status c = NOT_CONNECTED then Some (Inr (c, s))
      else
        (let c0 = (if cn_recv_bufs_size c \<le> cn_recv_bufs_offset c
                   then c\<lparr>cn_recv_bufs_offset := 0\<rparr> else c) in
         (case outcome of
            Closed \<Rightarrow> Some (Inr (c0\<lparr>cn_recv_count := 0,
              cn_notified := cn_notified c0 @ [On_disconnected], cn_sock := False,
              cn_status := NOT_CONNECTED\<rparr>, s))
          | Failed e \<Rightarrow> Some (Inr (c0\<lparr>cn_recv_count := - 1, cn_sock_error := Some e,
              cn_status := (case e of
                  Err_timedout \<Rightarrow> TIMEOUT | Err_notconn \<Rightarrow> NOT_CONNECTED
                | Err_intr \<Rightarrow> cn_status c0 | Err_other \<Rightarrow> FAULT),
              cn_notified := cn_notified c0 @ [On_error e]\<rparr>, s))
          | Received bs \<Rightarrow>
              (let off = unat (cn_recv_bufs_offset c0) in
               if length (cn_recv_bufs c0) < off + length bs then Some (Inl Out_of_bounds)
               else ipc_packet_analyze (Some completed) al
                 (c0\<lparr>cn_recv_count := int (length bs),
                     cn_recv_bufs := take off (cn_recv_bufs c0) @ bs
                       @ drop (off + length bs) (cn_recv_bufs c0),
                     cn_sock_error := None, cn_status := CONNECTED\<rparr>) s))))"

text \<open>The receiving side of a new connection; \<open>ev\<close> tells whether it is synchronous.\<close>

definition conn_init :: "bool \<Rightarrow> conn" where
  "conn_init async = \<lparr>cn_is_async = async, cn_status = NOT_CONNECTED, cn_sock = True,
     cn_sock_error = None, cn_stage = RECV_HEAD,
     cn_event = (if async then None else Some False),
     cn_packet = \<lparr>pk_seqn = 0, pk_cmd = 0, pk_data_len = 0, pk_data = None\<rparr>, cn_recv_count = 0,
     cn_recv_bufs = replicate 512 0, cn_recv_bufs_size = 512, cn_recv_bufs_offset = 0,
     cn_sub_offset = 0, cn_databufs = None, cn_databufs_size = 512, cn_databufs_offset = 0,
     cn_notified = []\<rparr>"

section \<open>Answering a completed packet\<close>

record responder =
  rs_response_data :: buf
  rs_response_data_size :: u32
  rs_sock :: sock

text \<open>
  \<^verbatim>\<open>on_received\<close> is the client's callback: from the length and the data of the packet, the
  capacity passed in and the response buffer, its result, the length it wants to answer, and
  the new contents of the buffer; \<open>'c\<close> is its own state.
\<close>

type_synonym 'c callback =
  "u32 \<Rightarrow> buf \<Rightarrow> u32 \<Rightarrow> u8 list \<Rightarrow> 'c \<Rightarrow> int \<times> u32 \<times> u8 list \<times> 'c"

text \<open>The response buffer is made on first use and cleared.\<close>

definition provide_response :: "alloc \<Rightarrow> responder \<Rightarrow> responder exec" where
  "provide_response al rs = (case rs_response_data rs of
     Some b \<Rightarrow> Inr rs
   | None \<Rightarrow> exec_bind (clear_buf (malloc_buf al (rs_response_data_size rs)) (rs_response_data_size rs))
       (\<lambda>b. Inr (rs\<lparr>rs_response_data := b\<rparr>)))"

text \<open>
  The calls of \<^verbatim>\<open>on_received\<close>: a second one, with a larger buffer, when the first asked for
  more room.  The result is the length to answer, or \<open>None\<close> for the early \<open>CPLUS_FAIL\<close>.
\<close>

definition call_received ::
    "'c callback \<Rightarrow> alloc \<Rightarrow> packet \<Rightarrow> responder \<Rightarrow> 'c \<Rightarrow> (u32 option \<times> int \<times> responder \<times> 'c) exec" where
  "call_received f al p rs cb = (case rs_response_data rs of
     None \<Rightarrow> Inr (None, CPLUS_FAIL, rs, cb)
   | Some room \<Rightarrow>
      (let (res, dataout_size, room1, cb1) =
             f (pk_data_len p) (pk_data p) (rs_response_data_size rs) room cb;
           rs1 = rs\<lparr>rs_response_data := Some room1\<rparr> in
       if res = CPLUS_FAIL then Inr (None, CPLUS_FAIL, rs1, cb1)
       else if rs_response_data_size rs1 < dataout_size then
         (case or_null (realloc_buf al (Some room1) dataout_size) of
            None \<Rightarrow> Inr (None, CPLUS_FAIL, rs1\<lparr>rs_response_data := None\<rparr>, cb1)
          | Some bigger \<Rightarrow> exec_bind (cplus_mem_set (Some bigger) 0 dataout_size) (\<lambda>r.
              let (res2, size2, room2, cb2) =
                f (pk_data_len p) (pk_data p) dataout_size (or_unchanged r bigger) cb1;
                rs2 = rs1\<lparr>rs_response_data := Some room2, rs_response_data_size := size2\<rparr> in
              if res2 = CPLUS_FAIL then Inr (None, CPLUS_FAIL, rs2, cb2)
              else Inr (Some dataout_size, res2, rs2, cb2)))
       else Inr (Some dataout_size, res, rs1, cb1)))"

definition send_on :: "responder \<Rightarrow> packet \<Rightarrow> int \<times> responder" where
  "send_on rs p = (case ipc_send_packet (rs_sock rs) p of
     (r, skt) \<Rightarrow> (case r of Inl e \<Rightarrow> CPLUS_FAIL | Inr n \<Rightarrow> n, rs\<lparr>rs_sock := skt\<rparr>))"

definition packet_analyze_completed ::
    "'c callback option \<Rightarrow> alloc \<Rightarrow> packet \<Rightarrow> responder \<Rightarrow> 'c \<Rightarrow> (int \<times> responder \<times> 'c) exec" where
  "packet_analyze_completed on_received al p rs cb =
     (if pk_cmd p = IPC_CMD_HEARTBEAT then
        (let (res, rs') = send_on rs
           \<lparr>pk_seqn = pk_seqn p, pk_cmd = IPC_CMD_ACK, pk_data_len = 0, pk_data = None\<rparr>
         in Inr (res, rs', cb))
      else if pk_cmd p = IPC_CMD_ONEWAY \<or> pk_cmd p = IPC_CMD_REQUEST \<or> pk_cmd p = IPC_CMD_RESPONSE then
        (case on_received of
           None \<Rightarrow> Inr (CPLUS_SUCCESS, rs, cb)
         | Some f \<Rightarrow> exec_bind (provide_response al rs) (\<lambda>rs0.
             exec_bind (call_received f al p rs0 cb) (\<lambda>(answer, res, rs1, cb1).
               case answer of
                 None \<Rightarrow> Inr (res, rs1, cb1)
               | Some dataout_size \<Rightarrow>
                   if pk_cmd p = IPC_CMD_REQUEST then
                     (if rs_response_data_size rs1 \<noteq> 0 then
                        (let (res', rs2) = send_on rs1 \<lparr>pk_seqn = pk_seqn p, pk_cmd = IPC_CMD_RESPONSE,
                           pk_data_len = dataout_size, pk_data = rs_response_data rs1\<rparr>
                         in Inr (res', rs2, cb1))
                      else Inr (res, rs1, cb1))
                   else if pk_cmd p = IPC_CMD_RESPONSE then
                     (let (res', rs2) = send_on rs1 \<lparr>pk_seqn = pk_seqn p, pk_cmd = IPC_CMD_ACK,
                        pk_data_len = 0, pk_data = None\<rparr>
                      in Inr (res', rs2, cb1))
                   else Inr (res, rs1, cb1))))
      else Inr (CPLUS_SUCCESS, rs, cb))"

text \<open>The callback \<^verbatim>\<open>on_completed\<close> of a connection: the stage machine drops its result.\<close>

definition conn_completed ::
    "'c callback option \<Rightarrow> alloc \<Rightarrow> packet \<Rightarrow> responder \<times> 'c \<Rightarrow> (responder \<times> 'c) exec" where
  "conn_completed on_received al p s =
     exec_bind (packet_analyze_completed on_received al p (fst s) (snd s))
       (\<lambda>(res, rs', cb'). Inr (rs', cb'))"

end
