(* ===== verification/Ipc_Lemmas.thy ===== *)
theory Ipc_Lemmas
  imports Ipc_Packet
begin

text \<open>
  The stage machine of \<^verbatim>\<open>src/ipc_server.c\<close> over one packet: each field of the wire format moves
  it across the bytes of that field.
\<close>

section \<open>The wire format\<close>

definition wire :: "u8 \<Rightarrow> u8 \<Rightarrow> u8 list \<Rightarrow> u8 list" where
  "wire q k d = [83, 84, 88, q, k] @ rev (le_bytes 4 (of_nat (length d) :: u32)) @ d @ [69, 84, 88]"

lemma length_wire [simp]: "length (wire q k d) = 12 + length d"
  by (simp add: wire_def)

lemma htonl_bytes: "le_bytes 4 (htonl n) = rev (le_bytes 4 n)"
  unfolding htonl_def by (rule le_bytes_word_of_le) simp_all

lemma cmd_range:
  fixes k :: u8
  assumes "k < IPC_CMD_MAX"
  shows "sint (ucast k :: u32) = uint k" "uint k \<le> 4"
proof -
  have k: "uint k < 5" using assms by (simp add: IPC_CMD_MAX_def word_less_def)
  then show "uint k \<le> 4" by simp
  have "signed_take_bit 31 (uint k) = uint k"
  proof (rule signed_take_bit_int_eq_self)
    have "(0::int) \<le> uint k" by simp
    then show "- (2 ^ 31) \<le> uint k" by (rule order_trans [rotated]) simp
    show "uint k < 2 ^ 31" by (rule less_trans [OF k]) simp
  qed
  moreover have "take_bit 32 (uint k) = uint k"
    by (rule take_bit_int_eq_self) (simp, rule less_trans [OF k], simp)
  ultimately show "sint (ucast k :: u32) = uint k"
    by (simp add: sint_uint unsigned_ucast_eq)
qed

text \<open>The pointer designates (at least) the data.\<close>

definition points_to :: "buf \<Rightarrow> u8 list \<Rightarrow> bool" where
  "points_to p d \<longleftrightarrow> (case p of None \<Rightarrow> d = [] | Some e \<Rightarrow> take (length d) e = d)"

lemma ipc_send_packet_wire:
  assumes "sk_results skt = []" "k < IPC_CMD_MAX" "length d < 2147483648" "points_to pd d"
  shows "ipc_send_packet skt
       \<lparr>pk_seqn = q, pk_cmd = k, pk_data_len = of_nat (length d), pk_data = pd\<rparr> =
     (Inr (int (length d)), skt\<lparr>sk_out := sk_out skt @ wire q k d\<rparr>)"
proof -
  note cmd = cmd_range [OF assms(2)]
  have send: "cplus_socket_send s bs = (int (length bs), s\<lparr>sk_out := sk_out s @ bs\<rparr>)"
    if "sk_results s = []" "bs \<noteq> []" "length bs < 2147483648" for s bs
    using that by (simp add: cplus_socket_send_def)
  have len: "unat (of_nat (length d) :: u32) = length d" "uint (of_nat (length d) :: u32) = int (length d)"
    using assms(3) by (simp_all add: uint_word_of_int_eq [of "int (length d)", simplified] take_bit_int_eq_self)
  have ne: "le_bytes 4 n \<noteq> []" for n :: u32
    by (metis length_le_bytes list.size(3) zero_neq_numeral)
  have pos: "0 < (of_nat (length d) :: u32) \<longleftrightarrow> d \<noteq> []"
    using len(1) by (simp add: word_less_nat_alt)
  have range: "\<not> sint (ucast k :: u32) < uint IPC_CMD_HEARTBEAT"
    "\<not> uint IPC_CMD_MAX - 1 < sint (ucast k :: u32)"
    using cmd by (simp_all add: IPC_CMD_HEARTBEAT_def IPC_CMD_MAX_def)
  have tags: "take 3 IPC_CONN_PACKET_BEGIN_TAG = [83, 84, 88]"
    "take 3 IPC_CONN_PACKET_END_TAG = [69, 84, 88]"
    by (simp_all add: IPC_CONN_PACKET_BEGIN_TAG_def IPC_CONN_PACKET_END_TAG_def)
  show ?thesis
  proof (cases pd)
    case None
    with assms(4) have "d = []" by (simp add: points_to_def)
    with None assms(1) range show ?thesis
      by (simp add: ipc_send_packet_def send tags htonl_bytes ne wire_def del: le_bytes.simps)
  next
    case (Some e)
    with assms(4) have e: "take (length d) e = d" by (simp add: points_to_def)
    with Some assms(1,3) range show ?thesis
      by (simp add: ipc_send_packet_def send tags htonl_bytes ne wire_def pos len del: le_bytes.simps)
  qed
qed

section \<open>Single steps of the loop\<close>

definition at :: "conn \<Rightarrow> nat \<Rightarrow> conn" where
  "at c n = c\<lparr>cn_recv_bufs_offset := of_nat n\<rparr>"

lemma at_simps [simp]:
  "cn_recv_bufs_offset (at c n) = of_nat n" "cn_stage (at c n) = cn_stage c"
  "cn_sub_offset (at c n) = cn_sub_offset c" "cn_recv_bufs (at c n) = cn_recv_bufs c"
  "cn_packet (at c n) = cn_packet c" "cn_event (at c n) = cn_event c"
  "cn_is_async (at c n) = cn_is_async c" "cn_databufs (at c n) = cn_databufs c"
  "cn_databufs_size (at c n) = cn_databufs_size c"
  "cn_databufs_offset (at c n) = cn_databufs_offset c"
  "cn_recv_bufs_size (at c n) = cn_recv_bufs_size c" "cn_recv_count (at c n) = cn_recv_count c"
  "cn_status (at c n) = cn_status c"
  "cn_sock_error (at c n) = cn_sock_error c"
  by (simp_all add: at_def)

lemma advance_at: "advance (at c n) = at c (Suc n)"
  by (simp add: advance_def at_def)

lemma at_updates:
  "(at c n)\<lparr>cn_stage := st\<rparr> = at (c\<lparr>cn_stage := st\<rparr>) n"
  "(at c n)\<lparr>cn_sub_offset := x\<rparr> = at (c\<lparr>cn_sub_offset := x\<rparr>) n"
  "(at c n)\<lparr>cn_event := e\<rparr> = at (c\<lparr>cn_event := e\<rparr>) n"
  "(at c n)\<lparr>cn_packet := p\<rparr> = at (c\<lparr>cn_packet := p\<rparr>) n"
  "(at c n)\<lparr>cn_databufs := b\<rparr> = at (c\<lparr>cn_databufs := b\<rparr>) n"
  "(at c n)\<lparr>cn_databufs_size := x\<rparr> = at (c\<lparr>cn_databufs_size := x\<rparr>) n"
  "(at c n)\<lparr>cn_databufs_offset := x\<rparr> = at (c\<lparr>cn_databufs_offset := x\<rparr>) n"
  "(at c n)\<lparr>cn_recv_bufs_offset := of_nat m\<rparr> = at c m"
  by (simp_all add: at_def)

lemma at_at [simp]: "at (at c n) m = at c m"
  by (simp add: at_def)

lemma loop_step:
  assumes "n < N" "N < 4294967296" "analyze_step f al (at c n) s = Inr (c', s')"
  shows "analyze_loop f al (of_nat N) (at c n) s = analyze_loop f al (of_nat N) c' s'"
proof -
  have "(of_nat n :: u32) < of_nat N"
    using assms(1,2) by (simp add: word_less_nat_alt)
  with assms(3) show ?thesis by (subst analyze_loop.simps) simp
qed

lemma loop_stop: "analyze_loop f al (of_nat N) (at c N) s = Some (Inr (at c N, s))"
  by (subst analyze_loop.simps) simp

lemma at_byte_at:
  "\<lbrakk>n < length (cn_recv_bufs c); n < 4294967296\<rbrakk> \<Longrightarrow> at_byte (at c n) k = k (cn_recv_bufs c ! n)"
  by (simp add: at_byte_def byte_at_def)

text \<open>The bytes from position \<open>n\<close> of the receive buffer, all of them received.\<close>

definition holds_at :: "conn \<Rightarrow> nat \<Rightarrow> u8 list \<Rightarrow> nat \<Rightarrow> bool" where
  "holds_at c n bs N \<longleftrightarrow> n + length bs \<le> N \<and> N \<le> length (cn_recv_bufs c) \<and>
     length (cn_recv_bufs c) < 4294967296 \<and> take (length bs) (drop n (cn_recv_bufs c)) = bs"

lemma holds_at_Cons:
  "holds_at c n (b # bs) N \<Longrightarrow> n < N \<and> N < 4294967296 \<and> n < length (cn_recv_bufs c) \<and>
     n < 4294967296 \<and> cn_recv_bufs c ! n = b \<and> holds_at c (Suc n) bs N"
proof -
  assume h: "holds_at c n (b # bs) N"
  then have n: "n < length (cn_recv_bufs c)" by (simp add: holds_at_def)
  from h have "take (Suc (length bs)) (drop n (cn_recv_bufs c)) = b # bs"
    by (simp add: holds_at_def del: take_Suc)
  moreover have "drop n (cn_recv_bufs c) = cn_recv_bufs c ! n # drop (Suc n) (cn_recv_bufs c)"
    using n by (rule Cons_nth_drop_Suc [symmetric])
  ultimately have "cn_recv_bufs c ! n = b" "take (length bs) (drop (Suc n) (cn_recv_bufs c)) = bs"
    by simp_all
  with h n show ?thesis by (simp add: holds_at_def)
qed

lemma tag_size:
  "\<not> IPC_CONN_PACKET_TAG_SIZE \<le> 1" "\<not> IPC_CONN_PACKET_TAG_SIZE \<le> 2"
  "IPC_CONN_PACKET_TAG_SIZE \<le> 3"
  by (simp_all add: IPC_CONN_PACKET_TAG_SIZE_def word_le_nat_alt)

lemmas step_simps = analyze_step_def at_byte_at byte_at_def tag_size Let_def at_updates advance_at

section \<open>The fields of a packet\<close>

lemma head_tag:
  assumes "holds_at c n [83, 84, 88] N" "cn_stage c = RECV_HEAD" "cn_sub_offset c = 0"
  shows "analyze_loop f al (of_nat N) (at c n) s = analyze_loop f al (of_nat N)
     (at (c\<lparr>cn_event := map_option (\<lambda>e. False) (cn_event c), cn_stage := RECV_SEQN,
       cn_sub_offset := 0\<rparr>) (n + 3)) s"
proof -
  note b0 = holds_at_Cons [OF assms(1)]
  from b0 have b1: "holds_at c (Suc n) [84, 88] N" by simp
  note b1' = holds_at_Cons [OF b1]
  from b1' have b2: "holds_at c (Suc (Suc n)) [88] N" by simp
  note b2' = holds_at_Cons [OF b2]
  let ?c1 = "c\<lparr>cn_sub_offset := 1\<rparr>" and ?c2 = "c\<lparr>cn_sub_offset := 2\<rparr>"
  let ?c3 = "c\<lparr>cn_event := map_option (\<lambda>e. False) (cn_event c), cn_stage := RECV_SEQN,
       cn_sub_offset := 0\<rparr>"
  have "analyze_loop f al (of_nat N) (at c n) s = analyze_loop f al (of_nat N) (at ?c1 (Suc n)) s"
    by (rule loop_step) (use assms(2,3) b0 in \<open>simp_all add: step_simps step_head_def
      IPC_CONN_PACKET_BEGIN_TAG_def\<close>)
  also have "\<dots> = analyze_loop f al (of_nat N) (at ?c2 (Suc (Suc n))) s"
    by (rule loop_step) (use assms(2,3) b1' in \<open>simp_all add: step_simps step_head_def
      IPC_CONN_PACKET_BEGIN_TAG_def\<close>)
  also have "\<dots> = analyze_loop f al (of_nat N) (at ?c3 (Suc (Suc (Suc n)))) s"
    by (rule loop_step) (use assms(2,3) b2' in \<open>simp_all add: step_simps step_head_def
      IPC_CONN_PACKET_BEGIN_TAG_def\<close>)
  finally show ?thesis by (simp add: numeral_3_eq_3)
qed

lemma seqn_cmd:
  assumes "holds_at c n [q, k] N" "cn_stage c = RECV_SEQN"
  shows "analyze_loop f al (of_nat N) (at c n) s = analyze_loop f al (of_nat N)
     (at (c\<lparr>cn_packet := (cn_packet c)\<lparr>pk_seqn := q, pk_cmd := k\<rparr>, cn_stage := RECV_DATA_LEN\<rparr>)
       (n + 2)) s"
proof -
  note b0 = holds_at_Cons [OF assms(1)]
  from b0 have b1: "holds_at c (Suc n) [k] N" by simp
  note b1' = holds_at_Cons [OF b1]
  let ?c1 = "c\<lparr>cn_packet := (cn_packet c)\<lparr>pk_seqn := q\<rparr>, cn_stage := RECV_CMD\<rparr>"
  let ?c2 = "c\<lparr>cn_packet := (cn_packet c)\<lparr>pk_seqn := q, pk_cmd := k\<rparr>, cn_stage := RECV_DATA_LEN\<rparr>"
  have "analyze_loop f al (of_nat N) (at c n) s = analyze_loop f al (of_nat N) (at ?c1 (Suc n)) s"
    by (rule loop_step) (use assms(2) b0 in \<open>simp_all add: step_simps step_seqn_def\<close>)
  also have "\<dots> = analyze_loop f al (of_nat N) (at ?c2 (Suc (Suc n))) s"
    by (rule loop_step) (use assms(2) b1' in \<open>simp_all add: step_simps step_cmd_def\<close>)
  finally show ?thesis by simp
qed

text \<open>Four bytes, the most significant first.\<close>

lemma be_word:
  fixes w :: u32
  assumes "rev (le_bytes 4 w) = [b0, b1, b2, b3]"
  shows "push_bit 8 (push_bit 8 (push_bit 8 (ucast b0) + ucast b1) + ucast b2) + ucast b3 = w"
proof -
  have "le_bytes 4 w = [b3, b2, b1, b0]"
    using arg_cong [OF assms, of rev] by simp
  then have "word_of_le [b3, b2, b1, b0] = w"
    using word_of_le_le_bytes [of 4 w] by (simp del: le_bytes.simps word_of_le.simps)
  moreover have or: "push_bit 8 x + ucast (b :: u8) = ucast b OR push_bit 8 x" for x :: u32 and b
  proof -
    have "push_bit 8 x AND ucast b = 0"
      by (rule bit_word_eqI) (auto simp: bit_simps dest: bit_imp_le_length)
    then show ?thesis by (simp add: disjunctive_add_eq_or or.commute)
  qed
  moreover have "word_of_le [b3, b2, b1, b0] =
      ucast b3 OR push_bit 8 (ucast b2 OR push_bit 8 (ucast b1 OR push_bit 8 (ucast b0 :: u32)))"
    by (simp only: word_of_le.simps push_bit_of_0 or.right_neutral)
  ultimately show ?thesis by (simp only: or)
qed

lemma len_sub:
  "\<not> (4::u32) \<le> 1" "\<not> (4::u32) \<le> 2" "\<not> (4::u32) \<le> 3" "(1::u32) < 4" "(2::u32) < 4" "(3::u32) < 4"
  by (simp_all add: word_le_nat_alt word_less_nat_alt)

lemma data_len:
  assumes "holds_at c n [b0, b1, b2, b3, x] N" "cn_stage c = RECV_DATA_LEN" "cn_sub_offset c = 0"
    and "rev (le_bytes 4 len) = [b0, b1, b2, b3]" "len \<le> MAX_PACKET_DATA_SIZE"
  shows "analyze_loop f al (of_nat N) (at c n) s = analyze_loop f al (of_nat N)
     (at (c\<lparr>cn_packet := (cn_packet c)\<lparr>pk_data_len := len\<rparr>, cn_sub_offset := 0,
       cn_stage := (if 0 < len then RECV_DATA else RECV_TAIL)\<rparr>) (n + 4)) s"
proof -
  note h0 = holds_at_Cons [OF assms(1)]
  from h0 have b1: "holds_at c (Suc n) [b1, b2, b3, x] N" by simp
  note h1 = holds_at_Cons [OF b1]
  from h1 have b2: "holds_at c (Suc (Suc n)) [b2, b3, x] N" by simp
  note h2 = holds_at_Cons [OF b2]
  from h2 have b3: "holds_at c (Suc (Suc (Suc n))) [b3, x] N" by simp
  note h3 = holds_at_Cons [OF b3]
  from h3 have b4: "holds_at c (Suc (Suc (Suc (Suc n)))) [x] N" by simp
  note h4 = holds_at_Cons [OF b4]
  let ?c = "\<lambda>l k. c\<lparr>cn_packet := (cn_packet c)\<lparr>pk_data_len := l\<rparr>, cn_sub_offset := k\<rparr>"
  let ?l1 = "ucast b0 :: u32"
  let ?l2 = "push_bit 8 ?l1 + ucast b1"
  let ?l3 = "push_bit 8 ?l2 + ucast b2"
  let ?l4 = "push_bit 8 ?l3 + ucast b3"
  note step = step_simps step_data_len_def len_sub
  have "analyze_loop f al (of_nat N) (at c n) s = analyze_loop f al (of_nat N) (at (?c ?l1 1) (Suc n)) s"
    by (rule loop_step) (use assms(2,3) h0 in \<open>simp_all add: step\<close>)
  also have "\<dots> = analyze_loop f al (of_nat N) (at (?c ?l2 2) (Suc (Suc n))) s"
    by (rule loop_step) (use assms(2) h1 in \<open>simp_all add: step\<close>)
  also have "\<dots> = analyze_loop f al (of_nat N) (at (?c ?l3 3) (Suc (Suc (Suc n)))) s"
    by (rule loop_step) (use assms(2) h2 in \<open>simp_all add: step\<close>)
  also have "\<dots> = analyze_loop f al (of_nat N) (at (?c ?l4 4) (Suc (Suc (Suc (Suc n))))) s"
    by (rule loop_step) (use assms(2) h3 in \<open>simp_all add: step\<close>)
  also have "?l4 = len" by (rule be_word [OF assms(4)])
  also have "analyze_loop f al (of_nat N) (at (?c len 4) (Suc (Suc (Suc (Suc n))))) s =
     analyze_loop f al (of_nat N) (at ((?c len 0)\<lparr>cn_stage := (if 0 < len then RECV_DATA else RECV_TAIL)\<rparr>)
       (Suc (Suc (Suc (Suc n))))) s"
    by (rule loop_step) (use assms(2,5) h4 in \<open>simp_all add: step not_less\<close>)
  finally show ?thesis by (simp add: numeral_eq_Suc)
qed

lemma tail_tag:
  assumes "holds_at c n [69, 84, 88] N" "cn_stage c = RECV_TAIL" "cn_sub_offset c = 0"
    and "f (cn_packet c) s = Inr s'" "\<not> cn_is_async c \<or> cn_event c = None"
  shows "analyze_loop (Some f) al (of_nat N) (at c n) s = analyze_loop (Some f) al (of_nat N)
     (at (c\<lparr>cn_stage := RECV_HEAD, cn_sub_offset := 0,
        cn_event := map_option (\<lambda>e. True) (cn_event c)\<rparr>) (n + 3)) s'"
proof -
  note b0 = holds_at_Cons [OF assms(1)]
  from b0 have b1: "holds_at c (Suc n) [84, 88] N" by simp
  note b1' = holds_at_Cons [OF b1]
  from b1' have b2: "holds_at c (Suc (Suc n)) [88] N" by simp
  note b2' = holds_at_Cons [OF b2]
  let ?c1 = "c\<lparr>cn_sub_offset := 1\<rparr>" and ?c2 = "c\<lparr>cn_sub_offset := 2\<rparr>"
  let ?c3 = "c\<lparr>cn_stage := RECV_HEAD, cn_sub_offset := 0,
        cn_event := map_option (\<lambda>e. True) (cn_event c)\<rparr>"
  have "analyze_loop (Some f) al (of_nat N) (at c n) s =
      analyze_loop (Some f) al (of_nat N) (at ?c1 (Suc n)) s"
    by (rule loop_step) (use assms(2,3) b0 in \<open>simp_all add: step_simps step_tail_def
      IPC_CONN_PACKET_END_TAG_def\<close>)
  also have "\<dots> = analyze_loop (Some f) al (of_nat N) (at ?c2 (Suc (Suc n))) s"
    by (rule loop_step) (use assms(2,3) b1' in \<open>simp_all add: step_simps step_tail_def
      IPC_CONN_PACKET_END_TAG_def\<close>)
  also have "\<dots> = analyze_loop (Some f) al (of_nat N) (at ?c3 (Suc (Suc (Suc n)))) s'"
    by (rule loop_step) (use assms(2,4,5) b2' in \<open>auto simp: step_simps step_tail_def
      IPC_CONN_PACKET_END_TAG_def drop_packet_def\<close>)
  finally show ?thesis by (simp add: numeral_3_eq_3)
qed

text \<open>The data buffer of a connection between packets.\<close>

definition databufs_ok :: "conn \<Rightarrow> bool" where
  "databufs_ok c \<longleftrightarrow> cn_databufs_offset c = 0 \<and>
     (\<forall>room. cn_databufs c = Some room \<longrightarrow> length room = unat (cn_databufs_size c))"

lemma clear_buf_Some:
  assumes "length room = unat n" "n \<le> RSIZE_MAX_MEM"
  obtains room' where "clear_buf (Some room) n = Inr (Some room')" "length room' = unat n"
proof -
  have "\<exists>room'. clear_buf (Some room) n = Inr (Some room') \<and> length room' = unat n"
    using assms by (auto simp: clear_buf_def cplus_mem_set_def write_obj_def not_less)
  then show ?thesis using that by blast
qed

lemma provide_databufs_room:
  assumes "databufs_ok c" "allocates al" "pk_data_len (cn_packet c) \<le> RSIZE_MAX_MEM"
    and "cn_databufs_size c \<le> RSIZE_MAX_MEM"
  obtains room sz where
    "provide_databufs al c = Inr (c\<lparr>cn_databufs := Some room, cn_databufs_size := sz\<rparr>)"
    "length room = unat sz" "pk_data_len (cn_packet c) \<le> sz" "sz \<le> RSIZE_MAX_MEM"
proof -
  let ?len = "pk_data_len (cn_packet c)"
  show ?thesis
  proof (cases "cn_databufs_size c < ?len")
    case True
    obtain fresh where fresh: "(case cn_databufs c of None \<Rightarrow> malloc_buf al ?len
        | Some old \<Rightarrow> or_null (realloc_buf al (Some old) ?len)) = Some fresh" "length fresh = unat ?len"
      by (cases "cn_databufs c") (auto elim: allocates_bufs [OF assms(2)] allocates_realloc [OF assms(2)])
    obtain room where room: "clear_buf (Some fresh) ?len = Inr (Some room)" "length room = unat ?len"
      by (rule clear_buf_Some [OF fresh(2) assms(3)])
    show ?thesis
      by (rule that [where room = room and sz = ?len]) (use True fresh room assms(3) in \<open>simp_all add: provide_databufs_def Let_def\<close>)
  next
    case False
    then have no: "(cn_databufs_size c < ?len) = False" and le: "?len \<le> cn_databufs_size c" by simp_all
    show ?thesis
    proof (cases "cn_databufs c")
      case None
      obtain fresh where fresh: "malloc_buf al (cn_databufs_size c) = Some fresh"
          "length fresh = unat (cn_databufs_size c)"
        by (rule allocates_bufs [OF assms(2)])
      obtain room where room: "clear_buf (Some fresh) (cn_databufs_size c) = Inr (Some room)"
          "length room = unat (cn_databufs_size c)"
        by (rule clear_buf_Some [OF fresh(2) assms(4)])
      show ?thesis
        by (rule that [where room = room and sz = "cn_databufs_size c"])
          (use False None fresh room assms(4) in \<open>simp_all add: provide_databufs_def Let_def no le\<close>)
    next
      case (Some room)
      show ?thesis
        by (rule that [where room = room and sz = "cn_databufs_size c"])
          (use False Some assms(1,4) in \<open>simp_all add: provide_databufs_def Let_def no le databufs_ok_def\<close>)
    qed
  qed
qed

text \<open>
  Data that fits the rest of the receive buffer is copied in one step, whatever the number \<open>N\<close>
  of bytes received.
\<close>

lemma data_field:
  assumes "n < N" "N \<le> 512" "n + length d \<le> 512" "take (length d) (drop n (cn_recv_bufs c)) = d"
    and "cn_stage c = RECV_DATA" "d \<noteq> []" "databufs_ok c" "allocates al"
    and len: "pk_data_len (cn_packet c) = of_nat (length d)"
    and size: "cn_databufs_size c \<le> RSIZE_MAX_MEM" "cn_recv_bufs_size c = 512"
      "length (cn_recv_bufs c) = 512"
  obtains room sz where "analyze_loop f al (of_nat N) (at c n) s = analyze_loop f al (of_nat N)
     (at (c\<lparr>cn_databufs := Some room, cn_databufs_size := sz,
        cn_packet := (cn_packet c)\<lparr>pk_data := Some room\<rparr>, cn_stage := RECV_TAIL\<rparr>) (n + length d)) s"
    "length room = unat sz" "take (length d) room = d" "sz \<le> RSIZE_MAX_MEM"
proof -
  note n = assms(1-4)
  have small: "length d < 4294967296" "length d \<le> 268435456" using n by simp_all
  have ulen: "unat (pk_data_len (cn_packet c)) = length d" using len small by simp
  have "pk_data_len (cn_packet (at c n)) \<le> RSIZE_MAX_MEM"
    using ulen small by (simp add: word_le_nat_alt RSIZE_MAX_MEM_def)
  moreover have "databufs_ok (at c n)" using assms(7) by (simp add: databufs_ok_def)
  moreover have "cn_databufs_size (at c n) \<le> RSIZE_MAX_MEM" using size by simp
  ultimately obtain room sz where room:
    "provide_databufs al (at c n) = Inr ((at c n)\<lparr>cn_databufs := Some room, cn_databufs_size := sz\<rparr>)"
    "length room = unat sz" "pk_data_len (cn_packet c) \<le> sz" "sz \<le> RSIZE_MAX_MEM"
    using assms(8) by (elim provide_databufs_room) simp_all
  have fits: "length d \<le> length room"
    using room(2,3) ulen by (simp add: word_le_nat_alt)
  have off: "cn_databufs_offset c = 0" using assms(7) by (simp add: databufs_ok_def)
  have uleft: "unat (512 - of_nat n :: u32) = 512 - n"
  proof -
    have "(of_nat n :: u32) \<le> 512" using n by (simp add: word_le_nat_alt)
    then show ?thesis using n by (simp add: unat_sub)
  qed
  have diff: "(if (of_nat (length d) :: u32) < 512 - of_nat n then of_nat (length d) else 512 - of_nat n)
      = (of_nat (length d) :: u32)"
  proof (cases "(of_nat (length d) :: u32) < 512 - of_nat n")
    case False
    then have "length d = 512 - n" using uleft n by (simp add: word_less_nat_alt)
    then have "(512 - of_nat n :: u32) = of_nat (length d)"
      using uleft small by (simp add: word_unat_eq_iff)
    then show ?thesis by simp
  qed simp
  let ?room = "d @ drop (length d) room"
  have nz: "(of_nat (length d) :: u32) \<noteq> 0" using small(1) assms(6) by (simp add: word_unat_eq_iff)
  have room_left: "length d \<le> 512 - n" using n by simp
  have copy: "cplus_mem_cpy_ex (Some room) (of_nat (length d))
      (Some (drop n (cn_recv_bufs c))) (of_nat (length d)) = Inr (Inr ?room)"
    using small size n fits nz room_left
    by (simp add: cplus_mem_cpy_ex_def read_obj_def write_obj_def RSIZE_MAX_MEM_def word_le_nat_alt
      word_less_nat_alt not_less)
  have "analyze_step f al (at c n) s = Inr (at (c\<lparr>cn_databufs := Some ?room, cn_databufs_size := sz,
        cn_packet := (cn_packet c)\<lparr>pk_data := Some ?room\<rparr>, cn_stage := RECV_TAIL\<rparr>) (n + length d), s)"
    using room(1) off assms(5) size n small
    by (simp add: analyze_step_def step_data_def Let_def diff copy len at_def cong: if_cong flip: of_nat_add)
  then have "analyze_loop f al (of_nat N) (at c n) s = analyze_loop f al (of_nat N)
     (at (c\<lparr>cn_databufs := Some ?room, cn_databufs_size := sz,
        cn_packet := (cn_packet c)\<lparr>pk_data := Some ?room\<rparr>, cn_stage := RECV_TAIL\<rparr>) (n + length d)) s"
    by (intro loop_step) (use n in simp_all)
  moreover have "length ?room = unat sz" "take (length d) ?room = d" using fits room(2) by simp_all
  ultimately show ?thesis using room(4) by (rule that)
qed

section \<open>Whole packets\<close>

text \<open>A connection between two packets.\<close>

definition ready :: "conn \<Rightarrow> bool" where
  "ready c \<longleftrightarrow> cn_stage c = RECV_HEAD \<and> cn_sub_offset c = 0 \<and> databufs_ok c \<and>
     cn_databufs_size c \<le> RSIZE_MAX_MEM \<and> cn_recv_bufs_size c = 512 \<and>
     length (cn_recv_bufs c) = 512 \<and> (\<not> cn_is_async c \<or> cn_event c = None)"

text \<open>A message is a sequence number, a command and data; a packet carries it.\<close>

type_synonym msg = "u8 \<times> u8 \<times> u8 list"

definition carries :: "packet \<Rightarrow> msg \<Rightarrow> bool" where
  "carries p m \<longleftrightarrow> (case m of (q, k, d) \<Rightarrow> pk_seqn p = q \<and> pk_cmd p = k \<and>
     pk_data_len p = of_nat (length d) \<and> length d \<le> 512 \<and> points_to (pk_data p) d)"

definition wire_of :: "msg \<Rightarrow> u8 list" where
  "wire_of m = (case m of (q, k, d) \<Rightarrow> wire q k d)"

text \<open>How a connection changes over the messages it has delivered.\<close>

definition delivered :: "conn \<Rightarrow> msg list \<Rightarrow> conn \<Rightarrow> bool" where
  "delivered c ms c' \<longleftrightarrow> ready c' \<and> cn_recv_bufs c' = cn_recv_bufs c \<and>
     cn_status c' = cn_status c \<and> cn_sock_error c' = cn_sock_error c \<and>
     cn_recv_count c' = cn_recv_count c \<and> cn_is_async c' = cn_is_async c \<and>
     (if ms = [] then cn_packet c' = cn_packet c \<and> cn_event c' = cn_event c
      else carries (cn_packet c') (last ms) \<and> cn_event c' = map_option (\<lambda>e. True) (cn_event c))"

lemma delivered_Cons:
  "\<lbrakk>delivered c [m] c'; delivered c' ms c''\<rbrakk> \<Longrightarrow> delivered c (m # ms) c''"
  by (auto simp: delivered_def option.map_comp o_def)

abbreviation stream :: "msg list \<Rightarrow> u8 list" where
  "stream ms \<equiv> concat (map wire_of ms)"

lemma holds_at_append:
  "holds_at c n (xs @ ys) N \<Longrightarrow> holds_at c n xs N \<and> holds_at c (n + length xs) ys N"
proof -
  assume h: "holds_at c n (xs @ ys) N"
  let ?r = "drop n (cn_recv_bufs c)"
  have both: "take (length xs + length ys) ?r = xs @ ys" using h by (simp add: holds_at_def)
  have "take (length xs) ?r = xs"
    using arg_cong [OF both, of "take (length xs)"] by simp
  moreover have "take (length ys) (drop (length xs) ?r) = ys"
    using arg_cong [OF both, of "drop (length xs)"] by (simp add: drop_take)
  ultimately show ?thesis using h by (simp add: holds_at_def add.commute)
qed

lemma holds_at_cong: "cn_recv_bufs c' = cn_recv_bufs c \<Longrightarrow> holds_at c' n bs N = holds_at c n bs N"
  by (simp add: holds_at_def)

text \<open>
  What the stage machine asks of \<open>on_completed\<close>: on a packet that carries a valid message it
  returns, keeps its invariant, and acts on the abstraction of its state as \<open>g\<close> says.
\<close>

locale packet_handler =
  fixes f :: "packet \<Rightarrow> 's \<Rightarrow> 's exec"
    and inv :: "'s \<Rightarrow> bool"
    and valid :: "msg \<Rightarrow> bool"
    and view :: "'s \<Rightarrow> 'a"
    and g :: "msg \<Rightarrow> 'a \<Rightarrow> 'a"
  assumes handles: "\<lbrakk>carries p m; valid m; inv s\<rbrakk> \<Longrightarrow>
    \<exists>s'. f p s = Inr s' \<and> inv s' \<and> view s' = g m (view s)"
begin

lemma one_packet:
  assumes "ready c" "allocates al" "holds_at c n (wire q k d) N" "inv s" "valid (q, k, d)"
  obtains c' s' where "analyze_loop (Some f) al (of_nat N) (at c n) s =
      analyze_loop (Some f) al (of_nat N) (at c' (n + length (wire q k d))) s'"
    "inv s'" "view s' = g (q, k, d) (view s)" "delivered c [(q, k, d)] c'"
proof -
  let ?len = "of_nat (length d) :: u32"
  let ?run = "analyze_loop (Some f) al (of_nat N)"
  obtain b0 b1 b2 b3 where be: "rev (le_bytes 4 ?len) = [b0, b1, b2, b3]"
    by (simp add: numeral_eq_Suc)
  have w: "wire q k d = [83, 84, 88] @ [q, k] @ [b0, b1, b2, b3] @ d @ [69, 84, 88]"
    by (simp add: wire_def be)
  note a = holds_at_append [OF assms(3) [unfolded w]]
  note b = holds_at_append [OF conjunct2 [OF a]]
  note e = holds_at_append [OF conjunct2 [OF b]]
  note l = holds_at_append [OF conjunct2 [OF e]]
  have h1: "holds_at c n [83, 84, 88] N" and h2: "holds_at c (n + 3) [q, k] N"
    and h3: "holds_at c (n + 5) ([b0, b1, b2, b3] @ d @ [69, 84, 88]) N"
    and h4: "holds_at c (n + 9) d N" and h5: "holds_at c (n + 9 + length d) [69, 84, 88] N"
    using a b e l by (simp_all add: numeral_eq_Suc)
  obtain x r where "d @ [69, 84, 88] = x # r" by (cases d) auto
  with h3 have "holds_at c (n + 5) ([b0, b1, b2, b3, x] @ r) N" by simp
  then have h3': "holds_at c (n + 5) [b0, b1, b2, b3, x] N" using holds_at_append by blast
  have cfg: "cn_stage c = RECV_HEAD" "cn_sub_offset c = 0" "databufs_ok c"
    "cn_databufs_size c \<le> RSIZE_MAX_MEM" "cn_recv_bufs_size c = 512"
    "length (cn_recv_bufs c) = 512" "\<not> cn_is_async c \<or> cn_event c = None"
    using assms(1) by (simp_all add: ready_def)
  have ld: "length d \<le> 512" using h4 cfg(6) by (simp add: holds_at_def)
  then have ulen: "unat ?len = length d" by simp
  have max: "?len \<le> MAX_PACKET_DATA_SIZE" using ulen ld by (simp add: word_le_nat_alt MAX_PACKET_DATA_SIZE_def)
  have pos: "0 < ?len \<longleftrightarrow> d \<noteq> []" using ulen by (simp add: word_less_nat_alt)
  let ?c1 = "c\<lparr>cn_event := map_option (\<lambda>e. False) (cn_event c), cn_stage := RECV_SEQN, cn_sub_offset := 0\<rparr>"
  let ?c2 = "?c1\<lparr>cn_packet := (cn_packet ?c1)\<lparr>pk_seqn := q, pk_cmd := k\<rparr>, cn_stage := RECV_DATA_LEN\<rparr>"
  let ?c3 = "?c2\<lparr>cn_packet := (cn_packet ?c2)\<lparr>pk_data_len := ?len\<rparr>, cn_sub_offset := 0,
       cn_stage := (if 0 < ?len then RECV_DATA else RECV_TAIL)\<rparr>"
  have "?run (at c n) s = ?run (at ?c1 (n + 3)) s"
    by (rule head_tag [OF h1 cfg(1,2)])
  also have "\<dots> = ?run (at ?c2 (n + 3 + 2)) s"
    by (rule seqn_cmd) (use h2 in \<open>simp_all add: holds_at_def\<close>)
  also have "\<dots> = ?run (at ?c2 (n + 5)) s" by (simp add: numeral_eq_Suc)
  also have "\<dots> = ?run (at ?c3 (n + 5 + 4)) s"
    by (rule data_len [OF _ _ _ be max]) (use h3' in \<open>simp_all add: holds_at_def\<close>)
  also have "\<dots> = ?run (at ?c3 (n + 9)) s" by (simp add: numeral_eq_Suc)
  finally have head: "?run (at c n) s = ?run (at ?c3 (n + 9)) s" .
  obtain c4 where c4: "?run (at ?c3 (n + 9)) s = ?run (at c4 (n + 9 + length d)) s"
    "cn_stage c4 = RECV_TAIL" "cn_sub_offset c4 = 0" "carries (cn_packet c4) (q, k, d)"
    "databufs_ok c4" "cn_databufs_size c4 \<le> RSIZE_MAX_MEM" "cn_recv_bufs_size c4 = 512"
    "cn_recv_bufs c4 = cn_recv_bufs c" "\<not> cn_is_async c4 \<or> cn_event c4 = None"
    "cn_status c4 = cn_status c" "cn_sock_error c4 = cn_sock_error c"
    "cn_recv_count c4 = cn_recv_count c" "cn_is_async c4 = cn_is_async c"
    "map_option (\<lambda>e. True) (cn_event c4) = map_option (\<lambda>e. True) (cn_event c)"
  proof (cases "d = []")
    case True
    show ?thesis
      by (rule that [of ?c3]) (use True cfg in \<open>auto simp: carries_def points_to_def databufs_ok_def option.map_comp o_def split: option.splits\<close>)
  next
    case False
    have g4: "n + 9 < N" "N \<le> 512" "n + 9 + length d \<le> 512" "take (length d) (drop (n + 9) (cn_recv_bufs ?c3)) = d"
      using h4 h5 cfg(6) by (simp_all add: holds_at_def)
    have ok: "databufs_ok ?c3" using cfg(3) by (simp add: databufs_ok_def)
    obtain room sz where d: "?run (at ?c3 (n + 9)) s = ?run (at (?c3\<lparr>cn_databufs := Some room,
        cn_databufs_size := sz, cn_packet := (cn_packet ?c3)\<lparr>pk_data := Some room\<rparr>,
        cn_stage := RECV_TAIL\<rparr>) (n + 9 + length d)) s"
      "length room = unat sz" "take (length d) room = d" "sz \<le> RSIZE_MAX_MEM"
      by (rule data_field [OF g4 _ False ok assms(2)]) (use False pos cfg in simp_all)
    show ?thesis
      by (rule that [OF d(1)]) (use d ld cfg in \<open>auto simp: carries_def points_to_def databufs_ok_def option.map_comp o_def\<close>)
  qed
  obtain s' where s': "f (cn_packet c4) s = Inr s'" "inv s'" "view s' = g (q, k, d) (view s)"
    using handles [OF c4(4) assms(5,4)] by blast
  have "?run (at c4 (n + 9 + length d)) s = ?run (at (c4\<lparr>cn_stage := RECV_HEAD, cn_sub_offset := 0,
        cn_event := map_option (\<lambda>e. True) (cn_event c4)\<rparr>) (n + 9 + length d + 3)) s'"
    by (rule tail_tag) (use h5 c4 s' in \<open>simp_all add: holds_at_def\<close>)
  moreover have "n + 9 + length d + 3 = n + length (wire q k d)" by simp
  moreover have "delivered c [(q, k, d)] (c4\<lparr>cn_stage := RECV_HEAD, cn_sub_offset := 0,
        cn_event := map_option (\<lambda>e. True) (cn_event c4)\<rparr>)"
    using c4 cfg(6,7) by (simp add: delivered_def ready_def databufs_ok_def)
  ultimately show ?thesis
    using that [of "c4\<lparr>cn_stage := RECV_HEAD, cn_sub_offset := 0,
        cn_event := map_option (\<lambda>e. True) (cn_event c4)\<rparr>" s'] head c4 s' by simp
qed

lemma many_packets:
  assumes "ready c" "allocates al" "holds_at c n (stream ms) N" "n + length (stream ms) = N"
    and "inv s" "\<forall>m \<in> set ms. valid m"
  obtains c' s' where "analyze_loop (Some f) al (of_nat N) (at c n) s = Some (Inr (at c' N, s'))"
    "inv s'" "view s' = fold g ms (view s)" "delivered c ms c'"
  using assms
proof (induction ms arbitrary: c n s thesis)
  case Nil
  then show ?case by (simp add: loop_stop delivered_def)
next
  case (Cons m ms)
  obtain q k d where m: "m = (q, k, d)" by (cases m) auto
  then have w: "wire_of m = wire q k d" by (simp add: wire_of_def)
  have h: "holds_at c n (wire q k d @ stream ms) N"
    using Cons.prems(4) by (simp add: w)
  note both = holds_at_append [OF h]
  have valid: "valid (q, k, d)" using Cons.prems(7) by (simp add: m)
  obtain c' s' where c': "analyze_loop (Some f) al (of_nat N) (at c n) s =
      analyze_loop (Some f) al (of_nat N) (at c' (n + length (wire q k d))) s'"
    "inv s'" "view s' = g (q, k, d) (view s)" "delivered c [(q, k, d)] c'"
    by (rule one_packet [OF Cons.prems(2,3) conjunct1 [OF both] Cons.prems(6) valid])
  have "ready c'" "cn_recv_bufs c' = cn_recv_bufs c" using c'(4) by (simp_all add: delivered_def)
  moreover from this have "holds_at c' (n + length (wire q k d)) (stream ms) N"
    using both holds_at_cong [of c' c] by simp
  moreover have "n + length (wire q k d) + length (stream ms) = N"
    using Cons.prems(5) by (simp add: w)
  moreover have "\<forall>m \<in> set ms. valid m" using Cons.prems(7) by simp
  ultimately obtain c'' s'' where "analyze_loop (Some f) al (of_nat N)
      (at c' (n + length (wire q k d))) s' = Some (Inr (at c'' N, s''))"
    "inv s''" "view s'' = fold g ms (view s')" "delivered c' ms c''"
    using Cons.IH [OF _ _ Cons.prems(3) _ _ c'(2)] by blast
  with c' delivered_Cons [OF c'(4)] show ?case
    by (intro Cons.prems(1) [of c'' s'']) (simp_all add: m)
qed

text \<open>One call of the connection on what a peer has sent.\<close>

lemma proc_packets:
  assumes "ready c" "allocates al" "cn_status c \<noteq> NOT_CONNECTED"
    and off: "off = (if 512 \<le> cn_recv_bufs_offset c then 0 else unat (cn_recv_bufs_offset c))"
    and "off + length (stream ms) \<le> 512" "inv s" "\<forall>m \<in> set ms. valid m"
  obtains c' s' where "ipc_conn_proc f al c (Received (stream ms)) s = Some (Inr (c', s'))"
    "inv s'" "view s' = fold g ms (view s)" "ready c'" "cn_status c' = CONNECTED"
    "cn_sock_error c' = None" "cn_recv_count c' = int (length (stream ms))"
    "unat (cn_recv_bufs_offset c') = off + length (stream ms)"
    "ms \<noteq> [] \<Longrightarrow> carries (cn_packet c') (last ms) \<and> cn_event c' = map_option (\<lambda>e. True) (cn_event c)"
proof -
  have cfg: "cn_recv_bufs_size c = 512" "length (cn_recv_bufs c) = 512"
    using assms(1) by (simp_all add: ready_def)
  let ?bs = "stream ms"
  let ?N = "off + length ?bs"
  let ?c1 = "c\<lparr>cn_recv_count := int (length ?bs),
      cn_recv_bufs := take off (cn_recv_bufs c) @ ?bs @ drop ?N (cn_recv_bufs c),
      cn_sock_error := None, cn_status := CONNECTED\<rparr>"
  have off512: "off < 512" using off by (auto simp: word_le_nat_alt)
  have start: "(if 512 \<le> cn_recv_bufs_offset c then c\<lparr>cn_recv_bufs_offset := 0\<rparr> else c) = at c off"
    using off by (auto simp: at_def)
  have filled: "(at c off)\<lparr>cn_recv_count := int (length ?bs),
      cn_recv_bufs := take off (cn_recv_bufs c) @ ?bs @ drop ?N (cn_recv_bufs c),
      cn_sock_error := None, cn_status := CONNECTED\<rparr> = at ?c1 off"
    by (simp add: at_def)
  have uoff: "unat (cn_recv_bufs_offset (at c off)) = off" using off512 by simp
  have "ready ?c1" using assms(1,5) off512 by (simp add: ready_def databufs_ok_def)
  moreover have "holds_at ?c1 off ?bs ?N" using assms(5) off512 cfg by (simp add: holds_at_def)
  ultimately obtain c' s' where c':
    "analyze_loop (Some f) al (of_nat ?N) (at ?c1 off) s = Some (Inr (at c' ?N, s'))"
    "inv s'" "view s' = fold g ms (view s)" "delivered ?c1 ms c'"
    by (rule many_packets [OF _ assms(2) _ refl assms(6,7)]) (simp_all add: that)
  have run: "ipc_conn_proc f al c (Received ?bs) s = Some (Inr (at c' ?N, s'))"
    using assms(3,5) cfg c'(1) uoff
    by (simp add: ipc_conn_proc_def start Let_def ipc_packet_analyze_def filled add.commute)
  have "unat (of_nat ?N :: u32) = ?N" using assms(5) by (intro unat_of_nat_u32) simp
  then have offset: "unat (cn_recv_bufs_offset (at c' ?N)) = ?N" by (simp only: at_simps)
  show ?thesis
    by (rule that [OF run c'(2,3) _ _ _ _ offset])
      (use c'(4) cfg off512 assms(5) in \<open>simp_all add: delivered_def ready_def databufs_ok_def\<close>)
qed

end

end
