(* ===== verification/Ipc_Answer.thy ===== *)
theory Ipc_Answer
  imports Ipc_Lemmas
begin

text \<open>
  What a server answers: \<^verbatim>\<open>packet_analyze_completed\<close> with a callback that computes a response
  from the data, as a handler of the stage machine.
\<close>

text \<open>
  A callback that honours the contract of \<^verbatim>\<open>on_received\<close>: when its answer does not fit it
  only reports the length it needs.  It keeps a list of the data it has answered.
\<close>

definition answering :: "(u8 list \<Rightarrow> u8 list) \<Rightarrow> u8 list list callback" where
  "answering h data_len data cap room log =
     (let d = take (unat data_len) (case data of None \<Rightarrow> [] | Some e \<Rightarrow> e); a = h d in
      if unat cap < length a then (CPLUS_SUCCESS, of_nat (length a), room, log)
      else (CPLUS_SUCCESS, of_nat (length a), a @ drop (length a) room, log @ [d]))"

definition reply :: "(u8 list \<Rightarrow> u8 list) \<Rightarrow> msg \<Rightarrow> u8 list" where
  "reply h m = (case m of (q, k, d) \<Rightarrow>
     if k = IPC_CMD_HEARTBEAT then wire q IPC_CMD_ACK []
     else if k = IPC_CMD_REQUEST then wire q IPC_CMD_RESPONSE (h d)
     else if k = IPC_CMD_RESPONSE then wire q IPC_CMD_ACK [] else [])"

definition received :: "msg \<Rightarrow> u8 list list" where
  "received m = (case m of (q, k, d) \<Rightarrow>
     if k = IPC_CMD_ONEWAY \<or> k = IPC_CMD_REQUEST \<or> k = IPC_CMD_RESPONSE then [d] else [])"

definition served :: "(u8 list \<Rightarrow> u8 list) \<Rightarrow> msg \<Rightarrow> u8 list \<times> u8 list list \<Rightarrow> u8 list \<times> u8 list list" where
  "served h m v = (fst v @ reply h m, snd v @ received m)"

definition served_view :: "responder \<times> u8 list list \<Rightarrow> u8 list \<times> u8 list list" where
  "served_view s = (sk_out (rs_sock (fst s)), snd s)"

definition responder_ok :: "responder \<Rightarrow> bool" where
  "responder_ok rs \<longleftrightarrow> sk_results (rs_sock rs) = [] \<and> 0 < rs_response_data_size rs \<and>
     rs_response_data_size rs \<le> RSIZE_MAX_MEM \<and>
     (\<forall>room. rs_response_data rs = Some room \<longrightarrow> length room = unat (rs_response_data_size rs))"

definition answerable :: "(u8 list \<Rightarrow> u8 list) \<Rightarrow> msg \<Rightarrow> bool" where
  "answerable h m \<longleftrightarrow> (\<forall>d \<in> set (received m). length (h d) \<le> 268435456)"

lemma cmds:
  "IPC_CMD_HEARTBEAT < IPC_CMD_MAX" "IPC_CMD_ONEWAY < IPC_CMD_MAX" "IPC_CMD_REQUEST < IPC_CMD_MAX"
  "IPC_CMD_RESPONSE < IPC_CMD_MAX" "IPC_CMD_ACK < IPC_CMD_MAX"
  "IPC_CMD_ONEWAY \<noteq> IPC_CMD_HEARTBEAT" "IPC_CMD_REQUEST \<noteq> IPC_CMD_HEARTBEAT"
  "IPC_CMD_RESPONSE \<noteq> IPC_CMD_HEARTBEAT" "IPC_CMD_ACK \<noteq> IPC_CMD_HEARTBEAT"
  "IPC_CMD_REQUEST \<noteq> IPC_CMD_ONEWAY" "IPC_CMD_RESPONSE \<noteq> IPC_CMD_ONEWAY"
  "IPC_CMD_ACK \<noteq> IPC_CMD_ONEWAY" "IPC_CMD_RESPONSE \<noteq> IPC_CMD_REQUEST"
  "IPC_CMD_ACK \<noteq> IPC_CMD_REQUEST" "IPC_CMD_ACK \<noteq> IPC_CMD_RESPONSE"
  by (simp_all add: IPC_CMD_HEARTBEAT_def IPC_CMD_ONEWAY_def IPC_CMD_REQUEST_def
    IPC_CMD_RESPONSE_def IPC_CMD_ACK_def IPC_CMD_MAX_def word_less_nat_alt)

lemma send_on_wire:
  assumes "sk_results (rs_sock rs) = []" "k < IPC_CMD_MAX" "length d < 2147483648" "points_to pd d"
  shows "send_on rs \<lparr>pk_seqn = q, pk_cmd = k, pk_data_len = of_nat (length d), pk_data = pd\<rparr> =
    (int (length d), rs\<lparr>rs_sock := (rs_sock rs)\<lparr>sk_out := sk_out (rs_sock rs) @ wire q k d\<rparr>\<rparr>)"
  using ipc_send_packet_wire [OF assms] by (simp add: send_on_def)

lemma send_on_ack:
  assumes "sk_results (rs_sock rs) = []"
  shows "send_on rs \<lparr>pk_seqn = q, pk_cmd = IPC_CMD_ACK, pk_data_len = 0, pk_data = None\<rparr> =
    (0, rs\<lparr>rs_sock := (rs_sock rs)\<lparr>sk_out := sk_out (rs_sock rs) @ wire q IPC_CMD_ACK []\<rparr>\<rparr>)"
  using send_on_wire [OF assms, of IPC_CMD_ACK "[]" None q] by (simp add: cmds points_to_def)

lemma provide_response_ok:
  assumes "responder_ok rs" "allocates al"
  obtains room where "provide_response al rs = Inr (rs\<lparr>rs_response_data := Some room\<rparr>)"
    "length room = unat (rs_response_data_size rs)"
proof (cases "rs_response_data rs")
  case None
  obtain fresh where fresh: "malloc_buf al (rs_response_data_size rs) = Some fresh"
      "length fresh = unat (rs_response_data_size rs)"
    by (rule allocates_bufs [OF assms(2)])
  obtain room where "clear_buf (Some fresh) (rs_response_data_size rs) = Inr (Some room)"
      "length room = unat (rs_response_data_size rs)"
    by (rule clear_buf_Some [OF fresh(2)]) (use assms(1) in \<open>simp_all add: responder_ok_def\<close>)
  with None fresh(1) show ?thesis by (intro that) (simp_all add: provide_response_def)
next
  case (Some room)
  with assms(1) show ?thesis
    by (intro that [of room]) (simp_all add: provide_response_def responder_ok_def)
qed

lemma carried_data:
  "carries p (q, k, d) \<Longrightarrow>
     take (unat (pk_data_len p)) (case pk_data p of None \<Rightarrow> [] | Some e \<Rightarrow> e) = d"
  by (auto simp: carries_def points_to_def split: option.splits)

text \<open>Both calls of the callback together, whatever room there was.\<close>

lemma call_received_answer:
  assumes "responder_ok rs" "rs_response_data rs = Some room" "allocates al" "carries p (q, k, d)"
    and "length (h d) \<le> 268435456"
  obtains room' sz where "call_received (answering h) al p rs log = Inr (Some (of_nat (length (h d))),
      CPLUS_SUCCESS, rs\<lparr>rs_response_data := Some room', rs_response_data_size := sz\<rparr>, log @ [d])"
    "take (length (h d)) room' = h d" "length room' = unat sz" "0 < sz" "sz \<le> RSIZE_MAX_MEM"
proof -
  let ?a = "h d" and ?sz = "rs_response_data_size rs"
  let ?n = "of_nat (length ?a) :: u32"
  have ok: "sk_results (rs_sock rs) = []" "0 < ?sz" "?sz \<le> RSIZE_MAX_MEM" "length room = unat ?sz"
    using assms(1,2) by (simp_all add: responder_ok_def)
  have un: "unat ?n = length ?a" using assms(5) by simp
  have success: "CPLUS_SUCCESS \<noteq> CPLUS_FAIL" by (simp add: CPLUS_SUCCESS_def CPLUS_FAIL_def)
  note d = carried_data [OF assms(4)]
  show ?thesis
  proof (cases "unat ?sz < length ?a")
    case True
    then have bigger: "?sz < ?n" using un by (simp add: word_less_nat_alt)
    obtain grown where grown: "or_null (realloc_buf al (Some room) ?n) = Some grown"
        "length grown = unat ?n"
      by (rule allocates_realloc [OF assms(3)])
    have pos: "?n \<noteq> 0" using bigger by auto
    have max: "?n \<le> RSIZE_MAX_MEM" using un assms(5) by (simp add: word_le_nat_alt RSIZE_MAX_MEM_def)
    have cleared: "cplus_mem_set (Some grown) 0 ?n = Inr (Inr (replicate (length ?a) 0))"
      using pos max grown(2) un by (simp add: cplus_mem_set_def write_obj_def not_less)
    have "call_received (answering h) al p rs log = Inr (Some ?n, CPLUS_SUCCESS,
        rs\<lparr>rs_response_data := Some ?a, rs_response_data_size := ?n\<rparr>, log @ [d])"
      using True bigger un d cleared grown(1) assms(2) success
      by (simp add: call_received_def answering_def Let_def)
    then show ?thesis
      by (rule that) (use un pos max in \<open>simp_all add: word_gt_0\<close>)
  next
    case False
    then have "\<not> ?sz < ?n" using un by (simp add: word_less_nat_alt)
    then have "call_received (answering h) al p rs log = Inr (Some ?n, CPLUS_SUCCESS,
        rs\<lparr>rs_response_data := Some (?a @ drop (length ?a) room), rs_response_data_size := ?sz\<rparr>,
        log @ [d])"
      using False d assms(2) success by (simp add: call_received_def answering_def Let_def)
    then show ?thesis
      by (rule that) (use ok False in simp_all)
  qed
qed

lemma completed_step:
  assumes "responder_ok rs" "allocates al" "carries p m" "answerable h m"
  shows "\<exists>s'. conn_completed (Some (answering h)) al p (rs, log) = Inr s' \<and> responder_ok (fst s') \<and>
    served_view s' = served h m (served_view (rs, log))"
proof -
  obtain q k d where m: "m = (q, k, d)" by (cases m) auto
  have p: "pk_seqn p = q" "pk_cmd p = k" and c: "carries p (q, k, d)"
    using assms(3) by (simp_all add: carries_def m)
  have idle: "sk_results (rs_sock rs) = []" using assms(1) by (simp add: responder_ok_def)
  note defs = conn_completed_def packet_analyze_completed_def served_view_def served_def reply_def
    received_def m p cmds
  show ?thesis
  proof (cases "k = IPC_CMD_ONEWAY \<or> k = IPC_CMD_REQUEST \<or> k = IPC_CMD_RESPONSE")
    case False
    then show ?thesis
      using assms(1) send_on_ack [OF idle] by (simp add: defs responder_ok_def)
  next
    case True
    then have len: "length (h d) \<le> 268435456" using assms(4) by (simp add: answerable_def received_def m)
    obtain room where room: "provide_response al rs = Inr (rs\<lparr>rs_response_data := Some room\<rparr>)"
        "length room = unat (rs_response_data_size rs)"
      by (rule provide_response_ok [OF assms(1,2)])
    let ?rs0 = "rs\<lparr>rs_response_data := Some room\<rparr>"
    have ok0: "responder_ok ?rs0" using assms(1) room(2) by (simp add: responder_ok_def)
    have data0: "rs_response_data ?rs0 = Some room" by simp
    obtain room' sz where call: "call_received (answering h) al p ?rs0 log =
        Inr (Some (of_nat (length (h d))), CPLUS_SUCCESS,
          ?rs0\<lparr>rs_response_data := Some room', rs_response_data_size := sz\<rparr>, log @ [d])"
      "take (length (h d)) room' = h d" "length room' = unat sz" "0 < sz" "sz \<le> RSIZE_MAX_MEM"
      by (rule call_received_answer [OF ok0 data0 assms(2) c, where h = h]) (simp_all add: len)
    let ?rs1 = "?rs0\<lparr>rs_response_data := Some room', rs_response_data_size := sz\<rparr>"
    have ok1: "responder_ok ?rs1" using call(3-5) idle by (simp add: responder_ok_def)
    have idle1: "sk_results (rs_sock ?rs1) = []" using idle by simp
    have small: "length (h d) < 2147483648" using len by simp
    have ptr: "points_to (Some room') (h d)" using call(2) by (simp add: points_to_def)
    note answer = send_on_wire [OF idle1 cmds(4) small ptr, of q]
    note ack = send_on_ack [OF idle1, of q]
    have pos: "sz \<noteq> 0" using call(4) by auto
    show ?thesis
      using True room(1) call(1) answer ack ok1 pos
      by (elim disjE) (simp_all add: defs responder_ok_def)
  qed
qed

interpretation server_handler: packet_handler "conn_completed (Some (answering h)) al"
    "\<lambda>s. responder_ok (fst s) \<and> allocates al" "answerable h" served_view "served h"
  for h :: "u8 list \<Rightarrow> u8 list" and al :: alloc
proof
  fix p m and s :: "responder \<times> u8 list list"
  assume "carries p m" "answerable h m" "responder_ok (fst s) \<and> allocates al"
  then show "\<exists>s'. conn_completed (Some (answering h)) al p s = Inr s' \<and>
      (responder_ok (fst s') \<and> allocates al) \<and> served_view s' = served h m (served_view s)"
    using completed_step [of "fst s" al p m h "snd s"] by simp
qed

end
