(* ===== verification/Ipc_Client.thy ===== *)
theory Ipc_Client
  imports Ipc_Packet
begin

text \<open>
  The client of \<^verbatim>\<open>src/ipc_server.c\<close>: receiving a packet field by field
  (\<^verbatim>\<open>ipc_recv_packet\<close>), the heartbeat and the one-way message, and the synchronous request,
  which drives the stage machine of its connection until the response has come.

  The time that passes is an argument: every call that waits brings the ticks it took.
\<close>

section \<open>Receiving field by field\<close>

text \<open>
  The receiving half of a socket: the bytes that will arrive, the outcome of the next calls of
  \<^verbatim>\<open>recv\<close> (\<open>None\<close>: everything asked for; \<open>Some r\<close>: at most \<open>r\<close> bytes, or the failure
  \<open>r < 0\<close>, a failure to become ready included) with the ticks they take, and the timeouts the
  calls were given.
\<close>

record rsock =
  rk_in :: "u8 list"
  rk_calls :: "(int option \<times> u32) list"
  rk_timeouts :: "u32 list"

definition cplus_socket_recv :: "rsock \<Rightarrow> u32 \<Rightarrow> u32 \<Rightarrow> (int \<times> u8 list \<times> u32) \<times> rsock" where
  "cplus_socket_recv skt n timeout =
     (if sint n \<le> 0 then ((CPLUS_FAIL, [], 0), skt)
      else
        (let (outcome, elapsed) = (case rk_calls skt of [] \<Rightarrow> (None, 0) | c # cs \<Rightarrow> c);
             bs = (case outcome of None \<Rightarrow> take (unat n) (rk_in skt)
                   | Some r \<Rightarrow> take (min (unat n) (nat r)) (rk_in skt));
             count = (case outcome of None \<Rightarrow> int (length bs)
                      | Some r \<Rightarrow> if r < 0 then r else int (length bs))
         in ((count, bs, elapsed),
             skt\<lparr>rk_in := drop (length bs) (rk_in skt), rk_calls := tl (rk_calls skt),
                 rk_timeouts := rk_timeouts skt @ [timeout]\<rparr>)))"

definition ntohl :: "u32 \<Rightarrow> u32" where
  "ntohl n = word_of_le (rev (le_bytes 4 n))"

text \<open>
  The data: received into a block of its own, then copied to the caller's buffer.  The result
  is \<open>None\<close> for the \<^verbatim>\<open>break\<close>; else the count, the buffer and the remaining time.
\<close>

definition recv_data ::
    "alloc \<Rightarrow> rsock \<Rightarrow> u32 \<Rightarrow> u32 \<Rightarrow> buf \<Rightarrow> u32 \<Rightarrow> ((int \<times> buf \<times> u32) option \<times> rsock) exec" where
  "recv_data al skt data_len out_len out timeout =
     (if 0 < data_len \<and> out \<noteq> None \<and> 0 < out_len then
        (case malloc_buf al data_len of
           None \<Rightarrow> Inr (Some (0, out, timeout), skt)
         | Some block \<Rightarrow>
            (let ((recv_count, bs, elapsed), skt1) = cplus_socket_recv skt data_len timeout in
             if recv_count \<le> 0 \<or> uint data_len \<noteq> recv_count then Inr (None, skt1)
             else exec_bind (cplus_mem_cpy_ex out out_len (Some bs) data_len) (\<lambda>r.
               Inr (Some (recv_count, map_option (or_unchanged r) out, timeout - elapsed), skt1))))
      else Inr (Some (0, out, timeout), skt))"

text \<open>
  The steps of the \<^verbatim>\<open>do { ... } while (0)\<close>.  A short count leaves the bytes that came in the
  field.  The result is \<^verbatim>\<open>res\<close>, the packet, the caller's buffer and the socket.
\<close>

definition ipc_recv_packet ::
    "alloc \<Rightarrow> rsock \<Rightarrow> packet \<Rightarrow> u32 \<Rightarrow> buf \<Rightarrow> u32 \<Rightarrow> (int \<times> packet \<times> buf \<times> rsock) exec" where
  "ipc_recv_packet al skt p out_len out timeout =
     (let ((n1, begin_tag, t1), s1) = cplus_socket_recv skt IPC_CONN_PACKET_TAG_SIZE timeout in
      if n1 \<noteq> 3 then Inr (CPLUS_FAIL, p, out, s1)
      else if take 3 IPC_CONN_PACKET_BEGIN_TAG \<noteq> begin_tag then Inr (CPLUS_FAIL, p, out, s1)
      else
      (let timeout1 = timeout - t1;
           ((n2, b2, t2), s2) = cplus_socket_recv s1 1 timeout1;
           p2 = (case b2 of [] \<Rightarrow> p | b # bs \<Rightarrow> p\<lparr>pk_seqn := b\<rparr>) in
       if n2 \<noteq> 1 then Inr (CPLUS_FAIL, p2, out, s2)
       else
       (let timeout2 = timeout1 - t2;
            ((n3, b3, t3), s3) = cplus_socket_recv s2 1 timeout2;
            p3 = (case b3 of [] \<Rightarrow> p2 | b # bs \<Rightarrow> p2\<lparr>pk_cmd := b\<rparr>) in
        if n3 \<noteq> 1 then Inr (CPLUS_FAIL, p3, out, s3)
        else
        (let timeout3 = timeout2 - t3;
             ((n4, b4, t4), s4) = cplus_socket_recv s3 4 timeout3;
             p4 = p3\<lparr>pk_data_len :=
               word_of_le (b4 @ drop (length b4) (le_bytes 4 (pk_data_len p3)))\<rparr> in
         if n4 \<noteq> 4 then Inr (CPLUS_FAIL, p4, out, s4)
         else
         (let timeout4 = timeout3 - t4;
              p5 = p4\<lparr>pk_data_len := ntohl (pk_data_len p4)\<rparr> in
          exec_bind (recv_data al s4 (pk_data_len p5) out_len out timeout4) (\<lambda>(data, s5).
            case data of
              None \<Rightarrow> Inr (CPLUS_FAIL, p5, out, s5)
            | Some (recv_count, out', timeout5) \<Rightarrow>
               (let ((n6, end_tag, t6), s6) = cplus_socket_recv s5 3 timeout5 in
                if n6 \<noteq> 3 then Inr (CPLUS_FAIL, p5, out', s6)
                else if take 3 IPC_CONN_PACKET_END_TAG \<noteq> end_tag
                then Inr (CPLUS_FAIL, p5, out', s6)
                else Inr (recv_count, p5, out', s6))))))))"

section \<open>The client\<close>

record client =
  cl_seqn :: u32
  cl_is_async :: bool
  cl_out :: sock
  cl_in :: rsock

abbreviation empty_packet :: packet where
  "empty_packet \<equiv> \<lparr>pk_seqn = 0, pk_cmd = 0, pk_data_len = 0, pk_data = None\<rparr>"

definition cplus_ipc_client_send_heartbeat :: "alloc \<Rightarrow> client \<Rightarrow> u32 \<Rightarrow> (int \<times> client) exec" where
  "cplus_ipc_client_send_heartbeat al clt timeout =
     (let seqn = ACCUMULATE_SEQUENCE_NUMBER (cl_seqn clt);
          request = \<lparr>pk_seqn = ucast seqn, pk_cmd = IPC_CMD_HEARTBEAT, pk_data_len = 0, pk_data = None\<rparr>;
          (sent, out) = ipc_send_packet (cl_out clt) request;
          clt1 = clt\<lparr>cl_seqn := seqn, cl_out := out\<rparr> in
      if (case sent of Inl e \<Rightarrow> CPLUS_FAIL | Inr n \<Rightarrow> n) < 0 then Inr (CPLUS_FAIL, clt1)
      else exec_bind (ipc_recv_packet al (cl_in clt1) empty_packet 0 None timeout)
        (\<lambda>(count, response, out_bufs, inp).
          Inr (if 0 \<le> count \<and> pk_seqn request = pk_seqn response \<and> pk_cmd response = IPC_CMD_ACK
               then CPLUS_SUCCESS else CPLUS_FAIL, clt1\<lparr>cl_in := inp\<rparr>)))"

definition cplus_ipc_client_send_oneway :: "client \<Rightarrow> u32 \<Rightarrow> buf \<Rightarrow> int cresult \<times> client" where
  "cplus_ipc_client_send_oneway clt input_bufs_len input_bufs =
     (let seqn = ACCUMULATE_SEQUENCE_NUMBER (cl_seqn clt);
          (sent, out) = ipc_send_packet (cl_out clt)
            \<lparr>pk_seqn = ucast seqn, pk_cmd = IPC_CMD_ONEWAY, pk_data_len = input_bufs_len,
             pk_data = input_bufs\<rparr>
      in (sent, clt\<lparr>cl_seqn := seqn, cl_out := out\<rparr>))"

section \<open>The synchronous request\<close>

text \<open>
  The errors of a request: a value of \<open>errno\<close> the library writes, or the error of the socket.
\<close>

datatype request_error = Req_errno errno | Req_socket recv_error

definition TOLERANCE_TO_DIFF_SEQUENCE :: u32 where "TOLERANCE_TO_DIFF_SEQUENCE = 3"

definition sequence_diff :: "u8 \<Rightarrow> u8 \<Rightarrow> u32" where
  "sequence_diff req rcv = (if rcv < req then ucast req - ucast rcv
     else (255 - ucast req) + ucast rcv)"

text \<open>
  The event of a connection is a broadcast event: a wait with timeout 0 returns whether it is
  set and leaves it.
\<close>

definition event_is_set :: "conn \<Rightarrow> bool" where
  "event_is_set c \<longleftrightarrow> cn_event c = Some True"

definition reset_event :: "conn \<Rightarrow> conn" where
  "reset_event c = c\<lparr>cn_event := map_option (\<lambda>e. False) (cn_event c)\<rparr>"

text \<open>
  The loop over the calls of \<^verbatim>\<open>ipc_conn_proc\<close>, one outcome of \<^verbatim>\<open>recv\<close> and its ticks per
  iteration; \<open>None\<close> while the response has not come.  The result is the failure, if any.
\<close>

primrec await_response ::
    "(packet \<Rightarrow> 's \<Rightarrow> 's exec) \<Rightarrow> alloc \<Rightarrow> u8 \<Rightarrow> (recv_outcome \<times> u32) list \<Rightarrow> u32 \<Rightarrow> conn \<Rightarrow> 's \<Rightarrow>
     (errno option \<times> conn \<times> 's) exec option" where
  "await_response f al seqn [] timeout c s = None"
| "await_response f al seqn (call # calls) timeout c s =
     Option.bind (ipc_conn_proc f al c (fst call) s) (\<lambda>r. case r of
       Inl e \<Rightarrow> Some (Inl e)
     | Inr (c1, s1) \<Rightarrow>
         if cn_recv_count c1 \<le> 0 then Some (Inr (Some ENONE, c1, s1))
         else if timeout \<le> snd call then Some (Inr (Some ETIMEDOUT, c1, s1))
         else if \<not> event_is_set c1 then await_response f al seqn calls (timeout - snd call) c1 s1
         else if seqn = pk_seqn (cn_packet c1) then Some (Inr (None, c1, s1))
         else if sequence_diff seqn (pk_seqn (cn_packet c1)) < TOLERANCE_TO_DIFF_SEQUENCE
         then await_response f al seqn calls (timeout - snd call) (reset_event c1) s1
         else Some (Inr (Some EILSEQ, c1, s1)))"

text \<open>
  What follows the loop: the failure, or the copy of the data, whose own failure is ignored.
\<close>

definition take_response ::
    "errno option \<Rightarrow> conn \<Rightarrow> u32 \<Rightarrow> buf \<Rightarrow> ((request_error + int) \<times> buf) exec" where
  "take_response failure c out_len out =
     (if failure \<noteq> None \<or> cn_sock_error c \<noteq> None then
        Inr (Inl (case cn_sock_error c of Some e \<Rightarrow> Req_socket e
                  | None \<Rightarrow> Req_errno (case failure of None \<Rightarrow> ENONE | Some e \<Rightarrow> e)), out)
      else if out = None \<or> out_len = 0 then Inr (Inl (Req_errno EINVAL), out)
      else exec_bind (cplus_mem_cpy_ex out out_len (pk_data (cn_packet c)) (pk_data_len (cn_packet c)))
        (\<lambda>r. Inr (Inr (sint (pk_data_len (cn_packet c))), map_option (or_unchanged r) out)))"

text \<open>
  The whole request.  The socket is that of the connection's answers, so the state handed to
  \<open>f\<close> contains it: \<open>sock_of\<close> reads it and \<open>put_sock\<close> replaces it.
\<close>

definition cplus_ipc_client_send_request ::
    "('s \<Rightarrow> sock) \<Rightarrow> (sock \<Rightarrow> 's \<Rightarrow> 's) \<Rightarrow> (packet \<Rightarrow> 's \<Rightarrow> 's exec) \<Rightarrow> alloc \<Rightarrow> bool \<Rightarrow> u32 \<Rightarrow>
     (recv_outcome \<times> u32) list \<Rightarrow> u32 \<Rightarrow> buf \<Rightarrow> u32 \<Rightarrow> buf \<Rightarrow> u32 \<Rightarrow> conn \<Rightarrow> 's \<Rightarrow>
     ((request_error + int) \<times> buf \<times> u32 \<times> conn \<times> 's) exec option" where
  "cplus_ipc_client_send_request sock_of put_sock f al is_async seqn0 calls in_len inp out_len out
       timeout c s =
     (let seqn = ACCUMULATE_SEQUENCE_NUMBER seqn0;
          (sent, skt) = ipc_send_packet (sock_of s)
            \<lparr>pk_seqn = ucast seqn, pk_cmd = IPC_CMD_REQUEST, pk_data_len = in_len, pk_data = inp\<rparr>;
          s1 = put_sock skt s in
      if (case sent of Inl e \<Rightarrow> CPLUS_FAIL | Inr n \<Rightarrow> n) \<le> 0 \<or> is_async
      then Some (Inr (Inr CPLUS_SUCCESS, out, seqn, c, s1))
      else
        Option.bind (await_response f al (ucast seqn) calls timeout c s1) (\<lambda>r. case r of
          Inl e \<Rightarrow> Some (Inl e)
        | Inr (failure, c1, s2) \<Rightarrow>
            (let c2 = reset_event c1 in
             Some (exec_bind (take_response failure c2 out_len out)
               (\<lambda>(res, out'). Inr (res, out', seqn, c2, s2))))))"

end
