(* ===== verification/Ipc_Props.thy ===== *)
theory Ipc_Props
  imports Ipc_Answer Ipc_Client
begin

text \<open>
  The properties of the packet layer and of the client, over the wire format: what is sent is
  what the other side delivers, a request is answered with what the callback computes, and the
  places where the code loses data or time.
\<close>

section \<open>Streams of messages\<close>

text \<open>Sending a list of messages, and a connection that reads one chunk after the other.\<close>

definition send_msgs :: "sock \<Rightarrow> msg list \<Rightarrow> sock" where
  "send_msgs skt ms = fold (\<lambda>m s. snd (ipc_send_packet s
     \<lparr>pk_seqn = fst m, pk_cmd = fst (snd m), pk_data_len = of_nat (length (snd (snd m))),
      pk_data = Some (snd (snd m))\<rparr>)) ms skt"

primrec serve_chunks ::
    "(packet \<Rightarrow> 's \<Rightarrow> 's exec) \<Rightarrow> alloc \<Rightarrow> u8 list list \<Rightarrow> conn \<Rightarrow> 's \<Rightarrow> (conn \<times> 's) exec option" where
  "serve_chunks f al [] c s = Some (Inr (c, s))"
| "serve_chunks f al (bs # chunks) c s =
     Option.bind (ipc_conn_proc f al c (Received bs) s) (\<lambda>r. case r of
       Inl e \<Rightarrow> Some (Inl e) | Inr cs \<Rightarrow> serve_chunks f al chunks (fst cs) (snd cs))"

text \<open>Each chunk holds whole packets and fits what is left of the 512-byte buffer.\<close>

primrec fits :: "nat \<Rightarrow> msg list list \<Rightarrow> bool" where
  "fits off [] = True"
| "fits off (ms # mss) = ((if 512 \<le> off then 0 else off) + length (stream ms) \<le> 512 \<and>
     fits ((if 512 \<le> off then 0 else off) + length (stream ms)) mss)"

lemma length_wire_of: "length (snd (snd m)) \<le> length (wire_of m)"
  by (simp add: wire_of_def split: prod.split)

lemma send_msgs_stream:
  assumes "sk_results skt = []" "\<forall>m \<in> set ms. fst (snd m) < IPC_CMD_MAX" "length (stream ms) \<le> 512"
  shows "send_msgs skt ms = skt\<lparr>sk_out := sk_out skt @ stream ms\<rparr>"
  using assms
proof (induction ms arbitrary: skt)
  case Nil
  then show ?case by (simp add: send_msgs_def)
next
  case (Cons m ms)
  obtain q k d where m: "m = (q, k, d)" by (cases m) auto
  have len: "length d < 2147483648"
    using Cons.prems(3) length_wire_of [of m] by (simp add: m)
  have "send_msgs skt (m # ms) =
      send_msgs (snd (ipc_send_packet skt \<lparr>pk_seqn = q, pk_cmd = k, pk_data_len = of_nat (length d),
        pk_data = Some d\<rparr>)) ms"
    by (simp add: send_msgs_def m)
  also have "\<dots> = send_msgs (skt\<lparr>sk_out := sk_out skt @ wire_of m\<rparr>) ms"
    using ipc_send_packet_wire [of skt k d "Some d" q] Cons.prems(1,2) len
    by (simp add: m points_to_def wire_of_def)
  also have "\<dots> = skt\<lparr>sk_out := sk_out skt @ stream (m # ms)\<rparr>"
    using Cons.prems by (subst Cons.IH) simp_all
  finally show ?case .
qed

lemma fold_served:
  "fold (served h) ms v = (fst v @ concat (map (reply h) ms), snd v @ concat (map received ms))"
  by (induction ms arbitrary: v) (simp_all add: served_def)

lemma serve_step:
  assumes "ready c" "allocates al" "cn_status c \<noteq> NOT_CONNECTED" "responder_ok (fst s)"
    and "fits (unat (cn_recv_bufs_offset c)) mss" "\<forall>m \<in> set (concat mss). answerable h m"
  obtains c' s' where
    "serve_chunks (conn_completed (Some (answering h)) al) al (map stream mss) c s = Some (Inr (c', s'))"
    "ready c'" "responder_ok (fst s')" "served_view s' = fold (served h) (concat mss) (served_view s)"
  using assms
proof (induction mss arbitrary: c s thesis)
  case Nil
  then show ?case by simp
next
  case (Cons ms mss)
  let ?off = "if 512 \<le> unat (cn_recv_bufs_offset c) then 0 else unat (cn_recv_bufs_offset c)"
  have off: "?off = (if 512 \<le> cn_recv_bufs_offset c then 0 else unat (cn_recv_bufs_offset c))"
    by (simp add: word_le_nat_alt)
  have room: "?off + length (stream ms) \<le> 512" using Cons.prems(6) by (simp add: if_distrib)
  have inv: "responder_ok (fst s) \<and> allocates al" using Cons.prems(3,5) by simp
  have valid: "\<forall>m \<in> set ms. answerable h m" using Cons.prems(7) by simp
  obtain c1 s1 where one:
    "ipc_conn_proc (conn_completed (Some (answering h)) al) al c (Received (stream ms)) s = Some (Inr (c1, s1))"
    "responder_ok (fst s1) \<and> allocates al" "served_view s1 = fold (served h) ms (served_view s)"
    "ready c1" "cn_status c1 = CONNECTED" "unat (cn_recv_bufs_offset c1) = ?off + length (stream ms)"
    by (rule server_handler.proc_packets [OF Cons.prems(2-4) off room inv valid])
  have connected: "cn_status c1 \<noteq> NOT_CONNECTED" using one(5) by simp
  have rest: "fits (unat (cn_recv_bufs_offset c1)) mss" using Cons.prems(6) by (simp add: one(6))
  have ok1: "responder_ok (fst s1)" using one(2) by simp
  obtain c' s' where more:
    "serve_chunks (conn_completed (Some (answering h)) al) al (map stream mss) c1 s1 = Some (Inr (c', s'))"
    "ready c'" "responder_ok (fst s')" "served_view s' = fold (served h) (concat mss) (served_view s1)"
    using Cons.IH [OF _ one(4) Cons.prems(3) connected ok1 rest] Cons.prems(7) by auto
  show ?case
    by (rule Cons.prems(1) [OF _ more(2,3)]) (use one(1,3) more(1,4) in simp_all)
qed

text \<open>C3.
  A server with a working callback answers every stream of packets: whatever messages a peer sends
  with \<^verbatim>\<open>ipc_send_packet\<close>, read by the connection in chunks of whole packets that fit the receive
  buffer, the callback gets the data of exactly the one-way, request and response packets, in the
  order sent, and the socket gets one answer per heartbeat, request and response, in that order,
  with the sequence number of what it answers, whether or not the answer fits the response buffer.
\<close>

theorem ipc_server_answers_stream:
  assumes "ready c" "allocates al" "cn_status c \<noteq> NOT_CONNECTED" "responder_ok rs"
    and "sk_results skt = []" "fits (unat (cn_recv_bufs_offset c)) mss"
    and "\<forall>m \<in> set (concat mss). fst (snd m) < IPC_CMD_MAX \<and> answerable h m"
  shows "\<exists>c' rs'. serve_chunks (conn_completed (Some (answering h)) al) al
       (map (\<lambda>ms. drop (length (sk_out skt)) (sk_out (send_msgs skt ms))) mss) c (rs, log) =
       Some (Inr (c', rs', log @ concat (map received (concat mss)))) \<and> ready c' \<and>
     sk_out (rs_sock rs') = sk_out (rs_sock rs) @ concat (map (reply h) (concat mss))"
proof -
  have small: "fits off mss \<Longrightarrow> ms \<in> set mss \<Longrightarrow> length (stream ms) \<le> 512" for off ms
    by (induction mss arbitrary: off) (auto split: if_splits)
  have sent: "map (\<lambda>ms. drop (length (sk_out skt)) (sk_out (send_msgs skt ms))) mss = map stream mss"
  proof (rule map_cong [OF refl])
    fix ms
    assume "ms \<in> set mss"
    then show "drop (length (sk_out skt)) (sk_out (send_msgs skt ms)) = stream ms"
      using send_msgs_stream [OF assms(5), of ms] small [OF assms(6)] assms(7) by auto
  qed
  have ok: "responder_ok (fst (rs, log))" "\<forall>m \<in> set (concat mss). answerable h m"
    using assms(4,7) by simp_all
  obtain c' s' where
    "serve_chunks (conn_completed (Some (answering h)) al) al (map stream mss) c (rs, log) = Some (Inr (c', s'))"
    "ready c'" "served_view s' = fold (served h) (concat mss) (served_view (rs, log))"
    by (rule serve_step [OF assms(1-3) ok(1) assms(6) ok(2)])
  then show ?thesis unfolding sent
    by (intro exI [of _ c'] exI [of _ "fst s'"]) (cases s', simp add: fold_served served_view_def)
qed

text \<open>Concrete ends of a connection.\<close>

definition example_memory :: alloc where "example_memory n = Some (\<lambda>i. 170)"

definition example_conn :: "bool \<Rightarrow> conn" where
  "example_conn async = (conn_init async)\<lparr>cn_status := CONNECTED\<rparr>"

definition example_sock :: sock where "example_sock = \<lparr>sk_out = [], sk_results = []\<rparr>"

definition example_responder :: responder where
  "example_responder = \<lparr>rs_response_data = None, rs_response_data_size = 8192, rs_sock = example_sock\<rparr>"

lemma example_ends:
  "allocates example_memory" "ready (example_conn async)" "cn_status (example_conn async) \<noteq> NOT_CONNECTED"
  "responder_ok example_responder" "sk_results example_sock = []"
  "sk_results (rs_sock example_responder) = []"
  "cn_recv_bufs_offset (example_conn async) = 0" "cn_event (example_conn False) = Some False"
  by (simp_all add: allocates_def example_memory_def example_conn_def conn_init_def ready_def
    databufs_ok_def RSIZE_MAX_MEM_def word_le_nat_alt responder_ok_def example_responder_def
    example_sock_def u32_pos_iff)

theorem ipc_server_answers_stream_witness:
  "\<exists>c' rs'. serve_chunks (conn_completed (Some (answering rev)) example_memory) example_memory
       (map (\<lambda>ms. drop (length (sk_out example_sock)) (sk_out (send_msgs example_sock ms)))
         [[(1, IPC_CMD_REQUEST, [104, 105]), (2, IPC_CMD_HEARTBEAT, [])], [(3, IPC_CMD_ONEWAY, [33])]])
       (example_conn True) (example_responder, []) = Some (Inr (c', rs', [[104, 105], [33]])) \<and>
     ready c' \<and> sk_out (rs_sock rs') = sk_out (rs_sock example_responder) @
       wire 1 IPC_CMD_RESPONSE [105, 104] @ wire 2 IPC_CMD_ACK []"
  using ipc_server_answers_stream [of "example_conn True" example_memory example_responder example_sock
      "[[(1, IPC_CMD_REQUEST, [104, 105]), (2, IPC_CMD_HEARTBEAT, [])], [(3, IPC_CMD_ONEWAY, [33])]]"
      rev "[]"]
  by (simp add: example_ends answerable_def cmds cmds(6-15) [symmetric] wire_of_def received_def reply_def
    del: serve_chunks.simps)

section \<open>The receiving half of the client\<close>

lemma small_sint:
  assumes "unat (n :: u32) < 2147483648"
  shows "sint n = int (unat n)"
proof -
  have "signed_take_bit 31 (int (unat n)) = int (unat n)"
  proof (rule signed_take_bit_int_eq_self)
    show "- (2 ^ 31) \<le> int (unat n)" by (rule order_trans [of _ 0]) simp_all
    have "int (unat n) < 2147483648" using assms by linarith
    then show "int (unat n) < 2 ^ 31" by simp
  qed
  moreover have "sint n = signed_take_bit 31 (int (unat n))" by (simp add: sint_uint)
  ultimately show ?thesis by (rule trans [rotated])
qed

lemma recv_all:
  assumes "rk_calls skt = []" "0 < sint n" "unat n \<le> length (rk_in skt)"
  shows "cplus_socket_recv skt n timeout = ((int (unat n), take (unat n) (rk_in skt), 0),
     skt\<lparr>rk_in := drop (unat n) (rk_in skt), rk_timeouts := rk_timeouts skt @ [timeout]\<rparr>)"
  using assms by (simp add: cplus_socket_recv_def min_absorb2 not_le)

lemma recv_prefix:
  assumes "rk_calls skt = []" "0 < sint n" "rk_in skt = bs @ rest" "unat n = length bs"
  shows "cplus_socket_recv skt n timeout = ((int (length bs), bs, 0),
     skt\<lparr>rk_in := rest, rk_timeouts := rk_timeouts skt @ [timeout]\<rparr>)"
  using recv_all [OF assms(1,2), of timeout] assms(3,4) by simp

lemma ntohl_htonl: "ntohl (htonl n) = n"
proof -
  have "rev (le_bytes 4 (htonl n)) = le_bytes 4 n" by (simp add: htonl_bytes del: le_bytes.simps)
  then show ?thesis by (simp add: ntohl_def word_of_le_le_bytes del: le_bytes.simps)
qed

lemma recv_packet_step:
  assumes "rk_calls skt = []" "rk_in skt = wire q k d @ rest" "length d < 2147483648"
    and "d \<noteq> [] \<Longrightarrow> \<exists>room. out = Some room \<and> length d \<le> unat out_len \<and> out_len \<le> RSIZE_MAX_MEM \<and>
      unat out_len \<le> length room"
    and "allocates al"
  shows "ipc_recv_packet al skt p out_len out timeout = Inr (int (length d),
      p\<lparr>pk_seqn := q, pk_cmd := k, pk_data_len := of_nat (length d)\<rparr>,
      map_option (\<lambda>room. d @ drop (length d) room) out,
      skt\<lparr>rk_in := rest, rk_timeouts := rk_timeouts skt @
        replicate (if d = [] then 5 else 6) timeout\<rparr>)"
proof -
  let ?len = "of_nat (length d) :: u32"
  define S where "S bs n = skt\<lparr>rk_in := bs, rk_timeouts := rk_timeouts skt @ replicate n timeout\<rparr>"
    for bs n
  have recv: "cplus_socket_recv (S (bs @ r) i) n timeout = ((int (length bs), bs, 0), S r (Suc i))"
    if "0 < sint n" "unat n = length bs" for bs r i n
    using recv_prefix [of "S (bs @ r) i" n bs r timeout] assms(1) that
    by (simp add: S_def replicate_append_same)
  have start: "skt = S ([83, 84, 88] @ [q] @ [k] @ le_bytes 4 (htonl ?len) @ d @ [69, 84, 88] @ rest) 0"
    using assms(2) by (simp add: S_def wire_def htonl_bytes del: le_bytes.simps)
  have unswap: "ntohl (word_of_le (le_bytes 4 (htonl ?len))) = ?len"
    by (simp add: ntohl_htonl word_of_le_le_bytes del: le_bytes.simps)
  have r1: "cplus_socket_recv (S ([83, 84, 88] @ r) i) IPC_CONN_PACKET_TAG_SIZE timeout =
      ((3, [83, 84, 88], 0), S r (Suc i))" for r i
    using recv [of IPC_CONN_PACKET_TAG_SIZE "[83, 84, 88]"] by (simp add: IPC_CONN_PACKET_TAG_SIZE_def)
  have r2: "cplus_socket_recv (S ([b] @ r) i) 1 timeout = ((1, [b], 0), S r (Suc i))" for b r i
    using recv [of 1 "[b]"] by simp
  have r4: "cplus_socket_recv (S (le_bytes 4 (htonl ?len) @ r) i) 4 timeout =
      ((4, le_bytes 4 (htonl ?len), 0), S r (Suc i))" for r i
    using recv [of 4 "le_bytes 4 (htonl ?len)"] by (simp del: le_bytes.simps)
  have r6: "cplus_socket_recv (S ([69, 84, 88] @ r) i) 3 timeout =
      ((3, [69, 84, 88], 0), S r (Suc i))" for r i
    using recv [of 3 "[69, 84, 88]"] by simp
  have data: "recv_data al (S (d @ r) (Suc (Suc (Suc (Suc 0))))) ?len out_len out timeout =
      Inr (Some (int (length d), map_option (\<lambda>room. d @ drop (length d) room) out, timeout),
        S r (if d = [] then Suc (Suc (Suc (Suc 0))) else Suc (Suc (Suc (Suc (Suc 0))))))" for r
  proof (cases "d = []")
    case True
    then show ?thesis by (cases out) (simp_all add: recv_data_def)
  next
    case False
    then obtain room where room: "out = Some room" "length d \<le> unat out_len" "out_len \<le> RSIZE_MAX_MEM"
        "unat out_len \<le> length room"
      using assms(4) by blast
    have nonempty: "0 < length d" using False by simp
    have nonempty': "0 < unat out_len" using nonempty room(2) by linarith
    have un: "unat ?len = length d" using assms(3) by simp
    have un2: "uint ?len = int (length d)" using un by (simp only: uint_nat)
    have pos: "0 < ?len" "0 < out_len" "?len \<noteq> 0" "out_len \<noteq> 0"
      using un nonempty' nonempty by (auto simp: u32_pos_iff word_unat_eq_iff)
    have si: "0 < sint ?len" using small_sint [of ?len] un assms(3) False by simp
    obtain block where block: "malloc_buf al ?len = Some block"
      by (rule allocates_bufs [OF assms(5)])
    have guards: "(RSIZE_MAX_MEM < out_len) = False" "(out_len < ?len) = False"
      using room(2,3) un by (simp_all add: not_less word_le_nat_alt)
    have copy: "cplus_mem_cpy_ex (Some room) out_len (Some d) ?len = Inr (Inr (d @ drop (length d) room))"
      using un room pos guards by (simp add: cplus_mem_cpy_ex_def read_obj_def write_obj_def)
    show ?thesis
      using False room(1) pos block recv [OF si un] copy un2 by (simp add: recv_data_def)
  qed
  note tags = IPC_CONN_PACKET_BEGIN_TAG_def IPC_CONN_PACKET_END_TAG_def
  have fin: "S rest (Suc (Suc (Suc (Suc (Suc 0))))) =
      skt\<lparr>rk_in := rest, rk_timeouts := rk_timeouts skt @ replicate 5 timeout\<rparr>"
    "S rest (Suc (Suc (Suc (Suc (Suc (Suc 0)))))) =
      skt\<lparr>rk_in := rest, rk_timeouts := rk_timeouts skt @ replicate 6 timeout\<rparr>"
    by (simp_all add: S_def numeral_eq_Suc)
  have "ipc_recv_packet al skt p out_len out timeout = Inr (int (length d),
      p\<lparr>pk_seqn := q, pk_cmd := k, pk_data_len := ?len\<rparr>,
      map_option (\<lambda>room. d @ drop (length d) room) out,
      S rest (Suc (if d = [] then Suc (Suc (Suc (Suc 0))) else Suc (Suc (Suc (Suc (Suc 0)))))))"
    by (subst start) (simp only: ipc_recv_packet_def Let_def r1 r2 r4 r6 ntohl_htonl data tags
      prod.case list.case option.case if_False if_True simp_thms exec_bind_simps diff_zero length_le_bytes
      drop_all le_refl append_Nil2 packet.update_convs packet.simps take_Suc_Cons, simp add: data ntohl_htonl r6 del: append_Cons le_bytes.simps)
  then show ?thesis by (simp add: fin)
qed

text \<open>\<^verbatim>\<open>ipc_recv_packet\<close> inverts \<^verbatim>\<open>ipc_send_packet\<close>: of a packet sent on an idle socket it delivers the
  sequence number, the command, the length in host order and, in the caller's buffer, the data, returns
  the length, and leaves what follows the packet unread.
\<close>

theorem ipc_recv_sent_packet:
  assumes "sk_results skt = []" "k < IPC_CMD_MAX" "length d < 2147483648"
    and "rk_calls inp = []" "rk_in inp = drop (length (sk_out skt)) (sk_out (snd (ipc_send_packet skt
      \<lparr>pk_seqn = q, pk_cmd = k, pk_data_len = of_nat (length d), pk_data = Some d\<rparr>))) @ rest"
    and "length d \<le> unat out_len" "out_len \<le> RSIZE_MAX_MEM" "unat out_len \<le> length room"
    and "allocates al"
  shows "\<exists>inp'. ipc_recv_packet al inp p out_len (Some room) timeout = Inr (int (length d),
      p\<lparr>pk_seqn := q, pk_cmd := k, pk_data_len := of_nat (length d)\<rparr>,
      Some (d @ drop (length d) room), inp') \<and> rk_in inp' = rest \<and> rk_calls inp' = []"
proof -
  have "rk_in inp = wire q k d @ rest"
    using assms(5) ipc_send_packet_wire [OF assms(1-3), of "Some d" q] by (simp add: points_to_def)
  from recv_packet_step [OF assms(4) this assms(3) _ assms(9), of "Some room" out_len p timeout] assms
  show ?thesis by simp
qed

theorem ipc_recv_sent_packet_witness:
  "\<exists>inp'. ipc_recv_packet example_memory \<lparr>rk_in = wire 7 IPC_CMD_ONEWAY [104, 105] @ [9],
      rk_calls = [], rk_timeouts = []\<rparr> empty_packet 4 (Some [0, 0, 0, 0]) 100 = Inr (2,
      \<lparr>pk_seqn = 7, pk_cmd = IPC_CMD_ONEWAY, pk_data_len = 2, pk_data = None\<rparr>,
      Some [104, 105, 0, 0], inp') \<and> rk_in inp' = [9] \<and> rk_calls inp' = []"
  using ipc_recv_sent_packet [of example_sock IPC_CMD_ONEWAY "[104, 105]"
      "\<lparr>rk_in = wire 7 IPC_CMD_ONEWAY [104, 105] @ [9], rk_calls = [], rk_timeouts = []\<rparr>"
      7 "[9]" 4 "[0, 0, 0, 0]" example_memory empty_packet 100]
    ipc_send_packet_wire [of example_sock IPC_CMD_ONEWAY "[104, 105]" "Some [104, 105]" 7]
  by (simp add: example_ends(1,5) cmds points_to_def RSIZE_MAX_MEM_def word_le_nat_alt)

section \<open>Client and server together\<close>

lemma reply_request: "reply h (q, IPC_CMD_REQUEST, d) = wire q IPC_CMD_RESPONSE (h d)"
  and reply_heartbeat: "reply h (q, IPC_CMD_HEARTBEAT, d) = wire q IPC_CMD_ACK []"
  by (simp_all add: reply_def cmds)

text \<open>The server's side of one message.\<close>

lemma server_replies:
  assumes "ready c" "allocates al" "cn_status c \<noteq> NOT_CONNECTED" "responder_ok rs"
    and "answerable h m" "length (wire_of m) \<le> 512"
    and "unat (cn_recv_bufs_offset c) + length (wire_of m) \<le> 512 \<or> 512 \<le> unat (cn_recv_bufs_offset c)"
  obtains c' rs' where "ipc_conn_proc (conn_completed (Some (answering h)) al) al c (Received (wire_of m))
      (rs, log) = Some (Inr (c', rs', log @ received m))"
    "sk_out (rs_sock rs') = sk_out (rs_sock rs) @ reply h m"
proof -
  let ?off = "if 512 \<le> cn_recv_bufs_offset c then 0 else unat (cn_recv_bufs_offset c)"
  have room: "?off + length (stream [m]) \<le> 512" using assms(6,7) by (auto simp: word_le_nat_alt)
  have inv: "responder_ok (fst (rs, log)) \<and> allocates al" using assms(2,4) by simp
  have valid: "\<forall>m' \<in> set [m]. answerable h m'" using assms(5) by simp
  obtain c' s' where "ipc_conn_proc (conn_completed (Some (answering h)) al) al c (Received (stream [m]))
      (rs, log) = Some (Inr (c', s'))" "served_view s' = fold (served h) [m] (served_view (rs, log))"
    by (rule server_handler.proc_packets [OF assms(1-3) refl room inv valid])
  then show ?thesis
    by (intro that [of c' "fst s'"]) (simp_all add: served_view_def served_def prod_eq_iff)
qed

text \<open>
  A heartbeat is acknowledged: the bytes a client sends make the server answer, and given that answer
  \<^verbatim>\<open>cplus_ipc_client_send_heartbeat\<close> succeeds, has consumed all of it, and has moved on to the next
  sequence number.
\<close>

theorem ipc_heartbeat_acknowledged:
  assumes "ready c" "allocates al" "cn_status c \<noteq> NOT_CONNECTED" "responder_ok rs"
    and "unat (cn_recv_bufs_offset c) \<le> 500" "sk_results (cl_out clt) = []" "rk_calls (cl_in clt) = []"
  shows "\<exists>clt' c' rs'.
     cplus_ipc_client_send_heartbeat al (clt\<lparr>cl_in := (cl_in clt)\<lparr>rk_in :=
       drop (length (sk_out (rs_sock rs))) (sk_out (rs_sock rs'))\<rparr>\<rparr>) timeout = Inr (CPLUS_SUCCESS, clt') \<and>
     ipc_conn_proc (conn_completed (Some (answering h)) al) al c
       (Received (drop (length (sk_out (cl_out clt))) (sk_out (cl_out clt')))) (rs, log) =
       Some (Inr (c', rs', log)) \<and>
     cl_seqn clt' = ACCUMULATE_SEQUENCE_NUMBER (cl_seqn clt) \<and> rk_in (cl_in clt') = []"
proof -
  let ?q = "ucast (ACCUMULATE_SEQUENCE_NUMBER (cl_seqn clt)) :: u8"
  let ?m = "(?q, IPC_CMD_HEARTBEAT, []) :: msg"
  have size: "length (wire_of ?m) = 12" by (simp add: wire_of_def)
  obtain c' rs' where server: "ipc_conn_proc (conn_completed (Some (answering h)) al) al c
      (Received (wire_of ?m)) (rs, log) = Some (Inr (c', rs', log @ received ?m))"
    "sk_out (rs_sock rs') = sk_out (rs_sock rs) @ reply h ?m"
    by (rule server_replies [OF assms(1-4), of h ?m])
      (use assms(5) in \<open>simp_all add: answerable_def received_def cmds cmds(6-8) [symmetric] size\<close>)
  have sent: "ipc_send_packet (cl_out clt) \<lparr>pk_seqn = ?q, pk_cmd = IPC_CMD_HEARTBEAT, pk_data_len = 0,
      pk_data = None\<rparr> = (Inr 0, (cl_out clt)\<lparr>sk_out := sk_out (cl_out clt) @ wire_of ?m\<rparr>)"
    using ipc_send_packet_wire [OF assms(6) cmds(1), of "[]" None ?q] by (simp add: points_to_def wire_of_def)
  let ?inp = "(cl_in clt)\<lparr>rk_in := wire ?q IPC_CMD_ACK []\<rparr>"
  let ?clt' = "clt\<lparr>cl_seqn := ACCUMULATE_SEQUENCE_NUMBER (cl_seqn clt),
    cl_out := (cl_out clt)\<lparr>sk_out := sk_out (cl_out clt) @ wire_of ?m\<rparr>,
    cl_in := ?inp\<lparr>rk_in := [], rk_timeouts := rk_timeouts ?inp @ replicate 5 timeout\<rparr>\<rparr>"
  have "ipc_recv_packet al ?inp empty_packet 0 None timeout = Inr (0,
      empty_packet\<lparr>pk_seqn := ?q, pk_cmd := IPC_CMD_ACK\<rparr>, None, cl_in ?clt')"
    using recv_packet_step [of ?inp ?q IPC_CMD_ACK "[]" "[]" None 0 al empty_packet timeout] assms(2,7)
    by simp
  then have "cplus_ipc_client_send_heartbeat al (clt\<lparr>cl_in := ?inp\<rparr>) timeout = Inr (CPLUS_SUCCESS, ?clt')"
    using sent by (simp add: cplus_ipc_client_send_heartbeat_def Let_def)
  moreover have "drop (length (sk_out (rs_sock rs))) (sk_out (rs_sock rs')) = wire ?q IPC_CMD_ACK []"
    using server(2) by (simp add: reply_heartbeat)
  moreover have "log @ received ?m = log" by (simp add: received_def cmds cmds(6-8) [symmetric])
  ultimately show ?thesis
    using server(1) by (intro exI [of _ ?clt'] exI [of _ c'] exI [of _ rs']) simp
qed

theorem ipc_heartbeat_acknowledged_witness:
  "\<exists>clt' c' rs'.
     cplus_ipc_client_send_heartbeat example_memory (\<lparr>cl_seqn = 255, cl_is_async = False,
       cl_out = example_sock, cl_in = \<lparr>rk_in = drop (length (sk_out (rs_sock example_responder)))
         (sk_out (rs_sock rs')), rk_calls = [], rk_timeouts = []\<rparr>\<rparr>) 500 = Inr (CPLUS_SUCCESS, clt') \<and>
     ipc_conn_proc (conn_completed (Some (answering rev)) example_memory) example_memory (example_conn True)
       (Received (drop (length (sk_out example_sock)) (sk_out (cl_out clt')))) (example_responder, []) =
       Some (Inr (c', rs', [])) \<and>
     cl_seqn clt' = 0 \<and> rk_in (cl_in clt') = []"
  using ipc_heartbeat_acknowledged [of "example_conn True" example_memory example_responder
      "\<lparr>cl_seqn = 255, cl_is_async = False, cl_out = example_sock,
        cl_in = \<lparr>rk_in = [], rk_calls = [], rk_timeouts = []\<rparr>\<rparr>" 500 rev "[]"]
  by (simp add: example_ends ACCUMULATE_SEQUENCE_NUMBER_def)

text \<open>The client's own connection: nothing is done with a packet except to acknowledge a heartbeat.\<close>

interpretation client_handler: packet_handler "conn_completed None al" "\<lambda>s. True"
    "\<lambda>m. fst (snd m) \<noteq> IPC_CMD_HEARTBEAT" "\<lambda>s. s" "\<lambda>m v. v"
  for al :: alloc
  by unfold_locales
    (auto simp: carries_def conn_completed_def packet_analyze_completed_def)

lemma take_response_copies:
  assumes "carries (cn_packet c) (q, k, d)" "cn_sock_error c = None"
    and "length d \<le> unat out_len" "0 < out_len" "out_len \<le> RSIZE_MAX_MEM" "unat out_len \<le> length room"
  shows "take_response None c out_len (Some room) =
    Inr (Inr (int (length d)), Some (d @ drop (length d) room))"
proof -
  have len: "pk_data_len (cn_packet c) = of_nat (length d)" "length d \<le> 512"
    and ptr: "points_to (pk_data (cn_packet c)) d"
    using assms(1) by (simp_all add: carries_def)
  have un: "unat (of_nat (length d) :: u32) = length d" using len(2) by simp
  have si: "sint (of_nat (length d) :: u32) = int (length d)"
    using small_sint [of "of_nat (length d)"] un len(2) by simp
  have guards: "(RSIZE_MAX_MEM < out_len) = False" "(out_len < of_nat (length d)) = False" "out_len \<noteq> 0"
    using assms(3-5) un by (auto simp: not_less word_le_nat_alt)
  have nz: "(of_nat (length d) :: u32) = 0 \<longleftrightarrow> d = []"
    using un by (simp add: word_unat_eq_iff)
  show ?thesis
  proof (cases "d = []")
    case True
    then show ?thesis
      using assms(2) guards len(1)
      by (cases "pk_data (cn_packet c)") (simp_all add: take_response_def cplus_mem_cpy_ex_def)
  next
    case False
    obtain e where e: "pk_data (cn_packet c) = Some e" "take (length d) e = d"
      using False ptr by (auto simp: points_to_def split: option.splits)
    have fit: "length d \<le> length e" using arg_cong [OF e(2), of length] by simp
    show ?thesis
      using False assms(2,3,6) guards len(1) e un si nz fit
      by (simp add: take_response_def cplus_mem_cpy_ex_def read_obj_def write_obj_def)
  qed
qed

lemma response_awaited:
  assumes "ready c" "allocates al" "cn_status c \<noteq> NOT_CONNECTED" "cn_event c \<noteq> None"
    and "length (wire q IPC_CMD_RESPONSE d) \<le> 512" "elapsed < timeout"
    and "unat (cn_recv_bufs_offset c) + length (wire q IPC_CMD_RESPONSE d) \<le> 512 \<or>
      512 \<le> unat (cn_recv_bufs_offset c)"
  obtains c' where "await_response (conn_completed None al) al q
      [(Received (wire q IPC_CMD_RESPONSE d), elapsed)] timeout c s = Some (Inr (None, c', s))"
    "carries (cn_packet c') (q, IPC_CMD_RESPONSE, d)" "cn_sock_error c' = None"
proof -
  let ?m = "(q, IPC_CMD_RESPONSE, d) :: msg"
  let ?off = "if 512 \<le> cn_recv_bufs_offset c then 0 else unat (cn_recv_bufs_offset c)"
  have w: "stream [?m] = wire q IPC_CMD_RESPONSE d" by (simp add: wire_of_def)
  have room: "?off + length (stream [?m]) \<le> 512" using assms(5,7) unfolding w by (auto simp: word_le_nat_alt)
  have valid: "\<forall>m \<in> set [?m]. fst (snd m) \<noteq> IPC_CMD_HEARTBEAT" by (simp add: cmds)
  obtain c' s' where run: "ipc_conn_proc (conn_completed None al) al c (Received (stream [?m])) s = Some (Inr (c', s'))"
    "s' = fold (\<lambda>m v. v) [?m] s" "cn_sock_error c' = None" "cn_recv_count c' = int (length (stream [?m]))"
    "carries (cn_packet c') ?m \<and> cn_event c' = map_option (\<lambda>e. True) (cn_event c)"
    by (rule client_handler.proc_packets [where s = s and ala = al, OF assms(1-3) refl room TrueI valid])
      (rule that, simp_all)
  have "event_is_set c'" using run(5) assms(4) by (auto simp: event_is_set_def)
  moreover have "pk_seqn (cn_packet c') = q" using run(5) by (simp add: carries_def)
  moreover have "\<not> cn_recv_count c' \<le> 0" using run(4) unfolding w by simp
  ultimately have "await_response (conn_completed None al) al q
      [(Received (wire q IPC_CMD_RESPONSE d), elapsed)] timeout c s = Some (Inr (None, c', s))"
    using run(1,2) assms(6) unfolding w by (simp add: not_le)
  then show ?thesis using run(3,5) that by simp
qed

text \<open>C4.
  A synchronous request returns what the server's callback computes from its data: the bytes
  \<^verbatim>\<open>cplus_ipc_client_send_request\<close> sends, read by the server's connection, make it send bytes of which,
  when they arrive before the timeout, the client returns the length and writes the callback's answer
  to the caller's buffer.  The request is not empty; request and answer each arrive in one piece and fit
  the 512 bytes of a receive buffer behind what it already holds; the answer fits the caller's buffer, and the server
  has memory.  Outside these limits the code does less: an empty request does not wait for an answer
  (\<open>ipc_empty_request_not_answered\<close>), and an answer longer than the caller's buffer is lost
  (\<open>ipc_long_response_lost\<close>).
\<close>

theorem ipc_request_answered:
  assumes "ready c" "allocates al" "cn_status c \<noteq> NOT_CONNECTED" "responder_ok rs"
    and "unat (cn_recv_bufs_offset c) + 12 + length d \<le> 512" "d \<noteq> []"
    and "ready cc" "cn_status cc \<noteq> NOT_CONNECTED" "cn_event cc \<noteq> None"
    and "unat (cn_recv_bufs_offset cc) + 12 + length (h d) \<le> 512"
    and "sk_results (rs_sock rc) = []" "elapsed < timeout"
    and "length (h d) \<le> unat out_len" "0 < out_len" "out_len \<le> RSIZE_MAX_MEM" "unat out_len \<le> length room"
  shows "\<exists>c' rs' cc' rc'.
     cplus_ipc_client_send_request (\<lambda>s. rs_sock (fst s)) (\<lambda>k s. ((fst s)\<lparr>rs_sock := k\<rparr>, snd s))
       (conn_completed None al) al False seqn
       [(Received (drop (length (sk_out (rs_sock rs))) (sk_out (rs_sock rs'))), elapsed)]
       (of_nat (length d)) (Some d) out_len (Some room) timeout cc (rc, u) =
       Some (Inr (Inr (int (length (h d))), Some (h d @ drop (length (h d)) room),
         ACCUMULATE_SEQUENCE_NUMBER seqn, cc', (rc', u))) \<and>
     ipc_conn_proc (conn_completed (Some (answering h)) al) al c
       (Received (drop (length (sk_out (rs_sock rc))) (sk_out (rs_sock rc')))) (rs, log) =
       Some (Inr (c', rs', log @ [d]))"
proof -
  let ?q = "ucast (ACCUMULATE_SEQUENCE_NUMBER seqn) :: u8"
  let ?m = "(?q, IPC_CMD_REQUEST, d) :: msg"
  let ?w = "wire ?q IPC_CMD_RESPONSE (h d)"
  let ?rc' = "rc\<lparr>rs_sock := (rs_sock rc)\<lparr>sk_out := sk_out (rs_sock rc) @ wire_of ?m\<rparr>\<rparr>"
  have size: "length (wire_of ?m) = 12 + length d" by (simp add: wire_of_def)
  have rcv: "received ?m = [d]" by (simp add: received_def)
  obtain c' rs' where server: "ipc_conn_proc (conn_completed (Some (answering h)) al) al c
      (Received (wire_of ?m)) (rs, log) = Some (Inr (c', rs', log @ received ?m))"
    "sk_out (rs_sock rs') = sk_out (rs_sock rs) @ reply h ?m"
    by (rule server_replies [OF assms(1-4), of h ?m])
      (use assms(5,10) in \<open>simp_all add: answerable_def rcv size\<close>)
  have answer: "drop (length (sk_out (rs_sock rs))) (sk_out (rs_sock rs')) = ?w"
    using server(2) by (simp add: reply_request)
  have small: "length d < 2147483648" using assms(5) by simp
  have sent: "ipc_send_packet (rs_sock rc) \<lparr>pk_seqn = ?q, pk_cmd = IPC_CMD_REQUEST,
      pk_data_len = of_nat (length d), pk_data = Some d\<rparr> = (Inr (int (length d)), rs_sock ?rc')"
    using ipc_send_packet_wire [OF assms(11) cmds(3) small, of "Some d" ?q]
    by (simp add: points_to_def wire_of_def)
  obtain cc' where client: "await_response (conn_completed None al) al ?q [(Received ?w, elapsed)] timeout cc
      (?rc', u) = Some (Inr (None, cc', (?rc', u)))"
    "carries (cn_packet cc') (?q, IPC_CMD_RESPONSE, h d)" "cn_sock_error cc' = None"
    by (rule response_awaited [OF assms(7,2,8,9), where q = ?q and d = "h d" and elapsed = elapsed and timeout = timeout])
      (use assms(10,12) in simp_all)
  have "carries (cn_packet (reset_event cc')) (?q, IPC_CMD_RESPONSE, h d)" "cn_sock_error (reset_event cc') = None"
    using client(2,3) by (simp_all add: reset_event_def)
  note copy = take_response_copies [OF this assms(13-16)]
  have "\<not> int (length d) \<le> 0" using assms(6) by simp
  then have "cplus_ipc_client_send_request (\<lambda>s. rs_sock (fst s)) (\<lambda>k s. ((fst s)\<lparr>rs_sock := k\<rparr>, snd s))
       (conn_completed None al) al False seqn [(Received ?w, elapsed)]
       (of_nat (length d)) (Some d) out_len (Some room) timeout cc (rc, u) =
       Some (Inr (Inr (int (length (h d))), Some (h d @ drop (length (h d)) room),
         ACCUMULATE_SEQUENCE_NUMBER seqn, reset_event cc', (?rc', u)))"
    using sent client(1) copy
    by (simp add: cplus_ipc_client_send_request_def Let_def del: await_response.simps)
  then show ?thesis
    using server(1) answer rcv
    by (intro exI [of _ c'] exI [of _ rs'] exI [of _ "reset_event cc'"] exI [of _ ?rc']) simp
qed

theorem ipc_request_answered_witness:
  "\<exists>c' rs' cc' rc'.
     cplus_ipc_client_send_request (\<lambda>s. rs_sock (fst s)) (\<lambda>k s. ((fst s)\<lparr>rs_sock := k\<rparr>, snd s))
       (conn_completed None example_memory) example_memory False 41
       [(Received (drop (length (sk_out (rs_sock example_responder))) (sk_out (rs_sock rs'))), 3)]
       3 (Some [97, 98, 99]) 4 (Some [1, 2, 3, 4]) 1000 (example_conn False) (example_responder, ()) =
       Some (Inr (Inr 3, Some [99, 98, 97, 4], 42, cc', (rc', ()))) \<and>
     ipc_conn_proc (conn_completed (Some (answering rev)) example_memory) example_memory (example_conn True)
       (Received (drop (length (sk_out (rs_sock example_responder))) (sk_out (rs_sock rc')))) (example_responder, []) =
       Some (Inr (c', rs', [[97, 98, 99]]))"
  using ipc_request_answered [of "example_conn True" example_memory example_responder "[97, 98, 99]"
      "example_conn False" rev example_responder 3 1000 4 "[1, 2, 3, 4]" 41 "()" "[]"]
  by (simp add: example_ends ACCUMULATE_SEQUENCE_NUMBER_def RSIZE_MAX_MEM_def word_le_nat_alt
      word_less_nat_alt)

section \<open>Where data and time are lost\<close>

text \<open>
  A request without data is sent, but the client does not wait for its answer: it returns success
  at once, whatever arrives later, and the caller's buffer keeps what it held.
\<close>

theorem ipc_empty_request_not_answered:
  assumes "sk_results (rs_sock rc) = []"
  shows "\<exists>rc'. cplus_ipc_client_send_request (\<lambda>s. rs_sock (fst s)) (\<lambda>k s. ((fst s)\<lparr>rs_sock := k\<rparr>, snd s))
      f al False seqn calls 0 None out_len out timeout c (rc, u) =
    Some (Inr (Inr CPLUS_SUCCESS, out, ACCUMULATE_SEQUENCE_NUMBER seqn, c, (rc', u))) \<and>
    sk_out (rs_sock rc') = sk_out (rs_sock rc) @ wire (ucast (ACCUMULATE_SEQUENCE_NUMBER seqn)) IPC_CMD_REQUEST []"
  using ipc_send_packet_wire [OF assms cmds(3), of "[]" None "ucast (ACCUMULATE_SEQUENCE_NUMBER seqn)"]
  by (simp add: cplus_ipc_client_send_request_def Let_def points_to_def)

theorem ipc_empty_request_not_answered_witness:
  "\<exists>rc'. cplus_ipc_client_send_request (\<lambda>s. rs_sock (fst s)) (\<lambda>k s. ((fst s)\<lparr>rs_sock := k\<rparr>, snd s))
      (conn_completed None example_memory) example_memory False 41 [] 0 None 4 (Some [1, 2, 3, 4]) 1000
      (example_conn False) (example_responder, ()) =
    Some (Inr (Inr CPLUS_SUCCESS, Some [1, 2, 3, 4], 42, example_conn False, (rc', ())))"
  using ipc_empty_request_not_answered [of example_responder "conn_completed None example_memory" example_memory
      41 "[]" 4 "Some [1, 2, 3, 4]" 1000 "example_conn False" "()"]
  by (auto simp: example_ends ACCUMULATE_SEQUENCE_NUMBER_def)

text \<open>
  A response longer than the caller's buffer is lost silently: the copy is refused, the buffer keeps
  what it held, and the request still returns the length of the response as if it had been delivered.
\<close>

theorem ipc_long_response_lost:
  assumes "carries (cn_packet c) (q, k, d)" "cn_sock_error c = None" "0 < out_len" "unat out_len < length d"
  shows "take_response None c out_len (Some room) = Inr (Inr (int (length d)), Some room)"
proof -
  have len: "pk_data_len (cn_packet c) = of_nat (length d)" "length d \<le> 512"
    and ptr: "points_to (pk_data (cn_packet c)) d"
    using assms(1) by (simp_all add: carries_def)
  have un: "unat (of_nat (length d) :: u32) = length d" using len(2) by simp
  have si: "sint (of_nat (length d) :: u32) = int (length d)"
    using small_sint [of "of_nat (length d)"] un len(2) by simp
  have guards: "out_len < of_nat (length d)" "out_len \<noteq> 0" "RSIZE_MAX_MEM < out_len = False"
    using assms(3,4) un len(2) by (auto simp: word_less_nat_alt RSIZE_MAX_MEM_def)
  obtain e where e: "pk_data (cn_packet c) = Some e"
    using assms(4) ptr by (auto simp: points_to_def split: option.splits)
  have "cplus_mem_cpy_ex (Some room) out_len (Some e) (of_nat (length d)) = Inr (Inl EINVAL)"
    using guards by (simp add: cplus_mem_cpy_ex_def)
  then show ?thesis
    using assms(2) guards(2) len(1) e si by (simp add: take_response_def)
qed

theorem ipc_long_response_lost_witness:
  "take_response None ((example_conn False)\<lparr>cn_packet := \<lparr>pk_seqn = 1, pk_cmd = IPC_CMD_RESPONSE,
     pk_data_len = 3, pk_data = Some [7, 8, 9]\<rparr>\<rparr>) 2 (Some [0, 0]) = Inr (Inr 3, Some [0, 0])"
  using ipc_long_response_lost [of "(example_conn False)\<lparr>cn_packet := \<lparr>pk_seqn = 1,
      pk_cmd = IPC_CMD_RESPONSE, pk_data_len = 3, pk_data = Some [7, 8, 9]\<rparr>\<rparr>" 1 IPC_CMD_RESPONSE
      "[7, 8, 9]" 2 "[0, 0]"]
  by (simp add: carries_def points_to_def example_conn_def conn_init_def word_less_nat_alt)

text \<open>
  A packet whose data arrives in two pieces is corrupted: when only part of the data has been received
  and the rest of it would still fit the receive buffer, the stage machine takes the missing bytes from
  whatever the buffer held before, goes on to the end tag, and moves past bytes that have not come yet.
\<close>

theorem ipc_short_read_takes_stale_bytes:
  assumes "cn_stage c = RECV_DATA" "databufs_ok c" "allocates al" "cn_databufs_size c \<le> RSIZE_MAX_MEM"
    and "cn_recv_bufs_size c = 512" "length (cn_recv_bufs c) = 512"
    and "n = unat (cn_recv_bufs_offset c)" "0 < cn_recv_count c"
    and "len = unat (pk_data_len (cn_packet c))" "cn_recv_count c < int len" "n + len \<le> 512"
  shows "\<exists>c' room. ipc_packet_analyze f al c s = Some (Inr (c', s)) \<and> cn_stage c' = RECV_TAIL \<and>
     pk_data (cn_packet c') = Some room \<and> take len room = take len (drop n (cn_recv_bufs c)) \<and>
     int (unat (cn_recv_bufs_offset c')) = int n + int len \<and> int n + cn_recv_count c < int n + int len"
proof -
  let ?d = "take len (drop n (cn_recv_bufs c))"
  define N where "N = n + nat (cn_recv_count c)"
  have len: "length ?d = len" using assms(6,11) by simp
  have N: "n < N" "N < n + len" using assms(8,10) by (simp_all add: N_def)
  have pos: "?d \<noteq> []" using len N by auto
  have at: "at c n = c" by (simp add: at_def assms(7))
  have dl: "pk_data_len (cn_packet c) = of_nat (length ?d)" unfolding len by (simp add: assms(9))
  have count: "word_of_int (cn_recv_count c) = (of_nat (nat (cn_recv_count c)) :: u32)"
    using assms(8) by simp
  have walker: "word_of_int (cn_recv_count c) + cn_recv_bufs_offset c = (of_nat N :: u32)"
    unfolding count by (simp add: N_def assms(7))
  have "N \<le> 512" "n + length ?d \<le> 512" "take (length ?d) (drop n (cn_recv_bufs c)) = ?d"
    using N assms(11) len by simp_all
  note pieces = this
  obtain room sz where step: "analyze_loop f al (of_nat N) (at c n) s = analyze_loop f al (of_nat N)
     (at (c\<lparr>cn_databufs := Some room, cn_databufs_size := sz,
        cn_packet := (cn_packet c)\<lparr>pk_data := Some room\<rparr>, cn_stage := RECV_TAIL\<rparr>) (n + length ?d)) s"
    "take (length ?d) room = ?d"
    by (rule data_field [OF N(1) pieces assms(1) pos assms(2,3) dl assms(4-6)])
  note step = step [unfolded len]
  let ?c' = "at (c\<lparr>cn_databufs := Some room, cn_databufs_size := sz,
        cn_packet := (cn_packet c)\<lparr>pk_data := Some room\<rparr>, cn_stage := RECV_TAIL\<rparr>) (n + len)"
  have un: "unat (of_nat (n + len) :: u32) = n + len" "unat (of_nat N :: u32) = N"
    using assms(11) N by (intro unat_of_nat_u32; simp)+
  have "\<not> (of_nat (n + len) :: u32) < of_nat N"
    using N un by (simp add: word_less_nat_alt del: of_nat_add)
  then have "analyze_loop f al (of_nat N) ?c' s = Some (Inr (?c', s))"
    by (subst analyze_loop.simps) simp
  then have run: "ipc_packet_analyze f al c s = Some (Inr (?c', s))"
    using step(1) walker at by (simp add: ipc_packet_analyze_def)
  have "unat (cn_recv_bufs_offset ?c') = n + len" unfolding at_simps by (rule un(1))
  then have offset: "int (unat (cn_recv_bufs_offset ?c')) = int n + int len"
    by (rule arg_cong [of _ _ int, THEN trans]) (rule of_nat_add)
  show ?thesis
    by (intro exI [of _ ?c'] exI [of _ room] conjI run offset step(2)) (use assms(10) in simp_all)
qed

theorem ipc_short_read_takes_stale_bytes_witness:
  "\<exists>c' room. ipc_packet_analyze None example_memory ((example_conn True)\<lparr>cn_stage := RECV_DATA,
       cn_packet := \<lparr>pk_seqn = 1, pk_cmd = 1, pk_data_len = 4, pk_data = None\<rparr>,
       cn_recv_bufs := replicate 9 0 @ [97, 98] @ replicate 501 0,
       cn_recv_bufs_offset := 9, cn_recv_count := 2\<rparr>) () = Some (Inr (c', ())) \<and>
     cn_stage c' = RECV_TAIL \<and> pk_data (cn_packet c') = Some room \<and> take 4 room = [97, 98, 0, 0]"
proof -
  define bufs :: "u8 list" where "bufs = replicate 9 0 @ [97, 98] @ replicate 501 0"
  let ?c = "(example_conn True)\<lparr>cn_stage := RECV_DATA,
       cn_packet := \<lparr>pk_seqn = 1, pk_cmd = 1, pk_data_len = 4, pk_data = None\<rparr>,
       cn_recv_bufs := bufs, cn_recv_bufs_offset := 9, cn_recv_count := 2\<rparr>"
  have size: "length bufs = 512" by (simp add: bufs_def)
  have cells: "take 4 (drop 9 bufs) = [97, 98, 0, 0]"
    by (simp add: bufs_def drop_replicate take_Cons' take_replicate) (simp add: numeral_2_eq_2)
  have c: "databufs_ok ?c" "cn_databufs_size ?c \<le> RSIZE_MAX_MEM" "cn_recv_bufs_size ?c = 512"
    "length (cn_recv_bufs ?c) = 512"
    by (simp_all add: example_conn_def conn_init_def databufs_ok_def RSIZE_MAX_MEM_def word_le_nat_alt size)
  have p: "cn_stage ?c = RECV_DATA" "9 = unat (cn_recv_bufs_offset ?c)" "0 < cn_recv_count ?c"
    "4 = unat (pk_data_len (cn_packet ?c))" "cn_recv_count ?c < int 4" "9 + 4 \<le> (512 :: nat)"
    by simp_all
  have bytes: "take 4 (drop 9 (cn_recv_bufs ?c)) = [97, 98, 0, 0]" using cells by simp
  show ?thesis unfolding bufs_def [symmetric]
    by (rule ipc_short_read_takes_stale_bytes [OF p(1) c(1) example_ends(1) c(2-4) p(2-6),
          unfolded bytes, THEN exE])
      (elim exE conjE, intro exI conjI)
qed

text \<open>The client forgives a packet with another sequence number only when it is one or two behind: never
  when the numbers have wrapped round, so that after the 255 a late answer to the request before makes
  the next one fail.
\<close>

theorem ipc_tolerance_stops_at_wrap:
  "sequence_diff req rcv < TOLERANCE_TO_DIFF_SEQUENCE \<longleftrightarrow> unat rcv < unat req \<and> unat req - unat rcv \<le> 2"
proof -
  have "unat x < 2 ^ LENGTH(8)" for x :: u8 by (rule unsigned_less)
  then have byte: "unat x < 256" for x :: u8 by simp
  then have b: "unat req \<le> 255" "unat rcv \<le> 255" by (simp_all add: less_Suc_eq_le [of _ 255, simplified])
  have u: "unat (ucast x :: u32) = unat x" for x :: u8
    using byte [of x] by (simp add: unsigned_ucast_eq take_bit_nat_eq_self)
  show ?thesis
  proof (cases "rcv < req")
    case True
    then have lt: "unat rcv < unat req" by (simp add: word_less_nat_alt)
    then have "unat (ucast req - ucast rcv :: u32) = unat req - unat rcv"
      by (subst unat_sub) (simp_all add: word_le_nat_alt u)
    with lt True show ?thesis
      by (auto simp: sequence_diff_def TOLERANCE_TO_DIFF_SEQUENCE_def word_less_nat_alt)
  next
    case False
    then have ge: "unat req \<le> unat rcv" by (simp add: word_less_nat_alt not_less)
    have "unat (255 - ucast req :: u32) = 255 - unat req"
      using b by (subst unat_sub) (simp_all add: word_le_nat_alt u)
    then have "unat ((255 - ucast req) + ucast rcv :: u32) = 255 - unat req + unat rcv"
      using b by (simp add: unat_word_ariths u)
    then show ?thesis
      using False ge b by (simp add: sequence_diff_def TOLERANCE_TO_DIFF_SEQUENCE_def word_less_nat_alt)
  qed
qed

text \<open>
  The time the client waits is not bounded by the timeout it was given: when the first bytes of an
  answer come later than the timeout, what remains of it wraps round, and the next call waits up to
  \<open>2 ^ 32 - (elapsed - timeout)\<close> milliseconds.
\<close>

theorem ipc_recv_timeout_wraps:
  assumes "rk_in inp = [83, 84, 88]" "rk_calls inp = [(None, elapsed), (Some (- 1), e2)]" "timeout < elapsed"
  shows "\<exists>inp' left. ipc_recv_packet al inp p out_len out timeout = Inr (CPLUS_FAIL, p, out, inp') \<and>
     rk_timeouts inp' = rk_timeouts inp @ [timeout, left] \<and>
     unat left = 4294967296 - (unat elapsed - unat timeout)"
proof -
  have "elapsed - timeout \<noteq> 0" using assms(3) by auto
  then have "unat (- (elapsed - timeout)) = 4294967296 - unat (elapsed - timeout)"
    by (rule unat_uminus_u32)
  moreover have "unat (elapsed - timeout) = unat elapsed - unat timeout"
    using assms(3) by (intro unat_sub) simp
  ultimately have left: "unat (timeout - elapsed) = 4294967296 - (unat elapsed - unat timeout)"
    by simp
  have "ipc_recv_packet al inp p out_len out timeout = Inr (CPLUS_FAIL, p, out,
      inp\<lparr>rk_in := [], rk_calls := [], rk_timeouts := rk_timeouts inp @ [timeout, timeout - elapsed]\<rparr>)"
    using assms(1,2) by (simp add: ipc_recv_packet_def cplus_socket_recv_def
      IPC_CONN_PACKET_TAG_SIZE_def IPC_CONN_PACKET_BEGIN_TAG_def CPLUS_FAIL_def)
  with left show ?thesis
    by (intro exI [of _ "inp\<lparr>rk_in := [], rk_calls := [], rk_timeouts := rk_timeouts inp @ [timeout, timeout - elapsed]\<rparr>"]
      exI [of _ "timeout - elapsed"]) simp
qed

theorem ipc_recv_timeout_wraps_witness:
  "\<exists>inp' left. ipc_recv_packet example_memory \<lparr>rk_in = [83, 84, 88],
       rk_calls = [(None, 501), (Some (- 1), 0)], rk_timeouts = []\<rparr> empty_packet 0 None 500 =
       Inr (CPLUS_FAIL, empty_packet, None, inp') \<and>
     rk_timeouts inp' = [500, left] \<and> unat left = 4294967295"
  using ipc_recv_timeout_wraps [of "\<lparr>rk_in = [83, 84, 88],
       rk_calls = [(None, 501), (Some (- 1), 0)], rk_timeouts = []\<rparr>" 501 0 500 example_memory
       empty_packet 0 None]
  by (simp add: word_less_nat_alt)

end
