(* ===== verification/Sharedmem.thy ===== *)
theory Sharedmem
  imports Allocator Clib
begin

text \<open>
  Named shared memory, \<^verbatim>\<open>src/sharedmem.c\<close>: a process creates or opens an object by name, maps
  it, and releases it; the process that created it also removes the name.  The system calls
  are modelled as far as the source uses them: a kernel with the named objects, and for each
  process its descriptors (a new one is the lowest that is free, as POSIX requires), its
  mappings, its heap and its \<^verbatim>\<open>struct shared_mem\<close> objects.  A system call can also fail for a
  reason of its own; which ones do in one call of the library is the argument \<open>fl\<close>.
\<close>

section \<open>The system\<close>

datatype open_file = Shm nat | Other_file nat

datatype syscall = Shm_open | Shm_create | Ftruncate | Fstat | Mmap

type_synonym failures = "syscall \<Rightarrow> errno option"

record kernel =
  kn_names :: "u8 list \<rightharpoonup> nat"
  kn_size :: "nat \<Rightarrow> nat"
  kn_next :: nat

record shared_mem =
  sm_fd :: int
  sm_addr :: ptr
  sm_size :: u32
  sm_is_owner :: bool
  sm_owner_id :: int
  sm_name :: "u8 list"

text \<open>A mapping is an address with the object and the length that are mapped there.\<close>

record process =
  pr_id :: int
  pr_heap :: mheap
  pr_shms :: "ptr \<rightharpoonup> shared_mem"
  pr_fds :: "(int \<times> open_file) list"
  pr_maps :: "(ptr \<times> nat \<times> nat) list"
  pr_place :: "ptr list \<Rightarrow> ptr"

type_synonym proc_state = "process \<times> kernel"

definition MAP_FAILED :: ptr where "MAP_FAILED = -1"

definition lowest_fd :: "process \<Rightarrow> int" where
  "lowest_fd P = lowest_unused (map fst (pr_fds P))"

definition alloc_fd :: "open_file \<Rightarrow> process \<Rightarrow> int \<times> process" where
  "alloc_fd f P = (lowest_fd P, P\<lparr>pr_fds := (lowest_fd P, f) # pr_fds P\<rparr>)"

definition close_fd :: "int \<Rightarrow> process \<Rightarrow> process" where
  "close_fd fd P = P\<lparr>pr_fds := filter (\<lambda>e. fst e \<noteq> fd) (pr_fds P)\<rparr>"

definition munmap :: "ptr \<Rightarrow> process \<Rightarrow> process" where
  "munmap a P = P\<lparr>pr_maps := filter (\<lambda>e. fst e \<noteq> a) (pr_maps P)\<rparr>"

definition shm_unlink :: "u8 list \<Rightarrow> kernel \<Rightarrow> kernel" where
  "shm_unlink n K = K\<lparr>kn_names := (kn_names K)(n := None)\<rparr>"

text \<open>\<^verbatim>\<open>shm_open\<close> with \<^verbatim>\<open>O_RDWR\<close>, and with \<^verbatim>\<open>O_CREAT | O_EXCL | O_RDWR\<close>.\<close>

definition shm_open :: "failures \<Rightarrow> u8 list \<Rightarrow> proc_state \<Rightarrow> int cresult \<times> proc_state" where
  "shm_open fl n = (\<lambda>(P, K). case fl Shm_open of
     Some e \<Rightarrow> (Inl e, (P, K))
   | None \<Rightarrow> (case kn_names K n of
       None \<Rightarrow> (Inl ENOENT, (P, K))
     | Some i \<Rightarrow> (case alloc_fd (Shm i) P of (fd, P1) \<Rightarrow> (Inr fd, (P1, K)))))"

definition shm_create :: "failures \<Rightarrow> u8 list \<Rightarrow> proc_state \<Rightarrow> int cresult \<times> proc_state" where
  "shm_create fl n = (\<lambda>(P, K). case fl Shm_create of
     Some e \<Rightarrow> (Inl e, (P, K))
   | None \<Rightarrow> (case kn_names K n of
       Some i \<Rightarrow> (Inl EEXIST, (P, K))
     | None \<Rightarrow> (case alloc_fd (Shm (kn_next K)) P of (fd, P1) \<Rightarrow>
         (Inr fd, (P1, K\<lparr>kn_names := (kn_names K)(n \<mapsto> kn_next K),
                          kn_size := (kn_size K)(kn_next K := 0), kn_next := kn_next K + 1\<rparr>)))))"

definition ftruncate :: "failures \<Rightarrow> int \<Rightarrow> u32 \<Rightarrow> proc_state \<Rightarrow> unit cresult \<times> proc_state" where
  "ftruncate fl fd n = (\<lambda>(P, K). case fl Ftruncate of
     Some e \<Rightarrow> (Inl e, (P, K))
   | None \<Rightarrow> (case map_of (pr_fds P) fd of
       Some (Shm i) \<Rightarrow> (Inr (), (P, K\<lparr>kn_size := (kn_size K)(i := unat n)\<rparr>))
     | _ \<Rightarrow> (Inl EBADF, (P, K))))"

definition fstat_size :: "failures \<Rightarrow> int \<Rightarrow> proc_state \<Rightarrow> nat cresult" where
  "fstat_size fl fd = (\<lambda>(P, K). case fl Fstat of
     Some e \<Rightarrow> Inl e
   | None \<Rightarrow> (case map_of (pr_fds P) fd of Some (Shm i) \<Rightarrow> Inr (kn_size K i) | _ \<Rightarrow> Inl EBADF))"

definition mmap :: "failures \<Rightarrow> u32 \<Rightarrow> int \<Rightarrow> proc_state \<Rightarrow> ptr cresult \<times> proc_state" where
  "mmap fl n fd = (\<lambda>(P, K). case fl Mmap of
     Some e \<Rightarrow> (Inl e, (P, K))
   | None \<Rightarrow> if n = 0 then (Inl EINVAL, (P, K))
     else (let a = pr_place P (map fst (pr_maps P)) in case map_of (pr_fds P) fd of
        Some (Shm i) \<Rightarrow> if a = MAP_FAILED then (Inl ENOMEM, (P, K))
          else (Inr a, (P\<lparr>pr_maps := (a, i, unat n) # pr_maps P\<rparr>, K))
      | _ \<Rightarrow> (Inl EBADF, (P, K))))"

text \<open>The child of \<^verbatim>\<open>fork\<close> has a copy of the process and an identity of its own.\<close>

definition fork :: "int \<Rightarrow> process \<Rightarrow> process" where
  "fork pid P = P\<lparr>pr_id := pid\<rparr>"

section \<open>Access to an object\<close>

definition SHAREDMEM_MAX_SIZE :: u32 where "SHAREDMEM_MAX_SIZE = 1 * 1073741824"
definition SHAREDMEM_NAME_MAX_SIZE :: nat where "SHAREDMEM_NAME_MAX_SIZE = 63"

text \<open>\<open>SHAREDMEM_NAMED_PATTERN\<close> is \<open>/.cplus.shm_%s\<close>; \<open>sizeof\<close> counts its terminator.\<close>

definition SHAREDMEM_NAMED_PATTERN :: "u8 list" where
  "SHAREDMEM_NAMED_PATTERN = [47, 46, 99, 112, 108, 117, 115, 46, 115, 104, 109, 95, 37, 115]"

definition SHAREDMEM_NAMED_PATTERN_SIZE :: nat where
  "SHAREDMEM_NAMED_PATTERN_SIZE = length SHAREDMEM_NAMED_PATTERN + 1 - 3"

definition shm_prefix :: "u8 list" where
  "shm_prefix = take (length SHAREDMEM_NAMED_PATTERN - 2) SHAREDMEM_NAMED_PATTERN"

definition get_shm :: "process \<Rightarrow> ptr \<Rightarrow> shared_mem exec" where
  "get_shm P a = (case pr_shms P a of None \<Rightarrow> Inl Assert_fail | Some sm \<Rightarrow> Inr sm)"

definition cplus_sharedmem_is_owner :: "process \<Rightarrow> ptr \<Rightarrow> bool exec" where
  "cplus_sharedmem_is_owner P a =
     exec_bind (get_shm P a) (\<lambda>sm. Inr (sm_is_owner sm \<and> pr_id P = sm_owner_id sm))"

definition cplus_sharedmem_get_size :: "process \<Rightarrow> ptr \<Rightarrow> u32 exec" where
  "cplus_sharedmem_get_size P a = exec_bind (get_shm P a) (\<lambda>sm. Inr (sm_size sm))"

definition cplus_sharedmem_get_name :: "process \<Rightarrow> ptr \<Rightarrow> u8 list exec" where
  "cplus_sharedmem_get_name P a = exec_bind (get_shm P a) (\<lambda>sm.
     c_str (Some (drop (length SHAREDMEM_NAMED_PATTERN - 2) (sm_name sm))))"

definition cplus_sharedmem_alloc :: "process \<Rightarrow> ptr \<Rightarrow> ptr exec" where
  "cplus_sharedmem_alloc P a = exec_bind (get_shm P a) (\<lambda>sm. Inr (sm_addr sm))"

definition cplus_sharedmem_check :: "process \<Rightarrow> ptr \<Rightarrow> bool" where
  "cplus_sharedmem_check P a \<longleftrightarrow> a \<noteq> CPLUS_NULL \<and> pr_shms P a \<noteq> None"

section \<open>Release\<close>

definition cplus_sharedmem_delete :: "ptr \<Rightarrow> proc_state \<Rightarrow> proc_state exec" where
  "cplus_sharedmem_delete a = (\<lambda>(P, K). exec_bind (get_shm P a) (\<lambda>sm.
     let P1 = (if sm_addr sm \<noteq> MAP_FAILED then munmap (sm_addr sm) P else P);
         P2 = (if sm_fd sm \<noteq> INVALID_FD then close_fd (sm_fd sm) P1 else P1)
     in exec_bind (if sm_is_owner sm \<and> pr_id P2 = sm_owner_id sm
            then exec_bind (c_str (Some (sm_name sm))) (\<lambda>n. Inr (shm_unlink n K)) else Inr K) (\<lambda>K1.
          Inr (P2\<lparr>pr_heap := cplus_mgr_free (pr_heap P2) a, pr_shms := (pr_shms P2)(a := None)\<rparr>, K1))))"

section \<open>Construction\<close>

text \<open>The steps work on the fields of the new object and on the system.\<close>

type_synonym shm_step = "(shared_mem \<times> proc_state) step"

definition blank_shm :: "u32 \<Rightarrow> shared_mem" where
  "blank_shm n = \<lparr>sm_fd = INVALID_FD, sm_addr = MAP_FAILED, sm_size = n, sm_is_owner = False,
     sm_owner_id = -1, sm_name = replicate (SHAREDMEM_NAME_MAX_SIZE + 1) 0\<rparr>"

definition name_step :: "u8 list \<Rightarrow> shm_step" where
  "name_step name = (\<lambda>(sm, S). exec_bind
     (cplus_str_printf (Some (sm_name sm)) (of_nat SHAREDMEM_NAME_MAX_SIZE) (shm_prefix @ name)) (\<lambda>(res, out).
        let sm1 = sm\<lparr>sm_name := (case out of None \<Rightarrow> sm_name sm | Some b \<Rightarrow> b)\<rparr>
        in Inr (if res < 0 then Inl ENONE else Inr (), (sm1, S))))"

text \<open>Opening an existing object takes its size; creating one sets it.\<close>

definition stat_step :: "failures \<Rightarrow> int \<Rightarrow> shm_step" where
  "stat_step fl fd = (\<lambda>(sm, S). let sm1 = sm\<lparr>sm_fd := fd, sm_is_owner := False\<rparr> in
     Inr (case fstat_size fl fd S of
        Inl e \<Rightarrow> (Inl e, (sm1, S))
      | Inr n \<Rightarrow> (Inr (), (sm1\<lparr>sm_size := of_nat n\<rparr>, S))))"

definition truncate_step :: "failures \<Rightarrow> int \<Rightarrow> shm_step" where
  "truncate_step fl fd = (\<lambda>(sm, (P, K)).
     let sm1 = sm\<lparr>sm_fd := fd, sm_is_owner := True, sm_owner_id := pr_id P\<rparr>
     in case ftruncate fl fd (sm_size sm1) (P, K) of (r, S1) \<Rightarrow> Inr (r, (sm1, S1)))"

definition open_step :: "failures \<Rightarrow> shm_step" where
  "open_step fl = (\<lambda>(sm, S). exec_bind (c_str (Some (sm_name sm))) (\<lambda>n.
     case shm_open fl n S of
       (Inl e, S1) \<Rightarrow> Inr (Inl e, (sm, S1))
     | (Inr fd, S1) \<Rightarrow> stat_step fl fd (sm, S1)))"

definition create_step :: "failures \<Rightarrow> shm_step" where
  "create_step fl = (\<lambda>(sm, S). exec_bind (c_str (Some (sm_name sm))) (\<lambda>n.
     case shm_create fl n S of
       (Inl e, S1) \<Rightarrow> Inr (Inl e, (sm, S1))
     | (Inr fd, S1) \<Rightarrow> truncate_step fl fd (sm, S1)))"

definition open_or_create_step :: "failures \<Rightarrow> shm_step" where
  "open_or_create_step fl = (\<lambda>(sm, S). exec_bind (c_str (Some (sm_name sm))) (\<lambda>n.
     case shm_open fl n S of
       (Inr fd, S1) \<Rightarrow> stat_step fl fd (sm, S1)
     | (Inl e, S1) \<Rightarrow> if e = ENOENT then create_step fl (sm, S1) else Inr (Inl e, (sm, S1))))"

definition mmap_step :: "failures \<Rightarrow> shm_step" where
  "mmap_step fl = (\<lambda>(sm, S). case mmap fl (sm_size sm) (sm_fd sm) S of
     (Inl e, S1) \<Rightarrow> Inr (Inl e, (sm\<lparr>sm_addr := MAP_FAILED\<rparr>, S1))
   | (Inr a, S1) \<Rightarrow> Inr (Inr (), (sm\<lparr>sm_addr := a\<rparr>, S1)))"

text \<open>The descriptor is closed; the field keeps its number.\<close>

definition close_step :: shm_step where
  "close_step = (\<lambda>(sm, (P, K)).
     Inr (Inr (), (sm, (if sm_fd sm \<noteq> INVALID_FD then close_fd (sm_fd sm) P else P, K))))"

definition build_shm :: "shm_step list \<Rightarrow> u32 \<Rightarrow> proc_state \<Rightarrow> (ptr cresult \<times> proc_state) exec" where
  "build_shm steps n = (\<lambda>(P, K). case cplus_mgr_malloc (pr_heap P) of
     (Inl e, h) \<Rightarrow> Inr (Inl ENOMEM, (P\<lparr>pr_heap := h\<rparr>, K))
   | (Inr a, h) \<Rightarrow> exec_bind (until_exit steps (blank_shm n, (P\<lparr>pr_heap := h\<rparr>, K))) (\<lambda>(r, (sm, (P1, K1))).
       let P2 = P1\<lparr>pr_shms := (pr_shms P1)(a \<mapsto> sm)\<rparr>
       in case r of
            Inr _ \<Rightarrow> Inr (Inr a, (P2, K1))
          | Inl e \<Rightarrow> exec_bind (cplus_sharedmem_delete a (P2, K1)) (\<lambda>S. Inr (Inl e, S))))"

definition sharedmem_create :: "failures \<Rightarrow> u8 list \<Rightarrow> u32 \<Rightarrow> proc_state \<Rightarrow> (ptr cresult \<times> proc_state) exec" where
  "sharedmem_create fl name = build_shm [name_step name, create_step fl, mmap_step fl, close_step]"

definition sharedmem_open :: "failures \<Rightarrow> u8 list \<Rightarrow> proc_state \<Rightarrow> (ptr cresult \<times> proc_state) exec" where
  "sharedmem_open fl name = build_shm [name_step name, open_step fl, mmap_step fl, close_step] 0"

definition sharedmem_new :: "failures \<Rightarrow> u8 list \<Rightarrow> u32 \<Rightarrow> proc_state \<Rightarrow> (ptr cresult \<times> proc_state) exec" where
  "sharedmem_new fl name = build_shm [name_step name, open_or_create_step fl, mmap_step fl, close_step]"

text \<open>The entry points check the name and the size.\<close>

definition cplus_sharedmem_create ::
    "failures \<Rightarrow> buf \<Rightarrow> u32 \<Rightarrow> proc_state \<Rightarrow> (ptr cresult \<times> proc_state) exec" where
  "cplus_sharedmem_create fl name n S =
     (if name = None then Inr (Inl EINVAL, S)
      else exec_bind (c_str name) (\<lambda>s.
        if SHAREDMEM_NAME_MAX_SIZE < length s + SHAREDMEM_NAMED_PATTERN_SIZE then Inr (Inl EINVAL, S)
        else if 1 > n \<or> n > SHAREDMEM_MAX_SIZE then Inr (Inl EINVAL, S)
        else sharedmem_create fl s n S))"

definition cplus_sharedmem_open :: "failures \<Rightarrow> buf \<Rightarrow> proc_state \<Rightarrow> (ptr cresult \<times> proc_state) exec" where
  "cplus_sharedmem_open fl name S =
     (if name = None then Inr (Inl EINVAL, S)
      else exec_bind (c_str name) (\<lambda>s.
        if SHAREDMEM_NAME_MAX_SIZE < length s + SHAREDMEM_NAMED_PATTERN_SIZE then Inr (Inl EINVAL, S)
        else sharedmem_open fl s S))"

definition cplus_sharedmem_new ::
    "failures \<Rightarrow> buf \<Rightarrow> u32 \<Rightarrow> proc_state \<Rightarrow> (ptr cresult \<times> proc_state) exec" where
  "cplus_sharedmem_new fl name n S =
     (if name = None then Inr (Inl EINVAL, S)
      else exec_bind (c_str name) (\<lambda>s.
        if SHAREDMEM_NAME_MAX_SIZE < length s + SHAREDMEM_NAMED_PATTERN_SIZE then Inr (Inl EINVAL, S)
        else if 1 > n \<or> n > SHAREDMEM_MAX_SIZE then Inr (Inl EINVAL, S)
        else sharedmem_new fl s n S))"

end
