(* ===== verification/Sharedmem_Props.thy ===== *)
theory Sharedmem_Props
  imports Sharedmem
begin

text \<open>
  What the constructors of shared memory promise: a failed one leaves nothing behind, a
  successful one maps the object of its name, and only its creator removes the name.
\<close>

section \<open>The system\<close>

text \<open>The documented behaviour of \<^verbatim>\<open>mmap\<close>: a new mapping does not replace one in use.\<close>

definition place_law :: "(ptr list \<Rightarrow> ptr) \<Rightarrow> bool" where
  "place_law place \<longleftrightarrow> (\<forall>used. place used = MAP_FAILED \<or> place used \<notin> set used)"

definition proc_ok :: "process \<Rightarrow> bool" where
  "proc_ok P \<longleftrightarrow> mheap_inv (pr_heap P) \<and> dom (pr_shms P) \<subseteq> set (mh_live (pr_heap P)) \<and>
     place_law (pr_place P)"

lemma lowest_fd_free: "lowest_fd P \<notin> fst ` set (pr_fds P)" "lowest_fd P \<noteq> INVALID_FD"
  using lowest_unused_free [of "map fst (pr_fds P)"] by (auto simp: lowest_fd_def)

lemma close_new [simp]: "filter (\<lambda>e. fst e \<noteq> lowest_fd P) (pr_fds P) = pr_fds P"
  by (simp add: lowest_fd_def)

section \<open>Names\<close>

text \<open>The field holds at most 62 bytes of the path; the path a name leads to.\<close>

definition path_of :: "u8 list \<Rightarrow> u8 list" where
  "path_of name = take 62 (shm_prefix @ name)"

definition stored_name :: "u8 list \<Rightarrow> u8 list" where
  "stored_name name = path_of name @ 0 # replicate (63 - length (path_of name)) 0"

lemma pattern_length: "length SHAREDMEM_NAMED_PATTERN - 2 = 12"
  by (simp add: SHAREDMEM_NAMED_PATTERN_def)

lemma shm_prefix: "length shm_prefix = 12" "0 \<notin> set shm_prefix"
  by (simp_all add: shm_prefix_def SHAREDMEM_NAMED_PATTERN_def)

lemma path_of: "path_of name = shm_prefix @ take 50 name"
  by (simp add: path_of_def shm_prefix(1))

lemma c_str_stored: "0 \<notin> set name \<Longrightarrow> c_str (Some (stored_name name)) = Inr (path_of name)"
  unfolding stored_name_def using shm_prefix(2)
  by (intro c_str_terminated) (auto simp: path_of dest: in_set_takeD)

lemma name_step_blank:
  "name_step name (blank_shm n, S) = Inr (Inr (), ((blank_shm n)\<lparr>sm_name := stored_name name\<rparr>, S))"
  by (simp add: name_step_def blank_shm_def SHAREDMEM_NAME_MAX_SIZE_def cplus_str_printf_def write_obj_def
      stored_name_def path_of_def shm_prefix(1))

section \<open>An object under construction\<close>

text \<open>
  What a jump to \<^verbatim>\<open>exit\<close> can find: at most one new descriptor, one new mapping, and, when the
  object says that it is the owner, one new name.
\<close>

definition building :: "process \<Rightarrow> kernel \<Rightarrow> shared_mem \<times> proc_state \<Rightarrow> bool" where
  "building P0 K0 = (\<lambda>(sm, (P, K)). P = P0\<lparr>pr_fds := pr_fds P\<rparr> \<and>
     (sm_fd sm = INVALID_FD \<and> pr_fds P = pr_fds P0 \<or>
      sm_fd sm = lowest_fd P0 \<and> (\<exists>f. pr_fds P = (lowest_fd P0, f) # pr_fds P0)) \<and>
     sm_addr sm = MAP_FAILED \<and>
     (if sm_is_owner sm then sm_owner_id sm = pr_id P0 \<and>
        (\<exists>n. c_str (Some (sm_name sm)) = Inr n \<and> kn_names K0 n = None \<and>
           kn_names K = (kn_names K0)(n \<mapsto> kn_next K0))
      else kn_names K = kn_names K0) \<and>
     (\<forall>i < kn_next K0. kn_size K i = kn_size K0 i))"

text \<open>Before the descriptor there is.\<close>

definition unopened :: "u8 list \<Rightarrow> u32 \<Rightarrow> process \<Rightarrow> kernel \<Rightarrow> shared_mem \<times> proc_state \<Rightarrow> bool" where
  "unopened name n P0 K0 s \<longleftrightarrow> s = ((blank_shm n)\<lparr>sm_name := stored_name name\<rparr>, (P0, K0))"

text \<open>The object of the kernel that the new object stands for, created or found.\<close>

definition stands_for :: "u8 list \<Rightarrow> u32 \<Rightarrow> process \<Rightarrow> kernel \<Rightarrow> nat \<Rightarrow> shared_mem \<Rightarrow> kernel \<Rightarrow> bool" where
  "stands_for name n P0 K0 i sm K \<longleftrightarrow> sm_name sm = stored_name name \<and>
     (if sm_is_owner sm then sm_owner_id sm = pr_id P0 \<and> sm_size sm = n \<and> i = kn_next K0 \<and>
        kn_names K0 (path_of name) = None \<and>
        K = K0\<lparr>kn_names := (kn_names K0)(path_of name \<mapsto> i), kn_size := (kn_size K0)(i := unat n),
               kn_next := kn_next K0 + 1\<rparr>
      else kn_names K0 (path_of name) = Some i \<and> sm_size sm = of_nat (kn_size K0 i) \<and> K = K0)"

definition opened :: "u8 list \<Rightarrow> u32 \<Rightarrow> process \<Rightarrow> kernel \<Rightarrow> nat \<Rightarrow> shared_mem \<times> proc_state \<Rightarrow> bool" where
  "opened name n P0 K0 i = (\<lambda>(sm, (P, K)). P = P0\<lparr>pr_fds := (lowest_fd P0, Shm i) # pr_fds P0\<rparr> \<and>
     sm_fd sm = lowest_fd P0 \<and> sm_addr sm = MAP_FAILED \<and> stands_for name n P0 K0 i sm K)"

text \<open>The finished object.\<close>

definition finished :: "u8 list \<Rightarrow> u32 \<Rightarrow> process \<Rightarrow> kernel \<Rightarrow> nat \<Rightarrow> shared_mem \<times> proc_state \<Rightarrow> bool" where
  "finished name n P0 K0 i = (\<lambda>(sm, (P, K)).
     P = P0\<lparr>pr_maps := (sm_addr sm, i, unat (sm_size sm)) # pr_maps P0\<rparr> \<and>
     sm_addr sm \<noteq> MAP_FAILED \<and> sm_addr sm = pr_place P0 (map fst (pr_maps P0)) \<and> 0 < sm_size sm \<and>
     sm_fd sm = lowest_fd P0 \<and> stands_for name n P0 K0 i sm K)"

text \<open>The steps that obtain the descriptor.\<close>

definition obtains_fd :: "(bool \<Rightarrow> bool) \<Rightarrow> u8 list \<Rightarrow> u32 \<Rightarrow> shm_step \<Rightarrow> bool" where
  "obtains_fd own name n f \<longleftrightarrow> (\<forall>s r s' P0 K0. unopened name n P0 K0 s \<longrightarrow> f s = Inr (r, s') \<longrightarrow>
     building P0 K0 s' \<and> (r = Inr () \<longrightarrow> own (sm_is_owner (fst s')) \<and> (\<exists>i. opened name n P0 K0 i s')))"

lemma open_step_fd: "0 \<notin> set name \<Longrightarrow> obtains_fd (\<lambda>b. \<not> b) name n (open_step fl)"
  by (auto simp: obtains_fd_def unopened_def open_step_def c_str_stored shm_open_def alloc_fd_def stat_step_def
      fstat_size_def building_def opened_def stands_for_def blank_shm_def Let_def
      split: option.splits prod.splits sum.splits)

lemma create_step_fd: "0 \<notin> set name \<Longrightarrow> obtains_fd (\<lambda>b. b) name n (create_step fl)"
  by (auto simp: obtains_fd_def unopened_def create_step_def c_str_stored shm_create_def alloc_fd_def
      truncate_step_def ftruncate_def building_def opened_def stands_for_def blank_shm_def Let_def
      split: option.splits prod.splits sum.splits)

lemma open_or_create_step_fd: "0 \<notin> set name \<Longrightarrow> obtains_fd (\<lambda>b. True) name n (open_or_create_step fl)"
proof -
  assume q: "0 \<notin> set name"
  have "building P0 K0 s' \<and> (r = Inr () \<longrightarrow> (\<exists>i. opened name n P0 K0 i s'))"
    if u: "unopened name n P0 K0 s" and run: "open_or_create_step fl s = Inr (r, s')" for s r s' P0 K0
  proof -
    obtain res S1 where Pair: "shm_open fl (path_of name) (P0, K0) = (res, S1)" by (rule prod.exhaust)
    have s: "s = ((blank_shm n)\<lparr>sm_name := stored_name name\<rparr>, (P0, K0))" using u by (simp add: unopened_def)
    show ?thesis
    proof (cases res)
      case (Inr fd)
      then have "open_step fl s = Inr (r, s')"
        using run Pair s q by (simp add: open_or_create_step_def open_step_def c_str_stored)
      then show ?thesis using open_step_fd [OF q, of n fl] u unfolding obtains_fd_def by blast
    next
      case (Inl e)
      then have S1: "S1 = (P0, K0)"
        using Pair by (auto simp: shm_open_def split: option.splits prod.splits)
      show ?thesis
      proof (cases "e = ENOENT")
        case True
        then have "create_step fl s = Inr (r, s')"
          using run Pair Inl S1 s q by (simp add: open_or_create_step_def c_str_stored)
        then show ?thesis using create_step_fd [OF q, of n fl] u unfolding obtains_fd_def by blast
      next
        case False
        then have "r = Inl e" "s' = s"
          using run Pair Inl S1 s q by (simp_all add: open_or_create_step_def c_str_stored)
        then show ?thesis unfolding s by (simp add: building_def blank_shm_def)
      qed
    qed
  qed
  then show ?thesis unfolding obtains_fd_def by blast
qed

lemma opened_building: "\<lbrakk>0 \<notin> set name; opened name n P0 K0 i s\<rbrakk> \<Longrightarrow> building P0 K0 s"
  by (cases s) (auto simp: opened_def building_def stands_for_def c_str_stored)

text \<open>Mapping and closing.\<close>

lemma map_and_close:
  assumes q: "0 \<notin> set name" and o: "opened name n P0 K0 i s"
    and run: "until_exit [mmap_step fl, close_step] s = Inr (r, s')"
  shows "(case r of Inl e \<Rightarrow> building P0 K0 s' | Inr u \<Rightarrow> finished name n P0 K0 i s')"
proof -
  obtain sm P K where s: "s = (sm, (P, K))" by (cases s)
  have o': "P = P0\<lparr>pr_fds := (lowest_fd P0, Shm i) # pr_fds P0\<rparr>" "sm_fd sm = lowest_fd P0"
      "sm_addr sm = MAP_FAILED" "stands_for name n P0 K0 i sm K"
    using o by (simp_all add: opened_def s)
  show ?thesis
  proof (cases "fst (mmap fl (sm_size sm) (sm_fd sm) (P, K))")
    case (Inl e)
    then have "mmap fl (sm_size sm) (sm_fd sm) (P, K) = (Inl e, (P, K))"
      by (auto simp: mmap_def Let_def split: option.splits if_splits open_file.splits)
    moreover have "sm\<lparr>sm_addr := MAP_FAILED\<rparr> = sm" using o'(3) by simp
    ultimately have "r = Inl e" "s' = s" using run by (simp_all add: s mmap_step_def)
    then show ?thesis using opened_building [OF q o] by simp
  next
    case (Inr a)
    let ?P = "P\<lparr>pr_maps := (a, i, unat (sm_size sm)) # pr_maps P\<rparr>"
    have m: "mmap fl (sm_size sm) (sm_fd sm) (P, K) = (Inr a, (?P, K))" "a \<noteq> MAP_FAILED"
        "a = pr_place P (map fst (pr_maps P))" "sm_size sm \<noteq> 0"
      using Inr o'(1,2) by (auto simp: mmap_def Let_def split: option.splits if_splits)
    have "r = Inr ()" "s' = (sm\<lparr>sm_addr := a\<rparr>, (close_fd (lowest_fd P0) ?P, K))"
      using run m(1) o'(2) lowest_fd_free(2) [of P0] by (simp_all add: s mmap_step_def close_step_def)
    then show ?thesis using o' m(2-4)
      by (simp add: finished_def stands_for_def close_fd_def word_neq_0_conv)
  qed
qed

text \<open>A jump to \<^verbatim>\<open>exit\<close> undoes what was done.\<close>

lemma delete_building:
  assumes b: "building P0 K0 (sm, (P1, K1))" and ok: "mheap_inv (pr_heap P)" "pr_shms P a = None"
    and a: "cplus_mgr_malloc (pr_heap P) = (Inr a, h)" "P0 = P\<lparr>pr_heap := h\<rparr>"
  shows "\<exists>K'. cplus_sharedmem_delete a (P1\<lparr>pr_shms := (pr_shms P1)(a \<mapsto> sm)\<rparr>, K1) = Inr (P, K') \<and>
    kn_names K' = kn_names K0 \<and> (\<forall>i < kn_next K0. kn_size K' i = kn_size K0 i)"
proof -
  obtain fds where fds: "P1 = P0\<lparr>pr_fds := fds\<rparr>"
      "sm_fd sm = INVALID_FD \<and> fds = pr_fds P0 \<or>
       sm_fd sm = lowest_fd P0 \<and> (\<exists>f. fds = (lowest_fd P0, f) # pr_fds P0)"
    using b unfolding building_def by auto
  have B: "sm_addr sm = MAP_FAILED" "\<forall>i < kn_next K0. kn_size K1 i = kn_size K0 i"
      "if sm_is_owner sm then sm_owner_id sm = pr_id P0 \<and> (\<exists>n. c_str (Some (sm_name sm)) = Inr n \<and>
         kn_names K0 n = None \<and> kn_names K1 = (kn_names K0)(n \<mapsto> kn_next K0)) else kn_names K1 = kn_names K0"
    using b by (simp_all add: building_def)
  have closed: "(if sm_fd sm \<noteq> INVALID_FD then filter (\<lambda>e. fst e \<noteq> sm_fd sm) fds else fds) = pr_fds P"
    using fds(2) lowest_fd_free(2) [of P0] close_new [of P0] a(2) by auto
  have heap: "cplus_mgr_free h a = pr_heap P" "a \<noteq> CPLUS_NULL"
    using ok(1) a(1) by (auto simp: cplus_mgr_malloc_def cplus_mgr_free_def mheap_inv_def malloc_law_def Let_def
        split: if_splits)
  have shms: "(pr_shms P)(a := None) = pr_shms P" using ok(2) by (simp add: fun_upd_idem)
  have P: "(close_if (P1\<lparr>pr_shms := (pr_shms P1)(a \<mapsto> sm)\<rparr>))\<lparr>pr_heap := cplus_mgr_free h a,
        pr_shms := (pr_shms P1)(a := None)\<rparr> = P"
    if "close_if = (\<lambda>P. if sm_fd sm \<noteq> INVALID_FD then close_fd (sm_fd sm) P else P)" for close_if
    using closed heap(1) shms fds(1) a(2) that by (auto simp: close_fd_def)
  show ?thesis
  proof (cases "sm_is_owner sm")
    case True
    then obtain n where n: "sm_owner_id sm = pr_id P0" "c_str (Some (sm_name sm)) = Inr n" "kn_names K0 n = None"
        "kn_names K1 = (kn_names K0)(n \<mapsto> kn_next K0)"
      using B(3) by auto
    have "(kn_names K0)(n := None) = kn_names K0" using n(3) by (simp add: fun_upd_idem)
    then have "kn_names (shm_unlink n K1) = kn_names K0" "kn_size (shm_unlink n K1) = kn_size K1"
      using n(4) by (simp_all add: shm_unlink_def)
    moreover have "cplus_sharedmem_delete a (P1\<lparr>pr_shms := (pr_shms P1)(a \<mapsto> sm)\<rparr>, K1) = Inr (P, shm_unlink n K1)"
      using P [OF refl] B(1) True n(1,2) fds(1) a(2)
      by (auto simp: cplus_sharedmem_delete_def get_shm_def close_fd_def Let_def)
    ultimately show ?thesis using B(2) by simp
  next
    case False
    then have "cplus_sharedmem_delete a (P1\<lparr>pr_shms := (pr_shms P1)(a \<mapsto> sm)\<rparr>, K1) = Inr (P, K1)"
      using P [OF refl] B(1) fds(1) a(2)
      by (auto simp: cplus_sharedmem_delete_def get_shm_def close_fd_def Let_def)
    then show ?thesis using B(2,3) False by simp
  qed
qed

section \<open>The constructors\<close>

lemma build_outcome:
  assumes q: "0 \<notin> set name" and mid: "obtains_fd own name n f" and ok: "proc_ok P"
    and run: "build_shm [name_step name, f, mmap_step fl, close_step] n (P, K) = Inr (r, (P', K'))"
  shows "(case r of
      Inl e \<Rightarrow> P' = P \<and> kn_names K' = kn_names K \<and> (\<forall>i < kn_next K. kn_size K' i = kn_size K i)
    | Inr a \<Rightarrow> (\<exists>h sm P1 i. cplus_mgr_malloc (pr_heap P) = (Inr a, h) \<and> pr_shms P a = None \<and>
        finished name n (P\<lparr>pr_heap := h\<rparr>) K i (sm, (P1, K')) \<and> own (sm_is_owner sm) \<and>
        P' = P1\<lparr>pr_shms := (pr_shms P1)(a \<mapsto> sm)\<rparr>))"
proof (cases "fst (cplus_mgr_malloc (pr_heap P))")
  case (Inl e)
  then have "cplus_mgr_malloc (pr_heap P) = (Inl e, pr_heap P)"
    by (auto simp: cplus_mgr_malloc_def Let_def split: if_splits)
  then show ?thesis using run by (auto simp: build_shm_def)
next
  case (Inr a)
  have inv: "mheap_inv (pr_heap P)" using ok by (simp add: proc_ok_def)
  obtain h where a: "cplus_mgr_malloc (pr_heap P) = (Inr a, h)" using Inr by (metis prod.collapse)
  have "a \<notin> set (mh_live (pr_heap P))" using heap.alc_ok [OF inv a] by blast
  then have shm: "pr_shms P a = None" using ok by (auto simp: proc_ok_def)
  let ?P = "P\<lparr>pr_heap := h\<rparr>"
  let ?s = "((blank_shm n)\<lparr>sm_name := stored_name name\<rparr>, (?P, K))"
  obtain r1 sm P1 K1 where
    steps: "until_exit [name_step name, f, mmap_step fl, close_step] (blank_shm n, (?P, K)) = Inr (r1, (sm, (P1, K1)))"
    and res: "(case r1 of Inr _ \<Rightarrow> Inr (Inr a, (P1\<lparr>pr_shms := (pr_shms P1)(a \<mapsto> sm)\<rparr>, K1))
       | Inl e \<Rightarrow> exec_bind (cplus_sharedmem_delete a (P1\<lparr>pr_shms := (pr_shms P1)(a \<mapsto> sm)\<rparr>, K1))
           (\<lambda>S. Inr (Inl e, S))) = Inr (r, (P', K'))"
    using run a by (auto simp: build_shm_def exec_bind_eq_Inr Let_def simp del: until_exit.simps)
  from steps have "exec_bind (f ?s) (\<lambda>(r, s1). case r of Inl e \<Rightarrow> Inr (Inl e, s1)
      | Inr _ \<Rightarrow> until_exit [mmap_step fl, close_step] s1) = Inr (r1, (sm, (P1, K1)))"
    by (simp only: until_exit.simps(2) name_step_blank exec_bind_simps prod.case sum.case)
  then obtain r2 s2 where f: "f ?s = Inr (r2, s2)"
      "(case r2 of Inl e \<Rightarrow> Inr (Inl e, s2) | Inr _ \<Rightarrow> until_exit [mmap_step fl, close_step] s2) =
        Inr (r1, (sm, (P1, K1)))"
    by (auto simp: exec_bind_eq_Inr simp del: until_exit.simps)
  have u: "unopened name n ?P K ?s" by (simp add: unopened_def)
  have fs: "building ?P K s2" "r2 = Inr () \<Longrightarrow> own (sm_is_owner (fst s2)) \<and> (\<exists>i. opened name n ?P K i s2)"
    using mid u f(1) unfolding obtains_fd_def by blast+
  have out: "case r1 of Inl e \<Rightarrow> building ?P K (sm, (P1, K1))
      | Inr u \<Rightarrow> own (sm_is_owner sm) \<and> (\<exists>i. finished name n ?P K i (sm, (P1, K1)))"
  proof (cases r2)
    case (Inl e)
    then show ?thesis using f(2) fs(1) by auto
  next
    case (Inr x)
    then obtain i where o: "opened name n ?P K i s2" and own: "own (sm_is_owner (fst s2))" using fs(2) by auto
    have t: "until_exit [mmap_step fl, close_step] s2 = Inr (r1, (sm, (P1, K1)))" using f(2) Inr by simp
    then have "sm_is_owner sm = sm_is_owner (fst s2)"
      by (cases s2) (auto simp: mmap_step_def close_step_def exec_bind_eq_Inr split: prod.splits sum.splits)
    then show ?thesis using map_and_close [OF q o t] own by (auto split: sum.splits)
  qed
  show ?thesis
  proof (cases r1)
    case (Inr x)
    then obtain i where i: "own (sm_is_owner sm)" "finished name n ?P K i (sm, (P1, K1))" using out by auto
    have "r = Inr a" "P' = P1\<lparr>pr_shms := (pr_shms P1)(a \<mapsto> sm)\<rparr>" "K' = K1" using res Inr by simp_all
    then show ?thesis using i a shm by auto
  next
    case (Inl e)
    then have "building ?P K (sm, (P1, K1))" using out by simp
    from delete_building [OF this inv shm a refl] show ?thesis using res Inl by auto
  qed
qed

text \<open>What holds of a new object.\<close>

definition new_shm :: "u8 list \<Rightarrow> u32 \<Rightarrow> process \<Rightarrow> kernel \<Rightarrow> ptr \<Rightarrow> process \<Rightarrow> kernel \<Rightarrow> nat \<Rightarrow> shared_mem \<Rightarrow> bool" where
  "new_shm name n P K a P' K' i sm \<longleftrightarrow> 0 \<notin> set name \<and> length name \<le> 51 \<and> a \<noteq> CPLUS_NULL \<and> a \<notin> set (mh_live (pr_heap P)) \<and>
     P' = P\<lparr>pr_heap := (pr_heap P)\<lparr>mh_live := a # mh_live (pr_heap P)\<rparr>,
            pr_shms := (pr_shms P)(a \<mapsto> sm), pr_maps := (sm_addr sm, i, unat (sm_size sm)) # pr_maps P\<rparr> \<and>
     sm_addr sm \<noteq> MAP_FAILED \<and> sm_addr sm \<notin> fst ` set (pr_maps P) \<and> 0 < sm_size sm \<and>
     pr_place P (map fst (pr_maps P)) = sm_addr sm \<and> sm_fd sm = lowest_fd P \<and> stands_for name n P K i sm K'"

lemma finished_new:
  assumes ok: "proc_ok P" and a: "cplus_mgr_malloc (pr_heap P) = (Inr a, h)"
    and q: "0 \<notin> set name" "length name \<le> 51" and f: "finished name n (P\<lparr>pr_heap := h\<rparr>) K i (sm, (P1, K'))"
    and P': "P' = P1\<lparr>pr_shms := (pr_shms P1)(a \<mapsto> sm)\<rparr>"
  shows "new_shm name n P K a P' K' i sm"
proof -
  have inv: "mheap_inv (pr_heap P)" and place: "place_law (pr_place P)" using ok by (simp_all add: proc_ok_def)
  have h: "h = (pr_heap P)\<lparr>mh_live := a # mh_live (pr_heap P)\<rparr>" "a \<noteq> CPLUS_NULL" "a \<notin> set (mh_live (pr_heap P))"
    using heap.alc_ok [OF inv a] a by (auto simp: cplus_mgr_malloc_def Let_def split: if_splits)
  have "lowest_fd (P\<lparr>pr_heap := h\<rparr>) = lowest_fd P" by (simp add: lowest_fd_def)
  moreover have "sm_addr sm \<notin> set (map fst (pr_maps P))"
  proof -
    have at: "pr_place P (map fst (pr_maps P)) = sm_addr sm" using f by (simp add: finished_def)
    moreover have "sm_addr sm \<noteq> MAP_FAILED" using f unfolding finished_def prod.case by blast
    ultimately show ?thesis using place unfolding place_law_def by metis
  qed
  then have "sm_addr sm \<notin> fst ` set (pr_maps P)" by simp
  ultimately show ?thesis
    using f h q P' by (auto simp: finished_def new_shm_def stands_for_def)
qed

text \<open>The outcome of a constructor: all undone, or a new object.\<close>

definition outcome :: "(bool \<Rightarrow> bool) \<Rightarrow> buf \<Rightarrow> u32 \<Rightarrow> process \<Rightarrow> kernel \<Rightarrow> ptr cresult \<times> proc_state \<Rightarrow> bool" where
  "outcome own name n P K = (\<lambda>(r, (P', K')). case r of
      Inl e \<Rightarrow> P' = P \<and> kn_names K' = kn_names K \<and> (\<forall>i < kn_next K. kn_size K' i = kn_size K i)
    | Inr a \<Rightarrow> (\<exists>s i sm. c_str name = Inr s \<and> new_shm s n P K a P' K' i sm \<and> own (sm_is_owner sm)))"

lemma build_outcome':
  assumes ok: "proc_ok P" and mid: "obtains_fd own s n f" and s: "c_str name = Inr s" "length s \<le> 51"
    and run: "build_shm [name_step s, f, mmap_step fl, close_step] n (P, K) = Inr res"
  shows "outcome own name n P K res"
proof -
  obtain r P' K' where res: "res = (r, (P', K'))" by (cases res) auto
  have q: "0 \<notin> set s" using s(1) by (auto simp: c_str_def dest: set_takeWhileD split: option.splits if_splits)
  note B = build_outcome [OF q mid ok run [unfolded res]]
  show ?thesis
  proof (cases r)
    case (Inl e)
    then show ?thesis using B by (simp add: outcome_def res)
  next
    case (Inr a)
    then obtain h sm P1 i where *: "cplus_mgr_malloc (pr_heap P) = (Inr a, h)"
        "finished s n (P\<lparr>pr_heap := h\<rparr>) K i (sm, (P1, K'))" "own (sm_is_owner sm)"
        "P' = P1\<lparr>pr_shms := (pr_shms P1)(a \<mapsto> sm)\<rparr>"
      using B by auto
    from finished_new [OF ok *(1) q s(2) *(2,4)] *(3) show ?thesis
      using Inr s(1) by (auto simp: outcome_def res)
  qed
qed

lemma refused: "outcome own name n P K (Inl e, (P, K))"
  by (simp add: outcome_def)

lemma name_limit: "\<not> SHAREDMEM_NAME_MAX_SIZE < length s + SHAREDMEM_NAMED_PATTERN_SIZE \<longleftrightarrow> length s \<le> 51"
  by (auto simp: SHAREDMEM_NAME_MAX_SIZE_def SHAREDMEM_NAMED_PATTERN_SIZE_def SHAREDMEM_NAMED_PATTERN_def)

lemma c_str_zero_free: "c_str name = Inr s \<Longrightarrow> 0 \<notin> set s"
  by (auto simp: c_str_def dest: set_takeWhileD split: option.splits if_splits)

lemma create_outcome:
  assumes "proc_ok P" "cplus_sharedmem_create fl name n (P, K) = Inr res"
  shows "outcome (\<lambda>b. b) name n P K res"
  using assms create_step_fd [OF c_str_zero_free, of name]
  by (auto simp: cplus_sharedmem_create_def sharedmem_create_def name_limit refused exec_bind_eq_Inr
      intro: build_outcome' split: if_splits)

lemma open_outcome:
  assumes "proc_ok P" "cplus_sharedmem_open fl name (P, K) = Inr res"
  shows "outcome (\<lambda>b. \<not> b) name 0 P K res"
  using assms open_step_fd [OF c_str_zero_free, of name]
  by (auto simp: cplus_sharedmem_open_def sharedmem_open_def name_limit refused exec_bind_eq_Inr
      intro: build_outcome' split: if_splits)

lemma new_outcome:
  assumes "proc_ok P" "cplus_sharedmem_new fl name n (P, K) = Inr res"
  shows "outcome (\<lambda>b. True) name n P K res"
  using assms open_or_create_step_fd [OF c_str_zero_free, of name]
  by (auto simp: cplus_sharedmem_new_def sharedmem_new_def name_limit refused exec_bind_eq_Inr
      intro: build_outcome' split: if_splits)

lemma outcome_weaken: "outcome own name n P K res \<Longrightarrow> outcome (\<lambda>b. True) name n P K res"
  by (auto simp: outcome_def split: sum.splits) blast+

lemma any_outcome:
  assumes "proc_ok P" "call (P, K) = Inr res"
    and "call \<in> {cplus_sharedmem_create fl name n, cplus_sharedmem_open fl name, cplus_sharedmem_new fl name n}"
  shows "\<exists>m. outcome (\<lambda>b. True) name m P K res"
proof -
  consider "cplus_sharedmem_create fl name n (P, K) = Inr res" | "cplus_sharedmem_open fl name (P, K) = Inr res"
    | "cplus_sharedmem_new fl name n (P, K) = Inr res"
    using assms(2,3) by auto
  then show ?thesis
  proof cases
    case 1
    show ?thesis using outcome_weaken [OF create_outcome [OF assms(1) 1]] by blast
  next
    case 2
    show ?thesis using outcome_weaken [OF open_outcome [OF assms(1) 2]] by blast
  next
    case 3
    show ?thesis using new_outcome [OF assms(1) 3] by blast
  qed
qed

lemma delete_finished:
  assumes "pr_shms P a = Some sm" "sm_addr sm \<noteq> MAP_FAILED" "sm_fd sm \<noteq> INVALID_FD"
    "c_str (Some (sm_name sm)) = Inr p"
  shows "cplus_sharedmem_delete a (P, K) = Inr (P\<lparr>pr_maps := filter (\<lambda>e. fst e \<noteq> sm_addr sm) (pr_maps P),
      pr_fds := filter (\<lambda>e. fst e \<noteq> sm_fd sm) (pr_fds P), pr_heap := cplus_mgr_free (pr_heap P) a,
      pr_shms := (pr_shms P)(a := None)\<rparr>,
    if sm_is_owner sm \<and> pr_id P = sm_owner_id sm then shm_unlink p K else K)"
  using assms by (simp add: cplus_sharedmem_delete_def get_shm_def munmap_def close_fd_def Let_def)

lemma new_shmD:
  assumes "new_shm s m P K a P' K' i sm"
  shows "pr_shms P' a = Some sm" "sm_addr sm \<noteq> MAP_FAILED" "sm_fd sm = lowest_fd P" "sm_fd sm \<noteq> INVALID_FD"
    "pr_fds P' = pr_fds P" "pr_id P' = pr_id P" "c_str (Some (sm_name sm)) = Inr (path_of s)"
    "map_of (pr_maps P') (sm_addr sm) = Some (i, unat (sm_size sm))" "stands_for s m P K i sm K'"
  using assms c_str_stored [of s] lowest_fd_free(2) [of P] by (auto simp: new_shm_def stands_for_def)

section \<open>Examples\<close>

definition example_proc :: "int \<Rightarrow> process" where
  "example_proc pid = \<lparr>pr_id = pid, pr_heap = \<lparr>mh_live = [], mh_pick = (\<lambda>used. if 64 \<in> set used then 0 else 64)\<rparr>,
     pr_shms = (\<lambda>a. None), pr_fds = [(0, Other_file 0), (1, Other_file 1)], pr_maps = [],
     pr_place = (\<lambda>used. if 4096 \<in> set used then MAP_FAILED else 4096)\<rparr>"

definition example_kernel :: kernel where
  "example_kernel = \<lparr>kn_names = (\<lambda>n. None), kn_size = (\<lambda>i. 0), kn_next = 0\<rparr>"

abbreviation no_failures :: failures where "no_failures \<equiv> (\<lambda>c. None)"

lemma example_proc_ok: "proc_ok (example_proc pid)"
  by (simp add: proc_ok_def place_law_def example_proc_def mheap_inv_def malloc_law_def)

lemma blank_simps:
  "sm_fd (blank_shm n) = INVALID_FD" "sm_addr (blank_shm n) = MAP_FAILED" "sm_size (blank_shm n) = n"
  "\<not> sm_is_owner (blank_shm n)" "sm_owner_id (blank_shm n) = -1"
  by (simp_all add: blank_shm_def)

lemmas name_limit_def = SHAREDMEM_NAME_MAX_SIZE_def SHAREDMEM_NAMED_PATTERN_SIZE_def SHAREDMEM_NAMED_PATTERN_def

lemma build_succeeds:
  assumes mid: "obtains_fd own s n f" and q: "0 \<notin> set s"
    and heap: "mh_pick (pr_heap P) (mh_live (pr_heap P)) \<noteq> CPLUS_NULL"
    and place: "pr_place P (map fst (pr_maps P)) \<noteq> MAP_FAILED"
    and f: "\<And>P0. pr_id P0 = pr_id P \<Longrightarrow> \<exists>s2. f ((blank_shm n)\<lparr>sm_name := stored_name s\<rparr>, (P0, K)) = Inr (Inr (), s2) \<and>
      sm_size (fst s2) \<noteq> 0"
  shows "\<exists>a P1 K1. build_shm [name_step s, f, mmap_step no_failures, close_step] n (P, K) = Inr (Inr a, (P1, K1))"
proof -
  let ?a = "mh_pick (pr_heap P) (mh_live (pr_heap P))"
  let ?h = "(pr_heap P)\<lparr>mh_live := ?a # mh_live (pr_heap P)\<rparr>"
  let ?P = "P\<lparr>pr_heap := ?h\<rparr>"
  have a: "cplus_mgr_malloc (pr_heap P) = (Inr ?a, ?h)" using heap by (simp add: cplus_mgr_malloc_def Let_def)
  obtain sm P2 K2 where s2: "f ((blank_shm n)\<lparr>sm_name := stored_name s\<rparr>, (?P, K)) = Inr (Inr (), (sm, (P2, K2)))"
      "sm_size sm \<noteq> 0"
    using f [of ?P] by auto
  obtain i where o: "opened s n ?P K i (sm, (P2, K2))"
    using mid s2(1) unfolding obtains_fd_def unopened_def by blast
  then have "P2 = ?P\<lparr>pr_fds := (lowest_fd ?P, Shm i) # pr_fds P\<rparr>" "sm_fd sm = lowest_fd ?P"
    by (simp_all add: opened_def)
  then have "mmap no_failures (sm_size sm) (sm_fd sm) (P2, K2) =
      (Inr (pr_place P (map fst (pr_maps P))), (P2\<lparr>pr_maps := (pr_place P (map fst (pr_maps P)), i, unat (sm_size sm)) # pr_maps P2\<rparr>, K2))"
    using s2(2) place by (simp add: mmap_def Let_def)
  then obtain s3 where "until_exit [mmap_step no_failures, close_step] (sm, (P2, K2)) = Inr (Inr (), s3)"
    by (simp add: mmap_step_def close_step_def)
  then have "until_exit [name_step s, f, mmap_step no_failures, close_step] (blank_shm n, (?P, K)) = Inr (Inr (), s3)"
    using s2(1) by (simp only: until_exit.simps(2) name_step_blank exec_bind_simps prod.case sum.case)
  then show ?thesis unfolding build_shm_def prod.case a
    by (cases s3) (simp del: until_exit.simps add: Let_def)
qed

lemma create_succeeds:
  assumes s: "c_str name = Inr s" "length s \<le> 51" and n: "0 < n" "n \<le> SHAREDMEM_MAX_SIZE"
    and heap: "mh_pick (pr_heap P) (mh_live (pr_heap P)) \<noteq> CPLUS_NULL"
    and place: "pr_place P (map fst (pr_maps P)) \<noteq> MAP_FAILED" and free: "kn_names K (path_of s) = None"
  shows "\<exists>a P1 K1. cplus_sharedmem_create no_failures name n (P, K) = Inr (Inr a, (P1, K1))"
proof -
  have q: "0 \<notin> set s" by (rule c_str_zero_free [OF s(1)])
  have "1 \<le> n" using n(1) by (simp add: word_le_nat_alt word_less_nat_alt)
  then have "cplus_sharedmem_create no_failures name n (P, K) = sharedmem_create no_failures s n (P, K)"
    using s n name_limit [of s] by (auto simp: cplus_sharedmem_create_def not_less c_str_def)
  moreover have "\<exists>s2. create_step no_failures ((blank_shm n)\<lparr>sm_name := stored_name s\<rparr>, (P0, K)) = Inr (Inr (), s2) \<and>
      sm_size (fst s2) \<noteq> 0" for P0
    using free n(1) q by (simp add: create_step_def shm_create_def alloc_fd_def truncate_step_def ftruncate_def
        c_str_stored blank_shm_def Let_def)
  ultimately show ?thesis
    using build_succeeds [OF create_step_fd [OF q] q heap place] unfolding sharedmem_create_def by simp
qed

lemma open_succeeds:
  assumes s: "c_str name = Inr s" "length s \<le> 51"
    and heap: "mh_pick (pr_heap P) (mh_live (pr_heap P)) \<noteq> CPLUS_NULL"
    and place: "pr_place P (map fst (pr_maps P)) \<noteq> MAP_FAILED"
    and there: "kn_names K (path_of s) = Some i" "0 < kn_size K i" "kn_size K i < 2 ^ 32"
  shows "\<exists>a P1 K1. cplus_sharedmem_open no_failures name (P, K) = Inr (Inr a, (P1, K1))"
proof -
  have q: "0 \<notin> set s" by (rule c_str_zero_free [OF s(1)])
  have "cplus_sharedmem_open no_failures name (P, K) = sharedmem_open no_failures s (P, K)"
    using s name_limit [of s] by (auto simp: cplus_sharedmem_open_def not_less c_str_def)
  moreover have "unat (of_nat (kn_size K i) :: u32) = kn_size K i" using there(3) by simp
  then have "(of_nat (kn_size K i) :: u32) \<noteq> 0" using there(2) by (metis unat_0 less_irrefl)
  then have "\<exists>s2. open_step no_failures ((blank_shm 0)\<lparr>sm_name := stored_name s\<rparr>, (P0, K)) = Inr (Inr (), s2) \<and>
      sm_size (fst s2) \<noteq> 0" for P0
    using there(1) q by (simp add: open_step_def shm_open_def alloc_fd_def stat_step_def fstat_size_def
        c_str_stored blank_shm_def Let_def)
  ultimately show ?thesis
    using build_succeeds [OF open_step_fd [OF q] q heap place] unfolding sharedmem_open_def by simp
qed

lemma example_creates:
  assumes "0 \<notin> set s" "length s \<le> 51"
  shows "\<exists>a P1 K1. cplus_sharedmem_create no_failures (Some (s @ [0])) 16 (example_proc 7, example_kernel) =
    Inr (Inr a, (P1, K1))"
  using create_succeeds [OF c_str_terminated [OF assms(1), of "[]"] assms(2)]
  by (simp add: SHAREDMEM_MAX_SIZE_def example_proc_def example_kernel_def MAP_FAILED_def)

lemma example_shared:
  assumes "0 \<notin> set s" "length s \<le> 51"
  shows "\<exists>a P1 K1 b Q1 K2. cplus_sharedmem_create no_failures (Some (s @ [0])) 16 (example_proc 7, example_kernel) =
      Inr (Inr a, (P1, K1)) \<and>
    cplus_sharedmem_open no_failures (Some (s @ [0])) (example_proc 9, K1) = Inr (Inr b, (Q1, K2))"
proof -
  have s: "c_str (Some (s @ [0])) = Inr s" by (rule c_str_terminated [OF assms(1), of "[]"])
  obtain a P1 K1 where run: "cplus_sharedmem_create no_failures (Some (s @ [0])) 16 (example_proc 7, example_kernel) =
    Inr (Inr a, (P1, K1))" using example_creates [OF assms] by blast
  from create_outcome [OF example_proc_ok run] obtain i sm where "new_shm s 16 (example_proc 7) example_kernel a P1 K1 i sm"
      "sm_is_owner sm"
    using s by (auto simp: outcome_def)
  then have there: "kn_names K1 (path_of s) = Some i" "kn_size K1 i = 16"
    using new_shmD(9) by (fastforce simp: stands_for_def)+
  have "\<exists>b Q1 K2. cplus_sharedmem_open no_failures (Some (s @ [0])) (example_proc 9, K1) = Inr (Inr b, (Q1, K2))"
    using there(2) by (intro open_succeeds [OF s assms(2) _ _ there(1)]) (simp_all add: example_proc_def MAP_FAILED_def)
  then show ?thesis using run by blast
qed

section \<open>Properties\<close>

text \<open>
  C38. A constructor of shared memory that fails, at whatever step, undoes everything: the
  process is as before, descriptors, mappings and heap included, and so are the names and the
  sizes of the objects of the kernel.
\<close>

theorem sharedmem_failure_cleans_up:
  assumes "proc_ok P" "call (P, K) = Inr (Inl e, (P', K'))"
    and "call \<in> {cplus_sharedmem_create fl name n, cplus_sharedmem_open fl name, cplus_sharedmem_new fl name n}"
  shows "P' = P \<and> kn_names K' = kn_names K \<and> (\<forall>i < kn_next K. kn_size K' i = kn_size K i)"
  using any_outcome [OF assms] by (auto simp: outcome_def)

lemma sharedmem_failure_cleans_up_witness:
  "\<exists>K'. cplus_sharedmem_create (\<lambda>c. if c = Mmap then Some ENOMEM else None) (Some [97, 0]) 16
      (example_proc 7, example_kernel) = Inr (Inl ENOMEM, (example_proc 7, K')) \<and>
    kn_names K' = kn_names example_kernel"
proof -
  have "\<exists>P' K'. cplus_sharedmem_create (\<lambda>c. if c = Mmap then Some ENOMEM else None) (Some [97, 0]) 16
      (example_proc 7, example_kernel) = Inr (Inl ENOMEM, (P', K'))"
    using c_str_stored [of "[97]"] c_str_terminated [of "[97]" "[]"]
    by (simp add: cplus_sharedmem_create_def name_limit_def SHAREDMEM_MAX_SIZE_def sharedmem_create_def
        build_shm_def cplus_mgr_malloc_def example_proc_def example_kernel_def name_step_blank blank_simps
        create_step_def shm_create_def alloc_fd_def truncate_step_def ftruncate_def mmap_step_def mmap_def
        cplus_sharedmem_delete_def get_shm_def Let_def lowest_fd_def)
  then obtain P' K' where run: "cplus_sharedmem_create (\<lambda>c. if c = Mmap then Some ENOMEM else None) (Some [97, 0]) 16
      (example_proc 7, example_kernel) = Inr (Inl ENOMEM, (P', K'))" by blast
  from sharedmem_failure_cleans_up [where call =
      "cplus_sharedmem_create (\<lambda>c. if c = Mmap then Some ENOMEM else None) (Some [97, 0]) 16", OF example_proc_ok run]
  show ?thesis using run by auto
qed

text \<open>
  Two processes that name the same shared memory, one creating and one opening it, have
  the same object of the kernel mapped, at its full size; the creator is the owner, the other
  is not.
\<close>

theorem sharedmem_processes_share:
  assumes P: "proc_ok P" "cplus_sharedmem_create fl name n (P, K) = Inr (Inr a, (P1, K1))"
    and Q: "proc_ok Q" "cplus_sharedmem_open fl' name (Q, K1) = Inr (Inr b, (Q1, K2))"
  shows "\<exists>x y i. cplus_sharedmem_alloc P1 a = Inr x \<and> cplus_sharedmem_alloc Q1 b = Inr y \<and>
    map_of (pr_maps P1) x = Some (i, unat n) \<and> map_of (pr_maps Q1) y = Some (i, unat n) \<and>
    cplus_sharedmem_get_size Q1 b = Inr n \<and> cplus_sharedmem_is_owner P1 a = Inr True \<and>
    cplus_sharedmem_is_owner Q1 b = Inr False"
proof -
  from create_outcome [OF P] obtain s i sm where A: "c_str name = Inr s" "new_shm s n P K a P1 K1 i sm" "sm_is_owner sm"
    by (auto simp: outcome_def)
  from open_outcome [OF Q] obtain j sn where B: "new_shm s 0 Q K1 b Q1 K2 j sn" "\<not> sm_is_owner sn"
    using A(1) by (auto simp: outcome_def)
  have i: "i = kn_next K" "kn_names K1 (path_of s) = Some i" "kn_size K1 i = unat n" "sm_size sm = n" "sm_owner_id sm = pr_id P"
    using new_shmD(9) [OF A(2)] A(3) by (auto simp: stands_for_def)
  have j: "j = i" "sm_size sn = n"
    using new_shmD(9) [OF B(1)] B(2) i by (auto simp: stands_for_def)
  have "cplus_sharedmem_alloc P1 a = Inr (sm_addr sm)" "cplus_sharedmem_alloc Q1 b = Inr (sm_addr sn)"
    "cplus_sharedmem_get_size Q1 b = Inr n" "cplus_sharedmem_is_owner P1 a = Inr True"
    "cplus_sharedmem_is_owner Q1 b = Inr False"
    using new_shmD(1,6) [OF A(2)] new_shmD(1) [OF B(1)] A(3) B(2) i(5) j(2)
    by (simp_all add: cplus_sharedmem_alloc_def cplus_sharedmem_get_size_def cplus_sharedmem_is_owner_def get_shm_def)
  moreover have "map_of (pr_maps P1) (sm_addr sm) = Some (i, unat n)" "map_of (pr_maps Q1) (sm_addr sn) = Some (i, unat n)"
    using new_shmD(8) [OF A(2)] new_shmD(8) [OF B(1)] i(4) j by simp_all
  ultimately show ?thesis by blast
qed

lemma sharedmem_processes_share_witness:
  "\<exists>a P1 K1 b Q1 K2 x y i.
     cplus_sharedmem_create no_failures (Some [97, 0]) 16 (example_proc 7, example_kernel) = Inr (Inr a, (P1, K1)) \<and>
     cplus_sharedmem_open no_failures (Some [97, 0]) (example_proc 9, K1) = Inr (Inr b, (Q1, K2)) \<and>
     cplus_sharedmem_alloc P1 a = Inr x \<and> cplus_sharedmem_alloc Q1 b = Inr y \<and>
     map_of (pr_maps P1) x = Some (i, 16) \<and> map_of (pr_maps Q1) y = Some (i, 16)"
proof -
  obtain a P1 K1 b Q1 K2 where
    run: "cplus_sharedmem_create no_failures (Some [97, 0]) 16 (example_proc 7, example_kernel) = Inr (Inr a, (P1, K1))"
      "cplus_sharedmem_open no_failures (Some [97, 0]) (example_proc 9, K1) = Inr (Inr b, (Q1, K2))"
    using example_shared [of "[97]"] by auto
  from sharedmem_processes_share [OF example_proc_ok run(1) example_proc_ok run(2)] show ?thesis
    using run by auto
qed

text \<open>
  The name lives as long as its creator wants: deleting the object in a process that opened
  it, or in a child of the creator, leaves the name in place, and deleting it in the creator
  gives the name free, whatever descriptors were opened in between.
\<close>

theorem sharedmem_owner_removes_name:
  assumes P: "proc_ok P" "cplus_sharedmem_create fl name n (P, K) = Inr (Inr a, (P1, K1))"
    and Q: "proc_ok Q" "cplus_sharedmem_open fl' name (Q, K1) = Inr (Inr b, (Q1, K2))"
    and pid: "pid \<noteq> pr_id P"
  shows "\<exists>Q2 P2 P3 K3. cplus_sharedmem_delete b (Q1, K2) = Inr (Q2, K1) \<and>
    cplus_sharedmem_delete a (fork pid P1, K1) = Inr (P2, K1) \<and>
    cplus_sharedmem_delete a (P1, K1) = Inr (P3, K3) \<and> kn_names K3 = kn_names K"
proof -
  from create_outcome [OF P] obtain s i sm where A: "c_str name = Inr s" "new_shm s n P K a P1 K1 i sm" "sm_is_owner sm"
    by (auto simp: outcome_def)
  from open_outcome [OF Q] obtain j sn where B: "new_shm s 0 Q K1 b Q1 K2 j sn" "\<not> sm_is_owner sn"
    using A(1) by (auto simp: outcome_def)
  have i: "kn_names K (path_of s) = None" "kn_names K1 = (kn_names K)(path_of s \<mapsto> i)" "sm_owner_id sm = pr_id P"
    using new_shmD(9) [OF A(2)] A(3) by (auto simp: stands_for_def)
  have K2: "K2 = K1" using new_shmD(9) [OF B(1)] B(2) by (simp add: stands_for_def)
  have "kn_names (shm_unlink (path_of s) K1) = kn_names K"
    using i(1,2) by (simp add: shm_unlink_def fun_upd_idem)
  moreover have "pr_shms (fork pid P1) a = Some sm" "pr_id (fork pid P1) = pid"
    using new_shmD(1) [OF A(2)] by (simp_all add: fork_def)
  ultimately show ?thesis
    using delete_finished [OF new_shmD(1,2,4,7) [OF B(1)], of K2] delete_finished [OF new_shmD(1,2,4,7) [OF A(2)], of K1]
      delete_finished [OF _ new_shmD(2,4,7) [OF A(2)], of "fork pid P1" a K1] new_shmD(6) [OF A(2)] A(3) B(2) i(3) K2 pid
    by simp
qed

lemma sharedmem_owner_removes_name_witness:
  "\<exists>a P1 K1 b Q1 K2 Q2 P2 P3 K3.
     cplus_sharedmem_create no_failures (Some [97, 0]) 16 (example_proc 7, example_kernel) = Inr (Inr a, (P1, K1)) \<and>
     cplus_sharedmem_open no_failures (Some [97, 0]) (example_proc 9, K1) = Inr (Inr b, (Q1, K2)) \<and>
     cplus_sharedmem_delete b (Q1, K2) = Inr (Q2, K1) \<and>
     cplus_sharedmem_delete a (fork 8 P1, K1) = Inr (P2, K1) \<and>
     cplus_sharedmem_delete a (P1, K1) = Inr (P3, K3) \<and> kn_names K3 = (\<lambda>n. None)"
proof -
  obtain a P1 K1 b Q1 K2 where
    run: "cplus_sharedmem_create no_failures (Some [97, 0]) 16 (example_proc 7, example_kernel) = Inr (Inr a, (P1, K1))"
      "cplus_sharedmem_open no_failures (Some [97, 0]) (example_proc 9, K1) = Inr (Inr b, (Q1, K2))"
    using example_shared [of "[97]"] by auto
  from sharedmem_owner_removes_name [OF example_proc_ok run(1) example_proc_ok run(2), of 8] show ?thesis
    using run by (auto simp: example_proc_def example_kernel_def)
qed

text \<open>
  The constructors close the descriptor and keep its number, and the destructor closes it
  again: a file that the process has opened in between, which gets the same lowest number, is
  closed under its user.
\<close>

theorem sharedmem_delete_closes_foreign_file:
  assumes ok: "proc_ok P" and run: "call (P, K) = Inr (Inr a, (P1, K1))"
    and call: "call \<in> {cplus_sharedmem_create fl name n, cplus_sharedmem_open fl name, cplus_sharedmem_new fl name n}"
    and other: "alloc_fd f P1 = (fd, P2)"
  shows "\<exists>P3 K3. cplus_sharedmem_delete a (P2, K1) = Inr (P3, K3) \<and>
    map_of (pr_fds P2) fd = Some f \<and> map_of (pr_fds P3) fd = None"
proof -
  from any_outcome [OF ok run call] obtain s m i sm where A: "new_shm s m P K a P1 K1 i sm"
    by (auto simp: outcome_def)
  note D = new_shmD [OF A]
  have "lowest_fd P1 = lowest_fd P" unfolding lowest_fd_def D(5) ..
  then have fd: "fd = sm_fd sm" "P2 = P1\<lparr>pr_fds := (sm_fd sm, f) # pr_fds P1\<rparr>"
    using other D(3) by (auto simp: alloc_fd_def)
  have P2: "pr_shms P2 a = Some sm" using D(1) fd(2) by simp
  have "map_of (filter (\<lambda>e. fst e \<noteq> sm_fd sm) (pr_fds P2)) fd = None"
    using fd(1) by (auto simp: map_of_eq_None_iff)
  then show ?thesis using delete_finished [OF P2 D(2,4,7), of K1] fd by simp
qed

lemma sharedmem_delete_closes_foreign_file_witness:
  "\<exists>a P1 K1 fd P2 P3 K3.
     cplus_sharedmem_create no_failures (Some [97, 0]) 16 (example_proc 7, example_kernel) = Inr (Inr a, (P1, K1)) \<and>
     alloc_fd (Other_file 5) P1 = (fd, P2) \<and> cplus_sharedmem_delete a (P2, K1) = Inr (P3, K3) \<and>
     map_of (pr_fds P2) fd = Some (Other_file 5) \<and> map_of (pr_fds P3) fd = None"
proof -
  obtain a P1 K1 where
    run: "cplus_sharedmem_create no_failures (Some [97, 0]) 16 (example_proc 7, example_kernel) = Inr (Inr a, (P1, K1))"
    using example_creates [of "[97]"] by auto
  obtain fd P2 where other: "alloc_fd (Other_file 5) P1 = (fd, P2)" by (rule prod.exhaust)
  from sharedmem_delete_closes_foreign_file [where call = "cplus_sharedmem_create no_failures (Some [97, 0]) 16",
      OF example_proc_ok run insertI1 other]
  show ?thesis using run other by auto
qed

text \<open>
  The object carries at most the first fifty bytes of its name, though names of fifty-one
  bytes are accepted: \<open>cplus_sharedmem_get_name\<close> returns the name when it is shorter, and of
  two names of fifty-one bytes that agree up to the last one only one can be created.
\<close>

theorem sharedmem_name_truncated:
  assumes P: "proc_ok P" "cplus_sharedmem_create fl name n (P, K) = Inr (Inr a, (P1, K1))"
    and names: "c_str name = Inr s" "c_str name' = Inr s'" "take 50 s' = take 50 s"
    and Q: "proc_ok Q" "cplus_sharedmem_create fl' name' n' (Q, K1) = Inr (res, (Q1, K2))"
  shows "cplus_sharedmem_get_name P1 a = Inr (take 50 s) \<and> (\<exists>e. res = Inl e)"
proof -
  from create_outcome [OF P] obtain i sm where A: "new_shm s n P K a P1 K1 i sm" "sm_is_owner sm"
    using names(1) by (auto simp: outcome_def)
  have p: "path_of s' = path_of s" using names(3) by (simp add: path_of)
  have "0 \<notin> set (take 50 s)" using c_str_zero_free [OF names(1)] by (auto dest: in_set_takeD)
  moreover have "drop 12 (stored_name s) = take 50 s @ 0 # replicate (63 - length (path_of s)) 0"
    by (simp add: stored_name_def path_of shm_prefix(1))
  ultimately have "c_str (Some (drop 12 (stored_name s))) = Inr (take 50 s)" by (simp add: c_str_terminated)
  moreover have "sm_name sm = stored_name s" using new_shmD(9) [OF A(1)] by (simp add: stands_for_def)
  ultimately have "cplus_sharedmem_get_name P1 a = Inr (take 50 s)"
    using new_shmD(1) [OF A(1)] by (simp add: cplus_sharedmem_get_name_def get_shm_def pattern_length)
  moreover have "\<exists>e. res = Inl e"
  proof (cases res)
    case (Inr b)
    then obtain j sn where B: "new_shm s' n' Q K1 b Q1 K2 j sn" "sm_is_owner sn"
      using create_outcome [OF Q] names(2) by (auto simp: outcome_def)
    have "kn_names K1 (path_of s) = None" using new_shmD(9) [OF B(1)] B(2) p by (simp add: stands_for_def)
    moreover have "kn_names K1 (path_of s) = Some i" using new_shmD(9) [OF A(1)] A(2) by (simp add: stands_for_def)
    ultimately show ?thesis by simp
  qed simp
  ultimately show ?thesis by blast
qed

lemma sharedmem_name_truncated_witness:
  "\<exists>a P1 K1 res Q1 K2.
     cplus_sharedmem_create no_failures (Some (replicate 50 97 @ [98, 0])) 16 (example_proc 7, example_kernel) =
       Inr (Inr a, (P1, K1)) \<and>
     cplus_sharedmem_create no_failures (Some (replicate 50 97 @ [99, 0])) 16 (example_proc 9, K1) = Inr (res, (Q1, K2)) \<and>
     cplus_sharedmem_get_name P1 a = Inr (replicate 50 97) \<and> (\<exists>e. res = Inl e)"
proof -
  obtain a P1 K1 where
    P: "cplus_sharedmem_create no_failures (Some (replicate 50 97 @ [98, 0])) 16 (example_proc 7, example_kernel) =
      Inr (Inr a, (P1, K1))"
    using example_creates [of "replicate 50 97 @ [98]"] by auto
  have names: "c_str (Some (replicate 50 97 @ [98, 0])) = Inr (replicate 50 97 @ [98])"
      "c_str (Some (replicate 50 97 @ [99, 0])) = Inr (replicate 50 97 @ [99])"
    using c_str_terminated [of "replicate 50 97 @ [98]" "[]"] c_str_terminated [of "replicate 50 97 @ [99]" "[]"]
    by simp_all
  obtain res Q1 K2 where
    Q: "cplus_sharedmem_create no_failures (Some (replicate 50 97 @ [99, 0])) 16 (example_proc 9, K1) = Inr (res, (Q1, K2))"
  proof -
    obtain i sm where "new_shm (replicate 50 97 @ [98]) 16 (example_proc 7) example_kernel a P1 K1 i sm" "sm_is_owner sm"
      using create_outcome [OF example_proc_ok P] names(1) by (auto simp: outcome_def)
    then have "kn_names K1 (path_of (replicate 50 97 @ [98])) = Some i"
      using new_shmD(9) by (fastforce simp: stands_for_def)
    then have taken: "kn_names K1 (path_of (replicate 50 97 @ [99])) = Some i" by (simp add: path_of)
    have "c_str (Some (stored_name (replicate 50 97 @ [99]))) = Inr (path_of (replicate 50 97 @ [99]))"
      by (rule c_str_stored) simp
    then have "\<exists>res Q1 K2. cplus_sharedmem_create no_failures (Some (replicate 50 97 @ [99, 0])) 16 (example_proc 9, K1) =
        Inr (res, (Q1, K2))"
      using names(2) taken
      by (simp add: cplus_sharedmem_create_def name_limit_def SHAREDMEM_MAX_SIZE_def sharedmem_create_def
          build_shm_def cplus_mgr_malloc_def example_proc_def name_step_blank blank_simps
          create_step_def shm_create_def cplus_sharedmem_delete_def get_shm_def Let_def)
    then show ?thesis using that by blast
  qed
  from sharedmem_name_truncated [OF example_proc_ok P names _ example_proc_ok Q] show ?thesis using P Q by auto
qed

end
