(* ===== verification/Named_Lock.thy ===== *)
theory Named_Lock
  imports Sharedmem_Props
begin

text \<open>
  What the constructors of \<^verbatim>\<open>src/rwlock.c\<close>, \<^verbatim>\<open>src/mutex.c\<close> and \<^verbatim>\<open>src/pevent.c\<close> have in common: an object in
  the memory of a process points to a POSIX lock, which lies either in the object itself or,
  when the object has a name, in shared memory.  Which locks have been initialised, and with
  what attributes, is a map from these places.
\<close>

section \<open>Places of locks\<close>

datatype lock_place = In_object int ptr | In_region nat

datatype lock_ptr = No_lock | Own_lock | Lock_at ptr

datatype pthread_call = Attr_init | Set_kind | Set_pshared | Lock_init
  | Cond_attr_init | Cond_set_clock | Cond_set_pshared | Cond_init

text \<open>A process with its objects, the kernel, and the locks of all processes.\<close>

record ('o, 'a) lock_world =
  lw_proc :: process
  lw_kernel :: kernel
  lw_objs :: "ptr \<rightharpoonup> 'o"
  lw_locks :: "lock_place \<rightharpoonup> 'a"

definition place_of :: "process \<Rightarrow> ptr \<Rightarrow> lock_ptr \<Rightarrow> lock_place option" where
  "place_of P obj p = (case p of
     No_lock \<Rightarrow> None
   | Own_lock \<Rightarrow> Some (In_object (pr_id P) obj)
   | Lock_at a \<Rightarrow> map_option (\<lambda>(i, n). In_region i) (map_of (pr_maps P) a))"

text \<open>Initialising a lock, and destroying one; destroying what is not initialised is undefined.\<close>

definition lock_init :: "ptr \<Rightarrow> lock_ptr \<Rightarrow> 'a \<Rightarrow> ('o, 'a) lock_world \<Rightarrow> ('o, 'a) lock_world exec" where
  "lock_init obj p attr W = (case place_of (lw_proc W) obj p of
     None \<Rightarrow> Inl Null_deref
   | Some l \<Rightarrow> Inr (W\<lparr>lw_locks := (lw_locks W)(l \<mapsto> attr)\<rparr>))"

definition lock_destroy :: "ptr \<Rightarrow> lock_ptr \<Rightarrow> ('o, 'a) lock_world \<Rightarrow> ('o, 'a) lock_world exec" where
  "lock_destroy obj p W = (case place_of (lw_proc W) obj p of
     None \<Rightarrow> Inl Null_deref
   | Some l \<Rightarrow> if lw_locks W l = None then Inl Undefined
       else Inr (W\<lparr>lw_locks := (lw_locks W)(l := None)\<rparr>))"

text \<open>A call of \<^verbatim>\<open>src/sharedmem.c\<close> in such a world.\<close>

definition shm_call :: "(proc_state \<Rightarrow> ('r \<times> proc_state) exec) \<Rightarrow> ('o, 'a) lock_world \<Rightarrow> ('r \<times> ('o, 'a) lock_world) exec" where
  "shm_call f W = exec_bind (f (lw_proc W, lw_kernel W)) (\<lambda>(r, (P, K)).
     Inr (r, W\<lparr>lw_proc := P, lw_kernel := K\<rparr>))"

definition shm_delete :: "ptr \<Rightarrow> ('o, 'a) lock_world \<Rightarrow> ('o, 'a) lock_world exec" where
  "shm_delete a W = exec_bind (cplus_sharedmem_delete a (lw_proc W, lw_kernel W)) (\<lambda>(P, K).
     Inr (W\<lparr>lw_proc := P, lw_kernel := K\<rparr>))"

definition obj_alloc :: "'o \<Rightarrow> ('o, 'a) lock_world \<Rightarrow> (ptr cresult \<times> ('o, 'a) lock_world)" where
  "obj_alloc obj W = (case cplus_mgr_malloc (pr_heap (lw_proc W)) of
     (Inl e, h) \<Rightarrow> (Inl e, W\<lparr>lw_proc := (lw_proc W)\<lparr>pr_heap := h\<rparr>\<rparr>)
   | (Inr a, h) \<Rightarrow> (Inr a, W\<lparr>lw_proc := (lw_proc W)\<lparr>pr_heap := h\<rparr>, lw_objs := (lw_objs W)(a \<mapsto> obj)\<rparr>))"

definition obj_free :: "ptr \<Rightarrow> ('o, 'a) lock_world \<Rightarrow> ('o, 'a) lock_world" where
  "obj_free a W = W\<lparr>lw_proc := (lw_proc W)\<lparr>pr_heap := cplus_mgr_free (pr_heap (lw_proc W)) a\<rparr>,
     lw_objs := (lw_objs W)(a := None)\<rparr>"

text \<open>
  The destructors are the same but for the type of the lock: the owner of the shared memory
  destroys the lock in it, and an object without a name destroys its own.
\<close>

definition delete_named :: "('o \<Rightarrow> lock_ptr) \<Rightarrow> ('o \<Rightarrow> ptr) \<Rightarrow> ptr \<Rightarrow> ('o, 'a) lock_world \<Rightarrow> ('o, 'a) lock_world exec" where
  "delete_named lock_of shared_of a W = (case lw_objs W a of
     None \<Rightarrow> Inl Assert_fail
   | Some obj \<Rightarrow>
       exec_bind (if shared_of obj \<noteq> CPLUS_NULL then
           exec_bind (cplus_sharedmem_is_owner (lw_proc W) (shared_of obj)) (\<lambda>own.
           exec_bind (if own \<and> lock_of obj \<noteq> No_lock then lock_destroy a (lock_of obj) W else Inr W) (\<lambda>W1.
             shm_delete (shared_of obj) W1))
         else if lock_of obj \<noteq> No_lock then lock_destroy a (lock_of obj) W else Inr W) (\<lambda>W1.
       Inr (obj_free a W1)))"

text \<open>A text in a 32-byte name buffer, of which 31 are offered to \<^verbatim>\<open>cplus_str_printf\<close>.\<close>

definition lock_name :: "u8 list \<Rightarrow> (int \<times> buf) exec" where
  "lock_name text = cplus_str_printf (Some (replicate 32 0)) 31 text"

datatype init_mode = INIT_NONE | INIT_CREATE | INIT_OPEN | INIT_HYBRID

definition named_region ::
    "failures \<Rightarrow> u8 list \<Rightarrow> u32 \<Rightarrow> init_mode \<Rightarrow> ('o, 'a) lock_world \<Rightarrow> (ptr cresult \<times> ('o, 'a) lock_world) exec" where
  "named_region fl text n mode W = exec_bind (lock_name text) (\<lambda>(res, name).
     if res < 0 then Inr (Inl ENONE, W)
     else (case mode of
         INIT_CREATE \<Rightarrow> shm_call (cplus_sharedmem_create fl name n) W
       | INIT_OPEN \<Rightarrow> shm_call (cplus_sharedmem_open fl name) W
       | INIT_HYBRID \<Rightarrow> shm_call (cplus_sharedmem_new fl name n) W
       | INIT_NONE \<Rightarrow> Inr (Inl EINVAL, W)))"

definition upd_obj :: "ptr \<Rightarrow> ('o \<Rightarrow> 'o) \<Rightarrow> ('o, 'a) lock_world \<Rightarrow> ('o, 'a) lock_world" where
  "upd_obj a f W = W\<lparr>lw_objs := (lw_objs W)(a := map_option f (lw_objs W a))\<rparr>"

section \<open>Worlds\<close>

definition world_ok :: "('o, 'a) lock_world \<Rightarrow> bool" where
  "world_ok W \<longleftrightarrow> proc_ok (lw_proc W) \<and> dom (lw_objs W) \<subseteq> set (mh_live (pr_heap (lw_proc W)))"

text \<open>Creating shared memory and deleting it again leaves the process as it was.\<close>

lemma delete_new_shm:
  assumes new: "new_shm s n P K a P' K' i sm" and shms: "pr_shms P a = None"
  shows "\<exists>K''. cplus_sharedmem_delete a (P', K') = Inr (P, K'') \<and> kn_names K'' = kn_names K"
proof -
  note D = new_shmD [OF new]
  have P': "P' = P\<lparr>pr_heap := (pr_heap P)\<lparr>mh_live := a # mh_live (pr_heap P)\<rparr>,
      pr_shms := (pr_shms P)(a \<mapsto> sm), pr_maps := (sm_addr sm, i, unat (sm_size sm)) # pr_maps P\<rparr>"
    and a: "a \<noteq> CPLUS_NULL" "a \<notin> set (mh_live (pr_heap P))" and m: "sm_addr sm \<notin> fst ` set (pr_maps P)"
    using new by (simp_all add: new_shm_def)
  have "filter (\<lambda>e. fst e \<noteq> sm_addr sm) (pr_maps P) = pr_maps P"
    using m by (intro filter_True ballI) (metis imageI)
  moreover have "filter (\<lambda>e. fst e \<noteq> sm_fd sm) (pr_fds P) = pr_fds P" using D(3) by simp
  moreover have "cplus_mgr_free ((pr_heap P)\<lparr>mh_live := a # mh_live (pr_heap P)\<rparr>) a = pr_heap P"
    using a by (simp add: cplus_mgr_free_def)
  moreover have "(pr_shms P)(a := None) = pr_shms P" using shms by (simp add: fun_upd_idem)
  moreover have "kn_names (if sm_is_owner sm \<and> pr_id P' = sm_owner_id sm then shm_unlink (path_of s) K' else K') = kn_names K"
    using D(6,9) by (auto simp: stands_for_def shm_unlink_def fun_upd_idem)
  ultimately show ?thesis
    using delete_finished [OF D(1,2,4,7), of K'] by (simp add: P')
qed

lemma obj_alloc_ok:
  assumes W: "world_ok W" and a: "obj_alloc obj W = (Inr a, W1)"
  shows "world_ok W1" "lw_objs W a = None" "a \<noteq> CPLUS_NULL" "lw_objs W1 = (lw_objs W)(a \<mapsto> obj)"
    "lw_kernel W1 = lw_kernel W" "lw_locks W1 = lw_locks W" "pr_shms (lw_proc W1) a = None"
    "obj_free a W1 = W" "\<And>f. obj_free a (upd_obj a f W1) = W"
proof -
  let ?h = "pr_heap (lw_proc W)"
  have inv: "mheap_inv ?h" and dom: "dom (lw_objs W) \<subseteq> set (mh_live ?h)" "dom (pr_shms (lw_proc W)) \<subseteq> set (mh_live ?h)"
    using W by (simp_all add: world_ok_def proc_ok_def)
  have m: "cplus_mgr_malloc ?h = (Inr a, ?h\<lparr>mh_live := a # mh_live ?h\<rparr>)"
      "W1 = W\<lparr>lw_proc := (lw_proc W)\<lparr>pr_heap := ?h\<lparr>mh_live := a # mh_live ?h\<rparr>\<rparr>, lw_objs := (lw_objs W)(a \<mapsto> obj)\<rparr>"
    using a by (auto simp: obj_alloc_def cplus_mgr_malloc_def Let_def split: if_splits prod.splits sum.splits)
  have fresh: "a \<noteq> CPLUS_NULL" "a \<notin> set (mh_live ?h)" using heap.alc_ok [OF inv m(1)] by blast+
  have inv1: "mheap_inv (?h\<lparr>mh_live := a # mh_live ?h\<rparr>)" using heap.alc_inv [OF inv m(1)] .
  show "world_ok W1" using W inv1 m(2) by (auto simp: world_ok_def proc_ok_def)
  show none: "lw_objs W a = None" using dom(1) fresh(2) by auto
  show "a \<noteq> CPLUS_NULL" by (rule fresh(1))
  show "lw_objs W1 = (lw_objs W)(a \<mapsto> obj)" "lw_kernel W1 = lw_kernel W" "lw_locks W1 = lw_locks W"
    using m(2) by simp_all
  show "pr_shms (lw_proc W1) a = None" using dom(2) fresh(2) m(2) by auto
  have free: "cplus_mgr_free (?h\<lparr>mh_live := a # mh_live ?h\<rparr>) a = ?h" using fresh by (simp add: cplus_mgr_free_def)
  have restored: "(lw_objs W)(a := None) = lw_objs W" using none by (simp add: fun_upd_idem)
  show "obj_free a W1 = W" "obj_free a (upd_obj a f W1) = W" for f
    using m(2) free restored by (simp_all add: obj_free_def upd_obj_def)
qed

lemma obj_alloc_fresh:
  assumes W: "world_ok W" and a: "obj_alloc obj W = (Inr a, W1)"
  shows "a \<notin> set (mh_live (pr_heap (lw_proc W)))" "pr_id (lw_proc W1) = pr_id (lw_proc W)"
    "pr_place (lw_proc W1) = pr_place (lw_proc W)"
proof -
  let ?h = "pr_heap (lw_proc W)"
  have inv: "mheap_inv ?h" using W by (simp add: world_ok_def proc_ok_def)
  have m: "cplus_mgr_malloc ?h = (Inr a, ?h\<lparr>mh_live := a # mh_live ?h\<rparr>)"
      "W1 = W\<lparr>lw_proc := (lw_proc W)\<lparr>pr_heap := ?h\<lparr>mh_live := a # mh_live ?h\<rparr>\<rparr>, lw_objs := (lw_objs W)(a \<mapsto> obj)\<rparr>"
    using a by (auto simp: obj_alloc_def cplus_mgr_malloc_def Let_def split: if_splits prod.splits sum.splits)
  show "a \<notin> set (mh_live ?h)" using heap.alc_ok [OF inv m(1)] by blast
  show "pr_id (lw_proc W1) = pr_id (lw_proc W)" "pr_place (lw_proc W1) = pr_place (lw_proc W)" using m(2) by simp_all
qed

lemma obj_alloc_fails: "obj_alloc obj W = (Inl e, W1) \<Longrightarrow> W1 = W"
  by (auto simp: obj_alloc_def cplus_mgr_malloc_def Let_def split: if_splits prod.splits)

text \<open>The outcome of a shared memory constructor in a world.\<close>

lemma shm_call_outcome:
  assumes W: "world_ok W" and run: "shm_call f W = Inr (r, W')"
    and f: "\<And>res. f (lw_proc W, lw_kernel W) = Inr res \<Longrightarrow> outcome own name n (lw_proc W) (lw_kernel W) res"
  shows "case r of
      Inl e \<Rightarrow> lw_proc W' = lw_proc W \<and> kn_names (lw_kernel W') = kn_names (lw_kernel W) \<and> lw_objs W' = lw_objs W \<and> lw_locks W' = lw_locks W
    | Inr b \<Rightarrow> lw_objs W' = lw_objs W \<and> lw_locks W' = lw_locks W \<and> pr_shms (lw_proc W) b = None \<and> b \<noteq> CPLUS_NULL \<and>
        b \<notin> set (mh_live (pr_heap (lw_proc W))) \<and>
        (\<exists>s i sm. c_str name = Inr s \<and> own (sm_is_owner sm) \<and> new_shm s n (lw_proc W) (lw_kernel W) b (lw_proc W') (lw_kernel W') i sm)"
proof -
  obtain P K where fW: "f (lw_proc W, lw_kernel W) = Inr (r, (P, K))" "W' = W\<lparr>lw_proc := P, lw_kernel := K\<rparr>"
    using run by (auto simp: shm_call_def exec_bind_eq_Inr)
  note O = f [OF fW(1)]
  show ?thesis
  proof (cases r)
    case (Inl e)
    then show ?thesis using O fW(2) by (simp add: outcome_def)
  next
    case (Inr b)
    then obtain s i sm where N: "c_str name = Inr s" "new_shm s n (lw_proc W) (lw_kernel W) b P K i sm" "own (sm_is_owner sm)"
      using O by (auto simp: outcome_def)
    have b: "b \<noteq> CPLUS_NULL" "b \<notin> set (mh_live (pr_heap (lw_proc W)))" using N(2) by (simp_all add: new_shm_def)
    then have "pr_shms (lw_proc W) b = None" using W by (auto simp: world_ok_def proc_ok_def)
    then show ?thesis using Inr N b fW(2) by auto
  qed
qed

lemma lock_name_text:
  assumes "0 \<notin> set t"
  shows "\<exists>out. lock_name t = Inr (int (length t), Some out) \<and> c_str (Some out) = Inr (take 30 t)"
proof -
  have "lock_name t = Inr (int (length t), Some (take 30 t @ 0 # replicate (31 - length (take 30 t)) 0))"
    by (simp add: lock_name_def cplus_str_printf_def write_obj_def)
  moreover have "0 \<notin> set (take 30 t)" using assms by (auto dest: in_set_takeD)
  ultimately show ?thesis using c_str_terminated by blast
qed

definition owns :: "init_mode \<Rightarrow> bool \<Rightarrow> bool" where
  "owns mode b \<longleftrightarrow> (mode = INIT_CREATE \<longrightarrow> b) \<and> (mode = INIT_OPEN \<longrightarrow> \<not> b)"

lemma named_region_outcome:
  assumes W: "world_ok W" and t: "0 \<notin> set text" and run: "named_region fl text n mode W = Inr (r, W')"
  shows "case r of
      Inl e \<Rightarrow> lw_proc W' = lw_proc W \<and> kn_names (lw_kernel W') = kn_names (lw_kernel W) \<and> lw_objs W' = lw_objs W \<and> lw_locks W' = lw_locks W
    | Inr b \<Rightarrow> lw_objs W' = lw_objs W \<and> lw_locks W' = lw_locks W \<and> pr_shms (lw_proc W) b = None \<and> b \<noteq> CPLUS_NULL \<and>
        b \<notin> set (mh_live (pr_heap (lw_proc W))) \<and>
        (\<exists>m i sm. owns mode (sm_is_owner sm) \<and>
           new_shm (take 30 text) m (lw_proc W) (lw_kernel W) b (lw_proc W') (lw_kernel W') i sm)"
proof -
  obtain out where out: "lock_name text = Inr (int (length text), Some out)" "c_str (Some out) = Inr (take 30 text)"
    using lock_name_text [OF t] by blast
  have ok: "proc_ok (lw_proc W)" using W by (simp add: world_ok_def)
  show ?thesis
  proof (cases mode)
    case INIT_NONE
    then show ?thesis using run out(1) by (auto simp: named_region_def)
  next
    case INIT_CREATE
    then have c: "shm_call (cplus_sharedmem_create fl (Some out) n) W = Inr (r, W')"
      using run out(1) by (simp add: named_region_def)
    from shm_call_outcome [where own = "\<lambda>b. b" and name = "Some out" and n = n, OF W c create_outcome [OF ok, where fl = fl]] show ?thesis
      using out(2) INIT_CREATE by (cases r) (auto simp: owns_def)
  next
    case INIT_OPEN
    then have c: "shm_call (cplus_sharedmem_open fl (Some out)) W = Inr (r, W')"
      using run out(1) by (simp add: named_region_def)
    from shm_call_outcome [where own = "\<lambda>b. \<not> b" and name = "Some out" and n = 0, OF W c open_outcome [OF ok, where fl = fl]] show ?thesis
      using out(2) INIT_OPEN by (cases r) (auto simp: owns_def)
  next
    case INIT_HYBRID
    then have c: "shm_call (cplus_sharedmem_new fl (Some out) n) W = Inr (r, W')"
      using run out(1) by (simp add: named_region_def)
    from shm_call_outcome [where own = "\<lambda>b. True" and name = "Some out" and n = n, OF W c new_outcome [OF ok, where fl = fl]] show ?thesis
      using out(2) INIT_HYBRID by (cases r) (auto simp: owns_def)
  qed
qed

text \<open>The same as before but for sizes of objects of the kernel that nobody can name.\<close>

definition unchanged :: "('o, 'a) lock_world \<Rightarrow> ('o, 'a) lock_world \<Rightarrow> bool" where
  "unchanged W W' \<longleftrightarrow> lw_proc W' = lw_proc W \<and> kn_names (lw_kernel W') = kn_names (lw_kernel W) \<and>
     lw_objs W' = lw_objs W \<and> lw_locks W' = lw_locks W"

lemma free_fresh:
  assumes W: "world_ok W" and a: "obj_alloc obj W = (Inr a, W1)"
    and V: "lw_proc V = lw_proc W1" "lw_objs V = (lw_objs W)(a \<mapsto> obj')" "lw_locks V = lw_locks W"
      "kn_names (lw_kernel V) = kn_names (lw_kernel W)"
  shows "unchanged W (obj_free a V)"
proof -
  note A = obj_alloc_ok [OF W a]
  have "(lw_proc W1)\<lparr>pr_heap := cplus_mgr_free (pr_heap (lw_proc W1)) a\<rparr> = lw_proc W"
    using arg_cong [OF A(8), of lw_proc] by (simp add: obj_free_def)
  then show ?thesis using V A(2) by (simp add: unchanged_def obj_free_def fun_upd_idem)
qed

text \<open>Deleting a new object that has no lock, with or without shared memory.\<close>

lemma delete_unlocked:
  assumes W: "world_ok W" and a: "obj_alloc obj W = (Inr a, W1)"
    and V: "lw_objs V = (lw_objs W)(a \<mapsto> obj')" "lw_locks V = lw_locks W" "lock_of obj' = No_lock"
    and region: "(shared_of obj' = CPLUS_NULL \<and> lw_proc V = lw_proc W1 \<and> kn_names (lw_kernel V) = kn_names (lw_kernel W)) \<or>
      (shared_of obj' \<noteq> CPLUS_NULL \<and> pr_shms (lw_proc W1) (shared_of obj') = None \<and>
       (\<exists>t m i sm. new_shm t m (lw_proc W1) (lw_kernel W) (shared_of obj') (lw_proc V) (lw_kernel V) i sm))"
  shows "\<exists>W3. delete_named lock_of shared_of a V = Inr W3 \<and> unchanged W W3"
proof (cases "shared_of obj' = CPLUS_NULL")
  case True
  then have "lw_proc V = lw_proc W1" "kn_names (lw_kernel V) = kn_names (lw_kernel W)" using region by auto
  from free_fresh [OF W a this(1) V(1,2) this(2)] show ?thesis
    using True V(1,3) by (simp add: delete_named_def)
next
  case False
  then obtain t m i sm where new: "new_shm t m (lw_proc W1) (lw_kernel W) (shared_of obj') (lw_proc V) (lw_kernel V) i sm"
      and none: "pr_shms (lw_proc W1) (shared_of obj') = None"
    using region by auto
  from delete_new_shm [OF new none] obtain K'' where
    d: "cplus_sharedmem_delete (shared_of obj') (lw_proc V, lw_kernel V) = Inr (lw_proc W1, K'')" "kn_names K'' = kn_names (lw_kernel W)"
    by blast
  let ?V = "V\<lparr>lw_proc := lw_proc W1, lw_kernel := K''\<rparr>"
  have "unchanged W (obj_free a ?V)" using V(1,2) d(2) by (intro free_fresh [OF W a]) simp_all
  moreover have "delete_named lock_of shared_of a V = Inr (obj_free a ?V)"
    using False V(1,3) d(1) new_shmD(1) [OF new]
    by (simp add: delete_named_def cplus_sharedmem_is_owner_def get_shm_def shm_delete_def)
  ultimately show ?thesis by blast
qed

text \<open>The locks are of no concern for that.\<close>

lemma delete_named_locks:
  "\<lbrakk>lw_objs V a = Some obj; lock_of obj = No_lock; delete_named lock_of shared_of a V = Inr W3\<rbrakk> \<Longrightarrow>
   delete_named lock_of shared_of a (V\<lparr>lw_locks := L\<rparr>) = Inr (W3\<lparr>lw_locks := L\<rparr>)"
  by (auto simp: delete_named_def shm_delete_def obj_free_def exec_bind_eq_Inr split: if_splits)

section \<open>Locks shared by name\<close>

text \<open>
  What a constructor of named locks promises its users: creating makes an initialised lock in
  the region of the name, opening points to that region and initialises nothing.
\<close>

locale named_lock =
  fixes create_xp open_xp :: "failures \<Rightarrow> (pthread_call \<Rightarrow> bool) \<Rightarrow> buf \<Rightarrow> ('o, 'a) lock_world \<Rightarrow>
      (ptr cresult \<times> ('o, 'a) lock_world) exec"
    and lock_of :: "'o \<Rightarrow> lock_ptr"
    and for_sharing :: "'a \<Rightarrow> bool"
    and region_name :: "u8 list \<Rightarrow> u8 list"
    and ok :: "('o, 'a) lock_world \<Rightarrow> bool"
  assumes create_names: "\<lbrakk>ok W; c_str name = Inr s; create_xp fl pf name W = Inr (Inr a, W')\<rbrakk> \<Longrightarrow>
      \<exists>obj i attr. lw_objs W' a = Some obj \<and> place_of (lw_proc W') a (lock_of obj) = Some (In_region i) \<and>
        kn_names (lw_kernel W') (region_name s) = Some i \<and> lw_locks W' (In_region i) = Some attr \<and> for_sharing attr"
    and open_finds: "\<lbrakk>ok W; c_str name = Inr s; open_xp fl pf name W = Inr (Inr a, W')\<rbrakk> \<Longrightarrow>
      \<exists>obj i. lw_objs W' a = Some obj \<and> place_of (lw_proc W') a (lock_of obj) = Some (In_region i) \<and>
        kn_names (lw_kernel W) (region_name s) = Some i \<and> lw_locks W' = lw_locks W"
begin

text \<open>Two processes that name the same lock use the same, initialised lock.\<close>

lemma processes_share:
  assumes P: "ok W" "create_xp fl pf name W = Inr (Inr a, W1)"
    and Q: "ok V" "lw_kernel V = lw_kernel W1" "lw_locks V = lw_locks W1" "open_xp fl' pf' name' V = Inr (Inr b, V1)"
    and names: "c_str name = Inr s" "c_str name' = Inr s'" "region_name s' = region_name s"
  shows "\<exists>x y l attr. lw_objs W1 a = Some x \<and> lw_objs V1 b = Some y \<and>
    place_of (lw_proc W1) a (lock_of x) = Some l \<and> place_of (lw_proc V1) b (lock_of y) = Some l \<and>
    lw_locks V1 l = Some attr \<and> for_sharing attr"
  using create_names [OF P(1) names(1) P(2)] open_finds [OF Q(1) names(2) Q(4)] Q(2,3) names(3) by auto

end

section \<open>Examples\<close>

definition example_world :: "int \<Rightarrow> kernel \<Rightarrow> (lock_place \<rightharpoonup> 'a) \<Rightarrow> ('o, 'a) lock_world" where
  "example_world pid K locks = \<lparr>lw_proc = (example_proc pid)\<lparr>pr_heap := \<lparr>mh_live = [], mh_pick =
       (\<lambda>used. if 64 \<notin> set used then 64 else if 128 \<notin> set used then 128 else 0)\<rparr>\<rparr>,
     lw_kernel = K, lw_objs = (\<lambda>a. None), lw_locks = locks\<rparr>"

lemma example_world_ok: "world_ok (example_world pid K locks)"
  by (simp add: world_ok_def proc_ok_def place_law_def example_world_def example_proc_def mheap_inv_def malloc_law_def)

lemma example_world_fields [simp]: "lw_kernel (example_world pid K locks) = K" "lw_locks (example_world pid K locks) = locks"
  by (simp_all add: example_world_def)

lemma example_obj:
  "\<exists>W1. obj_alloc obj (example_world pid K locks) = (Inr 64, W1) \<and> lw_kernel W1 = K \<and> lw_locks W1 = locks \<and>
     mh_pick (pr_heap (lw_proc W1)) (mh_live (pr_heap (lw_proc W1))) = 128 \<and> pr_place (lw_proc W1) (map fst (pr_maps (lw_proc W1))) = 4096"
  by (simp add: obj_alloc_def example_world_def cplus_mgr_malloc_def example_proc_def)

lemma region_created:
  assumes zf: "0 \<notin> set text" and n: "0 < n" "n \<le> SHAREDMEM_MAX_SIZE"
    and heap: "mh_pick (pr_heap (lw_proc W)) (mh_live (pr_heap (lw_proc W))) \<noteq> CPLUS_NULL"
    and place: "pr_place (lw_proc W) (map fst (pr_maps (lw_proc W))) \<noteq> MAP_FAILED"
    and free: "kn_names (lw_kernel W) (path_of (take 30 text)) = None"
  shows "\<exists>b V. named_region no_failures text n INIT_CREATE W = Inr (Inr b, V)"
proof -
  obtain out where out: "lock_name text = Inr (int (length text), Some out)" "c_str (Some out) = Inr (take 30 text)"
    using lock_name_text [OF zf] by blast
  have "length (take 30 text) \<le> 51" by simp
  from create_succeeds [OF out(2) this n heap place free] out(1) show ?thesis
    by (auto simp: named_region_def shm_call_def)
qed

lemma region_opened:
  assumes zf: "0 \<notin> set text"
    and heap: "mh_pick (pr_heap (lw_proc W)) (mh_live (pr_heap (lw_proc W))) \<noteq> CPLUS_NULL"
    and place: "pr_place (lw_proc W) (map fst (pr_maps (lw_proc W))) \<noteq> MAP_FAILED"
    and there: "kn_names (lw_kernel W) (path_of (take 30 text)) = Some i" "0 < kn_size (lw_kernel W) i"
      "kn_size (lw_kernel W) i < 2 ^ 32"
  shows "\<exists>b V. named_region no_failures text n INIT_OPEN W = Inr (Inr b, V)"
proof -
  obtain out where out: "lock_name text = Inr (int (length text), Some out)" "c_str (Some out) = Inr (take 30 text)"
    using lock_name_text [OF zf] by blast
  have "length (take 30 text) \<le> 51" by simp
  from open_succeeds [OF out(2) this heap place there] out(1) show ?thesis
    by (auto simp: named_region_def shm_call_def)
qed

text \<open>The size of a region that was created.\<close>

lemma created_size:
  assumes W: "world_ok W" and t: "0 \<notin> set text" and run: "named_region fl text n INIT_CREATE W = Inr (Inr b, V)"
  shows "\<exists>i. kn_names (lw_kernel V) (path_of (take 30 text)) = Some i \<and> kn_size (lw_kernel V) i = unat n \<and> 0 < n"
proof -
  obtain out where out: "lock_name text = Inr (int (length text), Some out)" "c_str (Some out) = Inr (take 30 text)"
    using lock_name_text [OF t] by blast
  have c: "shm_call (cplus_sharedmem_create fl (Some out) n) W = Inr (Inr b, V)"
    using run out(1) by (simp add: named_region_def)
  have ok: "proc_ok (lw_proc W)" using W by (simp add: world_ok_def)
  from shm_call_outcome [where own = "\<lambda>b. b" and name = "Some out" and n = n, OF W c create_outcome [OF ok, where fl = fl]]
  obtain i sm where new: "sm_is_owner sm" "new_shm (take 30 text) n (lw_proc W) (lw_kernel W) b (lw_proc V) (lw_kernel V) i sm"
    using out(2) by auto
  then have "0 < sm_size sm" by (simp add: new_shm_def)
  then show ?thesis using new_shmD(9) [OF new(2)] new(1) by (auto simp: stands_for_def)
qed

end
