(* ===== verification/Pevent.thy ===== *)
theory Pevent
  imports Prelude
begin

text \<open>
  The events of \<^verbatim>\<open>src/pevent.c\<close>: a flag \<open>setted\<close> under a mutex with a condition variable.  An
  auto-reset event (\<open>broadcast = false\<close>) lets one waiter through per set, a broadcast event
  lets all waiters through until it is reset.

  Any number of threads call \<^verbatim>\<open>cplus_pevent_wait\<close>, \<^verbatim>\<open>cplus_pevent_set\<close>,
  \<^verbatim>\<open>cplus_pevent_reset\<close> and \<^verbatim>\<open>cplus_pevent_get_status\<close> on one event; a step is what a
  thread does between two points where another one can interfere.  The mutex and the condition
  variable behave as POSIX says: \<^verbatim>\<open>pthread_cond_wait\<close> releases the mutex and sleeps in one
  step, a sleeper may wake without a signal, and before it returns it has to take the mutex
  again.  \<^verbatim>\<open>pthread_cond_timedwait\<close> may report that the time is over and still take a signal that
  is made before it has the mutex back.  An event with a name shares the same structure between
  processes.
\<close>

section \<open>Threads\<close>

text \<open>
  Where a thread is.  In a wait with a timeout: before taking the mutex; at the first test of the
  flag; asleep; woken or timed out and before taking the mutex again; at the test of the loop; about
  to release the mutex with a result (\<open>None\<close> for success); returned.  Then the points of
  set, reset and get_status.
\<close>

datatype pe_pc =
    Outside
  | Wait_enter u32
  | Wait_test u32
  | Wait_sleep u32
  | Wait_woken u32
  | Wait_expired u32
  | Wait_again u32
  | Wait_leave "errno option"
  | Wait_done "errno option"
  | Set_enter
  | Set_store
  | Set_wake
  | Set_leave
  | Reset_enter
  | Reset_store
  | Reset_leave
  | Status_enter
  | Status_read
  | Status_leave bool
  | Status_done bool

text \<open>
  The event, the threads, and three marks for the properties: the sets made, the waits that
  succeeded, and whether the signal of the last set went to a thread whose time was over.
\<close>

record pe_sys =
  pe_setted :: bool
  pe_broadcast :: bool
  pe_owner :: "nat option"
  pe_pcs :: "nat \<Rightarrow> pe_pc"
  pe_sets :: nat
  pe_wins :: nat
  pe_wasted :: bool

text \<open>\<^verbatim>\<open>cplus_pevent_new(broadcast, status)\<close> sets the new event when \<open>status\<close> is true.\<close>

definition cplus_pevent_new :: "bool \<Rightarrow> bool \<Rightarrow> pe_sys" where
  "cplus_pevent_new broadcast status = \<lparr>pe_setted = status, pe_broadcast = broadcast,
     pe_owner = None, pe_pcs = (\<lambda>i. Outside), pe_sets = (if status then 1 else 0), pe_wins = 0, pe_wasted = False\<rparr>"

definition goto :: "pe_sys \<Rightarrow> nat \<Rightarrow> pe_pc \<Rightarrow> pe_sys" where
  "goto s i p = s\<lparr>pe_pcs := (pe_pcs s)(i := p)\<rparr>"

text \<open>Taking the mutex, and releasing it.\<close>

definition lock :: "pe_sys \<Rightarrow> nat \<Rightarrow> pe_pc \<Rightarrow> pe_sys" where
  "lock s i p = (goto s i p)\<lparr>pe_owner := Some i\<rparr>"

definition unlock :: "pe_sys \<Rightarrow> nat \<Rightarrow> pe_pc \<Rightarrow> pe_sys" where
  "unlock s i p = (goto s i p)\<lparr>pe_owner := None\<rparr>"

text \<open>A successful wait takes the flag of an auto-reset event with it.\<close>

definition take_event :: "pe_sys \<Rightarrow> nat \<Rightarrow> pe_sys" where
  "take_event s i = (goto s i (Wait_leave None))
     \<lparr>pe_setted := pe_broadcast s, pe_wins := pe_wins s + 1\<rparr>"

primrec asleep :: "pe_pc \<Rightarrow> bool" where
  "asleep Outside = False" | "asleep (Wait_enter t) = False" | "asleep (Wait_test t) = False"
| "asleep (Wait_sleep t) = True" | "asleep (Wait_woken t) = False" | "asleep (Wait_expired t) = False"
| "asleep (Wait_again t) = False" | "asleep (Wait_leave r) = False" | "asleep (Wait_done r) = False"
| "asleep Set_enter = False" | "asleep Set_store = False" | "asleep Set_wake = False"
| "asleep Set_leave = False" | "asleep Reset_enter = False" | "asleep Reset_store = False"
| "asleep Reset_leave = False" | "asleep Status_enter = False" | "asleep Status_read = False"
| "asleep (Status_leave b) = False" | "asleep (Status_done b) = False"

text \<open>\<^verbatim>\<open>pthread_cond_broadcast\<close>.\<close>

definition wake_up :: "pe_pc \<Rightarrow> pe_pc" where
  "wake_up p = (case p of Wait_sleep t \<Rightarrow> Wait_woken t | _ \<Rightarrow> p)"

definition wake_all :: "pe_sys \<Rightarrow> pe_sys" where
  "wake_all s = s\<lparr>pe_pcs := (\<lambda>i. wake_up (pe_pcs s i))\<rparr>"

section \<open>Steps\<close>

inductive pe_step :: "pe_sys \<Rightarrow> pe_sys \<Rightarrow> bool" where
  call: "\<lbrakk>pe_pcs s i = Outside; p = Wait_enter t \<or> p = Set_enter \<or> p = Reset_enter \<or> p = Status_enter\<rbrakk>
    \<Longrightarrow> pe_step s (goto s i p)"
| return: "\<lbrakk>pe_pcs s i = Wait_done r \<or> pe_pcs s i = Status_done b\<rbrakk> \<Longrightarrow> pe_step s (goto s i Outside)"
| wait_lock: "\<lbrakk>pe_pcs s i = Wait_enter t; pe_owner s = None\<rbrakk> \<Longrightarrow> pe_step s (lock s i (Wait_test t))"
| wait_busy: "\<lbrakk>pe_pcs s i = Wait_enter 0; pe_owner s \<noteq> None\<rbrakk>
    \<Longrightarrow> pe_step s (goto s i (Wait_done (Some EBUSY)))"
| test_set: "\<lbrakk>pe_pcs s i = Wait_test t; pe_setted s\<rbrakk> \<Longrightarrow> pe_step s (take_event s i)"
| test_poll: "\<lbrakk>pe_pcs s i = Wait_test 0; \<not> pe_setted s\<rbrakk>
    \<Longrightarrow> pe_step s (goto s i (Wait_leave (Some EAGAIN)))"
| test_sleep: "\<lbrakk>pe_pcs s i = Wait_test t; t \<noteq> 0; \<not> pe_setted s\<rbrakk>
    \<Longrightarrow> pe_step s (unlock s i (Wait_sleep t))"
| spurious: "\<lbrakk>pe_pcs s i = Wait_sleep t\<rbrakk> \<Longrightarrow> pe_step s (goto s i (Wait_woken t))"
| expire: "\<lbrakk>pe_pcs s i = Wait_sleep t; t \<noteq> CPLUS_INFINITE_TIMEOUT\<rbrakk>
    \<Longrightarrow> pe_step s (goto s i (Wait_expired t))"
| woken_lock: "\<lbrakk>pe_pcs s i = Wait_woken t; pe_owner s = None\<rbrakk> \<Longrightarrow> pe_step s (lock s i (Wait_again t))"
| expired_lock: "\<lbrakk>pe_pcs s i = Wait_expired t; pe_owner s = None\<rbrakk>
    \<Longrightarrow> pe_step s (lock s i (Wait_leave (Some ETIMEDOUT)))"
| again_sleep: "\<lbrakk>pe_pcs s i = Wait_again t; \<not> pe_setted s\<rbrakk> \<Longrightarrow> pe_step s (unlock s i (Wait_sleep t))"
| again_set: "\<lbrakk>pe_pcs s i = Wait_again t; pe_setted s\<rbrakk> \<Longrightarrow> pe_step s (take_event s i)"
| wait_unlock: "\<lbrakk>pe_pcs s i = Wait_leave r\<rbrakk> \<Longrightarrow> pe_step s (unlock s i (Wait_done r))"
| set_lock: "\<lbrakk>pe_pcs s i = Set_enter; pe_owner s = None\<rbrakk> \<Longrightarrow> pe_step s (lock s i Set_store)"
| set_store: "\<lbrakk>pe_pcs s i = Set_store\<rbrakk>
    \<Longrightarrow> pe_step s ((goto s i Set_wake)\<lparr>pe_setted := True, pe_sets := pe_sets s + 1, pe_wasted := False\<rparr>)"
| set_broadcast: "\<lbrakk>pe_pcs s i = Set_wake; pe_broadcast s\<rbrakk> \<Longrightarrow> pe_step s (goto (wake_all s) i Set_leave)"
| set_signal: "\<lbrakk>pe_pcs s i = Set_wake; \<not> pe_broadcast s; pe_pcs s j = Wait_sleep t\<rbrakk>
    \<Longrightarrow> pe_step s (goto (goto s j (Wait_woken t)) i Set_leave)"
| set_wasted: "\<lbrakk>pe_pcs s i = Set_wake; \<not> pe_broadcast s; pe_pcs s j = Wait_expired t\<rbrakk>
    \<Longrightarrow> pe_step s ((goto s i Set_leave)\<lparr>pe_wasted := True\<rparr>)"
| set_nobody: "\<lbrakk>pe_pcs s i = Set_wake; \<not> pe_broadcast s; \<forall>j. \<not> asleep (pe_pcs s j)\<rbrakk>
    \<Longrightarrow> pe_step s (goto s i Set_leave)"
| set_unlock: "\<lbrakk>pe_pcs s i = Set_leave\<rbrakk> \<Longrightarrow> pe_step s (unlock s i Outside)"
| reset_lock: "\<lbrakk>pe_pcs s i = Reset_enter; pe_owner s = None\<rbrakk> \<Longrightarrow> pe_step s (lock s i Reset_store)"
| reset_store: "\<lbrakk>pe_pcs s i = Reset_store\<rbrakk>
    \<Longrightarrow> pe_step s ((goto s i Reset_leave)\<lparr>pe_setted := False\<rparr>)"
| reset_unlock: "\<lbrakk>pe_pcs s i = Reset_leave\<rbrakk> \<Longrightarrow> pe_step s (unlock s i Outside)"
| status_lock: "\<lbrakk>pe_pcs s i = Status_enter; pe_owner s = None\<rbrakk> \<Longrightarrow> pe_step s (lock s i Status_read)"
| status_read: "\<lbrakk>pe_pcs s i = Status_read\<rbrakk> \<Longrightarrow> pe_step s (goto s i (Status_leave (pe_setted s)))"
| status_unlock: "\<lbrakk>pe_pcs s i = Status_leave b\<rbrakk> \<Longrightarrow> pe_step s (unlock s i (Status_done b))"

inductive pe_reach :: "pe_sys \<Rightarrow> pe_sys \<Rightarrow> bool" where
  pe_refl: "pe_reach s s"
| pe_next: "pe_reach s s' \<Longrightarrow> pe_step s' s'' \<Longrightarrow> pe_reach s s''"

declare pe_next [trans]

section \<open>The mutex\<close>

primrec inside :: "pe_pc \<Rightarrow> bool" where
  "inside Outside = False" | "inside (Wait_enter t) = False" | "inside (Wait_test t) = True"
| "inside (Wait_sleep t) = False" | "inside (Wait_woken t) = False" | "inside (Wait_expired t) = False"
| "inside (Wait_again t) = True" | "inside (Wait_leave r) = True" | "inside (Wait_done r) = False"
| "inside Set_enter = False" | "inside Set_store = True" | "inside Set_wake = True"
| "inside Set_leave = True" | "inside Reset_enter = False" | "inside Reset_store = True"
| "inside Reset_leave = True" | "inside Status_enter = False" | "inside Status_read = True"
| "inside (Status_leave b) = True" | "inside (Status_done b) = False"

definition mutex_inv :: "pe_sys \<Rightarrow> bool" where
  "mutex_inv s \<longleftrightarrow> (\<forall>i. inside (pe_pcs s i) \<longleftrightarrow> pe_owner s = Some i)"

lemmas pe_defs = goto_def lock_def unlock_def take_event_def

lemma inside_wake_up [simp]: "inside (wake_up p) = inside p"
  by (cases p) (simp_all add: wake_up_def)

lemma asleep_wake_up [simp]: "\<not> asleep (wake_up p)"
  by (cases p) (simp_all add: wake_up_def)

lemma mutex_inv_flags [simp]:
  "mutex_inv (s\<lparr>pe_setted := x\<rparr>) = mutex_inv s" "mutex_inv (s\<lparr>pe_sets := n\<rparr>) = mutex_inv s"
  "mutex_inv (s\<lparr>pe_wins := n\<rparr>) = mutex_inv s" "mutex_inv (wake_all s) = mutex_inv s"
  "mutex_inv (s\<lparr>pe_wasted := x\<rparr>) = mutex_inv s"
  by (simp_all add: mutex_inv_def wake_all_def)

lemma mutex_inv_goto:
  "\<lbrakk>mutex_inv s; inside p = inside (pe_pcs s i)\<rbrakk> \<Longrightarrow> mutex_inv (goto s i p)"
  by (simp add: mutex_inv_def goto_def)

lemma mutex_inv_lock: "\<lbrakk>mutex_inv s; pe_owner s = None; inside p\<rbrakk> \<Longrightarrow> mutex_inv (lock s i p)"
  by (auto simp: mutex_inv_def pe_defs)

lemma mutex_inv_unlock:
  "\<lbrakk>mutex_inv s; inside (pe_pcs s i); \<not> inside p\<rbrakk> \<Longrightarrow> mutex_inv (unlock s i p)"
  by (auto simp: mutex_inv_def pe_defs)

lemma mutex_inv_take: "\<lbrakk>mutex_inv s; inside (pe_pcs s i)\<rbrakk> \<Longrightarrow> mutex_inv (take_event s i)"
  by (simp add: take_event_def mutex_inv_goto)

lemma mutex_inv_step: "\<lbrakk>pe_step s s'; mutex_inv s\<rbrakk> \<Longrightarrow> mutex_inv s'"
proof (induction rule: pe_step.induct)
  case (call s i p t)
  then show ?case by (intro mutex_inv_goto) auto
next
  case (return s i r b)
  then show ?case by (intro mutex_inv_goto) auto
next
  case (set_broadcast s i)
  then have "inside (pe_pcs (wake_all s) i)" by (simp add: wake_all_def)
  with set_broadcast show ?case by (simp add: mutex_inv_goto)
next
  case (set_signal s i j t)
  then have "j \<noteq> i" by auto
  with set_signal have "inside (pe_pcs (goto s j (Wait_woken t)) i)" by (simp add: goto_def)
  with set_signal show ?case by (simp add: mutex_inv_goto)
qed (auto intro: mutex_inv_goto mutex_inv_lock mutex_inv_unlock mutex_inv_take)

lemma pe_reach_inv:
  assumes "pe_reach s s'" "P s" "\<And>u u'. pe_step u u' \<Longrightarrow> P u \<Longrightarrow> P u'"
  shows "P s'"
  using assms by (induction rule: pe_reach.induct) auto

lemma new_mutex_inv: "mutex_inv (cplus_pevent_new b st)"
  by (simp add: mutex_inv_def cplus_pevent_new_def)

lemma step_broadcast: "pe_step s s' \<Longrightarrow> pe_broadcast s' = pe_broadcast s"
  by (induction rule: pe_step.induct) (simp_all add: pe_defs wake_all_def)

lemma reach_broadcast: "pe_reach s s' \<Longrightarrow> pe_broadcast s' = pe_broadcast s"
  by (induction rule: pe_reach.induct) (simp_all add: step_broadcast)

section \<open>At most one waiter per set\<close>

definition budget_inv :: "pe_sys \<Rightarrow> bool" where
  "budget_inv s \<longleftrightarrow> \<not> pe_broadcast s \<and> pe_wins s + (if pe_setted s then 1 else 0) \<le> pe_sets s"

lemma budget_inv_step: "\<lbrakk>pe_step s s'; budget_inv s\<rbrakk> \<Longrightarrow> budget_inv s'"
  by (induction rule: pe_step.induct) (auto simp: budget_inv_def pe_defs wake_all_def split: if_splits)

text \<open>C23.
  An auto-reset event releases at most one waiter per set: in every interleaving of any number of
  threads, the waits that have succeeded, and the flag if it is still set, are no more than the sets made.
\<close>

theorem pevent_one_waiter_per_set:
  assumes "pe_reach (cplus_pevent_new False status) s"
  shows "pe_wins s + (if pe_setted s then 1 else 0) \<le> pe_sets s"
proof -
  have "budget_inv (cplus_pevent_new False status)" by (simp add: budget_inv_def cplus_pevent_new_def)
  then have "budget_inv s" by (rule pe_reach_inv [OF assms]) (rule budget_inv_step)
  then show ?thesis by (simp add: budget_inv_def)
qed

text \<open>A set event and one thread that takes it.\<close>

definition example_taken :: pe_sys where
  "example_taken = take_event (lock (goto (cplus_pevent_new False True) 0 (Wait_enter 5)) 0 (Wait_test 5)) 0"

lemma example_taken_reached: "pe_reach (cplus_pevent_new False True) example_taken"
proof -
  let ?n = "cplus_pevent_new False True"
  have "pe_reach ?n ?n" by (rule pe_refl)
  also have "pe_step ?n (goto ?n 0 (Wait_enter 5))"
    by (rule call) (simp_all add: cplus_pevent_new_def)
  also have "pe_step (goto ?n 0 (Wait_enter 5)) (lock (goto ?n 0 (Wait_enter 5)) 0 (Wait_test 5))"
    by (rule wait_lock) (simp_all add: cplus_pevent_new_def goto_def)
  also have "pe_step (lock (goto ?n 0 (Wait_enter 5)) 0 (Wait_test 5)) example_taken"
    unfolding example_taken_def by (rule test_set [where t = 5]) (simp_all add: cplus_pevent_new_def pe_defs)
  finally show ?thesis .
qed

theorem pevent_one_waiter_per_set_witness:
  "pe_wins example_taken = 1 \<and> pe_wins example_taken + (if pe_setted example_taken then 1 else 0) \<le> pe_sets example_taken"
  using pevent_one_waiter_per_set [OF example_taken_reached]
  by (simp add: example_taken_def pe_defs cplus_pevent_new_def)

section \<open>No wake-up is lost\<close>

text \<open>Who will see the flag: a setter about to signal, or a woken waiter on its way to the test.\<close>

definition attends :: "bool \<Rightarrow> pe_pc \<Rightarrow> bool" where
  "attends broadcast p \<longleftrightarrow> p = Set_wake \<or> \<not> broadcast \<and> (\<exists>t. p = Wait_woken t \<or> p = Wait_again t)"

definition wake_inv :: "pe_sys \<Rightarrow> bool" where
  "wake_inv s \<longleftrightarrow> (pe_setted s \<longrightarrow> (\<exists>i. asleep (pe_pcs s i)) \<longrightarrow>
     (\<exists>j. attends (pe_broadcast s) (pe_pcs s j)) \<or> \<not> pe_broadcast s \<and> pe_wasted s)"

lemma wake_inv_unset: "\<not> pe_setted s \<Longrightarrow> wake_inv s"
  by (simp add: wake_inv_def)

lemma wake_inv_move:
  assumes "wake_inv s" "pe_pcs s' = (pe_pcs s)(i := p)" "pe_broadcast s' = pe_broadcast s"
    and "pe_setted s' \<Longrightarrow> pe_setted s" "asleep p \<Longrightarrow> asleep (pe_pcs s i)"
    and "attends (pe_broadcast s) (pe_pcs s i) \<Longrightarrow> attends (pe_broadcast s) p" "pe_wasted s' = pe_wasted s"
  shows "wake_inv s'"
  unfolding wake_inv_def
proof (intro impI)
  assume "pe_setted s'" "\<exists>k. asleep (pe_pcs s' k)"
  then have "pe_setted s" "\<exists>k. asleep (pe_pcs s k)"
    using assms(2,4,5) by (auto split: if_splits)
  then have "(\<exists>j. attends (pe_broadcast s) (pe_pcs s j)) \<or> \<not> pe_broadcast s \<and> pe_wasted s"
    using assms(1) by (auto simp: wake_inv_def)
  then show "(\<exists>j. attends (pe_broadcast s') (pe_pcs s' j)) \<or> \<not> pe_broadcast s' \<and> pe_wasted s'"
  proof
    assume "\<exists>j. attends (pe_broadcast s) (pe_pcs s j)"
    then obtain j where j: "attends (pe_broadcast s) (pe_pcs s j)" by blast
    have "attends (pe_broadcast s') (pe_pcs s' j)" using j assms(2,3,6) by auto
    then show ?thesis by blast
  qed (use assms(3,7) in simp)
qed

lemma attends_simps [simp]:
  "attends b Set_wake" "attends b (Wait_woken t) = (\<not> b)" "attends b (Wait_again t) = (\<not> b)"
  "\<not> attends b Outside" "\<not> attends b (Wait_enter t)" "\<not> attends b (Wait_test t)"
  "\<not> attends b (Wait_sleep t)" "\<not> attends b (Wait_expired t)" "\<not> attends b (Wait_leave r)"
  "\<not> attends b (Wait_done r)" "\<not> attends b Set_enter" "\<not> attends b Set_store"
  "\<not> attends b Set_leave" "\<not> attends b Reset_enter" "\<not> attends b Reset_store"
  "\<not> attends b Reset_leave" "\<not> attends b Status_enter" "\<not> attends b Status_read"
  "\<not> attends b (Status_leave x)" "\<not> attends b (Status_done x)"
  by (simp_all add: attends_def)

lemma wake_inv_goto:
  assumes "wake_inv s" "\<not> asleep p" "\<not> attends (pe_broadcast s) (pe_pcs s i)"
  shows "wake_inv (goto s i p)" "wake_inv (lock s i p)" "wake_inv (unlock s i p)"
  by (rule wake_inv_move [of s _ i p]; use assms in \<open>simp add: pe_defs\<close>)+

lemma wake_inv_step: "\<lbrakk>pe_step s s'; wake_inv s\<rbrakk> \<Longrightarrow> wake_inv s'"
proof (induction rule: pe_step.induct)
  case (call s i p t)
  then show ?case by (intro wake_inv_goto) auto
next
  case (return s i r b)
  then show ?case by (intro wake_inv_goto) auto
next
  case (test_set s i t)
  show ?case
  proof (cases "pe_broadcast s")
    case True
    with test_set show ?thesis
      by - (rule wake_inv_move [of s _ i "Wait_leave None"], simp_all add: pe_defs)
  qed (simp add: wake_inv_unset pe_defs)
next
  case (again_set s i t)
  show ?case
  proof (cases "pe_broadcast s")
    case True
    with again_set show ?thesis
      by - (rule wake_inv_move [of s _ i "Wait_leave None"], simp_all add: pe_defs)
  qed (simp add: wake_inv_unset pe_defs)
next
  case (woken_lock s i t)
  then show ?case by - (rule wake_inv_move [of s _ i "Wait_again t"], simp_all add: pe_defs)
next
  case (set_store s i)
  have "attends b (pe_pcs ((goto s i Set_wake)\<lparr>pe_setted := True, pe_sets := pe_sets s + 1, pe_wasted := False\<rparr>) i)" for b
    by (simp add: pe_defs)
  then show ?case unfolding wake_inv_def by blast
next
  case (set_broadcast s i)
  have "\<not> asleep (pe_pcs (goto (wake_all s) i Set_leave) k)" for k
    by (simp add: goto_def wake_all_def)
  then show ?case unfolding wake_inv_def by blast
next
  case (set_signal s i j t)
  let ?s' = "goto (goto s j (Wait_woken t)) i Set_leave"
  have "j \<noteq> i" using set_signal(1,3) by auto
  then have "attends (pe_broadcast ?s') (pe_pcs ?s' j)"
    using set_signal(2) by (simp add: goto_def)
  then show ?case unfolding wake_inv_def by blast
next
  case (set_wasted s i j t)
  then show ?case by (simp add: wake_inv_def goto_def)
next
  case (set_nobody s i)
  then have "\<not> asleep (pe_pcs (goto s i Set_leave) k)" for k by (simp add: goto_def)
  then show ?case unfolding wake_inv_def by blast
next
  case (test_sleep s i t)
  then show ?case by (simp add: wake_inv_unset pe_defs)
next
  case (again_sleep s i t)
  then show ?case by (simp add: wake_inv_unset pe_defs)
next
  case (reset_store s i)
  then show ?case by (simp add: wake_inv_unset pe_defs)
qed (simp_all add: wake_inv_goto)

text \<open>C24.
  Where a wake-up goes: in every interleaving, when the event is set while a thread sleeps in a wait,
  then some thread is about to signal, or (auto-reset) a woken thread is on its way to test the
  flag, or (auto-reset) the signal of the last set went to a thread whose time was over.  A
  broadcast event has no sleeper left once its setter has signalled.  The last case, which
  \<^verbatim>\<open>pthread_cond_timedwait\<close> allows, is the only one in which a sleeper misses a set.
\<close>

theorem pevent_wakeup_arrives:
  assumes "pe_reach (cplus_pevent_new broadcast status) s" "pe_setted s" "pe_pcs s i = Wait_sleep t"
  shows "(\<exists>j. pe_pcs s j = Set_wake \<or>
     \<not> broadcast \<and> (\<exists>t'. pe_pcs s j = Wait_woken t' \<or> pe_pcs s j = Wait_again t')) \<or>
     \<not> broadcast \<and> pe_wasted s"
proof -
  have "wake_inv (cplus_pevent_new broadcast status)"
    by (simp add: wake_inv_def cplus_pevent_new_def)
  then have "wake_inv s" by (rule pe_reach_inv [OF assms(1)]) (rule wake_inv_step)
  moreover have "asleep (pe_pcs s i)" using assms(3) by simp
  moreover have "pe_broadcast s = broadcast"
    using reach_broadcast [OF assms(1)] by (simp add: cplus_pevent_new_def)
  ultimately show ?thesis using assms(2) by (auto simp: wake_inv_def attends_def)
qed

text \<open>A sleeping thread, and one that has just stored the flag.\<close>

definition example_asleep :: pe_sys where
  "example_asleep = unlock (lock (goto (cplus_pevent_new False False) 0 (Wait_enter 5)) 0 (Wait_test 5))
     0 (Wait_sleep 5)"

definition example_set :: pe_sys where
  "example_set = (goto (lock (goto example_asleep 1 Set_enter) 1 Set_store) 1 Set_wake)
     \<lparr>pe_setted := True, pe_sets := 1, pe_wasted := False\<rparr>"

lemma example_asleep_reached: "pe_reach (cplus_pevent_new False False) example_asleep"
proof -
  let ?n = "cplus_pevent_new False False"
  note defs = cplus_pevent_new_def pe_defs
  have "pe_reach ?n ?n" by (rule pe_refl)
  also have "pe_step ?n (goto ?n 0 (Wait_enter 5))" by (rule call) (simp_all add: defs)
  also have "pe_step (goto ?n 0 (Wait_enter 5)) (lock (goto ?n 0 (Wait_enter 5)) 0 (Wait_test 5))"
    by (rule wait_lock) (simp_all add: defs)
  also have "pe_step (lock (goto ?n 0 (Wait_enter 5)) 0 (Wait_test 5)) example_asleep"
    unfolding example_asleep_def by (rule test_sleep) (simp_all add: defs)
  finally show ?thesis .
qed

lemma example_set_reached: "pe_reach (cplus_pevent_new False False) example_set"
proof -
  note defs = cplus_pevent_new_def pe_defs example_asleep_def
  note example_asleep_reached
  also have "pe_step example_asleep (goto example_asleep 1 Set_enter)"
    by (rule call) (simp_all add: defs)
  also have "pe_step (goto example_asleep 1 Set_enter) (lock (goto example_asleep 1 Set_enter) 1 Set_store)"
    by (rule set_lock) (simp_all add: defs)
  also have "pe_step (lock (goto example_asleep 1 Set_enter) 1 Set_store) example_set"
    using set_store [of "lock (goto example_asleep 1 Set_enter) 1 Set_store" 1]
    by (simp add: example_set_def defs)
  finally show ?thesis .
qed

theorem pevent_wakeup_arrives_witness:
  "pe_setted example_set \<and> pe_pcs example_set 0 = Wait_sleep 5 \<and> \<not> pe_wasted example_set \<and>
     (\<exists>j. pe_pcs example_set j = Set_wake \<or>
       (\<exists>t'. pe_pcs example_set j = Wait_woken t' \<or> pe_pcs example_set j = Wait_again t'))"
proof -
  have set: "pe_setted example_set" and spare: "\<not> pe_wasted example_set" by (simp_all add: example_set_def)
  have sleeper: "pe_pcs example_set 0 = Wait_sleep 5"
    by (simp add: example_set_def example_asleep_def cplus_pevent_new_def pe_defs)
  show ?thesis
    using pevent_wakeup_arrives [OF example_set_reached set sleeper] spare
    by (intro conjI set sleeper spare) (simp only: not_False_eq_True simp_thms)
qed

section \<open>A wake-up that goes to an expired wait\<close>

text \<open>
  Thread 1 sleeps without a limit and thread 0 with one.  The time of thread 0 is over when thread 2 sets the
  event, and the signal goes to thread 0, which returns \<open>ETIMEDOUT\<close> and does not look at the flag.
\<close>

definition example_sleepers :: pe_sys where
  "example_sleepers = unlock (lock (goto example_asleep 1 (Wait_enter CPLUS_INFINITE_TIMEOUT)) 1
     (Wait_test CPLUS_INFINITE_TIMEOUT)) 1 (Wait_sleep CPLUS_INFINITE_TIMEOUT)"

definition example_wasted :: pe_sys where
  "example_wasted = (let s = lock (goto (goto example_sleepers 0 (Wait_expired 5)) 2 Set_enter) 2 Set_store;
     s1 = (goto s 2 Set_wake)\<lparr>pe_setted := True, pe_sets := pe_sets s + 1, pe_wasted := False\<rparr>;
     s2 = unlock ((goto s1 2 Set_leave)\<lparr>pe_wasted := True\<rparr>) 2 Outside
   in goto (unlock (lock s2 0 (Wait_leave (Some ETIMEDOUT))) 0 (Wait_done (Some ETIMEDOUT))) 0 Outside)"

lemma example_sleepers_reached: "pe_reach (cplus_pevent_new False False) example_sleepers"
proof -
  let ?t = CPLUS_INFINITE_TIMEOUT
  note defs = cplus_pevent_new_def pe_defs example_asleep_def
  note example_asleep_reached
  also have "pe_step example_asleep (goto example_asleep 1 (Wait_enter ?t))"
    by (rule call) (simp_all add: defs)
  also have "pe_step (goto example_asleep 1 (Wait_enter ?t))
      (lock (goto example_asleep 1 (Wait_enter ?t)) 1 (Wait_test ?t))"
    by (rule wait_lock) (simp_all add: defs)
  also have "pe_step (lock (goto example_asleep 1 (Wait_enter ?t)) 1 (Wait_test ?t)) example_sleepers"
    unfolding example_sleepers_def by (rule test_sleep) (simp_all add: defs CPLUS_INFINITE_TIMEOUT_def)
  finally show ?thesis .
qed

lemma example_wasted_reached: "pe_reach (cplus_pevent_new False False) example_wasted"
proof -
  let ?e = "goto example_sleepers 0 (Wait_expired 5)"
  let ?s = "lock (goto ?e 2 Set_enter) 2 Set_store"
  let ?s1 = "(goto ?s 2 Set_wake)\<lparr>pe_setted := True, pe_sets := pe_sets ?s + 1, pe_wasted := False\<rparr>"
  let ?s2 = "(goto ?s1 2 Set_leave)\<lparr>pe_wasted := True\<rparr>"
  let ?s3 = "unlock ?s2 2 Outside"
  let ?s4 = "lock ?s3 0 (Wait_leave (Some ETIMEDOUT))"
  let ?s5 = "unlock ?s4 0 (Wait_done (Some ETIMEDOUT))"
  note defs = cplus_pevent_new_def pe_defs example_asleep_def example_sleepers_def
  note example_sleepers_reached
  also have "pe_step example_sleepers ?e"
    by (rule expire) (simp_all add: defs CPLUS_INFINITE_TIMEOUT_def)
  also have "pe_step ?e (goto ?e 2 Set_enter)" by (rule call) (simp_all add: defs)
  also have "pe_step (goto ?e 2 Set_enter) ?s" by (rule set_lock) (simp_all add: defs)
  also have "pe_step ?s ?s1" by (rule set_store) (simp add: defs)
  also have "pe_step ?s1 ?s2" by (rule set_wasted [of _ _ 0 5]) (simp_all add: defs)
  also have "pe_step ?s2 ?s3" by (rule set_unlock) (simp add: defs)
  also have "pe_step ?s3 ?s4" by (rule expired_lock) (simp_all add: defs)
  also have "pe_step ?s4 ?s5" by (rule wait_unlock) (simp add: defs)
  also have "pe_step ?s5 (goto ?s5 0 Outside)"
    by (rule return [of _ _ "Some ETIMEDOUT"]) (simp add: defs)
  finally show ?thesis by (simp add: example_wasted_def Let_def)
qed

text \<open>
  A wake-up can be lost: the event is set, every other thread is outside the calls, and thread 1 sleeps
  on, with no limit, until somebody sets the event once more.
\<close>

theorem pevent_wakeup_lost_to_timeout:
  "\<exists>s. pe_reach (cplus_pevent_new False False) s \<and> pe_setted s \<and>
     pe_pcs s 1 = Wait_sleep CPLUS_INFINITE_TIMEOUT \<and> (\<forall>i. i \<noteq> 1 \<longrightarrow> pe_pcs s i = Outside)"
  by (rule exI [of _ example_wasted], intro conjI example_wasted_reached)
    (simp_all add: example_wasted_def Let_def cplus_pevent_new_def pe_defs example_asleep_def example_sleepers_def)

end
