(* ===== verification/Pevent_New.thy ===== *)
theory Pevent_New
  imports Named_Lock Pevent
begin

text \<open>
  Construction and release of the events of \<^verbatim>\<open>src/pevent.c\<close>, with and without a name.  An
  event is a mutex, a condition variable and three flags, in the object itself or in shared
  memory; what is at such a place is the record \<open>event_mem\<close>.
\<close>

section \<open>Objects\<close>

text \<open>
  The mutex, when it is initialised, with whether several processes can use it; the condition
  variable with whether it uses the monotonic clock and whether several processes can use it.
\<close>

record event_mem =
  em_mutex :: "bool option"
  em_cond :: "(bool \<times> bool) option"
  em_setted :: bool
  em_broadcast :: bool
  em_status :: bool

text \<open>The five pointers of an event are set together, to the parts of one \<open>event_mem\<close>.\<close>

record pevent =
  pv_ptrs :: lock_ptr
  pv_shared_mem :: ptr

type_synonym pevent_world = "(pevent, event_mem) lock_world"

definition PEVENT_NAME_MAX_SIZE :: nat where "PEVENT_NAME_MAX_SIZE = 31"

text \<open>\<open>pevent.%s\<close>\<close>

definition PEVENT_NAME_PATTERN :: "u8 list" where
  "PEVENT_NAME_PATTERN = [112, 101, 118, 101, 110, 116, 46, 37, 115]"

definition PEVENT_NAME_PATTERN_SIZE :: nat where
  "PEVENT_NAME_PATTERN_SIZE = length PEVENT_NAME_PATTERN + 1 - 3"

definition pevent_text :: "u8 list \<Rightarrow> u8 list" where
  "pevent_text s = take (length PEVENT_NAME_PATTERN - 2) PEVENT_NAME_PATTERN @ s"

definition sizeof_named_pevent :: u32 where "sizeof_named_pevent = 96"

definition cplus_pevent_delete :: "ptr \<Rightarrow> pevent_world \<Rightarrow> pevent_world exec" where
  "cplus_pevent_delete = delete_named pv_ptrs pv_shared_mem"

section \<open>The steps of the constructor\<close>

text \<open>The memory with the mutex only, and with everything.\<close>

definition mutex_only :: "bool \<Rightarrow> event_mem" where
  "mutex_only pshared = \<lparr>em_mutex = Some pshared, em_cond = None, em_setted = False, em_broadcast = False, em_status = False\<rparr>"

definition filled :: "bool \<Rightarrow> bool \<Rightarrow> bool \<Rightarrow> event_mem" where
  "filled pshared broadcast status = \<lparr>em_mutex = Some pshared, em_cond = Some (True, pshared), em_setted = False,
     em_broadcast = broadcast, em_status = status\<rparr>"

definition own_event_step :: "(pthread_call \<Rightarrow> bool) \<Rightarrow> bool \<Rightarrow> bool \<Rightarrow> ptr \<Rightarrow> pevent_world step" where
  "own_event_step pf broadcast status a W =
     (if pf Lock_init then Inr (Inl ENONE, W)
      else exec_bind (lock_init a Own_lock (mutex_only False) W) (\<lambda>W1.
        if pf Cond_attr_init then Inr (Inl ENONE, W1)
        else if pf Cond_set_clock \<or> pf Cond_init then Inr (Inl ENONE, W1)
        else exec_bind (lock_init a Own_lock (filled False broadcast status) W1) (\<lambda>W2.
          Inr (Inr (), upd_obj a (\<lambda>e. e\<lparr>pv_ptrs := Own_lock\<rparr>) W2))))"

definition event_memory_step :: "failures \<Rightarrow> u8 list \<Rightarrow> init_mode \<Rightarrow> ptr \<Rightarrow> pevent_world step" where
  "event_memory_step fl s mode a W =
     exec_bind (named_region fl (pevent_text s) sizeof_named_pevent mode W) (\<lambda>(r, W1). case r of
        Inl e \<Rightarrow> Inr (Inl e, W1)
      | Inr sh \<Rightarrow> Inr (Inr (), upd_obj a (\<lambda>e. e\<lparr>pv_shared_mem := sh\<rparr>) W1))"

definition event_region_step :: "(pthread_call \<Rightarrow> bool) \<Rightarrow> bool \<Rightarrow> bool \<Rightarrow> ptr \<Rightarrow> pevent_world step" where
  "event_region_step pf broadcast status a W = (case lw_objs W a of None \<Rightarrow> Inl Null_deref | Some e \<Rightarrow>
     exec_bind (cplus_sharedmem_alloc (lw_proc W) (pv_shared_mem e)) (\<lambda>region.
     exec_bind (cplus_sharedmem_is_owner (lw_proc W) (pv_shared_mem e)) (\<lambda>own.
       if \<not> own then Inr (Inr (), upd_obj a (\<lambda>e. e\<lparr>pv_ptrs := Lock_at region\<rparr>) W)
       else if pf Attr_init then Inr (Inl ENONE, W)
       else if pf Set_pshared \<or> pf Lock_init then Inr (Inl ENONE, W)
       else exec_bind (lock_init a (Lock_at region) (mutex_only True) W) (\<lambda>W1.
         if pf Cond_attr_init then Inr (Inl ENONE, W1)
         else if pf Cond_set_clock \<or> pf Cond_set_pshared \<or> pf Cond_init then Inr (Inl ENONE, W1)
         else exec_bind (lock_init a (Lock_at region) (filled True broadcast status) W1) (\<lambda>W2.
           Inr (Inr (), upd_obj a (\<lambda>e. e\<lparr>pv_ptrs := Lock_at region\<rparr>) W2))))))"

text \<open>
  A call of \<^verbatim>\<open>cplus_pevent_set\<close> with no other thread in it; what is not initialised cannot be
  locked or signalled.
\<close>

definition event_set :: "ptr \<Rightarrow> pevent_world \<Rightarrow> pevent_world exec" where
  "event_set a W = (case lw_objs W a of None \<Rightarrow> Inl Null_deref | Some e \<Rightarrow>
     (case place_of (lw_proc W) a (pv_ptrs e) of None \<Rightarrow> Inl Null_deref | Some l \<Rightarrow>
     (case lw_locks W l of None \<Rightarrow> Inl Undefined | Some m \<Rightarrow>
        if em_mutex m = None \<or> em_cond m = None then Inl Undefined
        else Inr (W\<lparr>lw_locks := (lw_locks W)(l \<mapsto> m\<lparr>em_setted := True\<rparr>)\<rparr>))))"

definition pevent_initialize_object ::
    "failures \<Rightarrow> (pthread_call \<Rightarrow> bool) \<Rightarrow> buf \<Rightarrow> bool \<Rightarrow> bool \<Rightarrow> init_mode \<Rightarrow> pevent_world \<Rightarrow> (ptr cresult \<times> pevent_world) exec" where
  "pevent_initialize_object fl pf name broadcast status mode W =
     (case obj_alloc \<lparr>pv_ptrs = No_lock, pv_shared_mem = CPLUS_NULL\<rparr> W of
        (Inl e, W1) \<Rightarrow> Inr (Inl e, W1)
      | (Inr a, W1) \<Rightarrow>
          exec_bind (case name of
              None \<Rightarrow> own_event_step pf broadcast status a W1
            | Some b \<Rightarrow> exec_bind (c_str name) (\<lambda>s.
                until_exit [event_memory_step fl s mode a, event_region_step pf broadcast status a] W1)) (\<lambda>(r, W2). case r of
            Inr _ \<Rightarrow> exec_bind (if status then event_set a W2 else Inr W2) (\<lambda>W3. Inr (Inr a, W3))
          | Inl e \<Rightarrow> exec_bind (cplus_pevent_delete a W2) (\<lambda>W3. Inr (Inl e, W3))))"

section \<open>Entry points\<close>

definition cplus_pevent_new_obj ::
    "(pthread_call \<Rightarrow> bool) \<Rightarrow> bool \<Rightarrow> bool \<Rightarrow> pevent_world \<Rightarrow> (ptr cresult \<times> pevent_world) exec" where
  "cplus_pevent_new_obj pf broadcast status W = pevent_initialize_object (\<lambda>c. None) pf None broadcast status INIT_NONE W"

definition pevent_xp ::
    "init_mode \<Rightarrow> failures \<Rightarrow> (pthread_call \<Rightarrow> bool) \<Rightarrow> buf \<Rightarrow> bool \<Rightarrow> bool \<Rightarrow> pevent_world \<Rightarrow> (ptr cresult \<times> pevent_world) exec" where
  "pevent_xp mode fl pf name broadcast status W =
     (if name = None then Inr (Inl EINVAL, W)
      else exec_bind (c_str name) (\<lambda>s.
        if PEVENT_NAME_MAX_SIZE < length s + PEVENT_NAME_PATTERN_SIZE then Inr (Inl EINVAL, W)
        else pevent_initialize_object fl pf name broadcast status mode W))"

definition cplus_pevent_new_xp ::
    "failures \<Rightarrow> (pthread_call \<Rightarrow> bool) \<Rightarrow> buf \<Rightarrow> bool \<Rightarrow> bool \<Rightarrow> pevent_world \<Rightarrow> (ptr cresult \<times> pevent_world) exec" where
  "cplus_pevent_new_xp = pevent_xp INIT_HYBRID"

definition cplus_pevent_create_xp ::
    "failures \<Rightarrow> (pthread_call \<Rightarrow> bool) \<Rightarrow> buf \<Rightarrow> bool \<Rightarrow> bool \<Rightarrow> pevent_world \<Rightarrow> (ptr cresult \<times> pevent_world) exec" where
  "cplus_pevent_create_xp = pevent_xp INIT_CREATE"

definition cplus_pevent_open_xp ::
    "failures \<Rightarrow> (pthread_call \<Rightarrow> bool) \<Rightarrow> buf \<Rightarrow> pevent_world \<Rightarrow> (ptr cresult \<times> pevent_world) exec" where
  "cplus_pevent_open_xp fl pf name = pevent_xp INIT_OPEN fl pf name False False"

definition cplus_pevent_check :: "pevent_world \<Rightarrow> ptr \<Rightarrow> bool" where
  "cplus_pevent_check W a \<longleftrightarrow> a \<noteq> CPLUS_NULL \<and> lw_objs W a \<noteq> None"

section \<open>What the constructor leaves behind\<close>

definition pevent_path :: "u8 list \<Rightarrow> u8 list" where
  "pevent_path s = path_of (take 30 (pevent_text s))"

lemma pevent_text_zero_free: "0 \<notin> set s \<Longrightarrow> 0 \<notin> set (pevent_text s)"
  by (simp add: pevent_text_def PEVENT_NAME_PATTERN_def)

text \<open>The memory of a new event, set when its status is true.\<close>

definition new_event :: "bool \<Rightarrow> bool \<Rightarrow> bool \<Rightarrow> event_mem" where
  "new_event pshared broadcast status = (filled pshared broadcast status)\<lparr>em_setted := status\<rparr>"

definition pevent_made :: "init_mode \<Rightarrow> buf \<Rightarrow> bool \<Rightarrow> bool \<Rightarrow> pevent_world \<Rightarrow> ptr \<Rightarrow> pevent_world \<Rightarrow> bool" where
  "pevent_made mode name broadcast status W a W' \<longleftrightarrow> (\<exists>e. lw_objs W' a = Some e \<and> (case name of
      None \<Rightarrow> lw_locks W' = (lw_locks W)(In_object (pr_id (lw_proc W')) a \<mapsto> new_event False broadcast status) \<and>
        place_of (lw_proc W') a (pv_ptrs e) = Some (In_object (pr_id (lw_proc W')) a)
    | Some b \<Rightarrow> (\<exists>s i own. c_str name = Inr s \<and> place_of (lw_proc W') a (pv_ptrs e) = Some (In_region i) \<and>
        kn_names (lw_kernel W') (pevent_path s) = Some i \<and> owns mode own \<and>
        (if own then kn_names (lw_kernel W) (pevent_path s) = None \<and>
           lw_locks W' = (lw_locks W)(In_region i \<mapsto> new_event True broadcast status)
         else kn_names (lw_kernel W) (pevent_path s) = Some i \<and>
           (if status then \<exists>m. lw_locks W (In_region i) = Some m \<and> lw_locks W' = (lw_locks W)(In_region i \<mapsto> m\<lparr>em_setted := True\<rparr>)
            else lw_locks W' = lw_locks W)))))"

text \<open>
  A failed construction: everything as before, except for a mutex in the memory of the object
  or of the region, which have been given back.
\<close>

definition undone :: "pevent_world \<Rightarrow> pevent_world \<Rightarrow> bool" where
  "undone W W' \<longleftrightarrow> lw_proc W' = lw_proc W \<and> kn_names (lw_kernel W') = kn_names (lw_kernel W) \<and> lw_objs W' = lw_objs W \<and>
     (lw_locks W' = lw_locks W \<or>
      (\<exists>a. a \<notin> set (mh_live (pr_heap (lw_proc W))) \<and>
         lw_locks W' = (lw_locks W)(In_object (pr_id (lw_proc W)) a \<mapsto> mutex_only False)) \<or>
      lw_locks W' = (lw_locks W)(In_region (kn_next (lw_kernel W)) \<mapsto> mutex_only True))"

abbreviation blank_event :: pevent where
  "blank_event \<equiv> \<lparr>pv_ptrs = No_lock, pv_shared_mem = CPLUS_NULL\<rparr>"

lemma event_region_outcome:
  assumes V: "lw_objs V a = Some e" "pv_shared_mem e = b"
    and new: "new_shm t n P K b (lw_proc V) (lw_kernel V) i sm"
    and run: "event_region_step pf broadcast status a V = Inr (r, V')"
  shows "(\<exists>err. r = Inl err \<and> (V' = V \<or> sm_is_owner sm \<and> V' = V\<lparr>lw_locks := (lw_locks V)(In_region i \<mapsto> mutex_only True)\<rparr>)) \<or>
    (r = Inr () \<and> V' = upd_obj a (\<lambda>e. e\<lparr>pv_ptrs := Lock_at (sm_addr sm)\<rparr>)
      (if sm_is_owner sm then V\<lparr>lw_locks := (lw_locks V)(In_region i \<mapsto> filled True broadcast status)\<rparr> else V))"
proof -
  note D = new_shmD [OF new]
  have "cplus_sharedmem_alloc (lw_proc V) b = Inr (sm_addr sm)"
    "cplus_sharedmem_is_owner (lw_proc V) b = Inr (sm_is_owner sm)"
    using D(1,6,9) by (auto simp: cplus_sharedmem_alloc_def cplus_sharedmem_is_owner_def get_shm_def stands_for_def)
  moreover have "place_of (lw_proc V) a (Lock_at (sm_addr sm)) = Some (In_region i)"
    using D(8) by (simp add: place_of_def)
  ultimately show ?thesis
    using run V by (auto simp: event_region_step_def lock_init_def split: if_splits)
qed

lemma event_steps:
  assumes "until_exit [event_memory_step fl s mode a, event_region_step pf broadcast status a] W1 = Inr (r2, W2)"
  shows "\<exists>r1 V. named_region fl (pevent_text s) sizeof_named_pevent mode W1 = Inr (r1, V) \<and>
    ((\<exists>e. r1 = Inl e \<and> r2 = Inl e \<and> W2 = V) \<or> (\<exists>sh. r1 = Inr sh \<and>
        event_region_step pf broadcast status a (upd_obj a (\<lambda>e. e\<lparr>pv_shared_mem := sh\<rparr>) V) = Inr (r2, W2)))"
  using assms
  by (auto simp: until_exit_Cons until_exit_single event_memory_step_def exec_bind_jump simp del: until_exit.simps(2))

text \<open>Deleting an object whose pointers are not set, with other locks than before.\<close>

lemma delete_event:
  assumes W: "world_ok W" "obj_alloc blank_event W = (Inr a, W1)"
    and V: "lw_objs V = (lw_objs W)(a \<mapsto> blank_event\<lparr>pv_shared_mem := b\<rparr>)"
    and region: "(b = CPLUS_NULL \<and> lw_proc V = lw_proc W1 \<and> kn_names (lw_kernel V) = kn_names (lw_kernel W)) \<or>
      (b \<noteq> CPLUS_NULL \<and> pr_shms (lw_proc W1) b = None \<and>
       (\<exists>t m i sm. new_shm t m (lw_proc W1) (lw_kernel W) b (lw_proc V) (lw_kernel V) i sm))"
  shows "\<exists>W3. cplus_pevent_delete a V = Inr (W3\<lparr>lw_locks := lw_locks V\<rparr>) \<and> unchanged W W3"
proof -
  let ?V = "V\<lparr>lw_locks := lw_locks W\<rparr>"
  obtain W3 where W3: "delete_named pv_ptrs pv_shared_mem a ?V = Inr W3" "unchanged W W3"
    using delete_unlocked [OF W, of ?V "blank_event\<lparr>pv_shared_mem := b\<rparr>" pv_ptrs pv_shared_mem] V region by auto
  have "delete_named pv_ptrs pv_shared_mem a (?V\<lparr>lw_locks := lw_locks V\<rparr>) = Inr (W3\<lparr>lw_locks := lw_locks V\<rparr>)"
    by (rule delete_named_locks [where obj = "blank_event\<lparr>pv_shared_mem := b\<rparr>", OF _ _ W3(1)]) (use V in simp_all)
  then show ?thesis using W3(2) by (auto simp: cplus_pevent_delete_def)
qed

lemma own_event_outcome:
  assumes W: "world_ok W" and run: "pevent_initialize_object fl pf None broadcast status mode W = Inr (r, W')"
    and a: "obj_alloc blank_event W = (Inr a, W1)"
  shows "case r of Inl e \<Rightarrow> undone W W' | Inr a \<Rightarrow> pevent_made mode None broadcast status W a W'"
proof -
  note A = obj_alloc_ok [OF W a]
  note F = obj_alloc_fresh [OF W a]
  let ?l = "In_object (pr_id (lw_proc W1)) a"
  obtain r2 W2 where step: "own_event_step pf broadcast status a W1 = Inr (r2, W2)"
    and rest: "(case r2 of Inr _ \<Rightarrow> exec_bind (if status then event_set a W2 else Inr W2) (\<lambda>W3. Inr (Inr a, W3))
      | Inl e \<Rightarrow> exec_bind (cplus_pevent_delete a W2) (\<lambda>W3. Inr (Inl e, W3))) = Inr (r, W')"
    using run a by (auto simp: pevent_initialize_object_def exec_bind_eq_Inr)
  have "(\<exists>e. r2 = Inl e \<and> (W2 = W1 \<or> W2 = W1\<lparr>lw_locks := (lw_locks W1)(?l \<mapsto> mutex_only False)\<rparr>)) \<or>
      (r2 = Inr () \<and> W2 = upd_obj a (\<lambda>e. e\<lparr>pv_ptrs := Own_lock\<rparr>) (W1\<lparr>lw_locks := (lw_locks W1)(?l \<mapsto> filled False broadcast status)\<rparr>))"
    using step by (auto simp: own_event_step_def lock_init_def place_of_def split: if_splits)
  then show ?thesis
  proof (elim disjE exE conjE)
    fix e assume r2: "r2 = Inl e" and W2: "W2 = W1"
    obtain W3 where "cplus_pevent_delete a W1 = Inr (W3\<lparr>lw_locks := lw_locks W1\<rparr>)" "unchanged W W3"
      using delete_event [OF W a, of W1 CPLUS_NULL] A(4,5) by auto
    then show ?thesis using rest r2 W2 A(6) by (auto simp: undone_def unchanged_def)
  next
    fix e assume r2: "r2 = Inl e" and W2: "W2 = W1\<lparr>lw_locks := (lw_locks W1)(?l \<mapsto> mutex_only False)\<rparr>"
    obtain W3 where "cplus_pevent_delete a W2 = Inr (W3\<lparr>lw_locks := lw_locks W2\<rparr>)" "unchanged W W3"
      using delete_event [OF W a, of W2 CPLUS_NULL] A(4,5) W2 by auto
    then show ?thesis using rest r2 W2 A(6) F(1,2) by (auto simp: undone_def unchanged_def)
  next
    assume r2: "r2 = Inr ()"
      and W2: "W2 = upd_obj a (\<lambda>e. e\<lparr>pv_ptrs := Own_lock\<rparr>) (W1\<lparr>lw_locks := (lw_locks W1)(?l \<mapsto> filled False broadcast status)\<rparr>)"
    show ?thesis
      using rest r2 A(4,6) by (cases status) (auto simp: W2 pevent_made_def upd_obj_def place_of_def event_set_def new_event_def filled_def)
  qed
qed

lemma named_event_outcome:
  assumes W: "world_ok W" and run: "pevent_initialize_object fl pf (Some nm) broadcast status mode W = Inr (r, W')"
    and a: "obj_alloc blank_event W = (Inr a, W1)"
  shows "case r of Inl e \<Rightarrow> undone W W' | Inr a \<Rightarrow> pevent_made mode (Some nm) broadcast status W a W'"
proof -
  note A = obj_alloc_ok [OF W a]
  obtain s r2 W2 where s: "c_str (Some nm) = Inr s"
    and steps: "until_exit [event_memory_step fl s mode a, event_region_step pf broadcast status a] W1 = Inr (r2, W2)"
    and res: "(case r2 of Inr _ \<Rightarrow> exec_bind (if status then event_set a W2 else Inr W2) (\<lambda>W3. Inr (Inr a, W3))
      | Inl e \<Rightarrow> exec_bind (cplus_pevent_delete a W2) (\<lambda>W3. Inr (Inl e, W3))) = Inr (r, W')"
    using run a by (auto simp: pevent_initialize_object_def exec_bind_eq_Inr simp del: until_exit.simps)
  have q: "0 \<notin> set (pevent_text s)" by (rule pevent_text_zero_free [OF c_str_zero_free [OF s]])
  obtain r1 V where region: "named_region fl (pevent_text s) sizeof_named_pevent mode W1 = Inr (r1, V)"
    and rest: "(\<exists>e. r1 = Inl e \<and> r2 = Inl e \<and> W2 = V) \<or> (\<exists>sh. r1 = Inr sh \<and>
      event_region_step pf broadcast status a (upd_obj a (\<lambda>e. e\<lparr>pv_shared_mem := sh\<rparr>) V) = Inr (r2, W2))"
    using event_steps [OF steps] by blast
  note O = named_region_outcome [OF A(1) q region]
  show ?thesis
  proof (cases r1)
    case (Inl e)
    then have V: "lw_proc V = lw_proc W1" "kn_names (lw_kernel V) = kn_names (lw_kernel W)"
        "lw_objs V = (lw_objs W)(a \<mapsto> blank_event)" "lw_locks V = lw_locks W" "r2 = Inl e" "W2 = V"
      using O rest A(4-6) by auto
    obtain W3 where "cplus_pevent_delete a V = Inr (W3\<lparr>lw_locks := lw_locks V\<rparr>)" "unchanged W W3"
      using delete_event [OF W a, of V CPLUS_NULL] V(1-3) by auto
    then show ?thesis using res V(4-6) by (auto simp: undone_def unchanged_def)
  next
    case (Inr b)
    let ?V = "upd_obj a (\<lambda>e. e\<lparr>pv_shared_mem := b\<rparr>) V"
    obtain n i sm where N: "owns mode (sm_is_owner sm)"
        "new_shm (take 30 (pevent_text s)) n (lw_proc W1) (lw_kernel W) b (lw_proc V) (lw_kernel V) i sm"
        "pr_shms (lw_proc W1) b = None" "b \<noteq> CPLUS_NULL" "lw_objs V = (lw_objs W)(a \<mapsto> blank_event)" "lw_locks V = lw_locks W"
      using O Inr A(4-6) by auto
    have V: "lw_objs ?V = (lw_objs W)(a \<mapsto> blank_event\<lparr>pv_shared_mem := b\<rparr>)" "lw_locks ?V = lw_locks W"
        "lw_proc ?V = lw_proc V" "lw_kernel ?V = lw_kernel V"
      using N(5,6) by (simp_all add: upd_obj_def)
    note D = new_shmD [OF N(2)]
    have names: "kn_names (lw_kernel V) (pevent_path s) = Some i"
        "\<not> sm_is_owner sm \<Longrightarrow> kn_names (lw_kernel W) (pevent_path s) = Some i"
        "sm_is_owner sm \<Longrightarrow> i = kn_next (lw_kernel W) \<and> kn_names (lw_kernel W) (pevent_path s) = None"
      using D(6,9) by (auto simp: stands_for_def pevent_path_def split: if_splits)
    have step: "event_region_step pf broadcast status a ?V = Inr (r2, W2)" using rest Inr by auto
    have "(\<exists>err. r2 = Inl err \<and> (W2 = ?V \<or> sm_is_owner sm \<and> W2 = ?V\<lparr>lw_locks := (lw_locks ?V)(In_region i \<mapsto> mutex_only True)\<rparr>)) \<or>
      (r2 = Inr () \<and> W2 = upd_obj a (\<lambda>e. e\<lparr>pv_ptrs := Lock_at (sm_addr sm)\<rparr>)
        (if sm_is_owner sm then ?V\<lparr>lw_locks := (lw_locks ?V)(In_region i \<mapsto> filled True broadcast status)\<rparr> else ?V))"
      by (rule event_region_outcome [where e = "blank_event\<lparr>pv_shared_mem := b\<rparr>", OF _ _ _ step]) (use V N(2) in simp_all)
    then consider err where "r2 = Inl err" "lw_objs W2 = lw_objs ?V" "lw_proc W2 = lw_proc V" "lw_kernel W2 = lw_kernel V"
        "lw_locks W2 = lw_locks W \<or> lw_locks W2 = (lw_locks W)(In_region (kn_next (lw_kernel W)) \<mapsto> mutex_only True)"
      | "r2 = Inr ()" "W2 = upd_obj a (\<lambda>e. e\<lparr>pv_ptrs := Lock_at (sm_addr sm)\<rparr>)
          (if sm_is_owner sm then ?V\<lparr>lw_locks := (lw_locks ?V)(In_region i \<mapsto> filled True broadcast status)\<rparr> else ?V)"
      using V(2-4) names(3) by auto
    then show ?thesis
    proof cases
      case 1
      obtain W3 where "cplus_pevent_delete a W2 = Inr (W3\<lparr>lw_locks := lw_locks W2\<rparr>)" "unchanged W W3"
        using delete_event [OF W a, of W2 b] 1(2-4) V(1) N(2-4) by auto
      then show ?thesis using res 1(1,5) by (auto simp: undone_def unchanged_def)
    next
      case 2
      let ?e = "\<lparr>pv_ptrs = Lock_at (sm_addr sm), pv_shared_mem = b\<rparr>"
      have fields: "lw_objs W2 a = Some ?e" "lw_proc W2 = lw_proc V" "lw_kernel W2 = lw_kernel V"
          "lw_locks W2 = (if sm_is_owner sm then (lw_locks W)(In_region i \<mapsto> filled True broadcast status) else lw_locks W)"
        unfolding 2(2) using V by (simp_all add: upd_obj_def)
      have place: "place_of (lw_proc V) a (Lock_at (sm_addr sm)) = Some (In_region i)" using D(8) by (simp add: place_of_def)
      have end_state: "r = Inr a" "lw_objs W' a = Some ?e" "lw_proc W' = lw_proc V" "lw_kernel W' = lw_kernel V"
          "if sm_is_owner sm then lw_locks W' = (lw_locks W)(In_region i \<mapsto> new_event True broadcast status)
           else (if status then \<exists>m. lw_locks W (In_region i) = Some m \<and> lw_locks W' = (lw_locks W)(In_region i \<mapsto> m\<lparr>em_setted := True\<rparr>)
             else lw_locks W' = lw_locks W)"
        using res 2(1) fields place
        by (cases status; auto simp: event_set_def new_event_def filled_def split: option.splits if_splits)+
      have "pevent_made mode (Some nm) broadcast status W a W'"
        unfolding pevent_made_def option.case end_state(2-4)
        using s N(1) names place end_state(5) by (intro exI [of _ ?e] conjI exI [of _ s] exI [of _ i] exI [of _ "sm_is_owner sm"]) auto
      then show ?thesis using end_state(1) by simp
    qed
  qed
qed

lemma pevent_outcome:
  assumes W: "world_ok W" and run: "pevent_initialize_object fl pf name broadcast status mode W = Inr (r, W')"
  shows "case r of Inl e \<Rightarrow> undone W W' | Inr a \<Rightarrow> pevent_made mode name broadcast status W a W'"
proof (cases "fst (obj_alloc blank_event W)")
  case (Inl e)
  then have "obj_alloc blank_event W = (Inl e, W)" using obj_alloc_fails by (metis prod.collapse)
  then show ?thesis using run by (auto simp: pevent_initialize_object_def undone_def)
next
  case (Inr a)
  then obtain W1 where "obj_alloc blank_event W = (Inr a, W1)" by (metis prod.collapse)
  then show ?thesis
    using own_event_outcome [OF W] named_event_outcome [OF W] run by (cases name) blast+
qed

section \<open>Events shared by name\<close>

lemma pevent_xp_outcome:
  assumes "world_ok W" "c_str name = Inr s" "pevent_xp mode fl pf name broadcast status W = Inr (Inr a, W')"
  shows "pevent_made mode name broadcast status W a W'"
proof -
  have "pevent_initialize_object fl pf name broadcast status mode W = Inr (Inr a, W')"
    using assms(2,3) by (auto simp: pevent_xp_def c_str_def split: if_splits option.splits)
  from pevent_outcome [OF assms(1) this] show ?thesis by simp
qed

lemma pevent_made_named:
  assumes "pevent_made mode name broadcast status W a W'" "c_str name = Inr s"
  obtains e i own where "lw_objs W' a = Some e" "place_of (lw_proc W') a (pv_ptrs e) = Some (In_region i)"
    "kn_names (lw_kernel W') (pevent_path s) = Some i" "owns mode own"
    "if own then kn_names (lw_kernel W) (pevent_path s) = None \<and> lw_locks W' = (lw_locks W)(In_region i \<mapsto> new_event True broadcast status)
     else kn_names (lw_kernel W) (pevent_path s) = Some i \<and>
       (if status then \<exists>m. lw_locks W (In_region i) = Some m \<and> lw_locks W' = (lw_locks W)(In_region i \<mapsto> m\<lparr>em_setted := True\<rparr>)
        else lw_locks W' = lw_locks W)"
proof -
  obtain b where b: "name = Some b" using assms(2) by (cases name) (auto simp: c_str_def)
  from assms(1) obtain e s' i own where *: "lw_objs W' a = Some e" "c_str name = Inr s'"
      "place_of (lw_proc W') a (pv_ptrs e) = Some (In_region i)"
      "kn_names (lw_kernel W') (pevent_path s') = Some i" "owns mode own"
      "if own then kn_names (lw_kernel W) (pevent_path s') = None \<and> lw_locks W' = (lw_locks W)(In_region i \<mapsto> new_event True broadcast status)
       else kn_names (lw_kernel W) (pevent_path s') = Some i \<and>
         (if status then \<exists>m. lw_locks W (In_region i) = Some m \<and> lw_locks W' = (lw_locks W)(In_region i \<mapsto> m\<lparr>em_setted := True\<rparr>)
          else lw_locks W' = lw_locks W)"
    unfolding pevent_made_def b option.case by blast
  have "s' = s" using *(2) assms(2) by simp
  then show ?thesis using that * by blast
qed

interpretation pevent_xp: named_lock "\<lambda>fl pf name. cplus_pevent_create_xp fl pf name broadcast status" cplus_pevent_open_xp
    pv_ptrs "\<lambda>m. m = new_event True broadcast status" pevent_path world_ok for broadcast status
proof
  fix W W' :: pevent_world and name s fl pf a
  assume W: "world_ok W" and s: "c_str name = Inr s" and "cplus_pevent_create_xp fl pf name broadcast status W = Inr (Inr a, W')"
  then have "pevent_made INIT_CREATE name broadcast status W a W'" by (simp add: cplus_pevent_create_xp_def pevent_xp_outcome)
  from pevent_made_named [OF this s] obtain e i own where *: "lw_objs W' a = Some e"
      "place_of (lw_proc W') a (pv_ptrs e) = Some (In_region i)"
      "kn_names (lw_kernel W') (pevent_path s) = Some i" "owns INIT_CREATE own"
      "own \<longrightarrow> lw_locks W' = (lw_locks W)(In_region i \<mapsto> new_event True broadcast status)"
    by (metis (full_types))
  then show "\<exists>obj i attr. lw_objs W' a = Some obj \<and> place_of (lw_proc W') a (pv_ptrs obj) = Some (In_region i) \<and>
      kn_names (lw_kernel W') (pevent_path s) = Some i \<and> lw_locks W' (In_region i) = Some attr \<and> attr = new_event True broadcast status"
    by (auto simp: owns_def)
next
  fix W W' :: pevent_world and name s fl pf a
  assume W: "world_ok W" and s: "c_str name = Inr s" and "cplus_pevent_open_xp fl pf name W = Inr (Inr a, W')"
  then have "pevent_made INIT_OPEN name False False W a W'" by (simp add: cplus_pevent_open_xp_def pevent_xp_outcome)
  from pevent_made_named [OF this s] obtain e i own where *: "lw_objs W' a = Some e"
      "place_of (lw_proc W') a (pv_ptrs e) = Some (In_region i)" "owns INIT_OPEN own"
      "\<not> own \<longrightarrow> kn_names (lw_kernel W) (pevent_path s) = Some i \<and> lw_locks W' = lw_locks W"
    by (metis (full_types))
  then show "\<exists>obj i. lw_objs W' a = Some obj \<and> place_of (lw_proc W') a (pv_ptrs obj) = Some (In_region i) \<and>
      kn_names (lw_kernel W) (pevent_path s) = Some i \<and> lw_locks W' = lw_locks W"
    by (auto simp: owns_def)
qed

section \<open>Examples\<close>

lemma pevent_xp_returns:
  assumes W: "world_ok W" and s: "c_str name = Inr s" "length s \<le> 24"
    and a: "obj_alloc blank_event W = (Inr a, W1)"
    and region: "named_region fl (pevent_text s) sizeof_named_pevent mode W1 = Inr (Inr b, V)"
    and mode: "mode = INIT_CREATE \<or> \<not> status"
  shows "\<exists>W'. pevent_xp mode fl (\<lambda>c. False) name broadcast status W = Inr (Inr a, W') \<and> lw_kernel W' = lw_kernel V"
proof -
  let ?V = "upd_obj a (\<lambda>e. e\<lparr>pv_shared_mem := b\<rparr>) V"
  note A = obj_alloc_ok [OF W a]
  have q: "0 \<notin> set (pevent_text s)" by (rule pevent_text_zero_free [OF c_str_zero_free [OF s(1)]])
  from named_region_outcome [OF A(1) q region] A(4-6) obtain n i sm where N: "owns mode (sm_is_owner sm)"
      "new_shm (take 30 (pevent_text s)) n (lw_proc W1) (lw_kernel W) b (lw_proc V) (lw_kernel V) i sm"
      "lw_objs V = (lw_objs W)(a \<mapsto> blank_event)" "lw_locks V = lw_locks W"
    by auto
  have V: "lw_objs ?V a = Some (blank_event\<lparr>pv_shared_mem := b\<rparr>)" "lw_proc ?V = lw_proc V" "lw_kernel ?V = lw_kernel V"
    using N(3) by (simp_all add: upd_obj_def)
  note D = new_shmD [OF N(2)]
  have acc: "cplus_sharedmem_alloc (lw_proc V) b = Inr (sm_addr sm)"
    "cplus_sharedmem_is_owner (lw_proc V) b = Inr (sm_is_owner sm)"
    "place_of (lw_proc V) a (Lock_at (sm_addr sm)) = Some (In_region i)"
    using D(1,6,8,9)
    by (auto simp: cplus_sharedmem_alloc_def cplus_sharedmem_is_owner_def get_shm_def stands_for_def place_of_def)
  let ?W = "upd_obj a (\<lambda>e. e\<lparr>pv_ptrs := Lock_at (sm_addr sm)\<rparr>)
      (if sm_is_owner sm then ?V\<lparr>lw_locks := (lw_locks ?V)(In_region i \<mapsto> filled True broadcast status)\<rparr> else ?V)"
  have step: "event_region_step (\<lambda>c. False) broadcast status a ?V = Inr (Inr (), ?W)"
    using V acc by (simp add: event_region_step_def lock_init_def)
  have W': "lw_objs ?W a = Some \<lparr>pv_ptrs = Lock_at (sm_addr sm), pv_shared_mem = b\<rparr>" "lw_proc ?W = lw_proc V"
      "lw_kernel ?W = lw_kernel V" "sm_is_owner sm \<Longrightarrow> lw_locks ?W (In_region i) = Some (filled True broadcast status)"
    using N(3) by (simp_all add: upd_obj_def)
  have own: "sm_is_owner sm" if status using N(1) mode that by (auto simp: owns_def)
  have set: "event_set a ?W = Inr (?W\<lparr>lw_locks := (lw_locks ?W)(In_region i \<mapsto> (filled True broadcast status)\<lparr>em_setted := True\<rparr>)\<rparr>)" if status
    unfolding event_set_def W'(1) option.case pevent.simps W'(2) acc(3) W'(4) [OF own [OF that]] by (simp add: filled_def)
  have mem: "event_memory_step fl s mode a W1 = Inr (Inr (), ?V)" using region by (simp add: event_memory_step_def)
  have limit: "\<not> PEVENT_NAME_MAX_SIZE < length s + PEVENT_NAME_PATTERN_SIZE" "name \<noteq> None"
    using s by (auto simp: PEVENT_NAME_MAX_SIZE_def PEVENT_NAME_PATTERN_SIZE_def PEVENT_NAME_PATTERN_def c_str_def
        split: option.splits)
  obtain nm where nm: "name = Some nm" using limit(2) by blast
  have steps: "until_exit [event_memory_step fl s mode a, event_region_step (\<lambda>c. False) broadcast status a] W1 = Inr (Inr (), ?W)"
    using mem step by simp
  have "pevent_xp mode fl (\<lambda>c. False) name broadcast status W =
      exec_bind (if status then event_set a ?W else Inr ?W) (\<lambda>W3. Inr (Inr a, W3))"
    using limit(1) s a steps unfolding nm by (simp add: pevent_xp_def pevent_initialize_object_def del: until_exit.simps)
  then show ?thesis using set W'(3) by (cases status) auto
qed

text \<open>Two processes and the event named \<open>a\<close>.\<close>

lemma example_event_name: "0 \<notin> set (pevent_text [97])" "c_str (Some [97, 0]) = Inr [97]"
  using c_str_terminated [of "[97]" "[]"] by (simp_all add: pevent_text_zero_free)

lemma example_event_created:
  "\<exists>W1. cplus_pevent_create_xp no_failures (\<lambda>c. False) (Some [97, 0]) broadcast status (example_world 7 example_kernel (\<lambda>l. None)) =
     Inr (Inr 64, W1) \<and> (\<exists>i. kn_names (lw_kernel W1) (pevent_path [97]) = Some i \<and> kn_size (lw_kernel W1) i = 96)"
proof -
  obtain W0 :: pevent_world where a: "obj_alloc blank_event (example_world 7 example_kernel (\<lambda>l. None)) = (Inr 64, W0)"
      "lw_kernel W0 = example_kernel" "mh_pick (pr_heap (lw_proc W0)) (mh_live (pr_heap (lw_proc W0))) = 128"
      "pr_place (lw_proc W0) (map fst (pr_maps (lw_proc W0))) = 4096"
    using example_obj [of blank_event 7 example_kernel "\<lambda>l. None"] by (elim exE conjE) (rule that)
  obtain b V where V: "named_region no_failures (pevent_text [97]) sizeof_named_pevent INIT_CREATE W0 = Inr (Inr b, V)"
    using region_created [OF example_event_name(1), of sizeof_named_pevent W0] a(2-4)
    by (auto simp: sizeof_named_pevent_def SHAREDMEM_MAX_SIZE_def MAP_FAILED_def example_kernel_def)
  have "\<exists>i. kn_names (lw_kernel V) (pevent_path [97]) = Some i \<and> kn_size (lw_kernel V) i = 96"
    using created_size [OF obj_alloc_ok(1) [OF example_world_ok a(1)] example_event_name(1) V]
    by (auto simp: pevent_path_def sizeof_named_pevent_def)
  then show ?thesis
    using pevent_xp_returns [OF example_world_ok example_event_name(2) _ a(1) V, of status broadcast]
    unfolding cplus_pevent_create_xp_def by fastforce
qed

lemma example_event_opened:
  assumes there: "kn_names K (pevent_path [97]) = Some i" "0 < kn_size K i" "kn_size K i < 2 ^ 32"
  shows "\<exists>V1. cplus_pevent_open_xp no_failures (\<lambda>c. False) (Some [97, 0]) (example_world 9 K locks) = Inr (Inr 64, V1)"
proof -
  obtain V0 :: pevent_world where a: "obj_alloc blank_event (example_world 9 K locks) = (Inr 64, V0)"
      "lw_kernel V0 = K" "mh_pick (pr_heap (lw_proc V0)) (mh_live (pr_heap (lw_proc V0))) = 128"
      "pr_place (lw_proc V0) (map fst (pr_maps (lw_proc V0))) = 4096"
    using example_obj [of blank_event 9 K locks] by (elim exE conjE) (rule that)
  obtain b V where V: "named_region no_failures (pevent_text [97]) sizeof_named_pevent INIT_OPEN V0 = Inr (Inr b, V)"
    using region_opened [OF example_event_name(1), of V0 i sizeof_named_pevent] a(2-4) there
    by (auto simp: MAP_FAILED_def pevent_path_def)
  then show ?thesis
    using pevent_xp_returns [OF example_world_ok example_event_name(2) _ a(1) V, of False False]
    by (auto simp: cplus_pevent_open_xp_def)
qed

section \<open>Properties\<close>

text \<open>
  C37. Two processes that name the same event, one creating and one opening it, use the same
  mutex, condition variable and flags; these are initialised for use by several processes, and
  the flags are those of a new event of the model of its use, with which the waits begin.
\<close>

theorem pevent_processes_share:
  assumes "world_ok W" "cplus_pevent_create_xp fl pf name broadcast status W = Inr (Inr a, W1)" "c_str name = Inr s"
    and "world_ok V" "lw_kernel V = lw_kernel W1" "lw_locks V = lw_locks W1"
    and "cplus_pevent_open_xp fl' pf' name V = Inr (Inr b, V1)"
  shows "\<exists>x y l m. lw_objs W1 a = Some x \<and> lw_objs V1 b = Some y \<and>
    place_of (lw_proc W1) a (pv_ptrs x) = Some l \<and> place_of (lw_proc V1) b (pv_ptrs y) = Some l \<and>
    lw_locks V1 l = Some m \<and> em_mutex m = Some True \<and> em_cond m = Some (True, True) \<and>
    em_setted m = pe_setted (cplus_pevent_new broadcast status) \<and>
    em_broadcast m = pe_broadcast (cplus_pevent_new broadcast status)"
  using pevent_xp.processes_share [OF assms(1,2,4-7) assms(3,3) refl]
  by (auto simp: new_event_def filled_def cplus_pevent_new_def)

theorem pevent_processes_share_witness:
  "\<exists>W1 V1 x y l m. cplus_pevent_create_xp no_failures (\<lambda>c. False) (Some [97, 0]) False True (example_world 7 example_kernel (\<lambda>l. None)) =
      Inr (Inr 64, W1) \<and>
    cplus_pevent_open_xp no_failures (\<lambda>c. False) (Some [97, 0]) (example_world 9 (lw_kernel W1) (lw_locks W1)) = Inr (Inr 64, V1) \<and>
    lw_objs W1 64 = Some x \<and> lw_objs V1 64 = Some y \<and> place_of (lw_proc W1) 64 (pv_ptrs x) = Some l \<and>
    place_of (lw_proc V1) 64 (pv_ptrs y) = Some l \<and> lw_locks V1 l = Some m \<and> em_setted m \<and> \<not> em_broadcast m"
proof -
  obtain W1 i where P: "cplus_pevent_create_xp no_failures (\<lambda>c. False) (Some [97, 0]) False True (example_world 7 example_kernel (\<lambda>l. None)) =
      Inr (Inr 64, W1)" "kn_names (lw_kernel W1) (pevent_path [97]) = Some i" "kn_size (lw_kernel W1) i = 96"
    using example_event_created by blast
  obtain V1 where Q: "cplus_pevent_open_xp no_failures (\<lambda>c. False) (Some [97, 0]) (example_world 9 (lw_kernel W1) (lw_locks W1)) =
      Inr (Inr 64, V1)"
    using example_event_opened [OF P(2), of "lw_locks W1"] P(3) by auto
  from pevent_processes_share [OF example_world_ok P(1) example_event_name(2) example_world_ok _ _ Q] show ?thesis
    using P(1) Q by (auto simp: cplus_pevent_new_def)
qed

text \<open>
  \<^verbatim>\<open>cplus_pevent_new_xp\<close> on a name that exists: with a true status it sets the event that the
  processes already use, and what was asked for the broadcast is ignored.
\<close>

theorem pevent_new_xp_sets_existing:
  assumes "world_ok V" "c_str name = Inr s" "kn_names (lw_kernel V) (pevent_path s) = Some i"
    and "cplus_pevent_new_xp fl pf name broadcast status V = Inr (Inr b, V1)"
  shows "(\<exists>e. lw_objs V1 b = Some e \<and> place_of (lw_proc V1) b (pv_ptrs e) = Some (In_region i)) \<and>
    (if status then \<exists>m. lw_locks V (In_region i) = Some m \<and> lw_locks V1 = (lw_locks V)(In_region i \<mapsto> m\<lparr>em_setted := True\<rparr>)
     else lw_locks V1 = lw_locks V)"
proof -
  have "pevent_made INIT_HYBRID name broadcast status V b V1"
    using assms(1,2,4) by (simp add: cplus_pevent_new_xp_def pevent_xp_outcome)
  from this assms(2) obtain e j own where *: "lw_objs V1 b = Some e" "place_of (lw_proc V1) b (pv_ptrs e) = Some (In_region j)"
    and locks: "if own then kn_names (lw_kernel V) (pevent_path s) = None \<and> lw_locks V1 = (lw_locks V)(In_region j \<mapsto> new_event True broadcast status)
      else kn_names (lw_kernel V) (pevent_path s) = Some j \<and>
        (if status then \<exists>m. lw_locks V (In_region j) = Some m \<and> lw_locks V1 = (lw_locks V)(In_region j \<mapsto> m\<lparr>em_setted := True\<rparr>)
         else lw_locks V1 = lw_locks V)"
    by (rule pevent_made_named)
  have "\<not> own" using locks assms(3) by (cases own) simp_all
  with locks assms(3) have "j = i" "if status then \<exists>m. lw_locks V (In_region j) = Some m \<and> lw_locks V1 = (lw_locks V)(In_region j \<mapsto> m\<lparr>em_setted := True\<rparr>)
      else lw_locks V1 = lw_locks V" by simp_all
  then show ?thesis using * by blast
qed

text \<open>
  A failed construction gives everything back but for one thing: when the condition variable
  cannot be made, the mutex that was initialised before is not destroyed.
\<close>

theorem pevent_failure_leaves_mutex:
  assumes "world_ok W" "call W = Inr (Inl e, W')"
    and "call \<in> {cplus_pevent_new_obj pf broadcast status, cplus_pevent_new_xp fl pf name broadcast status,
      cplus_pevent_create_xp fl pf name broadcast status, cplus_pevent_open_xp fl pf name}"
  shows "undone W W'"
proof -
  have same: "undone W W" by (simp add: undone_def)
  have init: "undone W W'" if "pevent_initialize_object fl pf name b st mode W = Inr (Inl e, W')" for fl name b st mode
    using pevent_outcome [OF assms(1) that] by simp
  have xp: "undone W W'" if "pevent_xp mode fl pf name b st W = Inr (Inl e, W')" for mode fl name b st
    using that same init by (auto simp: pevent_xp_def exec_bind_eq_Inr split: if_splits)
  show ?thesis
    using assms(2,3) init xp
    by (auto simp: cplus_pevent_new_obj_def cplus_pevent_new_xp_def cplus_pevent_create_xp_def cplus_pevent_open_xp_def)
qed

theorem pevent_failure_leaves_mutex_witness:
  "\<exists>W'. cplus_pevent_new_obj (\<lambda>c. c = Cond_init) False False (example_world 7 example_kernel (\<lambda>l. None)) = Inr (Inl ENONE, W') \<and>
     lw_locks W' (In_object 7 64) = Some (mutex_only False) \<and> undone (example_world 7 example_kernel (\<lambda>l. None)) W'"
proof -
  have "\<exists>W'. cplus_pevent_new_obj (\<lambda>c. c = Cond_init) False False (example_world 7 example_kernel (\<lambda>l. None)) = Inr (Inl ENONE, W') \<and>
     lw_locks W' (In_object 7 64) = Some (mutex_only False)"
    by (simp add: cplus_pevent_new_obj_def pevent_initialize_object_def obj_alloc_def example_world_def example_proc_def
        cplus_mgr_malloc_def own_event_step_def lock_init_def place_of_def cplus_pevent_delete_def delete_named_def obj_free_def)
  then obtain W' where W': "cplus_pevent_new_obj (\<lambda>c. c = Cond_init) False False (example_world 7 example_kernel (\<lambda>l. None)) = Inr (Inl ENONE, W')"
      "lw_locks W' (In_object 7 64) = Some (mutex_only False)" by blast
  from pevent_failure_leaves_mutex [where call = "cplus_pevent_new_obj (\<lambda>c. c = Cond_init) False False"
      and pf = "\<lambda>c. c = Cond_init" and broadcast = False and status = False, OF example_world_ok W'(1)] W'
  show ?thesis by blast
qed

end
