(* ===== verification/Task.thy ===== *)
theory Task
  imports Prelude
begin

text \<open>
  The periodic tasks of \<^verbatim>\<open>src/task.c\<close>: a thread that calls a procedure until it is told to
  stop, and \<^verbatim>\<open>cplus_task_stop\<close>, which waits for it.  They talk through four events
  (\<^verbatim>\<open>src/pevent.c\<close>): start, stop and pause are broadcast events, finish is auto-reset.  Each
  call on an event is one step here, on the flag of the event.

  The procedure may take for ever: a thread in \<open>Exec_proc\<close> moves on when it returns.
\<close>

section \<open>State\<close>

text \<open>
  Where the task's thread is in \<^verbatim>\<open>task_executor\<close>: waiting for the start; polling stop; asking
  whether it is paused; waiting for the end of the pause; before the reset of finish; in the
  procedure; before the set of finish; reading the duration; in the wait between two rounds;
  before the last set of finish; gone.
\<close>

datatype exec_pc =
    Exec_start | Exec_poll_stop | Exec_check_pause | Exec_wait_pause | Exec_reset_finish
  | Exec_proc | Exec_set_finish | Exec_duration | Exec_sleep | Exec_finish | Exec_exited

text \<open>
  Where the caller of \<^verbatim>\<open>cplus_task_stop\<close> is: not in it; inside the set of stop; before the
  set of start; waiting for finish; joining the thread; cancelling it; returned.
\<close>

datatype stop_pc =
    Stop_idle | Stop_set | Stop_start | Stop_wait | Stop_join | Stop_cancel errno | Stop_returned "errno option"

record task =
  tk_start :: bool
  tk_stop :: bool
  tk_finish :: bool
  tk_pause :: bool
  tk_duration :: u32
  tk_exec :: exec_pc
  tk_caller :: stop_pc
  tk_runs :: nat
  tk_freed :: bool
  tk_cancel :: bool

text \<open>\<^verbatim>\<open>task_initialize_object\<close>: \<open>suspend\<close> keeps the thread waiting for \<^verbatim>\<open>cplus_task_start\<close>.\<close>

definition task_new :: "bool \<Rightarrow> u32 \<Rightarrow> task" where
  "task_new suspend duration = \<lparr>tk_start = (\<not> suspend), tk_stop = False, tk_finish = False,
     tk_pause = True, tk_duration = duration, tk_exec = Exec_start, tk_caller = Stop_idle,
     tk_runs = 0, tk_freed = False, tk_cancel = False\<rparr>"

definition cplus_task_new :: "u32 \<Rightarrow> task" where
  "cplus_task_new duration = task_new True duration"

definition cplus_task_oneshot :: task where
  "cplus_task_oneshot = task_new False CPLUS_INFINITE_TIMEOUT"

section \<open>The task's thread\<close>

text \<open>
  Polling stop with timeout 0 also fails when its mutex is taken, that is while the caller is
  setting it; the loop then ends because \<open>errno\<close> is \<open>EBUSY\<close>.  When the thread ends and the
  duration is infinite, the clean-up handler deletes the task.  A cancelled thread may die at
  any point (\<^verbatim>\<open>PTHREAD_CANCEL_ASYNCHRONOUS\<close>).
\<close>

inductive exec_step :: "task \<Rightarrow> task \<Rightarrow> bool" where
  started: "\<lbrakk>tk_exec s = Exec_start; tk_start s\<rbrakk> \<Longrightarrow> exec_step s (s\<lparr>tk_exec := Exec_poll_stop\<rparr>)"
| stopped: "\<lbrakk>tk_exec s = Exec_poll_stop; tk_stop s \<or> tk_caller s = Stop_set\<rbrakk>
    \<Longrightarrow> exec_step s (s\<lparr>tk_exec := Exec_finish\<rparr>)"
| going_on: "\<lbrakk>tk_exec s = Exec_poll_stop; \<not> tk_stop s\<rbrakk> \<Longrightarrow> exec_step s (s\<lparr>tk_exec := Exec_check_pause\<rparr>)"
| not_paused: "\<lbrakk>tk_exec s = Exec_check_pause; tk_pause s\<rbrakk>
    \<Longrightarrow> exec_step s (s\<lparr>tk_exec := Exec_reset_finish\<rparr>)"
| paused: "\<lbrakk>tk_exec s = Exec_check_pause; \<not> tk_pause s\<rbrakk> \<Longrightarrow> exec_step s (s\<lparr>tk_exec := Exec_wait_pause\<rparr>)"
| resumed: "\<lbrakk>tk_exec s = Exec_wait_pause; tk_pause s\<rbrakk> \<Longrightarrow> exec_step s (s\<lparr>tk_exec := Exec_reset_finish\<rparr>)"
| call_proc: "tk_exec s = Exec_reset_finish
    \<Longrightarrow> exec_step s (s\<lparr>tk_finish := False, tk_exec := Exec_proc, tk_runs := tk_runs s + 1\<rparr>)"
| proc_returns: "tk_exec s = Exec_proc \<Longrightarrow> exec_step s (s\<lparr>tk_exec := Exec_set_finish\<rparr>)"
| set_finish: "tk_exec s = Exec_set_finish
    \<Longrightarrow> exec_step s (s\<lparr>tk_finish := True, tk_exec := Exec_duration\<rparr>)"
| oneshot: "\<lbrakk>tk_exec s = Exec_duration; tk_duration s = CPLUS_INFINITE_TIMEOUT\<rbrakk>
    \<Longrightarrow> exec_step s (s\<lparr>tk_exec := Exec_finish\<rparr>)"
| periodic: "\<lbrakk>tk_exec s = Exec_duration; tk_duration s \<noteq> CPLUS_INFINITE_TIMEOUT\<rbrakk>
    \<Longrightarrow> exec_step s (s\<lparr>tk_exec := Exec_sleep\<rparr>)"
| next_round: "tk_exec s = Exec_sleep \<Longrightarrow> exec_step s (s\<lparr>tk_exec := Exec_poll_stop\<rparr>)"
| exit_thread: "tk_exec s = Exec_finish \<Longrightarrow> exec_step s (s\<lparr>tk_finish := True, tk_exec := Exec_exited,
     tk_freed := tk_freed s \<or> tk_duration s = CPLUS_INFINITE_TIMEOUT\<rparr>)"
| dies: "\<lbrakk>tk_cancel s; tk_exec s \<noteq> Exec_exited\<rbrakk> \<Longrightarrow> exec_step s (s\<lparr>tk_exec := Exec_exited,
     tk_freed := tk_freed s \<or> tk_duration s = CPLUS_INFINITE_TIMEOUT\<rparr>)"

section \<open>The caller of stop\<close>

text \<open>
  An infinite timeout counts as one minute, so every wait for finish may end by the timeout
  (\<open>EBUSY\<close> when it is 0).
  The task is deleted whether or not its thread has ended.
\<close>

inductive stop_step :: "task \<Rightarrow> task \<Rightarrow> bool" where
  stop_call: "\<lbrakk>tk_caller s = Stop_idle; tk_duration s \<noteq> CPLUS_INFINITE_TIMEOUT\<rbrakk>
    \<Longrightarrow> stop_step s (s\<lparr>tk_caller := Stop_set\<rparr>)"
| stop_oneshot: "\<lbrakk>tk_caller s = Stop_idle; tk_duration s = CPLUS_INFINITE_TIMEOUT\<rbrakk>
    \<Longrightarrow> stop_step s (s\<lparr>tk_caller := Stop_returned None\<rparr>)"
| set_stop: "tk_caller s = Stop_set \<Longrightarrow> stop_step s (s\<lparr>tk_stop := True, tk_caller := Stop_start\<rparr>)"
| set_start: "tk_caller s = Stop_start \<Longrightarrow> stop_step s (s\<lparr>tk_start := True, tk_caller := Stop_wait\<rparr>)"
| finished: "\<lbrakk>tk_caller s = Stop_wait; tk_finish s\<rbrakk>
    \<Longrightarrow> stop_step s (s\<lparr>tk_finish := False, tk_caller := Stop_join\<rparr>)"
| timed_out: "\<lbrakk>tk_caller s = Stop_wait; e = EBUSY \<or> e = ETIMEDOUT\<rbrakk>
    \<Longrightarrow> stop_step s (s\<lparr>tk_caller := Stop_cancel e\<rparr>)"
| joined: "\<lbrakk>tk_caller s = Stop_join; tk_exec s = Exec_exited\<rbrakk>
    \<Longrightarrow> stop_step s (s\<lparr>tk_freed := True, tk_caller := Stop_returned None\<rparr>)"
| cancelled: "tk_caller s = Stop_cancel e
    \<Longrightarrow> stop_step s (s\<lparr>tk_cancel := True, tk_freed := True, tk_caller := Stop_returned (Some e)\<rparr>)"

section \<open>Other callers\<close>

text \<open>
  \<^verbatim>\<open>cplus_task_start\<close>, \<^verbatim>\<open>cplus_task_pause\<close>, \<^verbatim>\<open>cplus_task_set_duration\<close> and a successful
  \<^verbatim>\<open>cplus_task_wait_finish\<close>.
\<close>

definition cplus_task_start :: "task \<Rightarrow> task" where
  "cplus_task_start s = s\<lparr>tk_start := True\<rparr>"

definition cplus_task_pause :: "task \<Rightarrow> bool \<Rightarrow> task" where
  "cplus_task_pause s pause =
     (if pause \<noteq> (\<not> tk_pause s) then (if pause then s\<lparr>tk_pause := False\<rparr> else s\<lparr>tk_pause := True\<rparr>) else s)"

definition cplus_task_set_duration :: "task \<Rightarrow> u32 \<Rightarrow> task" where
  "cplus_task_set_duration s duration = s\<lparr>tk_duration := duration\<rparr>"

inductive client_step :: "task \<Rightarrow> task \<Rightarrow> bool" where
  client_start: "client_step s (cplus_task_start s)"
| client_pause: "client_step s (cplus_task_pause s b)"
| client_duration: "client_step s (cplus_task_set_duration s d)"
| client_wait_finish: "tk_finish s \<Longrightarrow> client_step s (s\<lparr>tk_finish := False\<rparr>)"

inductive task_reach :: "task \<Rightarrow> task \<Rightarrow> bool" where
  task_refl: "task_reach s s"
| task_exec: "\<lbrakk>task_reach s s'; exec_step s' s''\<rbrakk> \<Longrightarrow> task_reach s s''"
| task_stop: "\<lbrakk>task_reach s s'; stop_step s' s''\<rbrakk> \<Longrightarrow> task_reach s s''"
| task_client: "\<lbrakk>task_reach s s'; client_step s' s''\<rbrakk> \<Longrightarrow> task_reach s s''"

declare task_exec [trans] task_stop [trans] task_client [trans]

section \<open>After stop\<close>

text \<open>How many calls of the procedure the thread can still begin once stop is set.\<close>

definition runs_left :: "exec_pc \<Rightarrow> nat" where
  "runs_left p = (if p = Exec_check_pause \<or> p = Exec_wait_pause \<or> p = Exec_reset_finish then 1 else 0)"

definition stop_inv :: "nat \<Rightarrow> task \<Rightarrow> bool" where
  "stop_inv n s \<longleftrightarrow> tk_stop s \<and> tk_runs s + runs_left (tk_exec s) \<le> n"

lemma stop_inv_exec: "\<lbrakk>exec_step s s'; stop_inv n s\<rbrakk> \<Longrightarrow> stop_inv n s'"
  by (induction rule: exec_step.induct) (simp_all add: stop_inv_def runs_left_def)

lemma stop_inv_stop: "\<lbrakk>stop_step s s'; stop_inv n s\<rbrakk> \<Longrightarrow> stop_inv n s'"
  by (induction rule: stop_step.induct) (simp_all add: stop_inv_def)

lemma stop_inv_client: "\<lbrakk>client_step s s'; stop_inv n s\<rbrakk> \<Longrightarrow> stop_inv n s'"
  by (induction rule: client_step.induct)
    (simp_all add: stop_inv_def cplus_task_start_def cplus_task_pause_def cplus_task_set_duration_def)

lemma stop_inv_reach: "\<lbrakk>task_reach s s'; stop_inv n s\<rbrakk> \<Longrightarrow> stop_inv n s'"
  by (induction rule: task_reach.induct) (auto intro: stop_inv_exec stop_inv_stop stop_inv_client)

text \<open>C25.
  Once stop is set, the procedure is called at most once more, whatever the task's thread, the caller of
  stop and other clients do afterwards.
\<close>

theorem task_stop_at_most_one_more_run:
  assumes "task_reach s s'" "tk_stop s"
  shows "tk_runs s' \<le> tk_runs s + 1"
proof -
  have "stop_inv (tk_runs s + 1) s" using assms(2) by (simp add: stop_inv_def runs_left_def)
  then have "stop_inv (tk_runs s + 1) s'" by (rule stop_inv_reach [OF assms(1)])
  then show ?thesis by (simp add: stop_inv_def)
qed

text \<open>A task told to stop while its thread is between two rounds.\<close>

definition told_to_stop :: "exec_pc \<Rightarrow> nat \<Rightarrow> task" where
  "told_to_stop e n = (cplus_task_start (cplus_task_new 100))\<lparr>tk_stop := True, tk_exec := e, tk_runs := n\<rparr>"

lemma told_to_stop_step: "exec_step (told_to_stop Exec_reset_finish n) (told_to_stop Exec_proc (n + 1))"
  using call_proc [of "told_to_stop Exec_reset_finish n"]
  by (simp add: told_to_stop_def cplus_task_start_def cplus_task_new_def task_new_def)

theorem task_stop_at_most_one_more_run_witness:
  "tk_runs (told_to_stop Exec_proc 6) = 6 \<and> tk_runs (told_to_stop Exec_proc 6) \<le> tk_runs (told_to_stop Exec_reset_finish 5) + 1"
proof -
  have "task_reach (told_to_stop Exec_reset_finish 5) (told_to_stop Exec_proc 6)"
    by (rule task_exec [OF task_refl]) (use told_to_stop_step [of 5] in simp)
  from task_stop_at_most_one_more_run [OF this] show ?thesis by (simp add: told_to_stop_def)
qed

text \<open>
  The steps a thread has left when stop is set: the number bounds every run of its own steps,
  and as long as the task is neither paused nor waiting to start there is a next one.
\<close>

primrec steps_left :: "exec_pc \<Rightarrow> nat" where
  "steps_left Exec_check_pause = 10" | "steps_left Exec_wait_pause = 9"
| "steps_left Exec_reset_finish = 8" | "steps_left Exec_proc = 7" | "steps_left Exec_set_finish = 6"
| "steps_left Exec_duration = 5" | "steps_left Exec_sleep = 4" | "steps_left Exec_start = 4"
| "steps_left Exec_poll_stop = 3" | "steps_left Exec_finish = 1" | "steps_left Exec_exited = 0"

definition stoppable :: "task \<Rightarrow> bool" where
  "stoppable s \<longleftrightarrow> tk_stop s \<and> tk_start s \<and> tk_pause s \<and> \<not> tk_cancel s"

lemma stoppable_step:
  "\<lbrakk>exec_step s s'; stoppable s\<rbrakk> \<Longrightarrow> stoppable s' \<and> steps_left (tk_exec s') < steps_left (tk_exec s)"
  by (induction rule: exec_step.induct) (simp_all add: stoppable_def)

lemma stoppable_progress:
  assumes "stoppable s" "tk_exec s \<noteq> Exec_exited"
  shows "\<exists>s'. exec_step s s'"
proof (cases "tk_exec s")
  case Exec_duration
  then show ?thesis by (cases "tk_duration s = CPLUS_INFINITE_TIMEOUT") (blast intro: exec_step.intros)+
qed (use assms in \<open>auto simp: stoppable_def intro: exec_step.intros\<close>)

text \<open>C26.
  A task that is not paused ends after stop: every run of its thread's own steps has at most ten of them,
  and when none is left to make the thread has exited, with finish set.
\<close>

theorem task_stop_ends_thread:
  assumes "tk_stop s" "tk_start s" "tk_pause s" "\<not> tk_cancel s" "(exec_step ^^ k) s s'"
  shows "k \<le> 10 \<and> ((\<nexists>s''. exec_step s' s'') \<longrightarrow> tk_exec s' = Exec_exited \<and> (tk_exec s \<noteq> Exec_exited \<longrightarrow> tk_finish s'))"
proof -
  have run: "stoppable u' \<and> steps_left (tk_exec u') + n \<le> steps_left (tk_exec u) \<and>
      (tk_exec u' = Exec_exited \<longrightarrow> tk_exec u \<noteq> Exec_exited \<longrightarrow> tk_finish u')"
    if "(exec_step ^^ n) u u'" "stoppable u" for n u u'
    using that
  proof (induction n arbitrary: u')
    case (Suc n)
    then obtain v where v: "(exec_step ^^ n) u v" "exec_step v u'" by auto
    have IH: "stoppable v" "steps_left (tk_exec v) + n \<le> steps_left (tk_exec u)"
      using Suc.IH [OF v(1) Suc.prems(2)] by simp_all
    have "tk_exec u' = Exec_exited \<Longrightarrow> tk_finish u'"
      using v(2) IH(1) by (cases rule: exec_step.cases) (simp_all add: stoppable_def)
    with IH stoppable_step [OF v(2)] show ?case by auto
  qed simp
  have "stoppable s" using assms(1-4) by (simp add: stoppable_def)
  note r = run [OF assms(5) this]
  moreover have "steps_left p \<le> 10" for p by (cases p) simp_all
  from this [of "tk_exec s"] have "k \<le> 10" using r by linarith
  moreover have "tk_exec s' = Exec_exited" if "\<nexists>s''. exec_step s' s''"
    using stoppable_progress [of s'] r that by blast
  ultimately show ?thesis by blast
qed

theorem task_stop_ends_thread_witness:
  "(2::nat) \<le> 10 \<and> tk_finish ((told_to_stop Exec_exited 5)\<lparr>tk_finish := True\<rparr>)"
proof -
  note defs = told_to_stop_def cplus_task_start_def cplus_task_new_def task_new_def CPLUS_INFINITE_TIMEOUT_def
  let ?s' = "(told_to_stop Exec_exited 5)\<lparr>tk_finish := True\<rparr>"
  have "exec_step (told_to_stop Exec_poll_stop 5) (told_to_stop Exec_finish 5)"
    using stopped [of "told_to_stop Exec_poll_stop 5"] by (simp add: defs)
  moreover have "exec_step (told_to_stop Exec_finish 5) ?s'"
    using exit_thread [of "told_to_stop Exec_finish 5"] by (simp add: defs)
  ultimately have run: "(exec_step ^^ 2) (told_to_stop Exec_poll_stop 5) ?s'"
    by (auto simp: numeral_2_eq_2)
  have "\<nexists>s''. exec_step ?s' s''" by (auto simp: defs elim: exec_step.cases)
  with task_stop_ends_thread [OF _ _ _ _ run] show ?thesis by (simp add: defs)
qed

text \<open>A task stopped after one round: the stop is set, its thread has found no reason to end.\<close>

definition one_round :: "u32 \<Rightarrow> bool \<Rightarrow> exec_pc \<Rightarrow> task" where
  "one_round d pause e = \<lparr>tk_start = True, tk_stop = False, tk_finish = True, tk_pause = pause,
     tk_duration = d, tk_exec = e, tk_caller = Stop_idle, tk_runs = 1, tk_freed = False, tk_cancel = False\<rparr>"

lemma one_round_reached:
  assumes "d \<noteq> CPLUS_INFINITE_TIMEOUT"
  shows "task_reach (cplus_task_new d) (one_round d True Exec_check_pause)"
proof -
  let ?t = "\<lambda>e n f. \<lparr>tk_start = True, tk_stop = False, tk_finish = f, tk_pause = True, tk_duration = d,
     tk_exec = e, tk_caller = Stop_idle, tk_runs = n, tk_freed = False, tk_cancel = False\<rparr>"
  have "task_reach (cplus_task_new d) (cplus_task_new d)" by (rule task_refl)
  also have "client_step (cplus_task_new d) (?t Exec_start 0 False)"
    using client_start [of "cplus_task_new d"]
    by (simp add: cplus_task_start_def cplus_task_new_def task_new_def)
  also have "exec_step (?t Exec_start 0 False) (?t Exec_poll_stop 0 False)"
    using started [of "?t Exec_start 0 False"] by simp
  also have "exec_step (?t Exec_poll_stop 0 False) (?t Exec_check_pause 0 False)"
    using going_on [of "?t Exec_poll_stop 0 False"] by simp
  also have "exec_step (?t Exec_check_pause 0 False) (?t Exec_reset_finish 0 False)"
    using not_paused [of "?t Exec_check_pause 0 False"] by simp
  also have "exec_step (?t Exec_reset_finish 0 False) (?t Exec_proc 1 False)"
    using call_proc [of "?t Exec_reset_finish 0 False"] by simp
  also have "exec_step (?t Exec_proc 1 False) (?t Exec_set_finish 1 False)"
    using proc_returns [of "?t Exec_proc 1 False"] by simp
  also have "exec_step (?t Exec_set_finish 1 False) (?t Exec_duration 1 True)"
    using set_finish [of "?t Exec_set_finish 1 False"] by simp
  also have "exec_step (?t Exec_duration 1 True) (?t Exec_sleep 1 True)"
    using periodic [of "?t Exec_duration 1 True"] assms by simp
  also have "exec_step (?t Exec_sleep 1 True) (?t Exec_poll_stop 1 True)"
    using next_round [of "?t Exec_sleep 1 True"] by simp
  also have "exec_step (?t Exec_poll_stop 1 True) (?t Exec_check_pause 1 True)"
    using going_on [of "?t Exec_poll_stop 1 True"] by simp
  finally show ?thesis by (simp add: one_round_def)
qed

text \<open>The caller of stop finds finish set by the round before and goes on to the join.\<close>

definition joining :: "task \<Rightarrow> task" where
  "joining s = s\<lparr>tk_stop := True, tk_start := True, tk_finish := False, tk_caller := Stop_join\<rparr>"

lemma joining_reached:
  assumes "task_reach s0 s" "tk_caller s = Stop_idle" "tk_duration s \<noteq> CPLUS_INFINITE_TIMEOUT" "tk_finish s"
  shows "task_reach s0 (joining s)"
proof -
  let ?s1 = "s\<lparr>tk_caller := Stop_set\<rparr>"
  let ?s2 = "?s1\<lparr>tk_stop := True, tk_caller := Stop_start\<rparr>"
  let ?s3 = "?s2\<lparr>tk_start := True, tk_caller := Stop_wait\<rparr>"
  note assms(1)
  also have "stop_step s ?s1" by (rule stop_call) (use assms in simp_all)
  also have "stop_step ?s1 ?s2" by (rule set_stop) simp
  also have "stop_step ?s2 ?s3" by (rule set_start) simp
  also have "stop_step ?s3 (?s3\<lparr>tk_finish := False, tk_caller := Stop_join\<rparr>)"
    by (rule finished) (use assms in simp_all)
  finally show ?thesis by (simp add: joining_def)
qed

text \<open>
  Stopping a paused task hangs: finish is still set from the round before the pause, so the caller of
  stop, whatever its timeout, goes on to join a thread that waits for the end of the pause, and
  neither of them has a step to make.
\<close>

theorem task_stop_of_paused_task_hangs:
  assumes "d \<noteq> CPLUS_INFINITE_TIMEOUT"
  shows "\<exists>s. task_reach (cplus_task_new d) s \<and> tk_runs s = 1 \<and> tk_exec s = Exec_wait_pause \<and>
     tk_caller s = Stop_join \<and> (\<forall>s'. \<not> exec_step s s' \<and> \<not> stop_step s s')"
proof -
  have "client_step (one_round d True Exec_check_pause) (one_round d False Exec_check_pause)"
    using client_pause [of "one_round d True Exec_check_pause" True]
    by (simp add: cplus_task_pause_def one_round_def)
  with one_round_reached [OF assms]
  have "task_reach (cplus_task_new d) (one_round d False Exec_check_pause)" by (rule task_client)
  also have "exec_step (one_round d False Exec_check_pause) (one_round d False Exec_wait_pause)"
    using paused [of "one_round d False Exec_check_pause"] by (simp add: one_round_def)
  finally have "task_reach (cplus_task_new d) (joining (one_round d False Exec_wait_pause))"
    by (rule joining_reached) (use assms in \<open>simp_all add: one_round_def\<close>)
  moreover have "\<not> exec_step (joining (one_round d False Exec_wait_pause)) s'" for s'
    by (auto simp: joining_def one_round_def elim: exec_step.cases)
  moreover have "\<not> stop_step (joining (one_round d False Exec_wait_pause)) s'" for s'
    by (auto simp: joining_def one_round_def elim: stop_step.cases)
  ultimately show ?thesis
    by (intro exI [of _ "joining (one_round d False Exec_wait_pause)"]) (simp add: joining_def one_round_def)
qed

theorem task_stop_of_paused_task_hangs_witness:
  "\<exists>s. task_reach (cplus_task_new 100) s \<and> tk_runs s = 1 \<and> tk_exec s = Exec_wait_pause \<and>
     tk_caller s = Stop_join \<and> (\<forall>s'. \<not> exec_step s s' \<and> \<not> stop_step s s')"
  by (rule task_stop_of_paused_task_hangs) (simp add: CPLUS_INFINITE_TIMEOUT_def)

text \<open>
  The timeout of stop does not bound the wait either: between the poll of stop and the reset of
  finish the caller can take the finish of the round before, and then joins a thread that is
  about to call the procedure.
\<close>

theorem task_stop_joins_running_procedure:
  assumes "d \<noteq> CPLUS_INFINITE_TIMEOUT"
  shows "\<exists>s. task_reach (cplus_task_new d) s \<and> tk_caller s = Stop_join \<and> tk_exec s = Exec_proc"
proof -
  note one_round_reached [OF assms]
  also have "exec_step (one_round d True Exec_check_pause) (one_round d True Exec_reset_finish)"
    using not_paused [of "one_round d True Exec_check_pause"] by (simp add: one_round_def)
  finally have "task_reach (cplus_task_new d) (joining (one_round d True Exec_reset_finish))"
    by (rule joining_reached) (use assms in \<open>simp_all add: one_round_def\<close>)
  moreover have "exec_step (joining (one_round d True Exec_reset_finish)) ((joining (one_round d True
      Exec_reset_finish))\<lparr>tk_finish := False, tk_exec := Exec_proc, tk_runs := 2\<rparr>)"
    using call_proc [of "joining (one_round d True Exec_reset_finish)"]
    by (simp add: joining_def one_round_def numeral_2_eq_2)
  ultimately have "task_reach (cplus_task_new d) ((joining (one_round d True
      Exec_reset_finish))\<lparr>tk_finish := False, tk_exec := Exec_proc, tk_runs := 2\<rparr>)"
    by (rule task_exec)
  then show ?thesis by (rule exI [where P = "\<lambda>s. task_reach _ s \<and> _ s \<and> _ s", OF conjI]) (simp add: joining_def)
qed

end
