(* ===== verification/Parts.thy ===== *)
theory Parts
  imports Prelude
begin

text \<open>
  Sockets, tasks, events, locks and buffers as numbered parts: what a component holds of those
  that it only makes and releases.  Every new part has a new number.
\<close>

type_synonym part = nat

record part_world =
  pw_parts :: "part list"
  pw_next :: part

definition new_part :: "'a part_world_scheme \<Rightarrow> part \<times> 'a part_world_scheme" where
  "new_part P = (pw_next P, P\<lparr>pw_parts := pw_next P # pw_parts P, pw_next := pw_next P + 1\<rparr>)"

definition drop_part :: "part option \<Rightarrow> 'a part_world_scheme \<Rightarrow> 'a part_world_scheme" where
  "drop_part x P = (case x of None \<Rightarrow> P | Some n \<Rightarrow> P\<lparr>pw_parts := filter (\<lambda>m. m \<noteq> n) (pw_parts P)\<rparr>)"

definition parts_old :: "'a part_world_scheme \<Rightarrow> bool" where
  "parts_old P \<longleftrightarrow> (\<forall>n\<in>set (pw_parts P). n < pw_next P)"

lemma drop_part_filter: "drop_part x P = P\<lparr>pw_parts := filter (\<lambda>n. x \<noteq> Some n) (pw_parts P)\<rparr>"
proof (cases x)
  case (Some n)
  have "filter (\<lambda>m. m \<noteq> n) (pw_parts P) = filter (\<lambda>m. x \<noteq> Some m) (pw_parts P)"
    using Some by (intro filter_cong) auto
  then show ?thesis using Some by (simp add: drop_part_def)
qed (simp add: drop_part_def)

end
