(* ===== verification/Task_New.thy ===== *)
theory Task_New
  imports Task Pevent Parts
begin

text \<open>
  Construction and deletion of the tasks of \<^verbatim>\<open>src/task.c\<close>, and what a procedure asks about the
  task it runs in.  The block of a task, its events and its thread are numbered parts; the events
  start in the states of \<^verbatim>\<open>Pevent\<close>.  Which allocation, which event and whether the thread cannot be
  made is an argument.  Whether a task has a procedure and a callback is all that is kept of them.
  The thread of a new task takes its first step after the constructor has returned; the stack size is
  only checked.
\<close>

section \<open>State\<close>

record task_config =
  tc_proc :: bool
  tc_callback :: bool
  tc_duration :: u32
  tc_suspend :: bool
  tc_stacksize :: u32

record task_obj =
  to_block :: part
  to_thread :: "part option"
  to_callback :: bool
  to_duration :: u32
  to_is_suspended :: bool
  to_evt_start :: "part option"
  to_evt_stop :: "part option"
  to_evt_finish :: "part option"
  to_evt_pause :: "part option"

text \<open>The events of the process, and the threads nobody has to join.\<close>

record task_world = part_world +
  tw_events :: "part \<Rightarrow> pe_sys"
  tw_detached :: "part list"

datatype task_call = Task_block | Evt_start | Evt_stop | Evt_finish | Evt_pause | Task_thread

type_synonym task_failures = "task_call \<Rightarrow> errno option"

section \<open>Construction and deletion\<close>

definition cplus_task_delete :: "task_obj \<Rightarrow> task_world \<Rightarrow> task_world" where
  "cplus_task_delete t W = drop_part (Some (to_block t)) (drop_part (to_evt_pause t) (drop_part (to_evt_finish t)
     (drop_part (to_evt_stop t) (drop_part (to_evt_start t) W))))"

definition event_step ::
    "task_failures \<Rightarrow> task_call \<Rightarrow> bool \<Rightarrow> bool \<Rightarrow> (part \<Rightarrow> task_obj \<Rightarrow> task_obj) \<Rightarrow> (task_obj \<times> task_world) step" where
  "event_step fl c broadcast status put = (\<lambda>(t, W). case fl c of
     Some e \<Rightarrow> Inr (Inl e, (t, W))
   | None \<Rightarrow> (case new_part W of (v, W1) \<Rightarrow>
       Inr (Inr (), (put v t, W1\<lparr>tw_events := (tw_events W1)(v := cplus_pevent_new broadcast status)\<rparr>))))"

definition thread_step :: "task_failures \<Rightarrow> (task_obj \<times> task_world) step" where
  "thread_step fl = (\<lambda>(t, W). case fl Task_thread of
     Some e \<Rightarrow> Inr (Inl e, (t, W))
   | None \<Rightarrow> (case new_part W of (n, W1) \<Rightarrow> Inr (Inr (), (t\<lparr>to_thread := Some n\<rparr>,
       if to_duration t = CPLUS_INFINITE_TIMEOUT then W1\<lparr>tw_detached := n # tw_detached W1\<rparr> else W1))))"

definition task_steps :: "task_failures \<Rightarrow> bool \<Rightarrow> (task_obj \<times> task_world) step list" where
  "task_steps fl suspend =
     [event_step fl Evt_start True (\<not> suspend) (\<lambda>v t. t\<lparr>to_evt_start := Some v\<rparr>),
      event_step fl Evt_stop True False (\<lambda>v t. t\<lparr>to_evt_stop := Some v\<rparr>),
      event_step fl Evt_finish False False (\<lambda>v t. t\<lparr>to_evt_finish := Some v\<rparr>),
      event_step fl Evt_pause True True (\<lambda>v t. t\<lparr>to_evt_pause := Some v\<rparr>),
      thread_step fl]"

definition blank_task :: "part \<Rightarrow> task_config \<Rightarrow> task_obj" where
  "blank_task b config = \<lparr>to_block = b, to_thread = None, to_callback = tc_callback config,
     to_duration = tc_duration config, to_is_suspended = tc_suspend config,
     to_evt_start = None, to_evt_stop = None, to_evt_finish = None, to_evt_pause = None\<rparr>"

definition task_initialize_object ::
    "task_failures \<Rightarrow> task_config \<Rightarrow> task_world \<Rightarrow> (task_obj cresult \<times> task_world) exec" where
  "task_initialize_object fl config W = (case fl Task_block of
     Some e \<Rightarrow> Inr (Inl e, W)
   | None \<Rightarrow> (case new_part W of (b, W1) \<Rightarrow>
       exec_bind (until_exit (task_steps fl (tc_suspend config)) (blank_task b config, W1)) (\<lambda>(r, (t, W2)).
         Inr (case r of Inr _ \<Rightarrow> (Inr t, W2) | Inl e \<Rightarrow> (Inl e, cplus_task_delete t W2)))))"

definition checked_task ::
    "task_failures \<Rightarrow> task_config \<Rightarrow> task_world \<Rightarrow> (task_obj cresult \<times> task_world) exec" where
  "checked_task fl config W =
     (if \<not> tc_proc config then Inr (Inl EINVAL, W) else task_initialize_object fl config W)"

definition cplus_task_oneshot_obj :: "task_failures \<Rightarrow> bool \<Rightarrow> task_world \<Rightarrow> (task_obj cresult \<times> task_world) exec" where
  "cplus_task_oneshot_obj fl proc = checked_task fl \<lparr>tc_proc = proc, tc_callback = False,
     tc_duration = CPLUS_INFINITE_TIMEOUT, tc_suspend = False, tc_stacksize = 0\<rparr>"

definition cplus_task_oneshot_ex ::
    "task_failures \<Rightarrow> bool \<Rightarrow> bool \<Rightarrow> task_world \<Rightarrow> (task_obj cresult \<times> task_world) exec" where
  "cplus_task_oneshot_ex fl proc callback = checked_task fl \<lparr>tc_proc = proc, tc_callback = callback,
     tc_duration = CPLUS_INFINITE_TIMEOUT, tc_suspend = False, tc_stacksize = 0\<rparr>"

definition cplus_task_new_obj ::
    "task_failures \<Rightarrow> bool \<Rightarrow> u32 \<Rightarrow> task_world \<Rightarrow> (task_obj cresult \<times> task_world) exec" where
  "cplus_task_new_obj fl proc duration = checked_task fl \<lparr>tc_proc = proc, tc_callback = False,
     tc_duration = duration, tc_suspend = True, tc_stacksize = 0\<rparr>"

text \<open>\<open>stack_max\<close> is the limit of the process; \<^verbatim>\<open>PTHREAD_STACK_MIN\<close> is 16384.\<close>

definition cplus_task_new_ex ::
    "task_failures \<Rightarrow> nat \<Rightarrow> task_config option \<Rightarrow> task_world \<Rightarrow> (task_obj cresult \<times> task_world) exec" where
  "cplus_task_new_ex fl stack_max config W = (case config of
     None \<Rightarrow> Inr (Inl EINVAL, W)
   | Some c \<Rightarrow> if \<not> tc_proc c then Inr (Inl EINVAL, W)
       else if tc_stacksize c \<noteq> 0 \<and> (unat (tc_stacksize c) < 16384 \<or> stack_max < unat (tc_stacksize c))
         then Inr (Inl EINVAL, W)
       else task_initialize_object fl c W)"

section \<open>Inside a procedure\<close>

text \<open>
  The thread of a task keeps pointers to its finish event, its duration and the tick at which the round
  began; another thread has none of them.
\<close>

definition cplus_task_get_loop_last_timestamp :: "u32 option \<Rightarrow> u32" where
  "cplus_task_get_loop_last_timestamp last_timestamp = (case last_timestamp of None \<Rightarrow> 0 | Some t \<Rightarrow> t)"

definition cplus_task_set_loop_finish :: "task option \<Rightarrow> task option" where
  "cplus_task_set_loop_finish = map_option (\<lambda>s. s\<lparr>tk_finish := True\<rparr>)"

definition cplus_task_reset_loop_finish :: "task option \<Rightarrow> task option" where
  "cplus_task_reset_loop_finish = map_option (\<lambda>s. s\<lparr>tk_finish := False\<rparr>)"

definition cplus_task_set_loop_duration :: "u32 \<Rightarrow> task option \<Rightarrow> task option" where
  "cplus_task_set_loop_duration duration = map_option (\<lambda>s. s\<lparr>tk_duration := duration\<rparr>)"

definition cplus_task_get_loop_duration :: "task option \<Rightarrow> u32" where
  "cplus_task_get_loop_duration s = (case s of None \<Rightarrow> 0 | Some t \<Rightarrow> tk_duration t)"

section \<open>What the constructor does\<close>

text \<open>The state of \<^verbatim>\<open>Task\<close> in which the thread of a new task begins.\<close>

definition started_as :: "task_world \<Rightarrow> task_obj \<Rightarrow> task \<Rightarrow> bool" where
  "started_as W t s \<longleftrightarrow> (\<exists>a b c d. to_evt_start t = Some a \<and> to_evt_stop t = Some b \<and>
     to_evt_finish t = Some c \<and> to_evt_pause t = Some d \<and> distinct [a, b, c, d] \<and>
     tw_events W a = cplus_pevent_new True (tk_start s) \<and> tw_events W b = cplus_pevent_new True (tk_stop s) \<and>
     tw_events W c = cplus_pevent_new False (tk_finish s) \<and> tw_events W d = cplus_pevent_new True (tk_pause s) \<and>
     to_duration t = tk_duration s)"

lemma old_parts: "parts_old W \<Longrightarrow> n \<in> set (pw_parts W) \<Longrightarrow> n < pw_next W"
  by (simp add: parts_old_def)

text \<open>
  A construction that fails gives back what it has made.  One that succeeds yields a task
  whose events are those of \<open>task_new\<close> and whose thread is detached when the duration is infinite;
  deleting it later gives back all but the thread.
\<close>

theorem task_construction:
  assumes old: "parts_old W" and run: "task_initialize_object fl config W = Inr (r, W')"
  shows "case r of
      Inl e \<Rightarrow> (\<exists>c. fl c = Some e) \<and> pw_parts W' = pw_parts W \<and> tw_detached W' = tw_detached W
    | Inr t \<Rightarrow> (\<forall>c. fl c = None) \<and> started_as W' t (task_new (tc_suspend config) (tc_duration config)) \<and>
        (\<exists>n. to_thread t = Some n \<and> n \<notin> set (pw_parts W) \<and>
          tw_detached W' = (if tc_duration config = CPLUS_INFINITE_TIMEOUT then n # tw_detached W else tw_detached W) \<and>
          pw_parts (cplus_task_delete t W') = n # pw_parts W)"
proof -
  let ?n = "pw_next W"
  have keep: "filter P (pw_parts W) = pw_parts W" if "\<And>m. m < ?n \<Longrightarrow> P m" for P
    using old_parts [OF old] that by (intro filter_True) auto
  have calls: "c = Task_block \<or> c = Evt_start \<or> c = Evt_stop \<or> c = Evt_finish \<or> c = Evt_pause \<or> c = Task_thread" for c
    by (cases c) simp_all
  note defs = task_initialize_object_def task_steps_def event_step_def thread_step_def blank_task_def
    new_part_def cplus_task_delete_def drop_part_def
  show ?thesis
  proof (cases "\<exists>c. fl c \<noteq> None")
    case True
    then obtain c e where "fl c = Some e" by auto
    with run show ?thesis using calls [of c]
      by (auto simp: defs split: option.splits if_splits intro!: keep intro: exI [of _ Task_block]
          exI [of _ Evt_start] exI [of _ Evt_stop] exI [of _ Evt_finish] exI [of _ Evt_pause] exI [of _ Task_thread])
  next
    case False
    then have "fl c = None" for c by simp
    moreover have "Suc (Suc (Suc (Suc (Suc ?n)))) \<notin> set (pw_parts W)"
      using old_parts [OF old, of "Suc (Suc (Suc (Suc (Suc ?n))))"] by auto
    ultimately show ?thesis
      using run by (auto simp: defs started_as_def task_new_def intro!: keep)
  qed
qed

theorem task_construction_witness:
  "\<exists>t W'. task_initialize_object (\<lambda>c. None) \<lparr>tc_proc = True, tc_callback = False, tc_duration = 100, tc_suspend = True,
       tc_stacksize = 0\<rparr> \<lparr>pw_parts = [0], pw_next = 1, tw_events = (\<lambda>n. cplus_pevent_new True True), tw_detached = []\<rparr> =
       Inr (Inr t, W') \<and> started_as W' t (task_new True 100) \<and> pw_parts (cplus_task_delete t W') = [6, 0]"
proof -
  let ?c = "\<lparr>tc_proc = True, tc_callback = False, tc_duration = 100, tc_suspend = True, tc_stacksize = 0\<rparr>"
  let ?W = "\<lparr>pw_parts = [0], pw_next = 1, tw_events = (\<lambda>n. cplus_pevent_new True True), tw_detached = []\<rparr>"
  have old: "parts_old ?W" by (simp add: parts_old_def)
  obtain t W' where run: "task_initialize_object (\<lambda>c. None) ?c ?W = Inr (Inr t, W')" "to_thread t = Some 6"
    by (simp add: task_initialize_object_def task_steps_def event_step_def thread_step_def blank_task_def
        new_part_def)
  from task_construction [OF old run(1)] run show ?thesis by auto
qed

end
