(* ===== verification/Semaphore.thy ===== *)
theory Semaphore
  imports Clib Allocator
begin

text \<open>
  The semaphores of \<^verbatim>\<open>src/semaphore.c\<close>: an object in the memory of a process points to a
  POSIX semaphore, which lies in the object itself or, when it has a name, in the kernel.
  \<^verbatim>\<open>sem_open\<close>, \<^verbatim>\<open>sem_unlink\<close>, \<^verbatim>\<open>sem_init\<close>, \<^verbatim>\<open>sem_post\<close> and the waits behave as POSIX says;
  which of the first three calls fail for a reason of the system is an argument.
  \<^verbatim>\<open>SEM_FAILED\<close> is the null pointer of glibc.
\<close>

section \<open>Counting\<close>

definition SEMAPHORE_MAX_VALUE :: int where "SEMAPHORE_MAX_VALUE = 32767"

text \<open>The value of the semaphore is a number; \<^verbatim>\<open>sem_post\<close> adds one, up to \<^verbatim>\<open>SEM_VALUE_MAX\<close>.\<close>

definition SEM_VALUE_MAX :: nat where "SEM_VALUE_MAX = 2147483647"

definition sem_post :: "nat \<Rightarrow> int \<times> nat" where
  "sem_post v = (if v < SEM_VALUE_MAX then (0, v + 1) else (- 1, v))"

text \<open>
  A push reads the value and checks the count, and then posts as often as asked until a post
  fails.  \<open>cplus_semaphore_push\<close> is the call when no other thread uses the semaphore meanwhile;
  calls that overlap are taken apart below.
\<close>

definition push_admitted :: "nat \<Rightarrow> int \<Rightarrow> bool" where
  "push_admitted v count \<longleftrightarrow> (let remain = SEMAPHORE_MAX_VALUE - int v in
     \<not> SEMAPHORE_MAX_VALUE < remain \<and> \<not> (count < 1 \<or> remain < count))"

primrec post_loop :: "nat \<Rightarrow> nat \<Rightarrow> int \<times> nat" where
  "post_loop 0 v = (CPLUS_SUCCESS, v)"
| "post_loop (Suc n) v = (case sem_post v of (r, v1) \<Rightarrow> if r \<noteq> 0 then (CPLUS_FAIL, v1) else post_loop n v1)"

definition cplus_semaphore_push :: "nat \<Rightarrow> int \<Rightarrow> int \<times> nat" where
  "cplus_semaphore_push v count = (if push_admitted v count then post_loop (nat count) v else (- 1, v))"

lemma push_admitted_iff: "push_admitted v count \<longleftrightarrow> 1 \<le> count \<and> int v + count \<le> SEMAPHORE_MAX_VALUE"
  by (auto simp: push_admitted_def Let_def)

lemma post_loop_fits: "v + n \<le> SEM_VALUE_MAX \<Longrightarrow> post_loop n v = (CPLUS_SUCCESS, v + n)"
  by (induction n arbitrary: v) (auto simp: sem_post_def)

text \<open>Alone, a push is refused as a whole or adds its count.\<close>

lemma push_alone:
  "cplus_semaphore_push v count =
     (if 1 \<le> count \<and> int v + count \<le> SEMAPHORE_MAX_VALUE then (CPLUS_SUCCESS, v + nat count) else (- 1, v))"
proof (cases "push_admitted v count")
  case True
  then have "v + nat count \<le> SEM_VALUE_MAX"
    by (auto simp: push_admitted_iff SEMAPHORE_MAX_VALUE_def SEM_VALUE_MAX_def)
  then show ?thesis using True post_loop_fits by (simp add: cplus_semaphore_push_def push_admitted_iff)
next
  case False
  then have "\<not> (1 \<le> count \<and> int v + count \<le> SEMAPHORE_MAX_VALUE)" by (simp only: push_admitted_iff simp_thms)
  then show ?thesis using False by (simp only: cplus_semaphore_push_def if_False)
qed

text \<open>A wait with a timeout in which the value is \<open>v\<close> at the end.\<close>

definition cplus_semaphore_wait_poll :: "nat \<Rightarrow> int \<times> nat" where
  "cplus_semaphore_wait_poll v = (if 0 < v then (CPLUS_SUCCESS, v - 1) else (CPLUS_FAIL, v))"

section \<open>State\<close>

datatype sem_ptr = No_sem | Own_sem | Named_sem nat

record semaphore =
  sp_psem :: sem_ptr
  sp_nonamed_sem :: "nat option"
  sp_is_named :: bool
  sp_is_owner :: bool
  sp_name :: "u8 list"

text \<open>The objects of a process; the names and the values of the semaphores of the kernel.\<close>

record sem_process =
  sq_heap :: mheap
  sq_objs :: "ptr \<rightharpoonup> semaphore"

record sem_kernel =
  sk_names :: "u8 list \<rightharpoonup> nat"
  sk_values :: "nat \<rightharpoonup> nat"
  sk_next :: nat

type_synonym sem_state = "sem_process \<times> sem_kernel"

datatype sem_call = Sem_open | Sem_create | Sem_init

type_synonym sem_failures = "sem_call \<Rightarrow> errno option"

text \<open>\<^verbatim>\<open>sem_open\<close> of an existing semaphore, and with \<^verbatim>\<open>O_CREAT | O_EXCL\<close>.\<close>

definition sem_open :: "sem_failures \<Rightarrow> u8 list \<Rightarrow> sem_kernel \<Rightarrow> nat cresult \<times> sem_kernel" where
  "sem_open fl n K = (case fl Sem_open of Some e \<Rightarrow> (Inl e, K)
   | None \<Rightarrow> (case sk_names K n of None \<Rightarrow> (Inl ENOENT, K) | Some i \<Rightarrow> (Inr i, K)))"

definition sem_create :: "sem_failures \<Rightarrow> u8 list \<Rightarrow> int \<Rightarrow> sem_kernel \<Rightarrow> nat cresult \<times> sem_kernel" where
  "sem_create fl n count K = (case fl Sem_create of Some e \<Rightarrow> (Inl e, K)
   | None \<Rightarrow> (case sk_names K n of Some i \<Rightarrow> (Inl EEXIST, K)
     | None \<Rightarrow> (Inr (sk_next K), K\<lparr>sk_names := (sk_names K)(n \<mapsto> sk_next K),
         sk_values := (sk_values K)(sk_next K \<mapsto> nat count), sk_next := sk_next K + 1\<rparr>)))"

definition sem_unlink :: "u8 list \<Rightarrow> sem_kernel \<Rightarrow> sem_kernel" where
  "sem_unlink n K = K\<lparr>sk_names := (sk_names K)(n := None)\<rparr>"

section \<open>Using a semaphore\<close>

definition get_sem :: "sem_process \<Rightarrow> ptr \<Rightarrow> semaphore exec" where
  "get_sem P a = (case sq_objs P a of None \<Rightarrow> Inl Assert_fail | Some s \<Rightarrow> Inr s)"

definition sem_value :: "semaphore \<Rightarrow> sem_kernel \<Rightarrow> nat option" where
  "sem_value s K = (case sp_psem s of No_sem \<Rightarrow> None | Own_sem \<Rightarrow> sp_nonamed_sem s
     | Named_sem i \<Rightarrow> sk_values K i)"

definition set_sem_value :: "ptr \<Rightarrow> semaphore \<Rightarrow> nat \<Rightarrow> sem_state \<Rightarrow> sem_state" where
  "set_sem_value a s v = (\<lambda>(P, K). case sp_psem s of
     No_sem \<Rightarrow> (P, K)
   | Own_sem \<Rightarrow> (P\<lparr>sq_objs := (sq_objs P)(a \<mapsto> s\<lparr>sp_nonamed_sem := Some v\<rparr>)\<rparr>, K)
   | Named_sem i \<Rightarrow> (P, K\<lparr>sk_values := (sk_values K)(i \<mapsto> v)\<rparr>))"

definition cplus_semaphore_get_value :: "ptr \<Rightarrow> sem_state \<Rightarrow> int exec" where
  "cplus_semaphore_get_value a = (\<lambda>(P, K). exec_bind (get_sem P a) (\<lambda>s.
     case sem_value s K of None \<Rightarrow> Inl Undefined | Some v \<Rightarrow> Inr (int v)))"

text \<open>A call of the system on the value of an object's semaphore.\<close>

definition on_semaphore :: "(nat \<Rightarrow> 'r \<times> nat) \<Rightarrow> ptr \<Rightarrow> sem_state \<Rightarrow> ('r \<times> sem_state) exec" where
  "on_semaphore f a = (\<lambda>(P, K). exec_bind (get_sem P a) (\<lambda>s.
     case sem_value s K of None \<Rightarrow> Inl Undefined
   | Some v \<Rightarrow> (case f v of (r, v') \<Rightarrow> Inr (r, set_sem_value a s v' (P, K)))))"

section \<open>Construction and release\<close>

definition SEMAPHORE_NAME_SIZE :: nat where "SEMAPHORE_NAME_SIZE = 31"

text \<open>\<open>cplus.sema_%s\<close>\<close>

definition SEMAPHORE_NAME_PATTERN :: "u8 list" where
  "SEMAPHORE_NAME_PATTERN = [99, 112, 108, 117, 115, 46, 115, 101, 109, 97, 95, 37, 115]"

definition SEMAPHORE_NAME_PATTERN_SIZE :: nat where
  "SEMAPHORE_NAME_PATTERN_SIZE = length SEMAPHORE_NAME_PATTERN + 1 - 3"

definition semaphore_text :: "u8 list \<Rightarrow> u8 list" where
  "semaphore_text s = take (length SEMAPHORE_NAME_PATTERN - 2) SEMAPHORE_NAME_PATTERN @ s"

definition cplus_semaphore_delete :: "ptr \<Rightarrow> sem_state \<Rightarrow> sem_state exec" where
  "cplus_semaphore_delete a = (\<lambda>(P, K). exec_bind (get_sem P a) (\<lambda>s.
     exec_bind (if sp_psem s \<noteq> No_sem \<and> sp_is_named s \<and> sp_is_owner s
         then exec_bind (c_str (Some (sp_name s))) (\<lambda>n. Inr (sem_unlink n K)) else Inr K) (\<lambda>K1.
       Inr (P\<lparr>sq_heap := cplus_mgr_free (sq_heap P) a, sq_objs := (sq_objs P)(a := None)\<rparr>, K1))))"

definition blank_semaphore :: semaphore where
  "blank_semaphore = \<lparr>sp_psem = No_sem, sp_nonamed_sem = None, sp_is_named = False,
     sp_is_owner = False, sp_name = replicate (SEMAPHORE_NAME_SIZE + 1) 0\<rparr>"

text \<open>
  The frame of the constructors: the object is allocated and cleared, the rest is done on its
  fields.  Every failure ends in the destructor, that of the allocation with a null pointer.
\<close>

definition build_semaphore ::
    "(semaphore \<times> sem_kernel) step list \<Rightarrow> sem_state \<Rightarrow> (ptr cresult \<times> sem_state) exec" where
  "build_semaphore steps = (\<lambda>(P, K). case cplus_mgr_malloc (sq_heap P) of
     (Inl e, h) \<Rightarrow> exec_bind (cplus_semaphore_delete CPLUS_NULL (P\<lparr>sq_heap := h\<rparr>, K)) (\<lambda>S.
       Inr (Inl e, S))
   | (Inr a, h) \<Rightarrow> exec_bind (until_exit steps (blank_semaphore, K)) (\<lambda>(r, (s, K1)).
       let P1 = P\<lparr>sq_heap := h, sq_objs := (sq_objs P)(a \<mapsto> s)\<rparr>
       in case r of
            Inr _ \<Rightarrow> Inr (Inr a, (P1, K1))
          | Inl e \<Rightarrow> exec_bind (cplus_semaphore_delete a (P1, K1)) (\<lambda>S. Inr (Inl e, S))))"

definition sem_name_step :: "u8 list \<Rightarrow> (semaphore \<times> sem_kernel) step" where
  "sem_name_step name = (\<lambda>(s, K). exec_bind
     (cplus_str_printf (Some (sp_name s)) (of_nat SEMAPHORE_NAME_SIZE) (semaphore_text name)) (\<lambda>(res, out).
        Inr (if res < 0 then Inl ENONE else Inr (),
             (s\<lparr>sp_name := (case out of None \<Rightarrow> sp_name s | Some b \<Rightarrow> b)\<rparr>, K))))"

definition sem_create_step :: "sem_failures \<Rightarrow> int \<Rightarrow> (semaphore \<times> sem_kernel) step" where
  "sem_create_step fl count = (\<lambda>(s, K). exec_bind (c_str (Some (sp_name s))) (\<lambda>n.
     case sem_create fl n count K of
       (Inl e, K1) \<Rightarrow> Inr (Inl e, (s\<lparr>sp_psem := No_sem\<rparr>, K1))
     | (Inr i, K1) \<Rightarrow> Inr (Inr (), (s\<lparr>sp_psem := Named_sem i, sp_is_owner := True, sp_is_named := True\<rparr>, K1))))"

definition sem_open_step :: "sem_failures \<Rightarrow> (semaphore \<times> sem_kernel) step" where
  "sem_open_step fl = (\<lambda>(s, K). exec_bind (c_str (Some (sp_name s))) (\<lambda>n.
     case sem_open fl n K of
       (Inl e, K1) \<Rightarrow> Inr (Inl e, (s\<lparr>sp_psem := No_sem\<rparr>, K1))
     | (Inr i, K1) \<Rightarrow> Inr (Inr (), (s\<lparr>sp_psem := Named_sem i, sp_is_named := True\<rparr>, K1))))"

definition sem_init_step :: "sem_failures \<Rightarrow> int \<Rightarrow> (semaphore \<times> sem_kernel) step" where
  "sem_init_step fl count = (\<lambda>(s, K). case fl Sem_init of
     Some e \<Rightarrow> Inr (Inl e, (s, K))
   | None \<Rightarrow> Inr (Inr (), (s\<lparr>sp_nonamed_sem := Some (nat count), sp_psem := Own_sem\<rparr>, K)))"

definition semaphore_xp_create :: "sem_failures \<Rightarrow> u8 list \<Rightarrow> int \<Rightarrow> sem_state \<Rightarrow> (ptr cresult \<times> sem_state) exec" where
  "semaphore_xp_create fl name count = build_semaphore [sem_name_step name, sem_create_step fl count]"

definition semaphore_xp_open :: "sem_failures \<Rightarrow> u8 list \<Rightarrow> sem_state \<Rightarrow> (ptr cresult \<times> sem_state) exec" where
  "semaphore_xp_open fl name = build_semaphore [sem_name_step name, sem_open_step fl]"

definition semaphore_xp_new :: "sem_failures \<Rightarrow> u8 list \<Rightarrow> int \<Rightarrow> sem_state \<Rightarrow> (ptr cresult \<times> sem_state) exec" where
  "semaphore_xp_new fl name count S = exec_bind (semaphore_xp_open fl name S) (\<lambda>(r, S1). case r of
     Inr a \<Rightarrow> Inr (Inr a, S1)
   | Inl e \<Rightarrow> if e = ENOENT then semaphore_xp_create fl name count S1 else Inr (Inl e, S1))"

definition bad_count :: "int \<Rightarrow> bool" where
  "bad_count count \<longleftrightarrow> count < 0 \<or> SEMAPHORE_MAX_VALUE < count"

definition cplus_semaphore_new :: "sem_failures \<Rightarrow> int \<Rightarrow> sem_state \<Rightarrow> (ptr cresult \<times> sem_state) exec" where
  "cplus_semaphore_new fl count S =
     (if bad_count count then Inr (Inl EINVAL, S) else build_semaphore [sem_init_step fl count] S)"

definition with_sem_name ::
    "buf \<Rightarrow> (u8 list \<Rightarrow> sem_state \<Rightarrow> (ptr cresult \<times> sem_state) exec) \<Rightarrow> sem_state \<Rightarrow> (ptr cresult \<times> sem_state) exec" where
  "with_sem_name name k S =
     (if name = None then Inr (Inl EINVAL, S)
      else exec_bind (c_str name) (\<lambda>s.
        if SEMAPHORE_NAME_SIZE < length s + SEMAPHORE_NAME_PATTERN_SIZE then Inr (Inl EINVAL, S)
        else k s S))"

definition cplus_semaphore_new_xp :: "sem_failures \<Rightarrow> buf \<Rightarrow> int \<Rightarrow> sem_state \<Rightarrow> (ptr cresult \<times> sem_state) exec" where
  "cplus_semaphore_new_xp fl name count = with_sem_name name (\<lambda>s S.
     if bad_count count then Inr (Inl EINVAL, S) else semaphore_xp_new fl s count S)"

definition cplus_semaphore_create_xp :: "sem_failures \<Rightarrow> buf \<Rightarrow> int \<Rightarrow> sem_state \<Rightarrow> (ptr cresult \<times> sem_state) exec" where
  "cplus_semaphore_create_xp fl name count = with_sem_name name (\<lambda>s S.
     if bad_count count then Inr (Inl EINVAL, S) else semaphore_xp_create fl s count S)"

definition cplus_semaphore_open_xp :: "sem_failures \<Rightarrow> buf \<Rightarrow> sem_state \<Rightarrow> (ptr cresult \<times> sem_state) exec" where
  "cplus_semaphore_open_xp fl name = with_sem_name name (semaphore_xp_open fl)"

definition cplus_semaphore_check :: "sem_process \<Rightarrow> ptr \<Rightarrow> bool" where
  "cplus_semaphore_check P a \<longleftrightarrow> a \<noteq> CPLUS_NULL \<and> sq_objs P a \<noteq> None"

section \<open>What the constructors do\<close>

definition sem_process_ok :: "sem_process \<Rightarrow> bool" where
  "sem_process_ok P \<longleftrightarrow> mheap_inv (sq_heap P) \<and> dom (sq_objs P) \<subseteq> set (mh_live (sq_heap P))"

text \<open>The name in the kernel: 31 bytes with the terminator are offered to the print.\<close>

definition sem_key :: "u8 list \<Rightarrow> u8 list" where
  "sem_key s = take 30 (semaphore_text s)"

definition named_sem :: "u8 list \<Rightarrow> semaphore" where
  "named_sem s = blank_semaphore\<lparr>sp_name := sem_key s @ 0 # replicate (31 - length (sem_key s)) 0\<rparr>"

lemma sem_key_text: "0 \<notin> set s \<Longrightarrow> 0 \<notin> set (sem_key s)"
  by (auto simp: sem_key_def semaphore_text_def SEMAPHORE_NAME_PATTERN_def dest!: in_set_takeD)

lemma c_str_named: "0 \<notin> set s \<Longrightarrow> c_str (Some (sp_name (named_sem s))) = Inr (sem_key s)"
  by (simp add: named_sem_def c_str_terminated sem_key_text)

lemma sem_name_step_ok: "sem_name_step s (blank_semaphore, K) = Inr (Inr (), (named_sem s, K))"
proof -
  have "cplus_str_printf (Some (sp_name blank_semaphore)) (of_nat SEMAPHORE_NAME_SIZE) (semaphore_text s) =
      Inr (int (length (semaphore_text s)), Some (sp_name (named_sem s)))"
    by (simp add: cplus_str_printf_def write_obj_def SEMAPHORE_NAME_SIZE_def blank_semaphore_def
        sem_key_def named_sem_def)
  then show ?thesis by (simp add: sem_name_step_def named_sem_def)
qed

text \<open>A constructor whose steps came to an end.\<close>

lemma build_done:
  assumes P: "sem_process_ok P" and steps: "until_exit steps (blank_semaphore, K) = Inr (Inr u, (s, K1))"
    and run: "build_semaphore steps (P, K) = Inr (r, (P', K'))"
  shows "\<exists>a. r = Inr a \<and> sq_objs P a = None \<and> sq_objs P' = (sq_objs P)(a \<mapsto> s) \<and> K' = K1 \<and> sem_process_ok P'"
proof -
  have inv: "mheap_inv (sq_heap P)" using P by (simp add: sem_process_ok_def)
  obtain q h where m: "cplus_mgr_malloc (sq_heap P) = (q, h)" by (rule prod.exhaust)
  show ?thesis
  proof (cases q)
    case (Inl e)
    have "sq_objs P CPLUS_NULL = None" using P by (auto simp: sem_process_ok_def mheap_inv_def)
    then show ?thesis
      using run by (simp add: build_semaphore_def m Inl cplus_semaphore_delete_def get_sem_def)
  next
    case (Inr a)
    note A = heap.alc_ok [OF inv, of a h] heap.alc_inv [OF inv m]
    have none: "sq_objs P a = None" using A(1) P m Inr by (auto simp: sem_process_ok_def)
    have "P' = P\<lparr>sq_heap := h, sq_objs := (sq_objs P)(a \<mapsto> s)\<rparr>" "r = Inr a" "K' = K1"
      using run steps m Inr by (auto simp: build_semaphore_def)
    moreover have "sem_process_ok (P\<lparr>sq_heap := h, sq_objs := (sq_objs P)(a \<mapsto> s)\<rparr>)"
    proof -
      have "dom (sq_objs P) \<subseteq> set (mh_live h)" "a \<in> set (mh_live h)"
        using A(1) P m Inr by (auto simp: sem_process_ok_def)
      then show ?thesis using A(2) by (simp add: sem_process_ok_def)
    qed
    ultimately show ?thesis using none by simp
  qed
qed

text \<open>A constructor that leaves its steps early.\<close>

lemma build_failed:
  assumes P: "sem_process_ok P" and steps: "until_exit steps (blank_semaphore, K) = Inr (Inl e, (s, K))"
    and s: "sp_psem s = No_sem" and run: "build_semaphore steps (P, K) = Inr (r, (P', K'))"
  shows "r = Inl e \<and> P' = P \<and> K' = K"
proof -
  have inv: "mheap_inv (sq_heap P)" using P by (simp add: sem_process_ok_def)
  obtain q h where m: "cplus_mgr_malloc (sq_heap P) = (q, h)" by (rule prod.exhaust)
  show ?thesis
  proof (cases q)
    case (Inl e')
    have "sq_objs P CPLUS_NULL = None" using P by (auto simp: sem_process_ok_def mheap_inv_def)
    then show ?thesis
      using run by (simp add: build_semaphore_def m Inl cplus_semaphore_delete_def get_sem_def)
  next
    case (Inr a)
    have a: "a \<noteq> CPLUS_NULL" "a \<notin> set (mh_live (sq_heap P))" using heap.alc_ok [OF inv] m Inr by blast+
    have h: "h = (sq_heap P)\<lparr>mh_live := a # mh_live (sq_heap P)\<rparr>"
      using m Inr by (auto simp: cplus_mgr_malloc_def Let_def split: if_splits)
    have "sq_objs P a = None" using a P by (auto simp: sem_process_ok_def)
    then have "P\<lparr>sq_heap := cplus_mgr_free h a, sq_objs := ((sq_objs P)(a \<mapsto> s))(a := None)\<rparr> = P"
      using a h by (simp add: cplus_mgr_free_def fun_upd_idem)
    then show ?thesis
      using run steps m Inr s by (auto simp: build_semaphore_def cplus_semaphore_delete_def get_sem_def)
  qed
qed

text \<open>Creating and opening by name.\<close>

lemma semaphore_xp_create_outcome:
  assumes P: "sem_process_ok P" and s: "0 \<notin> set s"
    and run: "semaphore_xp_create fl s count (P, K) = Inr (r, (P', K'))"
  shows "(\<exists>e. r = Inl e \<and> P' = P \<and> K' = K) \<or>
    (\<exists>a obj. r = Inr a \<and> sq_objs P a = None \<and> sq_objs P' = (sq_objs P)(a \<mapsto> obj) \<and> sem_process_ok P' \<and>
       sp_psem obj = Named_sem (sk_next K) \<and> sp_is_named obj \<and> sp_is_owner obj \<and>
       c_str (Some (sp_name obj)) = Inr (sem_key s) \<and> sk_names K (sem_key s) = None \<and>
       K' = K\<lparr>sk_names := (sk_names K)(sem_key s \<mapsto> sk_next K),
          sk_values := (sk_values K)(sk_next K \<mapsto> nat count), sk_next := sk_next K + 1\<rparr>)"
proof (cases "sem_create fl (sem_key s) count K")
  case (Pair q K1)
  have step: "sem_create_step fl count (named_sem s, K) = (case q of
       Inl e \<Rightarrow> Inr (Inl e, ((named_sem s)\<lparr>sp_psem := No_sem\<rparr>, K1))
     | Inr i \<Rightarrow> Inr (Inr (), ((named_sem s)\<lparr>sp_psem := Named_sem i, sp_is_owner := True, sp_is_named := True\<rparr>, K1)))"
    using Pair c_str_named [OF s] by (simp add: sem_create_step_def)
  show ?thesis
  proof (cases q)
    case (Inl e)
    then have K: "K1 = K" using Pair by (auto simp: sem_create_def split: option.splits)
    have u: "until_exit [sem_name_step s, sem_create_step fl count] (blank_semaphore, K) =
        Inr (Inl e, ((named_sem s)\<lparr>sp_psem := No_sem\<rparr>, K))"
      using step Inl K by (simp add: sem_name_step_ok)
    from build_failed [OF P u _ run [unfolded semaphore_xp_create_def]] show ?thesis by auto
  next
    case (Inr i)
    let ?s = "(named_sem s)\<lparr>sp_psem := Named_sem i, sp_is_owner := True, sp_is_named := True\<rparr>"
    have u: "until_exit [sem_name_step s, sem_create_step fl count] (blank_semaphore, K) = Inr (Inr (), (?s, K1))"
      using step Inr by (simp add: sem_name_step_ok)
    have "sk_names K (sem_key s) = None" "i = sk_next K"
      "K1 = K\<lparr>sk_names := (sk_names K)(sem_key s \<mapsto> sk_next K),
          sk_values := (sk_values K)(sk_next K \<mapsto> nat count), sk_next := sk_next K + 1\<rparr>"
      using Pair Inr by (auto simp: sem_create_def split: option.splits)
    moreover have "c_str (Some (sp_name ?s)) = Inr (sem_key s)" using c_str_named [OF s] by simp
    moreover obtain a where "r = Inr a" "sq_objs P a = None" "sq_objs P' = (sq_objs P)(a \<mapsto> ?s)"
        "K' = K1" "sem_process_ok P'"
      using build_done [OF P u run [unfolded semaphore_xp_create_def]] by blast
    ultimately show ?thesis by (intro disjI2 exI [of _ a] exI [of _ ?s]) simp
  qed
qed

lemma semaphore_xp_open_outcome:
  assumes P: "sem_process_ok P" and s: "0 \<notin> set s"
    and run: "semaphore_xp_open fl s (P, K) = Inr (r, (P', K'))"
  shows "K' = K \<and> ((\<exists>e. r = Inl e \<and> P' = P) \<or>
    (\<exists>a obj i. r = Inr a \<and> sq_objs P a = None \<and> sq_objs P' = (sq_objs P)(a \<mapsto> obj) \<and> sem_process_ok P' \<and>
       sp_psem obj = Named_sem i \<and> sp_is_named obj \<and> \<not> sp_is_owner obj \<and> sk_names K (sem_key s) = Some i))"
proof (cases "sem_open fl (sem_key s) K")
  case (Pair q K1)
  then have K: "K1 = K" by (auto simp: sem_open_def split: option.splits)
  have step: "sem_open_step fl (named_sem s, K) = (case q of
       Inl e \<Rightarrow> Inr (Inl e, ((named_sem s)\<lparr>sp_psem := No_sem\<rparr>, K))
     | Inr i \<Rightarrow> Inr (Inr (), ((named_sem s)\<lparr>sp_psem := Named_sem i, sp_is_named := True\<rparr>, K)))"
    using Pair K c_str_named [OF s] by (simp add: sem_open_step_def)
  show ?thesis
  proof (cases q)
    case (Inl e)
    have u: "until_exit [sem_name_step s, sem_open_step fl] (blank_semaphore, K) =
        Inr (Inl e, ((named_sem s)\<lparr>sp_psem := No_sem\<rparr>, K))"
      using step Inl by (simp add: sem_name_step_ok)
    from build_failed [OF P u _ run [unfolded semaphore_xp_open_def]] show ?thesis by auto
  next
    case (Inr i)
    let ?s = "(named_sem s)\<lparr>sp_psem := Named_sem i, sp_is_named := True\<rparr>"
    have u: "until_exit [sem_name_step s, sem_open_step fl] (blank_semaphore, K) = Inr (Inr (), (?s, K))"
      using step Inr by (simp add: sem_name_step_ok)
    have "sk_names K (sem_key s) = Some i" using Pair Inr by (auto simp: sem_open_def split: option.splits)
    moreover have "\<not> sp_is_owner ?s" by (simp add: named_sem_def blank_semaphore_def)
    moreover obtain a where "r = Inr a" "sq_objs P a = None" "sq_objs P' = (sq_objs P)(a \<mapsto> ?s)"
        "K' = K" "sem_process_ok P'"
      using build_done [OF P u run [unfolded semaphore_xp_open_def]] by blast
    ultimately show ?thesis
      by (intro conjI disjI2 exI [of _ a] exI [of _ ?s] exI [of _ i]) simp_all
  qed
qed

section \<open>A counter shared by name\<close>

text \<open>
  Any number of threads in two processes use the objects \<open>a\<close> and \<open>b\<close>.  Between two calls of the
  system another thread can act, so an event is one such call: the one with which a push
  begins, where it reads the value and checks its count; one \<^verbatim>\<open>sem_post\<close> of a push that was
  admitted; the wait of a poll, when it ends.
\<close>

datatype sem_event = Begin_push int | Post | Poll

datatype push_pc = Ready | Posting nat

primrec owed :: "push_pc \<Rightarrow> nat" where
  "owed Ready = 0"
| "owed (Posting n) = n"

text \<open>
  An event ends the call of the library with a result, or the call goes on, or the thread is not at
  this event and nothing happens.
\<close>

datatype sem_answer = Not_there | Goes_on | Returned int

fun sem_call_step :: "sem_event \<Rightarrow> push_pc \<Rightarrow> nat \<Rightarrow> (sem_answer \<times> push_pc) \<times> nat" where
  "sem_call_step (Begin_push n) Ready v =
     (if push_admitted v n then ((Goes_on, Posting (nat n)), v) else ((Returned (- 1), Ready), v))"
| "sem_call_step Post (Posting (Suc n)) v = (case sem_post v of (r, v1) \<Rightarrow>
     if r \<noteq> 0 then ((Returned CPLUS_FAIL, Ready), v1)
     else if n = 0 then ((Returned CPLUS_SUCCESS, Ready), v1) else ((Goes_on, Posting n), v1))"
| "sem_call_step Poll Ready v = (case cplus_semaphore_wait_poll v of (r, v1) \<Rightarrow> ((Returned r, Ready), v1))"
| "sem_call_step e p v = ((Not_there, p), v)"

text \<open>What happened: the thread, the event and its answer.\<close>

type_synonym sem_log = "(nat \<times> sem_event \<times> sem_answer) list"

primrec sem_run ::
    "ptr \<Rightarrow> ptr \<Rightarrow> (nat \<Rightarrow> bool) \<Rightarrow> (nat \<times> sem_event) list \<Rightarrow> (nat \<Rightarrow> push_pc) \<Rightarrow> sem_process \<Rightarrow> sem_process \<Rightarrow>
     sem_kernel \<Rightarrow> (sem_log \<times> (nat \<Rightarrow> push_pc) \<times> sem_process \<times> sem_process \<times> sem_kernel) exec" where
  "sem_run a b first [] pcs P Q K = Inr ([], pcs, P, Q, K)"
| "sem_run a b first (e # es) pcs P Q K = (let i = fst e; f = sem_call_step (snd e) (pcs i) in
     if first i then exec_bind (on_semaphore f a (P, K)) (\<lambda>((r, p), (P1, K1)).
        exec_bind (sem_run a b first es (pcs(i := p)) P1 Q K1) (\<lambda>(rs, S). Inr ((i, snd e, r) # rs, S)))
      else exec_bind (on_semaphore f b (Q, K)) (\<lambda>((r, p), (Q1, K1)).
        exec_bind (sem_run a b first es (pcs(i := p)) P Q1 K1) (\<lambda>(rs, S). Inr ((i, snd e, r) # rs, S))))"

text \<open>The specification: the same events on one number, in no process.\<close>

primrec counter_run :: "(nat \<times> sem_event) list \<Rightarrow> (nat \<Rightarrow> push_pc) \<Rightarrow> nat \<Rightarrow> sem_log \<times> (nat \<Rightarrow> push_pc) \<times> nat" where
  "counter_run [] pcs v = ([], pcs, v)"
| "counter_run (e # es) pcs v = (case sem_call_step (snd e) (pcs (fst e)) v of ((r, p), v1) \<Rightarrow>
     case counter_run es (pcs(fst e := p)) v1 of (rs, S) \<Rightarrow> ((fst e, snd e, r) # rs, S))"

definition pushers :: "(nat \<times> sem_event) list \<Rightarrow> nat set" where
  "pushers es = {i. \<exists>n. (i, Begin_push n) \<in> set es}"

text \<open>What a log adds to the value: the counts of the pushes that were admitted, less the polls that succeeded.\<close>

primrec event_balance :: "sem_event \<Rightarrow> sem_answer \<Rightarrow> int" where
  "event_balance (Begin_push n) r = (if r = Goes_on then n else 0)"
| "event_balance Post r = 0"
| "event_balance Poll r = (if r = Returned CPLUS_SUCCESS then - 1 else 0)"

definition balance :: "sem_log \<Rightarrow> int" where
  "balance rs = (\<Sum>(i, e, r)\<leftarrow>rs. event_balance e r)"

lemma no_event_balance [simp]: "event_balance e Not_there = 0"
  by (cases e) simp_all

lemma balance_simps [simp]:
  "balance [] = 0" "balance ((i, e, r) # rs) = event_balance e r + balance rs"
  by (simp_all add: balance_def)

lemma on_named:
  assumes "sq_objs P a = Some s" "sp_psem s = Named_sem i" "sk_values K i = Some v" "f v = (r, v')"
  shows "on_semaphore f a (P, K) = Inr (r, (P, K\<lparr>sk_values := (sk_values K)(i \<mapsto> v')\<rparr>))"
  using assms by (simp add: on_semaphore_def get_sem_def sem_value_def set_sem_value_def)

lemma sem_run_counter:
  "\<lbrakk>sq_objs P a = Some s; sp_psem s = Named_sem i; sq_objs Q b = Some t; sp_psem t = Named_sem i;
    sk_values K i = Some v\<rbrakk> \<Longrightarrow>
   \<exists>rs pcs' v' K'. sem_run a b first es pcs P Q K = Inr (rs, pcs', P, Q, K') \<and> sk_values K' i = Some v' \<and>
     counter_run es pcs v = (rs, pcs', v')"
proof (induction es arbitrary: K v pcs)
  case (Cons e es)
  obtain r p v1 where r: "sem_call_step (snd e) (pcs (fst e)) v = ((r, p), v1)" by (metis prod.exhaust)
  let ?K = "K\<lparr>sk_values := (sk_values K)(i \<mapsto> v1)\<rparr>"
  obtain rs pcs' v' K' where rest: "sem_run a b first es (pcs(fst e := p)) P Q ?K = Inr (rs, pcs', P, Q, K')"
      "sk_values K' i = Some v'" "counter_run es (pcs(fst e := p)) v1 = (rs, pcs', v')"
    using Cons.IH [OF Cons.prems(1-4), of ?K v1 "pcs(fst e := p)"] by fastforce
  have "sem_run a b first (e # es) pcs P Q K = Inr ((fst e, snd e, r) # rs, pcs', P, Q, K')"
    using rest(1) on_named [where f = "sem_call_step (snd e) (pcs (fst e))", OF Cons.prems(1,2,5) r]
      on_named [where f = "sem_call_step (snd e) (pcs (fst e))", OF Cons.prems(3,4,5) r]
    by (simp add: Let_def)
  then show ?case using rest(2,3) r by auto
qed simp

subsection \<open>What is owed by pushes under way\<close>

text \<open>
  A push under way owes the posts it has still to make.  The value and all that is owed stay within one
  maximum for each thread that pushes.
\<close>

definition owed_inv :: "nat set \<Rightarrow> (nat \<Rightarrow> push_pc) \<Rightarrow> nat \<Rightarrow> bool" where
  "owed_inv A pcs v \<longleftrightarrow> v + (\<Sum>j\<in>A. owed (pcs j)) \<le> max 1 (card A) * 32767 \<and>
     (\<forall>j. owed (pcs j) \<le> 32767) \<and> (\<forall>j. j \<notin> A \<longrightarrow> pcs j = Ready)"

lemma owed_update:
  assumes "finite A" "i \<in> A"
  shows "(\<Sum>j\<in>A. owed ((pcs(i := p)) j)) + owed (pcs i) = (\<Sum>j\<in>A. owed (pcs j)) + owed p"
  using assms by (simp add: sum.remove)

lemma owed_others:
  assumes "finite A" "i \<in> A" "\<forall>j. owed (pcs j) \<le> (32767 :: nat)"
  shows "(\<Sum>j\<in>A. owed (pcs j)) \<le> owed (pcs i) + (card A - 1) * 32767"
proof -
  have "(\<Sum>j\<in>A - {i}. owed (pcs j)) \<le> of_nat (card (A - {i})) * 32767"
    by (rule sum_bounded_above) (use assms(3) in blast)
  then show ?thesis using assms(1,2) by (simp add: sum.remove card_Diff_singleton)
qed

lemma sem_call_step_owed:
  assumes A: "finite A" "card A \<le> 65538" and inv: "owed_inv A pcs v" and i: "\<forall>n. e = Begin_push n \<longrightarrow> i \<in> A"
    and step: "sem_call_step e (pcs i) v = ((r, p), v1)"
  shows "owed_inv A (pcs(i := p)) v1 \<and>
    int v1 + (\<Sum>j\<in>A. int (owed ((pcs(i := p)) j))) =
      int v + (\<Sum>j\<in>A. int (owed (pcs j))) + event_balance e r"
proof -
  note D = inv [unfolded owed_inv_def]
  have int_sum: "(\<Sum>j\<in>A. int (owed (q j))) = int (\<Sum>j\<in>A. owed (q j))" for q by simp
  have stay: ?thesis if "p = pcs i" "v1 = v" "event_balance e r = 0" using that inv by simp
  show ?thesis
  proof (cases "(e, pcs i, v)" rule: sem_call_step.cases)
    case (1 n v')
    show ?thesis
    proof (cases "push_admitted v n")
      case True
      then have n: "1 \<le> n" "v + nat n \<le> 32767" by (auto simp: push_admitted_iff SEMAPHORE_MAX_VALUE_def)
      have r: "r = Goes_on" "p = Posting (nat n)" "v1 = v" using step 1 True by auto
      have iA: "i \<in> A" using i 1 by blast
      then have card: "0 < card A" using A(1) by (auto simp: card_gt_0_iff)
      note up = owed_update [OF A(1) iA, of pcs p]
      have others: "(\<Sum>j\<in>A. owed (pcs j)) \<le> (card A - 1) * 32767"
        using owed_others [OF A(1) iA, of pcs] D 1 by simp
      have sum: "(\<Sum>j\<in>A. owed ((pcs(i := p)) j)) = (\<Sum>j\<in>A. owed (pcs j)) + nat n" using up 1 r by simp
      have "v + (\<Sum>j\<in>A. owed ((pcs(i := p)) j)) \<le> max 1 (card A) * 32767"
        unfolding sum using n(2) others card by (simp add: diff_mult_distrib max_def)
      then have "owed_inv A (pcs(i := p)) v1" using D r n iA by (auto simp: owed_inv_def)
      then show ?thesis unfolding int_sum sum using r 1 n(1) by simp
    next
      case False
      then show ?thesis using step 1 by (intro stay) auto
    qed
  next
    case (2 n v')
    then have iA: "i \<in> A" using D by force
    then have le: "owed (pcs i) \<le> (\<Sum>j\<in>A. owed (pcs j))" using A(1) by (intro member_le_sum) auto
    have "max 1 (card A) * 32767 < SEM_VALUE_MAX + 1" using A(2) by (simp add: SEM_VALUE_MAX_def)
    then have "v < SEM_VALUE_MAX" using D le 2 by simp
    then have post: "sem_post v = (0, v + 1)" by (simp add: sem_post_def)
    have r: "v1 = v + 1" "owed p = n" "event_balance e r = 0" using step 2 post by (auto split: if_splits)
    have small: "n \<le> 32767" using D 2 by (auto dest: spec [of _ i])
    have sum: "(\<Sum>j\<in>A. owed ((pcs(i := p)) j)) + 1 = (\<Sum>j\<in>A. owed (pcs j))"
      using owed_update [OF A(1) iA, of pcs p] 2 r by simp
    have "owed_inv A (pcs(i := p)) v1" using D r iA sum small by (auto simp: owed_inv_def)
    moreover have "int (\<Sum>j\<in>A. owed (pcs j)) = int (\<Sum>j\<in>A. owed ((pcs(i := p)) j)) + 1" using sum by presburger
    ultimately show ?thesis unfolding int_sum using r by simp
  next
    case (3 v')
    show ?thesis
    proof (cases "0 < v")
      case True
      then have r: "r = Returned CPLUS_SUCCESS" "p = Ready" "v1 = v - 1"
        using step 3 by (auto simp: cplus_semaphore_wait_poll_def)
      then have "pcs(i := p) = pcs" using 3 by auto
      then show ?thesis using inv r 3 True by (auto simp: owed_inv_def)
    next
      case False
      then show ?thesis using step 3
        by (intro stay) (auto simp: cplus_semaphore_wait_poll_def CPLUS_SUCCESS_def CPLUS_FAIL_def)
    qed
  qed (rule stay; use step in auto)+
qed

lemma counter_run_owed:
  assumes A: "finite A" "card A \<le> 65538"
  shows "\<lbrakk>pushers es \<subseteq> A; owed_inv A pcs v; counter_run es pcs v = (rs, pcs', v')\<rbrakk> \<Longrightarrow>
    owed_inv A pcs' v' \<and> int v' + (\<Sum>j\<in>A. int (owed (pcs' j))) = int v + (\<Sum>j\<in>A. int (owed (pcs j))) + balance rs"
proof (induction es arbitrary: pcs v rs)
  case (Cons e es)
  obtain i x where e: "e = (i, x)" by force
  obtain r p v1 where r: "sem_call_step x (pcs i) v = ((r, p), v1)" by (metis prod.exhaust)
  obtain rs' where rs: "counter_run es (pcs(i := p)) v1 = (rs', pcs', v')" "rs = (i, x, r) # rs'"
    using Cons.prems(3) r e by (auto split: prod.splits)
  have "pushers es \<subseteq> A" and i: "\<forall>n. x = Begin_push n \<longrightarrow> i \<in> A"
    using Cons.prems(1) e by (auto simp: pushers_def)
  note now = sem_call_step_owed [OF A Cons.prems(2) i r]
  note later = Cons.IH [OF \<open>pushers es \<subseteq> A\<close> conjunct1 [OF now] rs(1)]
  show ?case unfolding rs(2) balance_simps using conjunct2 [OF now] later by linarith
qed simp

section \<open>Properties\<close>

lemma c_str_no_zero: "c_str b = Inr s \<Longrightarrow> 0 \<notin> set s"
  by (auto simp: c_str_def dest: set_takeWhileD split: option.splits if_splits)

lemma with_sem_name_cases:
  "with_sem_name name k S = Inr (Inl EINVAL, S) \<or> with_sem_name name k S = Inl Out_of_bounds \<or>
   (\<exists>s. c_str name = Inr s \<and> with_sem_name name k S = k s S)"
  by (cases name) (auto simp: with_sem_name_def c_str_def)

lemma with_sem_nameD:
  assumes "with_sem_name name k S = Inr (Inr a, S')" "c_str name = Inr s"
  shows "k s S = Inr (Inr a, S')"
  using assms by (auto simp: with_sem_name_def split: if_splits)

text \<open>
  C10.  A semaphore that one process creates and another opens under the same name is one
  counter, for every interleaving of the calls of the system that the pushes and polls of their threads
  make: the results, and the value as either process reads it, are those of one number.  Nothing is lost:
  the value, with the posts that pushes under way have still to make, is the initial count and the counts of the
  pushes that were admitted, less the polls that succeeded.  It exceeds the maximum at most once for each
  thread that pushes, and not at all when one thread does (at most 65538 threads push, so that no post
  overflows the semaphore of the system).
\<close>

theorem semaphore_shared_counter:
  assumes P: "sem_process_ok P" "cplus_semaphore_create_xp fl name count (P, K) = Inr (Inr a, (P1, K1))"
    and Q: "sem_process_ok Q" "cplus_semaphore_open_xp fl' name' (Q, K1) = Inr (Inr b, (Q1, K2))"
    and names: "c_str name = Inr s" "c_str name' = Inr s'" "sem_key s' = sem_key s"
    and few: "card (pushers es) \<le> 65538"
  shows "\<exists>rs pcs v K'. sem_run a b first es (\<lambda>i. Ready) P1 Q1 K2 = Inr (rs, pcs, P1, Q1, K') \<and>
    counter_run es (\<lambda>i. Ready) (nat count) = (rs, pcs, v) \<and>
    cplus_semaphore_get_value a (P1, K') = Inr (int v) \<and>
    cplus_semaphore_get_value b (Q1, K') = Inr (int v) \<and>
    int v + (\<Sum>i\<in>pushers es. int (owed (pcs i))) = count + balance rs \<and>
    int v \<le> max 1 (int (card (pushers es))) * SEMAPHORE_MAX_VALUE"
proof -
  note z = c_str_no_zero [OF names(1)] c_str_no_zero [OF names(2)]
  have c: "\<not> bad_count count" "semaphore_xp_create fl s count (P, K) = Inr (Inr a, (P1, K1))"
    using with_sem_nameD [OF P(2) [unfolded cplus_semaphore_create_xp_def] names(1)] by (auto split: if_splits)
  have o: "semaphore_xp_open fl' s' (Q, K1) = Inr (Inr b, (Q1, K2))"
    using with_sem_nameD [OF Q(2) [unfolded cplus_semaphore_open_xp_def] names(2)] .
  obtain x where x: "sq_objs P1 a = Some x" "sp_psem x = Named_sem (sk_next K)"
      "sk_names K1 (sem_key s) = Some (sk_next K)" "sk_values K1 (sk_next K) = Some (nat count)"
    using semaphore_xp_create_outcome [OF P(1) z(1) c(2)] by auto
  obtain y where y: "sq_objs Q1 b = Some y" "sp_psem y = Named_sem (sk_next K)" "K2 = K1"
    using semaphore_xp_open_outcome [OF Q(1) z(2) o] x(3) names(3) by auto
  have count: "int (nat count) = count" "count \<le> SEMAPHORE_MAX_VALUE"
    using c(1) by (auto simp: bad_count_def)
  have fin: "finite (pushers es)"
    by (rule finite_subset [of _ "fst ` set es"]) (auto simp: pushers_def intro: rev_image_eqI)
  have inv: "owed_inv (pushers es) (\<lambda>i. Ready) (nat count)"
    using count by (auto simp: owed_inv_def SEMAPHORE_MAX_VALUE_def max_def)
  obtain rs pcs v K' where run: "sem_run a b first es (\<lambda>i. Ready) P1 Q1 K2 = Inr (rs, pcs, P1, Q1, K')"
      "sk_values K' (sk_next K) = Some v" "counter_run es (\<lambda>i. Ready) (nat count) = (rs, pcs, v)"
    using sem_run_counter [OF x(1,2) y(1,2), of K2 "nat count" first es "\<lambda>i. Ready"] x(4) y(3) by auto
  have "cplus_semaphore_get_value a (P1, K') = Inr (int v)" "cplus_semaphore_get_value b (Q1, K') = Inr (int v)"
    using x y run(2) by (simp_all add: cplus_semaphore_get_value_def get_sem_def sem_value_def)
  moreover note bal = counter_run_owed [OF fin few subset_refl inv run(3)]
  have "int v + (\<Sum>i\<in>pushers es. int (owed (pcs i))) = count + balance rs" using bal count by simp
  moreover have "int v \<le> max 1 (int (card (pushers es))) * SEMAPHORE_MAX_VALUE"
  proof -
    have "v \<le> max 1 (card (pushers es)) * 32767" using bal by (simp add: owed_inv_def)
    then have "int v \<le> int (max 1 (card (pushers es)) * 32767)" by (simp only: of_nat_le_iff)
    then show ?thesis by (simp add: SEMAPHORE_MAX_VALUE_def of_nat_max)
  qed
  ultimately show ?thesis using run(1,3) by blast
qed

text \<open>
  Pushes that overlap can take the value beyond the maximum: both are admitted at the value
  they read, and then both post.
\<close>

theorem semaphore_pushes_exceed_maximum:
  "\<exists>rs pcs. counter_run [(0, Begin_push 1), (1, Begin_push 1), (0, Post), (1, Post)] (\<lambda>i. Ready) 32766 =
     (rs, pcs, 32768) \<and> map (\<lambda>(i, e, r). r) rs = [Goes_on, Goes_on, Returned CPLUS_SUCCESS, Returned CPLUS_SUCCESS] \<and>
     SEMAPHORE_MAX_VALUE < 32768"
  by (simp add: push_admitted_def SEMAPHORE_MAX_VALUE_def sem_post_def SEM_VALUE_MAX_def)

lemma semaphore_xp_failed:
  assumes P: "sem_process_ok P" and s: "c_str name = Inr s"
  shows "semaphore_xp_create fl s count (P, K) = Inr (Inl e, S) \<Longrightarrow> S = (P, K)"
    and "semaphore_xp_open fl s (P, K) = Inr (Inl e, S) \<Longrightarrow> S = (P, K)"
    and "semaphore_xp_new fl s count (P, K) = Inr (Inl e, S) \<Longrightarrow> S = (P, K)"
proof -
  note z = c_str_no_zero [OF s]
  show created: "S = (P, K)" if "semaphore_xp_create fl s count (P, K) = Inr (Inl e, S)" for e S
    using semaphore_xp_create_outcome [OF P z, of fl count K "Inl e" "fst S" "snd S"] that by (cases S) auto
  show opened: "S = (P, K)" if "semaphore_xp_open fl s (P, K) = Inr (Inl e, S)" for e S
    using semaphore_xp_open_outcome [OF P z, of fl K "Inl e" "fst S" "snd S"] that by (cases S) auto
  assume n: "semaphore_xp_new fl s count (P, K) = Inr (Inl e, S)"
  then obtain r1 S1 where o: "semaphore_xp_open fl s (P, K) = Inr (r1, S1)"
    by (auto simp: semaphore_xp_new_def elim!: exec_bindE)
  show "S = (P, K)"
  proof (cases r1)
    case (Inl e1)
    then have "S1 = (P, K)" using opened o by simp
    then show ?thesis using n o Inl created by (auto simp: semaphore_xp_new_def split: if_splits)
  next
    case (Inr a)
    then show ?thesis using n o by (simp add: semaphore_xp_new_def)
  qed
qed

lemma semaphore_new_failed:
  assumes P: "sem_process_ok P" and c: "cplus_semaphore_new fl count (P, K) = Inr (Inl e, S)"
  shows "S = (P, K)"
proof (cases "fl Sem_init")
  case None
  then show ?thesis
    using c build_done [OF P, of "[sem_init_step fl count]" K "()" _ K]
    by (cases S) (auto simp: cplus_semaphore_new_def sem_init_step_def split: if_splits)
next
  case (Some e')
  then show ?thesis
    using c build_failed [OF P, of "[sem_init_step fl count]" K e' blank_semaphore]
    by (cases S) (auto simp: cplus_semaphore_new_def sem_init_step_def blank_semaphore_def split: if_splits)
qed

text \<open>
  C11.  A constructor that reports a failure - a bad argument, a name that is taken or unknown,
  a call of the system that fails - leaves the process with its heap and objects and the names
  and values of the kernel as they were; but when there is no memory for the object a valid
  call does not report a failure, it ends in an assertion.
\<close>

theorem semaphore_failure_cleans_up:
  assumes P: "sem_process_ok P"
    and run: "r \<in> {cplus_semaphore_new fl count (P, K), cplus_semaphore_new_xp fl name count (P, K),
      cplus_semaphore_create_xp fl name count (P, K), cplus_semaphore_open_xp fl name (P, K)}"
  shows "(\<forall>e S. r = Inr (Inl e, S) \<longrightarrow> S = (P, K)) \<and>
    (mh_pick (sq_heap P) (mh_live (sq_heap P)) = CPLUS_NULL \<longrightarrow>
      r = Inr (Inl EINVAL, (P, K)) \<or> r = Inl Assert_fail \<or> r = Inl Out_of_bounds)"
proof (intro conjI allI impI)
  fix e S assume "r = Inr (Inl e, S)"
  with run have "cplus_semaphore_new fl count (P, K) = Inr (Inl e, S) \<or>
      cplus_semaphore_new_xp fl name count (P, K) = Inr (Inl e, S) \<or>
      cplus_semaphore_create_xp fl name count (P, K) = Inr (Inl e, S) \<or>
      cplus_semaphore_open_xp fl name (P, K) = Inr (Inl e, S)" by auto
  then show "S = (P, K)"
    by (elim disjE) (auto simp: cplus_semaphore_new_xp_def cplus_semaphore_create_xp_def
        cplus_semaphore_open_xp_def with_sem_name_def elim!: exec_bindE split: if_splits
        dest: semaphore_new_failed [OF P] semaphore_xp_failed [OF P])
next
  assume none: "mh_pick (sq_heap P) (mh_live (sq_heap P)) = CPLUS_NULL"
  have "sq_objs P CPLUS_NULL = None" using P by (auto simp: sem_process_ok_def mheap_inv_def)
  then have b: "build_semaphore steps (P, K) = Inl Assert_fail" for steps
    using none by (simp add: build_semaphore_def cplus_mgr_malloc_def cplus_semaphore_delete_def get_sem_def)
  have named: "with_sem_name name k (P, K) \<in> {Inr (Inl EINVAL, (P, K)), Inl Assert_fail, Inl Out_of_bounds}"
    if "\<And>s. k s (P, K) \<in> {Inr (Inl EINVAL, (P, K)), Inl Assert_fail}" for k
    using with_sem_name_cases [of name k "(P, K)"] that by (elim disjE exE conjE) auto
  have "cplus_semaphore_new fl count (P, K) \<in> {Inr (Inl EINVAL, (P, K)), Inl Assert_fail, Inl Out_of_bounds}"
    "cplus_semaphore_new_xp fl name count (P, K) \<in> {Inr (Inl EINVAL, (P, K)), Inl Assert_fail, Inl Out_of_bounds}"
    "cplus_semaphore_create_xp fl name count (P, K) \<in> {Inr (Inl EINVAL, (P, K)), Inl Assert_fail, Inl Out_of_bounds}"
    "cplus_semaphore_open_xp fl name (P, K) \<in> {Inr (Inl EINVAL, (P, K)), Inl Assert_fail, Inl Out_of_bounds}"
    unfolding cplus_semaphore_new_xp_def cplus_semaphore_create_xp_def cplus_semaphore_open_xp_def
    by (simp add: cplus_semaphore_new_def b, (rule named,
        simp add: semaphore_xp_create_def semaphore_xp_open_def semaphore_xp_new_def b)+)
  then show "r = Inr (Inl EINVAL, (P, K)) \<or> r = Inl Assert_fail \<or> r = Inl Out_of_bounds"
    using run by blast
qed

definition example_sem_process :: sem_process where
  "example_sem_process = \<lparr>sq_heap = \<lparr>mh_live = [], mh_pick = (\<lambda>used. if 64 \<notin> set used then 64 else 0)\<rparr>,
     sq_objs = (\<lambda>a. None)\<rparr>"

lemma example_sem_process_ok: "sem_process_ok example_sem_process"
  by (simp add: example_sem_process_def sem_process_ok_def mheap_inv_def malloc_law_def)

text \<open>The semaphore \<^verbatim>\<open>a\<close>, created with the value 1 and opened.\<close>

lemma example_semaphore:
  "\<exists>P1 K1 Q1 K2. cplus_semaphore_create_xp (\<lambda>c. None) (Some [97, 0]) 1
       (example_sem_process, \<lparr>sk_names = (\<lambda>n. None), sk_values = (\<lambda>i. None), sk_next = 0\<rparr>) = Inr (Inr 64, (P1, K1)) \<and>
     cplus_semaphore_open_xp (\<lambda>c. None) (Some [97, 0]) (example_sem_process, K1) = Inr (Inr 64, (Q1, K2))"
proof -
  have z: "c_str (Some [97, 0]) = Inr [97]" "c_str (Some (sp_name (named_sem [97]))) = Inr (sem_key [97])"
    by (simp add: c_str_def, simp add: c_str_named)
  show ?thesis
    by (simp add: cplus_semaphore_create_xp_def cplus_semaphore_open_xp_def with_sem_name_def z
        SEMAPHORE_NAME_SIZE_def SEMAPHORE_NAME_PATTERN_SIZE_def SEMAPHORE_NAME_PATTERN_def bad_count_def
        SEMAPHORE_MAX_VALUE_def semaphore_xp_create_def semaphore_xp_open_def build_semaphore_def
        example_sem_process_def cplus_mgr_malloc_def sem_name_step_ok sem_create_step_def sem_open_step_def
        sem_create_def sem_open_def)
qed

theorem semaphore_shared_counter_witness:
  "\<exists>P1 K1 Q1 K2 rs pcs K'. cplus_semaphore_create_xp (\<lambda>c. None) (Some [97, 0]) 1
       (example_sem_process, \<lparr>sk_names = (\<lambda>n. None), sk_values = (\<lambda>i. None), sk_next = 0\<rparr>) = Inr (Inr 64, (P1, K1)) \<and>
     cplus_semaphore_open_xp (\<lambda>c. None) (Some [97, 0]) (example_sem_process, K1) = Inr (Inr 64, (Q1, K2)) \<and>
     sem_run 64 64 (\<lambda>i. i = 0) [(0, Begin_push 2), (0, Post), (1, Poll), (0, Post)] (\<lambda>i. Ready) P1 Q1 K2 =
       Inr (rs, pcs, P1, Q1, K') \<and>
     map (\<lambda>(i, e, r). r) rs = [Goes_on, Goes_on, Returned CPLUS_SUCCESS, Returned CPLUS_SUCCESS] \<and>
     cplus_semaphore_get_value 64 (P1, K') = Inr 2"
proof -
  let ?es = "[(0, Begin_push 2), (0, Post), (1, Poll), (0, Post)]"
  obtain P1 K1 Q1 K2 where ex: "cplus_semaphore_create_xp (\<lambda>c. None) (Some [97, 0]) 1
       (example_sem_process, \<lparr>sk_names = (\<lambda>n. None), sk_values = (\<lambda>i. None), sk_next = 0\<rparr>) = Inr (Inr 64, (P1, K1))"
      "cplus_semaphore_open_xp (\<lambda>c. None) (Some [97, 0]) (example_sem_process, K1) = Inr (Inr 64, (Q1, K2))"
    using example_semaphore by blast
  have z: "c_str (Some [97, 0]) = Inr [97]" by (simp add: c_str_def)
  have p: "pushers ?es = {0}" by (auto simp: pushers_def)
  then have few: "card (pushers ?es) \<le> 65538" by simp
  have run: "\<exists>rs pcs. counter_run ?es (\<lambda>i. Ready) (nat 1) = (rs, pcs, 2) \<and>
      map (\<lambda>(i, e, r). r) rs = [Goes_on, Goes_on, Returned CPLUS_SUCCESS, Returned CPLUS_SUCCESS]"
    by (simp add: push_admitted_def SEMAPHORE_MAX_VALUE_def sem_post_def SEM_VALUE_MAX_def numeral_2_eq_2
        cplus_semaphore_wait_poll_def)
  obtain rs pcs v K' where "sem_run 64 64 (\<lambda>i. i = 0) ?es (\<lambda>i. Ready) P1 Q1 K2 = Inr (rs, pcs, P1, Q1, K')"
      "counter_run ?es (\<lambda>i. Ready) (nat 1) = (rs, pcs, v)" "cplus_semaphore_get_value 64 (P1, K') = Inr (int v)"
    using semaphore_shared_counter [OF example_sem_process_ok ex(1) example_sem_process_ok ex(2) z z refl few,
        of "\<lambda>i. i = 0"] by blast
  moreover from this(2) run have "v = 2"
    "map (\<lambda>(i, e, r). r) rs = [Goes_on, Goes_on, Returned CPLUS_SUCCESS, Returned CPLUS_SUCCESS]" by auto
  ultimately show ?thesis
    using ex by (intro exI [of _ P1] exI [of _ K1] exI [of _ Q1] exI [of _ K2] exI [of _ rs] exI [of _ pcs]
        exI [of _ K']) simp
qed

theorem semaphore_failure_cleans_up_witness:
  "cplus_semaphore_new (\<lambda>c. Some ENOMEM) 1
     (example_sem_process, \<lparr>sk_names = (\<lambda>n. None), sk_values = (\<lambda>i. None), sk_next = 0\<rparr>) =
   Inr (Inl ENOMEM, (example_sem_process, \<lparr>sk_names = (\<lambda>n. None), sk_values = (\<lambda>i. None), sk_next = 0\<rparr>))"
proof -
  let ?K = "\<lparr>sk_names = (\<lambda>n. None), sk_values = (\<lambda>i. None), sk_next = 0\<rparr>"
  obtain S where S: "cplus_semaphore_new (\<lambda>c. Some ENOMEM) 1 (example_sem_process, ?K) = Inr (Inl ENOMEM, S)"
    by (simp add: cplus_semaphore_new_def bad_count_def SEMAPHORE_MAX_VALUE_def build_semaphore_def
        example_sem_process_def cplus_mgr_malloc_def sem_init_step_def cplus_semaphore_delete_def get_sem_def
        blank_semaphore_def)
  have "Inr (Inl ENOMEM, S) \<in> {cplus_semaphore_new (\<lambda>c. Some ENOMEM) 1 (example_sem_process, ?K),
      cplus_semaphore_new_xp (\<lambda>c. Some ENOMEM) None 1 (example_sem_process, ?K),
      cplus_semaphore_create_xp (\<lambda>c. Some ENOMEM) None 1 (example_sem_process, ?K),
      cplus_semaphore_open_xp (\<lambda>c. Some ENOMEM) None (example_sem_process, ?K)}"
    using S by simp
  from semaphore_failure_cleans_up [OF example_sem_process_ok this] S show ?thesis by (cases S) simp
qed

text \<open>
  The longest names that are accepted lose their last byte, so that two names can stand for
  one semaphore.
\<close>

theorem semaphore_name_truncated:
  assumes "0 \<notin> set s" "length s = 19" "x \<noteq> 0" "y \<noteq> 0"
  shows "cplus_semaphore_open_xp fl (Some (s @ [x, 0])) S = semaphore_xp_open fl (s @ [x]) S \<and>
    sem_key (s @ [x]) = sem_key (s @ [y])"
proof -
  have "c_str (Some (s @ [x, 0])) = Inr (s @ [x])" using c_str_terminated [of "s @ [x]" "[]"] assms by auto
  then show ?thesis
    using assms by (simp add: cplus_semaphore_open_xp_def with_sem_name_def SEMAPHORE_NAME_SIZE_def
        SEMAPHORE_NAME_PATTERN_SIZE_def SEMAPHORE_NAME_PATTERN_def sem_key_def semaphore_text_def)
qed

text \<open>Only the deletion in the process that created the semaphore removes its name.\<close>

theorem semaphore_owner_removes_name:
  assumes "sq_objs P a = Some s" "sp_psem s = Named_sem i" "sp_is_named s" "c_str (Some (sp_name s)) = Inr n"
  shows "\<exists>P' K'. cplus_semaphore_delete a (P, K) = Inr (P', K') \<and> sq_objs P' a = None \<and>
    sk_names K' = (if sp_is_owner s then (sk_names K)(n := None) else sk_names K) \<and> sk_values K' = sk_values K"
  using assms by (simp add: cplus_semaphore_delete_def get_sem_def sem_unlink_def)

end
