(* ===== verification/Taskpool.thy ===== *)
theory Taskpool
  imports Llist_Search Semaphore
begin

text \<open>
  The task pool of \<^verbatim>\<open>src/taskpool.c\<close>, over the counters of \<^verbatim>\<open>src/semaphore.c\<close>.  A pool
  keeps its waiting tasks in a linked list whose elements are blocks of a memory pool, and
  counts them in a semaphore that the workers wait on; the list and the memory pool are those
  of \<^verbatim>\<open>Llist\<close> and \<^verbatim>\<open>Mempool\<close>.  Every operation on the list is made under the mutex
  \<^verbatim>\<open>task_access_sect\<close>, so an operation is one step; the fields of the tasks in blocks in use are
  the map \<open>tp_tasks\<close> (\<^verbatim>\<open>Mempool\<close> shows that the pool does not touch their bytes).
\<close>

section \<open>The pool\<close>

definition MAX_TASK_COUNT :: u32 where "MAX_TASK_COUNT = 255"

record task_info =
  ti_proc :: ptr
  ti_param1 :: ptr
  ti_param2 :: ptr
  ti_callback :: ptr

record taskpool =
  tp_get_task_cycling :: bool
  tp_task_list :: linked_list
  tp_task_pool :: mempool
  tp_tasks :: "ptr \<Rightarrow> task_info"
  tp_remain :: nat

text \<open>A call of a client's procedure: which one, with which arguments.\<close>

type_synonym proc_call = "ptr \<times> ptr \<times> ptr"

definition task_calls :: "task_info \<Rightarrow> proc_call list" where
  "task_calls t = (if ti_proc t \<noteq> CPLUS_NULL then [(ti_proc t, ti_param1 t, ti_param2 t)] else []) @
     (if ti_callback t \<noteq> CPLUS_NULL then [(ti_callback t, ti_param1 t, ti_param2 t)] else [])"

text \<open>
  The memory the pool needs, without its workers: a memory pool for the tasks and a list with
  preallocated nodes, of \<open>max_task_count\<close> each.
\<close>

definition taskpool_initialize_object ::
    "bool \<Rightarrow> mheap \<Rightarrow> (ptr \<rightharpoonup> llist_node) \<Rightarrow> ptr \<Rightarrow> ptr \<Rightarrow> (u32 \<Rightarrow> ptr) \<Rightarrow> (u32 \<Rightarrow> ptr) \<Rightarrow> mem \<Rightarrow> mem \<Rightarrow> u32 \<Rightarrow>
     taskpool cresult" where
  "taskpool_initialize_object cycling heap nodes obj1 obj2 mal1 mal2 mem1 mem2 max_task_count =
     (case cplus_mempool_new obj1 mal1 mem1 max_task_count 32 of
        Inl e \<Rightarrow> Inl e
      | Inr mp \<Rightarrow> (case fst (cplus_llist_prev_new heap nodes obj2 mal2 mem2 max_task_count) of
          Inl e \<Rightarrow> Inl e
        | Inr L \<Rightarrow> Inr \<lparr>tp_get_task_cycling = cycling, tp_task_list = L, tp_task_pool = mp,
            tp_tasks = (\<lambda>a. \<lparr>ti_proc = 0, ti_param1 = 0, ti_param2 = 0, ti_callback = 0\<rparr>),
            tp_remain = 0\<rparr>))"

definition cplus_taskpool_new_ex ::
    "bool \<Rightarrow> mheap \<Rightarrow> (ptr \<rightharpoonup> llist_node) \<Rightarrow> ptr \<Rightarrow> ptr \<Rightarrow> (u32 \<Rightarrow> ptr) \<Rightarrow> (u32 \<Rightarrow> ptr) \<Rightarrow> mem \<Rightarrow> mem \<Rightarrow> u32 \<Rightarrow>
     taskpool cresult" where
  "cplus_taskpool_new_ex cycling heap nodes obj1 obj2 mal1 mal2 mem1 mem2 max_task_count =
     (if max_task_count < 1 \<or> MAX_TASK_COUNT < max_task_count then Inl EINVAL
      else taskpool_initialize_object cycling heap nodes obj1 obj2 mal1 mal2 mem1 mem2 max_task_count)"

definition cplus_taskpool_add_task_ex ::
    "taskpool \<Rightarrow> task_info option \<Rightarrow> (unit cresult \<times> taskpool) option" where
  "cplus_taskpool_add_task_ex tp task = (case task of
     None \<Rightarrow> Some (Inl EINVAL, tp)
   | Some t \<Rightarrow>
      if cplus_llist_get_size (tp_task_list tp) < MAX_TASK_COUNT then
        (case cplus_mempool_alloc (tp_task_pool tp) of
           (Inl e, mp) \<Rightarrow> Some (Inl e, tp\<lparr>tp_task_pool := mp\<rparr>)
         | (Inr a, mp) \<Rightarrow> do {
             (r, L) \<leftarrow> cplus_llist_push_front (tp_task_list tp) a;
             let tp1 = tp\<lparr>tp_task_pool := mp, tp_tasks := (tp_tasks tp)(a := t), tp_task_list := L\<rparr>;
             Some (r, if \<not> tp_get_task_cycling tp \<and> r = Inr ()
               then tp1\<lparr>tp_remain := snd (cplus_semaphore_push (tp_remain tp1) 1)\<rparr> else tp1) })
      else Some (Inl ENOMEM, tp))"

definition cplus_taskpool_add_task :: "taskpool \<Rightarrow> ptr \<Rightarrow> ptr \<Rightarrow> (unit cresult \<times> taskpool) option" where
  "cplus_taskpool_add_task tp proc param1 = cplus_taskpool_add_task_ex tp
     (Some \<lparr>ti_proc = proc, ti_param1 = param1, ti_param2 = CPLUS_NULL, ti_callback = CPLUS_NULL\<rparr>)"

text \<open>
  One round of a worker.  The result is the calls it makes: none when the wait timed out, when
  it found the list empty, or when it could not fetch a task.
\<close>

definition task_worker :: "taskpool \<Rightarrow> (proc_call list \<times> taskpool) option" where
  "task_worker tp =
     (let (got, remain) = (if tp_get_task_cycling tp then (CPLUS_SUCCESS, tp_remain tp)
                           else cplus_semaphore_wait_poll (tp_remain tp));
          tp1 = tp\<lparr>tp_remain := remain\<rparr> in
      if tp_get_task_cycling tp \<or> got = CPLUS_SUCCESS then
        (if 0 < cplus_llist_get_size (tp_task_list tp1) then do {
           (r, L) \<leftarrow> (if tp_get_task_cycling tp then cplus_llist_get_cycling_next (tp_task_list tp1)
                       else cplus_llist_pop_back (tp_task_list tp1));
           let tp2 = tp1\<lparr>tp_task_list := L\<rparr>;
           Some (case r of
               Inl e \<Rightarrow> ([], tp2)
             | Inr task \<Rightarrow> (task_calls (tp_tasks tp2 task),
                 if tp_get_task_cycling tp then tp2
                 else tp2\<lparr>tp_task_pool := snd (cplus_mempool_free (tp_task_pool tp2) task)\<rparr>)) }
         else Some ([], tp1))
      else Some ([], tp1))"

text \<open>The comparator sees the fields of a task.\<close>

definition cplus_taskpool_remove_task :: "taskpool \<Rightarrow> (task_info \<Rightarrow> int) \<Rightarrow> (int \<times> taskpool) option" where
  "cplus_taskpool_remove_task tp comparator =
     (if 0 < cplus_llist_get_size (tp_task_list tp) then do {
        (r, L) \<leftarrow> cplus_llist_pop_if (tp_task_list tp) (\<lambda>a. comparator (tp_tasks tp a));
        let tp1 = tp\<lparr>tp_task_list := L\<rparr>;
        Some (CPLUS_SUCCESS, case r of
            Inl e \<Rightarrow> tp1
          | Inr task \<Rightarrow> tp1\<lparr>tp_task_pool := snd (cplus_mempool_free (tp_task_pool tp1) task)\<rparr>) }
      else Some (CPLUS_SUCCESS, tp))"

definition cplus_taskpool_get_task_count :: "taskpool \<Rightarrow> u32" where
  "cplus_taskpool_get_task_count tp = cplus_llist_get_size (tp_task_list tp)"

partial_function (option) clear_tasks :: "taskpool \<Rightarrow> taskpool option" where
  "clear_tasks tp = do {
     (r, L) \<leftarrow> cplus_llist_pop_back (tp_task_list tp);
     let tp1 = tp\<lparr>tp_task_list := L\<rparr>;
     (case r of
        Inl e \<Rightarrow> Some tp1
      | Inr task \<Rightarrow> clear_tasks
          (tp1\<lparr>tp_task_pool := snd (cplus_mempool_free (tp_task_pool tp1) task)\<rparr>)) }"

definition cplus_taskpool_clear_task :: "taskpool \<Rightarrow> (int \<times> taskpool) option" where
  "cplus_taskpool_clear_task tp = map_option (Pair CPLUS_SUCCESS) (clear_tasks tp)"

section \<open>A queue of blocks\<close>

text \<open>
  What the pool asks of its list and its memory pool together: blocks taken from the allocator
  are the elements of a bounded queue, pushed in front and taken from the back.
\<close>

locale pooled_queue = block_allocator alc fre live inv
  for alc :: "'s \<Rightarrow> ptr cresult \<times> 's" and fre live inv +
  fixes room :: "'s \<Rightarrow> nat"
    and push :: "'q \<Rightarrow> ptr \<Rightarrow> (unit cresult \<times> 'q) option"
    and pop :: "'q \<Rightarrow> (ptr cresult \<times> 'q) option"
    and rep :: "nat \<Rightarrow> 'q \<Rightarrow> ptr list \<Rightarrow> bool"
  assumes alc_room: "inv s \<Longrightarrow> case room s of
        0 \<Rightarrow> fst (alc s) = Inl ENOMEM \<and> room (snd (alc s)) = 0
      | Suc n \<Rightarrow> (\<exists>a. fst (alc s) = Inr a) \<and> room (snd (alc s)) = n"
    and fre_room: "\<lbrakk>inv s; a \<in> live s\<rbrakk> \<Longrightarrow> room (fre s a) = Suc (room s)"
    and push_ok: "\<lbrakk>rep cap q as; a \<noteq> CPLUS_NULL; length as < cap\<rbrakk> \<Longrightarrow>
      \<exists>q'. push q a = Some (Inr (), q') \<and> rep cap q' (a # as)"
    and pop_ok: "rep cap q as \<Longrightarrow> \<exists>q'. pop q =
      Some (if as = [] then Inl ENOENT else Inr (last as), q') \<and> rep cap q' (butlast as)"
begin

text \<open>The elements of the queue are exactly the blocks in use.\<close>

definition queued :: "nat \<Rightarrow> 's \<Rightarrow> 'q \<Rightarrow> ptr list \<Rightarrow> bool" where
  "queued cap s q as \<longleftrightarrow> inv s \<and> rep cap q as \<and> distinct as \<and> set as = live s \<and>
     room s + length as = cap"

lemma enqueue:
  assumes "queued cap s q as" "length as < cap"
  obtains a s' q' where "alc s = (Inr a, s')" "push q a = Some (Inr (), q')" "a \<notin> set as"
    "queued cap s' q' (a # as)"
proof -
  have q: "inv s" "rep cap q as" "distinct as" "set as = live s" "room s + length as = cap"
    using assms(1) by (simp_all add: queued_def)
  obtain n where n: "room s = Suc n" using q(5) assms(2) by (cases "room s") simp_all
  obtain a s' where alloc: "alc s = (Inr a, s')" "room s' = n"
    using alc_room [OF q(1)] n by (cases "alc s") auto
  note a = alc_ok [OF q(1) alloc(1)] alc_inv [OF q(1) alloc(1)]
  obtain q' where push: "push q a = Some (Inr (), q')" "rep cap q' (a # as)"
    using push_ok [OF q(2) _ assms(2)] a by blast
  have "queued cap s' q' (a # as)"
    using a push(2) q n alloc(2) by (simp add: queued_def)
  then show ?thesis using alloc(1) push(1) a q(4) by (intro that) auto
qed

lemma enqueue_full:
  assumes "queued cap s q as" "length as = cap"
  obtains s' where "alc s = (Inl ENOMEM, s')" "queued cap s' q as"
proof -
  have q: "inv s" "set as = live s" "room s = 0"
    using assms by (simp_all add: queued_def)
  obtain s' where s': "alc s = (Inl ENOMEM, s')" "room s' = 0"
    using alc_room [OF q(1)] q(3) by (cases "alc s") auto
  with alc_fail [OF q(1) s'(1)] alc_inv [OF q(1) s'(1)] assms have "queued cap s' q as"
    by (simp add: queued_def)
  with s'(1) show ?thesis by (rule that)
qed

text \<open>Taking any element out of the queue and freeing its block.\<close>

lemma dequeue_block:
  assumes "queued cap s q as" "as = xs @ a # ys" "rep cap q' (xs @ ys)"
  shows "queued cap (fre s a) q' (xs @ ys)"
proof -
  have q: "inv s" "distinct as" "set as = live s" "room s + length as = cap"
    using assms(1) by (simp_all add: queued_def)
  have "a \<in> live s" using q(3) assms(2) by auto
  note laws = fre_inv [OF q(1) this] fre_live [OF q(1) this] fre_room [OF q(1) this]
  have "set (xs @ ys) = live s - {a}" using q(2,3) assms(2) by auto
  then show ?thesis using laws q assms(2,3) by (simp add: queued_def)
qed

lemma dequeue:
  assumes "queued cap s q as" "as \<noteq> []"
  obtains q' where "pop q = Some (Inr (last as), q')" "queued cap (fre s (last as)) q' (butlast as)"
proof -
  obtain q' where q': "pop q = Some (Inr (last as), q')" "rep cap q' (butlast as)"
    using pop_ok [of cap q as] assms by (auto simp: queued_def)
  have "queued cap (fre s (last as)) q' (butlast as @ [])"
    by (rule dequeue_block [OF assms(1)]) (use assms(2) q'(2) in simp_all)
  with q'(1) show ?thesis by (intro that) simp_all
qed

end

text \<open>The list and the memory pool of a task pool.\<close>

definition list_rep :: "nat \<Rightarrow> linked_list \<Rightarrow> ptr list \<Rightarrow> bool" where
  "list_rep cap L as \<longleftrightarrow> (\<exists>es. deque_rep cap L es \<and> as = map snd es)"

interpretation tasks: pooled_queue cplus_mempool_alloc mp_free live_blocks mp_ok
    "\<lambda>mp. length (free_blocks mp)" cplus_llist_push_front cplus_llist_pop_back list_rep
proof
  fix s :: mempool
  assume ok: "mp_ok s"
  show "case length (free_blocks s) of
        0 \<Rightarrow> fst (cplus_mempool_alloc s) = Inl ENOMEM \<and> length (free_blocks (snd (cplus_mempool_alloc s))) = 0
      | Suc n \<Rightarrow> (\<exists>a. fst (cplus_mempool_alloc s) = Inr a) \<and>
          length (free_blocks (snd (cplus_mempool_alloc s))) = n"
    using mempool_alloc_step [OF ok] by (cases "free_blocks s") (auto split: prod.splits)
  fix a
  assume "a \<in> live_blocks s"
  from mempool_free_step [OF ok this]
  show "length (free_blocks (mp_free s a)) = Suc (length (free_blocks s))" by (auto simp: mp_free_def split: prod.splits)
next
  fix cap q as and a :: ptr
  assume "list_rep cap q as" "a \<noteq> CPLUS_NULL" "length as < cap"
  then obtain es where es: "deque_rep cap q es" "as = map snd es" by (auto simp: list_rep_def)
  obtain L' es' where "llist_op (Push_front a) q = Some (Inr None, L')" "deque_rep cap L' es'"
      "map snd es' = a # as"
    using deque_step [OF es(1), of "Push_front a"] \<open>a \<noteq> CPLUS_NULL\<close> \<open>length as < cap\<close> es(2) by auto
  then obtain r :: "unit cresult" where "cplus_llist_push_front q a = Some (r, L')"
      "map_sum id (\<lambda>_. None :: ptr option) r = Inr None" and rep: "list_rep cap L' (a # as)"
    unfolding list_rep_def by fastforce
  then have "cplus_llist_push_front q a = Some (Inr (), L')" by (cases r) simp_all
  with rep show "\<exists>q'. cplus_llist_push_front q a = Some (Inr (), q') \<and> list_rep cap q' (a # as)"
    by blast
next
  fix cap q as
  assume "list_rep cap q as"
  then obtain es where es: "deque_rep cap q es" "as = map snd es" by (auto simp: list_rep_def)
  obtain L' es' where op: "llist_op Pop_back q = Some (fst (spec_op cap Pop_back as), L')"
      "deque_rep cap L' es'" "map snd es' = snd (spec_op cap Pop_back as)"
    using deque_step [OF es(1), of Pop_back] es(2) by auto
  have spec: "spec_op cap Pop_back as =
      (map_sum id Some (if as = [] then Inl ENOENT else Inr (last as)), butlast as)"
    by (cases as) simp_all
  obtain r where r: "cplus_llist_pop_back q = Some (r, L')"
      "map_sum id Some r = map_sum id Some (if as = [] then Inl ENOENT else Inr (last as))"
    using op(1) unfolding spec by auto
  have "r = (if as = [] then Inl ENOENT else Inr (last as))"
    using r(2) by (cases r) (simp_all split: if_splits)
  moreover have "list_rep cap L' (butlast as)"
    using op(2,3) unfolding spec list_rep_def by (metis snd_conv)
  ultimately show "\<exists>q'. cplus_llist_pop_back q = Some (if as = [] then Inl ENOENT else Inr (last as), q') \<and>
      list_rep cap q' (butlast as)"
    using r(1) by blast
qed

section \<open>The pool as a bounded queue of tasks\<close>

datatype pool_op = Add task_info | Work | Remove "task_info \<Rightarrow> int" | Clear

datatype pool_result = Added "unit cresult" | Ran "proc_call list" | Changed int

fun taskpool_op :: "pool_op \<Rightarrow> taskpool \<Rightarrow> (pool_result \<times> taskpool) option" where
  "taskpool_op (Add t) tp = map_option (map_prod Added id) (cplus_taskpool_add_task_ex tp (Some t))"
| "taskpool_op Work tp = map_option (map_prod Ran id) (task_worker tp)"
| "taskpool_op (Remove cmp) tp = map_option (map_prod Changed id) (cplus_taskpool_remove_task tp cmp)"
| "taskpool_op Clear tp = map_option (map_prod Changed id) (cplus_taskpool_clear_task tp)"

primrec taskpool_run :: "pool_op list \<Rightarrow> taskpool \<Rightarrow> (pool_result list \<times> taskpool) option" where
  "taskpool_run [] tp = Some ([], tp)"
| "taskpool_run (op # ops) tp = do {
     (r, tp1) \<leftarrow> taskpool_op op tp;
     (rs, tp2) \<leftarrow> taskpool_run ops tp1;
     Some (r # rs, tp2) }"

text \<open>
  The specification: the waiting tasks, the newest first, and the value of the semaphore.  A round
  of a worker runs the oldest task; removing does not take back what the semaphore counted.
\<close>

type_synonym pool_state = "task_info list \<times> nat"

fun spec_pool_op :: "nat \<Rightarrow> pool_op \<Rightarrow> pool_state \<Rightarrow> pool_result \<times> pool_state" where
  "spec_pool_op cap (Add t) (q, n) =
     (if length q < cap then (Added (Inr ()), t # q, if n < 32767 then n + 1 else n)
      else (Added (Inl ENOMEM), q, n))"
| "spec_pool_op cap Work (q, n) =
     (if n = 0 then (Ran [], q, n)
      else if q = [] then (Ran [], q, n - 1) else (Ran (task_calls (last q)), butlast q, n - 1))"
| "spec_pool_op cap (Remove cmp) (q, n) = (Changed CPLUS_SUCCESS,
     (case first_match (\<lambda>t. cmp t = 0) q of None \<Rightarrow> q | Some m \<Rightarrow> remove_at m q), n)"
| "spec_pool_op cap Clear (q, n) = (Changed CPLUS_SUCCESS, [], n)"

primrec spec_pool_run :: "nat \<Rightarrow> pool_op list \<Rightarrow> pool_state \<Rightarrow> pool_result list \<times> pool_state" where
  "spec_pool_run cap [] s = ([], s)"
| "spec_pool_run cap (op # ops) s =
     (case spec_pool_op cap op s of (r, s1) \<Rightarrow>
        (case spec_pool_run cap ops s1 of (rs, s2) \<Rightarrow> (r # rs, s2)))"

definition pool_rep :: "nat \<Rightarrow> taskpool \<Rightarrow> pool_state \<Rightarrow> bool" where
  "pool_rep cap tp s \<longleftrightarrow> \<not> tp_get_task_cycling tp \<and> cap \<le> 255 \<and> snd s = tp_remain tp \<and> snd s \<le> 32767 \<and>
     (\<exists>as. tasks.queued cap (tp_task_pool tp) (tp_task_list tp) as \<and> fst s = map (tp_tasks tp) as)"

lemma list_size: "list_rep cap L as \<Longrightarrow> unat (cplus_llist_get_size L) = length as"
proof -
  assume "list_rep cap L as"
  then obtain es where es: "deque_rep cap L es" "as = map snd es" by (auto simp: list_rep_def)
  then have "unat (ls_count L) = length es" by (elim deque_repD) (simp add: count_simps(1))
  with es(2) show ?thesis by (simp add: cplus_llist_get_size_def get_size_def)
qed

lemma list_rep_nonnull: "list_rep cap L as \<Longrightarrow> CPLUS_NULL \<notin> set as"
  by (auto simp: list_rep_def deque_rep_def dest!: lrepD(4))

lemma queued_size: "tasks.queued cap mp L as \<Longrightarrow> unat (cplus_llist_get_size L) = length as \<and> length as \<le> cap"
  by (auto simp: tasks.queued_def list_size)

lemma semaphore_push_one:
  "v \<le> 32767 \<Longrightarrow> snd (cplus_semaphore_push v 1) = (if v < 32767 then v + 1 else v)"
  by (auto simp: push_alone SEMAPHORE_MAX_VALUE_def)

lemma pool_add:
  assumes "pool_rep cap tp s"
  shows "\<exists>tp'. taskpool_op (Add t) tp = Some (fst (spec_pool_op cap (Add t) s), tp') \<and>
    pool_rep cap tp' (snd (spec_pool_op cap (Add t) s))"
proof -
  obtain q n where s: "s = (q, n)" by (cases s) auto
  obtain as where rep: "\<not> tp_get_task_cycling tp" "cap \<le> 255" "n = tp_remain tp" "n \<le> 32767"
      "tasks.queued cap (tp_task_pool tp) (tp_task_list tp) as" "q = map (tp_tasks tp) as"
    using assms by (auto simp: pool_rep_def s)
  note size = queued_size [OF rep(5)]
  show ?thesis
  proof (cases "length as < cap")
    case True
    obtain a mp L where step: "cplus_mempool_alloc (tp_task_pool tp) = (Inr a, mp)"
        "cplus_llist_push_front (tp_task_list tp) a = Some (Inr (), L)" "a \<notin> set as"
        "tasks.queued cap mp L (a # as)"
      by (rule tasks.enqueue [OF rep(5) True])
    have "cplus_llist_get_size (tp_task_list tp) < MAX_TASK_COUNT"
      using size True rep(2) by (simp add: MAX_TASK_COUNT_def word_less_nat_alt)
    moreover have "map ((tp_tasks tp)(a := t)) as = map (tp_tasks tp) as"
      using step(3) by (intro map_cong) auto
    ultimately show ?thesis
      using step rep True
      by (auto simp: s cplus_taskpool_add_task_ex_def Let_def semaphore_push_one pool_rep_def
        intro!: exI [of _ "a # as"])
  next
    case False
    then have full: "length as = cap" using size by simp
    obtain mp where mp: "cplus_mempool_alloc (tp_task_pool tp) = (Inl ENOMEM, mp)"
        "tasks.queued cap mp (tp_task_list tp) as"
      by (rule tasks.enqueue_full [OF rep(5) full])
    show ?thesis
      using mp rep False by (auto simp: s cplus_taskpool_add_task_ex_def pool_rep_def)
  qed
qed

lemma pool_work:
  assumes "pool_rep cap tp s"
  shows "\<exists>tp'. taskpool_op Work tp = Some (fst (spec_pool_op cap Work s), tp') \<and>
    pool_rep cap tp' (snd (spec_pool_op cap Work s))"
proof -
  obtain q n where s: "s = (q, n)" by (cases s) auto
  obtain as where rep: "\<not> tp_get_task_cycling tp" "cap \<le> 255" "n = tp_remain tp" "n \<le> 32767"
      "tasks.queued cap (tp_task_pool tp) (tp_task_list tp) as" "q = map (tp_tasks tp) as"
    using assms by (auto simp: pool_rep_def s)
  have some: "0 < cplus_llist_get_size (tp_task_list tp) \<longleftrightarrow> as \<noteq> []"
    using queued_size [OF rep(5)] by (simp add: u32_pos_iff)
  have differ: "CPLUS_FAIL \<noteq> CPLUS_SUCCESS" by (simp add: CPLUS_SUCCESS_def CPLUS_FAIL_def)
  show ?thesis
  proof (cases "0 < n \<and> as \<noteq> []")
    case True
    obtain L where step: "cplus_llist_pop_back (tp_task_list tp) = Some (Inr (last as), L)"
        "tasks.queued cap (mp_free (tp_task_pool tp) (last as)) L (butlast as)"
      using tasks.dequeue [OF rep(5) conjunct2 [OF True]] by blast
    show ?thesis
      using step rep True some
      by (auto simp: s task_worker_def cplus_semaphore_wait_poll_def Let_def mp_free_def pool_rep_def
        last_map map_butlast intro!: exI [of _ "butlast as"])
  next
    case False
    then show ?thesis
      using rep some differ
      by (auto simp: s task_worker_def cplus_semaphore_wait_poll_def Let_def pool_rep_def)
  qed
qed

lemma list_pop_if:
  assumes "list_rep cap L as"
  shows "\<exists>L'. case first_match (\<lambda>d. cmp d = 0) as of
      None \<Rightarrow> cplus_llist_pop_if L cmp = Some (Inl ENOENT, L') \<and> list_rep cap L' as
    | Some m \<Rightarrow> cplus_llist_pop_if L cmp = Some (Inr (as ! m), L') \<and> list_rep cap L' (remove_at m as)"
proof -
  obtain es where es: "deque_rep cap L es" "as = map snd es" using assms by (auto simp: list_rep_def)
  from es(1) obtain mp where R: "lrep L es" "synced L es" "cap < 2 ^ 30" "ls_pool L = Some mp" "mp_ok mp"
      "length (free_blocks mp) + length es = cap"
    by (rule deque_repD)
  obtain L' where L': "case first_match (\<lambda>d. cmp d = 0) (map snd es) of
      None \<Rightarrow> cplus_llist_pop_if L cmp = Some (Inl ENOENT, L') \<and> lrep L' es \<and>
        store_of L' = store_of L \<and> synced L' es
    | Some m \<Rightarrow> cplus_llist_pop_if L cmp = Some (Inr (map snd es ! m), L') \<and>
        lrep L' (remove_at m es) \<and> store_of L' = store_free (store_of L) (fst (es ! m)) \<and>
        synced L' (remove_at m es)"
    using pop_if_at [OF R(1)] by blast
  show ?thesis
  proof (cases "first_match (\<lambda>d. cmp d = 0) as")
    case None
    then have "deque_rep cap L' es" using L' R es(2) by (simp add: deque_rep_def store_of_def)
    then have "list_rep cap L' as" using es(2) by (auto simp: list_rep_def)
    then show ?thesis using None L' es(2) by (intro exI [of _ L']) simp
  next
    case (Some m)
    then have m: "m < length es" using es(2) by (simp add: first_match_Some)
    then have "fst (es ! m) \<in> store_live (store_of L)" using lrepD(10) [OF R(1)] by auto
    then obtain mp' where "store_free (store_of L) (fst (es ! m)) = (Some mp', ls_heap L)"
        "length (free_blocks mp') = Suc (length (free_blocks mp))"
      using store_free_pool [OF R(5,4)] by blast
    moreover have "Suc (length (remove_at m es)) = length es" using m by (simp add: remove_at_def)
    ultimately have "deque_rep cap L' (remove_at m es)"
      using Some L' R es(2) by (auto simp: deque_rep_def store_of_def)
    then have "list_rep cap L' (remove_at m as)" using es(2) by (auto simp: list_rep_def map_remove_at)
    then show ?thesis using Some L' es(2) by (intro exI [of _ L']) simp
  qed
qed

lemma first_match_map: "first_match P (map f xs) = first_match (\<lambda>x. P (f x)) xs"
  by (induction xs) simp_all

lemma queued_remove:
  assumes "tasks.queued cap mp L as" "m < length as" "list_rep cap L' (remove_at m as)"
  shows "tasks.queued cap (mp_free mp (as ! m)) L' (remove_at m as)"
  using tasks.dequeue_block [OF assms(1) id_take_nth_drop [OF assms(2)], of L'] assms(3)
  by (simp add: remove_at_def)

lemma pool_remove:
  assumes "pool_rep cap tp s"
  shows "\<exists>tp'. taskpool_op (Remove cmp) tp = Some (fst (spec_pool_op cap (Remove cmp) s), tp') \<and>
    pool_rep cap tp' (snd (spec_pool_op cap (Remove cmp) s))"
proof -
  obtain q n where s: "s = (q, n)" by (cases s) auto
  obtain as where rep: "\<not> tp_get_task_cycling tp" "cap \<le> 255" "n = tp_remain tp" "n \<le> 32767"
      "tasks.queued cap (tp_task_pool tp) (tp_task_list tp) as" "q = map (tp_tasks tp) as"
    using assms by (auto simp: pool_rep_def s)
  have lst: "list_rep cap (tp_task_list tp) as" using rep(5) by (simp add: tasks.queued_def)
  have some: "0 < cplus_llist_get_size (tp_task_list tp) \<longleftrightarrow> as \<noteq> []"
    using queued_size [OF rep(5)] by (simp add: u32_pos_iff)
  let ?cmp = "\<lambda>a. cmp (tp_tasks tp a)"
  have match: "first_match (\<lambda>t. cmp t = 0) q = first_match (\<lambda>a. ?cmp a = 0) as"
    by (simp add: rep(6) first_match_map)
  obtain L where L: "case first_match (\<lambda>a. ?cmp a = 0) as of
      None \<Rightarrow> cplus_llist_pop_if (tp_task_list tp) ?cmp = Some (Inl ENOENT, L) \<and> list_rep cap L as
    | Some m \<Rightarrow> cplus_llist_pop_if (tp_task_list tp) ?cmp = Some (Inr (as ! m), L) \<and>
        list_rep cap L (remove_at m as)"
    using list_pop_if [OF lst, of ?cmp] by blast
  show ?thesis
  proof (cases "first_match (\<lambda>a. ?cmp a = 0) as")
    case None
    then have "tasks.queued cap (tp_task_pool tp) L as"
      using L rep(5) by (simp add: tasks.queued_def)
    then show ?thesis
      using None L rep match some
      by (auto simp: s cplus_taskpool_remove_task_def pool_rep_def Let_def)
  next
    case (Some m)
    then have m: "m < length as" by (simp add: first_match_Some)
    then have "tasks.queued cap (mp_free (tp_task_pool tp) (as ! m)) L (remove_at m as)"
      using queued_remove [OF rep(5)] L Some by simp
    moreover have "as \<noteq> []" using m by auto
    ultimately show ?thesis
      using Some L rep match some
      by (auto simp: s cplus_taskpool_remove_task_def pool_rep_def Let_def mp_free_def map_remove_at
        intro!: exI [of _ "remove_at m as"])
  qed
qed

lemma clear_tasks_empties:
  "\<lbrakk>tasks.queued cap (tp_task_pool tp) (tp_task_list tp) as\<rbrakk> \<Longrightarrow>
     \<exists>mp L. clear_tasks tp = Some (tp\<lparr>tp_task_pool := mp, tp_task_list := L\<rparr>) \<and> tasks.queued cap mp L []"
proof (induction "length as" arbitrary: as tp)
  case 0
  then have "list_rep cap (tp_task_list tp) []" by (simp add: tasks.queued_def)
  then obtain L where "cplus_llist_pop_back (tp_task_list tp) = Some (Inl ENOENT, L)" "list_rep cap L []"
    using tasks.pop_ok [of cap "tp_task_list tp" "[]"] by auto
  with 0 show ?case
    by (subst clear_tasks.simps) (auto simp: tasks.queued_def Let_def intro!: exI [of _ "tp_task_pool tp"] exI [of _ L])
next
  case (Suc n)
  then have "as \<noteq> []" by auto
  then obtain L where step: "cplus_llist_pop_back (tp_task_list tp) = Some (Inr (last as), L)"
      "tasks.queued cap (mp_free (tp_task_pool tp) (last as)) L (butlast as)"
    using tasks.dequeue [OF Suc.prems] by blast
  let ?tp1 = "tp\<lparr>tp_task_list := L, tp_task_pool := mp_free (tp_task_pool tp) (last as)\<rparr>"
  have "n = length (butlast as)" using Suc.hyps(2) by simp
  moreover have "tasks.queued cap (tp_task_pool ?tp1) (tp_task_list ?tp1) (butlast as)" using step(2) by simp
  ultimately obtain mp L' where "clear_tasks ?tp1 = Some (?tp1\<lparr>tp_task_pool := mp, tp_task_list := L'\<rparr>)"
      "tasks.queued cap mp L' []"
    using Suc.hyps(1) by blast
  with step(1) show ?case
    by (subst clear_tasks.simps) (auto simp: Let_def mp_free_def intro!: exI [of _ mp] exI [of _ L'])
qed

lemma pool_clear:
  assumes "pool_rep cap tp s"
  shows "\<exists>tp'. taskpool_op Clear tp = Some (fst (spec_pool_op cap Clear s), tp') \<and>
    pool_rep cap tp' (snd (spec_pool_op cap Clear s))"
proof -
  obtain q n where s: "s = (q, n)" by (cases s) auto
  obtain as where rep: "\<not> tp_get_task_cycling tp" "cap \<le> 255" "n = tp_remain tp" "n \<le> 32767"
      "tasks.queued cap (tp_task_pool tp) (tp_task_list tp) as" "q = map (tp_tasks tp) as"
    using assms by (auto simp: pool_rep_def s)
  then show ?thesis
    using clear_tasks_empties [OF rep(5)]
    by (auto simp: s cplus_taskpool_clear_task_def pool_rep_def)
qed

lemma pool_step:
  "pool_rep cap tp s \<Longrightarrow> \<exists>tp'. taskpool_op op tp = Some (fst (spec_pool_op cap op s), tp') \<and>
    pool_rep cap tp' (snd (spec_pool_op cap op s))"
  by (cases op) (simp_all only: pool_add pool_work pool_remove pool_clear)

lemma pool_simulation:
  "pool_rep cap tp s \<Longrightarrow> \<exists>tp'. taskpool_run ops tp = Some (fst (spec_pool_run cap ops s), tp') \<and>
    pool_rep cap tp' (snd (spec_pool_run cap ops s))"
proof (induction ops arbitrary: tp s)
  case (Cons op ops)
  obtain tp1 where step: "taskpool_op op tp = Some (fst (spec_pool_op cap op s), tp1)"
      "pool_rep cap tp1 (snd (spec_pool_op cap op s))"
    using pool_step [OF Cons.prems] by blast
  from Cons.IH [OF step(2)] step(1) show ?case by (auto split: prod.splits)
qed simp

section \<open>Properties\<close>

lemma new_pool_rep:
  assumes new: "cplus_taskpool_new_ex False heap nodes obj1 obj2 mal1 mal2 mem1 mem2 cap = Inr tp"
    and mal: "\<And>m. mal1 m = CPLUS_NULL \<or> unat (mal1 m) + unat m \<le> 2 ^ 64"
      "\<And>m. mal2 m = CPLUS_NULL \<or> unat (mal2 m) + unat m \<le> 2 ^ 64"
    and nodes: "nodes CPLUS_NULL = None"
  shows "pool_rep (unat cap) tp ([], 0)"
proof -
  have cap: "0 < cap" "unat cap \<le> 255"
    using new by (auto simp: cplus_taskpool_new_ex_def MAX_TASK_COUNT_def word_le_nat_alt
      word_less_nat_alt not_less split: if_splits)
  obtain mp L h where made: "cplus_mempool_new obj1 mal1 mem1 cap 32 = Inr mp"
      "cplus_llist_prev_new heap nodes obj2 mal2 mem2 cap = (Inr L, h)"
      "tp_task_list tp = L" "tp_task_pool tp = mp" "\<not> tp_get_task_cycling tp" "tp_remain tp = 0"
    using new by (auto simp: cplus_taskpool_new_ex_def taskpool_initialize_object_def prod_eq_iff
      split: if_splits sum.splits)
  have "deque_rep (unat cap) L []" by (rule prev_new_deque_rep [OF made(2) cap(1) mal(2) nodes])
  then have "list_rep (unat cap) L []" by (auto simp: list_rep_def)
  moreover have "unat cap * unat (32 :: u32) < 2 ^ 32" using cap(2) by simp
  with mempool_new_ok [OF made(1) _ mal(1)] have "mp_ok mp" "length (free_blocks mp) = unat cap" "live_blocks mp = {}"
    by simp_all
  ultimately show ?thesis
    using made(3-6) cap(2) by (simp add: pool_rep_def tasks.queued_def)
qed

text \<open>C2.
  A task pool is a bounded first-in first-out queue: for every sequence of additions, worker rounds,
  removals and clearings on a new pool, every call returns and gives the result of the abstract queue:
  an addition fails with ENOMEM exactly when the queue holds \<open>max_task_count\<close> tasks, a round runs the
  procedure and the callback of the oldest task, a removal takes out the newest match, and no block
  of the list or the memory pool is lost.
\<close>

theorem taskpool_is_bounded_fifo:
  assumes "cplus_taskpool_new_ex False heap nodes obj1 obj2 mal1 mal2 mem1 mem2 cap = Inr tp"
    and "\<And>m. mal1 m = CPLUS_NULL \<or> unat (mal1 m) + unat m \<le> 2 ^ 64"
    and "\<And>m. mal2 m = CPLUS_NULL \<or> unat (mal2 m) + unat m \<le> 2 ^ 64"
    and "nodes CPLUS_NULL = None"
  shows "\<exists>tp'. taskpool_run ops tp = Some (fst (spec_pool_run (unat cap) ops ([], 0)), tp') \<and>
    unat (cplus_taskpool_get_task_count tp') = length (fst (snd (spec_pool_run (unat cap) ops ([], 0))))"
proof -
  have "pool_rep (unat cap) tp ([], 0)" using assms by (rule new_pool_rep)
  then obtain tp' where "taskpool_run ops tp = Some (fst (spec_pool_run (unat cap) ops ([], 0)), tp')"
      "pool_rep (unat cap) tp' (snd (spec_pool_run (unat cap) ops ([], 0)))"
    using pool_simulation by blast
  then show ?thesis
    using queued_size by (fastforce simp: pool_rep_def cplus_taskpool_get_task_count_def)
qed

definition example_task :: "ptr \<Rightarrow> task_info" where
  "example_task p = \<lparr>ti_proc = p, ti_param1 = 1, ti_param2 = 2, ti_callback = 0\<rparr>"

lemma example_calls:
  "task_calls (example_task 10) = [(10, 1, 2)]" "task_calls (example_task 11) = [(11, 1, 2)]"
  by (simp_all add: task_calls_def example_task_def)

lemma example_pool:
  "\<exists>tp. cplus_taskpool_new_ex False example_heap (\<lambda>_. None) 128 256 (\<lambda>_. 4096) (\<lambda>_. 8192) (\<lambda>_. 0) (\<lambda>_. 0) 2 = Inr tp"
  by (simp add: cplus_taskpool_new_ex_def taskpool_initialize_object_def MAX_TASK_COUNT_def
    cplus_llist_prev_new_def MAX_NODE_COUNT_def llist_initialize_object_def
    cplus_mgr_malloc_def example_heap_def cplus_mempool_new_def mempool_initialize_object_def
    word_less_nat_alt)

lemma example_mal: "(4096 :: ptr) = CPLUS_NULL \<or> unat (4096 :: ptr) + unat m \<le> 2 ^ 64"
  "(8192 :: ptr) = CPLUS_NULL \<or> unat (8192 :: ptr) + unat m \<le> 2 ^ 64" for m :: u32
  using unat_u32_bound [of m] by simp_all

theorem taskpool_is_bounded_fifo_witness:
  "\<exists>tp tp'. cplus_taskpool_new_ex False example_heap (\<lambda>_. None) 128 256 (\<lambda>_. 4096) (\<lambda>_. 8192) (\<lambda>_. 0) (\<lambda>_. 0) 2 = Inr tp \<and>
     taskpool_run [Add (example_task 10), Add (example_task 11), Add (example_task 12), Work, Work, Work] tp =
       Some ([Added (Inr ()), Added (Inr ()), Added (Inl ENOMEM), Ran [(10, 1, 2)], Ran [(11, 1, 2)], Ran []], tp')"
proof -
  obtain tp where tp: "cplus_taskpool_new_ex False example_heap (\<lambda>_. None) 128 256 (\<lambda>_. 4096) (\<lambda>_. 8192)
      (\<lambda>_. 0) (\<lambda>_. 0) 2 = Inr tp"
    using example_pool by blast
  from taskpool_is_bounded_fifo [OF tp example_mal, of "[Add (example_task 10), Add (example_task 11),
      Add (example_task 12), Work, Work, Work]"] tp
  show ?thesis by (auto simp: example_calls simp del: taskpool_run.simps)
qed

text \<open>Running what was added.\<close>

lemma spec_adds:
  "length q + length ts \<le> cap \<Longrightarrow> n + length ts \<le> 32767 \<Longrightarrow>
     spec_pool_run cap (map Add ts @ ops) (q, n) =
     (case spec_pool_run cap ops (rev ts @ q, n + length ts) of (rs, s) \<Rightarrow>
        (map (\<lambda>t. Added (Inr ())) ts @ rs, s))"
  by (induction ts arbitrary: q n) (auto split: prod.splits)

lemma spec_works:
  "spec_pool_run cap (replicate (length ts) Work) (rev ts, length ts + n) =
     (map (\<lambda>t. Ran (task_calls t)) ts, [], n)"
  by (induction ts) (simp_all add: last_rev butlast_append)

text \<open>
  The workers run every task once, in the order of the additions: after adding any tasks that fit to a
  new pool, as many worker rounds run exactly these tasks, the first added first, and leave no task and
  no count behind.
\<close>

theorem taskpool_runs_in_order:
  assumes "cplus_taskpool_new_ex False heap nodes obj1 obj2 mal1 mal2 mem1 mem2 cap = Inr tp"
    and "\<And>m. mal1 m = CPLUS_NULL \<or> unat (mal1 m) + unat m \<le> 2 ^ 64"
    and "\<And>m. mal2 m = CPLUS_NULL \<or> unat (mal2 m) + unat m \<le> 2 ^ 64"
    and "nodes CPLUS_NULL = None" "length ts \<le> unat cap"
  shows "\<exists>tp'. taskpool_run (map Add ts @ replicate (length ts) Work) tp =
      Some (map (\<lambda>t. Added (Inr ())) ts @ map (\<lambda>t. Ran (task_calls t)) ts, tp') \<and>
    cplus_taskpool_get_task_count tp' = 0 \<and> tp_remain tp' = 0"
proof -
  have rep: "pool_rep (unat cap) tp ([], 0)" using assms(1-4) by (rule new_pool_rep)
  then have "unat cap \<le> 255" by (simp add: pool_rep_def)
  then have run: "spec_pool_run (unat cap) (map Add ts @ replicate (length ts) Work) ([], 0) =
      (map (\<lambda>t. Added (Inr ())) ts @ map (\<lambda>t. Ran (task_calls t)) ts, [], 0)"
    using assms(5) spec_works [of "unat cap" ts 0] by (simp add: spec_adds)
  obtain tp' where tp': "taskpool_run (map Add ts @ replicate (length ts) Work) tp =
      Some (map (\<lambda>t. Added (Inr ())) ts @ map (\<lambda>t. Ran (task_calls t)) ts, tp')"
      "pool_rep (unat cap) tp' ([], 0)"
    using pool_simulation [OF rep, of "map Add ts @ replicate (length ts) Work"] by (auto simp: run)
  then have "unat (cplus_taskpool_get_task_count tp') = 0" "tp_remain tp' = 0"
    using queued_size by (fastforce simp: pool_rep_def cplus_taskpool_get_task_count_def)+
  with tp'(1) show ?thesis by (simp add: unat_eq_0)
qed

theorem taskpool_runs_in_order_witness:
  "\<exists>tp tp'. cplus_taskpool_new_ex False example_heap (\<lambda>_. None) 128 256 (\<lambda>_. 4096) (\<lambda>_. 8192) (\<lambda>_. 0) (\<lambda>_. 0) 2 = Inr tp \<and>
     taskpool_run [Add (example_task 10), Add (example_task 11), Work, Work] tp =
       Some ([Added (Inr ()), Added (Inr ()), Ran [(10, 1, 2)], Ran [(11, 1, 2)]], tp') \<and> tp_remain tp' = 0"
proof -
  obtain tp where tp: "cplus_taskpool_new_ex False example_heap (\<lambda>_. None) 128 256 (\<lambda>_. 4096) (\<lambda>_. 8192)
      (\<lambda>_. 0) (\<lambda>_. 0) 2 = Inr tp"
    using example_pool by blast
  from taskpool_runs_in_order [OF tp example_mal, of "[example_task 10, example_task 11]"] tp
  show ?thesis by (auto simp: example_calls simp del: taskpool_run.simps)
qed

text \<open>The semaphore counts at least the waiting tasks.\<close>

lemma spec_count:
  "length q \<le> n \<Longrightarrow> cap \<le> 255 \<Longrightarrow> case snd (spec_pool_run cap ops (q, n)) of (q', n') \<Rightarrow> length q' \<le> n'"
proof (induction ops arbitrary: q n)
  case (Cons op ops)
  obtain q1 n1 where step: "snd (spec_pool_op cap op (q, n)) = (q1, n1)"
    by (cases "snd (spec_pool_op cap op (q, n))") auto
  have "length (remove_at m q) \<le> length q" for m by (simp add: remove_at_def)
  then have "length q1 \<le> n1"
    using step Cons.prems
    by (cases op) (auto split: if_splits option.splits intro: order_trans)
  from Cons.IH [OF this Cons.prems(2)] step show ?case by (auto split: prod.splits)
qed simp

text \<open>C22.
  No task is stranded: after any sequence of operations on a new pool, the semaphore counts at least the
  waiting tasks, so that while one waits the next worker round fetches one.
\<close>

theorem taskpool_no_task_stranded:
  assumes "cplus_taskpool_new_ex False heap nodes obj1 obj2 mal1 mal2 mem1 mem2 cap = Inr tp"
    and "\<And>m. mal1 m = CPLUS_NULL \<or> unat (mal1 m) + unat m \<le> 2 ^ 64"
    and "\<And>m. mal2 m = CPLUS_NULL \<or> unat (mal2 m) + unat m \<le> 2 ^ 64"
    and "nodes CPLUS_NULL = None"
  shows "\<exists>rs tp'. taskpool_run ops tp = Some (rs, tp') \<and>
    unat (cplus_taskpool_get_task_count tp') \<le> tp_remain tp' \<and>
    (0 < cplus_taskpool_get_task_count tp' \<longrightarrow> (\<exists>calls tp''. task_worker tp' = Some (calls, tp'') \<and>
       unat (cplus_taskpool_get_task_count tp'') + 1 = unat (cplus_taskpool_get_task_count tp')))"
proof -
  let ?s = "snd (spec_pool_run (unat cap) ops ([], 0))"
  obtain q n where s: "?s = (q, n)" by (cases ?s) auto
  have rep: "pool_rep (unat cap) tp ([], 0)" using assms by (rule new_pool_rep)
  then have "unat cap \<le> 255" by (simp add: pool_rep_def)
  with spec_count [of "[]" 0 "unat cap" ops] s have le: "length q \<le> n" by simp
  obtain rs tp' where run: "taskpool_run ops tp = Some (rs, tp')" "pool_rep (unat cap) tp' (q, n)"
    using pool_simulation [OF rep, of ops] s by auto
  have count: "unat (cplus_taskpool_get_task_count u) = length x" if "pool_rep (unat cap) u (x, y)" for u x y
    using that queued_size by (fastforce simp: pool_rep_def cplus_taskpool_get_task_count_def)
  have remain: "tp_remain tp' = n" using run(2) by (simp add: pool_rep_def)
  have "\<exists>calls tp''. task_worker tp' = Some (calls, tp'') \<and>
       unat (cplus_taskpool_get_task_count tp'') + 1 = unat (cplus_taskpool_get_task_count tp')"
    if "0 < cplus_taskpool_get_task_count tp'"
  proof -
    have q: "q \<noteq> []" using that count [OF run(2)] by (auto simp: u32_pos_iff)
    moreover from q le have "0 < n" by (cases q) simp_all
    ultimately have q: "q \<noteq> []" "0 < n" by simp_all
    obtain tp'' where "taskpool_op Work tp' = Some (Ran (task_calls (last q)), tp'')"
        "pool_rep (unat cap) tp'' (butlast q, n - 1)"
      using pool_work [OF run(2)] q by auto
    then show ?thesis using count [OF run(2)] count [of tp''] q by auto
  qed
  then show ?thesis using run(1) count [OF run(2)] le remain by auto
qed

theorem taskpool_no_task_stranded_witness:
  "\<exists>tp rs tp' calls tp''.
     cplus_taskpool_new_ex False example_heap (\<lambda>_. None) 128 256 (\<lambda>_. 4096) (\<lambda>_. 8192) (\<lambda>_. 0) (\<lambda>_. 0) 2 = Inr tp \<and>
     taskpool_run [Add (example_task 10), Clear, Add (example_task 11)] tp = Some (rs, tp') \<and>
     unat (cplus_taskpool_get_task_count tp') = 1 \<and> task_worker tp' = Some (calls, tp'') \<and>
     unat (cplus_taskpool_get_task_count tp'') = 0"
proof -
  let ?ops = "[Add (example_task 10), Clear, Add (example_task 11)]"
  obtain tp where tp: "cplus_taskpool_new_ex False example_heap (\<lambda>_. None) 128 256 (\<lambda>_. 4096) (\<lambda>_. 8192)
      (\<lambda>_. 0) (\<lambda>_. 0) 2 = Inr tp"
    using example_pool by blast
  obtain rs tp' where run: "taskpool_run ?ops tp = Some (rs, tp')"
    and next_round: "0 < cplus_taskpool_get_task_count tp' \<longrightarrow> (\<exists>calls tp''. task_worker tp' = Some (calls, tp'') \<and>
       unat (cplus_taskpool_get_task_count tp'') + 1 = unat (cplus_taskpool_get_task_count tp'))"
    using taskpool_no_task_stranded [OF tp example_mal, of ?ops] by blast
  have "pool_rep (unat (2 :: u32)) tp ([], 0)" by (rule new_pool_rep [OF tp example_mal]) simp
  from pool_simulation [OF this, of ?ops] run
  have "pool_rep 2 tp' ([example_task 11], Suc (Suc 0))" by simp
  then have count: "unat (cplus_taskpool_get_task_count tp') = 1"
    using queued_size by (fastforce simp: pool_rep_def cplus_taskpool_get_task_count_def)
  then show ?thesis using tp run next_round by (auto simp: u32_pos_iff)
qed

end
