(* ===== verification/Workers.thy ===== *)
theory Workers
  imports Taskpool
begin

text \<open>
  The workers of a task pool (\<^verbatim>\<open>src/taskpool.c\<close>): tasks of \<^verbatim>\<open>src/task.c\<close> that run
  \<^verbatim>\<open>task_worker\<close> periodically.  Their records are blocks of a memory pool and the elements of a
  linked list, the newest in front, both with room for \<open>MAX_WORKER_COUNT\<close>.  Every operation is
  made under \<^verbatim>\<open>worker_access_sect\<close>.  Whether \<^verbatim>\<open>cplus_task_new_ex\<close> gives a task, and which,
  is an argument; what is done with the tasks is recorded in a log.
\<close>

section \<open>State\<close>

definition MAX_WORKER_COUNT :: u32 where "MAX_WORKER_COUNT = 32"

datatype worker_event = Started nat | Stopped nat | Paused nat bool

record workers =
  wk_list :: linked_list
  wk_pool :: mempool
  wk_executor :: "ptr \<Rightarrow> nat"
  wk_log :: "worker_event list"

definition logged :: "worker_event \<Rightarrow> workers \<Rightarrow> workers" where
  "logged e W = W\<lparr>wk_log := wk_log W @ [e]\<rparr>"

section \<open>Operations\<close>

text \<open>
  One turn of the loop that adds workers, for a task \<open>e\<close>: without a block the worker is the
  null pointer.
\<close>

definition add_worker :: "nat \<Rightarrow> workers \<Rightarrow> workers option" where
  "add_worker e W = (case cplus_mempool_alloc (wk_pool W) of (r, mp) \<Rightarrow>
     let worker = (case r of Inl err \<Rightarrow> CPLUS_NULL | Inr a \<Rightarrow> a);
         W1 = W\<lparr>wk_pool := mp,
           wk_executor := (if worker \<noteq> CPLUS_NULL then (wk_executor W)(worker := e) else wk_executor W)\<rparr>;
         W2 = logged (Started e) W1
     in do {
       (r2, L) \<leftarrow> cplus_llist_push_front (wk_list W2) worker;
       Some (W2\<lparr>wk_list := L\<rparr>) })"

text \<open>The outcomes of the constructions; the loop ends with the first that fails.\<close>

primrec add_workers :: "nat option list \<Rightarrow> workers \<Rightarrow> (bool \<times> workers) option" where
  "add_workers [] W = Some (True, W)"
| "add_workers (x # xs) W = (case x of
     None \<Rightarrow> Some (False, W)
   | Some e \<Rightarrow> do { W1 \<leftarrow> add_worker e W; add_workers xs W1 })"

text \<open>Taking the oldest worker out and stopping it; the flag says whether there was one.\<close>

definition stop_worker :: "workers \<Rightarrow> (bool \<times> workers) option" where
  "stop_worker W = do {
     (r, L) \<leftarrow> cplus_llist_pop_back (wk_list W);
     let W1 = W\<lparr>wk_list := L\<rparr>;
     Some (case r of
         Inl e \<Rightarrow> (False, W1)
       | Inr worker \<Rightarrow> if worker = CPLUS_NULL then (False, W1)
           else (True, (logged (Stopped (wk_executor W1 worker)) W1)
             \<lparr>wk_pool := snd (cplus_mempool_free (wk_pool W1) worker)\<rparr>)) }"

primrec stop_workers :: "nat \<Rightarrow> workers \<Rightarrow> workers option" where
  "stop_workers 0 W = Some W"
| "stop_workers (Suc n) W = do { (b, W1) \<leftarrow> stop_worker W; stop_workers n W1 }"

definition cplus_taskpool_get_worker_count :: "workers \<Rightarrow> u32" where
  "cplus_taskpool_get_worker_count W = cplus_llist_get_size (wk_list W)"

definition cplus_taskpool_reset_worker_count ::
    "(nat \<Rightarrow> nat option) \<Rightarrow> u32 \<Rightarrow> workers \<Rightarrow> (unit cresult \<times> workers) option" where
  "cplus_taskpool_reset_worker_count create worker_count W =
     (if MAX_WORKER_COUNT < worker_count then Some (Inl EINVAL, W)
      else do {
        let current = cplus_llist_get_size (wk_list W);
        W1 \<leftarrow> (if worker_count < current then stop_workers (unat (current - worker_count)) W
               else map_option snd (add_workers (map create [0..<unat (worker_count - current)]) W));
        Some (if cplus_llist_get_size (wk_list W1) = worker_count then Inr () else Inl ENONE, W1) })"

text \<open>\<^verbatim>\<open>CPLUS_LLIST_FOREACH\<close> from an index on; \<open>n\<close> is a bound on the rounds left.\<close>

primrec pause_from :: "nat \<Rightarrow> u32 \<Rightarrow> bool \<Rightarrow> workers \<Rightarrow> workers option" where
  "pause_from 0 i p W = None"
| "pause_from (Suc n) i p W =
     (if i < cplus_llist_get_size (wk_list W) then do {
        (r, L) \<leftarrow> cplus_llist_get_of (wk_list W) (sint i);
        let W1 = W\<lparr>wk_list := L\<rparr>;
        (case r of
           Inl e \<Rightarrow> Some W1
         | Inr worker \<Rightarrow> if worker = CPLUS_NULL then Some W1
             else pause_from n (i + 1) p (logged (Paused (wk_executor W1 worker) p) W1)) }
      else Some W)"

definition cplus_taskpool_all_pause :: "bool \<Rightarrow> workers \<Rightarrow> (unit cresult \<times> workers) option" where
  "cplus_taskpool_all_pause p W =
     map_option (Pair (Inr ())) (pause_from (unat (cplus_llist_get_size (wk_list W)) + 1) 0 p W)"

text \<open>The loop of the destructor over the workers, until the list gives no more.\<close>

partial_function (option) stop_all :: "workers \<Rightarrow> workers option" where
  "stop_all W = do {
     (b, W1) \<leftarrow> stop_worker W;
     if b then stop_all W1 else Some W1 }"

section \<open>Construction and deletion of a pool\<close>

text \<open>
  The parts of a pool in the order in which they are made.  \<open>cplus_taskpool_delete_ex\<close> stops
  the workers, frees the tasks, releases the parts that exist and gives their order.
\<close>

datatype pool_part = Task_sect | Tasks_pool | Tasks_list | Worker_sect | Worker_list | Worker_pool
  | Remain_sema | Pool_object

definition pool_parts :: "pool_part list" where
  "pool_parts = [Task_sect, Tasks_pool, Tasks_list, Worker_sect, Worker_list, Worker_pool, Remain_sema]"

definition delete_order :: "pool_part list" where
  "delete_order = [Worker_list, Worker_pool, Worker_sect, Tasks_list, Tasks_pool, Task_sect, Remain_sema]"

definition cplus_taskpool_delete_ex ::
    "pool_part set \<Rightarrow> workers \<Rightarrow> taskpool \<Rightarrow> (pool_part list \<times> workers \<times> taskpool) option" where
  "cplus_taskpool_delete_ex made W tp = do {
     W1 \<leftarrow> (if Worker_list \<in> made then stop_all W else Some W);
     tp1 \<leftarrow> (if Tasks_list \<in> made then clear_tasks tp else Some tp);
     Some (filter (\<lambda>p. p \<in> made) delete_order @ [Pool_object], W1, tp1) }"

definition cplus_taskpool_delete ::
    "pool_part set \<Rightarrow> workers \<Rightarrow> taskpool \<Rightarrow> (pool_part list \<times> workers \<times> taskpool) option" where
  "cplus_taskpool_delete = cplus_taskpool_delete_ex"

text \<open>
  The construction: the list and the pool of the workers, and then, when all the parts for
  which \<open>ok\<close> holds could be made, the workers; \<open>W\<close> and \<open>tp\<close> are the new, empty parts.
\<close>

definition new_workers ::
    "mheap \<Rightarrow> (ptr \<rightharpoonup> llist_node) \<Rightarrow> ptr \<Rightarrow> ptr \<Rightarrow> (u32 \<Rightarrow> ptr) \<Rightarrow> (u32 \<Rightarrow> ptr) \<Rightarrow> mem \<Rightarrow> mem \<Rightarrow> workers cresult" where
  "new_workers heap nodes obj1 obj2 mal1 mal2 mem1 mem2 =
     (case fst (cplus_llist_prev_new heap nodes obj2 mal2 mem2 MAX_WORKER_COUNT) of
        Inl e \<Rightarrow> Inl e
      | Inr L \<Rightarrow> (case cplus_mempool_new obj1 mal1 mem1 MAX_WORKER_COUNT 16 of
          Inl e \<Rightarrow> Inl e
        | Inr mp \<Rightarrow> Inr \<lparr>wk_list = L, wk_pool = mp, wk_executor = (\<lambda>a. 0), wk_log = []\<rparr>))"

definition start_pool ::
    "(pool_part \<Rightarrow> bool) \<Rightarrow> (nat \<Rightarrow> nat option) \<Rightarrow> u32 \<Rightarrow> workers \<Rightarrow> taskpool \<Rightarrow>
     ((pool_part list + unit) \<times> workers \<times> taskpool) option" where
  "start_pool ok create worker_count W tp =
     (let made = takeWhile ok pool_parts in
      if made \<noteq> pool_parts
      then map_option (map_prod Inl id) (cplus_taskpool_delete (set made) W tp)
      else do {
        (all, W1) \<leftarrow> add_workers (map create [0..<unat worker_count]) W;
        if all then Some (Inr (), W1, tp)
        else map_option (map_prod Inl id) (cplus_taskpool_delete (set made) W1 tp) })"

definition cplus_taskpool_new ::
    "(pool_part \<Rightarrow> bool) \<Rightarrow> (nat \<Rightarrow> nat option) \<Rightarrow> u32 \<Rightarrow> workers \<Rightarrow> taskpool \<Rightarrow>
     ((pool_part list + unit) cresult \<times> workers \<times> taskpool) option" where
  "cplus_taskpool_new ok create worker_count W tp =
     (if MAX_WORKER_COUNT < worker_count then Some (Inl EINVAL, W, tp)
      else map_option (map_prod Inr id) (start_pool ok create worker_count W tp))"

section \<open>What the workers are\<close>

definition workers_rep :: "workers \<Rightarrow> nat list \<Rightarrow> bool" where
  "workers_rep W es \<longleftrightarrow> (\<exists>as. tasks.queued 32 (wk_pool W) (wk_list W) as \<and> es = map (wk_executor W) as)"

lemma workers_size:
  assumes "workers_rep W es"
  shows "unat (cplus_llist_get_size (wk_list W)) = length es" "length es \<le> 32"
  using assms queued_size by (auto simp: workers_rep_def)

lemma add_worker_step:
  assumes "workers_rep W es" "length es < 32"
  shows "\<exists>W'. add_worker e W = Some W' \<and> workers_rep W' (e # es) \<and> wk_log W' = wk_log W @ [Started e]"
proof -
  obtain as where rep: "tasks.queued 32 (wk_pool W) (wk_list W) as" "es = map (wk_executor W) as"
    using assms(1) by (auto simp: workers_rep_def)
  have "length as < 32" using assms(2) rep(2) by simp
  then obtain a mp L where step: "cplus_mempool_alloc (wk_pool W) = (Inr a, mp)"
      "cplus_llist_push_front (wk_list W) a = Some (Inr (), L)" "a \<notin> set as" "tasks.queued 32 mp L (a # as)"
    by (rule tasks.enqueue [OF rep(1)])
  have "a \<noteq> CPLUS_NULL" using list_rep_nonnull [of 32 L "a # as"] step(4) by (auto simp: tasks.queued_def)
  moreover have "map ((wk_executor W)(a := e)) as = es" using step(3) rep(2) by (auto intro!: map_cong)
  ultimately show ?thesis
    using step by (auto simp: add_worker_def Let_def logged_def workers_rep_def intro!: exI [of _ "a # as"])
qed

lemma stop_worker_step:
  assumes "workers_rep W es"
  shows "if es = [] then \<exists>W'. stop_worker W = Some (False, W') \<and> workers_rep W' [] \<and> wk_log W' = wk_log W
    else \<exists>W'. stop_worker W = Some (True, W') \<and> workers_rep W' (butlast es) \<and>
      wk_log W' = wk_log W @ [Stopped (last es)]"
proof -
  obtain as where rep: "tasks.queued 32 (wk_pool W) (wk_list W) as" "es = map (wk_executor W) as"
    using assms(1) by (auto simp: workers_rep_def)
  show ?thesis
  proof (cases "as = []")
    case True
    obtain L where "cplus_llist_pop_back (wk_list W) = Some (Inl ENOENT, L)" "list_rep 32 L []"
      using tasks.pop_ok [of 32 "wk_list W" as] rep(1) True by (auto simp: tasks.queued_def)
    then show ?thesis
      using rep True by (auto simp: stop_worker_def workers_rep_def tasks.queued_def)
  next
    case False
    obtain L where step: "cplus_llist_pop_back (wk_list W) = Some (Inr (last as), L)"
        "tasks.queued 32 (mp_free (wk_pool W) (last as)) L (butlast as)"
      using tasks.dequeue [OF rep(1) False] by blast
    have "last as \<noteq> CPLUS_NULL"
      using rep(1) list_rep_nonnull [of 32 "wk_list W" as] False last_in_set [of as]
      by (auto simp: tasks.queued_def simp del: last_in_set)
    then show ?thesis
      using step rep(2) False
      by (auto simp: stop_worker_def Let_def logged_def workers_rep_def mp_free_def last_map map_butlast
          intro!: exI [of _ "butlast as"])
  qed
qed

lemma add_workers_step:
  assumes "workers_rep W es" "length es + length xs \<le> 32"
  shows "\<exists>W'. add_workers xs W = Some (None \<notin> set xs, W') \<and>
    workers_rep W' (rev (map the (takeWhile (\<lambda>x. x \<noteq> None) xs)) @ es) \<and>
    wk_log W' = wk_log W @ map (Started \<circ> the) (takeWhile (\<lambda>x. x \<noteq> None) xs)"
  using assms
proof (induction xs arbitrary: W es)
  case (Cons x xs)
  show ?case
  proof (cases x)
    case (Some e)
    have "length es < 32" using Cons.prems(2) by simp
    then obtain W1 where W1: "add_worker e W = Some W1" "workers_rep W1 (e # es)"
        "wk_log W1 = wk_log W @ [Started e]"
      using add_worker_step [OF Cons.prems(1)] by blast
    from Cons.IH [OF W1(2)] Cons.prems(2) W1 Some show ?thesis by auto
  qed (use Cons.prems in auto)
qed auto

lemma stop_workers_step:
  "\<lbrakk>workers_rep W es; n \<le> length es\<rbrakk> \<Longrightarrow> \<exists>W'. stop_workers n W = Some W' \<and>
     workers_rep W' (take (length es - n) es) \<and>
     wk_log W' = wk_log W @ map Stopped (rev (drop (length es - n) es))"
proof (induction n arbitrary: W es)
  case (Suc n)
  then have "es \<noteq> []" by auto
  then obtain W1 where W1: "stop_worker W = Some (True, W1)" "workers_rep W1 (butlast es)"
      "wk_log W1 = wk_log W @ [Stopped (last es)]"
    using stop_worker_step [OF Suc.prems(1)] by auto
  have "n \<le> length (butlast es)" using Suc.prems(2) by simp
  from Suc.IH [OF W1(2) this] obtain W' where W': "stop_workers n W1 = Some W'"
      "workers_rep W' (take (length es - Suc n) (butlast es))"
      "wk_log W' = wk_log W1 @ map Stopped (rev (drop (length es - Suc n) (butlast es)))"
    by auto
  have "take (length es - Suc n) (butlast es) = take (length es - Suc n) es"
    by (simp add: butlast_conv_take min_def)
  moreover have "drop (length es - Suc n) es = drop (length es - Suc n) (butlast es) @ [last es]"
  proof -
    have "drop (length es - Suc n) (butlast es @ [last es]) = drop (length es - Suc n) (butlast es) @ [last es]"
      by simp
    then show ?thesis using \<open>es \<noteq> []\<close> by simp
  qed
  ultimately show ?case using W1 W' by simp
qed simp

lemma stop_all_step:
  "workers_rep W es \<Longrightarrow> \<exists>W'. stop_all W = Some W' \<and> workers_rep W' [] \<and>
     wk_log W' = wk_log W @ map Stopped (rev es)"
proof (induction es arbitrary: W rule: rev_induct)
  case Nil
  then show ?case using stop_worker_step [OF Nil] by (auto simp: stop_all.simps)
next
  case (snoc e es)
  obtain W1 where W1: "stop_worker W = Some (True, W1)" "workers_rep W1 es" "wk_log W1 = wk_log W @ [Stopped e]"
    using stop_worker_step [OF snoc.prems] by auto
  from snoc.IH [OF W1(2)] W1 show ?case by (auto simp: stop_all.simps)
qed

section \<open>Walking over the workers\<close>

lemma sint_of_nat_small: "n < 2147483648 \<Longrightarrow> sint (of_nat n :: u32) = int n"
  by (simp add: sint_word_ariths sint_uint uint_nat signed_take_bit_int_eq_self)

text \<open>
  The walk may start by moving the cursor backwards; when it has come to its end the cursor
  is in step again.
\<close>

lemma pause_from_at:
  assumes "lrep (wk_list W) es" "cur_ok (wk_list W) es" "i \<le> length es" "length es - i < n" "length es \<le> 32"
  shows "\<exists>L'. pause_from n (of_nat i) p W = Some (W\<lparr>wk_list := L',
      wk_log := wk_log W @ map (\<lambda>e. Paused (wk_executor W (snd e)) p) (drop i es)\<rparr>) \<and>
    lrep L' es \<and> store_of L' = store_of (wk_list W) \<and>
    (i = length es \<and> synced (wk_list W) es \<or> i < length es \<and> (forward (ls_current (wk_list W)) \<and>
       ls_cur_index (wk_list W) \<le> int i \<or> ls_cur_index (wk_list W) < int i \<or> i + 1 < length es) \<longrightarrow> synced L' es)"
  using assms
proof (induction n arbitrary: i W)
  case (Suc n)
  have "unat (cplus_llist_get_size (wk_list W)) = length es"
    using Suc.prems(1) by (simp add: cplus_llist_get_size_def get_size_def count_simps(1))
  then have more: "(of_nat i :: u32) < cplus_llist_get_size (wk_list W) \<longleftrightarrow> i < length es"
    using Suc.prems(3,5) by (simp add: word_less_nat_alt)
  show ?case
  proof (cases "i < length es")
    case False
    then show ?thesis using Suc.prems more by (intro exI [of _ "wk_list W"]) simp
  next
    case True
    obtain L where L: "cplus_llist_get_of (wk_list W) (int i) = Some (Inr (snd (es ! i)), L)" "lrep L es"
        "cur_at L es i" "store_of L = store_of (wk_list W)"
        "forward (ls_current (wk_list W)) \<and> ls_cur_index (wk_list W) \<le> int i \<longrightarrow> synced L es"
        "ls_cur_index (wk_list W) < int i \<longrightarrow> synced L es"
      using llist_get_of_step [OF Suc.prems(1,2) True] by blast
    have idx: "sint (of_nat i :: u32) = int i" using True Suc.prems(5) by (intro sint_of_nat_small) simp
    have "snd (es ! i) \<noteq> CPLUS_NULL" using lrepD(4) [OF Suc.prems(1)] True by (metis image_eqI nth_mem)
    then have step: "pause_from (Suc n) (of_nat i) p W = pause_from n (of_nat (Suc i)) p
        (logged (Paused (wk_executor W (snd (es ! i))) p) (W\<lparr>wk_list := L\<rparr>))"
      using L(1) True more idx by (simp add: Let_def add.commute)
    let ?W = "logged (Paused (wk_executor W (snd (es ! i))) p) (W\<lparr>wk_list := L\<rparr>)"
    have W: "wk_list ?W = L" "wk_executor ?W = wk_executor W"
      "wk_log ?W = wk_log W @ [Paused (wk_executor W (snd (es ! i))) p]" by (simp_all add: logged_def)
    have "cur_ok L es" "ls_cur_index L = int i" using L(3) by (auto simp: cur_ok_def cur_at_def)
    moreover have "length es - Suc i < n" using True Suc.prems(4) by linarith
    ultimately obtain L' where
      L': "pause_from n (of_nat (Suc i)) p ?W = Some (?W\<lparr>wk_list := L',
        wk_log := wk_log ?W @ map (\<lambda>e. Paused (wk_executor W (snd e)) p) (drop (Suc i) es)\<rparr>)"
      "lrep L' es" "store_of L' = store_of L"
      "Suc i = length es \<and> synced L es \<or> Suc i < length es \<longrightarrow> synced L' es"
      using Suc.IH [of ?W "Suc i"] L(2) True Suc.prems(5) unfolding W by auto
    have "synced L' es" if "forward (ls_current (wk_list W)) \<and> ls_cur_index (wk_list W) \<le> int i \<or>
        ls_cur_index (wk_list W) < int i \<or> i + 1 < length es"
      using that L(5,6) L'(4) True by (cases "Suc i = length es") auto
    moreover have "drop i es = es ! i # drop (Suc i) es" using True by (rule Cons_nth_drop_Suc [symmetric])
    ultimately show ?thesis
      using step L' L(4) True by (intro exI [of _ L']) (auto simp: logged_def)
  qed
qed simp

lemma pause_all_step:
  assumes "workers_rep W es"
  shows "\<exists>W'. cplus_taskpool_all_pause p W = Some (Inr (), W') \<and> workers_rep W' es \<and>
    wk_log W' = wk_log W @ map (\<lambda>e. Paused e p) es"
proof -
  obtain as where rep: "tasks.queued 32 (wk_pool W) (wk_list W) as" "es = map (wk_executor W) as"
    using assms by (auto simp: workers_rep_def)
  then obtain xs where xs: "deque_rep 32 (wk_list W) xs" "as = map snd xs"
    by (auto simp: tasks.queued_def list_rep_def)
  from xs(1) obtain mp where D: "lrep (wk_list W) xs" "synced (wk_list W) xs" "cur_ok (wk_list W) xs"
      "ls_pool (wk_list W) = Some mp" "length xs \<le> 32"
    by (rule deque_repD) blast
  have size: "unat (cplus_llist_get_size (wk_list W)) = length xs"
    using D(1) by (simp add: cplus_llist_get_size_def get_size_def count_simps(1))
  obtain i where i: "cur_at (wk_list W) xs i" using D(3) by (auto simp: cur_ok_def)
  have start: "0 = length xs \<and> synced (wk_list W) xs \<or> 0 < length xs \<and> (forward (ls_current (wk_list W)) \<and>
      ls_cur_index (wk_list W) \<le> int 0 \<or> ls_cur_index (wk_list W) < int 0 \<or> 0 + 1 < length xs)"
    using D(2) i by (cases "length xs \<le> 1") (auto simp: synced_def cur_at_def)
  obtain L where L: "pause_from (length xs + 1) (of_nat 0) p W = Some (W\<lparr>wk_list := L,
      wk_log := wk_log W @ map (\<lambda>e. Paused (wk_executor W (snd e)) p) (drop 0 xs)\<rparr>)"
      "lrep L xs" "store_of L = store_of (wk_list W)" "synced L xs"
    using pause_from_at [OF D(1,3), of 0 "length xs + 1" p] D(5) start by auto
  have "deque_rep 32 L xs" using xs(1) L(2-4) by (simp add: deque_rep_def store_of_def)
  then have "list_rep 32 L as" using xs(2) by (auto simp: list_rep_def)
  then have "tasks.queued 32 (wk_pool W) L as" using rep(1) by (simp add: tasks.queued_def)
  then show ?thesis
    using L(1) size rep(2) xs(2)
    by (auto simp: cplus_taskpool_all_pause_def workers_rep_def simp del: pause_from.simps)
qed

section \<open>Properties\<close>

lemma new_workers_rep:
  assumes new: "new_workers heap nodes obj1 obj2 mal1 mal2 mem1 mem2 = Inr W"
    and mal: "\<And>m. mal1 m = CPLUS_NULL \<or> unat (mal1 m) + unat m \<le> 2 ^ 64"
      "\<And>m. mal2 m = CPLUS_NULL \<or> unat (mal2 m) + unat m \<le> 2 ^ 64"
    and nodes: "nodes CPLUS_NULL = None"
  shows "workers_rep W [] \<and> wk_log W = []"
proof -
  obtain mp L h where made: "cplus_mempool_new obj1 mal1 mem1 32 16 = Inr mp"
      "cplus_llist_prev_new heap nodes obj2 mal2 mem2 32 = (Inr L, h)"
      "W = \<lparr>wk_list = L, wk_pool = mp, wk_executor = (\<lambda>a. 0), wk_log = []\<rparr>"
    using new by (auto simp: new_workers_def MAX_WORKER_COUNT_def prod_eq_iff split: sum.splits)
  have "deque_rep (unat (32 :: u32)) L []" by (rule prev_new_deque_rep [OF made(2) _ mal(2) nodes]) simp
  then have "list_rep 32 L []" by (auto simp: list_rep_def)
  moreover have "unat (32 :: u32) * unat (16 :: u32) < 2 ^ 32" by simp
  with mempool_new_ok [OF made(1) _ mal(1)] have "mp_ok mp" "length (free_blocks mp) = 32" "live_blocks mp = {}"
    by simp_all
  ultimately show ?thesis using made(3) by (simp add: workers_rep_def tasks.queued_def)
qed

text \<open>What changing the number of workers does: the tasks started, the new workers, the events.\<close>

definition to_start :: "(nat \<Rightarrow> nat option) \<Rightarrow> u32 \<Rightarrow> nat list \<Rightarrow> nat list" where
  "to_start create n es = map the (takeWhile (\<lambda>x. x \<noteq> None) (map create [0..<unat n - length es]))"

definition new_crew :: "(nat \<Rightarrow> nat option) \<Rightarrow> u32 \<Rightarrow> nat list \<Rightarrow> nat list" where
  "new_crew create n es = (if 32 < n then es else if unat n < length es then take (unat n) es
     else rev (to_start create n es) @ es)"

definition crew_events :: "(nat \<Rightarrow> nat option) \<Rightarrow> u32 \<Rightarrow> nat list \<Rightarrow> worker_event list" where
  "crew_events create n es = (if 32 < n then [] else if unat n < length es
     then map Stopped (rev (drop (unat n) es)) else map Started (to_start create n es))"

lemma reset_fewer:
  assumes rep: "workers_rep W es" and n: "unat n < length es"
  shows "\<exists>W1. cplus_taskpool_reset_worker_count create n W = Some (Inr (), W1) \<and>
    workers_rep W1 (take (unat n) es) \<and> wk_log W1 = wk_log W @ map Stopped (rev (drop (unat n) es))"
proof -
  note size = workers_size [OF rep]
  have less: "n < cplus_llist_get_size (wk_list W)" "\<not> 32 < n"
    using n size by (simp_all add: word_less_nat_alt)
  then have diff: "unat (cplus_llist_get_size (wk_list W) - n) = length es - unat n"
    using size(1) n by (simp add: unat_sub_if_size)
  obtain W1 where W1: "stop_workers (length es - unat n) W = Some W1" "workers_rep W1 (take (unat n) es)"
      "wk_log W1 = wk_log W @ map Stopped (rev (drop (unat n) es))"
    using stop_workers_step [OF rep, of "length es - unat n"] n by auto
  have "cplus_llist_get_size (wk_list W1) = n"
    using workers_size(1) [OF W1(2)] n by (simp add: word_unat_eq_iff)
  then show ?thesis
    using W1 less diff by (simp add: cplus_taskpool_reset_worker_count_def MAX_WORKER_COUNT_def)
qed

lemma reset_more:
  assumes rep: "workers_rep W es" and n: "\<not> unat n < length es" "\<not> 32 < n"
  shows "\<exists>W1. cplus_taskpool_reset_worker_count create n W =
      Some (if length (to_start create n es) + length es = unat n then Inr () else Inl ENONE, W1) \<and>
    workers_rep W1 (rev (to_start create n es) @ es) \<and>
    wk_log W1 = wk_log W @ map Started (to_start create n es)"
proof -
  note size = workers_size [OF rep]
  have less: "\<not> n < cplus_llist_get_size (wk_list W)" "unat n \<le> 32"
    using n size by (simp_all add: word_less_nat_alt)
  then have diff: "unat (n - cplus_llist_get_size (wk_list W)) = unat n - length es"
    using size(1) n by (simp add: unat_sub_if_size word_less_nat_alt)
  obtain b W1 where W1: "add_workers (map create [0..<unat n - length es]) W = Some (b, W1)"
      "workers_rep W1 (rev (to_start create n es) @ es)"
      "wk_log W1 = wk_log W @ map Started (to_start create n es)"
    using add_workers_step [OF rep, of "map create [0..<unat n - length es]"] n(1) less(2)
    by (auto simp: to_start_def)
  have "cplus_llist_get_size (wk_list W1) = n \<longleftrightarrow> length (to_start create n es) + length es = unat n"
    using workers_size(1) [OF W1(2)] by (simp add: word_unat_eq_iff)
  then show ?thesis
    using W1 less(1) diff n(2) by (simp add: cplus_taskpool_reset_worker_count_def MAX_WORKER_COUNT_def)
qed

lemma reset_step:
  assumes rep: "workers_rep W es"
  shows "\<exists>W1. cplus_taskpool_reset_worker_count create n W =
      Some (if 32 < n then Inl EINVAL else if length (new_crew create n es) = unat n then Inr () else Inl ENONE, W1) \<and>
    workers_rep W1 (new_crew create n es) \<and> wk_log W1 = wk_log W @ crew_events create n es"
proof (cases "32 < n")
  case True
  then show ?thesis
    using rep by (simp add: cplus_taskpool_reset_worker_count_def MAX_WORKER_COUNT_def new_crew_def crew_events_def)
next
  case False
  then show ?thesis
    using reset_fewer [OF rep, of n create] reset_more [OF rep, of n create]
    by (cases "unat n < length es") (auto simp: new_crew_def crew_events_def)
qed

text \<open>
  C8.  Changing the number of workers: with fewer than before exactly the oldest ones are
  stopped, oldest first; with more, new ones are started in front until one cannot be made; the
  call succeeds exactly when the number asked for is reached, and refuses more than
  \<open>MAX_WORKER_COUNT\<close>.  Pausing then reaches every worker once, newest first, and leaves the
  list fit for further changes.
\<close>

theorem taskpool_workers_follow_count:
  assumes "workers_rep W es"
  shows "\<exists>W1 W2. cplus_taskpool_reset_worker_count create n W = Some (if 32 < n then Inl EINVAL
        else if length (new_crew create n es) = unat n then Inr () else Inl ENONE, W1) \<and>
      unat (cplus_taskpool_get_worker_count W1) = length (new_crew create n es) \<and>
      cplus_taskpool_all_pause p W1 = Some (Inr (), W2) \<and> workers_rep W2 (new_crew create n es) \<and>
      wk_log W2 = wk_log W @ crew_events create n es @ map (\<lambda>e. Paused e p) (new_crew create n es)"
proof -
  obtain W1 where W1: "cplus_taskpool_reset_worker_count create n W = Some (if 32 < n then Inl EINVAL
        else if length (new_crew create n es) = unat n then Inr () else Inl ENONE, W1)"
      "workers_rep W1 (new_crew create n es)" "wk_log W1 = wk_log W @ crew_events create n es"
    using reset_step [OF assms] by blast
  obtain W2 where W2: "cplus_taskpool_all_pause p W1 = Some (Inr (), W2)" "workers_rep W2 (new_crew create n es)"
      "wk_log W2 = wk_log W1 @ map (\<lambda>e. Paused e p) (new_crew create n es)"
    using pause_all_step [OF W1(2)] by blast
  show ?thesis
    using W1 W2 workers_size(1) [OF W1(2)]
    by (intro exI [of _ W1] exI [of _ W2]) (simp add: cplus_taskpool_get_worker_count_def)
qed

text \<open>Deleting whatever exists of a pool.\<close>

lemma pool_part_UNIV: "x = Pool_object \<or> x \<in> set delete_order"
  by (cases x) (simp_all add: delete_order_def)

lemma delete_step:
  assumes W: "workers_rep W es" "es = [] \<or> Worker_list \<in> made" and tp: "pool_rep cap tp s"
    and made: "Pool_object \<notin> made"
  shows "\<exists>parts W' tp'. cplus_taskpool_delete made W tp = Some (parts, W', tp') \<and> workers_rep W' [] \<and>
    wk_log W' = wk_log W @ map Stopped (rev es) \<and> distinct parts \<and> set parts = insert Pool_object made \<and>
    last parts = Pool_object"
proof -
  obtain tp1 where clear: "clear_tasks tp = Some tp1"
    using pool_step [OF tp, of Clear] by (auto simp: cplus_taskpool_clear_task_def)
  obtain W' where W': "(if Worker_list \<in> made then stop_all W else Some W) = Some W'" "workers_rep W' []"
      "wk_log W' = wk_log W @ map Stopped (rev es)"
    using stop_all_step [OF W(1)] W by (cases "Worker_list \<in> made") auto
  let ?parts = "filter (\<lambda>p. p \<in> made) delete_order @ [Pool_object]"
  have "distinct ?parts" using made by (auto simp: delete_order_def)
  moreover have "set ?parts = insert Pool_object made" using pool_part_UNIV by auto
  ultimately show ?thesis
    using W' clear
    by (intro exI [of _ ?parts] exI [of _ W'] exI [of _ "if Tasks_list \<in> made then tp1 else tp"])
      (simp add: cplus_taskpool_delete_def cplus_taskpool_delete_ex_def)
qed

lemma example_workers:
  "\<exists>W. new_workers example_heap (\<lambda>_. None) 128 256 (\<lambda>_. 4096) (\<lambda>_. 8192) (\<lambda>_. 0) (\<lambda>_. 0) = Inr W"
  by (simp add: new_workers_def MAX_WORKER_COUNT_def cplus_llist_prev_new_def MAX_NODE_COUNT_def
    llist_initialize_object_def cplus_mgr_malloc_def example_heap_def cplus_mempool_new_def
    mempool_initialize_object_def word_less_nat_alt)

theorem taskpool_workers_follow_count_witness:
  "\<exists>W W1 W2. new_workers example_heap (\<lambda>_. None) 128 256 (\<lambda>_. 4096) (\<lambda>_. 8192) (\<lambda>_. 0) (\<lambda>_. 0) = Inr W \<and>
     cplus_taskpool_reset_worker_count (\<lambda>i. Some (i + 7)) 2 W = Some (Inr (), W1) \<and>
     cplus_taskpool_all_pause True W1 = Some (Inr (), W2) \<and>
     wk_log W2 = [Started 7, Started 8, Paused 8 True, Paused 7 True]"
proof -
  obtain W where W: "new_workers example_heap (\<lambda>_. None) 128 256 (\<lambda>_. 4096) (\<lambda>_. 8192) (\<lambda>_. 0) (\<lambda>_. 0) = Inr W"
    using example_workers by blast
  note rep = new_workers_rep [OF W example_mal refl]
  have crew: "new_crew (\<lambda>i. Some (i + 7)) 2 [] = [8, 7]" "crew_events (\<lambda>i. Some (i + 7)) 2 [] = [Started 7, Started 8]"
    by (simp_all add: new_crew_def crew_events_def to_start_def upt_rec)
  from taskpool_workers_follow_count [of W "[]" "\<lambda>i. Some (i + 7)" 2 True] rep W show ?thesis
    by (auto simp: crew)
qed

lemma start_pool_step:
  assumes W: "workers_rep W []" "wk_log W = []" and tp: "pool_rep cap tp s" and n: "n \<le> 32"
  shows "\<exists>r W' tp'. start_pool ok create n W tp = Some (r, W', tp') \<and>
    (case r of
       Inl parts \<Rightarrow> (\<exists>es. wk_log W' = map Started es @ map Stopped es) \<and> workers_rep W' [] \<and>
         distinct parts \<and> set parts = insert Pool_object (set (takeWhile ok pool_parts)) \<and> last parts = Pool_object
     | Inr _ \<Rightarrow> takeWhile ok pool_parts = pool_parts \<and> (\<exists>es. length es = unat n \<and> workers_rep W' (rev es) \<and>
         wk_log W' = map Started es) \<and> tp' = tp)"
proof -
  have object: "Pool_object \<notin> set (takeWhile ok pool_parts)"
    by (auto simp: pool_parts_def dest!: set_takeWhileD)
  show ?thesis
  proof (cases "takeWhile ok pool_parts = pool_parts")
    case False
    obtain parts W' tp' where "cplus_taskpool_delete (set (takeWhile ok pool_parts)) W tp = Some (parts, W', tp')"
        "workers_rep W' []" "wk_log W' = wk_log W @ map Stopped (rev [])" "distinct parts"
        "set parts = insert Pool_object (set (takeWhile ok pool_parts))" "last parts = Pool_object"
      using delete_step [OF W(1) _ tp object] by auto
    then show ?thesis
      using False W(2) by (intro exI [of _ "Inl parts"] exI [of _ W'] exI [of _ tp']) (simp add: start_pool_def)
  next
    case True
    let ?xs = "map create [0..<unat n]" and ?es = "to_start create n []"
    have len: "length [] + length ?xs \<le> 32" using n by (simp add: word_le_nat_alt)
    obtain W1 where W1: "add_workers ?xs W = Some (None \<notin> set ?xs, W1)" "workers_rep W1 (rev ?es)"
        "wk_log W1 = map Started ?es"
      using add_workers_step [OF W(1) len] W(2) by (auto simp: to_start_def)
    show ?thesis
    proof (cases "None \<in> set ?xs")
      case False
      then have "takeWhile (\<lambda>x. x \<noteq> None) ?xs = ?xs" by (intro takeWhile_eq_all_conv [THEN iffD2] ballI notI) blast
      then have "length (map the (takeWhile (\<lambda>x. x \<noteq> None) ?xs)) = length ?xs" by (simp only: length_map)
      then have "length ?es = unat n" by (simp add: to_start_def)
      then show ?thesis
        using W1 True False by (intro exI [of _ "Inr ()"] exI [of _ W1] exI [of _ tp]) (auto simp: start_pool_def)
    next
      case fails: True
      have "Worker_list \<in> set pool_parts" by (simp add: pool_parts_def)
      then obtain parts W' tp' where D: "cplus_taskpool_delete (set pool_parts) W1 tp = Some (parts, W', tp')"
          "workers_rep W' []" "wk_log W' = wk_log W1 @ map Stopped (rev (rev ?es))" "distinct parts"
          "set parts = insert Pool_object (set pool_parts)" "last parts = Pool_object"
        using delete_step [OF W1(2) _ tp object] unfolding True by blast
      have "start_pool ok create n W tp = Some (Inl parts, W', tp')"
        using W1(1) fails D(1) unfolding start_pool_def True by simp
      moreover have "\<exists>es. wk_log W' = map Started es @ map Stopped es"
        using W1(3) D(3) by (intro exI [of _ ?es]) simp
      ultimately show ?thesis
        using D(2,4-6) unfolding True
        by (intro exI [of _ "Inl parts"] exI [of _ W'] exI [of _ tp'] conjI) simp_all
    qed
  qed
qed

text \<open>
  C9.  Construction and deletion: whichever part of a pool cannot be made, and however many of
  its workers can be started, a construction that fails stops every worker it has started,
  oldest first, and releases exactly the parts that were made, each once and the object last; a
  construction that succeeds has all the workers it was asked for.  More than
  \<open>MAX_WORKER_COUNT\<close> workers are refused before anything is made.
\<close>

theorem taskpool_construction_cleans_up:
  assumes W: "workers_rep W []" "wk_log W = []" and tp: "pool_rep cap tp s"
  shows "\<exists>r W' tp'. cplus_taskpool_new ok create n W tp = Some (r, W', tp') \<and>
    (case r of
       Inl e \<Rightarrow> 32 < n \<and> e = EINVAL \<and> W' = W \<and> tp' = tp
     | Inr (Inl parts) \<Rightarrow> (\<exists>es. wk_log W' = map Started es @ map Stopped es) \<and> workers_rep W' [] \<and>
         distinct parts \<and> set parts = insert Pool_object (set (takeWhile ok pool_parts)) \<and> last parts = Pool_object
     | Inr (Inr _) \<Rightarrow> takeWhile ok pool_parts = pool_parts \<and> (\<exists>es. length es = unat n \<and>
         workers_rep W' (rev es) \<and> wk_log W' = map Started es) \<and> tp' = tp)"
proof (cases "32 < n")
  case True
  then show ?thesis by (simp add: cplus_taskpool_new_def MAX_WORKER_COUNT_def)
next
  case False
  then obtain r W' tp' where r: "start_pool ok create n W tp = Some (r, W', tp')"
    "case r of
       Inl parts \<Rightarrow> (\<exists>es. wk_log W' = map Started es @ map Stopped es) \<and> workers_rep W' [] \<and>
         distinct parts \<and> set parts = insert Pool_object (set (takeWhile ok pool_parts)) \<and> last parts = Pool_object
     | Inr _ \<Rightarrow> takeWhile ok pool_parts = pool_parts \<and> (\<exists>es. length es = unat n \<and> workers_rep W' (rev es) \<and>
         wk_log W' = map Started es) \<and> tp' = tp"
    using start_pool_step [OF W tp, of n ok create] by (auto simp: not_less)
  show ?thesis
    using r False by (intro exI [of _ "Inr r"] exI [of _ W'] exI [of _ tp'])
      (simp add: cplus_taskpool_new_def MAX_WORKER_COUNT_def split: sum.splits)
qed

theorem taskpool_construction_cleans_up_witness:
  "\<exists>W tp r W' tp'. new_workers example_heap (\<lambda>_. None) 128 256 (\<lambda>_. 4096) (\<lambda>_. 8192) (\<lambda>_. 0) (\<lambda>_. 0) = Inr W \<and>
     cplus_taskpool_new_ex False example_heap (\<lambda>_. None) 128 256 (\<lambda>_. 4096) (\<lambda>_. 8192) (\<lambda>_. 0) (\<lambda>_. 0) 2 = Inr tp \<and>
     cplus_taskpool_new (\<lambda>p. p \<noteq> Worker_pool) (\<lambda>i. None) 2 W tp = Some (r, W', tp') \<and> workers_rep W' []"
proof -
  obtain W where W: "new_workers example_heap (\<lambda>_. None) 128 256 (\<lambda>_. 4096) (\<lambda>_. 8192) (\<lambda>_. 0) (\<lambda>_. 0) = Inr W"
    using example_workers by blast
  obtain tp where tp: "cplus_taskpool_new_ex False example_heap (\<lambda>_. None) 128 256 (\<lambda>_. 4096) (\<lambda>_. 8192)
      (\<lambda>_. 0) (\<lambda>_. 0) 2 = Inr tp"
    using example_pool by blast
  have rep: "workers_rep W []" "wk_log W = []" using new_workers_rep [OF W example_mal refl] by simp_all
  from taskpool_construction_cleans_up [OF rep new_pool_rep [OF tp example_mal refl],
      of "\<lambda>p. p \<noteq> Worker_pool" "\<lambda>i. None" 2]
  obtain r W' tp' where "cplus_taskpool_new (\<lambda>p. p \<noteq> Worker_pool) (\<lambda>i. None) 2 W tp = Some (r, W', tp')"
      "workers_rep W' []"
    by (elim exE conjE) (auto simp: pool_parts_def split: sum.splits)
  then show ?thesis using W tp by blast
qed

end
