(* ===== verification/File.thy ===== *)
theory File
  imports Clib Allocator
begin

text \<open>
  The files of \<^verbatim>\<open>src/file.c\<close> over the system calls of POSIX: names of files, their bytes, and
  the descriptors of the process with their positions.  What the system decides in one call -
  which system calls fail, how many bytes a transfer moves at most, how much memory is free,
  what a new block contains - is the argument \<open>file_env\<close>.  A file name is the text of a C
  string, without its terminator.
\<close>

section \<open>Files of the system\<close>

record file_desc =
  fd_inode :: nat
  fd_pos :: int
  fd_flags :: u32

text \<open>\<^verbatim>\<open>struct file\<close>; the two blocks it owns are given with their addresses.\<close>

record file_obj =
  fi_fd :: int
  fi_file_path :: "(ptr \<times> u8 list) option"
  fi_access :: u32
  fi_flag :: u32
  fi_mode :: u32
  fi_data_bufs_size :: u32
  fi_data_bufs :: "(ptr \<times> u8 list) option"

record fsystem =
  fs_names :: "u8 list \<rightharpoonup> nat"
  fs_bytes :: "nat \<Rightarrow> u8 list"
  fs_next :: nat
  fs_fds :: "(int \<times> file_desc) list"
  fs_heap :: mheap
  fs_objs :: "ptr \<rightharpoonup> file_obj"

datatype file_call = F_open | F_close | F_read | F_write | F_seek | F_truncate | F_unlink | F_sync

record file_env =
  fe_error :: "file_call \<Rightarrow> errno option"
  fe_most :: nat
  fe_free_ram :: "nat option"
  fe_junk :: "nat \<Rightarrow> u8"

definition O_ACCMODE :: u32 where "O_ACCMODE = 3"
definition O_RDONLY :: u32 where "O_RDONLY = 0"
definition O_WRONLY :: u32 where "O_WRONLY = 1"
definition O_RDWR :: u32 where "O_RDWR = 2"
definition O_CREAT :: u32 where "O_CREAT = 64"
definition O_EXCL :: u32 where "O_EXCL = 128"
definition O_TRUNC :: u32 where "O_TRUNC = 512"
definition O_APPEND :: u32 where "O_APPEND = 1024"

definition readable :: "u32 \<Rightarrow> bool" where "readable fl \<longleftrightarrow> fl AND O_ACCMODE \<noteq> O_WRONLY"
definition writable :: "u32 \<Rightarrow> bool" where "writable fl \<longleftrightarrow> fl AND O_ACCMODE \<noteq> O_RDONLY"

definition sys_open :: "file_env \<Rightarrow> u8 list \<Rightarrow> u32 \<Rightarrow> fsystem \<Rightarrow> int cresult \<times> fsystem" where
  "sys_open env path fl S = (case fe_error env F_open of Some e \<Rightarrow> (Inl e, S)
   | None \<Rightarrow> let fd = lowest_unused (map fst (fs_fds S)) in (case fs_names S path of
       None \<Rightarrow> if fl AND O_CREAT = 0 then (Inl ENOENT, S)
         else (Inr fd, S\<lparr>fs_names := (fs_names S)(path \<mapsto> fs_next S),
           fs_bytes := (fs_bytes S)(fs_next S := []), fs_next := fs_next S + 1,
           fs_fds := (fd, \<lparr>fd_inode = fs_next S, fd_pos = 0, fd_flags = fl\<rparr>) # fs_fds S\<rparr>)
     | Some i \<Rightarrow> if fl AND O_CREAT \<noteq> 0 \<and> fl AND O_EXCL \<noteq> 0 then (Inl EEXIST, S)
         else (Inr fd, S\<lparr>fs_bytes := (if fl AND O_TRUNC \<noteq> 0 \<and> writable fl then (fs_bytes S)(i := []) else fs_bytes S),
           fs_fds := (fd, \<lparr>fd_inode = i, fd_pos = 0, fd_flags = fl\<rparr>) # fs_fds S\<rparr>)))"

definition sys_close :: "file_env \<Rightarrow> int \<Rightarrow> fsystem \<Rightarrow> int \<times> fsystem" where
  "sys_close env fd S = (if fd \<notin> fst ` set (fs_fds S) then (-1, S)
     else (if fe_error env F_close = None then 0 else -1,
           S\<lparr>fs_fds := filter (\<lambda>e. fst e \<noteq> fd) (fs_fds S)\<rparr>))"

text \<open>\<^verbatim>\<open>lseek\<close>; the library keeps the 64-bit result in an \<^verbatim>\<open>int32_t\<close>.\<close>

datatype whence = SEEK_SET | SEEK_CUR | SEEK_END

definition to_int32 :: "int \<Rightarrow> int" where
  "to_int32 n = sint (word_of_int n :: u32)"

definition set_pos :: "int \<Rightarrow> int \<Rightarrow> fsystem \<Rightarrow> fsystem" where
  "set_pos fd p S = S\<lparr>fs_fds := map (\<lambda>(d, f). (d, if d = fd then f\<lparr>fd_pos := p\<rparr> else f)) (fs_fds S)\<rparr>"

definition sys_lseek :: "file_env \<Rightarrow> int \<Rightarrow> int \<Rightarrow> whence \<Rightarrow> fsystem \<Rightarrow> int \<times> fsystem" where
  "sys_lseek env fd off w S = (case map_of (fs_fds S) fd of None \<Rightarrow> (-1, S)
   | Some f \<Rightarrow> if fe_error env F_seek \<noteq> None then (-1, S)
     else let p = off + (case w of SEEK_SET \<Rightarrow> 0 | SEEK_CUR \<Rightarrow> fd_pos f
                         | SEEK_END \<Rightarrow> int (length (fs_bytes S (fd_inode f))))
       in if p < 0 then (-1, S) else (to_int32 p, set_pos fd p S))"

text \<open>A transfer moves at most \<open>fe_most\<close> bytes, and never more than Linux allows.\<close>

definition transfer :: "file_env \<Rightarrow> u32 \<Rightarrow> nat" where
  "transfer env n = min (min (unat n) (fe_most env)) 2147479552"

definition sys_read :: "file_env \<Rightarrow> int \<Rightarrow> u8 list \<Rightarrow> u32 \<Rightarrow> fsystem \<Rightarrow> (int \<times> u8 list \<times> fsystem) exec" where
  "sys_read env fd obj n S = (case map_of (fs_fds S) fd of None \<Rightarrow> Inr (-1, obj, S)
   | Some f \<Rightarrow> if \<not> readable (fd_flags f) \<or> fe_error env F_read \<noteq> None then Inr (-1, obj, S)
     else let bs = take (transfer env n) (drop (nat (fd_pos f)) (fs_bytes S (fd_inode f)))
       in exec_bind (write_obj bs obj) (\<lambda>obj'.
         Inr (int (length bs), obj', set_pos fd (fd_pos f + int (length bs)) S)))"

definition put_at :: "nat \<Rightarrow> u8 list \<Rightarrow> u8 list \<Rightarrow> u8 list" where
  "put_at p bs old = take p old @ replicate (p - length old) 0 @ bs @ drop (p + length bs) old"

definition sys_write :: "file_env \<Rightarrow> int \<Rightarrow> u8 list \<Rightarrow> u32 \<Rightarrow> fsystem \<Rightarrow> (int \<times> fsystem) exec" where
  "sys_write env fd obj n S = (case map_of (fs_fds S) fd of None \<Rightarrow> Inr (-1, S)
   | Some f \<Rightarrow> if \<not> writable (fd_flags f) \<or> fe_error env F_write \<noteq> None then Inr (-1, S)
     else exec_bind (read_obj (transfer env n) obj) (\<lambda>bs.
       let old = fs_bytes S (fd_inode f);
           p = (if fd_flags f AND O_APPEND \<noteq> 0 then length old else nat (fd_pos f))
       in Inr (int (length bs), set_pos fd (int (p + length bs))
           (S\<lparr>fs_bytes := (fs_bytes S)(fd_inode f := put_at p bs old)\<rparr>))))"

definition sys_ftruncate :: "file_env \<Rightarrow> int \<Rightarrow> u32 \<Rightarrow> fsystem \<Rightarrow> int \<times> fsystem" where
  "sys_ftruncate env fd n S = (case map_of (fs_fds S) fd of None \<Rightarrow> (-1, S)
   | Some f \<Rightarrow> if \<not> writable (fd_flags f) \<or> fe_error env F_truncate \<noteq> None then (-1, S)
     else let old = fs_bytes S (fd_inode f)
       in (0, S\<lparr>fs_bytes := (fs_bytes S)(fd_inode f := take (unat n) old @ replicate (unat n - length old) 0)\<rparr>))"

definition sys_unlink :: "file_env \<Rightarrow> u8 list \<Rightarrow> fsystem \<Rightarrow> int \<times> fsystem" where
  "sys_unlink env path S = (if fs_names S path = None \<or> fe_error env F_unlink \<noteq> None then (-1, S)
     else (0, S\<lparr>fs_names := (fs_names S)(path := None)\<rparr>))"

section \<open>File objects\<close>

definition get_file :: "fsystem \<Rightarrow> ptr \<Rightarrow> file_obj exec" where
  "get_file S a = (case fs_objs S a of None \<Rightarrow> Inl Assert_fail | Some f \<Rightarrow> Inr f)"

definition is_exist :: "fsystem \<Rightarrow> u8 list \<Rightarrow> bool" where
  "is_exist S path \<longleftrightarrow> fs_names S path \<noteq> None"

definition file_get_size :: "file_env \<Rightarrow> file_obj \<Rightarrow> fsystem \<Rightarrow> int \<times> fsystem" where
  "file_get_size env f S = (case sys_lseek env (fi_fd f) 0 SEEK_CUR S of (pos, S1) \<Rightarrow>
     if pos \<noteq> -1 then
       (case sys_lseek env (fi_fd f) 0 SEEK_END S1 of (n, S2) \<Rightarrow>
         (n, snd (sys_lseek env (fi_fd f) pos SEEK_SET S2)))
     else (0, S1))"

definition reset_pos :: "file_env \<Rightarrow> file_obj \<Rightarrow> fsystem \<Rightarrow> int \<times> fsystem" where
  "reset_pos env f S = sys_lseek env (fi_fd f) 0 SEEK_SET S"

definition is_enough :: "file_env \<Rightarrow> u32 \<Rightarrow> bool" where
  "is_enough env n = (case fe_free_ram env of None \<Rightarrow> False | Some r \<Rightarrow> unat n < r)"

definition free_block :: "(ptr \<times> u8 list) option \<Rightarrow> mheap \<Rightarrow> mheap" where
  "free_block b h = (case b of None \<Rightarrow> h | Some (a, bs) \<Rightarrow> cplus_mgr_free h a)"

definition cplus_file_delete :: "file_env \<Rightarrow> ptr \<Rightarrow> fsystem \<Rightarrow> (int \<times> fsystem) exec" where
  "cplus_file_delete env a S = exec_bind (get_file S a) (\<lambda>f.
     case sys_close env (fi_fd f) S of (res, S1) \<Rightarrow>
       if res = 0 then Inr (res, S1\<lparr>fs_heap := cplus_mgr_free (free_block (fi_data_bufs f)
           (free_block (fi_file_path f) (fs_heap S1))) a, fs_objs := (fs_objs S1)(a := None)\<rparr>)
       else Inr (res, S1))"

text \<open>A failed allocation of the path leaves the object without one.\<close>

definition file_initialize_object ::
    "file_env \<Rightarrow> u8 list \<Rightarrow> u32 \<Rightarrow> u32 \<Rightarrow> u32 \<Rightarrow> fsystem \<Rightarrow> (ptr \<times> fsystem) exec" where
  "file_initialize_object env path acc flag mode S = (case cplus_mgr_malloc (fs_heap S) of
     (Inl e, h) \<Rightarrow> Inr (CPLUS_NULL, S\<lparr>fs_heap := h\<rparr>)
   | (Inr a, h) \<Rightarrow>
       (case sys_open env path (acc OR flag) (S\<lparr>fs_heap := h\<rparr>) of
          (r, S1) \<Rightarrow> let f = \<lparr>fi_fd = (case r of Inl e \<Rightarrow> INVALID_FD | Inr fd \<Rightarrow> fd), fi_file_path = None,
              fi_access = acc, fi_flag = flag, fi_mode = mode, fi_data_bufs_size = 0, fi_data_bufs = None\<rparr>;
            S2 = S1\<lparr>fs_objs := (fs_objs S1)(a \<mapsto> f)\<rparr>
          in if fi_fd f = INVALID_FD then exec_bind (cplus_file_delete env a S2) (\<lambda>(res, S3). Inr (CPLUS_NULL, S3))
            else (case cplus_mgr_malloc (fs_heap S2) of
                (Inl e, h2) \<Rightarrow> Inr (a, S2\<lparr>fs_heap := h2\<rparr>)
              | (Inr b, h2) \<Rightarrow> Inr (a, S2\<lparr>fs_heap := h2,
                  fs_objs := (fs_objs S2)(a \<mapsto> f\<lparr>fi_file_path := Some (b, path)\<rparr>)\<rparr>))))"

definition cplus_file_new_ex :: "file_env \<Rightarrow> u8 list \<Rightarrow> u32 \<Rightarrow> u32 \<Rightarrow> u32 \<Rightarrow> fsystem \<Rightarrow> (ptr \<times> fsystem) exec" where
  "cplus_file_new_ex env path acc flag mode S = file_initialize_object env path acc flag mode S"

definition CPLUS_FILE_MODE_ALL :: u32 where "CPLUS_FILE_MODE_ALL = 511"

definition cplus_file_new :: "file_env \<Rightarrow> u8 list \<Rightarrow> u32 \<Rightarrow> fsystem \<Rightarrow> (ptr \<times> fsystem) exec" where
  "cplus_file_new env path acc S = file_initialize_object env path acc O_CREAT CPLUS_FILE_MODE_ALL S"

definition cplus_file_open :: "file_env \<Rightarrow> ptr \<Rightarrow> fsystem \<Rightarrow> (int \<times> fsystem) exec" where
  "cplus_file_open env a S = exec_bind (get_file S a) (\<lambda>f.
     if fi_fd f = INVALID_FD then (case fi_file_path f of
         None \<Rightarrow> Inr (CPLUS_FAIL, S)
       | Some (b, path) \<Rightarrow>
           (let flag = (if is_exist S path then fi_flag f else fi_flag f OR O_CREAT) in
            case sys_open env path (fi_access f OR flag) S of
              (Inl e, S1) \<Rightarrow> Inr (CPLUS_FAIL, S1)
            | (Inr fd, S1) \<Rightarrow> Inr (CPLUS_SUCCESS, S1\<lparr>fs_objs := (fs_objs S1)(a \<mapsto> f\<lparr>fi_fd := fd\<rparr>)\<rparr>)))
     else Inr (CPLUS_FAIL, S))"

definition cplus_file_close :: "file_env \<Rightarrow> ptr \<Rightarrow> fsystem \<Rightarrow> (int \<times> fsystem) exec" where
  "cplus_file_close env a S = exec_bind (get_file S a) (\<lambda>f.
     case sys_close env (fi_fd f) S of (res, S1) \<Rightarrow>
       Inr (res, if res = 0 then S1\<lparr>fs_objs := (fs_objs S1)(a \<mapsto> f\<lparr>fi_fd := INVALID_FD\<rparr>)\<rparr> else S1))"

definition cplus_file_remove :: "file_env \<Rightarrow> u8 list option \<Rightarrow> fsystem \<Rightarrow> int \<times> fsystem" where
  "cplus_file_remove env p S = (case p of None \<Rightarrow> (CPLUS_FAIL, S)
     | Some path \<Rightarrow> if is_exist S path then
         (case sys_unlink env path S of (r, S1) \<Rightarrow> (if r = 0 then CPLUS_SUCCESS else CPLUS_FAIL, S1))
       else (CPLUS_FAIL, S))"

text \<open>The buffers of the caller: \<open>cplus_file_read\<close> gives its new contents.\<close>

definition cplus_file_read :: "file_env \<Rightarrow> ptr \<Rightarrow> u32 \<Rightarrow> buf \<Rightarrow> fsystem \<Rightarrow> (int \<times> buf \<times> fsystem) exec" where
  "cplus_file_read env a n buffer S = exec_bind (get_file S a) (\<lambda>f. case buffer of
     None \<Rightarrow> Inr (CPLUS_FAIL, None, S)
   | Some obj \<Rightarrow> if n = 0 then Inr (CPLUS_FAIL, Some obj, S)
       else exec_bind (sys_read env (fi_fd f) obj n S) (\<lambda>(r, obj', S1). Inr (r, Some obj', S1)))"

definition cplus_file_write :: "file_env \<Rightarrow> ptr \<Rightarrow> u32 \<Rightarrow> buf \<Rightarrow> fsystem \<Rightarrow> (int \<times> fsystem) exec" where
  "cplus_file_write env a n buffer S = exec_bind (get_file S a) (\<lambda>f. case buffer of
     None \<Rightarrow> Inr (CPLUS_FAIL, S)
   | Some obj \<Rightarrow> if n = 0 then Inr (CPLUS_FAIL, S) else sys_write env (fi_fd f) obj n S)"

definition cplus_file_sync :: "file_env \<Rightarrow> ptr \<Rightarrow> fsystem \<Rightarrow> int exec" where
  "cplus_file_sync env a S = exec_bind (get_file S a) (\<lambda>f.
     Inr (if fi_fd f \<in> fst ` set (fs_fds S) \<and> fe_error env F_sync = None then 0 else -1))"

definition cplus_file_resize :: "file_env \<Rightarrow> ptr \<Rightarrow> u32 \<Rightarrow> fsystem \<Rightarrow> (int \<times> fsystem) exec" where
  "cplus_file_resize env a n S = exec_bind (get_file S a) (\<lambda>f.
     if n = 0 then Inr (CPLUS_FAIL, S) else Inr (sys_ftruncate env (fi_fd f) n S))"

definition cplus_file_move_pos :: "file_env \<Rightarrow> ptr \<Rightarrow> whence \<Rightarrow> int \<Rightarrow> fsystem \<Rightarrow> (int \<times> fsystem) exec" where
  "cplus_file_move_pos env a w off S = exec_bind (get_file S a) (\<lambda>f. Inr (sys_lseek env (fi_fd f) off w S))"

definition cplus_file_get_cur_pos :: "file_env \<Rightarrow> ptr \<Rightarrow> fsystem \<Rightarrow> (int \<times> fsystem) exec" where
  "cplus_file_get_cur_pos env a S = exec_bind (get_file S a) (\<lambda>f. Inr (sys_lseek env (fi_fd f) 0 SEEK_CUR S))"

definition cplus_file_reset_pos :: "file_env \<Rightarrow> ptr \<Rightarrow> fsystem \<Rightarrow> (int \<times> fsystem) exec" where
  "cplus_file_reset_pos env a S = exec_bind (get_file S a) (\<lambda>f. Inr (reset_pos env f S))"

definition cplus_file_get_data_size :: "file_env \<Rightarrow> ptr \<Rightarrow> fsystem \<Rightarrow> (int \<times> fsystem) exec" where
  "cplus_file_get_data_size env a S = exec_bind (get_file S a) (\<lambda>f. Inr (file_get_size env f S))"

text \<open>
  All the bytes of the file in a new block, which the object owns; a block from an earlier call
  is forgotten first.
\<close>

definition load_data :: "file_env \<Rightarrow> ptr \<Rightarrow> file_obj \<Rightarrow> u32 \<Rightarrow> fsystem \<Rightarrow> (ptr \<times> fsystem) exec" where
  "load_data env a f n S = (case cplus_mgr_malloc (fs_heap S) of
     (Inl e, h) \<Rightarrow> Inr (CPLUS_NULL, S\<lparr>fs_heap := h\<rparr>)
   | (Inr b, h) \<Rightarrow>
       (let S1 = S\<lparr>fs_heap := h\<rparr>; new = map (fe_junk env) [0..<unat n] in
        case sys_lseek env (fi_fd f) 0 SEEK_CUR S1 of (pos, S2) \<Rightarrow>
          exec_bind (if pos \<noteq> -1 then
              exec_bind (sys_read env (fi_fd f) new n (snd (sys_lseek env (fi_fd f) 0 SEEK_SET S2))) (\<lambda>(r, bs, S3).
                Inr (bs, snd (sys_lseek env (fi_fd f) pos SEEK_SET S3)))
            else Inr (new, S2)) (\<lambda>(bs, S3).
          Inr (b, S3\<lparr>fs_objs := (fs_objs S3)(a \<mapsto> f\<lparr>fi_data_bufs_size := n, fi_data_bufs := Some (b, bs)\<rparr>)\<rparr>))))"

definition cplus_file_get_data :: "file_env \<Rightarrow> ptr \<Rightarrow> fsystem \<Rightarrow> (ptr \<times> fsystem) exec" where
  "cplus_file_get_data env a S = exec_bind (get_file S a) (\<lambda>f0.
     let f = f0\<lparr>fi_data_bufs := None\<rparr> in
     case file_get_size env f (S\<lparr>fs_objs := (fs_objs S)(a \<mapsto> f)\<rparr>) of (n, S1) \<Rightarrow>
       if 0 < n then
         (let f1 = f\<lparr>fi_data_bufs_size := word_of_int n\<rparr>; S2 = S1\<lparr>fs_objs := (fs_objs S1)(a \<mapsto> f1)\<rparr> in
          if \<not> is_enough env (word_of_int n) then Inr (CPLUS_NULL, S2)
          else load_data env a f1 (word_of_int n) S2)
       else Inr (CPLUS_NULL, S1))"

definition cplus_file_get_file_path :: "fsystem \<Rightarrow> ptr \<Rightarrow> (ptr \<times> u8 list) option exec" where
  "cplus_file_get_file_path S a = exec_bind (get_file S a) (\<lambda>f. Inr (fi_file_path f))"

definition cplus_file_get_fd :: "fsystem \<Rightarrow> ptr \<Rightarrow> int exec" where
  "cplus_file_get_fd S a = exec_bind (get_file S a) (\<lambda>f. Inr (fi_fd f))"

definition cplus_file_check :: "fsystem \<Rightarrow> ptr \<Rightarrow> bool" where
  "cplus_file_check S a \<longleftrightarrow> a \<noteq> CPLUS_NULL \<and> fs_objs S a \<noteq> None"

text \<open>
  The questions about a name.  Which kinds of access the permissions of the file allow, and the
  \<^verbatim>\<open>st_mode\<close> of the file, are arguments.  The \<^verbatim>\<open>CPLUS_FAIL\<close> returned for a null pointer is
  true as a \<^verbatim>\<open>bool\<close>; \<open>cplus_file_is_executable\<close> hands the pointer to \<^verbatim>\<open>access\<close>, which refuses it.
\<close>

definition S_IFREG :: u32 where "S_IFREG = 0x8000"
definition S_IFSOCK :: u32 where "S_IFSOCK = 0xC000"

definition is_file :: "(u8 list \<Rightarrow> u32) \<Rightarrow> fsystem \<Rightarrow> u8 list \<Rightarrow> bool" where
  "is_file st_mode S path \<longleftrightarrow> fs_names S path \<noteq> None \<and> st_mode path AND S_IFREG \<noteq> 0"

definition cplus_file_is_exist :: "fsystem \<Rightarrow> u8 list option \<Rightarrow> bool" where
  "cplus_file_is_exist S p = (case p of None \<Rightarrow> CPLUS_FAIL \<noteq> 0 | Some path \<Rightarrow> is_exist S path)"

definition cplus_file_is_file :: "(u8 list \<Rightarrow> u32) \<Rightarrow> fsystem \<Rightarrow> u8 list option \<Rightarrow> bool" where
  "cplus_file_is_file st_mode S p = (case p of None \<Rightarrow> CPLUS_FAIL \<noteq> 0 | Some path \<Rightarrow> is_file st_mode S path)"

definition is_permitted :: "(u8 list \<Rightarrow> bool) \<Rightarrow> fsystem \<Rightarrow> u8 list \<Rightarrow> bool" where
  "is_permitted allowed S path \<longleftrightarrow> is_exist S path \<and> allowed path"

definition cplus_file_is_readable :: "(u8 list \<Rightarrow> bool) \<Rightarrow> fsystem \<Rightarrow> u8 list option \<Rightarrow> bool" where
  "cplus_file_is_readable allowed S p =
     (case p of None \<Rightarrow> CPLUS_FAIL \<noteq> 0 | Some path \<Rightarrow> is_permitted allowed S path)"

definition cplus_file_is_writable :: "(u8 list \<Rightarrow> bool) \<Rightarrow> fsystem \<Rightarrow> u8 list option \<Rightarrow> bool" where
  "cplus_file_is_writable allowed S p =
     (case p of None \<Rightarrow> CPLUS_FAIL \<noteq> 0 | Some path \<Rightarrow> is_permitted allowed S path)"

definition cplus_file_is_executable :: "(u8 list \<Rightarrow> bool) \<Rightarrow> fsystem \<Rightarrow> u8 list option \<Rightarrow> bool" where
  "cplus_file_is_executable allowed S p =
     (case p of None \<Rightarrow> False | Some path \<Rightarrow> is_permitted allowed S path)"

section \<open>Objects of open files\<close>

definition fs_ok :: "fsystem \<Rightarrow> bool" where
  "fs_ok S \<longleftrightarrow> mheap_inv (fs_heap S) \<and> dom (fs_objs S) \<subseteq> set (mh_live (fs_heap S)) \<and>
     INVALID_FD \<notin> set (map fst (fs_fds S))"

definition has_room :: "nat \<Rightarrow> mheap \<Rightarrow> bool" where
  "has_room n h \<longleftrightarrow> (\<forall>used. length used < length (mh_live h) + n \<longrightarrow> mh_pick h used \<noteq> CPLUS_NULL)"

definition owned :: "(ptr \<times> u8 list) option \<Rightarrow> ptr set" where
  "owned b = (case b of None \<Rightarrow> {} | Some (a, bs) \<Rightarrow> {a})"

text \<open>\<open>S\<close> is \<open>S0\<close> with one more object \<open>a\<close>, its blocks and the open file \<open>i\<close> at position \<open>p\<close>.\<close>

definition opened_as :: "fsystem \<Rightarrow> fsystem \<Rightarrow> ptr \<Rightarrow> file_obj \<Rightarrow> nat \<Rightarrow> int \<Rightarrow> u32 \<Rightarrow> ptr list \<Rightarrow> bool" where
  "opened_as S0 S a f i p fl blocks \<longleftrightarrow>
     fs_objs S0 a = None \<and> fs_objs S = (fs_objs S0)(a \<mapsto> f) \<and>
     fi_fd f = lowest_unused (map fst (fs_fds S0)) \<and>
     fs_fds S = (fi_fd f, \<lparr>fd_inode = i, fd_pos = p, fd_flags = fl\<rparr>) # fs_fds S0 \<and>
     mheap_inv (fs_heap S) \<and> fs_heap S = (fs_heap S0)\<lparr>mh_live := blocks @ mh_live (fs_heap S0)\<rparr> \<and>
     set blocks \<inter> set (mh_live (fs_heap S0)) = {} \<and>
     set blocks = insert a (owned (fi_file_path f) \<union> owned (fi_data_bufs f))"

lemma other_positions:
  assumes "fd \<notin> set (map fst xs)"
  shows "map (\<lambda>(d, g). (d, if d = fd then g\<lparr>fd_pos := q\<rparr> else g)) xs = xs"
  using assms by (intro map_idI) force

lemma opened_asD:
  assumes "opened_as S0 S a f i p fl blocks"
  shows "get_file S a = Inr f" "map_of (fs_fds S) (fi_fd f) = Some \<lparr>fd_inode = i, fd_pos = p, fd_flags = fl\<rparr>"
    "fi_fd f \<notin> set (map fst (fs_fds S0))" "fi_fd f \<noteq> INVALID_FD"
    "set_pos (fi_fd f) q S = S\<lparr>fs_fds := (fi_fd f, \<lparr>fd_inode = i, fd_pos = q, fd_flags = fl\<rparr>) # fs_fds S0\<rparr>"
proof -
  note o = assms [unfolded opened_as_def]
  note free = lowest_unused_free [of "map fst (fs_fds S0)"]
  show n: "fi_fd f \<notin> set (map fst (fs_fds S0))" "fi_fd f \<noteq> INVALID_FD" using o free by auto
  show "get_file S a = Inr f" "map_of (fs_fds S) (fi_fd f) = Some \<lparr>fd_inode = i, fd_pos = p, fd_flags = fl\<rparr>"
    using o by (simp_all add: get_file_def)
  show "set_pos (fi_fd f) q S = S\<lparr>fs_fds := (fi_fd f, \<lparr>fd_inode = i, fd_pos = q, fd_flags = fl\<rparr>) # fs_fds S0\<rparr>"
    using o other_positions [OF n(1)] by (simp add: set_pos_def)
qed

lemma removeAll_filter: "removeAll a xs = filter (\<lambda>x. x \<noteq> a) xs"
  by (induction xs) auto

lemma free_owned:
  assumes "mheap_inv h"
  shows "free_block b h = h\<lparr>mh_live := filter (\<lambda>x. x \<notin> owned b) (mh_live h)\<rparr>"
proof (cases b)
  case None
  then show ?thesis by (simp add: free_block_def owned_def)
next
  case (Some ab)
  obtain a bs where "ab = (a, bs)" by force
  moreover have "removeAll 0 (mh_live h) = mh_live h" using assms by (simp add: mheap_inv_def removeAll_id)
  ultimately show ?thesis
    using Some by (simp add: free_block_def owned_def cplus_mgr_free_def removeAll_filter)
qed

lemma free_keeps_inv: "mheap_inv h \<Longrightarrow> mheap_inv (h\<lparr>mh_live := filter P (mh_live h)\<rparr>)"
  by (auto simp: mheap_inv_def)

text \<open>Deleting the object gives back what it holds; what was written to the file remains.\<close>

lemma delete_opened:
  assumes o: "opened_as S0 S a f i p fl blocks" and env: "fe_error env F_close = None"
  shows "cplus_file_delete env a S =
    Inr (0, S\<lparr>fs_heap := fs_heap S0, fs_fds := fs_fds S0, fs_objs := fs_objs S0\<rparr>)"
proof -
  note D = o [unfolded opened_as_def]
  let ?h = "fs_heap S"
  have inv: "mheap_inv ?h" using D by blast
  have fds: "filter (\<lambda>e. fst e \<noteq> fi_fd f) (fs_fds S) = fs_fds S0" using D by simp
  have zero: "a \<noteq> CPLUS_NULL" using D by (auto simp: mheap_inv_def)
  have live: "filter (\<lambda>x. x \<noteq> a) (filter (\<lambda>x. x \<notin> owned (fi_data_bufs f))
      (filter (\<lambda>x. x \<notin> owned (fi_file_path f)) (mh_live ?h))) = mh_live (fs_heap S0)"
  proof -
    have "filter (\<lambda>x. x \<noteq> a \<and> x \<notin> owned (fi_data_bufs f) \<and> x \<notin> owned (fi_file_path f)) blocks = []"
      using D by (auto simp: filter_empty_conv)
    moreover have "filter (\<lambda>x. x \<noteq> a \<and> x \<notin> owned (fi_data_bufs f) \<and> x \<notin> owned (fi_file_path f))
        (mh_live (fs_heap S0)) = mh_live (fs_heap S0)"
      using D by (intro filter_True) auto
    ultimately show ?thesis using D by (simp add: conj_ac)
  qed
  have "cplus_mgr_free (free_block (fi_data_bufs f) (free_block (fi_file_path f) ?h)) a = fs_heap S0"
    using live zero D free_owned [OF inv, of "fi_file_path f"]
      free_owned [OF free_keeps_inv [OF inv], of "fi_data_bufs f"]
    by (simp add: cplus_mgr_free_def removeAll_filter)
  moreover have "(fs_objs S0)(a := None) = fs_objs S0" using D by (simp add: fun_upd_idem)
  ultimately show ?thesis
    using opened_asD(1) [OF o] env fds D
    by (simp add: cplus_file_delete_def sys_close_def)
qed

lemma malloc_room:
  assumes "mheap_inv h" "has_room (Suc n) h"
  shows "\<exists>a. cplus_mgr_malloc h = (Inr a, h\<lparr>mh_live := a # mh_live h\<rparr>) \<and> a \<noteq> CPLUS_NULL \<and>
    a \<notin> set (mh_live h) \<and> mheap_inv (h\<lparr>mh_live := a # mh_live h\<rparr>) \<and> has_room n (h\<lparr>mh_live := a # mh_live h\<rparr>)"
proof -
  let ?a = "mh_pick h (mh_live h)"
  have a: "?a \<noteq> CPLUS_NULL" using assms(2) by (simp add: has_room_def)
  moreover have "malloc_law (mh_pick h)" using assms(1) by (simp add: mheap_inv_def)
  then have "?a = CPLUS_NULL \<or> ?a \<notin> set (mh_live h)" unfolding malloc_law_def by (rule spec)
  ultimately show ?thesis
    using assms by (intro exI [of _ ?a]) (auto simp: cplus_mgr_malloc_def Let_def mheap_inv_def has_room_def)
qed

definition contents :: "fsystem \<Rightarrow> u8 list \<Rightarrow> u8 list" where
  "contents S path = (case fs_names S path of None \<Rightarrow> [] | Some i \<Rightarrow> fs_bytes S i)"

lemma contents_heap: "contents (S\<lparr>fs_heap := h\<rparr>) path = contents S path"
  by (simp add: contents_def split: option.splits)

text \<open>Opening a file with the flags of \<open>cplus_file_new\<close>, which creates it when it does not exist.\<close>

lemma open_creates:
  assumes "acc \<in> {O_RDONLY, O_WRONLY, O_RDWR}" "fe_error env F_open = None"
  shows "\<exists>S1 i. sys_open env path (acc OR O_CREAT) S = (Inr (lowest_unused (map fst (fs_fds S))), S1) \<and>
    fs_fds S1 = (lowest_unused (map fst (fs_fds S)), \<lparr>fd_inode = i, fd_pos = 0, fd_flags = acc OR O_CREAT\<rparr>) # fs_fds S \<and>
    fs_heap S1 = fs_heap S \<and> fs_objs S1 = fs_objs S \<and> fs_names S1 path = Some i \<and> fs_bytes S1 i = contents S path"
proof -
  have "(acc OR O_CREAT) AND O_CREAT \<noteq> 0" "(acc OR O_CREAT) AND O_EXCL = 0" "(acc OR O_CREAT) AND O_TRUNC = 0"
    using assms(1) by (auto simp: O_RDONLY_def O_WRONLY_def O_RDWR_def O_CREAT_def O_EXCL_def O_TRUNC_def)
  then show ?thesis
    using assms(2) by (cases "fs_names S path") (auto simp: sys_open_def Let_def contents_def)
qed

lemma new_opened:
  assumes ok: "fs_ok S" and room: "has_room 2 (fs_heap S)" and env: "fe_error env F_open = None"
    and acc: "acc \<in> {O_RDONLY, O_WRONLY, O_RDWR}"
  shows "\<exists>a S1 f i blocks. cplus_file_new env path acc S = Inr (a, S1) \<and> a \<noteq> CPLUS_NULL \<and>
    opened_as S S1 a f i 0 (acc OR O_CREAT) blocks \<and> fi_data_bufs f = None \<and> length blocks = 2 \<and>
    fs_names S1 path = Some i \<and> fs_bytes S1 i = contents S path"
proof -
  let ?fd = "lowest_unused (map fst (fs_fds S))"
  have inv: "mheap_inv (fs_heap S)" using ok by (simp add: fs_ok_def)
  obtain a where a: "cplus_mgr_malloc (fs_heap S) = (Inr a, (fs_heap S)\<lparr>mh_live := a # mh_live (fs_heap S)\<rparr>)"
      "a \<noteq> CPLUS_NULL" "a \<notin> set (mh_live (fs_heap S))" "mheap_inv ((fs_heap S)\<lparr>mh_live := a # mh_live (fs_heap S)\<rparr>)"
      "has_room (Suc 0) ((fs_heap S)\<lparr>mh_live := a # mh_live (fs_heap S)\<rparr>)"
    using malloc_room [OF inv, of "Suc 0"] room by (auto simp: numeral_2_eq_2)
  let ?h = "(fs_heap S)\<lparr>mh_live := a # mh_live (fs_heap S)\<rparr>"
  obtain b where b: "cplus_mgr_malloc ?h = (Inr b, ?h\<lparr>mh_live := b # mh_live ?h\<rparr>)" "b \<notin> set (mh_live ?h)"
      "mheap_inv (?h\<lparr>mh_live := b # mh_live ?h\<rparr>)"
    using malloc_room [OF a(4,5)] by blast
  obtain S1 i where S1: "sys_open env path (acc OR O_CREAT) (S\<lparr>fs_heap := ?h\<rparr>) = (Inr ?fd, S1)"
      "fs_fds S1 = (?fd, \<lparr>fd_inode = i, fd_pos = 0, fd_flags = acc OR O_CREAT\<rparr>) # fs_fds S"
      "fs_heap S1 = ?h" "fs_objs S1 = fs_objs S" "fs_names S1 path = Some i" "fs_bytes S1 i = contents S path"
    using open_creates [OF acc env, of path "S\<lparr>fs_heap := ?h\<rparr>"] by (auto simp: contents_heap)
  have objs: "fs_objs S a = None" using ok a(3) by (auto simp: fs_ok_def)
  have fd: "?fd \<noteq> INVALID_FD" using lowest_unused_free(2) [of "map fst (fs_fds S)"] by simp
  let ?f = "\<lparr>fi_fd = ?fd, fi_file_path = Some (b, path), fi_access = acc, fi_flag = O_CREAT,
    fi_mode = CPLUS_FILE_MODE_ALL, fi_data_bufs_size = 0, fi_data_bufs = None\<rparr>"
  let ?S = "S1\<lparr>fs_heap := ?h\<lparr>mh_live := b # mh_live ?h\<rparr>, fs_objs := (fs_objs S)(a \<mapsto> ?f)\<rparr>"
  have "cplus_file_new env path acc S = Inr (a, ?S)"
    using a(1) b(1) S1(1,3,4) fd by (simp add: cplus_file_new_def file_initialize_object_def Let_def)
  moreover have "opened_as S ?S a ?f i 0 (acc OR O_CREAT) [b, a]"
    using a b S1 objs by (auto simp: opened_as_def owned_def)
  ultimately show ?thesis
    using a(2) S1 by (intro exI [of _ a] exI [of _ ?S] exI [of _ ?f] exI [of _ i] exI [of _ "[b, a]"]) simp
qed

text \<open>Writing all the bytes of a buffer.\<close>

lemma write_opened:
  assumes o: "opened_as S0 S a f i p fl blocks" and fl: "writable fl" "fl AND O_APPEND = 0" and p: "0 \<le> p"
    and env: "fe_error env F_write = None" and bs: "bs \<noteq> []" "length bs \<le> fe_most env" "length bs \<le> 2147479552"
  shows "\<exists>S1. cplus_file_write env a (of_nat (length bs)) (Some (bs @ rest)) S = Inr (int (length bs), S1) \<and>
    opened_as S0 S1 a f i (p + int (length bs)) fl blocks \<and>
    S1 = S\<lparr>fs_fds := fs_fds S1, fs_bytes := (fs_bytes S)(i := put_at (nat p) bs (fs_bytes S i))\<rparr>"
proof -
  have n: "transfer env (of_nat (length bs)) = length bs" using bs by (simp add: transfer_def)
  have nz: "(of_nat (length bs) :: u32) \<noteq> 0"
    using bs unat_of_nat_u32 [of "length bs"] by (auto simp del: unat_of_nat_u32)
  note D = opened_asD [OF o]
  let ?S = "S\<lparr>fs_bytes := (fs_bytes S)(i := put_at (nat p) bs (fs_bytes S i))\<rparr>"
  have o': "opened_as S0 ?S a f i p fl blocks" using o by (clarsimp simp: opened_as_def)
  let ?S1 = "?S\<lparr>fs_fds := (fi_fd f, \<lparr>fd_inode = i, fd_pos = p + int (length bs), fd_flags = fl\<rparr>) # fs_fds S0\<rparr>"
  have "cplus_file_write env a (of_nat (length bs)) (Some (bs @ rest)) S = Inr (int (length bs), ?S1)"
    using D(1,2) env fl n nz p opened_asD(5) [OF o']
    by (simp add: cplus_file_write_def sys_write_def read_obj_def Let_def)
  moreover have "opened_as S0 ?S1 a f i (p + int (length bs)) fl blocks" using o by (clarsimp simp: opened_as_def)
  ultimately show ?thesis by (intro exI [of _ ?S1]) simp
qed

text \<open>Moving the position of an open file.\<close>

definition at :: "fsystem \<Rightarrow> file_obj \<Rightarrow> nat \<Rightarrow> u32 \<Rightarrow> int \<Rightarrow> fsystem \<Rightarrow> fsystem" where
  "at S0 f i fl q S = S\<lparr>fs_fds := (fi_fd f, \<lparr>fd_inode = i, fd_pos = q, fd_flags = fl\<rparr>) # fs_fds S0\<rparr>"

lemma at_opened: "opened_as S0 S a f i p fl blocks \<Longrightarrow> opened_as S0 (at S0 f i fl q S) a f i q fl blocks"
  by (clarsimp simp: opened_as_def at_def)

lemma file_at_simps [simp]:
  "at S0 f i fl q (at S0 f i fl r S) = at S0 f i fl q S"
  "fs_bytes (at S0 f i fl q S) = fs_bytes S" "fs_names (at S0 f i fl q S) = fs_names S"
  "fs_heap (at S0 f i fl q S) = fs_heap S" "fs_objs (at S0 f i fl q S) = fs_objs S"
  by (simp_all add: at_def)

lemma at_same: "opened_as S0 S a f i p fl blocks \<Longrightarrow> at S0 f i fl p S = S"
  by (simp add: opened_as_def at_def)

lemma seek_opened:
  assumes "opened_as S0 S a f i p fl blocks" "fe_error env F_seek = None"
    and "q = off + (case w of SEEK_SET \<Rightarrow> 0 | SEEK_CUR \<Rightarrow> p | SEEK_END \<Rightarrow> int (length (fs_bytes S i)))" "0 \<le> q"
  shows "sys_lseek env (fi_fd f) off w S = (to_int32 q, at S0 f i fl q S)"
  using opened_asD(2,5) [OF assms(1)] assms(2-4)
  by (simp add: sys_lseek_def Let_def at_def cong: whence.case_cong)

lemma to_int32_eq: "to_int32 n = (n + 2147483648) mod 4294967296 - 2147483648"
proof -
  have "to_int32 n = signed_take_bit 31 n" by (simp add: to_int32_def signed_of_int)
  then show ?thesis by (simp add: signed_take_bit_eq_take_bit_shift take_bit_eq_mod)
qed

lemma to_int32_small: "\<lbrakk>0 \<le> n; n < 2147483648\<rbrakk> \<Longrightarrow> to_int32 n = n"
  by (simp add: to_int32_eq)

lemma size_opened:
  assumes o: "opened_as S0 S a f i p fl blocks" and env: "fe_error env F_seek = None" and p: "0 \<le> p" "p < 2147483648"
  shows "file_get_size env f S = (to_int32 (int (length (fs_bytes S i))), S)"
proof -
  let ?n = "int (length (fs_bytes S i))"
  have "sys_lseek env (fi_fd f) 0 SEEK_CUR S = (p, S)"
    using seek_opened [where q = p and off = 0 and w = SEEK_CUR, OF o env] p at_same [OF o] by (simp add: to_int32_small)
  moreover have "sys_lseek env (fi_fd f) 0 SEEK_END S = (to_int32 ?n, at S0 f i fl ?n S)"
    using seek_opened [where q = ?n and off = 0 and w = SEEK_END, OF o env] by simp
  moreover have "snd (sys_lseek env (fi_fd f) p SEEK_SET (at S0 f i fl ?n S)) = S"
    using seek_opened [where q = p and off = p and w = SEEK_SET, OF at_opened [OF o] env] p at_same [OF o] by simp
  ultimately show ?thesis using p by (simp add: file_get_size_def)
qed

text \<open>The block that \<open>cplus_file_get_data\<close> fills, for \<open>n\<close> bytes of a file with the bytes \<open>bs\<close>.\<close>

definition loaded :: "file_env \<Rightarrow> nat \<Rightarrow> u8 list \<Rightarrow> u8 list" where
  "loaded env n bs = (let got = take (transfer env (of_nat n)) bs
     in got @ map (fe_junk env) [length got..<n])"

lemma loaded_all:
  "\<lbrakk>length bs \<le> fe_most env; length bs \<le> 2147479552\<rbrakk> \<Longrightarrow> loaded env (length bs) bs = bs"
  by (simp add: loaded_def transfer_def Let_def)

lemma load_opened:
  assumes o: "opened_as S0 S a f i p fl blocks" and none: "fi_data_bufs f = None" and fl: "readable fl"
    and p: "0 \<le> p" "p < 2147483648" and env: "fe_error env F_seek = None" "fe_error env F_read = None"
    and room: "has_room 1 (fs_heap S)" and n: "n \<le> length (fs_bytes S i)" "n < 4294967296"
  shows "\<exists>b S1 f1. load_data env a f (of_nat n) S = Inr (b, S1) \<and> b \<noteq> CPLUS_NULL \<and>
    fi_data_bufs f1 = Some (b, loaded env n (fs_bytes S i)) \<and> opened_as S0 S1 a f1 i p fl (b # blocks) \<and>
    fs_bytes S1 = fs_bytes S \<and> fs_names S1 = fs_names S"
proof -
  let ?h = "fs_heap S"
  have inv: "mheap_inv ?h" using o unfolding opened_as_def by blast
  obtain b where b: "cplus_mgr_malloc ?h = (Inr b, ?h\<lparr>mh_live := b # mh_live ?h\<rparr>)" "b \<noteq> CPLUS_NULL"
      "b \<notin> set (mh_live ?h)" "mheap_inv (?h\<lparr>mh_live := b # mh_live ?h\<rparr>)"
    using malloc_room [OF inv, of 0] room by auto
  let ?S = "S\<lparr>fs_heap := ?h\<lparr>mh_live := b # mh_live ?h\<rparr>\<rparr>"
  let ?got = "take (transfer env (of_nat n)) (fs_bytes S i)"
  have get: "map_of (fs_fds (at S0 f i fl q ?S)) (fi_fd f) = Some \<lparr>fd_inode = i, fd_pos = q, fd_flags = fl\<rparr>"
    and pos: "set_pos (fi_fd f) r (at S0 f i fl q ?S) = at S0 f i fl r ?S" for q r
    using other_positions [OF opened_asD(3) [OF o]] by (simp_all add: at_def set_pos_def)
  have seek: "sys_lseek env (fi_fd f) off w (at S0 f i fl q ?S) = (to_int32 r, at S0 f i fl r ?S)"
    if "w = SEEK_SET \<and> r = off \<or> w = SEEK_CUR \<and> r = off + q" "0 \<le> r" for off w q r
    using that get pos env(1) by (auto simp: sys_lseek_def Let_def)
  have start: "at S0 f i fl p ?S = ?S" using o by (simp add: at_def opened_as_def)
  have le: "length ?got \<le> n" using n by (simp add: transfer_def)
  have read: "sys_read env (fi_fd f) (map (fe_junk env) [0..<n]) (of_nat n) (at S0 f i fl 0 ?S) =
      Inr (int (length ?got), loaded env n (fs_bytes S i), at S0 f i fl (int (length ?got)) ?S)"
    using get pos env(2) fl le
    by (simp add: sys_read_def write_obj_def Let_def loaded_def drop_map del: length_take)
  let ?f = "f\<lparr>fi_data_bufs_size := of_nat n, fi_data_bufs := Some (b, loaded env n (fs_bytes S i))\<rparr>"
  let ?S1 = "?S\<lparr>fs_objs := (fs_objs S)(a \<mapsto> ?f)\<rparr>"
  have s: "sys_lseek env (fi_fd f) 0 SEEK_CUR ?S = (p, ?S)"
    using seek [of SEEK_CUR p 0 p] p start by (simp add: to_int32_small)
  have s0: "snd (sys_lseek env (fi_fd f) 0 SEEK_SET ?S) = at S0 f i fl 0 ?S"
    using seek [of SEEK_SET 0 0 p] start by simp
  have s1: "snd (sys_lseek env (fi_fd f) p SEEK_SET (at S0 f i fl (int (length ?got)) ?S)) = ?S"
    using seek [of SEEK_SET p p] p start by simp
  have "load_data env a f (of_nat n) S = Inr (b, ?S1)"
    using b(1) s s0 s1 read n(2) p by (simp add: load_data_def Let_def)
  moreover have "opened_as S0 ?S1 a ?f i p fl (b # blocks)"
    using o b none by (auto simp: opened_as_def owned_def)
  ultimately show ?thesis
    using b(2) by (intro exI [of _ b] exI [of _ ?S1] exI [of _ ?f]) simp
qed

text \<open>Getting the data: refused, or a block of the size.\<close>

lemma set_object_opened:
  assumes o: "opened_as S0 S a f i p fl blocks" and f1: "fi_fd f1 = fi_fd f" "fi_file_path f1 = fi_file_path f"
    "fi_data_bufs f1 = fi_data_bufs f"
  shows "opened_as S0 (S\<lparr>fs_objs := (fs_objs S)(a \<mapsto> f1)\<rparr>) a f1 i p fl blocks"
  using o f1 by (clarsimp simp: opened_as_def)

lemma get_data_refused:
  assumes o: "opened_as S0 S a f i p fl blocks" and none: "fi_data_bufs f = None"
    and p: "0 \<le> p" "p < 2147483648" and env: "fe_error env F_seek = None"
    and k: "k = to_int32 (int (length (fs_bytes S i)))" "k \<le> 0 \<or> \<not> is_enough env (word_of_int k)"
  shows "\<exists>S1 f1. cplus_file_get_data env a S = Inr (CPLUS_NULL, S1) \<and> opened_as S0 S1 a f1 i p fl blocks \<and>
    fs_bytes S1 = fs_bytes S \<and> fs_names S1 = fs_names S"
proof -
  let ?f1 = "f\<lparr>fi_data_bufs := None\<rparr>" and ?f2 = "f\<lparr>fi_data_bufs := None, fi_data_bufs_size := word_of_int k\<rparr>"
  let ?S1 = "S\<lparr>fs_objs := (fs_objs S)(a \<mapsto> ?f1)\<rparr>" and ?S2 = "S\<lparr>fs_objs := (fs_objs S)(a \<mapsto> ?f2)\<rparr>"
  have o1: "opened_as S0 ?S1 a ?f1 i p fl blocks" "opened_as S0 ?S2 a ?f2 i p fl blocks"
    using none by (auto intro!: set_object_opened [OF o])
  have size: "file_get_size env ?f1 ?S1 = (k, ?S1)" using size_opened [OF o1(1) env p] k(1) by simp
  show ?thesis
  proof (cases "0 < k")
    case True
    then show ?thesis
      using opened_asD(1) [OF o] size k(2) o1(2)
      by (intro exI [of _ ?S2] exI [of _ ?f2]) (simp add: cplus_file_get_data_def Let_def)
  next
    case False
    then show ?thesis
      using opened_asD(1) [OF o] size o1(1)
      by (intro exI [of _ ?S1] exI [of _ ?f1]) (simp add: cplus_file_get_data_def Let_def)
  qed
qed

lemma get_data_loaded:
  assumes o: "opened_as S0 S a f i p fl blocks" and none: "fi_data_bufs f = None" and fl: "readable fl"
    and p: "0 \<le> p" "p < 2147483648" and env: "fe_error env F_seek = None" "fe_error env F_read = None"
    and room: "has_room 1 (fs_heap S)"
    and k: "k = to_int32 (int (length (fs_bytes S i)))" "0 < k" "is_enough env (word_of_int k)"
  shows "\<exists>b S1 f1. cplus_file_get_data env a S = Inr (b, S1) \<and> b \<noteq> CPLUS_NULL \<and>
    fi_data_bufs f1 = Some (b, loaded env (nat k) (fs_bytes S i)) \<and> opened_as S0 S1 a f1 i p fl (b # blocks) \<and>
    fs_bytes S1 = fs_bytes S \<and> fs_names S1 = fs_names S"
proof -
  let ?f1 = "f\<lparr>fi_data_bufs := None\<rparr>" and ?f2 = "f\<lparr>fi_data_bufs := None, fi_data_bufs_size := word_of_int k\<rparr>"
  let ?S1 = "S\<lparr>fs_objs := (fs_objs S)(a \<mapsto> ?f1)\<rparr>" and ?S2 = "S\<lparr>fs_objs := (fs_objs S)(a \<mapsto> ?f2)\<rparr>"
  have o1: "opened_as S0 ?S1 a ?f1 i p fl blocks" "opened_as S0 ?S2 a ?f2 i p fl blocks"
    using none by (auto intro!: set_object_opened [OF o])
  have size: "file_get_size env ?f1 ?S1 = (k, ?S1)" using size_opened [OF o1(1) env(1) p] k(1) by simp
  let ?n = "int (length (fs_bytes S i))"
  have kn: "k = (?n + 2147483648) mod 4294967296 - 2147483648" using k(1) by (simp add: to_int32_eq)
  have "(?n + 2147483648) mod 4294967296 \<le> ?n + 2147483648" by (rule zmod_le_nonneg_dividend) simp
  then have "k \<le> ?n" using kn by linarith
  moreover have "(?n + 2147483648) mod 4294967296 < 4294967296" by (rule pos_mod_bound) simp
  then have "k < 4294967296" using kn by linarith
  ultimately have "k \<le> int (length (fs_bytes S i))" "k < 4294967296" by simp_all
  then have n: "nat k \<le> length (fs_bytes ?S2 i)" "nat k < 4294967296" by (simp_all add: nat_less_iff)
  have w: "word_of_int k = (of_nat (nat k) :: u32)" using k(2) by simp
  have "\<exists>b S1 f1. load_data env a ?f2 (of_nat (nat k)) ?S2 = Inr (b, S1) \<and> b \<noteq> CPLUS_NULL \<and>
    fi_data_bufs f1 = Some (b, loaded env (nat k) (fs_bytes ?S2 i)) \<and> opened_as S0 S1 a f1 i p fl (b # blocks) \<and>
    fs_bytes S1 = fs_bytes ?S2 \<and> fs_names S1 = fs_names ?S2"
    by (rule load_opened [OF o1(2) _ fl p env _ n]) (use room in simp_all)
  note load = this [folded w]
  have "cplus_file_get_data env a S = load_data env a ?f2 (word_of_int k) ?S2"
    using opened_asD(1) [OF o] size k(2,3) by (simp add: cplus_file_get_data_def Let_def)
  then show ?thesis using load by simp
qed

section \<open>Properties\<close>

text \<open>
  C13.  While the position of an open file is below 2 GiB, its size is reported in 32 bits: \<open>n\<close> bytes are reported as
  \<open>(n + 2 ^ 31) mod 2 ^ 32 - 2 ^ 31\<close>, so that from 2 GiB on the size is negative or too small.
  \<open>cplus_file_get_data\<close> gives the null pointer when that number is not positive or the memory
  is short, and otherwise a new block of so many bytes that begins with what one \<^verbatim>\<open>read\<close> of the
  file delivers.  The file, its position and the rest of the system are left as they were.  (From a
  position of 2 GiB on the position itself is lost: \<open>file_size_moves_position\<close> below.)
\<close>

theorem file_get_data_bounds:
  assumes o: "opened_as S0 S a f i p fl blocks" and none: "fi_data_bufs f = None" and fl: "readable fl"
    and p: "0 \<le> p" "p < 2147483648" and env: "fe_error env F_seek = None" "fe_error env F_read = None"
    and room: "has_room 1 (fs_heap S)"
    and k: "k = (int (length (fs_bytes S i)) + 2147483648) mod 4294967296 - 2147483648"
  shows "cplus_file_get_data_size env a S = Inr (k, S) \<and>
    (\<exists>b S1 f1. cplus_file_get_data env a S = Inr (b, S1) \<and> fs_bytes S1 = fs_bytes S \<and> fs_names S1 = fs_names S \<and>
      (if 0 < k \<and> is_enough env (word_of_int k)
       then b \<noteq> CPLUS_NULL \<and> fi_data_bufs f1 = Some (b, loaded env (nat k) (fs_bytes S i)) \<and>
         opened_as S0 S1 a f1 i p fl (b # blocks)
       else b = CPLUS_NULL \<and> opened_as S0 S1 a f1 i p fl blocks))"
proof (intro conjI)
  have k': "k = to_int32 (int (length (fs_bytes S i)))" using k by (simp add: to_int32_eq)
  show "cplus_file_get_data_size env a S = Inr (k, S)"
    using opened_asD(1) [OF o] size_opened [OF o env(1) p] k' by (simp add: cplus_file_get_data_size_def)
  show "\<exists>b S1 f1. cplus_file_get_data env a S = Inr (b, S1) \<and> fs_bytes S1 = fs_bytes S \<and> fs_names S1 = fs_names S \<and>
      (if 0 < k \<and> is_enough env (word_of_int k)
       then b \<noteq> CPLUS_NULL \<and> fi_data_bufs f1 = Some (b, loaded env (nat k) (fs_bytes S i)) \<and>
         opened_as S0 S1 a f1 i p fl (b # blocks)
       else b = CPLUS_NULL \<and> opened_as S0 S1 a f1 i p fl blocks)"
  proof (cases "0 < k \<and> is_enough env (word_of_int k)")
    case True
    then have "0 < k" "is_enough env (word_of_int k)" by simp_all
    from get_data_loaded [OF o none fl p env room k' this] True show ?thesis by auto
  next
    case False
    then have "k \<le> 0 \<or> \<not> is_enough env (word_of_int k)" by auto
    from get_data_refused [OF o none p env(1) k' this] False show ?thesis by auto
  qed
qed

text \<open>
  Asking for the size restores the position from 32 bits as well: between 2 GiB and 4 GiB
  it is negative, the last \<^verbatim>\<open>lseek\<close> refuses it, and the position is at the end of the file.
\<close>

theorem file_size_moves_position:
  assumes o: "opened_as S0 S a f i p fl blocks" and env: "fe_error env F_seek = None"
    and p: "2147483648 \<le> p" "p < 4294967295"
  shows "cplus_file_get_data_size env a S =
    Inr (to_int32 (int (length (fs_bytes S i))), at S0 f i fl (int (length (fs_bytes S i))) S)"
proof -
  let ?n = "int (length (fs_bytes S i))"
  have "(p + 2147483648) mod 4294967296 = p - 2147483648"
    using mod_pos_pos_trivial [of "p - 2147483648" 4294967296] p mod_add_self2 [of "p - 2147483648" 4294967296]
    by (simp add: add.commute)
  then have pos: "to_int32 p = p - 4294967296" by (simp add: to_int32_eq)
  have "sys_lseek env (fi_fd f) 0 SEEK_CUR S = (to_int32 p, S)"
    using seek_opened [where q = p and off = 0 and w = SEEK_CUR, OF o env] p at_same [OF o] by simp
  moreover have "sys_lseek env (fi_fd f) 0 SEEK_END S = (to_int32 ?n, at S0 f i fl ?n S)"
    using seek_opened [where q = ?n and off = 0 and w = SEEK_END, OF o env] by simp
  moreover have "snd (sys_lseek env (fi_fd f) (to_int32 p) SEEK_SET (at S0 f i fl ?n S)) = at S0 f i fl ?n S"
    using opened_asD(2) [OF at_opened [OF o]] env pos p by (simp add: sys_lseek_def Let_def)
  ultimately show ?thesis
    using opened_asD(1) [OF o] pos p by (simp add: cplus_file_get_data_size_def file_get_size_def)
qed

text \<open>
  C12.  Round trip: what is written to a file through a new object is read back through another
  one after the first was deleted, followed by what the file held beyond it; and after the
  deletion of the second object as well the process has its heap, its descriptors and its
  objects as before.
\<close>

theorem file_write_read_roundtrip:
  assumes ok: "fs_ok S" and room: "has_room 3 (fs_heap S)" and env: "fe_error env = (\<lambda>c. None)"
    and bs: "bs \<noteq> []" and data: "data = bs @ drop (length bs) (contents S path)"
    and fits: "length data \<le> fe_most env" "length data \<le> 2147479552" "is_enough env (of_nat (length data))"
    and acc: "acc \<in> {O_WRONLY, O_RDWR}" "acc' \<in> {O_RDONLY, O_RDWR}"
  shows "\<exists>a S1 S2 S3 a' S4 b S5 f S6.
    cplus_file_new env path acc S = Inr (a, S1) \<and>
    cplus_file_write env a (of_nat (length bs)) (Some (bs @ rest)) S1 = Inr (int (length bs), S2) \<and>
    cplus_file_delete env a S2 = Inr (0, S3) \<and>
    cplus_file_new env path acc' S3 = Inr (a', S4) \<and>
    cplus_file_get_data env a' S4 = Inr (b, S5) \<and> fs_objs S5 a' = Some f \<and> fi_data_bufs f = Some (b, data) \<and>
    cplus_file_delete env a' S5 = Inr (0, S6) \<and>
    fs_heap S6 = fs_heap S \<and> fs_fds S6 = fs_fds S \<and> fs_objs S6 = fs_objs S \<and> contents S6 path = data"
proof -
  have room2: "has_room 2 (fs_heap S)" using room by (simp add: has_room_def)
  obtain a S1 f i blocks where n: "cplus_file_new env path acc S = Inr (a, S1)"
      "opened_as S S1 a f i 0 (acc OR O_CREAT) blocks" "fs_names S1 path = Some i" "fs_bytes S1 i = contents S path"
    using new_opened [OF ok room2, of env acc path] env acc(1) by auto
  have fl: "writable (acc OR O_CREAT)" "(acc OR O_CREAT) AND O_APPEND = 0"
    using acc(1) by (auto simp: writable_def O_RDONLY_def O_WRONLY_def O_RDWR_def O_CREAT_def O_APPEND_def O_ACCMODE_def)
  have len: "length bs \<le> fe_most env" "length bs \<le> 2147479552" using fits(1,2) data by auto
  have e: "fe_error env c = None" for c using env by simp
  obtain S2 where w: "cplus_file_write env a (of_nat (length bs)) (Some (bs @ rest)) S1 = Inr (int (length bs), S2)"
      "opened_as S S2 a f i (0 + int (length bs)) (acc OR O_CREAT) blocks"
      "S2 = S1\<lparr>fs_fds := fs_fds S2, fs_bytes := (fs_bytes S1)(i := put_at (nat 0) bs (fs_bytes S1 i))\<rparr>"
    using write_opened [OF n(2) fl order_refl e bs len, of rest] by blast
  have w': "fs_names S2 path = Some i" "fs_bytes S2 i = data"
    by (subst w(3), simp add: n(3), subst w(3), simp add: n(4) put_at_def data)
  define S3 where "S3 = S2\<lparr>fs_heap := fs_heap S, fs_fds := fs_fds S, fs_objs := fs_objs S\<rparr>"
  have d: "cplus_file_delete env a S2 = Inr (0, S3)" unfolding S3_def by (rule delete_opened [OF w(2) e])
  have c3: "contents S3 path = data" using w' by (simp add: contents_def S3_def)
  have ok3: "fs_ok S3" "has_room 2 (fs_heap S3)" using ok room2 by (simp_all add: fs_ok_def S3_def)
  obtain a' S4 f' i' blocks' where m: "cplus_file_new env path acc' S3 = Inr (a', S4)"
      "opened_as S3 S4 a' f' i' 0 (acc' OR O_CREAT) blocks'" "fi_data_bufs f' = None" "length blocks' = 2"
      "fs_names S4 path = Some i'" "fs_bytes S4 i' = data"
    using new_opened [OF ok3, of env acc' path] env acc(2) c3 by auto
  have fl': "readable (acc' OR O_CREAT)"
    using acc(2) by (auto simp: readable_def O_RDONLY_def O_WRONLY_def O_RDWR_def O_CREAT_def O_ACCMODE_def)
  have room4: "has_room 1 (fs_heap S4)"
    using m(2,4) room by (clarsimp simp: opened_as_def has_room_def S3_def)
  have ne: "data \<noteq> []" using bs data by simp
  have k: "int (length data) = to_int32 (int (length (fs_bytes S4 i')))" "0 < int (length data)"
      "is_enough env (word_of_int (int (length data)))"
    using fits(2,3) m(6) ne by (simp_all add: to_int32_small)
  obtain b S5 f5 where g: "cplus_file_get_data env a' S4 = Inr (b, S5)" "fi_data_bufs f5 = Some (b, data)"
      "opened_as S3 S5 a' f5 i' 0 (acc' OR O_CREAT) (b # blocks')" "fs_bytes S5 = fs_bytes S4" "fs_names S5 = fs_names S4"
    using get_data_loaded [OF m(2,3) fl' _ _ e e room4 k] m(6) loaded_all [OF fits(1,2)] by auto
  define S6 where "S6 = S5\<lparr>fs_heap := fs_heap S, fs_fds := fs_fds S, fs_objs := fs_objs S\<rparr>"
  have d': "cplus_file_delete env a' S5 = Inr (0, S6)" using delete_opened [OF g(3) e] by (simp add: S6_def S3_def)
  have restored: "fs_heap S6 = fs_heap S" "fs_fds S6 = fs_fds S" "fs_objs S6 = fs_objs S" by (simp_all add: S6_def)
  have "contents S6 path = data" "fs_objs S5 a' = Some f5"
    using m(5,6) g(3-5) by (simp_all add: contents_def opened_as_def S6_def)
  with n(1) w(1) d m(1) g(1,2) d' restored show ?thesis by blast
qed

text \<open>
   Two ways to lose an object: when the file cannot be opened the constructor returns the
  null pointer, but the object stays allocated, because the destructor releases nothing unless
  it could close the descriptor; and for the same reason the deletion of an object that was
  closed reports a failure and releases nothing.
\<close>

theorem file_object_lost:
  assumes ok: "fs_ok S" and room: "has_room 1 (fs_heap S)"
    and o: "opened_as S0 T c f i p fl blocks" "fs_ok S0"
    and env: "fe_error env F_open = Some e" "fe_error env F_close = None"
  shows "(\<exists>a S1 f1. cplus_file_new_ex env path acc flag mode S = Inr (CPLUS_NULL, S1) \<and>
      a \<notin> set (mh_live (fs_heap S)) \<and> mh_live (fs_heap S1) = a # mh_live (fs_heap S) \<and>
      fs_objs S1 = (fs_objs S)(a \<mapsto> f1) \<and> fs_fds S1 = fs_fds S) \<and>
    (\<exists>T1. cplus_file_close env c T = Inr (0, T1) \<and> cplus_file_delete env c T1 = Inr (-1, T1) \<and>
      fs_heap T1 = fs_heap T \<and> fs_fds T1 = fs_fds S0)"
proof (intro conjI)
  have inv: "mheap_inv (fs_heap S)" using ok by (simp add: fs_ok_def)
  obtain a where a: "cplus_mgr_malloc (fs_heap S) = (Inr a, (fs_heap S)\<lparr>mh_live := a # mh_live (fs_heap S)\<rparr>)"
      "a \<notin> set (mh_live (fs_heap S))"
    using malloc_room [OF inv, of 0] room by auto
  let ?f = "\<lparr>fi_fd = INVALID_FD, fi_file_path = None, fi_access = acc, fi_flag = flag,
    fi_mode = mode, fi_data_bufs_size = 0, fi_data_bufs = None\<rparr>"
  let ?S1 = "S\<lparr>fs_heap := (fs_heap S)\<lparr>mh_live := a # mh_live (fs_heap S)\<rparr>, fs_objs := (fs_objs S)(a \<mapsto> ?f)\<rparr>"
  have "INVALID_FD \<notin> fst ` set (fs_fds S)" using ok by (simp add: fs_ok_def)
  then have "cplus_file_new_ex env path acc flag mode S = Inr (CPLUS_NULL, ?S1)"
    using a(1) env(1) by (simp add: cplus_file_new_ex_def file_initialize_object_def sys_open_def Let_def
        cplus_file_delete_def get_file_def sys_close_def)
  then show "\<exists>a S1 f1. cplus_file_new_ex env path acc flag mode S = Inr (CPLUS_NULL, S1) \<and>
      a \<notin> set (mh_live (fs_heap S)) \<and> mh_live (fs_heap S1) = a # mh_live (fs_heap S) \<and>
      fs_objs S1 = (fs_objs S)(a \<mapsto> f1) \<and> fs_fds S1 = fs_fds S"
    using a(2) by (intro exI [of _ a] exI [of _ ?S1] exI [of _ ?f]) simp
next
  let ?f = "f\<lparr>fi_fd := INVALID_FD\<rparr>"
  let ?T1 = "T\<lparr>fs_fds := fs_fds S0, fs_objs := (fs_objs T)(c \<mapsto> ?f)\<rparr>"
  have c: "cplus_file_close env c T = Inr (0, ?T1)"
    using opened_asD(1) [OF o(1)] o(1) env(2) by (simp add: cplus_file_close_def sys_close_def opened_as_def)
  have "cplus_file_delete env c ?T1 = Inr (-1, ?T1)"
    using o(2) by (simp add: cplus_file_delete_def get_file_def sys_close_def fs_ok_def)
  then show "\<exists>T1. cplus_file_close env c T = Inr (0, T1) \<and> cplus_file_delete env c T1 = Inr (-1, T1) \<and>
      fs_heap T1 = fs_heap T \<and> fs_fds T1 = fs_fds S0"
    using c by (intro exI [of _ ?T1]) simp
qed

section \<open>Examples\<close>

definition example_fs :: fsystem where
  "example_fs = \<lparr>fs_names = [[97] \<mapsto> 0], fs_bytes = (\<lambda>i. [1, 2, 3]), fs_next = 1, fs_fds = [],
     fs_heap = \<lparr>mh_live = [], mh_pick = (\<lambda>used. if 16 \<notin> set used then 16 else if 32 \<notin> set used then 32
       else if 48 \<notin> set used then 48 else 0)\<rparr>, fs_objs = (\<lambda>a. None)\<rparr>"

definition example_env :: "errno option \<Rightarrow> file_env" where
  "example_env e = \<lparr>fe_error = (\<lambda>c. if c = F_open then e else None), fe_most = 100, fe_free_ram = Some 1000,
     fe_junk = (\<lambda>i. 0)\<rparr>"

lemma example_fs_ok: "fs_ok example_fs" "has_room 3 (fs_heap example_fs)" "has_room 2 (fs_heap example_fs)"
  "has_room 1 (fs_heap example_fs)"
proof -
  show "fs_ok example_fs" by (simp add: fs_ok_def example_fs_def mheap_inv_def malloc_law_def)
  show three: "has_room 3 (fs_heap example_fs)"
  proof -
    have "\<not> {16, 32, 48} \<subseteq> set used" if "length used < 3" for used :: "ptr list"
    proof
      assume "{16, 32, 48} \<subseteq> set used"
      then have "card {16, 32, 48 :: ptr} \<le> card (set used)" by (intro card_mono) simp_all
      then show False using that card_length [of used] by simp
    qed
    then show ?thesis by (simp add: has_room_def example_fs_def)
  qed
  show "has_room 2 (fs_heap example_fs)" "has_room 1 (fs_heap example_fs)" using three by (simp_all add: has_room_def)
qed

lemma example_opened:
  "\<exists>a S1 f i blocks. cplus_file_new (example_env None) [97] O_RDONLY example_fs = Inr (a, S1) \<and>
    opened_as example_fs S1 a f i 0 (O_RDONLY OR O_CREAT) blocks \<and> fi_data_bufs f = None \<and> length blocks = 2 \<and>
    fs_bytes S1 i = [1, 2, 3]"
proof -
  have "fe_error (example_env None) F_open = None" "O_RDONLY \<in> {O_RDONLY, O_WRONLY, O_RDWR}"
    by (simp_all add: example_env_def)
  moreover have "contents example_fs [97] = [1, 2, 3]" by (simp add: contents_def example_fs_def)
  ultimately show ?thesis
    using new_opened [OF example_fs_ok(1,3), of "example_env None" O_RDONLY "[97]"] by metis
qed

theorem file_get_data_bounds_witness:
  "\<exists>a S1 b S2 i f1 blocks. cplus_file_new (example_env None) [97] O_RDONLY example_fs = Inr (a, S1) \<and>
    cplus_file_get_data_size (example_env None) a S1 = Inr (3, S1) \<and>
    cplus_file_get_data (example_env None) a S1 = Inr (b, S2) \<and>
    fi_data_bufs f1 = Some (b, [1, 2, 3]) \<and> opened_as example_fs S2 a f1 i 0 (O_RDONLY OR O_CREAT) (b # blocks)"
proof -
  obtain a S1 f i blocks where n: "cplus_file_new (example_env None) [97] O_RDONLY example_fs = Inr (a, S1)"
      "opened_as example_fs S1 a f i 0 (O_RDONLY OR O_CREAT) blocks" "fi_data_bufs f = None" "length blocks = 2"
      "fs_bytes S1 i = [1, 2, 3]"
    using example_opened by blast
  have room: "has_room 1 (fs_heap S1)"
    using n(2,4) example_fs_ok(2) by (clarsimp simp: opened_as_def has_room_def)
  have read: "readable (O_RDONLY OR O_CREAT)"
    by (simp add: readable_def O_RDONLY_def O_WRONLY_def O_CREAT_def O_ACCMODE_def)
  have env: "fe_error (example_env None) F_seek = None" "fe_error (example_env None) F_read = None"
    by (simp_all add: example_env_def)
  have "nat 3 = length [1, 2, 3 :: u8]" by simp
  then have all: "loaded (example_env None) (nat 3) [1, 2, 3] = [1, 2, 3]"
    by (simp only:) (rule loaded_all, simp_all add: example_env_def)
  have enough: "(0::int) < 3 \<and> is_enough (example_env None) (word_of_int 3)" by (simp add: is_enough_def example_env_def)
  have k: "3 = (int (length (fs_bytes S1 i)) + 2147483648) mod 4294967296 - 2147483648" by (simp add: n(5))
  have "(0::int) < 2147483648" by simp
  note T = file_get_data_bounds [OF n(2,3) read order_refl this env room k, unfolded if_P [OF enough]]
  from conjunct2 [OF T] obtain b S2 f1 where "cplus_file_get_data (example_env None) a S1 = Inr (b, S2)"
      "fi_data_bufs f1 = Some (b, loaded (example_env None) (nat 3) (fs_bytes S1 i))"
      "opened_as example_fs S2 a f1 i 0 (O_RDONLY OR O_CREAT) (b # blocks)"
    by (elim exE conjE)
  then show ?thesis using n(1) conjunct1 [OF T] unfolding n(5) all by blast
qed

theorem file_write_read_roundtrip_witness:
  "\<exists>a S1 S2 S3 a' S4 b S5 f S6.
    cplus_file_new (example_env None) [97] O_WRONLY example_fs = Inr (a, S1) \<and>
    cplus_file_write (example_env None) a 2 (Some [8, 9, 7]) S1 = Inr (2, S2) \<and>
    cplus_file_delete (example_env None) a S2 = Inr (0, S3) \<and>
    cplus_file_new (example_env None) [97] O_RDONLY S3 = Inr (a', S4) \<and>
    cplus_file_get_data (example_env None) a' S4 = Inr (b, S5) \<and>
    fs_objs S5 a' = Some f \<and> fi_data_bufs f = Some (b, [8, 9, 3]) \<and>
    cplus_file_delete (example_env None) a' S5 = Inr (0, S6) \<and> fs_heap S6 = fs_heap example_fs"
proof -
  have env: "fe_error (example_env None) = (\<lambda>c. None)" by (simp add: example_env_def)
  have data: "[8, 9, 3] = [8, 9] @ drop (length [8, 9 :: u8]) (contents example_fs [97])"
    by (simp add: contents_def example_fs_def)
  have fits: "length [8, 9, 3 :: u8] \<le> fe_most (example_env None)" "length [8, 9, 3 :: u8] \<le> 2147479552"
    "is_enough (example_env None) (of_nat (length [8, 9, 3 :: u8]))"
    by (simp_all add: example_env_def is_enough_def)
  have acc: "O_WRONLY \<in> {O_WRONLY, O_RDWR}" "O_RDONLY \<in> {O_RDONLY, O_RDWR}" by simp_all
  have "[8, 9 :: u8] \<noteq> []" by simp
  from file_write_read_roundtrip [OF example_fs_ok(1,2) env this data fits acc, of "[7]"]
  show ?thesis by simp (elim exE conjE, intro exI conjI, assumption+)
qed

theorem file_object_lost_witness:
  "\<exists>a S1 f1. cplus_file_new_ex (example_env (Some ENOENT)) [98] O_RDONLY 0 0 example_fs = Inr (CPLUS_NULL, S1) \<and>
    mh_live (fs_heap S1) = [a] \<and> fs_objs S1 a = Some f1"
proof -
  obtain c T f i blocks where "opened_as example_fs T c f i 0 (O_RDONLY OR O_CREAT) blocks"
    using example_opened by blast
  from file_object_lost [OF example_fs_ok(1,4) this example_fs_ok(1), of "example_env (Some ENOENT)" ENOENT
      "[98]" O_RDONLY 0 0]
  obtain a S1 f1 where "cplus_file_new_ex (example_env (Some ENOENT)) [98] O_RDONLY 0 0 example_fs = Inr (CPLUS_NULL, S1)"
      "mh_live (fs_heap S1) = a # mh_live (fs_heap example_fs)" "fs_objs S1 = (fs_objs example_fs)(a \<mapsto> f1)"
    by (auto simp: example_env_def)
  then show ?thesis by (auto simp: example_fs_def)
qed

text \<open>
  The questions take a socket for a regular file, because they test one bit of the type, and
  say yes to a null pointer.
\<close>

theorem file_questions_misanswered:
  assumes "fs_names S path \<noteq> None" "st_mode path = S_IFSOCK"
  shows "cplus_file_is_file st_mode S (Some path)" "cplus_file_is_exist S None" "cplus_file_is_writable allowed S None"
  using assms by (auto simp: cplus_file_is_file_def is_file_def S_IFSOCK_def S_IFREG_def cplus_file_is_exist_def
      cplus_file_is_writable_def CPLUS_FAIL_def)

end
