(* ===== verification/Event_Server.thy ===== *)
theory Event_Server
  imports Parts Allocator
begin

text \<open>
  The event server of \<^verbatim>\<open>src/event_server.c\<close>: a task polls an \<^verbatim>\<open>eventfd\<close> and hands what it
  reads to a callback; clients add to the counter, in the process of the server or, after the
  server has passed them the descriptor over a local socket, in another one.  \<^verbatim>\<open>eventfd\<close>,
  \<^verbatim>\<open>poll\<close>, \<^verbatim>\<open>read\<close>, \<^verbatim>\<open>write\<close> and the passing of descriptors behave as Linux documents them;
  tasks and sockets are numbers, and which calls fail is an argument.
\<close>

section \<open>The system\<close>

text \<open>Callbacks are addresses; a null one is not called.\<close>

record event_server =
  es_efd :: int
  es_enable_ipc :: bool
  es_skt_server :: "part option"
  es_accept_proc :: "part option"
  es_init_val :: u32
  es_flag :: u32
  es_start :: bool
  es_poll_proc :: "part option"
  es_cb_param :: ptr
  es_on_error :: ptr
  es_on_timeout :: ptr
  es_on_read :: ptr

record event_client =
  ec_server_efd :: int
  ec_skt_client :: "part option"

record event_server_config =
  cf_enable_ipc :: bool
  cf_init_val :: u32
  cf_flag :: u32
  cf_start :: bool
  cf_cb_param :: ptr

record cb_funcs =
  cb_on_error :: ptr
  cb_on_timeout :: ptr
  cb_on_read :: ptr

text \<open>
  A process: its heap and objects, its descriptors of event counters, the sockets and tasks it
  has, and the tasks it has started.
\<close>

record ev_process = part_world +
  vp_heap :: mheap
  vp_servers :: "ptr \<rightharpoonup> event_server"
  vp_clients :: "ptr \<rightharpoonup> event_client"
  vp_fds :: "(int \<times> nat) list"
  vp_started :: "part list"

record ev_kernel =
  vk_count :: "nat \<Rightarrow> u64"
  vk_flags :: "nat \<Rightarrow> u32"
  vk_next :: nat

type_synonym ev_state = "ev_process \<times> ev_kernel"

datatype ev_call = Ev_eventfd | Ev_poll_task | Ev_socket | Ev_bind | Ev_listen | Ev_accept_task
  | Ev_connect | Ev_recv_fd | Ev_send

type_synonym ev_failures = "ev_call \<Rightarrow> errno option"

definition EFD_SEMAPHORE :: u32 where "EFD_SEMAPHORE = 1"
definition EFD_NONBLOCK :: u32 where "EFD_NONBLOCK = 2048"
definition EFD_CLOEXEC :: u32 where "EFD_CLOEXEC = 524288"

definition install_fd :: "nat \<Rightarrow> ev_process \<Rightarrow> int \<times> ev_process" where
  "install_fd i P = (let fd = lowest_unused (map fst (vp_fds P)) in (fd, P\<lparr>vp_fds := (fd, i) # vp_fds P\<rparr>))"

definition ev_close :: "int \<Rightarrow> ev_process \<Rightarrow> ev_process" where
  "ev_close fd P = P\<lparr>vp_fds := filter (\<lambda>e. fst e \<noteq> fd) (vp_fds P)\<rparr>"

definition eventfd :: "ev_failures \<Rightarrow> u32 \<Rightarrow> u32 \<Rightarrow> ev_state \<Rightarrow> int \<times> ev_state" where
  "eventfd fl n flags = (\<lambda>(P, K). if fl Ev_eventfd \<noteq> None then (-1, (P, K))
     else (case install_fd (vk_next K) P of (fd, P1) \<Rightarrow>
       (fd, (P1, \<lparr>vk_count = (vk_count K)(vk_next K := ucast n), vk_flags = (vk_flags K)(vk_next K := flags),
          vk_next = vk_next K + 1\<rparr>))))"

text \<open>\<^verbatim>\<open>read\<close> of eight bytes: the whole counter, or one of it; nothing when it is zero.\<close>

definition ev_read :: "int \<Rightarrow> ev_state \<Rightarrow> u64 option \<times> ev_kernel" where
  "ev_read fd = (\<lambda>(P, K). case map_of (vp_fds P) fd of None \<Rightarrow> (None, K)
   | Some i \<Rightarrow> if vk_count K i = 0 then (None, K)
     else let v = (if vk_flags K i AND EFD_SEMAPHORE \<noteq> 0 then 1 else vk_count K i)
       in (Some v, K\<lparr>vk_count := (vk_count K)(i := vk_count K i - v)\<rparr>))"

datatype write_result = Written | Refused | Waits

definition ev_write :: "int \<Rightarrow> u64 \<Rightarrow> ev_state \<Rightarrow> write_result \<times> ev_kernel" where
  "ev_write fd v = (\<lambda>(P, K). case map_of (vp_fds P) fd of None \<Rightarrow> (Refused, K)
   | Some i \<Rightarrow> if v = -1 then (Refused, K)
     else if 2 ^ 64 - 2 < uint (vk_count K i) + uint v
       then (if vk_flags K i AND EFD_NONBLOCK \<noteq> 0 then Refused else Waits, K)
     else (Written, K\<lparr>vk_count := (vk_count K)(i := vk_count K i + v)\<rparr>))"

definition start_part :: "part option \<Rightarrow> ev_process \<Rightarrow> ev_process" where
  "start_part x P = (case x of None \<Rightarrow> P | Some n \<Rightarrow> P\<lparr>vp_started := vp_started P @ [n]\<rparr>)"

section \<open>Objects\<close>

definition EVENT_SERVER_FLAG_CLOEXEC :: u32 where "EVENT_SERVER_FLAG_CLOEXEC = 1"
definition EVENT_SERVER_FLAG_NONBLOCK :: u32 where "EVENT_SERVER_FLAG_NONBLOCK = 2"
definition EVENT_SERVER_FLAG_SYNC :: u32 where "EVENT_SERVER_FLAG_SYNC = 4"

definition convert_efd_flag :: "u32 \<Rightarrow> u32" where
  "convert_efd_flag flag =
     (let v0 = 0;
          v1 = (if flag AND EVENT_SERVER_FLAG_CLOEXEC \<noteq> 0 then v0 OR EFD_CLOEXEC else v0);
          v2 = (if flag AND EVENT_SERVER_FLAG_NONBLOCK \<noteq> 0 then v1 OR EFD_NONBLOCK else v1);
          v3 = (if flag AND EVENT_SERVER_FLAG_SYNC \<noteq> 0 then v2 OR EFD_SEMAPHORE else v2)
      in if flag = 0 then v0 else v3)"

definition get_server :: "ev_process \<Rightarrow> ptr \<Rightarrow> event_server exec" where
  "get_server P a = (case vp_servers P a of None \<Rightarrow> Inl Assert_fail | Some s \<Rightarrow> Inr s)"

definition get_client :: "ev_process \<Rightarrow> ptr \<Rightarrow> event_client exec" where
  "get_client P a = (case vp_clients P a of None \<Rightarrow> Inl Assert_fail | Some c \<Rightarrow> Inr c)"

definition cplus_event_server_delete :: "ptr \<Rightarrow> ev_process \<Rightarrow> ev_process exec" where
  "cplus_event_server_delete a P = exec_bind (get_server P a) (\<lambda>s.
     let P1 = drop_part (es_accept_proc s) P; P2 = drop_part (es_skt_server s) P1;
         P3 = drop_part (es_poll_proc s) P2;
         P4 = (if es_efd s \<noteq> INVALID_FD then ev_close (es_efd s) P3 else P3)
     in Inr (P4\<lparr>vp_heap := cplus_mgr_free (vp_heap P4) a, vp_servers := (vp_servers P4)(a := None)\<rparr>))"

definition cplus_event_client_delete :: "ptr \<Rightarrow> ev_process \<Rightarrow> ev_process exec" where
  "cplus_event_client_delete a P = exec_bind (get_client P a) (\<lambda>c.
     let P1 = drop_part (ec_skt_client c) P
     in Inr (P1\<lparr>vp_heap := cplus_mgr_free (vp_heap P1) a, vp_clients := (vp_clients P1)(a := None)\<rparr>))"

section \<open>Tasks\<close>

datatype callback = On_error ptr int errno ptr | On_timeout ptr int ptr | On_read ptr int int ptr

text \<open>\<^verbatim>\<open>poll\<close> without a limit on the time waits until the counter is not zero.\<close>

definition POLLIN :: u32 where "POLLIN = 1"
definition POLLNVAL :: u32 where "POLLNVAL = 32"

datatype poll_result = Poll_error errno | Poll_timeout | Poll_revents u32 | Poll_waits

definition ev_poll :: "errno option \<Rightarrow> int \<Rightarrow> ev_state \<Rightarrow> poll_result" where
  "ev_poll err fd = (\<lambda>(P, K). case err of Some e \<Rightarrow> Poll_error e
   | None \<Rightarrow> (case map_of (vp_fds P) fd of None \<Rightarrow> Poll_revents POLLNVAL
     | Some i \<Rightarrow> if vk_count K i = 0 then Poll_waits else Poll_revents POLLIN))"

text \<open>One round: the calls it makes, or \<open>None\<close> when it goes on waiting.\<close>

definition event_poll_proc ::
    "errno option \<Rightarrow> ptr \<Rightarrow> ev_state \<Rightarrow> (callback list option \<times> ev_kernel) exec" where
  "event_poll_proc err a = (\<lambda>(P, K). exec_bind (get_server P a) (\<lambda>s.
     case ev_poll err (es_efd s) (P, K) of
       Poll_waits \<Rightarrow> Inr (None, K)
     | Poll_error e \<Rightarrow> Inr (Some (if es_on_error s \<noteq> CPLUS_NULL
         then [On_error (es_on_error s) (es_efd s) e (es_cb_param s)] else []), K)
     | Poll_timeout \<Rightarrow> Inr (Some (if es_on_timeout s \<noteq> CPLUS_NULL
         then [On_timeout (es_on_timeout s) (es_efd s) (es_cb_param s)] else []), K)
     | Poll_revents revents \<Rightarrow> if revents AND POLLIN \<noteq> 0 \<and> es_on_read s \<noteq> CPLUS_NULL then
           (case ev_read (es_efd s) (P, K) of
              (None, K1) \<Rightarrow> Inr (Some [], K1)
            | (Some v, K1) \<Rightarrow> Inr (Some [On_read (es_on_read s) (es_efd s) (sint (ucast v :: u32)) (es_cb_param s)], K1))
         else Inr (Some [], K)))"

text \<open>One round of the task that waits for clients; the result is the counter that is passed on.\<close>

definition accept_proc :: "bool \<Rightarrow> ptr \<Rightarrow> ev_process \<Rightarrow> (nat option \<times> ev_process) exec" where
  "accept_proc accepted a P = exec_bind (get_server P a) (\<lambda>s.
     if accepted then (case new_part P of (sock, P1) \<Rightarrow>
       Inr (map_of (vp_fds P1) (es_efd s), drop_part (Some sock) P1))
     else Inr (None, P))"

section \<open>Construction\<close>

type_synonym server_state = "event_server \<times> ev_process \<times> ev_kernel"

definition blank_server :: "event_server_config \<Rightarrow> cb_funcs option \<Rightarrow> event_server" where
  "blank_server cfg cb = \<lparr>es_efd = 0, es_enable_ipc = cf_enable_ipc cfg, es_skt_server = None,
     es_accept_proc = None, es_init_val = cf_init_val cfg, es_flag = cf_flag cfg, es_start = cf_start cfg,
     es_poll_proc = None, es_cb_param = cf_cb_param cfg,
     es_on_error = (case cb of None \<Rightarrow> CPLUS_NULL | Some f \<Rightarrow> cb_on_error f),
     es_on_timeout = (case cb of None \<Rightarrow> CPLUS_NULL | Some f \<Rightarrow> cb_on_timeout f),
     es_on_read = (case cb of None \<Rightarrow> CPLUS_NULL | Some f \<Rightarrow> cb_on_read f)\<rparr>"

definition eventfd_step :: "ev_failures \<Rightarrow> server_state step" where
  "eventfd_step fl = (\<lambda>(s, P, K). case eventfd fl (es_init_val s) (convert_efd_flag (es_flag s)) (P, K) of
     (fd, (P1, K1)) \<Rightarrow> Inr (if fd = INVALID_FD then Inl (the (fl Ev_eventfd)) else Inr (),
        (s\<lparr>es_efd := fd\<rparr>, P1, K1)))"

text \<open>Making a task or a socket and storing it in a field.\<close>

definition part_step ::
    "ev_failures \<Rightarrow> ev_call \<Rightarrow> (part \<Rightarrow> event_server \<Rightarrow> event_server) \<Rightarrow> server_state step" where
  "part_step fl call put = (\<lambda>(s, P, K). case fl call of Some e \<Rightarrow> Inr (Inl e, (s, P, K))
   | None \<Rightarrow> (case new_part P of (n, P1) \<Rightarrow> Inr (Inr (), (put n s, P1, K))))"

definition call_step :: "ev_failures \<Rightarrow> ev_call \<Rightarrow> server_state step" where
  "call_step fl call S = Inr (case fl call of Some e \<Rightarrow> Inl e | None \<Rightarrow> Inr (), S)"

definition start_tasks :: "event_server \<Rightarrow> ev_process \<Rightarrow> ev_process" where
  "start_tasks s P = start_part (es_poll_proc s) (start_part (es_accept_proc s) P)"

definition early_steps :: "ev_failures \<Rightarrow> event_server_config \<Rightarrow> server_state step list" where
  "early_steps fl cfg = [eventfd_step fl, part_step fl Ev_poll_task (\<lambda>n s. s\<lparr>es_poll_proc := Some n\<rparr>)] @
     (if cf_enable_ipc cfg then [part_step fl Ev_socket (\<lambda>n s. s\<lparr>es_skt_server := Some n\<rparr>),
        call_step fl Ev_bind, call_step fl Ev_listen,
        part_step fl Ev_accept_task (\<lambda>n s. s\<lparr>es_accept_proc := Some n\<rparr>)] else [])"

definition server_steps :: "ev_failures \<Rightarrow> event_server_config \<Rightarrow> server_state step list" where
  "server_steps fl cfg = early_steps fl cfg @
     [\<lambda>(s, P, K). Inr (Inr (), (s, if es_start s then start_tasks s P else P, K))]"

definition event_server_initialize_object ::
    "ev_failures \<Rightarrow> event_server_config \<Rightarrow> cb_funcs option \<Rightarrow> ev_state \<Rightarrow> (ptr cresult \<times> ev_state) exec" where
  "event_server_initialize_object fl cfg cb = (\<lambda>(P, K). case cplus_mgr_malloc (vp_heap P) of
     (Inl e, h) \<Rightarrow> Inr (Inl e, (P\<lparr>vp_heap := h\<rparr>, K))
   | (Inr a, h) \<Rightarrow> exec_bind (until_exit (server_steps fl cfg) (blank_server cfg cb, P\<lparr>vp_heap := h\<rparr>, K))
       (\<lambda>(r, (s, P1, K1)). let P2 = P1\<lparr>vp_servers := (vp_servers P1)(a \<mapsto> s)\<rparr> in case r of
          Inr _ \<Rightarrow> Inr (Inr a, (P2, K1))
        | Inl e \<Rightarrow> exec_bind (cplus_event_server_delete a P2) (\<lambda>P3. Inr (Inl e, (P3, K1)))))"

definition cplus_event_server_new_config ::
    "ev_failures \<Rightarrow> event_server_config \<Rightarrow> cb_funcs option \<Rightarrow> ev_state \<Rightarrow> (ptr cresult \<times> ev_state) exec" where
  "cplus_event_server_new_config = event_server_initialize_object"

definition cplus_event_server_new ::
    "ev_failures \<Rightarrow> u32 \<Rightarrow> u32 \<Rightarrow> cb_funcs option \<Rightarrow> ev_state \<Rightarrow> (ptr cresult \<times> ev_state) exec" where
  "cplus_event_server_new fl init flag = event_server_initialize_object fl
     \<lparr>cf_enable_ipc = False, cf_init_val = init, cf_flag = flag, cf_start = False, cf_cb_param = CPLUS_NULL\<rparr>"

definition cplus_event_client_attach :: "ptr \<Rightarrow> ev_process \<Rightarrow> (ptr \<times> ev_process) exec" where
  "cplus_event_client_attach a P = exec_bind (get_server P a) (\<lambda>s.
     case cplus_mgr_malloc (vp_heap P) of
       (Inl e, h) \<Rightarrow> Inr (CPLUS_NULL, P\<lparr>vp_heap := h\<rparr>)
     | (Inr c, h) \<Rightarrow> let P1 = P\<lparr>vp_heap := h, vp_clients :=
           (vp_clients P)(c \<mapsto> \<lparr>ec_server_efd = es_efd s, ec_skt_client = None\<rparr>)\<rparr>
         in if es_efd s = INVALID_FD
           then exec_bind (cplus_event_client_delete c P1) (\<lambda>P2. Inr (CPLUS_NULL, P2))
           else Inr (c, P1))"

text \<open>Connecting; \<open>passed\<close> is the counter for which a descriptor is received.\<close>

definition connect_steps :: "ev_failures \<Rightarrow> nat option \<Rightarrow> (event_client \<times> int \<times> ev_process) step list" where
  "connect_steps fl passed =
    [\<lambda>(c, fd, P). (case fl Ev_socket of Some e \<Rightarrow> Inr (Inl e, (c, fd, P))
       | None \<Rightarrow> (case new_part P of (n, P1) \<Rightarrow> Inr (Inr (), (c\<lparr>ec_skt_client := Some n\<rparr>, fd, P1)))),
     \<lambda>S. Inr (case fl Ev_connect of Some e \<Rightarrow> Inl e | None \<Rightarrow> Inr (), S),
     \<lambda>(c, fd, P). (case (fl Ev_recv_fd, passed) of
         (None, Some i) \<Rightarrow> (case install_fd i P of (fd1, P1) \<Rightarrow> Inr (Inr (), (c, fd1, P1)))
       | (Some e, _) \<Rightarrow> Inr (Inl e, (c, fd, P)) | (None, None) \<Rightarrow> Inr (Inl ETIMEDOUT, (c, fd, P))),
     \<lambda>S. Inr (case fl Ev_send of Some e \<Rightarrow> Inl e | None \<Rightarrow> Inr (), S),
     \<lambda>(c, fd, P). (let c1 = c\<lparr>ec_server_efd := fd\<rparr> in
        if fd = INVALID_FD then Inr (Inl ENONE, (c1, fd, P))
        else Inr (Inr (), (c1\<lparr>ec_skt_client := None\<rparr>, fd, drop_part (ec_skt_client c) P)))]"

definition cplus_event_client_connect ::
    "ev_failures \<Rightarrow> nat option \<Rightarrow> ev_process \<Rightarrow> (ptr \<times> ev_process) exec" where
  "cplus_event_client_connect fl passed P = (case cplus_mgr_malloc (vp_heap P) of
     (Inl e, h) \<Rightarrow> Inr (CPLUS_NULL, P\<lparr>vp_heap := h\<rparr>)
   | (Inr a, h) \<Rightarrow> exec_bind (until_exit (connect_steps fl passed)
        (\<lparr>ec_server_efd = INVALID_FD, ec_skt_client = None\<rparr>, INVALID_FD, P\<lparr>vp_heap := h\<rparr>))
       (\<lambda>(r, (c, fd, P1)). let P2 = P1\<lparr>vp_clients := (vp_clients P1)(a \<mapsto> c)\<rparr> in case r of
          Inr _ \<Rightarrow> Inr (a, P2)
        | Inl e \<Rightarrow> exec_bind (cplus_event_client_delete a P2) (\<lambda>P3. Inr (CPLUS_NULL, P3))))"

section \<open>Use\<close>

definition cplus_event_server_start :: "ptr \<Rightarrow> ev_process \<Rightarrow> (int \<times> ev_process) exec" where
  "cplus_event_server_start a P = exec_bind (get_server P a) (\<lambda>s.
     if \<not> es_start s then let P1 = start_tasks s P
       in Inr (CPLUS_SUCCESS, P1\<lparr>vp_servers := (vp_servers P1)(a \<mapsto> s\<lparr>es_start := True\<rparr>)\<rparr>)
     else Inr (CPLUS_SUCCESS, P))"

definition cplus_event_server_get_efd :: "ptr \<Rightarrow> ev_process \<Rightarrow> int exec" where
  "cplus_event_server_get_efd a P = exec_bind (get_server P a) (\<lambda>s. Inr (es_efd s))"

text \<open>Adding to the counter; \<open>None\<close> when the writer waits for room.\<close>

definition cplus_event_client_add_count :: "ptr \<Rightarrow> u64 \<Rightarrow> ev_state \<Rightarrow> (int option \<times> ev_kernel) exec" where
  "cplus_event_client_add_count a n = (\<lambda>(P, K). exec_bind (get_client P a) (\<lambda>c.
     if ec_server_efd c = INVALID_FD then Inr (Some CPLUS_FAIL, K)
     else (case ev_write (ec_server_efd c) n (P, K) of
         (Written, K1) \<Rightarrow> Inr (Some CPLUS_SUCCESS, K1)
       | (Refused, K1) \<Rightarrow> Inr (Some CPLUS_FAIL, K1)
       | (Waits, K1) \<Rightarrow> Inr (None, K1))))"

definition cplus_event_server_check :: "ev_process \<Rightarrow> ptr \<Rightarrow> bool exec" where
  "cplus_event_server_check P a = (if a = CPLUS_NULL then Inl Null_deref else Inr (vp_servers P a \<noteq> None))"

definition cplus_event_client_check :: "ev_process \<Rightarrow> ptr \<Rightarrow> bool exec" where
  "cplus_event_client_check P a = (if a = CPLUS_NULL then Inl Null_deref else Inr (vp_clients P a \<noteq> None))"

section \<open>What a server holds\<close>

definition ev_ok :: "ev_process \<Rightarrow> bool" where
  "ev_ok P \<longleftrightarrow> mheap_inv (vp_heap P) \<and> dom (vp_servers P) \<union> dom (vp_clients P) \<subseteq> set (mh_live (vp_heap P)) \<and>
     (\<forall>n\<in>set (pw_parts P). n < pw_next P)"

definition parts_of :: "event_server \<Rightarrow> part list" where
  "parts_of s = (case es_accept_proc s of None \<Rightarrow> [] | Some n \<Rightarrow> [n]) @
     (case es_skt_server s of None \<Rightarrow> [] | Some n \<Rightarrow> [n]) @ (case es_poll_proc s of None \<Rightarrow> [] | Some n \<Rightarrow> [n])"

text \<open>\<open>P\<close> is \<open>P0\<close> with the descriptor, the socket and the tasks of the server \<open>s\<close>.\<close>

definition server_holds :: "ev_process \<Rightarrow> event_server \<Rightarrow> ev_process \<Rightarrow> bool" where
  "server_holds P0 s P \<longleftrightarrow> (\<exists>fds m.
     P = P0\<lparr>vp_fds := fds, pw_parts := parts_of s @ pw_parts P0, pw_next := m\<rparr> \<and>
     (es_efd s = INVALID_FD \<and> fds = vp_fds P0 \<or>
      es_efd s = lowest_unused (map fst (vp_fds P0)) \<and> (\<exists>i. fds = (es_efd s, i) # vp_fds P0)) \<and>
     pw_next P0 \<le> m \<and> (\<forall>n\<in>set (parts_of s). pw_next P0 \<le> n \<and> n < m))"

text \<open>A new event counter, or none.\<close>

definition new_counter :: "u32 \<Rightarrow> u32 \<Rightarrow> ev_kernel \<Rightarrow> ev_kernel" where
  "new_counter n flags K = \<lparr>vk_count = (vk_count K)(vk_next K := ucast n),
     vk_flags = (vk_flags K)(vk_next K := flags), vk_next = vk_next K + 1\<rparr>"

lemma eventfd_step_holds:
  assumes none: "parts_of s = []"
  shows "\<exists>r s' P' K'. eventfd_step fl (s, P, K) = Inr (r, (s', P', K')) \<and> server_holds P s' P' \<and>
    (\<exists>fd. s' = s\<lparr>es_efd := fd\<rparr> \<and> (r = Inr () \<longrightarrow> fd \<noteq> INVALID_FD \<and> map_of (vp_fds P') fd = Some (vk_next K))) \<and>
    (if r = Inr () then K' = new_counter (es_init_val s) (convert_efd_flag (es_flag s)) K else K' = K)"
proof -
  let ?fd = "lowest_unused (map fst (vp_fds P))"
  have fd: "?fd \<noteq> INVALID_FD" using lowest_unused_free(2) [of "map fst (vp_fds P)"] by simp
  have parts: "parts_of (s\<lparr>es_efd := x\<rparr>) = []" for x using none by (simp add: parts_of_def)
  have "server_holds P (s\<lparr>es_efd := INVALID_FD\<rparr>) P"
    unfolding server_holds_def by (intro exI [of _ "vp_fds P"] exI [of _ "pw_next P"]) (simp add: parts)
  moreover have "server_holds P (s\<lparr>es_efd := ?fd\<rparr>) (P\<lparr>vp_fds := (?fd, vk_next K) # vp_fds P\<rparr>)"
    unfolding server_holds_def
    by (intro exI [of _ "(?fd, vk_next K) # vp_fds P"] exI [of _ "pw_next P"]) (simp add: parts)
  ultimately show ?thesis
    using fd by (cases "fl Ev_eventfd") (auto simp: eventfd_step_def eventfd_def install_fd_def Let_def new_counter_def)
qed

text \<open>A task or a socket, or none.\<close>

lemma part_step_holds:
  assumes h: "server_holds P0 s P" and put: "\<And>n. parts_of (put n s) = n # parts_of s" "\<And>n. es_efd (put n s) = es_efd s"
  shows "\<exists>r s' P'. part_step fl call put (s, P, K) = Inr (r, (s', P', K)) \<and> server_holds P0 s' P' \<and>
    vp_fds P' = vp_fds P \<and> (r = Inr () \<longrightarrow> (\<exists>n. s' = put n s)) \<and> (r \<noteq> Inr () \<longrightarrow> s' = s)"
proof (cases "fl call")
  case None
  obtain fds m where P: "P = P0\<lparr>vp_fds := fds, pw_parts := parts_of s @ pw_parts P0, pw_next := m\<rparr>"
    and fds: "es_efd s = INVALID_FD \<and> fds = vp_fds P0 \<or>
      es_efd s = lowest_unused (map fst (vp_fds P0)) \<and> (\<exists>i. fds = (es_efd s, i) # vp_fds P0)"
    and m: "pw_next P0 \<le> m" "\<forall>n\<in>set (parts_of s). pw_next P0 \<le> n \<and> n < m"
    using h by (auto simp: server_holds_def)
  let ?P = "P\<lparr>pw_parts := pw_next P # pw_parts P, pw_next := pw_next P + 1\<rparr>"
  have "server_holds P0 (put (pw_next P) s) ?P"
    unfolding server_holds_def
    by (intro exI [of _ fds] exI [of _ "m + 1"]) (use fds m in \<open>auto simp: put P\<close>)
  then show ?thesis using None by (auto simp: part_step_def new_part_def)
next
  case (Some e)
  then show ?thesis using h by (simp add: part_step_def)
qed

text \<open>Deleting a server gives back what it holds.\<close>

lemma delete_server_holds:
  assumes h: "server_holds P0 s P" and ok: "\<forall>n\<in>set (pw_parts P0). n < pw_next P0"
  shows "cplus_event_server_delete a (P\<lparr>vp_servers := (vp_servers P0)(a \<mapsto> s), vp_started := st\<rparr>) = Inr (P0\<lparr>
    vp_servers := (vp_servers P0)(a := None), pw_next := pw_next P, vp_started := st,
    vp_heap := cplus_mgr_free (vp_heap P0) a\<rparr>)"
proof -
  obtain fds m where P: "P = P0\<lparr>vp_fds := fds, pw_parts := parts_of s @ pw_parts P0, pw_next := m\<rparr>"
    and fds: "es_efd s = INVALID_FD \<and> fds = vp_fds P0 \<or>
      es_efd s = lowest_unused (map fst (vp_fds P0)) \<and> (\<exists>i. fds = (es_efd s, i) # vp_fds P0)"
    and m: "pw_next P0 \<le> m" "\<forall>n\<in>set (parts_of s). pw_next P0 \<le> n \<and> n < m"
    using h by (auto simp: server_holds_def)
  let ?drop = "\<lambda>x. filter (\<lambda>n. x \<noteq> Some n)"
  have others: "?drop x (pw_parts P0) = pw_parts P0" if "set_option x \<subseteq> set (parts_of s)" for x
    using that ok m(2) by (intro filter_True) force
  have mine: "set_option (es_accept_proc s) \<subseteq> set (parts_of s)" "set_option (es_skt_server s) \<subseteq> set (parts_of s)"
    "set_option (es_poll_proc s) \<subseteq> set (parts_of s)"
    by (auto simp: parts_of_def)
  have own: "?drop (es_poll_proc s) (?drop (es_skt_server s) (?drop (es_accept_proc s) (parts_of s))) = []"
    by (auto simp: parts_of_def filter_empty_conv split: option.splits)
  have parts: "?drop (es_poll_proc s) (?drop (es_skt_server s) (?drop (es_accept_proc s) (parts_of s @ pw_parts P0)))
      = pw_parts P0"
    by (simp only: filter_append own mine [THEN others] append_Nil)
  have drop: "drop_part x Q = Q\<lparr>pw_parts := ?drop x (pw_parts Q)\<rparr>" for x Q by (rule drop_part_filter)
  have "filter (\<lambda>e. fst e \<noteq> es_efd s) fds = vp_fds P0" if "es_efd s \<noteq> INVALID_FD" using fds that by auto
  then show ?thesis
    using fds lowest_unused_free(2) [of "map fst (vp_fds P0)"]
    by (auto simp: cplus_event_server_delete_def get_server_def P Let_def drop parts ev_close_def
        simp del: filter_filter filter_append)
qed

text \<open>
  The steps of the constructor always come to an end, and keep account of what they make; the
  descriptor \<open>fd\<close> of the server stands for the new counter.
\<close>

definition kept :: "ev_process \<Rightarrow> ev_kernel \<Rightarrow> int \<Rightarrow> ptr \<Rightarrow> nat option \<Rightarrow> server_state \<Rightarrow> bool" where
  "kept P0 K0 fd on_read i = (\<lambda>(s, P, K). server_holds P0 s P \<and> es_efd s = fd \<and> es_on_read s = on_read \<and>
     (i \<noteq> None \<longrightarrow> map_of (vp_fds P) fd = i) \<and> K = K0)"

lemma keep_step:
  assumes "f S = Inr (r, S1)" "kept P0 K0 fd g i S1"
    and "r = Inr () \<Longrightarrow> \<exists>r' S2. until_exit fs S1 = Inr (r', S2) \<and> kept P0 K0 fd g i S2"
  shows "\<exists>r' S2. until_exit (f # fs) S = Inr (r', S2) \<and> kept P0 K0 fd g i S2"
  using assms by (cases r) auto

lemma keep_part_step:
  assumes k: "kept P0 K0 fd g i (s, P, K)"
    and put: "\<And>n. parts_of (put n s) = n # parts_of s" "\<And>n. es_efd (put n s) = es_efd s"
      "\<And>n. es_on_read (put n s) = es_on_read s"
    and rest: "\<And>n P1. kept P0 K0 fd g i (put n s, P1, K) \<Longrightarrow>
      \<exists>r' S2. until_exit fs (put n s, P1, K) = Inr (r', S2) \<and> kept P0 K0 fd g i S2"
  shows "\<exists>r' S2. until_exit (part_step fl call put # fs) (s, P, K) = Inr (r', S2) \<and> kept P0 K0 fd g i S2"
proof -
  obtain r s' P' where st: "part_step fl call put (s, P, K) = Inr (r, (s', P', K))" "server_holds P0 s' P'"
      "vp_fds P' = vp_fds P" "r = Inr () \<longrightarrow> (\<exists>n. s' = put n s)" "r \<noteq> Inr () \<longrightarrow> s' = s"
    using part_step_holds [of P0 s P put fl call K] k put(1,2) by (auto simp: kept_def)
  have "kept P0 K0 fd g i (s', P', K)"
    using st(2-5) k put(2,3) by (cases "r = Inr ()") (auto simp: kept_def)
  with keep_step [where f = "part_step fl call put", OF st(1) this] st(4) rest show ?thesis by blast
qed

lemma keep_call_step:
  assumes "kept P0 K0 fd g i S" "\<exists>r' S2. until_exit fs S = Inr (r', S2) \<and> kept P0 K0 fd g i S2"
  shows "\<exists>r' S2. until_exit (call_step fl call # fs) S = Inr (r', S2) \<and> kept P0 K0 fd g i S2"
  using assms by (intro keep_step [of "call_step fl call" S "case fl call of Some e \<Rightarrow> Inl e | None \<Rightarrow> Inr ()" S])
    (simp_all add: call_step_def)

lemma early_steps_keep:
  "\<exists>r S fd K1 i. until_exit (early_steps fl cfg) (blank_server cfg cb, P, K) = Inr (r, S) \<and>
    kept P K1 fd (es_on_read (blank_server cfg cb)) i S \<and>
    (r = Inr () \<longrightarrow> i = Some (vk_next K) \<and> fd \<noteq> INVALID_FD) \<and>
    (K1 = K \<or> K1 = new_counter (cf_init_val cfg) (convert_efd_flag (cf_flag cfg)) K) \<and>
    (r = Inr () \<longrightarrow> K1 = new_counter (cf_init_val cfg) (convert_efd_flag (cf_flag cfg)) K)"
proof -
  let ?b = "blank_server cfg cb"
  have none: "es_accept_proc ?b = None" "es_skt_server ?b = None" "es_poll_proc ?b = None" "parts_of ?b = []"
    "es_init_val ?b = cf_init_val cfg" "es_flag ?b = cf_flag cfg"
    by (simp_all add: blank_server_def parts_of_def)
  obtain r s P1 K1 fd where st: "eventfd_step fl (?b, P, K) = Inr (r, (s, P1, K1))" "server_holds P s P1"
      "s = ?b\<lparr>es_efd := fd\<rparr>" "r = Inr () \<longrightarrow> fd \<noteq> INVALID_FD \<and> map_of (vp_fds P1) fd = Some (vk_next K)"
      "if r = Inr () then K1 = new_counter (cf_init_val cfg) (convert_efd_flag (cf_flag cfg)) K else K1 = K"
    using eventfd_step_holds [OF none(4), of fl P K] none(5,6) by metis
  let ?i = "if r = Inr () then Some (vk_next K) else None"
  have k1: "kept P K1 fd (es_on_read ?b) ?i (s, P1, K1)" using st(2-4) by (simp add: kept_def)
  have s: "es_accept_proc s = None" "es_skt_server s = None" "es_poll_proc s = None"
    using st(3) none by simp_all
  have "\<exists>r' S2. until_exit (early_steps fl cfg) (?b, P, K) = Inr (r', S2) \<and> kept P K1 fd (es_on_read ?b) ?i S2"
    unfolding early_steps_def append_Cons append_Nil
  proof (rule keep_step [where f = "eventfd_step fl", OF st(1) k1], rule keep_part_step [OF k1])
    fix n P2
    assume k: "kept P K1 fd (es_on_read ?b) ?i (s\<lparr>es_poll_proc := Some n\<rparr>, P2, K1)"
    show "\<exists>r' S2. until_exit (if cf_enable_ipc cfg then [part_step fl Ev_socket (\<lambda>n s. s\<lparr>es_skt_server := Some n\<rparr>),
        call_step fl Ev_bind, call_step fl Ev_listen, part_step fl Ev_accept_task (\<lambda>n s. s\<lparr>es_accept_proc := Some n\<rparr>)]
        else []) (s\<lparr>es_poll_proc := Some n\<rparr>, P2, K1) = Inr (r', S2) \<and> kept P K1 fd (es_on_read ?b) ?i S2"
    proof (cases "cf_enable_ipc cfg")
      case True
      show ?thesis unfolding if_P [OF True]
        by (rule keep_part_step [OF k], simp add: s parts_of_def, simp, simp, rule keep_call_step, assumption,
            rule keep_call_step, assumption, rule keep_part_step, assumption)
          (simp_all add: s parts_of_def)
    qed (use k in auto)
  qed (simp_all add: s parts_of_def)
  then obtain r' S2 where R: "until_exit (early_steps fl cfg) (?b, P, K) = Inr (r', S2)"
      "kept P K1 fd (es_on_read ?b) ?i S2"
    by blast
  have "r = Inr ()" if "r' = Inr ()" using R(1) that st(1) by (cases r) (auto simp: early_steps_def)
  with R st(4,5) show ?thesis
    by (intro exI [of _ r'] exI [of _ S2] exI [of _ fd] exI [of _ K1] exI [of _ ?i]) (auto split: if_splits)
qed

lemma start_tasks_started: "\<exists>st. start_tasks s P = P\<lparr>vp_started := st\<rparr>"
  by (auto simp: start_tasks_def start_part_def split: option.splits intro: exI [of _ "vp_started P"])

lemma malloc_free:
  assumes "mheap_inv h" "cplus_mgr_malloc h = (Inr a, h1)"
  shows "cplus_mgr_free h1 a = h" "a \<noteq> CPLUS_NULL" "a \<notin> set (mh_live h)" "mheap_inv h1"
proof -
  show a: "a \<noteq> CPLUS_NULL" "a \<notin> set (mh_live h)" using heap.alc_ok [OF assms] by auto
  show "cplus_mgr_free h1 a = h" "mheap_inv h1"
    using assms a by (auto simp: cplus_mgr_malloc_def cplus_mgr_free_def mheap_inv_def Let_def split: if_splits)
qed

text \<open>The two ends of a construction.\<close>

lemma initialize_outcome:
  assumes ok: "ev_ok P"
  shows "\<exists>r P1 K1. event_server_initialize_object fl cfg cb (P, K) = Inr (r, (P1, K1)) \<and>
    (\<forall>i < vk_next K. vk_count K1 i = vk_count K i) \<and>
    (case r of
       Inl e \<Rightarrow> \<exists>m. P1 = P\<lparr>pw_next := m\<rparr>
     | Inr a \<Rightarrow> \<exists>h s Q st. cplus_mgr_malloc (vp_heap P) = (Inr a, h) \<and> server_holds (P\<lparr>vp_heap := h\<rparr>) s Q \<and>
         P1 = Q\<lparr>vp_servers := (vp_servers P)(a \<mapsto> s), vp_started := st\<rparr> \<and>
         es_on_read s = es_on_read (blank_server cfg cb) \<and> es_efd s \<noteq> INVALID_FD \<and>
         map_of (vp_fds Q) (es_efd s) = Some (vk_next K) \<and>
         K1 = new_counter (cf_init_val cfg) (convert_efd_flag (cf_flag cfg)) K)"
proof (cases "cplus_mgr_malloc (vp_heap P)")
  case (Pair x h)
  show ?thesis
  proof (cases x)
    case (Inl e)
    then have "h = vp_heap P" using Pair by (auto simp: cplus_mgr_malloc_def Let_def split: if_splits)
    then have "event_server_initialize_object fl cfg cb (P, K) = Inr (Inl e, (P, K))" "P = P\<lparr>pw_next := pw_next P\<rparr>"
      using Pair Inl by (simp_all add: event_server_initialize_object_def)
    then show ?thesis
      by (intro exI [of _ "Inl e"] exI [of _ P] exI [of _ K]) (simp, intro exI [of _ "pw_next P"], simp)
  next
    case (Inr a)
    have inv: "mheap_inv (vp_heap P)" using ok by (simp add: ev_ok_def)
    note m = malloc_free [OF inv Pair [unfolded Inr]]
    have a: "(vp_servers P)(a := None) = vp_servers P" using ok m(3) by (intro fun_upd_idem) (auto simp: ev_ok_def)
    let ?P0 = "P\<lparr>vp_heap := h\<rparr>" and ?new = "new_counter (cf_init_val cfg) (convert_efd_flag (cf_flag cfg)) K"
    obtain r s Q K0 fd K1 i where st: "until_exit (early_steps fl cfg) (blank_server cfg cb, ?P0, K) = Inr (r, (s, Q, K0))"
        "kept ?P0 K1 fd (es_on_read (blank_server cfg cb)) i (s, Q, K0)"
        "r = Inr () \<longrightarrow> i = Some (vk_next K) \<and> fd \<noteq> INVALID_FD" "K1 = K \<or> K1 = ?new" "r = Inr () \<longrightarrow> K1 = ?new"
      using early_steps_keep [of fl cfg cb ?P0 K] by (metis prod_cases3)
    have h: "server_holds ?P0 s Q" "K0 = K1" "es_efd s = fd" "es_on_read s = es_on_read (blank_server cfg cb)"
        "i \<noteq> None \<longrightarrow> map_of (vp_fds Q) fd = i"
      using st(2) by (simp_all add: kept_def)
    have others: "\<forall>i < vk_next K. vk_count K1 i = vk_count K i" using st(4) by (auto simp: new_counter_def)
    have srv: "vp_servers Q = vp_servers P" "vp_started Q = vp_started P" using h(1) by (auto simp: server_holds_def)
    show ?thesis
    proof (cases r)
      case (Inl e)
      have eq: "Q\<lparr>vp_servers := (vp_servers P)(a \<mapsto> s), vp_started := vp_started P\<rparr> = Q\<lparr>vp_servers := (vp_servers P)(a \<mapsto> s)\<rparr>"
        unfolding srv(2) [symmetric] by simp
      have "cplus_event_server_delete a (Q\<lparr>vp_servers := (vp_servers P)(a \<mapsto> s), vp_started := vp_started P\<rparr>) =
          Inr (P\<lparr>pw_next := pw_next Q\<rparr>)"
        using delete_server_holds [OF h(1), of a "vp_started P"] ok by (simp add: ev_ok_def a m(1))
      then have d: "cplus_event_server_delete a (Q\<lparr>vp_servers := (vp_servers P)(a \<mapsto> s)\<rparr>) = Inr (P\<lparr>pw_next := pw_next Q\<rparr>)"
        unfolding eq .
      show ?thesis
        using Pair Inr st(1) Inl d others h(2) srv(1)
        by (intro exI [of _ "Inl e"] exI [of _ "P\<lparr>pw_next := pw_next Q\<rparr>"] exI [of _ K1])
          (auto simp: event_server_initialize_object_def server_steps_def until_exit_append Let_def)
    next
      case (Inr u)
      obtain st' where st': "(if es_start s then start_tasks s Q else Q) = Q\<lparr>vp_started := st'\<rparr>"
      proof (cases "es_start s")
        case True
        then show thesis using start_tasks_started [of s Q] that by auto
      next
        case False
        then show thesis by (intro that [of "vp_started Q"]) simp
      qed
      let ?Q = "Q\<lparr>vp_servers := (vp_servers P)(a \<mapsto> s), vp_started := st'\<rparr>"
      have "event_server_initialize_object fl cfg cb (P, K) = Inr (Inr a, (?Q, K1))"
        using Pair \<open>x = Inr a\<close> st(1) Inr srv(1) st' h(2)
        by (simp add: event_server_initialize_object_def server_steps_def until_exit_append Let_def)
      moreover have "map_of (vp_fds Q) (es_efd s) = Some (vk_next K)" "es_efd s \<noteq> INVALID_FD" "K1 = ?new"
        using Inr st(3,5) h(3,5) by auto
      ultimately show ?thesis
        using Pair \<open>x = Inr a\<close> h(1,4) others
        by (intro exI [of _ "Inr a"] exI [of _ ?Q] exI [of _ K1]) auto
    qed
  qed
qed

text \<open>
  C16.  The construction of an event server always comes to an end.  When it fails, in whichever
  of its calls, the process has its heap, objects, descriptors, sockets and tasks as before and
  nothing was started; when it succeeds the deletion of the server gives all of it back.  The
  other event counters of the system are not touched.
\<close>

theorem event_server_cleans_up:
  assumes ok: "ev_ok P"
  shows "\<exists>r P1 K1. cplus_event_server_new_config fl cfg cb (P, K) = Inr (r, (P1, K1)) \<and>
    (\<forall>i < vk_next K. vk_count K1 i = vk_count K i) \<and>
    (case r of
       Inl e \<Rightarrow> P1\<lparr>pw_next := pw_next P\<rparr> = P
     | Inr a \<Rightarrow> a \<noteq> CPLUS_NULL \<and> (\<exists>P2. cplus_event_server_delete a P1 = Inr P2 \<and>
         P2\<lparr>pw_next := pw_next P, vp_started := vp_started P\<rparr> = P))"
proof -
  obtain r P1 K1 where run: "event_server_initialize_object fl cfg cb (P, K) = Inr (r, (P1, K1))"
      "\<forall>i < vk_next K. vk_count K1 i = vk_count K i" and out: "case r of
       Inl e \<Rightarrow> \<exists>m. P1 = P\<lparr>pw_next := m\<rparr>
     | Inr a \<Rightarrow> \<exists>h s Q st. cplus_mgr_malloc (vp_heap P) = (Inr a, h) \<and> server_holds (P\<lparr>vp_heap := h\<rparr>) s Q \<and>
         P1 = Q\<lparr>vp_servers := (vp_servers P)(a \<mapsto> s), vp_started := st\<rparr>"
    using initialize_outcome [OF ok, of fl cfg cb K] by (fastforce split: sum.splits)
  show ?thesis
  proof (cases r)
    case (Inl e)
    then show ?thesis
      using run out by (intro exI [of _ r] exI [of _ P1] exI [of _ K1]) (auto simp: cplus_event_server_new_config_def)
  next
    case (Inr a)
    then obtain h s Q st where o: "cplus_mgr_malloc (vp_heap P) = (Inr a, h)" "server_holds (P\<lparr>vp_heap := h\<rparr>) s Q"
        "P1 = Q\<lparr>vp_servers := (vp_servers P)(a \<mapsto> s), vp_started := st\<rparr>"
      using out by auto
    have inv: "mheap_inv (vp_heap P)" using ok by (simp add: ev_ok_def)
    note m = malloc_free [OF inv o(1)]
    have "(vp_servers P)(a := None) = vp_servers P" using ok m(3) by (intro fun_upd_idem) (auto simp: ev_ok_def)
    then have "cplus_event_server_delete a P1 = Inr (P\<lparr>pw_next := pw_next Q, vp_started := st\<rparr>)"
      using delete_server_holds [OF o(2), of a st] ok by (simp add: o(3) m(1) ev_ok_def)
    then show ?thesis
      using run Inr m(2) by (intro exI [of _ r] exI [of _ P1] exI [of _ K1])
        (simp add: cplus_event_server_new_config_def)
  qed
qed

section \<open>No event is lost\<close>

text \<open>
  The server \<open>a\<close> with an attached client \<open>c\<close> in one process and a connected client \<open>d\<close> in
  another; the run collects the values given to the callback.
\<close>

datatype ev_op = Add_attached u64 | Add_connected u64 | Poll_round

primrec ev_count :: "ev_op \<Rightarrow> int" where
  "ev_count (Add_attached n) = uint n"
| "ev_count (Add_connected n) = uint n"
| "ev_count Poll_round = 0"

primrec values_read :: "callback list option \<Rightarrow> int list" where
  "values_read None = []"
| "values_read (Some cs) = concat (map (\<lambda>c. case c of On_read f fd v p \<Rightarrow> [v] | _ \<Rightarrow> []) cs)"

primrec ev_step :: "ptr \<Rightarrow> ptr \<Rightarrow> ptr \<Rightarrow> ev_process \<Rightarrow> ev_process \<Rightarrow> ev_op \<Rightarrow> ev_kernel \<Rightarrow> (int list \<times> ev_kernel) exec" where
  "ev_step a c d P Q (Add_attached n) K =
     exec_bind (cplus_event_client_add_count c n (P, K)) (\<lambda>(r, K1). Inr ([], K1))"
| "ev_step a c d P Q (Add_connected n) K =
     exec_bind (cplus_event_client_add_count d n (Q, K)) (\<lambda>(r, K1). Inr ([], K1))"
| "ev_step a c d P Q Poll_round K =
     exec_bind (event_poll_proc None a (P, K)) (\<lambda>(r, K1). Inr (values_read r, K1))"

primrec ev_run ::
    "ptr \<Rightarrow> ptr \<Rightarrow> ptr \<Rightarrow> ev_process \<Rightarrow> ev_process \<Rightarrow> ev_op list \<Rightarrow> ev_kernel \<Rightarrow> (int list \<times> ev_kernel) exec" where
  "ev_run a c d P Q [] K = Inr ([], K)"
| "ev_run a c d P Q (f # fs) K = exec_bind (ev_step a c d P Q f K) (\<lambda>(vs, K1).
     exec_bind (ev_run a c d P Q fs K1) (\<lambda>(ws, K2). Inr (vs @ ws, K2)))"

text \<open>Everybody uses the counter \<open>i\<close>.\<close>

definition ev_linked :: "ptr \<Rightarrow> ptr \<Rightarrow> ptr \<Rightarrow> ev_process \<Rightarrow> ev_process \<Rightarrow> nat \<Rightarrow> bool" where
  "ev_linked a c d P Q i \<longleftrightarrow> (\<exists>s x y. vp_servers P a = Some s \<and> es_on_read s \<noteq> CPLUS_NULL \<and>
     map_of (vp_fds P) (es_efd s) = Some i \<and>
     vp_clients P c = Some x \<and> ec_server_efd x \<noteq> INVALID_FD \<and> map_of (vp_fds P) (ec_server_efd x) = Some i \<and>
     vp_clients Q d = Some y \<and> ec_server_efd y \<noteq> INVALID_FD \<and> map_of (vp_fds Q) (ec_server_efd y) = Some i)"

lemma write_counter:
  assumes "map_of (vp_fds P) fd = Some i" "uint (vk_count K i) + uint n < 2147483648"
  shows "ev_write fd n (P, K) = (Written, K\<lparr>vk_count := (vk_count K)(i := vk_count K i + n)\<rparr>)"
    "uint (vk_count K i + n) = uint (vk_count K i) + uint n"
proof -
  have "uint (-1 :: u64) = 18446744073709551615" by (simp add: unsigned_minus_1_eq_mask mask_eq_exp_minus_1)
  moreover have "0 \<le> uint (vk_count K i)" by simp
  ultimately have "n \<noteq> -1" using assms(2) by (intro notI) (hypsubst, linarith)
  then show "ev_write fd n (P, K) = (Written, K\<lparr>vk_count := (vk_count K)(i := vk_count K i + n)\<rparr>)"
    using assms by (simp add: ev_write_def)
  show "uint (vk_count K i + n) = uint (vk_count K i) + uint n"
    using assms(2) by (simp add: uint_word_ariths)
qed

lemma read_counter:
  assumes s: "vp_servers P a = Some s" "es_on_read s \<noteq> CPLUS_NULL" "map_of (vp_fds P) (es_efd s) = Some i"
    and small: "uint (vk_count K i) < 2147483648"
  defines "v \<equiv> (if vk_flags K i AND EFD_SEMAPHORE \<noteq> 0 then 1 else vk_count K i)"
  shows "\<exists>r K1. event_poll_proc None a (P, K) = Inr (r, K1) \<and> vk_flags K1 = vk_flags K \<and>
    sum_list (values_read r) + uint (vk_count K1 i) = uint (vk_count K i) \<and>
    values_read r = (if vk_count K i = 0 then [] else [uint v])"
proof (cases "vk_count K i = 0")
  case True
  then show ?thesis using s by (simp add: event_poll_proc_def get_server_def ev_poll_def)
next
  case False
  have "1 \<le> vk_count K i" using False by (simp add: word_le_nat_alt unat_eq_0 Suc_le_eq unat_gt_0)
  then have v: "v \<le> vk_count K i" "v \<noteq> 0" using False by (auto simp: v_def)
  have low: "uint v < 2147483648" using v(1) small by (simp add: word_le_def)
  have u: "uint (ucast v :: u32) = uint v" using low by (simp add: unsigned_ucast_eq take_bit_int_eq_self_iff)
  have "sint (ucast v :: u32) = uint v"
    using u low by (simp add: sint_uint signed_take_bit_eq_if_positive bit_iff_odd take_bit_int_eq_self_iff)
  moreover have "uint (vk_count K i - v) = uint (vk_count K i) - uint v" using v(1) by (simp add: uint_minus_simple_alt word_le_def)
  ultimately show ?thesis
    using s False by (simp add: event_poll_proc_def get_server_def ev_poll_def ev_read_def POLLIN_def v_def Let_def)
qed

lemma ev_run_conserves:
  "\<lbrakk>ev_linked a c d P Q i; uint (vk_count K i) + sum_list (map ev_count fs) < 2147483648\<rbrakk> \<Longrightarrow>
   \<exists>vs K1. ev_run a c d P Q fs K = Inr (vs, K1) \<and> vk_flags K1 = vk_flags K \<and>
     sum_list vs + uint (vk_count K1 i) = uint (vk_count K i) + sum_list (map ev_count fs) \<and>
     (\<forall>v\<in>set vs. 0 < v) \<and> (vk_flags K i AND EFD_SEMAPHORE \<noteq> 0 \<longrightarrow> set vs \<subseteq> {1})"
proof (induction fs arbitrary: K)
  case Nil
  then show ?case by simp
next
  case (Cons f fs)
  obtain s x y where l: "vp_servers P a = Some s" "es_on_read s \<noteq> CPLUS_NULL" "map_of (vp_fds P) (es_efd s) = Some i"
      "vp_clients P c = Some x" "ec_server_efd x \<noteq> INVALID_FD" "map_of (vp_fds P) (ec_server_efd x) = Some i"
      "vp_clients Q d = Some y" "ec_server_efd y \<noteq> INVALID_FD" "map_of (vp_fds Q) (ec_server_efd y) = Some i"
    using Cons.prems(1) unfolding ev_linked_def by blast
  have pos: "0 \<le> sum_list (map ev_count fs)" "0 \<le> ev_count f" "0 \<le> uint (vk_count K i)"
  proof -
    show "0 \<le> sum_list (map ev_count fs)"
    proof (rule sum_list_nonneg)
      fix n assume "n \<in> set (map ev_count fs)"
      then obtain g where "n = ev_count g" by auto
      then show "0 \<le> n" by (cases g) simp_all
    qed
  qed (cases f, simp_all)
  have total: "uint (vk_count K i) + ev_count f + sum_list (map ev_count fs) < 2147483648" using Cons.prems(2) by simp
  have low: "uint (vk_count K i) + ev_count f < 2147483648" "uint (vk_count K i) < 2147483648" using total pos by linarith+
  have "\<exists>ws K1. ev_step a c d P Q f K = Inr (ws, K1) \<and> vk_flags K1 = vk_flags K \<and>
    sum_list ws + uint (vk_count K1 i) = uint (vk_count K i) + ev_count f \<and>
    (\<forall>v\<in>set ws. 0 < v) \<and> (vk_flags K i AND EFD_SEMAPHORE \<noteq> 0 \<longrightarrow> set ws \<subseteq> {1})"
  proof (cases f)
    case (Add_attached n)
    then have "uint (vk_count K i) + uint n < 2147483648" using low(1) by simp
    from write_counter [OF l(6) this] show ?thesis
      using l(4,5) Add_attached by (simp add: cplus_event_client_add_count_def get_client_def)
  next
    case (Add_connected n)
    then have "uint (vk_count K i) + uint n < 2147483648" using low(1) by simp
    from write_counter [OF l(9) this] show ?thesis
      using l(7,8) Add_connected by (simp add: cplus_event_client_add_count_def get_client_def)
  next
    case Poll_round
    obtain r K1 where r: "event_poll_proc None a (P, K) = Inr (r, K1)" "vk_flags K1 = vk_flags K"
        "sum_list (values_read r) + uint (vk_count K1 i) = uint (vk_count K i)"
        "values_read r = (if vk_count K i = 0 then [] else
           [uint (if vk_flags K i AND EFD_SEMAPHORE \<noteq> 0 then 1 else vk_count K i)])"
      using read_counter [OF l(1-3) low(2)] by blast
    have "0 < uint (vk_count K i)" if "vk_count K i \<noteq> 0" using that by (simp add: word_neq_0_conv word_less_def)
    then show ?thesis using r Poll_round by auto
  qed
  then obtain ws K1 where step: "ev_step a c d P Q f K = Inr (ws, K1)" "vk_flags K1 = vk_flags K"
      "sum_list ws + uint (vk_count K1 i) = uint (vk_count K i) + ev_count f"
      "\<forall>v\<in>set ws. 0 < v" "vk_flags K i AND EFD_SEMAPHORE \<noteq> 0 \<longrightarrow> set ws \<subseteq> {1}"
    by blast
  have "0 \<le> sum_list ws" using step(4) by (intro sum_list_nonneg) auto
  then have "uint (vk_count K1 i) + sum_list (map ev_count fs) < 2147483648" using step(3) total by linarith
  from Cons.IH [OF Cons.prems(1) this] obtain vs K2 where "ev_run a c d P Q fs K1 = Inr (vs, K2)" "vk_flags K2 = vk_flags K1"
      "sum_list vs + uint (vk_count K2 i) = uint (vk_count K1 i) + sum_list (map ev_count fs)"
      "\<forall>v\<in>set vs. 0 < v" "vk_flags K1 i AND EFD_SEMAPHORE \<noteq> 0 \<longrightarrow> set vs \<subseteq> {1}"
    by blast
  then show ?case using step by auto
qed

lemma attach_linked:
  assumes "cplus_event_client_attach a P = Inr (c, P1)" "c \<noteq> CPLUS_NULL" "vp_servers P a = Some s"
  shows "vp_clients P1 c = Some \<lparr>ec_server_efd = es_efd s, ec_skt_client = None\<rparr>" "vp_servers P1 = vp_servers P"
    "vp_fds P1 = vp_fds P"
proof -
  obtain x h where m: "cplus_mgr_malloc (vp_heap P) = (x, h)" by (rule prod.exhaust)
  show "vp_clients P1 c = Some \<lparr>ec_server_efd = es_efd s, ec_skt_client = None\<rparr>" "vp_servers P1 = vp_servers P"
    "vp_fds P1 = vp_fds P"
    using assms m by (auto simp: cplus_event_client_attach_def get_server_def Let_def cplus_event_client_delete_def
        get_client_def split: sum.splits if_splits)
qed

text \<open>What a connection holds at its end.\<close>

lemma connect_linked:
  assumes "cplus_event_client_connect fl passed P = Inr (d, P1)" "d \<noteq> CPLUS_NULL"
  shows "\<exists>i y. passed = Some i \<and> vp_clients P1 d = Some y \<and> ec_server_efd y \<noteq> INVALID_FD \<and>
    map_of (vp_fds P1) (ec_server_efd y) = Some i"
proof -
  obtain x h where m: "cplus_mgr_malloc (vp_heap P) = (x, h)" by (rule prod.exhaust)
  obtain a where x: "x = Inr a" using assms m by (cases x) (auto simp: cplus_event_client_connect_def)
  let ?S = "(\<lparr>ec_server_efd = INVALID_FD, ec_skt_client = None\<rparr>, INVALID_FD, P\<lparr>vp_heap := h\<rparr>)"
  obtain r c fd Q where u: "until_exit (connect_steps fl passed) ?S = Inr (r, (c, fd, Q))"
    using assms(1) m x by (auto simp: cplus_event_client_connect_def elim!: exec_bindE)
  have ok: "r = Inr ()"
  proof (cases r)
    case (Inl e)
    then show ?thesis
      using assms m x u by (auto simp: cplus_event_client_connect_def Let_def elim!: exec_bindE)
  qed simp
  have P1: "d = a" "P1 = Q\<lparr>vp_clients := (vp_clients Q)(a \<mapsto> c)\<rparr>"
    using assms(1) m x u ok by (auto simp: cplus_event_client_connect_def Let_def)
  have "\<exists>i. passed = Some i \<and> ec_server_efd c \<noteq> INVALID_FD \<and> map_of (vp_fds Q) (ec_server_efd c) = Some i"
    using u ok lowest_unused_free(2) [of "map fst (vp_fds P)"]
    by (cases "fl Ev_socket"; cases "fl Ev_connect"; cases "fl Ev_recv_fd"; cases passed; cases "fl Ev_send")
      (auto simp: connect_steps_def new_part_def install_fd_def Let_def drop_part_def split: if_splits)
  then show ?thesis using P1 by simp
qed

text \<open>
  C15.  No event is lost and none is invented: whatever the order in which the attached client
  of a server, a client connected from another process and the rounds of the server come, the
  values the callback was given and what is left in the counter add up to the initial value and
  everything the clients added, as long as that is less than \<open>2 ^ 31\<close>; every call of the
  callback gives a positive value, and with \<open>EVENT_SERVER_FLAG_SYNC\<close> each gives one.
\<close>

theorem event_server_loses_nothing:
  assumes server: "ev_ok P" "cplus_event_server_new_config fl cfg (Some cb) (P, K) = Inr (Inr a, (P1, K1))"
      "cb_on_read cb \<noteq> CPLUS_NULL"
    and attached: "cplus_event_client_attach a P1 = Inr (c, P2)" "c \<noteq> CPLUS_NULL"
    and accepted: "accept_proc True a P2 = Inr (passed, P3)"
    and connected: "cplus_event_client_connect fl' passed Q = Inr (d, Q1)" "d \<noteq> CPLUS_NULL"
    and total: "uint (cf_init_val cfg) + sum_list (map ev_count fs) < 2147483648"
  shows "\<exists>vs K2. ev_run a c d P3 Q1 fs K1 = Inr (vs, K2) \<and>
    sum_list vs + uint (vk_count K2 (vk_next K)) = uint (cf_init_val cfg) + sum_list (map ev_count fs) \<and>
    (\<forall>v\<in>set vs. 0 < v) \<and> (cf_flag cfg AND EVENT_SERVER_FLAG_SYNC \<noteq> 0 \<longrightarrow> set vs \<subseteq> {1})"
proof -
  let ?i = "vk_next K"
  obtain h s R st where o: "server_holds (P\<lparr>vp_heap := h\<rparr>) s R"
      "P1 = R\<lparr>vp_servers := (vp_servers P)(a \<mapsto> s), vp_started := st\<rparr>"
      "es_on_read s = es_on_read (blank_server cfg (Some cb))" "map_of (vp_fds R) (es_efd s) = Some ?i"
      "es_efd s \<noteq> INVALID_FD" "K1 = new_counter (cf_init_val cfg) (convert_efd_flag (cf_flag cfg)) K"
    using initialize_outcome [OF server(1), of fl cfg "Some cb" K] server(2)
    by (auto simp: cplus_event_server_new_config_def)
  have s: "vp_servers P1 a = Some s" "map_of (vp_fds P1) (es_efd s) = Some ?i" using o(2,4) by simp_all
  note att = attach_linked [OF attached s(1)]
  have acc: "passed = Some ?i" "vp_servers P3 = vp_servers P2" "vp_clients P3 = vp_clients P2" "vp_fds P3 = vp_fds P2"
    using accepted att s by (auto simp: accept_proc_def get_server_def new_part_def drop_part_def)
  obtain y where y: "vp_clients Q1 d = Some y" "ec_server_efd y \<noteq> INVALID_FD" "map_of (vp_fds Q1) (ec_server_efd y) = Some ?i"
    using connect_linked [OF connected] acc(1) by auto
  have linked: "ev_linked a c d P3 Q1 ?i"
    unfolding ev_linked_def using att acc(2-4) s y o(3,5) server(3) by (simp add: blank_server_def)
  have count: "uint (vk_count K1 ?i) = uint (cf_init_val cfg)"
  proof -
    have "uint (cf_init_val cfg) < 2 ^ LENGTH(32)" by (rule unsigned_less)
    then show ?thesis by (simp add: o(6) new_counter_def unsigned_ucast_eq take_bit_int_eq_self_iff)
  qed
  have "(convert_efd_flag fl AND EFD_SEMAPHORE \<noteq> 0) = (fl AND EVENT_SERVER_FLAG_SYNC \<noteq> 0)" for fl
    by (auto simp: convert_efd_flag_def Let_def EFD_SEMAPHORE_def EFD_NONBLOCK_def EFD_CLOEXEC_def bit.conj_disj_distrib2)
  then have flags: "(vk_flags K1 ?i AND EFD_SEMAPHORE \<noteq> 0) = (cf_flag cfg AND EVENT_SERVER_FLAG_SYNC \<noteq> 0)"
    by (simp add: o(6) new_counter_def)
  show ?thesis using ev_run_conserves [OF linked, of K1 fs] total unfolding count flags by auto
qed

section \<open>Examples\<close>

definition example_ev :: ev_process where
  "example_ev = \<lparr>pw_parts = [], pw_next = 0, vp_heap = \<lparr>mh_live = [], mh_pick = (\<lambda>used. if 16 \<notin> set used then 16 else if 32 \<notin> set used then 32
       else 0)\<rparr>, vp_servers = (\<lambda>a. None), vp_clients = (\<lambda>a. None), vp_fds = [(0, 7)],
     vp_started = []\<rparr>"

definition example_ev_kernel :: ev_kernel where
  "example_ev_kernel = \<lparr>vk_count = (\<lambda>i. 0), vk_flags = (\<lambda>i. 0), vk_next = 8\<rparr>"

definition example_cfg :: event_server_config where
  "example_cfg = \<lparr>cf_enable_ipc = True, cf_init_val = 2, cf_flag = EVENT_SERVER_FLAG_SYNC, cf_start = False, cf_cb_param = 0\<rparr>"

definition example_cb :: cb_funcs where
  "example_cb = \<lparr>cb_on_error = 0, cb_on_timeout = 0, cb_on_read = 64\<rparr>"

lemma example_ev_ok: "ev_ok example_ev"
  by (simp add: ev_ok_def example_ev_def mheap_inv_def malloc_law_def)

lemmas example_ev_defs = example_ev_def example_ev_kernel_def cplus_event_server_new_config_def
  event_server_initialize_object_def cplus_mgr_malloc_def server_steps_def early_steps_def eventfd_step_def eventfd_def
  install_fd_def lowest_unused_def part_step_def call_step_def new_part_def blank_server_def convert_efd_flag_def

lemma example_linked:
  "\<exists>P1 K1 P2 P3 passed Q1.
    cplus_event_server_new_config (\<lambda>c. None) example_cfg (Some example_cb) (example_ev, example_ev_kernel) =
      Inr (Inr 16, (P1, K1)) \<and>
    cplus_event_client_attach 16 P1 = Inr (32, P2) \<and> accept_proc True 16 P2 = Inr (passed, P3) \<and>
    cplus_event_client_connect (\<lambda>c. None) passed example_ev = Inr (16, Q1)"
  by (simp add: example_ev_defs example_cfg_def cplus_event_client_attach_def get_server_def accept_proc_def
      drop_part_def cplus_event_client_connect_def connect_steps_def Let_def EVENT_SERVER_FLAG_SYNC_def
      EVENT_SERVER_FLAG_CLOEXEC_def EVENT_SERVER_FLAG_NONBLOCK_def)

theorem event_server_loses_nothing_witness:
  "\<exists>P1 K1 P2 P3 passed Q1 vs K2.
    cplus_event_server_new_config (\<lambda>c. None) example_cfg (Some example_cb) (example_ev, example_ev_kernel) =
      Inr (Inr 16, (P1, K1)) \<and>
    cplus_event_client_attach 16 P1 = Inr (32, P2) \<and> accept_proc True 16 P2 = Inr (passed, P3) \<and>
    cplus_event_client_connect (\<lambda>c. None) passed example_ev = Inr (16, Q1) \<and>
    ev_run 16 32 16 P3 Q1 [Add_attached 3, Poll_round, Add_connected 5, Poll_round] K1 = Inr (vs, K2) \<and>
    sum_list vs + uint (vk_count K2 8) = 10 \<and> set vs \<subseteq> {1}"
proof -
  obtain P1 K1 P2 P3 passed Q1 where ex:
    "cplus_event_server_new_config (\<lambda>c. None) example_cfg (Some example_cb) (example_ev, example_ev_kernel) =
      Inr (Inr 16, (P1, K1))"
    "cplus_event_client_attach 16 P1 = Inr (32, P2)" "accept_proc True 16 P2 = Inr (passed, P3)"
    "cplus_event_client_connect (\<lambda>c. None) passed example_ev = Inr (16, Q1)"
    using example_linked by blast
  have nz: "cb_on_read example_cb \<noteq> CPLUS_NULL" "(32 :: ptr) \<noteq> CPLUS_NULL" "(16 :: ptr) \<noteq> CPLUS_NULL"
    by (simp_all add: example_cb_def)
  have total: "uint (cf_init_val example_cfg) + sum_list (map ev_count [Add_attached 3, Poll_round, Add_connected 5, Poll_round])
      < 2147483648"
    by (simp add: example_cfg_def)
  have sync: "cf_flag example_cfg AND EVENT_SERVER_FLAG_SYNC \<noteq> 0" by (simp add: example_cfg_def EVENT_SERVER_FLAG_SYNC_def)
  from event_server_loses_nothing [OF example_ev_ok ex(1) nz(1) ex(2) nz(2) ex(3,4) nz(3) total] sync
  obtain vs K2 where "ev_run 16 32 16 P3 Q1 [Add_attached 3, Poll_round, Add_connected 5, Poll_round] K1 = Inr (vs, K2)"
      "sum_list vs + uint (vk_count K2 8) = 10" "set vs \<subseteq> {1}"
    by (auto simp: example_cfg_def example_ev_kernel_def)
  with ex show ?thesis by blast
qed

theorem event_server_cleans_up_witness:
  "\<exists>e P1 K1. cplus_event_server_new_config (\<lambda>c. if c = Ev_listen then Some EINVAL else None) example_cfg None
      (example_ev, example_ev_kernel) = Inr (Inl e, (P1, K1)) \<and> P1\<lparr>pw_next := 0\<rparr> = example_ev"
proof -
  let ?fl = "\<lambda>c. if c = Ev_listen then Some EINVAL else None"
  obtain r P1 K1 where run: "cplus_event_server_new_config ?fl example_cfg None (example_ev, example_ev_kernel) =
      Inr (r, (P1, K1))" and out: "case r of Inl e \<Rightarrow> P1\<lparr>pw_next := pw_next example_ev\<rparr> = example_ev
     | Inr a \<Rightarrow> a \<noteq> CPLUS_NULL \<and> (\<exists>P2. cplus_event_server_delete a P1 = Inr P2 \<and>
         P2\<lparr>pw_next := pw_next example_ev, vp_started := vp_started example_ev\<rparr> = example_ev)"
    using event_server_cleans_up [OF example_ev_ok, of ?fl example_cfg None example_ev_kernel] by blast
  have "isl r"
  proof (rule ccontr)
    assume "\<not> isl r"
    then show False
      using run by (auto simp: example_ev_defs example_cfg_def cplus_event_server_delete_def get_server_def Let_def
          EVENT_SERVER_FLAG_SYNC_def EVENT_SERVER_FLAG_CLOEXEC_def EVENT_SERVER_FLAG_NONBLOCK_def drop_part_def)
  qed
  then show ?thesis using run out by (cases r) (auto simp: example_ev_def)
qed

section \<open>Descriptors that are never closed\<close>

text \<open>
  A connected client owns the descriptor it received, but its deletion does not close it, nor
  does the constructor when the acknowledgement cannot be sent.
\<close>

theorem event_client_leaks_descriptor:
  assumes "vp_clients P d = Some y"
  shows "\<exists>P1. cplus_event_client_delete d P = Inr P1 \<and> vp_fds P1 = vp_fds P"
  using assms by (simp add: cplus_event_client_delete_def get_client_def Let_def drop_part_def split: option.splits)

text \<open>A server without \<^verbatim>\<open>on_read\<close> never reads the counter, so each of its rounds returns at once.\<close>

theorem event_server_without_reader_spins:
  assumes "vp_servers P a = Some s" "es_on_read s = CPLUS_NULL" "map_of (vp_fds P) (es_efd s) = Some i" "vk_count K i \<noteq> 0"
  shows "event_poll_proc None a (P, K) = Inr (Some [], K)"
  using assms by (simp add: event_poll_proc_def get_server_def ev_poll_def POLLIN_def)

text \<open>A value from \<open>2 ^ 31\<close> on reaches the callback as another number.\<close>

theorem event_value_truncated:
  assumes "vp_servers P a = Some s" "es_on_read s \<noteq> CPLUS_NULL" "map_of (vp_fds P) (es_efd s) = Some i"
    and "vk_count K i = 2147483648" "vk_flags K i AND EFD_SEMAPHORE = 0"
  shows "\<exists>K1. event_poll_proc None a (P, K) =
    Inr (Some [On_read (es_on_read s) (es_efd s) (-2147483648) (es_cb_param s)], K1)"
  using assms by (simp add: event_poll_proc_def get_server_def ev_poll_def POLLIN_def ev_read_def Let_def)

end
