(* ===== verification/Ipc_Server.thy ===== *)
theory Ipc_Server
  imports Ipc_Packet Taskpool Parts
begin

text \<open>
  Servers, clients and connections of \<^verbatim>\<open>src/ipc_server.c\<close> as objects: how they are made and
  deleted, and the rounds of \<open>ipc_server_proc\<close> that remove the connections that were closed and
  accept new ones.  A connection is a block of a memory pool and an element of a linked list,
  the newest in front; its socket, its task, its event and its buffers are numbered parts.
  Which calls succeed, and who connects, are arguments.
\<close>

section \<open>Connections\<close>

text \<open>What a connection holds; the receive stages are those of the record \<open>conn\<close>.\<close>

record conn_info =
  ci_status :: conn_status
  ci_sock :: "part option"
  ci_conn_task :: "part option"
  ci_evt_packet_received :: "part option"
  ci_recv_bufs :: "part option"
  ci_response_data :: "part option"
  ci_packet_databufs :: "part option"

datatype conn_call = Conn_bufs | Conn_task | Conn_event

text \<open>What \<open>ipc_conn_delete\<close> does before it gives the block back.\<close>

definition conn_release :: "conn_info \<Rightarrow> part_world \<Rightarrow> part_world" where
  "conn_release c W = drop_part (ci_sock c) (drop_part (ci_packet_databufs c) (drop_part (ci_response_data c)
     (drop_part (ci_evt_packet_received c) (drop_part (ci_recv_bufs c) (drop_part (ci_conn_task c) W)))))"

definition blank_conn :: "part \<Rightarrow> conn_info" where
  "blank_conn sock = \<lparr>ci_status = NOT_CONNECTED, ci_sock = Some sock, ci_conn_task = None,
     ci_evt_packet_received = None, ci_recv_bufs = None, ci_response_data = None, ci_packet_databufs = None\<rparr>"

text \<open>Filling a new block; the flag says whether everything could be made.\<close>

definition conn_build :: "(conn_call \<Rightarrow> bool) \<Rightarrow> bool \<Rightarrow> part \<Rightarrow> part_world \<Rightarrow> bool \<times> conn_info \<times> part_world" where
  "conn_build ok is_async sock W =
     (let c = blank_conn sock in
      if \<not> ok Conn_bufs then (False, c, W)
      else (case new_part W of (b, W1) \<Rightarrow>
        let c1 = c\<lparr>ci_recv_bufs := Some b\<rparr> in
        if is_async then
          (if \<not> ok Conn_task then (False, c1, W1)
           else (case new_part W1 of (t, W2) \<Rightarrow> (True, c1\<lparr>ci_conn_task := Some t\<rparr>, W2)))
        else
          (if \<not> ok Conn_event then (False, c1, W1)
           else (case new_part W1 of (v, W2) \<Rightarrow> (True, c1\<lparr>ci_evt_packet_received := Some v\<rparr>, W2)))))"

text \<open>What a round of a connection's task makes of its status, and of its socket.\<close>

definition status_after :: "conn_status \<Rightarrow> recv_outcome \<Rightarrow> conn_status" where
  "status_after st r = (if st = NOT_CONNECTED then st else (case r of
     Closed \<Rightarrow> NOT_CONNECTED
   | Failed e \<Rightarrow> (case e of Err_timedout \<Rightarrow> TIMEOUT | Err_notconn \<Rightarrow> NOT_CONNECTED | Err_intr \<Rightarrow> st | Err_other \<Rightarrow> FAULT)
   | Received bs \<Rightarrow> CONNECTED))"

definition closes :: "conn_status \<Rightarrow> recv_outcome \<Rightarrow> bool" where
  "closes st r \<longleftrightarrow> st \<noteq> NOT_CONNECTED \<and> r = Closed"

lemma ipc_conn_proc_status:
  assumes "\<And>bs. r \<noteq> Received bs" "cn_sock c"
  shows "\<exists>c'. ipc_conn_proc completed al c r s = Some (Inr (c', s)) \<and> cn_status c' = status_after (cn_status c) r \<and>
    (cn_sock c' \<longleftrightarrow> \<not> closes (cn_status c) r)"
  using assms by (cases r) (auto simp: ipc_conn_proc_def status_after_def closes_def Let_def split: recv_error.splits)

section \<open>The connections of a server\<close>

record ipc_conns =
  cs_max_conn :: u32
  cs_list :: linked_list
  cs_pool :: mempool
  cs_conns :: "ptr \<Rightarrow> conn_info"
  cs_world :: part_world
  cs_connected :: "part list"

definition ipc_conn_delete :: "ptr \<Rightarrow> ipc_conns \<Rightarrow> ipc_conns" where
  "ipc_conn_delete a C = C\<lparr>cs_world := conn_release (cs_conns C a) (cs_world C),
     cs_conns := (cs_conns C)(a := (cs_conns C a)\<lparr>ci_status := NOT_CONNECTED\<rparr>),
     cs_pool := snd (cplus_mempool_free (cs_pool C) a)\<rparr>"

definition ipc_conn_create :: "(conn_call \<Rightarrow> bool) \<Rightarrow> part \<Rightarrow> ipc_conns \<Rightarrow> ptr \<times> ipc_conns" where
  "ipc_conn_create ok sock C = (case cplus_mempool_alloc (cs_pool C) of
     (Inl e, mp) \<Rightarrow> (CPLUS_NULL, C\<lparr>cs_pool := mp\<rparr>)
   | (Inr a, mp) \<Rightarrow> (case conn_build ok True sock (cs_world C) of (done, c, W) \<Rightarrow>
       let C1 = C\<lparr>cs_pool := mp, cs_conns := (cs_conns C)(a := c), cs_world := W\<rparr>
       in if done then (a, C1) else (CPLUS_NULL, ipc_conn_delete a C1)))"

definition find_disconnect_conn :: "ipc_conns \<Rightarrow> ptr \<Rightarrow> int" where
  "find_disconnect_conn C a = (if ci_status (cs_conns C a) = NOT_CONNECTED then 0 else 1)"

partial_function (option) reap :: "ipc_conns \<Rightarrow> ipc_conns option" where
  "reap C = do {
     (r, L) \<leftarrow> cplus_llist_pop_if (cs_list C) (find_disconnect_conn C);
     let C1 = C\<lparr>cs_list := L\<rparr>;
     (case r of
        Inl e \<Rightarrow> Some C1
      | Inr a \<Rightarrow> if a = CPLUS_NULL then Some C1 else reap (ipc_conn_delete a C1)) }"

text \<open>Somebody connected: a connection for the new socket.\<close>

definition admit :: "(conn_call \<Rightarrow> bool) \<Rightarrow> ipc_conns \<Rightarrow> ipc_conns option" where
  "admit ok C = (case new_part (cs_world C) of (sock, W) \<Rightarrow>
     (case ipc_conn_create ok sock (C\<lparr>cs_world := W\<rparr>) of (a, C1) \<Rightarrow>
      if a = CPLUS_NULL then Some C1 else do {
        let C2 = C1\<lparr>cs_conns := (cs_conns C1)(a := (cs_conns C1 a)\<lparr>ci_status := CONNECTED\<rparr>)\<rparr>;
        (r, L) \<leftarrow> cplus_llist_push_front (cs_list C2) a;
        Some (C2\<lparr>cs_list := L, cs_connected := cs_connected C2 @ [sock]\<rparr>) }))"

text \<open>One round; \<open>accepted\<close> says whether somebody connects.\<close>

definition ipc_server_proc :: "bool \<Rightarrow> (conn_call \<Rightarrow> bool) \<Rightarrow> ipc_conns \<Rightarrow> ipc_conns option" where
  "ipc_server_proc accepted ok C = do {
     C1 \<leftarrow> reap C;
     if cplus_llist_get_size (cs_list C1) < cs_max_conn C1 \<and> accepted then admit ok C1 else Some C1 }"

text \<open>
  A round of the task of the connection \<open>a\<close>.  What is received may need a larger data buffer or
  response buffer: in all, the round keeps a buffer, makes one where there is none (or makes the one there is
  larger), or loses it, since a reallocation that fails releases the old block.
\<close>

datatype buffer_change = Keep | Make | Lose

definition rebuffer :: "buffer_change \<Rightarrow> part option \<Rightarrow> part_world \<Rightarrow> part option \<times> part_world" where
  "rebuffer change x W = (case change of Keep \<Rightarrow> (x, W)
   | Make \<Rightarrow> if x = None then map_prod Some id (new_part W) else (x, W)
   | Lose \<Rightarrow> (None, drop_part x W))"

definition conn_round ::
    "ptr \<Rightarrow> recv_outcome \<Rightarrow> buffer_change \<Rightarrow> buffer_change \<Rightarrow> ipc_conns \<Rightarrow> ipc_conns" where
  "conn_round a r data resp C =
     (let c = cs_conns C a;
          received = (ci_status c \<noteq> NOT_CONNECTED \<and> (case r of Received bs \<Rightarrow> True | _ \<Rightarrow> False));
          W1 = (if closes (ci_status c) r then drop_part (ci_sock c) (cs_world C) else cs_world C)
      in case rebuffer (if received then data else Keep) (ci_packet_databufs c) W1 of (d, W2) \<Rightarrow>
         case rebuffer (if received then resp else Keep) (ci_response_data c) W2 of (e, W3) \<Rightarrow>
         C\<lparr>cs_world := W3, cs_conns := (cs_conns C)(a := c\<lparr>ci_status := status_after (ci_status c) r,
           ci_sock := (if closes (ci_status c) r then None else ci_sock c),
           ci_packet_databufs := d, ci_response_data := e\<rparr>)\<rparr>)"

text \<open>The loop of the destructor frees the block of each connection a second time.\<close>

partial_function (option) delete_conns :: "ipc_conns \<Rightarrow> ipc_conns option" where
  "delete_conns C = do {
     (r, L) \<leftarrow> cplus_llist_pop_back (cs_list C);
     let C1 = C\<lparr>cs_list := L\<rparr>;
     (case r of
        Inl e \<Rightarrow> Some C1
      | Inr a \<Rightarrow> if a = CPLUS_NULL then Some C1 else
          (let C2 = ipc_conn_delete a C1 in
           delete_conns (C2\<lparr>cs_pool := snd (cplus_mempool_free (cs_pool C2) a)\<rparr>))) }"

section \<open>Servers\<close>

datatype serv_call = Accept_socket | Bind_socket | Conn_list | Conn_pool | Conn_sect | Listen_socket | Accept_task

text \<open>The calls of the constructor, and what the destructor releases, in its order.\<close>

definition serv_calls :: "serv_call list" where
  "serv_calls = [Accept_socket, Bind_socket, Conn_list, Conn_pool, Conn_sect, Listen_socket, Accept_task]"

definition serv_releases :: "serv_call list" where
  "serv_releases = [Accept_task, Conn_list, Conn_pool, Conn_sect, Accept_socket]"

definition ipc_server_delete :: "serv_call set \<Rightarrow> ipc_conns \<Rightarrow> (serv_call list \<times> ipc_conns) option" where
  "ipc_server_delete made C = do {
     C1 \<leftarrow> (if Conn_list \<in> made then delete_conns C else Some C);
     Some (filter (\<lambda>x. x \<in> made) serv_releases, C1) }"

definition new_conns ::
    "u32 \<Rightarrow> mheap \<Rightarrow> (ptr \<rightharpoonup> llist_node) \<Rightarrow> ptr \<Rightarrow> ptr \<Rightarrow> (u32 \<Rightarrow> ptr) \<Rightarrow> (u32 \<Rightarrow> ptr) \<Rightarrow> mem \<Rightarrow> mem \<Rightarrow> part_world \<Rightarrow>
     ipc_conns cresult" where
  "new_conns max_connection heap nodes obj1 obj2 mal1 mal2 mem1 mem2 W =
     (case fst (cplus_llist_prev_new heap nodes obj2 mal2 mem2 max_connection) of
        Inl e \<Rightarrow> Inl e
      | Inr L \<Rightarrow> (case cplus_mempool_new obj1 mal1 mem1 max_connection 160 of
          Inl e \<Rightarrow> Inl e
        | Inr mp \<Rightarrow> Inr \<lparr>cs_max_conn = max_connection, cs_list = L, cs_pool = mp, cs_conns = (\<lambda>a. blank_conn 0),
            cs_world = W, cs_connected = []\<rparr>))"

text \<open>
  The constructor, for the connections \<open>C\<close> that its list and its pool make up: the calls up
  to the first that fails; then everything is released.
\<close>

definition ipc_server_new :: "(serv_call \<Rightarrow> bool) \<Rightarrow> ipc_conns \<Rightarrow> ((serv_call list + unit) \<times> ipc_conns) option" where
  "ipc_server_new ok C = (let made = takeWhile ok serv_calls in
     if made = serv_calls then Some (Inr (), C)
     else map_option (map_prod Inl id) (ipc_server_delete (set made) C))"

definition cplus_ipc_server_new ::
    "(serv_call \<Rightarrow> bool) \<Rightarrow> buf \<Rightarrow> u32 \<Rightarrow> bool \<Rightarrow> ipc_conns \<Rightarrow> ((serv_call list + unit) cresult \<times> ipc_conns) option" where
  "cplus_ipc_server_new ok name max_connection cb_funcs C =
     (if name = None \<or> max_connection = 0 \<or> \<not> cb_funcs then Some (Inl EINVAL, C)
      else map_option (map_prod Inr id) (ipc_server_new ok C))"

definition cplus_ipc_server_delete :: "ipc_conns \<Rightarrow> (serv_call list \<times> ipc_conns) option" where
  "cplus_ipc_server_delete = ipc_server_delete (set serv_calls)"

section \<open>Clients\<close>

datatype clt_call = Clt_alloc | Clt_socket | Clt_connect | Clt_heartbeat | Clt_conn_alloc

definition client_conn_delete :: "conn_info \<Rightarrow> part option \<Rightarrow> part_world \<Rightarrow> part_world" where
  "client_conn_delete c block W = drop_part block (conn_release c W)"

record ipc_client =
  ic_block :: part
  ic_is_async :: bool
  ic_server_socket :: "part option"
  ic_conn :: "(part \<times> conn_info) option"

definition ipc_client_delete :: "ipc_client \<Rightarrow> part_world \<Rightarrow> part_world" where
  "ipc_client_delete c W = drop_part (Some (ic_block c))
     (case ic_conn c of None \<Rightarrow> W | Some (b, i) \<Rightarrow> client_conn_delete i (Some b) W)"

definition cplus_ipc_client_delete :: "ipc_client \<Rightarrow> part_world \<Rightarrow> part_world" where
  "cplus_ipc_client_delete = ipc_client_delete"

text \<open>The connection of a client has a block of its own; a failed allocation of it makes no connection.\<close>

definition client_conn_create ::
    "(clt_call \<Rightarrow> bool) \<Rightarrow> (conn_call \<Rightarrow> bool) \<Rightarrow> bool \<Rightarrow> part \<Rightarrow> part_world \<Rightarrow> (part \<times> conn_info) option \<times> part_world" where
  "client_conn_create ok cok is_async sock W =
     (if \<not> ok Clt_conn_alloc then (None, W)
      else (case new_part W of (b, W1) \<Rightarrow> (case conn_build cok is_async sock W1 of (done, c, W2) \<Rightarrow>
        if done then (Some (b, c), W2) else (None, client_conn_delete c (Some b) W2))))"

definition ipc_client_new ::
    "(clt_call \<Rightarrow> bool) \<Rightarrow> (conn_call \<Rightarrow> bool) \<Rightarrow> bool \<Rightarrow> part_world \<Rightarrow> ipc_client option \<times> part_world" where
  "ipc_client_new ok cok on_received W =
     (if \<not> ok Clt_alloc then (None, W)
      else (case new_part W of (b, W1) \<Rightarrow>
        let c = \<lparr>ic_block = b, ic_is_async = False, ic_server_socket = None, ic_conn = None\<rparr> in
        if \<not> ok Clt_socket then (None, ipc_client_delete c W1)
        else (case new_part W1 of (s, W2) \<Rightarrow>
          let c1 = c\<lparr>ic_server_socket := Some s, ic_is_async := on_received\<rparr> in
          if \<not> ok Clt_connect then (None, ipc_client_delete c1 W2)
          else if \<not> ok Clt_heartbeat then (None, ipc_client_delete c1 (drop_part (Some s) W2))
          else (case client_conn_create ok cok (ic_is_async c1) s W2 of
              (None, W3) \<Rightarrow> (None, ipc_client_delete c1 W3)
            | (Some (b', i), W3) \<Rightarrow>
                (Some (c1\<lparr>ic_conn := Some (b', i\<lparr>ci_status := CONNECTED\<rparr>)\<rparr>), W3)))))"

definition cplus_ipc_client_new ::
    "(clt_call \<Rightarrow> bool) \<Rightarrow> (conn_call \<Rightarrow> bool) \<Rightarrow> buf \<Rightarrow> bool \<Rightarrow> part_world \<Rightarrow> ipc_client option \<times> part_world" where
  "cplus_ipc_client_new ok cok name on_received W =
     (if name = None then (None, W) else ipc_client_new ok cok on_received W)"

section \<open>The parts of the connections\<close>

definition parts_in :: "conn_info \<Rightarrow> part set" where
  "parts_in c = {n. Some n \<in> {ci_sock c, ci_conn_task c, ci_evt_packet_received c, ci_recv_bufs c,
     ci_response_data c, ci_packet_databufs c}}"

text \<open>The parts that belong to none of the connections \<open>as\<close>.\<close>

definition others :: "ipc_conns \<Rightarrow> ptr list \<Rightarrow> part list" where
  "others C as = filter (\<lambda>n. \<forall>a\<in>set as. n \<notin> parts_in (cs_conns C a)) (pw_parts (cs_world C))"

lemma conn_release_parts:
  "conn_release c W = W\<lparr>pw_parts := filter (\<lambda>n. n \<notin> parts_in c) (pw_parts W)\<rparr>"
proof -
  have "pw_parts (conn_release c W) = filter (\<lambda>n. n \<notin> parts_in c) (pw_parts W)"
    by (simp add: conn_release_def drop_part_filter) (rule filter_cong, auto simp: parts_in_def)
  then show ?thesis by (simp add: conn_release_def drop_part_filter)
qed

lemma parts_old_filter: "parts_old W \<Longrightarrow> parts_old (W\<lparr>pw_parts := filter P (pw_parts W)\<rparr>)"
  by (simp add: parts_old_def)

lemma parts_old_new: "parts_old W \<Longrightarrow> parts_old (snd (new_part W))"
  by (auto simp: parts_old_def new_part_def)

lemma others_update [simp]:
  "others (C\<lparr>cs_list := L\<rparr>) as = others C as" "others (C\<lparr>cs_pool := mp\<rparr>) as = others C as"
  "others (C\<lparr>cs_connected := ps\<rparr>) as = others C as"
  by (simp_all add: others_def)

lemma others_cong:
  "\<lbrakk>pw_parts (cs_world C) = pw_parts (cs_world D); \<And>a. a \<in> set as \<Longrightarrow> parts_in (cs_conns C a) = parts_in (cs_conns D a)\<rbrakk> \<Longrightarrow>
    others C as = others D as"
  by (simp add: others_def)

lemma ipc_conn_delete_facts:
  "cs_list (ipc_conn_delete a C) = cs_list C" "cs_max_conn (ipc_conn_delete a C) = cs_max_conn C"
  "cs_pool (ipc_conn_delete a C) = mp_free (cs_pool C) a"
  "b \<noteq> a \<Longrightarrow> cs_conns (ipc_conn_delete a C) b = cs_conns C b"
  "cs_connected (ipc_conn_delete a C) = cs_connected C"
  "parts_old (cs_world C) \<Longrightarrow> parts_old (cs_world (ipc_conn_delete a C))"
  "a \<notin> set as \<Longrightarrow> set bs = insert a (set as) \<Longrightarrow> others (ipc_conn_delete a C) as = others C bs"
  by (auto simp: ipc_conn_delete_def mp_free_def conn_release_parts parts_old_filter others_def
      intro!: filter_cong)

text \<open>The connections of a server: the address and the status of each, the newest first.\<close>

definition conns_rep :: "nat \<Rightarrow> part list \<Rightarrow> ipc_conns \<Rightarrow> (ptr \<times> conn_status) list \<Rightarrow> bool" where
  "conns_rep cap base C cs \<longleftrightarrow>
     tasks.queued cap (cs_pool C) (cs_list C) (map fst cs) \<and>
     (\<forall>(a, st)\<in>set cs. ci_status (cs_conns C a) = st) \<and>
     unat (cs_max_conn C) = cap \<and> parts_old (cs_world C) \<and> others C (map fst cs) = base"

definition alive :: "(ptr \<times> conn_status) list \<Rightarrow> (ptr \<times> conn_status) list" where
  "alive = filter (\<lambda>(a, st). st \<noteq> NOT_CONNECTED)"

lemma alive_remove:
  "\<lbrakk>m < length cs; snd (cs ! m) = NOT_CONNECTED\<rbrakk> \<Longrightarrow> alive (remove_at m cs) = alive cs"
proof -
  assume m: "m < length cs" "snd (cs ! m) = NOT_CONNECTED"
  have "alive cs = alive (take m cs @ cs ! m # drop (Suc m) cs)" using id_take_nth_drop [OF m(1)] by simp
  then show ?thesis using m(2) by (simp add: alive_def remove_at_def split: prod.splits)
qed

lemma conns_rep_list:
  "\<lbrakk>conns_rep cap base C cs; list_rep cap L (map fst cs)\<rbrakk> \<Longrightarrow> conns_rep cap base (C\<lparr>cs_list := L\<rparr>) cs"
  unfolding conns_rep_def tasks.queued_def by simp

lemma reap_step:
  "conns_rep cap base C cs \<Longrightarrow> \<exists>C'. reap C = Some C' \<and> conns_rep cap base C' (alive cs)"
proof (induction "length cs" arbitrary: C cs)
  case (0 cs C)
  then have q: "tasks.queued cap (cs_pool C) (cs_list C) []" "cs = []" by (auto simp: conns_rep_def)
  then obtain L where "cplus_llist_pop_if (cs_list C) (find_disconnect_conn C) = Some (Inl ENOENT, L)"
      "list_rep cap L []"
    using list_pop_if [of cap "cs_list C" "[]" "find_disconnect_conn C"] by (auto simp: tasks.queued_def)
  then show ?case
    using 0 q by (subst reap.simps) (auto simp: conns_rep_def alive_def tasks.queued_def others_def)
next
  case (Suc n cs C)
  let ?f = "find_disconnect_conn C"
  let ?as = "map fst cs"
  have rep: "tasks.queued cap (cs_pool C) (cs_list C) ?as" and st: "\<And>a s. (a, s) \<in> set cs \<Longrightarrow> ci_status (cs_conns C a) = s"
    using Suc.prems by (auto simp: conns_rep_def)
  have lst: "list_rep cap (cs_list C) ?as" and dist: "distinct ?as" using rep by (auto simp: tasks.queued_def)
  obtain L where L: "case first_match (\<lambda>d. ?f d = 0) ?as of
      None \<Rightarrow> cplus_llist_pop_if (cs_list C) ?f = Some (Inl ENOENT, L) \<and> list_rep cap L ?as
    | Some m \<Rightarrow> cplus_llist_pop_if (cs_list C) ?f = Some (Inr (?as ! m), L) \<and> list_rep cap L (remove_at m ?as)"
    using list_pop_if [OF lst] by blast
  show ?case
  proof (cases "first_match (\<lambda>d. ?f d = 0) ?as")
    case None
    then have "alive cs = cs"
      using st by (auto simp: alive_def first_match_None find_disconnect_conn_def filter_id_conv split: if_splits)
    then show ?thesis
      using L None conns_rep_list [OF Suc.prems] by (subst reap.simps) simp
  next
    case (Some m)
    then have m: "m < length cs" by (simp add: first_match_Some)
    have dead: "?f (?as ! m) = 0" using Some m by (simp add: first_match_Some)
    let ?a = "?as ! m" and ?cs = "remove_at m cs"
    have a: "?a \<noteq> CPLUS_NULL" using list_rep_nonnull [OF lst] m by (metis length_map nth_mem)
    have "(?a, snd (cs ! m)) \<in> set cs" using m by simp
    from st [OF this] dead m have "snd (cs ! m) = NOT_CONNECTED" by (auto simp: find_disconnect_conn_def split: if_splits)
    then have keep: "alive ?cs = alive cs" using m by (intro alive_remove)
    have split: "cs = take m cs @ cs ! m # drop (Suc m) cs" using id_take_nth_drop [OF m] .
    have set: "set ?as = insert ?a (set (map fst ?cs))" "?a \<notin> set (map fst ?cs)"
    proof -
      have "?as = take m ?as @ ?a # drop (Suc m) ?as" using id_take_nth_drop [of m ?as] m by simp
      then have "distinct (take m ?as @ ?a # drop (Suc m) ?as)" "set ?as = set (take m ?as @ ?a # drop (Suc m) ?as)"
        using dist by simp_all
      then show "set ?as = insert ?a (set (map fst ?cs))" "?a \<notin> set (map fst ?cs)"
        by (auto simp: remove_at_def take_map drop_map)
    qed
    let ?C = "ipc_conn_delete ?a (C\<lparr>cs_list := L\<rparr>)"
    have step: "reap C = reap ?C" using L Some a by (subst reap.simps) simp
    have "tasks.queued cap (cs_pool ?C) (cs_list ?C) (map fst ?cs)"
      using queued_remove [OF rep] L Some m by (simp add: ipc_conn_delete_facts map_remove_at)
    moreover have "\<forall>(a, s)\<in>set ?cs. ci_status (cs_conns ?C a) = s"
    proof clarify
      fix b s assume b: "(b, s) \<in> set ?cs"
      then have "b \<noteq> ?a" using set(2) by force
      moreover have "(b, s) \<in> set cs" using b by (auto simp: remove_at_def dest: in_set_takeD in_set_dropD)
      ultimately show "ci_status (cs_conns ?C b) = s" using st by (simp add: ipc_conn_delete_facts)
    qed
    moreover have "others ?C (map fst ?cs) = others (C\<lparr>cs_list := L\<rparr>) ?as"
      by (rule ipc_conn_delete_facts(7) [OF set(2,1)])
    ultimately have "conns_rep cap base ?C ?cs"
      using Suc.prems by (auto simp: conns_rep_def ipc_conn_delete_facts others_def)
    moreover have "n = length ?cs" using Suc.hyps(2) m by (simp add: remove_at_def)
    ultimately show ?thesis using Suc.hyps(1) [of ?cs ?C] step keep by simp
  qed
qed

section \<open>Accepting\<close>

lemma conn_build_parts:
  assumes build: "conn_build ok is_async sock W1 = (made, c, W)" and new: "new_part W0 = (sock, W1)" and old: "parts_old W0"
  shows "filter (\<lambda>n. n \<notin> parts_in c) (pw_parts W) = pw_parts W0" "parts_old W" "\<And>n. n \<in> parts_in c \<Longrightarrow> pw_next W0 \<le> n"
    "made = (ok Conn_bufs \<and> ok (if is_async then Conn_task else Conn_event))" "ci_status c = NOT_CONNECTED"
proof -
  have below: "n < pw_next W0" if "n \<in> set (pw_parts W0)" for n using old that by (simp add: parts_old_def)
  have fresh: "filter (\<lambda>n. n \<notin> X) (pw_parts W0) = pw_parts W0" if "\<And>n. n \<in> X \<Longrightarrow> pw_next W0 \<le> n" for X
    using old that by (force simp: parts_old_def filter_id_conv)
  have "pw_next W0 \<le> n" if "n \<in> parts_in c" for n
    using build new that by (auto simp: conn_build_def blank_conn_def new_part_def parts_in_def Let_def split: if_splits)
  then show up: "\<And>n. n \<in> parts_in c \<Longrightarrow> pw_next W0 \<le> n" .
  have "filter (\<lambda>n. n \<notin> parts_in c) (pw_parts W) = filter (\<lambda>n. n \<notin> parts_in c) (pw_parts W0)"
    using build new by (auto simp: conn_build_def blank_conn_def new_part_def parts_in_def Let_def split: if_splits)
  with fresh [of "parts_in c", OF up] show "filter (\<lambda>n. n \<notin> parts_in c) (pw_parts W) = pw_parts W0" by simp
  show "parts_old W" "made = (ok Conn_bufs \<and> ok (if is_async then Conn_task else Conn_event))" "ci_status c = NOT_CONNECTED"
    using build new
    by (auto simp: conn_build_def blank_conn_def new_part_def parts_old_def Let_def split: if_splits dest!: below)
qed

lemma conn_build_release:
  assumes "conn_build ok is_async sock W1 = (made, c, W)" "parts_old W1"
  shows "pw_parts (conn_release c W) = filter (\<lambda>n. n \<noteq> sock) (pw_parts W1)"
proof -
  have below: "n < pw_next W1" if "n \<in> set (pw_parts W1)" for n using assms(2) that by (simp add: parts_old_def)
  have "filter (\<lambda>n. n \<notin> parts_in c) (pw_parts W) = filter (\<lambda>n. n \<notin> parts_in c) (pw_parts W1)"
    using assms(1) by (auto simp: conn_build_def blank_conn_def new_part_def parts_in_def Let_def split: if_splits)
  also have "\<dots> = filter (\<lambda>n. n \<noteq> sock) (pw_parts W1)"
    using assms(1) below
    by (intro filter_cong) (force simp: conn_build_def blank_conn_def new_part_def parts_in_def Let_def split: if_splits)+
  finally have "filter (\<lambda>n. n \<notin> parts_in c) (pw_parts W) = filter (\<lambda>n. n \<noteq> sock) (pw_parts W1)" .
  then show ?thesis by (simp add: conn_release_parts)
qed

lemma others_new_conn:
  assumes "filter (\<lambda>n. n \<notin> parts_in c) (pw_parts (cs_world D)) = pw_parts (cs_world C)" "cs_conns D a = c"
    "\<And>b. b \<in> set as \<Longrightarrow> cs_conns D b = cs_conns C b"
  shows "others D (a # as) = others C as"
proof -
  have "others D (a # as) = filter (\<lambda>n. \<forall>b\<in>set as. n \<notin> parts_in (cs_conns C b))
      (filter (\<lambda>n. n \<notin> parts_in c) (pw_parts (cs_world D)))"
    using assms(2,3) by (auto simp: others_def intro!: filter_cong)
  then show ?thesis using assms(1) by (simp add: others_def)
qed

lemma admit_step:
  assumes rep: "conns_rep cap base C cs" and room: "length cs < cap"
  shows "\<exists>C' a. admit ok C = Some C' \<and> a \<notin> fst ` set cs \<and>
    conns_rep cap base C' (if ok Conn_bufs \<and> ok Conn_task then (a, CONNECTED) # cs else cs)"
proof -
  have q: "tasks.queued cap (cs_pool C) (cs_list C) (map fst cs)" "parts_old (cs_world C)"
      "unat (cs_max_conn C) = cap" "others C (map fst cs) = base"
    and st: "\<And>a s. (a, s) \<in> set cs \<Longrightarrow> ci_status (cs_conns C a) = s"
    using rep by (auto simp: conns_rep_def)
  obtain a mp L where step: "cplus_mempool_alloc (cs_pool C) = (Inr a, mp)"
      "cplus_llist_push_front (cs_list C) a = Some (Inr (), L)" "a \<notin> set (map fst cs)"
      "tasks.queued cap mp L (a # map fst cs)"
    by (rule tasks.enqueue [OF q(1)]) (use room in simp)
  have a: "a \<noteq> CPLUS_NULL" using list_rep_nonnull [of cap L "a # map fst cs"] step(4) by (auto simp: tasks.queued_def)
  obtain sock W1 where new: "new_part (cs_world C) = (sock, W1)" by (cases "new_part (cs_world C)")
  obtain made c W where build: "conn_build ok True sock W1 = (made, c, W)" by (rule prod_cases3)
  note facts = conn_build_parts [OF build new q(2)]
  let ?D = "C\<lparr>cs_pool := mp, cs_conns := (cs_conns C)(a := c), cs_world := W\<rparr>"
  have other: "b \<in> set (map fst cs) \<Longrightarrow> cs_conns ?D b = cs_conns C b" for b using step(3) by auto
  show ?thesis
  proof (cases made)
    case True
    let ?E = "C\<lparr>cs_world := W, cs_pool := mp, cs_conns := (cs_conns C)(a := c\<lparr>ci_status := CONNECTED\<rparr>), cs_list := L,
      cs_connected := cs_connected C @ [sock]\<rparr>"
    have "others ?E (a # map fst cs) = others C (map fst cs)"
      using facts(1) step(3) by (intro others_new_conn [where c = "c\<lparr>ci_status := CONNECTED\<rparr>"]) (auto simp: parts_in_def)
    then have "conns_rep cap base ?E ((a, CONNECTED) # cs)"
      using step(3,4) q st facts(2) by (force simp: conns_rep_def)
    moreover have "admit ok C = Some ?E"
      using True a step build new by (simp add: admit_def ipc_conn_create_def)
    ultimately show ?thesis using True facts(4) step(3) by auto
  next
    case False
    let ?F = "ipc_conn_delete a ?D"
    have "others ?F (map fst cs) = others ?D (a # map fst cs)"
      using step(3) by (intro ipc_conn_delete_facts(7)) simp_all
    also have "\<dots> = others C (map fst cs)" using facts(1) other by (intro others_new_conn [where c = c]) simp_all
    finally have "others ?F (map fst cs) = base" using q(4) by simp
    moreover have "tasks.queued cap (mp_free mp a) (cs_list C) (map fst cs)"
      using tasks.dequeue_block [OF step(4), of "[]" a "map fst cs" "cs_list C"] q(1) by (simp add: tasks.queued_def)
    moreover have "ci_status (cs_conns ?F b) = s" if "(b, s) \<in> set cs" for b s
    proof -
      have "b \<noteq> a" using that step(3) by force
      then show ?thesis using st [OF that] by (simp add: ipc_conn_delete_facts)
    qed
    ultimately have "conns_rep cap base ?F cs"
      using q facts(2) by (auto simp: conns_rep_def ipc_conn_delete_facts)
    moreover have "admit ok C = Some ?F"
      using False step build new by (simp add: admit_def ipc_conn_create_def)
    ultimately show ?thesis using False facts(4) step(3) by auto
  qed
qed

text \<open>What a round of the server makes of the connections.\<close>

inductive serves :: "nat \<Rightarrow> bool \<Rightarrow> (conn_call \<Rightarrow> bool) \<Rightarrow> (ptr \<times> conn_status) list \<Rightarrow> (ptr \<times> conn_status) list \<Rightarrow> bool" where
  refuse: "\<not> (length (alive cs) < cap \<and> accepted \<and> ok Conn_bufs \<and> ok Conn_task) \<Longrightarrow> serves cap accepted ok cs (alive cs)"
| accept: "\<lbrakk>length (alive cs) < cap; accepted; ok Conn_bufs; ok Conn_task; a \<notin> fst ` set (alive cs)\<rbrakk> \<Longrightarrow>
    serves cap accepted ok cs ((a, CONNECTED) # alive cs)"

lemma proc_step:
  assumes "conns_rep cap base C cs"
  shows "\<exists>C' cs'. ipc_server_proc accepted ok C = Some C' \<and> serves cap accepted ok cs cs' \<and> conns_rep cap base C' cs'"
proof -
  obtain C1 where C1: "reap C = Some C1" "conns_rep cap base C1 (alive cs)" using reap_step [OF assms] by blast
  then have "tasks.queued cap (cs_pool C1) (cs_list C1) (map fst (alive cs))" "unat (cs_max_conn C1) = cap"
    by (simp_all add: conns_rep_def)
  then have room: "cplus_llist_get_size (cs_list C1) < cs_max_conn C1 \<longleftrightarrow> length (alive cs) < cap"
    using queued_size by (fastforce simp: word_less_nat_alt)
  show ?thesis
  proof (cases "length (alive cs) < cap \<and> accepted")
    case True
    then obtain C' a where "admit ok C1 = Some C'" "a \<notin> fst ` set (alive cs)"
        "conns_rep cap base C' (if ok Conn_bufs \<and> ok Conn_task then (a, CONNECTED) # alive cs else alive cs)"
      using admit_step [OF C1(2)] by blast
    then show ?thesis using True C1(1) room
      by (cases "ok Conn_bufs \<and> ok Conn_task") (auto simp: ipc_server_proc_def intro: serves.intros)
  next
    case False
    then show ?thesis using C1 room by (auto simp: ipc_server_proc_def intro: serves.intros)
  qed
qed

section \<open>Runs of a server\<close>

text \<open>A round of the server, or of the task of the connection at \<open>a\<close> if there is one.\<close>

datatype serv_op = Serve bool "conn_call \<Rightarrow> bool" | Recv ptr recv_outcome buffer_change buffer_change

primrec serv_step :: "serv_op \<Rightarrow> ipc_conns \<Rightarrow> ipc_conns option" where
  "serv_step (Serve accepted ok) C = ipc_server_proc accepted ok C"
| "serv_step (Recv a r data resp) C =
     Some (if a \<in> live_blocks (cs_pool C) then conn_round a r data resp C else C)"

primrec serv_run :: "serv_op list \<Rightarrow> ipc_conns \<Rightarrow> ipc_conns option" where
  "serv_run [] C = Some C"
| "serv_run (x # xs) C = do { C1 \<leftarrow> serv_step x C; serv_run xs C1 }"

inductive served :: "nat \<Rightarrow> serv_op list \<Rightarrow> (ptr \<times> conn_status) list \<Rightarrow> (ptr \<times> conn_status) list \<Rightarrow> bool" where
  served_none: "served cap [] cs cs"
| served_round: "\<lbrakk>serves cap accepted ok cs cs1; served cap xs cs1 cs2\<rbrakk> \<Longrightarrow> served cap (Serve accepted ok # xs) cs cs2"
| served_recv: "served cap xs (map (\<lambda>(b, st). (b, if b = a then status_after st r else st)) cs) cs2 \<Longrightarrow>
    served cap (Recv a r data resp # xs) cs cs2"

inductive_simps serves_simps: "serves cap accepted ok cs cs'"

inductive_simps served_simps:
  "served cap [] cs cs'"
  "served cap (Serve accepted ok # xs) cs cs'"
  "served cap (Recv a r data resp # xs) cs cs'"

definition lost :: "buffer_change \<Rightarrow> part option \<Rightarrow> part \<Rightarrow> bool" where
  "lost change x m \<longleftrightarrow> change = Lose \<and> x = Some m"

lemma rebuffer_facts:
  assumes "rebuffer change x W = (y, V)" "parts_old W"
  shows "parts_old V" "pw_next W \<le> pw_next V"
    "\<exists>ds. pw_parts V = ds @ filter (\<lambda>m. \<not> lost change x m) (pw_parts W) \<and> (\<forall>m\<in>set ds. y = Some m)"
    "m \<noteq> pw_next W \<Longrightarrow> x = Some m \<longleftrightarrow> y = Some m \<or> lost change x m"
  using assms parts_old_new [of W]
  by (auto simp: rebuffer_def lost_def new_part_def drop_part_filter parts_old_filter
      split: buffer_change.splits if_splits)

lemma conn_round_others:
  assumes old: "parts_old (cs_world C)" and a: "a \<in> set as"
  shows "others (conn_round a r data resp C) as = others C as \<and> parts_old (cs_world (conn_round a r data resp C))"
proof -
  let ?c = "cs_conns C a"
  let ?go = "closes (ci_status ?c) r"
  define W1 where "W1 = (if ?go then drop_part (ci_sock ?c) (cs_world C) else cs_world C)"
  define got where "got = (ci_status ?c \<noteq> NOT_CONNECTED \<and> (case r of Received bs \<Rightarrow> True | _ \<Rightarrow> False))"
  define dc where "dc = (if got then data else Keep)"
  define ec where "ec = (if got then resp else Keep)"
  obtain d W2 where d: "rebuffer dc (ci_packet_databufs ?c) W1 = (d, W2)" by fastforce
  obtain e W3 where e: "rebuffer ec (ci_response_data ?c) W2 = (e, W3)" by fastforce
  have W1: "parts_old W1" "pw_next W1 = pw_next (cs_world C)"
      "pw_parts W1 = filter (\<lambda>m. \<not> (?go \<and> ci_sock ?c = Some m)) (pw_parts (cs_world C))"
    using old by (auto simp: W1_def drop_part_filter parts_old_filter)
  note d' = rebuffer_facts [OF d W1(1)]
  note e' = rebuffer_facts [OF e d'(1)]
  define n where "n = ?c\<lparr>ci_status := status_after (ci_status ?c) r, ci_sock := (if ?go then None else ci_sock ?c),
      ci_packet_databufs := d, ci_response_data := e\<rparr>"
  have round: "conn_round a r data resp C = C\<lparr>cs_world := W3, cs_conns := (cs_conns C)(a := n)\<rparr>"
    using d e unfolding conn_round_def Let_def W1_def [symmetric] got_def [symmetric] dc_def [symmetric] ec_def [symmetric] n_def by simp
  obtain ds es where xs: "pw_parts W2 = ds @ filter (\<lambda>m. \<not> lost dc (ci_packet_databufs ?c) m) (pw_parts W1)"
      "pw_parts W3 = es @ filter (\<lambda>m. \<not> lost ec (ci_response_data ?c) m) (pw_parts W2)"
      "\<forall>m\<in>set ds. d = Some m" "\<forall>m\<in>set es. e = Some m"
    using d'(3) e'(3) by blast
  define gone where "gone m \<longleftrightarrow> lost ec (ci_response_data ?c) m \<or> lost dc (ci_packet_databufs ?c) m \<or>
    ?go \<and> ci_sock ?c = Some m" for m
  have same: "m \<in> parts_in ?c \<longleftrightarrow> m \<in> parts_in n \<or> gone m" if "m \<in> set (pw_parts (cs_world C))" for m
  proof -
    have "m < pw_next (cs_world C)" using old that by (simp add: parts_old_def)
    then have "m \<noteq> pw_next W1" "m \<noteq> pw_next W2" using W1(2) d'(2) by simp_all
    note d'(4) [OF this(1)] e'(4) [OF this(2)]
    then have "Some m = ci_packet_databufs ?c \<longleftrightarrow> Some m = d \<or> lost dc (ci_packet_databufs ?c) m"
      "Some m = ci_response_data ?c \<longleftrightarrow> Some m = e \<or> lost ec (ci_response_data ?c) m" by auto
    then show ?thesis by (cases ?go) (auto simp: gone_def parts_in_def n_def)
  qed
  let ?out = "\<lambda>m. \<forall>b\<in>set as. m \<notin> parts_in (((cs_conns C)(a := n)) b)"
  have new: "\<not> ?out m" if "m \<in> set (es @ ds)" for m
    using that xs(3,4) a by (auto simp: parts_in_def n_def)
  have "others (conn_round a r data resp C) as = filter ?out (pw_parts W3)"
    by (simp add: round others_def del: fun_upd_apply)
  also have "\<dots> = filter ?out (filter (\<lambda>m. \<not> gone m) (pw_parts (cs_world C)))"
  proof -
    have "filter ?out es = []" "filter ?out (filter P ds) = []" for P
      unfolding filter_empty_conv using new by auto
    then show ?thesis by (simp add: xs(1,2) W1(3) gone_def del: fun_upd_apply) (rule filter_cong, auto)
  qed
  also have "\<dots> = others C as"
    using same a by (auto simp: others_def intro!: filter_cong)
  finally show ?thesis using e'(1) by (simp add: round)
qed

lemma conn_round_fields:
  "cs_list (conn_round a r data resp C) = cs_list C" "cs_pool (conn_round a r data resp C) = cs_pool C"
  "cs_max_conn (conn_round a r data resp C) = cs_max_conn C"
  "ci_status (cs_conns (conn_round a r data resp C) b) =
     (if b = a then status_after (ci_status (cs_conns C a)) r else ci_status (cs_conns C b))"
  by (simp_all add: conn_round_def Let_def split: prod.splits)

lemma serv_run_step:
  "conns_rep cap base C cs \<Longrightarrow> \<exists>C' cs'. serv_run xs C = Some C' \<and> served cap xs cs cs' \<and> conns_rep cap base C' cs'"
proof (induction xs arbitrary: C cs)
  case Nil
  then show ?case by (auto intro: served.intros)
next
  case (Cons x xs)
  show ?case
  proof (cases x)
    case (Serve accepted ok)
    obtain C1 cs1 where "ipc_server_proc accepted ok C = Some C1" "serves cap accepted ok cs cs1" "conns_rep cap base C1 cs1"
      using proc_step [OF Cons.prems] by blast
    then show ?thesis using Cons.IH [of C1 cs1] Serve by (auto intro: served.intros)
  next
    case (Recv a r data resp)
    define C1 where "C1 = (if a \<in> live_blocks (cs_pool C) then conn_round a r data resp C else C)"
    define cs1 where "cs1 = map (\<lambda>(b, st). (b, if b = a then status_after st r else st)) cs"
    have as: "map fst cs1 = map fst cs" by (simp add: cs1_def split_def comp_def)
    have live: "fst ` set cs = live_blocks (cs_pool C)" using Cons.prems by (simp add: conns_rep_def tasks.queued_def)
    have "conns_rep cap base C1 cs1"
    proof (cases "a \<in> live_blocks (cs_pool C)")
      case True
      then have "others C1 (map fst cs) = others C (map fst cs) \<and> parts_old (cs_world C1)"
        using conn_round_others [of C a "map fst cs"] Cons.prems live by (simp add: C1_def conns_rep_def)
      moreover have "ci_status (cs_conns C1 b) = st" if b: "(b, st) \<in> set cs1" for b st
        using b Cons.prems True by (auto simp: C1_def cs1_def conn_round_fields conns_rep_def)
      ultimately show ?thesis
        using Cons.prems True as by (auto simp: conns_rep_def C1_def conn_round_fields)
    next
      case False
      then have "map (\<lambda>(b, st). (b, if b = a then status_after st r else st)) cs = map id cs"
        using live by (intro map_cong) force+
      then show ?thesis using Cons.prems False by (simp add: C1_def cs1_def)
    qed
    then obtain C' cs' where "serv_run xs C1 = Some C'" "served cap xs cs1 cs'" "conns_rep cap base C' cs'"
      using Cons.IH [of C1 cs1] by blast
    moreover from this(2) have "served cap (x # xs) cs cs'"
      unfolding Recv cs1_def by (rule served_recv)
    moreover have "serv_step x C = Some C1" using Recv by (simp add: C1_def)
    ultimately show ?thesis by auto
  qed
qed

lemma delete_conns_step:
  "\<lbrakk>list_rep cap (cs_list C) as; distinct as\<rbrakk> \<Longrightarrow> \<exists>C'. delete_conns C = Some C' \<and> pw_parts (cs_world C') = others C as"
proof (induction as arbitrary: C rule: rev_induct)
  case Nil
  then obtain L where "cplus_llist_pop_back (cs_list C) = Some (Inl ENOENT, L)"
    using tasks.pop_ok [of cap "cs_list C" "[]"] by auto
  then show ?case by (subst delete_conns.simps) (simp add: others_def)
next
  case (snoc a as)
  obtain L where L: "cplus_llist_pop_back (cs_list C) = Some (Inr a, L)" "list_rep cap L as"
    using tasks.pop_ok [OF snoc.prems(1)] by auto
  have a: "a \<noteq> CPLUS_NULL" using list_rep_nonnull [OF snoc.prems(1)] by auto
  let ?C = "ipc_conn_delete a (C\<lparr>cs_list := L\<rparr>)"
  let ?D = "?C\<lparr>cs_pool := snd (cplus_mempool_free (cs_pool ?C) a)\<rparr>"
  have "others ?D as = others (C\<lparr>cs_list := L\<rparr>) (as @ [a])"
    using ipc_conn_delete_facts(7) [of a as "as @ [a]" "C\<lparr>cs_list := L\<rparr>"] snoc.prems(2) by simp
  moreover have "delete_conns C = delete_conns ?D" using L a by (subst delete_conns.simps) (simp add: Let_def)
  ultimately show ?case
    using snoc.IH [of ?D] L(2) snoc.prems(2) by (simp add: ipc_conn_delete_facts)
qed

lemma new_conns_rep:
  assumes new: "new_conns max_connection heap nodes obj1 obj2 mal1 mal2 mem1 mem2 W = Inr C"
    and mal: "\<And>m. mal1 m = CPLUS_NULL \<or> unat (mal1 m) + unat m \<le> 2 ^ 64"
      "\<And>m. mal2 m = CPLUS_NULL \<or> unat (mal2 m) + unat m \<le> 2 ^ 64"
    and nodes: "nodes CPLUS_NULL = None"
    and size: "0 < max_connection" "unat max_connection * 160 < 2 ^ 32" and old: "parts_old W"
  shows "conns_rep (unat max_connection) (pw_parts W) C []"
proof -
  obtain mp L h where made: "cplus_mempool_new obj1 mal1 mem1 max_connection 160 = Inr mp"
      "cplus_llist_prev_new heap nodes obj2 mal2 mem2 max_connection = (Inr L, h)"
      "C = \<lparr>cs_max_conn = max_connection, cs_list = L, cs_pool = mp, cs_conns = (\<lambda>a. blank_conn 0),
            cs_world = W, cs_connected = []\<rparr>"
    using new by (auto simp: new_conns_def prod_eq_iff split: sum.splits)
  have "deque_rep (unat max_connection) L []" by (rule prev_new_deque_rep [OF made(2) size(1) mal(2) nodes])
  then have "list_rep (unat max_connection) L []" by (auto simp: list_rep_def)
  moreover have "unat max_connection * unat (160 :: u32) < 2 ^ 32" using size(2) by simp
  with mempool_new_ok [OF made(1) _ mal(1)] have "mp_ok mp" "length (free_blocks mp) = unat max_connection" "live_blocks mp = {}"
    by simp_all
  ultimately show ?thesis using made(3) old by (simp add: conns_rep_def tasks.queued_def others_def)
qed

section \<open>Properties\<close>

text \<open>
  C5.  Every run of a server, of its rounds and of the tasks of its connections, ends and does
  what the abstract server does: a round removes the connections that were closed and adds one
  in front if there is room, somebody connects and the connection can be made.  There are never
  more than \<open>max_connection\<close> of them, the block of every new one is not in use, and deleting the
  server stops, releases every socket, task and buffer of the connections and nothing else.
\<close>

theorem ipc_server_serves:
  assumes "new_conns max_connection heap nodes obj1 obj2 mal1 mal2 mem1 mem2 W = Inr C"
    and "\<And>m. mal1 m = CPLUS_NULL \<or> unat (mal1 m) + unat m \<le> 2 ^ 64"
    and "\<And>m. mal2 m = CPLUS_NULL \<or> unat (mal2 m) + unat m \<le> 2 ^ 64"
    and "nodes CPLUS_NULL = None" "0 < max_connection" "unat max_connection * 160 < 2 ^ 32" "parts_old W"
  shows "\<exists>C' cs C''. serv_run xs C = Some C' \<and> served (unat max_connection) xs [] cs \<and>
    unat (cplus_llist_get_size (cs_list C')) = length cs \<and> length cs \<le> unat max_connection \<and>
    distinct (map fst cs) \<and> (\<forall>(a, st)\<in>set cs. ci_status (cs_conns C' a) = st) \<and>
    cplus_ipc_server_delete C' = Some (serv_releases, C'') \<and> pw_parts (cs_world C'') = pw_parts W"
proof -
  obtain C' cs where run: "serv_run xs C = Some C'" "served (unat max_connection) xs [] cs"
      "conns_rep (unat max_connection) (pw_parts W) C' cs"
    using serv_run_step [OF new_conns_rep [OF assms]] by blast
  have q: "tasks.queued (unat max_connection) (cs_pool C') (cs_list C') (map fst cs)"
    using run(3) by (simp add: conns_rep_def)
  obtain C'' where "delete_conns C' = Some C''" "pw_parts (cs_world C'') = others C' (map fst cs)"
    using delete_conns_step [of "unat max_connection" C' "map fst cs"] q by (auto simp: tasks.queued_def)
  then have "cplus_ipc_server_delete C' = Some (serv_releases, C'') \<and> pw_parts (cs_world C'') = pw_parts W"
    using run(3) by (simp add: cplus_ipc_server_delete_def ipc_server_delete_def serv_calls_def serv_releases_def conns_rep_def)
  then show ?thesis using run queued_size [OF q] q by (auto simp: conns_rep_def tasks.queued_def)
qed

lemma example_conns:
  "\<exists>C. new_conns 2 example_heap (\<lambda>_. None) 128 256 (\<lambda>_. 4096) (\<lambda>_. 8192) (\<lambda>_. 0) (\<lambda>_. 0) \<lparr>pw_parts = [0], pw_next = 1\<rparr> = Inr C"
  by (simp add: new_conns_def cplus_llist_prev_new_def MAX_NODE_COUNT_def llist_initialize_object_def
    cplus_mgr_malloc_def example_heap_def cplus_mempool_new_def mempool_initialize_object_def
    word_less_nat_alt)

theorem ipc_server_serves_witness:
  "\<exists>C C' C''. new_conns 2 example_heap (\<lambda>_. None) 128 256 (\<lambda>_. 4096) (\<lambda>_. 8192) (\<lambda>_. 0) (\<lambda>_. 0)
       \<lparr>pw_parts = [0], pw_next = 1\<rparr> = Inr C \<and>
     serv_run (replicate 3 (Serve True (\<lambda>_. True))) C = Some C' \<and> cplus_llist_get_size (cs_list C') = 2 \<and>
     cplus_ipc_server_delete C' = Some (serv_releases, C'') \<and> pw_parts (cs_world C'') = [0]"
proof -
  obtain C where C: "new_conns 2 example_heap (\<lambda>_. None) 128 256 (\<lambda>_. 4096) (\<lambda>_. 8192) (\<lambda>_. 0) (\<lambda>_. 0)
      \<lparr>pw_parts = [0], pw_next = 1\<rparr> = Inr C"
    using example_conns by blast
  have "parts_old \<lparr>pw_parts = [0], pw_next = 1\<rparr>" by (simp add: parts_old_def)
  with ipc_server_serves [OF C example_mal refl, of "replicate 3 (Serve True (\<lambda>_. True))"]
  obtain C' cs C'' where run: "serv_run (replicate 3 (Serve True (\<lambda>_. True))) C = Some C'"
      "served 2 (replicate 3 (Serve True (\<lambda>_. True))) [] cs" "unat (cplus_llist_get_size (cs_list C')) = length cs"
      "cplus_ipc_server_delete C' = Some (serv_releases, C'')" "pw_parts (cs_world C'') = [0]"
    by auto
  have "length cs = 2"
    using run(2) by (auto simp: numeral_3_eq_3 served_simps serves_simps alive_def)
  then have "cplus_llist_get_size (cs_list C') = 2" using run(3) by (simp add: word_unat_eq_iff)
  then show ?thesis using C run by blast
qed

text \<open>
  Making a server: the arguments are checked, and when a call fails every object that was made
  is released once.
\<close>

theorem ipc_server_construction_cleans_up:
  assumes "conns_rep cap base C []"
  shows "\<exists>r C'. cplus_ipc_server_new ok name n funcs C = Some (r, C') \<and> (case r of
      Inl e \<Rightarrow> e = EINVAL \<and> C' = C \<and> (name = None \<or> n = 0 \<or> \<not> funcs)
    | Inr (Inr _) \<Rightarrow> (\<forall>x\<in>set serv_calls. ok x) \<and> C' = C
    | Inr (Inl xs) \<Rightarrow> distinct xs \<and> set xs = set (takeWhile ok serv_calls) - {Bind_socket, Listen_socket} \<and>
        pw_parts (cs_world C') = base)"
proof -
  obtain C1 where C1: "delete_conns C = Some C1" "pw_parts (cs_world C1) = base"
    using delete_conns_step [of cap C "[]"] assms by (auto simp: conns_rep_def tasks.queued_def)
  have all: "takeWhile ok serv_calls = serv_calls \<longleftrightarrow> (\<forall>x\<in>set serv_calls. ok x)" by (rule takeWhile_eq_all_conv)
  have "set (filter (\<lambda>x. x \<in> set (takeWhile ok serv_calls)) serv_releases) =
      set (takeWhile ok serv_calls) - {Bind_socket, Listen_socket}" "distinct serv_releases"
    by (auto simp: serv_calls_def serv_releases_def dest!: set_takeWhileD)
  moreover have "pw_parts (cs_world C) = base" using assms by (simp add: conns_rep_def others_def)
  ultimately show ?thesis
    using C1 all by (cases "takeWhile ok serv_calls = serv_calls"; cases "Conn_list \<in> set (takeWhile ok serv_calls)")
      (auto simp: cplus_ipc_server_new_def ipc_server_new_def ipc_server_delete_def)
qed

text \<open>
  C17.  A client comes to be exactly when every call succeeds, and deleting it gives everything
  back.  When a call fails everything made before is released, with one exception: the socket
  stays open when the connection is refused, or its block cannot be allocated.
\<close>

theorem ipc_client_socket_lost:
  assumes "cplus_ipc_client_new ok cok name on_received W = (r, W')" "parts_old W"
  shows "(r \<noteq> None \<longleftrightarrow> name \<noteq> None \<and> (\<forall>x\<in>{Clt_alloc, Clt_socket, Clt_connect, Clt_heartbeat, Clt_conn_alloc}. ok x) \<and>
      cok Conn_bufs \<and> cok (if on_received then Conn_task else Conn_event)) \<and>
    (case r of Some c \<Rightarrow> pw_parts (cplus_ipc_client_delete c W') = pw_parts W
     | None \<Rightarrow> pw_parts W' =
         (if name \<noteq> None \<and> ok Clt_alloc \<and> ok Clt_socket \<and> (\<not> ok Clt_connect \<or> ok Clt_heartbeat \<and> \<not> ok Clt_conn_alloc)
          then (pw_next W + 1) # pw_parts W else pw_parts W))"
proof -
  have keep: "filter (\<lambda>m. n \<noteq> m) (pw_parts W) = pw_parts W" if "pw_next W \<le> n" for n
    using assms(2) that by (force simp: parts_old_def filter_id_conv)
  note defs = cplus_ipc_client_new_def ipc_client_new_def client_conn_create_def cplus_ipc_client_delete_def
    ipc_client_delete_def client_conn_delete_def new_part_def drop_part_filter Let_def
  show ?thesis
  proof (cases "name \<noteq> None \<and> ok Clt_alloc \<and> ok Clt_socket \<and> ok Clt_connect \<and> ok Clt_heartbeat \<and> ok Clt_conn_alloc")
    case False
    then show ?thesis using assms(1) by (auto simp: defs keep simp del: filter_filter split: if_splits)
  next
    case True
    let ?n = "pw_next W"
    define W1 W2 W3 where "W1 = snd (new_part W)" and "W2 = snd (new_part W1)" and "W3 = snd (new_part W2)"
    have W1: "new_part W = (?n, W1)" "pw_parts W1 = ?n # pw_parts W" "pw_next W1 = ?n + 1"
      by (simp_all add: W1_def new_part_def)
    have W2: "new_part W1 = (?n + 1, W2)" "pw_parts W2 = (?n + 1) # pw_parts W1" "pw_next W2 = ?n + 2"
      using W1(3) by (simp_all add: W2_def new_part_def)
    have W3: "new_part W2 = (?n + 2, W3)" "pw_parts W3 = (?n + 2) # pw_parts W2" "parts_old W3"
      using W2(3) parts_old_new [OF parts_old_new [OF parts_old_new [OF assms(2)]]]
      by (simp_all add: W3_def W2_def W1_def) (simp_all add: new_part_def)
    obtain made c W4 where build: "conn_build cok on_received (?n + 1) W3 = (made, c, W4)" by (rule prod_cases3)
    have gone: "pw_parts (conn_release c W4) = (?n + 2) # ?n # pw_parts W"
      using conn_build_release [OF build W3(3)] W1(2) W2(2) W3(2) keep [of "?n + 1"] by (simp add: eq_sym_conv)
    then have gone': "pw_parts (conn_release (c\<lparr>ci_status := st\<rparr>) W4) = (?n + 2) # ?n # pw_parts W" for st
      by (simp add: conn_release_def)
    have made: "made = (cok Conn_bufs \<and> cok (if on_received then Conn_task else Conn_event))"
      using build by (auto simp: conn_build_def Let_def split: if_splits prod.splits)
    note new = assms(1) [unfolded cplus_ipc_client_new_def ipc_client_new_def client_conn_create_def Let_def]
    show ?thesis
    proof (cases made)
      case yes: True
      have "r \<noteq> None" "pw_parts (cplus_ipc_client_delete (the r) W') = pw_parts W"
        using new True yes build W1(1) W2(1) W3(1) gone' keep [of ?n] keep [of "?n + 2"]
        by (auto simp: cplus_ipc_client_delete_def ipc_client_delete_def client_conn_delete_def drop_part_filter
          simp del: filter_filter)
      then show ?thesis using True made yes by auto
    next
      case False
      have "r = None" "pw_parts W' = pw_parts W"
        using new True False build W1(1) W2(1) W3(1) gone keep [of ?n] keep [of "?n + 2"]
        by (auto simp: ipc_client_delete_def client_conn_delete_def drop_part_filter simp del: filter_filter)
      then show ?thesis using True made False by auto
    qed
  qed
qed

theorem ipc_client_socket_lost_witness:
  "\<exists>W'. cplus_ipc_client_new (\<lambda>x. x \<noteq> Clt_connect) (\<lambda>_. True) (Some [115, 0]) False \<lparr>pw_parts = [0], pw_next = 1\<rparr> = (None, W') \<and>
     pw_parts W' = [2, 0]"
proof -
  obtain r W' where run: "cplus_ipc_client_new (\<lambda>x. x \<noteq> Clt_connect) (\<lambda>_. True) (Some [115, 0]) False
      \<lparr>pw_parts = [0], pw_next = 1\<rparr> = (r, W')" by fastforce
  from ipc_client_socket_lost [OF run] run show ?thesis by (cases r) (simp_all add: parts_old_def)
qed

end
