(* ===== verification/Syslog.thy ===== *)
theory Syslog
  imports Taskpool Systime
begin

text \<open>
  The logger of \<^verbatim>\<open>src/syslog.c\<close>: messages are printed to the console and, depending on the
  levels, kept in blocks of a memory pool on a linked list, from which a periodic task appends
  them to a file of the day.  The readings of the clock, the environment, the formatted text of
  a message and whether a file can be opened are arguments; a write moves all it is given.
  Every operation is made under \<^verbatim>\<open>message_sect\<close>.
\<close>

section \<open>Texts\<close>

definition bytes_of :: "string \<Rightarrow> u8 list" where
  "bytes_of s = map of_char s"

datatype log_level = LEVEL_NONE | LEVEL_FATAL | LEVEL_ERROR | LEVEL_WARN | LEVEL_INFO | LEVEL_DEBUG | LEVEL_TRACE

primrec level_no :: "log_level \<Rightarrow> int" where
  "level_no LEVEL_NONE = 0" | "level_no LEVEL_FATAL = 1" | "level_no LEVEL_ERROR = 2" | "level_no LEVEL_WARN = 3"
| "level_no LEVEL_INFO = 4" | "level_no LEVEL_DEBUG = 5" | "level_no LEVEL_TRACE = 6"

definition debug_level_strings :: "log_level \<Rightarrow> u8 list" where
  "debug_level_strings lev = bytes_of (case lev of LEVEL_NONE \<Rightarrow> '''' | LEVEL_FATAL \<Rightarrow> ''FATAL'' | LEVEL_ERROR \<Rightarrow> ''ERROR''
     | LEVEL_WARN \<Rightarrow> ''WARN '' | LEVEL_INFO \<Rightarrow> ''INFO '' | LEVEL_DEBUG \<Rightarrow> ''DEBUG'' | LEVEL_TRACE \<Rightarrow> ''TRACE'')"

text \<open>A text between the escape sequences of a colour and of the end of it.\<close>

definition coloured :: "string \<Rightarrow> u8 list \<Rightarrow> u8 list" where
  "coloured code s = 27 # bytes_of (''['' @ code @ ''m'') @ s @ 27 # bytes_of ''[0m''"

definition debug_level_color_strings :: "log_level \<Rightarrow> u8 list" where
  "debug_level_color_strings lev = (case lev of
     LEVEL_FATAL \<Rightarrow> coloured ''31'' (debug_level_strings lev) | LEVEL_ERROR \<Rightarrow> coloured ''31'' (debug_level_strings lev)
   | LEVEL_WARN \<Rightarrow> coloured ''35'' (debug_level_strings lev) | LEVEL_INFO \<Rightarrow> coloured ''36'' (debug_level_strings lev)
   | _ \<Rightarrow> debug_level_strings lev)"

definition month_strings :: "u8 list list" where
  "month_strings = map bytes_of [''Jan'', ''Feb'', ''Mar'', ''Apr'', ''May'', ''Jun'', ''Jul'', ''Aug'', ''Sep'', ''Oct'',
     ''Nov'', ''Dec'']"

definition month_name :: "u32 \<Rightarrow> u8 list exec" where
  "month_name m = (if unat (m - 1) < length month_strings then Inr (month_strings ! unat (m - 1)) else Inl Out_of_bounds)"

text \<open>\<^verbatim>\<open>%0nd\<close>\<close>

definition fmt_padded :: "nat \<Rightarrow> u32 \<Rightarrow> u8 list" where
  "fmt_padded n w = (let i = sint w; d = dec_digits (nat (abs i)); s = (if i < 0 then [45] else [])
     in s @ replicate (n - length s - length d) 48 @ d)"

definition clock_text :: "systime \<Rightarrow> u8 list" where
  "clock_text t = fmt_padded 2 (hours t) @ bytes_of '':'' @ fmt_padded 2 (minutes t) @ bytes_of '':'' @ fmt_padded 2 (second t) @
     bytes_of ''.'' @ fmt_padded 3 (millisecond t) @ fmt_padded 3 (microsecond t)"

text \<open>\<^verbatim>\<open>LOG_TIMESTAMP_FORMAT\<close>\<close>

definition log_header :: "log_level \<Rightarrow> systime \<Rightarrow> u8 list exec" where
  "log_header lev t = exec_bind (month_name (month t)) (\<lambda>m.
     Inr (m @ bytes_of '' '' @ fmt_padded 2 (day_of_month t) @ bytes_of '' '' @ clock_text t @ bytes_of '' '' @
       debug_level_strings lev @ bytes_of '' ''))"

section \<open>State\<close>

definition MAX_MESSAGE_COUNT :: u32 where "MAX_MESSAGE_COUNT = 512"
definition MAX_MESSAGE_BUFFER_SIZE :: nat where "MAX_MESSAGE_BUFFER_SIZE = 1023"
definition MAX_FILE_PATH_SIZE :: nat where "MAX_FILE_PATH_SIZE = 127"
definition MAX_PROGRAM_NAME_SIZE :: nat where "MAX_PROGRAM_NAME_SIZE = 31"
definition MAX_FILE_FOLDER_PATH_SIZE :: nat where "MAX_FILE_FOLDER_PATH_SIZE = 31"
definition MAX_DEBUG_LEVEL_ENVNAME_SIZE :: nat where "MAX_DEBUG_LEVEL_ENVNAME_SIZE = 63"

text \<open>The pool and the list are there when \<open>sl_logger_level\<close> is not 0; the files and the console belong to the system.\<close>

record syslog =
  sl_debug_level :: int
  sl_logger_level :: int
  sl_enable_color :: bool
  sl_pool :: mempool
  sl_list :: linked_list
  sl_texts :: "ptr \<Rightarrow> u8 list"
  sl_program_name :: "u8 list"
  sl_file_folder_path :: "u8 list"
  sl_file_path :: "u8 list"
  sl_files :: "u8 list \<Rightarrow> u8 list"
  sl_console :: "u8 list"

text \<open>What \<^verbatim>\<open>snprintf\<close> with a size writes of a text before the terminator.\<close>

definition fitting :: "nat \<Rightarrow> u8 list \<Rightarrow> u8 list" where
  "fitting n s = take (n - 1) s"

section \<open>Logging\<close>

text \<open>Putting a message on the list; the result is the length of what is printed.\<close>

definition syslog_logger_print :: "log_level \<Rightarrow> systime \<Rightarrow> u8 list \<Rightarrow> syslog \<Rightarrow> (int \<times> syslog) exec option" where
  "syslog_logger_print lev t msg S =
     (if cplus_llist_get_size (sl_list S) < MAX_MESSAGE_COUNT then
        (case cplus_mempool_alloc (sl_pool S) of
           (Inl e, mp) \<Rightarrow> Some (Inr (0, S\<lparr>sl_pool := mp\<rparr>))
         | (Inr a, mp) \<Rightarrow> (case log_header lev t of
             Inl f \<Rightarrow> Some (Inl f)
           | Inr h \<Rightarrow> do {
               let len = length h;
               let bs = fitting MAX_MESSAGE_BUFFER_SIZE h @ fitting (MAX_MESSAGE_BUFFER_SIZE - len) msg;
               (r, L) \<leftarrow> cplus_llist_push_front (sl_list S) a;
               Some (Inr (int (len + length msg),
                 S\<lparr>sl_pool := mp, sl_texts := (sl_texts S)(a := bs), sl_list := L\<rparr>)) }))
      else Some (Inr (0, S)))"

text \<open>The console; \<^verbatim>\<open>append_new_line\<close> looks at the last character of the format.\<close>

definition append_new_line :: "u8 list \<Rightarrow> u8 list exec" where
  "append_new_line format = (if format = [] then Inl Out_of_bounds else if last format \<noteq> 10 then Inr [10] else Inr [])"

definition console_text :: "bool \<Rightarrow> u8 list \<Rightarrow> log_level \<Rightarrow> systime \<Rightarrow> u8 list" where
  "console_text color prog lev t =
     (if color then coloured ''32'' (bytes_of ''['' @ clock_text t @ bytes_of ''] '') @ coloured ''33'' prog @ bytes_of '': '' @
        debug_level_color_strings lev @ bytes_of '' ''
      else bytes_of ''['' @ clock_text t @ bytes_of ''] '' @ prog @ bytes_of '': '' @ debug_level_strings lev @ bytes_of '' '')"

definition console_print :: "log_level \<Rightarrow> systime \<Rightarrow> u8 list \<Rightarrow> u8 list \<Rightarrow> syslog \<Rightarrow> syslog exec" where
  "console_print lev t format text S = exec_bind (append_new_line format) (\<lambda>nl.
     Inr (S\<lparr>sl_console := sl_console S @ console_text (sl_enable_color S) (sl_program_name S) lev t @ text @ nl\<rparr>))"

text \<open>
  \<^verbatim>\<open>DEBUG_PRINT\<close>, the body of the six functions that log: \<open>text\<close> is the formatted message, \<open>t\<close>
  and \<open>t'\<close> the two readings of the clock.
\<close>

definition debug_print ::
    "log_level \<Rightarrow> systime \<Rightarrow> systime \<Rightarrow> u8 list \<Rightarrow> u8 list \<Rightarrow> syslog \<Rightarrow> (unit cresult \<times> syslog) exec option" where
  "debug_print lev t t' format text S =
     (if sl_debug_level S = 0 \<and> sl_logger_level S = 0 then Some (Inr (Inl ENOTSUP, S))
      else do {
        let (msg, S1) = (if level_no lev \<le> sl_logger_level S then
            (case cplus_mempool_alloc (sl_pool S) of
               (Inl e, mp) \<Rightarrow> (None, S\<lparr>sl_pool := mp\<rparr>)
             | (Inr a, mp) \<Rightarrow> (Some a, S\<lparr>sl_pool := mp, sl_texts := (sl_texts S)(a := fitting MAX_MESSAGE_BUFFER_SIZE text)\<rparr>))
          else (None, S));
        printed \<leftarrow> (case msg of None \<Rightarrow> Some (Inr S1)
          | Some a \<Rightarrow> map_option (map_sum id snd) (syslog_logger_print lev t (sl_texts S1 a) S1));
        Some (exec_bind printed (\<lambda>S2.
          exec_bind (if level_no lev \<le> sl_debug_level S2
            then console_print lev t' format (case msg of None \<Rightarrow> text | Some a \<Rightarrow> sl_texts S2 a) S2 else Inr S2) (\<lambda>S3.
          Inr (Inr (), case msg of None \<Rightarrow> S3 | Some a \<Rightarrow> S3\<lparr>sl_pool := snd (cplus_mempool_free (sl_pool S3) a)\<rparr>)))) })"

definition cplus_syslog_fatal where "cplus_syslog_fatal = debug_print LEVEL_FATAL"
definition cplus_syslog_error where "cplus_syslog_error = debug_print LEVEL_ERROR"
definition cplus_syslog_warn where "cplus_syslog_warn = debug_print LEVEL_WARN"
definition cplus_syslog_info where "cplus_syslog_info = debug_print LEVEL_INFO"
definition cplus_syslog_debug where "cplus_syslog_debug = debug_print LEVEL_DEBUG"
definition cplus_syslog_trace where "cplus_syslog_trace = debug_print LEVEL_TRACE"

section \<open>The task that writes the file\<close>

text \<open>No text on the list is empty, so there is a last character.\<close>

definition file_line :: "u8 list \<Rightarrow> u8 list" where
  "file_line bs = (if bs \<noteq> [] \<and> last bs = 10 then bs else bs @ [10])"

partial_function (option) write_messages :: "u8 list \<Rightarrow> syslog \<Rightarrow> syslog option" where
  "write_messages path S = do {
     (r, L) \<leftarrow> cplus_llist_pop_back (sl_list S);
     let S1 = S\<lparr>sl_list := L\<rparr>;
     (case r of
        Inl e \<Rightarrow> Some S1
      | Inr a \<Rightarrow> if a = CPLUS_NULL then Some S1 else
          write_messages path (S1\<lparr>sl_files := (sl_files S1)(path := sl_files S1 path @ file_line (sl_texts S1 a)),
            sl_pool := snd (cplus_mempool_free (sl_pool S1) a)\<rparr>)) }"

definition day_file :: "u8 list \<Rightarrow> u8 list \<Rightarrow> systime \<Rightarrow> u8 list" where
  "day_file folder prog t = fitting MAX_FILE_PATH_SIZE (take (MAX_FILE_FOLDER_PATH_SIZE + 1) folder @ bytes_of ''/'' @
     take (MAX_PROGRAM_NAME_SIZE + 1) prog @ bytes_of ''_'' @ fmt_padded 2 (month t) @ fmt_padded 2 (day_of_month t) @
     fmt_padded 4 (year t) @ bytes_of ''.log'')"

definition custom_logger_executer :: "systime \<Rightarrow> bool \<Rightarrow> syslog \<Rightarrow> syslog option" where
  "custom_logger_executer t opens S =
     (if 0 < cplus_llist_get_size (sl_list S) then
        (let path = day_file (sl_file_folder_path S) (sl_program_name S) t; S1 = S\<lparr>sl_file_path := path\<rparr>
         in if opens then write_messages path S1 else Some S1)
      else Some S)"

section \<open>Construction and deletion\<close>

datatype log_part = Log_sect | Log_folder | Log_pool | Log_list | Log_worker | Log_object

definition log_parts :: "int \<Rightarrow> log_part list" where
  "log_parts logger_level = Log_sect # (if logger_level \<noteq> 0 then [Log_folder, Log_pool, Log_list, Log_worker] else [])"

text \<open>What is released, in its order, and whether \<^verbatim>\<open>closelog\<close> is called.\<close>

definition cplus_syslog_delete :: "log_part set \<Rightarrow> int \<Rightarrow> log_part list \<times> bool" where
  "cplus_syslog_delete made logger_level =
     (filter (\<lambda>p. p \<in> made) [Log_worker, Log_pool, Log_list, Log_sect] @ [Log_object], level_no LEVEL_DEBUG < logger_level)"

definition level_envname :: "string \<Rightarrow> u8 list \<Rightarrow> u8 list" where
  "level_envname suffix prog =
     fitting (MAX_DEBUG_LEVEL_ENVNAME_SIZE + 1) (bytes_of ''cplus_syslog_'' @ prog @ bytes_of suffix)"

text \<open>
  \<open>env\<close> is what \<^verbatim>\<open>atoi\<close> makes of the variable of a name, if it is set; \<open>store\<close> the new, empty
  list and pool.
\<close>

definition new_store ::
    "mheap \<Rightarrow> (ptr \<rightharpoonup> llist_node) \<Rightarrow> ptr \<Rightarrow> ptr \<Rightarrow> (u32 \<Rightarrow> ptr) \<Rightarrow> (u32 \<Rightarrow> ptr) \<Rightarrow> mem \<Rightarrow> mem \<Rightarrow>
     (mempool \<times> linked_list) cresult" where
  "new_store heap nodes obj1 obj2 mal1 mal2 mem1 mem2 =
     (case cplus_mempool_new obj1 mal1 mem1 MAX_MESSAGE_COUNT (of_nat (MAX_MESSAGE_BUFFER_SIZE + 1)) of
        Inl e \<Rightarrow> Inl e
      | Inr mp \<Rightarrow> (case fst (cplus_llist_prev_new heap nodes obj2 mal2 mem2 MAX_MESSAGE_COUNT) of
          Inl e \<Rightarrow> Inl e
        | Inr L \<Rightarrow> Inr (mp, L)))"

definition syslog_initialize_object ::
    "(log_part \<Rightarrow> bool) \<Rightarrow> (u8 list \<Rightarrow> int option) \<Rightarrow> u8 list \<Rightarrow> u8 list option \<Rightarrow> mempool \<times> linked_list \<Rightarrow>
     (u8 list \<Rightarrow> u8 list) \<Rightarrow> u8 list \<Rightarrow> log_part list \<times> bool + syslog" where
  "syslog_initialize_object ok env short_name custom_program_name store files out =
     (let prog = fitting (MAX_PROGRAM_NAME_SIZE + 1) (case custom_program_name of None \<Rightarrow> short_name | Some n \<Rightarrow> n);
          debug = (case env (level_envname ''_debug_level'' prog) of None \<Rightarrow> 4 | Some v \<Rightarrow> v);
          logger = (case env (level_envname ''_logger_level'' prog) of None \<Rightarrow> 0 | Some v \<Rightarrow> v);
          made = takeWhile ok (log_parts logger)
      in if made \<noteq> log_parts logger
         then Inl (cplus_syslog_delete (set made) (if made = [] then 0 else logger))
         else Inr \<lparr>sl_debug_level = debug, sl_logger_level = logger, sl_enable_color = True,
           sl_pool = fst store, sl_list = snd store, sl_texts = (\<lambda>a. []), sl_program_name = prog,
           sl_file_folder_path = (if logger \<noteq> 0 then fitting (MAX_FILE_FOLDER_PATH_SIZE + 1) (bytes_of ''/tmp/log'') else []),
           sl_file_path = [], sl_files = files, sl_console = out\<rparr>)"

definition cplus_syslog_new where
  "cplus_syslog_new ok env short_name store files out = syslog_initialize_object ok env short_name None store files out"

definition cplus_syslog_new_ex where
  "cplus_syslog_new_ex ok env short_name custom_program_name store files out =
     syslog_initialize_object ok env short_name custom_program_name store files out"

definition cplus_syslog_get_debug_level :: "syslog \<Rightarrow> int" where
  "cplus_syslog_get_debug_level S = sl_debug_level S"

definition cplus_syslog_get_logger_level :: "syslog \<Rightarrow> int" where
  "cplus_syslog_get_logger_level S = sl_logger_level S"

section \<open>Two blocks at a time\<close>

context pooled_queue begin

text \<open>Taking a block, using a second one for the queue and giving the first one back.\<close>

lemma enqueue_second:
  assumes "queued cap s q as" "length as + 1 < cap"
  obtains t s1 a s2 q' where "alc s = (Inr t, s1)" "alc s1 = (Inr a, s2)" "push q a = Some (Inr (), q')"
    "t \<notin> set as" "a \<notin> set as" "t \<noteq> a" "queued cap (fre s2 t) q' (a # as)"
proof -
  have q: "inv s" "rep cap q as" "distinct as" "set as = live s" "room s + length as = cap"
    using assms(1) by (simp_all add: queued_def)
  obtain n where n: "room s = Suc (Suc n)" using q(5) assms(2) by (cases "room s"; cases "room s - 1") auto
  obtain t s1 where t: "alc s = (Inr t, s1)" "room s1 = Suc n" using alc_room [OF q(1)] n by (cases "alc s") auto
  note T = alc_ok [OF q(1) t(1)] alc_inv [OF q(1) t(1)]
  obtain a s2 where a: "alc s1 = (Inr a, s2)" "room s2 = n" using alc_room [OF T(2)] t(2) by (cases "alc s1") auto
  note A = alc_ok [OF T(2) a(1)] alc_inv [OF T(2) a(1)]
  obtain q' where push: "push q a = Some (Inr (), q')" "rep cap q' (a # as)"
    using push_ok [OF q(2), of a] A assms(2) by auto
  have "t \<in> live s2" using T A by auto
  note F = fre_inv [OF A(2) this] fre_live [OF A(2) this] fre_room [OF A(2) this]
  have ne: "t \<notin> set as" "a \<notin> set as" "t \<noteq> a" using T(1) A(1) q(4) by auto
  have "set (a # as) = live (fre s2 t)" using F(2) T(1) A(1) q(4) ne by auto
  then have "queued cap (fre s2 t) q' (a # as)" using F q push(2) ne a(2) n by (simp add: queued_def)
  then show ?thesis using t(1) a(1) push(1) ne that by blast
qed

text \<open>Taking a block when all others are in the queue, or for a moment only.\<close>

lemma last_block:
  assumes "queued cap s q as" "length as + 1 = cap"
  obtains t s1 e s2 where "alc s = (Inr t, s1)" "alc s1 = (Inl e, s2)" "t \<notin> set as" "queued cap (fre s2 t) q as"
proof -
  have q: "inv s" "rep cap q as" "distinct as" "set as = live s" "room s + length as = cap"
    using assms(1) by (simp_all add: queued_def)
  have n: "room s = Suc 0" using q(5) assms(2) by simp
  obtain t s1 where t: "alc s = (Inr t, s1)" "room s1 = 0" using alc_room [OF q(1)] n by (cases "alc s") auto
  note T = alc_ok [OF q(1) t(1)] alc_inv [OF q(1) t(1)]
  obtain e s2 where a: "alc s1 = (Inl e, s2)" "room s2 = 0" using alc_room [OF T(2)] t(2) by (cases "alc s1") auto
  note A = alc_fail [OF T(2) a(1)] alc_inv [OF T(2) a(1)]
  have "t \<in> live s2" using T A by auto
  note F = fre_inv [OF A(2) this] fre_live [OF A(2) this] fre_room [OF A(2) this]
  have "t \<notin> set as" using T(1) q(4) by auto
  moreover have "set as = live (fre s2 t)" using F(2) T(1) A(1) q(4) by auto
  ultimately show ?thesis using t(1) a(1) F q a(2) n that by (simp add: queued_def)
qed

end

section \<open>The messages that wait\<close>

datatype log_op = Log log_level systime systime "u8 list" "u8 list" | Write systime bool

primrec log_step :: "log_op \<Rightarrow> syslog \<Rightarrow> syslog exec option" where
  "log_step (Log lev t t' format text) S = map_option (map_sum id snd) (debug_print lev t t' format text S)"
| "log_step (Write t opens) S = map_option Inr (custom_logger_executer t opens S)"

primrec log_run :: "log_op list \<Rightarrow> syslog \<Rightarrow> syslog exec option" where
  "log_run [] S = Some (Inr S)"
| "log_run (x # xs) S = do {
     r \<leftarrow> log_step x S;
     (case r of Inl f \<Rightarrow> Some (Inl f) | Inr S1 \<Rightarrow> log_run xs S1) }"

text \<open>
  The specification: the waiting messages, the newest first, at most 511, and the files.
\<close>

definition log_text :: "log_level \<Rightarrow> systime \<Rightarrow> u8 list \<Rightarrow> u8 list" where
  "log_text lev t text = (case log_header lev t of Inl f \<Rightarrow> []
     | Inr h \<Rightarrow> fitting MAX_MESSAGE_BUFFER_SIZE h @
         fitting (MAX_MESSAGE_BUFFER_SIZE - length h) (fitting MAX_MESSAGE_BUFFER_SIZE text))"

type_synonym log_state = "u8 list list \<times> (u8 list \<Rightarrow> u8 list)"

primrec spec_log :: "int \<Rightarrow> u8 list \<Rightarrow> u8 list \<Rightarrow> log_op \<Rightarrow> log_state \<Rightarrow> log_state" where
  "spec_log logger folder prog (Log lev t t' format text) s =
     (if level_no lev \<le> logger \<and> length (fst s) < 511 then (log_text lev t text # fst s, snd s) else s)"
| "spec_log logger folder prog (Write t opens) s =
     (if fst s \<noteq> [] \<and> opens then ([], (snd s)(day_file folder prog t :=
        snd s (day_file folder prog t) @ concat (map file_line (rev (fst s))))) else s)"

text \<open>A month that exists, and a format that is not empty.\<close>

primrec proper :: "log_op \<Rightarrow> bool" where
  "proper (Log lev t t' format text) \<longleftrightarrow> 1 \<le> month t \<and> month t \<le> 12 \<and> format \<noteq> []"
| "proper (Write t opens) \<longleftrightarrow> True"

definition log_rep :: "int \<Rightarrow> u8 list \<Rightarrow> u8 list \<Rightarrow> syslog \<Rightarrow> log_state \<Rightarrow> bool" where
  "log_rep logger folder prog S s \<longleftrightarrow> sl_logger_level S = logger \<and> sl_file_folder_path S = folder \<and> sl_program_name S = prog \<and>
     sl_files S = snd s \<and> length (fst s) \<le> 511 \<and>
     (\<exists>as. tasks.queued 512 (sl_pool S) (sl_list S) as \<and> fst s = map (sl_texts S) as)"

lemma log_repI:
  "\<lbrakk>tasks.queued 512 (sl_pool S) (sl_list S) as; fst s = map (sl_texts S) as; length as \<le> 511;
    sl_logger_level S = logger; sl_file_folder_path S = folder; sl_program_name S = prog; sl_files S = snd s\<rbrakk> \<Longrightarrow>
   log_rep logger folder prog S s"
  by (auto simp: log_rep_def)

lemma month_name_ok: "\<lbrakk>1 \<le> m; m \<le> 12\<rbrakk> \<Longrightarrow> \<exists>n. month_name m = Inr n"
proof -
  assume m: "1 \<le> m" "m \<le> 12"
  have "unat (m - 1) = unat m - 1" using m(1) by (simp add: unat_sub)
  moreover have "unat m \<le> 12" using m(2) by (simp add: word_le_nat_alt)
  ultimately show ?thesis by (simp add: month_name_def month_strings_def)
qed

lemma header_ok: "\<lbrakk>1 \<le> month t; month t \<le> 12\<rbrakk> \<Longrightarrow> \<exists>h. log_header lev t = Inr h"
  using month_name_ok [of "month t"] by (auto simp: log_header_def)

lemma console_keeps:
  "console_print lev t format text S = Inr S' \<Longrightarrow> \<exists>out. S' = S\<lparr>sl_console := out\<rparr>"
  by (auto simp: console_print_def exec_bind_eq_Inr)

lemma console_ok: "format \<noteq> [] \<Longrightarrow> \<exists>out. console_print lev t format text S = Inr (S\<lparr>sl_console := out\<rparr>)"
  by (auto simp: console_print_def append_new_line_def)

lemma log_rep_console [simp]: "log_rep logger folder prog (S\<lparr>sl_console := out\<rparr>) s = log_rep logger folder prog S s"
  by (simp add: log_rep_def)

text \<open>The console does not matter for the queue.\<close>

lemma console_after:
  assumes "format \<noteq> []"
  obtains out where "exec_bind (if b then console_print lev t format text S else Inr S) k = k (S\<lparr>sl_console := out\<rparr>)"
proof (cases b)
  case True
  obtain out where "console_print lev t format text S = Inr (S\<lparr>sl_console := out\<rparr>)"
    using console_ok [OF assms] by blast
  then show ?thesis using that True by simp
next
  case False
  then show ?thesis using that [of "sl_console S"] by simp
qed

lemma log_message:
  assumes rep: "log_rep logger folder prog S s" and ok: "1 \<le> month t" "month t \<le> 12" "format \<noteq> []" and logger: "0 < logger"
  shows "\<exists>S'. log_step (Log lev t t' format text) S = Some (Inr S') \<and>
    log_rep logger folder prog S' (spec_log logger folder prog (Log lev t t' format text) s)"
proof -
  obtain as where q: "tasks.queued 512 (sl_pool S) (sl_list S) as" "fst s = map (sl_texts S) as" "length as \<le> 511"
    and S: "sl_logger_level S = logger" "sl_file_folder_path S = folder" "sl_program_name S = prog" "sl_files S = snd s"
    using rep by (auto simp: log_rep_def)
  have levels: "\<not> (sl_debug_level S = 0 \<and> sl_logger_level S = 0)" using S(1) logger by simp
  have small: "cplus_llist_get_size (sl_list S) < MAX_MESSAGE_COUNT"
    using queued_size [OF q(1)] q(3) by (simp add: word_less_nat_alt MAX_MESSAGE_COUNT_def)
  obtain h where h: "log_header lev t = Inr h" using header_ok [OF ok(1,2)] by blast
  show ?thesis
  proof (cases "level_no lev \<le> logger")
    case False
    obtain out where out: "exec_bind (if level_no lev \<le> sl_debug_level S then console_print lev t' format text S else Inr S)
        (\<lambda>S3. Inr (Inr (), S3)) = (Inr (Inr (), S\<lparr>sl_console := out\<rparr>) :: (unit cresult \<times> syslog) exec)"
      by (rule console_after [OF ok(3)])
    have "debug_print lev t t' format text S = Some (Inr (Inr (), S\<lparr>sl_console := out\<rparr>))"
      using False levels S(1) out by (cases "level_no lev \<le> sl_debug_level S") (simp_all add: debug_print_def)
    then show ?thesis using False rep by simp
  next
    case le: True
    show ?thesis
    proof (cases "length as < 511")
      case True
      then have "length as + 1 < 512" by simp
      then obtain b s1 a s2 L where step: "cplus_mempool_alloc (sl_pool S) = (Inr b, s1)" "cplus_mempool_alloc s1 = (Inr a, s2)"
          "cplus_llist_push_front (sl_list S) a = Some (Inr (), L)" "b \<notin> set as" "a \<notin> set as" "b \<noteq> a"
          "tasks.queued 512 (mp_free s2 b) L (a # as)"
        by (rule tasks.enqueue_second [OF q(1)])
      let ?bs = "fitting MAX_MESSAGE_BUFFER_SIZE h @ fitting (MAX_MESSAGE_BUFFER_SIZE - length h) (fitting MAX_MESSAGE_BUFFER_SIZE text)"
      let ?T = "(sl_texts S)(b := fitting MAX_MESSAGE_BUFFER_SIZE text, a := ?bs)"
      let ?S2 = "S\<lparr>sl_pool := s2, sl_texts := ?T, sl_list := L\<rparr>"
      let ?k = "\<lambda>S3. Inr (Inr (), S3\<lparr>sl_pool := snd (cplus_mempool_free (sl_pool S3) b)\<rparr>) :: (unit cresult \<times> syslog) exec"
      obtain out where out: "exec_bind (if level_no lev \<le> sl_debug_level ?S2
          then console_print lev t' format (sl_texts ?S2 b) ?S2 else Inr ?S2) ?k = ?k (?S2\<lparr>sl_console := out\<rparr>)"
        by (rule console_after [OF ok(3)])
      have "debug_print lev t t' format text S = Some (?k (?S2\<lparr>sl_console := out\<rparr>))"
        using levels S(1) le step(1-3,6) small h out
        by (cases "level_no lev \<le> sl_debug_level S") (simp_all add: debug_print_def syslog_logger_print_def Let_def)
      moreover have texts: "fst (log_text lev t text # fst s, snd s) = map (sl_texts (?S2\<lparr>sl_console := out, sl_pool := mp_free s2 b\<rparr>)) (a # as)"
        using step(4,5) q(2) h by (simp add: log_text_def)
      have "log_rep logger folder prog (?S2\<lparr>sl_console := out, sl_pool := mp_free s2 b\<rparr>) (log_text lev t text # fst s, snd s)"
        by (rule log_repI [OF _ texts]) (use step(7) True S in simp_all)
      ultimately show ?thesis using le True q(2) by (simp add: mp_free_def)
    next
      case False
      then have "length as + 1 = 512" using q(3) by simp
      then obtain b s1 e s2 where step: "cplus_mempool_alloc (sl_pool S) = (Inr b, s1)" "cplus_mempool_alloc s1 = (Inl e, s2)"
          "b \<notin> set as" "tasks.queued 512 (mp_free s2 b) (sl_list S) as"
        by (rule tasks.last_block [OF q(1)])
      let ?T = "(sl_texts S)(b := fitting MAX_MESSAGE_BUFFER_SIZE text)"
      let ?S2 = "S\<lparr>sl_texts := ?T, sl_pool := s2\<rparr>"
      let ?k = "\<lambda>S3. Inr (Inr (), S3\<lparr>sl_pool := snd (cplus_mempool_free (sl_pool S3) b)\<rparr>) :: (unit cresult \<times> syslog) exec"
      obtain out where out: "exec_bind (if level_no lev \<le> sl_debug_level ?S2
          then console_print lev t' format (sl_texts ?S2 b) ?S2 else Inr ?S2) ?k = ?k (?S2\<lparr>sl_console := out\<rparr>)"
        by (rule console_after [OF ok(3)])
      have "debug_print lev t t' format text S = Some (?k (?S2\<lparr>sl_console := out\<rparr>))"
        using levels S(1) le step(1,2) small out
        by (cases "level_no lev \<le> sl_debug_level S") (simp_all add: debug_print_def syslog_logger_print_def Let_def)
      moreover have texts: "fst s = map (sl_texts (?S2\<lparr>sl_console := out, sl_pool := mp_free s2 b\<rparr>)) as"
        using step(3) q(2) by (auto intro!: map_cong)
      have "log_rep logger folder prog (?S2\<lparr>sl_console := out, sl_pool := mp_free s2 b\<rparr>) s"
        by (rule log_repI [OF _ texts]) (use step(4) q(3) S in simp_all)
      ultimately show ?thesis using le False q(2) by (simp add: mp_free_def)
    qed
  qed
qed

lemma write_messages_step:
  "\<lbrakk>tasks.queued 512 (sl_pool S) (sl_list S) as\<rbrakk> \<Longrightarrow> \<exists>mp L. write_messages path S = Some (S\<lparr>sl_pool := mp, sl_list := L,
     sl_files := (sl_files S)(path := sl_files S path @ concat (map (\<lambda>a. file_line (sl_texts S a)) (rev as)))\<rparr>) \<and>
     tasks.queued 512 mp L []"
proof (induction as arbitrary: S rule: rev_induct)
  case Nil
  obtain L where "cplus_llist_pop_back (sl_list S) = Some (Inl ENOENT, L)" "list_rep 512 L []"
    using tasks.pop_ok [of 512 "sl_list S" "[]"] Nil by (auto simp: tasks.queued_def)
  then show ?case using Nil
    by (subst write_messages.simps) (auto simp: tasks.queued_def intro!: exI [of _ "sl_pool S"] exI [of _ L])
next
  case (snoc a as)
  obtain L where step: "cplus_llist_pop_back (sl_list S) = Some (Inr a, L)" "tasks.queued 512 (mp_free (sl_pool S) a) L as"
    using tasks.dequeue [OF snoc.prems] by auto
  have a: "a \<noteq> CPLUS_NULL"
    using list_rep_nonnull [of 512 "sl_list S" "as @ [a]"] snoc.prems by (auto simp: tasks.queued_def)
  let ?S = "S\<lparr>sl_list := L, sl_files := (sl_files S)(path := sl_files S path @ file_line (sl_texts S a)),
      sl_pool := mp_free (sl_pool S) a\<rparr>"
  have "tasks.queued 512 (sl_pool ?S) (sl_list ?S) as" using step(2) by simp
  from snoc.IH [OF this] obtain mp L' where "write_messages path ?S = Some (?S\<lparr>sl_pool := mp, sl_list := L',
      sl_files := (sl_files ?S)(path := sl_files ?S path @ concat (map (\<lambda>a. file_line (sl_texts ?S a)) (rev as)))\<rparr>)"
      "tasks.queued 512 mp L' []" by blast
  moreover have "write_messages path S = write_messages path ?S"
    using step(1) a by (subst write_messages.simps) (simp add: Let_def mp_free_def)
  ultimately show ?case by (intro exI [of _ mp] exI [of _ L']) (simp add: fun_upd_def cong: if_cong)
qed

lemma log_write:
  assumes rep: "log_rep logger folder prog S s"
  shows "\<exists>S'. log_step (Write t opens) S = Some (Inr S') \<and>
    log_rep logger folder prog S' (spec_log logger folder prog (Write t opens) s)"
proof -
  obtain as where q: "tasks.queued 512 (sl_pool S) (sl_list S) as" "fst s = map (sl_texts S) as" "length as \<le> 511"
    and S: "sl_logger_level S = logger" "sl_file_folder_path S = folder" "sl_program_name S = prog" "sl_files S = snd s"
    using rep by (auto simp: log_rep_def)
  have some: "0 < cplus_llist_get_size (sl_list S) \<longleftrightarrow> as \<noteq> []" using queued_size [OF q(1)] by (simp add: u32_pos_iff)
  let ?path = "day_file folder prog t"
  let ?S = "S\<lparr>sl_file_path := ?path\<rparr>"
  show ?thesis
  proof (cases "as \<noteq> [] \<and> opens")
    case True
    obtain mp L where W: "write_messages ?path ?S = Some (?S\<lparr>sl_pool := mp, sl_list := L,
        sl_files := (sl_files ?S)(?path := sl_files ?S ?path @ concat (map (\<lambda>a. file_line (sl_texts ?S a)) (rev as)))\<rparr>)"
        "tasks.queued 512 mp L []"
      using write_messages_step [of ?S as ?path] q(1) by auto
    have "concat (map (\<lambda>a. file_line (sl_texts ?S a)) (rev as)) = concat (map file_line (rev (fst s)))"
      by (simp add: q(2) rev_map comp_def)
    then show ?thesis using W True some S q(2)
      by (auto simp: custom_logger_executer_def Let_def log_rep_def)
  next
    case False
    then show ?thesis using some rep S q(2)
      by (auto simp: custom_logger_executer_def Let_def log_rep_def)
  qed
qed

lemma log_run_step:
  "\<lbrakk>log_rep logger folder prog S s; 0 < logger; \<forall>x\<in>set xs. proper x\<rbrakk> \<Longrightarrow>
   \<exists>S'. log_run xs S = Some (Inr S') \<and> log_rep logger folder prog S' (fold (spec_log logger folder prog) xs s)"
proof (induction xs arbitrary: S s)
  case (Cons x xs)
  have "\<exists>S1. log_step x S = Some (Inr S1) \<and> log_rep logger folder prog S1 (spec_log logger folder prog x s)"
    using Cons.prems log_message log_write by (cases x) (auto simp del: log_step.simps spec_log.simps)
  then obtain S1 where "log_step x S = Some (Inr S1)" "log_rep logger folder prog S1 (spec_log logger folder prog x s)" by blast
  then show ?case using Cons.IH [of S1 "spec_log logger folder prog x s"] Cons.prems by auto
qed simp

lemma new_store_rep:
  assumes new: "new_store heap nodes obj1 obj2 mal1 mal2 mem1 mem2 = Inr store"
    and mal: "\<And>m. mal1 m = CPLUS_NULL \<or> unat (mal1 m) + unat m \<le> 2 ^ 64"
      "\<And>m. mal2 m = CPLUS_NULL \<or> unat (mal2 m) + unat m \<le> 2 ^ 64"
    and nodes: "nodes CPLUS_NULL = None"
  shows "tasks.queued 512 (fst store) (snd store) []"
proof -
  obtain mp L h where made: "cplus_mempool_new obj1 mal1 mem1 512 1024 = Inr mp"
      "cplus_llist_prev_new heap nodes obj2 mal2 mem2 512 = (Inr L, h)" "store = (mp, L)"
    using new by (auto simp: new_store_def MAX_MESSAGE_COUNT_def MAX_MESSAGE_BUFFER_SIZE_def prod_eq_iff split: sum.splits)
  have "deque_rep (unat (512 :: u32)) L []" by (rule prev_new_deque_rep [OF made(2) _ mal(2) nodes]) simp
  then have "list_rep 512 L []" by (auto simp: list_rep_def)
  moreover have "unat (512 :: u32) * unat (1024 :: u32) < 2 ^ 32" by simp
  with mempool_new_ok [OF made(1) _ mal(1)] have "mp_ok mp" "length (free_blocks mp) = 512" "live_blocks mp = {}"
    by simp_all
  ultimately show ?thesis using made(3) by (simp add: tasks.queued_def)
qed

section \<open>Properties\<close>

text \<open>
  C14. With the logger on, every sequence of messages with a format that is not empty, at times of a
  calendar, and rounds of the writing task ends without a fault and does what the specification says: a message of a level that is logged waits, unless
  511 are waiting, in which case it is dropped; a round appends the waiting messages, the oldest
  first, each on a line of its own, to the file of the day, or leaves them when the file cannot
  be opened.  No block of the list or the pool is lost.  (A message with an empty format can fault:
  \<open>syslog_empty_message_faults\<close> below.)
\<close>

theorem syslog_keeps_order:
  assumes "new_store heap nodes obj1 obj2 mal1 mal2 mem1 mem2 = Inr store"
    and "\<And>m. mal1 m = CPLUS_NULL \<or> unat (mal1 m) + unat m \<le> 2 ^ 64"
    and "\<And>m. mal2 m = CPLUS_NULL \<or> unat (mal2 m) + unat m \<le> 2 ^ 64"
    and "nodes CPLUS_NULL = None"
    and "cplus_syslog_new_ex ok env short_name name store files out = Inr S"
    and "0 < cplus_syslog_get_logger_level S" "\<forall>x\<in>set xs. proper x"
    and "s = fold (spec_log (sl_logger_level S) (sl_file_folder_path S) (sl_program_name S)) xs ([], files)"
  shows "\<exists>S'. log_run xs S = Some (Inr S') \<and> sl_files S' = snd s \<and>
    unat (cplus_llist_get_size (sl_list S')) = length (fst s) \<and> length (fst s) \<le> 511 \<and>
    card (live_blocks (sl_pool S')) = length (fst s)"
proof -
  have "sl_pool S = fst store" "sl_list S = snd store" "sl_files S = files"
    using assms(5) by (auto simp: cplus_syslog_new_ex_def syslog_initialize_object_def Let_def split: if_splits)
  then have "log_rep (sl_logger_level S) (sl_file_folder_path S) (sl_program_name S) S ([], files)"
    using new_store_rep [OF assms(1-4)] by (simp add: log_rep_def)
  from log_run_step [OF this _ assms(7)] assms(6)
  obtain S' where S': "log_run xs S = Some (Inr S')"
      "log_rep (sl_logger_level S) (sl_file_folder_path S) (sl_program_name S) S' s"
    unfolding assms(8) by (auto simp: cplus_syslog_get_logger_level_def)
  then obtain as where as: "tasks.queued 512 (sl_pool S') (sl_list S') as" "fst s = map (sl_texts S') as" "length (fst s) \<le> 511"
      "sl_files S' = snd s"
    by (auto simp: log_rep_def)
  have "card (live_blocks (sl_pool S')) = length as"
    using as(1) distinct_card [of as] by (simp add: tasks.queued_def)
  then show ?thesis using S'(1) as queued_size [OF as(1)] by auto
qed

definition example_time :: systime where
  "example_time = \<lparr>day_of_year = 60, day_of_week = 5, year = 2024, month = 2, day_of_month = 29, hours = 13, minutes = 5,
     second = 9, millisecond = 7, microsecond = 42\<rparr>"

lemma example_store:
  "\<exists>store. new_store example_heap (\<lambda>_. None) 128 256 (\<lambda>_. 4096) (\<lambda>_. 1048576) (\<lambda>_. 0) (\<lambda>_. 0) = Inr store"
  by (simp add: new_store_def cplus_llist_prev_new_def MAX_NODE_COUNT_def llist_initialize_object_def
    cplus_mgr_malloc_def example_heap_def cplus_mempool_new_def mempool_initialize_object_def
    word_less_nat_alt MAX_MESSAGE_COUNT_def MAX_MESSAGE_BUFFER_SIZE_def)

lemma example_mal': "(1048576 :: ptr) = CPLUS_NULL \<or> unat (1048576 :: ptr) + unat m \<le> 2 ^ 64" for m :: u32
  using unat_u32_bound [of m] by simp

theorem syslog_keeps_order_witness:
  "\<exists>store S S'. new_store example_heap (\<lambda>_. None) 128 256 (\<lambda>_. 4096) (\<lambda>_. 1048576) (\<lambda>_. 0) (\<lambda>_. 0) = Inr store \<and>
     cplus_syslog_new_ex (\<lambda>_. True) (\<lambda>_. Some 4) [] (Some [97]) store (\<lambda>_. []) [] = Inr S \<and>
     log_run [Log LEVEL_ERROR example_time example_time [37, 115] [104, 105], Log LEVEL_TRACE example_time example_time [120] [120],
       Log LEVEL_INFO example_time example_time [111, 107, 10] [111, 107, 10], Write example_time True] S = Some (Inr S') \<and>
     sl_files S' (day_file (sl_file_folder_path S) [97] example_time) =
       file_line (log_text LEVEL_ERROR example_time [104, 105]) @ file_line (log_text LEVEL_INFO example_time [111, 107, 10]) \<and>
     cplus_llist_get_size (sl_list S') = 0"
proof -
  obtain store where store: "new_store example_heap (\<lambda>_. None) 128 256 (\<lambda>_. 4096) (\<lambda>_. 1048576) (\<lambda>_. 0) (\<lambda>_. 0) = Inr store"
    using example_store by blast
  let ?new = "cplus_syslog_new_ex (\<lambda>_. True) (\<lambda>_. Some 4) [] (Some [97]) store (\<lambda>_. []) []"
  let ?ops = "[Log LEVEL_ERROR example_time example_time [37, 115] [104, 105], Log LEVEL_TRACE example_time example_time [120] [120],
       Log LEVEL_INFO example_time example_time [111, 107, 10] [111, 107, 10], Write example_time True]"
  obtain S where S: "?new = Inr S" "sl_logger_level S = 4" "sl_program_name S = [97]"
    by (simp add: cplus_syslog_new_ex_def syslog_initialize_object_def log_parts_def fitting_def MAX_PROGRAM_NAME_SIZE_def)
  from syslog_keeps_order [OF store example_mal(1) example_mal' refl S(1) _ _ refl, of ?ops]
  obtain S' where "log_run ?ops S = Some (Inr S')"
      "sl_files S' = snd (fold (spec_log (sl_logger_level S) (sl_file_folder_path S) (sl_program_name S)) ?ops ([], \<lambda>_. []))"
      "unat (cplus_llist_get_size (sl_list S')) =
        length (fst (fold (spec_log (sl_logger_level S) (sl_file_folder_path S) (sl_program_name S)) ?ops ([], \<lambda>_. [])))"
    using S(2) by (auto simp: cplus_syslog_get_logger_level_def example_time_def simp del: fold_simps spec_log.simps log_run.simps)
  then show ?thesis using store S by (simp add: unat_eq_0 del: log_run.simps)
qed

text \<open>An empty message makes the console look at the character before its format.\<close>

theorem syslog_empty_message_faults:
  assumes "level_no lev \<le> sl_debug_level S" "sl_logger_level S < level_no lev"
  shows "debug_print lev t t' [] text S = Some (Inl Out_of_bounds)"
  using assms by (auto simp: debug_print_def console_print_def append_new_line_def)

text \<open>A construction that fails releases what it has made, but for the directory, once.\<close>

theorem syslog_construction_cleans_up:
  assumes "cplus_syslog_new_ex ok env short_name name store files out = Inl (parts, closes)"
  shows "\<exists>logger. takeWhile ok (log_parts logger) \<noteq> log_parts logger \<and> distinct parts \<and> last parts = Log_object \<and>
    set parts = insert Log_object (set (takeWhile ok (log_parts logger)) - {Log_folder})"
proof -
  obtain logger where logger: "takeWhile ok (log_parts logger) \<noteq> log_parts logger"
      "parts = filter (\<lambda>p. p \<in> set (takeWhile ok (log_parts logger))) [Log_worker, Log_pool, Log_list, Log_sect] @ [Log_object]"
    using assms by (auto simp: cplus_syslog_new_ex_def syslog_initialize_object_def Let_def cplus_syslog_delete_def split: if_splits)
  have "set (takeWhile ok (log_parts logger)) \<subseteq> {Log_sect, Log_folder, Log_pool, Log_list, Log_worker}"
    by (auto simp: log_parts_def dest!: set_takeWhileD split: if_splits)
  then have "set parts = insert Log_object (set (takeWhile ok (log_parts logger)) - {Log_folder})"
    unfolding logger(2) by auto
  moreover have "distinct parts" "last parts = Log_object" unfolding logger(2) by auto
  ultimately show ?thesis using logger(1) by blast
qed

end
