(* ===== verification/Memtrack.thy ===== *)
theory Memtrack
  imports Bytes Allocator
begin

text \<open>
  The allocation tracker of \<^verbatim>\<open>src/memmgr.c\<close> (\<^verbatim>\<open>__CPLUS_MEM_MANAGER__\<close> defined).  Every block is
  allocated with four bytes more in front and behind, which hold the tags \<open>BEGCHK\<close> and
  \<open>ENDCHK\<close>, and recorded in a singly linked list of \<^verbatim>\<open>struct extra_info\<close>.  The operations are
  \<open>tracked_malloc\<close>, \<open>tracked_realloc\<close> and \<open>tracked_free\<close> (the functions of this build have the
  names of the untracked ones of \<^verbatim>\<open>Allocator\<close>), the checks and the report.

  The lock \<^verbatim>\<open>rwlock\<close> makes every access to the list of records one step.  A dangling pointer,
  a double \<^verbatim>\<open>free\<close> or a loop that never ends is the fault \<open>Undefined\<close>, a failed \<^verbatim>\<open>assert\<close> is
  \<open>Assert_fail\<close>.
\<close>

section \<open>The C library's heap with sizes\<close>

text \<open>
  The blocks in use with their sizes, the choice of the next block (\<open>CPLUS_NULL\<close>: out of
  memory), what the C library writes outside the blocks in use, and the memory.
\<close>

type_synonym blocks = "(ptr \<times> nat) list"

record raw_heap =
  rh_live :: blocks
  rh_pick :: "blocks \<Rightarrow> nat \<Rightarrow> ptr"
  rh_touch :: "blocks \<Rightarrow> mem \<Rightarrow> mem"
  rh_mem :: mem

definition raw_malloc :: "nat \<Rightarrow> raw_heap \<Rightarrow> ptr \<times> raw_heap" where
  "raw_malloc n h =
     (let a = rh_pick h (rh_live h) n in
      if a = CPLUS_NULL then (CPLUS_NULL, h)
      else (a, h\<lparr>rh_live := (a, n) # rh_live h, rh_mem := rh_touch h (rh_live h) (rh_mem h)\<rparr>))"

definition without :: "ptr \<Rightarrow> blocks \<Rightarrow> blocks" where
  "without a bs = filter (\<lambda>b. fst b \<noteq> a) bs"

definition raw_free :: "ptr \<Rightarrow> raw_heap \<Rightarrow> raw_heap exec" where
  "raw_free a h =
     (if a = CPLUS_NULL then Inr h
      else if a \<notin> fst ` set (rh_live h) then Inl Undefined
      else (let rest = without a (rh_live h)
            in Inr (h\<lparr>rh_live := rest, rh_mem := rh_touch h rest (rh_mem h)\<rparr>)))"

text \<open>\<^verbatim>\<open>realloc\<close> of a block in use; with the size 0 glibc frees it and returns a null pointer.\<close>

definition raw_realloc :: "ptr \<Rightarrow> nat \<Rightarrow> raw_heap \<Rightarrow> (ptr \<times> raw_heap) exec" where
  "raw_realloc a n h = (case map_of (rh_live h) a of
     None \<Rightarrow> Inl Undefined
   | Some old \<Rightarrow>
      if n = 0 then exec_bind (raw_free a h) (\<lambda>h1. Inr (CPLUS_NULL, h1))
      else (let rest = without a (rh_live h); b = rh_pick h rest n in
        if b = CPLUS_NULL then Inr (CPLUS_NULL, h)
        else Inr (b, h\<lparr>rh_live := (b, n) # rest,
          rh_mem := write_bytes (rh_touch h rest (rh_mem h)) b (read_bytes (rh_mem h) a (min old n))\<rparr>)))"

section \<open>The records\<close>

definition BEGCHK :: u32 where "BEGCHK = 0x1A2A3A4A"

definition ENDCHK :: u32 where "ENDCHK = 0x5B6B7B8B"

definition CLRCHK :: u32 where "CLRCHK = 0xABABABAB"

definition MAX_FILE_NAME :: nat where "MAX_FILE_NAME = 31"

definition MAX_FUNC_NAME :: nat where "MAX_FUNC_NAME = 63"

record extra_info =
  ei_mem_ref :: ptr
  ei_mem_size :: u32
  ei_line :: u32
  ei_next :: ptr
  ei_file :: string
  ei_function :: string

definition sizeof_extra_info :: nat where "sizeof_extra_info = 120"

record tracker =
  tk_heap :: raw_heap
  tk_nodes :: "ptr \<rightharpoonup> extra_info"
  tk_start :: ptr
  tk_last :: ptr
  tk_inused :: u32

text \<open>\<^verbatim>\<open>src/sys.c\<close>: what follows the last separator of a path.\<close>

definition after_last :: "char \<Rightarrow> string \<Rightarrow> string" where
  "after_last c s = rev (takeWhile (\<lambda>d. d \<noteq> c) (rev s))"

definition cplus_sys_skip_file_path :: "string \<Rightarrow> string" where
  "cplus_sys_skip_file_path filepath =
     (if CHR 0x5C \<in> set filepath then after_last (CHR 0x5C) filepath
      else if CHR ''/'' \<in> set filepath then after_last (CHR ''/'') filepath
      else filepath)"

text \<open>A read through a pointer to no record, or a walk that never ends.\<close>

definition deref :: "'a option \<Rightarrow> 'a exec" where
  "deref r = (case r of None \<Rightarrow> Inl Undefined | Some x \<Rightarrow> Inr x)"

definition add_mem_info ::
    "ptr \<Rightarrow> u32 \<Rightarrow> string option \<Rightarrow> string option \<Rightarrow> u32 \<Rightarrow> tracker \<Rightarrow> (unit cresult \<times> tracker) exec" where
  "add_mem_info mem_ref size1 file func line T = (case file of None \<Rightarrow> Inr (Inl EINVAL, T)
     | Some f \<Rightarrow> (case func of None \<Rightarrow> Inr (Inl EINVAL, T)
     | Some g \<Rightarrow> (case raw_malloc sizeof_extra_info (tk_heap T) of (ex, h) \<Rightarrow>
        if ex \<noteq> CPLUS_NULL then
          (let info = \<lparr>ei_mem_ref = mem_ref, ei_mem_size = size1, ei_line = line, ei_next = CPLUS_NULL,
                 ei_file = take (MAX_FILE_NAME - 1) (cplus_sys_skip_file_path f),
                 ei_function = take (MAX_FUNC_NAME - 1) g\<rparr>;
               T1 = T\<lparr>tk_heap := h, tk_nodes := (tk_nodes T)(ex \<mapsto> info)\<rparr> in
           if tk_start T1 = CPLUS_NULL
           then Inr (Inr (), T1\<lparr>tk_start := ex, tk_last := ex, tk_inused := tk_inused T1 + 1\<rparr>)
           else exec_bind (deref (tk_nodes T1 (tk_last T1))) (\<lambda>e.
             Inr (Inr (), T1\<lparr>tk_nodes := (tk_nodes T1)(tk_last T1 \<mapsto> e\<lparr>ei_next := ex\<rparr>),
               tk_last := ex, tk_inused := tk_inused T1 + 1\<rparr>)))
        else Inr (Inl ENOMEM, T\<lparr>tk_heap := h\<rparr>))))"

text \<open>The walks over the records.\<close>

partial_function (option) find_loop :: "(ptr \<rightharpoonup> extra_info) \<Rightarrow> ptr \<Rightarrow> ptr \<Rightarrow> ptr option" where
  "find_loop ns mem_addr p =
     (if p = CPLUS_NULL then Some CPLUS_NULL
      else do { e \<leftarrow> ns p;
                if ei_mem_ref e = mem_addr then Some p else find_loop ns mem_addr (ei_next e) })"

partial_function (option) erase_find ::
    "(ptr \<rightharpoonup> extra_info) \<Rightarrow> ptr \<Rightarrow> ptr \<Rightarrow> ptr \<Rightarrow> (ptr \<times> ptr) option" where
  "erase_find ns mem_addr prev p =
     (if p = CPLUS_NULL then Some (prev, CPLUS_NULL)
      else do { e \<leftarrow> ns p;
                if ei_mem_ref e = mem_addr then Some (prev, p)
                else erase_find ns mem_addr p (ei_next e) })"

partial_function (option) report_loop :: "(ptr \<rightharpoonup> extra_info) \<Rightarrow> ptr \<Rightarrow> extra_info list option" where
  "report_loop ns p =
     (if p = CPLUS_NULL then Some []
      else do { e \<leftarrow> ns p; es \<leftarrow> report_loop ns (ei_next e); Some (e # es) })"

text \<open>The record of an address, \<open>CPLUS_NULL\<close> when there is none.\<close>

definition find_mem_info :: "ptr \<Rightarrow> tracker \<Rightarrow> ptr exec" where
  "find_mem_info mem_addr T =
     (if mem_addr = CPLUS_NULL then Inr CPLUS_NULL
      else deref (find_loop (tk_nodes T) mem_addr (tk_start T)))"

definition unlink_info :: "ptr \<Rightarrow> ptr \<Rightarrow> tracker \<Rightarrow> tracker exec" where
  "unlink_info prev p T = exec_bind (deref (tk_nodes T p)) (\<lambda>e.
     if p = tk_start T then Inr (T\<lparr>tk_start := ei_next e\<rparr>)
     else exec_bind (deref (tk_nodes T prev)) (\<lambda>q.
       if p = tk_last T
       then Inr (T\<lparr>tk_last := prev, tk_nodes := (tk_nodes T)(prev \<mapsto> q\<lparr>ei_next := CPLUS_NULL\<rparr>)\<rparr>)
       else Inr (T\<lparr>tk_nodes := (tk_nodes T)(prev \<mapsto> q\<lparr>ei_next := ei_next e\<rparr>)\<rparr>)))"

definition erase_mem_info :: "ptr \<Rightarrow> tracker \<Rightarrow> (unit cresult \<times> tracker) exec" where
  "erase_mem_info mem_addr T =
     (if mem_addr = CPLUS_NULL then Inr (Inl EINVAL, T)
      else exec_bind (deref (erase_find (tk_nodes T) mem_addr CPLUS_NULL (tk_start T))) (\<lambda>(prev, p).
        if p = CPLUS_NULL then Inr (Inr (), T)
        else exec_bind (unlink_info prev p T) (\<lambda>T1.
             exec_bind (raw_free p (tk_heap T1)) (\<lambda>h.
               Inr (Inr (), T1\<lparr>tk_heap := h, tk_nodes := (tk_nodes T1)(p := None),
                 tk_inused := tk_inused T1 - 1\<rparr>)))))"

section \<open>The checks\<close>

definition check_size :: "ptr \<Rightarrow> u32 \<Rightarrow> tracker \<Rightarrow> int exec" where
  "check_size mem_addr size1 T = exec_bind (find_mem_info mem_addr T) (\<lambda>target.
     if target \<noteq> CPLUS_NULL then exec_bind (deref (tk_nodes T target)) (\<lambda>e.
       if ei_mem_size e < size1 then Inr CPLUS_FAIL else Inr CPLUS_SUCCESS)
     else Inr CPLUS_SUCCESS)"

definition check_boundary :: "ptr \<Rightarrow> tracker \<Rightarrow> int exec" where
  "check_boundary entire T =
     (let target = entire + 4; m = rh_mem (tk_heap T) in
      exec_bind (find_mem_info target T) (\<lambda>info.
        if info \<noteq> CPLUS_NULL then exec_bind (deref (tk_nodes T info)) (\<lambda>e.
          if CLRCHK = load32 m entire then Inr CPLUS_FAIL
          else if BEGCHK \<noteq> load32 m entire then Inr CPLUS_FAIL
          else if load32 m (target + ucast (ei_mem_size e)) \<noteq> ENDCHK then Inr CPLUS_FAIL
          else Inr CPLUS_SUCCESS)
        else Inr CPLUS_SUCCESS))"

definition assert_success :: "int \<Rightarrow> unit exec" where
  "assert_success r = (if r = CPLUS_SUCCESS then Inr () else Inl Assert_fail)"

definition cplus_mgr_check_size :: "ptr \<Rightarrow> u32 \<Rightarrow> tracker \<Rightarrow> int exec" where
  "cplus_mgr_check_size p size1 T =
     (if p = CPLUS_NULL then Inr CPLUS_FAIL
      else if size1 = 0 then Inr CPLUS_FAIL
      else check_size p size1 T)"

definition cplus_mgr_check_boundary :: "ptr \<Rightarrow> tracker \<Rightarrow> int exec" where
  "cplus_mgr_check_boundary p T =
     (if p = CPLUS_NULL then Inr CPLUS_FAIL else check_boundary (p - 4) T)"

section \<open>Allocation\<close>

definition put32 :: "ptr \<Rightarrow> u32 \<Rightarrow> tracker \<Rightarrow> tracker" where
  "put32 a v T = T\<lparr>tk_heap := (tk_heap T)\<lparr>rh_mem := store32 (rh_mem (tk_heap T)) a v\<rparr>\<rparr>"

text \<open>The tags around a block at \<open>entire\<close> whose client part has \<open>size1\<close> bytes.\<close>

definition put_tags :: "ptr \<Rightarrow> u32 \<Rightarrow> tracker \<Rightarrow> tracker" where
  "put_tags entire size1 T = put32 (entire + 4 + ucast size1) ENDCHK (put32 entire BEGCHK T)"

definition tracked_malloc ::
    "u32 \<Rightarrow> string option \<Rightarrow> string option \<Rightarrow> u32 \<Rightarrow> tracker \<Rightarrow> (ptr \<times> tracker) exec" where
  "tracked_malloc size1 file func line T =
     (if size1 \<noteq> 0 then
        (case raw_malloc (unat size1 + 2 * 4) (tk_heap T) of (mem1, h) \<Rightarrow>
           if mem1 \<noteq> CPLUS_NULL then
             exec_bind (add_mem_info (mem1 + 4) size1 file func line
                 (put_tags mem1 size1 (T\<lparr>tk_heap := h\<rparr>))) (\<lambda>(r, T1). Inr (mem1 + 4, T1))
           else Inr (CPLUS_NULL, T\<lparr>tk_heap := h\<rparr>))
      else Inr (CPLUS_NULL, T))"

text \<open>\<open>new_size\<close> has 32 bits.\<close>

definition tracked_realloc ::
    "ptr \<Rightarrow> u32 \<Rightarrow> string option \<Rightarrow> string option \<Rightarrow> u32 \<Rightarrow> tracker \<Rightarrow> (ptr cresult \<times> tracker) exec" where
  "tracked_realloc p size1 file func line T =
     (if p = CPLUS_NULL then Inr (Inl EINVAL, T)
      else (let entire = p - 4 in
        exec_bind (check_boundary entire T) (\<lambda>r. exec_bind (assert_success r) (\<lambda>_.
        exec_bind (erase_mem_info p T) (\<lambda>(_, T1).
        let new_size = (if size1 = 0 then 0 else size1 + 2 * 4) in
        exec_bind (raw_realloc entire (unat new_size) (tk_heap T1)) (\<lambda>(mem1, h).
          if mem1 = CPLUS_NULL then
            (if size1 \<noteq> 0 then exec_bind (raw_free entire h) (\<lambda>h1. Inr (Inl ENOMEM, T1\<lparr>tk_heap := h1\<rparr>))
             else Inr (Inl ENOMEM, T1\<lparr>tk_heap := h\<rparr>))
          else exec_bind (add_mem_info (mem1 + 4) size1 file func line
                 (put_tags mem1 size1 (T1\<lparr>tk_heap := h\<rparr>))) (\<lambda>(_, T2). Inr (Inr (mem1 + 4), T2))))))))"

definition tracked_free :: "ptr \<Rightarrow> tracker \<Rightarrow> (unit cresult \<times> tracker) exec" where
  "tracked_free p T =
     (if p = CPLUS_NULL then Inr (Inl EINVAL, T)
      else (let entire = p - 4 in
        exec_bind (check_boundary entire T) (\<lambda>r. exec_bind (assert_success r) (\<lambda>_.
        exec_bind (erase_mem_info p (put32 entire CLRCHK T)) (\<lambda>(_, T1).
        exec_bind (raw_free entire (tk_heap T1)) (\<lambda>h. Inr (Inr (), T1\<lparr>tk_heap := h\<rparr>)))))))"

text \<open>The count that is returned and the records that are printed.\<close>

definition cplus_mgr_report :: "tracker \<Rightarrow> (u32 \<times> extra_info list) exec" where
  "cplus_mgr_report T = exec_bind (deref (report_loop (tk_nodes T) (tk_start T)))
     (\<lambda>es. Inr (of_nat (length es), es))"

end
