(* ===== verification/Memtrack_Lemmas.thy ===== *)
theory Memtrack_Lemmas
  imports Memtrack
begin

text \<open>
  The invariant of the allocation tracker: the heap's blocks are disjoint, the records form a
  list, and every recorded block is in use with both tags in place; and that each operation
  keeps it.
\<close>

section \<open>The heap\<close>

text \<open>The documented behaviour of the C library's allocator.\<close>

definition pick_law :: "(blocks \<Rightarrow> nat \<Rightarrow> ptr) \<Rightarrow> bool" where
  "pick_law pick \<longleftrightarrow> (\<forall>live n. 0 < n \<and> pick live n \<noteq> CPLUS_NULL \<longrightarrow>
     unat (pick live n) + n \<le> 2 ^ 64 \<and>
     (\<forall>b k. (b, k) \<in> set live \<longrightarrow> region (pick live n) n \<inter> region b k = {}))"

definition touch_law :: "(blocks \<Rightarrow> mem \<Rightarrow> mem) \<Rightarrow> bool" where
  "touch_law touch \<longleftrightarrow> (\<forall>live m b k x. (b, k) \<in> set live \<and> x \<in> region b k \<longrightarrow> touch live m x = m x)"

definition disjoint_blocks :: "blocks \<Rightarrow> bool" where
  "disjoint_blocks bs \<longleftrightarrow> distinct (map fst bs) \<and>
     (\<forall>a n. (a, n) \<in> set bs \<longrightarrow> a \<noteq> CPLUS_NULL \<and> 0 < n \<and> unat a + n \<le> 2 ^ 64) \<and>
     (\<forall>a n b k. (a, n) \<in> set bs \<and> (b, k) \<in> set bs \<and> a \<noteq> b \<longrightarrow> region a n \<inter> region b k = {})"

lemma disjoint_blocksD:
  "\<lbrakk>disjoint_blocks bs; (a, n) \<in> set bs; (b, k) \<in> set bs; a \<noteq> b\<rbrakk> \<Longrightarrow> region a n \<inter> region b k = {}"
  by (simp add: disjoint_blocks_def)

definition raw_ok :: "raw_heap \<Rightarrow> bool" where
  "raw_ok h \<longleftrightarrow> pick_law (rh_pick h) \<and> touch_law (rh_touch h) \<and> disjoint_blocks (rh_live h)"

lemma without_mem [simp]: "(b, k) \<in> set (without a bs) \<longleftrightarrow> (b, k) \<in> set bs \<and> b \<noteq> a"
  by (auto simp: without_def)

lemma without_sub: "set (without a bs) \<subseteq> set bs"
  by (auto simp: without_def)

lemma disjoint_without: "disjoint_blocks bs \<Longrightarrow> disjoint_blocks (without a bs)"
  unfolding disjoint_blocks_def by (simp add: without_def distinct_map_filter) blast

lemma region_start: "0 < n \<Longrightarrow> a \<in> region a n"
  unfolding region_def by (auto intro!: image_eqI [where x = 0])

lemma disjoint_add:
  assumes "disjoint_blocks bs" "a \<noteq> CPLUS_NULL" "0 < n" "unat a + n \<le> 2 ^ 64"
    and "\<And>b k. (b, k) \<in> set bs \<Longrightarrow> region a n \<inter> region b k = {}"
  shows "disjoint_blocks ((a, n) # bs)" "a \<notin> fst ` set bs"
proof -
  show "a \<notin> fst ` set bs"
  proof
    assume "a \<in> fst ` set bs"
    then obtain k where k: "(a, k) \<in> set bs" by auto
    then have "0 < k" using assms(1) by (auto simp: disjoint_blocks_def)
    then show False using region_start [OF assms(3), of a] region_start [of k a] k assms(5) by blast
  qed
  then show "disjoint_blocks ((a, n) # bs)"
    using assms by (fastforce simp: disjoint_blocks_def)
qed

lemma raw_malloc_ok:
  assumes ok: "raw_ok h" and n: "0 < n" and step: "raw_malloc n h = (a, h')"
  shows "raw_ok h'" "a = CPLUS_NULL \<Longrightarrow> h' = h"
    "a \<noteq> CPLUS_NULL \<Longrightarrow> rh_live h' = (a, n) # rh_live h \<and> a \<notin> fst ` set (rh_live h) \<and>
       unat a + n \<le> 2 ^ 64"
    "\<lbrakk>(b, k) \<in> set (rh_live h); x \<in> region b k\<rbrakk> \<Longrightarrow> rh_mem h' x = rh_mem h x"
    "rh_pick h' = rh_pick h"
proof -
  have laws: "pick_law (rh_pick h)" "touch_law (rh_touch h)" "disjoint_blocks (rh_live h)"
    using ok by (simp_all add: raw_ok_def)
  have new: "disjoint_blocks ((a, n) # rh_live h) \<and> a \<notin> fst ` set (rh_live h) \<and> unat a + n \<le> 2 ^ 64"
    if "a = rh_pick h (rh_live h) n" "a \<noteq> CPLUS_NULL"
  proof -
    have "unat a + n \<le> 2 ^ 64" "\<And>b k. (b, k) \<in> set (rh_live h) \<Longrightarrow> region a n \<inter> region b k = {}"
      using laws(1) n that by (auto simp: pick_law_def)
    then show ?thesis using disjoint_add [OF laws(3) that(2) n] by blast
  qed
  have touch: "rh_touch h (rh_live h) (rh_mem h) x = rh_mem h x"
    if "(b, k) \<in> set (rh_live h)" "x \<in> region b k" for b k x
    using laws(2) that unfolding touch_law_def by blast
  note step' = step [unfolded raw_malloc_def Let_def]
  show "raw_ok h'" using step' laws new by (auto simp: raw_ok_def split: if_splits)
  show "a = CPLUS_NULL \<Longrightarrow> h' = h" using step' by (auto split: if_splits)
  show "a \<noteq> CPLUS_NULL \<Longrightarrow> rh_live h' = (a, n) # rh_live h \<and> a \<notin> fst ` set (rh_live h) \<and>
       unat a + n \<le> 2 ^ 64"
    using step' new by (auto split: if_splits)
  show "\<lbrakk>(b, k) \<in> set (rh_live h); x \<in> region b k\<rbrakk> \<Longrightarrow> rh_mem h' x = rh_mem h x"
    using step' touch by (auto split: if_splits)
  show "rh_pick h' = rh_pick h" using step' by (auto split: if_splits)
qed

lemma raw_free_ok:
  assumes "raw_ok h" "(a, n) \<in> set (rh_live h)"
  obtains h' where "raw_free a h = Inr h'" "raw_ok h'" "rh_live h' = without a (rh_live h)"
    "\<And>b k x. \<lbrakk>(b, k) \<in> set (rh_live h); b \<noteq> a; x \<in> region b k\<rbrakk> \<Longrightarrow> rh_mem h' x = rh_mem h x"
    "rh_pick h' = rh_pick h"
proof -
  let ?rest = "without a (rh_live h)"
  have "a \<noteq> CPLUS_NULL" using assms by (auto simp: raw_ok_def disjoint_blocks_def)
  moreover have "a \<in> fst ` set (rh_live h)" using assms(2) by force
  ultimately have free: "raw_free a h =
      Inr (h\<lparr>rh_live := ?rest, rh_mem := rh_touch h ?rest (rh_mem h)\<rparr>)"
    by (simp add: raw_free_def Let_def)
  have touch: "rh_touch h ?rest (rh_mem h) x = rh_mem h x"
    if "(b, k) \<in> set (rh_live h)" "b \<noteq> a" "x \<in> region b k" for b k x
  proof -
    have "(b, k) \<in> set ?rest" using that by simp
    then show ?thesis using assms(1) that(3) unfolding raw_ok_def touch_law_def by blast
  qed
  show ?thesis
    by (rule that [OF free]) (use assms touch in \<open>auto simp: raw_ok_def disjoint_without\<close>)
qed

section \<open>The list of records\<close>

primrec path :: "(ptr \<rightharpoonup> extra_info) \<Rightarrow> ptr \<Rightarrow> ptr list \<Rightarrow> ptr \<Rightarrow> bool" where
  "path ns p [] q = (p = q)"
| "path ns p (a # as) q =
     (p = a \<and> a \<noteq> CPLUS_NULL \<and> (\<exists>e. ns a = Some e \<and> path ns (ei_next e) as q))"

lemma path_append [simp]:
  "path ns p (as @ bs) q \<longleftrightarrow> (\<exists>r. path ns p as r \<and> path ns r bs q)"
  by (induction as arbitrary: p) auto

lemma path_update [simp]: "a \<notin> set as \<Longrightarrow> path (ns(a := v)) p as q = path ns p as q"
  by (induction as arbitrary: p) auto

lemma path_unique: "\<lbrakk>path ns p as q; path ns p as r\<rbrakk> \<Longrightarrow> q = r"
  by (induction as arbitrary: p) auto

lemma path_known: "path ns p as q \<Longrightarrow> a \<in> set as \<Longrightarrow> a \<noteq> CPLUS_NULL \<and> (\<exists>e. ns a = Some e)"
  by (induction as arbitrary: p) auto

text \<open>The records from \<open>start\<close> to \<open>last\<close>; there are no others.\<close>

definition chain :: "(ptr \<rightharpoonup> extra_info) \<Rightarrow> ptr \<Rightarrow> ptr \<Rightarrow> ptr list \<Rightarrow> bool" where
  "chain ns start l as \<longleftrightarrow> path ns start as CPLUS_NULL \<and> distinct as \<and> dom ns = set as \<and>
     (as \<noteq> [] \<longrightarrow> l = last as)"

lemma chain_null: "chain ns start l as \<Longrightarrow> start = CPLUS_NULL \<longleftrightarrow> as = []"
  by (cases as) (auto simp: chain_def)

lemma chain_fresh: "\<lbrakk>chain ns start l as; ns a = None\<rbrakk> \<Longrightarrow> a \<notin> set as"
  by (auto simp: chain_def)

text \<open>What the tracker knows: the recorded blocks in the order of the list.\<close>

definition recorded :: "(ptr \<rightharpoonup> extra_info) \<Rightarrow> ptr list \<Rightarrow> (ptr \<times> u32) list" where
  "recorded ns as = map (\<lambda>a. (ei_mem_ref (the (ns a)), ei_mem_size (the (ns a)))) as"

lemma recorded_simps [simp]:
  "recorded ns [] = []"
  "recorded ns (a # as) = (ei_mem_ref (the (ns a)), ei_mem_size (the (ns a))) # recorded ns as"
  "recorded ns (as @ bs) = recorded ns as @ recorded ns bs"
  "a \<notin> set as \<Longrightarrow> recorded (ns(a := v)) as = recorded ns as"
  by (auto simp: recorded_def)

lemma recorded_relink:
  "ns a = Some e \<Longrightarrow> recorded (ns(a \<mapsto> e\<lparr>ei_next := q\<rparr>)) as = recorded ns as"
  by (auto simp: recorded_def)

text \<open>Appending a record behind the last.\<close>

lemma chain_add_first:
  assumes "chain ns start l []" "a \<noteq> CPLUS_NULL" "ei_next i = CPLUS_NULL"
  shows "chain (ns(a \<mapsto> i)) a a [a]"
  using assms by (auto simp: chain_def)

lemma chain_add:
  assumes c: "chain ns start l as" and ne: "as \<noteq> []"
    and a: "ns a = None" "a \<noteq> CPLUS_NULL" "ei_next i = CPLUS_NULL"
  obtains e where "ns l = Some e" "l \<noteq> a"
    "chain (ns(a \<mapsto> i, l \<mapsto> e\<lparr>ei_next := a\<rparr>)) start a (as @ [a])"
    "recorded (ns(a \<mapsto> i, l \<mapsto> e\<lparr>ei_next := a\<rparr>)) (as @ [a]) =
       recorded ns as @ [(ei_mem_ref i, ei_mem_size i)]"
proof -
  obtain xs where as: "as = xs @ [l]" using c ne
    by (metis append_butlast_last_id chain_def)
  from c obtain e where e: "ns l = Some e" "path ns start xs l" "l \<noteq> CPLUS_NULL"
    by (auto simp: chain_def as)
  have fresh: "a \<notin> set as" using chain_fresh [OF c a(1)] .
  show ?thesis
  proof (rule that)
    show "ns l = Some e" by (rule e(1))
    show "l \<noteq> a" using e(1) a(1) by auto
    show "chain (ns(a \<mapsto> i, l \<mapsto> e\<lparr>ei_next := a\<rparr>)) start a (as @ [a])"
      using c e a fresh by (auto simp: chain_def as)
    show "recorded (ns(a \<mapsto> i, l \<mapsto> e\<lparr>ei_next := a\<rparr>)) (as @ [a]) =
        recorded ns as @ [(ei_mem_ref i, ei_mem_size i)]"
      using c e(1) fresh by (simp add: as chain_def)
  qed
qed

text \<open>The walks find the first record with an address.\<close>

lemma find_loop_path:
  assumes "path ns p as CPLUS_NULL"
  shows "find_loop ns x p = Some (case find (\<lambda>a. ei_mem_ref (the (ns a)) = x) as of
      None \<Rightarrow> CPLUS_NULL | Some a \<Rightarrow> a)"
  using assms by (induction as arbitrary: p) (auto simp: find_loop.simps)

lemma report_loop_path:
  assumes "path ns p as CPLUS_NULL"
  shows "report_loop ns p = Some (map (\<lambda>a. the (ns a)) as)"
  using assms by (induction as arbitrary: p) (auto simp: report_loop.simps)

lemma erase_find_path:
  assumes "path ns p (xs @ a # ys) CPLUS_NULL" "ei_mem_ref (the (ns a)) = x"
    and "\<forall>b \<in> set xs. ei_mem_ref (the (ns b)) \<noteq> x"
  shows "erase_find ns x prev p = Some (last (prev # xs), a)"
  using assms
proof (induction xs arbitrary: p prev)
  case Nil
  then show ?case by (subst erase_find.simps) auto
next
  case (Cons b xs)
  then obtain e where e: "p = b" "b \<noteq> CPLUS_NULL" "ns b = Some e" "path ns (ei_next e) (xs @ a # ys) CPLUS_NULL"
    by auto
  then show ?case using Cons.IH [OF e(4) Cons.prems(2), of b] Cons.prems(3)
    by (subst erase_find.simps) simp
qed

lemma erase_find_none:
  assumes "path ns p as CPLUS_NULL" "\<forall>b \<in> set as. ei_mem_ref (the (ns b)) \<noteq> x"
  shows "\<exists>prev'. erase_find ns x prev p = Some (prev', CPLUS_NULL)"
  using assms
proof (induction as arbitrary: p prev)
  case Nil
  then show ?case by (subst erase_find.simps) simp
next
  case (Cons b as)
  then show ?case by (subst erase_find.simps) auto
qed

text \<open>Taking a record out.\<close>

lemma unlink_ok:
  assumes c: "chain (tk_nodes T) (tk_start T) (tk_last T) (xs @ a # ys)"
  shows "\<exists>T1. unlink_info (last (CPLUS_NULL # xs)) a T = Inr T1 \<and> tk_heap T1 = tk_heap T \<and>
    tk_inused T1 = tk_inused T \<and>
    chain ((tk_nodes T1)(a := None)) (tk_start T1) (tk_last T1) (xs @ ys) \<and>
    recorded ((tk_nodes T1)(a := None)) (xs @ ys) = recorded (tk_nodes T) (xs @ ys)"
proof -
  let ?ns = "tk_nodes T"
  from c obtain e where e: "?ns a = Some e" "path ?ns (tk_start T) xs a" "path ?ns (ei_next e) ys CPLUS_NULL"
    "a \<notin> set xs" "a \<notin> set ys" "distinct xs" "distinct ys" "set xs \<inter> set ys = {}" "a \<noteq> CPLUS_NULL"
    "dom ?ns = insert a (set xs \<union> set ys)" "tk_last T = (if ys = [] then a else last ys)"
    by (auto simp: chain_def)
  show ?thesis
  proof (cases xs rule: rev_cases)
    case Nil
    then show ?thesis using e by (auto simp: unlink_info_def deref_def chain_def)
  next
    case (snoc zs q)
    from e(2) obtain f where f: "?ns q = Some f" "path ?ns (tk_start T) zs q" "q \<noteq> CPLUS_NULL" "ei_next f = a"
      by (auto simp: snoc)
    have start: "a \<noteq> tk_start T" using f(2) e(4) snoc by (cases zs) auto
    have out: "q \<noteq> a" "q \<notin> set zs" "q \<notin> set ys" "a \<notin> set zs" using e snoc by auto
    have rec: "recorded (?ns(q \<mapsto> f\<lparr>ei_next := z\<rparr>, a := None)) (xs @ ys) = recorded ?ns (xs @ ys)" for z
    proof -
      have "recorded (?ns(q \<mapsto> f\<lparr>ei_next := z\<rparr>, a := None)) (xs @ ys) =
          recorded (?ns(q \<mapsto> f\<lparr>ei_next := z\<rparr>)) (xs @ ys)" using e(4,5) by simp
      also have "\<dots> = recorded ?ns (xs @ ys)" by (rule recorded_relink) (rule f(1))
      finally show ?thesis .
    qed
    have known: "deref (?ns a) = Inr e" "deref (?ns q) = Inr f" using e(1) f(1) by (simp_all add: deref_def)
    show ?thesis
    proof (cases "ys = []")
      case True
      then have "a = tk_last T" using e(11) by simp
      then have "unlink_info (last (CPLUS_NULL # xs)) a T =
          Inr (T\<lparr>tk_last := q, tk_nodes := ?ns(q \<mapsto> f\<lparr>ei_next := CPLUS_NULL\<rparr>)\<rparr>)"
        using start known by (simp add: unlink_info_def snoc)
      moreover have "chain (?ns(q \<mapsto> f\<lparr>ei_next := CPLUS_NULL\<rparr>, a := None)) (tk_start T) q (xs @ ys)"
        using e f out True by (auto simp: chain_def snoc)
      ultimately show ?thesis using rec by simp
    next
      case False
      then have "a \<noteq> tk_last T" using e(5,11) by auto
      then have "unlink_info (last (CPLUS_NULL # xs)) a T =
          Inr (T\<lparr>tk_nodes := ?ns(q \<mapsto> f\<lparr>ei_next := ei_next e\<rparr>)\<rparr>)"
        using start known by (simp add: unlink_info_def snoc)
      moreover have "chain (?ns(q \<mapsto> f\<lparr>ei_next := ei_next e\<rparr>, a := None)) (tk_start T) (tk_last T) (xs @ ys)"
        using e f out False by (auto simp: chain_def snoc)
      ultimately show ?thesis using rec by simp
    qed
  qed
qed

section \<open>The invariant\<close>

text \<open>The client's blocks: in use and not records.\<close>

definition in_use :: "tracker \<Rightarrow> ptr \<Rightarrow> u32 \<Rightarrow> bool" where
  "in_use T p n \<longleftrightarrow> (p - 4, unat n + 8) \<in> set (rh_live (tk_heap T)) \<and> p - 4 \<notin> dom (tk_nodes T)"

abbreviation memory :: "tracker \<Rightarrow> mem" where "memory T \<equiv> rh_mem (tk_heap T)"

definition tagged :: "mem \<Rightarrow> ptr \<Rightarrow> u32 \<Rightarrow> bool" where
  "tagged m p n \<longleftrightarrow> load32 m (p - 4) = BEGCHK \<and> load32 m (p + ucast n) = ENDCHK"

abbreviation whole :: "ptr \<Rightarrow> u32 \<Rightarrow> ptr set" where "whole p n \<equiv> region (p - 4) (unat n + 8)"

text \<open>The invariant, with the tags of the blocks in \<open>X\<close> left open.\<close>

definition tinv :: "ptr set \<Rightarrow> tracker \<Rightarrow> ptr list \<Rightarrow> bool" where
  "tinv X T as \<longleftrightarrow> raw_ok (tk_heap T) \<and> chain (tk_nodes T) (tk_start T) (tk_last T) as \<and>
     tk_inused T = of_nat (length as) \<and>
     (\<forall>a \<in> set as. (a, sizeof_extra_info) \<in> set (rh_live (tk_heap T))) \<and>
     distinct (map fst (recorded (tk_nodes T) as)) \<and>
     (\<forall>p n. (p, n) \<in> set (recorded (tk_nodes T) as) \<longrightarrow>
        in_use T p n \<and> (p \<notin> X \<longrightarrow> tagged (memory T) p n))"

abbreviation entries :: "tracker \<Rightarrow> ptr list \<Rightarrow> (ptr \<times> u32) list" where
  "entries T as \<equiv> recorded (tk_nodes T) as"

text \<open>Both operations leave the client's blocks in \<open>K\<close> alone, tags included.\<close>

definition untouched :: "(ptr \<Rightarrow> u32 \<Rightarrow> bool) \<Rightarrow> tracker \<Rightarrow> tracker \<Rightarrow> bool" where
  "untouched K T T' \<longleftrightarrow> (\<forall>p n x. K p n \<and> in_use T p n \<and> x \<in> whole p n \<longrightarrow> memory T' x = memory T x) \<and>
     rh_pick (tk_heap T') = rh_pick (tk_heap T)"

lemma untouched_trans:
  "\<lbrakk>untouched K T T1; untouched K T1 T2; \<And>p n. \<lbrakk>K p n; in_use T p n\<rbrakk> \<Longrightarrow> in_use T1 p n\<rbrakk>
     \<Longrightarrow> untouched K T T2"
  unfolding untouched_def by metis

lemma tag_regions:
  "region (p - 4) 4 \<subseteq> whole p n" "region (p + ucast n) 4 \<subseteq> whole p n"
proof -
  show "region (p - 4) 4 \<subseteq> whole p n" unfolding region_def by auto
  show "region (p + ucast n) 4 \<subseteq> whole p n"
  proof
    fix x
    assume "x \<in> region (p + ucast n) 4"
    then obtain i where i: "i < 4" "x = p + ucast n + of_nat i" by (auto simp: region_def)
    have "ucast n = (of_nat (unat n) :: ptr)" by simp
    then have "x = (p - 4) + of_nat (4 + unat n + i)" using i(2) by simp
    moreover have "4 + unat n + i < unat n + 8" using i(1) by simp
    ultimately show "x \<in> whole p n" unfolding region_def by blast
  qed
qed

lemma tagged_cong:
  assumes "\<And>x. x \<in> whole p n \<Longrightarrow> m' x = m x"
  shows "tagged m' p n = tagged m p n"
proof -
  have "load32 m' (p - 4) = load32 m (p - 4)" "load32 m' (p + ucast n) = load32 m (p + ucast n)"
    using assms tag_regions [of p n] by (auto intro!: load32_cong)
  then show ?thesis by (simp add: tagged_def)
qed

lemma in_use_disjoint:
  assumes "raw_ok (tk_heap T)" "in_use T p n" "in_use T q k" "p \<noteq> q"
  shows "whole p n \<inter> whole q k = {}"
  using assms by (auto simp: raw_ok_def disjoint_blocks_def in_use_def)

lemma in_use_unique:
  assumes "raw_ok (tk_heap T)" "in_use T p n" "in_use T p k"
  shows "n = k"
proof -
  have "distinct (map fst (rh_live (tk_heap T)))" using assms(1) by (simp add: raw_ok_def disjoint_blocks_def)
  then have "unat n + 8 = unat k + 8"
    using assms(2,3) unfolding in_use_def by (metis eq_key_imp_eq_value)
  then show ?thesis by (simp add: word_unat_eq_iff)
qed

lemma in_use_bounds:
  assumes "raw_ok (tk_heap T)" "in_use T p n"
  shows "p \<noteq> CPLUS_NULL" "p - 4 \<noteq> CPLUS_NULL" "unat (p - 4) + (unat n + 8) \<le> 2 ^ 64"
proof -
  have b: "p - 4 \<noteq> CPLUS_NULL \<and> unat (p - 4) + (unat n + 8) \<le> 2 ^ 64"
    using assms unfolding raw_ok_def disjoint_blocks_def in_use_def by blast
  then show "p - 4 \<noteq> CPLUS_NULL" "unat (p - 4) + (unat n + 8) \<le> 2 ^ 64" by simp_all
  show "p \<noteq> CPLUS_NULL"
  proof
    assume p: "p = CPLUS_NULL"
    have "unat (- 4 :: ptr) = 2 ^ 64 - 4" by simp
    with b show False unfolding p by simp
  qed
qed

section \<open>The parts of the operations\<close>

lemma filter_absent: "x \<notin> fst ` set l \<Longrightarrow> filter (\<lambda>e. fst e \<noteq> x) l = l"
  by (auto simp: filter_id_conv)

lemma erase_absent:
  assumes inv: "tinv X T as" and p: "p \<noteq> CPLUS_NULL" and gone: "p \<notin> fst ` set (entries T as)"
  shows "erase_mem_info p T = Inr (Inr (), T)"
proof -
  have path: "path (tk_nodes T) (tk_start T) as CPLUS_NULL" using inv by (simp add: tinv_def chain_def)
  have "\<forall>b \<in> set as. ei_mem_ref (the (tk_nodes T b)) \<noteq> p"
    using gone by (auto simp: recorded_def image_iff)
  then obtain prev where
    "erase_find (tk_nodes T) p CPLUS_NULL (tk_start T) = Some (prev, CPLUS_NULL)"
    using erase_find_none [OF path] by blast
  then show ?thesis using p by (simp add: erase_mem_info_def deref_def)
qed

lemma erase_ok:
  assumes inv: "tinv {p} T as" and p: "p \<noteq> CPLUS_NULL"
  obtains T1 as1 where "erase_mem_info p T = Inr (Inr (), T1)" "tinv {} T1 as1"
    "entries T1 as1 = filter (\<lambda>e. fst e \<noteq> p) (entries T as)"
    "\<And>q k. in_use T1 q k = in_use T q k" "untouched (\<lambda>q k. True) T T1"
proof -
  let ?ns = "tk_nodes T"
  note I = inv [unfolded tinv_def]
  have path: "path ?ns (tk_start T) as CPLUS_NULL" using I by (simp add: chain_def)
  show ?thesis
  proof (cases "p \<in> fst ` set (entries T as)")
    case False
    then have "erase_mem_info p T = Inr (Inr (), T)" by (rule erase_absent [OF inv p])
    moreover have "tinv {} T as" using inv False by (force simp: tinv_def)
    moreover have "filter (\<lambda>e. fst e \<noteq> p) (entries T as) = entries T as"
      using False by (rule filter_absent)
    ultimately show ?thesis by (intro that [of T as]) (simp_all add: untouched_def)
  next
    case True
    then obtain b where "b \<in> set as" "ei_mem_ref (the (?ns b)) = p" by (auto simp: recorded_def)
    then obtain xs a ys where as: "as = xs @ a # ys" "ei_mem_ref (the (?ns a)) = p"
        "\<forall>b \<in> set xs. ei_mem_ref (the (?ns b)) \<noteq> p"
      using split_list_first_prop [of as "\<lambda>b. ei_mem_ref (the (?ns b)) = p"] by blast
    have dist: "distinct (map fst (entries T as))" using I by simp
    have rest: "filter (\<lambda>e. fst e \<noteq> p) (entries T as) = entries T (xs @ ys)"
      using dist as(2) unfolding as(1) by (auto simp: filter_absent)
    have find: "erase_find ?ns p CPLUS_NULL (tk_start T) = Some (last (CPLUS_NULL # xs), a)"
      using erase_find_path [OF path [unfolded as(1)] as(2,3)] .
    obtain T1 where T1: "unlink_info (last (CPLUS_NULL # xs)) a T = Inr T1" "tk_heap T1 = tk_heap T"
        "tk_inused T1 = tk_inused T"
        "chain ((tk_nodes T1)(a := None)) (tk_start T1) (tk_last T1) (xs @ ys)"
        "recorded ((tk_nodes T1)(a := None)) (xs @ ys) = entries T (xs @ ys)"
      using unlink_ok [of T xs a ys] I as(1) by blast
    have a: "a \<noteq> CPLUS_NULL" "(a, sizeof_extra_info) \<in> set (rh_live (tk_heap T))" "a \<in> dom ?ns"
      using I as(1) path_known [OF path, of a] by (auto simp: chain_def)
    obtain h where h: "raw_free a (tk_heap T1) = Inr h" "raw_ok h" "rh_live h = without a (rh_live (tk_heap T))"
        "\<And>b k x. \<lbrakk>(b, k) \<in> set (rh_live (tk_heap T)); b \<noteq> a; x \<in> region b k\<rbrakk> \<Longrightarrow> rh_mem h x = memory T x"
        "rh_pick h = rh_pick (tk_heap T)"
      using raw_free_ok [of "tk_heap T" a] I a(2) T1(2) by metis
    let ?T2 = "T1\<lparr>tk_heap := h, tk_nodes := (tk_nodes T1)(a := None), tk_inused := tk_inused T1 - 1\<rparr>"
    have step: "erase_mem_info p T = Inr (Inr (), ?T2)"
      using p find a(1) T1(1) h(1) by (simp add: erase_mem_info_def deref_def del: last.simps)
    have dom: "dom ((tk_nodes T1)(a := None)) = set (xs @ ys)" using T1(4) by (simp add: chain_def)
    have dom0: "dom ?ns = insert a (set (xs @ ys))" "a \<notin> set (xs @ ys)" using I as(1) by (auto simp: chain_def)
    have use: "in_use ?T2 q k = in_use T q k" for q k
      unfolding in_use_def using dom dom0 h(3) by (auto simp del: dom_fun_upd)
    have mem: "x \<in> whole q k \<Longrightarrow> in_use T q k \<Longrightarrow> rh_mem h x = memory T x" for q k x
      using h(4) [of "q - 4" "unat k + 8" x] a(3) unfolding in_use_def by metis
    have tags: "tagged (memory ?T2) q k" if "(q, k) \<in> set (entries T (xs @ ys))" for q k
    proof -
      have "q \<noteq> p" using that unfolding rest [symmetric] by simp
      moreover have "(q, k) \<in> set (entries T as)" using that unfolding as(1) by auto
      ultimately have "in_use T q k" "tagged (memory T) q k" using I by auto
      moreover from this have "tagged (rh_mem h) q k = tagged (memory T) q k"
        by (intro tagged_cong mem)
      ultimately show ?thesis by simp
    qed
    have used: "in_use T q k" if "(q, k) \<in> set (entries T (xs @ ys))" for q k
      using that I unfolding as(1) by auto
    have ent: "entries ?T2 (xs @ ys) = entries T (xs @ ys)" using T1(5) by simp
    have "tinv {} ?T2 (xs @ ys)"
      unfolding tinv_def
    proof (intro conjI allI ballI impI)
      show "raw_ok (tk_heap ?T2)" using h(2) by simp
      show "chain (tk_nodes ?T2) (tk_start ?T2) (tk_last ?T2) (xs @ ys)" using T1(4) by simp
      show "tk_inused ?T2 = of_nat (length (xs @ ys))" using I T1(3) as(1) by simp
      show "distinct (map fst (entries ?T2 (xs @ ys)))" using dist T1(5) as(1) by simp
    next
      fix b
      assume "b \<in> set (xs @ ys)"
      then show "(b, sizeof_extra_info) \<in> set (rh_live (tk_heap ?T2))" using I h(3) as(1) dom0(2) by auto
    next
      fix q k
      assume "(q, k) \<in> set (entries ?T2 (xs @ ys))"
      then have "(q, k) \<in> set (entries T (xs @ ys))" by (simp only: ent)
      then show "in_use ?T2 q k" "tagged (memory ?T2) q k" using used use tags by blast+
    qed
    moreover have "untouched (\<lambda>q k. True) T ?T2" using h(5) by (simp add: untouched_def) (blast intro: mem)
    moreover have "entries ?T2 (xs @ ys) = filter (\<lambda>e. fst e \<noteq> p) (entries T as)"
      using T1(5) rest by simp
    ultimately show ?thesis using step use by (intro that) 
  qed
qed

text \<open>There is memory for a record now, and after a block of \<open>n\<close> bytes.\<close>

definition record_fits :: "raw_heap \<Rightarrow> bool" where
  "record_fits h \<longleftrightarrow> rh_pick h (rh_live h) sizeof_extra_info \<noteq> CPLUS_NULL"

definition record_room :: "nat \<Rightarrow> raw_heap \<Rightarrow> bool" where
  "record_room n h \<longleftrightarrow> (let b = rh_pick h (rh_live h) n in
     b = CPLUS_NULL \<or> rh_pick h ((b, n) # rh_live h) sizeof_extra_info \<noteq> CPLUS_NULL)"

lemma add_ok:
  assumes inv: "tinv {} T as" and blk: "in_use T p n" "tagged (memory T) p n"
    and new: "p \<notin> fst ` set (entries T as)"
  obtains r T1 as1 where "add_mem_info p n (Some f) (Some g) l T = Inr (r, T1)" "tinv {} T1 as1"
    "entries T1 as1 = entries T as \<or> entries T1 as1 = entries T as @ [(p, n)]"
    "record_fits (tk_heap T) \<Longrightarrow> entries T1 as1 = entries T as @ [(p, n)]"
    "\<And>q k. in_use T1 q k = in_use T q k" "untouched (\<lambda>q k. True) T T1"
proof -
  let ?ns = "tk_nodes T"
  note I = inv [unfolded tinv_def]
  obtain ex h where alloc: "raw_malloc sizeof_extra_info (tk_heap T) = (ex, h)" by force
  have size: "0 < sizeof_extra_info" by (simp add: sizeof_extra_info_def)
  have rok: "raw_ok (tk_heap T)" using I by simp
  note M = raw_malloc_ok [OF rok size alloc]
  show ?thesis
  proof (cases "ex = CPLUS_NULL")
    case True
    then have h: "h = tk_heap T" by (rule M(2))
    have "add_mem_info p n (Some f) (Some g) l T = Inr (Inl ENOMEM, T\<lparr>tk_heap := h\<rparr>)"
      using alloc True by (simp add: add_mem_info_def)
    moreover have "T\<lparr>tk_heap := h\<rparr> = T" using h by simp
    moreover have "\<not> record_fits (tk_heap T)"
      using alloc True by (auto simp: record_fits_def raw_malloc_def Let_def split: if_splits)
    ultimately show ?thesis using inv by (intro that [of "Inl ENOMEM" T as]) (simp_all add: untouched_def)
  next
    case False
    note M3 = M(3) [OF False]
    have none: "?ns ex = None"
    proof (rule ccontr)
      assume "?ns ex \<noteq> None"
      then have "ex \<in> set as" using I by (auto simp: chain_def)
      then have "(ex, sizeof_extra_info) \<in> set (rh_live (tk_heap T))" using I by simp
      then show False using M3 by force
    qed
    let ?i = "\<lparr>ei_mem_ref = p, ei_mem_size = n, ei_line = l, ei_next = CPLUS_NULL,
      ei_file = take (MAX_FILE_NAME - 1) (cplus_sys_skip_file_path f),
      ei_function = take (MAX_FUNC_NAME - 1) g\<rparr>"
    have "\<exists>T1. add_mem_info p n (Some f) (Some g) l T = Inr (Inr (), T1) \<and> tk_heap T1 = h \<and>
        tk_inused T1 = tk_inused T + 1 \<and> chain (tk_nodes T1) (tk_start T1) (tk_last T1) (as @ [ex]) \<and>
        entries T1 (as @ [ex]) = entries T as @ [(p, n)]"
    proof (cases "as = []")
      case True
      then have "tk_start T = CPLUS_NULL" using I chain_null by blast
      moreover have "chain (?ns(ex \<mapsto> ?i)) ex ex [ex]"
        using I True by (intro chain_add_first [OF _ False]) auto
      ultimately show ?thesis
        using alloc False True by (simp add: add_mem_info_def Let_def)
    next
      case ne: False
      have c: "chain ?ns (tk_start T) (tk_last T) as" using I by simp
      from chain_add [OF c ne none False, of ?i] obtain e where
        e: "?ns (tk_last T) = Some e" "tk_last T \<noteq> ex"
          "chain (?ns(ex \<mapsto> ?i, tk_last T \<mapsto> e\<lparr>ei_next := ex\<rparr>)) (tk_start T) ex (as @ [ex])"
          "recorded (?ns(ex \<mapsto> ?i, tk_last T \<mapsto> e\<lparr>ei_next := ex\<rparr>)) (as @ [ex]) = entries T as @ [(p, n)]"
        by auto
      have "tk_start T \<noteq> CPLUS_NULL" using ne chain_null [OF c] by simp
      then show ?thesis
        using alloc False e(1,2) e(3,4) by (simp add: add_mem_info_def Let_def deref_def)
    qed
    then obtain T1 where T1: "add_mem_info p n (Some f) (Some g) l T = Inr (Inr (), T1)" "tk_heap T1 = h"
        "tk_inused T1 = tk_inused T + 1" "chain (tk_nodes T1) (tk_start T1) (tk_last T1) (as @ [ex])"
        "entries T1 (as @ [ex]) = entries T as @ [(p, n)]"
      by blast
    have dom: "dom (tk_nodes T1) = insert ex (dom ?ns)" using T1(4) I by (auto simp: chain_def)
    have use: "in_use T1 q k = in_use T q k" for q k
      unfolding in_use_def using dom M3 T1(2) by force
    have mem: "x \<in> whole q k \<Longrightarrow> in_use T q k \<Longrightarrow> rh_mem h x = memory T x" for q k x
      using M(4) [of "q - 4" "unat k + 8" x] unfolding in_use_def by blast
    have known: "in_use T q k" "tagged (memory T) q k" if "(q, k) \<in> set (entries T as @ [(p, n)])" for q k
      using that I blk by auto
    have "tinv {} T1 (as @ [ex])"
      unfolding tinv_def
    proof (intro conjI allI ballI impI)
      show "raw_ok (tk_heap T1)" using M(1) T1(2) by simp
      show "chain (tk_nodes T1) (tk_start T1) (tk_last T1) (as @ [ex])" by (rule T1(4))
      show "tk_inused T1 = of_nat (length (as @ [ex]))" using I T1(3) by simp
      show "distinct (map fst (entries T1 (as @ [ex])))" using I new T1(5) by simp
    next
      fix b
      assume "b \<in> set (as @ [ex])"
      then show "(b, sizeof_extra_info) \<in> set (rh_live (tk_heap T1))" using I M3 T1(2) by auto
    next
      fix q k
      assume q: "(q, k) \<in> set (entries T1 (as @ [ex]))"
      show "in_use T1 q k" using known(1) use T1(5) q by metis
      show "tagged (memory T1) q k"
        using known [of q k] q mem [of _ q k] T1(2,5) tagged_cong [of q k "rh_mem h" "memory T"] by simp
    qed
    moreover have "untouched (\<lambda>q k. True) T T1" unfolding untouched_def T1(2) using mem M(5) by blast
    ultimately show ?thesis using T1(1,5) use by (intro that [of "Inr ()" T1 "as @ [ex]"]) simp_all
  qed
qed

text \<open>The tags lie outside the client's part of a block.\<close>

lemma inside_no_tags:
  fixes n :: u32
  assumes x: "unat (x - p) < unat n"
  shows "x \<notin> region (p - 4) 4" "x \<notin> region (p + ucast n) 4"
proof -
  have small: "unat n < 2 ^ 32" using unat_u32_bound [of n] by simp
  show "x \<notin> region (p - 4) 4"
  proof
    assume "x \<in> region (p - 4) 4"
    then obtain i where i: "i < 4" "x = p - 4 + of_nat i" by (auto simp: region_def)
    then have "x - p + 4 = of_nat i" by simp
    then have "of_nat (unat (x - p) + 4) = (of_nat i :: ptr)" by simp
    moreover have "unat (of_nat (unat (x - p) + 4) :: ptr) = unat (x - p) + 4"
      using x small by (intro unat_of_nat_ptr) simp
    moreover have "unat (of_nat i :: ptr) = i" using i(1) by (intro unat_of_nat_ptr) simp
    ultimately show False using i(1) by simp
  qed
  show "x \<notin> region (p + ucast n) 4"
  proof
    assume "x \<in> region (p + ucast n) 4"
    then obtain i where i: "i < 4" "x = p + ucast n + of_nat i" by (auto simp: region_def)
    then have "x - p = of_nat (unat n + i)" by simp
    moreover have "unat (of_nat (unat n + i) :: ptr) = unat n + i"
      using small i(1) by (intro unat_of_nat_ptr) simp
    ultimately have "unat (x - p) = unat n + i" by simp
    then show False using x by simp
  qed
qed

text \<open>Writing the tags.\<close>

lemma put_tags_ok:
  assumes b: "unat b + (unat n + 8) \<le> 2 ^ 64"
  shows "tagged (memory (put_tags b n T)) (b + 4) n"
    "x \<notin> region b (unat n + 8) \<Longrightarrow> memory (put_tags b n T) x = memory T x"
    "x \<in> region (b + 4) (unat n) \<Longrightarrow> memory (put_tags b n T) x = memory T x"
proof -
  have apart: "region (b + 4 + ucast n) 4 \<inter> region b 4 = {}"
  proof -
    have False if "i < 4" "j < 4" "b + 4 + ucast n + of_nat i = b + of_nat j" for i j :: nat
    proof -
      have "(of_nat (4 + unat n + i) :: ptr) = 4 + ucast n + of_nat i" by simp
      also have "\<dots> = of_nat j" using that(3) by (simp add: add.assoc)
      finally have "(of_nat (4 + unat n + i) :: ptr) = of_nat j" .
      moreover have "unat (of_nat (4 + unat n + i) :: ptr) = 4 + unat n + i"
        using unat_u32_bound [of n] that(1) by (intro unat_of_nat_ptr) simp
      moreover have "unat (of_nat j :: ptr) = j" using that(2) by (intro unat_of_nat_ptr) simp
      ultimately have "4 + unat n + i = j" by metis
      then show False using that(2) by simp
    qed
    then show ?thesis unfolding region_def by blast
  qed
  show "tagged (memory (put_tags b n T)) (b + 4) n"
    using load32_store32_disjoint [OF apart] by (simp add: tagged_def put_tags_def put32_def)
  show "memory (put_tags b n T) x = memory T x" if "x \<notin> region b (unat n + 8)"
  proof -
    have "x \<notin> region b 4" "x \<notin> region (b + 4 + ucast n) 4"
      using that tag_regions [of "b + 4" n] by auto
    then show ?thesis by (simp add: put_tags_def put32_def store32_outside)
  qed
  show "memory (put_tags b n T) x = memory T x" if x: "x \<in> region (b + 4) (unat n)"
  proof -
    have "unat (x - (b + 4)) < unat n" using x unat_u32_bound [of n] by (simp add: in_region_iff)
    then have "x \<notin> region (b + 4 - 4) 4" "x \<notin> region (b + 4 + ucast n) 4"
      by (rule inside_no_tags)+
    then show ?thesis by (simp add: put_tags_def put32_def store32_outside)
  qed
qed

text \<open>
  The heap and the memory change outside the records and the recorded blocks: the invariant
  stays, and the client's blocks are those of the new heap.
\<close>

lemma tinv_heap:
  assumes inv: "tinv X T as" and ok: "raw_ok h"
    and recs: "\<And>a. a \<in> set as \<Longrightarrow> (a, sizeof_extra_info) \<in> set (rh_live h)"
    and blks: "\<And>q k. (q, k) \<in> set (entries T as) \<Longrightarrow> (q - 4, unat k + 8) \<in> set (rh_live h) \<and>
      (q \<notin> X \<longrightarrow> (\<forall>x \<in> whole q k. rh_mem h x = memory T x))"
  shows "tinv X (T\<lparr>tk_heap := h\<rparr>) as"
proof -
  note I = inv [unfolded tinv_def]
  have "tagged (rh_mem h) q k" if "(q, k) \<in> set (entries T as)" "q \<notin> X" for q k
  proof -
    have "tagged (rh_mem h) q k = tagged (memory T) q k"
      using blks [OF that(1)] that(2) by (intro tagged_cong) blast
    then show ?thesis using I that by simp
  qed
  then show ?thesis using I ok recs blks unfolding tinv_def in_use_def by fastforce
qed

text \<open>A block is refused by the checks exactly when it is recorded and a tag is gone.\<close>

lemma check_boundary_ok:
  assumes inv: "tinv X T as" and p: "p \<noteq> CPLUS_NULL"
  shows "check_boundary (p - 4) T =
    Inr (case map_of (entries T as) p of None \<Rightarrow> CPLUS_SUCCESS
         | Some n \<Rightarrow> if tagged (memory T) p n then CPLUS_SUCCESS else CPLUS_FAIL)"
proof -
  let ?ns = "tk_nodes T" and ?P = "\<lambda>a. ei_mem_ref (the (tk_nodes T a)) = p"
  have path: "path ?ns (tk_start T) as CPLUS_NULL" using inv by (simp add: tinv_def chain_def)
  have map: "map_of (recorded ?ns as) p = map_option (\<lambda>a. ei_mem_size (the (?ns a))) (find ?P as)"
    by (induction as) auto
  have find: "find_mem_info p T = Inr (case find ?P as of None \<Rightarrow> CPLUS_NULL | Some a \<Rightarrow> a)"
    using find_loop_path [OF path, of p] p by (simp add: find_mem_info_def deref_def)
  show ?thesis
  proof (cases "find ?P as")
    case None
    then show ?thesis using find map by (simp add: check_boundary_def)
  next
    case (Some a)
    then have "a \<in> set as" by (auto simp: find_Some_iff)
    then obtain e where "a \<noteq> CPLUS_NULL" "?ns a = Some e" using path_known [OF path] by blast
    moreover have "BEGCHK \<noteq> CLRCHK" by (simp add: BEGCHK_def CLRCHK_def)
    ultimately show ?thesis using find map Some
      by (auto simp: check_boundary_def deref_def tagged_def Let_def)
  qed
qed

lemma in_recorded_used: "\<lbrakk>tinv X T as; (q, k) \<in> set (entries T as)\<rbrakk> \<Longrightarrow> in_use T q k"
  by (simp add: tinv_def)

text \<open>A new block of the heap gets its tags and is recorded.\<close>

lemma place_ok:
  assumes inv: "tinv {} T as" and ok: "raw_ok h"
    and live: "rh_live h = (b, unat n + 8) # rh_live (tk_heap T)"
    and keep: "\<And>q k x. \<lbrakk>in_use T q k; x \<in> whole q k\<rbrakk> \<Longrightarrow> rh_mem h x = memory T x"
    and pick: "rh_pick h = rh_pick (tk_heap T)"
  obtains r T2 as2 where
    "add_mem_info (b + 4) n (Some f) (Some g) l (put_tags b n (T\<lparr>tk_heap := h\<rparr>)) = Inr (r, T2)"
    "tinv {} T2 as2" "untouched (\<lambda>q k. True) T T2"
    "\<And>q k. in_use T2 q k \<longleftrightarrow> in_use T q k \<or> q = b + 4 \<and> k = n"
    "\<And>k. \<not> in_use T (b + 4) k" "b + 4 \<noteq> CPLUS_NULL"
    "entries T2 as2 = entries T as \<or> entries T2 as2 = entries T as @ [(b + 4, n)]"
    "record_fits h \<Longrightarrow> entries T2 as2 = entries T as @ [(b + 4, n)]"
    "\<And>x. x \<in> region (b + 4) (unat n) \<Longrightarrow> memory T2 x = rh_mem h x"
proof -
  note I = inv [unfolded tinv_def]
  let ?T1 = "put_tags b n (T\<lparr>tk_heap := h\<rparr>)" and ?p = "b + 4"
  have dis: "disjoint_blocks (rh_live h)" using ok by (simp add: raw_ok_def)
  then have bnd: "unat b + (unat n + 8) \<le> 2 ^ 64" "b \<notin> fst ` set (rh_live (tk_heap T))"
    by (auto simp: disjoint_blocks_def live)
  have same: "tk_heap ?T1 = h\<lparr>rh_mem := memory ?T1\<rparr>" "tk_nodes ?T1 = tk_nodes T"
    by (simp_all add: put_tags_def put32_def)
  have ok1: "raw_ok (h\<lparr>rh_mem := m\<rparr>)" for m using ok by (simp add: raw_ok_def)
  have nodes: "b \<notin> dom (tk_nodes T)"
  proof
    assume "b \<in> dom (tk_nodes T)"
    then have "(b, sizeof_extra_info) \<in> set (rh_live (tk_heap T))" using I by (auto simp: chain_def)
    then show False using bnd(2) by force
  qed
  have fresh: "in_use ?T1 ?p n" "\<And>k. \<not> in_use T ?p k"
    using nodes live bnd(2) by (force simp: in_use_def put_tags_def put32_def)+
  have mem: "memory ?T1 x = memory T x" if "in_use T q k" "x \<in> whole q k" for q k x
  proof -
    have "(q - 4, unat k + 8) \<in> set (rh_live (tk_heap T))" using that(1) by (simp add: in_use_def)
    moreover from this have "b \<noteq> q - 4" using bnd(2) by force
    ultimately have "region b (unat n + 8) \<inter> whole q k = {}"
      using live by (intro disjoint_blocksD [OF dis]) simp_all
    then have "x \<notin> region b (unat n + 8)" using that(2) by blast
    then have "memory ?T1 x = memory (T\<lparr>tk_heap := h\<rparr>) x" by (rule put_tags_ok(2) [OF bnd(1)])
    then show ?thesis using keep [OF that] by simp
  qed
  have "tinv {} (T\<lparr>tk_heap := h\<lparr>rh_mem := memory ?T1\<rparr>\<rparr>) as"
  proof (rule tinv_heap [OF inv ok1])
    show "(a, sizeof_extra_info) \<in> set (rh_live (h\<lparr>rh_mem := memory ?T1\<rparr>))" if "a \<in> set as" for a
      using that I live by simp
    show "(q - 4, unat k + 8) \<in> set (rh_live (h\<lparr>rh_mem := memory ?T1\<rparr>)) \<and>
        (q \<notin> {} \<longrightarrow> (\<forall>x \<in> whole q k. rh_mem (h\<lparr>rh_mem := memory ?T1\<rparr>) x = memory T x))"
      if "(q, k) \<in> set (entries T as)" for q k
      using in_recorded_used [OF inv that] mem live by (auto simp: in_use_def)
  qed
  moreover have "T\<lparr>tk_heap := h\<lparr>rh_mem := memory ?T1\<rparr>\<rparr> = ?T1" by (simp add: put_tags_def put32_def)
  ultimately have inv1: "tinv {} ?T1 as" by simp
  have tags: "tagged (memory ?T1) ?p n" by (rule put_tags_ok(1) [OF bnd(1)])
  have "?p \<notin> fst ` set (entries ?T1 as)"
    using fresh(2) in_recorded_used [OF inv] same(2) by fastforce
  from add_ok [OF inv1 fresh(1) tags this, of f g l] obtain r T2 as2 where
    T2: "add_mem_info ?p n (Some f) (Some g) l ?T1 = Inr (r, T2)" "tinv {} T2 as2"
      "entries T2 as2 = entries ?T1 as \<or> entries T2 as2 = entries ?T1 as @ [(?p, n)]"
      "record_fits (tk_heap ?T1) \<Longrightarrow> entries T2 as2 = entries ?T1 as @ [(?p, n)]"
      "\<And>q k. in_use T2 q k = in_use ?T1 q k" "untouched (\<lambda>q k. True) ?T1 T2"
    by metis
  have use: "in_use ?T1 q k \<longleftrightarrow> in_use T q k \<or> q = ?p \<and> k = n" for q k
  proof -
    have "(q - 4, unat k + 8) = (b, unat n + 8) \<longleftrightarrow> q = ?p \<and> k = n"
      using word_unat_eq_iff [of k n] by (simp add: diff_eq_eq)
    moreover have "rh_live (tk_heap ?T1) = rh_live h" by (simp add: put_tags_def put32_def)
    ultimately show ?thesis using nodes live unfolding in_use_def same(2) by auto
  qed
  have "rh_pick (tk_heap ?T1) = rh_pick (tk_heap T)" using pick by (simp add: put_tags_def put32_def)
  then have unt: "untouched (\<lambda>q k. True) T ?T1" unfolding untouched_def using mem by blast
  have fits: "record_fits (tk_heap ?T1) = record_fits h"
    by (simp add: record_fits_def put_tags_def put32_def)
  have unt2: "untouched (\<lambda>q k. True) T T2" using unt T2(6) by (rule untouched_trans) (simp add: use)
  have "?p \<noteq> CPLUS_NULL"
    using in_use_bounds(1) [OF _ fresh(1)] inv1 by (simp add: tinv_def)
  moreover have "memory T2 x = rh_mem h x" if x: "x \<in> region ?p (unat n)" for x
  proof -
    have "x \<in> whole ?p n"
    proof -
      obtain i where "i < unat n" "x = ?p + of_nat i" using x by (auto simp: region_def)
      then have "x = (?p - 4) + of_nat (4 + i)" "4 + i < unat n + 8" by simp_all
      then show ?thesis unfolding region_def by blast
    qed
    then have "memory T2 x = memory ?T1 x" using T2(6) fresh(1) unfolding untouched_def by blast
    also have "\<dots> = rh_mem h x" using put_tags_ok(3) [OF bnd(1) x] by simp
    finally show ?thesis .
  qed
  ultimately show ?thesis
    using T2 use fresh(2) same(2) fits unt2 by (intro that [of r T2 as2]) auto
qed

lemma malloc_ok:
  assumes inv: "tinv {} T as"
  obtains p T1 as1 where "tracked_malloc n (Some f) (Some g) l T = Inr (p, T1)" "tinv {} T1 as1"
    "untouched (\<lambda>q k. True) T T1"
    "p = CPLUS_NULL \<Longrightarrow> T1 = T \<and> as1 = as"
    "p \<noteq> CPLUS_NULL \<Longrightarrow> (\<forall>q k. in_use T1 q k \<longleftrightarrow> in_use T q k \<or> q = p \<and> k = n) \<and>
       (\<forall>k. \<not> in_use T p k) \<and>
       (entries T1 as1 = entries T as \<or> entries T1 as1 = entries T as @ [(p, n)]) \<and>
       (record_room (unat n + 8) (tk_heap T) \<longrightarrow> entries T1 as1 = entries T as @ [(p, n)])"
proof -
  note I = inv [unfolded tinv_def]
  obtain b h where alloc: "raw_malloc (unat n + 2 * 4) (tk_heap T) = (b, h)" by force
  have size: "0 < unat n + 2 * 4" and rok: "raw_ok (tk_heap T)" using I by simp_all
  note M = raw_malloc_ok [OF rok size alloc]
  consider "n = 0" | "n \<noteq> 0" "b = CPLUS_NULL" | "n \<noteq> 0" "b \<noteq> CPLUS_NULL" by blast
  then show ?thesis
  proof cases
    case 1
    then show ?thesis using inv by (intro that [of CPLUS_NULL T as]) (simp_all add: tracked_malloc_def untouched_def)
  next
    case 2
    then have "T\<lparr>tk_heap := h\<rparr> = T" using M(2) by simp
    then show ?thesis using inv alloc 2
      by (intro that [of CPLUS_NULL T as]) (simp_all add: tracked_malloc_def untouched_def)
  next
    case 3
    have live: "rh_live h = (b, unat n + 8) # rh_live (tk_heap T)" using M(3) 3(2) by simp
    have keep: "rh_mem h x = memory T x" if "in_use T q k" "x \<in> whole q k" for q k x
      using M(4) [of "q - 4" "unat k + 8" x] that by (simp add: in_use_def)
    obtain r T2 as2 where P:
      "add_mem_info (b + 4) n (Some f) (Some g) l (put_tags b n (T\<lparr>tk_heap := h\<rparr>)) = Inr (r, T2)"
      "tinv {} T2 as2" "untouched (\<lambda>q k. True) T T2"
      "\<And>q k. in_use T2 q k \<longleftrightarrow> in_use T q k \<or> q = b + 4 \<and> k = n"
      "\<And>k. \<not> in_use T (b + 4) k" "b + 4 \<noteq> CPLUS_NULL"
      "entries T2 as2 = entries T as \<or> entries T2 as2 = entries T as @ [(b + 4, n)]"
      "record_fits h \<Longrightarrow> entries T2 as2 = entries T as @ [(b + 4, n)]"
      by (rule place_ok [OF inv M(1) live keep M(5)]) blast+
    have "record_fits h" if "record_room (unat n + 8) (tk_heap T)"
      using that alloc 3(2) live M(5)
      by (auto simp: record_room_def record_fits_def raw_malloc_def Let_def split: if_splits)
    then show ?thesis using 3 alloc P by (intro that [of "b + 4" T2 as2]) (auto simp: tracked_malloc_def)
  qed
qed

lemma write_ok:
  fixes b :: u8
  assumes inv: "tinv {} T as" and p: "in_use T p n"
    and x: "unat (x - p) < unat n"
  defines "T1 \<equiv> T\<lparr>tk_heap := (tk_heap T)\<lparr>rh_mem := (memory T)(x := b)\<rparr>\<rparr>"
  shows "tinv {} T1 as" "in_use T1 q k = in_use T q k"
    "untouched (\<lambda>q k. q \<noteq> p) T T1"
proof -
  note I = inv [unfolded tinv_def]
  have rok: "raw_ok (tk_heap T)" using I by simp
  have inside: "x \<in> whole p n" 
  proof -
    have "x = (p - 4) + of_nat (4 + unat (x - p))" by simp
    moreover have "4 + unat (x - p) < unat n + 8" using x by simp
    ultimately show ?thesis unfolding region_def by blast
  qed
  note tags = inside_no_tags [OF x]
  have same: "tagged ((memory T)(x := b)) q k = tagged (memory T) q k" if "in_use T q k" for q k
  proof (cases "q = p")
    case True
    then have k: "k = n" using in_use_unique [OF rok that [unfolded True] p] by simp
    have "load32 ((memory T)(x := b)) (p - 4) = load32 (memory T) (p - 4)"
      using tags(1) by (intro load32_cong) auto
    moreover have "load32 ((memory T)(x := b)) (p + ucast n) = load32 (memory T) (p + ucast n)"
      using tags(2) by (intro load32_cong) auto
    ultimately show ?thesis by (simp add: tagged_def True k)
  next
    case False
    then have "x \<notin> whole q k" using in_use_disjoint [OF rok p that] inside by auto
    then show ?thesis by (intro tagged_cong) auto
  qed
  show use: "in_use T1 q k = in_use T q k" for q k by (simp add: in_use_def T1_def)
  have ok1: "raw_ok (tk_heap T1)" using rok by (simp add: raw_ok_def T1_def)
  have "tagged (memory T1) q k" if "(q, k) \<in> set (entries T as)" for q k
    using I same in_recorded_used [OF inv that] that by (simp add: T1_def)
  then show "tinv {} T1 as" using I ok1 use by (simp add: tinv_def T1_def)
  show "untouched (\<lambda>q k. q \<noteq> p) T T1"
    using in_use_disjoint [OF rok p] inside by (auto simp: untouched_def T1_def)
qed

text \<open>Freeing: the front tag is overwritten, then the record and the block go.\<close>

lemma put_front_ok:
  assumes inv: "tinv X T as" and p: "in_use T p n"
  shows "tinv (insert p X) (put32 (p - 4) v T) as" "in_use (put32 (p - 4) v T) q k = in_use T q k"
    "untouched (\<lambda>q k. q \<noteq> p) T (put32 (p - 4) v T)"
proof -
  let ?h = "(tk_heap T)\<lparr>rh_mem := store32 (memory T) (p - 4) v\<rparr>"
  have rok: "raw_ok (tk_heap T)" using inv by (simp add: tinv_def)
  have mem: "rh_mem ?h x = memory T x" if "in_use T q k" "q \<noteq> p" "x \<in> whole q k" for q k x
  proof -
    have "x \<notin> whole p n" using in_use_disjoint [OF rok p that(1)] that(2,3) by blast
    then have "x \<notin> region (p - 4) 4" using tag_regions(1) by blast
    then show ?thesis by (simp add: store32_outside)
  qed
  have inv': "tinv (insert p X) T as" using inv by (auto simp: tinv_def)
  have "tinv (insert p X) (T\<lparr>tk_heap := ?h\<rparr>) as"
  proof (rule tinv_heap [OF inv'])
    show "raw_ok ?h" using rok by (simp add: raw_ok_def)
    show "(a, sizeof_extra_info) \<in> set (rh_live ?h)" if "a \<in> set as" for a
      using that inv by (simp add: tinv_def)
    show "(q - 4, unat k + 8) \<in> set (rh_live ?h) \<and>
        (q \<notin> insert p X \<longrightarrow> (\<forall>x \<in> whole q k. rh_mem ?h x = memory T x))"
      if "(q, k) \<in> set (entries T as)" for q k
      using in_recorded_used [OF inv that] mem by (auto simp: in_use_def)
  qed
  then show "tinv (insert p X) (put32 (p - 4) v T) as" by (simp add: put32_def)
  show "in_use (put32 (p - 4) v T) q k = in_use T q k" by (simp add: put32_def in_use_def)
  show "untouched (\<lambda>q k. q \<noteq> p) T (put32 (p - 4) v T)"
    using mem by (simp add: untouched_def put32_def) metis
qed

lemma release_ok:
  assumes inv: "tinv {} T as" and p: "in_use T p n" "p \<notin> fst ` set (entries T as)"
  obtains h where "raw_free (p - 4) (tk_heap T) = Inr h" "tinv {} (T\<lparr>tk_heap := h\<rparr>) as"
    "\<And>q k. in_use (T\<lparr>tk_heap := h\<rparr>) q k \<longleftrightarrow> in_use T q k \<and> q \<noteq> p"
    "untouched (\<lambda>q k. q \<noteq> p) T (T\<lparr>tk_heap := h\<rparr>)" "p - 4 \<notin> fst ` set (rh_live h)"
proof -
  note I = inv [unfolded tinv_def]
  have rok: "raw_ok (tk_heap T)" using I by simp
  have live: "(p - 4, unat n + 8) \<in> set (rh_live (tk_heap T))" "p - 4 \<notin> dom (tk_nodes T)"
    using p(1) by (simp_all add: in_use_def)
  from raw_free_ok [OF rok live(1)] obtain h where
    h: "raw_free (p - 4) (tk_heap T) = Inr h" "raw_ok h" "rh_live h = without (p - 4) (rh_live (tk_heap T))"
      "\<And>b k x. \<lbrakk>(b, k) \<in> set (rh_live (tk_heap T)); b \<noteq> p - 4; x \<in> region b k\<rbrakk> \<Longrightarrow> rh_mem h x = memory T x"
      "rh_pick h = rh_pick (tk_heap T)"
    by blast
  have mem: "rh_mem h x = memory T x" if "in_use T q k" "q \<noteq> p" "x \<in> whole q k" for q k x
    using h(4) [of "q - 4" "unat k + 8" x] that by (simp add: in_use_def)
  have "tinv {} (T\<lparr>tk_heap := h\<rparr>) as"
  proof (rule tinv_heap [OF inv h(2)])
    show "(a, sizeof_extra_info) \<in> set (rh_live h)" if "a \<in> set as" for a
      using that I h(3) live(2) by (auto simp: chain_def)
    show "(q - 4, unat k + 8) \<in> set (rh_live h) \<and>
        (q \<notin> {} \<longrightarrow> (\<forall>x \<in> whole q k. rh_mem h x = memory T x))"
      if "(q, k) \<in> set (entries T as)" for q k
    proof -
      have "q \<noteq> p" using p(2) that by force
      then show ?thesis using in_recorded_used [OF inv that] mem h(3) by (auto simp: in_use_def)
    qed
  qed
  moreover have "in_use (T\<lparr>tk_heap := h\<rparr>) q k \<longleftrightarrow> in_use T q k \<and> q \<noteq> p" for q k
    using h(3) by (auto simp: in_use_def)
  moreover have "untouched (\<lambda>q k. q \<noteq> p) T (T\<lparr>tk_heap := h\<rparr>)"
    using mem h(5) by (simp add: untouched_def) metis
  moreover have "p - 4 \<notin> fst ` set (rh_live h)" using h(3) by (auto simp: without_def)
  ultimately show ?thesis using h(1) by (intro that)
qed

end
