(* ===== verification/Memtrack_Props.thy ===== *)
theory Memtrack_Props
  imports Memtrack_Lemmas
begin

text \<open>
  What the allocation tracker of \<^verbatim>\<open>src/memmgr.c\<close> does for its clients: for every sequence of
  calls the report lists exactly the blocks the client holds and no check fails; a write over
  the end of a block is found when the block is freed; a double free is not found; and the
  32-bit size of a reallocation wraps around.
\<close>

section \<open>The operations keep the invariant\<close>

lemma check_passes:
  assumes inv: "tinv {} T as" and p: "p \<noteq> CPLUS_NULL"
  shows "exec_bind (check_boundary (p - 4) T) assert_success = Inr ()"
proof -
  have "tagged (memory T) p n" if "map_of (entries T as) p = Some n" for n
    using map_of_SomeD [OF that] inv by (simp add: tinv_def)
  then show ?thesis
    using check_boundary_ok [OF inv p] by (auto simp: assert_success_def split: option.split)
qed

lemma tinv_weaken: "tinv {} T as \<Longrightarrow> tinv X T as"
  by (simp add: tinv_def)

lemma untouched_weaken: "untouched (\<lambda>q k. True) T T' \<Longrightarrow> untouched K T T'"
  unfolding untouched_def by blast

lemma not_recorded: "p \<notin> fst ` set (filter (\<lambda>e. fst e \<noteq> p) es)"
  by auto

lemma free_ok:
  assumes inv: "tinv {} T as" and p: "in_use T p n"
  obtains T2 as2 where "tracked_free p T = Inr (Inr (), T2)" "tinv {} T2 as2"
    "entries T2 as2 = filter (\<lambda>e. fst e \<noteq> p) (entries T as)"
    "\<And>q k. in_use T2 q k \<longleftrightarrow> in_use T q k \<and> q \<noteq> p" "untouched (\<lambda>q k. q \<noteq> p) T T2"
    "p - 4 \<notin> fst ` set (rh_live (tk_heap T2))"
proof -
  have rok: "raw_ok (tk_heap T)" using inv by (simp add: tinv_def)
  note bnd = in_use_bounds [OF rok p]
  let ?T0 = "put32 (p - 4) CLRCHK T"
  note F = put_front_ok [OF inv p, of CLRCHK]
  obtain T1 as1 where E: "erase_mem_info p ?T0 = Inr (Inr (), T1)" "tinv {} T1 as1"
      "entries T1 as1 = filter (\<lambda>e. fst e \<noteq> p) (entries ?T0 as)"
      "\<And>q k. in_use T1 q k = in_use ?T0 q k" "untouched (\<lambda>q k. True) ?T0 T1"
    by (rule erase_ok [OF F(1) bnd(1)]) blast
  have p1: "in_use T1 p n" "p \<notin> fst ` set (entries T1 as1)"
    using E(4) F(2) p not_recorded unfolding E(3) by simp_all
  obtain h where
    h: "raw_free (p - 4) (tk_heap T1) = Inr h" "tinv {} (T1\<lparr>tk_heap := h\<rparr>) as1"
      "\<And>q k. in_use (T1\<lparr>tk_heap := h\<rparr>) q k \<longleftrightarrow> in_use T1 q k \<and> q \<noteq> p"
      "untouched (\<lambda>q k. q \<noteq> p) T1 (T1\<lparr>tk_heap := h\<rparr>)" "p - 4 \<notin> fst ` set (rh_live h)"
    by (rule release_ok [OF E(2) p1]) (rule that)
  have "exec_bind (check_boundary (p - 4) T) assert_success = Inr ()"
    by (rule check_passes [OF inv bnd(1)])
  then have chk: "\<exists>r. check_boundary (p - 4) T = Inr r \<and> assert_success r = Inr ()"
    by (simp add: exec_bind_eq_Inr)
  have step: "tracked_free p T = Inr (Inr (), T1\<lparr>tk_heap := h\<rparr>)"
    using chk bnd(1) E(1) h(1) by (auto simp: tracked_free_def Let_def)
  have "untouched (\<lambda>q k. q \<noteq> p) T T1"
    by (rule untouched_trans [OF F(3) untouched_weaken [OF E(5)]]) (simp add: F(2))
  then have "untouched (\<lambda>q k. q \<noteq> p) T (T1\<lparr>tk_heap := h\<rparr>)"
    by (rule untouched_trans [OF _ h(4)]) (simp add: E(4) F(2))
  moreover have "entries ?T0 as = entries T as" by (simp add: put32_def)
  ultimately show ?thesis using step h(2,3,5) E(3,4) F(2)
    by (intro that [of "T1\<lparr>tk_heap := h\<rparr>" as1]) simp_all
qed

text \<open>The heap after a block was given back.\<close>

definition after_release :: "ptr \<Rightarrow> tracker \<Rightarrow> raw_heap" where
  "after_release p T = (case erase_mem_info p T of
     Inl e \<Rightarrow> tk_heap T
   | Inr (r, T1) \<Rightarrow> (case raw_free (p - 4) (tk_heap T1) of Inl e \<Rightarrow> tk_heap T | Inr h \<Rightarrow> h))"

text \<open>Growing or shrinking a block, within the range of the 32-bit size.\<close>

lemma realloc_ok:
  assumes inv: "tinv {} T as" and p: "in_use T p n" and s: "unat s + 8 < 2 ^ 32"
  obtains r T2 as2 where "tracked_realloc p s (Some f) (Some g) l T = Inr (r, T2)" "tinv {} T2 as2"
    "untouched (\<lambda>q k. q \<noteq> p) T T2"
    "case r of
       Inl e \<Rightarrow> e = ENOMEM \<and> (\<forall>q k. in_use T2 q k \<longleftrightarrow> in_use T q k \<and> q \<noteq> p) \<and>
         entries T2 as2 = filter (\<lambda>e. fst e \<noteq> p) (entries T as)
     | Inr b \<Rightarrow> b \<noteq> CPLUS_NULL \<and> (\<forall>k. in_use T b k \<longrightarrow> b = p) \<and>
         (\<forall>q k. in_use T2 q k \<longleftrightarrow> in_use T q k \<and> q \<noteq> p \<or> q = b \<and> k = s) \<and>
         (\<forall>i < min (unat n) (unat s). memory T2 (b + of_nat i) = memory T (p + of_nat i)) \<and>
         (let es = filter (\<lambda>e. fst e \<noteq> p) (entries T as) in
          (entries T2 as2 = es \<or> entries T2 as2 = es @ [(b, s)]) \<and>
          (record_room (unat s + 8) (after_release p T) \<longrightarrow> entries T2 as2 = es @ [(b, s)]))"
proof -
  have rok: "raw_ok (tk_heap T)" using inv by (simp add: tinv_def)
  note bnd = in_use_bounds [OF rok p]
  obtain T1 as1 where E: "erase_mem_info p T = Inr (Inr (), T1)" "tinv {} T1 as1"
      "entries T1 as1 = filter (\<lambda>e. fst e \<noteq> p) (entries T as)"
      "\<And>q k. in_use T1 q k = in_use T q k" "untouched (\<lambda>q k. True) T T1"
    by (rule erase_ok [OF tinv_weaken [OF inv] bnd(1)]) blast
  have p1: "in_use T1 p n" "p \<notin> fst ` set (entries T1 as1)"
    using E(4) p not_recorded unfolding E(3) by simp_all
  obtain h where
    h: "raw_free (p - 4) (tk_heap T1) = Inr h" "tinv {} (T1\<lparr>tk_heap := h\<rparr>) as1"
      "\<And>q k. in_use (T1\<lparr>tk_heap := h\<rparr>) q k \<longleftrightarrow> in_use T1 q k \<and> q \<noteq> p"
      "untouched (\<lambda>q k. q \<noteq> p) T1 (T1\<lparr>tk_heap := h\<rparr>)"
    by (rule release_ok [OF E(2) p1]) (rule that)
  let ?T2 = "T1\<lparr>tk_heap := h\<rparr>"
  have unt: "untouched (\<lambda>q k. q \<noteq> p) T ?T2"
    by (rule untouched_trans [OF untouched_weaken [OF E(5)] h(4)]) (simp add: E(4))
  have rel: "after_release p T = h" using E(1) h(1) by (simp add: after_release_def)
  have "exec_bind (check_boundary (p - 4) T) assert_success = Inr ()"
    by (rule check_passes [OF inv bnd(1)])
  then have chk: "\<exists>r. check_boundary (p - 4) T = Inr r \<and> assert_success r = Inr ()"
    by (simp add: exec_bind_eq_Inr)
  have rok1: "raw_ok (tk_heap T1)" using E(2) by (simp add: tinv_def)
  have live: "(p - 4, unat n + 8) \<in> set (rh_live (tk_heap T1))" using p1(1) by (simp add: in_use_def)
  have dist: "distinct (map fst (rh_live (tk_heap T1)))" using rok1 by (simp add: raw_ok_def disjoint_blocks_def)
  have old: "map_of (rh_live (tk_heap T1)) (p - 4) = Some (unat n + 8)"
    using live dist by simp
  let ?rest = "without (p - 4) (rh_live (tk_heap T1))"
  have freed: "h = (tk_heap T1)\<lparr>rh_live := ?rest, rh_mem := rh_touch (tk_heap T1) ?rest (memory T1)\<rparr>"
    using h(1) bnd(2) by (auto simp: raw_free_def Let_def split: if_splits)
  have size: "unat (s + 2 * 4) = unat s + 8" using s by (simp add: unat_word_ariths)
  define b where "b = rh_pick (tk_heap T1) ?rest (unat s + 8)"
  consider "s = 0" | "s \<noteq> 0" "b = CPLUS_NULL" | "s \<noteq> 0" "b \<noteq> CPLUS_NULL" by blast
  then show ?thesis
  proof cases
    case 1
    then have "raw_realloc (p - 4) 0 (tk_heap T1) = Inr (CPLUS_NULL, h)"
      using old h(1) by (simp add: raw_realloc_def)
    then have "tracked_realloc p s (Some f) (Some g) l T = Inr (Inl ENOMEM, ?T2)"
      using chk bnd(1) E(1) 1 by (auto simp: tracked_realloc_def Let_def)
    then show ?thesis using h E unt by (intro that [of _ ?T2 as1]) auto
  next
    case 2
    then have "raw_realloc (p - 4) (unat s + 8) (tk_heap T1) = Inr (CPLUS_NULL, tk_heap T1)"
      using old by (simp add: raw_realloc_def b_def Let_def)
    then have "tracked_realloc p s (Some f) (Some g) l T = Inr (Inl ENOMEM, ?T2)"
      using chk bnd(1) E(1) 2 size h(1) by (auto simp: tracked_realloc_def Let_def)
    then show ?thesis using h E unt by (intro that [of _ ?T2 as1]) auto
  next
    case 3
    let ?keep = "read_bytes (memory T1) (p - 4) (min (unat n + 8) (unat s + 8))"
    let ?h2 = "h\<lparr>rh_live := (b, unat s + 8) # ?rest, rh_mem := write_bytes (rh_mem h) b ?keep\<rparr>"
    have len: "length ?keep \<le> unat s + 8" "length ?keep \<le> 2 ^ 64"
      using s by simp_all
    have "?h2 = (tk_heap T1)\<lparr>rh_live := (b, unat s + 8) # ?rest,
        rh_mem := write_bytes (rh_touch (tk_heap T1) ?rest (memory T1)) b ?keep\<rparr>"
      unfolding freed by simp
    then have "raw_realloc (p - 4) (unat s + 8) (tk_heap T1) = Inr (b, ?h2)"
      using 3 unfolding raw_realloc_def old Let_def b_def [symmetric] by simp
    then have step: "tracked_realloc p s (Some f) (Some g) l T =
        exec_bind (add_mem_info (b + 4) s (Some f) (Some g) l (put_tags b s (T1\<lparr>tk_heap := ?h2\<rparr>)))
          (\<lambda>(_, T2). Inr (Inr (b + 4), T2))"
      using chk bnd(1) E(1) 3 size by (auto simp: tracked_realloc_def Let_def)
    have rest: "disjoint_blocks ?rest" using rok1 by (simp add: raw_ok_def disjoint_without)
    have pick: "pick_law (rh_pick (tk_heap T1))" using rok1 by (simp add: raw_ok_def)
    have b: "unat b + (unat s + 8) \<le> 2 ^ 64"
      "\<And>c k. (c, k) \<in> set ?rest \<Longrightarrow> region b (unat s + 8) \<inter> region c k = {}"
      using pick [unfolded pick_law_def, rule_format, of "unat s + 8" ?rest] 3(2)
      unfolding b_def by simp_all
    have dis: "disjoint_blocks ((b, unat s + 8) # ?rest)"
      by (rule disjoint_add [OF rest 3(2) _ b]) simp
    have ok2: "raw_ok ?h2" using rok1 dis by (simp add: raw_ok_def freed)
    have live2: "rh_live ?h2 = (b, unat s + 8) # rh_live (tk_heap ?T2)" by (simp add: freed)
    have keep2: "rh_mem ?h2 x = memory ?T2 x" if "in_use ?T2 q k" "x \<in> whole q k" for q k x
    proof -
      have "(q - 4, unat k + 8) \<in> set ?rest" using that(1) by (simp add: in_use_def freed)
      then have "x \<notin> region b (unat s + 8)" using b(2) that(2) by blast
      then have "\<not> unat (x - b) < unat s + 8" using s by (simp add: in_region_iff)
      then show ?thesis using len by (simp add: write_bytes_apply)
    qed
    have pick2: "rh_pick ?h2 = rh_pick (tk_heap ?T2)" by simp
    obtain r T3 as3 where P:
      "add_mem_info (b + 4) s (Some f) (Some g) l (put_tags b s (?T2\<lparr>tk_heap := ?h2\<rparr>)) = Inr (r, T3)"
      "tinv {} T3 as3" "untouched (\<lambda>q k. True) ?T2 T3"
      "\<And>q k. in_use T3 q k \<longleftrightarrow> in_use ?T2 q k \<or> q = b + 4 \<and> k = s"
      "\<And>k. \<not> in_use ?T2 (b + 4) k" "b + 4 \<noteq> CPLUS_NULL"
      "entries T3 as3 = entries ?T2 as1 \<or> entries T3 as3 = entries ?T2 as1 @ [(b + 4, s)]"
      "record_fits ?h2 \<Longrightarrow> entries T3 as3 = entries ?T2 as1 @ [(b + 4, s)]"
      "\<And>x. x \<in> region (b + 4) (unat s) \<Longrightarrow> memory T3 x = rh_mem ?h2 x"
      by (rule place_ok [OF h(2) ok2 live2 keep2 pick2, where f = f and g = g and l = l]) blast+
    have unt3: "untouched (\<lambda>q k. q \<noteq> p) T T3"
      by (rule untouched_trans [OF unt untouched_weaken [OF P(3)]]) (simp add: h(3) E(4))
    have copied: "memory T3 (b + 4 + of_nat i) = memory T (p + of_nat i)" if i: "i < min (unat n) (unat s)" for i
    proof -
      have small: "i + 4 < 2 ^ 64" using i s by simp
      have "b + 4 + of_nat i \<in> region (b + 4) (unat s)" using i unfolding region_def by auto
      then have "memory T3 (b + 4 + of_nat i) = rh_mem ?h2 (b + 4 + of_nat i)" by (rule P(9))
      also have "\<dots> = ?keep ! (i + 4)"
      proof -
        have "unat (b + 4 + of_nat i - b) = unat (of_nat (i + 4) :: ptr)" by (simp add: add.commute)
        also have "\<dots> = i + 4" using small by (intro unat_of_nat_ptr) simp
        finally have "unat (b + 4 + of_nat i - b) = i + 4" .
        then show ?thesis using write_bytes_apply [OF len(2), of "rh_mem h" b "b + 4 + of_nat i"] i by simp
      qed
      also have "\<dots> = memory T1 (p + of_nat i)" using i by (simp add: read_bytes_nth)
      also have "\<dots> = memory T (p + of_nat i)"
      proof -
        have "p + of_nat i = (p - 4) + of_nat (i + 4)" "i + 4 < unat n + 8" using i by simp_all
        then have "p + of_nat i \<in> whole p n" unfolding region_def by blast
        then show ?thesis using E(5) p unfolding untouched_def by blast
      qed
      finally show ?thesis .
    qed
    have other: "\<forall>k. in_use T (b + 4) k \<longrightarrow> b + 4 = p" using P(5) h(3) E(4) by blast
    have "tracked_realloc p s (Some f) (Some g) l T = Inr (Inr (b + 4), T3)" using step P(1) by simp
    moreover have "record_fits ?h2" if "record_room (unat s + 8) h"
      using that 3(2) by (simp add: record_room_def record_fits_def freed b_def Let_def)
    ultimately show ?thesis
      using P(2,4,6,7,8) unt3 other copied rel h(3) E(3,4)
      by (intro that [of "Inr (b + 4)" T3 as3]) (simp_all add: Let_def)
  qed
qed

section \<open>The tracker is a block allocator\<close>

text \<open>Blocks of one size, with the tracked operations in place of the untracked ones.\<close>

definition tracked_alloc :: "u32 \<Rightarrow> string \<Rightarrow> string \<Rightarrow> u32 \<Rightarrow> tracker \<Rightarrow> ptr cresult \<times> tracker" where
  "tracked_alloc n f g l T = (case tracked_malloc n (Some f) (Some g) l T of
     Inl e \<Rightarrow> (Inl ENONE, T)
   | Inr (p, T1) \<Rightarrow> (if p = CPLUS_NULL then Inl ENOMEM else Inr p, T1))"

definition tracked_release :: "tracker \<Rightarrow> ptr \<Rightarrow> tracker" where
  "tracked_release T p = (case tracked_free p T of Inl e \<Rightarrow> T | Inr (r, T1) \<Rightarrow> T1)"

definition tracker_ok :: "tracker \<Rightarrow> bool" where
  "tracker_ok T \<longleftrightarrow> (\<exists>as. tinv {} T as)"

interpretation tracked: block_allocator "tracked_alloc n f g l" tracked_release
    "\<lambda>T. {p. in_use T p n}" tracker_ok for n f g l
proof
  fix T r T1
  assume "tracker_ok T" and alc: "tracked_alloc n f g l T = (r, T1)"
  then obtain as where "tinv {} T as" by (auto simp: tracker_ok_def)
  from malloc_ok [OF this, of n f g l] obtain p T2 as2 where
    "tracked_malloc n (Some f) (Some g) l T = Inr (p, T2)" "tinv {} T2 as2"
    by metis
  then show "tracker_ok T1" using alc by (auto simp: tracked_alloc_def tracker_ok_def)
next
  fix T a T1
  assume "tracker_ok T" and alc: "tracked_alloc n f g l T = (Inr a, T1)"
  then obtain as where "tinv {} T as" by (auto simp: tracker_ok_def)
  from malloc_ok [OF this, of n f g l] obtain p T2 as2 where
    "tracked_malloc n (Some f) (Some g) l T = Inr (p, T2)"
    "p \<noteq> CPLUS_NULL \<Longrightarrow> (\<forall>q k. in_use T2 q k \<longleftrightarrow> in_use T q k \<or> q = p \<and> k = n) \<and> (\<forall>k. \<not> in_use T p k)"
    by metis
  then show "a \<noteq> CPLUS_NULL \<and> a \<notin> {p. in_use T p n} \<and>
      {p. in_use T1 p n} = insert a {p. in_use T p n}"
    using alc by (auto simp: tracked_alloc_def split: if_splits)
next
  fix T e T1
  assume "tracker_ok T" and alc: "tracked_alloc n f g l T = (Inl e, T1)"
  then obtain as where "tinv {} T as" by (auto simp: tracker_ok_def)
  from malloc_ok [OF this, of n f g l] obtain p T2 as2 where
    "tracked_malloc n (Some f) (Some g) l T = Inr (p, T2)" "p = CPLUS_NULL \<Longrightarrow> T2 = T \<and> as2 = as"
    by metis
  then show "{p. in_use T1 p n} = {p. in_use T p n}"
    using alc by (auto simp: tracked_alloc_def split: if_splits)
next
  fix T a
  assume "tracker_ok T" "a \<in> {p. in_use T p n}"
  then obtain as where "tinv {} T as" "in_use T a n" by (auto simp: tracker_ok_def)
  from free_ok [OF this] obtain T2 as2 where "tracked_free a T = Inr (Inr (), T2)" "tinv {} T2 as2"
    "\<And>q k. in_use T2 q k \<longleftrightarrow> in_use T q k \<and> q \<noteq> a"
    by metis
  then show "tracker_ok (tracked_release T a)"
    "{p. in_use (tracked_release T a) p n} = {p. in_use T p n} - {a}"
    by (auto simp: tracked_release_def tracker_ok_def)
qed

section \<open>Clients\<close>

text \<open>
  A client's calls; a block is named by its position among the blocks the client holds, oldest
  first.  A write stays within the block.
\<close>

datatype mem_call = Malloc u32 | Realloc nat u32 | Free nat | Write nat u32 u8

type_synonym held = "(ptr \<times> u32) list"

definition drop_nth :: "nat \<Rightarrow> 'a list \<Rightarrow> 'a list" where
  "drop_nth k xs = take k xs @ drop (Suc k) xs"

definition poke :: "ptr \<Rightarrow> u8 \<Rightarrow> tracker \<Rightarrow> tracker" where
  "poke x b T = T\<lparr>tk_heap := (tk_heap T)\<lparr>rh_mem := (memory T)(x := b)\<rparr>\<rparr>"

fun client_call :: "string \<Rightarrow> string \<Rightarrow> u32 \<Rightarrow> mem_call \<Rightarrow> held \<times> tracker \<Rightarrow> (held \<times> tracker) exec" where
  "client_call f g l (Malloc n) (bs, T) =
     exec_bind (tracked_malloc n (Some f) (Some g) l T) (\<lambda>(p, T1).
       Inr (if p = CPLUS_NULL then bs else bs @ [(p, n)], T1))"
| "client_call f g l (Realloc k n) (bs, T) =
     (if k < length bs then
        exec_bind (tracked_realloc (fst (bs ! k)) n (Some f) (Some g) l T) (\<lambda>(r, T1).
          Inr (case r of Inl e \<Rightarrow> drop_nth k bs | Inr p \<Rightarrow> drop_nth k bs @ [(p, n)], T1))
      else Inr (bs, T))"
| "client_call f g l (Free k) (bs, T) =
     (if k < length bs then
        exec_bind (tracked_free (fst (bs ! k)) T) (\<lambda>(r, T1). Inr (drop_nth k bs, T1))
      else Inr (bs, T))"
| "client_call f g l (Write k off b) (bs, T) =
     Inr (bs, if k < length bs \<and> off < snd (bs ! k) then poke (fst (bs ! k) + ucast off) b T else T)"

fun client_run :: "string \<Rightarrow> string \<Rightarrow> u32 \<Rightarrow> mem_call list \<Rightarrow> held \<times> tracker \<Rightarrow> (held \<times> tracker) exec" where
  "client_run f g l [] s = Inr s"
| "client_run f g l (c # cs) s = exec_bind (client_call f g l c s) (client_run f g l cs)"

text \<open>The range in which the 32-bit size of \<open>tracked_realloc\<close> does not wrap.\<close>

fun in_range :: "mem_call \<Rightarrow> bool" where
  "in_range (Realloc k n) \<longleftrightarrow> unat n + 8 < 2 ^ 32"
| "in_range _ \<longleftrightarrow> True"

text \<open>\<open>ptr_info_start\<close> and \<open>ptr_info_last\<close> before the first call.\<close>

definition no_records :: "raw_heap \<Rightarrow> tracker" where
  "no_records h = \<lparr>tk_heap = h, tk_nodes = (\<lambda>a. None), tk_start = CPLUS_NULL, tk_last = CPLUS_NULL,
     tk_inused = 0\<rparr>"

text \<open>No call of a run fails to allocate the record of a block it has allocated.\<close>

fun room_for :: "mem_call \<Rightarrow> held \<times> tracker \<Rightarrow> bool" where
  "room_for (Malloc n) (bs, T) \<longleftrightarrow> record_room (unat n + 8) (tk_heap T)"
| "room_for (Realloc k n) (bs, T) \<longleftrightarrow>
     k < length bs \<longrightarrow> record_room (unat n + 8) (after_release (fst (bs ! k)) T)"
| "room_for _ s \<longleftrightarrow> True"

fun all_recorded :: "string \<Rightarrow> string \<Rightarrow> u32 \<Rightarrow> mem_call list \<Rightarrow> held \<times> tracker \<Rightarrow> bool" where
  "all_recorded f g l [] s \<longleftrightarrow> True"
| "all_recorded f g l (c # cs) s \<longleftrightarrow> room_for c s \<and>
     (case client_call f g l c s of Inl e \<Rightarrow> False | Inr s1 \<Rightarrow> all_recorded f g l cs s1)"

text \<open>What a client may rely on between its calls; \<open>ex\<close>: every block it holds is recorded.\<close>

definition holds :: "bool \<Rightarrow> held \<Rightarrow> tracker \<Rightarrow> bool" where
  "holds ex bs T \<longleftrightarrow> (\<exists>as. tinv {} T as \<and> distinct (map fst bs) \<and>
     (\<forall>p n. (p, n) \<in> set bs \<longrightarrow> in_use T p n) \<and> set (entries T as) \<subseteq> set bs \<and>
     (ex \<longrightarrow> entries T as = bs))"

lemma holdsI:
  "\<lbrakk>tinv {} T as; distinct (map fst bs); \<And>p n. (p, n) \<in> set bs \<Longrightarrow> in_use T p n;
    set (entries T as) \<subseteq> set bs; ex \<Longrightarrow> entries T as = bs\<rbrakk> \<Longrightarrow> holds ex bs T"
  by (auto simp: holds_def)

lemma holdsE:
  assumes "holds ex bs T"
  obtains as where "tinv {} T as" "distinct (map fst bs)" "\<And>p n. (p, n) \<in> set bs \<Longrightarrow> in_use T p n"
    "set (entries T as) \<subseteq> set bs" "ex \<Longrightarrow> entries T as = bs"
  using assms unfolding holds_def by blast

lemma drop_nth_filter:
  assumes "distinct (map fst bs)" "k < length bs"
  shows "filter (\<lambda>e. fst e \<noteq> fst (bs ! k)) bs = drop_nth k bs"
proof -
  let ?P = "\<lambda>e. fst e \<noteq> fst (bs ! k)"
  have bs: "bs = take k bs @ bs ! k # drop (Suc k) bs" using assms(2) by (rule id_take_nth_drop)
  have "distinct (map fst (take k bs @ bs ! k # drop (Suc k) bs))" using assms(1) bs by simp
  then have out: "fst (bs ! k) \<notin> fst ` set (take k bs)" "fst (bs ! k) \<notin> fst ` set (drop (Suc k) bs)"
    by auto
  have "filter ?P bs = filter ?P (take k bs @ bs ! k # drop (Suc k) bs)" using bs by (rule arg_cong)
  also have "\<dots> = filter ?P (take k bs) @ filter ?P (drop (Suc k) bs)" by simp
  also have "\<dots> = drop_nth k bs" unfolding drop_nth_def by (simp only: filter_absent [OF out(1)] filter_absent [OF out(2)])
  finally show ?thesis .
qed

lemma drop_nth_mem:
  assumes "distinct (map fst bs)" "k < length bs"
  shows "(q, j) \<in> set (drop_nth k bs) \<longleftrightarrow> (q, j) \<in> set bs \<and> q \<noteq> fst (bs ! k)"
  unfolding drop_nth_filter [OF assms, symmetric] by auto

lemma drop_nth_distinct:
  assumes "distinct (map fst bs)" "k < length bs"
  shows "distinct (map fst (drop_nth k bs))"
  unfolding drop_nth_filter [OF assms, symmetric] using assms(1) by (simp add: distinct_map_filter)

lemma weaken: "holds ex bs T \<Longrightarrow> holds (ex \<and> ex') bs T"
  by (auto simp: holds_def)

lemma client_call_step:
  assumes h: "holds ex bs T" and c: "in_range c"
  shows "\<exists>bs' T'. client_call f g l c (bs, T) = Inr (bs', T') \<and>
    holds (ex \<and> room_for c (bs, T)) bs' T'"
proof -
  from h obtain as where as: "tinv {} T as" "distinct (map fst bs)"
      "\<And>p n. (p, n) \<in> set bs \<Longrightarrow> in_use T p n" "set (entries T as) \<subseteq> set bs"
      "ex \<Longrightarrow> entries T as = bs"
    by (rule holdsE) blast
  have used: "in_use T (fst (bs ! k)) (snd (bs ! k))" if "k < length bs" for k
    using as(3) [of "fst (bs ! k)" "snd (bs ! k)"] that by simp
  have filt: "set (filter (\<lambda>e. fst e \<noteq> fst (bs ! k)) (entries T as)) \<subseteq> set (drop_nth k bs)"
    if "k < length bs" for k
    using as(4) by (auto simp: drop_nth_mem [OF as(2) that])
  have filt_fit: "filter (\<lambda>e. fst e \<noteq> fst (bs ! k)) (entries T as) = drop_nth k bs"
    if "k < length bs" ex for k
    using as(5) that(2) drop_nth_filter [OF as(2) that(1)] by simp
  show ?thesis
  proof (cases c)
    case (Malloc n)
    obtain p T1 as1 where
      M: "tracked_malloc n (Some f) (Some g) l T = Inr (p, T1)" "tinv {} T1 as1"
        "untouched (\<lambda>q k. True) T T1" "p = CPLUS_NULL \<Longrightarrow> T1 = T \<and> as1 = as"
        "p \<noteq> CPLUS_NULL \<Longrightarrow> (\<forall>q k. in_use T1 q k \<longleftrightarrow> in_use T q k \<or> q = p \<and> k = n) \<and>
           (\<forall>k. \<not> in_use T p k) \<and>
           (entries T1 as1 = entries T as \<or> entries T1 as1 = entries T as @ [(p, n)]) \<and>
           (record_room (unat n + 8) (tk_heap T) \<longrightarrow> entries T1 as1 = entries T as @ [(p, n)])"
      by (rule malloc_ok [OF as(1), of n f g l]) (rule that)
    show ?thesis
    proof (cases "p = CPLUS_NULL")
      case True
      then show ?thesis using M(1,4) weaken [OF h] Malloc by simp
    next
      case False
      note M5 = M(5) [OF False]
      have "p \<notin> fst ` set bs" using as(3) M5 by fastforce
      then have "holds (ex \<and> room_for c (bs, T)) (bs @ [(p, n)]) T1"
        using M5 as Malloc by (intro holdsI [OF M(2)]) auto
      then show ?thesis using M(1) False Malloc by simp
    qed
  next
    case (Free k)
    show ?thesis
    proof (cases "k < length bs")
      case True
      obtain T2 as2 where
        F: "tracked_free (fst (bs ! k)) T = Inr (Inr (), T2)" "tinv {} T2 as2"
          "entries T2 as2 = filter (\<lambda>e. fst e \<noteq> fst (bs ! k)) (entries T as)"
          "\<And>q j. in_use T2 q j \<longleftrightarrow> in_use T q j \<and> q \<noteq> fst (bs ! k)"
          "untouched (\<lambda>q j. q \<noteq> fst (bs ! k)) T T2"
        by (rule free_ok [OF as(1) used [OF True]]) (rule that)
      have "holds (ex \<and> room_for c (bs, T)) (drop_nth k bs) T2"
        using as(3) filt [OF True] filt_fit [OF True]
        by (intro holdsI [OF F(2)]) (simp_all add: F(3,4) drop_nth_distinct [OF as(2) True] drop_nth_mem [OF as(2) True])
      then show ?thesis using F(1) True Free by simp
    next
      case False
      then show ?thesis using h Free by simp
    qed
  next
    case (Realloc k n)
    show ?thesis
    proof (cases "k < length bs")
      case True
      let ?p = "fst (bs ! k)" and ?es = "filter (\<lambda>e. fst e \<noteq> fst (bs ! k)) (entries T as)"
      have n: "unat n + 8 < 2 ^ 32" using c Realloc by simp
      obtain r T2 as2 where R: "tracked_realloc ?p n (Some f) (Some g) l T = Inr (r, T2)" "tinv {} T2 as2"
          "untouched (\<lambda>q k. q \<noteq> ?p) T T2"
          "case r of
             Inl e \<Rightarrow> e = ENOMEM \<and> (\<forall>q j. in_use T2 q j \<longleftrightarrow> in_use T q j \<and> q \<noteq> ?p) \<and> entries T2 as2 = ?es
           | Inr b \<Rightarrow> b \<noteq> CPLUS_NULL \<and> (\<forall>j. in_use T b j \<longrightarrow> b = ?p) \<and>
               (\<forall>q j. in_use T2 q j \<longleftrightarrow> in_use T q j \<and> q \<noteq> ?p \<or> q = b \<and> j = n) \<and>
               (\<forall>i < min (unat (snd (bs ! k))) (unat n). memory T2 (b + of_nat i) = memory T (?p + of_nat i)) \<and>
               (let es = ?es in (entries T2 as2 = es \<or> entries T2 as2 = es @ [(b, n)]) \<and>
                 (record_room (unat n + 8) (after_release ?p T) \<longrightarrow> entries T2 as2 = es @ [(b, n)]))"
        by (rule realloc_ok [OF as(1) used [OF True] n, of f g l]) (rule that)
      note sets = drop_nth_distinct [OF as(2) True] drop_nth_mem [OF as(2) True]
      show ?thesis
      proof (cases r)
        case (Inl e)
        then have "holds (ex \<and> room_for c (bs, T)) (drop_nth k bs) T2"
          using R(4) as(3) filt [OF True] filt_fit [OF True]
          by (intro holdsI [OF R(2)]) (simp_all add: sets)
        then show ?thesis using R(1) True Realloc Inl by simp
      next
        case (Inr b)
        then have b: "\<And>j. in_use T b j \<Longrightarrow> b = ?p"
          "\<And>q j. in_use T2 q j \<longleftrightarrow> in_use T q j \<and> q \<noteq> ?p \<or> q = b \<and> j = n"
          "entries T2 as2 = ?es \<or> entries T2 as2 = ?es @ [(b, n)]"
          "record_room (unat n + 8) (after_release ?p T) \<Longrightarrow> entries T2 as2 = ?es @ [(b, n)]"
          using R(4) unfolding Let_def Inr sum.case by blast+
        have "b \<notin> fst ` set (drop_nth k bs)"
          using b(1) as(3) sets(2) by fastforce
        then have "distinct (map fst (drop_nth k bs @ [(b, n)]))" using sets(1) by simp
        moreover have "set (entries T2 as2) \<subseteq> set (drop_nth k bs @ [(b, n)])"
          using b(3) filt [OF True] by auto
        ultimately have "holds (ex \<and> room_for c (bs, T)) (drop_nth k bs @ [(b, n)]) T2"
          using as(3) b(2,4) filt_fit [OF True] True Realloc
          by (intro holdsI [OF R(2)]) (auto simp: sets(2))
        then show ?thesis using R(1) True Realloc Inr by simp
      qed
    next
      case False
      then show ?thesis using h weaken [OF h] Realloc by simp
    qed
  next
    case (Write k off b)
    show ?thesis
    proof (cases "k < length bs \<and> off < snd (bs ! k)")
      case True
      let ?p = "fst (bs ! k)"
      have "unat (of_nat (unat off) :: ptr) = unat off"
        using unat_u32_bound [of off] by (intro unat_of_nat_ptr) simp
      then have "unat (ucast off :: ptr) = unat off" by simp
      then have "unat (?p + ucast off - ?p) < unat (snd (bs ! k))" using True by (simp add: word_less_nat_alt)
      note W = write_ok [OF as(1) used this, where b = b, folded poke_def]
      have "holds (ex \<and> room_for c (bs, T)) bs (poke (?p + ucast off) b T)"
        using as W(2) True by (intro holdsI [OF W(1)]) (auto simp: poke_def)
      then show ?thesis using True Write by simp
    next
      case False
      then show ?thesis using h Write by auto
    qed
  qed
qed

lemma client_run_holds:
  assumes "holds ex bs T" "\<forall>c \<in> set cs. in_range c"
  shows "\<exists>bs' T'. client_run f g l cs (bs, T) = Inr (bs', T') \<and>
    holds (ex \<and> all_recorded f g l cs (bs, T)) bs' T'"
  using assms
proof (induction cs arbitrary: ex bs T)
  case Nil
  then show ?case by simp
next
  case (Cons c cs)
  then obtain bs1 T1 where step: "client_call f g l c (bs, T) = Inr (bs1, T1)"
      "holds (ex \<and> room_for c (bs, T)) bs1 T1"
    using client_call_step [of ex bs T c f g l] by auto
  from Cons.IH [OF step(2)] Cons.prems(2) show ?case using step(1) by (simp add: conj_assoc)
qed

lemma no_records_hold:
  assumes "raw_ok h"
  shows "holds True [] (no_records h)"
  using assms by (auto simp: holds_def tinv_def no_records_def chain_def intro!: exI [of _ "[]"])

section \<open>The properties\<close>

lemma load32_bytes:
  assumes "i < 4"
  shows "ucast (drop_bit (8 * i) (load32 m a)) = m (a + of_nat i)"
proof (rule bit_word_eqI)
  fix k
  assume "k < LENGTH(8)"
  then have k: "k < 8" by simp
  from assms consider "i = 0" | "i = 1" | "i = 2" | "i = 3" by fastforce
  then show "bit (ucast (drop_bit (8 * i) (load32 m a)) :: u8) k = bit (m (a + of_nat i)) k"
    using k by cases (auto simp: load32_def bit_simps dest: bit_imp_le_length)
qed

lemma load32_poke:
  assumes "i < 4" "m (a + of_nat i) \<noteq> v"
  shows "load32 (m(a + of_nat i := v)) a \<noteq> load32 m a"
  using load32_bytes [OF assms(1), of "m(a + of_nat i := v)" a] load32_bytes [OF assms(1), of m a] assms(2)
  by auto

lemma report_of:
  assumes "tinv X T as"
  shows "\<exists>es. cplus_mgr_report T = Inr (of_nat (length es), es) \<and>
    map (\<lambda>e. (ei_mem_ref e, ei_mem_size e)) es = entries T as"
proof -
  have "path (tk_nodes T) (tk_start T) as CPLUS_NULL" using assms by (simp add: tinv_def chain_def)
  from report_loop_path [OF this] show ?thesis
    by (simp add: cplus_mgr_report_def deref_def recorded_def comp_def)
qed

lemma run_holds:
  assumes "raw_ok h" "\<forall>c \<in> set cs. in_range c" "client_run f g l cs ([], no_records h) = Inr (bs, T)"
  shows "holds (all_recorded f g l cs ([], no_records h)) bs T"
  using client_run_holds [OF no_records_hold [OF assms(1)] assms(2), of f g l] assms(3) by auto

text \<open>
  C6. Starting without records, every sequence of allocations, reallocations (of less than \<open>2 ^ 32 - 8\<close>
  bytes: the two tags have to be counted in 32 bits), frees and writes inside the blocks runs without a failed check or a fault; \<open>cplus_mgr_report\<close> then returns the
  number of the records it prints, each of which is a block the client holds, and when no
  record could not be allocated the report is exactly the list of these blocks, oldest first.
\<close>

theorem memtrack_report_exact:
  assumes "raw_ok h" and "\<forall>c \<in> set cs. in_range c"
  shows "\<exists>bs T es. client_run f g l cs ([], no_records h) = Inr (bs, T) \<and>
    cplus_mgr_report T = Inr (of_nat (length es), es) \<and>
    set (map (\<lambda>e. (ei_mem_ref e, ei_mem_size e)) es) \<subseteq> set bs \<and>
    (all_recorded f g l cs ([], no_records h) \<longrightarrow> map (\<lambda>e. (ei_mem_ref e, ei_mem_size e)) es = bs)"
proof -
  obtain bs T where run: "client_run f g l cs ([], no_records h) = Inr (bs, T)"
      "holds (all_recorded f g l cs ([], no_records h)) bs T"
    using client_run_holds [OF no_records_hold [OF assms(1)] assms(2), of f g l] by auto
  from run(2) obtain as where "tinv {} T as" "set (entries T as) \<subseteq> set bs"
      "all_recorded f g l cs ([], no_records h) \<Longrightarrow> entries T as = bs"
    by (rule holdsE) blast
  moreover from report_of [OF this(1)] obtain es where
    "cplus_mgr_report T = Inr (of_nat (length es), es)"
    "map (\<lambda>e. (ei_mem_ref e, ei_mem_size e)) es = entries T as" by blast
  ultimately show ?thesis using run(1) by (intro exI [of _ bs] exI [of _ T] exI [of _ es]) simp
qed

text \<open>
  A byte written behind the end of a block, in the four bytes of its end tag, is found:
  \<open>cplus_mgr_check_boundary\<close> fails and freeing the block stops at the assertion.  Without such
  a write the block can be freed.
\<close>

theorem memtrack_overflow_found:
  assumes h: "raw_ok h" and fit: "all_recorded f g l cs ([], no_records h)" and cs: "\<forall>c \<in> set cs. in_range c"
    and run: "client_run f g l cs ([], no_records h) = Inr (bs, T)"
    and blk: "(p, n) \<in> set bs" and i: "i < 4" and v: "memory T (p + ucast n + of_nat i) \<noteq> v"
  shows "cplus_mgr_check_boundary p (poke (p + ucast n + of_nat i) v T) = Inr CPLUS_FAIL \<and>
    tracked_free p (poke (p + ucast n + of_nat i) v T) = Inl Assert_fail \<and>
    (\<exists>T2. tracked_free p T = Inr (Inr (), T2))"
proof -
  define T1 where "T1 = poke (p + ucast n + of_nat i) v T"
  from run_holds [OF h cs run] obtain as where as: "tinv {} T as" "distinct (map fst bs)"
      "in_use T p n" "entries T as = bs"
    using fit blk by (auto elim: holdsE)
  have p: "p \<noteq> CPLUS_NULL" using in_use_bounds(1) [OF _ as(3)] as(1) by (simp add: tinv_def)
  have "tagged (memory T) p n" using as(1,4) blk by (simp add: tinv_def)
  then have gone: "\<not> tagged (memory T1) p n"
    using load32_poke [of i "memory T" "p + ucast n" v] i v by (simp add: tagged_def T1_def poke_def)
  have "tinv UNIV T1 as" using as(1) by (simp add: tinv_def T1_def poke_def raw_ok_def in_use_def)
  moreover have "map_of (entries T1 as) p = Some n"
    using as(2,4) blk by (simp add: T1_def poke_def)
  ultimately have chk: "check_boundary (p - 4) T1 = Inr CPLUS_FAIL"
    using check_boundary_ok [of UNIV T1 as p] p gone by simp
  have "CPLUS_FAIL \<noteq> CPLUS_SUCCESS" by (simp add: CPLUS_FAIL_def CPLUS_SUCCESS_def)
  with chk have "cplus_mgr_check_boundary p T1 = Inr CPLUS_FAIL" "tracked_free p T1 = Inl Assert_fail"
    using p by (simp_all add: cplus_mgr_check_boundary_def tracked_free_def assert_success_def Let_def)
  moreover have "\<exists>T2. tracked_free p T = Inr (Inr (), T2)"
    using free_ok [OF as(1,3)] by metis
  ultimately show ?thesis by (simp add: T1_def)
qed

text \<open>
  A double free is not found: after a block has been freed the check of its address
  succeeds, and freeing it again passes the assertion and reaches the second \<^verbatim>\<open>free\<close>, whose
  behaviour is undefined.  (The test for \<open>CLRCHK\<close> comes only after the record, which the first
  free has erased, is found.)
\<close>

theorem memtrack_double_free_unnoticed:
  assumes h: "raw_ok h" and cs: "\<forall>c \<in> set cs. in_range c"
    and run: "client_run f g l cs ([], no_records h) = Inr (bs, T)" and blk: "(p, n) \<in> set bs"
  shows "\<exists>T1. tracked_free p T = Inr (Inr (), T1) \<and>
    cplus_mgr_check_boundary p T1 = Inr CPLUS_SUCCESS \<and> tracked_free p T1 = Inl Undefined"
proof -
  from run_holds [OF h cs run] obtain as where as: "tinv {} T as" "in_use T p n"
    using blk by (auto elim: holdsE)
  obtain T1 as1 where T1: "tracked_free p T = Inr (Inr (), T1)" "tinv {} T1 as1"
      "entries T1 as1 = filter (\<lambda>e. fst e \<noteq> p) (entries T as)"
      "p - 4 \<notin> fst ` set (rh_live (tk_heap T1))"
    by (rule free_ok [OF as]) (rule that)
  have rok: "raw_ok (tk_heap T)" using as(1) by (simp add: tinv_def)
  note p = in_use_bounds [OF rok as(2)]
  have gone: "p \<notin> fst ` set (entries T1 as1)" unfolding T1(3) by (rule not_recorded)
  then have "map_of (entries T1 as1) p = None" by (rule iffD2 [OF map_of_eq_None_iff])
  then have chk: "check_boundary (p - 4) T1 = Inr CPLUS_SUCCESS"
    using check_boundary_ok [OF T1(2) p(1)] by simp
  let ?T2 = "put32 (p - 4) CLRCHK T1"
  have "tinv UNIV ?T2 as1" using T1(2) by (simp add: tinv_def put32_def raw_ok_def in_use_def)
  moreover have "p \<notin> fst ` set (entries ?T2 as1)" using gone by (simp add: put32_def)
  ultimately have "erase_mem_info p ?T2 = Inr (Inr (), ?T2)" by (rule erase_absent [OF _ p(1)])
  moreover have "raw_free (p - 4) (tk_heap ?T2) = Inl Undefined"
    using p(2) T1(4) by (simp add: raw_free_def put32_def)
  ultimately have "tracked_free p T1 = Inl Undefined"
    using p(1) chk by (simp add: tracked_free_def assert_success_def Let_def)
  then show ?thesis using T1(1) chk p(1) by (simp add: cplus_mgr_check_boundary_def)
qed

text \<open>
  The size that \<open>cplus_mgr_realloc\<close> asks for has 32 bits: enlarging a block to
  \<open>2 ^ 32 - 8\<close> bytes asks \<^verbatim>\<open>realloc\<close> for 0 bytes, which frees the block, and frees it again.
\<close>

theorem memtrack_realloc_size_wraps:
  assumes h: "raw_ok h" and cs: "\<forall>c \<in> set cs. in_range c"
    and run: "client_run f g l cs ([], no_records h) = Inr (bs, T)" and blk: "(p, n) \<in> set bs"
  shows "tracked_realloc p 0xFFFFFFF8 (Some f) (Some g) l T = Inl Undefined"
proof -
  from run_holds [OF h cs run] obtain as where as: "tinv {} T as" "in_use T p n"
    using blk by (auto elim: holdsE)
  have rok: "raw_ok (tk_heap T)" using as(1) by (simp add: tinv_def)
  note p = in_use_bounds [OF rok as(2)]
  obtain T1 as1 where E: "erase_mem_info p T = Inr (Inr (), T1)" "tinv {} T1 as1"
      "entries T1 as1 = filter (\<lambda>e. fst e \<noteq> p) (entries T as)" "\<And>q k. in_use T1 q k = in_use T q k"
    by (rule erase_ok [OF tinv_weaken [OF as(1)] p(1)]) (rule that)
  have p1: "in_use T1 p n" "p \<notin> fst ` set (entries T1 as1)"
    using E(4) as(2) not_recorded unfolding E(3) by simp_all
  obtain h1 where h1: "raw_free (p - 4) (tk_heap T1) = Inr h1" "p - 4 \<notin> fst ` set (rh_live h1)"
    by (rule release_ok [OF E(2) p1]) (rule that)
  have live: "p - 4 \<in> fst ` set (rh_live (tk_heap T1))" using p1(1) by (force simp: in_use_def)
  then obtain k where "map_of (rh_live (tk_heap T1)) (p - 4) = Some k"
    by (cases "map_of (rh_live (tk_heap T1)) (p - 4)") (auto simp: map_of_eq_None_iff)
  then have "raw_realloc (p - 4) 0 (tk_heap T1) = Inr (CPLUS_NULL, h1)"
    using h1(1) by (simp add: raw_realloc_def)
  moreover have "raw_free (p - 4) h1 = Inl Undefined" using p(2) h1(2) by (simp add: raw_free_def)
  moreover have "\<exists>r. check_boundary (p - 4) T = Inr r \<and> assert_success r = Inr ()"
    using check_passes [OF as(1) p(1)] by (simp add: exec_bind_eq_Inr)
  ultimately show ?thesis using p(1) E(1) by (auto simp: tracked_realloc_def Let_def)
qed

section \<open>A concrete heap\<close>

text \<open>A heap with room for one block of 12 bytes and one record.\<close>

definition example_raw_heap :: raw_heap where
  "example_raw_heap = \<lparr>rh_live = [],
     rh_pick = (\<lambda>live n. if live = [] \<and> n = 12 then 0x1000
                         else if live = [(0x1000, 12)] \<and> n = 120 then 0x2000 else CPLUS_NULL),
     rh_touch = (\<lambda>live m. m), rh_mem = (\<lambda>x. 0)\<rparr>"

lemma example_regions: "region (0x2000 :: ptr) 120 \<inter> region 0x1000 12 = {}"
proof -
  have False if "i < 120" "j < 12" "(0x2000 :: ptr) + of_nat i = 0x1000 + of_nat j" for i j :: nat
  proof -
    have "(of_nat (0x2000 + i) :: ptr) = of_nat (0x1000 + j)" using that(3) by simp
    moreover have "unat (of_nat (0x2000 + i) :: ptr) = 0x2000 + i" using that by (intro unat_of_nat_ptr) simp
    moreover have "unat (of_nat (0x1000 + j) :: ptr) = 0x1000 + j" using that by (intro unat_of_nat_ptr) simp
    ultimately have "0x2000 + i = 0x1000 + j" by metis
    then show False using that by simp
  qed
  then show ?thesis unfolding region_def by blast
qed

lemma example_raw_ok: "raw_ok example_raw_heap"
proof -
  have "pick_law (rh_pick example_raw_heap)"
    unfolding pick_law_def example_raw_heap_def using example_regions by (auto split: if_splits)
  then show ?thesis by (simp add: raw_ok_def example_raw_heap_def touch_law_def disjoint_blocks_def)
qed

abbreviation example_calls :: "mem_call list" where "example_calls \<equiv> [Malloc 4, Write 0 2 7]"

lemmas example_run = example_raw_heap_def no_records_def tracked_malloc_def raw_malloc_def
  add_mem_info_def put_tags_def put32_def sizeof_extra_info_def Let_def

lemma example_client:
  "\<exists>T. client_run ''src/a.c'' ''main'' 10 example_calls ([], no_records example_raw_heap) = Inr ([(0x1004, 4)], T)"
  by (simp add: example_run)

lemma example_recorded:
  "all_recorded ''src/a.c'' ''main'' 10 example_calls ([], no_records example_raw_heap)"
  by (simp add: example_run record_room_def)

theorem memtrack_report_exact_witness:
  "\<exists>T es. client_run ''src/a.c'' ''main'' 10 example_calls ([], no_records example_raw_heap) =
       Inr ([(0x1004, 4)], T) \<and>
     cplus_mgr_report T = Inr (1, es) \<and> map (\<lambda>e. (ei_mem_ref e, ei_mem_size e)) es = [(0x1004, 4)]"
proof -
  have calls: "\<forall>c \<in> set example_calls. in_range c" by simp
  obtain bs T es where run:
    "client_run ''src/a.c'' ''main'' 10 example_calls ([], no_records example_raw_heap) = Inr (bs, T)"
    and rep: "cplus_mgr_report T = Inr (of_nat (length es), es)"
    and all: "all_recorded ''src/a.c'' ''main'' 10 example_calls ([], no_records example_raw_heap) \<longrightarrow>
      map (\<lambda>e. (ei_mem_ref e, ei_mem_size e)) es = bs"
    using memtrack_report_exact [OF example_raw_ok calls, of "''src/a.c''" "''main''" 10] by blast
  note all = all [rule_format, OF example_recorded]
  have bs: "bs = [(0x1004, 4)]" using example_client unfolding run by simp
  have "length es = length bs" using all by (metis length_map)
  then have "cplus_mgr_report T = Inr (1, es)" using rep bs by simp
  with run all show ?thesis unfolding bs by (intro exI conjI)
qed

theorem memtrack_overflow_found_witness:
  "\<exists>T. client_run ''src/a.c'' ''main'' 10 example_calls ([], no_records example_raw_heap) =
       Inr ([(0x1004, 4)], T) \<and>
     tracked_free 0x1004 (poke 0x1008 0 T) = Inl Assert_fail"
proof -
  obtain T where run: "client_run ''src/a.c'' ''main'' 10 example_calls ([], no_records example_raw_heap) =
      Inr ([(0x1004, 4)], T)"
    using example_client by blast
  have "memory T 0x1008 \<noteq> 0"
    using run by (auto simp: example_run store32_def poke_def ENDCHK_def)
  then have "cplus_mgr_check_boundary 0x1004 (poke (0x1004 + ucast (4 :: u32) + of_nat 0) 0 T) = Inr CPLUS_FAIL \<and>
      tracked_free 0x1004 (poke (0x1004 + ucast (4 :: u32) + of_nat 0) 0 T) = Inl Assert_fail \<and>
      (\<exists>T2. tracked_free 0x1004 T = Inr (Inr (), T2))"
    by (intro memtrack_overflow_found [OF example_raw_ok example_recorded _ run]) auto
  then show ?thesis using run by simp
qed

theorem memtrack_double_free_unnoticed_witness:
  "\<exists>T T1. client_run ''src/a.c'' ''main'' 10 example_calls ([], no_records example_raw_heap) =
       Inr ([(0x1004, 4)], T) \<and> tracked_free 0x1004 T = Inr (Inr (), T1) \<and>
     tracked_free 0x1004 T1 = Inl Undefined"
proof -
  obtain T where run: "client_run ''src/a.c'' ''main'' 10 example_calls ([], no_records example_raw_heap) =
      Inr ([(0x1004, 4)], T)"
    using example_client by blast
  have "\<exists>T1. tracked_free 0x1004 T = Inr (Inr (), T1) \<and>
      cplus_mgr_check_boundary 0x1004 T1 = Inr CPLUS_SUCCESS \<and> tracked_free 0x1004 T1 = Inl Undefined"
    by (rule memtrack_double_free_unnoticed [OF example_raw_ok _ run, where n = 4]) auto
  then show ?thesis using run by blast
qed

theorem memtrack_realloc_size_wraps_witness:
  "\<exists>T. client_run ''src/a.c'' ''main'' 10 example_calls ([], no_records example_raw_heap) =
       Inr ([(0x1004, 4)], T) \<and>
     tracked_realloc 0x1004 0xFFFFFFF8 (Some ''src/a.c'') (Some ''main'') 10 T = Inl Undefined"
proof -
  obtain T where run: "client_run ''src/a.c'' ''main'' 10 example_calls ([], no_records example_raw_heap) =
      Inr ([(0x1004, 4)], T)"
    using example_client by blast
  have "tracked_realloc 0x1004 0xFFFFFFF8 (Some ''src/a.c'') (Some ''main'') 10 T = Inl Undefined"
    by (rule memtrack_realloc_size_wraps [OF example_raw_ok _ run, where n = 4]) auto
  then show ?thesis using run by blast
qed

end
