(* ===== verification/Keyed_Props.thy ===== *)
theory Keyed_Props
  imports Keyed
begin

text \<open>
  The keyed list functions of \<^verbatim>\<open>src/llist.c\<close> implement a finite map on text keys, kept in the
  order of insertion; and \<open>cplus_llist_update_data\<close> on a key that is present does not.
\<close>

section \<open>Allocation\<close>

text \<open>A heap that can hold \<open>N\<close> blocks.\<close>

definition heap_holds :: "nat \<Rightarrow> mheap \<Rightarrow> bool" where
  "heap_holds N h \<longleftrightarrow> mheap_inv h \<and> (\<forall>used. length used < N \<longrightarrow> mh_pick h used \<noteq> CPLUS_NULL)"

lemma malloc_some:
  assumes "heap_holds N h" "length (mh_live h) < N"
  obtains a where "cplus_mgr_malloc h = (Inr a, h\<lparr>mh_live := a # mh_live h\<rparr>)"
    "a \<noteq> CPLUS_NULL" "a \<notin> set (mh_live h)" "heap_holds N (h\<lparr>mh_live := a # mh_live h\<rparr>)"
proof -
  let ?a = "mh_pick h (mh_live h)"
  have "mheap_inv h" "?a \<noteq> CPLUS_NULL" using assms by (auto simp: heap_holds_def)
  moreover from this have "cplus_mgr_malloc h = (Inr ?a, h\<lparr>mh_live := ?a # mh_live h\<rparr>)"
    by (simp add: cplus_mgr_malloc_def Let_def)
  moreover from calculation have "?a \<notin> set (mh_live h)" by (auto simp: mheap_inv_def malloc_law_def)
  moreover have "heap_holds N (h\<lparr>mh_live := ?a # mh_live h\<rparr>)"
    using assms(1) calculation(2) by (auto simp: heap_holds_def mheap_inv_def)
  ultimately show ?thesis by (intro that)
qed



section \<open>Adding\<close>


lemma list_all2_mem:
  "list_all2 P (map f xs) ys \<Longrightarrow> list_all2 (\<lambda>d e. d \<in> f ` set xs \<and> P d e) (map f xs) ys"
  by (auto simp: list_all2_conv_all_nth)

lemma put_entry:
  assumes rep: "krep_at K es kvs" and m: "m < length es"
    and dt: "holds_entry (Some dt) (k, v)"
  shows "krep_at (K\<lparr>kl_objs := (kl_objs K)(snd (es ! m) \<mapsto> dt)\<rparr>) es (kvs[m := (k, v)])"
proof -
  note D = krep_atD [OF rep]
  have "holds_entry (((kl_objs K)(snd (es ! m) \<mapsto> dt)) (snd (es ! i))) (kvs[m := (k, v)] ! i)"
    if i: "i < length es" for i
  proof (cases "i = m")
    case True
    then show ?thesis using dt m D(10) by simp
  next
    case False
    then have "snd (es ! i) \<noteq> snd (es ! m)" using D(4) i m by (simp add: distinct_conv_nth)
    then show ?thesis using entry_of [OF rep i] False by simp
  qed
  then have "list_all2 (\<lambda>d e. holds_entry (((kl_objs K)(snd (es ! m) \<mapsto> dt)) d) e) (map snd es) (kvs[m := (k, v)])"
    unfolding list_all2_conv_all_nth using D(10) by simp
  then show ?thesis using D(1-6) by (simp add: krep_at_def)
qed


text \<open>An object of the heap becomes the last element.\<close>

lemma append_entry:
  assumes rep: "krep_at K es kvs"
    and d: "d \<noteq> CPLUS_NULL" "d \<notin> fst ` set es" "d \<notin> snd ` set es" "d \<in> set (mh_live (ls_heap (kl_list K)))"
      "holds_entry (kl_objs K d) e"
    and heap: "heap_holds N (ls_heap (kl_list K))" "length (mh_live (ls_heap (kl_list K))) < N" "N < 2 ^ 31"
  obtains L n where "cplus_llist_push_back (kl_list K) d = Some (Inr (), L)"
    "krep_at (K\<lparr>kl_list := L\<rparr>) (es @ [(n, d)]) (kvs @ [e])" "heap_holds N (ls_heap L)"
    "length (mh_live (ls_heap L)) = length (mh_live (ls_heap (kl_list K))) + 1"
proof -
  note D = krep_atD [OF rep]
  let ?h = "ls_heap (kl_list K)"
  obtain n where n: "cplus_mgr_malloc ?h = (Inr n, ?h\<lparr>mh_live := n # mh_live ?h\<rparr>)"
      "n \<notin> set (mh_live ?h)" "heap_holds N (?h\<lparr>mh_live := n # mh_live ?h\<rparr>)"
    using malloc_some [OF heap(1,2)] by auto
  have alloc: "store_alloc (store_of (kl_list K)) = (Inr n, (None, ?h\<lparr>mh_live := n # mh_live ?h\<rparr>))"
    using D(3) n(1) by (simp add: store_alloc_def store_of_def)
  have "length es = card (fst ` set es)" using lrepD(2) [OF D(1)] by (metis distinct_card length_map set_map)
  also have "\<dots> \<le> card (set (mh_live ?h))" using D(9) by (simp add: card_mono)
  also have "\<dots> \<le> length (mh_live ?h)" by (rule card_length)
  finally have short: "length es < 2 ^ 31 - 1" using heap(2,3) by simp
  have cur: "cur_ok (kl_list K) es" using D(2) by (simp add: synced_def)
  obtain L where L: "cplus_llist_push_at (kl_list K) (int (length es)) d = Some (Inr (), L)"
      "lrep L (es @ [(n, d)])" "store_of L = (None, ?h\<lparr>mh_live := n # mh_live ?h\<rparr>)"
      "synced L (es @ [(n, d)])"
    using llist_push_at_step [OF D(1) cur d(1) order.refl short] alloc
    by (auto simp: insert_at_def cursor_safe_def)
  have push: "cplus_llist_push_back (kl_list K) d = Some (Inr (), L)"
    using L(1) count_simps(3) [OF D(1)] by (simp add: cplus_llist_push_back_def)
  have store: "ls_pool L = None" "ls_heap L = ?h\<lparr>mh_live := n # mh_live ?h\<rparr>"
    using L(3) by (simp_all add: store_of_def)
  have fresh: "n \<notin> snd ` set es" "n \<noteq> d" using n(2) D(5) d(4) by auto
  have "list_all2 (\<lambda>d e. holds_entry (kl_objs K d) e) (map snd es @ [d]) (kvs @ [e])"
    using D(7) d(5) by (intro list_all2_appendI) simp_all
  then have "krep_at (K\<lparr>kl_list := L\<rparr>) (es @ [(n, d)]) (kvs @ [e])"
    using L(2,4) store D(4,5,6) d(2,3,4) fresh by (auto simp: krep_at_def)
  then show ?thesis using push n(3) by (intro that [of L n]) (simp_all add: store(2))
qed


section \<open>Removing\<close>

lemma remove_at_image:
  assumes "distinct (map f xs)" "m < length xs"
  shows "f ` set (remove_at m xs) = f ` set xs - {f (xs ! m)}" "distinct (map f (remove_at m xs))"
proof -
  have xs: "map f xs = map f (take m xs) @ f (xs ! m) # map f (drop (Suc m) xs)"
    using arg_cong [OF id_take_nth_drop [OF assms(2)], of "map f"] by simp
  have "distinct (map f (take m xs) @ f (xs ! m) # map f (drop (Suc m) xs))" using assms(1) xs by simp
  then show "f ` set (remove_at m xs) = f ` set xs - {f (xs ! m)}" "distinct (map f (remove_at m xs))"
    using arg_cong [OF xs, of set] by (auto simp: remove_at_def)
qed

lemma remove_at_sub: "set (remove_at m xs) \<subseteq> set xs"
  by (auto simp: remove_at_def dest: in_set_takeD in_set_dropD)

lemma list_all2_remove_at: "list_all2 P xs ys \<Longrightarrow> list_all2 P (remove_at m xs) (remove_at m ys)"
  unfolding remove_at_def by (intro list_all2_appendI list_all2_takeI list_all2_dropI)

lemma remove_found:
  assumes rep: "krep_at K es kvs" and q: "0 \<notin> set q" and m: "first_match (\<lambda>e. fst e = q) kvs = Some m"
  shows "\<exists>K'. cplus_llist_remove_data K (Some (q @ [0])) = Some (Inr (), K') \<and>
    krep_at K' (remove_at m es) (remove_at m kvs) \<and>
    ls_heap (kl_list K') = cplus_mgr_free (cplus_mgr_free (ls_heap (kl_list K)) (fst (es ! m))) (snd (es ! m))"
proof -
  note D = krep_atD [OF rep]
  let ?n = "fst (es ! m)" and ?d = "snd (es ! m)" and ?es = "remove_at m es"
  have len: "m < length es" using m D(10) by (simp add: first_match_Some)
  obtain L where L: "cplus_llist_pop_if (kl_list K) (key_matcher (kl_objs K) (Some (q @ [0]))) = Some (Inr ?d, L)"
      "lrep L ?es" "store_of L = store_free (store_of (kl_list K)) ?n" "synced L ?es"
    using pop_if_at [OF D(1), of "key_matcher (kl_objs K) (Some (q @ [0]))"] key_scan [OF rep q] m len by auto
  let ?h1 = "cplus_mgr_free (ls_heap (kl_list K)) ?n"
  have store: "ls_pool L = None" "ls_heap L = ?h1"
    using L(3) D(3) by (simp_all add: store_of_def store_free_def)
  let ?K = "delete_object ?d (K\<lparr>kl_list := L\<rparr>)"
  have nn: "?d \<noteq> CPLUS_NULL" using lrepD(4) [OF D(1)] len by (metis image_eqI nth_mem)
  have step: "cplus_llist_remove_data K (Some (q @ [0])) = Some (Inr (), ?K)"
    using L(1) found_returns [OF rep q len] nn
    by (simp add: cplus_llist_remove_data_def pop_by_key_def)
  have dist: "distinct (map fst es)" by (rule lrepD(2) [OF D(1)])
  note R = remove_at_image [OF D(4) len] remove_at_image(1) [OF dist len]
  have "es ! m \<in> set es" using len by simp
  then have "?n \<in> fst ` set es" "?d \<in> snd ` set es" by (rule imageI)+
  then have nodes: "?n \<notin> snd ` set es" "?d \<notin> fst ` set es" using D(6) by blast+
  have live: "set (mh_live (cplus_mgr_free ?h1 ?d)) \<supseteq> set (mh_live (ls_heap (kl_list K))) - {?n, ?d}"
    by (auto simp: cplus_mgr_free_def)
  have "mheap_inv (cplus_mgr_free ?h1 ?d)" using D(8) by (auto simp: mheap_inv_def cplus_mgr_free_def)
  moreover have "fst ` set ?es \<subseteq> set (mh_live (cplus_mgr_free ?h1 ?d))"
  proof (rule subset_trans [OF _ live])
    show "fst ` set ?es \<subseteq> set (mh_live (ls_heap (kl_list K))) - {?n, ?d}"
      unfolding R(3) using D(9) nodes(2) by blast
  qed
  ultimately have H: "lrep (L\<lparr>ls_heap := cplus_mgr_free ?h1 ?d\<rparr>) ?es"
      "synced (L\<lparr>ls_heap := cplus_mgr_free ?h1 ?d\<rparr>) ?es"
    using lrep_heap [OF L(2) store(1)] L(4) by blast+
  have "list_all2 (\<lambda>d e. holds_entry (((kl_objs K)(?d := None)) d) e) (map snd ?es) (remove_at m kvs)"
  proof -
    have "list_all2 (\<lambda>d e. d \<in> snd ` set ?es \<and> holds_entry (kl_objs K d) e) (map snd ?es) (remove_at m kvs)"
      using list_all2_remove_at [OF D(7), of m] unfolding map_remove_at [symmetric] by (rule list_all2_mem)
    then show ?thesis
    proof (rule list_all2_mono)
      fix d e
      assume d: "d \<in> snd ` set ?es \<and> holds_entry (kl_objs K d) e"
      then have "d \<noteq> ?d" using R(1) by blast
      then show "holds_entry (((kl_objs K)(?d := None)) d) e" using d by simp
    qed
  qed
  moreover have "snd ` set ?es \<subseteq> set (mh_live (cplus_mgr_free ?h1 ?d))"
  proof (rule subset_trans [OF _ live])
    show "snd ` set ?es \<subseteq> set (mh_live (ls_heap (kl_list K))) - {?n, ?d}"
      unfolding R(1) using D(5) nodes(1) by blast
  qed
  moreover have "fst ` set ?es \<inter> snd ` set ?es = {}" using D(6) remove_at_sub [of m es] by blast
  ultimately have "krep_at ?K ?es (remove_at m kvs)"
    using H R(2) store by (simp add: krep_at_def delete_object_def)
  then show ?thesis using step store(2) by (auto simp: delete_object_def)
qed


section \<open>Sequences of calls\<close>


definition value_at :: "keyed \<Rightarrow> ptr \<Rightarrow> data_value option" where
  "value_at K d = (if d = CPLUS_NULL then None else map_option dt_value (kl_objs K d))"











text \<open>A heap of twenty blocks, for the examples.\<close>

definition first_free :: "ptr list \<Rightarrow> ptr list \<Rightarrow> ptr" where
  "first_free blocks used = (case filter (\<lambda>a. a \<notin> set used) blocks of [] \<Rightarrow> CPLUS_NULL | a # _ \<Rightarrow> a)"

lemma first_free_holds:
  assumes "distinct blocks" "CPLUS_NULL \<notin> set blocks" "CPLUS_NULL \<notin> set live"
  shows "heap_holds (length blocks) \<lparr>mh_live = live, mh_pick = first_free blocks\<rparr>"
proof -
  have found: "first_free blocks used \<in> set blocks - set used"
    if "filter (\<lambda>a. a \<notin> set used) blocks \<noteq> []" for used
  proof -
    from that obtain a as where a: "filter (\<lambda>a. a \<notin> set used) blocks = a # as"
      by (cases "filter (\<lambda>a. a \<notin> set used) blocks") auto
    have "a \<in> set (filter (\<lambda>a. a \<notin> set used) blocks)" unfolding a by simp
    then have "a \<in> set blocks - set used" by simp
    then show ?thesis unfolding first_free_def a by simp
  qed
  have some: "filter (\<lambda>a. a \<notin> set used) blocks \<noteq> []" if short: "length used < length blocks" for used
  proof
    assume "filter (\<lambda>a. a \<notin> set used) blocks = []"
    then have "set blocks \<subseteq> set used" by (auto simp: filter_empty_conv)
    then have "card (set blocks) \<le> card (set used)" by (simp add: card_mono)
    also have "\<dots> \<le> length used" by (rule card_length)
    finally show False using short assms(1) by (simp add: distinct_card)
  qed
  have "first_free blocks used \<noteq> CPLUS_NULL" if "length used < length blocks" for used
    using found [OF some [OF that]] assms(2) by (metis DiffD1)
  moreover have "malloc_law (first_free blocks)"
    unfolding malloc_law_def
  proof
    fix used
    show "first_free blocks used = CPLUS_NULL \<or> first_free blocks used \<notin> set used"
      using found [of used] by (cases "filter (\<lambda>a. a \<notin> set used) blocks = []") (simp_all add: first_free_def)
  qed
  ultimately show ?thesis using assms(3) by (simp add: heap_holds_def mheap_inv_def)
qed

definition example_blocks :: "ptr list" where
  "example_blocks = [64, 72, 80, 88, 96, 104, 112, 120, 128, 136, 144, 152]"

definition example_map_heap :: "ptr list \<Rightarrow> mheap" where
  "example_map_heap live = \<lparr>mh_live = live, mh_pick = first_free example_blocks\<rparr>"

lemma example_blocks: "distinct example_blocks" "CPLUS_NULL \<notin> set example_blocks" "length example_blocks = 12"
  by (simp_all add: example_blocks_def)

lemma example_map_heap_holds:
  "CPLUS_NULL \<notin> set live \<Longrightarrow> heap_holds 12 (example_map_heap live)"
  using first_free_holds [of example_blocks live] example_blocks by (simp add: example_map_heap_def)



text \<open>
  \<open>cplus_llist_update_data\<close> on a key that is present updates the element and then also
  appends the given object under the same key: the key is there twice, and after
  \<open>cplus_llist_remove_data\<close> has removed it \<open>cplus_llist_find_data\<close> still finds it.
\<close>

theorem keyed_update_leaves_duplicate:
  assumes rep: "krep_at K es kvs" and k: "key_ok k" and here: "map_of kvs k = Some v"
    and d: "kl_objs K d = Some dt" "d \<noteq> CPLUS_NULL" "d \<notin> fst ` set es" "d \<notin> snd ` set es"
      "d \<in> set (mh_live (ls_heap (kl_list K)))"
    and dt: "type_of (dt_value dt) = type_of v" "dt_key dt = None" "dt_key_len dt = 0" "\<not> dt_locked dt"
    and uniq: "distinct (map fst kvs)" and ak: "allocates ak"
    and heap: "heap_holds N (ls_heap (kl_list K))" "length (mh_live (ls_heap (kl_list K))) < N" "N < 2 ^ 31"
  shows "\<exists>K1 K2 K3. cplus_llist_update_data al ak K (Some (k @ [0])) d = Some (d, K1) \<and>
    cplus_llist_remove_data K1 (Some (k @ [0])) = Some (Inr (), K2) \<and>
    cplus_llist_find_data K2 (Some (k @ [0])) = Some (d, K3) \<and> value_at K3 d = Some (dt_value dt)"
proof -
  have q: "0 \<notin> set k" using k by (simp add: key_ok_def)
  have "first_match (\<lambda>e. fst e = k) kvs \<noteq> None" using imageI [OF map_of_SomeD [OF here], of fst] unfolding absent_key by simp
  then obtain m where m: "first_match (\<lambda>e. fst e = k) kvs = Some m" by blast
  have len: "m < length es" "m < length kvs" using m krep_atD(10) [OF rep] by (simp_all add: first_match_Some)
  have v: "snd (kvs ! m) = v" "fst (kvs ! m) = k" using map_of_found [OF m] here m by (auto simp: first_match_Some)
  let ?t = "snd (es ! m)"
  have t: "?t \<noteq> d" "?t \<noteq> CPLUS_NULL"
    using d(4) len(1) lrepD(4) [OF krep_atD(1) [OF rep]] by auto
  obtain L where L: "get_by_key K (Some (k @ [0])) = Some (?t, K\<lparr>kl_list := L\<rparr>)"
      "krep_at (K\<lparr>kl_list := L\<rparr>) es kvs" "ls_heap L = ls_heap (kl_list K)"
    using get_by_key_step [OF rep q] m by auto
  obtain dest s where dest: "kl_objs K ?t = Some dest" "dt_key dest = Some (k @ 0 # s)" "\<not> dt_locked dest"
      "dt_value dest = v" "0 < scalar_size (type_of v)"
    using entry_of [OF rep len(1)] v by (auto simp: holds_entry_def)
  let ?dest = "dest\<lparr>dt_value := dt_value dt\<rparr>"
  have clone: "cplus_data_clone_value al dest dt = Inr (Inr (), ?dest)"
    using dest(4,5) dt(1) by (cases "dt_value dt"; cases v) (simp_all add: cplus_data_clone_value_def)
  obtain dt' where dt': "cplus_data_set_key ak dt (of_nat (length k)) (Some (k @ [0])) = Inr (Inr (), dt')"
      "dt_key dt' = Some (k @ [0])" "\<not> dt_locked dt'" "dt_value dt' = dt_value dt"
    using set_key_fresh [OF k ak dt(2-4)] by blast
  let ?K1 = "K\<lparr>kl_list := L, kl_objs := (kl_objs K)(?t \<mapsto> ?dest)\<rparr>"
  let ?K2 = "K\<lparr>kl_list := L, kl_objs := (kl_objs K)(?t \<mapsto> ?dest, d \<mapsto> dt')\<rparr>"
  have "holds_entry (Some ?dest) (k, dt_value dt)"
    using dest dt(1) q by (simp add: holds_entry_def)
  from put_entry [OF L(2) len(1) this]
  have rep1: "krep_at ?K1 es (kvs[m := (k, dt_value dt)])" by simp
  have rep2: "krep_at ?K2 es (kvs[m := (k, dt_value dt)])"
  proof -
    have "list_all2 (\<lambda>x e. holds_entry (kl_objs ?K2 x) e) (map snd es) (kvs[m := (k, dt_value dt)])"
      using list_all2_mem [OF krep_atD(7) [OF rep1]]
    proof (rule list_all2_mono)
      fix x e
      assume x: "x \<in> snd ` set es \<and> holds_entry (kl_objs ?K1 x) e"
      then have "x \<noteq> d" using d(4) by blast
      then show "holds_entry (kl_objs ?K2 x) e" using x by simp
    qed
    then show ?thesis using rep1 by (simp add: krep_at_def)
  qed
  have hd: "holds_entry (kl_objs ?K2 d) (k, dt_value dt)"
    using dt'(2-4) q dt(1) dest(5) by (simp add: holds_entry_def)
  have heap2: "d \<in> set (mh_live (ls_heap (kl_list ?K2)))" "heap_holds N (ls_heap (kl_list ?K2))"
      "length (mh_live (ls_heap (kl_list ?K2))) < N"
    using d(5) heap L(3) by simp_all
  obtain L3 n where A: "cplus_llist_push_back L d = Some (Inr (), L3)"
      "krep_at (?K2\<lparr>kl_list := L3\<rparr>) (es @ [(n, d)]) (kvs[m := (k, dt_value dt)] @ [(k, dt_value dt)])"
    by (rule append_entry [OF rep2 d(2-4) heap2(1) hd heap2(2,3) heap(3)]) (rule that, simp_all)
  let ?K3 = "?K2\<lparr>kl_list := L3\<rparr>"
  have upd: "cplus_llist_update_data al ak K (Some (k @ [0])) d = Some (d, ?K3)"
    using d(1,2) L(1) t dest(1) clone dt'(1) A(1) c_str_terminated [OF q, of "[]"]
    by (simp add: cplus_llist_update_data_def cplus_data_check_def Let_def)
  let ?kvs = "kvs[m := (k, dt_value dt)] @ [(k, dt_value dt)]"
  have m3: "first_match (\<lambda>e. fst e = k) ?kvs = Some m"
    using m len(2) by (auto simp: first_match_Some nth_append nth_list_update)
  from remove_found [OF A(2) q m3] obtain K4 where K4:
    "cplus_llist_remove_data ?K3 (Some (k @ [0])) = Some (Inr (), K4)"
    "krep_at K4 (remove_at m (es @ [(n, d)])) (remove_at m ?kvs)"
    by blast
  have rest: "remove_at m ?kvs = remove_at m kvs @ [(k, dt_value dt)]"
      "remove_at m (es @ [(n, d)]) = remove_at m es @ [(n, d)]"
    using len by (simp_all add: remove_at_def)
  have gone: "\<forall>e \<in> set (remove_at m kvs). fst e \<noteq> k"
    using remove_at_image(1) [OF uniq len(2)] v(2) by blast
  have lens: "length (remove_at m kvs) = length (remove_at m es)"
    using krep_atD(10) [OF rep] by (simp add: remove_at_def)
  have m4: "first_match (\<lambda>e. fst e = k) (remove_at m kvs @ [(k, dt_value dt)]) = Some (length (remove_at m es))"
    using gone lens by (auto simp: first_match_Some nth_append)
  obtain L5 where L5: "get_by_key K4 (Some (k @ [0])) = Some (d, K4\<lparr>kl_list := L5\<rparr>)"
    using get_by_key_step [OF K4(2) q] m4 by (auto simp: rest)
  have "holds_entry (kl_objs K4 d) (k, dt_value dt)"
    using entry_of [OF K4(2), of "length (remove_at m es)"] lens by (simp add: rest nth_append)
  then have "value_at (K4\<lparr>kl_list := L5\<rparr>) d = Some (dt_value dt)"
    using d(2) by (auto simp: value_at_def holds_entry_def)
  then show ?thesis using upd K4(1) L5 by (auto simp: cplus_llist_find_data_def)
qed

definition example_object :: "buf \<Rightarrow> u8 \<Rightarrow> data" where
  "example_object key n = \<lparr>dt_is_valid = True, dt_action_mode = 0, dt_key_len = 0, dt_key = key,
     dt_locked = False, dt_str_code = 0, dt_bufs_size = 0, dt_value = Val_u8 n\<rparr>"

definition example_keyed :: keyed where
  "example_keyed = \<lparr>kl_list = \<lparr>ls_obj = 8, ls_count = 1, ls_sort_count = 0, ls_cur_index = 0, ls_pool = None,
       ls_pool_obj = CPLUS_NULL, ls_lock = CPLUS_NULL, ls_head = 16, ls_tail = 16, ls_current = Cell_head,
       ls_nodes = [16 \<mapsto> \<lparr>nd_data = 24, nd_prev = 0, nd_next = 0\<rparr>],
       ls_heap = example_map_heap [8, 16, 24, 32]\<rparr>,
     kl_objs = [24 \<mapsto> example_object (Some [97, 0]) 1, 32 \<mapsto> example_object None 2]\<rparr>"

lemma keyed_update_leaves_duplicate_witness:
  "\<exists>K1 K2 K3. cplus_llist_update_data (\<lambda>_. None) (\<lambda>n. Some (\<lambda>_. 0)) example_keyed (Some [97, 0]) 32 = Some (32, K1) \<and>
    cplus_llist_remove_data K1 (Some [97, 0]) = Some (Inr (), K2) \<and>
    cplus_llist_find_data K2 (Some [97, 0]) = Some (32, K3) \<and> value_at K3 32 = Some (Val_u8 2)"
proof -
  have holds: "heap_holds 12 (ls_heap (kl_list example_keyed))"
    using example_map_heap_holds by (simp add: example_keyed_def)
  have inv: "mheap_inv (example_map_heap [8, 16, 24, 32])"
    using example_map_heap_holds [of "[8, 16, 24, 32]"] by (simp add: heap_holds_def)
  have "synced (kl_list example_keyed) [(16, 24)]"
    by (rule at_head_synced) (simp add: at_head_def example_keyed_def)
  moreover have "lrep (kl_list example_keyed) [(16, 24)]"
    using inv by (simp add: lrep_def example_keyed_def store_of_def store_ok_def store_live_def)
      (simp add: example_map_heap_def)
  ultimately have rep: "krep_at example_keyed [(16, 24)] [([97], Val_u8 1)]"
    by (simp add: krep_at_def) (simp add: example_keyed_def example_map_heap_def holds_entry_def example_object_def)
  show ?thesis
    using keyed_update_leaves_duplicate [OF rep _ _ _ _ _ _ _ _ _ _ _ _ _ holds, of "[97]" "Val_u8 1" 32
        "example_object None 2" "\<lambda>n. Some (\<lambda>_. 0)" "\<lambda>_. None"]
    by (simp add: key_ok_def RSIZE_MAX_MEM_def allocates_def example_keyed_def example_object_def
        example_map_heap_def)
qed

end
