(* ===== verification/Rwlock.thy ===== *)
theory Rwlock
  imports Prelude
begin

text \<open>
  The reader-writer lock of \<^verbatim>\<open>src/rwlock.c\<close> in use: \<^verbatim>\<open>cplus_rwlock_rdlock\<close>,
  \<^verbatim>\<open>cplus_rwlock_wrlock\<close> and \<^verbatim>\<open>cplus_rwlock_unlock\<close>, first as whole calls, then step by step
  for any number of threads.  The object wraps a \<^verbatim>\<open>pthread_rwlock_t\<close>, whose state is its
  writer and its readers, and keeps books of its own, \<open>st_locked\<close> and \<open>count_rdlocked\<close>, which
  it changes after the \<^verbatim>\<open>pthread\<close> call has returned.
\<close>

section \<open>The POSIX lock\<close>

record posix_rwlock =
  px_writer :: "nat option"
  px_readers :: "nat list"

definition px_free :: "posix_rwlock \<Rightarrow> bool" where
  "px_free l \<longleftrightarrow> px_writer l = None \<and> px_readers l = []"

definition px_wrlock :: "nat \<Rightarrow> posix_rwlock \<Rightarrow> posix_rwlock" where
  "px_wrlock t l = l\<lparr>px_writer := Some t\<rparr>"

definition px_rdlock :: "nat \<Rightarrow> posix_rwlock \<Rightarrow> posix_rwlock" where
  "px_rdlock t l = l\<lparr>px_readers := t # px_readers l\<rparr>"

text \<open>Unlocking a lock that the thread does not hold is undefined.\<close>

definition px_holds :: "nat \<Rightarrow> posix_rwlock \<Rightarrow> bool" where
  "px_holds t l \<longleftrightarrow> px_writer l = Some t \<or> t \<in> set (px_readers l)"

definition px_unlock :: "nat \<Rightarrow> posix_rwlock \<Rightarrow> posix_rwlock" where
  "px_unlock t l = (if px_writer l = Some t then l\<lparr>px_writer := None\<rparr>
     else l\<lparr>px_readers := remove1 t (px_readers l)\<rparr>)"

section \<open>Whole calls\<close>

record rwlock =
  rw_lock :: posix_rwlock
  rw_st_locked :: bool
  rw_count_rdlocked :: u32

definition rw_new :: rwlock where
  "rw_new = \<lparr>rw_lock = \<lparr>px_writer = None, px_readers = []\<rparr>, rw_st_locked = False, rw_count_rdlocked = 0\<rparr>"

text \<open>
  \<open>None\<close>: the call waits.  While another thread holds the lock, a call with a time limit fails
  with \<open>ETIMEDOUT\<close>; for the writer itself glibc reports \<open>EDEADLK\<close>.
\<close>

definition cplus_rwlock_wrlock :: "nat \<Rightarrow> u32 \<Rightarrow> rwlock \<Rightarrow> (unit cresult \<times> rwlock) option" where
  "cplus_rwlock_wrlock t timeout lock =
     (let l = rw_lock lock in
      if px_free l then Some (Inr (), lock\<lparr>rw_lock := px_wrlock t l, rw_st_locked := True\<rparr>)
      else if timeout = CPLUS_INFINITE_TIMEOUT then
        (if px_writer l = Some t then Some (Inl EDEADLK, lock) else None)
      else if timeout = 0 then Some (Inl EBUSY, lock)
      else Some (Inl (if px_writer l = Some t then EDEADLK else ETIMEDOUT), lock))"

definition cplus_rwlock_rdlock :: "nat \<Rightarrow> u32 \<Rightarrow> rwlock \<Rightarrow> (unit cresult \<times> rwlock) option" where
  "cplus_rwlock_rdlock t timeout lock =
     (let l = rw_lock lock in
      if px_writer l = None then Some (Inr (), lock\<lparr>rw_lock := px_rdlock t l, rw_st_locked := True,
          rw_count_rdlocked := rw_count_rdlocked lock + 1\<rparr>)
      else if timeout = CPLUS_INFINITE_TIMEOUT then
        (if px_writer l = Some t then Some (Inl EDEADLK, lock) else None)
      else if timeout = 0 then Some (Inl EBUSY, lock)
      else Some (Inl (if px_writer l = Some t then EDEADLK else ETIMEDOUT), lock))"

definition cplus_rwlock_unlock :: "nat \<Rightarrow> rwlock \<Rightarrow> (unit cresult \<times> rwlock) exec" where
  "cplus_rwlock_unlock t lock =
     (if rw_st_locked lock then
        if \<not> px_holds t (rw_lock lock) then Inl Undefined
        else let lock1 = lock\<lparr>rw_lock := px_unlock t (rw_lock lock)\<rparr>;
          lock2 = (if rw_count_rdlocked lock1 = 0 then lock1\<lparr>rw_st_locked := False\<rparr>
            else let lock3 = lock1\<lparr>rw_count_rdlocked := rw_count_rdlocked lock1 - 1\<rparr>
              in if rw_count_rdlocked lock3 = 0 then lock3\<lparr>rw_st_locked := False\<rparr> else lock3)
          in Inr (Inr (), lock2)
      else Inr (Inl ENONE, lock))"

text \<open>One call after the other, by threads that unlock only what they hold.\<close>

datatype rw_call = Wrlock nat u32 | Rdlock nat u32 | Unlock nat

fun rw_exec :: "rw_call \<Rightarrow> rwlock \<Rightarrow> (unit cresult \<times> rwlock) option" where
  "rw_exec (Wrlock t w) lock = cplus_rwlock_wrlock t w lock"
| "rw_exec (Rdlock t w) lock = cplus_rwlock_rdlock t w lock"
| "rw_exec (Unlock t) lock =
     (case cplus_rwlock_unlock t lock of Inl e \<Rightarrow> None | Inr x \<Rightarrow> Some x)"

text \<open>The books are exact.\<close>

definition books :: "rwlock \<Rightarrow> bool" where
  "books lock \<longleftrightarrow> (rw_st_locked lock \<longleftrightarrow> \<not> px_free (rw_lock lock)) \<and>
     rw_count_rdlocked lock = of_nat (length (px_readers (rw_lock lock))) \<and>
     length (px_readers (rw_lock lock)) < 2 ^ 32 \<and>
     (px_writer (rw_lock lock) \<noteq> None \<longrightarrow> px_readers (rw_lock lock) = [])"

lemma rw_new_books: "books rw_new"
  by (simp add: books_def rw_new_def px_free_def)

lemma wrlock_books:
  "\<lbrakk>books lock; cplus_rwlock_wrlock t w lock = Some (r, lock')\<rbrakk> \<Longrightarrow> books lock'"
  by (auto simp: cplus_rwlock_wrlock_def books_def px_free_def px_wrlock_def Let_def split: if_splits)

lemma rdlock_books:
  "\<lbrakk>books lock; length (px_readers (rw_lock lock)) < 2 ^ 32 - 1; cplus_rwlock_rdlock t w lock = Some (r, lock')\<rbrakk> \<Longrightarrow>
   books lock' \<and> length (px_readers (rw_lock lock')) \<le> Suc (length (px_readers (rw_lock lock)))"
  by (auto simp: cplus_rwlock_rdlock_def books_def px_free_def px_rdlock_def Let_def split: if_splits)

lemma unlock_books:
  assumes b: "books lock" and t: "px_holds t (rw_lock lock)"
  shows "\<exists>lock'. cplus_rwlock_unlock t lock = Inr (Inr (), lock') \<and> rw_lock lock' = px_unlock t (rw_lock lock) \<and> books lock'"
proof -
  have st: "rw_st_locked lock" using b t by (auto simp: books_def px_free_def px_holds_def)
  show ?thesis
  proof (cases "px_writer (rw_lock lock)")
    case (Some u)
    then have "u = t" "px_readers (rw_lock lock) = []" "rw_count_rdlocked lock = 0"
      using b t by (auto simp: books_def px_holds_def)
    then show ?thesis using b st t Some
      by (simp add: cplus_rwlock_unlock_def books_def px_unlock_def px_free_def)
  next
    case None
    let ?n = "length (px_readers (rw_lock lock))"
    have t': "t \<in> set (px_readers (rw_lock lock))" using t None by (simp add: px_holds_def)
    then obtain m where m: "?n = Suc m" by (cases "px_readers (rw_lock lock)") auto
    then have n: "m < 2 ^ 32 - 1" "rw_count_rdlocked lock = of_nat (Suc m)" using b by (simp_all add: books_def)
    let ?c = "rw_count_rdlocked lock"
    have c: "?c \<noteq> 0" "?c - 1 = of_nat m" "?c = 1 \<longleftrightarrow> m = 0"
      and z: "(of_nat m :: u32) = 0 \<longleftrightarrow> m = 0"
      using n(1) of_nat_u32_inject [of "Suc m" 0] of_nat_u32_inject [of "Suc m" 1] of_nat_u32_inject [of m 0]
      unfolding n(2) by simp_all
    have len: "length (remove1 t (px_readers (rw_lock lock))) = m" using t' m by (simp add: length_remove1)
    then have "remove1 t (px_readers (rw_lock lock)) = [] \<longleftrightarrow> m = 0" by auto
    then show ?thesis using st t None n(1) c z len b
      by (simp add: cplus_rwlock_unlock_def books_def px_unlock_def px_free_def Let_def del: length_0_conv)
  qed
qed

section \<open>Threads\<close>

text \<open>
  A thread between the \<^verbatim>\<open>pthread\<close> call and the end of the library's function: \<open>Wr_got\<close>,
  \<open>Rd_got\<close> have the lock and not written \<open>st_locked\<close> yet, \<open>Rd_marked\<close> has, \<open>Rd_loaded\<close> has
  read the count it will increment; \<open>Un_checked\<close> has found \<open>st_locked\<close> set, \<open>Un_done\<close> has
  given the lock back, \<open>Un_counted\<close> has seen a count other than zero, \<open>Un_loaded\<close> has read the
  count it will decrement, \<open>Un_stored\<close> has written it, and \<open>Un_clear\<close> is about to clear
  \<open>st_locked\<close>.
\<close>

datatype rw_pc = Idle | Wr_got | Rd_got | Rd_marked | Rd_loaded u32 | Writing | Reading
  | Un_checked | Un_done | Un_counted | Un_loaded u32 | Un_stored | Un_clear

record rw_sys =
  sy_lock :: rwlock
  sy_pc :: "nat \<Rightarrow> rw_pc"

definition rw_at :: "rw_sys \<Rightarrow> nat \<Rightarrow> rw_pc \<Rightarrow> rwlock \<Rightarrow> rw_sys" where
  "rw_at s t pc lock = s\<lparr>sy_lock := lock, sy_pc := (sy_pc s)(t := pc)\<rparr>"

inductive rw_step :: "rw_sys \<Rightarrow> rw_sys \<Rightarrow> bool" where
  wrlock: "\<lbrakk>sy_pc s t = Idle; px_free (rw_lock (sy_lock s))\<rbrakk> \<Longrightarrow>
    rw_step s (rw_at s t Wr_got ((sy_lock s)\<lparr>rw_lock := px_wrlock t (rw_lock (sy_lock s))\<rparr>))"
| wr_mark: "sy_pc s t = Wr_got \<Longrightarrow> rw_step s (rw_at s t Writing ((sy_lock s)\<lparr>rw_st_locked := True\<rparr>))"
| rdlock: "\<lbrakk>sy_pc s t = Idle; px_writer (rw_lock (sy_lock s)) = None\<rbrakk> \<Longrightarrow>
    rw_step s (rw_at s t Rd_got ((sy_lock s)\<lparr>rw_lock := px_rdlock t (rw_lock (sy_lock s))\<rparr>))"
| rd_mark: "sy_pc s t = Rd_got \<Longrightarrow> rw_step s (rw_at s t Rd_marked ((sy_lock s)\<lparr>rw_st_locked := True\<rparr>))"
| rd_load: "sy_pc s t = Rd_marked \<Longrightarrow>
    rw_step s (rw_at s t (Rd_loaded (rw_count_rdlocked (sy_lock s))) (sy_lock s))"
| rd_store: "sy_pc s t = Rd_loaded c \<Longrightarrow>
    rw_step s (rw_at s t Reading ((sy_lock s)\<lparr>rw_count_rdlocked := c + 1\<rparr>))"
| un_check: "\<lbrakk>sy_pc s t = Writing \<or> sy_pc s t = Reading; rw_st_locked (sy_lock s)\<rbrakk> \<Longrightarrow>
    rw_step s (rw_at s t Un_checked (sy_lock s))"
| un_refused: "\<lbrakk>sy_pc s t = Writing \<or> sy_pc s t = Reading; \<not> rw_st_locked (sy_lock s)\<rbrakk> \<Longrightarrow> rw_step s s"
| un_unlock: "\<lbrakk>sy_pc s t = Un_checked; px_holds t (rw_lock (sy_lock s))\<rbrakk> \<Longrightarrow>
    rw_step s (rw_at s t Un_done ((sy_lock s)\<lparr>rw_lock := px_unlock t (rw_lock (sy_lock s))\<rparr>))"
| un_zero: "\<lbrakk>sy_pc s t = Un_done; rw_count_rdlocked (sy_lock s) = 0\<rbrakk> \<Longrightarrow> rw_step s (rw_at s t Un_clear (sy_lock s))"
| un_count: "\<lbrakk>sy_pc s t = Un_done; rw_count_rdlocked (sy_lock s) \<noteq> 0\<rbrakk> \<Longrightarrow> rw_step s (rw_at s t Un_counted (sy_lock s))"
| un_load: "sy_pc s t = Un_counted \<Longrightarrow>
    rw_step s (rw_at s t (Un_loaded (rw_count_rdlocked (sy_lock s))) (sy_lock s))"
| un_store: "sy_pc s t = Un_loaded c \<Longrightarrow>
    rw_step s (rw_at s t Un_stored ((sy_lock s)\<lparr>rw_count_rdlocked := c - 1\<rparr>))"
| un_last: "\<lbrakk>sy_pc s t = Un_stored; rw_count_rdlocked (sy_lock s) = 0\<rbrakk> \<Longrightarrow> rw_step s (rw_at s t Un_clear (sy_lock s))"
| un_more: "\<lbrakk>sy_pc s t = Un_stored; rw_count_rdlocked (sy_lock s) \<noteq> 0\<rbrakk> \<Longrightarrow> rw_step s (rw_at s t Idle (sy_lock s))"
| un_clear: "sy_pc s t = Un_clear \<Longrightarrow> rw_step s (rw_at s t Idle ((sy_lock s)\<lparr>rw_st_locked := False\<rparr>))"

definition rw_start :: rw_sys where
  "rw_start = \<lparr>sy_lock = rw_new, sy_pc = (\<lambda>t. Idle)\<rparr>"

section \<open>Exclusion\<close>

definition holds_write :: "rw_pc \<Rightarrow> bool" where
  "holds_write pc \<longleftrightarrow> pc = Wr_got \<or> pc = Writing"

definition holds_read :: "rw_pc \<Rightarrow> bool" where
  "holds_read pc \<longleftrightarrow> pc = Rd_got \<or> pc = Rd_marked \<or> (\<exists>c. pc = Rd_loaded c) \<or> pc = Reading"

text \<open>A thread is counted by the POSIX lock exactly while its program counter says that it holds it.\<close>

definition thread_ok :: "posix_rwlock \<Rightarrow> nat \<Rightarrow> rw_pc \<Rightarrow> bool" where
  "thread_ok l t pc \<longleftrightarrow>
     (holds_write pc \<longrightarrow> px_writer l = Some t) \<and> (holds_read pc \<longrightarrow> t \<in> set (px_readers l)) \<and>
     (pc = Un_checked \<longrightarrow> px_holds t l) \<and>
     (px_holds t l \<longrightarrow> holds_write pc \<or> holds_read pc \<or> pc = Un_checked)"

definition lock_ok :: "posix_rwlock \<Rightarrow> bool" where
  "lock_ok l \<longleftrightarrow> (px_writer l \<noteq> None \<longrightarrow> px_readers l = []) \<and> distinct (px_readers l)"

definition rw_inv :: "rw_sys \<Rightarrow> bool" where
  "rw_inv s \<longleftrightarrow> lock_ok (rw_lock (sy_lock s)) \<and> (\<forall>t. thread_ok (rw_lock (sy_lock s)) t (sy_pc s t))"

text \<open>A step that does not change what the other threads hold.\<close>

definition same_for :: "nat \<Rightarrow> posix_rwlock \<Rightarrow> posix_rwlock \<Rightarrow> bool" where
  "same_for u l l' \<longleftrightarrow> (px_writer l' = Some u \<longleftrightarrow> px_writer l = Some u) \<and>
     (u \<in> set (px_readers l') \<longleftrightarrow> u \<in> set (px_readers l))"

lemma rw_inv_at:
  assumes "rw_inv s" "lock_ok (rw_lock lock)" "\<And>u. u \<noteq> t \<Longrightarrow> same_for u (rw_lock (sy_lock s)) (rw_lock lock)"
    "thread_ok (rw_lock lock) t pc"
  shows "rw_inv (rw_at s t pc lock)"
proof -
  have "thread_ok (rw_lock lock) u (sy_pc s u)" if "u \<noteq> t" for u
    using assms(1) assms(3) [OF that] by (auto simp: rw_inv_def thread_ok_def same_for_def px_holds_def)
  then show ?thesis using assms(2,4) by (simp add: rw_inv_def rw_at_def)
qed

lemma rw_inv_books:
  assumes "sy_pc s t = pc0" "rw_inv s" "rw_lock lock = rw_lock (sy_lock s)" "\<And>l. thread_ok l t pc0 \<Longrightarrow> thread_ok l t pc"
  shows "rw_inv (rw_at s t pc lock)"
proof (rule rw_inv_at [OF assms(2)])
  show "lock_ok (rw_lock lock)" using assms(2,3) by (simp add: rw_inv_def)
  show "same_for u (rw_lock (sy_lock s)) (rw_lock lock)" for u using assms(3) by (simp add: same_for_def)
  have "thread_ok (rw_lock (sy_lock s)) t pc0" using assms(1,2) by (auto simp: rw_inv_def)
  then show "thread_ok (rw_lock lock) t pc" using assms(3,4) by simp
qed

lemma rw_invD: "rw_inv s \<Longrightarrow> lock_ok (rw_lock (sy_lock s))" "rw_inv s \<Longrightarrow> thread_ok (rw_lock (sy_lock s)) t (sy_pc s t)"
  by (simp_all add: rw_inv_def)

lemma rw_inv_start: "rw_inv rw_start"
  by (simp add: rw_inv_def rw_start_def rw_new_def lock_ok_def thread_ok_def holds_write_def holds_read_def px_holds_def)

lemma thread_ok_simps [simp]:
  "thread_ok l t Idle \<longleftrightarrow> \<not> px_holds t l"
  "thread_ok l t Wr_got \<longleftrightarrow> px_writer l = Some t" "thread_ok l t Writing \<longleftrightarrow> px_writer l = Some t"
  "thread_ok l t Rd_got \<longleftrightarrow> t \<in> set (px_readers l)" "thread_ok l t Rd_marked \<longleftrightarrow> t \<in> set (px_readers l)"
  "thread_ok l t (Rd_loaded c) \<longleftrightarrow> t \<in> set (px_readers l)" "thread_ok l t Reading \<longleftrightarrow> t \<in> set (px_readers l)"
  "thread_ok l t Un_checked \<longleftrightarrow> px_holds t l"
  "thread_ok l t Un_done \<longleftrightarrow> \<not> px_holds t l" "thread_ok l t Un_counted \<longleftrightarrow> \<not> px_holds t l"
  "thread_ok l t (Un_loaded c) \<longleftrightarrow> \<not> px_holds t l" "thread_ok l t Un_stored \<longleftrightarrow> \<not> px_holds t l"
  "thread_ok l t Un_clear \<longleftrightarrow> \<not> px_holds t l"
  by (auto simp: thread_ok_def holds_write_def holds_read_def px_holds_def)

lemma rw_inv_step: "\<lbrakk>rw_step s s'; rw_inv s\<rbrakk> \<Longrightarrow> rw_inv s'"
proof (induction rule: rw_step.induct)
  case (wrlock s t)
  then show ?case
    by (intro rw_inv_at)
      (auto simp: px_wrlock_def px_free_def px_holds_def lock_ok_def same_for_def)
next
  case (rdlock s t)
  then have "t \<notin> set (px_readers (rw_lock (sy_lock s)))"
    using rw_invD(2) [OF rdlock(3), of t] by (simp add: px_holds_def)
  then show ?case using rdlock rw_invD(1) [OF rdlock(3)]
    by (intro rw_inv_at)
      (auto simp: px_rdlock_def px_holds_def lock_ok_def same_for_def)
next
  case (un_unlock s t)
  then show ?case using rw_invD(1) [OF un_unlock(3)]
    by (intro rw_inv_at)
      (auto simp: px_unlock_def px_holds_def lock_ok_def same_for_def)
next
  case (un_refused s t)
  then show ?case by simp
next
  case (un_check s t)
  then show ?case by (intro rw_inv_books [OF refl]) (auto simp: px_holds_def)
qed (rule rw_inv_books, assumption, assumption, simp, simp)+

lemma rw_inv_reach: "rw_step\<^sup>*\<^sup>* rw_start s \<Longrightarrow> rw_inv s"
  by (induction rule: rtranclp_induct) (simp_all add: rw_inv_start rw_inv_step)

text \<open>A thread that is not interrupted does what the whole call does.\<close>

lemma rw_at_again [simp]: "rw_at (rw_at s t pc lock) t pc' lock' = rw_at s t pc' lock'"
  by (simp add: rw_at_def)

lemma rw_at_fields [simp]: "sy_pc (rw_at s t pc lock) t = pc" "sy_lock (rw_at s t pc lock) = lock"
  by (simp_all add: rw_at_def)

lemma wrlock_alone:
  assumes "sy_pc s t = Idle" "cplus_rwlock_wrlock t w (sy_lock s) = Some (Inr (), lock)"
  shows "rw_step\<^sup>*\<^sup>* s (rw_at s t Writing lock)"
proof -
  let ?l = "(sy_lock s)\<lparr>rw_lock := px_wrlock t (rw_lock (sy_lock s))\<rparr>"
  have l: "px_free (rw_lock (sy_lock s))" "lock = ?l\<lparr>rw_st_locked := True\<rparr>"
    using assms(2) by (auto simp: cplus_rwlock_wrlock_def Let_def split: if_splits)
  have "rw_step s (rw_at s t Wr_got ?l)" using assms(1) l(1) by (rule rw_step.wrlock)
  moreover have "rw_step (rw_at s t Wr_got ?l) (rw_at s t Writing lock)"
    using rw_step.wr_mark [of "rw_at s t Wr_got ?l" t] l(2) by simp
  ultimately show ?thesis by (meson converse_rtranclp_into_rtranclp r_into_rtranclp)
qed

lemma unlock_alone:
  assumes "sy_pc s t = Writing \<or> sy_pc s t = Reading" "rw_st_locked (sy_lock s)"
    and call: "cplus_rwlock_unlock t (sy_lock s) = Inr (Inr (), lock)"
  shows "rw_step\<^sup>*\<^sup>* s (rw_at s t Idle lock)"
proof -
  let ?l = "(sy_lock s)\<lparr>rw_lock := px_unlock t (rw_lock (sy_lock s))\<rparr>"
  have h: "px_holds t (rw_lock (sy_lock s))"
    using call assms(2) by (auto simp: cplus_rwlock_unlock_def split: if_splits)
  have "rw_step s (rw_at s t Un_checked (sy_lock s))" using assms(1,2) by (rule rw_step.un_check)
  moreover have "rw_step (rw_at s t Un_checked (sy_lock s)) (rw_at s t Un_done ?l)"
    using rw_step.un_unlock [of "rw_at s t Un_checked (sy_lock s)" t] h by simp
  ultimately have start: "rw_step\<^sup>*\<^sup>* s (rw_at s t Un_done ?l)"
    by (meson converse_rtranclp_into_rtranclp r_into_rtranclp)
  have clear: "rw_step (rw_at s t Un_clear k) (rw_at s t Idle (k\<lparr>rw_st_locked := False\<rparr>))" for k
    using rw_step.un_clear [of "rw_at s t Un_clear k" t] by simp
  show ?thesis
  proof (cases "rw_count_rdlocked (sy_lock s) = 0")
    case True
    then have "rw_step (rw_at s t Un_done ?l) (rw_at s t Un_clear ?l)"
      using rw_step.un_zero [of "rw_at s t Un_done ?l" t] by simp
    moreover have "lock = ?l\<lparr>rw_st_locked := False\<rparr>" using call assms(2) h True by (simp add: cplus_rwlock_unlock_def Let_def)
    ultimately show ?thesis using start clear [of ?l] by (meson rtranclp.rtrancl_into_rtrancl)
  next
    case False
    let ?m = "?l\<lparr>rw_count_rdlocked := rw_count_rdlocked ?l - 1\<rparr>"
    have "rw_step (rw_at s t Un_done ?l) (rw_at s t Un_counted ?l)"
      using rw_step.un_count [of "rw_at s t Un_done ?l" t] False by simp
    moreover have "rw_step (rw_at s t Un_counted ?l) (rw_at s t (Un_loaded (rw_count_rdlocked ?l)) ?l)"
      using rw_step.un_load [of "rw_at s t Un_counted ?l" t] by simp
    moreover have "rw_step (rw_at s t (Un_loaded (rw_count_rdlocked ?l)) ?l) (rw_at s t Un_stored ?m)"
      using rw_step.un_store [of "rw_at s t (Un_loaded (rw_count_rdlocked ?l)) ?l" t] by simp
    ultimately have more: "rw_step\<^sup>*\<^sup>* s (rw_at s t Un_stored ?m)"
      using start by (meson rtranclp.rtrancl_into_rtrancl)
    show ?thesis
    proof (cases "rw_count_rdlocked ?m = 0")
      case True
      then have "rw_step (rw_at s t Un_stored ?m) (rw_at s t Un_clear ?m)"
        using rw_step.un_last [of "rw_at s t Un_stored ?m" t] by simp
      moreover have "lock = ?m\<lparr>rw_st_locked := False\<rparr>"
        using call assms(2) h False True by (simp add: cplus_rwlock_unlock_def Let_def)
      ultimately show ?thesis using more clear [of ?m] by (meson rtranclp.rtrancl_into_rtrancl)
    next
      case c: False
      then have "rw_step (rw_at s t Un_stored ?m) (rw_at s t Idle ?m)"
        using rw_step.un_more [of "rw_at s t Un_stored ?m" t] by simp
      moreover have "lock = ?m" using call assms(2) h False c by (simp add: cplus_rwlock_unlock_def Let_def)
      ultimately show ?thesis using more by (meson rtranclp.rtrancl_into_rtrancl)
    qed
  qed
qed

section \<open>Properties\<close>

text \<open>
  C36. In every interleaving the lock keeps writers apart from each other and from the readers:
  while a thread has it for writing, no other thread has it.
\<close>

theorem rwlock_exclusion:
  assumes "rw_step\<^sup>*\<^sup>* rw_start s" "holds_write (sy_pc s t)" "holds_write (sy_pc s u) \<or> holds_read (sy_pc s u)"
  shows "u = t"
proof -
  have inv: "rw_inv s" by (rule rw_inv_reach [OF assms(1)])
  have t: "px_writer (rw_lock (sy_lock s)) = Some t"
    using rw_invD(2) [OF inv, of t] assms(2) by (auto simp: thread_ok_def)
  then have "px_readers (rw_lock (sy_lock s)) = []" using rw_invD(1) [OF inv] by (simp add: lock_ok_def)
  then show ?thesis using rw_invD(2) [OF inv, of u] assms(3) t by (auto simp: thread_ok_def)
qed

lemma rwlock_exclusion_witness:
  "\<exists>s. rw_step\<^sup>*\<^sup>* rw_start s \<and> sy_pc s 3 = Writing \<and> \<not> holds_read (sy_pc s 4)"
proof -
  obtain lock where "cplus_rwlock_wrlock 3 0 (sy_lock rw_start) = Some (Inr (), lock)"
    by (simp add: cplus_rwlock_wrlock_def rw_start_def rw_new_def px_free_def)
  from wrlock_alone [OF _ this] have run: "rw_step\<^sup>*\<^sup>* rw_start (rw_at rw_start 3 Writing lock)"
    by (simp add: rw_start_def)
  from rwlock_exclusion [OF run, of 3 4] have "\<not> holds_read (sy_pc (rw_at rw_start 3 Writing lock) 4)"
    by (auto simp: holds_write_def)
  then show ?thesis using run by (intro exI [of _ "rw_at rw_start 3 Writing lock"]) simp
qed

text \<open>
  Calls that do not overlap are those of a POSIX lock without books.  An unlock by a thread that
  does not hold the lock is refused when the lock is free and undefined otherwise.
\<close>

definition px_exec :: "rw_call \<Rightarrow> posix_rwlock \<Rightarrow> (unit cresult \<times> posix_rwlock) option" where
  "px_exec c l = (case c of
     Wrlock t w \<Rightarrow> if px_free l then Some (Inr (), px_wrlock t l)
       else if px_writer l = Some t then Some (Inl (if w = 0 then EBUSY else EDEADLK), l)
       else if w = CPLUS_INFINITE_TIMEOUT then None else Some (Inl (if w = 0 then EBUSY else ETIMEDOUT), l)
   | Rdlock t w \<Rightarrow> if px_writer l = None then Some (Inr (), px_rdlock t l)
       else if px_writer l = Some t then Some (Inl (if w = 0 then EBUSY else EDEADLK), l)
       else if w = CPLUS_INFINITE_TIMEOUT then None else Some (Inl (if w = 0 then EBUSY else ETIMEDOUT), l)
   | Unlock t \<Rightarrow> if px_holds t l then Some (Inr (), px_unlock t l)
       else if px_free l then Some (Inl ENONE, l) else None)"

fun run_calls :: "(rw_call \<Rightarrow> 's \<Rightarrow> (unit cresult \<times> 's) option) \<Rightarrow> rw_call list \<Rightarrow> 's \<Rightarrow> (unit cresult list \<times> 's) option" where
  "run_calls f [] s = Some ([], s)"
| "run_calls f (c # cs) s = do {
     (r, s1) \<leftarrow> f c s;
     (rs, s2) \<leftarrow> run_calls f cs s1;
     Some (r # rs, s2) }"

lemma rw_exec_refines:
  assumes b: "books lock" and room: "length (px_readers (rw_lock lock)) < 2 ^ 32 - 1"
  shows "map_option (\<lambda>(r, k). (r, rw_lock k)) (rw_exec c lock) = px_exec c (rw_lock lock)"
    and "rw_exec c lock = Some (r, lock') \<Longrightarrow> books lock' \<and>
      length (px_readers (rw_lock lock')) \<le> Suc (length (px_readers (rw_lock lock)))"
proof -
  have unheld: "cplus_rwlock_unlock t lock = (if px_free (rw_lock lock) then Inr (Inl ENONE, lock) else Inl Undefined)"
    if "\<not> px_holds t (rw_lock lock)" for t
    using b that by (auto simp: cplus_rwlock_unlock_def books_def)
  show "map_option (\<lambda>(r, k). (r, rw_lock k)) (rw_exec c lock) = px_exec c (rw_lock lock)"
  proof (cases c)
    case (Unlock t)
    then show ?thesis using unheld [of t] unlock_books [OF b, of t] by (auto simp: px_exec_def)
  qed (auto simp: px_exec_def cplus_rwlock_wrlock_def cplus_rwlock_rdlock_def Let_def CPLUS_INFINITE_TIMEOUT_def)
  show "books lock' \<and> length (px_readers (rw_lock lock')) \<le> Suc (length (px_readers (rw_lock lock)))"
    if run: "rw_exec c lock = Some (r, lock')"
  proof (cases c)
    case (Wrlock t w)
    then show ?thesis using run wrlock_books [OF b] b
      by (auto simp: cplus_rwlock_wrlock_def px_wrlock_def Let_def split: if_splits)
  next
    case (Rdlock t w)
    then show ?thesis using run rdlock_books [OF b room] by simp
  next
    case (Unlock t)
    show ?thesis
    proof (cases "px_holds t (rw_lock lock)")
      case True
      then show ?thesis using unlock_books [OF b True] run Unlock
        by (auto simp: px_unlock_def length_remove1)
    next
      case False
      then show ?thesis using unheld [OF False] run Unlock b by (auto split: if_splits)
    qed
  qed
qed

lemma run_calls_refines:
  "\<lbrakk>books lock; length (px_readers (rw_lock lock)) + length cs < 2 ^ 32\<rbrakk> \<Longrightarrow>
   map_option (\<lambda>(rs, k). (rs, rw_lock k)) (run_calls rw_exec cs lock) = run_calls px_exec cs (rw_lock lock)"
proof (induction cs arbitrary: lock)
  case Nil
  then show ?case by simp
next
  case (Cons c cs)
  have room: "length (px_readers (rw_lock lock)) < 2 ^ 32 - 1" using Cons.prems by simp
  note R = rw_exec_refines [OF Cons.prems(1) room]
  show ?case
  proof (cases "rw_exec c lock")
    case None
    then have "px_exec c (rw_lock lock) = None" using R(1) [of c] by simp
    then show ?thesis using None by simp
  next
    case (Some x)
    obtain r lock' where x: "x = (r, lock')" by force
    have step: "px_exec c (rw_lock lock) = Some (r, rw_lock lock')" using R(1) [of c] Some x by simp
    have "books lock'" "length (px_readers (rw_lock lock')) + length cs < 2 ^ 32"
      using R(2) [OF Some [unfolded x]] Cons.prems(2) by auto
    note ih = Cons.IH [OF this, symmetric]
    show ?thesis using Some x step by (cases "run_calls rw_exec cs lock'") (simp_all add: ih split_def)
  qed
qed

text \<open>
  C35. Calls that follow one another, by any threads and with any time limits, behave as those
  of a POSIX reader-writer lock: the results and the state of the lock are the same, so the
  books of the object never refuse an unlock that is due.
\<close>

theorem rwlock_calls_refine_posix:
  assumes "length cs < 2 ^ 32"
  shows "map_option (\<lambda>(rs, k). (rs, rw_lock k)) (run_calls rw_exec cs rw_new) =
    run_calls px_exec cs \<lparr>px_writer = None, px_readers = []\<rparr>"
  using run_calls_refines [OF rw_new_books, of cs] assms by (simp add: rw_new_def)

lemma rwlock_calls_refine_posix_witness:
  "\<exists>k. run_calls rw_exec [Rdlock 1 0, Rdlock 2 0, Wrlock 3 0, Unlock 1, Unlock 2, Wrlock 3 0, Unlock 3] rw_new =
     Some ([Inr (), Inr (), Inl EBUSY, Inr (), Inr (), Inr (), Inr ()], k)"
proof -
  let ?cs = "[Rdlock 1 0, Rdlock 2 0, Wrlock 3 0, Unlock 1, Unlock 2, Wrlock 3 0, Unlock 3]"
  have "run_calls px_exec ?cs \<lparr>px_writer = None, px_readers = []\<rparr> =
      Some ([Inr (), Inr (), Inl EBUSY, Inr (), Inr (), Inr (), Inr ()], \<lparr>px_writer = None, px_readers = []\<rparr>)"
    by (simp add: px_exec_def px_free_def px_rdlock_def px_wrlock_def px_holds_def px_unlock_def CPLUS_INFINITE_TIMEOUT_def)
  then have "map_option (\<lambda>(rs, k). (rs, rw_lock k)) (run_calls rw_exec ?cs rw_new) =
      Some ([Inr (), Inr (), Inl EBUSY, Inr (), Inr (), Inr (), Inr ()], \<lparr>px_writer = None, px_readers = []\<rparr>)"
    using rwlock_calls_refine_posix [of ?cs] by (simp del: run_calls.simps)
  then show ?thesis by (auto simp: map_option_eq_Some simp del: run_calls.simps)
qed

text \<open>Thread 1 has the lock and the object says that it is not locked.\<close>

definition stranded :: rw_sys where
  "stranded = \<lparr>sy_lock = \<lparr>rw_lock = \<lparr>px_writer = Some 1, px_readers = []\<rparr>, rw_st_locked = False,
     rw_count_rdlocked = 0\<rparr>, sy_pc = (\<lambda>t. Idle)(1 := Writing)\<rparr>"

lemma stranded_stays: "rw_step stranded s \<Longrightarrow> s = stranded"
  by (erule rw_step.cases) (auto simp: stranded_def px_free_def split: if_splits)

definition two_writers :: "rw_pc \<Rightarrow> rw_pc \<Rightarrow> nat option \<Rightarrow> bool \<Rightarrow> rw_sys" where
  "two_writers a b w m = \<lparr>sy_lock = \<lparr>rw_lock = \<lparr>px_writer = w, px_readers = []\<rparr>, rw_st_locked = m, rw_count_rdlocked = 0\<rparr>,
     sy_pc = (\<lambda>t. if t = 0 then a else if t = 1 then b else Idle)\<rparr>"

lemma two_writers_fields [simp]:
  "sy_pc (two_writers a b w m) 0 = a" "sy_pc (two_writers a b w m) (Suc 0) = b"
  "rw_lock (sy_lock (two_writers a b w m)) = \<lparr>px_writer = w, px_readers = []\<rparr>"
  "rw_st_locked (sy_lock (two_writers a b w m)) = m" "rw_count_rdlocked (sy_lock (two_writers a b w m)) = 0"
  by (simp_all add: two_writers_def)

lemma rw_at_two_writers [simp]:
  "rw_at (two_writers a b w m) 0 c (sy_lock (two_writers a b w m)) = two_writers c b w m"
  "rw_at (two_writers a b w m) 0 c ((sy_lock (two_writers a b w m))\<lparr>rw_lock := \<lparr>px_writer = w', px_readers = []\<rparr>\<rparr>) = two_writers c b w' m"
  "rw_at (two_writers a b w m) 0 c ((sy_lock (two_writers a b w m))\<lparr>rw_st_locked := m'\<rparr>) = two_writers c b w m'"
  "rw_at (two_writers a b w m) (Suc 0) c ((sy_lock (two_writers a b w m))\<lparr>rw_lock := \<lparr>px_writer = w', px_readers = []\<rparr>\<rparr>) = two_writers a c w' m"
  "rw_at (two_writers a b w m) (Suc 0) c ((sy_lock (two_writers a b w m))\<lparr>rw_st_locked := m'\<rparr>) = two_writers a c w m'"
  by (auto simp: two_writers_def rw_at_def fun_eq_iff)

lemma stranded_reachable: "rw_step\<^sup>*\<^sup>* rw_start stranded"
proof -
  have "rw_start = two_writers Idle Idle None False"
    by (simp add: rw_start_def rw_new_def two_writers_def fun_eq_iff)
  moreover have "rw_step (two_writers Idle Idle None False) (two_writers Wr_got Idle (Some 0) False)"
    using rw_step.wrlock [of "two_writers Idle Idle None False" 0] by (simp add: px_free_def px_wrlock_def)
  moreover have "rw_step (two_writers Wr_got Idle (Some 0) False) (two_writers Writing Idle (Some 0) True)"
    using rw_step.wr_mark [of "two_writers Wr_got Idle (Some 0) False" 0] by simp
  moreover have "rw_step (two_writers Writing Idle (Some 0) True) (two_writers Un_checked Idle (Some 0) True)"
    using rw_step.un_check [of "two_writers Writing Idle (Some 0) True" 0] by simp
  moreover have "rw_step (two_writers Un_checked Idle (Some 0) True) (two_writers Un_done Idle None True)"
    using rw_step.un_unlock [of "two_writers Un_checked Idle (Some 0) True" 0] by (simp add: px_holds_def px_unlock_def)
  moreover have "rw_step (two_writers Un_done Idle None True) (two_writers Un_done Wr_got (Some 1) True)"
    using rw_step.wrlock [of "two_writers Un_done Idle None True" 1] by (simp add: px_free_def px_wrlock_def)
  moreover have "rw_step (two_writers Un_done Wr_got (Some 1) True) (two_writers Un_done Writing (Some 1) True)"
    using rw_step.wr_mark [of "two_writers Un_done Wr_got (Some 1) True" 1] by simp
  moreover have "rw_step (two_writers Un_done Writing (Some 1) True) (two_writers Un_clear Writing (Some 1) True)"
    using rw_step.un_zero [of "two_writers Un_done Writing (Some 1) True" 0] by simp
  moreover have "rw_step (two_writers Un_clear Writing (Some 1) True) (two_writers Idle Writing (Some 1) False)"
    using rw_step.un_clear [of "two_writers Un_clear Writing (Some 1) True" 0] by simp
  moreover have "two_writers Idle Writing (Some 1) False = stranded"
    by (simp add: stranded_def two_writers_def fun_eq_iff)
  ultimately show ?thesis by (metis rtranclp.rtrancl_into_rtrancl rtranclp.rtrancl_refl)
qed

text \<open>
  Two writers are enough to lose the lock: the first gives the POSIX lock back, the second
  takes it and marks the object as locked, and then the first clears that mark.  From then on
  nothing changes: every unlock of the second is refused and no thread ever gets the lock.
\<close>

theorem rwlock_books_race_strands_lock:
  "\<exists>s. rw_step\<^sup>*\<^sup>* rw_start s \<and> sy_pc s = (\<lambda>t. Idle)(1 := Writing) \<and> {s'. rw_step\<^sup>*\<^sup>* s s'} = {s}"
proof (intro exI conjI)
  show "rw_step\<^sup>*\<^sup>* rw_start stranded" by (rule stranded_reachable)
  show "sy_pc stranded = (\<lambda>t. Idle)(1 := Writing)" by (simp add: stranded_def)
  have "s' = stranded" if "rw_step\<^sup>*\<^sup>* stranded s'" for s'
    using that by (induction rule: rtranclp_induct) (auto dest: stranded_stays)
  then show "{s'. rw_step\<^sup>*\<^sup>* stranded s'} = {stranded}" by auto
qed

end
