(* ===== verification/Mutex.thy ===== *)
theory Mutex
  imports Named_Lock
begin

text \<open>
  The mutex of \<^verbatim>\<open>src/mutex.c\<close>: locking and unlocking over a POSIX mutex of the default type,
  and construction and release of mutexes with and without a name.
\<close>

section \<open>Locking\<close>

text \<open>
  A POSIX mutex is its owner.  \<open>None\<close> as the result of a call: it waits, for ever when the
  thread waits for itself.
\<close>

type_synonym posix_mutex = "nat option"

definition cplus_mutex_lock :: "nat \<Rightarrow> u32 \<Rightarrow> posix_mutex \<Rightarrow> (unit cresult \<times> posix_mutex) option" where
  "cplus_mutex_lock t timeout m =
     (if m = None then Some (Inr (), Some t)
      else if timeout = 0 then Some (Inl EBUSY, m)
      else if timeout = CPLUS_INFINITE_TIMEOUT then None
      else Some (Inl ETIMEDOUT, m))"

definition cplus_mutex_unlock :: "nat \<Rightarrow> posix_mutex \<Rightarrow> (unit cresult \<times> posix_mutex) exec" where
  "cplus_mutex_unlock t m = (if m = Some t then Inr (Inr (), None) else Inl Undefined)"

definition cplus_crit_sect_enter :: "nat \<Rightarrow> posix_mutex \<Rightarrow> (unit cresult \<times> posix_mutex) option" where
  "cplus_crit_sect_enter t m = (if m = None then Some (Inr (), Some t) else None)"

definition cplus_crit_sect_exit :: "nat \<Rightarrow> posix_mutex \<Rightarrow> (unit cresult \<times> posix_mutex) exec" where
  "cplus_crit_sect_exit t m = (if m = Some t then Inr (Inr (), None) else Inl Undefined)"

lemma mutex_excludes:
  "\<lbrakk>cplus_mutex_lock t w m = Some (Inr (), m1); u \<noteq> t\<rbrakk> \<Longrightarrow>
   (\<nexists>m2. cplus_mutex_lock u w' m1 = Some (Inr (), m2)) \<and> cplus_mutex_unlock t m1 = Inr (Inr (), None)"
  by (auto simp: cplus_mutex_lock_def cplus_mutex_unlock_def split: if_splits)

section \<open>Construction and release\<close>

record mutex =
  mx_mutex :: lock_ptr
  mx_shared_mem :: ptr

text \<open>The attribute of an initialised mutex: whether it can be used by several processes.\<close>

type_synonym mutex_world = "(mutex, bool) lock_world"

definition MUTEX_NAME_MAX_SIZE :: nat where "MUTEX_NAME_MAX_SIZE = 31"

text \<open>\<open>mutex.%s\<close>\<close>

definition MUTEX_NAME_PATTERN :: "u8 list" where
  "MUTEX_NAME_PATTERN = [109, 117, 116, 101, 120, 46, 37, 115]"

definition MUTEX_NAME_PATTERN_SIZE :: nat where
  "MUTEX_NAME_PATTERN_SIZE = length MUTEX_NAME_PATTERN + 1 - 3"

definition mutex_text :: "u8 list \<Rightarrow> u8 list" where
  "mutex_text s = take (length MUTEX_NAME_PATTERN - 2) MUTEX_NAME_PATTERN @ s"

definition sizeof_named_mutex :: u32 where "sizeof_named_mutex = 40"

definition cplus_mutex_delete :: "ptr \<Rightarrow> mutex_world \<Rightarrow> mutex_world exec" where
  "cplus_mutex_delete = delete_named mx_mutex mx_shared_mem"

definition own_mutex_step :: "(pthread_call \<Rightarrow> bool) \<Rightarrow> ptr \<Rightarrow> mutex_world step" where
  "own_mutex_step pf a W =
     (if pf Lock_init then Inr (Inl ENONE, W)
      else exec_bind (lock_init a Own_lock False W) (\<lambda>W1.
        Inr (Inr (), upd_obj a (\<lambda>m. m\<lparr>mx_mutex := Own_lock\<rparr>) W1)))"

definition mutex_memory_step :: "failures \<Rightarrow> u8 list \<Rightarrow> init_mode \<Rightarrow> ptr \<Rightarrow> mutex_world step" where
  "mutex_memory_step fl s mode a W =
     exec_bind (named_region fl (mutex_text s) sizeof_named_mutex mode W) (\<lambda>(r, W1). case r of
        Inl e \<Rightarrow> Inr (Inl e, W1)
      | Inr sh \<Rightarrow> Inr (Inr (), upd_obj a (\<lambda>m. m\<lparr>mx_shared_mem := sh\<rparr>) W1))"

definition mutex_region_step :: "(pthread_call \<Rightarrow> bool) \<Rightarrow> ptr \<Rightarrow> mutex_world step" where
  "mutex_region_step pf a W = (case lw_objs W a of None \<Rightarrow> Inl Null_deref | Some m \<Rightarrow>
     exec_bind (cplus_sharedmem_alloc (lw_proc W) (mx_shared_mem m)) (\<lambda>region.
     exec_bind (cplus_sharedmem_is_owner (lw_proc W) (mx_shared_mem m)) (\<lambda>own.
       if \<not> own then Inr (Inr (), upd_obj a (\<lambda>m. m\<lparr>mx_mutex := Lock_at region\<rparr>) W)
       else if pf Attr_init then Inr (Inl ENONE, W)
       else if pf Set_pshared \<or> pf Lock_init then Inr (Inl ENONE, W)
       else exec_bind (lock_init a (Lock_at region) True W) (\<lambda>W1.
         Inr (Inr (), upd_obj a (\<lambda>m. m\<lparr>mx_mutex := Lock_at region\<rparr>) W1)))))"

definition mutex_initialize_object ::
    "failures \<Rightarrow> (pthread_call \<Rightarrow> bool) \<Rightarrow> buf \<Rightarrow> init_mode \<Rightarrow> mutex_world \<Rightarrow> (ptr cresult \<times> mutex_world) exec" where
  "mutex_initialize_object fl pf name mode W =
     (case obj_alloc \<lparr>mx_mutex = No_lock, mx_shared_mem = CPLUS_NULL\<rparr> W of
        (Inl e, W1) \<Rightarrow> Inr (Inl e, W1)
      | (Inr a, W1) \<Rightarrow>
          exec_bind (case name of
              None \<Rightarrow> own_mutex_step pf a W1
            | Some b \<Rightarrow> exec_bind (c_str name) (\<lambda>s.
                until_exit [mutex_memory_step fl s mode a, mutex_region_step pf a] W1)) (\<lambda>(r, W2). case r of
            Inr _ \<Rightarrow> Inr (Inr a, W2)
          | Inl e \<Rightarrow> exec_bind (cplus_mutex_delete a W2) (\<lambda>W3. Inr (Inl e, W3))))"

definition cplus_mutex_new :: "(pthread_call \<Rightarrow> bool) \<Rightarrow> mutex_world \<Rightarrow> (ptr cresult \<times> mutex_world) exec" where
  "cplus_mutex_new pf W = mutex_initialize_object (\<lambda>c. None) pf None INIT_NONE W"

definition mutex_xp ::
    "init_mode \<Rightarrow> failures \<Rightarrow> (pthread_call \<Rightarrow> bool) \<Rightarrow> buf \<Rightarrow> mutex_world \<Rightarrow> (ptr cresult \<times> mutex_world) exec" where
  "mutex_xp mode fl pf name W =
     (if name = None then Inr (Inl EINVAL, W)
      else exec_bind (c_str name) (\<lambda>s.
        if MUTEX_NAME_MAX_SIZE < length s + MUTEX_NAME_PATTERN_SIZE then Inr (Inl EINVAL, W)
        else mutex_initialize_object fl pf name mode W))"

definition cplus_mutex_new_xp ::
    "failures \<Rightarrow> (pthread_call \<Rightarrow> bool) \<Rightarrow> buf \<Rightarrow> mutex_world \<Rightarrow> (ptr cresult \<times> mutex_world) exec" where
  "cplus_mutex_new_xp = mutex_xp INIT_HYBRID"

definition cplus_mutex_create_xp ::
    "failures \<Rightarrow> (pthread_call \<Rightarrow> bool) \<Rightarrow> buf \<Rightarrow> mutex_world \<Rightarrow> (ptr cresult \<times> mutex_world) exec" where
  "cplus_mutex_create_xp = mutex_xp INIT_CREATE"

definition cplus_mutex_open_xp ::
    "failures \<Rightarrow> (pthread_call \<Rightarrow> bool) \<Rightarrow> buf \<Rightarrow> mutex_world \<Rightarrow> (ptr cresult \<times> mutex_world) exec" where
  "cplus_mutex_open_xp = mutex_xp INIT_OPEN"

definition cplus_mutex_check :: "mutex_world \<Rightarrow> ptr \<Rightarrow> bool" where
  "cplus_mutex_check W a \<longleftrightarrow> a \<noteq> CPLUS_NULL \<and> lw_objs W a \<noteq> None"

section \<open>What the constructor leaves behind\<close>

text \<open>The path of the shared memory for a name.\<close>

definition mutex_path :: "u8 list \<Rightarrow> u8 list" where
  "mutex_path s = path_of (take 30 (mutex_text s))"

lemma mutex_text_zero_free: "0 \<notin> set s \<Longrightarrow> 0 \<notin> set (mutex_text s)"
  by (simp add: mutex_text_def MUTEX_NAME_PATTERN_def)

definition mutex_made :: "init_mode \<Rightarrow> buf \<Rightarrow> mutex_world \<Rightarrow> ptr \<Rightarrow> mutex_world \<Rightarrow> bool" where
  "mutex_made mode name W a W' \<longleftrightarrow> (\<exists>m. lw_objs W' a = Some m \<and> (case name of
      None \<Rightarrow> lw_locks W' = (lw_locks W)(In_object (pr_id (lw_proc W')) a \<mapsto> False) \<and>
        place_of (lw_proc W') a (mx_mutex m) = Some (In_object (pr_id (lw_proc W')) a)
    | Some b \<Rightarrow> (\<exists>s i own. c_str name = Inr s \<and> place_of (lw_proc W') a (mx_mutex m) = Some (In_region i) \<and>
        kn_names (lw_kernel W') (mutex_path s) = Some i \<and> owns mode own \<and>
        (if own then lw_locks W' = (lw_locks W)(In_region i \<mapsto> True)
         else lw_locks W' = lw_locks W \<and> kn_names (lw_kernel W) (mutex_path s) = Some i))))"

lemma mutex_region_outcome:
  assumes V: "lw_objs V a = Some m" "mx_shared_mem m = b"
    and new: "new_shm t n P K b (lw_proc V) (lw_kernel V) i sm"
    and run: "mutex_region_step pf a V = Inr (r, V')"
  shows "(\<exists>e. r = Inl e \<and> V' = V) \<or> (r = Inr () \<and>
    V' = upd_obj a (\<lambda>m. m\<lparr>mx_mutex := Lock_at (sm_addr sm)\<rparr>)
      (if sm_is_owner sm then V\<lparr>lw_locks := (lw_locks V)(In_region i \<mapsto> True)\<rparr> else V))"
proof -
  note D = new_shmD [OF new]
  have "cplus_sharedmem_alloc (lw_proc V) b = Inr (sm_addr sm)"
    "cplus_sharedmem_is_owner (lw_proc V) b = Inr (sm_is_owner sm)"
    using D(1,6,9) by (auto simp: cplus_sharedmem_alloc_def cplus_sharedmem_is_owner_def get_shm_def stands_for_def)
  moreover have "place_of (lw_proc V) a (Lock_at (sm_addr sm)) = Some (In_region i)"
    using D(8) by (simp add: place_of_def)
  ultimately show ?thesis
    using run V by (auto simp: mutex_region_step_def lock_init_def split: if_splits)
qed

lemma mutex_steps:
  assumes "until_exit [mutex_memory_step fl s mode a, mutex_region_step pf a] W1 = Inr (r2, W2)"
  shows "\<exists>r1 V. named_region fl (mutex_text s) sizeof_named_mutex mode W1 = Inr (r1, V) \<and>
    ((\<exists>e. r1 = Inl e \<and> r2 = Inl e \<and> W2 = V) \<or> (\<exists>sh. r1 = Inr sh \<and>
        mutex_region_step pf a (upd_obj a (\<lambda>m. m\<lparr>mx_shared_mem := sh\<rparr>) V) = Inr (r2, W2)))"
  using assms
  by (auto simp: until_exit_Cons until_exit_single mutex_memory_step_def exec_bind_jump simp del: until_exit.simps(2))

lemma mutex_outcome:
  assumes W: "world_ok W" and run: "mutex_initialize_object fl pf name mode W = Inr (r, W')"
  shows "case r of Inl e \<Rightarrow> unchanged W W' | Inr a \<Rightarrow> mutex_made mode name W a W'"
proof (cases "fst (obj_alloc \<lparr>mx_mutex = No_lock, mx_shared_mem = CPLUS_NULL\<rparr> W)")
  case (Inl e)
  then have "obj_alloc \<lparr>mx_mutex = No_lock, mx_shared_mem = CPLUS_NULL\<rparr> W = (Inl e, W)"
    using obj_alloc_fails by (metis prod.collapse)
  then show ?thesis using run by (auto simp: mutex_initialize_object_def unchanged_def)
next
  case (Inr a)
  let ?blank = "\<lparr>mx_mutex = No_lock, mx_shared_mem = CPLUS_NULL\<rparr>"
  obtain W1 where a: "obj_alloc ?blank W = (Inr a, W1)" using Inr by (metis prod.collapse)
  note A = obj_alloc_ok [OF W a]
  show ?thesis
  proof (cases name)
    case None
    show ?thesis
    proof (cases "pf Lock_init")
      case True
      from delete_unlocked [OF W a A(4,6), of mx_mutex mx_shared_mem] obtain W3 where
        "cplus_mutex_delete a W1 = Inr W3" "unchanged W W3"
        using A(5) by (auto simp: cplus_mutex_delete_def)
      then show ?thesis using run a None True by (auto simp: mutex_initialize_object_def own_mutex_step_def)
    next
      case False
      then have "r = Inr a" "W' = upd_obj a (\<lambda>m. m\<lparr>mx_mutex := Own_lock\<rparr>)
          (W1\<lparr>lw_locks := (lw_locks W1)(In_object (pr_id (lw_proc W1)) a \<mapsto> False)\<rparr>)"
        using run a None by (simp_all add: mutex_initialize_object_def own_mutex_step_def lock_init_def place_of_def)
      then show ?thesis using None A(4,6) by (simp add: mutex_made_def upd_obj_def place_of_def)
    qed
  next
    case (Some nm)
    obtain s r2 W2 where s: "c_str name = Inr s"
      and steps: "until_exit [mutex_memory_step fl s mode a, mutex_region_step pf a] W1 = Inr (r2, W2)"
      and res: "(case r2 of Inr _ \<Rightarrow> Inr (Inr a, W2)
        | Inl e \<Rightarrow> exec_bind (cplus_mutex_delete a W2) (\<lambda>W3. Inr (Inl e, W3))) = Inr (r, W')"
      using run a Some by (auto simp: mutex_initialize_object_def exec_bind_eq_Inr simp del: until_exit.simps)
    have q: "0 \<notin> set (mutex_text s)" by (rule mutex_text_zero_free [OF c_str_zero_free [OF s]])
    obtain r1 V where region: "named_region fl (mutex_text s) sizeof_named_mutex mode W1 = Inr (r1, V)"
      and rest: "(\<exists>e. r1 = Inl e \<and> r2 = Inl e \<and> W2 = V) \<or> (\<exists>sh. r1 = Inr sh \<and>
        mutex_region_step pf a (upd_obj a (\<lambda>m. m\<lparr>mx_shared_mem := sh\<rparr>) V) = Inr (r2, W2))"
      using mutex_steps [OF steps] by blast
    note O = named_region_outcome [OF A(1) q region]
    show ?thesis
    proof (cases r1)
      case (Inl e)
      then have V: "lw_proc V = lw_proc W1" "kn_names (lw_kernel V) = kn_names (lw_kernel W)"
          "lw_objs V = (lw_objs W)(a \<mapsto> ?blank)" "lw_locks V = lw_locks W" "r2 = Inl e" "W2 = V"
        using O rest A(4-6) by auto
      from delete_unlocked [OF W a V(3,4), of mx_mutex mx_shared_mem] V(1,2) obtain W3 where
        "cplus_mutex_delete a V = Inr W3" "unchanged W W3"
        by (auto simp: cplus_mutex_delete_def)
      then show ?thesis using res V(5,6) by auto
    next
      case (Inr b)
      let ?V = "upd_obj a (\<lambda>m. m\<lparr>mx_shared_mem := b\<rparr>) V"
      obtain n i sm where N: "owns mode (sm_is_owner sm)"
          "new_shm (take 30 (mutex_text s)) n (lw_proc W1) (lw_kernel W) b (lw_proc V) (lw_kernel V) i sm"
          "pr_shms (lw_proc W1) b = None" "b \<noteq> CPLUS_NULL" "lw_objs V = (lw_objs W)(a \<mapsto> ?blank)" "lw_locks V = lw_locks W"
        using O Inr A(4-6) by auto
      have V: "lw_objs ?V = (lw_objs W)(a \<mapsto> ?blank\<lparr>mx_shared_mem := b\<rparr>)" "lw_locks ?V = lw_locks W"
          "lw_proc ?V = lw_proc V" "lw_kernel ?V = lw_kernel V"
        using N(5,6) by (simp_all add: upd_obj_def)
      have step: "mutex_region_step pf a ?V = Inr (r2, W2)"
        using rest Inr by auto
      have "lw_objs ?V a = Some (?blank\<lparr>mx_shared_mem := b\<rparr>)" using V(1) by simp
      moreover have "mx_shared_mem (?blank\<lparr>mx_shared_mem := b\<rparr>) = b" by simp
      moreover have "new_shm (take 30 (mutex_text s)) n (lw_proc W1) (lw_kernel W) b (lw_proc ?V) (lw_kernel ?V) i sm"
        using N(2) V(3,4) by simp
      ultimately have "(\<exists>e. r2 = Inl e \<and> W2 = ?V) \<or> (r2 = Inr () \<and>
          W2 = upd_obj a (\<lambda>m. m\<lparr>mx_mutex := Lock_at (sm_addr sm)\<rparr>)
            (if sm_is_owner sm then ?V\<lparr>lw_locks := (lw_locks ?V)(In_region i \<mapsto> True)\<rparr> else ?V))"
        using step by (rule mutex_region_outcome)
      then consider e where "r2 = Inl e" "W2 = ?V" | "r2 = Inr ()"
          "W2 = upd_obj a (\<lambda>m. m\<lparr>mx_mutex := Lock_at (sm_addr sm)\<rparr>)
            (if sm_is_owner sm then ?V\<lparr>lw_locks := (lw_locks ?V)(In_region i \<mapsto> True)\<rparr> else ?V)"
        by blast
      then show ?thesis
      proof cases
        case 1
        from delete_unlocked [OF W a V(1,2), of mx_mutex mx_shared_mem] N(2-4) V(3,4) obtain W3 where
          "cplus_mutex_delete a ?V = Inr W3" "unchanged W W3"
          by (auto simp: cplus_mutex_delete_def)
        then show ?thesis using res 1 by auto
      next
        case 2
        note D = new_shmD [OF N(2)]
        have fields: "lw_objs W2 a = Some \<lparr>mx_mutex = Lock_at (sm_addr sm), mx_shared_mem = b\<rparr>"
            "lw_proc W2 = lw_proc V" "lw_kernel W2 = lw_kernel V"
            "lw_locks W2 = (if sm_is_owner sm then (lw_locks W)(In_region i \<mapsto> True) else lw_locks W)"
          unfolding 2(2) using V by (simp_all add: upd_obj_def)
        have "place_of (lw_proc V) a (Lock_at (sm_addr sm)) = Some (In_region i)" using D(8) by (simp add: place_of_def)
        moreover have "kn_names (lw_kernel V) (mutex_path s) = Some i"
            "\<not> sm_is_owner sm \<Longrightarrow> kn_names (lw_kernel W) (mutex_path s) = Some i"
          using D(9) by (auto simp: stands_for_def mutex_path_def split: if_splits)
        ultimately have "mutex_made mode name W a W2"
          unfolding mutex_made_def Some option.case fields
          using s [unfolded Some] N(1) by (intro exI conjI) auto
        then show ?thesis using res 2(1) by auto
      qed
    qed
  qed
qed

text \<open>The constructors of named mutexes.\<close>

lemma mutex_xp_outcome:
  assumes "world_ok W" "c_str name = Inr s" "mutex_xp mode fl pf name W = Inr (Inr a, W')"
  shows "mutex_made mode name W a W'"
proof -
  have "mutex_initialize_object fl pf name mode W = Inr (Inr a, W')"
    using assms(2,3) by (auto simp: mutex_xp_def c_str_def split: if_splits option.splits)
  from mutex_outcome [OF assms(1) this] show ?thesis by simp
qed

lemma mutex_made_named:
  assumes "mutex_made mode name W a W'" "c_str name = Inr s"
  obtains m i own where "lw_objs W' a = Some m" "place_of (lw_proc W') a (mx_mutex m) = Some (In_region i)"
    "kn_names (lw_kernel W') (mutex_path s) = Some i" "owns mode own"
    "if own then lw_locks W' = (lw_locks W)(In_region i \<mapsto> True)
     else lw_locks W' = lw_locks W \<and> kn_names (lw_kernel W) (mutex_path s) = Some i"
proof -
  obtain b where b: "name = Some b" using assms(2) by (cases name) (auto simp: c_str_def)
  from assms(1) obtain m s' i own where *: "lw_objs W' a = Some m" "c_str name = Inr s'"
      "place_of (lw_proc W') a (mx_mutex m) = Some (In_region i)"
      "kn_names (lw_kernel W') (mutex_path s') = Some i" "owns mode own"
      "if own then lw_locks W' = (lw_locks W)(In_region i \<mapsto> True)
       else lw_locks W' = lw_locks W \<and> kn_names (lw_kernel W) (mutex_path s') = Some i"
    unfolding mutex_made_def b option.case by blast
  have "s' = s" using *(2) assms(2) by simp
  then show ?thesis using that * by blast
qed

interpretation mutex_xp: named_lock cplus_mutex_create_xp cplus_mutex_open_xp mx_mutex "\<lambda>pshared. pshared" mutex_path world_ok
proof
  fix W W' :: mutex_world and name s fl pf a
  assume W: "world_ok W" and s: "c_str name = Inr s" and "cplus_mutex_create_xp fl pf name W = Inr (Inr a, W')"
  then have "mutex_made INIT_CREATE name W a W'" by (simp add: cplus_mutex_create_xp_def mutex_xp_outcome)
  from this s obtain m i own where *: "lw_objs W' a = Some m" "place_of (lw_proc W') a (mx_mutex m) = Some (In_region i)"
      "kn_names (lw_kernel W') (mutex_path s) = Some i" "owns INIT_CREATE own"
      "if own then lw_locks W' = (lw_locks W)(In_region i \<mapsto> True)
       else lw_locks W' = lw_locks W \<and> kn_names (lw_kernel W) (mutex_path s) = Some i"
    by (rule mutex_made_named)
  then show "\<exists>obj i attr. lw_objs W' a = Some obj \<and> place_of (lw_proc W') a (mx_mutex obj) = Some (In_region i) \<and>
      kn_names (lw_kernel W') (mutex_path s) = Some i \<and> lw_locks W' (In_region i) = Some attr \<and> attr"
    by (auto simp: owns_def)
next
  fix W W' :: mutex_world and name s fl pf a
  assume W: "world_ok W" and s: "c_str name = Inr s" and "cplus_mutex_open_xp fl pf name W = Inr (Inr a, W')"
  then have "mutex_made INIT_OPEN name W a W'" by (simp add: cplus_mutex_open_xp_def mutex_xp_outcome)
  from this s obtain m i own where *: "lw_objs W' a = Some m" "place_of (lw_proc W') a (mx_mutex m) = Some (In_region i)"
      "kn_names (lw_kernel W') (mutex_path s) = Some i" "owns INIT_OPEN own"
      "if own then lw_locks W' = (lw_locks W)(In_region i \<mapsto> True)
       else lw_locks W' = lw_locks W \<and> kn_names (lw_kernel W) (mutex_path s) = Some i"
    by (rule mutex_made_named)
  then show "\<exists>obj i. lw_objs W' a = Some obj \<and> place_of (lw_proc W') a (mx_mutex obj) = Some (In_region i) \<and>
      kn_names (lw_kernel W) (mutex_path s) = Some i \<and> lw_locks W' = lw_locks W"
    by (auto simp: owns_def)
qed

section \<open>That they return\<close>

lemma mutex_xp_returns:
  assumes W: "world_ok W" and s: "c_str name = Inr s" "length s \<le> 25"
    and a: "obj_alloc \<lparr>mx_mutex = No_lock, mx_shared_mem = CPLUS_NULL\<rparr> W = (Inr a, W1)"
    and region: "named_region fl (mutex_text s) sizeof_named_mutex mode W1 = Inr (Inr b, V)"
  shows "\<exists>own W'. owns mode own \<and> mutex_xp mode fl pf name W =
    Inr (if own \<and> (pf Attr_init \<or> pf Set_pshared \<or> pf Lock_init) then Inl ENONE else Inr a, W') \<and>
    (pf = (\<lambda>c. False) \<longrightarrow> lw_kernel W' = lw_kernel V)"
proof -
  let ?blank = "\<lparr>mx_mutex = No_lock, mx_shared_mem = CPLUS_NULL\<rparr>"
  let ?V = "upd_obj a (\<lambda>m. m\<lparr>mx_shared_mem := b\<rparr>) V"
  note A = obj_alloc_ok [OF W a]
  have q: "0 \<notin> set (mutex_text s)" by (rule mutex_text_zero_free [OF c_str_zero_free [OF s(1)]])
  from named_region_outcome [OF A(1) q region] A(4-6) obtain n i sm where N: "owns mode (sm_is_owner sm)"
      "new_shm (take 30 (mutex_text s)) n (lw_proc W1) (lw_kernel W) b (lw_proc V) (lw_kernel V) i sm"
      "pr_shms (lw_proc W1) b = None" "b \<noteq> CPLUS_NULL" "lw_objs V = (lw_objs W)(a \<mapsto> ?blank)" "lw_locks V = lw_locks W"
    by auto
  have V: "lw_objs ?V = (lw_objs W)(a \<mapsto> ?blank\<lparr>mx_shared_mem := b\<rparr>)" "lw_locks ?V = lw_locks W"
      "lw_proc ?V = lw_proc V" "lw_kernel ?V = lw_kernel V"
    using N(5,6) by (simp_all add: upd_obj_def)
  note D = new_shmD [OF N(2)]
  let ?bad = "sm_is_owner sm \<and> (pf Attr_init \<or> pf Set_pshared \<or> pf Lock_init)"
  have acc: "cplus_sharedmem_alloc (lw_proc V) b = Inr (sm_addr sm)"
    "cplus_sharedmem_is_owner (lw_proc V) b = Inr (sm_is_owner sm)"
    "place_of (lw_proc V) a (Lock_at (sm_addr sm)) = Some (In_region i)"
    using D(1,6,8,9)
    by (auto simp: cplus_sharedmem_alloc_def cplus_sharedmem_is_owner_def get_shm_def stands_for_def place_of_def)
  have step: "mutex_region_step pf a ?V = (if ?bad then Inr (Inl ENONE, ?V)
      else Inr (Inr (), upd_obj a (\<lambda>m. m\<lparr>mx_mutex := Lock_at (sm_addr sm)\<rparr>)
        (if sm_is_owner sm then ?V\<lparr>lw_locks := (lw_locks ?V)(In_region i \<mapsto> True)\<rparr> else ?V)))"
    using V acc by (auto simp: mutex_region_step_def lock_init_def)
  have mem: "mutex_memory_step fl s mode a W1 = Inr (Inr (), ?V)" using region by (simp add: mutex_memory_step_def)
  have limit: "\<not> MUTEX_NAME_MAX_SIZE < length s + MUTEX_NAME_PATTERN_SIZE" "name \<noteq> None"
    using s by (auto simp: MUTEX_NAME_MAX_SIZE_def MUTEX_NAME_PATTERN_SIZE_def MUTEX_NAME_PATTERN_def c_str_def
        split: option.splits)
  from delete_unlocked [OF W a V(1,2), of mx_mutex mx_shared_mem] N(2-4) V(3,4) obtain W3 where
    del: "cplus_mutex_delete a ?V = Inr W3"
    by (auto simp: cplus_mutex_delete_def)
  obtain nm where nm: "name = Some nm" using limit(2) by blast
  show ?thesis
    using limit(1) s a mem step del N(1) V(4) unfolding nm
    by (cases ?bad) (auto simp: mutex_xp_def mutex_initialize_object_def upd_obj_def)
qed

text \<open>Two processes and the mutex named \<open>a\<close>.\<close>

lemma example_mutex_region:
  assumes "kn_names K (mutex_path [97]) = None"
  shows "\<exists>W1 b V. obj_alloc \<lparr>mx_mutex = No_lock, mx_shared_mem = CPLUS_NULL\<rparr> (example_world pid K locks :: mutex_world) =
      (Inr 64, W1) \<and> named_region no_failures (mutex_text [97]) sizeof_named_mutex INIT_CREATE W1 = Inr (Inr b, V)"
proof -
  obtain W1 :: mutex_world where a: "obj_alloc \<lparr>mx_mutex = No_lock, mx_shared_mem = CPLUS_NULL\<rparr> (example_world pid K locks) = (Inr 64, W1)"
      "lw_kernel W1 = K" "mh_pick (pr_heap (lw_proc W1)) (mh_live (pr_heap (lw_proc W1))) = 128"
      "pr_place (lw_proc W1) (map fst (pr_maps (lw_proc W1))) = 4096"
    using example_obj [of "\<lparr>mx_mutex = No_lock, mx_shared_mem = CPLUS_NULL\<rparr>" pid K locks] by (elim exE conjE) (rule that)
  have "\<exists>b V. named_region no_failures (mutex_text [97]) sizeof_named_mutex INIT_CREATE W1 = Inr (Inr b, V)"
    using assms a(2-4) by (intro region_created mutex_text_zero_free)
      (simp_all add: sizeof_named_mutex_def SHAREDMEM_MAX_SIZE_def MAP_FAILED_def mutex_path_def)
  then show ?thesis using a(1) by blast
qed

lemma example_kernel_free: "kn_names example_kernel n = None"
  by (simp add: example_kernel_def)

lemma example_c_str: "c_str (Some [97, 0]) = Inr [97]"
  using c_str_terminated [of "[97]" "[]"] by simp

lemma example_mutex_created:
  "\<exists>own W1. owns INIT_CREATE own \<and> cplus_mutex_create_xp no_failures pf (Some [97, 0]) (example_world 7 example_kernel (\<lambda>l. None)) =
     Inr (if own \<and> (pf Attr_init \<or> pf Set_pshared \<or> pf Lock_init) then Inl ENONE else Inr 64, W1) \<and>
     (pf = (\<lambda>c. False) \<longrightarrow> (\<exists>i. kn_names (lw_kernel W1) (mutex_path [97]) = Some i \<and> kn_size (lw_kernel W1) i = 40))"
proof -
  obtain W1 b V where a: "obj_alloc \<lparr>mx_mutex = No_lock, mx_shared_mem = CPLUS_NULL\<rparr>
      (example_world 7 example_kernel (\<lambda>l. None) :: mutex_world) = (Inr 64, W1)"
      "named_region no_failures (mutex_text [97]) sizeof_named_mutex INIT_CREATE W1 = Inr (Inr b, V)"
    using example_mutex_region [of example_kernel 7 "\<lambda>l. None", OF example_kernel_free]
    by (elim exE conjE) (rule that)
  have "0 \<notin> set (mutex_text [97])" by (rule mutex_text_zero_free) simp
  from created_size [OF obj_alloc_ok(1) [OF example_world_ok a(1)] this a(2)]
  have "\<exists>i. kn_names (lw_kernel V) (mutex_path [97]) = Some i \<and> kn_size (lw_kernel V) i = 40"
    by (auto simp: mutex_path_def sizeof_named_mutex_def)
  then show ?thesis using mutex_xp_returns [OF example_world_ok example_c_str _ a, of pf]
    unfolding cplus_mutex_create_xp_def by fastforce
qed

lemma example_mutex_opened:
  assumes there: "kn_names K (mutex_path [97]) = Some i" "0 < kn_size K i" "kn_size K i < 2 ^ 32"
  shows "\<exists>V1. cplus_mutex_open_xp no_failures pf (Some [97, 0]) (example_world 9 K locks) = Inr (Inr 64, V1)"
proof -
  obtain V0 :: mutex_world where a: "obj_alloc \<lparr>mx_mutex = No_lock, mx_shared_mem = CPLUS_NULL\<rparr> (example_world 9 K locks) = (Inr 64, V0)"
      "lw_kernel V0 = K" "mh_pick (pr_heap (lw_proc V0)) (mh_live (pr_heap (lw_proc V0))) = 128"
      "pr_place (lw_proc V0) (map fst (pr_maps (lw_proc V0))) = 4096"
    using example_obj [of "\<lparr>mx_mutex = No_lock, mx_shared_mem = CPLUS_NULL\<rparr>" 9 K locks] by (elim exE conjE) (rule that)
  have "\<exists>b V. named_region no_failures (mutex_text [97]) sizeof_named_mutex INIT_OPEN V0 = Inr (Inr b, V)"
    using there a(2-4) by (intro region_opened [where i = i] mutex_text_zero_free)
      (simp_all add: MAP_FAILED_def mutex_path_def)
  then obtain b V where region: "named_region no_failures (mutex_text [97]) sizeof_named_mutex INIT_OPEN V0 = Inr (Inr b, V)"
    by blast
  from mutex_xp_returns [OF example_world_ok example_c_str _ a(1) region, of pf] show ?thesis
    by (auto simp: cplus_mutex_open_xp_def owns_def)
qed

section \<open>Properties\<close>

text \<open>
  C39. Two processes that name the same mutex, one creating and one opening it, lock the same
  POSIX mutex, which is initialised for use by several processes.
\<close>

theorem mutex_processes_share:
  assumes "world_ok W" "cplus_mutex_create_xp fl pf name W = Inr (Inr a, W1)" "c_str name = Inr s"
    and "world_ok V" "lw_kernel V = lw_kernel W1" "lw_locks V = lw_locks W1"
    and "cplus_mutex_open_xp fl' pf' name V = Inr (Inr b, V1)"
  shows "\<exists>x y l. lw_objs W1 a = Some x \<and> lw_objs V1 b = Some y \<and>
    place_of (lw_proc W1) a (mx_mutex x) = Some l \<and> place_of (lw_proc V1) b (mx_mutex y) = Some l \<and>
    lw_locks V1 l = Some True"
  using mutex_xp.processes_share [OF assms(1,2,4-7) assms(3,3) refl] by auto

lemma mutex_processes_share_witness:
  "\<exists>W1 V1 x y l. cplus_mutex_create_xp no_failures (\<lambda>c. False) (Some [97, 0]) (example_world 7 example_kernel (\<lambda>l. None)) =
      Inr (Inr 64, W1) \<and>
    cplus_mutex_open_xp no_failures (\<lambda>c. False) (Some [97, 0]) (example_world 9 (lw_kernel W1) (lw_locks W1)) = Inr (Inr 64, V1) \<and>
    lw_objs W1 64 = Some x \<and> lw_objs V1 64 = Some y \<and>
    place_of (lw_proc W1) 64 (mx_mutex x) = Some l \<and> place_of (lw_proc V1) 64 (mx_mutex y) = Some l \<and> lw_locks V1 l = Some True"
proof -
  obtain W1 i where P: "cplus_mutex_create_xp no_failures (\<lambda>c. False) (Some [97, 0]) (example_world 7 example_kernel (\<lambda>l. None)) =
      Inr (Inr 64, W1)" "kn_names (lw_kernel W1) (mutex_path [97]) = Some i" "kn_size (lw_kernel W1) i = 40"
    using example_mutex_created [of "\<lambda>c. False"] by auto
  obtain V1 where Q: "cplus_mutex_open_xp no_failures (\<lambda>c. False) (Some [97, 0]) (example_world 9 (lw_kernel W1) (lw_locks W1)) =
      Inr (Inr 64, V1)"
    using example_mutex_opened [OF P(2), of "\<lambda>c. False" "lw_locks W1"] P(3) by auto
  from mutex_processes_share [OF example_world_ok P(1) example_c_str example_world_ok _ _ Q] show ?thesis
    using P(1) Q by auto
qed

text \<open>
  A constructor of a mutex that fails, in shared memory or at a call of the thread library,
  undoes everything: the process, the names of the kernel, the objects and the locks are as
  before.
\<close>

theorem mutex_failure_cleans_up:
  assumes "world_ok W" "call W = Inr (Inl e, W')"
    and "call \<in> {cplus_mutex_new pf, cplus_mutex_new_xp fl pf name, cplus_mutex_create_xp fl pf name, cplus_mutex_open_xp fl pf name}"
  shows "unchanged W W'"
proof -
  have same: "unchanged W W" by (simp add: unchanged_def)
  have init: "unchanged W W'" if "mutex_initialize_object fl pf name mode W = Inr (Inl e, W')" for fl name mode
    using mutex_outcome [OF assms(1) that] by simp
  have xp: "unchanged W W'" if "mutex_xp mode fl pf name W = Inr (Inl e, W')" for mode fl name
    using that same init by (auto simp: mutex_xp_def exec_bind_eq_Inr split: if_splits)
  show ?thesis
    using assms(2,3) init xp
    by (auto simp: cplus_mutex_new_def cplus_mutex_new_xp_def cplus_mutex_create_xp_def cplus_mutex_open_xp_def)
qed

lemma mutex_failure_cleans_up_witness:
  "\<exists>W'. cplus_mutex_create_xp no_failures (\<lambda>c. c = Set_pshared) (Some [97, 0]) (example_world 7 example_kernel (\<lambda>l. None)) =
      Inr (Inl ENONE, W') \<and> unchanged (example_world 7 example_kernel (\<lambda>l. None)) W'"
proof -
  obtain W' where run: "cplus_mutex_create_xp no_failures (\<lambda>c. c = Set_pshared) (Some [97, 0])
      (example_world 7 example_kernel (\<lambda>l. None)) = Inr (Inl ENONE, W')"
    using example_mutex_created [of "\<lambda>c. c = Set_pshared"] by (auto simp: owns_def)
  from mutex_failure_cleans_up [where call = "cplus_mutex_create_xp no_failures (\<lambda>c. c = Set_pshared) (Some [97, 0])"
      and fl = no_failures and pf = "\<lambda>c. c = Set_pshared" and name = "Some [97, 0]", OF example_world_ok run]
  show ?thesis using run by blast
qed

text \<open>
  A process that opens a named mutex between the moment its creator has made the shared
  memory and the moment it has initialised the mutex in it gets an object whose mutex is not
  initialised: the constructor does not wait for the creator.
\<close>

theorem mutex_opened_before_initialised:
  assumes W: "world_ok W" "lw_objs W a = Some m" "mutex_memory_step fl s INIT_CREATE a W = Inr (Inr (), W1)"
    and fresh: "\<forall>i \<ge> kn_next (lw_kernel W). lw_locks W (In_region i) = None"
    and name: "c_str name = Inr s"
    and V: "world_ok V" "lw_kernel V = lw_kernel W1" "lw_locks V = lw_locks W1"
      "cplus_mutex_open_xp fl' pf name V = Inr (Inr b, V1)"
  shows "\<exists>x l. lw_objs V1 b = Some x \<and> place_of (lw_proc V1) b (mx_mutex x) = Some l \<and> lw_locks V1 l = None"
proof -
  have q: "0 \<notin> set (mutex_text s)" by (rule mutex_text_zero_free [OF c_str_zero_free [OF name]])
  obtain c U where region: "named_region fl (mutex_text s) sizeof_named_mutex INIT_CREATE W = Inr (Inr c, U)"
      "W1 = upd_obj a (\<lambda>m. m\<lparr>mx_shared_mem := c\<rparr>) U"
    using W(3) unfolding mutex_memory_step_def exec_bind_jump by auto
  from named_region_outcome [OF W(1) q region(1)] obtain n i sm where N: "sm_is_owner sm"
      "new_shm (take 30 (mutex_text s)) n (lw_proc W) (lw_kernel W) c (lw_proc U) (lw_kernel U) i sm" "lw_locks U = lw_locks W"
    by (auto simp: owns_def)
  have i: "i = kn_next (lw_kernel W)" "kn_names (lw_kernel U) (mutex_path s) = Some i"
    using new_shmD(9) [OF N(2)] N(1) by (auto simp: stands_for_def mutex_path_def)
  from mutex_xp.open_finds [OF V(1) name V(4)] obtain x j where
    X: "lw_objs V1 b = Some x" "place_of (lw_proc V1) b (mx_mutex x) = Some (In_region j)"
      "kn_names (lw_kernel V) (mutex_path s) = Some j" "lw_locks V1 = lw_locks V"
    by blast
  have "j = i" using X(3) i(2) V(2) region(2) by (simp add: upd_obj_def)
  moreover have "lw_locks V = lw_locks W" using V(3) region(2) N(3) by (simp add: upd_obj_def)
  ultimately show ?thesis using X fresh i(1) by auto
qed

lemma mutex_opened_before_initialised_witness:
  "\<exists>W W1 V1 x l. mutex_memory_step no_failures [97] INIT_CREATE 64 W = Inr (Inr (), W1) \<and>
     cplus_mutex_open_xp no_failures (\<lambda>c. False) (Some [97, 0]) (example_world 9 (lw_kernel W1) (lw_locks W1)) = Inr (Inr 64, V1) \<and>
     lw_objs V1 64 = Some x \<and> place_of (lw_proc V1) 64 (mx_mutex x) = Some l \<and> lw_locks V1 l = None"
proof -
  obtain W b U where a: "obj_alloc \<lparr>mx_mutex = No_lock, mx_shared_mem = CPLUS_NULL\<rparr>
      (example_world 7 example_kernel (\<lambda>l. None) :: mutex_world) = (Inr 64, W)"
      "named_region no_failures (mutex_text [97]) sizeof_named_mutex INIT_CREATE W = Inr (Inr b, U)"
    using example_mutex_region [of example_kernel 7 "\<lambda>l. None", OF example_kernel_free]
    by (elim exE conjE) (rule that)
  note A = obj_alloc_ok [OF example_world_ok a(1)]
  let ?W1 = "upd_obj 64 (\<lambda>m. m\<lparr>mx_shared_mem := b\<rparr>) U"
  have zf: "0 \<notin> set (mutex_text [97])" by (rule mutex_text_zero_free) simp
  have step: "mutex_memory_step no_failures [97] INIT_CREATE 64 W = Inr (Inr (), ?W1)"
    using a(2) by (simp add: mutex_memory_step_def)
  obtain i where i: "kn_names (lw_kernel ?W1) (mutex_path [97]) = Some i" "kn_size (lw_kernel ?W1) i = 40"
    using created_size [OF A(1) zf a(2)] by (auto simp: mutex_path_def sizeof_named_mutex_def upd_obj_def)
  have locks: "lw_locks ?W1 = lw_locks W" using named_region_outcome [OF A(1) zf a(2)] by (simp add: upd_obj_def)
  obtain V1 where Q: "cplus_mutex_open_xp no_failures (\<lambda>c. False) (Some [97, 0])
      (example_world 9 (lw_kernel ?W1) (lw_locks ?W1)) = Inr (Inr 64, V1)"
    using example_mutex_opened [OF i(1), of "\<lambda>c. False" "lw_locks ?W1"] i(2) by auto
  have "\<exists>x l. lw_objs V1 64 = Some x \<and> place_of (lw_proc V1) 64 (mx_mutex x) = Some l \<and> lw_locks V1 l = None"
    by (rule mutex_opened_before_initialised [OF A(1) _ step _ example_c_str example_world_ok _ _ Q])
      (use A(4,6) locks in simp_all)
  then show ?thesis using step Q by blast
qed

end
