(* ===== verification/Rwlock_New.thy ===== *)
theory Rwlock_New
  imports Named_Lock
begin

text \<open>
  Construction and release of the reader-writer locks of \<^verbatim>\<open>src/rwlock.c\<close>, with and without a
  name.  The local variables of \<^verbatim>\<open>rwlock_initialize_object\<close> that its steps share are the
  attributes, present once they are initialised, and \<open>do_init\<close>.
\<close>

section \<open>Objects\<close>

datatype rwlock_kind = KIND_NONE | KIND_PREFER_READER | KIND_PREFER_WRITER | KIND_PREFER_WRITER_NONRECURSIVE | KIND_MAX

datatype posix_kind = PREFER_READER_NP | PREFER_WRITER_NP | PREFER_WRITER_NONRECURSIVE_NP

datatype rwlock_mode = MODE_NONE | MODE_CREATE | MODE_OPEN | MODE_HYBRID | MODE_MAX

record rwlock_config =
  cf_name :: buf
  cf_mode :: rwlock_mode
  cf_kind :: rwlock_kind

record rwlock_obj =
  ro_rwlock :: lock_ptr
  ro_st_locked :: bool
  ro_count_rdlocked :: u32
  ro_shared_mem :: ptr

text \<open>The attributes of a lock: its kind, and whether it can be used by several processes.\<close>

type_synonym rwlock_attr = "posix_kind \<times> bool"

type_synonym rw_world = "(rwlock_obj, rwlock_attr) lock_world"

type_synonym rw_build = "rwlock_attr option \<times> bool \<times> rw_world"

definition RWLOCK_NAME_MAX_SIZE :: nat where "RWLOCK_NAME_MAX_SIZE = 31"

text \<open>\<open>rwlock.%s\<close>\<close>

definition RWLOCK_NAME_PATTERN :: "u8 list" where
  "RWLOCK_NAME_PATTERN = [114, 119, 108, 111, 99, 107, 46, 37, 115]"

definition RWLOCK_NAME_PATTERN_SIZE :: nat where
  "RWLOCK_NAME_PATTERN_SIZE = length RWLOCK_NAME_PATTERN + 1 - 3"

definition rwlock_text :: "u8 list \<Rightarrow> u8 list" where
  "rwlock_text s = take (length RWLOCK_NAME_PATTERN - 2) RWLOCK_NAME_PATTERN @ s"

definition sizeof_named_rwlock :: u32 where "sizeof_named_rwlock = 56"

fun convert_rwlock_kind :: "rwlock_kind \<Rightarrow> posix_kind" where
  "convert_rwlock_kind KIND_PREFER_WRITER = PREFER_WRITER_NP"
| "convert_rwlock_kind KIND_PREFER_WRITER_NONRECURSIVE = PREFER_WRITER_NONRECURSIVE_NP"
| "convert_rwlock_kind _ = PREFER_READER_NP"

definition cplus_rwlock_delete :: "ptr \<Rightarrow> rw_world \<Rightarrow> rw_world exec" where
  "cplus_rwlock_delete = delete_named ro_rwlock ro_shared_mem"

section \<open>The steps of the constructor\<close>

text \<open>The attributes as \<^verbatim>\<open>pthread_rwlockattr_init\<close> makes them, unless they exist or it fails.\<close>

definition with_attr :: "(pthread_call \<Rightarrow> bool) \<Rightarrow> rwlock_attr option \<Rightarrow> rwlock_attr option" where
  "with_attr pf attr = (if attr = None \<and> \<not> pf Attr_init then Some (PREFER_READER_NP, False) else attr)"

definition kind_step :: "(pthread_call \<Rightarrow> bool) \<Rightarrow> rwlock_kind \<Rightarrow> rw_build step" where
  "kind_step pf kind = (\<lambda>(attr, do_init, W).
     if kind \<noteq> KIND_MAX \<and> kind \<noteq> KIND_NONE then
       (case with_attr pf attr of
          None \<Rightarrow> Inr (Inr (), (None, do_init, W))
        | Some (k, sh) \<Rightarrow> if pf Set_kind then Inr (Inl ENONE, (Some (k, sh), do_init, W))
            else Inr (Inr (), (Some (convert_rwlock_kind kind, sh), do_init, W)))
     else Inr (Inr (), (attr, do_init, W)))"

definition region_mode :: "rwlock_mode \<Rightarrow> init_mode" where
  "region_mode mode = (case mode of MODE_CREATE \<Rightarrow> INIT_CREATE | MODE_OPEN \<Rightarrow> INIT_OPEN | MODE_HYBRID \<Rightarrow> INIT_HYBRID
     | _ \<Rightarrow> INIT_NONE)"

definition memory_step :: "failures \<Rightarrow> rwlock_config \<Rightarrow> ptr \<Rightarrow> rw_build step" where
  "memory_step fl config a = (\<lambda>(attr, do_init, W).
     if cf_name config \<noteq> None \<and> cf_mode config \<noteq> MODE_NONE then
       exec_bind (c_str (cf_name config)) (\<lambda>s.
       exec_bind (named_region fl (rwlock_text s) sizeof_named_rwlock (region_mode (cf_mode config)) W) (\<lambda>(r, W1).
         case r of
           Inl e \<Rightarrow> Inr (Inl e, (attr, do_init, W1))
         | Inr sh \<Rightarrow> Inr (Inr (), (attr, do_init, upd_obj a (\<lambda>l. l\<lparr>ro_shared_mem := sh\<rparr>) W1))))
     else Inr (Inr (), (attr, do_init, W)))"

definition region_step :: "(pthread_call \<Rightarrow> bool) \<Rightarrow> ptr \<Rightarrow> rw_build step" where
  "region_step pf a = (\<lambda>(attr, do_init, W). case lw_objs W a of
     None \<Rightarrow> Inl Null_deref
   | Some l \<Rightarrow> if ro_shared_mem l = CPLUS_NULL then Inr (Inr (), (attr, do_init, W)) else
       exec_bind (cplus_sharedmem_alloc (lw_proc W) (ro_shared_mem l)) (\<lambda>region.
       if region = CPLUS_NULL then Inr (Inl ENONE, (attr, do_init, W)) else
       exec_bind (cplus_sharedmem_is_owner (lw_proc W) (ro_shared_mem l)) (\<lambda>own.
         let W1 = upd_obj a (\<lambda>l. l\<lparr>ro_rwlock := Lock_at region\<rparr>) W in
         if \<not> own then Inr (Inr (), (attr, False, W1))
         else (case with_attr pf attr of
             None \<Rightarrow> Inr (Inr (), (None, do_init, W1))
           | Some (k, sh) \<Rightarrow> if pf Set_pshared then Inr (Inl ENONE, (Some (k, sh), do_init, W1))
               else Inr (Inr (), (Some (k, True), do_init, W1))))))"

definition default_attr :: "rwlock_attr option \<Rightarrow> rwlock_attr" where
  "default_attr attr = (case attr of None \<Rightarrow> (PREFER_READER_NP, False) | Some x \<Rightarrow> x)"

definition init_step :: "(pthread_call \<Rightarrow> bool) \<Rightarrow> ptr \<Rightarrow> rw_build step" where
  "init_step pf a = (\<lambda>(attr, do_init, W). case lw_objs W a of
     None \<Rightarrow> Inl Null_deref
   | Some l \<Rightarrow> if do_init then
        if pf Lock_init then Inr (Inl ENONE, (attr, do_init, W))
        else exec_bind (lock_init a (ro_rwlock l) (default_attr attr) W) (\<lambda>W1. Inr (Inr (), (attr, do_init, W1)))
      else Inr (Inr (), (attr, do_init, W)))"

text \<open>
  After \<^verbatim>\<open>exit\<close> the object is deleted; when there is no memory for it the destructor is called
  with a null pointer and fails its assertion.
\<close>

definition rwlock_initialize_object ::
    "failures \<Rightarrow> (pthread_call \<Rightarrow> bool) \<Rightarrow> rwlock_config \<Rightarrow> rw_world \<Rightarrow> (ptr cresult \<times> rw_world) exec" where
  "rwlock_initialize_object fl pf config W =
     (case obj_alloc \<lparr>ro_rwlock = Own_lock, ro_st_locked = False, ro_count_rdlocked = 0, ro_shared_mem = CPLUS_NULL\<rparr> W of
        (Inl e, W1) \<Rightarrow> Inl Assert_fail
      | (Inr a, W1) \<Rightarrow>
          exec_bind (until_exit [kind_step pf (cf_kind config), memory_step fl config a, region_step pf a, init_step pf a]
              (None, True, W1)) (\<lambda>(r, (attr, do_init, W2)). case r of
            Inr _ \<Rightarrow> Inr (Inr a, W2)
          | Inl e \<Rightarrow> exec_bind (cplus_rwlock_delete a W2) (\<lambda>W3. Inr (Inl e, W3))))"

section \<open>Entry points\<close>

definition rwlock_xp ::
    "rwlock_mode \<Rightarrow> failures \<Rightarrow> (pthread_call \<Rightarrow> bool) \<Rightarrow> buf \<Rightarrow> rw_world \<Rightarrow> (ptr cresult \<times> rw_world) exec" where
  "rwlock_xp mode fl pf name W =
     (if name = None then Inr (Inl EINVAL, W)
      else exec_bind (c_str name) (\<lambda>s.
        if RWLOCK_NAME_MAX_SIZE < length s + RWLOCK_NAME_PATTERN_SIZE then Inr (Inl EINVAL, W)
        else rwlock_initialize_object fl pf \<lparr>cf_name = name, cf_mode = mode, cf_kind = KIND_NONE\<rparr> W))"

definition cplus_rwlock_xp_new :: "failures \<Rightarrow> (pthread_call \<Rightarrow> bool) \<Rightarrow> buf \<Rightarrow> rw_world \<Rightarrow> (ptr cresult \<times> rw_world) exec" where
  "cplus_rwlock_xp_new = rwlock_xp MODE_HYBRID"

definition cplus_rwlock_xp_create :: "failures \<Rightarrow> (pthread_call \<Rightarrow> bool) \<Rightarrow> buf \<Rightarrow> rw_world \<Rightarrow> (ptr cresult \<times> rw_world) exec" where
  "cplus_rwlock_xp_create = rwlock_xp MODE_CREATE"

definition cplus_rwlock_xp_open :: "failures \<Rightarrow> (pthread_call \<Rightarrow> bool) \<Rightarrow> buf \<Rightarrow> rw_world \<Rightarrow> (ptr cresult \<times> rw_world) exec" where
  "cplus_rwlock_xp_open = rwlock_xp MODE_OPEN"

definition cplus_rwlock_new_config ::
    "failures \<Rightarrow> (pthread_call \<Rightarrow> bool) \<Rightarrow> rwlock_config \<Rightarrow> rw_world \<Rightarrow> (ptr cresult \<times> rw_world) exec" where
  "cplus_rwlock_new_config fl pf config W = rwlock_initialize_object fl pf config W"

definition cplus_rwlock_new :: "(pthread_call \<Rightarrow> bool) \<Rightarrow> rw_world \<Rightarrow> (ptr cresult \<times> rw_world) exec" where
  "cplus_rwlock_new pf W =
     rwlock_initialize_object (\<lambda>c. None) pf \<lparr>cf_name = None, cf_mode = MODE_NONE, cf_kind = KIND_NONE\<rparr> W"

definition cplus_rwlock_check :: "rw_world \<Rightarrow> ptr \<Rightarrow> bool" where
  "cplus_rwlock_check W a \<longleftrightarrow> a \<noteq> CPLUS_NULL \<and> lw_objs W a \<noteq> None"

section \<open>The steps after the memory\<close>

abbreviation blank_rwlock :: rwlock_obj where
  "blank_rwlock \<equiv> \<lparr>ro_rwlock = Own_lock, ro_st_locked = False, ro_count_rdlocked = 0, ro_shared_mem = CPLUS_NULL\<rparr>"

text \<open>A world in which the object \<open>a\<close> has no lock yet, with or without shared memory.\<close>

definition bare :: "ptr \<Rightarrow> rw_world \<Rightarrow> bool" where
  "bare a W \<longleftrightarrow> (\<exists>l pl. lw_objs W a = Some l \<and> place_of (lw_proc W) a (ro_rwlock l) = Some pl \<and> lw_locks W pl = None \<and>
     ro_rwlock l \<noteq> No_lock \<and>
     (ro_shared_mem l \<noteq> CPLUS_NULL \<longrightarrow> cplus_sharedmem_is_owner (lw_proc W) (ro_shared_mem l) = Inr True))"

text \<open>Deleting such an object destroys a lock that was never initialised.\<close>

lemma delete_bare: "bare a W \<Longrightarrow> cplus_rwlock_delete a W = Inl Undefined"
  by (auto simp: bare_def cplus_rwlock_delete_def delete_named_def lock_destroy_def)

text \<open>No lock where nothing has been made yet; the system maps nothing at address 0.\<close>

definition fresh_locks :: "rw_world \<Rightarrow> bool" where
  "fresh_locks W \<longleftrightarrow> (\<forall>a. a \<notin> set (mh_live (pr_heap (lw_proc W))) \<longrightarrow> lw_locks W (In_object (pr_id (lw_proc W)) a) = None) \<and>
     (\<forall>i \<ge> kn_next (lw_kernel W). lw_locks W (In_region i) = None) \<and> (\<forall>used. pr_place (lw_proc W) used \<noteq> CPLUS_NULL)"

text \<open>After the memory step: no region, or the one of the name.\<close>

definition has_region :: "rwlock_config \<Rightarrow> ptr \<Rightarrow> rw_world \<Rightarrow> rw_world \<Rightarrow> bool" where
  "has_region config a W1 V \<longleftrightarrow> lw_locks V = lw_locks W1 \<and>
     (if cf_name config = None \<or> cf_mode config = MODE_NONE then V = W1
      else (\<exists>s b n i sm. c_str (cf_name config) = Inr s \<and> b \<noteq> CPLUS_NULL \<and> owns (region_mode (cf_mode config)) (sm_is_owner sm) \<and>
        new_shm (take 30 (rwlock_text s)) n (lw_proc W1) (lw_kernel W1) b (lw_proc V) (lw_kernel V) i sm \<and>
        lw_objs V a = Some (blank_rwlock\<lparr>ro_shared_mem := b\<rparr>)))"

lemma rwlock_text_zero_free: "0 \<notin> set s \<Longrightarrow> 0 \<notin> set (rwlock_text s)"
  by (simp add: rwlock_text_def RWLOCK_NAME_PATTERN_def)

lemma bare_start:
  assumes W: "world_ok W" "fresh_locks W" and alloc: "obj_alloc blank_rwlock W = (Inr a, W1)"
  shows "bare a W1"
proof -
  have "lw_locks W1 (In_object (pr_id (lw_proc W1)) a) = None"
    using W(2) obj_alloc_ok(6) [OF W(1) alloc] obj_alloc_fresh(1,2) [OF W(1) alloc] by (simp add: fresh_locks_def)
  then show ?thesis using obj_alloc_ok(4) [OF W(1) alloc] by (simp add: bare_def place_of_def)
qed

lemma memory_outcome:
  assumes W: "world_ok W" "fresh_locks W" and alloc: "obj_alloc blank_rwlock W = (Inr a, W1)"
    and run: "memory_step fl config a (attr, do_init, W1) = Inr (r, (attr', do_init', V))"
  shows "attr' = attr \<and> do_init' = do_init \<and> (case r of Inl e \<Rightarrow> bare a V | Inr u \<Rightarrow> has_region config a W1 V)"
proof (cases "\<not> (cf_name config = None \<or> cf_mode config = MODE_NONE)")
  case False
  then show ?thesis using run by (auto simp: memory_step_def has_region_def)
next
  case True
  then obtain s r1 U where s: "c_str (cf_name config) = Inr s"
    and region: "named_region fl (rwlock_text s) sizeof_named_rwlock (region_mode (cf_mode config)) W1 = Inr (r1, U)"
    and res: "(case r1 of Inl e \<Rightarrow> Inr (Inl e, (attr, do_init, U))
         | Inr sh \<Rightarrow> Inr (Inr (), (attr, do_init, upd_obj a (\<lambda>l. l\<lparr>ro_shared_mem := sh\<rparr>) U))) =
        (Inr (r, (attr', do_init', V)) :: (unit cresult \<times> rw_build) exec)"
    using run by (auto simp: memory_step_def exec_bind_eq_Inr)
  note made = obj_alloc_ok [OF W(1) alloc]
  have q: "0 \<notin> set (rwlock_text s)" by (rule rwlock_text_zero_free [OF c_str_zero_free [OF s]])
  note O = named_region_outcome [OF made(1) q region]
  show ?thesis
  proof (cases r1)
    case (Inl e)
    then have "lw_proc V = lw_proc W1" "lw_objs V = lw_objs W1" "lw_locks V = lw_locks W1" "r = Inl e" "attr' = attr" "do_init' = do_init"
      using O res by auto
    then show ?thesis using bare_start [OF W alloc] by (simp add: bare_def)
  next
    case (Inr b)
    then obtain n i sm where N: "owns (region_mode (cf_mode config)) (sm_is_owner sm)"
        "new_shm (take 30 (rwlock_text s)) n (lw_proc W1) (lw_kernel W1) b (lw_proc U) (lw_kernel U) i sm"
        "b \<noteq> CPLUS_NULL" "lw_objs U = lw_objs W1" "lw_locks U = lw_locks W1"
      using O by auto
    have V: "V = upd_obj a (\<lambda>l. l\<lparr>ro_shared_mem := b\<rparr>) U" "r = Inr ()" "attr' = attr" "do_init' = do_init"
      using res Inr by simp_all
    have "lw_objs V a = Some (blank_rwlock\<lparr>ro_shared_mem := b\<rparr>)" using V(1) N(4) made(4) by (simp add: upd_obj_def)
    moreover have "lw_locks V = lw_locks W1" "lw_proc V = lw_proc U" "lw_kernel V = lw_kernel U"
      using V(1) N(5) by (simp_all add: upd_obj_def)
    ultimately have "has_region config a W1 V"
      unfolding has_region_def using True s N(1-3) by metis
    then show ?thesis using V by simp
  qed
qed

text \<open>Before the last step: either the lock is still to be initialised, or it is another process's.\<close>

definition named :: "rwlock_config \<Rightarrow> bool" where
  "named config \<longleftrightarrow> \<not> (cf_name config = None \<or> cf_mode config = MODE_NONE)"

definition rwlock_path :: "u8 list \<Rightarrow> u8 list" where
  "rwlock_path s = path_of (take 30 (rwlock_text s))"

definition ready :: "(pthread_call \<Rightarrow> bool) \<Rightarrow> rwlock_config \<Rightarrow> ptr \<Rightarrow> rw_world \<Rightarrow> rw_build \<Rightarrow> bool" where
  "ready pf config a W1 = (\<lambda>(attr, do_init, U). lw_locks U = lw_locks W1 \<and> lw_objs U a \<noteq> None \<and> (do_init \<longrightarrow> bare a U) \<and>
     (if named config then (\<exists>s i l. c_str (cf_name config) = Inr s \<and> lw_objs U a = Some l \<and>
        place_of (lw_proc U) a (ro_rwlock l) = Some (In_region i) \<and> kn_names (lw_kernel U) (rwlock_path s) = Some i \<and>
        owns (region_mode (cf_mode config)) do_init \<and>
        (if do_init then pf Attr_init \<or> (\<exists>k. attr = Some (k, True))
         else kn_names (lw_kernel W1) (rwlock_path s) = Some i))
      else do_init))"

lemma region_outcome:
  assumes W: "world_ok W" "fresh_locks W" and alloc: "obj_alloc blank_rwlock W = (Inr a, W1)"
    and V: "has_region config a W1 V" and run: "region_step pf a (attr, True, V) = Inr (r, (attr', do_init', U))"
  shows "case r of Inl e \<Rightarrow> bare a U | Inr u \<Rightarrow> ready pf config a W1 (attr', do_init', U)"
proof (cases "named config")
  case False
  then have "V = W1" using V by (simp add: has_region_def named_def)
  then have "r = Inr ()" "U = W1" "do_init' = True"
    using run obj_alloc_ok(4) [OF W(1) alloc] by (auto simp: region_step_def)
  then show ?thesis
    using bare_start [OF W alloc] False obj_alloc_ok(4) [OF W(1) alloc] by (simp add: ready_def)
next
  case True
  then obtain s b n i sm where N: "lw_locks V = lw_locks W1" "c_str (cf_name config) = Inr s" "b \<noteq> CPLUS_NULL"
      "owns (region_mode (cf_mode config)) (sm_is_owner sm)"
      "new_shm (take 30 (rwlock_text s)) n (lw_proc W1) (lw_kernel W1) b (lw_proc V) (lw_kernel V) i sm"
      "lw_objs V a = Some (blank_rwlock\<lparr>ro_shared_mem := b\<rparr>)"
    using V by (auto simp: has_region_def named_def)
  note D = new_shmD [OF N(5)]
  have acc: "cplus_sharedmem_alloc (lw_proc V) b = Inr (sm_addr sm)"
      "cplus_sharedmem_is_owner (lw_proc V) b = Inr (sm_is_owner sm)"
    using D(1,6,9) by (auto simp: cplus_sharedmem_alloc_def cplus_sharedmem_is_owner_def get_shm_def stands_for_def)
  have names: "kn_names (lw_kernel V) (rwlock_path s) = Some i"
      "\<not> sm_is_owner sm \<Longrightarrow> kn_names (lw_kernel W1) (rwlock_path s) = Some i"
      "sm_is_owner sm \<Longrightarrow> i = kn_next (lw_kernel W)"
    using D(9) obj_alloc_ok(5) [OF W(1) alloc] by (auto simp: stands_for_def rwlock_path_def split: if_splits)
  have "pr_place (lw_proc W) (map fst (pr_maps (lw_proc W1))) = sm_addr sm"
    using N(5) obj_alloc_fresh(3) [OF W(1) alloc] by (simp add: new_shm_def)
  then have addr: "sm_addr sm \<noteq> CPLUS_NULL" using W(2) unfolding fresh_locks_def by metis
  let ?l = "blank_rwlock\<lparr>ro_shared_mem := b, ro_rwlock := Lock_at (sm_addr sm)\<rparr>"
  have at: "place_of (lw_proc V) a (ro_rwlock ?l) = Some (In_region i)" using D(8) by (simp add: place_of_def)
  let ?U = "upd_obj a (\<lambda>l. l\<lparr>ro_rwlock := Lock_at (sm_addr sm)\<rparr>) V"
  have U: "lw_objs ?U a = Some ?l" "lw_proc ?U = lw_proc V" "lw_kernel ?U = lw_kernel V" "lw_locks ?U = lw_locks V"
    using N(6) by (simp_all add: upd_obj_def)
  have bare: "bare a ?U" if "sm_is_owner sm"
  proof -
    have "lw_locks ?U (In_region i) = None"
      using names(3) [OF that] W(2) N(1) U(4) obj_alloc_ok(6) [OF W(1) alloc] by (simp add: fresh_locks_def)
    then show ?thesis using U at acc(2) that by (simp add: bare_def)
  qed
  show ?thesis
  proof (cases "sm_is_owner sm")
    case False
    then have "r = Inr ()" "do_init' = False" "U = ?U"
      using run N(3,6) acc addr by (auto simp: region_step_def Let_def)
    then show ?thesis using True False N(1,2,4) U at names by (auto simp: ready_def)
  next
    case own: True
    show ?thesis
    proof (cases "with_attr pf attr")
      case None
      then have "r = Inr ()" "do_init' = True" "U = ?U" "pf Attr_init"
        using run N(3,6) acc addr own by (auto simp: region_step_def Let_def with_attr_def split: if_splits)
      then show ?thesis using True own N(1,2,4) U at names bare by (auto simp: ready_def)
    next
      case (Some x)
      obtain k sh where x: "x = (k, sh)" by force
      show ?thesis
      proof (cases "pf Set_pshared")
        case True
        then have "r = Inl ENONE" "U = ?U" using run N(3,6) acc addr own Some x by (auto simp: region_step_def Let_def)
        then show ?thesis using bare [OF own] by simp
      next
        case False
        then have "r = Inr ()" "do_init' = True" "U = ?U" "attr' = Some (k, True)"
          using run N(3,6) acc addr own Some x by (auto simp: region_step_def Let_def)
        then show ?thesis using True own N(1,2,4) U at names bare by (auto simp: ready_def)
      qed
    qed
  qed
qed

lemma init_outcome:
  assumes ready: "ready pf config a W1 (attr, do_init, V)"
    and run: "init_step pf a (attr, do_init, V) = Inr (r, (attr', do_init', U))"
  shows "(\<exists>e. r = Inl e \<and> bare a U) \<or>
    (r = Inr () \<and> (named config \<longrightarrow> (\<exists>s i l. c_str (cf_name config) = Inr s \<and> lw_objs U a = Some l \<and>
        place_of (lw_proc U) a (ro_rwlock l) = Some (In_region i) \<and> kn_names (lw_kernel U) (rwlock_path s) = Some i \<and>
        owns (region_mode (cf_mode config)) do_init \<and>
        (if do_init then lw_locks U = (lw_locks W1)(In_region i \<mapsto> default_attr attr) \<and> (pf Attr_init \<or> (\<exists>k. attr = Some (k, True)))
         else lw_locks U = lw_locks W1 \<and> kn_names (lw_kernel W1) (rwlock_path s) = Some i))))"
proof (cases do_init)
  case False
  then have "r = Inr ()" "U = V" using run ready by (auto simp: init_step_def ready_def)
  then show ?thesis using ready False by (auto simp: ready_def)
next
  case True
  then have bare: "bare a V" "lw_locks V = lw_locks W1" using ready by (auto simp: ready_def)
  then obtain l pl where l: "lw_objs V a = Some l" "place_of (lw_proc V) a (ro_rwlock l) = Some pl"
    by (auto simp: bare_def)
  show ?thesis
  proof (cases "pf Lock_init")
    case True
    then have "r = Inl ENONE" "U = V" using run \<open>do_init\<close> l(1) by (auto simp: init_step_def)
    then show ?thesis using bare by simp
  next
    case False
    then have U: "r = Inr ()" "U = V\<lparr>lw_locks := (lw_locks V)(pl \<mapsto> default_attr attr)\<rparr>"
      using run \<open>do_init\<close> l by (auto simp: init_step_def lock_init_def)
    show ?thesis
    proof (cases "named config")
      case named: True
      then obtain s i where "c_str (cf_name config) = Inr s" "pl = In_region i" "kn_names (lw_kernel V) (rwlock_path s) = Some i"
          "owns (region_mode (cf_mode config)) True" "pf Attr_init \<or> (\<exists>k. attr = Some (k, True))"
        using ready \<open>do_init\<close> l by (auto simp: ready_def)
      then show ?thesis using U l bare(2) \<open>do_init\<close> by auto
    qed (use U in simp)
  qed
qed

text \<open>The constructor returns the object, or it does not return.\<close>

lemma kind_outcome:
  assumes "bare a W1" "kind_step pf kind (None, True, W1) = Inr (r, (attr, do_init, V))"
  shows "V = W1 \<and> do_init = True \<and> (\<forall>e. r = Inl e \<longrightarrow> bare a V)"
  using assms by (auto simp: kind_step_def with_attr_def split: if_splits option.splits)

definition rwlock_made :: "(pthread_call \<Rightarrow> bool) \<Rightarrow> rwlock_config \<Rightarrow> rw_world \<Rightarrow> ptr \<Rightarrow> rw_world \<Rightarrow> bool" where
  "rwlock_made pf config W a U \<longleftrightarrow> (named config \<longrightarrow> (\<exists>s i l own attr. c_str (cf_name config) = Inr s \<and> lw_objs U a = Some l \<and>
     place_of (lw_proc U) a (ro_rwlock l) = Some (In_region i) \<and> kn_names (lw_kernel U) (rwlock_path s) = Some i \<and>
     owns (region_mode (cf_mode config)) own \<and>
     (if own then lw_locks U = (lw_locks W)(In_region i \<mapsto> attr) \<and> (pf Attr_init \<or> snd attr)
      else lw_locks U = lw_locks W \<and> kn_names (lw_kernel W) (rwlock_path s) = Some i)))"

lemma rwlock_outcome:
  assumes W: "world_ok W" "fresh_locks W" and run: "rwlock_initialize_object fl pf config W = Inr (r, W')"
  shows "\<exists>a. r = Inr a \<and> rwlock_made pf config W a W'"
proof -
  obtain a W1 where alloc: "obj_alloc blank_rwlock W = (Inr a, W1)"
    using run by (auto simp: rwlock_initialize_object_def split: prod.splits sum.splits)
  obtain r1 attr do_init U where
    steps: "until_exit [kind_step pf (cf_kind config), memory_step fl config a, region_step pf a, init_step pf a]
      (None, True, W1) = Inr (r1, (attr, do_init, U))"
    and res: "(case r1 of Inr _ \<Rightarrow> Inr (Inr a, U)
      | Inl e \<Rightarrow> exec_bind (cplus_rwlock_delete a U) (\<lambda>W3. Inr (Inl e, W3))) = (Inr (r, W') :: (ptr cresult \<times> rw_world) exec)"
    using run alloc by (auto simp: rwlock_initialize_object_def exec_bind_eq_Inr simp del: until_exit.simps)
  have not_bare: "\<not> (bare a U \<and> (\<exists>e. r1 = Inl e))" using res delete_bare by (auto split: sum.splits)
  from steps consider e where "kind_step pf (cf_kind config) (None, True, W1) = Inr (Inl e, (attr, do_init, U))" "r1 = Inl e"
    | at1 di1 V1 where "kind_step pf (cf_kind config) (None, True, W1) = Inr (Inr (), (at1, di1, V1))"
        "until_exit [memory_step fl config a, region_step pf a, init_step pf a] (at1, di1, V1) = Inr (r1, (attr, do_init, U))"
    unfolding until_exit_Cons [of "kind_step pf (cf_kind config)"] by auto
  then show ?thesis
  proof cases
    case 1
    then show ?thesis using kind_outcome [OF bare_start [OF W alloc] 1(1)] not_bare by auto
  next
    case 2
    have K: "V1 = W1" "di1" using kind_outcome [OF bare_start [OF W alloc] 2(1)] by auto
    from 2(2) consider e where "memory_step fl config a (at1, di1, V1) = Inr (Inl e, (attr, do_init, U))" "r1 = Inl e"
      | at2 di2 V2 where "memory_step fl config a (at1, di1, V1) = Inr (Inr (), (at2, di2, V2))"
          "until_exit [region_step pf a, init_step pf a] (at2, di2, V2) = Inr (r1, (attr, do_init, U))"
      unfolding until_exit_Cons [of "memory_step fl config a"] by auto
    then show ?thesis
    proof cases
      case 1
      then show ?thesis using memory_outcome [OF W alloc 1(1) [unfolded K]] not_bare by auto
    next
      case m: 2
      have M: "has_region config a W1 V2" "di2 = True" using memory_outcome [OF W alloc m(1) [unfolded K]] K(2) by auto
      from m(2) consider e where "region_step pf a (at2, di2, V2) = Inr (Inl e, (attr, do_init, U))" "r1 = Inl e"
        | at3 di3 V3 where "region_step pf a (at2, di2, V2) = Inr (Inr (), (at3, di3, V3))"
            "init_step pf a (at3, di3, V3) = Inr (r1, (attr, do_init, U))"
        unfolding until_exit_Cons [of "region_step pf a"] until_exit_single by auto
      then show ?thesis
      proof cases
        case 1
        then show ?thesis using region_outcome [OF W alloc M(1) 1(1) [unfolded M(2)]] not_bare by auto
      next
        case i: 2
        have "ready pf config a W1 (at3, di3, V3)" using region_outcome [OF W alloc M(1) i(1) [unfolded M(2)]] by simp
        note D = init_outcome [OF this i(2)]
        have r1: "r1 = Inr ()" using D not_bare by blast
        have I: "named config \<longrightarrow>
            (\<exists>s i l. c_str (cf_name config) = Inr s \<and> lw_objs U a = Some l \<and>
              place_of (lw_proc U) a (ro_rwlock l) = Some (In_region i) \<and> kn_names (lw_kernel U) (rwlock_path s) = Some i \<and>
              owns (region_mode (cf_mode config)) di3 \<and>
              (if di3 then lw_locks U = (lw_locks W1)(In_region i \<mapsto> default_attr at3) \<and> (pf Attr_init \<or> (\<exists>k. at3 = Some (k, True)))
               else lw_locks U = lw_locks W1 \<and> kn_names (lw_kernel W1) (rwlock_path s) = Some i))"
          using D not_bare by blast
        have "pf Attr_init \<or> snd (default_attr at3)" if "pf Attr_init \<or> (\<exists>k. at3 = Some (k, True))"
          using that by (auto simp: default_attr_def)
        then have "rwlock_made pf config W a U"
          using I obj_alloc_ok(5,6) [OF W(1) alloc] unfolding rwlock_made_def by (metis (no_types, lifting))
        then show ?thesis using res r1 by auto
      qed
    qed
  qed
qed

section \<open>Locks shared by name\<close>

definition rw_ok :: "rw_world \<Rightarrow> bool" where
  "rw_ok W \<longleftrightarrow> world_ok W \<and> fresh_locks W"

lemma rwlock_xp_made:
  assumes W: "rw_ok W" and s: "c_str name = Inr s" and run: "rwlock_xp mode fl pf name W = Inr (Inr a, W')"
  shows "rwlock_made pf \<lparr>cf_name = name, cf_mode = mode, cf_kind = KIND_NONE\<rparr> W a W'"
proof -
  have "rwlock_initialize_object fl pf \<lparr>cf_name = name, cf_mode = mode, cf_kind = KIND_NONE\<rparr> W = Inr (Inr a, W')"
    using run s by (auto simp: rwlock_xp_def c_str_def split: if_splits option.splits)
  from rwlock_outcome [OF _ _ this] show ?thesis using W by (auto simp: rw_ok_def)
qed

text \<open>When the attributes can be initialised, a created lock is for use by several processes.\<close>

interpretation rwlock_xp: named_lock "\<lambda>fl pf. cplus_rwlock_xp_create fl (pf(Attr_init := False))" cplus_rwlock_xp_open
    ro_rwlock snd rwlock_path rw_ok
proof
  fix W W' :: rw_world and name s fl pf a
  assume "rw_ok W" and s: "c_str name = Inr s" and "cplus_rwlock_xp_create fl (pf(Attr_init := False)) name W = Inr (Inr a, W')"
  then have M: "rwlock_made (pf(Attr_init := False)) \<lparr>cf_name = name, cf_mode = MODE_CREATE, cf_kind = KIND_NONE\<rparr> W a W'"
    by (simp add: cplus_rwlock_xp_create_def rwlock_xp_made)
  have "name \<noteq> None" using s by (auto simp: c_str_def split: option.splits)
  then show "\<exists>obj i attr. lw_objs W' a = Some obj \<and> place_of (lw_proc W') a (ro_rwlock obj) = Some (In_region i) \<and>
      kn_names (lw_kernel W') (rwlock_path s) = Some i \<and> lw_locks W' (In_region i) = Some attr \<and> snd attr"
    using M s by (auto simp: rwlock_made_def named_def owns_def region_mode_def split: if_splits)
next
  fix W W' :: rw_world and name s fl pf a
  assume "rw_ok W" and s: "c_str name = Inr s" and "cplus_rwlock_xp_open fl pf name W = Inr (Inr a, W')"
  then have M: "rwlock_made pf \<lparr>cf_name = name, cf_mode = MODE_OPEN, cf_kind = KIND_NONE\<rparr> W a W'"
    by (simp add: cplus_rwlock_xp_open_def rwlock_xp_made)
  have "name \<noteq> None" using s by (auto simp: c_str_def split: option.splits)
  then show "\<exists>obj i. lw_objs W' a = Some obj \<and> place_of (lw_proc W') a (ro_rwlock obj) = Some (In_region i) \<and>
      kn_names (lw_kernel W) (rwlock_path s) = Some i \<and> lw_locks W' = lw_locks W"
    using M s by (auto simp: rwlock_made_def named_def owns_def region_mode_def split: if_splits)
qed

section \<open>Properties\<close>

text \<open>
  Two processes that name the same lock use the same POSIX lock, initialised for use by several
  processes.
\<close>

lemma rwlock_processes_share:
  assumes "rw_ok W" "cplus_rwlock_xp_create fl (pf(Attr_init := False)) name W = Inr (Inr a, W1)" "c_str name = Inr s"
    and "rw_ok V" "lw_kernel V = lw_kernel W1" "lw_locks V = lw_locks W1"
    and "cplus_rwlock_xp_open fl' pf' name V = Inr (Inr b, V1)"
  shows "\<exists>x y l attr. lw_objs W1 a = Some x \<and> lw_objs V1 b = Some y \<and>
    place_of (lw_proc W1) a (ro_rwlock x) = Some l \<and> place_of (lw_proc V1) b (ro_rwlock y) = Some l \<and>
    lw_locks V1 l = Some attr \<and> snd attr"
  using rwlock_xp.processes_share [OF assms(1,2,4-7) assms(3,3) refl] .

text \<open>
  A construction that fails never reports it: \<^verbatim>\<open>rwlock_initialize_object\<close> returns an object
  or does not return.  Without memory the destructor is called with a null pointer and its
  assertion fails, and after any other failure it destroys a lock that was not initialised.
\<close>

theorem rwlock_failure_never_reported:
  assumes "rw_ok W"
  shows "rwlock_initialize_object fl pf config W \<noteq> Inr (Inl e, W')"
proof
  assume "rwlock_initialize_object fl pf config W = Inr (Inl e, W')"
  from rwlock_outcome [OF _ _ this] show False using assms by (auto simp: rw_ok_def)
qed

lemma example_rw_ok: "rw_ok (example_world pid example_kernel (\<lambda>l. None))"
  by (simp add: rw_ok_def example_world_ok fresh_locks_def) (simp add: example_world_def example_proc_def MAP_FAILED_def)

lemma rwlock_failure_never_reported_witness:
  "rwlock_initialize_object no_failures (\<lambda>c. c = Lock_init) \<lparr>cf_name = None, cf_mode = MODE_NONE, cf_kind = KIND_PREFER_WRITER\<rparr>
      (example_world 7 example_kernel (\<lambda>l. None)) = Inl Undefined \<and>
   rwlock_initialize_object no_failures (\<lambda>c. c = Lock_init) \<lparr>cf_name = None, cf_mode = MODE_NONE, cf_kind = KIND_PREFER_WRITER\<rparr>
      (example_world 7 example_kernel (\<lambda>l. None)) \<noteq> Inr (Inl ENOMEM, example_world 7 example_kernel (\<lambda>l. None))"
proof
  show "rwlock_initialize_object no_failures (\<lambda>c. c = Lock_init) \<lparr>cf_name = None, cf_mode = MODE_NONE, cf_kind = KIND_PREFER_WRITER\<rparr>
      (example_world 7 example_kernel (\<lambda>l. None)) = Inl Undefined"
    by (simp add: rwlock_initialize_object_def obj_alloc_def example_world_def example_proc_def cplus_mgr_malloc_def
        kind_step_def with_attr_def memory_step_def region_step_def init_step_def cplus_rwlock_delete_def
        delete_named_def lock_destroy_def place_of_def)
qed (rule rwlock_failure_never_reported [OF example_rw_ok])

end
