(* ===== verification/Spec2Isabelle.thy ===== *)
theory Spec2Isabelle
  imports Spinlock Systime Llist_Props Data_Type Data_Group Ipc_Props Pevent_New Task_New Workers File Event_Server Ipc_Server Syslog
    Memtrack_Props Keyed_Props Rwlock Mutex Rwlock_New
begin

text \<open>
  \<^bold>\<open>A verification development for libcplus\<close>

  libcplus is a C utility library (\<^verbatim>\<open>src/*.c\<close>, interfaces in \<^verbatim>\<open>cplus/*.h\<close>): memory management,
  fixed-size block pools, linked lists, tagged values, clocks, and, on top of these, tasks and
  task pools, semaphores, mutexes, reader-writer locks, events, named shared memory, files, an
  event server, an IPC server and a logger.  This development models them and proves what
  makes each part correct; where the code departs from what its interface promises, a theorem
  states what it does instead.

  \<^bold>\<open>How the parts depend on each other.\<close>  Nodes of a linked list come from the heap or from a
  memory pool (locale \<open>block_allocator\<close>, interpreted on both and on the tracked heap).  The keyed list and the group
  nodes put tagged values into lists.  A task pool is a list with pre-allocated nodes, a memory
  pool for its entries and a semaphore for its workers; what it does to its queue is stated
  once, in the locale \<open>pooled_queue\<close>, whose interpretation on the model of the task pool serves
  the workers, the connections of the IPC server and the messages of the logger.  Mutex,
  reader-writer lock and event are made by the same steps, alone or in named shared memory
  (locale \<open>named_lock\<close>, interpreted on each of the three).  Files, semaphores and shared memory
  stand on kernels with names, descriptors and counters.

  \<^bold>\<open>Theories and what they model.\<close>

  \<^item> \<^verbatim>\<open>Prelude\<close>: C integer types as words, \<open>errno\<close> values, the two result types.  A call that
    returns is \<open>errno + 'a\<close> (\<open>'a cresult\<close>): \<open>Inl e\<close> for a failure return with \<open>errno\<close> set to
    \<open>e\<close> (\<open>ENONE\<close> when it is left alone).  A call that may not return a value is
    \<open>fault + 'a\<close> (\<open>'a exec\<close>) or, in the pointer programs, an \<open>option\<close> with \<open>None\<close> for a null
    dereference or a loop that does not end.
  \<^item> \<^verbatim>\<open>Bytes\<close>: byte-addressed memory, little-endian 32-bit access, disjoint regions.
  \<^item> \<^verbatim>\<open>Allocator\<close>: what a client may rely on when it allocates and frees, interpreted on the
    heap (\<^verbatim>\<open>cplus_mgr_malloc\<close>, \<^verbatim>\<open>cplus_mgr_free\<close> of \<^verbatim>\<open>src/memmgr.c\<close>) here and on the pool in
    \<^verbatim>\<open>Mempool\<close>.  \<^verbatim>\<open>Parts\<close>: objects another object only makes and releases, as numbers.
  \<^item> \<^verbatim>\<open>Clib\<close>: buffers as byte lists; the checked copies and the formatted print of
    \<^verbatim>\<open>src/memmgr.c\<close>; object representation of words; C strings; printing and scanning of
    integers as glibc does them, with the round trip between them.
  \<^item> \<^verbatim>\<open>Spinlock\<close>: the lock macros of \<^verbatim>\<open>src/mempool.c\<close> and \<^verbatim>\<open>src/data.c\<close> as a step relation
    over the program counters of any number of threads, with the file-level variable
    \<open>spin_down\<close> they all share and the write-back of a failed compare-and-exchange.  Mutual
    exclusion holds on runs without a failed exchange and fails after one.
  \<^item> \<^verbatim>\<open>Systime\<close>: \<^verbatim>\<open>src/systime.c\<close>; tick arithmetic across the wrap-around, absolute deadlines,
    the resumed sleep, the calendar conversion.
  \<^item> \<^verbatim>\<open>Mempool\<close>: \<^verbatim>\<open>src/mempool.c\<close>.  The free list is threaded through the free blocks
    themselves and initialised lazily; the invariant relates the bytes in memory to an abstract
    list of free indices, and every operation is described on that list.
  \<^item> \<^verbatim>\<open>Memtrack\<close>: \<^verbatim>\<open>src/memmgr.c\<close> with \<^verbatim>\<open>__CPLUS_MEM_MANAGER__\<close>: each block between two tags in a
    raw heap, and a list of records.  \<^verbatim>\<open>Memtrack_Lemmas\<close> has the invariant, \<^verbatim>\<open>Memtrack_Props\<close> what
    the checks and the report find for every sequence of calls.
  \<^item> \<^verbatim>\<open>Llist\<close>: all list operations of \<^verbatim>\<open>src/llist.c\<close> on a store of nodes with the list's
    cursor (\<open>ls_current\<close>, \<open>ls_cur_index\<close>); \<^verbatim>\<open>Llist_Rep\<close> relates the doubly linked nodes to the
    list of client pointers (\<open>lrep\<close>) and states when the cursor is in step with its index
    (\<open>synced\<close>); \<^verbatim>\<open>Llist_Ops\<close> gives insertion and removal at an index, \<^verbatim>\<open>Llist_Search\<close> the
    forward scans through one locale with four interpretations, \<^verbatim>\<open>Llist_Sort\<close> the exchange
    sort, \<^verbatim>\<open>Llist_Deque\<close> the refinement of bounded deques by pre-allocated lists, and
    \<^verbatim>\<open>Llist_Props\<close> the remaining properties of the interface.  \<^verbatim>\<open>Keyed\<close> and \<^verbatim>\<open>Keyed_Props\<close>: the
    functions of the same file on lists of values with keys, and the map they implement.
  \<^item> \<^verbatim>\<open>Data\<close>, \<^verbatim>\<open>Data_Conv\<close>: \<^verbatim>\<open>src/data.c\<close>.  \<^verbatim>\<open>struct data\<close> with its tag and union is the
    record \<open>data\<close> with the datatype \<open>data_value\<close>; \<^verbatim>\<open>Data\<close> has construction, keys, untyped and
    typed access, cloning and byte swapping, \<^verbatim>\<open>Data_Conv\<close> the converting accessors.
    \<^verbatim>\<open>Data_Lemmas\<close> and \<^verbatim>\<open>Data_Props\<close> prove round trips through every representation and the
    paths on which the lock or the result code go wrong, \<^verbatim>\<open>Data_Type\<close> that every call keeps
    the tag and the shape of the value, \<^verbatim>\<open>Data_Group\<close> the nodes that own a list of values.
  \<^item> \<^verbatim>\<open>Ipc_Packet\<close>: the packet layer of \<^verbatim>\<open>src/ipc_server.c\<close>, from \<^verbatim>\<open>cplus_ipc_send_packet\<close> to
    the stage machine that takes a stream apart, and the stream part of \<^verbatim>\<open>src/socket.c\<close> it
    rests on; \<^verbatim>\<open>Ipc_Lemmas\<close> runs the machine over one packet, \<^verbatim>\<open>Ipc_Answer\<close> has what a server
    answers, \<^verbatim>\<open>Ipc_Client\<close> the client's calls, \<^verbatim>\<open>Ipc_Props\<close> the properties.  \<^verbatim>\<open>Ipc_Server\<close>: the
    objects of the same file, and the rounds of the accepting and receiving task.
  \<^item> \<^verbatim>\<open>Event_Server\<close>: \<^verbatim>\<open>src/event_server.c\<close>, a counter of the kernel polled by a task, and its
    clients in other processes.  \<^verbatim>\<open>File\<close>: \<^verbatim>\<open>src/file.c\<close> over names, files and positions.
  \<^item> \<^verbatim>\<open>Semaphore\<close>: \<^verbatim>\<open>src/semaphore.c\<close> over counters with and without names; calls that
    overlap are sequences of system calls.  \<^verbatim>\<open>Taskpool\<close>: the
    queue of \<^verbatim>\<open>src/taskpool.c\<close> and the rounds of its workers.  \<^verbatim>\<open>Workers\<close>: the list of workers,
    construction and deletion of pools.  \<^verbatim>\<open>Syslog\<close>: the logger of \<^verbatim>\<open>src/syslog.c\<close>.
  \<^item> \<^verbatim>\<open>Task\<close>: \<^verbatim>\<open>src/task.c\<close>, the thread of a task and the calls that steer it as steps of two
    sides.  \<^verbatim>\<open>Task_New\<close>: construction and deletion of tasks, and what a procedure asks about its task.
  \<^item> \<^verbatim>\<open>Sharedmem\<close>, \<^verbatim>\<open>Sharedmem_Props\<close>: \<^verbatim>\<open>src/sharedmem.c\<close> over a kernel of named objects and
    processes with descriptors and mappings.  \<^verbatim>\<open>Named_Lock\<close>: the steps of construction that
    locks share.  \<^verbatim>\<open>Mutex\<close> (\<^verbatim>\<open>src/mutex.c\<close>), \<^verbatim>\<open>Rwlock\<close> and \<^verbatim>\<open>Rwlock_New\<close> (\<^verbatim>\<open>src/rwlock.c\<close>), \<^verbatim>\<open>Pevent\<close>
    and \<^verbatim>\<open>Pevent_New\<close> (\<^verbatim>\<open>src/pevent.c\<close>): use by any number of threads as step relations, and
    construction, sharing by name and deletion.

  \<^bold>\<open>Bounds and termination.\<close>  Loops over nodes, packets, workers, connections and records are
  \<open>partial_function (option)\<close> or recursions on a count or a list the code walks; the theorems
  about them state that they return.  The one fuel is that of the walk over paused workers, the
  number of workers and one more, which is enough because each step moves to the next worker.
  Waiting is a value: how long a call waits, what a receive delivers, how much a send takes and
  when a timer expires are arguments.  Words have the width of the C type; lists and pools are
  bounded by the 32-bit counters the code keeps.

  \<^bold>\<open>Parameters.\<close>  Code outside the repository enters as arguments: clock readings, the
  outcome and contents of allocations, which system calls fail and with what, client
  procedures, comparators and matchers, floating-point arithmetic and formats (the record
  \<open>clib\<close>, on bit patterns).  Memory tracking (\<^verbatim>\<open>__CPLUS_MEM_MANAGER__\<close>) is off except in
  \<^verbatim>\<open>Memtrack\<close>.  Objects passed to an operation are live and of its type, unless a theorem says
  otherwise.

  \<^bold>\<open>Not modelled.\<close>
  \<^verbatim>\<open>src/atomic.c\<close> wraps compiler intrinsics, \<^verbatim>\<open>src/sys.c\<close> and \<^verbatim>\<open>src/helper.c\<close> wrap system calls and
  keep no state.  \<^verbatim>\<open>src/cplus.c\<close> selects an operation by the tag of its argument, which the
  operation checks again.  Of \<^verbatim>\<open>src/socket.c\<close> only what the IPC server needs of sending and receiving
  on a stream is modelled: the rest hands addresses and descriptors to system calls.
  \<^verbatim>\<open>cplus_data_get_as_pointer\<close> is a comment in the source; the part of \<^verbatim>\<open>src/syslog.c\<close> under
  \<^verbatim>\<open>SUPPORT_SYSLOG\<close> is not compiled.  \<^verbatim>\<open>src/unittest.c\<close> and the unit tests at the end of each file
  are tests.
\<close>

end
